(* ===== verification/Prelude.thy ===== *)
theory Prelude
  imports
    Complex_Main
    "HOL-Library.AList"
    "HOL-Library.List_Lexorder"
    "HOL-Library.Char_ord"
    "HOL-Library.Product_Lexorder"
begin

text \<open>
  What every component theory shares: the error monad in which the code's exceptions and early
  returns are written, tables of rows with a key (the shape of every database table the services
  use) and their totals, and the half-even rounding of a rational number.
  The collections: \<open>result_simps\<close> takes a fallible computation apart in simplification,
  \<open>db_simps\<close> reads the fields of an updated database, \<open>inv_intros\<close> holds the preservation lemmas
  of the invariants.
\<close>

named_theorems result_simps "decomposition of fallible computations"
named_theorems db_simps "reading the tables of an updated database"
named_theorems inv_intros "preservation of invariants"

section \<open>Fallible computations\<close>

text \<open>A thrown exception is the left summand, a returned value the right one.\<close>

definition ebind :: "'e + 'a \<Rightarrow> ('a \<Rightarrow> 'e + 'b) \<Rightarrow> 'e + 'b" where
  "ebind m f = (case m of Inl e \<Rightarrow> Inl e | Inr x \<Rightarrow> f x)"

definition ensure :: "bool \<Rightarrow> 'e \<Rightarrow> 'e + unit" where
  "ensure b e = (if b then Inr () else Inl e)"

definition of_option :: "'e \<Rightarrow> 'a option \<Rightarrow> 'e + 'a" where
  "of_option e v = (case v of None \<Rightarrow> Inl e | Some x \<Rightarrow> Inr x)"

lemma ebind_simps [simp]:
  "ebind (Inl e) f = Inl e"
  "ebind (Inr x) f = f x"
  by (simp_all add: ebind_def)

lemma ensure_simps [simp]:
  "ensure True e = Inr ()"
  "ensure False e = Inl e"
  by (simp_all add: ensure_def)

lemma of_option_simps [simp]:
  "of_option e None = Inl e"
  "of_option e (Some x) = Inr x"
  by (simp_all add: of_option_def)

lemma ebind_eq_Inr [result_simps]:
  "ebind m f = Inr y \<longleftrightarrow> (\<exists>x. m = Inr x \<and> f x = Inr y)"
  by (cases m) auto

lemma ebindE:
  assumes "ebind m f = Inr y"
  obtains x where "m = Inr x" "f x = Inr y"
  using assms by (auto simp: ebind_eq_Inr)

lemma ebind_eq_Inl:
  "ebind m f = Inl e \<longleftrightarrow> m = Inl e \<or> (\<exists>x. m = Inr x \<and> f x = Inl e)"
  by (cases m) auto

lemma ensure_eq_Inr [result_simps]: "ensure b e = Inr u \<longleftrightarrow> b"
  by (cases b) auto

lemma ensure_eq_Inl [result_simps]: "ensure b e = Inl e' \<longleftrightarrow> \<not> b \<and> e' = e"
  by (cases b) auto

lemma of_option_eq_Inr [result_simps]: "of_option e v = Inr x \<longleftrightarrow> v = Some x"
  by (cases v) auto

lemma of_option_eq_Inl [result_simps]: "of_option e v = Inl e' \<longleftrightarrow> v = None \<and> e' = e"
  by (cases v) auto

lemma ebind_cong [fundef_cong]:
  "m = m' \<Longrightarrow> (\<And>x. m' = Inr x \<Longrightarrow> f x = g x) \<Longrightarrow> ebind m f = ebind m' g"
  by (cases m') auto

section \<open>Tables of rows\<close>

text \<open>
  A table is a list of rows. \<open>SELECT \<dots> WHERE id = k\<close> is \<open>find\<close>, \<open>UPDATE \<dots> WHERE\<close> is
  \<open>modify\<close> and \<open>SUM(\<dots>) \<dots> WHERE\<close> is \<open>total\<close>.
\<close>

definition modify :: "('r \<Rightarrow> bool) \<Rightarrow> ('r \<Rightarrow> 'r) \<Rightarrow> 'r list \<Rightarrow> 'r list" where
  "modify p f rs = map (\<lambda>r. if p r then f r else r) rs"

definition total :: "('r \<Rightarrow> 'm::comm_monoid_add) \<Rightarrow> ('r \<Rightarrow> bool) \<Rightarrow> 'r list \<Rightarrow> 'm" where
  "total g p rs = sum_list (map g (filter p rs))"

lemma modify_simps [simp]:
  "modify p f [] = []"
  "modify p f (r # rs) = (if p r then f r else r) # modify p f rs"
  "modify p f (rs @ rs') = modify p f rs @ modify p f rs'"
  "length (modify p f rs) = length rs"
  by (simp_all add: modify_def)

lemma total_simps [simp]:
  "total g p [] = 0"
  "total g p (r # rs) = (if p r then g r else 0) + total g p rs"
  "total g p (rs @ rs') = total g p rs + total g p rs'"
  by (simp_all add: total_def)

lemma set_modify: "set (modify p f rs) = f ` {r \<in> set rs. p r} \<union> {r \<in> set rs. \<not> p r}"
  by (induction rs) auto

lemma in_set_modifyE:
  assumes "r' \<in> set (modify p f rs)"
  obtains r where "r \<in> set rs" "r' = (if p r then f r else r)"
  using assms by (auto simp: modify_def)

lemma map_modify:
  "(\<And>r. p r \<Longrightarrow> h (f r) = h r) \<Longrightarrow> map h (modify p f rs) = map h rs"
  by (induction rs) auto

lemma modify_id: "(\<And>r. r \<in> set rs \<Longrightarrow> \<not> p r) \<Longrightarrow> modify p f rs = rs"
  by (induction rs) auto

lemma total_cong:
  "(\<And>r. r \<in> set rs \<Longrightarrow> p r = q r) \<Longrightarrow> (\<And>r. r \<in> set rs \<Longrightarrow> q r \<Longrightarrow> g r = h r)
    \<Longrightarrow> total g p rs = total h q rs"
  by (induction rs) auto

lemma total_none: "(\<And>r. r \<in> set rs \<Longrightarrow> \<not> p r) \<Longrightarrow> total g p rs = 0"
  by (induction rs) auto

lemma total_nonneg:
  fixes g :: "'r \<Rightarrow> 'm::ordered_comm_monoid_add"
  shows "(\<And>r. r \<in> set rs \<Longrightarrow> p r \<Longrightarrow> 0 \<le> g r) \<Longrightarrow> 0 \<le> total g p rs"
  by (induction rs) auto

lemma total_modify_same:
  "(\<And>r. q r \<Longrightarrow> p (f r) = p r) \<Longrightarrow> (\<And>r. q r \<Longrightarrow> p r \<Longrightarrow> g (f r) = g r)
    \<Longrightarrow> total g p (modify q f rs) = total g p rs"
  by (induction rs) auto

lemma find_Some_in_set: "find p rs = Some r \<Longrightarrow> r \<in> set rs \<and> p r"
  by (auto simp: find_Some_iff)

lemma find_key_unique:
  "distinct (map key rs) \<Longrightarrow> r \<in> set rs \<Longrightarrow> find (\<lambda>r'. key r' = key r) rs = Some r"
  by (induction rs) (auto simp: image_iff)

lemma find_modify:
  "(\<And>r. key (f r) = key r)
    \<Longrightarrow> find (\<lambda>r. key r = k) (modify (\<lambda>r. key r = k') f rs)
      = (if k = k' then map_option f (find (\<lambda>r. key r = k) rs) else find (\<lambda>r. key r = k) rs)"
  by (induction rs) auto

lemma find_append: "find p (rs @ rs') = (case find p rs of None \<Rightarrow> find p rs' | Some r \<Rightarrow> Some r)"
  by (induction rs) auto

lemma modify_key_absent:
  "k \<notin> key ` set rs \<Longrightarrow> modify (\<lambda>r. key r = k) f rs = rs"
  by (rule modify_id) auto

text \<open>What an update of one row does to a total: the row's old share goes, its new one comes.\<close>

lemma total_modify_key:
  fixes g :: "'r \<Rightarrow> 'm::ab_group_add"
  assumes "distinct (map key rs)" and "find (\<lambda>r. key r = k) rs = Some r"
  shows "total g p (modify (\<lambda>r. key r = k) f rs)
    = total g p rs - (if p r then g r else 0) + (if p (f r) then g (f r) else 0)"
  using assms
proof (induction rs)
  case Nil
  then show ?case by simp
next
  case (Cons x rs)
  show ?case
  proof (cases "key x = k")
    case True
    with Cons.prems have "x = r" and "k \<notin> key ` set rs" by auto
    with True show ?thesis by (simp add: modify_key_absent)
  next
    case False
    with Cons show ?thesis by (simp add: algebra_simps)
  qed
qed

section \<open>Insertion-ordered maps\<close>

text \<open>\<open>Map.set\<close> of a map that is iterated in insertion order is \<open>AList.update\<close>.\<close>

lemma set_alist_update: "set (AList.update k v xs) \<subseteq> insert (k, v) (set xs)"
  by (induction xs) auto

lemma alist_update_fresh: "k \<notin> fst ` set xs \<Longrightarrow> AList.update k v xs = xs @ [(k, v)]"
  by (induction xs) auto

section \<open>Half-even rounding\<close>

definition half_even :: "rat \<Rightarrow> int" where
  "half_even x =
     (let f = \<lfloor>x\<rfloor>; r = x - of_int f
      in if r < 1/2 then f else if r > 1/2 then f + 1 else if even f then f else f + 1)"

lemma half_even_of_int [simp]: "half_even (of_int n) = n"
  by (simp add: half_even_def)

lemma half_even_numeral [simp]:
  "half_even 0 = 0" "half_even 1 = 1" "half_even (numeral w) = numeral w"
  using half_even_of_int[of 0] half_even_of_int[of 1] half_even_of_int[of "numeral w"] by simp_all

lemma half_even_error: "\<bar>of_int (half_even x) - x\<bar> \<le> 1/2"
proof -
  have "of_int \<lfloor>x\<rfloor> \<le> x" "x < of_int \<lfloor>x\<rfloor> + 1" by linarith+
  then show ?thesis unfolding half_even_def Let_def by auto
qed

lemma half_even_tie: "x - of_int \<lfloor>x\<rfloor> = 1/2 \<Longrightarrow> even (half_even x)"
  by (auto simp: half_even_def Let_def)

lemma half_even_nearest:
  assumes "\<bar>of_int n - x\<bar> < 1/2"
  shows "half_even x = n"
proof -
  have "\<bar>of_int (half_even x) - (of_int n :: rat)\<bar> < 1"
    using half_even_error[of x] assms by linarith
  then have "\<bar>half_even x - n\<bar> < 1"
    by (metis of_int_abs of_int_diff of_int_less_1_iff)
  then show ?thesis by simp
qed

lemma half_even_mono:
  assumes "x \<le> y" shows "half_even x \<le> half_even y"
proof -
  have "\<lfloor>x\<rfloor> \<le> \<lfloor>y\<rfloor>" using assms by (rule floor_mono)
  then consider "\<lfloor>x\<rfloor> = \<lfloor>y\<rfloor>" | "\<lfloor>x\<rfloor> + 1 \<le> \<lfloor>y\<rfloor>" by linarith
  then show ?thesis
  proof cases
    case 1
    then show ?thesis using assms by (auto simp: half_even_def Let_def)
  next
    case 2
    have "half_even x \<le> \<lfloor>x\<rfloor> + 1" and "\<lfloor>y\<rfloor> \<le> half_even y"
      by (auto simp: half_even_def Let_def)
    with 2 show ?thesis by linarith
  qed
qed

lemma half_even_nonneg: "0 \<le> x \<Longrightarrow> 0 \<le> half_even x"
  using half_even_mono[of 0 x] half_even_of_int[of 0] by simp

lemma half_even_le_int: "x \<le> of_int n \<Longrightarrow> half_even x \<le> n"
  using half_even_mono[of x "of_int n"] by simp

lemma half_even_ge_int: "of_int n \<le> x \<Longrightarrow> n \<le> half_even x"
  using half_even_mono[of "of_int n" x] by simp

lemma half_even_minus: "half_even (- x) = - half_even x"
proof (cases "x = of_int \<lfloor>x\<rfloor>")
  case True
  then have "half_even (- x) = half_even (of_int (- \<lfloor>x\<rfloor>))" by simp
  moreover have "half_even x = half_even (of_int \<lfloor>x\<rfloor>)" using True by simp
  ultimately show ?thesis by (simp only: half_even_of_int)
next
  case False
  then have "\<lfloor>- x\<rfloor> = - \<lfloor>x\<rfloor> - 1" by linarith
  then show ?thesis by (auto simp: half_even_def Let_def)
qed

end
