(* ===== verification/Shared.thy ===== *)
theory Shared
  imports Prelude
begin

text \<open>
  \<^verbatim>\<open>src/core/shared\<close>: the application error model (\<^verbatim>\<open>errors.ts\<close>), invariant violations
  (\<^verbatim>\<open>invariant.ts\<close>) and the clock and transaction ports (\<^verbatim>\<open>ports.ts\<close>).
  Every exception the modelled code can throw is an \<open>exn\<close>: an \<open>AppError\<close> with its code and
  subcode (its message text is not modelled), a violated invariant with the fixed words of its
  message, a constraint violation raised by the database, or another \<open>Error\<close>.
  A timestamp is its number of milliseconds; a row identifier is a number.
\<close>

type_synonym time = int
type_synonym uuid = nat

datatype error_code =
    VALIDATION | AUTH_REQUIRED | FORBIDDEN | NOT_FOUND | DOMAIN_RULE | PROVIDER_UNAVAILABLE
  | PROVIDER_TIMEOUT | CONFLICT | RATE_LIMITED | INTERNAL

datatype domain_subcode =
    INSUFFICIENT_BUYING_POWER | INSUFFICIENT_HOLDINGS | INVALID_QUANTITY | INVALID_LIMIT_PRICE
  | UNKNOWN_SYMBOL | MARKET_CLOSED | STALE_QUOTE | INVALID_STATE_TRANSITION
  | ORDER_NOT_CANCELLABLE | ACCOUNT_NOT_ACTIVE | INVALID_STARTING_CASH | ACCOUNT_EXISTS
  | INSTRUMENT_INACTIVE | NO_ACCOUNT | INVALID_AMOUNT | AMOUNT_TOO_SMALL | AMOUNT_TOO_LARGE
  | DEPOSIT_LIMIT | INSUFFICIENT_WITHDRAWABLE | IDEMPOTENCY_CONFLICT | INVALID_ALERT_PRICE
  | ALERT_LIMIT_REACHED

fun error_http_status :: "error_code \<Rightarrow> nat" where
  "error_http_status VALIDATION = 422"
| "error_http_status AUTH_REQUIRED = 401"
| "error_http_status FORBIDDEN = 403"
| "error_http_status NOT_FOUND = 404"
| "error_http_status DOMAIN_RULE = 422"
| "error_http_status PROVIDER_UNAVAILABLE = 502"
| "error_http_status PROVIDER_TIMEOUT = 504"
| "error_http_status CONFLICT = 409"
| "error_http_status RATE_LIMITED = 429"
| "error_http_status INTERNAL = 500"

datatype exn =
    AppError error_code "domain_subcode option"
  | InvariantViolation string
  | ConstraintViolation string
  | TransferRejected string
  | ProviderUnavailable
  | UnknownSymbol
  | JsError string

type_synonym 'a result = "exn + 'a"

text \<open>\<open>invariant(condition, message)\<close>.\<close>

definition invariant :: "bool \<Rightarrow> string \<Rightarrow> unit result" where
  "invariant c msg = ensure c (InvariantViolation msg)"

definition app_error :: "error_code \<Rightarrow> domain_subcode \<Rightarrow> 'a result" where
  "app_error c sc = Inl (AppError c (Some sc))"

lemma invariant_simps [simp]:
  "invariant True msg = Inr ()"
  "invariant False msg = Inl (InvariantViolation msg)"
  by (simp_all add: invariant_def)

lemma invariant_eq_Inr [result_simps]: "invariant c msg = Inr u \<longleftrightarrow> c"
  by (simp add: invariant_def result_simps)

lemma invariant_eq_Inl [result_simps]:
  "invariant c msg = Inl e \<longleftrightarrow> \<not> c \<and> e = InvariantViolation msg"
  by (simp add: invariant_def result_simps)

lemma app_error_simps [simp]:
  "app_error c sc \<noteq> Inr x"
  "app_error c sc = Inl e \<longleftrightarrow> e = AppError c (Some sc)"
  by (auto simp: app_error_def)

section \<open>Transactions\<close>

text \<open>
  \<open>TransactionRunner.run\<close>: the callback works on the database; when it throws, the transaction is
  rolled back and the database is as before.
\<close>

definition run_tx :: "('d \<Rightarrow> ('a \<times> 'd) result) \<Rightarrow> 'd \<Rightarrow> 'a result \<times> 'd" where
  "run_tx f d = (case f d of Inl e \<Rightarrow> (Inl e, d) | Inr (x, d') \<Rightarrow> (Inr x, d'))"

lemma run_tx_simps [simp]:
  "f d = Inl e \<Longrightarrow> run_tx f d = (Inl e, d)"
  "f d = Inr (x, d') \<Longrightarrow> run_tx f d = (Inr x, d')"
  by (simp_all add: run_tx_def)

lemma run_tx_cases:
  obtains (committed) x d' where "f d = Inr (x, d')" "run_tx f d = (Inr x, d')"
  | (rolled_back) e where "f d = Inl e" "run_tx f d = (Inl e, d)"
  by (cases "f d") (auto simp: run_tx_def)

end
