(* ===== verification/Js_Text.thy ===== *)
theory Js_Text
  imports Prelude
begin

text \<open>
  Decimal numbers as text: the digit strings JavaScript's \<open>BigInt(s)\<close>, \<open>n.toString()\<close>,
  \<open>s.split(".")\<close>, \<open>padStart\<close> and \<open>padEnd\<close> work on, the shape the code's decimal regular
  expressions accept (\<open>match_decimal\<close>), and the canonical fixed-point form \<open>toFixed(dp)\<close> gives
  an exact value of \<open>dp\<close> places (\<open>fixed_text\<close>). The main lemma is the round trip
  \<open>scaled_fixed_text\<close>.
\<close>

section \<open>Digits\<close>

definition is_digit :: "char \<Rightarrow> bool" where
  "is_digit c \<longleftrightarrow> of_char c \<ge> (48::nat) \<and> of_char c \<le> (57::nat)"

definition digit_char :: "nat \<Rightarrow> char" where
  "digit_char d = char_of (48 + d)"

definition digit_val :: "char \<Rightarrow> nat" where
  "digit_val c = of_char c - 48"

lemma of_char_digit_char [simp]: "d < 10 \<Longrightarrow> of_char (digit_char d) = 48 + d"
  by (simp add: digit_char_def)

lemma is_digit_digit_char [simp]: "d < 10 \<Longrightarrow> is_digit (digit_char d)"
  by (simp add: is_digit_def)

lemma digit_val_digit_char [simp]: "d < 10 \<Longrightarrow> digit_val (digit_char d) = d"
  by (simp add: digit_val_def)

lemma not_digit_punctuation [simp]:
  "\<not> is_digit (CHR ''.'')" "\<not> is_digit (CHR ''-'')"
  by (simp_all add: is_digit_def)

lemma is_digit_zero [simp]: "is_digit (CHR ''0'')" and digit_val_zero [simp]: "digit_val (CHR ''0'') = 0"
  by (simp_all add: is_digit_def digit_val_def)

fun show_nat :: "nat \<Rightarrow> string" where
  "show_nat n = (if n < 10 then [digit_char n] else show_nat (n div 10) @ [digit_char (n mod 10)])"

declare show_nat.simps [simp del]

definition read_nat :: "string \<Rightarrow> nat" where
  "read_nat s = foldl (\<lambda>a c. a * 10 + digit_val c) 0 s"

lemma read_nat_simps [simp]:
  "read_nat [] = 0"
  "read_nat (s @ [c]) = read_nat s * 10 + digit_val c"
  by (simp_all add: read_nat_def)

lemma foldl_digits_shift:
  "foldl (\<lambda>a c. a * 10 + digit_val c) n s = n * 10 ^ length s + read_nat s"
proof (induction s rule: rev_induct)
  case Nil
  then show ?case by simp
next
  case (snoc c s)
  then show ?case by (simp add: algebra_simps)
qed

lemma read_nat_append: "read_nat (s @ t) = read_nat s * 10 ^ length t + read_nat t"
proof -
  have "read_nat (s @ t) = foldl (\<lambda>a c. a * 10 + digit_val c) (read_nat s) t"
    by (simp add: read_nat_def)
  then show ?thesis by (simp only: foldl_digits_shift)
qed

lemma read_nat_Cons: "read_nat (c # s) = digit_val c * 10 ^ length s + read_nat s"
  using read_nat_append[of "[c]" s] by (simp add: read_nat_def)

lemma read_nat_zeros [simp]: "read_nat (replicate n (CHR ''0'')) = 0"
  by (induction n) (simp_all add: read_nat_Cons)

lemma show_nat_digits: "list_all is_digit (show_nat n)"
proof (induction n rule: show_nat.induct)
  case (1 n)
  then show ?case by (subst show_nat.simps) simp
qed

lemma show_nat_nonempty [simp]: "show_nat n \<noteq> []"
  by (subst show_nat.simps) simp

lemma read_show_nat [simp]: "read_nat (show_nat n) = n"
proof (induction n rule: show_nat.induct)
  case (1 n)
  show ?case
  proof (cases "n < 10")
    case True
    then show ?thesis by (subst show_nat.simps) (simp add: read_nat_def)
  next
    case False
    with "1.IH" have "read_nat (show_nat (n div 10)) = n div 10" by simp
    with False show ?thesis by (subst show_nat.simps) simp
  qed
qed

lemma show_nat_inject [simp]: "show_nat m = show_nat n \<longleftrightarrow> m = n"
  by (metis read_show_nat)

lemma length_show_nat: "n < 10 ^ k \<Longrightarrow> 0 < k \<Longrightarrow> length (show_nat n) \<le> k"
proof (induction n arbitrary: k rule: show_nat.induct)
  case (1 n)
  show ?case
  proof (cases "n < 10")
    case True
    with "1.prems" show ?thesis by (subst show_nat.simps) simp
  next
    case False
    with "1.prems" obtain j where k: "k = Suc j" "0 < j" by (cases k; cases "k - 1") auto
    with "1.prems"(1) have "n div 10 < 10 ^ j" by simp
    with False "1.IH" k have "length (show_nat (n div 10)) \<le> j" by simp
    with False k show ?thesis by (subst show_nat.simps) simp
  qed
qed

section \<open>Padding and splitting\<close>

definition pad_start :: "nat \<Rightarrow> string \<Rightarrow> string" where
  "pad_start n s = replicate (n - length s) (CHR ''0'') @ s"

definition pad_end :: "nat \<Rightarrow> string \<Rightarrow> string" where
  "pad_end n s = s @ replicate (n - length s) (CHR ''0'')"

definition is_point :: "char \<Rightarrow> bool" where
  "is_point c \<longleftrightarrow> c = CHR ''.''"

text \<open>\<open>const [whole = "0", frac = ""] = s.split(".")\<close>: what is before the first point and what is
  between the first and the second.\<close>

definition split_point :: "string \<Rightarrow> string \<times> string" where
  "split_point s =
     (takeWhile (\<lambda>c. \<not> is_point c) s,
      takeWhile (\<lambda>c. \<not> is_point c) (drop 1 (dropWhile (\<lambda>c. \<not> is_point c) s)))"

lemma read_pad_start [simp]: "read_nat (pad_start n s) = read_nat s"
  by (simp add: pad_start_def read_nat_append)

lemma length_pad_start: "length s \<le> n \<Longrightarrow> length (pad_start n s) = n"
  by (simp add: pad_start_def)

lemma pad_start_digits: "list_all is_digit s \<Longrightarrow> list_all is_digit (pad_start n s)"
  by (auto simp: pad_start_def list_all_iff)

lemma pad_end_full: "length s = n \<Longrightarrow> pad_end n s = s"
  by (simp add: pad_end_def)

lemma digit_not_point: "is_digit c \<Longrightarrow> \<not> is_point c"
  by (auto simp: is_point_def)

lemma takeWhile_digits: "list_all is_digit s \<Longrightarrow> \<not> is_digit c \<Longrightarrow> takeWhile is_digit (s @ c # t) = s"
  by (induction s) auto

lemma dropWhile_digits:
  "list_all is_digit s \<Longrightarrow> \<not> is_digit c \<Longrightarrow> dropWhile is_digit (s @ c # t) = c # t"
  by (induction s) auto

lemma takeWhile_all_digits: "list_all is_digit s \<Longrightarrow> takeWhile is_digit s = s"
  by (induction s) auto

lemma dropWhile_all_digits: "list_all is_digit s \<Longrightarrow> dropWhile is_digit s = []"
  by (induction s) auto

lemma split_point_digits:
  assumes "list_all is_digit w" "list_all is_digit f"
  shows "split_point (w @ CHR ''.'' # f) = (w, f)" and "split_point w = (w, [])"
proof -
  have np: "\<forall>c \<in> set s. \<not> is_point c" if "list_all is_digit s" for s
    using that digit_not_point by (auto simp: list_all_iff)
  have "is_point (CHR ''.'')" by (simp add: is_point_def)
  then show "split_point (w @ CHR ''.'' # f) = (w, f)"
    using np[OF assms(1)] np[OF assms(2)]
    by (simp add: split_point_def takeWhile_append2 dropWhile_append2 takeWhile_eq_all_conv)
  have tw: "takeWhile (\<lambda>c. \<not> is_point c) w = w" and dw: "dropWhile (\<lambda>c. \<not> is_point c) w = []"
    using np[OF assms(1)] by (simp_all add: takeWhile_eq_all_conv dropWhile_eq_Nil_conv)
  show "split_point w = (w, [])" unfolding split_point_def tw dw by simp
qed

section \<open>Decimal numbers\<close>

text \<open>
  The shape \<^verbatim>\<open>^-?\d+(\.\d+)?$\<close>: the sign, the whole digits and the fraction digits (none
  when there is no point). Every decimal regular expression of the code is this shape with
  bounds on the two lengths.
\<close>

definition match_decimal :: "string \<Rightarrow> (bool \<times> string \<times> string) option" where
  "match_decimal s =
     (let neg = (s \<noteq> [] \<and> hd s = CHR ''-'');
          body = (if neg then tl s else s);
          w = takeWhile is_digit body;
          r = dropWhile is_digit body
      in if w = [] then None
         else (case r of
             [] \<Rightarrow> Some (neg, w, [])
           | c # f \<Rightarrow> if is_point c \<and> f \<noteq> [] \<and> list_all is_digit f then Some (neg, w, f) else None))"

definition decimal_re :: "bool \<Rightarrow> (nat \<Rightarrow> bool) \<Rightarrow> (nat \<Rightarrow> bool) \<Rightarrow> string \<Rightarrow> bool" where
  "decimal_re signed whole_len frac_len s =
     (case match_decimal s of
        None \<Rightarrow> False
      | Some (neg, w, f) \<Rightarrow>
          (neg \<longrightarrow> signed) \<and> whole_len (length w) \<and> (f \<noteq> [] \<longrightarrow> frac_len (length f)))"

text \<open>The number a decimal string of at most \<open>dp\<close> fraction digits denotes, in units of \<open>10\<^sup>-\<^sup>d\<^sup>p\<close>.\<close>

definition scaled :: "nat \<Rightarrow> string \<Rightarrow> int" where
  "scaled dp s =
     (case match_decimal s of
        None \<Rightarrow> 0
      | Some (neg, w, f) \<Rightarrow>
          (let u = int (read_nat w * 10 ^ dp + read_nat (pad_end dp f)) in if neg then - u else u))"

definition fixed_text :: "nat \<Rightarrow> int \<Rightarrow> string" where
  "fixed_text dp u =
     (let a = nat \<bar>u\<bar>
      in (if u < 0 then ''-'' else []) @ show_nat (a div 10 ^ dp)
         @ (if dp = 0 then [] else CHR ''.'' # pad_start dp (show_nat (a mod 10 ^ dp))))"

text \<open>The rational number a decimal string denotes.\<close>

definition decimal_rat :: "string \<Rightarrow> rat" where
  "decimal_rat s =
     (case match_decimal s of
        None \<Rightarrow> 0
      | Some (neg, w, f) \<Rightarrow>
          (let x = of_nat (read_nat w) + of_nat (read_nat f) / 10 ^ length f
           in if neg then - x else x))"

lemma match_decimal_nonneg_digits:
  assumes "list_all is_digit w" "w \<noteq> []" "list_all is_digit f" "f \<noteq> []"
  shows "match_decimal (w @ CHR ''.'' # f) = Some (False, w, f)"
    and "match_decimal (CHR ''-'' # w @ CHR ''.'' # f) = Some (True, w, f)"
proof -
  have hd: "hd (w @ CHR ''.'' # f) \<noteq> CHR ''-''"
    using assms(1,2) by (cases w) auto
  have p: "is_point (CHR ''.'')" by (simp add: is_point_def)
  show "match_decimal (w @ CHR ''.'' # f) = Some (False, w, f)"
    using assms hd p by (simp add: match_decimal_def Let_def takeWhile_digits dropWhile_digits)
  show "match_decimal (CHR ''-'' # w @ CHR ''.'' # f) = Some (True, w, f)"
    using assms p by (simp add: match_decimal_def Let_def takeWhile_digits dropWhile_digits)
qed

lemma match_fixed_text:
  assumes "0 < dp"
  shows "match_decimal (fixed_text dp u)
    = Some (u < 0, show_nat (nat \<bar>u\<bar> div 10 ^ dp), pad_start dp (show_nat (nat \<bar>u\<bar> mod 10 ^ dp)))"
proof -
  let ?f = "pad_start dp (show_nat (nat \<bar>u\<bar> mod 10 ^ dp))"
  have f: "list_all is_digit ?f" "?f \<noteq> []"
    by (simp_all add: pad_start_digits show_nat_digits) (simp add: pad_start_def)
  have neg: "fixed_text dp u = CHR ''-'' # show_nat (nat \<bar>u\<bar> div 10 ^ dp) @ CHR ''.'' # ?f" if "u < 0"
    using that assms by (simp add: fixed_text_def Let_def)
  have pos: "fixed_text dp u = show_nat (nat \<bar>u\<bar> div 10 ^ dp) @ CHR ''.'' # ?f" if "\<not> u < 0"
    using that assms by (simp add: fixed_text_def Let_def)
  note m = match_decimal_nonneg_digits[OF show_nat_digits show_nat_nonempty f]
  show ?thesis
  proof (cases "u < 0")
    case True
    then show ?thesis unfolding neg[OF True] m(2) by simp
  next
    case False
    then show ?thesis unfolding pos[OF False] m(1) by simp
  qed
qed

lemma length_fraction: "0 < dp \<Longrightarrow> length (pad_start dp (show_nat (n mod 10 ^ dp))) = dp"
  by (rule length_pad_start, rule length_show_nat) auto

lemma scaled_fixed_text [simp]: "0 < dp \<Longrightarrow> scaled dp (fixed_text dp u) = u"
proof -
  assume dp: "0 < dp"
  let ?a = "nat \<bar>u\<bar>"
  have "?a div 10 ^ dp * 10 ^ dp + ?a mod 10 ^ dp = ?a" by (rule div_mult_mod_eq)
  then show ?thesis
    using dp unfolding scaled_def match_fixed_text[OF dp] option.case prod.case
      pad_end_full[OF length_fraction[OF dp]] read_pad_start read_show_nat
    by (simp add: Let_def)
qed

lemma fixed_text_inject [simp]: "0 < dp \<Longrightarrow> fixed_text dp u = fixed_text dp v \<longleftrightarrow> u = v"
  by (metis scaled_fixed_text)

lemma decimal_re_fixed_text:
  "0 < dp \<Longrightarrow> decimal_re signed wl fl (fixed_text dp u) \<longleftrightarrow>
    (u < 0 \<longrightarrow> signed) \<and> wl (length (show_nat (nat \<bar>u\<bar> div 10 ^ dp))) \<and> fl dp"
  using length_fraction[of dp "nat \<bar>u\<bar>"]
  by (auto simp: decimal_re_def match_fixed_text)

lemma scaled_nonneg: "decimal_re False wl fl s \<Longrightarrow> 0 \<le> scaled dp s"
  by (auto simp: decimal_re_def scaled_def Let_def split: option.splits)

section \<open>Bounds\<close>

text \<open>How large a number of a given length can be.\<close>

lemma read_nat_less: "list_all is_digit s \<Longrightarrow> read_nat s < 10 ^ length s"
proof (induction s)
  case Nil
  then show ?case by simp
next
  case (Cons c s)
  then have "digit_val c \<le> 9" by (auto simp: is_digit_def digit_val_def)
  then have "digit_val c * 10 ^ length s \<le> 9 * 10 ^ length s" by (rule mult_le_mono1)
  moreover have "read_nat s < 10 ^ length s" using Cons by simp
  ultimately have "digit_val c * 10 ^ length s + read_nat s < 9 * 10 ^ length s + 10 ^ length s"
    by (rule add_le_less_mono)
  then show ?case by (simp add: read_nat_Cons)
qed

lemma length_show_nat_iff: "0 < k \<Longrightarrow> length (show_nat n) \<le> k \<longleftrightarrow> n < 10 ^ k"
proof
  assume "0 < k" "length (show_nat n) \<le> k"
  have "read_nat (show_nat n) < 10 ^ length (show_nat n)" by (rule read_nat_less[OF show_nat_digits])
  also have "\<dots> \<le> 10 ^ k" using \<open>length (show_nat n) \<le> k\<close> by simp
  finally show "n < 10 ^ k" by simp
qed (rule length_show_nat)

lemma match_decimal_digits:
  "match_decimal s = Some (neg, w, f) \<Longrightarrow> list_all is_digit w \<and> list_all is_digit f"
  by (auto simp: match_decimal_def Let_def list_all_iff dest: set_takeWhileD split: if_splits list.splits)

text \<open>A decimal shape with bounded lengths bounds the number.\<close>

lemma decimal_re_bound:
  assumes "decimal_re False (\<lambda>n. n \<le> k) (\<lambda>n. n \<le> dp) s"
  shows "scaled dp s < 10 ^ (k + dp)"
proof -
  from assms obtain w f where m: "match_decimal s = Some (False, w, f)" "length w \<le> k" "length f \<le> dp"
    by (auto simp: decimal_re_def split: option.splits)
  note digits = match_decimal_digits[OF m(1)]
  have "read_nat w < 10 ^ length w" using digits by (simp add: read_nat_less)
  also have "\<dots> \<le> 10 ^ k" using m(2) by (rule power_increasing) simp
  finally have w: "read_nat w + 1 \<le> 10 ^ k" by simp
  have "list_all is_digit (pad_end dp f)" using digits by (auto simp: pad_end_def list_all_iff)
  then have "read_nat (pad_end dp f) < 10 ^ length (pad_end dp f)" by (rule read_nat_less)
  moreover have "length (pad_end dp f) = dp" using m(3) by (simp add: pad_end_def)
  ultimately have "read_nat w * 10 ^ dp + read_nat (pad_end dp f) < (read_nat w + 1) * 10 ^ dp" by simp
  also have "\<dots> \<le> 10 ^ k * 10 ^ dp" using w by (rule mult_le_mono1)
  finally have "int (read_nat w * 10 ^ dp + read_nat (pad_end dp f)) < int (10 ^ (k + dp))"
    by (simp only: of_nat_less_iff power_add)
  then show ?thesis by (simp add: scaled_def m(1) Let_def)
qed

end
