(* ===== verification/Decimal.thy ===== *)
theory Decimal
  imports Js_Text
begin

text \<open>
  The interface to the third-party package \<^verbatim>\<open>decimal.js\<close>, which the money module configures as
  \<^verbatim>\<open>Decimal.clone({ precision: 40, rounding: ROUND_HALF_EVEN })\<close>. Its two rounding operations
  are parameters of the model, the fields of a \<open>decimal_lib\<close>:
  \<^item> \<open>dec_div x y\<close> is \<open>x.div(y)\<close>, the quotient rounded to 40 significant digits;
  \<^item> \<open>dec_dp n x\<close> is \<open>x.toDecimalPlaces(n, ROUND_HALF_EVEN)\<close> (or \<open>x.toFixed(n)\<close>), given as
    its number of units of \<open>10\<^sup>-\<^sup>n\<close>, which by documentation is a whole number.

  Sums, differences, products and comparisons of column values are the exact ones of \<open>rat\<close> and
  \<open>int\<close>: 40 digits hold them exactly for columns of type NUMERIC(18,4), NUMERIC(20,4) and BIGINT.
  A product with a quotient as factor may need more digits: \<open>dec_mul\<close> is \<open>x.mul(y)\<close>, which rounds
  its exact product as a division by one does.
  The locale \<open>decimal_arith\<close> states the documented behaviour, and its lemmas show what follows
  for a quotient rounded twice (first to 40 digits, then to the cent). \<open>js_decimal\<close> is a
  concrete instance with 40-digit division, which the interpretation at the end shows to satisfy
  the contract.
\<close>

record decimal_lib =
  dec_div :: "rat \<Rightarrow> rat \<Rightarrow> rat"
  dec_dp :: "nat \<Rightarrow> rat \<Rightarrow> int"

definition dec_mul :: "decimal_lib \<Rightarrow> rat \<Rightarrow> rat \<Rightarrow> rat" where
  "dec_mul D x y = dec_div D (x * y) 1"

section \<open>Rounding a perturbed quotient\<close>

lemma half_even_perturb:
  fixes x x' :: rat
  assumes d: "0 < d" and x: "x * of_int d = of_int N"
    and close: "\<bar>x' - x\<bar> < 1 / (2 * of_int d)"
    and tie: "x' = x \<or> (\<forall>j. x \<noteq> of_int j + 1/2)"
  shows "half_even x' = half_even x"
proof (cases "x' = x")
  case True
  then show ?thesis by simp
next
  case False
  let ?n = "half_even x"
  let ?e = "of_int ?n - x"
  have dpos: "(0::rat) < of_int d" using d by simp
  have no_tie: "\<bar>?e\<bar> \<noteq> 1/2"
  proof
    assume "\<bar>?e\<bar> = 1/2"
    then have "x = of_int ?n + 1/2 \<or> x = of_int (?n - 1) + 1/2" by (auto simp: abs_if split: if_splits)
    with tie False show False by blast
  qed
  have scaled_e: "?e * (2 * of_int d) = of_int (2 * (?n * d - N))"
    using x by (simp add: algebra_simps)
  have "\<bar>?e\<bar> < 1/2" using no_tie half_even_error[of x] by linarith
  then have "\<bar>?e * (2 * of_int d)\<bar> < of_int d"
    using dpos by (simp add: abs_mult)
  then have "\<bar>2 * (?n * d - N)\<bar> < d"
    unfolding scaled_e by (metis of_int_abs of_int_less_iff)
  then have "\<bar>2 * (?n * d - N)\<bar> \<le> d - 1" by simp
  then have "(of_int \<bar>2 * (?n * d - N)\<bar> :: rat) \<le> of_int (d - 1)" by (simp only: of_int_le_iff)
  then have "\<bar>?e * (2 * of_int d)\<bar> \<le> of_int d - 1"
    unfolding scaled_e by simp
  then have "\<bar>?e\<bar> * (2 * of_int d) \<le> of_int d - 1" using dpos by (simp add: abs_mult)
  then have "\<bar>?e\<bar> \<le> 1/2 - 1 / (2 * of_int d)" using dpos by (simp add: field_simps)
  then have "\<bar>of_int ?n - x'\<bar> < 1/2" using close by linarith
  then show ?thesis by (rule half_even_nearest)
qed

lemma le_mult_one: "(0::rat) \<le> c \<Longrightarrow> 1 \<le> e \<Longrightarrow> c \<le> c * e"
  using mult_left_mono[of 1 e c] by simp

section \<open>The contract\<close>

locale decimal_arith =
  fixes D :: decimal_lib
  assumes dp_half_even: "dec_dp D n x = half_even (x * 10 ^ n)"
    and div_error: "y \<noteq> 0 \<Longrightarrow> \<bar>dec_div D x y - x / y\<bar> \<le> \<bar>x / y\<bar> / (2 * 10 ^ 39)"
    and div_exact: "y \<noteq> 0 \<Longrightarrow> x / y * 10 ^ k = of_int m \<Longrightarrow> \<bar>m\<bar> < 10 ^ 40 \<Longrightarrow> dec_div D x y = x / y"
begin

lemma mul_error: "\<bar>dec_mul D x y - x * y\<bar> \<le> \<bar>x * y\<bar> / (2 * 10 ^ 39)"
  using div_error[of 1 "x * y"] by (simp add: dec_mul_def)

lemma dp_error: "\<bar>of_int (dec_dp D n x) - x * 10 ^ n\<bar> \<le> 1/2"
  unfolding dp_half_even by (rule half_even_error)

lemma dp_error_scaled: "\<bar>of_int (dec_dp D n x) / 10 ^ n - x\<bar> \<le> 1 / (2 * 10 ^ n)"
proof -
  have "of_int (dec_dp D n x) / 10 ^ n - x = (of_int (dec_dp D n x) - x * 10 ^ n) / 10 ^ n"
    by (simp add: diff_divide_distrib)
  then have "\<bar>of_int (dec_dp D n x) / 10 ^ n - x\<bar> = \<bar>of_int (dec_dp D n x) - x * 10 ^ n\<bar> / 10 ^ n"
    by simp
  also have "\<dots> \<le> 1/2 / 10 ^ n" by (rule divide_right_mono[OF dp_error]) simp
  finally show ?thesis by simp
qed

lemma dp_mono: "x \<le> y \<Longrightarrow> dec_dp D n x \<le> dec_dp D n y"
  unfolding dp_half_even by (rule half_even_mono) (simp add: mult_right_mono)

lemma dp_nonneg: "0 \<le> x \<Longrightarrow> 0 \<le> dec_dp D n x"
  unfolding dp_half_even by (rule half_even_nonneg) simp

lemma dp_exact: "x * 10 ^ n = of_int u \<Longrightarrow> dec_dp D n x = u"
  by (simp add: dp_half_even)

text \<open>
  Rounding the 40-digit quotient to \<open>n\<close> places gives the same units as rounding the exact
  quotient \<open>N / d\<close> once, as long as the numbers stay inside the precision.
\<close>

lemma dp_div_once:
  assumes d: "0 < d" and y: "y \<noteq> 0"
    and q: "x / y * 10 ^ n * of_int d = of_int N"
    and range: "\<bar>N\<bar> < 10 ^ 39"
  shows "dec_dp D n (dec_div D x y) = half_even (x / y * 10 ^ n)"
proof -
  let ?q = "x / y" and ?q' = "dec_div D x y"
  let ?e = "\<bar>?q' * 10 ^ n - ?q * 10 ^ n\<bar>"
  have dpos: "(0::rat) < of_int d" using d by simp
  have N: "\<bar>?q * 10 ^ n\<bar> * of_int d < 10 ^ 39"
  proof -
    have "\<bar>?q * 10 ^ n\<bar> * of_int d = \<bar>?q * 10 ^ n * of_int d\<bar>" using dpos by (simp add: abs_mult)
    also have "\<dots> = of_int \<bar>N\<bar>" unfolding q by simp
    also have "\<dots> < of_int (10 ^ 39)" using range by (simp only: of_int_less_iff)
    finally show ?thesis by simp
  qed
  have "?e = \<bar>(?q' - ?q) * 10 ^ n\<bar>" by (simp only: left_diff_distrib)
  also have "\<dots> = \<bar>?q' - ?q\<bar> * 10 ^ n" by (simp only: abs_mult) simp
  also have "\<dots> \<le> \<bar>?q\<bar> / (2 * 10 ^ 39) * 10 ^ n"
    by (rule mult_right_mono[OF div_error[OF y]]) simp
  also have "\<dots> = \<bar>?q * 10 ^ n\<bar> / (2 * 10 ^ 39)" by (simp add: abs_mult)
  finally have "?e * of_int d \<le> \<bar>?q * 10 ^ n\<bar> / (2 * 10 ^ 39) * of_int d"
    by (rule mult_right_mono) (use dpos in simp)
  also have "\<dots> = (\<bar>?q * 10 ^ n\<bar> * of_int d) / (2 * 10 ^ 39)" by (simp only: times_divide_eq_left)
  also have "\<dots> < 1/2"
  proof -
    have "c / (2 * 10 ^ 39) < 1/2" if "c < 10 ^ 39" for c :: rat using that by simp
    then show ?thesis using N .
  qed
  finally have close: "?e < 1 / (2 * of_int d)" using dpos by (simp add: field_simps)
  have tie: "?q' * 10 ^ n = ?q * 10 ^ n \<or> (\<forall>j. ?q * 10 ^ n \<noteq> of_int j + 1/2)"
  proof (cases "\<exists>j. ?q * 10 ^ n = of_int j + 1/2")
    case True
    then obtain j where j: "?q * 10 ^ n = of_int j + 1/2" by blast
    have "?q * 10 ^ Suc n = 10 * (?q * 10 ^ n)" by simp
    also have "\<dots> = of_int (10 * j + 5)" unfolding j by simp
    finally have "?q * 10 ^ Suc n = of_int (10 * j + 5)" .
    moreover have "\<bar>10 * j + 5\<bar> < (10::int) ^ 40"
    proof -
      have "\<bar>?q * 10 ^ n\<bar> \<le> \<bar>?q * 10 ^ n\<bar> * of_int d"
        by (rule le_mult_one[OF abs_ge_zero]) (use d in simp)
      with N have "\<bar>of_int j + (1/2::rat)\<bar> < 10 ^ 39" unfolding j by linarith
      then have "\<bar>of_int (10 * j + 5) :: rat\<bar> < of_int (10 ^ 40)" by (simp add: abs_if split: if_splits)
      then show ?thesis by (metis of_int_abs of_int_less_iff)
    qed
    ultimately have "?q' = ?q" by (rule div_exact[OF y])
    then show ?thesis by simp
  next
    case False
    then show ?thesis by blast
  qed
  show ?thesis
    unfolding dp_half_even by (rule half_even_perturb[OF d q close tie])
qed

end

section \<open>A 40-digit instance\<close>

definition digits :: "nat \<Rightarrow> nat" where
  "digits n = length (show_nat n)"

lemma digits_bounds: "0 < n \<Longrightarrow> 10 ^ (digits n - 1) \<le> n \<and> n < 10 ^ digits n"
proof (induction n rule: show_nat.induct)
  case (1 n)
  show ?case
  proof (cases "n < 10")
    case True
    then show ?thesis using "1.prems" by (simp add: digits_def show_nat.simps[of n])
  next
    case False
    let ?k = "digits (n div 10)"
    have d: "digits n = Suc ?k" using False by (simp add: digits_def show_nat.simps[of n])
    have k: "0 < ?k" by (simp add: digits_def)
    from False "1.IH" have "10 ^ (?k - 1) \<le> n div 10" "n div 10 < 10 ^ ?k" by auto
    moreover have "10 ^ ?k = 10 * (10::nat) ^ (?k - 1)" using k by (cases ?k) auto
    ultimately show ?thesis unfolding d by simp linarith
  qed
qed

text \<open>
  The scale of a positive number: it has its first significant digit at the place that makes
  \<open>10\<^sup>p\<^sup>l\<^sup>a\<^sup>c\<^sup>e\<^sup>s\<close> units of it a number of at least 40 digits.
\<close>

definition sig_unit :: "rat \<Rightarrow> rat" where
  "sig_unit a =
     (if 1 \<le> a then 10 ^ digits (nat \<lfloor>a\<rfloor>) / 10 ^ 40
      else 1 / 10 ^ (39 + digits (nat \<lfloor>1 / a\<rfloor>)))"

definition sig40 :: "rat \<Rightarrow> rat" where
  "sig40 x = (if x = 0 then 0 else of_int (half_even (x / sig_unit \<bar>x\<bar>)) * sig_unit \<bar>x\<bar>)"

definition js_decimal :: decimal_lib where
  "js_decimal = \<lparr>dec_div = (\<lambda>x y. sig40 (x / y)), dec_dp = (\<lambda>n x. half_even (x * 10 ^ n))\<rparr>"

lemma sig_unit_pos: "0 < sig_unit a"
  by (simp add: sig_unit_def)

lemma sig_unit_le: "0 < a \<Longrightarrow> sig_unit a \<le> a / 10 ^ 39"
proof -
  assume a: "0 < a"
  show ?thesis
  proof (cases "1 \<le> a")
    case True
    let ?n = "nat \<lfloor>a\<rfloor>"
    have n: "0 < ?n" and na: "of_nat ?n \<le> a" using True by auto
    have "(10::rat) ^ (digits ?n - 1) \<le> of_nat ?n"
      using digits_bounds[OF n] by (metis of_nat_le_iff of_nat_numeral of_nat_power)
    moreover have "(10::rat) ^ digits ?n = 10 * 10 ^ (digits ?n - 1)"
      by (cases "digits ?n") (auto simp: digits_def)
    ultimately have "(10::rat) ^ digits ?n \<le> 10 * a" using na by linarith
    then show ?thesis using True by (simp add: sig_unit_def)
  next
    case False
    let ?n = "nat \<lfloor>1 / a\<rfloor>"
    have "1 < 1 / a" using False a by (simp add: field_simps)
    then have n: "0 < ?n" and na: "1 / a < of_nat ?n + 1" by linarith+
    have "?n + 1 \<le> 10 ^ digits ?n"
      using digits_bounds[OF n] by (metis Suc_eq_plus1 Suc_leI)
    then have "of_nat (?n + 1) \<le> (of_nat (10 ^ digits ?n) :: rat)" by (simp only: of_nat_le_iff)
    then have "1 / a \<le> 10 ^ digits ?n" using na by simp
    then have "1 / 10 ^ digits ?n \<le> a" using a by (simp add: field_simps)
    then show ?thesis using False by (simp add: sig_unit_def power_add field_simps)
  qed
qed

lemma sig40_error: "\<bar>sig40 x - x\<bar> \<le> \<bar>x\<bar> / (2 * 10 ^ 39)"
proof (cases "x = 0")
  case True
  then show ?thesis by (simp add: sig40_def)
next
  case False
  let ?u = "sig_unit \<bar>x\<bar>"
  have u: "0 < ?u" by (rule sig_unit_pos)
  have "sig40 x - x = (of_int (half_even (x / ?u)) - x / ?u) * ?u"
    using False u by (simp add: sig40_def left_diff_distrib)
  then have "\<bar>sig40 x - x\<bar> = \<bar>of_int (half_even (x / ?u)) - x / ?u\<bar> * ?u"
    using u by (simp add: abs_mult)
  also have "\<dots> \<le> 1/2 * ?u" using half_even_error u by (intro mult_right_mono) auto
  also have "\<dots> \<le> 1/2 * (\<bar>x\<bar> / 10 ^ 39)" using sig_unit_le[of "\<bar>x\<bar>"] False by simp
  finally show ?thesis by simp
qed

text \<open>The unit is a power of ten, so a number of at most 40 digits is a whole number of units.\<close>

lemma sig_unit_divides:
  assumes x: "x \<noteq> 0" and k: "x * 10 ^ k = of_int m" and m: "\<bar>m\<bar> < 10 ^ 40"
  shows "\<exists>j. x / sig_unit \<bar>x\<bar> = of_int j"
proof -
  let ?a = "\<bar>x\<bar>"
  have am: "?a * 10 ^ k < 10 ^ 40"
  proof -
    have "?a * 10 ^ k = \<bar>x * 10 ^ k\<bar>" by (simp add: abs_mult)
    also have "\<dots> = of_int \<bar>m\<bar>" unfolding k by simp
    also have "\<dots> < of_int (10 ^ 40)" using m by (simp only: of_int_less_iff)
    finally show ?thesis by simp
  qed
  have a: "0 < ?a" using x by simp
  show ?thesis
  proof (cases "1 \<le> ?a")
    case True
    let ?L = "digits (nat \<lfloor>?a\<rfloor>)"
    have n: "0 < nat \<lfloor>?a\<rfloor>" using True by simp
    have "(10::rat) ^ (?L - 1) \<le> of_nat (nat \<lfloor>?a\<rfloor>)"
      using digits_bounds[OF n] by (metis of_nat_le_iff of_nat_numeral of_nat_power)
    also have "\<dots> \<le> ?a" using True by auto
    finally have "(10::rat) ^ (?L - 1 + k) \<le> ?a * 10 ^ k" by (simp add: power_add)
    with am have "(10::rat) ^ (?L - 1 + k) < 10 ^ 40" by linarith
    then have "?L - 1 + k < 40" by (rule power_less_imp_less_exp[rotated]) simp
    moreover have "0 < ?L" by (simp add: digits_def)
    ultimately have lk: "40 = ?L + k + (40 - ?L - k)" by linarith
    have e: "(10::rat) ^ 40 = 10 ^ ?L * 10 ^ k * 10 ^ (40 - ?L - k)"
      by (subst lk) (simp only: power_add)
    have "x / sig_unit ?a = x * 10 ^ 40 / 10 ^ ?L" using True by (simp add: sig_unit_def)
    also have "\<dots> = x * 10 ^ k * 10 ^ (40 - ?L - k)" unfolding e by simp
    also have "\<dots> = of_int (m * 10 ^ (40 - ?L - k))" unfolding k by simp
    finally show ?thesis by blast
  next
    case False
    let ?L = "digits (nat \<lfloor>1 / ?a\<rfloor>)"
    have "1 < 1 / ?a" using False a by (simp add: field_simps)
    then have n: "0 < nat \<lfloor>1 / ?a\<rfloor>" and na: "1 / ?a < of_nat (nat \<lfloor>1 / ?a\<rfloor>) + 1" by linarith+
    have "nat \<lfloor>1 / ?a\<rfloor> + 1 \<le> 10 ^ ?L"
      using digits_bounds[OF n] by (metis Suc_eq_plus1 Suc_leI)
    then have "of_nat (nat \<lfloor>1 / ?a\<rfloor> + 1) \<le> (of_nat (10 ^ ?L) :: rat)" by (simp only: of_nat_le_iff)
    then have "1 / ?a < 10 ^ ?L \<or> 1 / ?a = 10 ^ ?L" using na by auto
    then have "1 \<le> ?a * 10 ^ ?L" using a by (auto simp: field_simps)
    then have "(10::rat) ^ k \<le> ?a * 10 ^ k * 10 ^ ?L"
      by (simp add: mult.commute mult.left_commute mult_le_cancel_left1)
    also have "\<dots> < 10 ^ 40 * 10 ^ ?L" using am by (rule mult_strict_right_mono) simp
    finally have "(10::rat) ^ k < 10 ^ (40 + ?L)" by (simp only: power_add)
    then have "k < 40 + ?L" by (rule power_less_imp_less_exp[rotated]) simp
    then have lk: "39 + ?L = k + (39 + ?L - k)" by linarith
    have e: "(10::rat) ^ (39 + ?L) = 10 ^ k * 10 ^ (39 + ?L - k)"
      by (subst lk) (simp only: power_add)
    have "x / sig_unit ?a = x * 10 ^ (39 + ?L)" using False by (simp add: sig_unit_def)
    also have "\<dots> = x * 10 ^ k * 10 ^ (39 + ?L - k)" unfolding e by simp
    also have "\<dots> = of_int (m * 10 ^ (39 + ?L - k))" unfolding k by simp
    finally show ?thesis by blast
  qed
qed

lemma sig40_exact:
  assumes "x * 10 ^ k = of_int m" "\<bar>m\<bar> < 10 ^ 40"
  shows "sig40 x = x"
proof (cases "x = 0")
  case True
  then show ?thesis by (simp add: sig40_def)
next
  case False
  from sig_unit_divides[OF False assms] obtain j where j: "x / sig_unit \<bar>x\<bar> = of_int j" by blast
  have u: "sig_unit \<bar>x\<bar> \<noteq> 0" using sig_unit_pos[of "\<bar>x\<bar>"] by simp
  have "sig40 x = of_int j * sig_unit \<bar>x\<bar>" using False by (simp add: sig40_def j)
  also have "\<dots> = x" using u by (simp flip: j)
  finally show ?thesis .
qed

interpretation js: decimal_arith js_decimal
proof
  fix n x
  show "dec_dp js_decimal n x = half_even (x * 10 ^ n)" by (simp add: js_decimal_def)
next
  fix x y :: rat
  show "\<bar>dec_div js_decimal x y - x / y\<bar> \<le> \<bar>x / y\<bar> / (2 * 10 ^ 39)"
    using sig40_error[of "x / y"] by (simp add: js_decimal_def)
next
  fix x y :: rat and k m
  assume "x / y * 10 ^ k = of_int m" "\<bar>m\<bar> < 10 ^ 40"
  then show "dec_div js_decimal x y = x / y" by (simp add: js_decimal_def sig40_exact)
qed

end
