(* ===== verification/Money.thy ===== *)
theory Money
  imports Shared Decimal
begin

text \<open>
  \<^verbatim>\<open>src/core/money/money.ts\<close>: the financial value objects and the derivation helpers.
  A \<open>Money\<close> is its number of cents, a \<open>Px\<close> and a \<open>Basis\<close> their number of ten-thousandths of a
  dollar, a \<open>Qty\<close> a natural number; the classes' exact operations (add, subtract, negate, abs, and the comparisons)
  are the ones of these numbers. What the constructors refuse and what the helpers round is
  written out. The operations of \<^verbatim>\<open>decimal.js\<close> that round are the parameter \<open>D\<close>.
\<close>

type_synonym money = int
type_synonym px = int
type_synonym qty = nat
type_synonym basis = int

abbreviation usd :: "money \<Rightarrow> rat" where "usd m \<equiv> of_int m / 10 ^ 2"
abbreviation px_rat :: "px \<Rightarrow> rat" where "px_rat p \<equiv> of_int p / 10 ^ 4"

section \<open>Money\<close>

definition money_re :: "string \<Rightarrow> bool" where
  "money_re = decimal_re True (\<lambda>_. True) (\<lambda>n. n \<le> 2)"

definition money_from_string :: "string \<Rightarrow> money result" where
  "money_from_string s =
     ebind (invariant (money_re s) ''invalid Money string'') (\<lambda>_. Inr (scaled 2 s))"

definition signed_vendor_decimal_re :: "string \<Rightarrow> bool" where
  "signed_vendor_decimal_re = decimal_re True (\<lambda>_. True) (\<lambda>_. True)"

definition money_from_vendor_decimal :: "decimal_lib \<Rightarrow> string \<Rightarrow> money result" where
  "money_from_vendor_decimal D s =
     ebind (invariant (signed_vendor_decimal_re s) ''invalid vendor amount'')
       (\<lambda>_. Inr (dec_dp D 2 (decimal_rat s)))"

definition money_sum :: "money list \<Rightarrow> money" where
  "money_sum vs = foldl (\<lambda>acc v. acc + v) 0 vs"

definition money_compare :: "money \<Rightarrow> money \<Rightarrow> int" where
  "money_compare a b = sgn (a - b)"

definition money_is_negative :: "money \<Rightarrow> bool" where
  "money_is_negative m \<longleftrightarrow> m < 0"

definition money_to_string :: "money \<Rightarrow> string" where
  "money_to_string m = fixed_text 2 m"

text \<open>\<open>toFixed(2)\<close> of decimal.js keeps the sign of a negative number that rounds to zero.\<close>

definition percent_change :: "decimal_lib \<Rightarrow> money \<Rightarrow> money \<Rightarrow> string option" where
  "percent_change D from to =
     (if from \<le> 0 then None
      else Some (let p = dec_div D (usd to - usd from) (usd from) * 100; n = dec_dp D 2 p
                 in (if n = 0 \<and> p < 0 then ''-0.00'' else fixed_text 2 n)))"

section \<open>Px\<close>

definition px_re :: "string \<Rightarrow> bool" where
  "px_re = decimal_re False (\<lambda>_. True) (\<lambda>n. n \<le> 4)"

definition px_from_string :: "string \<Rightarrow> px result" where
  "px_from_string s =
     ebind (invariant (px_re s) ''invalid Px string'') (\<lambda>_.
     ebind (invariant (scaled 4 s > 0) ''Px must be positive'') (\<lambda>_. Inr (scaled 4 s)))"

definition vendor_decimal_re :: "string \<Rightarrow> bool" where
  "vendor_decimal_re = decimal_re False (\<lambda>_. True) (\<lambda>_. True)"

definition px_from_vendor_decimal :: "decimal_lib \<Rightarrow> string \<Rightarrow> px result" where
  "px_from_vendor_decimal D s =
     ebind (invariant (vendor_decimal_re s) ''invalid vendor price'') (\<lambda>_.
       let p = dec_dp D 4 (decimal_rat s)
       in ebind (invariant (p > 0) ''Px must be positive'') (\<lambda>_. Inr p))"

definition px_compare :: "px \<Rightarrow> px \<Rightarrow> int" where
  "px_compare a b = sgn (a - b)"

definition px_min :: "px \<Rightarrow> px \<Rightarrow> px" where
  "px_min a b = (if a \<le> b then a else b)"

definition px_max :: "px \<Rightarrow> px \<Rightarrow> px" where
  "px_max a b = (if a \<ge> b then a else b)"

definition px_to_string :: "px \<Rightarrow> string" where
  "px_to_string p = fixed_text 4 p"

section \<open>Qty\<close>

definition qty_of_string :: "string \<Rightarrow> qty result" where
  "qty_of_string s =
     ebind (invariant (s \<noteq> [] \<and> list_all is_digit s) ''invalid Qty string'')
       (\<lambda>_. Inr (read_nat s))"

definition qty_of_int :: "int \<Rightarrow> qty result" where
  "qty_of_int n =
     ebind (invariant (n \<ge> 0) ''Qty must be non-negative'') (\<lambda>_. Inr (nat n))"

definition qty_subtract :: "qty \<Rightarrow> qty \<Rightarrow> qty result" where
  "qty_subtract a b =
     ebind (invariant (a \<ge> b) ''Qty subtraction underflow'') (\<lambda>_. Inr (a - b))"

definition qty_to_string :: "qty \<Rightarrow> string" where
  "qty_to_string q = show_nat q"

section \<open>Basis\<close>

definition basis_from_string :: "string \<Rightarrow> basis result" where
  "basis_from_string s =
     ebind (invariant (px_re s) ''invalid Basis string'') (\<lambda>_. Inr (scaled 4 s))"

definition basis_add_money :: "basis \<Rightarrow> money \<Rightarrow> basis result" where
  "basis_add_money b m =
     (let next = b + 100 * m
      in ebind (invariant (next \<ge> 0) ''Basis cannot go negative'') (\<lambda>_. Inr next))"

text \<open>\<open>Basis.allocate\<close>: the allocated money and the remaining basis.\<close>

definition basis_allocate :: "decimal_lib \<Rightarrow> basis \<Rightarrow> qty \<Rightarrow> qty \<Rightarrow> (money \<times> basis) result" where
  "basis_allocate D b sold tot =
     ebind (invariant (tot > 0) ''allocate requires a positive total quantity'') (\<lambda>_.
     ebind (invariant (sold > 0) ''allocate requires a positive sold quantity'') (\<lambda>_.
     ebind (invariant (tot \<ge> sold) ''cannot allocate more than the total quantity'') (\<lambda>_.
       if sold = tot then Inr (dec_dp D 2 (px_rat b), 0)
       else
         let allocated = dec_dp D 2 (dec_div D (px_rat b * of_nat sold) (of_nat tot));
             remaining = b - 100 * allocated
         in ebind (invariant (remaining \<ge> 0) ''basis allocation produced a negative remainder'')
              (\<lambda>_. Inr (allocated, remaining)))))"

definition basis_avg_px :: "decimal_lib \<Rightarrow> basis \<Rightarrow> qty \<Rightarrow> px result" where
  "basis_avg_px D b q =
     ebind (invariant (q > 0) ''avgPx requires a positive quantity'') (\<lambda>_.
       px_from_string (fixed_text 4 (dec_dp D 4 (dec_div D (px_rat b) (of_nat q)))))"

section \<open>Derivation helpers\<close>

definition notional :: "decimal_lib \<Rightarrow> px \<Rightarrow> qty \<Rightarrow> money" where
  "notional D p q = dec_dp D 2 (px_rat p * of_nat q)"

definition price_delta :: "decimal_lib \<Rightarrow> px \<Rightarrow> px \<Rightarrow> money \<times> int" where
  "price_delta D from to =
     (let diff = px_rat to - px_rat from
      in (dec_dp D 2 diff, dec_dp D 2 (dec_div D diff (px_rat from) * 100)))"

definition reserve_with_buffer :: "decimal_lib \<Rightarrow> px \<Rightarrow> qty \<Rightarrow> rat \<Rightarrow> money result" where
  "reserve_with_buffer D p q buffer =
     ebind (invariant (buffer \<ge> 0 \<and> buffer < 1) ''invalid buffer ratio'')
       (\<lambda>_. Inr (dec_dp D 2 (px_rat p * of_nat q * (1 + buffer))))"

section \<open>Exactness of the text forms\<close>

lemma money_from_to_string [simp]: "money_from_string (money_to_string m) = Inr m"
  by (simp add: money_from_string_def money_to_string_def money_re_def decimal_re_fixed_text)

lemma px_from_to_string [simp]: "0 < p \<Longrightarrow> px_from_string (px_to_string p) = Inr p"
  by (simp add: px_from_string_def px_to_string_def px_re_def decimal_re_fixed_text)

lemma px_from_string_pos: "px_from_string s = Inr p \<Longrightarrow> 0 < p"
  by (auto simp: px_from_string_def result_simps)

lemma px_from_vendor_pos: "px_from_vendor_decimal D s = Inr p \<Longrightarrow> 0 < p"
  by (auto simp: px_from_vendor_decimal_def result_simps Let_def)

lemma qty_of_to_string [simp]: "qty_of_string (qty_to_string q) = Inr q"
  by (simp add: qty_of_string_def qty_to_string_def show_nat_digits)

lemma basis_from_string_nonneg: "basis_from_string s = Inr b \<Longrightarrow> 0 \<le> b"
  by (auto simp: basis_from_string_def px_re_def result_simps dest: scaled_nonneg)

lemma money_sum_eq: "money_sum vs = sum_list vs"
proof -
  have "foldl (\<lambda>acc v. acc + v) a vs = a + sum_list vs" for a :: money
    by (induction vs arbitrary: a) (auto simp: algebra_simps)
  then show ?thesis by (simp add: money_sum_def)
qed

lemma qty_subtract_eq [result_simps]: "qty_subtract a b = Inr c \<longleftrightarrow> b \<le> a \<and> c = a - b"
  by (auto simp: qty_subtract_def result_simps)

lemma basis_add_money_eq [result_simps]:
  "basis_add_money b m = Inr b' \<longleftrightarrow> 0 \<le> b + 100 * m \<and> b' = b + 100 * m"
  by (auto simp: basis_add_money_def result_simps Let_def)

section \<open>What the helpers compute, under the decimal contract\<close>

context decimal_arith
begin

lemma notional_error: "\<bar>usd (notional D p q) - px_rat p * of_nat q\<bar> \<le> 1 / 200"
  using dp_error_scaled[of 2 "px_rat p * of_nat q"] by (simp add: notional_def)

lemma notional_nonneg: "0 \<le> p \<Longrightarrow> 0 \<le> notional D p q"
  by (simp add: notional_def dp_nonneg)

lemma notional_mono: "0 \<le> p \<Longrightarrow> p \<le> p' \<Longrightarrow> q \<le> q' \<Longrightarrow> notional D p q \<le> notional D p' q'"
  unfolding notional_def by (intro dp_mono mult_mono) (auto simp: divide_right_mono)

lemma notional_half_even: "notional D p q = half_even (of_int p * of_nat q / 100)"
  unfolding notional_def dp_half_even by (rule arg_cong[of _ _ half_even]) simp

lemma reserve_covers_notional:
  assumes "reserve_with_buffer D p q buffer = Inr r" "0 \<le> p"
  shows "notional D p q \<le> r"
proof -
  from assms(1) have b: "0 \<le> buffer" and r: "r = dec_dp D 2 (px_rat p * of_nat q * (1 + buffer))"
    by (auto simp: reserve_with_buffer_def result_simps)
  have "px_rat p * of_nat q * 1 \<le> px_rat p * of_nat q * (1 + buffer)"
    using assms(2) b by (intro mult_left_mono) auto
  then show ?thesis unfolding r notional_def by (intro dp_mono) simp
qed

text \<open>The partial allocation is the exact share of the basis, rounded once.\<close>

lemma allocated_half_even:
  assumes "0 < tot" "0 \<le> b" "b * int sold < 10 ^ 39"
  shows "dec_dp D 2 (dec_div D (px_rat b * of_nat sold) (of_nat tot))
    = half_even (of_int b * of_nat sold / (100 * of_nat tot))"
proof -
  have q: "px_rat b * of_nat sold / of_nat tot * 10 ^ 2
      = of_int b * of_nat sold / (100 * of_nat tot)"
    by simp
  have "dec_dp D 2 (dec_div D (px_rat b * of_nat sold) (of_nat tot))
      = half_even (px_rat b * of_nat sold / of_nat tot * 10 ^ 2)"
  proof (rule dp_div_once[where d = "100 * int tot" and N = "b * int sold"])
    show "0 < 100 * int tot" "(of_nat tot :: rat) \<noteq> 0" using assms(1) by auto
    show "px_rat b * of_nat sold / of_nat tot * 10 ^ 2 * of_int (100 * int tot) = of_int (b * int sold)"
      using assms(1) by simp
    show "\<bar>b * int sold\<bar> < 10 ^ 39" using assms(2,3) by (simp add: abs_mult)
  qed
  then show ?thesis unfolding q .
qed

text \<open>
  On a basis of whole cents (and every basis the system builds is one) the allocation is total:
  the final check on the remainder cannot fail, and the remainder is again whole cents.
\<close>

lemma allocate_whole_cents:
  assumes "0 < sold" "sold \<le> tot" "0 \<le> c" "100 * c * int sold < 10 ^ 39"
  shows "\<exists>a. basis_allocate D (100 * c) sold tot = Inr (a, 100 * (c - a)) \<and> 0 \<le> a \<and> a \<le> c
    \<and> (sold = tot \<longrightarrow> a = c)
    \<and> (sold < tot \<longrightarrow> a = half_even (of_int c * of_nat sold / of_nat tot))"
proof (cases "sold = tot")
  case True
  have "dec_dp D 2 (px_rat (100 * c)) = c" by (rule dp_exact) simp
  with True assms show ?thesis by (simp add: basis_allocate_def)
next
  case False
  let ?a = "half_even (of_int c * of_nat sold / of_nat tot)"
  have tot: "0 < tot" and lt: "sold < tot" using assms False by auto
  have "of_int (100 * c) * of_nat sold / (100 * of_nat tot) = of_int c * of_nat sold / (of_nat tot :: rat)"
    by simp
  with allocated_half_even[of tot "100 * c" sold] assms tot
  have a: "dec_dp D 2 (dec_div D (px_rat (100 * c) * of_nat sold) (of_nat tot)) = ?a" by simp
  have "of_int c * of_nat sold / of_nat tot \<le> (of_int c :: rat)"
    using assms(2,3) tot by (simp add: field_simps mult_left_mono)
  then have le: "?a \<le> c" by (rule half_even_le_int)
  have ge: "0 \<le> ?a" using assms(3) by (intro half_even_nonneg) simp
  show ?thesis
    using assms lt le ge unfolding basis_allocate_def a
    by (simp add: Let_def right_diff_distrib)
qed

end

text \<open>The same facts for any implementation of the contract, outside the locale.\<close>

lemmas money_contract =
  decimal_arith.notional_error decimal_arith.notional_nonneg decimal_arith.notional_mono
  decimal_arith.reserve_covers_notional

section \<open>Properties\<close>

text \<open>
  Printing and parsing a value loses nothing: \<open>fromString\<close> on the canonical text of \<open>toString\<close>
  returns the same money, the same quantity and the same positive price, and refuses a price that
  is not positive; two amounts print alike only when they are equal. So amounts stored and sent as
  text never lose or gain a cent.
\<close>

theorem value_text_roundtrip:
  "money_from_string (money_to_string m) = Inr m
   \<and> (money_to_string m = money_to_string m' \<longleftrightarrow> m = m')
   \<and> qty_of_string (qty_to_string q) = Inr q
   \<and> px_from_string (px_to_string p) =
       (if 0 < p then Inr p
        else if p = 0 then Inl (InvariantViolation ''Px must be positive'')
        else Inl (InvariantViolation ''invalid Px string''))"
proof (intro conjI)
  show "money_to_string m = money_to_string m' \<longleftrightarrow> m = m'" by (simp add: money_to_string_def)
  show "px_from_string (px_to_string p) =
       (if 0 < p then Inr p
        else if p = 0 then Inl (InvariantViolation ''Px must be positive'')
        else Inl (InvariantViolation ''invalid Px string''))"
    by (simp add: px_from_string_def px_to_string_def px_re_def decimal_re_fixed_text)
qed simp_all

text \<open>
  Allocating cost basis to a sale under the decimal contract. For a basis of \<open>c\<close> whole cents
  the allocation never throws: the money allocated is the exact share \<open>c \<cdot> sold / tot\<close> rounded
  half-even exactly once (although the code rounds the quotient to 40 digits first), a sale of
  everything takes the whole basis, and allocated money and remaining basis add up to the basis.
  The bound holds for every NUMERIC(20,4) basis and BIGINT quantity.
\<close>

theorem allocate_exact_share:
  assumes "decimal_arith D" "0 < sold" "sold \<le> tot" "0 \<le> c" "100 * c * int sold < 10 ^ 39"
  shows "\<exists>a r. basis_allocate D (100 * c) sold tot = Inr (a, r) \<and> 100 * a + r = 100 * c
    \<and> a = half_even (of_int c * of_nat sold / of_nat tot) \<and> 0 \<le> a \<and> 0 \<le> r"
proof -
  from decimal_arith.allocate_whole_cents[OF assms] obtain a where
    a: "basis_allocate D (100 * c) sold tot = Inr (a, 100 * (c - a))" "0 \<le> a" "a \<le> c"
      "sold = tot \<longrightarrow> a = c" "sold < tot \<longrightarrow> a = half_even (of_int c * of_nat sold / of_nat tot)"
    by blast
  have "a = half_even (of_int c * of_nat sold / of_nat tot)"
    using a(4,5) assms(2,3) by (cases "sold = tot") auto
  with a(1-3) show ?thesis by simp
qed

theorem allocate_exact_share_witness:
  "\<exists>a r. basis_allocate js_decimal (100 * 1001) 1 3 = Inr (a, r) \<and> 100 * a + r = 100 * 1001
    \<and> a = half_even (of_int 1001 * of_nat 1 / of_nat 3) \<and> 0 \<le> a \<and> 0 \<le> r"
  using allocate_exact_share[OF js.decimal_arith_axioms, of 1 3 1001] by simp

text \<open>
  The reservation of a market buy covers the purchase: whenever \<open>reserveWithBuffer\<close> accepts
  the buffer ratio (it refuses every ratio outside \<open>[0, 1)\<close>), the cash it reserves is at least the
  notional of buying at the reference price, for every implementation of the decimal contract.
\<close>

theorem market_reserve_covers:
  assumes "decimal_arith D" "0 \<le> p"
  shows "if 0 \<le> b \<and> b < 1
    then \<exists>r. reserve_with_buffer D p q b = Inr r \<and> notional D p q \<le> r
    else reserve_with_buffer D p q b = Inl (InvariantViolation ''invalid buffer ratio'')"
  using decimal_arith.reserve_covers_notional[OF assms(1) _ assms(2), of q b]
  by (auto simp: reserve_with_buffer_def simp del: times_divide_eq_left times_divide_eq_right)

theorem market_reserve_covers_witness:
  "\<exists>r. reserve_with_buffer js_decimal 2000000 10 (1/40) = Inr r
     \<and> notional js_decimal 2000000 10 \<le> r"
  using market_reserve_covers[OF js.decimal_arith_axioms, of 2000000 "1/40" 10] by simp

end
