(* ===== verification/State_Machine.thy ===== *)
theory State_Machine
  imports Shared Money
begin

text \<open>
  \<^verbatim>\<open>src/core/orders/types.ts\<close> and \<^verbatim>\<open>src/core/orders/state-machine.ts\<close>: the vocabulary of orders and
  broker events, and the planner of state transitions. The abstract order life cycle is the step
  relation \<open>order_step\<close>; the planner is shown to walk along it.
\<close>

section \<open>Orders and events\<close>

datatype order_side = BUY | SELL
datatype order_type = MARKET | LIMIT
datatype time_in_force = DAY
datatype broker_kind = DETERMINISTIC | ALPACA_PAPER

datatype order_state =
    PENDING_SUBMISSION | ACKNOWLEDGED | ACCEPTED | PARTIALLY_FILLED | FILLED
  | CANCEL_PENDING | CANCELLED | REJECTED | EXPIRED | SUBMIT_FAILED

definition terminal_states :: "order_state set" where
  "terminal_states = {FILLED, CANCELLED, REJECTED, EXPIRED, SUBMIT_FAILED}"

definition open_states :: "order_state set" where
  "open_states =
     {PENDING_SUBMISSION, ACKNOWLEDGED, ACCEPTED, PARTIALLY_FILLED, CANCEL_PENDING}"

fun state_display :: "order_state \<Rightarrow> string" where
  "state_display PENDING_SUBMISSION = ''Pending''"
| "state_display ACKNOWLEDGED = ''Open''"
| "state_display ACCEPTED = ''Open''"
| "state_display PARTIALLY_FILLED = ''Partially filled''"
| "state_display FILLED = ''Filled''"
| "state_display CANCEL_PENDING = ''Cancelling''"
| "state_display CANCELLED = ''Cancelled''"
| "state_display REJECTED = ''Rejected''"
| "state_display EXPIRED = ''Expired''"
| "state_display SUBMIT_FAILED = ''Failed to submit''"

text \<open>The row of the table \<open>orders\<close>, which is also the service's \<open>Order\<close>.\<close>

record order =
  ord_id :: uuid
  ord_account :: uuid
  ord_instrument :: uuid
  ord_symbol :: string
  ord_side :: order_side
  ord_type :: order_type
  ord_tif :: time_in_force
  ord_qty :: qty
  ord_limit :: "px option"
  ord_state :: order_state
  ord_filled :: qty
  ord_reserved :: money
  ord_reject :: "string option"
  ord_attention :: bool
  ord_key :: string
  ord_broker :: "broker_kind option"
  ord_broker_id :: "string option"
  ord_created :: time
  ord_updated :: time

definition remaining_qty :: "order \<Rightarrow> qty result" where
  "remaining_qty o1 = qty_subtract (ord_qty o1) (ord_filled o1)"

datatype event_source = Src_broker | Src_local | Src_inferred | Src_reconciliation

datatype event_type =
    ORDER_ACKNOWLEDGED | ORDER_ACCEPTED | ORDER_PARTIALLY_FILLED | ORDER_FILLED
  | ORDER_CANCEL_PENDING | ORDER_CANCELLED | ORDER_REJECTED | ORDER_EXPIRED
  | ORDER_SUBMIT_FAILED | UNKNOWN_VENDOR_STATUS

text \<open>
  \<open>CanonicalBrokerEvent\<close>. Of the opaque \<open>raw\<close> payload only the field \<open>reason\<close> is ever read
  (\<open>rawReason\<close>), so \<open>ev_reason\<close> stands for it.
\<close>

record broker_event =
  ev_type :: event_type
  ev_broker :: broker_kind
  ev_account :: string
  ev_broker_order :: "string option"
  ev_client_order :: uuid
  ev_external :: "string option"
  ev_execution :: "string option"
  ev_fill_qty :: "qty option"
  ev_fill_price :: "px option"
  ev_fee :: "money option"
  ev_occurred :: time
  ev_reason :: "string option"

section \<open>The planner\<close>

fun event_target :: "event_type \<Rightarrow> order_state option" where
  "event_target ORDER_ACKNOWLEDGED = Some ACKNOWLEDGED"
| "event_target ORDER_ACCEPTED = Some ACCEPTED"
| "event_target ORDER_PARTIALLY_FILLED = Some PARTIALLY_FILLED"
| "event_target ORDER_FILLED = Some FILLED"
| "event_target ORDER_CANCEL_PENDING = Some CANCEL_PENDING"
| "event_target ORDER_CANCELLED = Some CANCELLED"
| "event_target ORDER_REJECTED = Some REJECTED"
| "event_target ORDER_EXPIRED = Some EXPIRED"
| "event_target ORDER_SUBMIT_FAILED = Some SUBMIT_FAILED"
| "event_target UNKNOWN_VENDOR_STATUS = None"

fun legal :: "order_state \<Rightarrow> order_state list" where
  "legal PENDING_SUBMISSION =
     [ACKNOWLEDGED, ACCEPTED, PARTIALLY_FILLED, FILLED, REJECTED, SUBMIT_FAILED]"
| "legal ACKNOWLEDGED =
     [ACCEPTED, PARTIALLY_FILLED, FILLED, CANCEL_PENDING, CANCELLED, REJECTED, EXPIRED]"
| "legal ACCEPTED =
     [PARTIALLY_FILLED, FILLED, CANCEL_PENDING, CANCELLED, REJECTED, EXPIRED]"
| "legal PARTIALLY_FILLED = [PARTIALLY_FILLED, FILLED, CANCEL_PENDING, CANCELLED, EXPIRED]"
| "legal CANCEL_PENDING = [PARTIALLY_FILLED, FILLED, CANCELLED, EXPIRED]"
| "legal FILLED = []"
| "legal CANCELLED = []"
| "legal REJECTED = []"
| "legal EXPIRED = []"
| "legal SUBMIT_FAILED = []"

record transition_step =
  step_from :: order_state
  step_to :: order_state
  step_inferred :: bool

definition is_terminal :: "order_state \<Rightarrow> bool" where
  "is_terminal s \<longleftrightarrow> s \<in> terminal_states"

definition is_fill_event :: "event_type \<Rightarrow> bool" where
  "is_fill_event ty \<longleftrightarrow> ty = ORDER_PARTIALLY_FILLED \<or> ty = ORDER_FILLED"

definition invalid_transition :: "'a result" where
  "invalid_transition = app_error DOMAIN_RULE INVALID_STATE_TRANSITION"

definition plan_transitions :: "order_state \<Rightarrow> event_type \<Rightarrow> transition_step list result" where
  "plan_transitions current ty =
     (case event_target ty of
        None \<Rightarrow> Inr []
      | Some target \<Rightarrow>
          if target = current \<and> \<not> is_fill_event ty then Inr []
          else if is_fill_event ty \<and> (current = PENDING_SUBMISSION \<or> current = ACKNOWLEDGED) then
            Inr [\<lparr>step_from = current, step_to = ACCEPTED, step_inferred = True\<rparr>,
                 \<lparr>step_from = ACCEPTED, step_to = target, step_inferred = False\<rparr>]
          else if target \<in> set (legal current) then
            Inr [\<lparr>step_from = current, step_to = target, step_inferred = False\<rparr>]
          else invalid_transition)"

text \<open>The state after a plan: the last step's target, or the current state for an empty plan.\<close>

definition end_state :: "order_state \<Rightarrow> transition_step list \<Rightarrow> order_state" where
  "end_state s steps = foldl (\<lambda>_ st. step_to st) s steps"

section \<open>The abstract life cycle\<close>

text \<open>One step of the life cycle of an order, and the moves the planner may make along it.\<close>

inductive order_step :: "order_state \<Rightarrow> order_state \<Rightarrow> bool" where
  legal_step: "t \<in> set (legal s) \<Longrightarrow> order_step s t"

code_pred order_step .

inductive_cases order_stepE: "order_step s t"
inductive_simps order_step_simps: "order_step s t"

inductive step_chain :: "order_state \<Rightarrow> transition_step list \<Rightarrow> order_state \<Rightarrow> bool" where
  chain_Nil: "step_chain s [] s"
| chain_Cons: "order_step (step_from st) (step_to st) \<Longrightarrow> step_chain (step_to st) steps t
    \<Longrightarrow> step_from st = s \<Longrightarrow> step_chain s (st # steps) t"

inductive_cases chain_NilE: "step_chain s [] t"
inductive_cases chain_ConsE: "step_chain s (st # steps) t"
inductive_simps step_chain_simps [simp]: "step_chain s [] t" "step_chain s (st # steps) t"

lemma terminal_no_legal: "is_terminal s \<Longrightarrow> legal s = []"
  by (cases s) (auto simp: is_terminal_def terminal_states_def)

lemma terminal_no_step: "is_terminal s \<Longrightarrow> \<not> order_step s t"
  by (simp add: order_step_simps terminal_no_legal)

lemma open_iff_not_terminal: "s \<in> open_states \<longleftrightarrow> \<not> is_terminal s"
  by (cases s) (auto simp: open_states_def is_terminal_def terminal_states_def)

lemma end_state_simps [simp]:
  "end_state s [] = s"
  "end_state s (st # steps) = end_state (step_to st) steps"
  by (simp_all add: end_state_def)

lemma step_chain_end: "step_chain s steps t \<Longrightarrow> end_state s steps = t"
  by (induction rule: step_chain.induct) auto

text \<open>A chain is a path of the life cycle, so nothing leaves a terminal state.\<close>

lemma step_chain_path: "step_chain s steps t \<Longrightarrow> order_step\<^sup>*\<^sup>* s t"
  by (induction rule: step_chain.induct) (auto intro: converse_rtranclp_into_rtranclp)

lemma terminal_path_refl: "order_step\<^sup>*\<^sup>* s t \<Longrightarrow> is_terminal s \<Longrightarrow> t = s"
  by (induction rule: converse_rtranclp_induct) (auto dest: terminal_no_step)

lemma plan_chain:
  assumes "plan_transitions s ty = Inr steps"
  shows "step_chain s steps (end_state s steps)"
  using assms
  by (cases s; cases ty)
     (auto simp: plan_transitions_def is_fill_event_def invalid_transition_def order_step_simps)

lemma plan_end:
  assumes "plan_transitions s ty = Inr steps"
  shows "end_state s steps = (case event_target ty of None \<Rightarrow> s | Some t \<Rightarrow> t)"
  using assms
  by (auto simp: plan_transitions_def invalid_transition_def split: option.splits if_splits)

lemma plan_terminal:
  assumes "is_terminal s" "plan_transitions s ty = Inr steps"
  shows "steps = []"
  using assms terminal_no_legal[OF assms(1)]
  by (auto simp: plan_transitions_def invalid_transition_def is_terminal_def terminal_states_def
      split: option.splits if_splits)

lemma plan_fill_nonempty:
  assumes "is_fill_event ty" "plan_transitions s ty = Inr steps"
  shows "steps \<noteq> [] \<and> \<not> is_terminal s
    \<and> end_state s steps = (if ty = ORDER_FILLED then FILLED else PARTIALLY_FILLED)"
  using assms
  by (cases s; cases ty) (auto simp: plan_transitions_def is_fill_event_def invalid_transition_def
      is_terminal_def terminal_states_def)

lemma plan_fill_terminal:
  "is_fill_event ty \<Longrightarrow> is_terminal s \<Longrightarrow> plan_transitions s ty = invalid_transition"
  by (cases s; cases ty) (auto simp: plan_transitions_def is_fill_event_def is_terminal_def
      terminal_states_def)

lemma plan_total:
  "plan_transitions s ty = Inl e \<longleftrightarrow>
     e = AppError DOMAIN_RULE (Some INVALID_STATE_TRANSITION) \<and>
     (\<exists>t. event_target ty = Some t \<and> \<not> order_step s t \<and> \<not> (t = s \<and> \<not> is_fill_event ty))"
  by (cases s; cases ty) (auto simp: plan_transitions_def is_fill_event_def invalid_transition_def
      order_step_simps)

text \<open>
  The stage of a state. A legal step never goes back, except that a cancellation under way may
  still lose to a partial fill.
\<close>

fun stage :: "order_state \<Rightarrow> nat" where
  "stage PENDING_SUBMISSION = 0"
| "stage ACKNOWLEDGED = 1"
| "stage ACCEPTED = 2"
| "stage PARTIALLY_FILLED = 3"
| "stage CANCEL_PENDING = 4"
| "stage _ = 5"

lemma order_step_stage:
  "order_step s t \<Longrightarrow> stage s < stage t
     \<or> t = PARTIALLY_FILLED \<and> (s = PARTIALLY_FILLED \<or> s = CANCEL_PENDING)"
  by (cases s) (auto elim!: order_stepE)

lemma terminal_stage: "is_terminal s \<longleftrightarrow> stage s = 5"
  by (cases s) (auto simp: is_terminal_def terminal_states_def)

section \<open>Properties\<close>

text \<open>
  The planner against the life cycle. For every state and event, \<open>planTransitions\<close> returns
  either a contiguous path of legal steps from the current state that ends in the event's target
  (or stays put for an unknown status and for the echo of the current state), or the error
  \<open>INVALID_STATE_TRANSITION\<close>, and it throws exactly when the target is not a legal next state and
  is not such an echo.
\<close>

theorem planner_refines_lifecycle:
  "case plan_transitions s ty of
     Inr steps \<Rightarrow> step_chain s steps (case event_target ty of None \<Rightarrow> s | Some t \<Rightarrow> t)
   | Inl e \<Rightarrow> e = AppError DOMAIN_RULE (Some INVALID_STATE_TRANSITION)
       \<and> (\<exists>t. event_target ty = Some t \<and> \<not> order_step s t \<and> \<not> (t = s \<and> \<not> is_fill_event ty))"
proof (cases "plan_transitions s ty")
  case (Inl e)
  with plan_total[of s ty e] show ?thesis by simp
next
  case (Inr steps)
  with plan_chain[OF Inr] plan_end[OF Inr] show ?thesis by simp
qed

text \<open>
  Terminal states have no exit and open orders can always end. Whatever sequence of planned
  transitions follows, a terminal order keeps its state, and no plan from it has a step; while
  every open state admits a completing fill whose plan ends in \<open>FILLED\<close>.
\<close>

theorem terminal_is_final:
  "if is_terminal s
   then (\<forall>t. order_step\<^sup>*\<^sup>* s t \<longleftrightarrow> t = s)
     \<and> (\<forall>ty. plan_transitions s ty \<in> {Inr [], invalid_transition})
   else s \<in> open_states
     \<and> (\<exists>steps. plan_transitions s ORDER_FILLED = Inr steps \<and> step_chain s steps FILLED)"
proof (cases "is_terminal s")
  case True
  have "plan_transitions s ty \<in> {Inr [], invalid_transition}" for ty
  proof (cases "plan_transitions s ty")
    case (Inl e)
    then show ?thesis by (simp add: plan_total invalid_transition_def app_error_def)
  next
    case (Inr steps)
    with plan_terminal[OF True Inr] show ?thesis by simp
  qed
  with True show ?thesis by (auto dest: terminal_path_refl)
next
  case False
  have "\<exists>steps. plan_transitions s ORDER_FILLED = Inr steps \<and> step_chain s steps FILLED"
    using False by (cases s) (auto simp: plan_transitions_def is_fill_event_def is_terminal_def
        terminal_states_def order_step_simps)
  with False show ?thesis by (simp add: open_iff_not_terminal)
qed

end
