(* ===== verification/Database.thy ===== *)
theory Database
  imports State_Machine
begin

text \<open>
  \<^verbatim>\<open>src/infra/db/schema.ts\<close>: the tables the trading services write, as lists of rows, and the
  constraints the database enforces on each of them (primary and unique keys, checks, foreign
  keys). A statement whose result violates a constraint raises \<open>ConstraintViolation\<close>.
  \<open>db_now\<close> is \<open>now()\<close>, the start of the current transaction; \<open>next_id\<close> is the source of
  \<open>gen_random_uuid()\<close>, of which only freshness is used; a row's key is a number. The column ranges that the arithmetic
  relies on are checked (quantities, reservations and cost basis); the other NUMERIC ranges and the
  foreign keys to users are not modelled.
\<close>

section \<open>Rows\<close>

datatype account_status = PROVISIONING | ACTIVE | ARCHIVED | PROVISIONING_FAILED

record account =
  acc_id :: uuid
  acc_user :: uuid
  acc_status :: account_status
  acc_starting :: money
  acc_cash :: money
  acc_created :: time

datatype recon_status = HEALTHY | STALE | RECONCILING | DRIFT_DETECTED | ERROR

record broker_ref =
  ref_broker :: broker_kind
  ref_external :: string

record broker_account =
  ba_account :: uuid
  ba_ref :: broker_ref
  ba_status :: account_status
  ba_reconciled :: "time option"
  ba_recon_status :: recon_status

record instrument =
  ins_id :: uuid
  ins_symbol :: string
  ins_name :: string
  ins_exchange :: string
  ins_status :: string

record order_event =
  oe_order :: uuid
  oe_type :: event_type
  oe_from :: "order_state option"
  oe_to :: "order_state option"
  oe_source :: event_source
  oe_broker :: "broker_kind option"
  oe_external :: "string option"
  oe_occurred :: time
  oe_reason :: "string option"

record fill =
  fl_order :: uuid
  fl_qty :: qty
  fl_price :: px
  fl_fee :: money
  fl_notional :: money
  fl_broker :: broker_kind
  fl_execution :: string
  fl_occurred :: time
  fl_created :: time

record position =
  pos_account :: uuid
  pos_instrument :: uuid
  pos_symbol :: string
  pos_qty :: qty
  pos_basis :: basis

text \<open>The columns \<open>ref_type\<close> and \<open>ref_id\<close>; a fill's identifier is \<open>broker:executionId\<close>.\<close>

datatype ledger_ref =
  Ref_account uuid | Ref_fill broker_kind string | Ref_transfer uuid

datatype entry_type =
  Entry_deposit | Entry_withdrawal | Entry_trade | Entry_fee | Entry_adjustment

record new_entry =
  ne_account :: uuid
  ne_type :: entry_type
  ne_amount :: money
  ne_ref :: "ledger_ref option"
  ne_description :: string

record ledger_entry =
  le_id :: uuid
  le_account :: uuid
  le_type :: entry_type
  le_amount :: money
  le_ref :: "ledger_ref option"
  le_description :: string
  le_created :: time

datatype transfer_direction = DEPOSIT | WITHDRAWAL
datatype transfer_state = PENDING | SETTLED | FAILED | CANCELED

record cash_transfer =
  tr_id :: uuid
  tr_account :: uuid
  tr_direction :: transfer_direction
  tr_amount :: money
  tr_state :: transfer_state
  tr_venue :: "string option"
  tr_key :: string
  tr_hash :: string
  tr_failure :: "string option"
  tr_created :: time
  tr_settled :: "time option"
  tr_updated :: time

record db =
  accounts :: "account list"
  broker_accounts :: "broker_account list"
  instruments :: "instrument list"
  orders :: "order list"
  order_events :: "order_event list"
  fills :: "fill list"
  positions :: "position list"
  ledger :: "ledger_entry list"
  transfers :: "cash_transfer list"
  next_id :: uuid
  db_now :: time

definition empty_db :: "time \<Rightarrow> db" where
  "empty_db now =
     \<lparr>accounts = [], broker_accounts = [], instruments = [], orders = [], order_events = [],
      fills = [], positions = [], ledger = [], transfers = [], next_id = 0, db_now = now\<rparr>"

section \<open>Constraints\<close>

text \<open>The ranges of BIGINT, NUMERIC(18,2) and NUMERIC(20,4) columns.\<close>

definition bigint :: "qty \<Rightarrow> bool" where
  "bigint q \<longleftrightarrow> q < 2 ^ 63"

definition numeric_18_2 :: "money \<Rightarrow> bool" where
  "numeric_18_2 m \<longleftrightarrow> \<bar>m\<bar> < 10 ^ 18"

definition numeric_20_4 :: "basis \<Rightarrow> bool" where
  "numeric_20_4 b \<longleftrightarrow> \<bar>b\<bar> < 10 ^ 20"

text \<open>NULLs never collide in a unique index: only the defined keys must be distinct.\<close>

definition unique_index :: "('r \<Rightarrow> 'k option) \<Rightarrow> 'r list \<Rightarrow> bool" where
  "unique_index key rs = distinct (List.map_filter key rs)"

definition open_account :: "account \<Rightarrow> bool" where
  "open_account a \<longleftrightarrow> acc_status a = PROVISIONING \<or> acc_status a = ACTIVE"

definition accounts_ok :: "account list \<Rightarrow> bool" where
  "accounts_ok rs \<longleftrightarrow> distinct (map acc_id rs)
     \<and> unique_index (\<lambda>a. if open_account a then Some (acc_user a) else None) rs"

definition broker_accounts_ok :: "broker_account list \<Rightarrow> bool" where
  "broker_accounts_ok rs \<longleftrightarrow> distinct (map ba_ref rs) \<and> distinct (map ba_account rs)"

definition instruments_ok :: "instrument list \<Rightarrow> bool" where
  "instruments_ok rs \<longleftrightarrow> distinct (map ins_id rs) \<and> distinct (map ins_symbol rs)"

definition order_check :: "order \<Rightarrow> bool" where
  "order_check r \<longleftrightarrow> ord_qty r > 0 \<and> ord_filled r \<le> ord_qty r
     \<and> (ord_limit r = None \<longleftrightarrow> ord_type r = MARKET)
     \<and> bigint (ord_qty r) \<and> numeric_18_2 (ord_reserved r)"

definition broker_order_key :: "order \<Rightarrow> (broker_kind \<times> string) option" where
  "broker_order_key r = (case (ord_broker r, ord_broker_id r) of
     (Some b, Some i) \<Rightarrow> Some (b, i) | _ \<Rightarrow> None)"

definition orders_ok :: "order list \<Rightarrow> bool" where
  "orders_ok rs \<longleftrightarrow> list_all order_check rs \<and> distinct (map ord_id rs)
     \<and> distinct (map (\<lambda>r. (ord_account r, ord_key r)) rs)
     \<and> unique_index broker_order_key rs"

definition event_key :: "order_event \<Rightarrow> (broker_kind \<times> string) option" where
  "event_key r = (case (oe_broker r, oe_external r) of
     (Some b, Some i) \<Rightarrow> Some (b, i) | _ \<Rightarrow> None)"

definition order_events_ok :: "order_event list \<Rightarrow> bool" where
  "order_events_ok rs = unique_index event_key rs"

definition fills_ok :: "fill list \<Rightarrow> bool" where
  "fills_ok rs \<longleftrightarrow> list_all (\<lambda>r. fl_qty r > 0) rs
     \<and> distinct (map (\<lambda>r. (fl_broker r, fl_execution r)) rs)"

definition positions_ok :: "position list \<Rightarrow> bool" where
  "positions_ok rs \<longleftrightarrow>
     list_all (\<lambda>r. pos_basis r \<ge> 0 \<and> bigint (pos_qty r) \<and> numeric_20_4 (pos_basis r)) rs
     \<and> distinct (map (\<lambda>r. (pos_account r, pos_instrument r)) rs)"

definition transfer_ref :: "ledger_entry \<Rightarrow> uuid option" where
  "transfer_ref r = (case le_ref r of Some (Ref_transfer i) \<Rightarrow> Some i | _ \<Rightarrow> None)"

definition ledger_ok :: "ledger_entry list \<Rightarrow> bool" where
  "ledger_ok rs \<longleftrightarrow> list_all (\<lambda>r. le_amount r \<noteq> 0) rs \<and> distinct (map le_id rs)
     \<and> unique_index transfer_ref rs"

definition transfer_check :: "cash_transfer \<Rightarrow> bool" where
  "transfer_check r \<longleftrightarrow> tr_amount r > 0 \<and> (tr_state r = SETTLED \<longleftrightarrow> tr_settled r \<noteq> None)"

definition transfers_ok :: "cash_transfer list \<Rightarrow> bool" where
  "transfers_ok rs \<longleftrightarrow> list_all transfer_check rs \<and> distinct (map tr_id rs)
     \<and> distinct (map (\<lambda>r. (tr_account r, tr_key r)) rs) \<and> unique_index tr_venue rs"

text \<open>Foreign keys, and the freshness of \<open>next_id\<close>.\<close>

definition has_account :: "db \<Rightarrow> uuid \<Rightarrow> bool" where
  "has_account d i \<longleftrightarrow> i \<in> set (map acc_id (accounts d))"

definition has_instrument :: "db \<Rightarrow> uuid \<Rightarrow> bool" where
  "has_instrument d i \<longleftrightarrow> i \<in> set (map ins_id (instruments d))"

definition has_order :: "db \<Rightarrow> uuid \<Rightarrow> bool" where
  "has_order d i \<longleftrightarrow> i \<in> set (map ord_id (orders d))"

definition references_ok :: "db \<Rightarrow> bool" where
  "references_ok d \<longleftrightarrow>
     list_all (\<lambda>r. has_account d (ba_account r)) (broker_accounts d)
   \<and> list_all (\<lambda>r. has_account d (ord_account r) \<and> has_instrument d (ord_instrument r)) (orders d)
   \<and> list_all (\<lambda>r. has_order d (oe_order r)) (order_events d)
   \<and> list_all (\<lambda>r. has_order d (fl_order r)) (fills d)
   \<and> list_all (\<lambda>r. has_account d (pos_account r) \<and> has_instrument d (pos_instrument r)) (positions d)
   \<and> list_all (\<lambda>r. has_account d (le_account r)) (ledger d)
   \<and> list_all (\<lambda>r. has_account d (tr_account r)) (transfers d)"

definition ids_fresh :: "db \<Rightarrow> bool" where
  "ids_fresh d \<longleftrightarrow>
     list_all (\<lambda>i. i < next_id d) (map acc_id (accounts d) @ map ins_id (instruments d)
       @ map ord_id (orders d) @ map le_id (ledger d) @ map tr_id (transfers d))"

definition schema_ok :: "db \<Rightarrow> bool" where
  "schema_ok d \<longleftrightarrow> accounts_ok (accounts d) \<and> broker_accounts_ok (broker_accounts d)
     \<and> instruments_ok (instruments d) \<and> orders_ok (orders d) \<and> order_events_ok (order_events d)
     \<and> fills_ok (fills d) \<and> positions_ok (positions d) \<and> ledger_ok (ledger d)
     \<and> transfers_ok (transfers d) \<and> references_ok d \<and> ids_fresh d"

text \<open>The end of a write: keep the new database when the constraint holds, raise otherwise.\<close>

definition checked :: "string \<Rightarrow> bool \<Rightarrow> 'a \<Rightarrow> 'a result" where
  "checked name ok x = ebind (ensure ok (ConstraintViolation name)) (\<lambda>_. Inr x)"

lemma checked_eq_Inr [result_simps]: "checked name ok x = Inr y \<longleftrightarrow> ok \<and> y = x"
  by (auto simp: checked_def result_simps)

lemma checked_eq_Inl [result_simps]:
  "checked name ok x = Inl e \<longleftrightarrow> \<not> ok \<and> e = ConstraintViolation name"
  by (cases ok) (auto simp: checked_def)

lemma checked_True [simp]: "checked name True x = Inr x"
  by (simp add: checked_def)

lemma set_map_filter: "set (List.map_filter f xs) = {y. Some y \<in> f ` set xs}"
  by (induction xs) (auto split: option.splits)

lemma unique_index_simps [simp]:
  "unique_index key []"
  "unique_index key (r # rs) \<longleftrightarrow>
     (case key r of None \<Rightarrow> True | Some k \<Rightarrow> Some k \<notin> key ` set rs) \<and> unique_index key rs"
proof -
  show "unique_index key []" by (simp add: unique_index_def)
  show "unique_index key (r # rs) \<longleftrightarrow>
     (case key r of None \<Rightarrow> True | Some k \<Rightarrow> Some k \<notin> key ` set rs) \<and> unique_index key rs"
    by (cases "key r") (auto simp: unique_index_def set_map_filter)
qed

lemma unique_index_append:
  "unique_index key (rs @ rs') \<longleftrightarrow> unique_index key rs \<and> unique_index key rs'
     \<and> (\<forall>k. Some k \<in> key ` set rs \<longrightarrow> Some k \<notin> key ` set rs')"
proof (induction rs)
  case (Cons r rs)
  then show ?case by (cases "key r") auto
qed simp

lemma unique_index_shrink:
  "(\<And>r. p r \<Longrightarrow> key (f r) = key r \<or> key (f r) = None) \<Longrightarrow> unique_index key rs \<Longrightarrow> unique_index key (modify p f rs)"
proof (induction rs)
  case (Cons r rs)
  have "Some k \<notin> key ` set (modify p f rs)" if "Some k \<notin> key ` set rs" for k
    using that Cons(2) by (force simp: set_modify)
  moreover have "key (if p r then f r else r) = key r \<or> key (if p r then f r else r) = None"
    using Cons(2)[of r] by simp
  ultimately show ?case using Cons by (cases "key r") fastforce+
qed simp

lemma unique_indexD:
  assumes "unique_index key rs" "r \<in> set rs" "r' \<in> set rs" "key r = Some k" "key r' = Some k"
  shows "r = r'"
  using assms
proof (induction rs)
  case (Cons x rs)
  have "Some k \<in> key ` set rs" if "y \<in> set rs" "key y = Some k" for y
    using that by (metis imageI)
  with Cons show ?case by auto
qed simp

lemma schema_empty [simp]: "schema_ok (empty_db now)"
  by (simp add: schema_ok_def empty_db_def accounts_ok_def broker_accounts_ok_def instruments_ok_def
      orders_ok_def order_events_ok_def fills_ok_def positions_ok_def ledger_ok_def transfers_ok_def
      references_ok_def ids_fresh_def)

text \<open>Looking a row up by its primary key finds the only row with that key.\<close>

lemma account_key_unique:
  "schema_ok d \<Longrightarrow> a \<in> set (accounts d) \<Longrightarrow> find (\<lambda>r. acc_id r = acc_id a) (accounts d) = Some a"
  by (rule find_key_unique) (simp_all add: schema_ok_def accounts_ok_def)

lemma order_key_unique:
  "schema_ok d \<Longrightarrow> r \<in> set (orders d) \<Longrightarrow> find (\<lambda>r'. ord_id r' = ord_id r) (orders d) = Some r"
  by (rule find_key_unique) (simp_all add: schema_ok_def orders_ok_def)

lemma transfer_key_unique:
  "schema_ok d \<Longrightarrow> r \<in> set (transfers d)
    \<Longrightarrow> find (\<lambda>r'. tr_id r' = tr_id r) (transfers d) = Some r"
  by (rule find_key_unique) (simp_all add: schema_ok_def transfers_ok_def)

end
