(* ===== verification/Repositories.thy ===== *)
theory Repositories
  imports Database
begin

text \<open>
  \<^verbatim>\<open>src/infra/db/repositories\<close>: the statements the services run, as functions on the database.
  A read is a function of \<open>db\<close>; a write returns the new database or raises. Row locks
  (\<open>SELECT \<dots> FOR UPDATE\<close>) are plain reads, because a transaction is one step of the model.
  \<open>INSERT \<dots> ON CONFLICT DO NOTHING\<close> returns \<open>None\<close> (or \<open>False\<close>) on a conflict. An \<open>ORDER BY\<close> whose
  key ties keeps the order of insertion.
  Every write is shown to keep \<open>schema_ok\<close>: the lemmas named \<open>schema_\<close> in \<open>inv_intros\<close>.
\<close>

section \<open>Accounts\<close>

definition create_account :: "uuid \<Rightarrow> money \<Rightarrow> db \<Rightarrow> (account \<times> db) result" where
  "create_account user starting d =
     (let a = \<lparr>acc_id = next_id d, acc_user = user, acc_status = PROVISIONING,
               acc_starting = starting, acc_cash = 0, acc_created = db_now d\<rparr>;
          rows = accounts d @ [a]
      in checked ''accounts'' (accounts_ok rows)
           (a, d\<lparr>accounts := rows, next_id := next_id d + 1\<rparr>))"

definition get_account :: "db \<Rightarrow> uuid \<Rightarrow> account option" where
  "get_account d i = find (\<lambda>a. acc_id a = i) (accounts d)"

definition get_active_for_user :: "db \<Rightarrow> uuid \<Rightarrow> account option" where
  "get_active_for_user d u = find (\<lambda>a. acc_user a = u \<and> acc_status a = ACTIVE) (accounts d)"

definition get_current_for_user :: "db \<Rightarrow> uuid \<Rightarrow> account option" where
  "get_current_for_user d u =
     (case sort_key (\<lambda>a. - acc_created a)
             (filter (\<lambda>a. acc_user a = u \<and> acc_status a \<noteq> ARCHIVED) (accounts d)) of
        [] \<Rightarrow> None | a # _ \<Rightarrow> Some a)"

definition list_provisioning_ids :: "db \<Rightarrow> uuid list" where
  "list_provisioning_ids d = map acc_id (filter (\<lambda>a. acc_status a = PROVISIONING) (accounts d))"

definition lock_account :: "db \<Rightarrow> uuid \<Rightarrow> account result" where
  "lock_account d i = of_option (InvariantViolation ''account not found for locking'') (get_account d i)"

definition set_status :: "uuid \<Rightarrow> account_status \<Rightarrow> db \<Rightarrow> db result" where
  "set_status i st d =
     (let rows = modify (\<lambda>a. acc_id a = i) (\<lambda>a. a\<lparr>acc_status := st\<rparr>) (accounts d)
      in checked ''accounts'' (accounts_ok rows) (d\<lparr>accounts := rows\<rparr>))"

definition adjust_cash :: "uuid \<Rightarrow> money \<Rightarrow> db \<Rightarrow> db" where
  "adjust_cash i delta d =
     d\<lparr>accounts := modify (\<lambda>a. acc_id a = i) (\<lambda>a. a\<lparr>acc_cash := acc_cash a + delta\<rparr>) (accounts d)\<rparr>"

definition get_cached_cash :: "db \<Rightarrow> uuid \<Rightarrow> money result" where
  "get_cached_cash d i =
     ebind (of_option (InvariantViolation ''account not found'') (get_account d i))
       (\<lambda>a. Inr (acc_cash a))"

definition link_broker_account :: "uuid \<Rightarrow> broker_ref \<Rightarrow> db \<Rightarrow> db result" where
  "link_broker_account i ref d =
     (let rows = broker_accounts d @ [\<lparr>ba_account = i, ba_ref = ref, ba_status = ACTIVE,
                    ba_reconciled = None, ba_recon_status = HEALTHY\<rparr>]
      in checked ''broker_accounts'' (broker_accounts_ok rows \<and> has_account d i)
           (d\<lparr>broker_accounts := rows\<rparr>))"

definition get_broker_account :: "db \<Rightarrow> uuid \<Rightarrow> broker_ref option" where
  "get_broker_account d i =
     map_option ba_ref (find (\<lambda>b. ba_account b = i) (broker_accounts d))"

definition archive_broker_account :: "uuid \<Rightarrow> db \<Rightarrow> db" where
  "archive_broker_account i d =
     d\<lparr>broker_accounts :=
         modify (\<lambda>b. ba_account b = i) (\<lambda>b. b\<lparr>ba_status := ARCHIVED\<rparr>) (broker_accounts d)\<rparr>"

section \<open>Reconciliation status\<close>

definition list_active_account_ids :: "db \<Rightarrow> uuid list" where
  "list_active_account_ids d = map acc_id (filter (\<lambda>a. acc_status a = ACTIVE) (accounts d))"

definition set_recon_status :: "uuid \<Rightarrow> recon_status \<Rightarrow> time \<Rightarrow> db \<Rightarrow> db" where
  "set_recon_status i st now d =
     d\<lparr>broker_accounts :=
         modify (\<lambda>b. ba_account b = i)
           (\<lambda>b. b\<lparr>ba_recon_status := st, ba_reconciled := Some now\<rparr>) (broker_accounts d)\<rparr>"

section \<open>Orders\<close>

record new_order =
  no_account :: account
  no_instrument :: instrument
  no_side :: order_side
  no_type :: order_type
  no_qty :: qty
  no_limit :: "px option"
  no_ref_price :: "px option"
  no_key :: string

definition find_order_key :: "db \<Rightarrow> uuid \<Rightarrow> string \<Rightarrow> order option" where
  "find_order_key d i key = find (\<lambda>r. ord_account r = i \<and> ord_key r = key) (orders d)"

definition insert_order :: "new_order \<Rightarrow> money \<Rightarrow> db \<Rightarrow> (order option \<times> db) result" where
  "insert_order inp reserved d =
     (let r = \<lparr>ord_id = next_id d, ord_account = acc_id (no_account inp),
               ord_instrument = ins_id (no_instrument inp),
               ord_symbol = ins_symbol (no_instrument inp), ord_side = no_side inp,
               ord_type = no_type inp, ord_tif = DAY, ord_qty = no_qty inp,
               ord_limit = no_limit inp, ord_state = PENDING_SUBMISSION, ord_filled = 0,
               ord_reserved = reserved, ord_reject = None, ord_attention = False,
               ord_key = no_key inp, ord_broker = None, ord_broker_id = None,
               ord_created = db_now d, ord_updated = db_now d\<rparr>
      in if order_check r \<and> find_order_key d (ord_account r) (ord_key r) \<noteq> None then Inr (None, d)
         else let rows = orders d @ [r]
              in checked ''orders''
                   (orders_ok rows \<and> has_account d (ord_account r)
                     \<and> has_instrument d (ord_instrument r))
                   (Some r, d\<lparr>orders := rows, next_id := next_id d + 1\<rparr>))"

definition get_order :: "db \<Rightarrow> uuid \<Rightarrow> order option" where
  "get_order d i = find (\<lambda>r. ord_id r = i) (orders d)"

definition list_orders :: "db \<Rightarrow> uuid \<Rightarrow> bool \<Rightarrow> nat \<Rightarrow> order list" where
  "list_orders d i open_only limit =
     take limit (sort_key (\<lambda>r. - ord_created r)
       (filter (\<lambda>r. ord_account r = i \<and> (open_only \<longrightarrow> ord_state r \<in> open_states)) (orders d)))"

text \<open>The patch of an update: \<open>None\<close> is an absent field, and leaves the column as it is.\<close>

record order_patch =
  pt_state :: "order_state option"
  pt_filled :: "qty option"
  pt_reserved :: "money option"
  pt_broker :: "broker_kind option"
  pt_broker_id :: "string option"
  pt_reject :: "string option"
  pt_attention :: "bool option"

definition no_patch :: order_patch where
  "no_patch = \<lparr>pt_state = None, pt_filled = None, pt_reserved = None, pt_broker = None,
     pt_broker_id = None, pt_reject = None, pt_attention = None\<rparr>"

definition or_else :: "'a option \<Rightarrow> 'a option \<Rightarrow> 'a option" where
  "or_else a b = (case a of None \<Rightarrow> b | Some x \<Rightarrow> Some x)"

definition apply_patch :: "order_patch \<Rightarrow> time \<Rightarrow> order \<Rightarrow> order" where
  "apply_patch p now r =
     r\<lparr>ord_state := case_option (ord_state r) id (pt_state p),
       ord_filled := case_option (ord_filled r) id (pt_filled p),
       ord_reserved := case_option (ord_reserved r) id (pt_reserved p),
       ord_broker := or_else (pt_broker p) (ord_broker r),
       ord_broker_id := or_else (pt_broker_id p) (ord_broker_id r),
       ord_reject := or_else (pt_reject p) (ord_reject r),
       ord_attention := case_option (ord_attention r) id (pt_attention p),
       ord_updated := now\<rparr>"

definition update_order :: "uuid \<Rightarrow> order_patch \<Rightarrow> db \<Rightarrow> db result" where
  "update_order i p d =
     (let rows = modify (\<lambda>r. ord_id r = i) (apply_patch p (db_now d)) (orders d)
      in checked ''orders'' (orders_ok rows) (d\<lparr>orders := rows\<rparr>))"

definition sum_open_buy_reservations :: "db \<Rightarrow> uuid \<Rightarrow> money" where
  "sum_open_buy_reservations d i =
     total ord_reserved (\<lambda>r. ord_account r = i \<and> ord_side r = BUY \<and> ord_state r \<in> open_states)
       (orders d)"

definition sum_open_sell_remainders :: "db \<Rightarrow> uuid \<Rightarrow> uuid \<Rightarrow> qty result" where
  "sum_open_sell_remainders d i ins =
     qty_of_int (total (\<lambda>r. int (ord_qty r) - int (ord_filled r))
       (\<lambda>r. ord_account r = i \<and> ord_instrument r = ins \<and> ord_side r = SELL
          \<and> ord_state r \<in> open_states) (orders d))"

definition sum_open_sell_by_instrument :: "db \<Rightarrow> uuid \<Rightarrow> uuid \<Rightarrow> qty option" where
  "sum_open_sell_by_instrument d i ins =
     (if list_ex (\<lambda>r. ord_account r = i \<and> ord_instrument r = ins \<and> ord_side r = SELL
            \<and> ord_state r \<in> open_states) (orders d)
      then (case sum_open_sell_remainders d i ins of Inl _ \<Rightarrow> None | Inr q \<Rightarrow> Some q)
      else None)"

definition insert_event :: "order_event \<Rightarrow> db \<Rightarrow> (bool \<times> db) result" where
  "insert_event e d =
     (if event_key e \<noteq> None \<and> event_key e \<in> set (map event_key (order_events d)) then Inr (False, d)
      else let rows = order_events d @ [e]
           in checked ''order_events'' (order_events_ok rows \<and> has_order d (oe_order e))
                (True, d\<lparr>order_events := rows\<rparr>))"

definition event_exists :: "db \<Rightarrow> broker_kind option \<Rightarrow> string \<Rightarrow> bool" where
  "event_exists d b ext =
     (b \<noteq> None \<and> list_ex (\<lambda>r. oe_broker r = b \<and> oe_external r = Some ext) (order_events d))"

definition list_events :: "db \<Rightarrow> uuid \<Rightarrow> order_event list" where
  "list_events d i = filter (\<lambda>r. oe_order r = i) (order_events d)"

section \<open>Fills and positions\<close>

definition insert_fill :: "fill \<Rightarrow> db \<Rightarrow> (bool \<times> db) result" where
  "insert_fill f d =
     (if fl_qty f > 0 \<and> list_ex (\<lambda>r. fl_broker r = fl_broker f \<and> fl_execution r = fl_execution f) (fills d)
      then Inr (False, d)
      else let rows = fills d @ [f]
           in checked ''fills'' (fills_ok rows \<and> has_order d (fl_order f))
                (True, d\<lparr>fills := rows\<rparr>))"

definition execution_exists :: "db \<Rightarrow> broker_kind \<Rightarrow> string \<Rightarrow> bool" where
  "execution_exists d b ex = list_ex (\<lambda>r. fl_broker r = b \<and> fl_execution r = ex) (fills d)"

definition list_fills :: "db \<Rightarrow> uuid \<Rightarrow> fill list" where
  "list_fills d i = sort_key fl_occurred (filter (\<lambda>r. fl_order r = i) (fills d))"

definition get_position :: "db \<Rightarrow> uuid \<Rightarrow> uuid \<Rightarrow> position option" where
  "get_position d i ins = find (\<lambda>r. pos_account r = i \<and> pos_instrument r = ins) (positions d)"

definition upsert_position :: "position \<Rightarrow> db \<Rightarrow> db result" where
  "upsert_position p d =
     (let same = (\<lambda>r. pos_account r = pos_account p \<and> pos_instrument r = pos_instrument p);
          rows = (if list_ex same (positions d)
                  then modify same (\<lambda>r. r\<lparr>pos_qty := pos_qty p, pos_basis := pos_basis p\<rparr>) (positions d)
                  else positions d @ [p])
      in checked ''positions''
           (positions_ok rows \<and> has_account d (pos_account p) \<and> has_instrument d (pos_instrument p))
           (d\<lparr>positions := rows\<rparr>))"

definition list_positions :: "db \<Rightarrow> uuid \<Rightarrow> position list" where
  "list_positions d i = sort_key pos_symbol (filter (\<lambda>r. pos_account r = i) (positions d))"

definition position_qty :: "db \<Rightarrow> uuid \<Rightarrow> uuid \<Rightarrow> qty" where
  "position_qty d i ins = (case get_position d i ins of None \<Rightarrow> 0 | Some p \<Rightarrow> pos_qty p)"

section \<open>Ledger\<close>

definition insert_entry :: "new_entry \<Rightarrow> db \<Rightarrow> (ledger_entry \<times> db) result" where
  "insert_entry e d =
     (let r = \<lparr>le_id = next_id d, le_account = ne_account e, le_type = ne_type e,
               le_amount = ne_amount e, le_ref = ne_ref e, le_description = ne_description e,
               le_created = db_now d\<rparr>;
          rows = ledger d @ [r]
      in checked ''ledger_entries'' (ledger_ok rows \<and> has_account d (le_account r))
           (r, d\<lparr>ledger := rows, next_id := next_id d + 1\<rparr>))"

definition sum_ledger :: "db \<Rightarrow> uuid \<Rightarrow> money" where
  "sum_ledger d i = total le_amount (\<lambda>r. le_account r = i) (ledger d)"

definition list_ledger_ascending :: "db \<Rightarrow> uuid \<Rightarrow> ledger_entry list" where
  "list_ledger_ascending d i =
     sort_key (\<lambda>r. (le_created r, le_id r)) (filter (\<lambda>r. le_account r = i) (ledger d))"

section \<open>Cash transfers\<close>

record new_transfer =
  nt_account :: uuid
  nt_direction :: transfer_direction
  nt_amount :: money
  nt_key :: string
  nt_hash :: string

definition find_transfer_key :: "db \<Rightarrow> uuid \<Rightarrow> string \<Rightarrow> cash_transfer option" where
  "find_transfer_key d i key = find (\<lambda>r. tr_account r = i \<and> tr_key r = key) (transfers d)"

definition insert_transfer :: "new_transfer \<Rightarrow> db \<Rightarrow> (cash_transfer option \<times> db) result" where
  "insert_transfer inp d =
     (let r = \<lparr>tr_id = next_id d, tr_account = nt_account inp, tr_direction = nt_direction inp,
               tr_amount = nt_amount inp, tr_state = PENDING, tr_venue = None, tr_key = nt_key inp,
               tr_hash = nt_hash inp, tr_failure = None, tr_created = db_now d, tr_settled = None,
               tr_updated = db_now d\<rparr>
      in if transfer_check r \<and> find_transfer_key d (tr_account r) (tr_key r) \<noteq> None
         then Inr (None, d)
         else let rows = transfers d @ [r]
              in checked ''cash_transfers'' (transfers_ok rows \<and> has_account d (tr_account r))
                   (Some r, d\<lparr>transfers := rows, next_id := next_id d + 1\<rparr>))"

definition get_transfer :: "db \<Rightarrow> uuid \<Rightarrow> cash_transfer option" where
  "get_transfer d i = find (\<lambda>r. tr_id r = i) (transfers d)"

definition list_transfers :: "db \<Rightarrow> uuid \<Rightarrow> nat \<Rightarrow> cash_transfer list" where
  "list_transfers d i limit =
     take limit (rev (sort_key (\<lambda>r. (tr_created r, tr_id r))
       (filter (\<lambda>r. tr_account r = i) (transfers d))))"

definition list_pending :: "db \<Rightarrow> uuid \<Rightarrow> cash_transfer list" where
  "list_pending d i =
     sort_key (\<lambda>r. (tr_created r, tr_id r))
       (filter (\<lambda>r. tr_account r = i \<and> tr_state r = PENDING) (transfers d))"

definition account_ids_with_pending :: "db \<Rightarrow> uuid list" where
  "account_ids_with_pending d =
     remdups (map tr_account (filter (\<lambda>r. tr_state r = PENDING) (transfers d)))"

definition sum_pending :: "db \<Rightarrow> uuid \<Rightarrow> transfer_direction \<Rightarrow> money" where
  "sum_pending d i dir =
     total tr_amount (\<lambda>r. tr_account r = i \<and> tr_direction r = dir \<and> tr_state r = PENDING)
       (transfers d)"

definition sum_deposits_since :: "db \<Rightarrow> uuid \<Rightarrow> time \<Rightarrow> money" where
  "sum_deposits_since d i since =
     total tr_amount (\<lambda>r. tr_account r = i \<and> tr_direction r = DEPOSIT
       \<and> (tr_state r = PENDING \<or> tr_state r = SETTLED) \<and> tr_created r \<ge> since) (transfers d)"

definition venue_id_linked :: "db \<Rightarrow> string \<Rightarrow> bool" where
  "venue_id_linked d v = list_ex (\<lambda>r. tr_venue r = Some v) (transfers d)"

definition list_canceled_with_venue :: "db \<Rightarrow> string list \<Rightarrow> time \<Rightarrow> cash_transfer list" where
  "list_canceled_with_venue d reasons since =
     sort_key (\<lambda>r. (tr_created r, tr_id r))
       (filter (\<lambda>r. tr_state r = CANCELED \<and> tr_venue r \<noteq> None
          \<and> (\<exists>m \<in> set reasons. tr_failure r = Some m) \<and> tr_created r \<ge> since) (transfers d))"

definition set_venue_transfer_id :: "uuid \<Rightarrow> string \<Rightarrow> db \<Rightarrow> db result" where
  "set_venue_transfer_id i v d =
     (let rows = modify (\<lambda>r. tr_id r = i) (\<lambda>r. r\<lparr>tr_venue := Some v, tr_updated := db_now d\<rparr>)
                   (transfers d)
      in checked ''cash_transfers'' (transfers_ok rows) (d\<lparr>transfers := rows\<rparr>))"

text \<open>The patch of \<open>setState\<close>: a reason and a settlement time are set when given.\<close>

definition set_transfer_state ::
    "uuid \<Rightarrow> transfer_state \<Rightarrow> string option \<Rightarrow> time option \<Rightarrow> db \<Rightarrow> db result" where
  "set_transfer_state i st reason settled d =
     (let rows = modify (\<lambda>r. tr_id r = i)
                   (\<lambda>r. r\<lparr>tr_state := st, tr_failure := or_else reason (tr_failure r),
                          tr_settled := or_else settled (tr_settled r), tr_updated := db_now d\<rparr>)
                   (transfers d)
      in checked ''cash_transfers'' (transfers_ok rows) (d\<lparr>transfers := rows\<rparr>))"

section \<open>Every write keeps the schema\<close>

lemmas write_defs = create_account_def set_status_def adjust_cash_def link_broker_account_def
  archive_broker_account_def set_recon_status_def insert_order_def update_order_def insert_event_def
  insert_fill_def upsert_position_def insert_entry_def insert_transfer_def set_venue_transfer_id_def
  set_transfer_state_def

lemmas schema_defs = schema_ok_def references_ok_def ids_fresh_def has_account_def
  has_instrument_def has_order_def

lemma patch_keys [simp]:
  "ord_id (apply_patch p now r) = ord_id r"
  "ord_account (apply_patch p now r) = ord_account r"
  "ord_instrument (apply_patch p now r) = ord_instrument r"
  "ord_symbol (apply_patch p now r) = ord_symbol r"
  "ord_side (apply_patch p now r) = ord_side r"
  "ord_type (apply_patch p now r) = ord_type r"
  "ord_qty (apply_patch p now r) = ord_qty r"
  "ord_limit (apply_patch p now r) = ord_limit r"
  "ord_key (apply_patch p now r) = ord_key r"
  "ord_created (apply_patch p now r) = ord_created r"
  by (simp_all add: apply_patch_def)

lemma list_all_modify:
  "(\<And>r. p r \<Longrightarrow> P (f r) = P r) \<Longrightarrow> list_all P (modify p f rs) = list_all P rs"
  by (induction rs) auto

lemma unique_index_modify:
  "(\<And>r. p r \<Longrightarrow> key (f r) = key r) \<Longrightarrow> unique_index key (modify p f rs) = unique_index key rs"
  by (induction rs) (auto simp: set_modify image_Un image_iff split: option.splits)

lemma accounts_ok_adjust:
  "accounts_ok (modify p (\<lambda>a. a\<lparr>acc_cash := f a\<rparr>) rs) = accounts_ok rs"
  by (simp add: accounts_ok_def map_modify unique_index_modify open_account_def)

lemma schema_create_account [inv_intros]:
  "create_account u m d = Inr (a, d') \<Longrightarrow> schema_ok d \<Longrightarrow> schema_ok d'"
  by (auto simp: write_defs schema_defs Let_def result_simps list_all_iff less_Suc_eq)

lemma schema_set_status [inv_intros]:
  "set_status i st d = Inr d' \<Longrightarrow> schema_ok d \<Longrightarrow> schema_ok d'"
  by (auto simp: write_defs schema_defs Let_def result_simps map_modify)

lemma schema_adjust_cash [inv_intros]: "schema_ok d \<Longrightarrow> schema_ok (adjust_cash i m d)"
  by (simp add: write_defs schema_defs map_modify accounts_ok_adjust)

lemma schema_link_broker_account [inv_intros]:
  "link_broker_account i ref d = Inr d' \<Longrightarrow> schema_ok d \<Longrightarrow> schema_ok d'"
  by (auto simp: write_defs schema_defs Let_def result_simps)

lemma schema_archive_broker_account [inv_intros]:
  "schema_ok d \<Longrightarrow> schema_ok (archive_broker_account i d)"
  by (simp add: write_defs schema_defs broker_accounts_ok_def map_modify list_all_modify)

lemma schema_set_recon_status [inv_intros]: "schema_ok d \<Longrightarrow> schema_ok (set_recon_status i st t d)"
  by (simp add: write_defs schema_defs broker_accounts_ok_def map_modify list_all_modify)

lemma schema_insert_order [inv_intros]:
  "insert_order inp m d = Inr (r, d') \<Longrightarrow> schema_ok d \<Longrightarrow> schema_ok d'"
  by (auto simp: write_defs schema_defs Let_def result_simps list_all_iff less_Suc_eq
      split: if_splits)

lemma schema_update_order [inv_intros]:
  "update_order i p d = Inr d' \<Longrightarrow> schema_ok d \<Longrightarrow> schema_ok d'"
  by (auto simp: write_defs schema_defs Let_def result_simps map_modify list_all_modify)

lemma schema_insert_event [inv_intros]:
  "insert_event e d = Inr (b, d') \<Longrightarrow> schema_ok d \<Longrightarrow> schema_ok d'"
  by (auto simp: write_defs schema_defs Let_def result_simps split: if_splits)

lemma schema_insert_fill [inv_intros]:
  "insert_fill f d = Inr (b, d') \<Longrightarrow> schema_ok d \<Longrightarrow> schema_ok d'"
  by (auto simp: write_defs schema_defs Let_def result_simps split: if_splits)

lemma schema_upsert_position [inv_intros]:
  "upsert_position p d = Inr d' \<Longrightarrow> schema_ok d \<Longrightarrow> schema_ok d'"
  by (auto simp: write_defs schema_defs Let_def result_simps list_all_modify)

lemma schema_insert_entry [inv_intros]:
  "insert_entry e d = Inr (r, d') \<Longrightarrow> schema_ok d \<Longrightarrow> schema_ok d'"
  by (auto simp: write_defs schema_defs Let_def result_simps list_all_iff less_Suc_eq)

lemma schema_insert_transfer [inv_intros]:
  "insert_transfer inp d = Inr (r, d') \<Longrightarrow> schema_ok d \<Longrightarrow> schema_ok d'"
  by (auto simp: write_defs schema_defs Let_def result_simps list_all_iff less_Suc_eq
      split: if_splits)

lemma schema_set_venue_transfer_id [inv_intros]:
  "set_venue_transfer_id i v d = Inr d' \<Longrightarrow> schema_ok d \<Longrightarrow> schema_ok d'"
  by (auto simp: write_defs schema_defs Let_def result_simps map_modify list_all_modify)

lemma schema_set_transfer_state [inv_intros]:
  "set_transfer_state i st m t d = Inr d' \<Longrightarrow> schema_ok d \<Longrightarrow> schema_ok d'"
  by (auto simp: write_defs schema_defs Let_def result_simps map_modify list_all_modify)


section \<open>What a write changes\<close>

lemma create_account_Inr [db_simps]:
  "create_account u m d = Inr (a, d') \<longleftrightarrow>
     a = \<lparr>acc_id = next_id d, acc_user = u, acc_status = PROVISIONING, acc_starting = m,
          acc_cash = 0, acc_created = db_now d\<rparr>
     \<and> accounts_ok (accounts d @ [a])
     \<and> d' = d\<lparr>accounts := accounts d @ [a], next_id := next_id d + 1\<rparr>"
  by (auto simp: create_account_def Let_def result_simps)

lemma set_status_Inr [db_simps]:
  "set_status i st d = Inr d' \<longleftrightarrow>
     (let rows = modify (\<lambda>a. acc_id a = i) (\<lambda>a. a\<lparr>acc_status := st\<rparr>) (accounts d)
      in accounts_ok rows \<and> d' = d\<lparr>accounts := rows\<rparr>)"
  by (auto simp: set_status_def Let_def result_simps)

lemma update_order_Inr [db_simps]:
  "update_order i p d = Inr d' \<longleftrightarrow>
     (let rows = modify (\<lambda>r. ord_id r = i) (apply_patch p (db_now d)) (orders d)
      in orders_ok rows \<and> d' = d\<lparr>orders := rows\<rparr>)"
  by (auto simp: update_order_def Let_def result_simps)

lemma insert_event_Inr [db_simps]:
  "insert_event e d = Inr (b, d') \<longleftrightarrow>
     (if event_key e \<noteq> None \<and> event_key e \<in> set (map event_key (order_events d))
      then \<not> b \<and> d' = d
      else b \<and> order_events_ok (order_events d @ [e]) \<and> has_order d (oe_order e)
        \<and> d' = d\<lparr>order_events := order_events d @ [e]\<rparr>)"
  by (auto simp: insert_event_def Let_def result_simps)

lemma insert_fill_Inr [db_simps]:
  "insert_fill f d = Inr (b, d') \<longleftrightarrow>
     (if fl_qty f > 0 \<and> execution_exists d (fl_broker f) (fl_execution f) then \<not> b \<and> d' = d
      else b \<and> fills_ok (fills d @ [f]) \<and> has_order d (fl_order f)
        \<and> d' = d\<lparr>fills := fills d @ [f]\<rparr>)"
  by (auto simp: insert_fill_def execution_exists_def Let_def result_simps)

lemma insert_entry_Inr [db_simps]:
  "insert_entry e d = Inr (r, d') \<longleftrightarrow>
     r = \<lparr>le_id = next_id d, le_account = ne_account e, le_type = ne_type e,
          le_amount = ne_amount e, le_ref = ne_ref e, le_description = ne_description e,
          le_created = db_now d\<rparr>
     \<and> ledger_ok (ledger d @ [r]) \<and> has_account d (ne_account e)
     \<and> d' = d\<lparr>ledger := ledger d @ [r], next_id := next_id d + 1\<rparr>"
  by (auto simp: insert_entry_def Let_def result_simps)

text \<open>The tables an upsert leaves alone, and the position it leaves behind.\<close>

lemma upsert_position_frame:
  assumes "upsert_position p d = Inr d'"
  shows "\<exists>rows. d' = d\<lparr>positions := rows\<rparr>"
  using assms by (auto simp: upsert_position_def Let_def result_simps)

lemma find_modify_same:
  "(\<And>r. p r \<Longrightarrow> p (f r)) \<Longrightarrow> find p (modify p f rs) = map_option f (find p rs)"
  by (induction rs) auto

lemma get_position_upsert:
  assumes "upsert_position p d = Inr d'"
  shows "get_position d' i ins =
    (if i = pos_account p \<and> ins = pos_instrument p
     then Some (p\<lparr>pos_symbol := case get_position d i ins of None \<Rightarrow> pos_symbol p
                                | Some q \<Rightarrow> pos_symbol q\<rparr>)
     else get_position d i ins)"
proof -
  let ?same = "\<lambda>r. pos_account r = pos_account p \<and> pos_instrument r = pos_instrument p"
  let ?f = "\<lambda>r. r\<lparr>pos_qty := pos_qty p, pos_basis := pos_basis p\<rparr>"
  have other: "find (\<lambda>r. pos_account r = i \<and> pos_instrument r = ins) (modify ?same ?f rs)
      = find (\<lambda>r. pos_account r = i \<and> pos_instrument r = ins) rs"
    if "\<not> (i = pos_account p \<and> ins = pos_instrument p)" for rs
    using that by (induction rs) auto
  show ?thesis
  proof (cases "find ?same (positions d)")
    case None
    then have "\<not> list_ex ?same (positions d)" by (auto simp: find_None_iff list_ex_iff)
    with assms have "positions d' = positions d @ [p]"
      by (auto simp: upsert_position_def Let_def result_simps)
    with None show ?thesis by (auto simp: get_position_def find_append split: option.splits)
  next
    case (Some q)
    then have ex: "list_ex ?same (positions d)" and q: "?same q"
      by (auto simp: list_ex_iff find_Some_iff)
    from ex assms have "positions d' = modify ?same ?f (positions d)"
      by (auto simp: upsert_position_def Let_def result_simps)
    with Some q show ?thesis
      by (auto simp: get_position_def other find_modify_same)
  qed
qed

lemma get_account_adjust [simp]:
  "get_account (adjust_cash i m d) j =
     (if j = i then map_option (\<lambda>a. a\<lparr>acc_cash := acc_cash a + m\<rparr>) (get_account d j)
      else get_account d j)"
  by (simp add: get_account_def adjust_cash_def find_modify)

lemma get_order_modify [simp]:
  "get_order (d\<lparr>orders := modify (\<lambda>r. ord_id r = i) (apply_patch p now) (orders d)\<rparr>) j =
     (if j = i then map_option (apply_patch p now) (get_order d j) else get_order d j)"
  by (simp add: get_order_def find_modify)

lemma get_order_Some: "get_order d i = Some r \<Longrightarrow> r \<in> set (orders d) \<and> ord_id r = i"
  by (auto simp: get_order_def dest: find_Some_in_set)

lemma get_account_Some: "get_account d i = Some a \<Longrightarrow> a \<in> set (accounts d) \<and> acc_id a = i"
  by (auto simp: get_account_def dest: find_Some_in_set)

lemma get_transfer_Some: "get_transfer d i = Some t \<Longrightarrow> t \<in> set (transfers d) \<and> tr_id t = i"
  by (auto simp: get_transfer_def dest: find_Some_in_set)

lemma has_account_get: "has_account d i \<longleftrightarrow> (\<exists>a. get_account d i = Some a)"
proof -
  have "find (\<lambda>a. acc_id a = i) rs \<noteq> None \<longleftrightarrow> i \<in> acc_id ` set rs" for rs
    by (auto simp: find_None_iff)
  then show ?thesis by (force simp: has_account_def get_account_def)
qed


section \<open>A running example\<close>

text \<open>
  The concrete database on which the properties are tried: one active account with 1000.00 of cash
  from its opening deposit, one instrument, and the account at the venue.
\<close>

definition demo_account :: account where
  "demo_account = \<lparr>acc_id = 0, acc_user = 7, acc_status = ACTIVE, acc_starting = 100000,
     acc_cash = 100000, acc_created = 0\<rparr>"

definition demo_instrument :: instrument where
  "demo_instrument = \<lparr>ins_id = 1, ins_symbol = ''AAPL'', ins_name = ''Apple'',
     ins_exchange = ''NASDAQ'', ins_status = ''ACTIVE''\<rparr>"

definition deposit_row :: ledger_entry where
  "deposit_row = \<lparr>le_id = 2, le_account = 0, le_type = Entry_deposit, le_amount = 100000,
     le_ref = Some (Ref_account 0), le_description = ''Opening deposit (simulated)'', le_created = 0\<rparr>"

definition demo_db :: db where
  "demo_db = (empty_db 0)\<lparr>accounts := [demo_account],
     broker_accounts := [\<lparr>ba_account = 0, ba_ref = \<lparr>ref_broker = DETERMINISTIC, ref_external = ''ext''\<rparr>,
       ba_status = ACTIVE, ba_reconciled = None, ba_recon_status = HEALTHY\<rparr>],
     instruments := [demo_instrument], ledger := [deposit_row], next_id := 3\<rparr>"

lemmas demo_defs = demo_db_def demo_account_def demo_instrument_def deposit_row_def empty_db_def

lemma demo_db_ok [simp]: "schema_ok demo_db"
  by (simp add: demo_defs schema_defs accounts_ok_def broker_accounts_ok_def instruments_ok_def
      orders_ok_def order_events_ok_def fills_ok_def positions_ok_def ledger_ok_def transfers_ok_def
      transfer_ref_def)

end
