(* ===== verification/Ledger.thy ===== *)
theory Ledger
  imports Repositories
begin

text \<open>
  \<^verbatim>\<open>src/core/ledger/ledger.ts\<close>: the append-only ledger and the cached cash of an account. The
  service works against the port \<open>CashProjection\<close>; here the port is the pair of functions
  \<open>adjust\<close> and \<open>cached\<close>, its contract the locale \<open>cash_projection\<close>, and the accounts
  repository the implementation (\<open>AccountService\<close> passes the calls through).
\<close>

record reconcile_result =
  rr_projected :: money
  rr_cached :: money
  rr_drift :: money
  rr_in_balance :: bool

definition post_via :: "(uuid \<Rightarrow> money \<Rightarrow> db \<Rightarrow> db) \<Rightarrow> new_entry \<Rightarrow> db \<Rightarrow> (ledger_entry \<times> db) result" where
  "post_via adjust e d =
     ebind (invariant (ne_amount e \<noteq> 0) ''ledger entries must have a non-zero amount'') (\<lambda>_.
     ebind (insert_entry e d) (\<lambda>(inserted, d1).
       Inr (inserted, adjust (ne_account e) (ne_amount e) d1)))"

definition reconcile_via :: "(db \<Rightarrow> uuid \<Rightarrow> money result) \<Rightarrow> uuid \<Rightarrow> db \<Rightarrow> reconcile_result result" where
  "reconcile_via cached i d =
     (let projected = sum_ledger d i
      in ebind (cached d i) (\<lambda>c.
           let drift = c - projected
           in Inr \<lparr>rr_projected = projected, rr_cached = c, rr_drift = drift,
                   rr_in_balance = (drift = 0)\<rparr>))"

definition post :: "new_entry \<Rightarrow> db \<Rightarrow> (ledger_entry \<times> db) result" where
  "post = post_via adjust_cash"

definition reconcile :: "uuid \<Rightarrow> db \<Rightarrow> reconcile_result result" where
  "reconcile = reconcile_via get_cached_cash"

section \<open>The port and what the service achieves through it\<close>

locale cash_projection =
  fixes adjust :: "uuid \<Rightarrow> money \<Rightarrow> db \<Rightarrow> db"
    and cached :: "db \<Rightarrow> uuid \<Rightarrow> money result"
  assumes cached_adjust: "cached d i = Inr c
      \<Longrightarrow> cached (adjust j m d) i = Inr (if i = j then c + m else c)"
    and ledger_adjust: "ledger (adjust j m d) = ledger d"
    and cached_insert: "cached (d\<lparr>ledger := es, next_id := n\<rparr>) i = cached d i"
begin

lemma post_moves_both:
  assumes "post_via adjust e d = Inr (r, d')" "cached d i = Inr c"
  shows "cached d' i = Inr (if i = ne_account e then c + ne_amount e else c)
    \<and> sum_ledger d' i = sum_ledger d i + (if i = ne_account e then ne_amount e else 0)"
proof -
  from assms(1) obtain d1 where ins: "insert_entry e d = Inr (r, d1)"
    and d': "d' = adjust (ne_account e) (ne_amount e) d1"
    by (auto simp: post_via_def result_simps)
  from ins have d1: "d1 = d\<lparr>ledger := ledger d @ [r], next_id := next_id d + 1\<rparr>"
    and r: "le_account r = ne_account e" "le_amount r = ne_amount e"
    by (auto simp: insert_entry_Inr)
  have "cached d1 i = Inr c" using assms(2) unfolding d1 by (simp add: cached_insert)
  from cached_adjust[OF this] show ?thesis
    unfolding d' by (auto simp: sum_ledger_def ledger_adjust d1 r)
qed

lemma post_keeps_drift:
  assumes "post_via adjust e d = Inr (r, d')" "reconcile_via cached i d = Inr before"
  shows "\<exists>after. reconcile_via cached i d' = Inr after \<and> rr_drift after = rr_drift before
    \<and> rr_in_balance after = rr_in_balance before"
proof -
  from assms(2) obtain c where c: "cached d i = Inr c"
    and b: "rr_drift before = c - sum_ledger d i"
      "rr_in_balance before = (c - sum_ledger d i = 0)"
    by (auto simp: reconcile_via_def result_simps Let_def)
  from post_moves_both[OF assms(1) c] b show ?thesis
    by (simp add: reconcile_via_def Let_def)
qed

end

lemma get_cached_cash_eq [result_simps]:
  "get_cached_cash d i = Inr c \<longleftrightarrow> (\<exists>a. get_account d i = Some a \<and> c = acc_cash a)"
  by (auto simp: get_cached_cash_def result_simps)

interpretation accounts_cash: cash_projection adjust_cash get_cached_cash
proof unfold_locales
  show "get_cached_cash (adjust_cash j m d) i = Inr (if i = j then c + m else c)"
    if "get_cached_cash d i = Inr c" for d i c j m
    using that by (auto simp: result_simps)
qed (simp_all add: adjust_cash_def get_cached_cash_def get_account_def)

section \<open>The balance invariant\<close>

text \<open>Invariant 6: the cached cash of every account is the sum of its ledger entries.\<close>

definition in_balance :: "db \<Rightarrow> bool" where
  "in_balance d \<longleftrightarrow> list_all (\<lambda>a. acc_cash a = sum_ledger d (acc_id a)) (accounts d)"

lemma post_schema [inv_intros]: "post e d = Inr (r, d') \<Longrightarrow> schema_ok d \<Longrightarrow> schema_ok d'"
  by (auto simp: post_def post_via_def result_simps intro: inv_intros)

lemma post_Inr [db_simps]:
  "post e d = Inr (r, d') \<longleftrightarrow> ne_amount e \<noteq> 0
     \<and> (\<exists>d1. insert_entry e d = Inr (r, d1) \<and> d' = adjust_cash (ne_account e) (ne_amount e) d1)"
  by (auto simp: post_def post_via_def result_simps)

lemma in_balance_iff:
  assumes "schema_ok d"
  shows "in_balance d \<longleftrightarrow> (\<forall>i c. get_cached_cash d i = Inr c \<longrightarrow> c = sum_ledger d i)"
  using assms by (auto simp: in_balance_def list_all_iff get_cached_cash_eq get_account_def
      dest: find_Some_in_set account_key_unique)

lemma in_balance_same:
  "map acc_id (accounts d') = map acc_id (accounts d) \<Longrightarrow>
   map acc_cash (accounts d') = map acc_cash (accounts d) \<Longrightarrow> ledger d' = ledger d
   \<Longrightarrow> in_balance d' = in_balance d"
proof -
  assume ids: "map acc_id (accounts d') = map acc_id (accounts d)"
    and cash: "map acc_cash (accounts d') = map acc_cash (accounts d)" and "ledger d' = ledger d"
  then have "zip (map acc_id (accounts d')) (map acc_cash (accounts d'))
      = zip (map acc_id (accounts d)) (map acc_cash (accounts d))" by simp
  then have "map (\<lambda>a. (acc_id a, acc_cash a)) (accounts d') = map (\<lambda>a. (acc_id a, acc_cash a)) (accounts d)"
    by (simp add: zip_map_map zip_same_conv_map map_zip_map comp_def)
  from arg_cong[OF this, of "list_all (\<lambda>(i, c). c = sum_ledger d i)"]
  show ?thesis using \<open>ledger d' = ledger d\<close>
    by (simp add: in_balance_def list.pred_map comp_def sum_ledger_def)
qed

lemma post_has_account: "post e d = Inr (r, d') \<Longrightarrow> has_account d' i = has_account d i"
  by (auto simp: post_Inr insert_entry_Inr adjust_cash_def has_account_def map_modify)

lemma post_in_balance [inv_intros]:
  assumes "post e d = Inr (r, d')" "schema_ok d" "in_balance d"
  shows "in_balance d'"
proof -
  note p = assms(1)[unfolded post_def]
  have "c = sum_ledger d' i" if c: "get_cached_cash d' i = Inr c" for i c
  proof -
    from c have "has_account d' i" unfolding has_account_get get_cached_cash_eq by blast
    with post_has_account[OF assms(1)] have "has_account d i" by simp
    then obtain c0 where c0: "get_cached_cash d i = Inr c0"
      unfolding has_account_get get_cached_cash_eq by blast
    from assms(2,3) c0 have "c0 = sum_ledger d i" by (simp add: in_balance_iff)
    with accounts_cash.post_moves_both[OF p c0] c show ?thesis by simp
  qed
  with post_schema[OF assms(1,2)] show ?thesis by (simp add: in_balance_iff)
qed

section \<open>Properties\<close>

text \<open>The running example has a deposit and is in balance; a fee of one cent is posted to it.\<close>

definition fee_entry :: new_entry where
  "fee_entry = \<lparr>ne_account = 0, ne_type = Entry_fee, ne_amount = -1, ne_ref = None,
     ne_description = ''Fee''\<rparr>"

lemma demo_in_balance: "in_balance demo_db"
  by (simp add: demo_defs in_balance_def sum_ledger_def)

text \<open>
  Posting to the ledger. \<open>post\<close> succeeds exactly for a non-zero amount that the table accepts;
  then one entry is appended, the cached cash of its account and the sum of that account's entries
  move by the same amount, every other account keeps both, and what \<open>reconcile\<close> reports as drift
  does not change. So an account in balance stays in balance (invariant 6).
\<close>

theorem post_keeps_balance:
  assumes "schema_ok d" "post e d = Inr (r, d')"
  shows "ledger d' = ledger d @ [r] \<and> le_amount r = ne_amount e \<and> ne_amount e \<noteq> 0
    \<and> (\<forall>i before. reconcile i d = Inr before \<longrightarrow>
        reconcile i d' = Inr (if i = ne_account e
          then before\<lparr>rr_projected := rr_projected before + ne_amount e,
                      rr_cached := rr_cached before + ne_amount e\<rparr>
          else before))
    \<and> (in_balance d \<longrightarrow> in_balance d')"
proof -
  have "reconcile i d' = Inr (if i = ne_account e
          then before\<lparr>rr_projected := rr_projected before + ne_amount e,
                      rr_cached := rr_cached before + ne_amount e\<rparr>
          else before)" if "reconcile i d = Inr before" for i before
  proof -
    from that obtain c where c: "get_cached_cash d i = Inr c"
      and b: "before = \<lparr>rr_projected = sum_ledger d i, rr_cached = c, rr_drift = c - sum_ledger d i,
                        rr_in_balance = (c - sum_ledger d i = 0)\<rparr>"
      by (auto simp: reconcile_def reconcile_via_def result_simps Let_def)
    from accounts_cash.post_moves_both[OF assms(2)[unfolded post_def] c] show ?thesis
      by (simp add: reconcile_def reconcile_via_def b Let_def)
  qed
  moreover have "ledger d' = ledger d @ [r] \<and> le_amount r = ne_amount e \<and> ne_amount e \<noteq> 0"
    using assms(2) by (auto simp: db_simps adjust_cash_def)
  ultimately show ?thesis using post_in_balance[OF assms(2,1)] by blast
qed

theorem post_keeps_balance_witness:
  "\<exists>r d'. post fee_entry demo_db = Inr (r, d') \<and> ledger d' = [deposit_row, r] \<and> in_balance d'"
proof -
  obtain r d' where p: "post fee_entry demo_db = Inr (r, d')"
    by (cases "post fee_entry demo_db")
       (auto simp: demo_defs fee_entry_def post_def post_via_def insert_entry_def
         Let_def checked_def ledger_ok_def has_account_def transfer_ref_def)
  from post_keeps_balance[OF demo_db_ok p] p show ?thesis
    by (auto simp: demo_in_balance) (simp add: demo_db_def)
qed

end
