(* ===== verification/Orders.thy ===== *)
theory Orders
  imports Ledger
begin

text \<open>
  \<^verbatim>\<open>src/core/orders/service.ts\<close>: placing an order (validation, reservation, buying power, holdings),
  applying a transition with its audit rows and reservation, and the local cancel intent. The
  ports the service reads (accounts, positions, withdrawal holds) are the repositories on \<open>db\<close>.
\<close>

section \<open>Placing an order\<close>

record place_config =
  market_buy_buffer :: rat

definition validate_shape :: "new_order \<Rightarrow> unit result" where
  "validate_shape inp =
     (if \<not> no_qty inp > 0 then app_error VALIDATION INVALID_QUANTITY
      else if no_type inp = LIMIT \<and> no_limit inp = None then app_error VALIDATION INVALID_LIMIT_PRICE
      else if no_type inp = MARKET \<and> no_limit inp \<noteq> None then app_error VALIDATION INVALID_LIMIT_PRICE
      else Inr ())"

definition buy_reservation :: "decimal_lib \<Rightarrow> place_config \<Rightarrow> new_order \<Rightarrow> money result" where
  "buy_reservation D cfg inp =
     (if no_type inp = LIMIT then
        ebind (of_option (InvariantViolation ''limit order without limit price'') (no_limit inp))
          (\<lambda>p. Inr (notional D p (no_qty inp)))
      else
        ebind (of_option
            (InvariantViolation ''market BUY requires a reference price for reservation'')
            (no_ref_price inp))
          (\<lambda>p. reserve_with_buffer D p (no_qty inp) (market_buy_buffer cfg)))"

definition buying_power :: "db \<Rightarrow> account \<Rightarrow> money" where
  "buying_power d a =
     acc_cash a - sum_open_buy_reservations d (acc_id a) - sum_pending d (acc_id a) WITHDRAWAL"

definition sellable_qty :: "db \<Rightarrow> uuid \<Rightarrow> uuid \<Rightarrow> qty result" where
  "sellable_qty d i ins =
     (let held = position_qty d i ins
      in ebind (sum_open_sell_remainders d i ins) (\<lambda>reserved.
           if held \<ge> reserved then qty_subtract held reserved else Inr 0))"

definition reservation_for :: "decimal_lib \<Rightarrow> place_config \<Rightarrow> new_order \<Rightarrow> money result" where
  "reservation_for D cfg inp = (if no_side inp = BUY then buy_reservation D cfg inp else Inr 0)"

definition check_means :: "new_order \<Rightarrow> account \<Rightarrow> money \<Rightarrow> db \<Rightarrow> unit result" where
  "check_means inp account reserved d =
     (if no_side inp = BUY then
        (if reserved > buying_power d account then app_error DOMAIN_RULE INSUFFICIENT_BUYING_POWER
         else Inr ())
      else
        ebind (sellable_qty d (acc_id account) (ins_id (no_instrument inp))) (\<lambda>sellable.
          if no_qty inp > sellable then app_error DOMAIN_RULE INSUFFICIENT_HOLDINGS else Inr ()))"

definition place_tx :: "decimal_lib \<Rightarrow> place_config \<Rightarrow> new_order \<Rightarrow> db \<Rightarrow> ((order \<times> bool) \<times> db) result" where
  "place_tx D cfg inp d =
     ebind (lock_account d (acc_id (no_account inp))) (\<lambda>account.
     if acc_status account \<noteq> ACTIVE then app_error DOMAIN_RULE ACCOUNT_NOT_ACTIVE
     else if no_side inp = BUY \<and> ins_status (no_instrument inp) \<noteq> ''ACTIVE''
       then app_error VALIDATION INSTRUMENT_INACTIVE
     else case find_order_key d (acc_id account) (no_key inp) of
       Some existing \<Rightarrow> Inr ((existing, True), d)
     | None \<Rightarrow>
         ebind (reservation_for D cfg inp) (\<lambda>reserved.
         ebind (check_means inp account reserved d) (\<lambda>_.
         ebind (insert_order inp reserved d) (\<lambda>(inserted, d1).
           case inserted of
             Some r \<Rightarrow> Inr ((r, False), d1)
           | None \<Rightarrow>
               ebind (of_option
                   (InvariantViolation ''idempotency conflict without a matching order'')
                   (find_order_key d1 (acc_id account) (no_key inp)))
                 (\<lambda>raced. Inr ((raced, True), d1))))))"

definition place :: "decimal_lib \<Rightarrow> place_config \<Rightarrow> new_order \<Rightarrow> db \<Rightarrow> (order \<times> bool) result \<times> db" where
  "place D cfg inp d =
     (case validate_shape inp of
        Inl e \<Rightarrow> (Inl e, d)
      | Inr _ \<Rightarrow> run_tx (place_tx D cfg inp) d)"

section \<open>Applying a transition\<close>

record transition_event =
  te_type :: event_type
  te_source :: event_source
  te_broker :: "broker_kind option"
  te_broker_order :: "string option"
  te_external :: "string option"
  te_occurred :: time
  te_reason :: "string option"
  te_fill_qty :: "qty option"
  te_reject :: "string option"

text \<open>A string is truthy when it is there and not empty.\<close>

definition truthy :: "string option \<Rightarrow> string option" where
  "truthy s = (case s of None \<Rightarrow> None | Some t \<Rightarrow> if t = [] then None else Some t)"

definition next_reservation :: "decimal_lib \<Rightarrow> order \<Rightarrow> order_state \<Rightarrow> qty \<Rightarrow> money result" where
  "next_reservation D ord st filled =
     (if ord_side ord = SELL then Inr 0
      else if st \<notin> open_states then Inr 0
      else if filled = 0 \<or> ord_qty ord = 0 then Inr (ord_reserved ord)
      else
        ebind (qty_subtract (ord_qty ord) filled) (\<lambda>remaining.
        if remaining = 0 then Inr 0
        else
          ebind (qty_subtract (ord_qty ord) (ord_filled ord)) (\<lambda>open_qty.
          let per_share = dec_div D (usd (ord_reserved ord)) (of_nat open_qty)
          in Inr (dec_dp D 2 (dec_mul D per_share (of_nat remaining))))))"

fun record_steps ::
    "order \<Rightarrow> transition_event \<Rightarrow> transition_step list \<Rightarrow> order_state \<Rightarrow> db \<Rightarrow> (order_state \<times> db) result"
  where
  "record_steps ord ev [] st d = Inr (st, d)"
| "record_steps ord ev (sp # steps) st d =
     ebind (if step_inferred sp then
              ebind (insert_event
                \<lparr>oe_order = ord_id ord, oe_type = ORDER_ACCEPTED, oe_from = Some (step_from sp),
                 oe_to = Some (step_to sp), oe_source = Src_inferred, oe_broker = te_broker ev,
                 oe_external = None, oe_occurred = te_occurred ev, oe_reason = None\<rparr> d)
                (\<lambda>(_, d1). Inr d1)
            else Inr d)
       (\<lambda>d1. record_steps ord ev steps (step_to sp) d1)"

definition must_get :: "db \<Rightarrow> uuid \<Rightarrow> order result" where
  "must_get d i = of_option (InvariantViolation ''order vanished mid-transaction'') (get_order d i)"

text \<open>
  The plan of an event: its steps, and whether it is audit-only (an unknown vendor status, or an
  illegal event for a terminal order); any other illegal event is the planner's error.
\<close>

definition plan_event :: "order_state \<Rightarrow> event_type \<Rightarrow> (transition_step list \<times> bool) result" where
  "plan_event st ty =
     (if ty = UNKNOWN_VENDOR_STATUS then Inr ([], True)
      else case plan_transitions st ty of
        Inr steps \<Rightarrow> Inr (steps, False)
      | Inl e \<Rightarrow> if is_terminal st then Inr ([], True) else Inl e)"

definition event_row :: "order \<Rightarrow> transition_event \<Rightarrow> transition_step list \<Rightarrow> order_event" where
  "event_row ord ev steps =
     \<lparr>oe_order = ord_id ord, oe_type = te_type ev, oe_from = Some (ord_state ord),
      oe_to = (if steps = [] then None else Some (step_to (last steps))),
      oe_source = te_source ev, oe_broker = te_broker ev, oe_external = te_external ev,
      oe_occurred = te_occurred ev, oe_reason = te_reason ev\<rparr>"

definition filled_after :: "order \<Rightarrow> transition_event \<Rightarrow> qty" where
  "filled_after ord ev =
     (case te_fill_qty ev of None \<Rightarrow> ord_filled ord | Some q \<Rightarrow> ord_filled ord + q)"

definition transition_patch ::
    "transition_event \<Rightarrow> order_state \<Rightarrow> qty \<Rightarrow> money \<Rightarrow> order_patch" where
  "transition_patch ev st n m =
     \<lparr>pt_state = Some st, pt_filled = Some n, pt_reserved = Some m, pt_broker = te_broker ev,
      pt_broker_id = truthy (te_broker_order ev), pt_reject = truthy (te_reject ev),
      pt_attention = None\<rparr>"

definition flag_order :: "order \<Rightarrow> db \<Rightarrow> (order option \<times> db) result" where
  "flag_order ord d =
     ebind (update_order (ord_id ord) (no_patch\<lparr>pt_attention := Some True\<rparr>) d) (\<lambda>d1.
     ebind (must_get d1 (ord_id ord)) (\<lambda>r. Inr (Some r, d1)))"

definition move_order ::
    "decimal_lib \<Rightarrow> order \<Rightarrow> transition_event \<Rightarrow> transition_step list \<Rightarrow> db \<Rightarrow> (order option \<times> db) result"
  where
  "move_order D ord ev steps d =
     ebind (record_steps ord ev steps (ord_state ord) d) (\<lambda>(st, d1).
     let new_filled = filled_after ord ev
     in
     ebind (invariant (ord_qty ord \<ge> new_filled) ''filled qty would exceed order qty'') (\<lambda>_.
     ebind (if st = FILLED
            then invariant (new_filled = ord_qty ord)
                   ''FILLED event with incomplete cumulative quantity''
            else Inr ()) (\<lambda>_.
     ebind (next_reservation D ord st new_filled) (\<lambda>reserved.
     ebind (update_order (ord_id ord) (transition_patch ev st new_filled reserved) d1) (\<lambda>d2.
     ebind (must_get d2 (ord_id ord)) (\<lambda>r. Inr (Some r, d2)))))))"

definition event_seen :: "transition_event \<Rightarrow> db \<Rightarrow> bool" where
  "event_seen ev d =
     (case truthy (te_external ev) of None \<Rightarrow> False | Some x \<Rightarrow> event_exists d (te_broker ev) x)"

definition apply_transition ::
    "decimal_lib \<Rightarrow> order \<Rightarrow> transition_event \<Rightarrow> db \<Rightarrow> (order option \<times> db) result" where
  "apply_transition D ord ev d =
     (if event_seen ev d then Inr (None, d)
      else
        ebind (plan_event (ord_state ord) (te_type ev)) (\<lambda>(steps, audit_only).
        ebind (insert_event (event_row ord ev steps) d) (\<lambda>(fresh, d1).
          if \<not> fresh then Inr (None, d1)
          else if audit_only then flag_order ord d1
          else move_order D ord ev steps d1)))"

section \<open>The local cancel intent\<close>

definition request_cancel :: "decimal_lib \<Rightarrow> uuid \<Rightarrow> time \<Rightarrow> db \<Rightarrow> (order \<times> db) result" where
  "request_cancel D i occurred d =
     (case get_order d i of
        None \<Rightarrow> Inl (AppError NOT_FOUND None)
      | Some ord \<Rightarrow>
          if is_terminal (ord_state ord) \<or> ord_state ord = CANCEL_PENDING then Inr (ord, d)
          else if ord_state ord = PENDING_SUBMISSION
            then app_error DOMAIN_RULE ORDER_NOT_CANCELLABLE
          else
            ebind (apply_transition D ord
              \<lparr>te_type = ORDER_CANCEL_PENDING, te_source = Src_local, te_broker = ord_broker ord,
               te_broker_order = None, te_external = None, te_occurred = occurred, te_reason = None,
               te_fill_qty = None, te_reject = None\<rparr> d) (\<lambda>(updated, d1).
            ebind (of_option (InvariantViolation ''local cancel event can never be a duplicate'')
                updated) (\<lambda>r. Inr (r, d1))))"


section \<open>Reservations\<close>

lemma qty_subtract_Inr: "b \<le> a \<Longrightarrow> qty_subtract a b = Inr (a - b)"
  by (simp add: qty_subtract_def)

lemma usd_cents: "usd m * 10 ^ 2 = of_int m"
  by simp

context decimal_arith
begin

text \<open>
  The scaled reservation against the exact share \<open>reserved \<cdot> remaining / open_qty\<close> of the old one:
  less than one cent away for reservations up to \<open>10\<^sup>30\<close> cents, and never above the old one.
\<close>

lemma scaled_reservation:
  fixes R :: int and q k :: nat
  assumes "0 \<le> R" "R \<le> 10 ^ 30" "0 < q" "k \<le> q"
  defines "x \<equiv> dec_dp D 2 (dec_mul D (dec_div D (usd R) (of_nat q)) (of_nat k))"
  shows "\<bar>of_int x - of_int R * of_nat k / of_nat q\<bar> < (1 :: rat)" "0 \<le> x" "x \<le> R"
proof -
  let ?q = "of_nat q :: rat" and ?k = "of_nat k :: rat"
  define a where "a = usd R / ?q"
  define a' where "a' = dec_div D (usd R) ?q"
  define m where "m = dec_mul D a' ?k"
  have q: "0 < ?q" "?k \<le> ?q" "0 \<le> ?k" using assms(3,4) by auto
  have R: "(0::rat) \<le> of_int R" "of_int R \<le> (10 ^ 30 :: rat)"
    using assms(1,2) of_int_le_iff[of R "10 ^ 30", where ?'a = rat] by simp_all
  have a0: "0 \<le> a" using R q by (simp add: a_def)
  have a': "\<bar>a' - a\<bar> \<le> a / (2 * 10 ^ 39)"
    using div_error[of ?q "usd R"] q a0 by (simp add: a_def a'_def)
  have ak: "a * ?k \<le> 10 ^ 28" "0 \<le> a * ?k"
  proof -
    have "a * ?k \<le> a * ?q" using q a0 by (intro mult_left_mono) auto
    also have "\<dots> = usd R" using q by (simp add: a_def)
    also have "\<dots> \<le> 10 ^ 28" using R by simp
    finally show "a * ?k \<le> 10 ^ 28" .
    show "0 \<le> a * ?k" using a0 q by simp
  qed
  have "\<bar>a' * ?k - a * ?k\<bar> = \<bar>a' - a\<bar> * ?k" using q by (simp add: abs_mult flip: left_diff_distrib)
  also have "\<dots> \<le> a / (2 * 10 ^ 39) * ?k" using a' q by (intro mult_right_mono) auto
  also have "\<dots> = a * ?k / (2 * 10 ^ 39)" by simp
  also have "a * ?k / (2 * 10 ^ 39) \<le> 10 ^ 28 / (2 * 10 ^ 39)"
    by (rule divide_right_mono[OF ak(1)]) simp
  finally have small: "\<bar>a' * ?k - a * ?k\<bar> \<le> 1 / 10 ^ 10" by simp
  have bound: "\<bar>a' * ?k\<bar> \<le> 10 ^ 29" 
  proof -
    have "\<bar>u\<bar> \<le> 10 ^ 29" if "\<bar>u - v\<bar> \<le> 1 / 10 ^ 10" "v \<le> 10 ^ 28" "0 \<le> v" for u v :: rat
    proof -
      have "\<bar>u - v\<bar> \<le> 1" using that(1) by (rule order_trans) simp
      then have "\<bar>u\<bar> \<le> 1 + 10 ^ 28" using that(2,3) by linarith
      then show ?thesis by simp
    qed
    with small ak show ?thesis by blast
  qed
  have "\<bar>m - a' * ?k\<bar> \<le> \<bar>a' * ?k\<bar> / (2 * 10 ^ 39)"
    unfolding m_def by (rule mul_error)
  also have "\<dots> \<le> 10 ^ 29 / (2 * 10 ^ 39)" by (rule divide_right_mono[OF bound]) simp
  finally have e2: "\<bar>m - a' * ?k\<bar> \<le> 1 / 10 ^ 10" by simp
  have m: "\<bar>m * 100 - a * ?k * 100\<bar> < 1 / 2"
  proof -
    have "\<bar>m - a * ?k\<bar> \<le> 2 / 10 ^ 10" using small e2 by linarith
    then have "\<bar>m - a * ?k\<bar> * 100 < 1 / 2" by simp
    moreover have "\<bar>u * 100 - v * 100\<bar> = \<bar>u - v\<bar> * 100" for u v :: rat
      by (auto simp: abs_if)
    ultimately show ?thesis by simp
  qed
  have exact: "a * ?k * 100 = of_int R * ?k / ?q" by (simp add: a_def)
  have dp: "\<bar>of_int x - m * 100\<bar> \<le> (1/2 :: rat)"
    using dp_error[of 2 m] by (simp add: x_def m_def a'_def)
  show err: "\<bar>of_int x - of_int R * of_nat k / of_nat q\<bar> < (1 :: rat)"
    using dp m unfolding exact by linarith
  have "of_int R * ?k / ?q \<le> of_int R * ?q / ?q"
    using q R by (intro divide_right_mono mult_left_mono) auto
  then have "of_int R * ?k / ?q \<le> of_int R" using q by simp
  with err have "of_int x < (of_int R + 1 :: rat)" by linarith
  then have "of_int x < (of_int (R + 1) :: rat)" by simp
  then show "x \<le> R" by (simp only: of_int_less_iff)
  have "0 \<le> of_int R * ?k / ?q" using q R by simp
  with err have "-1 < (of_int x :: rat)" by linarith
  then have "of_int (-1) < (of_int x :: rat)" by simp
  then show "0 \<le> x" by (simp only: of_int_less_iff)
qed

end

text \<open>
  What an order may hold at any time: no reservation for a sell or a closed order, never a negative
  one, and a filled order is filled completely.
\<close>

definition order_wf :: "order \<Rightarrow> bool" where
  "order_wf r \<longleftrightarrow> 0 \<le> ord_reserved r
     \<and> (ord_side r = SELL \<longrightarrow> ord_reserved r = 0)
     \<and> (is_terminal (ord_state r) \<longrightarrow> ord_reserved r = 0)
     \<and> (ord_state r = FILLED \<longrightarrow> ord_filled r = ord_qty r)
     \<and> (ord_filled r = ord_qty r \<longrightarrow> ord_reserved r = 0)"

lemma next_reservation_bounds:
  assumes "decimal_arith D" "next_reservation D r st n = Inr m" "order_wf r" "order_check r"
    "ord_filled r \<le> n"
  shows "0 \<le> m" "m \<le> ord_reserved r" "ord_side r = SELL \<Longrightarrow> m = 0" "is_terminal st \<Longrightarrow> m = 0"
    "n = ord_qty r \<Longrightarrow> m = 0"
    "\<not> is_terminal st \<Longrightarrow> \<bar>m * int (ord_qty r - ord_filled r) - ord_reserved r * int (ord_qty r - n)\<bar>
       \<le> int (ord_qty r - ord_filled r)"
    "\<not> is_terminal st \<Longrightarrow> n = ord_filled r \<Longrightarrow> m = ord_reserved r"
proof -
  have wf: "0 \<le> ord_reserved r" "ord_reserved r \<le> 10 ^ 30" using assms(3,4)
    by (auto simp: order_wf_def order_check_def numeric_18_2_def)
  have pos: "0 < ord_qty r" using assms(4) by (simp add: order_check_def)
  consider (zero) "m = 0" "ord_side r = SELL \<or> is_terminal st \<or> n = ord_qty r"
    | (kept) "st \<in> open_states" "ord_side r \<noteq> SELL" "n = 0" "m = ord_reserved r"
    | (scaled) "st \<in> open_states" "ord_side r \<noteq> SELL" "n < ord_qty r"
      "m = dec_dp D 2 (dec_mul D (dec_div D (usd (ord_reserved r)) (of_nat (ord_qty r - ord_filled r)))
              (of_nat (ord_qty r - n)))"
    using assms(2,5) pos
    by (auto simp: next_reservation_def result_simps Let_def open_iff_not_terminal split: if_splits)
  note cases = this
  note sc = decimal_arith.scaled_reservation[OF assms(1) wf, of "ord_qty r - ord_filled r" "ord_qty r - n"]
  show "0 \<le> m" "m \<le> ord_reserved r"
    by (rule cases; use sc assms(5) wf in simp)+
  show "ord_side r = SELL \<Longrightarrow> m = 0" "is_terminal st \<Longrightarrow> m = 0"
    by (rule cases; simp add: open_iff_not_terminal)+
  show "n = ord_qty r \<Longrightarrow> m = 0" by (rule cases; use pos in simp)
  show "m = ord_reserved r" if st: "\<not> is_terminal st" and n: "n = ord_filled r"
  proof (rule cases)
    assume "m = 0" "ord_side r = SELL \<or> is_terminal st \<or> n = ord_qty r"
    with st n assms(3) show ?thesis by (auto simp: order_wf_def)
  next
    assume lt: "n < ord_qty r" and m: "m = dec_dp D 2 (dec_mul D
        (dec_div D (usd (ord_reserved r)) (of_nat (ord_qty r - ord_filled r))) (of_nat (ord_qty r - n)))"
    define q where "q = ord_qty r - ord_filled r"
    have q: "0 < q" "ord_qty r - n = q" using lt n by (auto simp: q_def)
    have "\<bar>of_int m - of_int (ord_reserved r)\<bar> < (1 :: rat)"
      using sc(1) q n by (simp add: m flip: q_def)
    then have "of_int \<bar>m - ord_reserved r\<bar> < (of_int 1 :: rat)" by simp
    then show ?thesis by (simp only: of_int_less_iff)
  qed
  show "\<bar>m * int (ord_qty r - ord_filled r) - ord_reserved r * int (ord_qty r - n)\<bar>
       \<le> int (ord_qty r - ord_filled r)" if "\<not> is_terminal st"
  proof (rule cases)
    assume "m = 0" "ord_side r = SELL \<or> is_terminal st \<or> n = ord_qty r"
    with that assms(3) show ?thesis by (auto simp: order_wf_def)
  next
    assume "n = 0" "m = ord_reserved r"
    with assms(5) show ?thesis by simp
  next
    assume n: "n < ord_qty r" and m: "m = dec_dp D 2 (dec_mul D
        (dec_div D (usd (ord_reserved r)) (of_nat (ord_qty r - ord_filled r))) (of_nat (ord_qty r - n)))"
    define q k where "q = ord_qty r - ord_filled r" and "k = ord_qty r - n"
    have q: "0 < q" "k \<le> q" using n assms(5) by (auto simp: q_def k_def)
    have "\<bar>of_int m - of_int (ord_reserved r) * of_nat k / of_nat q\<bar> < (1 :: rat)"
      using sc(1) q by (simp add: m q_def k_def)
    then have "\<bar>of_int m - of_int (ord_reserved r) * of_nat k / of_nat q\<bar> * of_nat q < (of_nat q :: rat)"
      using q(1) by simp
    also have "\<bar>of_int m - of_int (ord_reserved r) * of_nat k / of_nat q\<bar> * of_nat q
        = \<bar>(of_int m - of_int (ord_reserved r) * of_nat k / of_nat q) * (of_nat q :: rat)\<bar>"
      by (simp add: abs_mult)
    also have "(of_int m - of_int (ord_reserved r) * of_nat k / of_nat q) * (of_nat q :: rat)
        = of_int (m * int q - ord_reserved r * int k)"
      using q(1) by (simp add: left_diff_distrib)
    finally have "of_int \<bar>m * int q - ord_reserved r * int k\<bar> < (of_int (int q) :: rat)" by simp
    then have "\<bar>m * int q - ord_reserved r * int k\<bar> < int q" by (simp only: of_int_less_iff)
    then show ?thesis unfolding q_def k_def by (rule less_imp_le)
  qed
qed

lemma next_reservation_total:
  assumes "n \<le> ord_qty r" "ord_filled r \<le> n"
  shows "\<exists>m. next_reservation D r st n = Inr m"
  using assms by (simp add: next_reservation_def qty_subtract_Inr Let_def)

section \<open>What a transition does to the database\<close>

lemma schema_record_steps [inv_intros]:
  "record_steps ord ev steps st d = Inr (st', d') \<Longrightarrow> schema_ok d \<Longrightarrow> schema_ok d'"
  by (induction steps arbitrary: st d)
     (auto simp: result_simps split: if_splits dest: schema_insert_event)

lemma record_steps_frame:
  "record_steps ord ev steps st d = Inr (st', d') \<Longrightarrow>
   st' = end_state st steps \<and>
   (\<exists>es. d' = d\<lparr>order_events := order_events d @ es\<rparr>
      \<and> list_all (\<lambda>e. oe_external e = None \<and> oe_source e = Src_inferred \<and> oe_order e = ord_id ord) es)"
proof (induction steps arbitrary: st d)
  case Nil
  then show ?case by (auto intro!: exI[of _ "[]"])
next
  case (Cons sp steps)
  let ?e = "\<lparr>oe_order = ord_id ord, oe_type = ORDER_ACCEPTED, oe_from = Some (step_from sp),
                 oe_to = Some (step_to sp), oe_source = Src_inferred, oe_broker = te_broker ev,
                 oe_external = None, oe_occurred = te_occurred ev, oe_reason = None\<rparr>"
  show ?case
  proof (cases "step_inferred sp")
    case False
    with Cons show ?thesis by simp
  next
    case True
    with Cons.prems obtain b d1 where ins: "insert_event ?e d = Inr (b, d1)"
      and rest: "record_steps ord ev steps (step_to sp) d1 = Inr (st', d')"
      by (auto simp: result_simps)
    from ins have d1: "d1 = d\<lparr>order_events := order_events d @ [?e]\<rparr>"
      by (auto simp: insert_event_Inr event_key_def split: option.splits)
    from Cons.IH[OF rest] obtain es where "st' = end_state (step_to sp) steps"
      and d': "d' = d1\<lparr>order_events := order_events d1 @ es\<rparr>"
      and es: "list_all (\<lambda>e. oe_external e = None \<and> oe_source e = Src_inferred
            \<and> oe_order e = ord_id ord) es"
      by blast
    then show ?thesis
      by (intro conjI exI[of _ "?e # es"]) (simp_all add: d' d1 es)
  qed
qed

definition patched :: "order_patch \<Rightarrow> uuid \<Rightarrow> db \<Rightarrow> db" where
  "patched p i d = d\<lparr>orders := modify (\<lambda>r. ord_id r = i) (apply_patch p (db_now d)) (orders d)\<rparr>"

lemma update_order_patched:
  "update_order i p d = Inr d' \<longleftrightarrow> orders_ok (orders (patched p i d)) \<and> d' = patched p i d"
  by (auto simp: update_order_Inr patched_def Let_def)

lemma must_get_patched:
  "get_order d i = Some r \<Longrightarrow> must_get (patched p i d) i = Inr (apply_patch p (db_now d) r)"
  by (simp add: must_get_def patched_def)

lemma flag_order_Inr:
  assumes "get_order d (ord_id ord) = Some ord" "flag_order ord d = Inr (out, d')"
  shows "d' = patched (no_patch\<lparr>pt_attention := Some True\<rparr>) (ord_id ord) d
    \<and> out = Some (apply_patch (no_patch\<lparr>pt_attention := Some True\<rparr>) (db_now d) ord)"
  using assms(2) must_get_patched[OF assms(1)]
  by (auto simp: flag_order_def result_simps update_order_patched)

lemma move_order_Inr:
  assumes "get_order d (ord_id ord) = Some ord" "move_order D ord ev steps d = Inr (out, d')"
  shows "\<exists>es st n m. st = end_state (ord_state ord) steps \<and> n = filled_after ord ev \<and> n \<le> ord_qty ord
    \<and> (st = FILLED \<longrightarrow> n = ord_qty ord) \<and> next_reservation D ord st n = Inr m
    \<and> list_all (\<lambda>e. oe_external e = None \<and> oe_source e = Src_inferred \<and> oe_order e = ord_id ord) es
    \<and> d' = patched (transition_patch ev st n m) (ord_id ord) (d\<lparr>order_events := order_events d @ es\<rparr>)
    \<and> out = Some (apply_patch (transition_patch ev st n m) (db_now d) ord)"
proof -
  from assms(2) obtain st d1 m d2 r where
    rs: "record_steps ord ev steps (ord_state ord) d = Inr (st, d1)"
    and le: "filled_after ord ev \<le> ord_qty ord"
    and full: "st = FILLED \<longrightarrow> filled_after ord ev = ord_qty ord"
    and res: "next_reservation D ord st (filled_after ord ev) = Inr m"
    and upd: "update_order (ord_id ord) (transition_patch ev st (filled_after ord ev) m) d1 = Inr d2"
    and get: "must_get d2 (ord_id ord) = Inr r" "out = Some r" "d' = d2"
    by (auto simp: move_order_def result_simps Let_def split: if_splits)
  from record_steps_frame[OF rs] obtain es where
    st: "st = end_state (ord_state ord) steps" and
    d1: "d1 = d\<lparr>order_events := order_events d @ es\<rparr>" and
    es: "list_all (\<lambda>e. oe_external e = None \<and> oe_source e = Src_inferred \<and> oe_order e = ord_id ord) es"
    by blast
  have "get_order d1 (ord_id ord) = Some ord" using assms(1) by (simp add: d1 get_order_def)
  from must_get_patched[OF this] upd get have
    "d' = patched (transition_patch ev st (filled_after ord ev) m) (ord_id ord) d1"
    "out = Some (apply_patch (transition_patch ev st (filled_after ord ev) m) (db_now d1) ord)"
    by (auto simp: update_order_patched)
  with st le full res es show ?thesis by (auto simp: d1 intro!: exI[of _ es])
qed

text \<open>
  The three ways a transition ends without an error: nothing (a duplicate), an audit row and the
  attention flag, or the audit rows and the move itself.
\<close>

lemma apply_transition_cases:
  assumes "apply_transition D ord ev d = Inr (out, d')"
    and "get_order d (ord_id ord) = Some ord"
  obtains (duplicate) "out = None" "d' = d"
  | (audit) p where "plan_event (ord_state ord) (te_type ev) = Inr ([], True)"
      "p = no_patch\<lparr>pt_attention := Some True\<rparr>"
      "d' = patched p (ord_id ord) (d\<lparr>order_events := order_events d @ [event_row ord ev []]\<rparr>)"
      "out = Some (apply_patch p (db_now d) ord)"
  | (moved) steps es st n m where
      "plan_transitions (ord_state ord) (te_type ev) = Inr steps"
      "st = end_state (ord_state ord) steps" "n = filled_after ord ev" "n \<le> ord_qty ord"
      "st = FILLED \<longrightarrow> n = ord_qty ord"
      "next_reservation D ord st n = Inr m"
      "list_all (\<lambda>e. oe_external e = None \<and> oe_source e = Src_inferred \<and> oe_order e = ord_id ord) es"
      "d' = patched (transition_patch ev st n m) (ord_id ord)
              (d\<lparr>order_events := order_events d @ event_row ord ev steps # es\<rparr>)"
      "out = Some (apply_patch (transition_patch ev st n m) (db_now d) ord)"
      "plan_event (ord_state ord) (te_type ev) = Inr (steps, False)"
proof (cases "event_seen ev d")
  case True
  with assms(1) duplicate show thesis by (simp add: apply_transition_def)
next
  case False
  with assms(1) obtain steps audit fresh d1 where
    plan: "plan_event (ord_state ord) (te_type ev) = Inr (steps, audit)" and
    ins: "insert_event (event_row ord ev steps) d = Inr (fresh, d1)" and
    rest: "(if \<not> fresh then Inr (None, d1) else if audit then flag_order ord d1
            else move_order D ord ev steps d1) = Inr (out, d')"
    by (auto simp: apply_transition_def result_simps)
  show thesis
  proof (cases fresh)
    case False
    with ins rest duplicate show thesis by (auto simp: insert_event_Inr split: if_splits)
  next
    case True
    with ins have d1: "d1 = d\<lparr>order_events := order_events d @ [event_row ord ev steps]\<rparr>"
      by (auto simp: insert_event_Inr split: if_splits)
    have get1: "get_order d1 (ord_id ord) = Some ord" using assms(2) by (simp add: d1 get_order_def)
    show thesis
    proof (cases audit)
      case audit_case: True
      with plan have "steps = []" by (auto simp: plan_event_def split: if_splits sum.splits)
      with flag_order_Inr[OF get1] rest True audit_case plan show thesis
        by (intro audit) (auto simp: d1)
    next
      case False
      with plan have plan': "plan_transitions (ord_state ord) (te_type ev) = Inr steps"
        by (auto simp: plan_event_def split: if_splits sum.splits)
      from rest True False have "move_order D ord ev steps d1 = Inr (out, d')" by simp
      from move_order_Inr[OF get1 this] obtain es st n m where
        mv: "st = end_state (ord_state ord) steps" "n = filled_after ord ev" "n \<le> ord_qty ord"
          "st = FILLED \<longrightarrow> n = ord_qty ord" "next_reservation D ord st n = Inr m"
          "list_all (\<lambda>e. oe_external e = None \<and> oe_source e = Src_inferred \<and> oe_order e = ord_id ord) es"
        and d': "d' = patched (transition_patch ev st n m) (ord_id ord)
              (d\<lparr>order_events := order_events d @ event_row ord ev steps # es\<rparr>)"
        and out: "out = Some (apply_patch (transition_patch ev st n m) (db_now d) ord)"
        by (auto simp: d1)
      from plan False have "plan_event (ord_state ord) (te_type ev) = Inr (steps, False)" by simp
      from moved[OF plan' mv d' out this] show thesis .
    qed
  qed
qed

end
