(* ===== verification/Orders_Correct.thy ===== *)
theory Orders_Correct
  imports Orders
begin

text \<open>
  The correctness of \<^verbatim>\<open>src/core/orders/service.ts\<close>: a placed order is within the account's means,
  a key is placed at most once, a transition moves one order along the life cycle and only ever
  releases its reservation, and the schema, the cash balance and the well-formedness of orders are
  kept.
\<close>

section \<open>Frames and invariants\<close>

definition orders_wf :: "db \<Rightarrow> bool" where
  "orders_wf d \<longleftrightarrow> list_all order_wf (orders d)"

lemma patched_simps [simp]:
  "accounts (patched p i d) = accounts d"
  "broker_accounts (patched p i d) = broker_accounts d"
  "instruments (patched p i d) = instruments d"
  "order_events (patched p i d) = order_events d"
  "fills (patched p i d) = fills d"
  "positions (patched p i d) = positions d"
  "ledger (patched p i d) = ledger d"
  "transfers (patched p i d) = transfers d"
  "next_id (patched p i d) = next_id d"
  "db_now (patched p i d) = db_now d"
  "orders (patched p i d) = modify (\<lambda>r. ord_id r = i) (apply_patch p (db_now d)) (orders d)"
  by (simp_all add: patched_def)

lemma get_order_patched [simp]:
  "get_order (patched p i d) j =
     (if j = i then map_option (apply_patch p (db_now d)) (get_order d j) else get_order d j)"
  by (simp add: patched_def)

lemma get_order_events [simp]: "get_order (d\<lparr>order_events := es\<rparr>) j = get_order d j"
  by (simp add: get_order_def)

lemma schema_apply_transition [inv_intros]:
  assumes "apply_transition D ord ev d = Inr (out, d')" "schema_ok d"
  shows "schema_ok d'"
  using assms
  by (auto simp: apply_transition_def flag_order_def move_order_def Let_def result_simps
      split: if_splits)
     (metis schema_insert_event schema_record_steps schema_update_order)+

lemma apply_transition_frame:
  assumes "apply_transition D ord ev d = Inr (out, d')" "get_order d (ord_id ord) = Some ord"
  shows "\<exists>os es. d' = d\<lparr>orders := os, order_events := es\<rparr> \<and> map ord_id os = map ord_id (orders d)"
  using assms
proof (cases rule: apply_transition_cases)
  case duplicate
  then show ?thesis by (intro exI[of _ "orders d"] exI[of _ "order_events d"]) simp
next
  case (audit p)
  then show ?thesis
    by (intro exI[of _ "orders d'"] exI[of _ "order_events d'"]) (simp add: patched_def map_modify)
next
  case (moved steps es st n m)
  then show ?thesis
    by (intro exI[of _ "orders d'"] exI[of _ "order_events d'"]) (simp add: patched_def map_modify)
qed

lemma apply_transition_in_balance [inv_intros]:
  assumes "apply_transition D ord ev d = Inr (out, d')" "get_order d (ord_id ord) = Some ord"
    "in_balance d"
  shows "in_balance d'"
  using apply_transition_frame[OF assms(1,2)] assms(3) by (auto simp: in_balance_def sum_ledger_def)

lemma order_row_check: "schema_ok d \<Longrightarrow> r \<in> set (orders d) \<Longrightarrow> order_check r"
  by (auto simp: schema_ok_def orders_ok_def list_all_iff)

lemma transition_patch_fields [simp]:
  "ord_state (apply_patch (transition_patch ev st n m) now r) = st"
  "ord_filled (apply_patch (transition_patch ev st n m) now r) = n"
  "ord_reserved (apply_patch (transition_patch ev st n m) now r) = m"
  "ord_attention (apply_patch (transition_patch ev st n m) now r) = ord_attention r"
  by (simp_all add: apply_patch_def transition_patch_def)

lemma attention_patch_fields [simp]:
  "ord_state (apply_patch (no_patch\<lparr>pt_attention := Some b\<rparr>) now r) = ord_state r"
  "ord_filled (apply_patch (no_patch\<lparr>pt_attention := Some b\<rparr>) now r) = ord_filled r"
  "ord_reserved (apply_patch (no_patch\<lparr>pt_attention := Some b\<rparr>) now r) = ord_reserved r"
  "ord_attention (apply_patch (no_patch\<lparr>pt_attention := Some b\<rparr>) now r) = b"
  by (simp_all add: apply_patch_def no_patch_def)

lemma filled_after_ge: "ord_filled ord \<le> filled_after ord ev"
  by (simp add: filled_after_def split: option.split)

text \<open>The row a transition returns is well-formed again, and it is the row the table now holds.\<close>

lemma transition_row_wf:
  assumes "decimal_arith D" "apply_transition D ord ev d = Inr (Some r, d')"
    "get_order d (ord_id ord) = Some ord" "order_wf ord" "order_check ord"
  shows "order_wf r \<and> ord_reserved r \<le> ord_reserved ord \<and> get_order d' (ord_id ord) = Some r"
  using assms(2,3)
proof (cases rule: apply_transition_cases)
  case (audit p)
  then show ?thesis using assms(3,4) by (simp add: order_wf_def)
next
  case (moved steps es st n m)
  from next_reservation_bounds[OF assms(1) moved(6) assms(4,5)] filled_after_ge[of ord ev] moved
  show ?thesis using assms(3) by (auto simp: order_wf_def transition_patch_def apply_patch_def)
qed simp

lemma orders_wf_apply_transition [inv_intros]:
  assumes "decimal_arith D" "apply_transition D ord ev d = Inr (out, d')"
    "get_order d (ord_id ord) = Some ord" "schema_ok d" "orders_wf d"
  shows "orders_wf d'"
proof (cases out)
  case None
  from assms(2,3) show ?thesis
    by (cases rule: apply_transition_cases) (use None assms(5) in auto)
next
  case (Some r)
  have ord: "order_wf ord" "order_check ord"
    using assms(3-5) by (auto simp: orders_wf_def list_all_iff dest: get_order_Some order_row_check)
  note row = transition_row_wf[OF assms(1) assms(2)[unfolded Some] assms(3) ord]
  have uniq: "x = ord" if "x \<in> set (orders d)" "ord_id x = ord_id ord" for x
    using that order_key_unique[OF assms(4) that(1)] assms(3) by (simp add: get_order_def)
  have step: "list_all order_wf (modify (\<lambda>x. ord_id x = ord_id ord) f (orders d))"
    if "f ord = r" for f
    using assms(5) row uniq that by (auto simp: orders_wf_def list_all_iff set_modify)
  from assms(2,3) show ?thesis
    by (cases rule: apply_transition_cases)
       (use Some step in \<open>auto simp: orders_wf_def\<close>)
qed

section \<open>Placement\<close>

lemma place_tx_cases:
  assumes "place_tx D cfg inp d = Inr ((r, b), d')"
  obtains (replay) a where "b" "d' = d" "get_account d (acc_id (no_account inp)) = Some a"
      "acc_status a = ACTIVE" "find_order_key d (acc_id a) (no_key inp) = Some r"
  | (placed) a m where "\<not> b" "get_account d (acc_id (no_account inp)) = Some a"
      "acc_status a = ACTIVE" "no_side inp = BUY \<longrightarrow> ins_status (no_instrument inp) = ''ACTIVE''"
      "find_order_key d (acc_id a) (no_key inp) = None"
      "insert_order inp m d = Inr (Some r, d')"
      "if no_side inp = BUY then buy_reservation D cfg inp = Inr m \<and> m \<le> buying_power d a
       else m = 0 \<and> (\<exists>s. sellable_qty d (acc_id a) (ins_id (no_instrument inp)) = Inr s \<and> no_qty inp \<le> s)"
proof -
  from assms obtain a where a: "get_account d (acc_id (no_account inp)) = Some a"
      "acc_status a = ACTIVE" "no_side inp = BUY \<longrightarrow> ins_status (no_instrument inp) = ''ACTIVE''"
    by (auto simp: place_tx_def lock_account_def result_simps split: if_splits)
  have id: "acc_id a = acc_id (no_account inp)" using a(1) by (auto dest: get_account_Some)
  show thesis
  proof (cases "find_order_key d (acc_id a) (no_key inp)")
    case (Some x)
    with assms a replay show thesis by (auto simp: place_tx_def lock_account_def)
  next
    case None
    with assms a obtain m out d1 where
      m: "reservation_for D cfg inp = Inr m" and ok: "check_means inp a m d = Inr ()" and
      ins: "insert_order inp m d = Inr (out, d1)" and
      rest: "(case out of Some r \<Rightarrow> Inr ((r, False), d1)
           | None \<Rightarrow> ebind (of_option
                   (InvariantViolation ''idempotency conflict without a matching order'')
                   (find_order_key d1 (acc_id a) (no_key inp)))
                 (\<lambda>raced. Inr ((raced, True), d1))) = Inr ((r, b), d')"
      by (auto simp: place_tx_def lock_account_def result_simps split: if_splits)
    from ins None id have "out \<noteq> None" by (auto simp: insert_order_def Let_def result_simps)
    with rest have out: "out = Some r" "b = False" "d' = d1" by auto
    show thesis
    proof (rule placed)
      show "if no_side inp = BUY then buy_reservation D cfg inp = Inr m \<and> m \<le> buying_power d a
       else m = 0 \<and> (\<exists>s. sellable_qty d (acc_id a) (ins_id (no_instrument inp)) = Inr s \<and> no_qty inp \<le> s)"
        using m ok by (auto simp: reservation_for_def check_means_def result_simps not_less split: if_splits)
    qed (use out ins a None in auto)
  qed
qed

lemma insert_order_Some:
  assumes "insert_order inp m d = Inr (Some r, d')"
  shows "r = \<lparr>ord_id = next_id d, ord_account = acc_id (no_account inp),
               ord_instrument = ins_id (no_instrument inp),
               ord_symbol = ins_symbol (no_instrument inp), ord_side = no_side inp,
               ord_type = no_type inp, ord_tif = DAY, ord_qty = no_qty inp,
               ord_limit = no_limit inp, ord_state = PENDING_SUBMISSION, ord_filled = 0,
               ord_reserved = m, ord_reject = None, ord_attention = False,
               ord_key = no_key inp, ord_broker = None, ord_broker_id = None,
               ord_created = db_now d, ord_updated = db_now d\<rparr>
    \<and> d' = d\<lparr>orders := orders d @ [r], next_id := next_id d + 1\<rparr> \<and> orders_ok (orders d @ [r])"
  using assms by (auto simp: insert_order_def Let_def result_simps split: if_splits)

lemma schema_place_tx [inv_intros]:
  "place_tx D cfg inp d = Inr (rb, d') \<Longrightarrow> schema_ok d \<Longrightarrow> schema_ok d'"
  by (cases rb) (auto elim!: place_tx_cases intro: schema_insert_order)

lemma place_tx_in_balance [inv_intros]:
  "place_tx D cfg inp d = Inr (rb, d') \<Longrightarrow> in_balance d \<Longrightarrow> in_balance d'"
  by (cases rb) (auto elim!: place_tx_cases dest!: insert_order_Some simp: in_balance_def sum_ledger_def)

definition prices_positive :: "new_order \<Rightarrow> bool" where
  "prices_positive inp \<longleftrightarrow> (\<forall>p. no_limit inp = Some p \<or> no_ref_price inp = Some p \<longrightarrow> 0 < p)"

lemma buy_reservation_nonneg:
  assumes "decimal_arith D" "buy_reservation D cfg inp = Inr m" "prices_positive inp"
  shows "0 \<le> m"
proof -
  from assms(2) obtain p where p: "no_limit inp = Some p \<or> no_ref_price inp = Some p"
    and m: "m = notional D p (no_qty inp)
      \<or> reserve_with_buffer D p (no_qty inp) (market_buy_buffer cfg) = Inr m"
    by (auto simp: buy_reservation_def result_simps split: if_splits)
  from p assms(3) have "0 \<le> p" by (auto simp: prices_positive_def)
  with m decimal_arith.notional_nonneg[OF assms(1), of p "no_qty inp"]
    decimal_arith.reserve_covers_notional[OF assms(1), of p "no_qty inp" "market_buy_buffer cfg" m]
  show ?thesis by auto
qed

lemma orders_wf_place_tx [inv_intros]:
  assumes "decimal_arith D" "prices_positive inp" "place_tx D cfg inp d = Inr (rb, d')" "orders_wf d"
  shows "orders_wf d'"
proof -
  obtain r b where rb: "rb = (r, b)" by (cases rb)
  from assms(3)[unfolded rb] show ?thesis
  proof (cases rule: place_tx_cases)
    case (placed a m)
    have "0 \<le> m \<and> (no_side inp = SELL \<longrightarrow> m = 0)"
      using placed(7) buy_reservation_nonneg[OF assms(1) _ assms(2)] by (cases "no_side inp") auto
    moreover have "ord_qty r > 0"
      using insert_order_Some[OF placed(6)] unfolding orders_ok_def order_check_def by auto
    ultimately show ?thesis
      using insert_order_Some[OF placed(6)] assms(4)
      by (simp add: orders_wf_def order_wf_def is_terminal_def terminal_states_def)
  qed (use assms(4) in simp)
qed


section \<open>What a placement leaves\<close>

lemma find_order_key_append:
  "find_order_key (d\<lparr>orders := orders d @ [r], next_id := n\<rparr>) i key =
     (case find_order_key d i key of
        None \<Rightarrow> if ord_account r = i \<and> ord_key r = key then Some r else None
      | Some x \<Rightarrow> Some x)"
  by (simp add: find_order_key_def find_append split: option.split)

lemma buying_power_place:
  "buying_power (d\<lparr>orders := orders d @ [r], next_id := n\<rparr>) a = buying_power d a
     - (if ord_account r = acc_id a \<and> ord_side r = BUY \<and> ord_state r \<in> open_states
        then ord_reserved r else 0)"
  by (simp add: buying_power_def sum_open_buy_reservations_def sum_pending_def)

lemma sell_remainders_nonneg:
  assumes "schema_ok d"
  shows "0 \<le> total (\<lambda>r. int (ord_qty r) - int (ord_filled r)) p (orders d)"
  by (rule total_nonneg) (use assms order_row_check in \<open>auto simp: order_check_def\<close>)

lemma sum_open_sell_Inr:
  assumes "schema_ok d"
  shows "sum_open_sell_remainders d i ins = Inr (nat (total (\<lambda>r. int (ord_qty r) - int (ord_filled r))
       (\<lambda>r. ord_account r = i \<and> ord_instrument r = ins \<and> ord_side r = SELL
          \<and> ord_state r \<in> open_states) (orders d)))"
  using sell_remainders_nonneg[OF assms]
  by (simp add: sum_open_sell_remainders_def qty_of_int_def)

text \<open>A sell order that was just placed is covered by the position, with all other open sells.\<close>

lemma sell_covered:
  assumes ok: "schema_ok d" and ins: "insert_order inp m d = Inr (Some r, d')" and side: "no_side inp = SELL"
    and s: "sellable_qty d (acc_id (no_account inp)) (ins_id (no_instrument inp)) = Inr s"
    and le: "no_qty inp \<le> s"
  shows "\<exists>t. sum_open_sell_remainders d' (ord_account r) (ord_instrument r) = Inr t
    \<and> t \<le> position_qty d' (ord_account r) (ord_instrument r)"
proof -
  note r = insert_order_Some[OF ins]
  let ?p = "\<lambda>x. ord_account x = ord_account r \<and> ord_instrument x = ord_instrument r
      \<and> ord_side x = SELL \<and> ord_state x \<in> open_states"
  let ?sum = "total (\<lambda>x. int (ord_qty x) - int (ord_filled x)) ?p"
  have "orders_ok (orders d @ [r])" using r by blast
  then have qty: "ord_qty r > 0" by (simp add: orders_ok_def order_check_def)
  from s sum_open_sell_Inr[OF ok] r have
    "s = (if nat (?sum (orders d)) \<le> position_qty d (ord_account r) (ord_instrument r)
          then position_qty d (ord_account r) (ord_instrument r) - nat (?sum (orders d)) else 0)"
    by (auto simp: sellable_qty_def result_simps Let_def split: if_splits)
  moreover have "?p r" using r side by (simp add: open_states_def)
  then have "?sum (orders d') = ?sum (orders d) + int (no_qty inp)" using r by simp
  moreover have "position_qty d' (ord_account r) (ord_instrument r)
      = position_qty d (ord_account r) (ord_instrument r)"
    using r by (simp add: position_qty_def get_position_def)
  moreover have "no_qty inp = ord_qty r" using r by simp
  ultimately show ?thesis
    using sum_open_sell_Inr[OF schema_insert_order[OF ins ok]] le qty sell_remainders_nonneg[OF ok, of ?p]
    by (auto split: if_splits)
qed

section \<open>Properties\<close>

text \<open>
  C4: A placed order is within the account's means. When \<open>place\<close> creates an order, the account was
  active and exactly one row was added, pending and unfilled; a buy reserves no more than the buying
  power (cash less the open buy reservations less the pending withdrawals), which afterwards is
  lower by exactly that reservation and not negative; a sell, together with every other open sell of
  the instrument, stays within the position.
\<close>

theorem placement_within_means:
  assumes "schema_ok d" "place D cfg inp d = (Inr (r, False), d')"
  shows "\<exists>a. get_account d (ord_account r) = Some a \<and> acc_status a = ACTIVE
    \<and> orders d' = orders d @ [r] \<and> ord_state r = PENDING_SUBMISSION \<and> ord_filled r = 0
    \<and> (if ord_side r = BUY
       then buy_reservation D cfg inp = Inr (ord_reserved r)
         \<and> buying_power d' a = buying_power d a - ord_reserved r \<and> 0 \<le> buying_power d' a
       else ord_reserved r = 0
         \<and> (\<exists>t. sum_open_sell_remainders d' (ord_account r) (ord_instrument r) = Inr t
              \<and> t \<le> position_qty d' (ord_account r) (ord_instrument r)))"
proof -
  have "place_tx D cfg inp d = Inr ((r, False), d')"
    using assms(2) by (auto simp: place_def run_tx_def split: sum.splits)
  then show ?thesis
  proof (cases rule: place_tx_cases)
    case (placed a m)
    note r = insert_order_Some[OF placed(6)]
    have id: "acc_id a = acc_id (no_account inp)" using placed(2) by (auto dest: get_account_Some)
    show ?thesis
    proof (cases "no_side inp")
      case BUY
      with placed(2,3,7) r id show ?thesis
        by (intro exI[of _ a]) (auto simp: buying_power_place open_states_def)
    next
      case SELL
      with placed(7) id obtain s where
        "sellable_qty d (acc_id (no_account inp)) (ins_id (no_instrument inp)) = Inr s" "no_qty inp \<le> s"
        by auto
      from sell_covered[OF assms(1) placed(6) SELL this] SELL placed(2,3,7) r show ?thesis
        by (intro exI[of _ a]) auto
    qed
  qed simp
qed

text \<open>The running example buys 4 shares at a limit of 200.00.\<close>

definition demo_buy :: new_order where
  "demo_buy = \<lparr>no_account = demo_account, no_instrument = demo_instrument, no_side = BUY,
     no_type = LIMIT, no_qty = 4, no_limit = Some 2000000, no_ref_price = None, no_key = ''k1''\<rparr>"

definition demo_config :: place_config where
  "demo_config = \<lparr>market_buy_buffer = 1/40\<rparr>"

definition demo_order :: order where
  "demo_order = \<lparr>ord_id = 3, ord_account = 0, ord_instrument = 1, ord_symbol = ''AAPL'',
     ord_side = BUY, ord_type = LIMIT, ord_tif = DAY, ord_qty = 4, ord_limit = Some 2000000,
     ord_state = PENDING_SUBMISSION, ord_filled = 0, ord_reserved = 80000, ord_reject = None,
     ord_attention = False, ord_key = ''k1'', ord_broker = None, ord_broker_id = None,
     ord_created = 0, ord_updated = 0\<rparr>"

definition demo_placed :: db where
  "demo_placed = demo_db\<lparr>orders := [demo_order], next_id := 4\<rparr>"

lemma demo_notional: "notional js_decimal 2000000 4 = 80000"
  by (simp add: js.notional_half_even)

lemma demo_place: "place js_decimal demo_config demo_buy demo_db = (Inr (demo_order, False), demo_placed)"
  by (simp add: place_def run_tx_def place_tx_def validate_shape_def lock_account_def get_account_def
      find_order_key_def reservation_for_def buy_reservation_def check_means_def buying_power_def
      sum_open_buy_reservations_def sum_pending_def insert_order_def order_check_def bigint_def
      numeric_18_2_def has_account_def has_instrument_def orders_ok_def broker_order_key_def Let_def
      demo_buy_def demo_defs demo_notional demo_order_def demo_placed_def)

lemma demo_placed_ok: "schema_ok demo_placed" "orders_wf demo_placed" "in_balance demo_placed"
proof -
  have "place_tx js_decimal demo_config demo_buy demo_db = Inr ((demo_order, False), demo_placed)"
    using demo_place by (auto simp: place_def run_tx_def split: sum.splits)
  note p = this
  show "schema_ok demo_placed" by (rule schema_place_tx[OF p]) simp
  show "in_balance demo_placed" by (rule place_tx_in_balance[OF p demo_in_balance])
  show "orders_wf demo_placed"
    by (simp add: orders_wf_def demo_placed_def demo_order_def order_wf_def is_terminal_def
        terminal_states_def)
qed

theorem placement_within_means_witness:
  "buying_power demo_placed demo_account = 20000 \<and> 0 \<le> buying_power demo_placed demo_account
   \<and> orders demo_placed = [demo_order]"
  using placement_within_means[OF demo_db_ok demo_place]
  by (auto simp: demo_order_def demo_defs get_account_def buying_power_def sum_open_buy_reservations_def
      sum_pending_def)

text \<open>
  An idempotency key places at most one order. After \<open>place\<close> returned an order, every later
  request with the same account and key (whatever its quantity or price), as long as the account
  is active, the request is well-shaped and a buy names a tradable instrument, returns that same
  order as a replay and leaves the database untouched.
\<close>

theorem placement_idempotent:
  assumes "place D cfg inp d = (Inr (r, b), d')"
    and "acc_id (no_account inp') = acc_id (no_account inp)" "no_key inp' = no_key inp"
    and "validate_shape inp' = Inr ()"
    and "no_side inp' = BUY \<Longrightarrow> ins_status (no_instrument inp') = ''ACTIVE''"
  shows "place D' cfg' inp' d' = (Inr (r, True), d')"
proof -
  have "place_tx D cfg inp d = Inr ((r, b), d')"
    using assms(1) by (auto simp: place_def run_tx_def split: sum.splits)
  then have "\<exists>a. get_account d' (acc_id (no_account inp)) = Some a \<and> acc_status a = ACTIVE
      \<and> find_order_key d' (acc_id a) (no_key inp) = Some r"
  proof (cases rule: place_tx_cases)
    case (replay a)
    then show ?thesis by auto
  next
    case (placed a m)
    note r = insert_order_Some[OF placed(6)]
    have d': "d' = d\<lparr>orders := orders d @ [r], next_id := next_id d + 1\<rparr>" using r by blast
    have "get_account d' (acc_id (no_account inp)) = Some a"
      using placed(2) by (simp add: d' get_account_def)
    moreover have "find_order_key d' (acc_id a) (no_key inp) = Some r"
      using placed(2,5) r unfolding d' find_order_key_append by (auto dest: get_account_Some)
    ultimately show ?thesis using placed(3) by blast
  qed
  with assms(2-5) show ?thesis
    by (auto simp: place_def run_tx_def place_tx_def lock_account_def)
qed

theorem placement_idempotent_witness:
  "place js_decimal demo_config (demo_buy\<lparr>no_qty := 9\<rparr>) demo_placed
     = (Inr (demo_order, True), demo_placed)"
  by (rule placement_idempotent[OF demo_place])
     (simp_all add: demo_buy_def demo_instrument_def validate_shape_def)


lemma demo_order_wf: "order_wf demo_order" "order_check demo_order" "get_order demo_placed 3 = Some demo_order"
  by (simp_all add: demo_order_def order_wf_def order_check_def bigint_def numeric_18_2_def
      is_terminal_def terminal_states_def get_order_def demo_placed_def)

text \<open>An event of the running example: the venue fills 1 of the 4 shares.\<close>

definition demo_fill_event :: transition_event where
  "demo_fill_event = \<lparr>te_type = ORDER_PARTIALLY_FILLED, te_source = Src_broker,
     te_broker = Some DETERMINISTIC, te_broker_order = Some ''v1'', te_external = Some ''e1'',
     te_occurred = 5, te_reason = None, te_fill_qty = Some 1, te_reject = None\<rparr>"

lemma js_scaled:
  assumes "0 < q" "k \<le> q" "0 \<le> R" "R \<le> 10 ^ 30" "R * int k = x * int q"
  shows "dec_dp js_decimal 2 (dec_mul js_decimal (dec_div js_decimal (usd R) (of_nat q)) (of_nat k)) = x"
proof -
  let ?x = "dec_dp js_decimal 2 (dec_mul js_decimal (dec_div js_decimal (usd R) (of_nat q)) (of_nat k))"
  have "of_int R * of_nat k = (of_int (R * int k) :: rat)" by simp
  then have "of_int R * of_nat k / of_nat q = (of_int x :: rat)"
    using assms(1) unfolding assms(5) by simp
  with js.scaled_reservation(1)[OF assms(3,4,1,2)] have "\<bar>of_int ?x - of_int x\<bar> < (1 :: rat)" by simp
  then have "of_int \<bar>?x - x\<bar> < (of_int 1 :: rat)" by simp
  then show ?thesis by (simp only: of_int_less_iff)
qed

lemma demo_reservation: "next_reservation js_decimal demo_order PARTIALLY_FILLED 1 = Inr 60000"
  using js_scaled[of 4 3 80000 60000]
  by (simp add: next_reservation_def demo_order_def open_states_def qty_subtract_def)

lemma demo_plan:
  "plan_event PENDING_SUBMISSION ORDER_PARTIALLY_FILLED =
     Inr ([\<lparr>step_from = PENDING_SUBMISSION, step_to = ACCEPTED, step_inferred = True\<rparr>,
           \<lparr>step_from = ACCEPTED, step_to = PARTIALLY_FILLED, step_inferred = False\<rparr>], False)"
  by (simp add: plan_event_def plan_transitions_def is_fill_event_def)

definition demo_filled_order :: order where
  "demo_filled_order = apply_patch (transition_patch demo_fill_event PARTIALLY_FILLED 1 60000) 0 demo_order"

definition demo_moved :: db where
  "demo_moved = demo_placed\<lparr>orders := [demo_filled_order],
     order_events := [event_row demo_order demo_fill_event
         [\<lparr>step_from = ACCEPTED, step_to = PARTIALLY_FILLED, step_inferred = False\<rparr>],
       \<lparr>oe_order = 3, oe_type = ORDER_ACCEPTED, oe_from = Some PENDING_SUBMISSION,
        oe_to = Some ACCEPTED, oe_source = Src_inferred, oe_broker = Some DETERMINISTIC,
        oe_external = None, oe_occurred = 5, oe_reason = None\<rparr>]\<rparr>"

lemma demo_filled_order_fields [simp]:
  "ord_id demo_filled_order = 3" "ord_state demo_filled_order = PARTIALLY_FILLED"
  "ord_filled demo_filled_order = 1" "ord_qty demo_filled_order = 4"
  "ord_reserved demo_filled_order = 60000" "ord_side demo_filled_order = BUY"
  by (simp_all add: demo_filled_order_def demo_order_def)

lemma demo_order_fields [simp]:
  "ord_id demo_order = 3" "ord_state demo_order = PENDING_SUBMISSION"
  "ord_filled demo_order = 0" "ord_qty demo_order = 4" "ord_reserved demo_order = 80000"
  "ord_side demo_order = BUY" "ord_account demo_order = 0" "ord_instrument demo_order = 1"
  by (simp_all add: demo_order_def)

lemma demo_transition:
  "apply_transition js_decimal demo_order demo_fill_event demo_placed
     = Inr (Some demo_filled_order, demo_moved)"
proof -
  let ?ev = demo_fill_event
  let ?steps = "[\<lparr>step_from = PENDING_SUBMISSION, step_to = ACCEPTED, step_inferred = True\<rparr>,
           \<lparr>step_from = ACCEPTED, step_to = PARTIALLY_FILLED, step_inferred = False\<rparr>]"
  have seen: "\<not> event_seen ?ev demo_placed"
    by (simp add: event_seen_def demo_fill_event_def truthy_def event_exists_def demo_placed_def demo_defs)
  let ?d1 = "demo_placed\<lparr>order_events := [event_row demo_order ?ev ?steps]\<rparr>"
  have ins: "insert_event (event_row demo_order ?ev ?steps) demo_placed = Inr (True, ?d1)"
    by (simp add: insert_event_Inr event_row_def order_events_ok_def event_key_def has_order_def
        demo_placed_def demo_defs split: option.split)
  have row: "event_row demo_order ?ev ?steps = event_row demo_order ?ev
      [\<lparr>step_from = ACCEPTED, step_to = PARTIALLY_FILLED, step_inferred = False\<rparr>]"
    by (simp add: event_row_def)
  have "move_order js_decimal demo_order ?ev ?steps ?d1 = Inr (Some demo_filled_order, demo_moved)"
  proof -
    have rs: "record_steps demo_order ?ev ?steps PENDING_SUBMISSION ?d1
        = Inr (PARTIALLY_FILLED, demo_moved\<lparr>orders := [demo_order]\<rparr>)"
      by (simp add: insert_event_def event_key_def order_events_ok_def has_order_def Let_def row
          demo_moved_def event_row_def demo_fill_event_def demo_placed_def)
    have filled: "filled_after demo_order ?ev = 1" by (simp add: filled_after_def demo_fill_event_def)
    have upd: "update_order 3 (transition_patch ?ev PARTIALLY_FILLED 1 60000) (demo_moved\<lparr>orders := [demo_order]\<rparr>)
        = Inr demo_moved"
      using demo_order_wf(2)
      by (simp add: update_order_Inr demo_moved_def demo_placed_def demo_defs orders_ok_def order_check_def
          bigint_def numeric_18_2_def demo_filled_order_def split: option.split)
    then show ?thesis
      using rs filled demo_reservation upd
      by (simp add: move_order_def Let_def must_get_def get_order_def del: record_steps.simps)
         (simp add: demo_moved_def)
  qed
  with seen ins demo_plan show ?thesis
    by (simp add: apply_transition_def demo_fill_event_def)
qed

text \<open>
  C6: A transition moves one order along the life cycle. When \<open>applyTransition\<close> returns an order,
  that is the row the table now holds; its state is reached from the old one by legal steps only (so
  a terminal order keeps its state), it is never filled beyond its quantity and a \<open>FILLED\<close> one is
  filled completely; every other order and every other table but the audit log is unchanged, and the
  audit log only grows. A duplicate changes nothing at all.
\<close>

theorem transition_follows_lifecycle:
  assumes "get_order d (ord_id ord) = Some ord" "apply_transition D ord ev d = Inr (out, d')"
    and "order_wf ord" "order_check ord"
  shows "case out of
      None \<Rightarrow> d' = d
    | Some r \<Rightarrow> get_order d' (ord_id ord) = Some r \<and> order_step\<^sup>*\<^sup>* (ord_state ord) (ord_state r)
        \<and> ord_filled ord \<le> ord_filled r \<and> ord_filled r \<le> ord_qty r
        \<and> (ord_state r = FILLED \<longrightarrow> ord_filled r = ord_qty r)
        \<and> (\<forall>j. j \<noteq> ord_id ord \<longrightarrow> get_order d' j = get_order d j)
        \<and> (\<exists>es. d' = d\<lparr>orders := orders d', order_events := order_events d @ es\<rparr> \<and> es \<noteq> [])"
  using assms(2,1)
proof (cases rule: apply_transition_cases)
  case duplicate
  then show ?thesis by simp
next
  case (audit p)
  have "d' = d\<lparr>orders := orders d', order_events := order_events d @ [event_row ord ev []]\<rparr>"
    unfolding audit(3) by (simp add: patched_def)
  then have frame: "\<exists>es. d' = d\<lparr>orders := orders d', order_events := order_events d @ es\<rparr> \<and> es \<noteq> []"
    by blast
  have "ord_filled ord \<le> ord_qty ord" "ord_state ord = FILLED \<longrightarrow> ord_filled ord = ord_qty ord"
    using assms(3,4) by (simp_all add: order_wf_def order_check_def)
  with frame show ?thesis using assms(1) by (simp add: audit(2,4)) (simp add: audit(2,3))
next
  case (moved steps es st n m)
  have path: "order_step\<^sup>*\<^sup>* (ord_state ord) st"
    using step_chain_path[OF plan_chain[OF moved(1)]] by (simp add: moved(2))
  have "d' = d\<lparr>orders := orders d', order_events := order_events d @ event_row ord ev steps # es\<rparr>"
    unfolding moved(8) by (simp add: patched_def)
  then have frame: "\<exists>es. d' = d\<lparr>orders := orders d', order_events := order_events d @ es\<rparr> \<and> es \<noteq> []"
    by blast
  have "ord_filled ord \<le> n" unfolding moved(3) by (rule filled_after_ge)
  with path frame moved(4,5) assms(1) show ?thesis by (simp add: moved(9)) (simp add: moved(8))
qed

theorem transition_follows_lifecycle_witness:
  "order_step\<^sup>*\<^sup>* PENDING_SUBMISSION PARTIALLY_FILLED
   \<and> get_order demo_moved 3 = Some demo_filled_order
   \<and> ord_filled demo_filled_order \<le> ord_qty demo_filled_order"
  using transition_follows_lifecycle[OF _ demo_transition demo_order_wf(1,2)] demo_order_wf(3)
  by simp

text \<open>
  C10: A transition only ever releases reserved cash, in proportion to what was filled. Under the
  decimal contract the new reservation is between zero and the old one; it is zero for a sell, a
  closed order and a completely filled one; otherwise it is the old reservation scaled by the
  remaining quantity, to the cent (and exactly the old one when nothing was filled), although the
  code rounds three times on the way.
\<close>

theorem reservation_released_pro_rata:
  assumes "decimal_arith D" "get_order d (ord_id ord) = Some ord" "order_wf ord" "order_check ord"
    and "apply_transition D ord ev d = Inr (Some r, d')"
  shows "0 \<le> ord_reserved r \<and> ord_reserved r \<le> ord_reserved ord
    \<and> (if ord_side r = SELL \<or> is_terminal (ord_state r) \<or> ord_filled r = ord_qty r
       then ord_reserved r = 0
       else \<bar>ord_reserved r * int (ord_qty r - ord_filled ord)
              - ord_reserved ord * int (ord_qty r - ord_filled r)\<bar> \<le> int (ord_qty r - ord_filled ord)
         \<and> (ord_filled r = ord_filled ord \<longrightarrow> ord_reserved r = ord_reserved ord))"
proof -
  have wf: "order_wf r" "ord_reserved r \<le> ord_reserved ord"
    using transition_row_wf[OF assms(1,5,2,3,4)] by auto
  have "\<bar>ord_reserved r * int (ord_qty r - ord_filled ord)
              - ord_reserved ord * int (ord_qty r - ord_filled r)\<bar> \<le> int (ord_qty r - ord_filled ord)"
    if "\<not> is_terminal (ord_state r)"
    using assms(5,2)
  proof (cases rule: apply_transition_cases)
    case (audit p)
    then show ?thesis by simp
  next
    case (moved steps es st n m)
    then show ?thesis
      using next_reservation_bounds(6)[OF assms(1) moved(6) assms(3,4)] filled_after_ge[of ord ev] that
      by simp
  qed simp
  moreover have "ord_reserved r = ord_reserved ord"
    if "\<not> is_terminal (ord_state r)" "ord_filled r = ord_filled ord"
    using assms(5,2)
  proof (cases rule: apply_transition_cases)
    case (moved steps es st n m)
    then show ?thesis
      using next_reservation_bounds(7)[OF assms(1) moved(6) assms(3,4)] filled_after_ge[of ord ev] that
      by simp
  qed simp_all
  moreover have "ord_reserved r = 0"
    if "ord_side r = SELL \<or> is_terminal (ord_state r) \<or> ord_filled r = ord_qty r"
    using that wf(1) unfolding order_wf_def by blast
  moreover have "0 \<le> ord_reserved r" using wf(1) unfolding order_wf_def by blast
  ultimately show ?thesis using wf(2) by presburger
qed

theorem reservation_released_pro_rata_witness:
  "0 \<le> ord_reserved demo_filled_order \<and> ord_reserved demo_filled_order \<le> ord_reserved demo_order
   \<and> \<bar>ord_reserved demo_filled_order * 4 - ord_reserved demo_order * 3\<bar> \<le> 4"
  using reservation_released_pro_rata[OF js.decimal_arith_axioms _ demo_order_wf(1,2) demo_transition]
    demo_order_wf(3) by (simp add: is_terminal_def terminal_states_def)


section \<open>The cancel intent\<close>

lemma orders_ok_patch:
  assumes "orders_ok rs" "r \<in> set rs" "ord_id r = i"
    and "order_check (apply_patch p now r)" "pt_broker p = ord_broker r \<or> ord_broker_id r = None"
      "pt_broker_id p = None"
  shows "orders_ok (modify (\<lambda>x. ord_id x = i) (apply_patch p now) rs)"
proof -
  let ?f = "apply_patch p now"
  have uniq: "x = r" if "x \<in> set rs" "ord_id x = i" for x
    using assms(1-3) that by (auto simp: orders_ok_def distinct_map dest: inj_onD)
  have key: "List.map_filter h (modify (\<lambda>x. ord_id x = i) ?f rs) = List.map_filter h rs"
    if "h (?f r) = h r" for h :: "order \<Rightarrow> (broker_kind \<times> string) option"
  proof -
    have "modify (\<lambda>x. ord_id x = i) ?f rs = map (\<lambda>x. if x = r then ?f r else x) rs"
      unfolding modify_def by (rule map_cong[OF refl]) (metis uniq assms(3))
    moreover have "List.map_filter h (map (\<lambda>x. if x = r then ?f r else x) xs) = List.map_filter h xs" for xs
      using that by (induction xs) (auto split: option.split)
    ultimately show ?thesis by simp
  qed
  have "list_all order_check (modify (\<lambda>x. ord_id x = i) ?f rs)"
    using assms(1,4) uniq by (auto simp: orders_ok_def list_all_iff set_modify)
  moreover have "broker_order_key (?f r) = broker_order_key r"
    using assms(5,6) by (auto simp: broker_order_key_def apply_patch_def or_else_def split: option.split)
  ultimately show ?thesis
    using assms(1) key[of broker_order_key] by (simp add: orders_ok_def unique_index_def map_modify)
qed

text \<open>A local event (no external identifier) with the order's own broker, or for an order without a
  venue id, is always accepted.\<close>

lemma local_event_accepted:
  assumes "decimal_arith D" "schema_ok d" "orders_wf d" "get_order d (ord_id r) = Some r"
    and "te_external ev = None" "te_broker ev = ord_broker r \<or> ord_broker_id r = None"
      "te_broker_order ev = None"
      "te_fill_qty ev = None"
    and "plan_transitions (ord_state r) (te_type ev) = Inr [sp]" "\<not> step_inferred sp"
      "step_to sp \<noteq> FILLED"
  obtains r' d' where "apply_transition D r ev d = Inr (Some r', d')" "ord_state r' = step_to sp"
    "ord_filled r' = ord_filled r" "ord_reserved r' = (if is_terminal (step_to sp) then 0 else ord_reserved r)"
    "get_order d' (ord_id r) = Some r'"
proof -
  have r: "r \<in> set (orders d)" using assms(4) by (auto dest: get_order_Some)
  with assms(2,3) have wf: "order_wf r" "order_check r"
    by (auto simp: orders_wf_def list_all_iff dest: order_row_check)
  then have le: "ord_filled r \<le> ord_qty r" by (simp add: order_check_def)
  let ?st = "step_to sp"
  obtain m where m: "next_reservation D r ?st (ord_filled r) = Inr m"
    using next_reservation_total[OF le] by blast
  have same: "m = (if is_terminal ?st then 0 else ord_reserved r)"
    using next_reservation_bounds(4,7)[OF assms(1) m wf] by auto
  let ?row = "event_row r ev [sp]"
  let ?d1 = "d\<lparr>order_events := order_events d @ [?row]\<rparr>"
  let ?p = "transition_patch ev ?st (ord_filled r) m"
  have key: "event_key ?row = None" using assms(5) by (simp add: event_key_def event_row_def split: option.split)
  have "has_order d (ord_id r)" using r by (simp add: has_order_def)
  with key assms(2) have ins: "insert_event ?row d = Inr (True, ?d1)"
    by (simp add: insert_event_Inr schema_ok_def order_events_ok_def unique_index_append)
       (simp add: event_row_def)
  have "orders_ok (modify (\<lambda>x. ord_id x = ord_id r) (apply_patch ?p (db_now d)) (orders d))"
  proof (rule orders_ok_patch[OF _ r refl])
    show "order_check (apply_patch ?p (db_now d) r)"
      using wf same by (simp add: order_check_def bigint_def numeric_18_2_def)
    show "pt_broker ?p = ord_broker r \<or> ord_broker_id r = None" "pt_broker_id ?p = None"
      using assms(6,7) by (simp_all add: transition_patch_def truthy_def)
  qed (use assms(2) in \<open>simp add: schema_ok_def\<close>)
  then have upd: "update_order (ord_id r) ?p ?d1 = Inr (patched ?p (ord_id r) ?d1)"
    by (simp add: update_order_patched)
  have get: "get_order ?d1 (ord_id r) = Some r" using assms(4) by simp
  from assms(11) upd m le assms(8,10) must_get_patched[OF get] have
    "move_order D r ev [sp] ?d1 = Inr (Some (apply_patch ?p (db_now d) r), patched ?p (ord_id r) ?d1)"
    by (simp add: move_order_def filled_after_def Let_def)
  moreover have "plan_event (ord_state r) (te_type ev) = Inr ([sp], False)"
    using assms(9) by (auto simp: plan_event_def plan_transitions_def)
  ultimately have "apply_transition D r ev d
      = Inr (Some (apply_patch ?p (db_now d) r), patched ?p (ord_id r) ?d1)"
    using ins assms(5) by (simp add: apply_transition_def event_seen_def truthy_def)
  then show thesis using get same that by simp
qed

text \<open>
  The local cancel intent, on every order of a well-formed database. An unknown order is
  NOT_FOUND; one that is closed or already cancelling is returned unchanged; one still being
  submitted is refused; every other open order becomes CANCEL_PENDING, keeping its fills and its
  reservation to the cent, and asking again then changes nothing.
\<close>

theorem cancel_intent_outcomes:
  assumes "decimal_arith D" "schema_ok d" "orders_wf d"
  shows "case get_order d i of
      None \<Rightarrow> request_cancel D i t d = Inl (AppError NOT_FOUND None)
    | Some r \<Rightarrow>
        if is_terminal (ord_state r) \<or> ord_state r = CANCEL_PENDING
        then request_cancel D i t d = Inr (r, d)
        else if ord_state r = PENDING_SUBMISSION
        then request_cancel D i t d = Inl (AppError DOMAIN_RULE (Some ORDER_NOT_CANCELLABLE))
        else \<exists>r' d'. request_cancel D i t d = Inr (r', d') \<and> ord_state r' = CANCEL_PENDING
          \<and> ord_filled r' = ord_filled r \<and> ord_reserved r' = ord_reserved r
          \<and> request_cancel D i t' d' = Inr (r', d')"
proof (cases "get_order d i")
  case None
  then show ?thesis by (simp add: request_cancel_def)
next
  case (Some r)
  have id: "ord_id r = i" using Some by (auto dest: get_order_Some)
  consider (closed) "is_terminal (ord_state r) \<or> ord_state r = CANCEL_PENDING"
    | (pending) "ord_state r = PENDING_SUBMISSION"
    | (working) "ord_state r \<in> {ACKNOWLEDGED, ACCEPTED, PARTIALLY_FILLED}"
    by (cases "ord_state r") (auto simp: is_terminal_def terminal_states_def)
  then show ?thesis
  proof cases
    case closed
    with Some show ?thesis by (simp add: request_cancel_def)
  next
    case pending
    with Some show ?thesis
      by (simp add: request_cancel_def is_terminal_def terminal_states_def)
  next
    case working
    let ?ev = "\<lparr>te_type = ORDER_CANCEL_PENDING, te_source = Src_local, te_broker = ord_broker r,
               te_broker_order = None, te_external = None, te_occurred = t, te_reason = None,
               te_fill_qty = None, te_reject = None\<rparr>"
    let ?sp = "\<lparr>step_from = ord_state r, step_to = CANCEL_PENDING, step_inferred = False\<rparr>"
    have plan: "plan_transitions (ord_state r) (te_type ?ev) = Inr [?sp]"
      using working by (auto simp: plan_transitions_def is_fill_event_def)
    obtain r' d' where t: "apply_transition D r ?ev d = Inr (Some r', d')" "ord_state r' = CANCEL_PENDING"
      "ord_filled r' = ord_filled r" "ord_reserved r' = ord_reserved r" "get_order d' i = Some r'"
      using local_event_accepted[OF assms, of r ?ev ?sp] Some plan id
      by (auto simp: is_terminal_def terminal_states_def)
    from working have "\<not> (is_terminal (ord_state r) \<or> ord_state r = CANCEL_PENDING)"
      "ord_state r \<noteq> PENDING_SUBMISSION" by (auto simp: is_terminal_def terminal_states_def)
    with Some t show ?thesis by (simp add: request_cancel_def)
  qed
qed

theorem cancel_intent_outcomes_witness:
  "\<exists>r' d'. request_cancel js_decimal 3 7 demo_moved = Inr (r', d') \<and> ord_state r' = CANCEL_PENDING
     \<and> ord_filled r' = 1 \<and> ord_reserved r' = 60000 \<and> request_cancel js_decimal 3 9 d' = Inr (r', d')"
proof -
  have get: "get_order demo_placed (ord_id demo_order) = Some demo_order" using demo_order_wf(3) by simp
  have ok: "schema_ok demo_moved" by (rule schema_apply_transition[OF demo_transition demo_placed_ok(1)])
  have wf: "orders_wf demo_moved"
    by (rule orders_wf_apply_transition[OF js.decimal_arith_axioms demo_transition get demo_placed_ok(1,2)])
  have "get_order demo_moved 3 = Some demo_filled_order" by (simp add: get_order_def demo_moved_def)
  with cancel_intent_outcomes[OF js.decimal_arith_axioms ok wf, of 3 7 9] show ?thesis
    by (simp add: is_terminal_def terminal_states_def)
qed

end
