(* ===== verification/Market_Data.thy ===== *)
theory Market_Data
  imports Money
begin

text \<open>
  \<^verbatim>\<open>src/core/market-data\<close>: quotes, their freshness and the day change. The provider itself is
  external; a quote is what it returned. The clock parts of \<open>Intl.DateTimeFormat\<close> in New York
  (weekday, hour, minute) are an argument of \<open>market_status_at\<close>.
\<close>

datatype market_status = Market_open | Market_closed | Market_pre | Market_post

record quote =
  qt_symbol :: string
  qt_bid :: "px option"
  qt_ask :: "px option"
  qt_last :: px
  qt_ts :: time
  qt_previous_close :: "px option"

record candle =
  cd_time :: time
  cd_open :: string
  cd_high :: string
  cd_low :: string
  cd_close :: string

datatype candle_range = R1D | R1W | R1M | R3M | R1Y | R5Y

section \<open>Freshness\<close>

datatype display_freshness = Live | Aging | Stale_quote | At_close

definition display_aging_ms :: int where "display_aging_ms = 30000"
definition display_stale_ms :: int where "display_stale_ms = 120000"
definition execution_max_quote_age_ms :: int where "execution_max_quote_age_ms = 10000"

definition quote_age_ms :: "quote \<Rightarrow> time \<Rightarrow> int" where
  "quote_age_ms q now = max 0 (now - qt_ts q)"

definition display_freshness :: "quote \<Rightarrow> time \<Rightarrow> market_status \<Rightarrow> display_freshness" where
  "display_freshness q now st =
     (if st = Market_closed then At_close
      else let age = quote_age_ms q now
        in if age \<le> display_aging_ms then Live
           else if age \<le> display_stale_ms then Aging
           else Stale_quote)"

definition is_fresh_enough :: "quote \<Rightarrow> time \<Rightarrow> int \<Rightarrow> bool" where
  "is_fresh_enough q now max_age \<longleftrightarrow> quote_age_ms q now \<le> max_age"

text \<open>\<open>marketStatusAt\<close> on the formatted parts of the instant: the weekday, the hour and the minute.\<close>

definition market_status_at :: "string \<Rightarrow> int \<Rightarrow> int \<Rightarrow> market_status" where
  "market_status_at weekday hour minute =
     (if weekday = ''Sat'' \<or> weekday = ''Sun'' then Market_closed
      else let minutes = hour * 60 + minute
        in if minutes \<ge> 4 * 60 \<and> minutes < 9 * 60 + 30 then Market_pre
           else if minutes \<ge> 9 * 60 + 30 \<and> minutes < 16 * 60 then Market_open
           else if minutes \<ge> 16 * 60 \<and> minutes < 20 * 60 then Market_post
           else Market_closed)"

section \<open>The day change\<close>

definition day_change :: "decimal_lib \<Rightarrow> quote \<Rightarrow> (money \<times> int) option" where
  "day_change D q =
     (case qt_previous_close q of None \<Rightarrow> None
      | Some p \<Rightarrow> Some (price_delta D p (qt_last q)))"

section \<open>Properties\<close>

text \<open>How old a displayed quote may be, as a rank: it never gets fresher as time goes by.\<close>

fun staleness :: "display_freshness \<Rightarrow> nat" where
  "staleness Live = 0"
| "staleness Aging = 1"
| "staleness Stale_quote = 2"
| "staleness At_close = 0"

text \<open>
  Freshness is consistent. A quote young enough for the deterministic broker to execute on is
  displayed as live while the market is not closed; with time passing a quote only becomes staler,
  for the display and for execution; and a quote stamped in the future counts as new.
\<close>

theorem freshness_consistent:
  assumes "now \<le> later" "st \<noteq> Market_closed"
  shows "staleness (display_freshness q now st) \<le> staleness (display_freshness q later st)
    \<and> (is_fresh_enough q later age \<longrightarrow> is_fresh_enough q now age)
    \<and> (is_fresh_enough q now execution_max_quote_age_ms \<longrightarrow> display_freshness q now st = Live)
    \<and> (now \<le> qt_ts q \<longrightarrow> quote_age_ms q now = 0)"
  using assms
  by (auto simp: display_freshness_def is_fresh_enough_def quote_age_ms_def display_aging_ms_def
      display_stale_ms_def execution_max_quote_age_ms_def Let_def)

definition demo_quote :: quote where
  "demo_quote = \<lparr>qt_symbol = ''AAPL'', qt_bid = Some 1999000, qt_ask = Some 2001000,
     qt_last = 2000000, qt_ts = 1000, qt_previous_close = Some 1900000\<rparr>"

theorem freshness_consistent_witness:
  "staleness (display_freshness demo_quote 9000 Market_open)
     \<le> staleness (display_freshness demo_quote 99000 Market_open)
   \<and> display_freshness demo_quote 9000 Market_open = Live"
  using freshness_consistent[of 9000 99000 Market_open demo_quote]
  by (simp add: demo_quote_def is_fresh_enough_def quote_age_ms_def execution_max_quote_age_ms_def)

end
