(* ===== verification/Portfolio.thy ===== *)
theory Portfolio
  imports Orders_Correct Market_Data
begin

text \<open>
  \<^verbatim>\<open>src/core/portfolio/positions.ts\<close> and \<^verbatim>\<open>src/core/portfolio/portfolio.ts\<close>: average-cost
  bookkeeping of positions, the realized profit and loss derived by replaying the fills, and the
  portfolio view.
\<close>

section \<open>Positions\<close>

definition apply_buy_fill ::
    "position option \<Rightarrow> uuid \<Rightarrow> uuid \<Rightarrow> string \<Rightarrow> qty \<Rightarrow> money \<Rightarrow> money \<Rightarrow> position result" where
  "apply_buy_fill current account ins symbol fill_qty amount fee =
     (let q = (case current of None \<Rightarrow> 0 | Some p \<Rightarrow> pos_qty p) + fill_qty;
          b = (case current of None \<Rightarrow> 0 | Some p \<Rightarrow> pos_basis p)
      in ebind (basis_add_money b amount) (\<lambda>b1.
         ebind (basis_add_money b1 fee) (\<lambda>b2.
           Inr \<lparr>pos_account = account, pos_instrument = ins, pos_symbol = symbol, pos_qty = q,
                pos_basis = b2\<rparr>)))"

record sell_application =
  sa_position :: position
  sa_allocated :: money
  sa_realized :: money

definition apply_sell_fill ::
    "decimal_lib \<Rightarrow> position option \<Rightarrow> qty \<Rightarrow> money \<Rightarrow> money \<Rightarrow> sell_application result" where
  "apply_sell_fill D current fill_qty proceeds fee =
     ebind (of_option (InvariantViolation ''sell fill against a non-existent position'') current) (\<lambda>p.
     ebind (invariant (pos_qty p \<ge> fill_qty) ''sell fill exceeds held quantity'') (\<lambda>_.
     ebind (basis_allocate D (pos_basis p) fill_qty (pos_qty p)) (\<lambda>(allocated, remaining).
     ebind (qty_subtract (pos_qty p) fill_qty) (\<lambda>q.
       Inr \<lparr>sa_position = p\<lparr>pos_qty := q, pos_basis := remaining\<rparr>, sa_allocated = allocated,
            sa_realized = proceeds - fee - allocated\<rparr>))))"

section \<open>The replay of fills\<close>

record replay_fill =
  rf_instrument :: uuid
  rf_symbol :: string
  rf_side :: order_side
  rf_qty :: qty
  rf_notional :: money
  rf_fee :: money
  rf_occurred :: time

definition list_fills_chronological :: "db \<Rightarrow> uuid \<Rightarrow> replay_fill list" where
  "list_fills_chronological d i =
     List.map_filter (\<lambda>f. case get_order d (fl_order f) of
         Some r \<Rightarrow> if ord_account r = i
           then Some \<lparr>rf_instrument = ord_instrument r, rf_symbol = ord_symbol r, rf_side = ord_side r,
                 rf_qty = fl_qty f, rf_notional = fl_notional f, rf_fee = fl_fee f,
                 rf_occurred = fl_occurred f\<rparr>
           else None
       | None \<Rightarrow> None)
       (sort_key (\<lambda>f. (fl_occurred f, fl_created f)) (fills d))"

text \<open>\<open>book\<close> is the map of the replay; an instrument without an entry counts as nothing held.\<close>

type_synonym book = "uuid \<rightharpoonup> qty \<times> basis"

definition book_entry :: "book \<Rightarrow> uuid \<Rightarrow> qty \<times> basis" where
  "book_entry bk i = (case bk i of None \<Rightarrow> (0, 0) | Some e \<Rightarrow> e)"

definition replay_step :: "decimal_lib \<Rightarrow> replay_fill \<Rightarrow> book \<times> money \<Rightarrow> (book \<times> money) result" where
  "replay_step D f = (\<lambda>(bk, realized).
     let (q, b) = book_entry bk (rf_instrument f)
     in if rf_side f = BUY then
          ebind (basis_add_money b (rf_notional f)) (\<lambda>b1.
          ebind (basis_add_money b1 (rf_fee f)) (\<lambda>b2.
            Inr (bk(rf_instrument f \<mapsto> (q + rf_qty f, b2)), realized)))
        else
          ebind (invariant (q \<ge> rf_qty f) ''replay: sell exceeds held quantity'') (\<lambda>_.
          ebind (basis_allocate D b (rf_qty f) q) (\<lambda>(allocated, remaining).
          ebind (qty_subtract q (rf_qty f)) (\<lambda>q'.
            Inr (bk(rf_instrument f \<mapsto> (q', remaining)),
                 realized + (rf_notional f - rf_fee f - allocated))))))"

fun replay :: "decimal_lib \<Rightarrow> replay_fill list \<Rightarrow> book \<times> money \<Rightarrow> (book \<times> money) result" where
  "replay D [] s = Inr s"
| "replay D (f # fs) s = ebind (replay_step D f s) (replay D fs)"

definition realized_pnl_of :: "decimal_lib \<Rightarrow> replay_fill list \<Rightarrow> money result" where
  "realized_pnl_of D fs = ebind (replay D fs (Map.empty, 0)) (\<lambda>(_, realized). Inr realized)"

definition realized_pnl :: "decimal_lib \<Rightarrow> db \<Rightarrow> uuid \<Rightarrow> money result" where
  "realized_pnl D d i = realized_pnl_of D (list_fills_chronological d i)"

section \<open>The portfolio view\<close>

record position_view =
  pv_symbol :: string
  pv_qty :: string
  pv_sellable :: string
  pv_avg_cost :: string
  pv_last_price :: string
  pv_market_value :: string
  pv_unrealized :: string
  pv_quote_ts :: "time option"

record portfolio_view =
  vw_positions :: "position_view list"
  vw_equity :: string
  vw_cash :: string
  vw_buying_power :: string
  vw_positions_value :: string
  vw_realized :: string
  vw_as_of :: time

definition round_basis :: "decimal_lib \<Rightarrow> position \<Rightarrow> money result" where
  "round_basis D p = ebind (basis_allocate D (pos_basis p) (pos_qty p) (pos_qty p)) (\<lambda>(a, _). Inr a)"

definition view_position ::
    "decimal_lib \<Rightarrow> (string \<rightharpoonup> quote) \<Rightarrow> (uuid \<rightharpoonup> qty) \<Rightarrow> position \<Rightarrow> (position_view \<times> money option) result" where
  "view_position D quotes open_sells p =
     (let qt = quotes (pos_symbol p);
          last_px = map_option qt_last qt;
          value = map_option (\<lambda>l. notional D l (pos_qty p)) last_px
      in ebind (round_basis D p) (\<lambda>basis_rounded.
         ebind (qty_subtract (pos_qty p)
                  (case open_sells (pos_instrument p) of None \<Rightarrow> 0 | Some q \<Rightarrow> q)) (\<lambda>sellable.
         ebind (basis_avg_px D (pos_basis p) (pos_qty p)) (\<lambda>avg.
           Inr (\<lparr>pv_symbol = pos_symbol p, pv_qty = qty_to_string (pos_qty p),
                 pv_sellable = qty_to_string sellable, pv_avg_cost = px_to_string avg,
                 pv_last_price = case_option '''' px_to_string last_px,
                 pv_market_value = case_option '''' money_to_string value,
                 pv_unrealized = case_option '''' (\<lambda>v. money_to_string (v - basis_rounded)) value,
                 pv_quote_ts = map_option qt_ts qt\<rparr>, value)))))"

fun view_positions ::
    "decimal_lib \<Rightarrow> (string \<rightharpoonup> quote) \<Rightarrow> (uuid \<rightharpoonup> qty) \<Rightarrow> position list \<Rightarrow> money
      \<Rightarrow> (position_view list \<times> money) result" where
  "view_positions D quotes open_sells [] acc = Inr ([], acc)"
| "view_positions D quotes open_sells (p # ps) acc =
     ebind (view_position D quotes open_sells p) (\<lambda>(v, value).
     ebind (view_positions D quotes open_sells ps (acc + case_option 0 id value)) (\<lambda>(vs, tot).
       Inr (v # vs, tot)))"

text \<open>\<open>get_quotes\<close> is the provider's answer for a list of symbols, which may be an error.\<close>

definition portfolio_view ::
    "decimal_lib \<Rightarrow> (string list \<Rightarrow> (string \<rightharpoonup> quote) result) \<Rightarrow> uuid \<Rightarrow> money \<Rightarrow> time \<Rightarrow> db \<Rightarrow> portfolio_view result"
  where
  "portfolio_view D get_quotes i cash now d =
     (let held = filter (\<lambda>p. pos_qty p > 0) (list_positions d i);
          symbols = map pos_symbol held
      in ebind (if symbols = [] then Inr Map.empty else get_quotes symbols) (\<lambda>quotes.
         let open_sells = (if held = [] then Map.empty else sum_open_sell_by_instrument d i)
         in
         ebind (view_positions D quotes open_sells held 0) (\<lambda>(vs, positions_value).
         let reserved = sum_open_buy_reservations d i;
             held_for_withdrawals = sum_pending d i WITHDRAWAL
         in
         ebind (realized_pnl D d i) (\<lambda>realized.
           Inr \<lparr>vw_positions = vs, vw_equity = money_to_string (cash + positions_value),
                vw_cash = money_to_string cash,
                vw_buying_power = money_to_string (cash - reserved - held_for_withdrawals),
                vw_positions_value = money_to_string positions_value,
                vw_realized = money_to_string realized, vw_as_of = now\<rparr>))))"


section \<open>Allocation keeps whole cents\<close>

context decimal_arith
begin

text \<open>
  A basis of whole cents is split without loss, whichever branch of \<open>allocate\<close> is taken, and what
  remains is whole cents again.
\<close>

lemma allocate_splits:
  assumes "basis_allocate D b sold tot = Inr (a, r)" "100 dvd b"
  shows "b = 100 * a + r \<and> 100 dvd r"
proof -
  from assms(2) obtain c where c: "b = 100 * c" by (elim dvdE)
  have "dec_dp D 2 (px_rat b) = c" by (rule dp_exact) (simp add: c)
  with assms(1) have "b = 100 * a + r"
    by (auto simp: basis_allocate_def result_simps Let_def c split: if_splits)
  then have "r = 100 * (c - a)" by (simp add: c algebra_simps)
  then have "100 dvd r" by (rule dvdI)
  with \<open>b = 100 * a + r\<close> show ?thesis by blast
qed

end

text \<open>Cost basis held over all instruments, and the cash the fills moved.\<close>

definition basis_held :: "book \<Rightarrow> int" where
  "basis_held bk = (\<Sum>i \<in> dom bk. snd (book_entry bk i))"

definition fill_cash :: "replay_fill \<Rightarrow> money" where
  "fill_cash f = (if rf_side f = BUY then - (rf_notional f + rf_fee f) else rf_notional f - rf_fee f)"

definition whole_cents :: "book \<Rightarrow> bool" where
  "whole_cents bk \<longleftrightarrow> finite (dom bk) \<and> (\<forall>i. 100 dvd snd (book_entry bk i))"

lemma book_entry_upd [simp]:
  "book_entry (bk(i \<mapsto> e)) j = (if j = i then e else book_entry bk j)"
  by (simp add: book_entry_def)

lemma basis_held_upd:
  assumes "finite (dom bk)"
  shows "basis_held (bk(i \<mapsto> (q, b))) = basis_held bk - snd (book_entry bk i) + b"
proof -
  have rest: "(\<Sum>j \<in> dom bk - {i}. snd (book_entry (bk(i \<mapsto> (q, b))) j))
      = (\<Sum>j \<in> dom bk - {i}. snd (book_entry bk j))"
    by (rule sum.cong) auto
  have "basis_held (bk(i \<mapsto> (q, b))) = b + (\<Sum>j \<in> dom bk - {i}. snd (book_entry bk j))"
    using sum.insert_remove[OF assms, of "\<lambda>j. snd (book_entry (bk(i \<mapsto> (q, b))) j)" i] rest
    by (simp add: basis_held_def)
  moreover have "basis_held bk = snd (book_entry bk i) + (\<Sum>j \<in> dom bk - {i}. snd (book_entry bk j))"
  proof (cases "i \<in> dom bk")
    case True
    with assms show ?thesis by (simp add: basis_held_def sum.remove)
  next
    case False
    then have "bk i = None" by (cases "bk i") auto
    with False show ?thesis by (simp add: basis_held_def book_entry_def)
  qed
  ultimately show ?thesis by simp
qed

lemma replay_step_identity:
  assumes "decimal_arith D" "replay_step D f (bk, r) = Inr (bk', r')" "whole_cents bk"
  shows "whole_cents bk' \<and> 100 * r' - basis_held bk' = 100 * r - basis_held bk + 100 * fill_cash f"
proof -
  obtain q b where e: "book_entry bk (rf_instrument f) = (q, b)" by (cases "book_entry bk (rf_instrument f)")
  have b: "100 dvd b" using assms(3) e by (metis snd_conv whole_cents_def)
  have fin: "finite (dom bk)" using assms(3) by (simp add: whole_cents_def)
  show ?thesis
  proof (cases "rf_side f")
    case BUY
    with assms(2) e have bk': "bk' = bk(rf_instrument f \<mapsto>
        (q + rf_qty f, b + 100 * (rf_notional f + rf_fee f)))" and "r' = r"
      by (auto simp: replay_step_def result_simps algebra_simps)
    then show ?thesis
      using assms(3) b e BUY by (simp add: basis_held_upd[OF fin] fill_cash_def whole_cents_def)
  next
    case SELL
    with assms(2) e obtain a rest q' where al: "basis_allocate D b (rf_qty f) q = Inr (a, rest)"
      and bk': "bk' = bk(rf_instrument f \<mapsto> (q', rest))" and r': "r' = r + (rf_notional f - rf_fee f - a)"
      by (auto simp: replay_step_def result_simps)
    from decimal_arith.allocate_splits[OF assms(1) al b] have "b = 100 * a + rest" "100 dvd rest" by auto
    then show ?thesis
      using assms(3) e SELL unfolding bk' r'
      by (simp add: basis_held_upd[OF fin] fill_cash_def whole_cents_def)
  qed
qed

lemma replay_identity:
  assumes "decimal_arith D" "replay D fs (bk, r) = Inr (bk', r')" "whole_cents bk"
  shows "100 * r' - basis_held bk' = 100 * r - basis_held bk + 100 * sum_list (map fill_cash fs)"
  using assms(2,3)
proof (induction fs arbitrary: bk r)
  case Nil
  then show ?case by simp
next
  case (Cons f fs)
  then obtain bk1 r1 where step: "replay_step D f (bk, r) = Inr (bk1, r1)"
    and rest: "replay D fs (bk1, r1) = Inr (bk', r')"
    by (auto simp: result_simps)
  from replay_step_identity[OF assms(1) step Cons.prems(2)] Cons.IH[OF rest] show ?case
    by simp
qed

section \<open>The replay is the positions' bookkeeping\<close>

text \<open>One instrument's fills applied to its position, as the execution service applies them.\<close>

definition settle_fill :: "decimal_lib \<Rightarrow> uuid \<Rightarrow> replay_fill \<Rightarrow> position option \<times> money
    \<Rightarrow> (position option \<times> money) result" where
  "settle_fill D account f = (\<lambda>(p, pnl).
     if rf_side f = BUY then
       ebind (apply_buy_fill p account (rf_instrument f) (rf_symbol f) (rf_qty f) (rf_notional f) (rf_fee f))
         (\<lambda>p'. Inr (Some p', pnl))
     else
       ebind (apply_sell_fill D p (rf_qty f) (rf_notional f) (rf_fee f))
         (\<lambda>s. Inr (Some (sa_position s), pnl + sa_realized s)))"

fun settle_fills :: "decimal_lib \<Rightarrow> uuid \<Rightarrow> replay_fill list \<Rightarrow> position option \<times> money
    \<Rightarrow> (position option \<times> money) result" where
  "settle_fills D account [] s = Inr s"
| "settle_fills D account (f # fs) s = ebind (settle_fill D account f s) (settle_fills D account fs)"

definition held_entry :: "position option \<Rightarrow> qty \<times> basis" where
  "held_entry p = (case p of None \<Rightarrow> (0, 0) | Some x \<Rightarrow> (pos_qty x, pos_basis x))"

lemma settle_simulates_replay:
  assumes "settle_fill D account f (p, r) = Inr (p', r')" "held_entry p = book_entry bk (rf_instrument f)"
  shows "\<exists>bk'. replay_step D f (bk, r) = Inr (bk', r') \<and> held_entry p' = book_entry bk' (rf_instrument f)"
proof (cases "rf_side f")
  case BUY
  with assms show ?thesis
    by (cases p) (auto simp: settle_fill_def apply_buy_fill_def replay_step_def held_entry_def
        result_simps split: prod.split)
next
  case SELL
  with assms show ?thesis
    by (cases p) (auto simp: settle_fill_def apply_sell_fill_def replay_step_def held_entry_def
        result_simps split: prod.split)
qed

lemma settle_all_simulates_replay:
  assumes "settle_fills D account fs (p, r) = Inr (p', r')" "held_entry p = book_entry bk ins"
    "\<forall>f \<in> set fs. rf_instrument f = ins"
  shows "\<exists>bk'. replay D fs (bk, r) = Inr (bk', r') \<and> held_entry p' = book_entry bk' ins"
  using assms
proof (induction fs arbitrary: p r bk)
  case Nil
  then show ?case by auto
next
  case (Cons f fs)
  then obtain p1 r1 where step: "settle_fill D account f (p, r) = Inr (p1, r1)"
    and rest: "settle_fills D account fs (p1, r1) = Inr (p', r')"
    by (auto simp: result_simps)
  have ins: "rf_instrument f = ins" using Cons.prems(3) by simp
  from settle_simulates_replay[OF step] Cons.prems(2) ins obtain bk1 where
    "replay_step D f (bk, r) = Inr (bk1, r1)" "held_entry p1 = book_entry bk1 ins" by auto
  with Cons.IH[OF rest] Cons.prems(3) show ?case by auto
qed

section \<open>Properties\<close>

text \<open>
  The profit and loss identity. Whenever the replay of a fill history succeeds, the realized
  profit and loss is exactly the net cash those fills moved (sell proceeds less buys and fees) plus
  the cost basis still held, over any number of instruments and partial sells: the average-cost
  rounding of \<open>allocate\<close> never creates or loses a cent.
\<close>

theorem pnl_identity:
  assumes "decimal_arith D" "replay D fs (Map.empty, 0) = Inr (bk, realized)"
  shows "realized_pnl_of D fs = Inr realized
    \<and> 100 * realized = 100 * sum_list (map fill_cash fs) + basis_held bk"
proof -
  have "whole_cents Map.empty" by (simp add: whole_cents_def book_entry_def)
  with replay_identity[OF assms] show ?thesis
    using assms(2) by (simp add: realized_pnl_of_def basis_held_def)
qed

definition demo_fills :: "replay_fill list" where
  "demo_fills =
    [\<lparr>rf_instrument = 1, rf_symbol = ''AAPL'', rf_side = BUY, rf_qty = 3, rf_notional = 1000, rf_fee = 1,
      rf_occurred = 0\<rparr>,
     \<lparr>rf_instrument = 1, rf_symbol = ''AAPL'', rf_side = SELL, rf_qty = 3, rf_notional = 1200, rf_fee = 1,
      rf_occurred = 1\<rparr>]"

lemma demo_replay:
  "replay js_decimal demo_fills (Map.empty, 0) = Inr ([1 \<mapsto> (0, 0)], 198)"
proof -
  have "dec_dp js_decimal 2 (px_rat 100100) = 1001" by (rule js.dp_exact) simp
  then show ?thesis
    by (simp add: demo_fills_def replay_step_def book_entry_def basis_add_money_def basis_allocate_def
        qty_subtract_def)
qed

theorem pnl_identity_witness:
  "realized_pnl_of js_decimal demo_fills = Inr 198 \<and> (198 :: money) = sum_list (map fill_cash demo_fills)"
  using pnl_identity[OF js.decimal_arith_axioms demo_replay]
  by (simp add: basis_held_def book_entry_def)

text \<open>
  C12: Derived and stored bookkeeping agree. Applying an instrument's fills one by one to its position
  (\<open>applyBuyFill\<close>, \<open>applySellFill\<close>, as the execution service does) and adding up the realized profit
  of each sell gives exactly what the replay derives from the same fills: the same quantity, the same
  cost basis and the same realized profit and loss.
\<close>

theorem replay_matches_positions:
  assumes "settle_fills D account fs (None, 0) = Inr (p, pnl)" "\<forall>f \<in> set fs. rf_instrument f = ins"
  shows "realized_pnl_of D fs = Inr pnl
    \<and> (\<exists>bk. replay D fs (Map.empty, 0) = Inr (bk, pnl) \<and> held_entry p = book_entry bk ins)"
proof -
  have "held_entry None = book_entry Map.empty ins" by (simp add: held_entry_def book_entry_def)
  from settle_all_simulates_replay[OF assms(1) this assms(2)] show ?thesis
    by (auto simp: realized_pnl_of_def)
qed

theorem replay_matches_positions_witness:
  "realized_pnl_of js_decimal demo_fills = Inr 198
    \<and> (\<exists>bk. replay js_decimal demo_fills (Map.empty, 0) = Inr (bk, 198)
        \<and> held_entry (Some \<lparr>pos_account = 0, pos_instrument = 1, pos_symbol = ''AAPL'', pos_qty = 0,
              pos_basis = 0\<rparr>) = book_entry bk 1)"
proof -
  have "dec_dp js_decimal 2 (px_rat 100100) = 1001" by (rule js.dp_exact) simp
  then have "settle_fills js_decimal 0 demo_fills (None, 0)
    = Inr (Some \<lparr>pos_account = 0, pos_instrument = 1, pos_symbol = ''AAPL'', pos_qty = 0, pos_basis = 0\<rparr>, 198)"
    by (simp add: demo_fills_def settle_fill_def apply_buy_fill_def apply_sell_fill_def basis_add_money_def
        basis_allocate_def qty_subtract_def)
  from replay_matches_positions[OF this, of 1] show ?thesis by (simp add: demo_fills_def)
qed


text \<open>What the view shows of each position.\<close>

lemma view_positions_rows:
  "view_positions D qs os ps acc = Inr (vs, t)
    \<Longrightarrow> list_all2 (\<lambda>p pv. \<exists>m. view_position D qs os p = Inr (pv, m)) ps vs"
proof (induction ps arbitrary: acc vs)
  case Nil
  then show ?case by simp
next
  case (Cons p ps)
  then obtain v m vs' where "view_position D qs os p = Inr (v, m)" "vs = v # vs'"
    "view_positions D qs os ps (acc + case_option 0 id m) = Inr (vs', t)"
    by (auto simp: result_simps)
  with Cons.IH show ?case by auto
qed

lemma view_position_sellable:
  assumes "view_position D qs os p = Inr (pv, m)"
  shows "pv_symbol pv = pos_symbol p \<and> (\<exists>s. qty_subtract (pos_qty p)
      (case os (pos_instrument p) of None \<Rightarrow> 0 | Some q \<Rightarrow> q) = Inr s \<and> pv_sellable pv = qty_to_string s)"
  using assms by (auto simp: view_position_def Let_def ebind_eq_Inr)

lemma position_qty_row:
  assumes "schema_ok d" "p \<in> set (positions d)"
  shows "position_qty d (pos_account p) (pos_instrument p) = pos_qty p"
proof -
  have "distinct (map (\<lambda>r. (pos_account r, pos_instrument r)) (positions d))"
    using assms(1) by (simp add: schema_ok_def positions_ok_def)
  from find_key_unique[OF this assms(2)] have "get_position d (pos_account p) (pos_instrument p) = Some p"
    by (simp add: get_position_def)
  then show ?thesis by (simp add: position_qty_def)
qed

lemma open_sell_lookup:
  assumes "schema_ok d"
  shows "sum_open_sell_remainders d i ins
    = Inr (case sum_open_sell_by_instrument d i ins of None \<Rightarrow> 0 | Some q \<Rightarrow> q)"
proof -
  let ?p = "\<lambda>r. ord_account r = i \<and> ord_instrument r = ins \<and> ord_side r = SELL
      \<and> ord_state r \<in> open_states"
  show ?thesis
  proof (cases "list_ex ?p (orders d)")
    case True
    then show ?thesis using sum_open_sell_Inr[OF assms, of i ins]
      by (simp add: sum_open_sell_by_instrument_def)
  next
    case False
    then have "total (\<lambda>r. int (ord_qty r) - int (ord_filled r)) ?p (orders d) = 0"
      by (intro total_none) (auto simp: list_ex_iff)
    with False show ?thesis using sum_open_sell_Inr[OF assms, of i ins]
      by (simp add: sum_open_sell_by_instrument_def)
  qed
qed

text \<open>
  The portfolio page and order placement compute the same figures. When the view of an account
  succeeds, its buying power is the one \<open>place\<close> checks a buy against, and each of its positions
  shows as sellable exactly the quantity that \<open>place\<close> would let be sold.
\<close>

theorem view_agrees_with_placement:
  assumes "schema_ok d" "get_account d i = Some a"
    and "portfolio_view D get_quotes i (acc_cash a) now d = Inr v"
  shows "vw_buying_power v = money_to_string (buying_power d a)
    \<and> list_all2 (\<lambda>p pv. pv_symbol pv = pos_symbol p
          \<and> (\<exists>s. sellable_qty d i (pos_instrument p) = Inr s \<and> pv_sellable pv = qty_to_string s))
        (filter (\<lambda>p. pos_qty p > 0) (list_positions d i)) (vw_positions v)"
proof -
  let ?held = "filter (\<lambda>p. pos_qty p > 0) (list_positions d i)"
  let ?os = "if ?held = [] then Map.empty else sum_open_sell_by_instrument d i"
  obtain quotes x where pos: "view_positions D quotes ?os ?held 0 = Inr x"
    and rest: "(case x of (vs, t) \<Rightarrow> ebind (realized_pnl D d i) (\<lambda>realized.
           Inr \<lparr>vw_positions = vs, vw_equity = money_to_string (acc_cash a + t),
                vw_cash = money_to_string (acc_cash a),
                vw_buying_power = money_to_string (acc_cash a - sum_open_buy_reservations d i
                  - sum_pending d i WITHDRAWAL),
                vw_positions_value = money_to_string t,
                vw_realized = money_to_string realized, vw_as_of = now\<rparr>)) = Inr v"
    using assms(3) unfolding portfolio_view_def Let_def ebind_eq_Inr by blast
  obtain vs0 t where x: "x = (vs0, t)" by (cases x)
  from rest have bp: "vw_buying_power v = money_to_string (acc_cash a - sum_open_buy_reservations d i
        - sum_pending d i WITHDRAWAL)" and "vs0 = vw_positions v"
    by (auto simp: x ebind_eq_Inr)
  with pos x have vs: "view_positions D quotes ?os ?held 0 = Inr (vw_positions v, t)" by simp
  have id: "acc_id a = i" using assms(2) by (auto dest: get_account_Some)
  have "pv_symbol pv = pos_symbol p
      \<and> (\<exists>s. sellable_qty d i (pos_instrument p) = Inr s \<and> pv_sellable pv = qty_to_string s)"
    if p: "p \<in> set ?held"
      and row: "view_position D quotes (if ?held = [] then Map.empty else sum_open_sell_by_instrument d i) p
        = Inr (pv, m)" for p pv m
  proof -
    have "?held \<noteq> []" using p by force
    have "p \<in> set (positions d)" and acc: "pos_account p = i"
      using p by (auto simp: list_positions_def)
    with position_qty_row[OF assms(1)] have q: "position_qty d i (pos_instrument p) = pos_qty p" by auto
    from view_position_sellable[OF row] \<open>?held \<noteq> []\<close> obtain s where
      "pv_symbol pv = pos_symbol p" "pv_sellable pv = qty_to_string s"
      and "qty_subtract (pos_qty p) (case sum_open_sell_by_instrument d i (pos_instrument p) of
              None \<Rightarrow> 0 | Some q \<Rightarrow> q) = Inr s"
      by auto
    then show ?thesis
      using open_sell_lookup[OF assms(1), of i "pos_instrument p"] q
      by (simp add: sellable_qty_def result_simps)
  qed
  with view_positions_rows[OF vs] have "list_all2 (\<lambda>p pv. pv_symbol pv = pos_symbol p
          \<and> (\<exists>s. sellable_qty d i (pos_instrument p) = Inr s \<and> pv_sellable pv = qty_to_string s))
        ?held (vw_positions v)"
    by (elim list.rel_mono_strong) blast
  with bp id show ?thesis by (simp add: buying_power_def)
qed

theorem view_agrees_with_placement_witness:
  "\<exists>v. portfolio_view js_decimal (\<lambda>_. Inr Map.empty) 0 100000 9 demo_placed = Inr v
     \<and> vw_buying_power v = money_to_string 20000"
proof -
  have get: "get_account demo_placed 0 = Some demo_account"
    by (simp add: get_account_def demo_placed_def demo_defs)
  have cash: "acc_cash demo_account = 100000" by (simp add: demo_account_def)
  obtain v where v: "portfolio_view js_decimal (\<lambda>_. Inr Map.empty) 0 100000 9 demo_placed = Inr v"
    by (simp add: portfolio_view_def list_positions_def demo_placed_def demo_defs realized_pnl_def
        realized_pnl_of_def list_fills_chronological_def)
  have "buying_power demo_placed demo_account = 20000"
    by (simp add: buying_power_def sum_open_buy_reservations_def sum_pending_def demo_placed_def
        demo_defs demo_order_def open_states_def)
  with view_agrees_with_placement[OF demo_placed_ok(1) get] v cash show ?thesis by auto
qed

context decimal_arith
begin

text \<open>An average of at most half a ten-thousandth is written as 0.0000, which is no price.\<close>

lemma tiny_average_fails:
  assumes "0 \<le> b" "b < 10 ^ 39" "2 * b \<le> int q" "0 < q"
  shows "basis_avg_px D b q = Inl (InvariantViolation ''Px must be positive'')"
proof -
  have q: "(0::rat) < of_nat q" using assms(4) by simp
  have two: "2 * of_int b \<le> (of_nat q :: rat)"
    using assms(3) by (metis of_int_le_iff of_int_mult of_int_numeral of_int_of_nat_eq)
  have "dec_dp D 4 (dec_div D (px_rat b) (of_nat q)) = half_even (px_rat b / of_nat q * 10 ^ 4)"
    by (rule dp_div_once[where d = "int q" and N = b]) (use assms q in simp_all)
  also have "px_rat b / of_nat q * 10 ^ 4 = of_int b / of_nat q" by simp
  also have "half_even (of_int b / of_nat q) = 0"
  proof (rule antisym)
    have "of_int b / of_nat q \<le> (1 / 2 :: rat)" using q two by (simp add: field_simps)
    moreover have "\<lfloor>1 / 2 :: rat\<rfloor> = 0" by linarith
    then have "half_even (1 / 2 :: rat) = 0" by (simp add: half_even_def Let_def)
    ultimately show "half_even (of_int b / of_nat q) \<le> 0" using half_even_mono by metis
  qed (use assms in \<open>simp add: half_even_nonneg\<close>)
  finally show ?thesis
    using assms(4) by (simp add: basis_avg_px_def px_from_string_def px_re_def decimal_re_fixed_text)
qed

end

lemma view_positions_fail:
  "view_position D quotes sells p = Inl e \<Longrightarrow> p \<in> set ps \<Longrightarrow> \<exists>e. view_positions D quotes sells ps acc = Inl e"
proof (induction ps arbitrary: acc)
  case (Cons x xs)
  show ?case
  proof (cases "view_position D quotes sells x")
    case (Inr y)
    then obtain v m where y: "view_position D quotes sells x = Inr (v, m)" by (cases y) simp
    with Cons(2,3) have "p \<in> set xs" by auto
    from Cons(1)[OF Cons(2) this, of "acc + case_option 0 id m"] y show ?thesis by auto
  qed simp
qed simp

text \<open>
  C15: A penny position makes the whole portfolio view fail. If an account holds a position whose
  cost basis is at most half a ten-thousandth per share, then its average cost prints as 0.0000, which
  \<open>Px.fromString\<close> refuses, and \<open>view\<close> throws for the whole account, whatever the other positions and
  quotes are.
\<close>

theorem penny_position_breaks_view:
  assumes "decimal_arith D" "p \<in> set (positions d)" "pos_account p = i" "0 < pos_qty p"
    and "0 \<le> pos_basis p" "pos_basis p < 10 ^ 39" "2 * pos_basis p \<le> int (pos_qty p)"
  shows "\<exists>e. portfolio_view D get_quotes i cash now d = Inl e"
proof -
  have avg: "basis_avg_px D (pos_basis p) (pos_qty p) = Inl (InvariantViolation ''Px must be positive'')"
    by (rule decimal_arith.tiny_average_fails[OF assms(1)]) (use assms(4-7) in simp_all)
  have one: "\<exists>e. view_position D quotes sells p = Inl e" for quotes sells
    by (cases "round_basis D p"; cases "qty_subtract (pos_qty p) (case sells (pos_instrument p) of None \<Rightarrow> 0 | Some q \<Rightarrow> q)")
      (simp_all add: view_position_def avg Let_def)
  have held: "p \<in> set (filter (\<lambda>p. pos_qty p > 0) (list_positions d i))"
    using assms(2-4) by (simp add: list_positions_def)
  have "\<exists>e. view_positions D quotes sells (filter (\<lambda>p. pos_qty p > 0) (list_positions d i)) 0 = Inl e" for quotes sells
    using one view_positions_fail[OF _ held] by meson
  note fails = this
  let ?held = "filter (\<lambda>p. pos_qty p > 0) (list_positions d i)"
  show ?thesis
  proof (cases "if map pos_symbol ?held = [] then Inr Map.empty else get_quotes (map pos_symbol ?held)")
    case (Inr quotes)
    obtain e where "view_positions D quotes (if ?held = [] then Map.empty else sum_open_sell_by_instrument d i) ?held 0 = Inl e"
      using fails by blast
    then show ?thesis unfolding portfolio_view_def Let_def Inr by simp
  qed (simp only: portfolio_view_def Let_def ebind_simps, blast)
qed

text \<open>
  Such a position is reached by legitimate fills: of 3 shares bought at 0.0034 for one cent, 2 are sold, and the
  rounded share of the sale takes the whole basis.
\<close>

theorem penny_position_breaks_view_witness:
  "\<exists>p0 sa e. apply_buy_fill None 0 1 ''PNNY'' 3 (notional js_decimal 34 3) 0 = Inr p0
     \<and> apply_sell_fill js_decimal (Some p0) 2 (notional js_decimal 34 2) 0 = Inr sa \<and> pos_qty (sa_position sa) = 1
     \<and> portfolio_view js_decimal (\<lambda>_. Inr Map.empty) 0 100000 9
         (demo_db\<lparr>positions := [sa_position sa]\<rparr>) = Inl e"
proof -
  have n3: "notional js_decimal 34 3 = 1" 
    unfolding js.notional_half_even by (rule half_even_nearest) simp
  have n2: "notional js_decimal 34 2 = 1"
    unfolding js.notional_half_even by (rule half_even_nearest) simp
  have third: "half_even (2 / 3) = 1" by (rule half_even_nearest) simp
  have al: "basis_allocate js_decimal 100 2 3 = Inr (1, 0)"
    using js.allocate_whole_cents[of 2 3 1] third by auto
  let ?p0 = "\<lparr>pos_account = 0, pos_instrument = 1, pos_symbol = ''PNNY'', pos_qty = 3, pos_basis = 100\<rparr>"
  let ?p1 = "\<lparr>pos_account = 0, pos_instrument = 1, pos_symbol = ''PNNY'', pos_qty = 1, pos_basis = 0\<rparr>"
  let ?sa = "\<lparr>sa_position = ?p1, sa_allocated = 1, sa_realized = 0\<rparr>"
  have buy: "apply_buy_fill None 0 1 ''PNNY'' 3 (notional js_decimal 34 3) 0 = Inr ?p0"
    by (simp add: n3 apply_buy_fill_def basis_add_money_def)
  have sell: "apply_sell_fill js_decimal (Some ?p0) 2 (notional js_decimal 34 2) 0 = Inr ?sa"
    by (simp add: n2 apply_sell_fill_def al qty_subtract_def)
  have "\<exists>e. portfolio_view js_decimal (\<lambda>_. Inr Map.empty) 0 100000 9 (demo_db\<lparr>positions := [?p1]\<rparr>) = Inl e"
    by (rule penny_position_breaks_view[OF js.decimal_arith_axioms, of ?p1]) simp_all
  with buy sell show ?thesis by (intro exI[of _ ?p0] exI[of _ ?sa]) simp
qed

end
