(* ===== verification/Execution.thy ===== *)
theory Execution
  imports Portfolio
begin

text \<open>
  \<^verbatim>\<open>src/core/execution\<close>: the routing of orders to a venue (\<^verbatim>\<open>execution.ts\<close>), the broker port
  (\<^verbatim>\<open>broker.ts\<close>), the ledger descriptions of trades (\<^verbatim>\<open>describe.ts\<close>), and the application of
  a broker event, which is the exactly-once boundary of the system.
  The venue is a record of functions on \<open>'v \<times> db\<close>: its own state and the database, since a venue
  in the same process delivers its events while it serves a call.
\<close>

section \<open>Descriptions\<close>

text \<open>\<open>Number(whole).toLocaleString("en-US")\<close>: groups of three digits, here on the reversed digits.\<close>

fun group_rev :: "string \<Rightarrow> string" where
  "group_rev (a # b # c # d # s) = a # b # c # CHR '','' # group_rev (d # s)"
| "group_rev s = s"

definition locale_string :: "nat \<Rightarrow> string" where
  "locale_string n = rev (group_rev (rev (show_nat n)))"

definition format_fill_price :: "px \<Rightarrow> string" where
  "format_fill_price p =
     (let (whole, frac) = split_point (px_to_string p);
          trimmed = rev (dropWhile (\<lambda>c. c = CHR ''0'') (rev frac));
          cents = (if length trimmed \<le> 2 then pad_end 2 trimmed else trimmed)
      in ''$'' @ locale_string (read_nat whole) @ ''.'' @ cents)"

definition describe_trade :: "order_side \<Rightarrow> qty \<Rightarrow> string \<Rightarrow> px \<Rightarrow> string" where
  "describe_trade side q symbol p =
     (let verb = (if side = BUY then ''Bought'' else ''Sold'')
      in verb @ '' '' @ qty_to_string q @ '' '' @ symbol @ '' at '' @ format_fill_price p)"

section \<open>The broker port\<close>

record order_request =
  rq_client_order :: uuid
  rq_account :: string
  rq_symbol :: string
  rq_side :: order_side
  rq_type :: order_type
  rq_qty :: qty
  rq_limit :: "px option"
  rq_tif :: time_in_force
  rq_extended_hours :: bool

record submit_result =
  sr_broker_order :: string
  sr_duplicate :: bool

record cancel_result =
  cr_accepted :: bool
  cr_reason :: "string option"

record order_snapshot =
  sn_client_order :: uuid
  sn_broker_order :: string
  sn_status :: string
  sn_filled :: qty
  sn_events :: "broker_event list"

record 'v broker =
  br_kind :: broker_kind
  br_submit :: "order_request \<Rightarrow> 'v \<times> db \<Rightarrow> submit_result result \<times> ('v \<times> db)"
  br_cancel :: "string \<Rightarrow> uuid \<Rightarrow> 'v \<times> db \<Rightarrow> cancel_result result \<times> ('v \<times> db)"
  br_get_order :: "string \<Rightarrow> uuid \<Rightarrow> 'v \<times> db \<Rightarrow> order_snapshot option result \<times> ('v \<times> db)"

section \<open>Applying a broker event\<close>

definition lock_order :: "db \<Rightarrow> uuid \<Rightarrow> order result" where
  "lock_order d i = of_option (InvariantViolation ''order not found for locking'') (get_order d i)"

definition fill_row :: "order \<Rightarrow> broker_event \<Rightarrow> qty \<Rightarrow> px \<Rightarrow> money \<Rightarrow> money \<Rightarrow> string \<Rightarrow> time \<Rightarrow> fill" where
  "fill_row r ev q p fee amount ex now =
     \<lparr>fl_order = ord_id r, fl_qty = q, fl_price = p, fl_fee = fee, fl_notional = amount,
      fl_broker = ev_broker ev, fl_execution = ex, fl_occurred = ev_occurred ev, fl_created = now\<rparr>"

definition trade_entry :: "order \<Rightarrow> broker_event \<Rightarrow> qty \<Rightarrow> px \<Rightarrow> money \<Rightarrow> string \<Rightarrow> new_entry" where
  "trade_entry r ev q p amount ex =
     \<lparr>ne_account = ord_account r, ne_type = Entry_trade,
      ne_amount = (if ord_side r = BUY then - amount else amount),
      ne_ref = Some (Ref_fill (ev_broker ev) ex),
      ne_description = describe_trade (ord_side r) q (ord_symbol r) p\<rparr>"

definition fee_row :: "order \<Rightarrow> broker_event \<Rightarrow> money \<Rightarrow> string \<Rightarrow> new_entry" where
  "fee_row r ev fee ex =
     \<lparr>ne_account = ord_account r, ne_type = Entry_fee, ne_amount = - fee,
      ne_ref = Some (Ref_fill (ev_broker ev) ex),
      ne_description = ''Fee on '' @ ord_symbol r @ '' fill''\<rparr>"

definition next_position :: "decimal_lib \<Rightarrow> order \<Rightarrow> position option \<Rightarrow> qty \<Rightarrow> money \<Rightarrow> money \<Rightarrow> position result" where
  "next_position D r current q amount fee =
     (if ord_side r = BUY
      then apply_buy_fill current (ord_account r) (ord_instrument r) (ord_symbol r) q amount fee
      else ebind (apply_sell_fill D current q amount fee) (\<lambda>s. Inr (sa_position s)))"

definition apply_fill_effects :: "decimal_lib \<Rightarrow> order \<Rightarrow> broker_event \<Rightarrow> db \<Rightarrow> (unit \<times> db) result" where
  "apply_fill_effects D r ev d =
     (case (ev_fill_qty ev, ev_fill_price ev, truthy (ev_execution ev)) of
        (Some q, Some p, Some ex) \<Rightarrow>
          let fee = case_option 0 id (ev_fee ev);
              amount = notional D p q
          in
          ebind (insert_fill (fill_row r ev q p fee amount ex (db_now d)) d) (\<lambda>(fresh, d1).
          ebind (invariant fresh ''duplicate execution slipped past the dedupe gate'') (\<lambda>_.
          ebind (next_position D r (get_position d1 (ord_account r) (ord_instrument r)) q amount fee) (\<lambda>next.
          ebind (upsert_position next d1) (\<lambda>d2.
          ebind (post (trade_entry r ev q p amount ex) d2) (\<lambda>(_, d3).
            if fee = 0 then Inr ((), d3)
            else ebind (post (fee_row r ev fee ex) d3) (\<lambda>(_, d4). Inr ((), d4)))))))
      | _ \<Rightarrow> Inl (InvariantViolation ''fill event missing fields''))"

definition transition_of :: "broker_event \<Rightarrow> transition_event" where
  "transition_of ev =
     \<lparr>te_type = ev_type ev, te_source = Src_broker, te_broker = Some (ev_broker ev),
      te_broker_order = ev_broker_order ev, te_external = ev_external ev,
      te_occurred = ev_occurred ev, te_reason = ev_reason ev,
      te_fill_qty = (if is_fill_event (ev_type ev) then ev_fill_qty ev else None),
      te_reject = (if ev_type ev = ORDER_REJECTED
                   then Some (case_option ''rejected by venue'' id (ev_reason ev)) else None)\<rparr>"

definition apply_event :: "decimal_lib \<Rightarrow> order \<Rightarrow> broker_event \<Rightarrow> db \<Rightarrow> (unit \<times> db) result" where
  "apply_event D ord ev d =
     ebind (apply_transition D ord (transition_of ev) d) (\<lambda>(transitioned, d1).
       case transitioned of
         None \<Rightarrow> Inr ((), d1)
       | Some r \<Rightarrow>
           if is_fill_event (ev_type ev) then apply_fill_effects D r ev d1 else Inr ((), d1))"

definition event_tx :: "decimal_lib \<Rightarrow> broker_event \<Rightarrow> db \<Rightarrow> (unit \<times> db) result" where
  "event_tx D ev d =
     ebind (of_option (AppError INTERNAL None) (get_order d (ev_client_order ev))) (\<lambda>preliminary.
     ebind (lock_account d (ord_account preliminary)) (\<lambda>_.
     ebind (lock_order d (ev_client_order ev)) (\<lambda>ord.
       if is_fill_event (ev_type ev) then
         ebind (of_option (InvariantViolation ''fill event missing execution id'')
             (truthy (ev_execution ev))) (\<lambda>ex.
           if execution_exists d (ev_broker ev) ex then Inr ((), d)
           else apply_event D ord ev d)
       else apply_event D ord ev d)))"

definition on_broker_event :: "decimal_lib \<Rightarrow> broker_event \<Rightarrow> db \<Rightarrow> unit result \<times> db" where
  "on_broker_event D ev d = run_tx (event_tx D ev) d"

section \<open>Routing to the venue\<close>

definition load_for_venue :: "db \<Rightarrow> uuid \<Rightarrow> (order \<times> string) result" where
  "load_for_venue d i =
     ebind (of_option (InvariantViolation ''order not found'') (get_order d i)) (\<lambda>r.
     ebind (of_option (InvariantViolation ''no broker account'') (get_broker_account d (ord_account r)))
       (\<lambda>ref. Inr (r, ref_external ref)))"

definition submit_failed_tx :: "decimal_lib \<Rightarrow> broker_kind \<Rightarrow> time \<Rightarrow> uuid \<Rightarrow> db \<Rightarrow> (unit \<times> db) result" where
  "submit_failed_tx D kind now i d =
     ebind (lock_order d i) (\<lambda>locked.
     ebind (apply_transition D locked
       \<lparr>te_type = ORDER_SUBMIT_FAILED, te_source = Src_local, te_broker = Some kind,
        te_broker_order = None, te_external = None, te_occurred = now, te_reason = None,
        te_fill_qty = None, te_reject = Some ''submission failed''\<rparr> d) (\<lambda>(_, d1). Inr ((), d1)))"

definition exec_submit :: "decimal_lib \<Rightarrow> 'v broker \<Rightarrow> time \<Rightarrow> uuid \<Rightarrow> 'v \<times> db \<Rightarrow> unit result \<times> ('v \<times> db)" where
  "exec_submit D br now i w =
     (case load_for_venue (snd w) i of
        Inl e \<Rightarrow> (Inl e, w)
      | Inr (r, account) \<Rightarrow>
          if ord_state r \<noteq> PENDING_SUBMISSION then (Inr (), w)
          else case remaining_qty r of
            Inl e \<Rightarrow> (Inl e, w)
          | Inr q \<Rightarrow>
              let request = \<lparr>rq_client_order = ord_id r, rq_account = account, rq_symbol = ord_symbol r,
                    rq_side = ord_side r, rq_type = ord_type r, rq_qty = q, rq_limit = ord_limit r,
                    rq_tif = ord_tif r, rq_extended_hours = False\<rparr>
              in case br_submit br request w of
                   (Inr _, w1) \<Rightarrow> (Inr (), w1)
                 | (Inl _, w1) \<Rightarrow>
                     (case br_submit br request w1 of
                        (Inr _, w2) \<Rightarrow> (Inr (), w2)
                      | (Inl err, w2) \<Rightarrow>
                          (case br_get_order br account (ord_id r) w2 of
                             (Inr (Some _), w3) \<Rightarrow> (Inl err, w3)
                           | (_, v3, d3) \<Rightarrow>
                               (case run_tx (submit_failed_tx D (br_kind br) now (ord_id r)) d3 of
                                  (res, d4) \<Rightarrow> (res, (v3, d4))))))"

definition request_venue_cancel :: "'v broker \<Rightarrow> uuid \<Rightarrow> 'v \<times> db \<Rightarrow> cancel_result result \<times> ('v \<times> db)" where
  "request_venue_cancel br i w =
     (case load_for_venue (snd w) i of
        Inl e \<Rightarrow> (Inl e, w)
      | Inr (r, account) \<Rightarrow> br_cancel br account (ord_id r) w)"

end
