(* ===== verification/Execution_Correct.thy ===== *)
theory Execution_Correct
  imports Execution
begin

text \<open>
  The correctness of \<^verbatim>\<open>src/core/execution/execution.ts\<close>: what one fill does to the order, the
  fills, the position, the ledger and the cash; that a redelivered event changes nothing, whatever
  was delivered in between (the locale \<open>exactly_once\<close>); and the invariants every event keeps.
\<close>

section \<open>What the effects of a fill change\<close>

definition fee_of :: "broker_event \<Rightarrow> money" where
  "fee_of ev = case_option 0 id (ev_fee ev)"

definition entry_row :: "new_entry \<Rightarrow> uuid \<Rightarrow> time \<Rightarrow> ledger_entry" where
  "entry_row e i now = \<lparr>le_id = i, le_account = ne_account e, le_type = ne_type e,
     le_amount = ne_amount e, le_ref = ne_ref e, le_description = ne_description e, le_created = now\<rparr>"

lemma entry_row_fields [simp]:
  "le_id (entry_row e i now) = i" "le_account (entry_row e i now) = ne_account e"
  "le_type (entry_row e i now) = ne_type e" "le_amount (entry_row e i now) = ne_amount e"
  "le_ref (entry_row e i now) = ne_ref e"
  by (simp_all add: entry_row_def)

lemma post_shape:
  assumes "post e d = Inr (r, d')"
  shows "ne_amount e \<noteq> 0 \<and> r = entry_row e (next_id d) (db_now d)
    \<and> (\<exists>accs. d' = d\<lparr>accounts := accs, ledger := ledger d @ [r], next_id := next_id d + 1\<rparr>
        \<and> accs = accounts (adjust_cash (ne_account e) (ne_amount e) d))"
  using assms by (auto simp: db_simps adjust_cash_def entry_row_def)

text \<open>The entries a fill posts: the trade, and the fee when there is one.\<close>

definition fill_entries :: "order \<Rightarrow> broker_event \<Rightarrow> qty \<Rightarrow> px \<Rightarrow> money \<Rightarrow> string \<Rightarrow> new_entry list" where
  "fill_entries r ev q p amount ex =
     trade_entry r ev q p amount ex # (if fee_of ev = 0 then [] else [fee_row r ev (fee_of ev) ex])"

definition entries_sum :: "new_entry list \<Rightarrow> money" where
  "entries_sum es = sum_list (map ne_amount es)"

lemma adjust_cash_twice:
  "accounts (adjust_cash i m (d\<lparr>accounts := accounts (adjust_cash i n d0), ledger := l, next_id := k\<rparr>))
     = accounts (adjust_cash i (n + m) d0)"
  by (simp add: adjust_cash_def modify_def comp_def)

lemma fill_effects_shape:
  assumes "apply_fill_effects D r ev d = Inr (u, d')"
  obtains q p ex nxt rows where
    "ev_fill_qty ev = Some q" "ev_fill_price ev = Some p" "truthy (ev_execution ev) = Some ex"
    "0 < q" "\<not> execution_exists d (ev_broker ev) ex"
    "next_position D r (get_position d (ord_account r) (ord_instrument r)) q (notional D p q) (fee_of ev) = Inr nxt"
    "upsert_position nxt (d\<lparr>fills := fills d @ [fill_row r ev q p (fee_of ev) (notional D p q) ex (db_now d)]\<rparr>)
       = Inr (d\<lparr>fills := fills d @ [fill_row r ev q p (fee_of ev) (notional D p q) ex (db_now d)],
                positions := rows\<rparr>)"
    "d' = d\<lparr>accounts := accounts (adjust_cash (ord_account r)
               (entries_sum (fill_entries r ev q p (notional D p q) ex)) d),
            fills := fills d @ [fill_row r ev q p (fee_of ev) (notional D p q) ex (db_now d)],
            positions := rows,
            ledger := ledger d @ map2 (\<lambda>e i. entry_row e i (db_now d))
               (fill_entries r ev q p (notional D p q) ex) [next_id d, Suc (next_id d)],
            next_id := next_id d + length (fill_entries r ev q p (notional D p q) ex)\<rparr>"
    "notional D p q \<noteq> 0"
proof -
  from assms obtain q p ex where f: "ev_fill_qty ev = Some q" "ev_fill_price ev = Some p"
      "truthy (ev_execution ev) = Some ex"
    by (auto simp: apply_fill_effects_def split: option.splits prod.splits)
  let ?amount = "notional D p q" and ?fee = "fee_of ev"
  let ?row = "fill_row r ev q p ?fee ?amount ex (db_now d)"
  let ?d1 = "d\<lparr>fills := fills d @ [?row]\<rparr>"
  from assms f obtain nxt d2 r1 d3 where
    ins: "insert_fill ?row d = Inr (True, ?d1)" and
    nxt: "next_position D r (get_position ?d1 (ord_account r) (ord_instrument r)) q ?amount ?fee = Inr nxt" and
    up: "upsert_position nxt ?d1 = Inr d2" and
    t: "post (trade_entry r ev q p ?amount ex) d2 = Inr (r1, d3)" and
    rest: "(if ?fee = 0 then Inr ((), d3)
            else ebind (post (fee_row r ev ?fee ex) d3) (\<lambda>(_, d4). Inr ((), d4))) = Inr (u, d')"
    by (auto simp: apply_fill_effects_def fee_of_def result_simps Let_def insert_fill_Inr split: if_splits)
  have "ne_account (trade_entry r ev q p ?amount ex) = ord_account r" by (simp add: trade_entry_def)
  from ins have ex: "0 < q" "\<not> execution_exists d (ev_broker ev) ex"
    by (auto simp: insert_fill_Inr fill_row_def fills_ok_def split: if_splits)
  have pos: "get_position ?d1 = get_position d" by (intro ext) (simp add: get_position_def)
  from upsert_position_frame[OF up] obtain rows where rows: "d2 = ?d1\<lparr>positions := rows\<rparr>" by blast
  let ?t = "trade_entry r ev q p ?amount ex"
  from post_shape[OF t] have r1: "r1 = entry_row ?t (next_id d) (db_now d)" "ne_amount ?t \<noteq> 0" and
    d3: "d3 = d2\<lparr>accounts := accounts (adjust_cash (ord_account r) (ne_amount ?t) d2),
               ledger := ledger d @ [r1], next_id := next_id d + 1\<rparr>"
    by (auto simp: rows trade_entry_def)
  have acc: "accounts (adjust_cash i m d2) = accounts (adjust_cash i m d)" for i m
    by (simp add: adjust_cash_def rows)
  have nz: "?amount \<noteq> 0" using r1(2) by (auto simp: trade_entry_def split: if_splits)
  show thesis
  proof (cases "?fee = 0")
    case True
    with rest have "d' = d3" by simp
    with True show thesis
      by (intro that[OF f ex nxt[unfolded pos] up[unfolded rows] _ nz])
         (simp add: fill_entries_def d3 r1 rows adjust_cash_def entries_sum_def)
  next
    case False
    let ?f = "fee_row r ev ?fee ex"
    from False rest obtain r2 where p2: "post ?f d3 = Inr (r2, d')" by (auto simp: result_simps)
    from post_shape[OF p2] have r2: "r2 = entry_row ?f (Suc (next_id d)) (db_now d)" and
      d': "d' = d3\<lparr>accounts := accounts (adjust_cash (ord_account r) (ne_amount ?f) d3),
               ledger := ledger d @ [r1, r2], next_id := next_id d + 2\<rparr>"
      by (auto simp: d3 rows fee_row_def)
    have acc2: "accounts (adjust_cash (ord_account r) (ne_amount ?f) d3)
        = accounts (adjust_cash (ord_account r) (ne_amount ?t + ne_amount ?f) d)"
      unfolding d3 by (simp only: adjust_cash_twice acc)
    from False show thesis
      by (intro that[OF f ex nxt[unfolded pos] up[unfolded rows] _ nz])
         (simp add: fill_entries_def d' acc2, simp add: d3 r1 r2 rows entries_sum_def)
  qed
qed


section \<open>The ways an event can be applied\<close>

lemma get_order_self: "get_order d i = Some r \<Longrightarrow> get_order d (ord_id r) = Some r"
  by (frule get_order_Some) simp

lemma apply_event_cases:
  assumes "apply_event D ord ev d = Inr (u, d')" "get_order d (ord_id ord) = Some ord"
  obtains (noop) "d' = d" "apply_transition D ord (transition_of ev) d = Inr (None, d)"
  | (moved) r where "\<not> is_fill_event (ev_type ev)"
      "apply_transition D ord (transition_of ev) d = Inr (Some r, d')"
  | (filled) r d1 where "is_fill_event (ev_type ev)"
      "apply_transition D ord (transition_of ev) d = Inr (Some r, d1)"
      "apply_fill_effects D r ev d1 = Inr (u, d')"
proof -
  from assms(1) obtain out d1 where t: "apply_transition D ord (transition_of ev) d = Inr (out, d1)"
    and rest: "(case out of None \<Rightarrow> Inr ((), d1)
       | Some r \<Rightarrow> if is_fill_event (ev_type ev) then apply_fill_effects D r ev d1 else Inr ((), d1))
       = Inr (u, d')"
    by (auto simp: apply_event_def result_simps)
  show thesis
  proof (cases out)
    case None
    from t assms(2) None have "d1 = d" by (cases rule: apply_transition_cases) auto
    with None rest t noop show thesis by simp
  next
    case (Some r)
    with rest t moved filled show thesis by (auto split: if_splits)
  qed
qed

lemma event_tx_cases:
  assumes "event_tx D ev d = Inr (u, d')"
  obtains (noop) ord where "get_order d (ev_client_order ev) = Some ord" "d' = d"
  | (moved) ord r where "get_order d (ev_client_order ev) = Some ord" "\<not> is_fill_event (ev_type ev)"
      "apply_transition D ord (transition_of ev) d = Inr (Some r, d')"
  | (filled) ord r d1 where "get_order d (ev_client_order ev) = Some ord" "is_fill_event (ev_type ev)"
      "apply_transition D ord (transition_of ev) d = Inr (Some r, d1)"
      "apply_fill_effects D r ev d1 = Inr (u, d')"
proof -
  from assms obtain ord where g: "get_order d (ev_client_order ev) = Some ord"
    and rest: "d' = d \<or> apply_event D ord ev d = Inr (u, d')"
    by (auto simp: event_tx_def lock_order_def result_simps split: if_splits)
  from g have "get_order d (ord_id ord) = Some ord" by (rule get_order_self)
  with rest g show thesis
    by (elim disjE) (rule noop, assumption+, elim apply_event_cases, auto intro: noop moved filled)
qed

lemma schema_fill_effects [inv_intros]:
  assumes "apply_fill_effects D r ev d = Inr (u, d')" "schema_ok d"
  shows "schema_ok d'"
  using assms
  by (auto simp: apply_fill_effects_def result_simps Let_def split: option.splits prod.splits if_splits)
     (metis schema_insert_fill schema_upsert_position post_schema)+

lemma in_balance_fill_effects [inv_intros]:
  assumes "apply_fill_effects D r ev d = Inr (u, d')" "schema_ok d" "in_balance d"
  shows "in_balance d'"
proof -
  have frame: "in_balance (d\<lparr>fills := fs\<rparr>)" "in_balance (d\<lparr>fills := fs, positions := ps\<rparr>)" for fs ps
    using assms(3) by (simp_all add: in_balance_def sum_ledger_def)
  from assms(1) obtain row d1 nxt d2 e1 r1 d3 where
    ins: "insert_fill row d = Inr (True, d1)" and up: "upsert_position nxt d1 = Inr d2" and
    t: "post e1 d2 = Inr (r1, d3)" and
    rest: "d' = d3 \<or> (\<exists>e2 r2. post e2 d3 = Inr (r2, d'))"
    by (auto simp: apply_fill_effects_def result_simps Let_def split: option.splits prod.splits if_splits)
       blast+
  from ins have d1: "d1 = d\<lparr>fills := fills d @ [row]\<rparr>" by (auto simp: insert_fill_Inr split: if_splits)
  from upsert_position_frame[OF up] obtain ps where "d2 = d1\<lparr>positions := ps\<rparr>" by blast
  with frame(2) have "in_balance d2" unfolding d1 by simp
  moreover have "schema_ok d2" using schema_upsert_position[OF up] schema_insert_fill[OF ins] assms(2) by blast
  ultimately have "in_balance d3" "schema_ok d3" using post_in_balance[OF t] post_schema[OF t] by auto
  with rest show ?thesis using post_in_balance by blast
qed

lemma schema_event_tx [inv_intros]:
  assumes "event_tx D ev d = Inr (u, d')" "schema_ok d"
  shows "schema_ok d'"
  using assms(1)
  by (cases rule: event_tx_cases)
     (use assms(2) in \<open>blast intro: schema_apply_transition schema_fill_effects\<close>)+

lemma in_balance_event_tx [inv_intros]:
  assumes "event_tx D ev d = Inr (u, d')" "schema_ok d" "in_balance d"
  shows "in_balance d'"
  using assms(1)
proof (cases rule: event_tx_cases)
  case (moved ord r)
  then have "get_order d (ord_id ord) = Some ord" by (auto intro: get_order_self)
  from apply_transition_in_balance[OF moved(3) this assms(3)] show ?thesis .
next
  case (filled ord r d1)
  then have "get_order d (ord_id ord) = Some ord" by (auto intro: get_order_self)
  from apply_transition_in_balance[OF filled(3) this assms(3)]
    in_balance_fill_effects[OF filled(4) schema_apply_transition[OF filled(3) assms(2)]]
  show ?thesis by blast
qed (use assms(3) in simp)

lemma fill_effects_orders:
  assumes "apply_fill_effects D r ev d = Inr (u, d')"
  shows "orders d' = orders d" "order_events d' = order_events d" "transfers d' = transfers d"
    "map acc_id (accounts d') = map acc_id (accounts d)" "broker_accounts d' = broker_accounts d"
    "db_now d' = db_now d" "\<exists>fs. fills d' = fills d @ fs" "\<exists>es. ledger d' = ledger d @ es"
    "map acc_status (accounts d') = map acc_status (accounts d)"
  using assms by (cases rule: fill_effects_shape; simp add: adjust_cash_def map_modify)+

lemma orders_wf_event_tx [inv_intros]:
  assumes "decimal_arith D" "event_tx D ev d = Inr (u, d')" "schema_ok d" "orders_wf d"
  shows "orders_wf d'"
  using assms(2)
proof (cases rule: event_tx_cases)
  case (moved ord r)
  then have "get_order d (ord_id ord) = Some ord" by (auto intro: get_order_self)
  from orders_wf_apply_transition[OF assms(1) moved(3) this assms(3,4)] show ?thesis .
next
  case (filled ord r d1)
  then have "get_order d (ord_id ord) = Some ord" by (auto intro: get_order_self)
  from orders_wf_apply_transition[OF assms(1) filled(3) this assms(3,4)] fill_effects_orders(1)[OF filled(4)]
  show ?thesis by (simp add: orders_wf_def)
qed (use assms(4) in simp)


section \<open>Orders and fills agree\<close>

text \<open>
  The filled quantity of an order is the sum of its fill rows, unless the order was flagged for
  attention; it is never more.
\<close>

definition fills_total :: "db \<Rightarrow> uuid \<Rightarrow> qty" where
  "fills_total d i = total fl_qty (\<lambda>f. fl_order f = i) (fills d)"

definition fills_match :: "db \<Rightarrow> bool" where
  "fills_match d \<longleftrightarrow> list_all (\<lambda>r. ord_filled r \<le> fills_total d (ord_id r)
     \<and> (\<not> ord_attention r \<longrightarrow> ord_filled r = fills_total d (ord_id r))) (orders d)"

lemma transition_of_fields [simp]:
  "te_type (transition_of ev) = ev_type ev"
  "te_broker (transition_of ev) = Some (ev_broker ev)"
  "te_external (transition_of ev) = ev_external ev"
  "te_fill_qty (transition_of ev) = (if is_fill_event (ev_type ev) then ev_fill_qty ev else None)"
  by (simp_all add: transition_of_def)

lemma patch_attention [simp]:
  "ord_attention (apply_patch (transition_patch ev st n m) now r) = ord_attention r"
  by (simp add: apply_patch_def transition_patch_def)

text \<open>The row of a transition: its keys, the tables around it, its filled quantity and its flag.\<close>

lemma transition_row_keys:
  assumes "apply_transition D ord ev d = Inr (Some r, d')" "get_order d (ord_id ord) = Some ord"
  shows "ord_id r = ord_id ord" "ord_account r = ord_account ord" "ord_instrument r = ord_instrument ord"
    "ord_side r = ord_side ord" "ord_symbol r = ord_symbol ord" "ord_qty r = ord_qty ord"
  using assms by (cases rule: apply_transition_cases; simp)+

lemma transition_frame:
  assumes "apply_transition D ord ev d = Inr (Some r, d')" "get_order d (ord_id ord) = Some ord"
  shows "fills d' = fills d" "positions d' = positions d" "accounts d' = accounts d"
    "ledger d' = ledger d" "next_id d' = next_id d" "db_now d' = db_now d"
    "transfers d' = transfers d" "instruments d' = instruments d"
    "broker_accounts d' = broker_accounts d" "map ord_id (orders d') = map ord_id (orders d)"
    "\<exists>es. order_events d' = order_events d @ es"
  using assms by (cases rule: apply_transition_cases; simp add: map_modify)+

lemma transition_modifies:
  assumes "apply_transition D ord ev d = Inr (Some r, d')" "get_order d (ord_id ord) = Some ord"
  obtains f where "orders d' = modify (\<lambda>x. ord_id x = ord_id ord) f (orders d)" "f ord = r"
  using assms
proof (cases rule: apply_transition_cases)
  case (audit p)
  then show ?thesis by (intro that[of "apply_patch p (db_now d)"]) simp_all
next
  case (moved steps es st n m)
  then show ?thesis by (intro that[of "apply_patch (transition_patch ev st n m) (db_now d)"]) simp_all
qed simp

lemma transition_row_filled:
  assumes "apply_transition D ord ev d = Inr (Some r, d')" "get_order d (ord_id ord) = Some ord"
  shows "if plan_event (ord_state ord) (te_type ev) = Inr ([], True)
       then ord_attention r \<and> ord_filled r = ord_filled ord \<and> ord_state r = ord_state ord
       else ord_attention r = ord_attention ord \<and> ord_filled r = filled_after ord ev"
  using assms by (cases rule: apply_transition_cases) simp_all

lemma fills_total_append:
  "fills_total (d\<lparr>fills := fs @ [f]\<rparr>) i = fills_total (d\<lparr>fills := fs\<rparr>) i + (if fl_order f = i then fl_qty f else 0)"
  by (simp add: fills_total_def)

lemma fills_total_same: "fills d' = fills d \<Longrightarrow> fills_total d' i = fills_total d i"
  by (simp add: fills_total_def)

lemma fills_matchD:
  assumes "fills_match d" "get_order d i = Some r"
  shows "ord_filled r \<le> fills_total d (ord_id r)
    \<and> (\<not> ord_attention r \<longrightarrow> ord_filled r = fills_total d (ord_id r))"
proof -
  from get_order_Some[OF assms(2)] have "r \<in> set (orders d)" by simp
  with assms(1) show ?thesis unfolding fills_match_def list_all_iff by blast
qed

lemma fills_match_modify:
  assumes "schema_ok d" "fills_match d" "get_order d i = Some ord" "ord_id (f ord) = i"
    and "orders d' = modify (\<lambda>x. ord_id x = i) f (orders d)"
    and "\<And>j. j \<noteq> i \<Longrightarrow> fills_total d' j = fills_total d j"
    and "ord_filled (f ord) \<le> fills_total d' i"
    and "\<not> ord_attention (f ord) \<Longrightarrow> ord_filled (f ord) = fills_total d' i"
  shows "fills_match d'"
proof -
  have uniq: "x = ord" if "x \<in> set (orders d)" "ord_id x = i" for x
    using that order_key_unique[OF assms(1) that(1)] assms(3) by (simp add: get_order_def)
  show ?thesis
    unfolding fills_match_def list_all_iff
  proof
    fix y assume "y \<in> set (orders d')"
    then obtain x where x: "x \<in> set (orders d)" "y = (if ord_id x = i then f x else x)"
      unfolding assms(5) by (rule in_set_modifyE)
    show "ord_filled y \<le> fills_total d' (ord_id y)
      \<and> (\<not> ord_attention y \<longrightarrow> ord_filled y = fills_total d' (ord_id y))"
    proof (cases "ord_id x = i")
      case True
      with uniq[OF x(1)] x(2) assms(4,7,8) show ?thesis by simp
    next
      case False
      with x assms(2,6) show ?thesis by (auto simp: fills_match_def list_all_iff)
    qed
  qed
qed

lemma fills_match_event_tx [inv_intros]:
  assumes "event_tx D ev d = Inr (u, d')" "schema_ok d" "fills_match d"
  shows "fills_match d'"
  using assms(1)
proof (cases rule: event_tx_cases)
  case (noop ord)
  with assms(3) show ?thesis by simp
next
  case (moved ord r)
  have g: "get_order d (ord_id ord) = Some ord" using moved(1) by (rule get_order_self)
  obtain f where f: "orders d' = modify (\<lambda>x. ord_id x = ord_id ord) f (orders d)" "f ord = r"
    using transition_modifies[OF moved(3) g] .
  have ft: "fills_total d' j = fills_total d j" for j
    by (rule fills_total_same[OF transition_frame(1)[OF moved(3) g]])
  have ord: "ord_filled ord \<le> fills_total d (ord_id ord)"
      "\<not> ord_attention ord \<Longrightarrow> ord_filled ord = fills_total d (ord_id ord)"
    using fills_matchD[OF assms(3) g] by auto
  have "filled_after ord (transition_of ev) = ord_filled ord"
    using moved(2) by (simp add: filled_after_def)
  with transition_row_filled[OF moved(3) g] have
    filled: "ord_filled r = ord_filled ord" "ord_attention ord \<Longrightarrow> ord_attention r"
    by (auto split: if_splits)
  note id = transition_row_keys(1)[OF moved(3) g]
  show ?thesis
  proof (rule fills_match_modify[OF assms(2,3) g _ f(1)])
    show "ord_id (f ord) = ord_id ord" unfolding f(2) by (rule id)
    show "ord_filled (f ord) \<le> fills_total d' (ord_id ord)" unfolding f(2) ft filled(1) by (rule ord(1))
    show "ord_filled (f ord) = fills_total d' (ord_id ord)" if "\<not> ord_attention (f ord)"
      using that ord(2) filled(2) unfolding f(2) ft filled(1) by blast
  qed (rule ft)
next
  case (filled ord r d1)
  have g: "get_order d (ord_id ord) = Some ord" using filled(1) by (rule get_order_self)
  note row = transition_row_filled[OF filled(3) g] and id = transition_row_keys(1)[OF filled(3) g]
  obtain f where f: "orders d1 = modify (\<lambda>x. ord_id x = ord_id ord) f (orders d)" "f ord = r"
    using transition_modifies[OF filled(3) g] .
  have ord: "ord_filled ord \<le> fills_total d (ord_id ord)"
      "\<not> ord_attention ord \<Longrightarrow> ord_filled ord = fills_total d (ord_id ord)"
    using fills_matchD[OF assms(3) g] by auto
  from filled(4) obtain q p ex fee am where q: "ev_fill_qty ev = Some q"
    and fl: "fills d' = fills d1 @ [fill_row r ev q p fee am ex (db_now d1)]"
    by (cases rule: fill_effects_shape) auto
  have ft: "fills_total d' j = fills_total d j + (if j = ord_id ord then q else 0)" for j
    using transition_frame(1)[OF filled(3) g] fl id by (auto simp: fills_total_def fill_row_def)
  have "ord_filled r = (if plan_event (ord_state ord) (ev_type ev) = Inr ([], True) then ord_filled ord
      else ord_filled ord + q)"
    using row filled(2) q by (auto simp: filled_after_def)
  moreover have "if plan_event (ord_state ord) (ev_type ev) = Inr ([], True) then ord_attention r
      else ord_attention r = ord_attention ord"
    using row by auto
  moreover have "orders d' = modify (\<lambda>x. ord_id x = ord_id ord) f (orders d)"
    using f(1) fill_effects_orders(1)[OF filled(4)] by simp
  ultimately show ?thesis
    using ord by (intro fills_match_modify[OF assms(2,3) g, of f])
       (auto simp: f(2) ft id split: if_splits)
qed

section \<open>Positions hold whole cents\<close>

definition cents_basis :: "db \<Rightarrow> bool" where
  "cents_basis d \<longleftrightarrow> list_all (\<lambda>p. 100 dvd pos_basis p) (positions d)"

lemma next_position_cents:
  assumes "decimal_arith D" "next_position D r current q m fee = Inr nxt"
    and "\<And>p. current = Some p \<Longrightarrow> 100 dvd pos_basis p"
  shows "100 dvd pos_basis nxt"
proof (cases "ord_side r")
  case BUY
  with assms(2,3) show ?thesis
    by (cases current) (auto simp: next_position_def apply_buy_fill_def result_simps)
next
  case SELL
  with assms(2) obtain p a rest q' where p: "current = Some p"
    and al: "basis_allocate D (pos_basis p) q (pos_qty p) = Inr (a, rest)" and "pos_basis nxt = rest"
    by (auto simp: next_position_def apply_sell_fill_def result_simps)
  with decimal_arith.allocate_splits[OF assms(1) al] assms(3)[OF p] show ?thesis by simp
qed

lemma cents_upsert:
  assumes "upsert_position p d = Inr d'" "cents_basis d" "100 dvd pos_basis p"
  shows "cents_basis d'"
  using assms by (auto simp: upsert_position_def Let_def result_simps cents_basis_def list_all_iff set_modify)

lemma cents_event_tx [inv_intros]:
  assumes "decimal_arith D" "event_tx D ev d = Inr (u, d')" "cents_basis d"
  shows "cents_basis d'"
  using assms(2)
proof (cases rule: event_tx_cases)
  case (noop ord)
  with assms(3) show ?thesis by simp
next
  case (moved ord r)
  from transition_frame(2)[OF moved(3) get_order_self[OF moved(1)]] assms(3) show ?thesis
    by (simp add: cents_basis_def)
next
  case (filled ord r d1)
  from transition_frame(2)[OF filled(3) get_order_self[OF filled(1)]] assms(3)
  have c1: "cents_basis d1" by (simp add: cents_basis_def)
  have cur: "100 dvd pos_basis p" if "get_position d1 i ins = Some p" for i ins p
    using that c1 by (auto simp: get_position_def cents_basis_def list_all_iff dest: find_Some_in_set)
  from filled(4) show ?thesis
  proof (cases rule: fill_effects_shape)
    case (1 q p ex nxt rows)
    have "cents_basis (d1\<lparr>fills := fills d1 @ [fill_row r ev q p (fee_of ev) (notional D p q) ex (db_now d1)]\<rparr>)"
      using c1 by (simp add: cents_basis_def)
    from cents_upsert[OF 1(7) this next_position_cents[OF assms(1) 1(6) cur]] show ?thesis
      by (simp add: 1(8) cents_basis_def)
  qed
qed


section \<open>Exactly-once delivery\<close>

text \<open>
  The contract of an at-least-once stream applied by an idempotent consumer: a delivery whose effect
  is recorded does nothing, and what is recorded stays recorded. Then duplicates can be dropped from
  any later history.
\<close>

locale exactly_once =
  fixes handle :: "'e \<Rightarrow> 's \<Rightarrow> 's"
    and recorded :: "'e \<Rightarrow> 's \<Rightarrow> bool"
  assumes recorded_noop: "recorded e s \<Longrightarrow> handle e s = s"
    and recorded_kept: "recorded e s \<Longrightarrow> recorded e (handle f s)"
begin

lemma recorded_fold: "recorded e s \<Longrightarrow> recorded e (fold handle es s)"
  by (induction es arbitrary: s) (auto intro: recorded_kept)

lemma redelivery_anywhere: "recorded e s \<Longrightarrow> handle e (fold handle es s) = fold handle es s"
  by (rule recorded_noop, rule recorded_fold)

lemma duplicates_dropped:
  "recorded e s \<Longrightarrow> fold handle es s = fold handle (filter (\<lambda>x. x \<noteq> e) es) s"
  by (induction es arbitrary: s) (auto simp: recorded_noop recorded_kept)

end

definition deliver :: "decimal_lib \<Rightarrow> broker_event \<Rightarrow> db \<Rightarrow> db" where
  "deliver D ev d = snd (on_broker_event D ev d)"

definition event_recorded :: "broker_event \<Rightarrow> db \<Rightarrow> bool" where
  "event_recorded ev d \<longleftrightarrow>
     (is_fill_event (ev_type ev) \<and> (\<exists>ex. truthy (ev_execution ev) = Some ex
        \<and> execution_exists d (ev_broker ev) ex))
     \<or> event_seen (transition_of ev) d"

text \<open>An event that carries an identity: an external id, or at least an execution id.\<close>

definition identified :: "broker_event \<Rightarrow> bool" where
  "identified ev \<longleftrightarrow> ev_external ev \<noteq> Some [] \<and> (is_fill_event (ev_type ev) \<or> ev_external ev \<noteq> None)"

lemma event_exists_append: "event_exists d b x \<Longrightarrow> order_events d' = order_events d @ es \<Longrightarrow> event_exists d' b x"
  by (auto simp: event_exists_def)

lemma execution_exists_append: "execution_exists d b x \<Longrightarrow> fills d' = fills d @ fs \<Longrightarrow> execution_exists d' b x"
  by (auto simp: execution_exists_def)

lemma event_tx_grows:
  assumes "event_tx D ev d = Inr (u, d')"
  shows "(\<exists>es. order_events d' = order_events d @ es) \<and> (\<exists>fs. fills d' = fills d @ fs)
    \<and> map ord_id (orders d') = map ord_id (orders d) \<and> transfers d' = transfers d
    \<and> map acc_id (accounts d') = map acc_id (accounts d)
    \<and> map acc_status (accounts d') = map acc_status (accounts d)
    \<and> (\<exists>ls. ledger d' = ledger d @ ls)"
  using assms
proof (cases rule: event_tx_cases)
  case (noop ord)
  then show ?thesis by simp
next
  case (moved ord r)
  from transition_frame[OF moved(3) get_order_self[OF moved(1)]] show ?thesis by simp
next
  case (filled ord r d1)
  from transition_frame[OF filled(3) get_order_self[OF filled(1)]] fill_effects_orders[OF filled(4)]
  show ?thesis by simp
qed

lemma deliver_cases:
  obtains (committed) "event_tx D ev d = Inr ((), deliver D ev d)"
  | (rolled_back) "deliver D ev d = d"
  by (cases "event_tx D ev d") (auto simp: deliver_def on_broker_event_def run_tx_def)

lemma event_tx_recorded:
  assumes "event_recorded ev d" "event_tx D ev d = Inr (u, d')"
  shows "d' = d"
proof -
  from assms(2) obtain ord where "get_order d (ev_client_order ev) = Some ord" and
    dup: "d' = d \<or> (apply_event D ord ev d = Inr (u, d') \<and> (is_fill_event (ev_type ev) \<longrightarrow>
       (\<forall>ex. truthy (ev_execution ev) = Some ex \<longrightarrow> \<not> execution_exists d (ev_broker ev) ex)))"
    by (auto simp: event_tx_def lock_order_def result_simps split: if_splits)
  from dup show ?thesis
  proof
    assume r: "apply_event D ord ev d = Inr (u, d') \<and> (is_fill_event (ev_type ev) \<longrightarrow>
       (\<forall>ex. truthy (ev_execution ev) = Some ex \<longrightarrow> \<not> execution_exists d (ev_broker ev) ex))"
    with assms(1) have "event_seen (transition_of ev) d" by (auto simp: event_recorded_def)
    with r show ?thesis by (simp add: apply_event_def apply_transition_def)
  qed
qed

lemma event_recorded_noop: "event_recorded ev d \<Longrightarrow> deliver D ev d = d"
  by (cases rule: deliver_cases[of D ev d]) (auto dest: event_tx_recorded)

lemma event_recorded_kept: "event_recorded e d \<Longrightarrow> event_recorded e (deliver D f d)"
proof (cases rule: deliver_cases[of D f d])
  case committed
  assume "event_recorded e d"
  with event_tx_grows[OF committed] show ?thesis
    by (auto simp: event_recorded_def event_seen_def split: option.splits
        intro: event_exists_append execution_exists_append)
qed simp

interpretation delivery: exactly_once "deliver D" event_recorded for D
  by unfold_locales (rule event_recorded_noop event_recorded_kept; assumption)+

text \<open>A delivery that commits records the event.\<close>

lemma transition_logs:
  assumes "apply_transition D ord ev d = Inr (Some r, d')" "get_order d (ord_id ord) = Some ord"
  shows "\<exists>steps. event_row ord ev steps \<in> set (order_events d')"
  using assms by (cases rule: apply_transition_cases) auto

lemma transition_duplicate:
  assumes "apply_transition D ord ev d = Inr (None, d')"
  shows "event_seen ev d \<or> (\<exists>steps. event_key (event_row ord ev steps) \<noteq> None
    \<and> event_key (event_row ord ev steps) \<in> event_key ` set (order_events d))"
  using assms
  by (auto simp: apply_transition_def flag_order_def move_order_def result_simps insert_event_Inr Let_def
      split: if_splits)

lemma seen_from_key:
  assumes "te_external ev \<noteq> Some []" "te_broker ev \<noteq> None"
    and "event_key (event_row ord ev steps) \<noteq> None" "event_key (event_row ord ev steps) = event_key x"
    and "x \<in> set (order_events d)"
  shows "event_seen ev d"
proof -
  from assms(2,3) obtain b y where b: "te_broker ev = Some b" and y: "te_external ev = Some y"
    by (auto simp: event_key_def event_row_def split: option.splits)
  with assms(4) have "oe_broker x = Some b" "oe_external x = Some y"
    by (auto simp: event_key_def event_row_def split: option.splits)
  with b y assms(1,5) show ?thesis
    by (auto simp: event_seen_def truthy_def event_exists_def list_ex_iff)
qed

lemma committed_recorded:
  assumes "event_tx D ev d = Inr (u, d')" "identified ev"
  shows "event_recorded ev d'"
proof (cases "event_recorded ev d")
  case True
  from event_recorded_noop[OF this, of D] assms(1) True show ?thesis
    by (simp add: deliver_def on_broker_event_def run_tx_def)
next
  case False
  from False assms(1) obtain ord where g: "get_order d (ev_client_order ev) = Some ord"
    and "apply_event D ord ev d = Inr (u, d')"
    by (auto simp: event_tx_def lock_order_def result_simps event_recorded_def split: if_splits)
  from this(2) get_order_self[OF g] show ?thesis
  proof (cases rule: apply_event_cases)
    case noop
    from transition_duplicate[OF noop(2)] False obtain steps x where
      "event_key (event_row ord (transition_of ev) steps) \<noteq> None" "x \<in> set (order_events d)"
      "event_key (event_row ord (transition_of ev) steps) = event_key x"
      unfolding event_recorded_def by blast
    with assms(2) have "event_seen (transition_of ev) d"
      by (intro seen_from_key[of "transition_of ev"]) (auto simp: identified_def)
    with False show ?thesis by (simp add: event_recorded_def)
  next
    case (moved r)
    from transition_logs[OF moved(2) get_order_self[OF g]] obtain steps where
      "event_row ord (transition_of ev) steps \<in> set (order_events d')" by blast
    with moved(1) assms(2) have "event_seen (transition_of ev) d'"
      by (intro seen_from_key[of "transition_of ev"])
         (auto simp: identified_def event_key_def event_row_def split: option.splits)
    then show ?thesis by (simp add: event_recorded_def)
  next
    case (filled r d1)
    from filled(3) show ?thesis
      by (cases rule: fill_effects_shape)
         (use filled(1) in \<open>auto simp: event_recorded_def execution_exists_def fill_row_def\<close>)
  qed
qed


section \<open>A fresh fill\<close>

lemma fresh_fill:
  assumes "event_tx D ev d = Inr (u, d')" "is_fill_event (ev_type ev)" "identified ev"
    "\<not> event_recorded ev d"
  obtains ord r d1 where "get_order d (ev_client_order ev) = Some ord"
    "apply_transition D ord (transition_of ev) d = Inr (Some r, d1)"
    "apply_fill_effects D r ev d1 = Inr (u, d')"
proof -
  from assms obtain ord where g: "get_order d (ev_client_order ev) = Some ord"
    and ap: "apply_event D ord ev d = Inr (u, d')"
    by (auto simp: event_tx_def lock_order_def result_simps event_recorded_def split: if_splits)
  from ap get_order_self[OF g] show thesis
  proof (cases rule: apply_event_cases)
    case noop
    from transition_duplicate[OF noop(2)] assms(4) obtain steps x where
      "event_key (event_row ord (transition_of ev) steps) \<noteq> None" "x \<in> set (order_events d)"
      "event_key (event_row ord (transition_of ev) steps) = event_key x"
      unfolding event_recorded_def by blast
    with assms(3) have "event_seen (transition_of ev) d"
      by (intro seen_from_key[of "transition_of ev"]) (auto simp: identified_def)
    with assms(4) show thesis by (simp add: event_recorded_def)
  next
    case (moved r)
    with assms(2) show thesis by simp
  next
    case (filled r d1)
    with g that show thesis by blast
  qed
qed

text \<open>The cash a fill moves.\<close>

definition fill_cash_of :: "decimal_lib \<Rightarrow> order_side \<Rightarrow> broker_event \<Rightarrow> qty \<Rightarrow> px \<Rightarrow> money" where
  "fill_cash_of D side ev q p =
     (if side = BUY then - notional D p q else notional D p q) - fee_of ev"

lemma fill_entries_props:
  "entries_sum (fill_entries r ev q p (notional D p q) ex) = fill_cash_of D (ord_side r) ev q p"
  "length (fill_entries r ev q p m ex) = (if fee_of ev = 0 then 1 else 2)"
  "\<forall>e \<in> set (fill_entries r ev q p m ex). ne_account e = ord_account r
     \<and> ne_ref e = Some (Ref_fill (ev_broker ev) ex)"
  by (auto simp: entries_sum_def fill_entries_def fill_cash_of_def trade_entry_def fee_row_def)

lemma position_after_fill:
  assumes "next_position D r (get_position d (ord_account r) (ord_instrument r)) q m fee = Inr nxt"
    and "upsert_position nxt d1 = Inr d2" "positions d1 = positions d"
  shows "if ord_side r = BUY
    then position_qty d2 (ord_account r) (ord_instrument r)
      = position_qty d (ord_account r) (ord_instrument r) + q
    else q \<le> position_qty d (ord_account r) (ord_instrument r)
      \<and> position_qty d2 (ord_account r) (ord_instrument r)
        = position_qty d (ord_account r) (ord_instrument r) - q"
proof -
  let ?i = "ord_account r" and ?ins = "ord_instrument r"
  have keys: "pos_account nxt = ?i \<and> pos_instrument nxt = ?ins \<and>
    (if ord_side r = BUY then pos_qty nxt = position_qty d ?i ?ins + q
     else q \<le> position_qty d ?i ?ins \<and> pos_qty nxt = position_qty d ?i ?ins - q)"
  proof (cases "ord_side r")
    case BUY
    with assms(1) show ?thesis
      by (auto simp: next_position_def apply_buy_fill_def position_qty_def result_simps)
  next
    case SELL
    with assms(1) obtain p where "get_position d ?i ?ins = Some p" "pos_qty nxt = pos_qty p - q" "q \<le> pos_qty p"
      "pos_account nxt = pos_account p" "pos_instrument nxt = pos_instrument p"
      by (auto simp: next_position_def apply_sell_fill_def result_simps)
    moreover from this(1) have "pos_account p = ?i \<and> pos_instrument p = ?ins"
      by (auto simp: get_position_def dest: find_Some_in_set)
    ultimately show ?thesis using SELL by (simp add: position_qty_def)
  qed
  then show ?thesis
    using get_position_upsert[OF assms(2), of ?i ?ins] by (auto simp: position_qty_def split: if_splits)
qed

lemma map2_entries:
  assumes "length es \<le> length ns"
  shows "sum_list (map le_amount (map2 (\<lambda>e i. entry_row e i now) es ns)) = entries_sum es"
    "\<forall>x \<in> set (map2 (\<lambda>e i. entry_row e i now) es ns). \<exists>e \<in> set es. le_account x = ne_account e \<and> le_ref x = ne_ref e"
  using assms
proof (induction es arbitrary: ns)
  case Nil
  {
    case 1
    then show ?case by (simp add: entries_sum_def)
  next
    case 2
    then show ?case by simp
  }
next
  case (Cons e es)
  {
    case 1
    then show ?case using Cons(1) by (cases ns) (auto simp: entries_sum_def)
  next
    case 2
    then show ?case using Cons(2) by (cases ns) fastforce+
  }
qed

lemma transition_row_get:
  assumes "apply_transition D ord ev d = Inr (Some r, d')" "get_order d (ord_id ord) = Some ord"
  shows "get_order d' (ord_id ord) = Some r"
  using assms by (cases rule: apply_transition_cases) (simp_all add: assms(2))

lemma transition_of_fill:
  assumes "apply_transition D ord (transition_of ev) d = Inr (Some r, d1)"
    "get_order d (ord_id ord) = Some ord" "is_fill_event (ev_type ev)" "ev_fill_qty ev = Some q"
  shows "if is_terminal (ord_state ord)
       then ord_state r = ord_state ord \<and> ord_filled r = ord_filled ord \<and> ord_attention r
       else ord_filled r = ord_filled ord + q
         \<and> ord_state r = (if ev_type ev = ORDER_FILLED then FILLED else PARTIALLY_FILLED)"
  using assms(1,2)
proof (cases rule: apply_transition_cases)
  case (audit p)
  then have "is_terminal (ord_state ord)"
    using assms(3) by (auto simp: plan_event_def is_fill_event_def split: if_splits sum.splits)
  with audit show ?thesis by simp
next
  case (moved steps es st n m)
  have "ty = ev_type ev \<Longrightarrow> is_fill_event ty \<Longrightarrow> plan_transitions (ord_state ord) ty = Inr steps
      \<Longrightarrow> \<not> is_terminal (ord_state ord)
        \<and> end_state (ord_state ord) steps = (if ty = ORDER_FILLED then FILLED else PARTIALLY_FILLED)" for ty
    using plan_fill_nonempty by blast
  with moved assms(3,4) show ?thesis by (simp add: filled_after_def)
qed simp

text \<open>
  C3: What one fill does, to the cent. When a fill event that was not recorded before is accepted,
  exactly one fill row of the event's quantity, price and rounded notional is added; the position
  grows or shrinks by that quantity (a sell never sells more than is held); one TRADE entry, and one
  FEE entry when there is a fee, is appended to the ledger of the order's account, all pointing to
  the execution; their sum is the notional with its sign less the fee, and the cached cash moves by
  that sum. An open order's filled quantity grows by the fill and its state follows the event; a
  closed order keeps state and filled quantity and is flagged, although the fill is still booked.
\<close>

theorem fill_booked_exactly:
  assumes "on_broker_event D ev d = (Inr (), d')" "is_fill_event (ev_type ev)" "identified ev"
    "\<not> event_recorded ev d"
  shows "\<exists>ord r q p f ex es.
      get_order d (ev_client_order ev) = Some ord \<and> get_order d' (ord_id ord) = Some r
    \<and> ev_fill_qty ev = Some q \<and> ev_fill_price ev = Some p \<and> ev_execution ev = Some ex
    \<and> fills d' = fills d @ [f] \<and> fl_order f = ord_id ord \<and> fl_qty f = q \<and> fl_price f = p
    \<and> fl_notional f = notional D p q
    \<and> (if ord_side ord = BUY
       then position_qty d' (ord_account ord) (ord_instrument ord)
         = position_qty d (ord_account ord) (ord_instrument ord) + q
       else q \<le> position_qty d (ord_account ord) (ord_instrument ord)
         \<and> position_qty d' (ord_account ord) (ord_instrument ord)
           = position_qty d (ord_account ord) (ord_instrument ord) - q)
    \<and> ledger d' = ledger d @ es \<and> length es = (if fee_of ev = 0 then 1 else 2)
    \<and> (\<forall>e \<in> set es. le_account e = ord_account ord \<and> le_ref e = Some (Ref_fill (ev_broker ev) ex))
    \<and> sum_list (map le_amount es) = fill_cash_of D (ord_side ord) ev q p
    \<and> (\<forall>c. get_cached_cash d (ord_account ord) = Inr c \<longrightarrow>
        get_cached_cash d' (ord_account ord) = Inr (c + fill_cash_of D (ord_side ord) ev q p))
    \<and> (if is_terminal (ord_state ord)
       then ord_state r = ord_state ord \<and> ord_filled r = ord_filled ord \<and> ord_attention r
       else ord_filled r = ord_filled ord + q
         \<and> ord_state r = (if ev_type ev = ORDER_FILLED then FILLED else PARTIALLY_FILLED))"
proof -
  from assms(1) have tx: "event_tx D ev d = Inr ((), d')"
    by (auto simp: on_broker_event_def run_tx_def split: sum.splits)
  from fresh_fill[OF tx assms(2-4)] obtain ord r d1 where g: "get_order d (ev_client_order ev) = Some ord"
    and t: "apply_transition D ord (transition_of ev) d = Inr (Some r, d1)"
    and fx: "apply_fill_effects D r ev d1 = Inr ((), d')" .
  have self: "get_order d (ord_id ord) = Some ord" using g by (rule get_order_self)
  note keys = transition_row_keys[OF t self] and frame = transition_frame[OF t self]
  from fx show ?thesis
  proof (cases rule: fill_effects_shape)
    case (1 q p ex nxt rows)
    let ?es = "fill_entries r ev q p (notional D p q) ex"
    let ?rows = "map2 (\<lambda>e i. entry_row e i (db_now d1)) ?es [next_id d1, Suc (next_id d1)]"
    let ?cash = "fill_cash_of D (ord_side ord) ev q p"
    let ?f = "fill_row r ev q p (fee_of ev) (notional D p q) ex (db_now d1)"
    have len: "length ?es \<le> length [next_id d1, Suc (next_id d1)]" by (simp add: fill_entries_props(2))
    note rows = map2_entries[OF len, of "db_now d1"]
    have exec: "ev_execution ev = Some ex" using 1(3) by (auto simp: truthy_def split: option.splits if_splits)
    have get: "get_order d' (ord_id ord) = Some r"
      using transition_row_get[OF t self] fill_effects_orders(1)[OF fx] by (simp add: get_order_def)
    have fl: "fills d' = fills d @ [?f]" using 1(8) frame(1) by simp
    have pos: "if ord_side ord = BUY
       then position_qty d' (ord_account ord) (ord_instrument ord)
         = position_qty d (ord_account ord) (ord_instrument ord) + q
       else q \<le> position_qty d (ord_account ord) (ord_instrument ord)
         \<and> position_qty d' (ord_account ord) (ord_instrument ord)
           = position_qty d (ord_account ord) (ord_instrument ord) - q"
    proof -
      let ?d2 = "d1\<lparr>fills := fills d1 @ [?f], positions := rows\<rparr>"
      have new: "position_qty d' a i = position_qty ?d2 a i" for a i
        by (simp add: 1(8) position_qty_def get_position_def)
      have old: "position_qty d1 a i = position_qty d a i" for a i
        by (simp add: frame(2) position_qty_def get_position_def)
      have "positions (d1\<lparr>fills := fills d1 @ [?f]\<rparr>) = positions d1" by simp
      from position_after_fill[OF 1(6) 1(7) this] show ?thesis unfolding new old keys .
    qed
    have led: "ledger d' = ledger d @ ?rows" using 1(8) frame(4) by simp
    have lenr: "length ?rows = (if fee_of ev = 0 then 1 else 2)" by (simp add: fill_entries_props(2))
    have refs: "\<forall>e \<in> set ?rows. le_account e = ord_account ord \<and> le_ref e = Some (Ref_fill (ev_broker ev) ex)"
      using rows(2) fill_entries_props(3)[of r ev q p "notional D p q" ex] keys(2) by fastforce
    have total: "sum_list (map le_amount ?rows) = ?cash"
      using rows(1) fill_entries_props(1)[of r ev q p D ex] keys(4) by simp
    have cash: "get_cached_cash d' (ord_account ord) = Inr (c + ?cash)"
      if "get_cached_cash d (ord_account ord) = Inr c" for c
    proof -
      have "get_account d' (ord_account ord)
          = get_account (adjust_cash (ord_account ord) ?cash d) (ord_account ord)"
        using 1(8) frame(3) fill_entries_props(1)[of r ev q p D ex] keys(2,4)
        by (simp add: get_account_def adjust_cash_def)
      with that show ?thesis by (auto simp: get_cached_cash_eq)
    qed
    have "fl_order ?f = ord_id ord" "fl_qty ?f = q" "fl_price ?f = p" "fl_notional ?f = notional D p q"
      by (simp_all add: fill_row_def keys)
    with g get 1(1,2) exec fl pos led lenr refs total cash transition_of_fill[OF t self assms(2) 1(1)]
    show ?thesis by blast
  qed
qed

text \<open>The event of the running example: the venue fills 1 of the 4 shares at 199.50.\<close>

definition demo_event :: broker_event where
  "demo_event = \<lparr>ev_type = ORDER_PARTIALLY_FILLED, ev_broker = DETERMINISTIC, ev_account = ''ext'',
     ev_broker_order = Some ''v1'', ev_client_order = 3, ev_external = Some ''e1'',
     ev_execution = Some ''x1'', ev_fill_qty = Some 1, ev_fill_price = Some 1995000, ev_fee = None,
     ev_occurred = 5, ev_reason = None\<rparr>"

definition demo_settled :: db where
  "demo_settled = demo_moved\<lparr>
     accounts := [demo_account\<lparr>acc_cash := 80050\<rparr>],
     fills := [fill_row demo_filled_order demo_event 1 1995000 0 19950 ''x1'' 0],
     positions := [\<lparr>pos_account = 0, pos_instrument = 1, pos_symbol = ''AAPL'', pos_qty = 1, pos_basis = 1995000\<rparr>],
     ledger := [deposit_row, entry_row (trade_entry demo_filled_order demo_event 1 1995000 19950 ''x1'') 4 0],
     next_id := 5\<rparr>"

lemma demo_fill_notional: "notional js_decimal 1995000 1 = 19950"
  by (simp add: js.notional_half_even)

lemmas demo_fill_cents = demo_fill_notional demo_fill_notional[unfolded One_nat_def]

lemma demo_transition_of: "transition_of demo_event = demo_fill_event"
  by (simp add: transition_of_def demo_event_def demo_fill_event_def is_fill_event_def)

lemma demo_effects:
  "apply_fill_effects js_decimal demo_filled_order demo_event demo_moved = Inr ((), demo_settled)"
proof -
  have fields: "ord_account demo_filled_order = 0" "ord_instrument demo_filled_order = 1"
    "ord_symbol demo_filled_order = ''AAPL''"
    by (simp_all add: demo_filled_order_def demo_order_def)
  have d: "fills demo_moved = []" "positions demo_moved = []" "ledger demo_moved = [deposit_row]"
    "accounts demo_moved = [demo_account]" "instruments demo_moved = [demo_instrument]"
    "next_id demo_moved = 4" "db_now demo_moved = 0" "orders demo_moved = [demo_filled_order]"
    by (simp_all add: demo_moved_def demo_placed_def demo_defs)
  let ?f = "fill_row demo_filled_order demo_event 1 1995000 0 19950 ''x1'' 0"
  let ?d1 = "demo_moved\<lparr>fills := [?f]\<rparr>"
  have ins: "insert_fill ?f demo_moved = Inr (True, ?d1)"
    by (simp add: insert_fill_def fill_row_def execution_exists_def has_order_def get_order_def d fields
        demo_event_def bigint_def numeric_18_2_def numeric_20_4_def fills_ok_def)
  let ?p = "\<lparr>pos_account = 0, pos_instrument = 1, pos_symbol = ''AAPL'', pos_qty = 1, pos_basis = 1995000\<rparr>"
  let ?d2 = "?d1\<lparr>positions := [?p]\<rparr>"
  let ?e = "trade_entry demo_filled_order demo_event 1 1995000 19950 ''x1''"
  have nxt: "next_position js_decimal demo_filled_order (get_position ?d1 0 1) 1 19950 0 = Inr ?p"
    by (simp add: next_position_def apply_buy_fill_def get_position_def basis_add_money_def d fields)
  have up: "upsert_position ?p ?d1 = Inr ?d2"
    by (simp add: upsert_position_def positions_ok_def has_account_def has_instrument_def d demo_account_def
        demo_instrument_def bigint_def numeric_18_2_def numeric_20_4_def)
  have e: "ne_amount ?e = -19950" "ne_account ?e = 0" "ne_ref ?e = Some (Ref_fill DETERMINISTIC ''x1'')"
    by (simp_all add: trade_entry_def fields demo_event_def)
  note e = e[unfolded One_nat_def]
  have "ledger_ok [deposit_row, entry_row ?e 4 0]"
    by (simp add: ledger_ok_def unique_index_def e deposit_row_def transfer_ref_def)
  then have "insert_entry ?e ?d2 = Inr (entry_row ?e 4 0, ?d2\<lparr>ledger := [deposit_row, entry_row ?e 4 0], next_id := 5\<rparr>)"
    by (simp add: insert_entry_Inr entry_row_def d has_account_def demo_account_def e)
  then have post: "post ?e ?d2 = Inr (entry_row ?e 4 0, demo_settled)"
    by (simp add: post_def post_via_def e d demo_settled_def adjust_cash_def demo_account_def)
  have ev: "ev_fill_qty demo_event = Some 1" "ev_fill_price demo_event = Some 1995000"
    "ev_execution demo_event = Some ''x1''" "ev_fee demo_event = None"
    by (simp_all add: demo_event_def)
  show ?thesis
    using ins nxt up post by (simp add: apply_fill_effects_def ev truthy_def demo_fill_cents fields d Let_def)
qed

lemma demo_event_tx: "event_tx js_decimal demo_event demo_placed = Inr ((), demo_settled)"
proof -
  have a: "lock_account demo_placed 0 = Inr demo_account"
    by (simp add: lock_account_def get_account_def demo_placed_def demo_defs)
  have ev: "is_fill_event (ev_type demo_event)" "ev_execution demo_event = Some ''x1''" "ev_client_order demo_event = 3"
    by (simp_all add: demo_event_def is_fill_event_def)
  have x: "\<not> execution_exists demo_placed b x" for b x
    by (simp add: execution_exists_def demo_placed_def demo_defs)
  show ?thesis
    by (simp add: event_tx_def apply_event_def ev demo_order_wf(3) a lock_order_def truthy_def x demo_transition_of
        demo_transition demo_effects)
qed

lemma demo_event_fresh: "\<not> event_recorded demo_event demo_placed" "identified demo_event"
  "is_fill_event (ev_type demo_event)"
  by (simp_all add: event_recorded_def event_seen_def event_exists_def execution_exists_def demo_event_def
      demo_placed_def demo_defs identified_def is_fill_event_def transition_of_def truthy_def)

lemma demo_delivery: "on_broker_event js_decimal demo_event demo_placed = (Inr (), demo_settled)"
  by (simp add: on_broker_event_def run_tx_def demo_event_tx)

theorem fill_booked_exactly_witness:
  "\<exists>f. fills demo_settled = fills demo_placed @ [f] \<and> fl_notional f = 19950
     \<and> position_qty demo_settled 0 1 = position_qty demo_placed 0 1 + 1
     \<and> get_cached_cash demo_settled 0 = Inr 80050"
proof -
  have c: "get_cached_cash demo_placed 0 = Inr 100000"
    by (simp add: get_cached_cash_eq get_account_def demo_placed_def demo_defs)
  have ev: "ev_client_order demo_event = 3" "ev_fill_qty demo_event = Some 1"
    "ev_fill_price demo_event = Some 1995000" "fee_of demo_event = 0"
    by (simp_all add: demo_event_def fee_of_def)
  from fill_booked_exactly[OF demo_delivery demo_event_fresh(3,2,1)] show ?thesis
    by (elim exE conjE) (use c in \<open>auto simp: ev demo_order_wf(3) demo_fill_cents fill_cash_of_def\<close>)
qed

end
