(* ===== verification/Event_Delivery.thy ===== *)
theory Event_Delivery
  imports Execution_Correct
begin

text \<open>
  The exactly-once boundary of \<^verbatim>\<open>ExecutionService.onBrokerEvent\<close> (\<^verbatim>\<open>src/core/execution/execution.ts\<close>)
  over whole histories: redeliveries of an event, or of its execution under another envelope, and a
  fill that arrives after its order was closed.
\<close>

lemma deliver_invariants:
  assumes "schema_ok d"
  shows "schema_ok (deliver D ev d)"
  by (cases rule: deliver_cases[of D ev d]) (use assms in \<open>auto intro: schema_event_tx\<close>)

lemma deliver_ids: "map ord_id (orders (deliver D ev d)) = map ord_id (orders d)"
proof (cases rule: deliver_cases[of D ev d])
  case committed
  from event_tx_grows[OF committed] show ?thesis by simp
qed simp

lemma history_invariants:
  "schema_ok d \<Longrightarrow> schema_ok (fold (deliver D) es d)"
  "map ord_id (orders (fold (deliver D) es d)) = map ord_id (orders d)"
  by (induction es arbitrary: d) (simp_all add: deliver_invariants deliver_ids)

lemma get_order_ids:
  assumes "get_order d i = Some r" "map ord_id (orders d') = map ord_id (orders d)"
  obtains r' where "get_order d' i = Some r'"
proof -
  from get_order_Some[OF assms(1)] have "i \<in> set (map ord_id (orders d))" by auto
  then have "i \<in> ord_id ` set (orders d')" unfolding assms(2)[symmetric] by simp
  then have "get_order d' i \<noteq> None" by (auto simp: get_order_def find_None_iff)
  with that show thesis by blast
qed

lemma lock_succeeds:
  assumes "schema_ok d" "get_order d i = Some r"
  obtains a where "lock_account d (ord_account r) = Inr a"
proof -
  from get_order_Some[OF assms(2)] have "r \<in> set (orders d)" by simp
  with assms(1) have "has_account d (ord_account r)" by (simp add: schema_defs list_all_iff)
  with that show thesis by (auto simp: has_account_get lock_account_def)
qed

text \<open>A recorded event is acknowledged without a change.\<close>

lemma recorded_acknowledged:
  assumes "schema_ok d" "event_recorded ev d" "get_order d (ev_client_order ev) = Some r"
    and "is_fill_event (ev_type ev) \<Longrightarrow> truthy (ev_execution ev) \<noteq> None"
  shows "on_broker_event D ev d = (Inr (), d)"
proof -
  from lock_succeeds[OF assms(1,3)] obtain a where "lock_account d (ord_account r) = Inr a" .
  with assms(2-4) show ?thesis
    by (auto simp: on_broker_event_def run_tx_def event_tx_def lock_order_def apply_event_def
        apply_transition_def event_recorded_def)
qed

definition same_execution :: "broker_event \<Rightarrow> broker_event \<Rightarrow> bool" where
  "same_execution e f \<longleftrightarrow> is_fill_event (ev_type e) \<and> is_fill_event (ev_type f)
     \<and> ev_broker e = ev_broker f \<and> ev_execution e = ev_execution f
     \<and> ev_client_order e = ev_client_order f"

text \<open>
  C7: Exactly once. After a broker event with an identity was accepted, the same event may be
  delivered again at any later time, with any other events in between: it is acknowledged and
  changes nothing, and so every later copy of it can be dropped from the history. If the event is a
  fill that was new when it was accepted, the same holds of every event that carries the same
  execution under another envelope (another external id, type, quantity or price).
\<close>

theorem redelivery_changes_nothing:
  assumes "on_broker_event D ev d = (Inr (), d')" "identified ev" "schema_ok d"
    and "ev' = ev \<or> same_execution ev ev' \<and> \<not> event_recorded ev d"
  shows "on_broker_event D ev' (fold (deliver D) es d') = (Inr (), fold (deliver D) es d')
    \<and> fold (deliver D) es d' = fold (deliver D) (filter (\<lambda>x. x \<noteq> ev') es) d'"
proof -
  from assms(1) have tx: "event_tx D ev d = Inr ((), d')"
    by (auto simp: on_broker_event_def run_tx_def split: sum.splits)
  from tx obtain ord where g: "get_order d (ev_client_order ev) = Some ord"
    and ex: "is_fill_event (ev_type ev) \<Longrightarrow> truthy (ev_execution ev) \<noteq> None"
    by (auto simp: event_tx_def result_simps split: if_splits)
  have schema: "schema_ok d'" by (rule schema_event_tx[OF tx assms(3)])
  let ?h = "fold (deliver D) es d'"
  have rec: "event_recorded ev' d'"
  proof (cases "ev' = ev")
    case True
    with committed_recorded[OF tx assms(2)] show ?thesis by simp
  next
    case False
    with assms(4) have same: "same_execution ev ev'" and new: "\<not> event_recorded ev d" by auto
    from same have fill: "is_fill_event (ev_type ev)" by (simp add: same_execution_def)
    from fresh_fill[OF tx fill assms(2) new] obtain r d1 where fx: "apply_fill_effects D r ev d1 = Inr ((), d')" .
    from fx show ?thesis
      by (cases rule: fill_effects_shape)
        (use same in \<open>auto simp: event_recorded_def same_execution_def execution_exists_def fill_row_def\<close>)
  qed
  have id: "ev_client_order ev' = ev_client_order ev"
    "is_fill_event (ev_type ev') \<Longrightarrow> truthy (ev_execution ev') \<noteq> None"
    using assms(4) ex by (auto simp: same_execution_def)
  have "map ord_id (orders ?h) = map ord_id (orders d)"
    using history_invariants(2)[of D es d'] event_tx_grows[OF tx] by simp
  from get_order_ids[OF g this] obtain r' where "get_order ?h (ev_client_order ev') = Some r'" unfolding id .
  from recorded_acknowledged[OF history_invariants(1)[OF schema] delivery.recorded_fold[OF rec] this id(2)]
    delivery.duplicates_dropped[OF rec]
  show ?thesis by blast
qed

text \<open>The same execution reported again by reconciliation, under a synthesized envelope.\<close>

definition demo_replayed :: broker_event where
  "demo_replayed = demo_event\<lparr>ev_external := Some ''recon'', ev_type := ORDER_FILLED\<rparr>"

theorem redelivery_changes_nothing_witness:
  "on_broker_event js_decimal demo_replayed demo_settled = (Inr (), demo_settled)"
proof -
  have "same_execution demo_event demo_replayed"
    by (simp add: same_execution_def demo_replayed_def demo_event_def is_fill_event_def)
  with redelivery_changes_nothing[OF demo_delivery demo_event_fresh(2) demo_placed_ok(1),
      of demo_replayed "[]"] demo_event_fresh(1)
  show ?thesis by simp
qed

section \<open>A fill for a closed order\<close>

text \<open>
  C13: A late fill is booked in full but not counted. If a new execution arrives for an order that is
  already closed, the order keeps its state and its filled quantity and is flagged for attention, yet
  the fill row, and with it the position and the cash of \<open>fill_booked_exactly\<close>, is written: the
  fills of the order now exceed its filled quantity, and for a FILLED order they exceed the quantity
  that was ordered. The comment in \<^verbatim>\<open>applyTransition\<close> calls this branch audit-only.
\<close>

theorem late_fill_overfills:
  assumes "on_broker_event D ev d = (Inr (), d')" "is_fill_event (ev_type ev)" "identified ev"
    "\<not> event_recorded ev d" "orders_wf d" "fills_match d"
    "get_order d (ev_client_order ev) = Some ord" "is_terminal (ord_state ord)"
  shows "\<exists>r. get_order d' (ord_id ord) = Some r \<and> ord_state r = ord_state ord \<and> ord_attention r
    \<and> ord_filled r = ord_filled ord \<and> ord_filled r < fills_total d' (ord_id ord)
    \<and> (if ord_state ord = FILLED then ord_qty r < fills_total d' (ord_id ord) else True)"
proof -
  from assms(1) have tx: "event_tx D ev d = Inr ((), d')"
    by (auto simp: on_broker_event_def run_tx_def split: sum.splits)
  from fresh_fill[OF tx assms(2-4)] obtain x r d1
    where "get_order d (ev_client_order ev) = Some x"
      and "apply_transition D x (transition_of ev) d = Inr (Some r, d1)"
      and fx: "apply_fill_effects D r ev d1 = Inr ((), d')" .
  with assms(7) have t: "apply_transition D ord (transition_of ev) d = Inr (Some r, d1)" by simp
  have self: "get_order d (ord_id ord) = Some ord" using assms(7) by (rule get_order_self)
  note keys = transition_row_keys[OF t self] and frame = transition_frame[OF t self]
  from get_order_Some[OF self] assms(5) have wf: "order_wf ord" by (auto simp: orders_wf_def list_all_iff)
  from fx show ?thesis
  proof (cases rule: fill_effects_shape)
    case (1 q p ex nxt rows)
    from transition_of_fill[OF t self assms(2) 1(1)] assms(8)
    have r: "ord_state r = ord_state ord" "ord_filled r = ord_filled ord" "ord_attention r" by simp_all
    have "get_order d' (ord_id ord) = Some r"
      using transition_row_get[OF t self] fill_effects_orders(1)[OF fx] by (simp add: get_order_def)
    moreover have "fills_total d' (ord_id ord) = fills_total d (ord_id ord) + q"
      using frame(1) by (simp add: 1(8) fills_total_def fill_row_def keys)
    with fills_matchD[OF assms(6) self] \<open>0 < q\<close>
    have "ord_filled ord < fills_total d' (ord_id ord)" by simp
    moreover have "ord_state ord = FILLED \<Longrightarrow> ord_filled ord = ord_qty ord"
      using wf by (simp add: order_wf_def)
    ultimately show ?thesis using r keys by auto
  qed
qed

text \<open>The running example with a quantity of 1: filled, and then filled again by a second execution.\<close>

definition demo_done_order :: order where
  "demo_done_order = demo_order\<lparr>ord_qty := 1, ord_filled := 1, ord_reserved := 0, ord_state := FILLED\<rparr>"

definition demo_done :: db where
  "demo_done = demo_settled\<lparr>orders := [demo_done_order]\<rparr>"

definition demo_late :: broker_event where
  "demo_late = demo_event\<lparr>ev_external := Some ''e2'', ev_execution := Some ''x2''\<rparr>"

definition demo_flagged :: order where
  "demo_flagged = apply_patch (no_patch\<lparr>pt_attention := Some True\<rparr>) 0 demo_done_order"

lemma demo_done_fields:
  "get_order demo_done 3 = Some demo_done_order" "orders demo_done = [demo_done_order]"
  "order_events demo_done = order_events demo_moved" "fills demo_done = fills demo_settled"
  "db_now demo_done = 0"
  by (simp_all add: demo_done_def demo_done_order_def get_order_def demo_settled_def demo_moved_def demo_placed_def
      demo_defs)

lemma demo_flag:
  "\<exists>d1. apply_transition js_decimal demo_done_order (transition_of demo_late) demo_done
     = Inr (Some demo_flagged, d1) \<and> fills d1 = fills demo_settled \<and> positions d1 = positions demo_settled
     \<and> ledger d1 = ledger demo_settled \<and> accounts d1 = accounts demo_settled
     \<and> instruments d1 = [demo_instrument] \<and> next_id d1 = 5 \<and> orders d1 = [demo_flagged]"
proof -
  let ?ev = "transition_of demo_late" and ?o = demo_done_order
  have seen: "\<not> event_seen ?ev demo_done"
    by (simp add: event_seen_def event_exists_def demo_done_fields demo_moved_def demo_late_def demo_event_def
        truthy_def event_row_def demo_fill_event_def)
  have plan: "plan_event (ord_state ?o) (te_type ?ev) = Inr ([], True)"
    by (simp add: plan_event_def demo_late_def demo_event_def demo_done_order_def is_fill_event_def
        plan_transitions_def is_terminal_def terminal_states_def invalid_transition_def app_error_def)
  let ?row = "event_row ?o ?ev []"
  let ?d1 = "demo_done\<lparr>order_events := order_events demo_moved @ [?row]\<rparr>"
  have "order_events_ok (order_events demo_moved @ [?row])"
    by (simp add: order_events_ok_def event_key_def demo_moved_def event_row_def demo_late_def demo_event_def
        demo_fill_event_def transition_of_def unique_index_def)
  then have ins: "insert_event ?row demo_done = Inr (True, ?d1)"
    by (auto simp: insert_event_Inr demo_done_fields event_row_def has_order_def demo_done_order_def demo_moved_def
        event_key_def demo_late_def demo_event_def demo_fill_event_def)
  have "orders_ok [demo_flagged]"
    by (simp add: orders_ok_def demo_flagged_def demo_done_order_def demo_order_def apply_patch_def no_patch_def
       order_check_def bigint_def numeric_18_2_def unique_index_def broker_order_key_def or_else_def)
  then have upd: "update_order 3 (no_patch\<lparr>pt_attention := Some True\<rparr>) ?d1 = Inr (?d1\<lparr>orders := [demo_flagged]\<rparr>)"
    by (simp add: update_order_def demo_done_fields demo_flagged_def demo_done_order_def)
  have "get_order (?d1\<lparr>orders := [demo_flagged]\<rparr>) 3 = Some demo_flagged"
    by (simp add: get_order_def demo_flagged_def demo_done_order_def)
  then show ?thesis
    using plan seen ins upd
    by (simp add: apply_transition_def flag_order_def must_get_def demo_done_def demo_done_order_def
       demo_settled_def demo_moved_def demo_placed_def demo_defs)
qed

lemma demo_late_tx: "\<exists>d'. on_broker_event js_decimal demo_late demo_done = (Inr (), d')"
proof -
  from demo_flag obtain d1 where
    t: "apply_transition js_decimal demo_done_order (transition_of demo_late) demo_done = Inr (Some demo_flagged, d1)"
    and d: "fills d1 = fills demo_settled" "positions d1 = positions demo_settled"
     "ledger d1 = ledger demo_settled" "accounts d1 = accounts demo_settled"
     "instruments d1 = [demo_instrument]" "next_id d1 = 5" "orders d1 = [demo_flagged]" by blast
  have fields: "ord_account demo_flagged = 0" "ord_instrument demo_flagged = 1" "ord_id demo_flagged = 3"
    "ord_symbol demo_flagged = ''AAPL''" "ord_side demo_flagged = BUY"
    by (simp_all add: demo_flagged_def demo_done_order_def demo_order_def)
  have ev: "ev_fill_qty demo_late = Some 1" "ev_fill_price demo_late = Some 1995000"
    "ev_execution demo_late = Some ''x2''" "ev_fee demo_late = None" "ev_broker demo_late = DETERMINISTIC"
    "ev_client_order demo_late = 3" "is_fill_event (ev_type demo_late)"
    by (simp_all add: demo_late_def demo_event_def is_fill_event_def)
  let ?f = "fill_row demo_flagged demo_late 1 1995000 0 19950 ''x2'' (db_now d1)"
  let ?e = "trade_entry demo_flagged demo_late 1 1995000 19950 ''x2''"
  let ?p = "\<lparr>pos_account = 0, pos_instrument = 1, pos_symbol = ''AAPL'', pos_qty = 2, pos_basis = 3990000\<rparr>"
  let ?d2 = "d1\<lparr>fills := fills demo_settled @ [?f]\<rparr>" and ?d3 = "d1\<lparr>fills := fills demo_settled @ [?f], positions := [?p]\<rparr>"
  have ins: "insert_fill ?f d1 = Inr (True, ?d2)"
    by (simp add: insert_fill_Inr execution_exists_def has_order_def d fields fill_row_def ev demo_settled_def
        fills_ok_def demo_event_def)
  have nxt: "next_position js_decimal demo_flagged (get_position ?d2 0 1) 1 19950 0 = Inr ?p"
    by (simp add: next_position_def apply_buy_fill_def get_position_def basis_add_money_def d fields demo_settled_def)
  have up: "upsert_position ?p ?d2 = Inr ?d3"
    by (simp add: upsert_position_def positions_ok_def has_account_def has_instrument_def d demo_account_def
        demo_instrument_def bigint_def numeric_18_2_def numeric_20_4_def demo_settled_def modify_def)
  have e: "ne_amount ?e = -19950" "ne_account ?e = 0" "ne_ref ?e = Some (Ref_fill DETERMINISTIC ''x2'')"
    by (simp_all add: trade_entry_def fields ev)
  have "ledger_ok (ledger demo_settled @ [entry_row ?e 5 (db_now d1)])"
    using e by (simp add: ledger_ok_def unique_index_def deposit_row_def transfer_ref_def demo_settled_def
        trade_entry_def)
  then have "insert_entry ?e ?d3 = Inr (entry_row ?e 5 (db_now d1),
      ?d3\<lparr>ledger := ledger demo_settled @ [entry_row ?e 5 (db_now d1)], next_id := 6\<rparr>)"
    by (simp add: insert_entry_Inr entry_row_def d has_account_def demo_account_def e[unfolded One_nat_def] demo_settled_def)
  then obtain d4 where post: "post ?e ?d3 = Inr (entry_row ?e 5 (db_now d1), d4)"
    using e by (simp add: post_def post_via_def)
  have fx: "apply_fill_effects js_decimal demo_flagged demo_late d1 = Inr ((), d4)"
    using ins nxt up post by (simp add: apply_fill_effects_def ev truthy_def demo_fill_cents fields Let_def)
  have "lock_account demo_done 0 = Inr (demo_account\<lparr>acc_cash := 80050\<rparr>)"
    by (simp add: lock_account_def get_account_def demo_done_def demo_settled_def demo_account_def)
  moreover have "\<not> execution_exists demo_done DETERMINISTIC ''x2''"
    by (simp add: execution_exists_def demo_done_fields demo_settled_def fill_row_def demo_event_def)
  ultimately show ?thesis
    using t fx by (simp add: on_broker_event_def run_tx_def event_tx_def apply_event_def ev demo_done_fields(1)
        lock_order_def truthy_def demo_done_order_def)
qed

theorem late_fill_overfills_witness:
  "\<exists>d'. on_broker_event js_decimal demo_late demo_done = (Inr (), d') \<and> 1 < fills_total d' 3"
proof -
  from demo_late_tx obtain d' where "on_broker_event js_decimal demo_late demo_done = (Inr (), d')" by blast
  moreover have "is_fill_event (ev_type demo_late)" "identified demo_late" "ev_client_order demo_late = 3"
    by (simp_all add: demo_late_def demo_event_def is_fill_event_def identified_def)
  moreover have "\<not> event_recorded demo_late demo_done"
    by (simp add: event_recorded_def event_seen_def event_exists_def execution_exists_def demo_late_def demo_event_def
      demo_done_fields demo_settled_def demo_moved_def event_row_def demo_fill_event_def fill_row_def
      transition_of_def truthy_def is_fill_event_def)
  moreover have "orders_wf demo_done" "fills_match demo_done"
    by (simp_all add: orders_wf_def demo_done_fields demo_done_order_def order_wf_def fills_match_def
        fills_total_def demo_settled_def fill_row_def)
  moreover have "is_terminal (ord_state demo_done_order)" "ord_state demo_done_order = FILLED"
    "ord_qty demo_done_order = 1" "ord_id demo_done_order = 3"
    by (simp_all add: demo_done_order_def is_terminal_def terminal_states_def)
  ultimately show ?thesis
    using late_fill_overfills[of js_decimal demo_late demo_done d' demo_done_order] demo_done_fields(1)
    by (auto simp: demo_done_order_def)
qed

end
