(* ===== verification/Execution_Submit.thy ===== *)
theory Execution_Submit
  imports Event_Delivery
begin

text \<open>
  The routing of orders to a venue (\<^verbatim>\<open>ExecutionService.submit\<close>, \<^verbatim>\<open>requestVenueCancel\<close>) against the
  contract of the broker port: whatever a venue does while it serves a call, it touches the database
  only by delivering events. The locale \<open>venue_port\<close> states the contract; the deterministic broker
  is its interpretation in the program.
\<close>

section \<open>The invariants of trading\<close>

definition trading_ok :: "db \<Rightarrow> bool" where
  "trading_ok d \<longleftrightarrow> schema_ok d \<and> in_balance d \<and> orders_wf d \<and> fills_match d \<and> cents_basis d"

lemma trading_okD:
  "trading_ok d \<Longrightarrow> schema_ok d" "trading_ok d \<Longrightarrow> in_balance d" "trading_ok d \<Longrightarrow> orders_wf d"
  "trading_ok d \<Longrightarrow> fills_match d" "trading_ok d \<Longrightarrow> cents_basis d"
  by (simp_all add: trading_ok_def)

lemma trading_event_tx:
  assumes "decimal_arith D" "event_tx D ev d = Inr (u, d')" "trading_ok d"
  shows "trading_ok d'"
  using assms unfolding trading_ok_def
  by (auto intro: schema_event_tx in_balance_event_tx orders_wf_event_tx fills_match_event_tx cents_event_tx)

lemma trading_deliver: "decimal_arith D \<Longrightarrow> trading_ok d \<Longrightarrow> trading_ok (deliver D ev d)"
  by (cases rule: deliver_cases[of D ev d]) (auto intro: trading_event_tx)

lemma trading_history: "decimal_arith D \<Longrightarrow> trading_ok d \<Longrightarrow> trading_ok (fold (deliver D) es d)"
  by (induction es arbitrary: d) (simp_all add: trading_deliver)

text \<open>A transition without a fill keeps fills and filled quantities in step.\<close>

lemma fills_match_transition:
  assumes "apply_transition D ord ev d = Inr (out, d')" "get_order d (ord_id ord) = Some ord"
    "schema_ok d" "fills_match d" "te_fill_qty ev = None"
  shows "fills_match d'"
proof (cases out)
  case None
  with assms(1,2) show ?thesis
    by (cases rule: apply_transition_cases) (use assms(4) in simp_all)
next
  case (Some r)
  with assms(1) have t: "apply_transition D ord ev d = Inr (Some r, d')" by simp
  from transition_modifies[OF t assms(2)] obtain f where f:
    "orders d' = modify (\<lambda>x. ord_id x = ord_id ord) f (orders d)" "f ord = r" .
  have same: "fills_total d' j = fills_total d j" for j
    by (rule fills_total_same) (rule transition_frame(1)[OF t assms(2)])
  from transition_row_filled[OF t assms(2)] assms(5)
  have row: "ord_filled r = ord_filled ord \<and> (\<not> ord_attention r \<longrightarrow> \<not> ord_attention ord)"
    by (auto simp: filled_after_def split: if_splits)
  show ?thesis
    by (rule fills_match_modify[OF assms(3,4,2) _ f(1)])
       (use f(2) same row fills_matchD[OF assms(4,2)] transition_row_keys(1)[OF t assms(2)] in auto)
qed

lemma trading_transition:
  assumes "decimal_arith D" "apply_transition D ord ev d = Inr (out, d')"
    "get_order d (ord_id ord) = Some ord" "trading_ok d" "te_fill_qty ev = None"
  shows "trading_ok d'"
proof -
  have "positions d' = positions d"
    using apply_transition_frame[OF assms(2,3)] by auto
  with assms(4) have "cents_basis d'" by (simp add: trading_ok_def cents_basis_def)
  with assms show ?thesis
    unfolding trading_ok_def
    by (auto intro: schema_apply_transition apply_transition_in_balance orders_wf_apply_transition
        fills_match_transition)
qed

lemma trading_place:
  assumes "decimal_arith D" "prices_positive inp" "place_tx D cfg inp d = Inr ((r, b), d')" "trading_ok d"
  shows "trading_ok d'"
proof -
  from assms(3) have "fills_match d' \<and> cents_basis d'"
  proof (cases rule: place_tx_cases)
    case (replay a)
    with trading_okD(4,5)[OF assms(4)] show ?thesis by simp
  next
    case (placed a m)
    note r = insert_order_Some[OF placed(6)]
    then have d': "d' = d\<lparr>orders := orders d @ [r], next_id := next_id d + 1\<rparr>" by blast
    from assms(4) have s: "references_ok d" "ids_fresh d" by (simp_all add: trading_ok_def schema_ok_def)
    have "fl_order f \<noteq> next_id d" if "f \<in> set (fills d)" for f
    proof -
      from s(1) that have "has_order d (fl_order f)" by (simp add: references_ok_def list_all_iff)
      then obtain x where "x \<in> set (orders d)" "ord_id x = fl_order f"
        by (auto simp: has_order_def list_ex_iff)
      moreover from this(1) s(2) have "ord_id x < next_id d" by (simp add: ids_fresh_def list_all_iff)
      ultimately show ?thesis by simp
    qed
    then have "fills_total d (next_id d) = 0" by (simp add: fills_total_def total_none)
    moreover have "fills_total d' j = fills_total d j" for j by (rule fills_total_same) (simp add: d')
    moreover have "orders d' = orders d @ [r]" by (simp add: d')
    moreover have "ord_id r = next_id d" "ord_filled r = 0" using r by simp_all
    ultimately show ?thesis
      using assms(4) by (simp add: trading_ok_def fills_match_def cents_basis_def d')
  qed
  moreover have "schema_ok d'" by (rule schema_place_tx[OF assms(3) trading_okD(1)[OF assms(4)]])
  moreover have "in_balance d'" by (rule place_tx_in_balance[OF assms(3) trading_okD(2)[OF assms(4)]])
  moreover have "orders_wf d'" by (rule orders_wf_place_tx[OF assms(1-3) trading_okD(3)[OF assms(4)]])
  ultimately show ?thesis by (simp add: trading_ok_def)
qed

lemma trading_request_cancel:
  assumes "decimal_arith D" "request_cancel D i t d = Inr (r, d')" "trading_ok d"
  shows "trading_ok d'"
proof -
  from assms(2) obtain ord where g: "get_order d i = Some ord"
    by (auto simp: request_cancel_def split: option.splits)
  from trading_transition[OF assms(1) _ get_order_self[OF g] assms(3)] assms(2,3) show ?thesis
    by (auto simp: request_cancel_def g result_simps split: if_splits)
qed

lemma trading_submit_failed:
  assumes "decimal_arith D" "submit_failed_tx D k t i d = Inr (u, d')" "trading_ok d"
  shows "trading_ok d'"
proof -
  from assms(2) obtain ord where g: "get_order d i = Some ord"
    by (auto simp: submit_failed_tx_def lock_order_def result_simps)
  from trading_transition[OF assms(1) _ get_order_self[OF g] assms(3)] assms(2) show ?thesis
    by (auto simp: submit_failed_tx_def lock_order_def g result_simps)
qed

section \<open>The outcomes of a submission\<close>

definition submit_request :: "order \<Rightarrow> string \<Rightarrow> qty \<Rightarrow> order_request" where
  "submit_request r account q = \<lparr>rq_client_order = ord_id r, rq_account = account,
     rq_symbol = ord_symbol r, rq_side = ord_side r, rq_type = ord_type r, rq_qty = q,
     rq_limit = ord_limit r, rq_tif = ord_tif r, rq_extended_hours = False\<rparr>"

lemma exec_submit_cases:
  assumes "exec_submit D br now i w = (res, w')"
  obtains (unsent) "w' = w"
  | (sent) r a q x where "load_for_venue (snd w) i = Inr (r, a)" "ord_state r = PENDING_SUBMISSION"
      "br_submit br (submit_request r a q) w = (Inr x, w')" "res = Inr ()"
  | (retried) r a q e w1 x where "load_for_venue (snd w) i = Inr (r, a)" "ord_state r = PENDING_SUBMISSION"
      "br_submit br (submit_request r a q) w = (Inl e, w1)"
      "br_submit br (submit_request r a q) w1 = (Inr x, w')" "res = Inr ()"
  | (known) r a q e w1 err w2 sn where "load_for_venue (snd w) i = Inr (r, a)"
      "ord_state r = PENDING_SUBMISSION" "br_submit br (submit_request r a q) w = (Inl e, w1)"
      "br_submit br (submit_request r a q) w1 = (Inl err, w2)"
      "br_get_order br a i w2 = (Inr (Some sn), w')" "res = Inl err"
  | (abandoned) r a q e w1 err w2 y v3 d3 where "load_for_venue (snd w) i = Inr (r, a)"
      "ord_state r = PENDING_SUBMISSION" "br_submit br (submit_request r a q) w = (Inl e, w1)"
      "br_submit br (submit_request r a q) w1 = (Inl err, w2)"
      "br_get_order br a i w2 = (y, (v3, d3))" "\<forall>sn. y \<noteq> Inr (Some sn)"
      "(res, w') = (case run_tx (submit_failed_tx D (br_kind br) now i) d3 of (res, d4) \<Rightarrow> (res, (v3, d4)))"
proof (cases "load_for_venue (snd w) i")
  case (Inl e)
  with assms unsent show thesis by (simp add: exec_submit_def)
next
  case (Inr ra)
  obtain r a where ra: "ra = (r, a)" by (cases ra)
  note load = Inr[unfolded ra]
  have id: "ord_id r = i" using load by (auto simp: load_for_venue_def result_simps dest: get_order_Some)
  show thesis
  proof (cases "ord_state r = PENDING_SUBMISSION")
    case False
    with load assms unsent show thesis by (simp add: exec_submit_def)
  next
    case True
    show thesis
    proof (cases "remaining_qty r")
      case (Inl e)
      with load True assms unsent show thesis by (simp add: exec_submit_def)
    next
      case (Inr q)
      obtain x w1 where s1: "br_submit br (submit_request r a q) w = (x, w1)" by (rule prod.exhaust)
      obtain y w2 where s2: "br_submit br (submit_request r a q) w1 = (y, w2)" by (rule prod.exhaust)
      obtain z v3 d3 where s3: "br_get_order br a i w2 = (z, (v3, d3))" by (metis prod.exhaust)
      note eq = assms[unfolded exec_submit_def load]
      show thesis
      proof (cases x)
        case (Inr x')
        with eq True \<open>remaining_qty r = Inr q\<close> s1 have "res = Inr ()" "w' = w1"
          by (simp_all add: submit_request_def Let_def)
        with sent[OF load True] s1 Inr show thesis by simp
      next
        case x: (Inl e)
        show thesis
        proof (cases y)
          case (Inr y')
          with eq True \<open>remaining_qty r = Inr q\<close> s1 s2 x have "res = Inr ()" "w' = w2"
            by (simp_all add: submit_request_def Let_def)
          with retried[OF load True] s1 s2 x Inr show thesis by simp
        next
          case y: (Inl err)
          show thesis
          proof (cases "\<exists>sn. z = Inr (Some sn)")
            case True
            then obtain sn where "z = Inr (Some sn)" ..
            with eq \<open>ord_state r = PENDING_SUBMISSION\<close> \<open>remaining_qty r = Inr q\<close> s1 s2 s3 x y id
            have "res = Inl err" "w' = (v3, d3)" by (simp_all add: submit_request_def Let_def)
            with known[OF load \<open>ord_state r = PENDING_SUBMISSION\<close>] s1 s2 s3 x y \<open>z = Inr (Some sn)\<close>
            show thesis by simp
          next
            case False
            with eq \<open>ord_state r = PENDING_SUBMISSION\<close> \<open>remaining_qty r = Inr q\<close> s1 s2 s3 x y id
            have "(res, w') = (case run_tx (submit_failed_tx D (br_kind br) now i) d3 of
                (res, d4) \<Rightarrow> (res, (v3, d4)))"
              by (cases z) (auto simp: submit_request_def Let_def split: option.splits)
            with abandoned[OF load \<open>ord_state r = PENDING_SUBMISSION\<close>] s1 s2 s3 x y False
            show thesis by simp
          qed
        qed
      qed
    qed
  qed
qed

section \<open>The contract of a venue\<close>

text \<open>
  \<^verbatim>\<open>Broker\<close> (\<^verbatim>\<open>broker.ts\<close>): outcomes arrive as events through the subscription, so a call changes the
  database only by deliveries, and looking an order up changes nothing.
\<close>

locale venue_port =
  fixes br :: "'v broker" and D :: decimal_lib
  assumes submit_delivers: "br_submit br rq (v, d) = (x, (v', d')) \<Longrightarrow> \<exists>es. d' = fold (deliver D) es d"
    and cancel_delivers: "br_cancel br a i (v, d) = (c, (v', d')) \<Longrightarrow> \<exists>es. d' = fold (deliver D) es d"
    and lookup_reads: "br_get_order br a i (v, d) = (s, (v', d')) \<Longrightarrow> d' = d"
begin

lemma submit_effect:
  assumes "exec_submit D br now i (v, d) = (res, (v', d'))"
  obtains es where "d' = fold (deliver D) es d"
  | es where "d' = snd (run_tx (submit_failed_tx D (br_kind br) now i) (fold (deliver D) es d))"
proof -
  have twice: "\<exists>es. d2 = fold (deliver D) es d"
    if "br_submit br rq (v, d) = (x, (v1, d1))" "br_submit br rq (v1, d1) = (y, (v2, d2))" for rq x y v1 d1 v2 d2
  proof -
    from submit_delivers[OF that(1)] submit_delivers[OF that(2)] obtain es fs
      where "d1 = fold (deliver D) es d" "d2 = fold (deliver D) fs d1" by blast
    then have "d2 = fold (deliver D) (es @ fs) d" by simp
    then show ?thesis ..
  qed
  from assms show thesis
  proof (cases rule: exec_submit_cases)
    case unsent
    then show thesis by (intro that(1)[of "[]"]) simp
  next
    case (sent r a q x)
    with submit_delivers[OF sent(3)[simplified]] that(1) show thesis by blast
  next
    case (retried r a q e w1 x)
    with twice that(1) show thesis by (metis prod.collapse)
  next
    case (known r a q e w1 err w2 sn)
    obtain v2 d2 where w2: "w2 = (v2, d2)" by (cases w2)
    with known twice obtain es where "d2 = fold (deliver D) es d" by (metis prod.collapse)
    moreover have "d' = d2" using lookup_reads known(5) unfolding w2 .
    ultimately show thesis using that(1) by blast
  next
    case (abandoned r a q e w1 err w2 y v3 d3)
    obtain v2 d2 where w2: "w2 = (v2, d2)" by (cases w2)
    with abandoned twice obtain es where "d2 = fold (deliver D) es d" by (metis prod.collapse)
    moreover have "d3 = d2" using lookup_reads abandoned(5) unfolding w2 .
    ultimately show thesis using that(2)[of es] abandoned(7) by (auto split: prod.splits)
  qed
qed

lemma submit_keeps:
  assumes "decimal_arith D" "trading_ok d" "exec_submit D br now i (v, d) = (res, (v', d'))"
  shows "trading_ok d'"
  using assms(3)
proof (cases rule: submit_effect)
  case (1 es)
  with trading_history[OF assms(1,2)] show ?thesis by simp
next
  case (2 es)
  with trading_history[OF assms(1,2), of es] trading_submit_failed[OF assms(1)] show ?thesis
    by (auto simp: run_tx_def split: sum.splits)
qed

lemma cancel_keeps:
  assumes "decimal_arith D" "trading_ok d" "request_venue_cancel br i (v, d) = (res, (v', d'))"
  shows "trading_ok d'"
proof (cases "load_for_venue d i")
  case (Inl e)
  with assms(2,3) show ?thesis by (simp add: request_venue_cancel_def)
next
  case (Inr ra)
  with assms(3) have "br_cancel br (snd ra) (ord_id (fst ra)) (v, d) = (res, (v', d'))"
    by (auto simp: request_venue_cancel_def split: prod.splits)
  from cancel_delivers[OF this] trading_history[OF assms(1,2)] show ?thesis by auto
qed

end

section \<open>A submission that fails\<close>

lemma plan_submit_failed:
  "plan_transitions PENDING_SUBMISSION ORDER_SUBMIT_FAILED
     = Inr [\<lparr>step_from = PENDING_SUBMISSION, step_to = SUBMIT_FAILED, step_inferred = False\<rparr>]"
  by (simp add: plan_transitions_def is_fill_event_def)

lemma submit_failed_closes:
  assumes "decimal_arith D" "submit_failed_tx D k now i d = Inr (u, d')" "get_order d i = Some r"
    "ord_state r = PENDING_SUBMISSION"
  obtains r' where "get_order d' i = Some r'" "ord_state r' = SUBMIT_FAILED" "ord_reserved r' = 0"
    "ord_filled r' = ord_filled r"
proof -
  let ?ev = "\<lparr>te_type = ORDER_SUBMIT_FAILED, te_source = Src_local, te_broker = Some k,
        te_broker_order = None, te_external = None, te_occurred = now, te_reason = None,
        te_fill_qty = None, te_reject = Some ''submission failed''\<rparr>"
  have id: "ord_id r = i" using assms(3) by (auto dest: get_order_Some)
  from assms(2,3) obtain out where t: "apply_transition D r ?ev d = Inr (out, d')"
    by (auto simp: submit_failed_tx_def lock_order_def result_simps)
  have self: "get_order d (ord_id r) = Some r" using assms(3) id by simp
  have steps: "end_state PENDING_SUBMISSION
      [\<lparr>step_from = PENDING_SUBMISSION, step_to = SUBMIT_FAILED, step_inferred = False\<rparr>] = SUBMIT_FAILED"
    by (simp add: end_state_def)
  have key: "event_key (event_row r ?ev st) = None" for st by (simp add: event_key_def event_row_def)
  have seen: "\<not> event_seen ?ev d" by (simp add: event_seen_def truthy_def)
  have "out \<noteq> None"
  proof
    assume "out = None"
    with transition_duplicate[of D r ?ev d d'] t key seen show False by auto
  qed
  then obtain r' where out: "out = Some r'" by blast
  from t[unfolded out] self obtain r'' where "r'' = r'" "ord_state r' = SUBMIT_FAILED" "ord_reserved r' = 0"
    "ord_filled r' = ord_filled r"
  proof (cases rule: apply_transition_cases)
    case (audit p)
    then show ?thesis by (simp add: plan_event_def assms(4) plan_submit_failed)
  next
    case (moved steps' es st n m)
    from moved(1) have "steps' = [\<lparr>step_from = PENDING_SUBMISSION, step_to = SUBMIT_FAILED, step_inferred = False\<rparr>]"
      by (simp add: assms(4) plan_submit_failed)
    with moved(2) steps have st: "st = SUBMIT_FAILED" by (simp add: assms(4))
    with moved(6) have "m = 0"
      by (auto simp: next_reservation_def Let_def result_simps open_states_def split: if_splits)
    with moved(3,9) st show ?thesis by (intro that[of r']) (simp_all add: filled_after_def)
  qed simp
  with transition_row_get[OF t[unfolded out] self] that show thesis by (simp add: id)
qed

lemma submit_failed_accepted:
  assumes "decimal_arith D" "schema_ok d" "orders_wf d" "get_order d i = Some r"
    "ord_state r = PENDING_SUBMISSION" "ord_broker_id r = None"
  obtains d' where "submit_failed_tx D k now i d = Inr ((), d')"
proof -
  let ?ev = "\<lparr>te_type = ORDER_SUBMIT_FAILED, te_source = Src_local, te_broker = Some k,
        te_broker_order = None, te_external = None, te_occurred = now, te_reason = None,
        te_fill_qty = None, te_reject = Some ''submission failed''\<rparr>"
  let ?sp = "\<lparr>step_from = PENDING_SUBMISSION, step_to = SUBMIT_FAILED, step_inferred = False\<rparr>"
  have plan: "plan_transitions (ord_state r) (te_type ?ev) = Inr [?sp]"
    by (simp add: assms(5) plan_submit_failed)
  have "get_order d (ord_id r) = Some r" using assms(4) by (rule get_order_self)
  then obtain r' d' where "apply_transition D r ?ev d = Inr (Some r', d')"
    by (rule local_event_accepted[OF assms(1-3), of r ?ev ?sp]) (simp_all add: assms(6) plan[simplified])
  with that assms(4) show thesis by (simp add: submit_failed_tx_def lock_order_def)
qed

text \<open>
  With a venue that reports asynchronously (its calls leave the database alone), \<open>submit\<close> changes
  the database only in one way: the order was still waiting for submission, both submissions threw,
  the lookup did not return the order, and then it is marked SUBMIT_FAILED with its reservation
  released and its filled quantity kept. In every other case, every error included, nothing changes.
\<close>

theorem submit_fails_only_unconfirmed:
  assumes "decimal_arith D"
    and "\<And>rq v d. snd (snd (br_submit br rq (v, d))) = d"
    and "\<And>a i v d. snd (snd (br_get_order br a i (v, d))) = d"
    and "exec_submit D br now i (v, d) = (res, (v', d'))" "d' \<noteq> d"
  shows "res = Inr () \<and> (\<exists>r a q r' e1 v1 e2 v2 y.
      load_for_venue d i = Inr (r, a) \<and> ord_state r = PENDING_SUBMISSION
    \<and> br_submit br (submit_request r a q) (v, d) = (Inl e1, (v1, d))
    \<and> br_submit br (submit_request r a q) (v1, d) = (Inl e2, (v2, d))
    \<and> br_get_order br a i (v2, d) = (y, (v', d)) \<and> (case y of Inr (Some s) \<Rightarrow> False | _ \<Rightarrow> True)
    \<and> get_order d' i = Some r' \<and> ord_state r' = SUBMIT_FAILED \<and> ord_reserved r' = 0
    \<and> ord_filled r' = ord_filled r)"
proof -
  have kept: "d1 = d0" if "br_submit br rq (v0, d0) = (x, (v1, d1))" for rq v0 d0 x v1 d1
    using assms(2)[of rq v0 d0] that by simp
  have read: "d1 = d0" if "br_get_order br a j (v0, d0) = (x, (v1, d1))" for a j v0 d0 x v1 d1
    using assms(3)[of a j v0 d0] that by simp
  from assms(4) show ?thesis
  proof (cases rule: exec_submit_cases)
    case unsent
    with assms(5) show ?thesis by simp
  next
    case (sent r a q x)
    with kept assms(5) show ?thesis by blast
  next
    case (retried r a q e w1 x)
    obtain v1 d1 where "w1 = (v1, d1)" by (cases w1)
    with retried(3,4) have "d1 = d" "d' = d1" by (auto dest: kept)
    with assms(5) show ?thesis by simp
  next
    case (known r a q e w1 err w2 sn)
    obtain v1 d1 v2 d2 where w: "w1 = (v1, d1)" "w2 = (v2, d2)" by (cases w1; cases w2)
    with known(3,4,5) have "d1 = d" "d2 = d1" "d' = d2" by (auto dest: kept read)
    with assms(5) show ?thesis by simp
  next
    case (abandoned r a q e w1 err w2 y v3 d3)
    obtain v1 d1 v2 d2 where w: "w1 = (v1, d1)" "w2 = (v2, d2)" by (cases w1; cases w2)
    with abandoned(3,4,5) have d: "d1 = d" "d2 = d" "d3 = d" by (auto dest: kept read)
    from abandoned(7) assms(5) d(3) have tx: "submit_failed_tx D (br_kind br) now i d = Inr ((), d')"
      and res: "res = Inr ()" "v3 = v'"
      by (auto simp: run_tx_def split: sum.splits)
    have g: "get_order d i = Some r"
      using abandoned(1) by (auto simp: load_for_venue_def result_simps)
    from submit_failed_closes[OF assms(1) tx g abandoned(2)] obtain r' where
      "get_order d' i = Some r'" "ord_state r' = SUBMIT_FAILED" "ord_reserved r' = 0" "ord_filled r' = ord_filled r" .
    moreover have "case y of Inr (Some s) \<Rightarrow> False | _ \<Rightarrow> True"
      using abandoned(6) by (auto split: sum.splits option.splits)
    ultimately show ?thesis
      using abandoned(1-5) res unfolding w d by simp blast
  qed
qed

text \<open>
  C14: A lookup that throws counts as a lookup that found nothing. If both submissions throw and the
  lookup throws too (say the venue is unreachable), the order is marked SUBMIT_FAILED, its
  reservation released and success returned, whatever the venue holds: nothing was proved about
  the venue, although the comment of \<open>submit\<close> asks for proof that it never received the order.
\<close>

theorem failed_lookup_abandons_order:
  assumes "decimal_arith D" "trading_ok d" "load_for_venue d i = Inr (r, a)"
    and "ord_state r = PENDING_SUBMISSION" "ord_broker_id r = None" "remaining_qty r = Inr q"
    and "br_submit br (submit_request r a q) (v, d) = (Inl e1, (v1, d))"
    and "br_submit br (submit_request r a q) (v1, d) = (Inl e2, (v2, d))"
    and "br_get_order br a i (v2, d) = (Inl e3, (v3, d))"
  shows "\<exists>d' r'. exec_submit D br now i (v, d) = (Inr (), (v3, d')) \<and> get_order d' i = Some r'
    \<and> ord_state r' = SUBMIT_FAILED \<and> ord_reserved r' = 0 \<and> ord_filled r' = ord_filled r"
proof -
  have g: "get_order d i = Some r" and id: "ord_id r = i"
    using assms(3) by (auto simp: load_for_venue_def result_simps dest: get_order_Some)
  obtain d' where tx: "submit_failed_tx D (br_kind br) now i d = Inr ((), d')"
    by (rule submit_failed_accepted[OF assms(1) trading_okD(1,3)[OF assms(2)] g assms(4,5)])
  then have "exec_submit D br now i (v, d) = (Inr (), (v3, d'))"
    using assms id by (simp add: exec_submit_def submit_request_def Let_def run_tx_def)
  moreover from submit_failed_closes[OF assms(1) tx g assms(4)] obtain r' where
    "get_order d' i = Some r'" "ord_state r' = SUBMIT_FAILED" "ord_reserved r' = 0" "ord_filled r' = ord_filled r" .
  ultimately show ?thesis by blast
qed

text \<open>A venue that accepts the order, records that it holds it, and loses every answer.\<close>

definition silent_venue :: "bool broker" where
  "silent_venue = \<lparr>br_kind = ALPACA_PAPER,
     br_submit = (\<lambda>rq (v, d). (Inl (JsError ''timeout''), (True, d))),
     br_cancel = (\<lambda>a i w. (Inl (JsError ''timeout''), w)),
     br_get_order = (\<lambda>a i w. (Inl (JsError ''timeout''), w))\<rparr>"

lemma demo_load: "load_for_venue demo_placed 3 = Inr (demo_order, ''ext'')"
proof -
  have "get_broker_account demo_placed 0 = Some \<lparr>ref_broker = DETERMINISTIC, ref_external = ''ext''\<rparr>"
    by (simp add: get_broker_account_def demo_placed_def demo_defs)
  then show ?thesis by (simp add: load_for_venue_def demo_order_wf(3))
qed

lemma demo_remaining: "remaining_qty demo_order = Inr 4"
  by (simp add: remaining_qty_def demo_order_def qty_subtract_def)

lemma demo_trading_ok: "trading_ok demo_placed"
  using demo_placed_ok by (simp add: trading_ok_def fills_match_def fills_total_def cents_basis_def
      demo_placed_def demo_order_def demo_defs)

theorem failed_lookup_abandons_order_witness:
  "\<exists>d' r'. exec_submit js_decimal silent_venue 9 3 (False, demo_placed) = (Inr (), (True, d'))
    \<and> get_order d' 3 = Some r' \<and> ord_state r' = SUBMIT_FAILED \<and> ord_reserved r' = 0"
proof -
  have venue: "br_submit silent_venue rq (v, d) = (Inl (JsError ''timeout''), (True, d))"
    "br_get_order silent_venue a i (v, d) = (Inl (JsError ''timeout''), (v, d))" for rq v d a i
    by (simp_all add: silent_venue_def)
  have "ord_broker_id demo_order = None" by (simp add: demo_order_def)
  from failed_lookup_abandons_order[OF js.decimal_arith_axioms demo_trading_ok demo_load demo_order_fields(2) this
      demo_remaining venue(1,1,2), of 9 False]
  show ?thesis by blast
qed

lemma silent_submission:
  "\<exists>d'. exec_submit js_decimal silent_venue 9 3 (False, demo_placed) = (Inr (), (True, d')) \<and> d' \<noteq> demo_placed"
proof -
  have "ord_broker_id demo_order = None" by (simp add: demo_order_def)
  then obtain d' where tx: "submit_failed_tx js_decimal ALPACA_PAPER 9 3 demo_placed = Inr ((), d')"
    by (rule submit_failed_accepted[OF js.decimal_arith_axioms demo_placed_ok(1,2) demo_order_wf(3) demo_order_fields(2)])
  from submit_failed_closes[OF js.decimal_arith_axioms tx demo_order_wf(3)] obtain r'
    where "get_order d' 3 = Some r'" "ord_state r' = SUBMIT_FAILED" by (metis demo_order_fields(2))
  then have "d' \<noteq> demo_placed" using demo_order_wf(3) by auto
  with tx show ?thesis
    by (simp add: exec_submit_def demo_load demo_remaining silent_venue_def run_tx_def Let_def)
qed

theorem submit_fails_only_unconfirmed_witness:
  "\<exists>d' r'. exec_submit js_decimal silent_venue 9 3 (False, demo_placed) = (Inr (), (True, d'))
    \<and> get_order d' 3 = Some r' \<and> ord_state r' = SUBMIT_FAILED \<and> ord_filled r' = 0"
proof -
  from silent_submission obtain d' where d': "d' \<noteq> demo_placed"
    "exec_submit js_decimal silent_venue 9 3 (False, demo_placed) = (Inr (), (True, d'))" by blast
  have async: "snd (snd (br_submit silent_venue rq (v, d))) = d" "snd (snd (br_get_order silent_venue a i (v, d))) = d"
    for rq v d a i by (simp_all add: silent_venue_def)
  from submit_fails_only_unconfirmed[OF js.decimal_arith_axioms async d'(2,1)] d'(2) demo_load show ?thesis
    by auto
qed

end
