(* ===== verification/Cash_Rules.thy ===== *)
theory Cash_Rules
  imports Ledger
begin

text \<open>
  \<^verbatim>\<open>src/core/cash-transfers/rules.ts\<close>: the pure rules of paper deposits and withdrawals, and the
  types of the venue port that \<^verbatim>\<open>service.ts\<close> declares.
\<close>

record transfer_limits =
  min_amount :: money
  max_per_transfer :: money
  daily_deposit_cap :: money
  deposit_window :: time

definition default_transfer_limits :: transfer_limits where
  "default_transfer_limits = \<lparr>min_amount = 100, max_per_transfer = 5000000,
     daily_deposit_cap = 5000000, deposit_window = 24 * 60 * 60000\<rparr>"

definition amount_re :: "string \<Rightarrow> bool" where
  "amount_re = decimal_re False (\<lambda>n. n \<le> 16) (\<lambda>n. n \<le> 2)"

text \<open>The raw value is a string, or something else (\<open>None\<close>).\<close>

definition parse_transfer_amount :: "string option \<Rightarrow> money result" where
  "parse_transfer_amount raw =
     (case raw of
        None \<Rightarrow> app_error VALIDATION INVALID_AMOUNT
      | Some s \<Rightarrow>
          if \<not> amount_re s then app_error VALIDATION INVALID_AMOUNT
          else ebind (money_from_string s) (\<lambda>amount.
            if amount = 0 then app_error VALIDATION INVALID_AMOUNT else Inr amount))"

definition compute_withdrawable :: "money \<Rightarrow> money \<Rightarrow> money \<Rightarrow> money" where
  "compute_withdrawable cash reserved pending =
     (let free = cash - reserved - pending in if money_is_negative free then 0 else free)"

definition deposit_remaining :: "transfer_limits \<Rightarrow> money \<Rightarrow> money" where
  "deposit_remaining limits deposited =
     (let left = daily_deposit_cap limits - deposited in if money_is_negative left then 0 else left)"

definition check_transfer_request ::
    "transfer_direction \<Rightarrow> money \<Rightarrow> transfer_limits \<Rightarrow> money \<Rightarrow> money \<Rightarrow> unit result" where
  "check_transfer_request dir amount limits withdrawable deposited =
     (if amount < min_amount limits then app_error DOMAIN_RULE AMOUNT_TOO_SMALL
      else if money_compare amount (max_per_transfer limits) > 0 then app_error DOMAIN_RULE AMOUNT_TOO_LARGE
      else if dir = DEPOSIT then
        if money_compare amount (deposit_remaining limits deposited) > 0
        then app_error DOMAIN_RULE DEPOSIT_LIMIT else Inr ()
      else if money_compare amount withdrawable > 0
        then app_error DOMAIN_RULE INSUFFICIENT_WITHDRAWABLE else Inr ())"

fun direction_text :: "transfer_direction \<Rightarrow> string" where
  "direction_text DEPOSIT = ''DEPOSIT''"
| "direction_text WITHDRAWAL = ''WITHDRAWAL''"

definition request_fingerprint :: "transfer_direction \<Rightarrow> money \<Rightarrow> string" where
  "request_fingerprint dir amount = direction_text dir @ '':'' @ money_to_string amount"

definition can_transition :: "transfer_state \<Rightarrow> transfer_state \<Rightarrow> bool" where
  "can_transition from to \<longleftrightarrow> from = PENDING \<and> to \<noteq> PENDING"

definition is_terminal_transfer_state :: "transfer_state \<Rightarrow> bool" where
  "is_terminal_transfer_state st \<longleftrightarrow> st \<noteq> PENDING"

section \<open>The venue port\<close>

datatype venue_state = V_pending | V_settled | V_failed

record venue_transfer =
  vt_id :: string
  vt_direction :: transfer_direction
  vt_amount :: money
  vt_state :: venue_state
  vt_failure :: "string option"
  vt_created :: time

record venue_listing =
  vl_transfers :: "venue_transfer list"
  vl_complete :: bool

text \<open>The venue is a state of its own; every call may fail and may change it.\<close>

record 'v cash_venue =
  cv_initiate :: "broker_ref \<Rightarrow> uuid \<Rightarrow> transfer_direction \<Rightarrow> money \<Rightarrow> 'v \<Rightarrow> venue_transfer result \<times> 'v"
  cv_get :: "broker_ref \<Rightarrow> string \<Rightarrow> 'v \<Rightarrow> venue_transfer option result \<times> 'v"
  cv_list :: "broker_ref \<Rightarrow> time \<Rightarrow> 'v \<Rightarrow> venue_listing result \<times> 'v"
  cv_cancel :: "broker_ref \<Rightarrow> string \<Rightarrow> 'v \<Rightarrow> bool result \<times> 'v"

section \<open>What the rules guarantee\<close>

lemma check_transfer_request_Inr [result_simps]:
  "check_transfer_request dir amount limits w dep = Inr u \<longleftrightarrow>
     min_amount limits \<le> amount \<and> amount \<le> max_per_transfer limits
   \<and> (if dir = DEPOSIT then amount \<le> deposit_remaining limits dep else amount \<le> w)"
  by (auto simp: check_transfer_request_def money_compare_def sgn_if)

lemma compute_withdrawable_le: "0 < m \<Longrightarrow> m \<le> compute_withdrawable cash r p \<Longrightarrow> m \<le> cash - r - p"
  by (auto simp: compute_withdrawable_def Let_def money_is_negative_def split: if_splits)

lemma deposit_remaining_le: "0 < m \<Longrightarrow> m \<le> deposit_remaining l dep \<Longrightarrow> dep + m \<le> daily_deposit_cap l"
  by (auto simp: deposit_remaining_def Let_def money_is_negative_def split: if_splits)

lemma fingerprint_inject [simp]:
  "request_fingerprint d m = request_fingerprint d' m' \<longleftrightarrow> d = d' \<and> m = m'"
  by (cases d; cases d') (auto simp: request_fingerprint_def money_to_string_def)

lemma amount_re_money: "amount_re s \<Longrightarrow> money_re s"
  by (auto simp: amount_re_def money_re_def decimal_re_def split: option.splits prod.splits)

lemma amount_re_text: "amount_re (money_to_string m) \<longleftrightarrow> 0 \<le> m \<and> m < 10 ^ 18"
proof -
  have "nat \<bar>m\<bar> div 100 < 10 ^ 16 \<longleftrightarrow> nat \<bar>m\<bar> < 10 ^ 18" by (simp add: div_less_iff_less_mult)
  then show ?thesis
    by (auto simp: amount_re_def money_to_string_def decimal_re_fixed_text length_show_nat_iff)
qed

lemma amount_re_bound:
  assumes "amount_re s"
  shows "0 \<le> scaled 2 s" "scaled 2 s < 10 ^ 18"
  using scaled_nonneg decimal_re_bound[of 16 2 s] assms by (auto simp: amount_re_def)

text \<open>
  Parsing a transfer amount is exact and total. The printed form of an amount parses back to it
  exactly when it is positive and has at most sixteen whole digits; every other printed amount is a
  VALIDATION error. Whatever the client sends, the result is that error or a positive amount that
  fits the NUMERIC(18,2) column.
\<close>

theorem transfer_amount_exact:
  "parse_transfer_amount (Some (money_to_string m))
     = (if 0 < m \<and> m < 10 ^ 18 then Inr m else app_error VALIDATION INVALID_AMOUNT)
   \<and> (case parse_transfer_amount raw of
        Inl e \<Rightarrow> e = AppError VALIDATION (Some INVALID_AMOUNT)
      | Inr a \<Rightarrow> 0 < a \<and> numeric_18_2 a)"
proof
  have "money_from_string (money_to_string m) = Inr m"
    by (simp add: money_from_string_def money_to_string_def money_re_def decimal_re_fixed_text)
  then show "parse_transfer_amount (Some (money_to_string m))
     = (if 0 < m \<and> m < 10 ^ 18 then Inr m else app_error VALIDATION INVALID_AMOUNT)"
    by (auto simp: parse_transfer_amount_def amount_re_text)
  show "case parse_transfer_amount raw of
        Inl e \<Rightarrow> e = AppError VALIDATION (Some INVALID_AMOUNT)
      | Inr a \<Rightarrow> 0 < a \<and> numeric_18_2 a"
  proof (cases raw)
    case None
    then show ?thesis by (simp add: parse_transfer_amount_def app_error_def)
  next
    case (Some s)
    show ?thesis
    proof (cases "amount_re s")
      case True
      with amount_re_bound[OF True] amount_re_money[OF True] Some show ?thesis
        by (auto simp: parse_transfer_amount_def money_from_string_def app_error_def numeric_18_2_def)
    next
      case False
      with Some show ?thesis by (simp add: parse_transfer_amount_def app_error_def)
    qed
  qed
qed

end
