(* ===== verification/Cash_Transfers.thy ===== *)
theory Cash_Transfers
  imports Cash_Rules Orders
begin

text \<open>
  \<^verbatim>\<open>src/core/cash-transfers/service.ts\<close>: paper deposits and withdrawals against the venue. Every
  transaction of the service is a definition of its own (\<open>request_tx\<close>, \<open>link_tx\<close>, \<open>venue_state_tx\<close>,
  \<open>finish_tx\<close>, \<open>watch_tx\<close>, \<open>cancel_pending_for_account\<close>), and the service functions compose them with
  the calls of the venue. The clock is read once per call (\<open>now\<close>). A failure of the database while
  loading is not modelled; logging is not modelled.
\<close>

definition recovery_window_ms :: time where "recovery_window_ms = 5 * 60000"
definition reset_watch_ms :: time where "reset_watch_ms = 7 * 24 * 60 * 60000"

definition reset_cancel_reason :: string where
  "reset_cancel_reason = ''Canceled by account reset''"
definition inactive_cancel_reason :: string where
  "inactive_cancel_reason = ''Account is no longer active''"
definition venue_confirmed_suffix :: string where
  "venue_confirmed_suffix = '' (venue confirmed it never settled)''"
definition venue_settled_anyway_reason :: string where
  "venue_settled_anyway_reason =
     ''Canceled by account reset, but the venue settled it anyway. Operator review required.''"

record transfers_config =
  tc_limits :: transfer_limits
  tc_grace :: time
  tc_history :: nat

definition transfers_config_ok :: "transfers_config \<Rightarrow> unit result" where
  "transfers_config_ok cfg =
     invariant (tc_grace cfg > recovery_window_ms) ''venueGraceMs must exceed the recovery window''"

record transfer_request =
  rt_account :: uuid
  rt_direction :: transfer_direction
  rt_amount :: money
  rt_key :: string

section \<open>Figures\<close>

definition deposited_in_window :: "transfers_config \<Rightarrow> time \<Rightarrow> db \<Rightarrow> account \<Rightarrow> money" where
  "deposited_in_window cfg now d a =
     (let since = now - deposit_window (tc_limits cfg);
          opening = (if acc_created a \<ge> since then acc_starting a else 0)
      in sum_deposits_since d (acc_id a) since + opening)"

record cash_summary =
  cs_status :: account_status
  cs_cash :: money
  cs_reserved :: money
  cs_pending_deposits :: money
  cs_pending_withdrawals :: money
  cs_withdrawable :: money
  cs_min :: money
  cs_max :: money
  cs_deposit_remaining :: money
  cs_transfers :: "cash_transfer list"

definition summary :: "transfers_config \<Rightarrow> time \<Rightarrow> uuid \<Rightarrow> db \<Rightarrow> cash_summary result" where
  "summary cfg now i d =
     ebind (of_option (InvariantViolation ''summary: account not found'') (get_account d i)) (\<lambda>a.
     let reserved = sum_open_buy_reservations d i;
         withdrawals = sum_pending d i WITHDRAWAL
     in Inr \<lparr>cs_status = acc_status a, cs_cash = acc_cash a, cs_reserved = reserved,
             cs_pending_deposits = sum_pending d i DEPOSIT, cs_pending_withdrawals = withdrawals,
             cs_withdrawable = (if acc_status a = ACTIVE
                                then compute_withdrawable (acc_cash a) reserved withdrawals else 0),
             cs_min = min_amount (tc_limits cfg), cs_max = max_per_transfer (tc_limits cfg),
             cs_deposit_remaining =
               deposit_remaining (tc_limits cfg) (deposited_in_window cfg now d a),
             cs_transfers = list_transfers d i (tc_history cfg)\<rparr>)"

section \<open>A request\<close>

definition assert_same_request :: "cash_transfer \<Rightarrow> string \<Rightarrow> cash_transfer result" where
  "assert_same_request existing fingerprint =
     (if tr_hash existing \<noteq> fingerprint then app_error CONFLICT IDEMPOTENCY_CONFLICT
      else Inr existing)"

definition new_transfer_of :: "transfer_request \<Rightarrow> uuid \<Rightarrow> new_transfer" where
  "new_transfer_of inp account =
     \<lparr>nt_account = account, nt_direction = rt_direction inp, nt_amount = rt_amount inp,
      nt_key = rt_key inp, nt_hash = request_fingerprint (rt_direction inp) (rt_amount inp)\<rparr>"

definition request_tx ::
    "transfers_config \<Rightarrow> time \<Rightarrow> transfer_request \<Rightarrow> db \<Rightarrow> ((cash_transfer \<times> broker_ref option) \<times> db) result"
  where
  "request_tx cfg now inp d =
     (let fingerprint = request_fingerprint (rt_direction inp) (rt_amount inp) in
     ebind (lock_account d (rt_account inp)) (\<lambda>account.
       case find_transfer_key d (acc_id account) (rt_key inp) of
         Some existing \<Rightarrow>
           ebind (assert_same_request existing fingerprint) (\<lambda>t. Inr ((t, None), d))
       | None \<Rightarrow>
           if acc_status account \<noteq> ACTIVE then app_error DOMAIN_RULE ACCOUNT_NOT_ACTIVE
           else
             let withdrawable = (if rt_direction inp = WITHDRAWAL
                   then compute_withdrawable (acc_cash account)
                          (sum_open_buy_reservations d (acc_id account))
                          (sum_pending d (acc_id account) WITHDRAWAL)
                   else 0);
                 deposited = (if rt_direction inp = DEPOSIT
                   then deposited_in_window cfg now d account else 0)
             in
             ebind (check_transfer_request (rt_direction inp) (rt_amount inp) (tc_limits cfg)
                      withdrawable deposited) (\<lambda>_.
             ebind (of_option (InvariantViolation ''active account has no venue account'')
                      (get_broker_account d (acc_id account))) (\<lambda>ref.
             ebind (insert_transfer (new_transfer_of inp (acc_id account)) d) (\<lambda>(inserted, d1).
               case inserted of
                 Some t \<Rightarrow> Inr ((t, Some ref), d1)
               | None \<Rightarrow>
                   ebind (of_option
                       (InvariantViolation ''idempotency conflict without a matching transfer'')
                       (find_transfer_key d1 (acc_id account) (rt_key inp))) (\<lambda>raced.
                   ebind (assert_same_request raced fingerprint) (\<lambda>t. Inr ((t, None), d1))))))))"

section \<open>Applying the venue's answer\<close>

definition must_get_transfer :: "db \<Rightarrow> uuid \<Rightarrow> cash_transfer result" where
  "must_get_transfer d i = of_option (InvariantViolation ''transfer not found'') (get_transfer d i)"

definition transfer_entry :: "cash_transfer \<Rightarrow> uuid \<Rightarrow> money \<Rightarrow> new_entry" where
  "transfer_entry t account amount =
     \<lparr>ne_account = account,
      ne_type = (if tr_direction t = DEPOSIT then Entry_deposit else Entry_withdrawal),
      ne_amount = amount, ne_ref = Some (Ref_transfer (tr_id t)),
      ne_description = (if tr_direction t = DEPOSIT then ''Deposit (simulated)''
                        else ''Withdrawal (simulated)'')\<rparr>"

definition settle_locked :: "time \<Rightarrow> account \<Rightarrow> cash_transfer \<Rightarrow> db \<Rightarrow> db result" where
  "settle_locked now account t d =
     ebind (invariant (can_transition (tr_state t) SETTLED) ''settle: transfer not PENDING'') (\<lambda>_.
     ebind (if tr_direction t = WITHDRAWAL
            then ebind (invariant (acc_cash account \<ge> tr_amount t) ''withdrawal exceeds cash'')
                   (\<lambda>_. Inr (- tr_amount t))
            else Inr (tr_amount t)) (\<lambda>amount.
     ebind (post (transfer_entry t (acc_id account) amount) d) (\<lambda>(_, d1).
       set_transfer_state (tr_id t) SETTLED None (Some now) d1)))"

definition link_tx :: "uuid \<Rightarrow> uuid \<Rightarrow> string \<Rightarrow> db \<Rightarrow> (unit \<times> db) result" where
  "link_tx account i venue_id d =
     ebind (lock_account d account) (\<lambda>_.
       case get_transfer d i of
         None \<Rightarrow> Inr ((), d)
       | Some t \<Rightarrow>
           if truthy (tr_venue t) = None
           then ebind (set_venue_transfer_id i venue_id d) (\<lambda>d1. Inr ((), d1))
           else Inr ((), d))"

definition venue_state_tx ::
    "time \<Rightarrow> uuid \<Rightarrow> uuid \<Rightarrow> venue_transfer \<Rightarrow> db \<Rightarrow> (transfer_state \<times> db) result" where
  "venue_state_tx now account_id i vt d =
     ebind (lock_account d account_id) (\<lambda>account.
     ebind (of_option (InvariantViolation ''transfer vanished'') (get_transfer d i)) (\<lambda>t.
       if tr_state t \<noteq> PENDING then Inr (tr_state t, d)
       else if acc_status account \<noteq> ACTIVE then
         ebind (set_transfer_state (tr_id t) CANCELED
             (Some (if vt_state vt = V_settled then venue_settled_anyway_reason
                    else inactive_cancel_reason)) None d) (\<lambda>d1. Inr (CANCELED, d1))
       else
         ebind (invariant (vt_direction vt = tr_direction t \<and> vt_amount vt = tr_amount t)
             ''venue transfer does not match'') (\<lambda>_.
           case vt_state vt of
             V_pending \<Rightarrow> Inr (PENDING, d)
           | V_failed \<Rightarrow>
               ebind (set_transfer_state (tr_id t) FAILED
                   (Some (case_option ''Rejected by the venue'' id (vt_failure vt))) None d)
                 (\<lambda>d1. Inr (FAILED, d1))
           | V_settled \<Rightarrow>
               ebind (settle_locked now account t d) (\<lambda>d1. Inr (SETTLED, d1)))))"

definition apply_venue_state ::
    "time \<Rightarrow> uuid \<Rightarrow> venue_transfer \<Rightarrow> db \<Rightarrow> transfer_state result \<times> db" where
  "apply_venue_state now i vt d =
     (case must_get_transfer d i of
        Inl e \<Rightarrow> (Inl e, d)
      | Inr current \<Rightarrow>
          (case (if truthy (tr_venue current) = None
                 then run_tx (link_tx (tr_account current) i (vt_id vt)) d else (Inr (), d)) of
             (Inl e, d1) \<Rightarrow> (Inl e, d1)
           | (Inr _, d1) \<Rightarrow> run_tx (venue_state_tx now (tr_account current) i vt) d1))"

definition finish_tx :: "uuid \<Rightarrow> uuid \<Rightarrow> transfer_state \<Rightarrow> string \<Rightarrow> db \<Rightarrow> (transfer_state \<times> db) result" where
  "finish_tx account i st reason d =
     ebind (lock_account d account) (\<lambda>_.
     ebind (of_option (InvariantViolation ''transfer vanished'') (get_transfer d i)) (\<lambda>t.
       if \<not> can_transition (tr_state t) st then Inr (tr_state t, d)
       else ebind (set_transfer_state i st (Some reason) None d) (\<lambda>d1. Inr (st, d1))))"

definition finish :: "uuid \<Rightarrow> transfer_state \<Rightarrow> string \<Rightarrow> db \<Rightarrow> transfer_state result \<times> db" where
  "finish i st reason d =
     (case must_get_transfer d i of
        Inl e \<Rightarrow> (Inl e, d)
      | Inr t \<Rightarrow> run_tx (finish_tx (tr_account t) i st reason) d)"

text \<open>
  \<open>request\<close>: the transaction, then the venue, then its answer. What the venue or the application of
  its answer throws is caught: a definitive rejection fails the transfer, anything else leaves it.
\<close>

definition request ::
    "transfers_config \<Rightarrow> 'v cash_venue \<Rightarrow> time \<Rightarrow> transfer_request \<Rightarrow> 'v \<times> db
      \<Rightarrow> (cash_transfer \<times> bool) result \<times> ('v \<times> db)" where
  "request cfg venue now inp w =
     (case run_tx (request_tx cfg now inp) (snd w) of
        (Inl e, d) \<Rightarrow> (Inl e, (fst w, d))
      | (Inr (t, None), d) \<Rightarrow> (Inr (t, True), (fst w, d))
      | (Inr (t, Some ref), d) \<Rightarrow>
          let (answer, v1) = cv_initiate venue ref (tr_id t) (tr_direction t) (tr_amount t) (fst w);
              (applied, d1) = (case answer of
                 Inl e \<Rightarrow> (Inl e, d)
               | Inr vt \<Rightarrow> apply_venue_state now (tr_id t) vt d);
              (handled, d2) = (case applied of
                 Inl (TransferRejected reason) \<Rightarrow> finish (tr_id t) FAILED reason d1
               | _ \<Rightarrow> (Inr PENDING, d1))
          in (case handled of
                Inl e \<Rightarrow> (Inl e, (v1, d2))
              | Inr _ \<Rightarrow> (ebind (must_get_transfer d2 (tr_id t)) (\<lambda>r. Inr (r, False)), (v1, d2))))"

section \<open>Synchronisation with the venue\<close>

record sweep_result =
  sw_accounts :: nat
  sw_transfers :: nat
  sw_settled :: nat
  sw_failed :: nat
  sw_errors :: nat
  sw_diverged :: nat

definition empty_sweep :: sweep_result where
  "empty_sweep = \<lparr>sw_accounts = 0, sw_transfers = 0, sw_settled = 0, sw_failed = 0,
     sw_errors = 0, sw_diverged = 0\<rparr>"

text \<open>The venue transfers that may be the one whose id was lost, closest in time first.\<close>

definition recovery_candidates :: "cash_transfer \<Rightarrow> venue_listing \<Rightarrow> venue_transfer list" where
  "recovery_candidates t listing =
     sort_key (\<lambda>c. \<bar>vt_created c - tr_created t\<bar>)
       (filter (\<lambda>c. vt_direction c = tr_direction t \<and> vt_amount c = tr_amount t
          \<and> \<bar>vt_created c - tr_created t\<bar> \<le> recovery_window_ms) (vl_transfers listing))"

definition recover_one ::
    "time \<Rightarrow> cash_transfer \<Rightarrow> venue_listing \<Rightarrow> db \<Rightarrow> transfer_state result \<times> db" where
  "recover_one now t listing d =
     (case find (\<lambda>c. \<not> venue_id_linked d (vt_id c)) (recovery_candidates t listing) of
        Some c \<Rightarrow> apply_venue_state now (tr_id t) c d
      | None \<Rightarrow>
          if \<not> vl_complete listing then (Inr (tr_state t), d)
          else finish (tr_id t) FAILED ''The transfer never reached the venue'' d)"

definition sync_one ::
    "transfers_config \<Rightarrow> 'v cash_venue \<Rightarrow> time \<Rightarrow> cash_transfer \<Rightarrow> broker_ref option
      \<Rightarrow> venue_listing option \<Rightarrow> 'v \<times> db \<Rightarrow> transfer_state result \<times> ('v \<times> db)" where
  "sync_one cfg venue now t ref listing w =
     (let past_grace = now - tr_created t > tc_grace cfg;
          on_db = (\<lambda>(r, d). (r, (fst w, d)))
      in case ref of
        None \<Rightarrow>
          if \<not> past_grace then (Inr (tr_state t), w)
          else on_db (finish (tr_id t) FAILED ''No venue account for this transfer'' (snd w))
      | Some rf \<Rightarrow>
          (case truthy (tr_venue t) of
             Some vid \<Rightarrow>
               (case (case listing of None \<Rightarrow> None
                      | Some l \<Rightarrow> find (\<lambda>c. vt_id c = vid) (vl_transfers l)) of
                  Some listed \<Rightarrow> on_db (apply_venue_state now (tr_id t) listed (snd w))
                | None \<Rightarrow>
                    (case cv_get venue rf vid (fst w) of
                       (Inl e, v1) \<Rightarrow> (Inl e, (v1, snd w))
                     | (Inr (Some vt), v1) \<Rightarrow>
                         (case apply_venue_state now (tr_id t) vt (snd w) of (r, d) \<Rightarrow> (r, (v1, d)))
                     | (Inr None, v1) \<Rightarrow>
                         if \<not> past_grace then (Inr (tr_state t), (v1, snd w))
                         else (case finish (tr_id t) FAILED
                                 ''The venue has no record of this transfer'' (snd w) of
                               (r, d) \<Rightarrow> (r, (v1, d)))))
           | None \<Rightarrow>
               if \<not> past_grace then (Inr (tr_state t), w)
               else (case listing of
                   None \<Rightarrow> (Inl (JsError ''transfer venue listing unavailable; recovery deferred''), w)
                 | Some l \<Rightarrow> on_db (recover_one now t l (snd w)))))"

text \<open>One pass over the pending transfers of an account; a transfer that throws is counted.\<close>

definition count_sync :: "transfer_state result \<Rightarrow> sweep_result \<Rightarrow> sweep_result" where
  "count_sync r out =
     (case r of
        Inl _ \<Rightarrow> out\<lparr>sw_errors := sw_errors out + 1\<rparr>
      | Inr SETTLED \<Rightarrow> out\<lparr>sw_settled := sw_settled out + 1\<rparr>
      | Inr PENDING \<Rightarrow> out
      | Inr _ \<Rightarrow> out\<lparr>sw_failed := sw_failed out + 1\<rparr>)"

fun sync_all ::
    "transfers_config \<Rightarrow> 'v cash_venue \<Rightarrow> time \<Rightarrow> broker_ref option \<Rightarrow> venue_listing option
      \<Rightarrow> cash_transfer list \<Rightarrow> sweep_result \<times> ('v \<times> db) \<Rightarrow> sweep_result \<times> ('v \<times> db)" where
  "sync_all cfg venue now ref listing [] st = st"
| "sync_all cfg venue now ref listing (t # ts) (out, w) =
     (case sync_one cfg venue now t ref listing w of
        (r, w1) \<Rightarrow> sync_all cfg venue now ref listing ts
          (count_sync r (out\<lparr>sw_transfers := sw_transfers out + 1\<rparr>), w1))"

definition sync_pending ::
    "transfers_config \<Rightarrow> 'v cash_venue \<Rightarrow> time \<Rightarrow> uuid \<Rightarrow> sweep_result \<times> ('v \<times> db)
      \<Rightarrow> sweep_result \<times> ('v \<times> db)" where
  "sync_pending cfg venue now i st =
     (case st of (out, (v, d)) \<Rightarrow>
      let pending = list_pending d i;
          ref = get_broker_account d i
      in if pending = [] then (out, (v, d))
         else
           case ref of
             None \<Rightarrow> sync_all cfg venue now ref None pending (out, (v, d))
           | Some rf \<Rightarrow>
               let earliest = Min (tr_created ` set pending) in
               (case cv_list venue rf (earliest - recovery_window_ms) v of
                  (Inr l, v1) \<Rightarrow> sync_all cfg venue now ref (Some l) pending (out, (v1, d))
                | (Inl _, v1) \<Rightarrow>
                    sync_all cfg venue now ref None pending
                      (out\<lparr>sw_errors := sw_errors out + 1\<rparr>, (v1, d))))"

section \<open>Account resets\<close>

definition cancel_locally :: "cash_transfer \<Rightarrow> nat \<times> db \<Rightarrow> (nat \<times> db) result" where
  "cancel_locally p st =
     (case st of (n, d) \<Rightarrow>
      case get_transfer d (tr_id p) of
        None \<Rightarrow> Inr (n, d)
      | Some locked \<Rightarrow>
          if tr_state locked \<noteq> PENDING then Inr (n, d)
          else ebind (set_transfer_state (tr_id p) CANCELED (Some reset_cancel_reason) None d)
                 (\<lambda>d1. Inr (n + 1, d1)))"

fun cancel_all_locally :: "cash_transfer list \<Rightarrow> nat \<times> db \<Rightarrow> (nat \<times> db) result" where
  "cancel_all_locally [] st = Inr st"
| "cancel_all_locally (p # ps) st = ebind (cancel_locally p st) (cancel_all_locally ps)"

definition cancel_pending_for_account :: "uuid \<Rightarrow> db \<Rightarrow> (nat \<times> db) result" where
  "cancel_pending_for_account i d = cancel_all_locally (list_pending d i) (0, d)"

record cancel_requests =
  cq_requested :: nat
  cq_refused :: nat

fun cancel_all_at_venue ::
    "'v cash_venue \<Rightarrow> broker_ref \<Rightarrow> cash_transfer list \<Rightarrow> cancel_requests \<times> 'v \<Rightarrow> cancel_requests \<times> 'v"
  where
  "cancel_all_at_venue venue rf [] st = st"
| "cancel_all_at_venue venue rf (t # ts) (out, v) =
     (case truthy (tr_venue t) of
        None \<Rightarrow> cancel_all_at_venue venue rf ts (out, v)
      | Some vid \<Rightarrow>
          (case cv_cancel venue rf vid v of (r, v1) \<Rightarrow>
             let asked = out\<lparr>cq_requested := cq_requested out + 1\<rparr>
             in cancel_all_at_venue venue rf ts
                  (if r = Inr True then asked else asked\<lparr>cq_refused := cq_refused asked + 1\<rparr>, v1)))"

definition cancel_pending_at_venue :: "'v cash_venue \<Rightarrow> uuid \<Rightarrow> 'v \<times> db \<Rightarrow> cancel_requests \<times> ('v \<times> db)" where
  "cancel_pending_at_venue venue i w =
     (let none = \<lparr>cq_requested = 0, cq_refused = 0\<rparr> in
      case get_broker_account (snd w) i of
        None \<Rightarrow> (none, w)
      | Some rf \<Rightarrow>
          (case cancel_all_at_venue venue rf (list_pending (snd w) i) (none, fst w) of
             (out, v) \<Rightarrow> (out, (v, snd w))))"

text \<open>Transfers a reset canceled stay watched: a late settlement is stamped on the row, never posted.\<close>

definition watch_tx :: "cash_transfer \<Rightarrow> bool \<Rightarrow> db \<Rightarrow> (unit \<times> db) result" where
  "watch_tx t diverged d =
     ebind (lock_account d (tr_account t)) (\<lambda>_.
       case get_transfer d (tr_id t) of
         None \<Rightarrow> Inr ((), d)
       | Some locked \<Rightarrow>
           if tr_state locked \<noteq> CANCELED then Inr ((), d)
           else ebind (set_transfer_state (tr_id t) CANCELED
               (Some (if diverged then venue_settled_anyway_reason
                      else case_option reset_cancel_reason id (tr_failure locked)
                             @ venue_confirmed_suffix)) None d) (\<lambda>d1. Inr ((), d1)))"

definition watch_one ::
    "'v cash_venue \<Rightarrow> cash_transfer \<Rightarrow> sweep_result \<times> ('v \<times> db) \<Rightarrow> sweep_result \<times> ('v \<times> db)" where
  "watch_one venue t st =
     (case st of (out, (v, d)) \<Rightarrow>
      case (get_broker_account d (tr_account t), truthy (tr_venue t)) of
        (Some rf, Some vid) \<Rightarrow>
          (case cv_get venue rf vid v of
             (Inl _, v1) \<Rightarrow> (out\<lparr>sw_errors := sw_errors out + 1\<rparr>, (v1, d))
           | (Inr None, v1) \<Rightarrow> (out, (v1, d))
           | (Inr (Some vt), v1) \<Rightarrow>
               if vt_state vt = V_pending then (out, (v1, d))
               else let diverged = (vt_state vt = V_settled) in
                 (case run_tx (watch_tx t diverged) d of
                    (Inl _, d1) \<Rightarrow> (out\<lparr>sw_errors := sw_errors out + 1\<rparr>, (v1, d1))
                  | (Inr _, d1) \<Rightarrow>
                      (if diverged then out\<lparr>sw_diverged := sw_diverged out + 1\<rparr> else out, (v1, d1))))
      | _ \<Rightarrow> (out, (v, d)))"

definition watch_canceled_by_reset ::
    "'v cash_venue \<Rightarrow> time \<Rightarrow> sweep_result \<times> ('v \<times> db) \<Rightarrow> sweep_result \<times> ('v \<times> db)" where
  "watch_canceled_by_reset venue now st =
     fold (watch_one venue)
       (list_canceled_with_venue (snd (snd st)) [reset_cancel_reason, inactive_cancel_reason]
         (now - reset_watch_ms)) st"

definition sweep_pending ::
    "transfers_config \<Rightarrow> 'v cash_venue \<Rightarrow> time \<Rightarrow> 'v \<times> db \<Rightarrow> sweep_result \<times> ('v \<times> db)" where
  "sweep_pending cfg venue now w =
     watch_canceled_by_reset venue now
       (fold (\<lambda>i (out, w1). sync_pending cfg venue now i
                (out\<lparr>sw_accounts := sw_accounts out + 1\<rparr>, w1))
          (account_ids_with_pending (snd w)) (empty_sweep, w))"

end
