(* ===== verification/Cash_Transfers_Correct.thy ===== *)
theory Cash_Transfers_Correct
  imports Cash_Transfers Execution_Correct
begin

text \<open>
  The correctness of \<^verbatim>\<open>src/core/cash-transfers/service.ts\<close>: a transfer posts to the ledger exactly when it
  settles and exactly once; terminal transfers never move again; a withdrawal is covered by free
  cash when it is requested and by cash when it settles; keys are idempotent. The committed
  transactions of the service are the steps of an inductive relation, and every service function
  runs a sequence of them.
\<close>

section \<open>What the statements on transfers change\<close>

abbreviation "retransfer i f d \<equiv> d\<lparr>transfers := modify (\<lambda>r. tr_id r = i) f (transfers d)\<rparr>"

definition state_patch :: "transfer_state \<Rightarrow> string option \<Rightarrow> time option \<Rightarrow> time \<Rightarrow> cash_transfer \<Rightarrow> cash_transfer" where
  "state_patch st m s now r = r\<lparr>tr_state := st, tr_failure := or_else m (tr_failure r),
     tr_settled := or_else s (tr_settled r), tr_updated := now\<rparr>"

lemma state_patch_fields [simp]:
  "tr_id (state_patch st m s now r) = tr_id r" "tr_account (state_patch st m s now r) = tr_account r"
  "tr_direction (state_patch st m s now r) = tr_direction r" "tr_amount (state_patch st m s now r) = tr_amount r"
  "tr_state (state_patch st m s now r) = st" "tr_venue (state_patch st m s now r) = tr_venue r"
  "tr_key (state_patch st m s now r) = tr_key r" "tr_hash (state_patch st m s now r) = tr_hash r"
  by (simp_all add: state_patch_def)

lemma set_transfer_state_Inr [db_simps]:
  "set_transfer_state i st m s d = Inr d' \<longleftrightarrow>
     transfers_ok (modify (\<lambda>r. tr_id r = i) (state_patch st m s (db_now d)) (transfers d))
     \<and> d' = retransfer i (state_patch st m s (db_now d)) d"
  by (auto simp: set_transfer_state_def Let_def result_simps state_patch_def[abs_def])

lemma set_venue_transfer_id_Inr [db_simps]:
  "set_venue_transfer_id i v d = Inr d' \<longleftrightarrow>
     transfers_ok (modify (\<lambda>r. tr_id r = i) (\<lambda>r. r\<lparr>tr_venue := Some v, tr_updated := db_now d\<rparr>) (transfers d))
     \<and> d' = retransfer i (\<lambda>r. r\<lparr>tr_venue := Some v, tr_updated := db_now d\<rparr>) d"
  by (auto simp: set_venue_transfer_id_def Let_def result_simps)

definition fresh_transfer :: "new_transfer \<Rightarrow> db \<Rightarrow> cash_transfer" where
  "fresh_transfer inp d =
     \<lparr>tr_id = next_id d, tr_account = nt_account inp, tr_direction = nt_direction inp,
      tr_amount = nt_amount inp, tr_state = PENDING, tr_venue = None, tr_key = nt_key inp,
      tr_hash = nt_hash inp, tr_failure = None, tr_created = db_now d, tr_settled = None,
      tr_updated = db_now d\<rparr>"

lemma insert_transfer_fresh:
  "insert_transfer inp d =
     (if transfer_check (fresh_transfer inp d) \<and> find_transfer_key d (nt_account inp) (nt_key inp) \<noteq> None
      then Inr (None, d)
      else checked ''cash_transfers''
        (transfers_ok (transfers d @ [fresh_transfer inp d]) \<and> has_account d (nt_account inp))
        (Some (fresh_transfer inp d),
         d\<lparr>transfers := transfers d @ [fresh_transfer inp d], next_id := next_id d + 1\<rparr>))"
  unfolding insert_transfer_def fresh_transfer_def Let_def cash_transfer.simps ..

lemma insert_transfer_Inr:
  assumes "insert_transfer inp d = Inr (out, d')"
  obtains (conflict) "out = None" "d' = d" "find_transfer_key d (nt_account inp) (nt_key inp) \<noteq> None"
  | (inserted) "out = Some (fresh_transfer inp d)" "transfers_ok (transfers d @ [fresh_transfer inp d])"
      "d' = d\<lparr>transfers := transfers d @ [fresh_transfer inp d], next_id := next_id d + 1\<rparr>"
      "has_account d (nt_account inp)"
proof (cases "transfer_check (fresh_transfer inp d) \<and> find_transfer_key d (nt_account inp) (nt_key inp) \<noteq> None")
  case True
  with assms have "out = None" "d' = d" unfolding insert_transfer_fresh by simp_all
  with True conflict show thesis by blast
next
  case False
  with assms have "checked ''cash_transfers'' (transfers_ok (transfers d @ [fresh_transfer inp d]) \<and> has_account d (nt_account inp))
      (Some (fresh_transfer inp d), d\<lparr>transfers := transfers d @ [fresh_transfer inp d], next_id := next_id d + 1\<rparr>)
     = Inr (out, d')"
    unfolding insert_transfer_fresh by argo
  with inserted show thesis unfolding checked_eq_Inr by blast
qed

lemma get_transfer_retransfer:
  assumes "\<And>r. tr_id (f r) = tr_id r"
  shows "get_transfer (retransfer i f d) j
    = (if j = i then map_option f (get_transfer d j) else get_transfer d j)"
  by (simp add: get_transfer_def find_modify[where key = tr_id, OF assms])

lemma lock_account_Inr [result_simps]: "lock_account d i = Inr a \<longleftrightarrow> get_account d i = Some a"
  by (auto simp: lock_account_def result_simps)

lemma assert_same_request_Inr [result_simps]:
  "assert_same_request e fp = Inr t \<longleftrightarrow> tr_hash e = fp \<and> t = e"
  by (auto simp: assert_same_request_def)

section \<open>Postings\<close>

definition signed_amount :: "cash_transfer \<Rightarrow> money" where
  "signed_amount t = (if tr_direction t = DEPOSIT then tr_amount t else - tr_amount t)"

definition postings :: "db \<Rightarrow> uuid \<Rightarrow> (uuid \<times> money) list" where
  "postings d i = map (\<lambda>e. (le_account e, le_amount e)) (filter (\<lambda>e. transfer_ref e = Some i) (ledger d))"

definition transfers_posted :: "db \<Rightarrow> bool" where
  "transfers_posted d \<longleftrightarrow>
     list_all (\<lambda>t. postings d (tr_id t) =
        (if tr_state t = SETTLED then [(tr_account t, signed_amount t)] else [])) (transfers d)
   \<and> list_all (\<lambda>e. pred_option (\<lambda>i. i \<in> tr_id ` set (transfers d)) (transfer_ref e)) (ledger d)"

text \<open>A change of rows that moves no transfer between settled and not settled keeps the postings.\<close>

lemma posted_retransfer:
  assumes "transfers_posted d"
    and "\<And>r. tr_id (f r) = tr_id r" "\<And>r. tr_account (f r) = tr_account r"
      "\<And>r. signed_amount (f r) = signed_amount r"
    and "\<And>r. r \<in> set (transfers d) \<Longrightarrow> tr_id r = i \<Longrightarrow> (tr_state (f r) = SETTLED) = (tr_state r = SETTLED)"
  shows "transfers_posted (retransfer i f d)"
proof -
  have ids: "tr_id ` set (modify (\<lambda>r. tr_id r = i) f (transfers d)) = tr_id ` set (transfers d)"
    unfolding list.set_map[symmetric] by (subst map_modify) (simp_all add: assms(2))
  have post: "postings (retransfer i f d) j = postings d j" for j by (simp add: postings_def)
  have "postings d (tr_id t) = (if tr_state t = SETTLED then [(tr_account t, signed_amount t)] else [])"
    if "t \<in> set (modify (\<lambda>r. tr_id r = i) f (transfers d))" for t
  proof -
    from that obtain r where r: "r \<in> set (transfers d)" "t = (if tr_id r = i then f r else r)"
      by (rule in_set_modifyE)
    with assms(1) have "postings d (tr_id r) = (if tr_state r = SETTLED then [(tr_account r, signed_amount r)] else [])"
      by (simp add: transfers_posted_def list_all_iff)
    with r assms(2-5) show ?thesis by (cases "tr_id r = i") simp_all
  qed
  with assms(1) show ?thesis by (simp add: transfers_posted_def list_all_iff ids post)
qed

lemma transfer_ref_simps [simp]:
  "le_ref e = Some (Ref_transfer i) \<Longrightarrow> transfer_ref e = Some i"
  "le_ref e = Some (Ref_account a) \<Longrightarrow> transfer_ref e = None"
  "le_ref e = Some (Ref_fill b x) \<Longrightarrow> transfer_ref e = None"
  by (simp_all add: transfer_ref_def)

text \<open>Entries of other modules touch no posting.\<close>

lemma posted_other:
  assumes "transfers_posted d" "transfers d' = transfers d" "ledger d' = ledger d @ es"
    "\<And>e. e \<in> set es \<Longrightarrow> transfer_ref e = None"
  shows "transfers_posted d'"
proof -
  have "filter (\<lambda>e. transfer_ref e = Some i) es = []" for i using assms(4) by (simp add: filter_empty_conv)
  then have "postings d' i = postings d i" for i by (simp add: postings_def assms(3))
  moreover have "\<forall>e \<in> set es. transfer_ref e = None" using assms(4) by blast
  ultimately show ?thesis using assms(1-3) by (auto simp: transfers_posted_def list_all_iff)
qed

lemma posted_fresh:
  assumes "transfers_posted d" "ids_fresh d" "transfers d' = transfers d @ [t]" "ledger d' = ledger d"
    "tr_id t = next_id d" "tr_state t = PENDING"
  shows "transfers_posted d'"
proof -
  have "next_id d \<notin> tr_id ` set (transfers d)" using assms(2) by (auto simp: ids_fresh_def list_all_iff)
  with assms(1) have "transfer_ref e \<noteq> Some (next_id d)" if "e \<in> set (ledger d)" for e
    using that by (fastforce simp: transfers_posted_def list_all_iff)
  then have none: "postings d (next_id d) = []" by (simp add: postings_def filter_empty_conv)
  have same: "postings d' i = postings d i" for i by (simp add: postings_def assms(4))
  have "pred_option (\<lambda>i. i \<in> insert j A) x" if "pred_option (\<lambda>i. i \<in> A) x" for j A and x :: "uuid option"
    using that by (cases x) auto
  with assms none show ?thesis by (simp add: transfers_posted_def list_all_iff same)
qed

text \<open>Settling adds the one posting of its transfer.\<close>

lemma settle_locked_Inr:
  assumes "settle_locked now a t d = Inr d'"
  obtains accs e where "tr_state t = PENDING" "tr_direction t = WITHDRAWAL \<longrightarrow> tr_amount t \<le> acc_cash a"
    "le_account e = acc_id a" "le_amount e = signed_amount t" "le_ref e = Some (Ref_transfer (tr_id t))"
    "accs = accounts (adjust_cash (acc_id a) (signed_amount t) d)"
    "d' = retransfer (tr_id t) (state_patch SETTLED None (Some now) (db_now d))
       (d\<lparr>accounts := accs, ledger := ledger d @ [e], next_id := next_id d + 1\<rparr>)"
proof -
  from assms have pending: "tr_state t = PENDING" and cash: "tr_direction t = WITHDRAWAL \<longrightarrow> tr_amount t \<le> acc_cash a"
    by (auto simp: settle_locked_def can_transition_def result_simps split: if_splits)
  from assms pending cash obtain r d1 where p: "post (transfer_entry t (acc_id a) (signed_amount t)) d = Inr (r, d1)"
    and s: "set_transfer_state (tr_id t) SETTLED None (Some now) d1 = Inr d'"
    by (cases "tr_direction t") (auto simp: settle_locked_def can_transition_def signed_amount_def result_simps)
  from post_shape[OF p] have r: "r = entry_row (transfer_entry t (acc_id a) (signed_amount t)) (next_id d) (db_now d)"
    and d1: "d1 = d\<lparr>accounts := accounts (adjust_cash (acc_id a) (signed_amount t) d),
        ledger := ledger d @ [r], next_id := next_id d + 1\<rparr>"
    by (auto simp: transfer_entry_def)
  from s have "d' = retransfer (tr_id t) (state_patch SETTLED None (Some now) (db_now d1)) d1"
    by (simp add: set_transfer_state_Inr)
  with that[of r] pending cash d1 show thesis by (simp add: r transfer_entry_def)
qed

lemma posted_settle:
  assumes "settle_locked now a t d = Inr d'" "transfers_posted d" "get_transfer d (tr_id t) = Some t"
    "distinct (map tr_id (transfers d))" "acc_id a = tr_account t"
  shows "transfers_posted d'" "postings d' (tr_id t) = [(tr_account t, signed_amount t)]"
proof -
  from assms(1) obtain accs e where s: "tr_state t = PENDING"
    "le_account e = acc_id a" "le_amount e = signed_amount t" "le_ref e = Some (Ref_transfer (tr_id t))"
    "d' = retransfer (tr_id t) (state_patch SETTLED None (Some now) (db_now d))
       (d\<lparr>accounts := accs, ledger := ledger d @ [e], next_id := next_id d + 1\<rparr>)"
    by (rule settle_locked_Inr)
  have t: "t \<in> set (transfers d)" using get_transfer_Some[OF assms(3)] by simp
  have uniq: "r = t" if "r \<in> set (transfers d)" "tr_id r = tr_id t" for r
    using that t assms(4) by (auto simp: distinct_map dest: inj_onD)
  have post: "postings d' j = postings d j @ (if j = tr_id t then [(acc_id a, signed_amount t)] else [])" for j
    using s(2-4) by (simp add: s(5) postings_def)
  have old: "postings d (tr_id r) = (if tr_state r = SETTLED then [(tr_account r, signed_amount r)] else [])"
    if "r \<in> set (transfers d)" for r
    using assms(2) that by (simp add: transfers_posted_def list_all_iff)
  show new: "postings d' (tr_id t) = [(tr_account t, signed_amount t)]"
    using old[OF t] s(1) post assms(5) by simp
  have ids: "tr_id ` set (transfers d') = tr_id ` set (transfers d)"
    unfolding s(5) list.set_map[symmetric] by (simp add: map_modify)
  have rows: "postings d' (tr_id r') = (if tr_state r' = SETTLED then [(tr_account r', signed_amount r')] else [])"
    if r': "r' \<in> set (transfers d')" for r'
  proof -
    from r' obtain r where r: "r \<in> set (transfers d)"
      "r' = (if tr_id r = tr_id t then state_patch SETTLED None (Some now) (db_now d) r else r)"
      unfolding s(5) by (auto elim: in_set_modifyE)
    show ?thesis
    proof (cases "tr_id r = tr_id t")
      case True
      with r(1) uniq have "r = t" by blast
      with r True new show ?thesis by (simp add: signed_amount_def)
    next
      case False
      with r old post show ?thesis by simp
    qed
  qed
  have "list_all (\<lambda>e. pred_option (\<lambda>i. i \<in> tr_id ` set (transfers d)) (transfer_ref e)) (ledger d')"
    using assms(2) s(4) t by (simp add: s(5) transfers_posted_def)
  with rows show "transfers_posted d'" by (simp add: transfers_posted_def ids list_all_iff)
qed

section \<open>The transactions of the service as steps\<close>

inductive transfer_step :: "transfers_config \<Rightarrow> db \<Rightarrow> db \<Rightarrow> bool" for cfg where
  requested: "request_tx cfg now inp d = Inr (r, d') \<Longrightarrow> transfer_step cfg d d'"
| linked: "link_tx a i v d = Inr (u, d') \<Longrightarrow> transfer_step cfg d d'"
| answered: "venue_state_tx now (tr_account t) i vt d = Inr (st, d') \<Longrightarrow> get_transfer d i = Some t
    \<Longrightarrow> transfer_step cfg d d'"
| finished: "finish_tx a i FAILED m d = Inr (st, d') \<Longrightarrow> transfer_step cfg d d'"
| watched: "watch_tx t b d = Inr (u, d') \<Longrightarrow> transfer_step cfg d d'"
| reset: "cancel_pending_for_account a d = Inr (n, d') \<Longrightarrow> transfer_step cfg d d'"

text \<open>A write of the state of one row that is not a settlement.\<close>

inductive row_write :: "db \<Rightarrow> db \<Rightarrow> bool" where
  link: "get_transfer d i = Some t \<Longrightarrow> truthy (tr_venue t) = None
    \<Longrightarrow> set_venue_transfer_id i v d = Inr d' \<Longrightarrow> row_write d d'"
| close: "get_transfer d i = Some t \<Longrightarrow> tr_state t = PENDING \<Longrightarrow> st = FAILED \<or> st = CANCELED
    \<Longrightarrow> set_transfer_state i st (Some m) None d = Inr d' \<Longrightarrow> row_write d d'"
| stamp: "get_transfer d i = Some t \<Longrightarrow> tr_state t = CANCELED
    \<Longrightarrow> set_transfer_state i CANCELED (Some m) None d = Inr d' \<Longrightarrow> row_write d d'"

lemma venue_state_cases:
  assumes "venue_state_tx now a i vt d = Inr (st, d')"
  obtains (same) t where "get_transfer d i = Some t" "st = tr_state t" "d' = d"
      "tr_state t = PENDING \<longrightarrow> vt_state vt = V_pending"
  | (closed) t m where "row_write d d'" "get_transfer d i = Some t" "tr_state t = PENDING"
      "set_transfer_state i st (Some m) None d = Inr d'"
      "st = CANCELED \<or> st = FAILED \<and> vt_state vt = V_failed \<and> vt_direction vt = tr_direction t
         \<and> vt_amount vt = tr_amount t"
  | (settled) acc t where "get_account d a = Some acc" "get_transfer d i = Some t" "tr_state t = PENDING"
      "acc_status acc = ACTIVE" "vt_direction vt = tr_direction t" "vt_amount vt = tr_amount t"
      "vt_state vt = V_settled" "st = SETTLED" "settle_locked now acc t d = Inr d'"
proof -
  from assms obtain acc t where acc: "get_account d a = Some acc" and t: "get_transfer d i = Some t"
    by (auto simp: venue_state_tx_def result_simps)
  have id: "tr_id t = i" using get_transfer_Some[OF t] by simp
  show thesis
  proof (cases "tr_state t = PENDING")
    case False
    with assms acc t same[OF t] show thesis by (simp add: venue_state_tx_def lock_account_def)
  next
    case True
    note eq = assms[unfolded venue_state_tx_def lock_account_def acc t, simplified, unfolded True, simplified]
    show thesis
    proof (cases "acc_status acc = ACTIVE")
      case False
      with eq id obtain m where "st = CANCELED" "set_transfer_state i CANCELED (Some m) None d = Inr d'"
        by (auto simp: result_simps)
      with row_write.close[OF t True] closed[OF _ t True] show thesis by blast
    next
      case active: True
      show thesis
      proof (cases "vt_state vt")
        case V_pending
        with eq active True same[OF t] show thesis by (simp add: result_simps)
      next
        case V_failed
        with eq active id obtain m where "st = FAILED" "set_transfer_state i FAILED (Some m) None d = Inr d'"
          "vt_direction vt = tr_direction t" "vt_amount vt = tr_amount t"
          by (auto simp: result_simps)
        with row_write.close[OF t True] closed[OF _ t True] V_failed show thesis by blast
      next
        case V_settled
        with eq active have "vt_direction vt = tr_direction t" "vt_amount vt = tr_amount t" "st = SETTLED"
          "settle_locked now acc t d = Inr d'" by (auto simp: result_simps)
        with settled acc t True active V_settled show thesis by blast
      qed
    qed
  qed
qed

lemma link_cases: "link_tx a i v d = Inr (u, d') \<Longrightarrow> d' = d \<or> row_write d d'"
  by (auto simp: link_tx_def result_simps split: option.splits if_splits intro: row_write.link)

lemma finish_cases:
  assumes "finish_tx a i FAILED m d = Inr (st, d')"
  shows "d' = d \<or> row_write d d'"
  using assms
  by (auto simp: finish_tx_def can_transition_def result_simps split: if_splits intro: row_write.close)

lemma watch_cases: "watch_tx t b d = Inr (u, d') \<Longrightarrow> d' = d \<or> row_write d d'"
  by (auto simp: watch_tx_def Let_def result_simps split: option.splits if_splits intro: row_write.stamp)

lemma cancel_one_write: "cancel_locally p (k, d) = Inr (n, d') \<Longrightarrow> d' = d \<or> row_write d d'"
  by (auto simp: cancel_locally_def result_simps split: option.splits if_splits intro: row_write.close)

lemma cancel_all_writes: "cancel_all_locally ps (k, d) = Inr (n, d') \<Longrightarrow> row_write\<^sup>*\<^sup>* d d'"
proof (induction ps arbitrary: k d)
  case Nil
  then show ?case by simp
next
  case (Cons p ps)
  then obtain k1 d1 where one: "cancel_locally p (k, d) = Inr (k1, d1)" and rest: "cancel_all_locally ps (k1, d1) = Inr (n, d')"
    by (auto simp: result_simps)
  from cancel_one_write[OF one] Cons.IH[OF rest] show ?case by (auto intro: converse_rtranclp_into_rtranclp)
qed

lemma reset_writes: "cancel_pending_for_account a d = Inr (n, d') \<Longrightarrow> row_write\<^sup>*\<^sup>* d d'"
  unfolding cancel_pending_for_account_def by (rule cancel_all_writes)

section \<open>The invariants of the steps\<close>

definition transfers_inv :: "db \<Rightarrow> bool" where
  "transfers_inv d \<longleftrightarrow> schema_ok d \<and> in_balance d \<and> transfers_posted d"

lemma transfers_invD:
  "transfers_inv d \<Longrightarrow> schema_ok d" "transfers_inv d \<Longrightarrow> in_balance d" "transfers_inv d \<Longrightarrow> transfers_posted d"
  by (simp_all add: transfers_inv_def)

lemma transfer_unique:
  assumes "schema_ok d" "get_transfer d i = Some t" "r \<in> set (transfers d)" "tr_id r = i"
  shows "r = t"
  using assms get_transfer_Some[OF assms(2)]
  by (auto simp: schema_ok_def transfers_ok_def distinct_map dest: inj_onD)

lemma balance_transfers: "in_balance (d\<lparr>transfers := ts\<rparr>) = in_balance d"
  by (simp add: in_balance_def sum_ledger_def)

lemma row_write_inv: "row_write d d' \<Longrightarrow> transfers_inv d \<Longrightarrow> transfers_inv d'"
proof (induction rule: row_write.induct)
  case (link d i t v d')
  then have "schema_ok d'" by (auto simp: transfers_inv_def intro: schema_set_venue_transfer_id)
  moreover have "transfers_posted d'"
    using link transfers_invD(3)[OF link(4)] unfolding set_venue_transfer_id_Inr
    by (auto intro!: posted_retransfer simp: signed_amount_def)
  ultimately show ?case using link by (auto simp: transfers_inv_def set_venue_transfer_id_Inr balance_transfers)
next
  case (close d i t st m d')
  have uniq: "r = t" if "r \<in> set (transfers d)" "tr_id r = i" for r
    using transfer_unique[OF transfers_invD(1)[OF close(5)] close(1) that] .
  from close have "schema_ok d'" by (auto simp: transfers_inv_def intro: schema_set_transfer_state)
  moreover have "transfers_posted d'"
    using close(3,4) transfers_invD(3)[OF close(5)] uniq close(2) unfolding set_transfer_state_Inr
    by (auto intro!: posted_retransfer simp: signed_amount_def)
  ultimately show ?case using close by (auto simp: transfers_inv_def set_transfer_state_Inr balance_transfers)
next
  case (stamp d i t m d')
  have uniq: "r = t" if "r \<in> set (transfers d)" "tr_id r = i" for r
    using transfer_unique[OF transfers_invD(1)[OF stamp(4)] stamp(1) that] .
  from stamp have "schema_ok d'" by (auto simp: transfers_inv_def intro: schema_set_transfer_state)
  moreover have "transfers_posted d'"
    using stamp(3) transfers_invD(3)[OF stamp(4)] uniq stamp(2) unfolding set_transfer_state_Inr
    by (auto intro!: posted_retransfer simp: signed_amount_def)
  ultimately show ?case using stamp by (auto simp: transfers_inv_def set_transfer_state_Inr balance_transfers)
qed

lemma row_writes_inv: "row_write\<^sup>*\<^sup>* d d' \<Longrightarrow> transfers_inv d \<Longrightarrow> transfers_inv d'"
  by (induction rule: rtranclp_induct) (auto intro: row_write_inv)

lemma request_tx_cases:
  assumes "request_tx cfg now inp d = Inr ((t, ref), d')"
  obtains (replay) a where "get_account d (rt_account inp) = Some a"
      "find_transfer_key d (acc_id a) (rt_key inp) = Some t" "ref = None" "d' = d"
      "tr_hash t = request_fingerprint (rt_direction inp) (rt_amount inp)"
  | (created) a rf where "get_account d (rt_account inp) = Some a" "acc_status a = ACTIVE"
      "find_transfer_key d (acc_id a) (rt_key inp) = None" "ref = Some rf"
      "get_broker_account d (acc_id a) = Some rf"
      "check_transfer_request (rt_direction inp) (rt_amount inp) (tc_limits cfg)
         (if rt_direction inp = WITHDRAWAL then compute_withdrawable (acc_cash a)
              (sum_open_buy_reservations d (acc_id a)) (sum_pending d (acc_id a) WITHDRAWAL) else 0)
         (if rt_direction inp = DEPOSIT then deposited_in_window cfg now d a else 0) = Inr ()"
      "t = fresh_transfer (new_transfer_of inp (acc_id a)) d"
      "insert_transfer (new_transfer_of inp (acc_id a)) d = Inr (Some t, d')"
      "d' = d\<lparr>transfers := transfers d @ [t], next_id := next_id d + 1\<rparr>"
proof -
  from assms obtain a where a: "get_account d (rt_account inp) = Some a"
    by (auto simp: request_tx_def Let_def result_simps)
  show thesis
  proof (cases "find_transfer_key d (acc_id a) (rt_key inp)")
    case (Some t0)
    with assms a have "t0 = t \<and> ref = None \<and> d' = d \<and> tr_hash t = request_fingerprint (rt_direction inp) (rt_amount inp)"
      by (auto simp: request_tx_def Let_def lock_account_def result_simps)
    with replay a Some show thesis by blast
  next
    case None
    let ?w = "if rt_direction inp = WITHDRAWAL then compute_withdrawable (acc_cash a)
              (sum_open_buy_reservations d (acc_id a)) (sum_pending d (acc_id a) WITHDRAWAL) else 0"
    let ?dep = "if rt_direction inp = DEPOSIT then deposited_in_window cfg now d a else 0"
    let ?rest = "\<lambda>out rf d1. case out of Some t \<Rightarrow> Inr ((t, Some rf), d1)
               | None \<Rightarrow> ebind (of_option
                       (InvariantViolation ''idempotency conflict without a matching transfer'')
                       (find_transfer_key d1 (acc_id a) (rt_key inp))) (\<lambda>raced.
                   ebind (assert_same_request raced (request_fingerprint (rt_direction inp) (rt_amount inp)))
                     (\<lambda>t. Inr ((t, None), d1)))"
    have active: "acc_status a = ACTIVE"
    proof (rule ccontr)
      assume "acc_status a \<noteq> ACTIVE"
      with a None have "request_tx cfg now inp d = app_error DOMAIN_RULE ACCOUNT_NOT_ACTIVE"
        by (simp add: request_tx_def lock_account_def)
      with assms show False by simp
    qed
    then have "request_tx cfg now inp d =
        ebind (check_transfer_request (rt_direction inp) (rt_amount inp) (tc_limits cfg) ?w ?dep) (\<lambda>_.
        ebind (of_option (InvariantViolation ''active account has no venue account'')
                      (get_broker_account d (acc_id a))) (\<lambda>rf.
        ebind (insert_transfer (new_transfer_of inp (acc_id a)) d) (\<lambda>(out, d1). ?rest out rf d1)))"
      using a None by (simp add: request_tx_def lock_account_def Let_def)
    note E = assms[unfolded this]
    from E obtain u where check: "check_transfer_request (rt_direction inp) (rt_amount inp) (tc_limits cfg) ?w ?dep = Inr u"
      and E: "ebind (of_option (InvariantViolation ''active account has no venue account'')
                      (get_broker_account d (acc_id a))) (\<lambda>rf.
        ebind (insert_transfer (new_transfer_of inp (acc_id a)) d) (\<lambda>(out, d1). ?rest out rf d1)) = Inr ((t, ref), d')"
      by (rule ebindE)
    from E obtain rf where rf: "of_option (InvariantViolation ''active account has no venue account'')
                      (get_broker_account d (acc_id a)) = Inr rf"
      and E: "ebind (insert_transfer (new_transfer_of inp (acc_id a)) d) (\<lambda>(out, d1). ?rest out rf d1) = Inr ((t, ref), d')"
      by (rule ebindE)
    note rf = rf[unfolded of_option_eq_Inr]
    from E obtain od where "insert_transfer (new_transfer_of inp (acc_id a)) d = Inr od"
      and rest: "(\<lambda>(out, d1). ?rest out rf d1) od = Inr ((t, ref), d')" by (rule ebindE)
    then obtain out d1 where ins: "insert_transfer (new_transfer_of inp (acc_id a)) d = Inr (out, d1)"
      and rest: "?rest out rf d1 = Inr ((t, ref), d')" by (cases od) simp
    have check: "check_transfer_request (rt_direction inp) (rt_amount inp) (tc_limits cfg) ?w ?dep = Inr ()"
      using check by simp
    from ins show thesis
    proof (cases rule: insert_transfer_Inr)
      case conflict
      with None show thesis by (simp add: new_transfer_of_def)
    next
      case inserted
      with rest ins created[OF a active None _ rf check] show thesis by auto
    qed
  qed
qed

lemma settle_schema:
  assumes "settle_locked now a t d = Inr d'" "schema_ok d" "in_balance d"
  shows "schema_ok d' \<and> in_balance d'"
proof -
  from assms(1) obtain amount r d1 where p: "post (transfer_entry t (acc_id a) amount) d = Inr (r, d1)"
    and s: "set_transfer_state (tr_id t) SETTLED None (Some now) d1 = Inr d'"
    by (auto simp: settle_locked_def result_simps)
  have "schema_ok d'" by (rule schema_set_transfer_state[OF s post_schema[OF p assms(2)]])
  moreover have "in_balance d1" by (rule post_in_balance[OF p assms(2,3)])
  ultimately show ?thesis using s by (simp add: set_transfer_state_Inr balance_transfers)
qed

lemma account_of: "get_account d i = Some a \<Longrightarrow> acc_id a = i"
  by (auto dest: get_account_Some)

lemma step_inv:
  assumes "transfer_step cfg d d'" "transfers_inv d"
  shows "transfers_inv d'"
  using assms
proof (induction rule: transfer_step.induct)
  case (requested now inp d r d')
  obtain t ref where r: "r = (t, ref)" by (cases r)
  from requested(1)[unfolded r] show ?case
  proof (cases rule: request_tx_cases)
    case (replay a)
    with requested show ?thesis by simp
  next
    case (created a rf)
    have "schema_ok d'" by (rule schema_insert_transfer[OF created(8) transfers_invD(1)[OF requested(2)]])
    moreover have "in_balance d'"
      using transfers_invD(2)[OF requested(2)] by (simp add: created(9) in_balance_def sum_ledger_def)
    moreover have "transfers_posted d'"
      by (rule posted_fresh[of d _ t])
        (use requested(2) in \<open>simp_all add: created(7,9) fresh_transfer_def transfers_inv_def schema_ok_def\<close>)
    ultimately show ?thesis by (simp add: transfers_inv_def)
  qed
next
  case (linked a i v d u d')
  with link_cases row_write_inv show ?case by blast
next
  case (answered now t i vt d st d')
  from answered(1) show ?case
  proof (cases rule: venue_state_cases)
    case (same t)
    with answered(3) show ?thesis by simp
  next
    case closed
    with row_write_inv answered(3) show ?thesis by blast
  next
    case (settled acc t')
    with answered(2) have t: "t' = t" by simp
    have id: "tr_id t = i" using get_transfer_Some[OF answered(2)] by simp
    note inv = transfers_invD[OF answered(3)]
    have "distinct (map tr_id (transfers d))" using inv(1) by (simp add: schema_ok_def transfers_ok_def)
    from posted_settle(1)[OF settled(9)[unfolded t] inv(3) _ this account_of[OF settled(1)]] answered(2) id
      settle_schema[OF settled(9) inv(1,2)]
    show ?thesis by (simp add: transfers_inv_def)
  qed
next
  case (finished a i m d st d')
  with finish_cases row_write_inv show ?case by blast
next
  case (watched t b d u d')
  with watch_cases row_write_inv show ?case by blast
next
  case (reset a d n d')
  with reset_writes row_writes_inv show ?case by blast
qed

lemma steps_inv: "(transfer_step cfg)\<^sup>*\<^sup>* d d' \<Longrightarrow> transfers_inv d \<Longrightarrow> transfers_inv d'"
  by (induction rule: rtranclp_induct) (auto intro: step_inv)

section \<open>What stays of a transfer\<close>

definition same_terms :: "cash_transfer \<Rightarrow> cash_transfer \<Rightarrow> bool" where
  "same_terms t t' \<longleftrightarrow> tr_account t' = tr_account t \<and> tr_direction t' = tr_direction t
     \<and> tr_amount t' = tr_amount t \<and> tr_key t' = tr_key t \<and> tr_hash t' = tr_hash t
     \<and> (tr_state t \<noteq> PENDING \<longrightarrow> tr_state t' = tr_state t)
     \<and> (truthy (tr_venue t) \<noteq> None \<longrightarrow> tr_venue t' = tr_venue t)"

lemma same_terms_refl [simp]: "same_terms t t" by (simp add: same_terms_def)

lemma same_terms_trans: "same_terms t u \<Longrightarrow> same_terms u v \<Longrightarrow> same_terms t v"
  by (auto simp: same_terms_def)

lemma row_write_keeps:
  assumes "row_write d d'" "get_transfer d j = Some t"
  shows "\<exists>t'. get_transfer d' j = Some t' \<and> same_terms t t'"
  using assms
  by (induction rule: row_write.induct)
    (auto simp: set_venue_transfer_id_Inr set_transfer_state_Inr get_transfer_retransfer same_terms_def)

lemma row_writes_keep:
  "row_write\<^sup>*\<^sup>* d d' \<Longrightarrow> get_transfer d j = Some t \<Longrightarrow> \<exists>t'. get_transfer d' j = Some t' \<and> same_terms t t'"
proof (induction rule: rtranclp_induct)
  case base
  then show ?case by simp
next
  case (step y z)
  then obtain t1 where "get_transfer y j = Some t1" "same_terms t t1" by blast
  with row_write_keeps[OF step(2)] same_terms_trans show ?case by blast
qed

lemma step_keeps:
  assumes "transfer_step cfg d d'" "get_transfer d j = Some t"
  shows "\<exists>t'. get_transfer d' j = Some t' \<and> same_terms t t'"
  using assms
proof (induction rule: transfer_step.induct)
  case (requested now inp d r d')
  obtain t0 ref where r: "r = (t0, ref)" by (cases r)
  from requested(1)[unfolded r] show ?case
  proof (cases rule: request_tx_cases)
    case (replay a)
    with requested show ?thesis by auto
  next
    case (created a rf)
    have "get_transfer d' j = Some t"
      using requested(2) by (simp add: created(9) get_transfer_def find_append)
    then show ?thesis by auto
  qed
next
  case (linked a i v d u d')
  with link_cases row_write_keeps same_terms_refl show ?case by metis
next
  case (answered now t0 i vt d st d')
  from answered(1) show ?case
  proof (cases rule: venue_state_cases)
    case (same t)
    with answered(3) show ?thesis by auto
  next
    case closed
    with row_write_keeps answered(3) show ?thesis by blast
  next
    case (settled acc t')
    from settled(9) obtain d0 where
      d': "d' = retransfer (tr_id t') (state_patch SETTLED None (Some now) (db_now d)) d0"
      and "transfers d0 = transfers d"
      by (rule settle_locked_Inr) simp
    then have "get_transfer d0 j = Some t" using answered(3) by (simp add: get_transfer_def)
    moreover have "j = tr_id t' \<Longrightarrow> tr_state t = PENDING"
      using answered(3) settled(2,3) get_transfer_Some[OF settled(2)] by auto
    ultimately show ?thesis unfolding d' by (auto simp: get_transfer_retransfer same_terms_def)
  qed
next
  case (finished a i m d st d')
  with finish_cases row_write_keeps same_terms_refl show ?case by metis
next
  case (watched t b d u d')
  with watch_cases row_write_keeps same_terms_refl show ?case by metis
next
  case (reset a d n d')
  with reset_writes row_writes_keep show ?case by blast
qed

lemma steps_keep:
  "(transfer_step cfg)\<^sup>*\<^sup>* d d' \<Longrightarrow> get_transfer d j = Some t
    \<Longrightarrow> \<exists>t'. get_transfer d' j = Some t' \<and> same_terms t t'"
proof (induction rule: rtranclp_induct)
  case base
  then show ?case by simp
next
  case (step y z)
  then obtain t1 where "get_transfer y j = Some t1" "same_terms t t1" by blast
  with step_keeps[OF step(2)] same_terms_trans show ?case by blast
qed

section \<open>Every service function runs steps\<close>

lemma run_tx_step:
  assumes "run_tx f d = (r, d')" "\<And>x d'. f d = Inr (x, d') \<Longrightarrow> transfer_step cfg d d'"
  shows "(transfer_step cfg)\<^sup>*\<^sup>* d d'"
  using assms by (cases rule: run_tx_cases[of f d]) auto

lemma apply_venue_steps:
  assumes "apply_venue_state now i vt d = (r, d')"
  shows "(transfer_step cfg)\<^sup>*\<^sup>* d d'"
proof (cases "get_transfer d i")
  case None
  with assms show ?thesis by (simp add: apply_venue_state_def must_get_transfer_def)
next
  case (Some t)
  obtain r1 d1 where one: "(if truthy (tr_venue t) = None
      then run_tx (link_tx (tr_account t) i (vt_id vt)) d else (Inr (), d)) = (r1, d1)" by (rule prod.exhaust)
  then have first: "(transfer_step cfg)\<^sup>*\<^sup>* d d1"
    by (cases "truthy (tr_venue t) = None")
      (auto split: if_splits intro: run_tx_step transfer_step.linked)
  show ?thesis
  proof (cases r1)
    case (Inl e)
    with assms Some one have "d' = d1" by (auto simp: apply_venue_state_def must_get_transfer_def)
    with first show ?thesis by simp
  next
    case (Inr u)
    with assms Some one have two: "run_tx (venue_state_tx now (tr_account t) i vt) d1 = (r, d')"
      by (auto simp: apply_venue_state_def must_get_transfer_def)
    from steps_keep[OF first Some] obtain t1 where t1: "get_transfer d1 i = Some t1" "tr_account t1 = tr_account t"
      by (auto simp: same_terms_def)
    have "(transfer_step cfg)\<^sup>*\<^sup>* d1 d'"
    proof (rule run_tx_step[OF two])
      fix x d2 assume "venue_state_tx now (tr_account t) i vt d1 = Inr (x, d2)"
      then show "transfer_step cfg d1 d2"
        unfolding t1(2)[symmetric] using t1(1) by (rule transfer_step.answered)
    qed
    with first show ?thesis by (rule rtranclp_trans)
  qed
qed

lemma finish_steps:
  assumes "finish i FAILED m d = (r, d')"
  shows "(transfer_step cfg)\<^sup>*\<^sup>* d d'"
  using assms
  by (auto simp: finish_def split: sum.splits intro: run_tx_step transfer_step.finished)

lemma request_steps:
  assumes "request cfg venue now inp (v, d) = (r, (v', d'))"
  shows "(transfer_step cfg)\<^sup>*\<^sup>* d d'"
proof -
  obtain r0 d0 where tx: "run_tx (request_tx cfg now inp) d = (r0, d0)" by (rule prod.exhaust)
  have first: "(transfer_step cfg)\<^sup>*\<^sup>* d d0"
    by (rule run_tx_step[OF tx]) (auto intro: transfer_step.requested)
  show ?thesis
  proof (cases "\<exists>t rf. r0 = Inr (t, Some rf)")
    case False
    with tx assms have "d' = d0"
      by (auto simp: request_def split: sum.splits prod.splits option.splits)
    with first show ?thesis by simp
  next
    case True
    then obtain t rf where r0: "r0 = Inr (t, Some rf)" by blast
    obtain ans v1 where ans: "cv_initiate venue rf (tr_id t) (tr_direction t) (tr_amount t) v = (ans, v1)"
      by (rule prod.exhaust)
    obtain ap d1 where ap: "(case ans of Inl e \<Rightarrow> (Inl e, d0)
      | Inr vt \<Rightarrow> apply_venue_state now (tr_id t) vt d0) = (ap, d1)" by (rule prod.exhaust)
    have second: "(transfer_step cfg)\<^sup>*\<^sup>* d0 d1"
      using ap by (auto split: sum.splits intro: apply_venue_steps)
    obtain hd d2 where hd: "(case ap of Inl (TransferRejected reason) \<Rightarrow> finish (tr_id t) FAILED reason d1
      | _ \<Rightarrow> (Inr PENDING, d1)) = (hd, d2)" by (rule prod.exhaust)
    have third: "(transfer_step cfg)\<^sup>*\<^sup>* d1 d2"
      using hd by (auto split: sum.splits exn.splits intro: finish_steps)
    have "d' = d2" using assms
      by (simp add: request_def tx r0 ans ap hd split: sum.splits)
    with first second third show ?thesis by (meson rtranclp_trans)
  qed
qed

lemma recover_steps:
  assumes "recover_one now t l d = (r, d')"
  shows "(transfer_step cfg)\<^sup>*\<^sup>* d d'"
  using assms
  by (auto simp: recover_one_def split: option.splits if_splits intro: apply_venue_steps finish_steps)

lemma sync_one_steps:
  assumes "sync_one cfg venue now t ref listing (v, d) = (r, (v', d'))"
  shows "(transfer_step cfg)\<^sup>*\<^sup>* d d'"
  using assms
  by (auto simp: sync_one_def Let_def split: option.splits if_splits prod.splits sum.splits
      intro: apply_venue_steps finish_steps recover_steps)

lemma prod3_exhaust:
  obtains a b c where "x = (a, (b, c))"
  by (cases x) auto

lemma sync_all_steps:
  "sync_all cfg venue now ref listing ts (out, (v, d)) = (out', (v', d')) \<Longrightarrow> (transfer_step cfg)\<^sup>*\<^sup>* d d'"
proof (induction ts arbitrary: out v d)
  case Nil
  then show ?case by simp
next
  case (Cons t ts)
  obtain r v1 d1 where one: "sync_one cfg venue now t ref listing (v, d) = (r, (v1, d1))"
    by (rule prod3_exhaust)
  with Cons(2) have "sync_all cfg venue now ref listing ts
      (count_sync r (out\<lparr>sw_transfers := sw_transfers out + 1\<rparr>), (v1, d1)) = (out', (v', d'))" by simp
  from Cons(1)[OF this] sync_one_steps[OF one] show ?case by (meson rtranclp_trans)
qed

lemma sync_pending_steps:
  assumes "sync_pending cfg venue now i (out, (v, d)) = (out', (v', d'))"
  shows "(transfer_step cfg)\<^sup>*\<^sup>* d d'"
  using assms
  by (auto simp: sync_pending_def Let_def split: option.splits if_splits prod.splits sum.splits
      intro: sync_all_steps)

lemma watch_one_steps:
  assumes "watch_one venue t (out, (v, d)) = (out', (v', d'))"
  shows "(transfer_step cfg)\<^sup>*\<^sup>* d d'"
proof -
  have "run_tx (watch_tx t b) d = (r, d1) \<Longrightarrow> (transfer_step cfg)\<^sup>*\<^sup>* d d1" for b r d1
    by (rule run_tx_step) (auto intro: transfer_step.watched)
  with assms show ?thesis
    by (auto simp: watch_one_def Let_def split: option.splits if_splits prod.splits sum.splits)
qed

text \<open>Folding a pass over a list runs the steps of its parts.\<close>

lemma fold_steps:
  assumes "\<And>x out v d out' v' d'. f x (out, (v, d)) = (out', (v', d')) \<Longrightarrow> (transfer_step cfg)\<^sup>*\<^sup>* d d'"
  shows "fold f xs (out, (v, d)) = (out', (v', d')) \<Longrightarrow> (transfer_step cfg)\<^sup>*\<^sup>* d d'"
proof (induction xs arbitrary: out v d)
  case Nil
  then show ?case by simp
next
  case (Cons x xs)
  obtain o1 v1 d1 where one: "f x (out, (v, d)) = (o1, (v1, d1))" by (rule prod3_exhaust)
  with Cons(2) have "fold f xs (o1, (v1, d1)) = (out', (v', d'))" by simp
  from Cons(1)[OF this] assms[OF one] show ?case by (meson rtranclp_trans)
qed

lemma sweep_steps:
  assumes "sweep_pending cfg venue now (v, d) = (out, (v', d'))"
  shows "(transfer_step cfg)\<^sup>*\<^sup>* d d'"
proof -
  obtain o1 v1 d1 where one: "fold (\<lambda>i (out, w1). sync_pending cfg venue now i
                (out\<lparr>sw_accounts := sw_accounts out + 1\<rparr>, w1))
          (account_ids_with_pending d) (empty_sweep, (v, d)) = (o1, (v1, d1))" by (rule prod3_exhaust)
  have "(transfer_step cfg)\<^sup>*\<^sup>* d d1"
    by (rule fold_steps[OF _ one]) (auto intro: sync_pending_steps)
  moreover from assms one have "fold (watch_one venue) (list_canceled_with_venue d1
      [reset_cancel_reason, inactive_cancel_reason] (now - reset_watch_ms)) (o1, (v1, d1)) = (out, (v', d'))"
    by (simp add: sweep_pending_def watch_canceled_by_reset_def)
  from fold_steps[OF watch_one_steps this] have "(transfer_step cfg)\<^sup>*\<^sup>* d1 d'" .
  ultimately show ?thesis by (rule rtranclp_trans)
qed

end
