(* ===== verification/Cash_Safety.thy ===== *)
theory Cash_Safety
  imports Cash_Transfers_Correct
begin

text \<open>
  The properties of the cash-transfer service (\<^verbatim>\<open>src/core/cash-transfers\<close>), for every venue.
\<close>

section \<open>Runs of the service\<close>

inductive cash_call :: "transfers_config \<Rightarrow> 'v cash_venue \<Rightarrow> 'v \<times> db \<Rightarrow> 'v \<times> db \<Rightarrow> bool" for cfg venue where
  request: "request cfg venue now inp w = (r, w') \<Longrightarrow> cash_call cfg venue w w'"
| sync: "sync_pending cfg venue now i (empty_sweep, w) = (out, w') \<Longrightarrow> cash_call cfg venue w w'"
| sweep: "sweep_pending cfg venue now w = (out, w') \<Longrightarrow> cash_call cfg venue w w'"
| cancel_at_venue: "cancel_pending_at_venue venue i w = (n, w') \<Longrightarrow> cash_call cfg venue w w'"
| cancel_on_reset: "cancel_pending_for_account i d = Inr (n, d') \<Longrightarrow> cash_call cfg venue (v, d) (v, d')"

lemma cash_call_steps:
  assumes "cash_call cfg venue w w'"
  shows "(transfer_step cfg)\<^sup>*\<^sup>* (snd w) (snd w')"
  using assms
proof (induction rule: cash_call.induct)
  case (request now inp w r w')
  then show ?case by (cases w; cases w') (auto intro: request_steps)
next
  case (sync now i w out w')
  then show ?case by (cases w; cases w') (auto intro: sync_pending_steps)
next
  case (sweep now w out w')
  then show ?case by (cases w; cases w') (auto intro: sweep_steps)
next
  case (cancel_at_venue i w n w')
  then have "snd w' = snd w"
    by (auto simp: cancel_pending_at_venue_def Let_def split: option.splits prod.splits)
  then show ?case by simp
next
  case (cancel_on_reset i d n d' v)
  then show ?case by (auto intro: transfer_step.reset)
qed

lemma cash_run_steps:
  "(cash_call cfg venue)\<^sup>*\<^sup>* w w' \<Longrightarrow> (transfer_step cfg)\<^sup>*\<^sup>* (snd w) (snd w')"
  by (induction rule: rtranclp_induct) (auto dest: cash_call_steps intro: rtranclp_trans)

text \<open>
  C5: A transfer posts to the ledger exactly when it settles, exactly once, and never afterwards.
  Whatever the venue answers, every run of the service (requests, synchronisation, sweeps, resets)
  keeps the schema, the balance of cash and ledger, and the invariant that a settled transfer has
  exactly one posting, of its signed amount, on its account, and every other transfer has none; and
  a transfer keeps its terms, and its state once it is SETTLED, FAILED or CANCELED.
\<close>

theorem transfers_settle_exactly_once:
  assumes "(cash_call cfg venue)\<^sup>*\<^sup>* w w'" "transfers_inv (snd w)" "get_transfer (snd w) i = Some t"
  shows "transfers_inv (snd w') \<and> (\<exists>t'. get_transfer (snd w') i = Some t' \<and> same_terms t t'
    \<and> postings (snd w') i = (if tr_state t' = SETTLED then [(tr_account t, signed_amount t)] else []))"
proof -
  note steps = cash_run_steps[OF assms(1)]
  have inv: "transfers_inv (snd w')" by (rule steps_inv[OF steps assms(2)])
  from steps_keep[OF steps assms(3)] obtain t' where t': "get_transfer (snd w') i = Some t'" "same_terms t t'"
    by blast
  from get_transfer_Some[OF t'(1)] transfers_invD(3)[OF inv]
  have "postings (snd w') i = (if tr_state t' = SETTLED then [(tr_account t', signed_amount t')] else [])"
    by (auto simp: transfers_posted_def list_all_iff)
  with t' inv show ?thesis by (auto simp: same_terms_def signed_amount_def)
qed

section \<open>Settlement\<close>

lemma apply_venue_shape:
  assumes "apply_venue_state now i vt d = (Inr st, d')" "get_transfer d i = Some t"
  obtains d1 where "venue_state_tx now (tr_account t) i vt d1 = Inr (st, d')"
    "d1 = (if truthy (tr_venue t) = None
           then retransfer i (\<lambda>r. r\<lparr>tr_venue := Some (vt_id vt), tr_updated := db_now d\<rparr>) d else d)"
proof -
  obtain r1 d1 where one: "(if truthy (tr_venue t) = None
      then run_tx (link_tx (tr_account t) i (vt_id vt)) d else (Inr (), d)) = (r1, d1)" by (rule prod.exhaust)
  from assms one obtain u where r1: "r1 = Inr u"
    by (auto simp: apply_venue_state_def must_get_transfer_def split: sum.splits)
  from assms one r1 have two: "run_tx (venue_state_tx now (tr_account t) i vt) d1 = (Inr st, d')"
    by (auto simp: apply_venue_state_def must_get_transfer_def)
  then have "venue_state_tx now (tr_account t) i vt d1 = Inr (st, d')"
    by (cases rule: run_tx_cases[of "venue_state_tx now (tr_account t) i vt" d1]) auto
  moreover have "d1 = (if truthy (tr_venue t) = None
           then retransfer i (\<lambda>r. r\<lparr>tr_venue := Some (vt_id vt), tr_updated := db_now d\<rparr>) d else d)"
  proof (cases "truthy (tr_venue t) = None")
    case True
    with one r1 have "link_tx (tr_account t) i (vt_id vt) d = Inr (u, d1)"
      by (cases rule: run_tx_cases[of "link_tx (tr_account t) i (vt_id vt)" d]) auto
    with True assms(2) show ?thesis
      by (auto simp: link_tx_def result_simps set_venue_transfer_id_Inr)
  next
    case False
    with one r1 have "d1 = d" by simp
    with False show ?thesis by argo
  qed
  ultimately show thesis by (rule that)
qed

lemma settlement_effect:
  assumes "transfers_inv d" "get_transfer d i = Some t" "tr_state t = PENDING"
    and "apply_venue_state now i vt d = (Inr SETTLED, d')" "vt_id vt \<noteq> []"
  shows "vt_state vt = V_settled \<and> vt_direction vt = tr_direction t \<and> vt_amount vt = tr_amount t
    \<and> (\<exists>e c. ledger d' = ledger d @ [e] \<and> le_account e = tr_account t \<and> le_amount e = signed_amount t
        \<and> le_ref e = Some (Ref_transfer i) \<and> get_cached_cash d (tr_account t) = Inr c
        \<and> get_cached_cash d' (tr_account t) = Inr (c + signed_amount t)
        \<and> (if tr_direction t = WITHDRAWAL then 0 \<le> c + signed_amount t else True))
    \<and> apply_venue_state now2 i vt2 d' = (Inr SETTLED, d')
    \<and> (\<exists>t'. get_transfer d' i = Some t' \<and> tr_state t' = SETTLED)"
proof -
  from apply_venue_shape[OF assms(4,2)] obtain d1 where tx: "venue_state_tx now (tr_account t) i vt d1 = Inr (SETTLED, d')"
    and d1: "d1 = (if truthy (tr_venue t) = None
           then retransfer i (\<lambda>r. r\<lparr>tr_venue := Some (vt_id vt), tr_updated := db_now d\<rparr>) d else d)" .
  have id: "tr_id t = i" using get_transfer_Some[OF assms(2)] by simp
  have same: "ledger d1 = ledger d" "accounts d1 = accounts d" by (simp_all add: d1)
  obtain t1 where t1: "get_transfer d1 i = Some t1" "tr_state t1 = PENDING" "tr_account t1 = tr_account t"
    "tr_direction t1 = tr_direction t" "tr_amount t1 = tr_amount t" "tr_id t1 = i" "truthy (tr_venue t1) \<noteq> None"
  proof (cases "truthy (tr_venue t) = None")
    case True
    have "get_transfer d1 i = Some (t\<lparr>tr_venue := Some (vt_id vt), tr_updated := db_now d\<rparr>)"
      unfolding d1 if_P[OF True] by (subst get_transfer_retransfer) (simp_all add: assms(2))
    then show thesis by (rule that) (use assms(3,5) id in \<open>simp_all add: truthy_def\<close>)
  next
    case False
    with assms(2,3) id that[of t] show thesis by (simp add: d1)
  qed
  from tx show ?thesis
  proof (cases rule: venue_state_cases)
    case (same t2)
    with t1(1,2) show ?thesis by simp
  next
    case closed
    then show ?thesis by simp
  next
    case (settled acc t2)
    with t1(1) have t2: "t2 = t1" by simp
    from settled(9)[unfolded t2] obtain accs e where e: "tr_direction t1 = WITHDRAWAL \<longrightarrow> tr_amount t1 \<le> acc_cash acc"
      "le_account e = acc_id acc" "le_amount e = signed_amount t1" "le_ref e = Some (Ref_transfer (tr_id t1))"
      "accs = accounts (adjust_cash (acc_id acc) (signed_amount t1) d1)"
      "d' = retransfer (tr_id t1) (state_patch SETTLED None (Some now) (db_now d1))
         (d1\<lparr>accounts := accs, ledger := ledger d1 @ [e], next_id := next_id d1 + 1\<rparr>)"
      by (rule settle_locked_Inr)
    have acc: "acc_id acc = tr_account t" by (rule account_of[OF settled(1)])
    have signed: "signed_amount t1 = signed_amount t" using t1 by (simp add: signed_amount_def)
    have "get_account d (tr_account t) = Some acc" using settled(1) same(2) by (simp add: get_account_def)
    then have c: "get_cached_cash d (tr_account t) = Inr (acc_cash acc)" by (simp add: get_cached_cash_eq)
    have "get_account d' (tr_account t) = get_account (adjust_cash (tr_account t) (signed_amount t) d) (tr_account t)"
      using e(5) same(2) by (simp add: e(6) get_account_def adjust_cash_def acc signed)
    with c have c': "get_cached_cash d' (tr_account t) = Inr (acc_cash acc + signed_amount t)"
      by (auto simp: get_cached_cash_eq)
    have "tr_direction t = WITHDRAWAL \<Longrightarrow> 0 \<le> acc_cash acc + signed_amount t"
      using e(1) t1(4,5) by (simp add: signed_amount_def)
    moreover have g: "get_transfer d' i = Some (state_patch SETTLED None (Some now) (db_now d1) t1)"
    proof -
      have "get_transfer (d1\<lparr>accounts := accs, ledger := ledger d1 @ [e], next_id := next_id d1 + 1\<rparr>) i = Some t1"
        using t1(1) by (simp add: get_transfer_def)
      then show ?thesis
        unfolding e(6) by (subst get_transfer_retransfer) (simp_all add: t1(6))
    qed
    moreover have "apply_venue_state now2 i vt2 d' = (Inr SETTLED, d')"
    proof -
      obtain a' where "get_account d' (tr_account t) = Some a'"
        using c' by (auto simp: get_cached_cash_eq)
      with g t1(3,7) show ?thesis
        by (auto simp: apply_venue_state_def must_get_transfer_def venue_state_tx_def lock_account_def run_tx_def)
    qed
    ultimately show ?thesis
      using settled(5-7) t1(4,5) t2 e(2-4) e(6) same(1) c c' acc signed t1(6) by simp
  qed
qed

text \<open>
  What a settlement does, to the cent. If the venue's answer settles a pending transfer, the answer
  was a settled venue transfer of the same direction and amount; exactly one ledger entry of the
  signed amount is appended for the account, referring to the transfer; the cached cash moves by
  that amount, and a withdrawal never drives it below zero; and every later answer of the venue
  about the transfer is acknowledged with SETTLED and changes nothing.
\<close>

theorem settlement_moves_cash_once:
  assumes "transfers_inv d" "get_transfer d i = Some t" "tr_state t = PENDING"
    and "apply_venue_state now i vt d = (Inr SETTLED, d')" "vt_id vt \<noteq> []"
  shows "vt_state vt = V_settled \<and> vt_direction vt = tr_direction t \<and> vt_amount vt = tr_amount t
    \<and> (\<exists>e c. ledger d' = ledger d @ [e] \<and> le_account e = tr_account t \<and> le_amount e = signed_amount t
        \<and> le_ref e = Some (Ref_transfer i) \<and> get_cached_cash d (tr_account t) = Inr c
        \<and> get_cached_cash d' (tr_account t) = Inr (c + signed_amount t)
        \<and> (if tr_direction t = WITHDRAWAL then 0 \<le> c + signed_amount t else True))
    \<and> apply_venue_state now2 i vt2 d' = (Inr SETTLED, d')"
  using settlement_effect[OF assms(1-5), of now2 vt2] by blast

section \<open>Requests\<close>

lemma sum_pending_append:
  "sum_pending (d\<lparr>transfers := transfers d @ [t], next_id := n\<rparr>) i dir = sum_pending d i dir
     + (if tr_account t = i \<and> tr_direction t = dir \<and> tr_state t = PENDING then tr_amount t else 0)"
  by (simp add: sum_pending_def)

lemma sum_deposits_append:
  "sum_deposits_since (d\<lparr>transfers := transfers d @ [t], next_id := n\<rparr>) i since = sum_deposits_since d i since
     + (if tr_account t = i \<and> tr_direction t = DEPOSIT \<and> (tr_state t = PENDING \<or> tr_state t = SETTLED)
          \<and> since \<le> tr_created t then tr_amount t else 0)"
  by (simp add: sum_deposits_since_def)

text \<open>
  A new transfer is within its limits at the moment it is created, under the account lock. Its
  amount lies between the limits; a withdrawal is covered by the buying power (cash less open buy
  reservations and pending withdrawals), which drops by exactly its amount and stays non-negative, so
  the same cash cannot be placed in an order or withdrawn again; a deposit keeps the deposits of the
  trailing window within the daily cap. No money moves: ledger and accounts are untouched.
\<close>

theorem request_within_limits:
  assumes "request_tx cfg now inp d = Inr ((t, Some rf), d')" "0 < rt_amount inp"
    and "get_account d (rt_account inp) = Some a"
  shows "acc_status a = ACTIVE \<and> tr_state t = PENDING \<and> transfers d' = transfers d @ [t]
    \<and> ledger d' = ledger d \<and> accounts d' = accounts d
    \<and> min_amount (tc_limits cfg) \<le> tr_amount t \<and> tr_amount t \<le> max_per_transfer (tc_limits cfg)
    \<and> (if tr_direction t = WITHDRAWAL
       then buying_power d' a = buying_power d a - tr_amount t \<and> 0 \<le> buying_power d' a
       else buying_power d' a = buying_power d a
         \<and> deposited_in_window cfg now d' a \<le> daily_deposit_cap (tc_limits cfg))"
  using assms(1)
proof (cases rule: request_tx_cases)
  case (created a' rf')
  with assms(3) have a: "a' = a" by simp
  let ?dir = "rt_direction inp" and ?m = "rt_amount inp"
  have t: "tr_state t = PENDING" "tr_direction t = ?dir" "tr_amount t = ?m" "tr_account t = acc_id a"
    by (simp_all add: created(7) fresh_transfer_def new_transfer_of_def a)
  from created(6) have lim: "min_amount (tc_limits cfg) \<le> ?m" "?m \<le> max_per_transfer (tc_limits cfg)"
    by (simp_all add: check_transfer_request_Inr)
  have reserved: "sum_open_buy_reservations d' i = sum_open_buy_reservations d i" for i
    by (simp add: created(9) sum_open_buy_reservations_def)
  have "if ?dir = WITHDRAWAL
       then buying_power d' a = buying_power d a - ?m \<and> 0 \<le> buying_power d' a
       else buying_power d' a = buying_power d a
         \<and> deposited_in_window cfg now d' a \<le> daily_deposit_cap (tc_limits cfg)"
  proof (cases ?dir)
    case WITHDRAWAL
    with created(6) have "?m \<le> compute_withdrawable (acc_cash a)
        (sum_open_buy_reservations d (acc_id a)) (sum_pending d (acc_id a) WITHDRAWAL)"
      by (simp add: check_transfer_request_Inr a)
    from compute_withdrawable_le[OF assms(2) this] WITHDRAWAL t show ?thesis
      unfolding buying_power_def reserved unfolding created(9) sum_pending_append by simp
  next
    case DEPOSIT
    with created(6) have "?m \<le> deposit_remaining (tc_limits cfg) (deposited_in_window cfg now d a)"
      by (simp add: check_transfer_request_Inr a)
    from deposit_remaining_le[OF assms(2) this]
    have "deposited_in_window cfg now d' a \<le> daily_deposit_cap (tc_limits cfg)"
      using assms(2) t unfolding created(9) deposited_in_window_def Let_def sum_deposits_append
      by (simp split: if_splits)
    with DEPOSIT t show ?thesis
      unfolding buying_power_def reserved unfolding created(9) sum_pending_append by simp
  qed
  moreover have "transfers d' = transfers d @ [t]" "ledger d' = ledger d" "accounts d' = accounts d"
    by (simp_all add: created(9))
  ultimately show ?thesis using created(2) a t lim by (cases ?dir) simp_all
qed simp

text \<open>The running example withdraws 300.00 of its 1000.00.\<close>

definition demo_limits :: transfers_config where
  "demo_limits = \<lparr>tc_limits = default_transfer_limits, tc_grace = 600000, tc_history = 20\<rparr>"

definition demo_withdrawal :: transfer_request where
  "demo_withdrawal = \<lparr>rt_account = 0, rt_direction = WITHDRAWAL, rt_amount = 30000, rt_key = ''w1''\<rparr>"

definition demo_transfer :: cash_transfer where
  "demo_transfer = fresh_transfer (new_transfer_of demo_withdrawal 0) demo_db"

definition demo_requested :: db where
  "demo_requested = demo_db\<lparr>transfers := [demo_transfer], next_id := 4\<rparr>"

lemma demo_transfer_fields [simp]:
  "tr_id demo_transfer = 3" "tr_account demo_transfer = 0" "tr_direction demo_transfer = WITHDRAWAL"
  "tr_amount demo_transfer = 30000" "tr_state demo_transfer = PENDING" "tr_venue demo_transfer = None"
  "tr_key demo_transfer = ''w1''" "tr_settled demo_transfer = None" "tr_created demo_transfer = 0"
  "tr_hash demo_transfer = request_fingerprint WITHDRAWAL 30000"
  by (simp_all add: demo_transfer_def fresh_transfer_def new_transfer_of_def demo_withdrawal_def demo_defs)

lemma demo_lookup: "get_account demo_db 0 = Some demo_account"
  "get_broker_account demo_db 0 = Some \<lparr>ref_broker = DETERMINISTIC, ref_external = ''ext''\<rparr>"
  "find_transfer_key demo_db 0 k = None" "transfers demo_db = []" "has_account demo_db 0" "next_id demo_db = 3"
  by (simp_all add: get_account_def get_broker_account_def find_transfer_key_def has_account_def demo_defs)

lemma demo_request_tx:
  "request_tx demo_limits 5 demo_withdrawal demo_db
     = Inr ((demo_transfer, Some \<lparr>ref_broker = DETERMINISTIC, ref_external = ''ext''\<rparr>), demo_requested)"
proof -
  let ?f = "fresh_transfer (new_transfer_of demo_withdrawal 0) demo_db"
  have "transfers_ok [?f]"
    unfolding demo_transfer_def[symmetric] by (simp add: transfers_ok_def transfer_check_def unique_index_def)
  then have ins: "insert_transfer (new_transfer_of demo_withdrawal 0) demo_db = Inr (Some demo_transfer, demo_requested)"
    by (simp add: insert_transfer_fresh demo_lookup new_transfer_of_def demo_requested_def demo_transfer_def)
  have "sum_open_buy_reservations demo_db 0 = 0" "sum_pending demo_db 0 WITHDRAWAL = 0" "acc_id demo_account = 0"
    "acc_status demo_account = ACTIVE" "acc_cash demo_account = 100000"
    by (simp_all add: sum_open_buy_reservations_def sum_pending_def demo_defs)
  moreover have "check_transfer_request WITHDRAWAL 30000 (tc_limits demo_limits)
      (compute_withdrawable 100000 0 0) 0 = Inr ()"
    by (simp add: check_transfer_request_Inr demo_limits_def default_transfer_limits_def compute_withdrawable_def
        money_is_negative_def)
  ultimately show ?thesis
    using ins by (simp add: request_tx_def lock_account_def demo_lookup demo_withdrawal_def Let_def)
qed

theorem request_within_limits_witness:
  "buying_power demo_requested demo_account = buying_power demo_db demo_account - 30000
     \<and> 0 \<le> buying_power demo_requested demo_account"
  using request_within_limits[OF demo_request_tx _, of demo_account] by (simp add: demo_withdrawal_def demo_lookup)

text \<open>Well-formedness of the running example.\<close>

lemma demo_transfers_inv: "transfers_inv demo_db" "transfers_inv demo_requested"
proof -
  show d: "transfers_inv demo_db"
    by (simp add: transfers_inv_def demo_in_balance transfers_posted_def demo_lookup)
       (simp add: demo_defs transfer_ref_def)
  from step_inv[OF transfer_step.requested[OF demo_request_tx] d] show "transfers_inv demo_requested" .
qed

lemma demo_get_transfer: "get_transfer demo_requested 3 = Some demo_transfer"
  by (simp add: demo_requested_def get_transfer_def)

text \<open>The venue executes the withdrawal.\<close>

definition demo_settled_answer :: venue_transfer where
  "demo_settled_answer = \<lparr>vt_id = ''v1'', vt_direction = WITHDRAWAL, vt_amount = 30000,
     vt_state = V_settled, vt_failure = None, vt_created = 1\<rparr>"

section \<open>Liveness of settlement\<close>

lemma settle_succeeds:
  assumes "transfers_inv d" "get_transfer d i = Some t" "tr_state t = PENDING"
    "get_account d (tr_account t) = Some a" "tr_direction t = WITHDRAWAL \<longrightarrow> tr_amount t \<le> acc_cash a"
  obtains d' where "settle_locked now a t d = Inr d'"
proof -
  note inv = transfers_invD[OF assms(1)]
  have t: "t \<in> set (transfers d)" "tr_id t = i" using get_transfer_Some[OF assms(2)] by auto
  have ok: "transfers_ok (transfers d)" and led: "ledger_ok (ledger d)" and fresh: "ids_fresh d"
    using inv(1) by (simp_all add: schema_ok_def)
  have acc: "acc_id a = tr_account t" by (rule account_of[OF assms(4)])
  let ?e = "entry_row (transfer_entry t (acc_id a) (signed_amount t)) (next_id d) (db_now d)"
  have pos: "0 < tr_amount t" using ok t(1) by (auto simp: transfers_ok_def list_all_iff transfer_check_def)
  have "postings d i = []" using inv(3) t assms(3) by (auto simp: transfers_posted_def list_all_iff)
  then have none: "transfer_ref e \<noteq> Some i" if "e \<in> set (ledger d)" for e
    using that by (auto simp: postings_def filter_empty_conv)
  have "next_id d \<notin> le_id ` set (ledger d)" using fresh by (auto simp: ids_fresh_def list_all_iff)
  moreover have "Some i \<notin> transfer_ref ` set (ledger d)" using none by force
  moreover have "transfer_ref ?e = Some i" using t(2) by (simp add: transfer_entry_def)
  ultimately have "ledger_ok (ledger d @ [?e])"
    using led pos by (auto simp: ledger_ok_def unique_index_append transfer_entry_def signed_amount_def)
  then have ins: "insert_entry (transfer_entry t (acc_id a) (signed_amount t)) d
      = Inr (?e, d\<lparr>ledger := ledger d @ [?e], next_id := next_id d + 1\<rparr>)"
    using assms(4) acc by (auto simp: insert_entry_Inr entry_row_def transfer_entry_def has_account_get)
  have "ne_amount (transfer_entry t (acc_id a) (signed_amount t)) \<noteq> 0"
    using pos by (simp add: transfer_entry_def signed_amount_def)
  with ins obtain r d1 where p: "post (transfer_entry t (acc_id a) (signed_amount t)) d = Inr (r, d1)"
    and d1: "transfers d1 = transfers d"
    by (simp add: post_def post_via_def adjust_cash_def)
  let ?f = "state_patch SETTLED None (Some now) (db_now d1)"
  have "transfer_check (?f r)" if "r \<in> set (transfers d)" for r
    using ok that by (auto simp: transfers_ok_def list_all_iff transfer_check_def state_patch_def or_else_def)
  then have "transfers_ok (modify (\<lambda>r. tr_id r = i) ?f (transfers d))"
    using ok by (auto simp: transfers_ok_def map_modify list_all_iff unique_index_modify elim!: in_set_modifyE)
  then have "set_transfer_state i SETTLED None (Some now) d1 = Inr (retransfer i ?f d1)"
    by (simp add: set_transfer_state_Inr d1)
  with p assms(3,5) t(2) have "settle_locked now a t d = Inr (retransfer i ?f d1)"
    by (cases "tr_direction t") (auto simp: settle_locked_def can_transition_def signed_amount_def)
  then show thesis by (rule that)
qed

text \<open>
  A settlement goes through. For a pending transfer of an active account that is linked to its
  venue transfer, the venue's answer SETTLED (same direction and amount) settles it at once, provided
  the cash covers a withdrawal; and if the cash does not cover the withdrawal, the answer is refused
  with an error and nothing changes, so the hold stays until an operator resolves it.
\<close>

theorem settled_answer_posts:
  assumes "transfers_inv d" "get_transfer d i = Some t" "tr_state t = PENDING"
    "get_account d (tr_account t) = Some a" "acc_status a = ACTIVE" "truthy (tr_venue t) = Some v"
    and "vt_state vt = V_settled" "vt_direction vt = tr_direction t" "vt_amount vt = tr_amount t"
  shows "if tr_direction t = WITHDRAWAL \<and> acc_cash a < tr_amount t
    then apply_venue_state now i vt d = (Inl (InvariantViolation ''withdrawal exceeds cash''), d)
    else \<exists>d'. apply_venue_state now i vt d = (Inr SETTLED, d')"
proof -
  have eq: "apply_venue_state now i vt d
      = run_tx (\<lambda>d. ebind (settle_locked now a t d) (\<lambda>d1. Inr (SETTLED, d1))) d"
    using assms by (simp add: apply_venue_state_def must_get_transfer_def venue_state_tx_def lock_account_def run_tx_def)
  show ?thesis
  proof (cases "tr_direction t = WITHDRAWAL \<and> acc_cash a < tr_amount t")
    case True
    then have "settle_locked now a t d = Inl (InvariantViolation ''withdrawal exceeds cash'')"
      using assms(3) by (simp add: settle_locked_def can_transition_def)
    with True show ?thesis by (simp add: eq run_tx_def)
  next
    case False
    then have "tr_direction t = WITHDRAWAL \<longrightarrow> tr_amount t \<le> acc_cash a" by auto
    from settle_succeeds[OF assms(1-4) this] obtain d' where "settle_locked now a t d = Inr d'" .
    with False show ?thesis by (auto simp: eq run_tx_def)
  qed
qed

text \<open>The running example after its venue id was linked.\<close>

definition demo_linked :: db where
  "demo_linked = retransfer 3 (\<lambda>r. r\<lparr>tr_venue := Some ''v1'', tr_updated := 0\<rparr>) demo_requested"

lemma demo_link: "set_venue_transfer_id 3 ''v1'' demo_requested = Inr demo_linked"
proof -
  have "db_now demo_requested = 0" by (simp add: demo_requested_def demo_defs)
  then show ?thesis
    by (simp add: set_venue_transfer_id_Inr demo_linked_def)
      (simp add: demo_requested_def transfers_ok_def transfer_check_def unique_index_def)
qed

lemma demo_linked_facts:
  "transfers_inv demo_linked" "get_account demo_linked 0 = Some demo_account"
  "get_transfer demo_linked 3 = Some (demo_transfer\<lparr>tr_venue := Some ''v1'', tr_updated := 0\<rparr>)"
proof -
  show "transfers_inv demo_linked"
    by (rule row_write_inv[OF row_write.link[OF demo_get_transfer _ demo_link] demo_transfers_inv(2)])
       (simp add: truthy_def)
  show "get_account demo_linked 0 = Some demo_account"
    using demo_lookup(1) by (simp add: demo_linked_def demo_requested_def get_account_def)
  show "get_transfer demo_linked 3 = Some (demo_transfer\<lparr>tr_venue := Some ''v1'', tr_updated := 0\<rparr>)"
    unfolding demo_linked_def by (subst get_transfer_retransfer) (simp_all add: demo_get_transfer)
qed

lemma demo_account_fields [simp]:
  "acc_id demo_account = 0" "acc_status demo_account = ACTIVE" "acc_cash demo_account = 100000"
  by (simp_all add: demo_account_def)

lemma demo_settles: "\<exists>d'. apply_venue_state 9 3 demo_settled_answer demo_linked = (Inr SETTLED, d')"
proof -
  let ?t = "demo_transfer\<lparr>tr_venue := Some ''v1'', tr_updated := 0\<rparr>"
  obtain d' where "settle_locked 9 demo_account ?t demo_linked = Inr d'"
    using settle_succeeds[OF demo_linked_facts(1,3), of demo_account] demo_linked_facts(2) by auto
  then show ?thesis
    by (simp add: apply_venue_state_def must_get_transfer_def venue_state_tx_def lock_account_def run_tx_def
        demo_linked_facts truthy_def demo_settled_answer_def)
qed

theorem settled_answer_posts_witness:
  "\<exists>d'. apply_venue_state 9 3 demo_settled_answer demo_linked = (Inr SETTLED, d')"
  using settled_answer_posts[OF demo_linked_facts(1,3), of demo_account "''v1''" demo_settled_answer 9]
  by (simp add: demo_linked_facts truthy_def demo_settled_answer_def)

theorem settlement_moves_cash_once_witness:
  "\<exists>d'. apply_venue_state 9 3 demo_settled_answer demo_linked = (Inr SETTLED, d')
     \<and> get_cached_cash d' 0 = Inr 70000
     \<and> apply_venue_state 11 3 demo_settled_answer d' = (Inr SETTLED, d')"
proof -
  from demo_settles obtain d' where s: "apply_venue_state 9 3 demo_settled_answer demo_linked = (Inr SETTLED, d')"
    by blast
  have c: "get_cached_cash demo_linked 0 = Inr 100000"
    using demo_linked_facts(2) by (simp add: get_cached_cash_eq)
  from settlement_moves_cash_once[OF demo_linked_facts(1,3) _ s, of 11 demo_settled_answer] s c show ?thesis
    by (auto simp: demo_settled_answer_def signed_amount_def)
qed

text \<open>A venue whose listing reports the withdrawal as settled.\<close>

definition settling_venue :: "unit cash_venue" where
  "settling_venue = \<lparr>cv_initiate = (\<lambda>rf i dir m v. (Inl (JsError ''timeout''), v)),
     cv_get = (\<lambda>rf i v. (Inr (Some demo_settled_answer), v)),
     cv_list = (\<lambda>rf t v. (Inr \<lparr>vl_transfers = [demo_settled_answer], vl_complete = True\<rparr>, v)),
     cv_cancel = (\<lambda>rf i v. (Inr False, v))\<rparr>"

lemma demo_sync:
  "\<exists>d' out. sync_pending demo_limits settling_venue 9 0 (empty_sweep, ((), demo_linked)) = (out, ((), d'))
     \<and> apply_venue_state 9 3 demo_settled_answer demo_linked = (Inr SETTLED, d')"
proof -
  let ?t = "demo_transfer\<lparr>tr_venue := Some ''v1'', tr_updated := 0\<rparr>"
  from demo_settles obtain d' where s: "apply_venue_state 9 3 demo_settled_answer demo_linked = (Inr SETTLED, d')"
    by blast
  have pending: "list_pending demo_linked 0 = [?t]"
    by (simp add: list_pending_def demo_linked_def demo_requested_def)
  have "get_broker_account demo_linked 0 = Some \<lparr>ref_broker = DETERMINISTIC, ref_external = ''ext''\<rparr>"
    using demo_lookup(2) by (simp add: demo_linked_def demo_requested_def get_broker_account_def)
  moreover have "sync_one demo_limits settling_venue 9 ?t (Some rf)
      (Some \<lparr>vl_transfers = [demo_settled_answer], vl_complete = True\<rparr>) (v, demo_linked) = (Inr SETTLED, (v, d'))" for rf v
    using s by (simp add: sync_one_def truthy_def demo_settled_answer_def)
  ultimately show ?thesis
    using s by (auto simp: sync_pending_def pending settling_venue_def)
qed

theorem transfers_settle_exactly_once_witness:
  "\<exists>w'. (cash_call demo_limits settling_venue)\<^sup>*\<^sup>* ((), demo_linked) w' \<and> transfers_inv (snd w')
     \<and> postings (snd w') 3 = [(0, -30000)]"
proof -
  from demo_sync obtain d' out where
    s: "sync_pending demo_limits settling_venue 9 0 (empty_sweep, ((), demo_linked)) = (out, ((), d'))"
    and a: "apply_venue_state 9 3 demo_settled_answer demo_linked = (Inr SETTLED, d')" by blast
  have run: "(cash_call demo_limits settling_venue)\<^sup>*\<^sup>* ((), demo_linked) ((), d')"
    using cash_call.sync[OF s] by blast
  obtain t where t: "get_transfer d' 3 = Some t" "tr_state t = SETTLED"
  proof -
    from apply_venue_shape[OF a demo_linked_facts(3)] have
      "venue_state_tx 9 0 3 demo_settled_answer demo_linked = Inr (SETTLED, d')" by (auto simp: truthy_def)
    then show thesis
    proof (cases rule: venue_state_cases)
      case (settled acc t)
      from settled(9) obtain d0 where
        d': "d' = retransfer (tr_id t) (state_patch SETTLED None (Some 9) (db_now demo_linked)) d0"
        and d0: "transfers d0 = transfers demo_linked" by (rule settle_locked_Inr) simp
      have "get_transfer d0 3 = Some t" using settled(2) d0 by (simp add: get_transfer_def)
      moreover have "tr_id t = 3" using get_transfer_Some[OF settled(2)] by simp
      ultimately have "get_transfer d' 3 = Some (state_patch SETTLED None (Some 9) (db_now demo_linked) t)"
        unfolding d' by (subst get_transfer_retransfer) simp_all
      then show thesis by (rule that) simp
    qed (use demo_linked_facts(3) in auto)
  qed
  from transfers_settle_exactly_once[OF run, of 3] demo_linked_facts t run show ?thesis
    by (auto simp: signed_amount_def)
qed

section \<open>Idempotency keys\<close>

lemma find_key_unique_transfer:
  assumes "schema_ok d" "get_transfer d i = Some t"
  shows "find_transfer_key d (tr_account t) (tr_key t) = Some t"
proof -
  have "distinct (map (\<lambda>r. (tr_account r, tr_key r)) (transfers d))"
    using assms(1) by (simp add: schema_ok_def transfers_ok_def)
  moreover have "t \<in> set (transfers d)" using get_transfer_Some[OF assms(2)] by simp
  ultimately have "find (\<lambda>r'. (tr_account r', tr_key r') = (tr_account t, tr_key t)) (transfers d) = Some t"
    by (rule find_key_unique)
  then show ?thesis by (simp add: find_transfer_key_def)
qed

lemma has_account_of_transfer:
  assumes "schema_ok d" "get_transfer d i = Some t"
  obtains a where "get_account d (tr_account t) = Some a"
proof -
  have "t \<in> set (transfers d)" using get_transfer_Some[OF assms(2)] by simp
  with assms(1) have "has_account d (tr_account t)" by (simp add: schema_defs list_all_iff)
  with that show thesis by (auto simp: has_account_get)
qed

text \<open>
  One key, one transfer. After a request created a transfer, and after any further run of the
  service, a request with the same account and key returns that transfer as a replay when direction
  and amount are the same, and is refused as an IDEMPOTENCY_CONFLICT when they differ; the venue is
  not called and nothing changes, whatever the account's status or cash has become.
\<close>

theorem transfer_key_idempotent:
  assumes "transfers_inv d" "request_tx cfg now inp d = Inr ((t, Some rf), d')"
    and "(cash_call cfg venue)\<^sup>*\<^sup>* (v0, d') (v, d2)"
    and "rt_account inp' = rt_account inp" "rt_key inp' = rt_key inp"
  shows "\<exists>t2. same_terms t t2 \<and> get_transfer d2 (tr_id t) = Some t2
    \<and> request cfg venue now' inp' (v, d2) =
       (if rt_direction inp' = rt_direction inp \<and> rt_amount inp' = rt_amount inp
        then (Inr (t2, True), (v, d2))
        else (Inl (AppError CONFLICT (Some IDEMPOTENCY_CONFLICT)), (v, d2)))"
  using assms(2)
proof (cases rule: request_tx_cases)
  case (created a rf')
  have inv': "transfers_inv d'" by (rule step_inv[OF transfer_step.requested[OF assms(2)] assms(1)])
  have t: "tr_id t = next_id d" "tr_account t = acc_id a" "tr_key t = rt_key inp"
    "tr_hash t = request_fingerprint (rt_direction inp) (rt_amount inp)"
    by (simp_all add: created(7) fresh_transfer_def new_transfer_of_def)
  have "schema_ok d" by (rule transfers_invD(1)[OF assms(1)])
  then have "next_id d \<notin> tr_id ` set (transfers d)" by (auto simp: schema_ok_def ids_fresh_def list_all_iff)
  then have "find (\<lambda>r. tr_id r = next_id d) (transfers d) = None"
    unfolding find_None_iff by (metis imageI)
  then have g: "get_transfer d' (tr_id t) = Some t" using t(1) by (simp add: created(9) get_transfer_def find_append)
  have steps: "(transfer_step cfg)\<^sup>*\<^sup>* d' d2" using cash_run_steps[OF assms(3)] by simp
  from steps_keep[OF steps g] obtain t2 where t2: "get_transfer d2 (tr_id t) = Some t2" "same_terms t t2" by blast
  have schema: "schema_ok d2" by (rule transfers_invD(1)[OF steps_inv[OF steps inv']])
  have acc: "acc_id a = rt_account inp" by (rule account_of[OF created(1)])
  have terms: "tr_account t2 = rt_account inp'" "tr_key t2 = rt_key inp'"
    "tr_hash t2 = request_fingerprint (rt_direction inp) (rt_amount inp)"
    using t2(2) t acc assms(4,5) by (simp_all add: same_terms_def)
  from has_account_of_transfer[OF schema t2(1)] obtain a2 where a2: "get_account d2 (rt_account inp') = Some a2"
    unfolding terms by blast
  have found: "find_transfer_key d2 (acc_id a2) (rt_key inp') = Some t2"
    using find_key_unique_transfer[OF schema t2(1)] account_of[OF a2] by (simp add: terms)
  have "request_tx cfg now' inp' d2 =
      (if rt_direction inp' = rt_direction inp \<and> rt_amount inp' = rt_amount inp
       then Inr ((t2, None), d2) else Inl (AppError CONFLICT (Some IDEMPOTENCY_CONFLICT)))"
    using a2 found terms(3)
    by (auto simp: request_tx_def lock_account_def assert_same_request_def Let_def app_error_def)
  with t2 show ?thesis by (auto simp: request_def run_tx_def)
qed simp

theorem transfer_key_idempotent_witness:
  "request demo_limits settling_venue 9 demo_withdrawal ((), demo_requested)
     = (Inr (demo_transfer, True), ((), demo_requested))
   \<and> request demo_limits settling_venue 9 (demo_withdrawal\<lparr>rt_amount := 5\<rparr>) ((), demo_requested)
     = (Inl (AppError CONFLICT (Some IDEMPOTENCY_CONFLICT)), ((), demo_requested))"
proof -
  note run = transfer_key_idempotent[OF demo_transfers_inv(1) demo_request_tx rtranclp.rtrancl_refl]
  from run[of demo_withdrawal settling_venue 9 "()"] run[of "demo_withdrawal\<lparr>rt_amount := 5\<rparr>" settling_venue 9 "()"]
  show ?thesis using demo_get_transfer by (auto simp: demo_withdrawal_def)
qed

section \<open>Failing a transfer needs evidence\<close>

lemma apply_venue_failed:
  assumes "apply_venue_state now i vt d = (r, d')" "get_transfer d i = Some t" "tr_state t = PENDING"
    "get_transfer d' i = Some t'" "tr_state t' = FAILED"
  shows "vt_state vt = V_failed \<and> vt_direction vt = tr_direction t \<and> vt_amount vt = tr_amount t"
proof -
  have link: "\<exists>t1. get_transfer d1 i = Some t1 \<and> tr_state t1 = PENDING \<and> tr_direction t1 = tr_direction t
      \<and> tr_amount t1 = tr_amount t"
    if "d1 = d \<or> link_tx (tr_account t) i (vt_id vt) d = Inr (u, d1)" for d1 u
    using that assms(2,3)
    by (auto simp: link_tx_def result_simps set_venue_transfer_id_Inr get_transfer_retransfer split: if_splits)
  obtain r1 d1 where one: "(if truthy (tr_venue t) = None
      then run_tx (link_tx (tr_account t) i (vt_id vt)) d else (Inr (), d)) = (r1, d1)" by (rule prod.exhaust)
  have "d1 = d \<or> link_tx (tr_account t) i (vt_id vt) d = Inr ((), d1)"
    using one by (cases rule: run_tx_cases[of "link_tx (tr_account t) i (vt_id vt)" d]) (auto split: if_splits)
  from link[OF this] obtain t1 where t1: "get_transfer d1 i = Some t1" "tr_state t1 = PENDING"
    "tr_direction t1 = tr_direction t" "tr_amount t1 = tr_amount t" by blast
  have "d' = d1 \<or> (\<exists>st. venue_state_tx now (tr_account t) i vt d1 = Inr (st, d'))"
  proof (cases r1)
    case (Inl e)
    with assms(1,2) one show ?thesis by (auto simp: apply_venue_state_def must_get_transfer_def)
  next
    case (Inr u)
    with assms(1,2) one have "run_tx (venue_state_tx now (tr_account t) i vt) d1 = (r, d')"
      by (auto simp: apply_venue_state_def must_get_transfer_def)
    then show ?thesis by (cases rule: run_tx_cases[of "venue_state_tx now (tr_account t) i vt" d1]) auto
  qed
  then show ?thesis
  proof
    assume "d' = d1"
    with t1 assms(4,5) show ?thesis by simp
  next
    assume "\<exists>st. venue_state_tx now (tr_account t) i vt d1 = Inr (st, d')"
    then obtain st where "venue_state_tx now (tr_account t) i vt d1 = Inr (st, d')" ..
    then show ?thesis
    proof (cases rule: venue_state_cases)
      case (same t2)
      with t1 assms(4,5) show ?thesis by simp
    next
      case (closed t2 m)
      then have "get_transfer d' i = map_option (state_patch st (Some m) None (db_now d1)) (get_transfer d1 i)"
        by (simp add: set_transfer_state_Inr get_transfer_retransfer)
      with assms(4,5) t1 closed show ?thesis by auto
    next
      case (settled acc t2)
      from settled(9) obtain d0 where
        d': "d' = retransfer (tr_id t2) (state_patch SETTLED None (Some now) (db_now d1)) d0"
        and d0: "transfers d0 = transfers d1" by (rule settle_locked_Inr) simp
      have "get_transfer d0 i = Some t2" using settled(2) d0 by (simp add: get_transfer_def)
      moreover have "tr_id t2 = i" using get_transfer_Some[OF settled(2)] by simp
      ultimately have "get_transfer d' i = Some (state_patch SETTLED None (Some now) (db_now d1) t2)"
        unfolding d' by (subst get_transfer_retransfer) simp_all
      with assms(4) have "tr_state t' = SETTLED" by auto
      with assms(5) show ?thesis by simp
    qed
  qed
qed

text \<open>
  A pending transfer fails only on evidence. If one synchronisation marks a transfer FAILED, then
  either the venue reported a failed transfer of the same direction and amount, or the grace window
  has passed and there is no venue account, or the venue answered that it has no transfer with the
  linked id, or no id was linked and a complete listing holds no unlinked transfer of the same
  direction and amount within the recovery window. A listing that failed or was incomplete never
  fails a transfer.
\<close>

theorem transfer_fails_only_on_evidence:
  assumes "sync_one cfg venue now t ref listing (v, d) = (r, (v', d'))"
    and "get_transfer d (tr_id t) = Some t" "tr_state t = PENDING"
    and "get_transfer d' (tr_id t) = Some t'" "tr_state t' = FAILED"
  shows "(\<exists>vt. vt_state vt = V_failed \<and> vt_direction vt = tr_direction t \<and> vt_amount vt = tr_amount t
        \<and> (\<exists>rf. ref = Some rf \<and> ((\<exists>l. listing = Some l \<and> vt \<in> set (vl_transfers l))
           \<or> (\<exists>vid. fst (cv_get venue rf vid v) = Inr (Some vt)))))
    \<or> (now - tr_created t > tc_grace cfg
      \<and> (ref = None
        \<or> (\<exists>rf vid. ref = Some rf \<and> tr_venue t = Some vid \<and> fst (cv_get venue rf vid v) = Inr None)
        \<or> (\<exists>l. listing = Some l \<and> vl_complete l \<and> truthy (tr_venue t) = None
            \<and> list_all (\<lambda>c. venue_id_linked d (vt_id c)) (recovery_candidates t l))))"
  (is "?reported \<or> ?late")
proof (cases "d' = d")
  case True
  with assms(2-5) show ?thesis by simp
next
  case changed: False
  note failed = apply_venue_failed[OF _ assms(2-5)]
  let ?past = "now - tr_created t > tc_grace cfg"
  show ?thesis
  proof (cases ref)
    case None
    with assms(1) changed have ?past by (auto simp: sync_one_def split: if_splits)
    with None show ?thesis by simp
  next
    case (Some rf)
    show ?thesis
    proof (cases "truthy (tr_venue t)")
      case (Some vid)
      let ?listed = "case listing of None \<Rightarrow> None | Some l \<Rightarrow> find (\<lambda>c. vt_id c = vid) (vl_transfers l)"
      have venue: "tr_venue t = Some vid" using Some by (auto simp: truthy_def split: option.splits if_splits)
      show ?thesis
      proof (cases ?listed)
        case (Some c)
        then obtain l where l: "listing = Some l" "c \<in> set (vl_transfers l)"
          by (auto split: option.splits dest: find_Some_in_set)
        from assms(1) \<open>ref = Some rf\<close> \<open>truthy (tr_venue t) = Some vid\<close> Some
        have "apply_venue_state now (tr_id t) c d = (r, d')"
          by (auto simp: sync_one_def Let_def split: prod.splits)
        from failed[OF this] l \<open>ref = Some rf\<close> show ?thesis by blast
      next
        case None
        obtain ans v1 where ans: "cv_get venue rf vid v = (ans, v1)" by (rule prod.exhaust)
        note eq = assms(1)[unfolded sync_one_def Let_def, simplified \<open>ref = Some rf\<close> \<open>truthy (tr_venue t) = Some vid\<close> None
          option.case fst_conv snd_conv ans prod.case]
        show ?thesis
        proof (cases ans)
          case (Inl e)
          with eq changed show ?thesis by simp
        next
          case (Inr o1)
          show ?thesis
          proof (cases o1)
            case None
            with eq Inr changed have ?past by (auto split: if_splits)
            with None Inr ans venue \<open>ref = Some rf\<close> show ?thesis by auto
          next
            case (Some vt)
            with eq Inr have "apply_venue_state now (tr_id t) vt d = (r, d')" by (auto split: prod.splits)
            from failed[OF this] Some Inr ans \<open>ref = Some rf\<close> show ?thesis by (metis fst_conv)
          qed
        qed
      qed
    next
      case None
      with assms(1) \<open>ref = Some rf\<close> changed have ?past by (auto simp: sync_one_def Let_def split: if_splits)
      from assms(1) None \<open>ref = Some rf\<close> changed obtain l where l: "listing = Some l"
        and rec: "recover_one now t l d = (r, d')"
        by (auto simp: sync_one_def Let_def split: if_splits option.splits prod.splits)
      show ?thesis
      proof (cases "find (\<lambda>c. \<not> venue_id_linked d (vt_id c)) (recovery_candidates t l)")
        case (Some c)
        then have "c \<in> set (vl_transfers l)"
          by (auto simp: recovery_candidates_def dest: find_Some_in_set)
        moreover from Some rec have "apply_venue_state now (tr_id t) c d = (r, d')" by (simp add: recover_one_def)
        from failed[OF this] have "vt_state c = V_failed \<and> vt_direction c = tr_direction t \<and> vt_amount c = tr_amount t" .
        ultimately show ?thesis using l \<open>ref = Some rf\<close> by blast
      next
        case none: None
        with rec changed have "vl_complete l" by (auto simp: recover_one_def split: if_splits)
        moreover have "list_all (\<lambda>c. venue_id_linked d (vt_id c)) (recovery_candidates t l)"
          using none by (auto simp: find_None_iff list_all_iff)
        ultimately show ?thesis using \<open>?past\<close> l None by blast
      qed
    qed
  qed
qed

definition demo_ref :: broker_ref where
  "demo_ref = \<lparr>ref_broker = DETERMINISTIC, ref_external = ''ext''\<rparr>"

text \<open>In the running example the listing is complete and empty, and the grace window has passed.\<close>

lemma demo_lost:
  fixes rf :: broker_ref
  shows "\<exists>d' t'. sync_one demo_limits settling_venue 700000 demo_transfer (Some rf)
      (Some \<lparr>vl_transfers = [], vl_complete = True\<rparr>) ((), demo_requested) = (Inr FAILED, ((), d'))
    \<and> get_transfer d' 3 = Some t' \<and> tr_state t' = FAILED"
proof -
  let ?m = "''The transfer never reached the venue''"
  let ?f = "state_patch FAILED (Some ?m) None (db_now demo_requested)"
  have "transfers_ok (modify (\<lambda>r. tr_id r = 3) ?f (transfers demo_requested))"
    by (simp add: demo_requested_def transfers_ok_def transfer_check_def unique_index_def state_patch_def or_else_def)
  then have s: "set_transfer_state 3 FAILED (Some ?m) None demo_requested = Inr (retransfer 3 ?f demo_requested)"
    by (simp add: set_transfer_state_Inr)
  have "lock_account demo_requested 0 = Inr demo_account"
    using demo_lookup(1) by (simp add: lock_account_def get_account_def demo_requested_def)
  with s have fin: "finish 3 FAILED ?m demo_requested = (Inr FAILED, retransfer 3 ?f demo_requested)"
    by (simp add: finish_def finish_tx_def must_get_transfer_def demo_get_transfer can_transition_def run_tx_def)
  have "recovery_candidates demo_transfer \<lparr>vl_transfers = [], vl_complete = True\<rparr> = []"
    by (simp add: recovery_candidates_def)
  then have "sync_one demo_limits settling_venue 700000 demo_transfer (Some rf)
      (Some \<lparr>vl_transfers = [], vl_complete = True\<rparr>) ((), demo_requested)
      = (Inr FAILED, ((), retransfer 3 ?f demo_requested))"
    using fin by (simp add: sync_one_def recover_one_def truthy_def demo_limits_def)
  moreover have "get_transfer (retransfer 3 ?f demo_requested) 3 = Some (?f demo_transfer)"
    by (subst get_transfer_retransfer) (simp_all add: demo_get_transfer)
  ultimately show ?thesis by (metis state_patch_fields(5))
qed

theorem transfer_fails_only_on_evidence_witness:
  "\<exists>d' t'. sync_one demo_limits settling_venue 700000 demo_transfer (Some demo_ref)
      (Some \<lparr>vl_transfers = [], vl_complete = True\<rparr>) ((), demo_requested) = (Inr FAILED, ((), d'))
    \<and> get_transfer d' 3 = Some t' \<and> tr_state t' = FAILED \<and> 700000 - tr_created demo_transfer > tc_grace demo_limits"
proof -
  from demo_lost obtain d' t' where s: "sync_one demo_limits settling_venue 700000 demo_transfer (Some demo_ref)
      (Some \<lparr>vl_transfers = [], vl_complete = True\<rparr>) ((), demo_requested) = (Inr FAILED, ((), d'))"
    "get_transfer d' 3 = Some t'" "tr_state t' = FAILED" by blast
  from transfer_fails_only_on_evidence[OF s(1)] demo_get_transfer s(2,3) s show ?thesis
    by (auto simp: settling_venue_def demo_settled_answer_def)
qed

end
