(* ===== verification/Effects.thy ===== *)
theory Effects
  imports Shared
begin

text \<open>
  Asynchronous code that can throw while it changes a world: a computation takes the world and gives a
  result with the changed world, which an exception does not undo (there is no transaction around it).
\<close>

definition wbind :: "'a result \<times> 'w \<Rightarrow> ('a \<Rightarrow> 'w \<Rightarrow> 'b result \<times> 'w) \<Rightarrow> 'b result \<times> 'w" where
  "wbind m f = (case m of (Inl e, w) \<Rightarrow> (Inl e, w) | (Inr x, w) \<Rightarrow> f x w)"

lemma wbind_simps [simp]:
  "wbind (Inl e, w) f = (Inl e, w)"
  "wbind (Inr x, w) f = f x w"
  by (simp_all add: wbind_def)

lemma wbind_cases:
  assumes "wbind m f = (r, w')"
  obtains (threw) e where "m = (Inl e, w')" "r = Inl e"
  | (went_on) x w where "m = (Inr x, w)" "f x w = (r, w')"
  using assms by (cases m; cases "fst m") auto

lemma wbind_eq_Inr:
  "wbind m f = (Inr y, w') \<longleftrightarrow> (\<exists>x w. m = (Inr x, w) \<and> f x w = (Inr y, w'))"
  by (cases m; cases "fst m") auto

lemma snd_wbind_return [simp]: "snd (wbind m (\<lambda>y w. (Inr (g y), w))) = snd m"
  by (cases m; cases "fst m") auto

text \<open>A predicate on worlds that each part keeps, the composition keeps.\<close>

lemma wbind_keeps:
  "P (snd m) \<Longrightarrow> (\<And>x w. m = (Inr x, w) \<Longrightarrow> P w \<Longrightarrow> P (snd (f x w))) \<Longrightarrow> P (snd (wbind m f))"
  by (cases m; cases "fst m") auto

text \<open>\<open>for (const x of xs) await f(x)\<close>: the first exception ends the loop.\<close>

fun each :: "('a \<Rightarrow> 'w \<Rightarrow> unit result \<times> 'w) \<Rightarrow> 'a list \<Rightarrow> 'w \<Rightarrow> unit result \<times> 'w" where
  "each f [] w = (Inr (), w)"
| "each f (x # xs) w = wbind (f x w) (\<lambda>_. each f xs)"

lemma each_append: "each f (xs @ ys) w = wbind (each f xs w) (\<lambda>_. each f ys)"
proof (induction xs arbitrary: w)
  case (Cons x xs)
  then show ?case by (cases "f x w"; cases "fst (f x w)") auto
qed simp

lemma each_keeps:
  "P w \<Longrightarrow> (\<And>x w. x \<in> set xs \<Longrightarrow> P w \<Longrightarrow> P (snd (f x w))) \<Longrightarrow> P (snd (each f xs w))"
proof (induction xs arbitrary: w)
  case (Cons x xs)
  then have "P (snd (wbind (f x w) (\<lambda>_. each f xs)))" by (intro wbind_keeps[of P]) simp_all
  then show ?case by simp
qed simp

end
