(* ===== verification/Accounts.thy ===== *)
theory Accounts
  imports Cash_Transfers
begin

text \<open>
  \<^verbatim>\<open>src/core/accounts/accounts.ts\<close>: the life cycle of a paper account, from provisioning at the venue over
  activation, which posts the opening deposit, to a reset, which archives it and opens a fresh one.
  The provisioner is a record of functions on its own state; the archive hooks are those of
  \<^verbatim>\<open>src/server/container.ts\<close>: the cancellation of pending cash transfers.
\<close>

record 'v provisioner =
  pv_provision :: "account \<Rightarrow> 'v \<Rightarrow> broker_ref result \<times> 'v"
  pv_settled_cash :: "broker_ref \<Rightarrow> 'v \<Rightarrow> money result \<times> 'v"

type_synonym archive_hook = "uuid \<Rightarrow> db \<Rightarrow> db result"

definition archive_hooks :: "archive_hook list" where
  "archive_hooks = [\<lambda>i d. ebind (cancel_pending_for_account i d) (\<lambda>(_, d1). Inr d1)]"

section \<open>Activation\<close>

definition opening_entry :: "account \<Rightarrow> new_entry" where
  "opening_entry a = \<lparr>ne_account = acc_id a, ne_type = Entry_deposit, ne_amount = acc_starting a,
     ne_ref = Some (Ref_account (acc_id a)), ne_description = ''Opening deposit (simulated)''\<rparr>"

definition activate_tx :: "uuid \<Rightarrow> db \<Rightarrow> (account \<times> db) result" where
  "activate_tx i d =
     ebind (lock_account d i) (\<lambda>locked.
       if acc_status locked \<noteq> PROVISIONING then Inr (locked, d)
       else
         ebind (set_status i ACTIVE d) (\<lambda>d1.
         ebind (post (opening_entry locked) d1) (\<lambda>(_, d2).
         ebind (of_option (InvariantViolation ''account vanished during activation'') (get_account d2 i))
           (\<lambda>fresh. Inr (fresh, d2)))))"

definition try_activate :: "'v provisioner \<Rightarrow> uuid \<Rightarrow> 'v \<times> db \<Rightarrow> account result \<times> ('v \<times> db)" where
  "try_activate pv i w =
     (case w of (v, d) \<Rightarrow>
      case get_account d i of
        None \<Rightarrow> (Inl (InvariantViolation ''tryActivate: account not found''), w)
      | Some a \<Rightarrow>
          (case get_broker_account d i of
             None \<Rightarrow> (Inr a, w)
           | Some ref \<Rightarrow>
               if acc_status a \<noteq> PROVISIONING then (Inr a, w)
               else
                 (case pv_settled_cash pv ref v of
                    (Inl e, v1) \<Rightarrow> (Inl e, (v1, d))
                  | (Inr settled, v1) \<Rightarrow>
                      if money_compare settled (acc_starting a) < 0 then (Inr a, (v1, d))
                      else (case run_tx (activate_tx i) d of (r, d1) \<Rightarrow> (r, (v1, d1))))))"

text \<open>The sweep over the accounts that wait for their funding; an account that throws is skipped.\<close>

fun activate_all :: "'v provisioner \<Rightarrow> uuid list \<Rightarrow> nat \<times> ('v \<times> db) \<Rightarrow> nat \<times> ('v \<times> db)" where
  "activate_all pv [] st = st"
| "activate_all pv (i # is) (n, w) =
     (case try_activate pv i w of
        (Inr a, w1) \<Rightarrow> activate_all pv is (if acc_status a = ACTIVE then n + 1 else n, w1)
      | (Inl _, w1) \<Rightarrow> activate_all pv is (n, w1))"

definition activate_pending_accounts :: "'v provisioner \<Rightarrow> 'v \<times> db \<Rightarrow> (nat \<times> nat) \<times> ('v \<times> db)" where
  "activate_pending_accounts pv w =
     (let ids = list_provisioning_ids (snd w)
      in case activate_all pv ids (0, w) of (activated, w1) \<Rightarrow> ((length ids, activated), w1))"

section \<open>Opening and resetting\<close>

definition link_tx_account :: "uuid \<Rightarrow> broker_ref \<Rightarrow> db \<Rightarrow> (unit \<times> db) result" where
  "link_tx_account i ref d = ebind (link_broker_account i ref d) (\<lambda>d1. Inr ((), d1))"

definition fail_tx :: "uuid \<Rightarrow> db \<Rightarrow> (unit \<times> db) result" where
  "fail_tx i d = ebind (set_status i PROVISIONING_FAILED d) (\<lambda>d1. Inr ((), d1))"

definition open_paper_account ::
    "'v provisioner \<Rightarrow> uuid \<Rightarrow> money \<Rightarrow> 'v \<times> db \<Rightarrow> account result \<times> ('v \<times> db)" where
  "open_paper_account pv user starting w =
     (case w of (v, d) \<Rightarrow>
      if starting \<le> 0 then (Inl (InvariantViolation ''starting cash must be positive''), w)
      else case run_tx (create_account user starting) d of
        (Inl e, d1) \<Rightarrow> (Inl e, (v, d1))
      | (Inr created, d1) \<Rightarrow>
          (case pv_provision pv created v of
             (Inl err, v1) \<Rightarrow>
               (case run_tx (fail_tx (acc_id created)) d1 of
                  (Inl e, d2) \<Rightarrow> (Inl e, (v1, d2))
                | (Inr _, d2) \<Rightarrow> (Inl err, (v1, d2)))
           | (Inr ref, v1) \<Rightarrow>
               (case run_tx (link_tx_account (acc_id created) ref) d1 of
                  (Inl e, d2) \<Rightarrow> (Inl e, (v1, d2))
                | (Inr _, d2) \<Rightarrow> try_activate pv (acc_id created) (v1, d2))))"

fun run_hooks :: "archive_hook list \<Rightarrow> uuid \<Rightarrow> db \<Rightarrow> db result" where
  "run_hooks [] i d = Inr d"
| "run_hooks (h # hs) i d = ebind (h i d) (run_hooks hs i)"

definition archive_tx :: "archive_hook list \<Rightarrow> uuid \<Rightarrow> db \<Rightarrow> (account \<times> db) result" where
  "archive_tx hooks user d =
     (case get_active_for_user d user of
        None \<Rightarrow> app_error CONFLICT ACCOUNT_NOT_ACTIVE
      | Some active \<Rightarrow>
          ebind (lock_account d (acc_id active)) (\<lambda>account.
            if acc_status account \<noteq> ACTIVE then app_error CONFLICT ACCOUNT_NOT_ACTIVE
            else
              ebind (run_hooks hooks (acc_id account) d) (\<lambda>d1.
              ebind (set_status (acc_id account) ARCHIVED
                       (archive_broker_account (acc_id account) d1)) (\<lambda>d2.
              Inr (account, d2)))))"

definition archive_and_reprovision ::
    "'v provisioner \<Rightarrow> archive_hook list \<Rightarrow> uuid \<Rightarrow> 'v \<times> db \<Rightarrow> account result \<times> ('v \<times> db)" where
  "archive_and_reprovision pv hooks user w =
     (case run_tx (archive_tx hooks user) (snd w) of
        (Inl e, d) \<Rightarrow> (Inl e, (fst w, d))
      | (Inr current, d) \<Rightarrow> open_paper_account pv user (acc_starting current) (fst w, d))"

end
