(* ===== verification/Det_Broker.thy ===== *)
theory Det_Broker
  imports Effects Execution Accounts
begin

text \<open>
  \<^verbatim>\<open>src/core/brokers/deterministic/deterministic-broker.ts\<close>: the execution venue of tests, continuous
  integration and local development. The fields of the class are the record \<open>det_state\<close>; a JavaScript
  \<open>Map\<close> is an association list in insertion order, with \<open>AList.update\<close> as its \<open>set\<close>. What the code
  reads outside itself (clock, market data, the listeners, the nonce of the process) is the record
  \<open>venue_env\<close>. The world of a call is the state of the venue and the one the listeners work on.
\<close>

section \<open>The state\<close>

record det_config =
  dc_slippage_bps :: int
  dc_flat_fee :: money
  dc_chunk_fills :: int
  dc_max_quote_age :: int
  dc_market_hours :: bool

definition default_deterministic_config :: det_config where
  "default_deterministic_config =
     \<lparr>dc_slippage_bps = 0, dc_flat_fee = 0, dc_chunk_fills = 0, dc_max_quote_age = 10000,
      dc_market_hours = True\<rparr>"

datatype resting_status = Rest_accepted | Rest_cancel_pending | Rest_terminal

record resting_order =
  ro_req :: order_request
  ro_broker_order :: string
  ro_filled :: int
  ro_status :: resting_status

record venue_record =
  vr_transfer :: venue_transfer
  vr_account :: string

datatype transfer_fault = Fault_reject | Fault_timeout

record det_state =
  dv_sequence :: nat
  dv_config :: det_config
  dv_transfers :: "(string \<times> venue_record) list"
  dv_hold_transfers :: bool
  dv_next_fault :: "transfer_fault option"
  dv_refuse_cancels :: bool
  dv_fail_next_cancel :: bool
  dv_incomplete :: bool
  dv_resting :: "(uuid \<times> resting_order) list"
  dv_submitted :: "(uuid \<times> string) list"
  dv_log :: "broker_event list"
  dv_cash :: "(string \<times> money) list"
  dv_held :: "(string \<times> money) list"
  dv_hold_funding :: bool
  dv_muted :: bool

definition new_venue :: "nat \<Rightarrow> det_config \<Rightarrow> det_state" where
  "new_venue n cfg =
     \<lparr>dv_sequence = n, dv_config = cfg, dv_transfers = [], dv_hold_transfers = False,
      dv_next_fault = None, dv_refuse_cancels = False, dv_fail_next_cancel = False,
      dv_incomplete = False, dv_resting = [], dv_submitted = [], dv_log = [], dv_cash = [],
      dv_held = [], dv_hold_funding = False, dv_muted = False\<rparr>"

type_synonym 'h listener = "broker_event \<Rightarrow> 'h \<Rightarrow> unit result \<times> 'h"

record 'h venue_env =
  en_now :: time
  en_nonce :: string
  en_market :: "market_status result"
  en_quote :: "string \<Rightarrow> quote result"
  en_listeners :: "'h listener list"

definition next_id_of :: "'h venue_env \<Rightarrow> string \<Rightarrow> det_state \<Rightarrow> string \<times> det_state" where
  "next_id_of en prefix s =
     (let n = dv_sequence s + 1
      in (prefix @ ''-'' @ en_nonce en @ ''-'' @ pad_start 6 (show_nat n), s\<lparr>dv_sequence := n\<rparr>))"

section \<open>Events\<close>

definition make_event ::
    "'h venue_env \<Rightarrow> order_request \<Rightarrow> string \<Rightarrow> event_type \<Rightarrow> (qty \<times> px) option \<Rightarrow> string option
     \<Rightarrow> det_state \<Rightarrow> broker_event \<times> det_state" where
  "make_event en rq boid ty trade reason s =
     (let (ext, s1) = next_id_of en ''det-evt'' s;
          (exec, s2) = (case trade of None \<Rightarrow> (None, s1)
                        | Some _ \<Rightarrow> (let (x, s2) = next_id_of en ''det-exec'' s1 in (Some x, s2)))
      in (\<lparr>ev_type = ty, ev_broker = DETERMINISTIC, ev_account = rq_account rq,
           ev_broker_order = Some boid, ev_client_order = rq_client_order rq,
           ev_external = Some ext, ev_execution = exec,
           ev_fill_qty = map_option fst trade, ev_fill_price = map_option snd trade,
           ev_fee = map_option (\<lambda>_. dc_flat_fee (dv_config s)) trade,
           ev_occurred = en_now en, ev_reason = truthy reason\<rparr>, s2))"

text \<open>\<open>emit\<close>: the event is logged and, unless the stream is muted, handed to each listener in turn.\<close>

definition emit ::
    "'h venue_env \<Rightarrow> order_request \<Rightarrow> string \<Rightarrow> event_type \<Rightarrow> (qty \<times> px) option \<Rightarrow> string option
     \<Rightarrow> det_state \<times> 'h \<Rightarrow> unit result \<times> (det_state \<times> 'h)" where
  "emit en rq boid ty trade reason w =
     (case w of (s, h) \<Rightarrow>
      case make_event en rq boid ty trade reason s of (ev, s1) \<Rightarrow>
        let s2 = s1\<lparr>dv_log := dv_log s1 @ [ev]\<rparr>
        in if dv_muted s2 then (Inr (), (s2, h))
           else (case each (\<lambda>l. l ev) (en_listeners en) h of (r, h1) \<Rightarrow> (r, (s2, h1))))"

section \<open>Fills\<close>

definition set_resting :: "uuid \<Rightarrow> resting_order \<Rightarrow> det_state \<times> 'h \<Rightarrow> det_state \<times> 'h" where
  "set_resting cid ord w = (case w of (s, h) \<Rightarrow> (s\<lparr>dv_resting := AList.update cid ord (dv_resting s)\<rparr>, h))"

text \<open>
  The loop of \<open>fill\<close>. The object in the map is updated in place, so the loop carries it and writes it
  back; a throwing listener leaves the quantity counted and the status as it was.
\<close>

definition fill_size :: "int \<Rightarrow> int \<Rightarrow> int" where
  "fill_size chunk remaining = (if chunk > 0 \<and> chunk < remaining then chunk else remaining)"

lemma fill_size_pos: "0 < r \<Longrightarrow> 0 < fill_size c r" by (simp add: fill_size_def)

function fill_loop ::
    "'h venue_env \<Rightarrow> uuid \<Rightarrow> px \<Rightarrow> resting_order \<Rightarrow> det_state \<times> 'h \<Rightarrow> unit result \<times> (det_state \<times> 'h)" where
  "fill_loop en cid price ord w =
     (let total = int (rq_qty (ro_req ord));
          chunk = dc_chunk_fills (dv_config (fst w))
      in if ro_filled ord < total then
           let size = fill_size chunk (total - ro_filled ord);
               ord1 = ord\<lparr>ro_filled := ro_filled ord + size\<rparr>;
               final = (ro_filled ord1 = total)
           in case emit en (ro_req ord) (ro_broker_order ord)
                     (if final then ORDER_FILLED else ORDER_PARTIALLY_FILLED)
                     (Some (nat size, price)) None (set_resting cid ord1 w) of
                (Inl e, w1) \<Rightarrow> (Inl e, w1)
              | (Inr _, w1) \<Rightarrow>
                  let ord2 = (if final then ord1\<lparr>ro_status := Rest_terminal\<rparr> else ord1);
                      w2 = (if final then set_resting cid ord2 w1 else w1)
                  in if chunk = 0 then (Inr (), w2) else fill_loop en cid price ord2 w2
         else (Inr (), w))"
  by pat_completeness auto

termination
proof (relation "measure (\<lambda>(en, cid, price, ord, w). nat (int (rq_qty (ro_req ord)) - ro_filled ord))", goal_cases)
  case 1
  then show ?case by simp
next
  case (2 en cid price ord w total chunk size ord1 final w1 ord2 w2)
  then have "0 < size" using fill_size_pos[of "total - ro_filled ord" chunk] by simp
  with 2 show ?case by (auto split: if_splits)
qed

declare fill_loop.simps [simp del]

definition fill_order ::
    "'h venue_env \<Rightarrow> uuid \<Rightarrow> px \<Rightarrow> det_state \<times> 'h \<Rightarrow> unit result \<times> (det_state \<times> 'h)" where
  "fill_order en cid price w =
     (case map_of (dv_resting (fst w)) cid of
        None \<Rightarrow> (Inr (), w)
      | Some ord \<Rightarrow> fill_loop en cid price ord w)"

text \<open>\<open>marketFillPrice\<close>; the factor \<open>(1 + bps / 10000).toFixed(6)\<close> is a whole number of millionths.\<close>

definition market_fill_price :: "decimal_lib \<Rightarrow> det_config \<Rightarrow> order_request \<Rightarrow> quote \<Rightarrow> px result" where
  "market_fill_price D cfg rq q =
     (let reference = (if rq_side rq = BUY then case_option (qt_last q) id (qt_ask q)
                       else case_option (qt_last q) id (qt_bid q));
          millionths = (if rq_side rq = BUY then 1000000 + 100 * dc_slippage_bps cfg
                        else 1000000 - 100 * dc_slippage_bps cfg)
      in if dc_slippage_bps cfg = 0 then Inr reference
         else px_from_string (fixed_text 4
                (dec_dp D 4 (dec_mul D (px_rat reference) (of_int millionths / 1000000)))))"

definition evaluate_resting ::
    "'h venue_env \<Rightarrow> uuid \<Rightarrow> det_state \<times> 'h \<Rightarrow> unit result \<times> (det_state \<times> 'h)" where
  "evaluate_resting en cid w =
     (case map_of (dv_resting (fst w)) cid of
        None \<Rightarrow> (Inr (), w)
      | Some ord \<Rightarrow>
          if ro_status ord \<noteq> Rest_accepted \<or> rq_type (ro_req ord) \<noteq> LIMIT then (Inr (), w)
          else case en_market en of
            Inl e \<Rightarrow> (Inl e, w)
          | Inr status \<Rightarrow>
              if dc_market_hours (dv_config (fst w)) \<and> status \<noteq> Market_open then (Inr (), w)
              else case en_quote en (rq_symbol (ro_req ord)) of
                Inl e \<Rightarrow> (Inl e, w)
              | Inr q \<Rightarrow>
                  (case rq_limit (ro_req ord) of
                     None \<Rightarrow> (Inr (), w)
                   | Some limit \<Rightarrow>
                       if rq_side (ro_req ord) = BUY then
                         let market = case_option (qt_last q) id (qt_ask q)
                         in if market \<le> limit then fill_order en cid (px_min market limit) w else (Inr (), w)
                       else
                         let market = case_option (qt_last q) id (qt_bid q)
                         in if limit \<le> market then fill_order en cid (px_max market limit) w else (Inr (), w)))"

section \<open>The broker port\<close>

definition det_submit ::
    "decimal_lib \<Rightarrow> 'h venue_env \<Rightarrow> order_request \<Rightarrow> det_state \<times> 'h \<Rightarrow> submit_result result \<times> (det_state \<times> 'h)" where
  "det_submit D en rq w =
     (let cid = rq_client_order rq in
      case truthy (map_of (dv_submitted (fst w)) cid) of
        Some existing \<Rightarrow> (Inr \<lparr>sr_broker_order = existing, sr_duplicate = True\<rparr>, w)
      | None \<Rightarrow>
          (case next_id_of en ''det-order'' (fst w) of (boid, s1) \<Rightarrow>
           let w1 = (s1\<lparr>dv_submitted := AList.update cid boid (dv_submitted s1)\<rparr>, snd w);
               accepted = \<lparr>sr_broker_order = boid, sr_duplicate = False\<rparr>
           in wbind (emit en rq boid ORDER_ACKNOWLEDGED None None w1) (\<lambda>_ w2.
              wbind (en_market en, w2) (\<lambda>status w2.
                if dc_market_hours (dv_config (fst w2)) \<and> status \<noteq> Market_open then
                  wbind (emit en rq boid ORDER_REJECTED None (Some ''market closed'') w2) (\<lambda>_ w3. (Inr accepted, w3))
                else
                  wbind (en_quote en (rq_symbol rq), w2) (\<lambda>q w2.
                    if rq_type rq = MARKET \<and> \<not> is_fresh_enough q (en_now en) (dc_max_quote_age (dv_config (fst w2))) then
                      wbind (emit en rq boid ORDER_REJECTED None (Some ''stale quote'') w2) (\<lambda>_ w3. (Inr accepted, w3))
                    else
                      wbind (emit en rq boid ORDER_ACCEPTED None None w2) (\<lambda>_ w3.
                        let w4 = set_resting cid \<lparr>ro_req = rq, ro_broker_order = boid, ro_filled = 0,
                                                  ro_status = Rest_accepted\<rparr> w3
                        in if rq_type rq = MARKET then
                             wbind (market_fill_price D (dv_config (fst w4)) rq q, w4) (\<lambda>price w4.
                             wbind (fill_order en cid price w4) (\<lambda>_ w5. (Inr accepted, w5)))
                           else
                             wbind (evaluate_resting en cid w4) (\<lambda>_ w5. (Inr accepted, w5))))))))"

definition det_cancel ::
    "'h venue_env \<Rightarrow> string \<Rightarrow> uuid \<Rightarrow> det_state \<times> 'h \<Rightarrow> cancel_result result \<times> (det_state \<times> 'h)" where
  "det_cancel en account cid w =
     (if dv_fail_next_cancel (fst w) then
        (Inl (JsError ''simulated venue timeout on cancel''), ((fst w)\<lparr>dv_fail_next_cancel := False\<rparr>, snd w))
      else
        let refused = \<lparr>cr_accepted = False, cr_reason = Some ''order not cancellable''\<rparr>
        in case map_of (dv_resting (fst w)) cid of
          None \<Rightarrow> (Inr refused, w)
        | Some ord \<Rightarrow>
            if ro_status ord = Rest_terminal then (Inr refused, w)
            else
              wbind (emit en (ro_req ord) (ro_broker_order ord) ORDER_CANCEL_PENDING None None
                       (set_resting cid (ord\<lparr>ro_status := Rest_cancel_pending\<rparr>) w)) (\<lambda>_ w1.
              wbind (emit en (ro_req ord) (ro_broker_order ord) ORDER_CANCELLED None None w1) (\<lambda>_ w2.
                (Inr \<lparr>cr_accepted = True, cr_reason = None\<rparr>,
                 set_resting cid (ord\<lparr>ro_status := Rest_terminal\<rparr>) w2))))"

fun event_type_name :: "event_type \<Rightarrow> string" where
  "event_type_name ORDER_ACKNOWLEDGED = ''ORDER_ACKNOWLEDGED''"
| "event_type_name ORDER_ACCEPTED = ''ORDER_ACCEPTED''"
| "event_type_name ORDER_PARTIALLY_FILLED = ''ORDER_PARTIALLY_FILLED''"
| "event_type_name ORDER_FILLED = ''ORDER_FILLED''"
| "event_type_name ORDER_CANCEL_PENDING = ''ORDER_CANCEL_PENDING''"
| "event_type_name ORDER_CANCELLED = ''ORDER_CANCELLED''"
| "event_type_name ORDER_REJECTED = ''ORDER_REJECTED''"
| "event_type_name ORDER_EXPIRED = ''ORDER_EXPIRED''"
| "event_type_name ORDER_SUBMIT_FAILED = ''ORDER_SUBMIT_FAILED''"
| "event_type_name UNKNOWN_VENDOR_STATUS = ''UNKNOWN_VENDOR_STATUS''"

definition events_of :: "uuid \<Rightarrow> det_state \<Rightarrow> broker_event list" where
  "events_of cid s = filter (\<lambda>e. ev_client_order e = cid) (dv_log s)"

definition det_get_order :: "uuid \<Rightarrow> det_state \<Rightarrow> order_snapshot option result" where
  "det_get_order cid s =
     (case truthy (map_of (dv_submitted s) cid) of
        None \<Rightarrow> Inr None
      | Some boid \<Rightarrow>
          let filled = (case map_of (dv_resting s) cid of None \<Rightarrow> 0 | Some ord \<Rightarrow> ro_filled ord);
              events = events_of cid s
          in ebind (qty_of_int filled) (\<lambda>q.
             Inr (Some \<lparr>sn_client_order = cid, sn_broker_order = boid,
                        sn_status = (if events = [] then ''unknown'' else event_type_name (ev_type (last events))),
                        sn_filled = q, sn_events = events\<rparr>)))"

fun collect_open :: "det_state \<Rightarrow> (uuid \<times> resting_order) list \<Rightarrow> order_snapshot list result" where
  "collect_open s [] = Inr []"
| "collect_open s ((cid, ord) # rest) =
     (if ro_status ord = Rest_terminal then collect_open s rest
      else ebind (det_get_order cid s) (\<lambda>sn.
           ebind (collect_open s rest) (\<lambda>out. Inr (case_option out (\<lambda>x. x # out) sn))))"

definition list_open_orders :: "det_state \<Rightarrow> order_snapshot list result" where
  "list_open_orders s = collect_open s (dv_resting s)"

definition account_cash_of :: "string \<Rightarrow> det_state \<Rightarrow> money" where
  "account_cash_of account s = case_option 0 id (map_of (dv_cash s) account)"

text \<open>\<open>subscribe\<close>: what is replayed from a cursor; an unknown cursor replays the whole log.\<close>

fun find_index :: "('a \<Rightarrow> bool) \<Rightarrow> 'a list \<Rightarrow> int" where
  "find_index p [] = -1"
| "find_index p (x # xs) = (if p x then 0 else let i = find_index p xs in if i < 0 then -1 else i + 1)"

definition replay_from :: "string option \<Rightarrow> det_state \<Rightarrow> broker_event list" where
  "replay_from cursor s =
     (let start = (case cursor of
                     Some c \<Rightarrow> find_index (\<lambda>e. ev_external e = Some c) (dv_log s) + 1
                   | None \<Rightarrow> int (length (dv_log s)))
      in drop (nat (max 0 start)) (dv_log s))"

definition replay_to :: "'h listener \<Rightarrow> string option \<Rightarrow> det_state \<times> 'h \<Rightarrow> unit result \<times> (det_state \<times> 'h)" where
  "replay_to l cursor w =
     (case each l (replay_from cursor (fst w)) (snd w) of (r, h) \<Rightarrow> (r, (fst w, h)))"

definition det_tick :: "'h venue_env \<Rightarrow> det_state \<times> 'h \<Rightarrow> unit result \<times> (det_state \<times> 'h)" where
  "det_tick en w = each (evaluate_resting en) (map fst (dv_resting (fst w))) w"

definition expire_one :: "'h venue_env \<Rightarrow> uuid \<Rightarrow> det_state \<times> 'h \<Rightarrow> unit result \<times> (det_state \<times> 'h)" where
  "expire_one en cid w =
     (case map_of (dv_resting (fst w)) cid of
        None \<Rightarrow> (Inr (), w)
      | Some ord \<Rightarrow>
          if ro_status ord = Rest_terminal then (Inr (), w)
          else wbind (emit en (ro_req ord) (ro_broker_order ord) ORDER_EXPIRED None None w)
                 (\<lambda>_ w1. (Inr (), set_resting cid (ord\<lparr>ro_status := Rest_terminal\<rparr>) w1)))"

definition expire_day_orders :: "'h venue_env \<Rightarrow> det_state \<times> 'h \<Rightarrow> unit result \<times> (det_state \<times> 'h)" where
  "expire_day_orders en w = each (expire_one en) (map fst (dv_resting (fst w))) w"

section \<open>Accounts and their funding\<close>

definition det_provision :: "account \<Rightarrow> det_state \<Rightarrow> broker_ref \<times> det_state" where
  "det_provision a s =
     (let ext = ''det-acct-'' @ show_nat (acc_id a)
      in (\<lparr>ref_broker = DETERMINISTIC, ref_external = ext\<rparr>,
          if dv_hold_funding s
          then s\<lparr>dv_cash := AList.update ext 0 (dv_cash s),
                 dv_held := AList.update ext (acc_starting a) (dv_held s)\<rparr>
          else s\<lparr>dv_cash := AList.update ext (acc_starting a) (dv_cash s)\<rparr>))"

definition release_funding :: "string \<Rightarrow> det_state \<Rightarrow> det_state" where
  "release_funding ext s =
     (case map_of (dv_held s) ext of
        None \<Rightarrow> s
      | Some m \<Rightarrow> s\<lparr>dv_cash := AList.update ext m (dv_cash s), dv_held := AList.delete ext (dv_held s)\<rparr>)"

section \<open>The cash transfer port\<close>

definition complete_transfer :: "string \<Rightarrow> det_state \<Rightarrow> det_state" where
  "complete_transfer vid s =
     (case map_of (dv_transfers s) vid of
        None \<Rightarrow> s
      | Some r \<Rightarrow>
          if vt_state (vr_transfer r) \<noteq> V_pending then s
          else
            let cash = account_cash_of (vr_account r) s;
                amount = vt_amount (vr_transfer r);
                r1 = r\<lparr>vr_transfer := (vr_transfer r)\<lparr>vt_state := V_settled\<rparr>\<rparr>
            in s\<lparr>dv_transfers := AList.update vid r1 (dv_transfers s),
                 dv_cash := AList.update (vr_account r)
                   (if vt_direction (vr_transfer r) = DEPOSIT then cash + amount else cash - amount) (dv_cash s)\<rparr>)"

definition fail_record :: "string \<Rightarrow> string \<Rightarrow> det_state \<Rightarrow> det_state" where
  "fail_record vid reason s =
     (case map_of (dv_transfers s) vid of
        None \<Rightarrow> s
      | Some r \<Rightarrow>
          if vt_state (vr_transfer r) \<noteq> V_pending then s
          else s\<lparr>dv_transfers := AList.update vid
                  (r\<lparr>vr_transfer := (vr_transfer r)\<lparr>vt_state := V_failed, vt_failure := Some reason\<rparr>\<rparr>)
                  (dv_transfers s)\<rparr>)"

definition det_initiate ::
    "'h venue_env \<Rightarrow> broker_ref \<Rightarrow> transfer_direction \<Rightarrow> money \<Rightarrow> det_state \<Rightarrow> venue_transfer result \<times> det_state" where
  "det_initiate en rf dir amount s =
     (let s1 = s\<lparr>dv_next_fault := None\<rparr> in
      case dv_next_fault s of
        Some Fault_reject \<Rightarrow> (Inl (TransferRejected ''simulated venue rejection''), s1)
      | Some Fault_timeout \<Rightarrow> (Inl (JsError ''simulated venue timeout''), s1)
      | None \<Rightarrow>
          (case next_id_of en ''det-xfer'' s1 of (vid, s2) \<Rightarrow>
           let r = \<lparr>vr_transfer = \<lparr>vt_id = vid, vt_direction = dir, vt_amount = amount,
                                   vt_state = V_pending, vt_failure = None, vt_created = en_now en\<rparr>,
                    vr_account = ref_external rf\<rparr>;
               s3 = s2\<lparr>dv_transfers := AList.update vid r (dv_transfers s2)\<rparr>;
               s4 = (if dv_hold_transfers s3 then s3 else complete_transfer vid s3)
           in (Inr (case_option (vr_transfer r) vr_transfer (map_of (dv_transfers s4) vid)), s4)))"

definition det_get_transfer :: "string \<Rightarrow> det_state \<Rightarrow> venue_transfer option" where
  "det_get_transfer vid s = map_option vr_transfer (map_of (dv_transfers s) vid)"

definition det_list_transfers :: "broker_ref \<Rightarrow> time \<Rightarrow> det_state \<Rightarrow> venue_listing" where
  "det_list_transfers rf since s =
     \<lparr>vl_transfers = map vr_transfer
        (filter (\<lambda>r. vr_account r = ref_external rf \<and> since \<le> vt_created (vr_transfer r))
          (map snd (dv_transfers s))),
      vl_complete = (\<not> dv_incomplete s)\<rparr>"

definition det_cancel_transfer :: "string \<Rightarrow> det_state \<Rightarrow> bool \<times> det_state" where
  "det_cancel_transfer vid s =
     (case map_of (dv_transfers s) vid of
        None \<Rightarrow> (False, s)
      | Some r \<Rightarrow>
          if vt_state (vr_transfer r) \<noteq> V_pending \<or> dv_refuse_cancels s then (False, s)
          else (True, fail_record vid ''Canceled at the venue'' s))"

definition backdate_transfer :: "string \<Rightarrow> int \<Rightarrow> det_state \<Rightarrow> det_state" where
  "backdate_transfer vid ms s =
     (case map_of (dv_transfers s) vid of
        None \<Rightarrow> s
      | Some r \<Rightarrow> s\<lparr>dv_transfers := AList.update vid
          (r\<lparr>vr_transfer := (vr_transfer r)\<lparr>vt_created := vt_created (vr_transfer r) - ms\<rparr>\<rparr>)
          (dv_transfers s)\<rparr>)"

section \<open>The test hooks\<close>

datatype test_hook =
    Configure det_config | Mute_events bool | Hold_funding bool | Refuse_transfer_cancels bool
  | Incomplete_listings bool | Fail_next_cancel | Hold_transfers bool | Fail_next_transfer transfer_fault
  | Forget_transfers

fun run_hook :: "test_hook \<Rightarrow> det_state \<Rightarrow> det_state" where
  "run_hook (Configure cfg) s = s\<lparr>dv_config := cfg\<rparr>"
| "run_hook (Mute_events b) s = s\<lparr>dv_muted := b\<rparr>"
| "run_hook (Hold_funding b) s = s\<lparr>dv_hold_funding := b\<rparr>"
| "run_hook (Refuse_transfer_cancels b) s = s\<lparr>dv_refuse_cancels := b\<rparr>"
| "run_hook (Incomplete_listings b) s = s\<lparr>dv_incomplete := b\<rparr>"
| "run_hook Fail_next_cancel s = s\<lparr>dv_fail_next_cancel := True\<rparr>"
| "run_hook (Hold_transfers b) s = s\<lparr>dv_hold_transfers := b\<rparr>"
| "run_hook (Fail_next_transfer f) s = s\<lparr>dv_next_fault := Some f\<rparr>"
| "run_hook Forget_transfers s = s\<lparr>dv_transfers := []\<rparr>"

section \<open>The venue as the ports of the program\<close>

definition det_broker :: "decimal_lib \<Rightarrow> db venue_env \<Rightarrow> det_state broker" where
  "det_broker D en =
     \<lparr>br_kind = DETERMINISTIC,
      br_submit = det_submit D en,
      br_cancel = det_cancel en,
      br_get_order = \<lambda>account cid w. (det_get_order cid (fst w), w)\<rparr>"

definition det_cash_venue :: "'h venue_env \<Rightarrow> det_state cash_venue" where
  "det_cash_venue en =
     \<lparr>cv_initiate = \<lambda>rf i. det_initiate en rf,
      cv_get = \<lambda>rf vid s. (Inr (det_get_transfer vid s), s),
      cv_list = \<lambda>rf since s. (Inr (det_list_transfers rf since s), s),
      cv_cancel = \<lambda>rf vid s. (case det_cancel_transfer vid s of (b, s1) \<Rightarrow> (Inr b, s1))\<rparr>"

definition det_provisioner :: "det_state provisioner" where
  "det_provisioner =
     \<lparr>pv_provision = \<lambda>a s. (case det_provision a s of (rf, s1) \<Rightarrow> (Inr rf, s1)),
      pv_settled_cash = \<lambda>rf s. (Inr (account_cash_of (ref_external rf) s), s)\<rparr>"

end
