(* ===== verification/Det_Broker_Correct.thy ===== *)
theory Det_Broker_Correct
  imports Det_Broker Execution_Submit Cash_Transfers_Correct
begin

text \<open>
  The correctness of the deterministic venue: it touches what its listeners work on only by handing them
  events (so it satisfies the broker port contract), its identifiers never repeat, a market order fills
  completely in chunks of the configured size, and the events of every order form a legal life cycle.
\<close>

section \<open>One turn of the fill loop\<close>

abbreviation fill_left :: "resting_order \<Rightarrow> int" where
  "fill_left ord \<equiv> int (rq_qty (ro_req ord)) - ro_filled ord"

definition after_fill :: "int \<Rightarrow> resting_order \<Rightarrow> resting_order" where
  "after_fill chunk ord = ord\<lparr>ro_filled := ro_filled ord + fill_size chunk (fill_left ord)\<rparr>"

definition fill_event_type :: "resting_order \<Rightarrow> event_type" where
  "fill_event_type ord = (if fill_left ord = 0 then ORDER_FILLED else ORDER_PARTIALLY_FILLED)"

definition close_filled :: "resting_order \<Rightarrow> resting_order" where
  "close_filled ord = (if fill_left ord = 0 then ord\<lparr>ro_status := Rest_terminal\<rparr> else ord)"

lemma after_fill_simps [simp]:
  "ro_req (after_fill c ord) = ro_req ord" "ro_broker_order (after_fill c ord) = ro_broker_order ord"
  "ro_status (after_fill c ord) = ro_status ord"
  "ro_filled (after_fill c ord) = ro_filled ord + fill_size c (fill_left ord)"
  "ro_req (close_filled ord) = ro_req ord" "ro_broker_order (close_filled ord) = ro_broker_order ord"
  "ro_filled (close_filled ord) = ro_filled ord"
  by (simp_all add: after_fill_def close_filled_def)

lemma fill_loop_done: "fill_left ord \<le> 0 \<Longrightarrow> fill_loop en cid price ord w = (Inr (), w)"
  by (subst fill_loop.simps) simp

lemma fill_loop_turn:
  assumes "0 < fill_left ord"
  shows "fill_loop en cid price ord w =
    (let chunk = dc_chunk_fills (dv_config (fst w)); ord1 = after_fill chunk ord
     in case emit en (ro_req ord) (ro_broker_order ord) (fill_event_type ord1)
              (Some (nat (fill_size chunk (fill_left ord)), price)) None (set_resting cid ord1 w) of
          (Inl e, w1) \<Rightarrow> (Inl e, w1)
        | (Inr _, w1) \<Rightarrow>
            let w2 = (if fill_left ord1 = 0 then set_resting cid (close_filled ord1) w1 else w1)
            in if chunk = 0 then (Inr (), w2) else fill_loop en cid price (close_filled ord1) w2)"
  using assms
  by (subst fill_loop.simps)
     (auto simp: Let_def after_fill_def fill_event_type_def close_filled_def
        intro!: arg_cong2[where f = case_prod] split: prod.splits sum.splits)

lemma fill_loop_cases:
  assumes "fill_loop en cid price ord w = (r, w')"
  obtains (full) "fill_left ord \<le> 0" "w' = w" "r = Inr ()"
  | (turn) chunk ord1 x w1 where "0 < fill_left ord" "chunk = dc_chunk_fills (dv_config (fst w))"
      "ord1 = after_fill chunk ord"
      "emit en (ro_req ord) (ro_broker_order ord) (fill_event_type ord1)
         (Some (nat (fill_size chunk (fill_left ord)), price)) None (set_resting cid ord1 w) = (x, w1)"
      "(\<exists>e. x = Inl e \<and> w' = w1 \<and> r = Inl e)
       \<or> (x = Inr () \<and> (let w2 = (if fill_left ord1 = 0 then set_resting cid (close_filled ord1) w1 else w1)
            in if chunk = 0 then w' = w2 \<and> r = Inr ()
               else fill_loop en cid price (close_filled ord1) w2 = (r, w')))"
proof (cases "0 < fill_left ord")
  case False
  with assms full show thesis by (simp add: fill_loop_done)
next
  case True
  let ?c = "dc_chunk_fills (dv_config (fst w))"
  obtain x w1 where e: "emit en (ro_req ord) (ro_broker_order ord) (fill_event_type (after_fill ?c ord))
      (Some (nat (fill_size ?c (fill_left ord)), price)) None (set_resting cid (after_fill ?c ord) w) = (x, w1)"
    by (rule prod.exhaust)
  show thesis
    by (rule turn[OF True refl refl e])
       (use assms e in \<open>auto simp: fill_loop_turn[OF True] Let_def split: sum.splits if_splits\<close>)
qed

section \<open>What every operation keeps\<close>

text \<open>
  A predicate on the world that survives the three things an operation does (emitting an event, touching
  the resting orders, registering a submission) survives every operation.
\<close>

locale venue_frame =
  fixes en :: "'h venue_env" and P :: "det_state \<times> 'h \<Rightarrow> bool"
  assumes emitted: "P w \<Longrightarrow> P (snd (emit en rq b ty tr re w))"
    and rested: "P (s, h) \<Longrightarrow> P (s\<lparr>dv_resting := rs\<rparr>, h)"
    and registered: "P (s, h) \<Longrightarrow> truthy (map_of (dv_submitted s) cid) = None
      \<Longrightarrow> next_id_of en ''det-order'' s = (b, s1)
      \<Longrightarrow> P (s1\<lparr>dv_submitted := AList.update cid b (dv_submitted s1)\<rparr>, h)"
    and disarmed: "P (s, h) \<Longrightarrow> P (s\<lparr>dv_fail_next_cancel := False\<rparr>, h)"
begin

lemmas bound = wbind_keeps[of P]

lemma set_resting_keeps: "P w \<Longrightarrow> P (set_resting cid ord w)"
  by (cases w) (simp add: set_resting_def rested)

lemma fill_loop_keeps: "P w \<Longrightarrow> P (snd (fill_loop en cid price ord w))"
proof (induction "nat (fill_left ord)" arbitrary: ord w rule: less_induct)
  case less
  obtain r w' where loop: "fill_loop en cid price ord w = (r, w')" by (rule prod.exhaust)
  then have "P w'"
  proof (cases rule: fill_loop_cases)
    case full
    with less.prems show ?thesis by simp
  next
    case (turn chunk ord1 x w1)
    have w1: "P w1" using emitted[OF set_resting_keeps[OF less.prems]] turn(4) by (metis snd_conv)
    have size: "0 < fill_size chunk (fill_left ord)" by (rule fill_size_pos[OF turn(1)])
    then have smaller: "nat (fill_left (close_filled ord1)) < nat (fill_left ord)" using turn(1) by (simp add: turn(3))
    have again: "P w'" if "fill_loop en cid price (close_filled ord1) w2 = (r, w')" "P w2" for w2
      using less.hyps[OF smaller that(2)] that(1) by (metis snd_conv)
    from turn(5) w1 again show ?thesis
      by (cases "fill_left ord1 = 0"; cases "chunk = 0")
         (simp_all add: Let_def, (metis set_resting_keeps)+)
  qed
  with loop show ?case by simp
qed

lemma fill_order_keeps: "P w \<Longrightarrow> P (snd (fill_order en cid price w))"
  by (auto simp: fill_order_def intro: fill_loop_keeps split: option.splits)

lemma evaluate_keeps: "P w \<Longrightarrow> P (snd (evaluate_resting en cid w))"
  by (auto simp: evaluate_resting_def Let_def intro: fill_order_keeps split: option.splits sum.splits)

lemma tick_keeps: "P w \<Longrightarrow> P (snd (det_tick en w))"
  unfolding det_tick_def by (erule each_keeps) (rule evaluate_keeps)

lemma expire_one_keeps: "P w \<Longrightarrow> P (snd (expire_one en cid w))"
  by (auto simp: expire_one_def intro!: bound emitted set_resting_keeps split: option.splits)

lemma expire_keeps: "P w \<Longrightarrow> P (snd (expire_day_orders en w))"
  unfolding expire_day_orders_def by (erule each_keeps) (rule expire_one_keeps)

lemma cancel_keeps: "P w \<Longrightarrow> P (snd (det_cancel en a cid w))"
  by (cases w)
     (auto simp: det_cancel_def Let_def disarmed intro!: bound emitted set_resting_keeps split: option.splits)

lemma submit_new:
  assumes "truthy (map_of (dv_submitted s) (rq_client_order rq)) = None"
    "next_id_of en ''det-order'' s = (b, s1)"
    "P (s1\<lparr>dv_submitted := AList.update (rq_client_order rq) b (dv_submitted s1)\<rparr>, h)"
  shows "P (snd (det_submit D en rq (s, h)))"
  using assms
  by (auto simp: det_submit_def Let_def
      intro!: bound emitted set_resting_keeps fill_order_keeps evaluate_keeps)

lemma submit_keeps: "P w \<Longrightarrow> P (snd (det_submit D en rq w))"
proof (cases w)
  case (Pair s h)
  assume w: "P w"
  obtain b s1 where b: "next_id_of en ''det-order'' s = (b, s1)" by (rule prod.exhaust)
  show ?thesis
  proof (cases "truthy (map_of (dv_submitted s) (rq_client_order rq))")
    case (Some x)
    with w Pair show ?thesis by (simp add: det_submit_def)
  next
    case None
    with registered[OF _ None b] w b Pair show ?thesis by (simp add: submit_new)
  qed
qed

end

section \<open>The venue writes only through its listeners\<close>

text \<open>The deliveries a sequence of listener calls amounts to.\<close>

inductive delivered :: "'h listener list \<Rightarrow> 'h \<Rightarrow> 'h \<Rightarrow> bool" for ls where
  nothing: "delivered ls h h"
| one_more: "delivered ls h h1 \<Longrightarrow> l \<in> set ls \<Longrightarrow> delivered ls h (snd (l ev h1))"

lemma each_delivers: "delivered ls h h1 \<Longrightarrow> set ks \<subseteq> set ls \<Longrightarrow> delivered ls h (snd (each (\<lambda>l. l ev) ks h1))"
  by (rule each_keeps) (auto intro: delivered.intros)

lemma emit_delivers:
  "delivered (en_listeners en) start (snd w) \<Longrightarrow> delivered (en_listeners en) start (snd (snd (emit en rq b ty tr re w)))"
proof (cases w)
  case (Pair s h)
  assume "delivered (en_listeners en) start (snd w)"
  then have "delivered (en_listeners en) start (snd (each (\<lambda>l. l ev) (en_listeners en) h))" for ev
    using each_delivers[OF _ subset_refl] Pair by auto
  then show ?thesis using \<open>delivered _ _ (snd w)\<close> Pair
    by (simp add: emit_def Let_def case_prod_beta)
qed

interpretation delivery: venue_frame en "\<lambda>w. delivered (en_listeners en) start (snd w)" for en start
  by unfold_locales (auto simp: emit_delivers)

lemma delivered_service: "delivered [on_broker_event D] d d' \<Longrightarrow> \<exists>es. d' = fold (deliver D) es d"
proof (induction rule: delivered.induct)
  case (nothing h)
  show ?case by (rule exI[of _ "[]"]) simp
next
  case (one_more h h1 l ev)
  then obtain es where "h1 = fold (deliver D) es h" by blast
  with one_more(2) show ?case by (intro exI[of _ "es @ [ev]"]) (simp add: deliver_def[symmetric])
qed

definition service_at :: "decimal_lib \<Rightarrow> db venue_env \<Rightarrow> db venue_env" where
  "service_at D en = en\<lparr>en_listeners := [on_broker_event D]\<rparr>"

interpretation det: venue_port "det_broker D (service_at D en)" D for D en
proof unfold_locales
  fix rq v d x v' d'
  assume "br_submit (det_broker D (service_at D en)) rq (v, d) = (x, (v', d'))"
  then show "\<exists>es. d' = fold (deliver D) es d"
    using delivery.submit_keeps[where w = "(v, d)" and start = d and en = "service_at D en", of D rq]
    by (auto simp: det_broker_def service_at_def intro: delivered_service delivered.intros)
next
  fix a i v d x v' d'
  assume "br_cancel (det_broker D (service_at D en)) a i (v, d) = (x, (v', d'))"
  then show "\<exists>es. d' = fold (deliver D) es d"
    using delivery.cancel_keeps[where w = "(v, d)" and start = d and en = "service_at D en", of a i]
    by (auto simp: det_broker_def service_at_def intro: delivered_service delivered.intros)
next
  fix a i v d x v' d'
  assume "br_get_order (det_broker D (service_at D en)) a i (v, d) = (x, (v', d'))"
  then show "d' = d" by (simp add: det_broker_def)
qed

section \<open>Identifiers\<close>

definition minted :: "string \<Rightarrow> string \<Rightarrow> nat \<Rightarrow> string" where
  "minted nonce prefix n = prefix @ ''-'' @ nonce @ ''-'' @ pad_start 6 (show_nat n)"

lemma minted_inject [simp]: "minted k p m = minted k p n \<longleftrightarrow> m = n"
proof
  assume "minted k p m = minted k p n"
  then have "pad_start 6 (show_nat m) = pad_start 6 (show_nat n)" by (simp add: minted_def)
  then have "read_nat (pad_start 6 (show_nat m)) = read_nat (pad_start 6 (show_nat n))" by simp
  then show "m = n" by simp
qed simp

lemma next_id_minted:
  "next_id_of en p s = (minted (en_nonce en) p (dv_sequence s + 1), s\<lparr>dv_sequence := dv_sequence s + 1\<rparr>)"
  by (simp add: next_id_of_def minted_def Let_def)

text \<open>A list of identifiers that were drawn from the sequence one after the other.\<close>

definition drawn :: "(nat \<Rightarrow> 'a) \<Rightarrow> nat \<Rightarrow> 'a list \<Rightarrow> bool" where
  "drawn mk bnd xs \<longleftrightarrow> (\<exists>ns. xs = map mk ns \<and> sorted_wrt (<) ns \<and> (\<forall>n\<in>set ns. n \<le> bnd))"

lemma drawn_Nil [simp]: "drawn mk bnd []"
  by (simp add: drawn_def)

lemma drawn_mono: "drawn mk bnd xs \<Longrightarrow> bnd \<le> bnd' \<Longrightarrow> drawn mk bnd' xs"
  by (auto simp: drawn_def intro: order_trans)

lemma drawn_next: "drawn mk bnd xs \<Longrightarrow> bnd < n \<Longrightarrow> n \<le> bnd' \<Longrightarrow> drawn mk bnd' (xs @ [mk n])"
proof -
  assume "drawn mk bnd xs" and n: "bnd < n" "n \<le> bnd'"
  then obtain ns where ns: "xs = map mk ns" "sorted_wrt (<) ns" "\<forall>m\<in>set ns. m \<le> bnd" by (auto simp: drawn_def)
  with n have "xs @ [mk n] = map mk (ns @ [n])" "sorted_wrt (<) (ns @ [n])" "\<forall>m\<in>set (ns @ [n]). m \<le> bnd'"
    by (force simp: sorted_wrt_append)+
  then show ?thesis unfolding drawn_def by blast
qed

lemma drawn_distinct: "drawn mk bnd xs \<Longrightarrow> inj mk \<Longrightarrow> distinct xs"
  by (auto simp: drawn_def distinct_map simp: strict_sorted_iff inj_def inj_on_def)

abbreviation some_ids :: "string option list \<Rightarrow> string list" where
  "some_ids xs \<equiv> map the (filter (\<lambda>x. x \<noteq> None) xs)"

definition ids_ok :: "string \<Rightarrow> det_state \<Rightarrow> bool" where
  "ids_ok k s \<longleftrightarrow> drawn (\<lambda>n. Some (minted k ''det-evt'' n)) (dv_sequence s) (map ev_external (dv_log s))
     \<and> drawn (minted k ''det-exec'') (dv_sequence s) (some_ids (map ev_execution (dv_log s)))
     \<and> drawn (minted k ''det-order'') (dv_sequence s) (map snd (dv_submitted s))
     \<and> distinct (map fst (dv_submitted s))"

lemma ids_emit:
  assumes "ids_ok (en_nonce en) (fst w)"
  shows "ids_ok (en_nonce en) (fst (snd (emit en rq b ty tr re w)))"
proof -
  obtain s h where w: "w = (s, h)" by (rule prod.exhaust)
  obtain ev s1 where ev: "make_event en rq b ty tr re s = (ev, s1)" by (rule prod.exhaust)
  have "fst (snd (emit en rq b ty tr re w)) = s1\<lparr>dv_log := dv_log s1 @ [ev]\<rparr>"
    by (simp add: emit_def w ev Let_def case_prod_beta)
  moreover have "ids_ok (en_nonce en) (s1\<lparr>dv_log := dv_log s1 @ [ev]\<rparr>)"
    using assms ev
    by (cases tr) (auto simp: w ids_ok_def make_event_def next_id_minted Let_def intro!: drawn_next
        intro: drawn_mono)
  ultimately show ?thesis by simp
qed

lemma drawn_snd_update:
  "k \<notin> fst ` set kvs \<Longrightarrow> map snd (AList.update k v kvs) = map snd kvs @ [v]"
  by (induction kvs) auto

lemma unsubmitted:
  assumes "ids_ok k s" "truthy (map_of (dv_submitted s) cid) = None"
  shows "cid \<notin> fst ` set (dv_submitted s)"
proof
  assume "cid \<in> fst ` set (dv_submitted s)"
  then obtain b where b: "map_of (dv_submitted s) cid = Some b" by (metis map_of_eq_None_iff not_None_eq)
  then have "b \<in> set (map snd (dv_submitted s))" by (force dest: map_of_SomeD)
  moreover from assms(1) obtain ns where "map snd (dv_submitted s) = map (minted k ''det-order'') ns"
    by (auto simp: ids_ok_def drawn_def)
  ultimately obtain n where "b = minted k ''det-order'' n" by auto
  with b assms(2) show False by (simp add: truthy_def minted_def split: if_splits)
qed

interpretation naming: venue_frame en "\<lambda>w. ids_ok (en_nonce en) (fst w)" for en :: "'h venue_env"
proof unfold_locales
  fix w :: "det_state \<times> 'h" and rq b ty tr re
  assume "ids_ok (en_nonce en) (fst w)"
  then show "ids_ok (en_nonce en) (fst (snd (emit en rq b ty tr re w)))" by (rule ids_emit)
next
  fix s :: det_state and h :: 'h and cid b s1
  assume "ids_ok (en_nonce en) (fst (s, h))" and new: "truthy (map_of (dv_submitted s) cid) = None"
    and b: "next_id_of en ''det-order'' s = (b, s1)"
  then have ok: "ids_ok (en_nonce en) s" by simp
  from unsubmitted[OF ok new] ok b
  show "ids_ok (en_nonce en) (fst (s1\<lparr>dv_submitted := AList.update cid b (dv_submitted s1)\<rparr>, h))"
    by (auto simp: ids_ok_def next_id_minted drawn_snd_update distinct_update intro!: drawn_next intro: drawn_mono)
qed (auto simp: ids_ok_def)

text \<open>
  The operations a client of the venue can call: those on money and the test hooks, which leave orders
  and events alone, and those on orders.
\<close>

inductive transfer_op :: "'h venue_env \<Rightarrow> det_state \<Rightarrow> det_state \<Rightarrow> bool" for en where
  op_initiate: "transfer_op en s (snd (det_initiate en rf dir amount s))"
| op_complete: "transfer_op en s (complete_transfer vid s)"
| op_fail: "transfer_op en s (fail_record vid reason s)"
| op_cancel_transfer: "transfer_op en s (snd (det_cancel_transfer vid s))"
| op_backdate: "transfer_op en s (backdate_transfer vid ms s)"

inductive desk_op :: "'h venue_env \<Rightarrow> det_state \<Rightarrow> det_state \<Rightarrow> bool" for en where
  op_transfer: "transfer_op en s s' \<Longrightarrow> desk_op en s s'"
| op_provision: "desk_op en s (snd (det_provision a s))"
| op_release: "desk_op en s (release_funding ext s)"
| op_hook: "desk_op en s (run_hook k s)"

inductive venue_op :: "decimal_lib \<Rightarrow> 'h venue_env \<Rightarrow> det_state \<times> 'h \<Rightarrow> det_state \<times> 'h \<Rightarrow> bool" for D en where
  op_submit: "venue_op D en w (snd (det_submit D en rq w))"
| op_cancel: "venue_op D en w (snd (det_cancel en a cid w))"
| op_tick: "venue_op D en w (snd (det_tick en w))"
| op_expire: "venue_op D en w (snd (expire_day_orders en w))"
| op_desk: "desk_op en s s' \<Longrightarrow> venue_op D en (s, h) (s', h)"

definition same_orders :: "det_state \<Rightarrow> det_state \<Rightarrow> bool" where
  "same_orders s s' \<longleftrightarrow> dv_log s' = dv_log s \<and> dv_resting s' = dv_resting s
     \<and> dv_submitted s' = dv_submitted s \<and> dv_sequence s \<le> dv_sequence s'"

lemma same_orders_simps:
  "same_orders s (complete_transfer vid s)" "same_orders s (fail_record vid re s)"
  "same_orders s (backdate_transfer vid ms s)" "same_orders s (release_funding ext s)"
  "same_orders s (snd (det_provision a s))" "same_orders s (run_hook k s)"
  "same_orders s (snd (det_cancel_transfer vid s))"
  by (simp_all add: same_orders_def complete_transfer_def fail_record_def backdate_transfer_def release_funding_def
      det_provision_def det_cancel_transfer_def Let_def split: option.split)
     (cases k; simp)

lemma same_orders_initiate: "same_orders s (snd (det_initiate en rf dir amount s))"
  by (auto simp: det_initiate_def next_id_minted Let_def same_orders_def complete_transfer_def
      split: option.splits transfer_fault.splits)

lemma desk_op_orders: "desk_op en s s' \<Longrightarrow> same_orders s s'"
  by (induction rule: desk_op.induct)
     (auto simp: same_orders_simps same_orders_initiate elim: transfer_op.cases)

lemma ids_ops: "(venue_op D en)\<^sup>*\<^sup>* w w' \<Longrightarrow> ids_ok (en_nonce en) (fst w) \<Longrightarrow> ids_ok (en_nonce en) (fst w')"
proof (induction rule: rtranclp_induct)
  case (step y z)
  have "ids_ok (en_nonce en) (fst y)" by (rule step.IH[OF step.prems])
  with step.hyps(2) show ?case
  proof (cases rule: venue_op.cases)
    case (op_submit rq)
    with \<open>ids_ok _ (fst y)\<close> show ?thesis by (simp add: naming.submit_keeps)
  next
    case (op_cancel a cid)
    with \<open>ids_ok _ (fst y)\<close> show ?thesis by (simp add: naming.cancel_keeps)
  next
    case op_tick
    with \<open>ids_ok _ (fst y)\<close> show ?thesis by (simp add: naming.tick_keeps)
  next
    case op_expire
    with \<open>ids_ok _ (fst y)\<close> show ?thesis by (simp add: naming.expire_keeps)
  next
    case (op_desk s s' h)
    with desk_op_orders[OF op_desk(3)] \<open>ids_ok _ (fst y)\<close> show ?thesis
      by (auto simp: ids_ok_def same_orders_def intro: drawn_mono)
  qed
qed simp

text \<open>
  Identifiers never repeat. Over any run of the venue (orders, cancellations, ticks, expiries,
  reconfigurations, listeners that throw included) the event identifiers, the execution identifiers and
  the order identifiers it has given out are pairwise distinct, as the unique columns they are stored in
  require.
\<close>

theorem venue_ids_unique:
  assumes "(venue_op D en)\<^sup>*\<^sup>* (new_venue n cfg, h) w"
  shows "distinct (map ev_external (dv_log (fst w)))
    \<and> distinct (some_ids (map ev_execution (dv_log (fst w))))
    \<and> distinct (map snd (dv_submitted (fst w)))"
proof -
  have "ids_ok (en_nonce en) (new_venue n cfg)" by (simp add: ids_ok_def new_venue_def)
  with ids_ops[OF assms] have "ids_ok (en_nonce en) (fst w)" by simp
  then show ?thesis by (auto simp: ids_ok_def inj_def intro: drawn_distinct)
qed

section \<open>Listeners that do not throw\<close>

definition quiet :: "'h venue_env \<Rightarrow> bool" where
  "quiet en \<longleftrightarrow> (\<forall>l \<in> set (en_listeners en). \<forall>ev h. fst (l ev h) = Inr ())"

definition logged ::
    "'h venue_env \<Rightarrow> order_request \<Rightarrow> string \<Rightarrow> event_type \<Rightarrow> (qty \<times> px) option \<Rightarrow> string option
     \<Rightarrow> det_state \<Rightarrow> det_state" where
  "logged en rq b ty tr re s =
     (case make_event en rq b ty tr re s of (ev, s1) \<Rightarrow> s1\<lparr>dv_log := dv_log s1 @ [ev]\<rparr>)"

lemma each_quiet: "\<forall>l \<in> set ls. \<forall>ev h. fst (l ev h) = Inr () \<Longrightarrow> fst (each (\<lambda>l. l ev) ls h) = Inr ()"
proof (induction ls arbitrary: h)
  case (Cons l ls)
  obtain h1 where "l ev h = (Inr (), h1)" using Cons.prems by (metis list.set_intros(1) prod.collapse)
  with Cons show ?case by simp
qed simp

lemma emit_quiet:
  assumes "quiet en"
  obtains h' where "emit en rq b ty tr re (s, h) = (Inr (), (logged en rq b ty tr re s, h'))"
proof -
  obtain ev s1 where ev: "make_event en rq b ty tr re s = (ev, s1)" by (rule prod.exhaust)
  have "fst (each (\<lambda>l. l ev) (en_listeners en) h) = Inr ()" using assms by (intro each_quiet) (simp add: quiet_def)
  then show thesis
    using that by (cases "each (\<lambda>l. l ev) (en_listeners en) h"; cases "dv_muted s1")
      (auto simp: emit_def ev logged_def Let_def)
qed

definition event_trade :: "broker_event \<Rightarrow> event_type \<times> qty option" where
  "event_trade e = (ev_type e, ev_fill_qty e)"

definition trades :: "uuid \<Rightarrow> det_state \<Rightarrow> (event_type \<times> qty option) list" where
  "trades cid s = map event_trade (events_of cid s)"

lemma logged_simps [simp]:
  "dv_resting (logged en rq b ty tr re s) = dv_resting s"
  "dv_submitted (logged en rq b ty tr re s) = dv_submitted s"
  "dv_config (logged en rq b ty tr re s) = dv_config s"
  "dv_fail_next_cancel (logged en rq b ty tr re s) = dv_fail_next_cancel s"
  "trades cid (logged en rq b ty tr re s)
     = trades cid s @ (if rq_client_order rq = cid then [(ty, map_option fst tr)] else [])"
  by (simp_all add: logged_def make_event_def next_id_minted Let_def trades_def events_of_def event_trade_def
      split: option.split)

lemma trades_resting [simp]:
  "trades cid (s\<lparr>dv_resting := x\<rparr>) = trades cid s" "trades cid (s\<lparr>dv_submitted := y\<rparr>) = trades cid s"
  "trades cid (s\<lparr>dv_sequence := n\<rparr>) = trades cid s" "trades cid (s\<lparr>dv_fail_next_cancel := f\<rparr>) = trades cid s"
  "trades cid (s\<lparr>dv_muted := f\<rparr>) = trades cid s" "trades cid (s\<lparr>dv_config := c\<rparr>) = trades cid s"
  by (simp_all add: trades_def events_of_def)

section \<open>The fills of an order\<close>

text \<open>The reference: what the fill loop emits for a quantity, and its closed form.\<close>

function fill_plan :: "int \<Rightarrow> nat \<Rightarrow> (event_type \<times> qty option) list" where
  "fill_plan c n =
     (if n = 0 then []
      else if 0 < c \<and> c < int n then (ORDER_PARTIALLY_FILLED, Some (nat c)) # fill_plan c (n - nat c)
      else [(ORDER_FILLED, Some n)])"
  by pat_completeness auto
termination by (relation "measure snd") auto

declare fill_plan.simps [simp del]

lemma fill_plan_zero [simp]: "fill_plan c 0 = []" by (subst fill_plan.simps) simp

lemma fill_plan_last: "0 < n \<Longrightarrow> \<not> (0 < c \<and> c < int n) \<Longrightarrow> fill_plan c n = [(ORDER_FILLED, Some n)]"
  by (subst fill_plan.simps) auto

lemma fill_plan_more:
  "0 < c \<Longrightarrow> c < int n \<Longrightarrow> fill_plan c n = (ORDER_PARTIALLY_FILLED, Some (nat c)) # fill_plan c (n - nat c)"
  by (subst fill_plan.simps) auto

lemma fill_plan_closed:
  "0 < c \<Longrightarrow> 0 < n \<Longrightarrow> fill_plan (int c) n
     = replicate ((n - 1) div c) (ORDER_PARTIALLY_FILLED, Some c)
       @ [(ORDER_FILLED, Some (n - (n - 1) div c * c))]"
proof (induction n rule: less_induct)
  case (less n)
  show ?case
  proof (cases "c < n")
    case False
    with less.prems show ?thesis by (simp add: fill_plan_last)
  next
    case True
    let ?m = "n - c"
    have "(n - 1) div c = Suc ((?m - 1) div c)"
      using True less.prems(1) by (simp add: le_div_geq diff_right_commute)
    moreover have "fill_plan (int c) ?m
        = replicate ((?m - 1) div c) (ORDER_PARTIALLY_FILLED, Some c)
          @ [(ORDER_FILLED, Some (?m - (?m - 1) div c * c))]"
      using True less.prems(1) by (intro less.IH) auto
    ultimately show ?thesis using True less.prems(1) by (simp add: fill_plan_more)
  qed
qed

lemma fill_plan_sum: "sum_list (map (case_option 0 id \<circ> snd) (fill_plan c n)) = n"
proof (induction c n rule: fill_plan.induct)
  case (1 c n)
  show ?case
  proof (cases "0 < c \<and> c < int n")
    case True
    then have "nat c + (n - nat c) = n" by linarith
    with 1 True show ?thesis by (simp add: fill_plan_more)
  next
    case False
    then show ?thesis by (cases "n = 0") (simp_all add: fill_plan_last)
  qed
qed

definition filled_up :: "resting_order \<Rightarrow> resting_order" where
  "filled_up ord = ord\<lparr>ro_filled := int (rq_qty (ro_req ord)), ro_status := Rest_terminal\<rparr>"

lemma set_resting_simps [simp]:
  "fst (set_resting cid ord (s, h)) = s\<lparr>dv_resting := AList.update cid ord (dv_resting s)\<rparr>"
  "snd (set_resting cid ord (s, h)) = h"
  by (simp_all add: set_resting_def)

text \<open>The fill loop emits exactly the plan for what is left, and returns.\<close>

lemma fill_loop_quiet:
  assumes "quiet en" "rq_client_order (ro_req ord) = cid" "0 < fill_left ord"
  shows "\<exists>s' h'. fill_loop en cid price ord (s, h) = (Inr (), (s', h'))
    \<and> (\<forall>j. trades j s' = trades j s @ (if j = cid then fill_plan (dc_chunk_fills (dv_config s)) (nat (fill_left ord)) else []))
    \<and> (\<forall>j. map_of (dv_resting s') j = (if j = cid then Some (filled_up ord) else map_of (dv_resting s) j))
    \<and> dv_submitted s' = dv_submitted s"
  using assms(2,3)
proof (induction "nat (fill_left ord)" arbitrary: ord s h rule: less_induct)
  case less
  let ?c = "dc_chunk_fills (dv_config s)"
  let ?ord1 = "after_fill ?c ord"
  let ?size = "fill_size ?c (fill_left ord)"
  let ?s1 = "s\<lparr>dv_resting := AList.update cid ?ord1 (dv_resting s)\<rparr>"
  let ?ev = "logged en (ro_req ord) (ro_broker_order ord) (fill_event_type ?ord1) (Some (nat ?size, price)) None ?s1"
  obtain h1 where e: "emit en (ro_req ord) (ro_broker_order ord) (fill_event_type ?ord1)
      (Some (nat ?size, price)) None (?s1, h) = (Inr (), (?ev, h1))"
    by (rule emit_quiet[OF assms(1)])
  have turn: "fill_loop en cid price ord (s, h) =
      (let w2 = (if fill_left ?ord1 = 0 then set_resting cid (close_filled ?ord1) (?ev, h1) else (?ev, h1))
       in if ?c = 0 then (Inr (), w2) else fill_loop en cid price (close_filled ?ord1) w2)"
    using e by (simp add: fill_loop_turn[OF less.prems(2)] Let_def set_resting_def)
  have size: "0 < ?size" "?size \<le> fill_left ord" using less.prems(2) by (auto simp: fill_size_def)
  show ?case
  proof (cases "fill_left ?ord1 = 0")
    case True
    then have all: "?size = fill_left ord" by simp
    then have plan: "fill_plan ?c (nat (fill_left ord)) = [(ORDER_FILLED, Some (nat ?size))]"
      using less.prems(2) by (subst fill_plan_last) (auto simp: fill_size_def split: if_splits)
    have closed: "close_filled ?ord1 = filled_up ord"
      using True by (simp add: close_filled_def filled_up_def after_fill_def)
    let ?w = "set_resting cid (filled_up ord) (?ev, h1)"
    have "fill_loop en cid price (filled_up ord) ?w = (Inr (), ?w)"
      by (rule fill_loop_done) (simp add: filled_up_def)
    then have "fill_loop en cid price ord (s, h) = (Inr (), ?w)"
      using True by (simp add: turn closed Let_def)
    then show ?thesis
      using less.prems(1) True plan
      by (intro exI[of _ "fst ?w"] exI[of _ "snd ?w"]) (simp add: set_resting_def update_conv' fill_event_type_def)
  next
    case False
    then have c: "0 < ?c" "?c < fill_left ord" "?size = ?c"
      by (auto simp: fill_size_def split: if_splits)
    have stays: "close_filled ?ord1 = ?ord1" using False by (simp add: close_filled_def)
    have again: "fill_loop en cid price ord (s, h) = fill_loop en cid price ?ord1 (?ev, h1)"
      using False c(1) by (simp add: turn stays Let_def)
    have "nat (fill_left ?ord1) < nat (fill_left ord)" "0 < fill_left ?ord1" using c by simp_all
    then have "\<exists>s' h'. fill_loop en cid price ?ord1 (?ev, h1) = (Inr (), (s', h'))
      \<and> (\<forall>j. trades j s' = trades j ?ev
            @ (if j = cid then fill_plan (dc_chunk_fills (dv_config ?ev)) (nat (fill_left ?ord1)) else []))
      \<and> (\<forall>j. map_of (dv_resting s') j = (if j = cid then Some (filled_up ?ord1) else map_of (dv_resting ?ev) j))
      \<and> dv_submitted s' = dv_submitted ?ev"
      using less.prems(1) by (intro less.hyps) simp_all
    then obtain s' h' where ih: "fill_loop en cid price ?ord1 (?ev, h1) = (Inr (), (s', h'))"
      "\<forall>j. trades j s' = trades j ?ev
         @ (if j = cid then fill_plan (dc_chunk_fills (dv_config ?ev)) (nat (fill_left ?ord1)) else [])"
      "\<forall>j. map_of (dv_resting s') j = (if j = cid then Some (filled_up ?ord1) else map_of (dv_resting ?ev) j)"
      "dv_submitted s' = dv_submitted ?ev" by blast
    have plan: "fill_plan ?c (nat (fill_left ord)) = (ORDER_PARTIALLY_FILLED, Some (nat ?c)) # fill_plan ?c (nat (fill_left ?ord1))"
    proof -
      have "nat (fill_left ord) - nat ?c = nat (fill_left ?ord1)" using c by (simp add: nat_diff_distrib[symmetric] diff_diff_eq)
      with fill_plan_more[of ?c "nat (fill_left ord)"] c show ?thesis by simp
    qed
    have "filled_up ?ord1 = filled_up ord" by (simp add: filled_up_def after_fill_def)
    then show ?thesis
      using less.prems(1) again ih False plan c(3)
      by (intro exI[of _ s'] exI[of _ h']) (simp add: update_conv' fill_event_type_def)
  qed
qed

text \<open>
  C11: A market order fills completely, in chunks. When a new market order is submitted while the market
  is open and the quote fresh, and no listener throws, then \<open>submit\<close> returns, the venue logs the
  acknowledgement, the acceptance and one fill per chunk: all but the last \<open>ORDER_PARTIALLY_FILLED\<close> of
  exactly the chunk size, the last \<open>ORDER_FILLED\<close> with what is left, and a single fill without chunking.
  The fills sum to the ordered quantity, and the order is closed.
\<close>

theorem market_order_fills_completely:
  assumes "quiet en" "truthy (map_of (dv_submitted s) (rq_client_order rq)) = None"
    "rq_type rq = MARKET" "0 < rq_qty rq" "en_market en = Inr Market_open"
    "en_quote en (rq_symbol rq) = Inr q"
    "is_fresh_enough q (en_now en) (dc_max_quote_age (dv_config s))"
    "market_fill_price D (dv_config s) rq q = Inr price"
    "dc_chunk_fills (dv_config s) = int c"
  shows "case det_submit D en rq (s, h) of (r, (s', h')) \<Rightarrow>
      pred_sum (\<lambda>e. False) (\<lambda>a. \<not> sr_duplicate a) r
    \<and> trades (rq_client_order rq) s' = trades (rq_client_order rq) s
        @ [(ORDER_ACKNOWLEDGED, None), (ORDER_ACCEPTED, None)]
        @ (if c = 0 then [(ORDER_FILLED, Some (rq_qty rq))]
           else replicate ((rq_qty rq - 1) div c) (ORDER_PARTIALLY_FILLED, Some c)
                @ [(ORDER_FILLED, Some (rq_qty rq - (rq_qty rq - 1) div c * c))])
    \<and> map_option ro_filled (map_of (dv_resting s') (rq_client_order rq)) = Some (int (rq_qty rq))
    \<and> map_option ro_status (map_of (dv_resting s') (rq_client_order rq)) = Some Rest_terminal"
proof -
  let ?cid = "rq_client_order rq"
  obtain b s1 where b: "next_id_of en ''det-order'' s = (b, s1)" by (rule prod.exhaust)
  then have s1: "dv_config s1 = dv_config s" "dv_submitted s1 = dv_submitted s" "dv_resting s1 = dv_resting s"
    "trades ?cid s1 = trades ?cid s"
    by (auto simp: next_id_minted)
  let ?s2 = "s1\<lparr>dv_submitted := AList.update ?cid b (dv_submitted s1)\<rparr>"
  obtain h1 where e1: "emit en rq b ORDER_ACKNOWLEDGED None None (?s2, h)
      = (Inr (), (logged en rq b ORDER_ACKNOWLEDGED None None ?s2, h1))" by (rule emit_quiet[OF assms(1)])
  let ?s3 = "logged en rq b ORDER_ACKNOWLEDGED None None ?s2"
  obtain h2 where e2: "emit en rq b ORDER_ACCEPTED None None (?s3, h1)
      = (Inr (), (logged en rq b ORDER_ACCEPTED None None ?s3, h2))" by (rule emit_quiet[OF assms(1)])
  let ?ord = "\<lparr>ro_req = rq, ro_broker_order = b, ro_filled = 0, ro_status = Rest_accepted\<rparr>"
  let ?s4 = "(logged en rq b ORDER_ACCEPTED None None ?s3)\<lparr>dv_resting := AList.update ?cid ?ord (dv_resting s)\<rparr>"
  from fill_loop_quiet[OF assms(1), of ?ord ?cid price ?s4 h2] assms(4)
  obtain s' h' where loop: "fill_loop en ?cid price ?ord (?s4, h2) = (Inr (), (s', h'))"
    "trades ?cid s' = trades ?cid ?s4 @ fill_plan (dc_chunk_fills (dv_config ?s4)) (rq_qty rq)"
    "map_of (dv_resting s') ?cid = Some (filled_up ?ord)"
    by auto
  note e = e1[unfolded s1] e2[unfolded s1]
  have "det_submit D en rq (s, h) = (Inr \<lparr>sr_broker_order = b, sr_duplicate = False\<rparr>, (s', h'))"
    using assms(2-8) loop(1)[unfolded s1]
    by (simp add: det_submit_def b e Let_def s1 set_resting_def fill_order_def update_conv')
  moreover have "fill_plan (int c) (rq_qty rq) = (if c = 0 then [(ORDER_FILLED, Some (rq_qty rq))]
           else replicate ((rq_qty rq - 1) div c) (ORDER_PARTIALLY_FILLED, Some c)
                @ [(ORDER_FILLED, Some (rq_qty rq - (rq_qty rq - 1) div c * c))])"
    using assms(4) by (simp add: fill_plan_closed fill_plan_last)
  ultimately show ?thesis
    using loop assms(9) by (simp add: s1 filled_up_def)
qed

section \<open>The log of an order is a legal life cycle\<close>

text \<open>What the state machine of the orders makes of a log.\<close>

fun walk :: "order_state \<Rightarrow> (event_type \<times> qty option) list \<Rightarrow> order_state result" where
  "walk st [] = Inr st"
| "walk st ((ty, q) # es) = ebind (plan_transitions st ty) (\<lambda>steps. walk (end_state st steps) es)"

lemma walk_append: "walk st (es @ fs) = ebind (walk st es) (\<lambda>st'. walk st' fs)"
proof (induction es arbitrary: st)
  case (Cons e es)
  then show ?case by (cases e; cases "plan_transitions st (fst e)") auto
qed simp

lemma walk_path: "walk st es = Inr st' \<Longrightarrow> order_step\<^sup>*\<^sup>* st st'"
proof (induction es arbitrary: st)
  case (Cons e es)
  obtain ty q where e: "e = (ty, q)" by (rule prod.exhaust)
  from Cons.prems obtain steps where steps: "plan_transitions st ty = Inr steps"
    and rest: "walk (end_state st steps) es = Inr st'" by (auto simp: e result_simps)
  from step_chain_path[OF plan_chain[OF steps]] Cons.IH[OF rest] show ?case by (rule rtranclp_trans)
qed simp

lemmas plan_simps = plan_transitions_def is_fill_event_def

lemma walk_fills: "0 < n \<Longrightarrow> st = ACCEPTED \<or> st = PARTIALLY_FILLED \<Longrightarrow> walk st (fill_plan c n) = Inr FILLED"
proof (induction c n arbitrary: st rule: fill_plan.induct)
  case (1 c n)
  show ?case
  proof (cases "0 < c \<and> c < int n")
    case True
    then have "0 < n - nat c" by linarith
    with 1(1)[of PARTIALLY_FILLED] 1(2,3) True
    have "walk PARTIALLY_FILLED (fill_plan c (n - nat c)) = Inr FILLED" by simp
    with 1(3) show ?thesis
      unfolding fill_plan_more[OF conjunct1[OF True] conjunct2[OF True]] by (auto simp: plan_simps)
  next
    case False
    with 1(3) show ?thesis unfolding fill_plan_last[OF 1(2) False] by (auto simp: plan_simps)
  qed
qed

definition order_legal :: "uuid \<Rightarrow> det_state \<Rightarrow> bool" where
  "order_legal cid s \<longleftrightarrow>
     (case walk PENDING_SUBMISSION (trades cid s) of
        Inl e \<Rightarrow> False
      | Inr st \<Rightarrow>
          (case map_of (dv_resting s) cid of
             None \<Rightarrow> truthy (map_of (dv_submitted s) cid) = None \<longrightarrow> trades cid s = []
           | Some ord \<Rightarrow> rq_client_order (ro_req ord) = cid
               \<and> truthy (map_of (dv_submitted s) cid) \<noteq> None
               \<and> (case ro_status ord of
                    Rest_accepted \<Rightarrow> st = ACCEPTED \<and> ro_filled ord = 0
                  | Rest_cancel_pending \<Rightarrow> False
                  | Rest_terminal \<Rightarrow> is_terminal st)))"

definition log_legal :: "det_state \<Rightarrow> bool" where
  "log_legal s \<longleftrightarrow> (\<forall>cid. order_legal cid s)"

text \<open>Only the order an operation is about needs a look.\<close>

lemma order_legal_same:
  assumes "trades j s' = trades j s" "map_of (dv_resting s') j = map_of (dv_resting s) j"
    "map_of (dv_submitted s') j = map_of (dv_submitted s) j"
  shows "order_legal j s' = order_legal j s"
  unfolding order_legal_def assms ..

lemma log_legal_same:
  "log_legal s \<Longrightarrow> (\<And>j. trades j s' = trades j s) \<Longrightarrow> dv_resting s' = dv_resting s
    \<Longrightarrow> dv_submitted s' = dv_submitted s \<Longrightarrow> log_legal s'"
  by (simp add: log_legal_def order_legal_same[of _ s' s])

lemma log_legal_local:
  assumes "log_legal s" "\<And>j. j \<noteq> cid \<Longrightarrow> trades j s' = trades j s \<and> map_of (dv_resting s') j = map_of (dv_resting s) j
      \<and> map_of (dv_submitted s') j = map_of (dv_submitted s) j" "order_legal cid s'"
  shows "log_legal s'"
  unfolding log_legal_def
proof
  fix j
  show "order_legal j s'"
  proof (cases "j = cid")
    case False
    then have "order_legal j s' = order_legal j s" using assms(2) by (intro order_legal_same) simp_all
    with assms(1) show ?thesis by (simp add: log_legal_def)
  qed (use assms(3) in simp)
qed

lemma legal_fill:
  assumes "quiet en" "log_legal s"
    "map_of (dv_resting s) cid = Some ord" "ro_status ord = Rest_accepted"
  shows "\<exists>s' h'. fill_order en cid price (s, h) = (Inr (), (s', h')) \<and> log_legal s'"
proof -
  have legal: "order_legal cid s" using assms(2) by (simp add: log_legal_def)
  with assms(3,4) have o: "rq_client_order (ro_req ord) = cid" "ro_filled ord = 0"
    "truthy (map_of (dv_submitted s) cid) \<noteq> None" "walk PENDING_SUBMISSION (trades cid s) = Inr ACCEPTED"
    by (auto simp: order_legal_def split: sum.splits)
  show ?thesis
  proof (cases "0 < rq_qty (ro_req ord)")
    case False
    with assms(2,3) o(2) show ?thesis by (simp add: fill_order_def fill_loop_done)
  next
    case True
    with o(2) have "0 < fill_left ord" by simp
    from fill_loop_quiet[OF assms(1) o(1) this, of price s h] o(2) obtain s' h' where
      f: "fill_loop en cid price ord (s, h) = (Inr (), (s', h'))"
      "\<And>j. trades j s' = trades j s
         @ (if j = cid then fill_plan (dc_chunk_fills (dv_config s)) (rq_qty (ro_req ord)) else [])"
      "\<And>j. map_of (dv_resting s') j = (if j = cid then Some (filled_up ord) else map_of (dv_resting s) j)"
      "dv_submitted s' = dv_submitted s" by auto
    have "order_legal cid s'"
      using o True by (simp add: order_legal_def f walk_append walk_fills filled_up_def is_terminal_def terminal_states_def)
    then have "log_legal s'" by (intro log_legal_local[OF assms(2)]) (simp_all add: f)
    with f(1) assms(3) show ?thesis by (simp add: fill_order_def)
  qed
qed

lemma legal_evaluate:
  assumes "quiet en" "log_legal (fst w)"
  shows "log_legal (fst (snd (evaluate_resting en cid w)))"
proof (cases w)
  case (Pair s h)
  have fill: "log_legal (fst (snd (fill_order en cid price (s, h))))"
    if "map_of (dv_resting s) cid = Some ord" "ro_status ord = Rest_accepted" for price ord
  proof -
    from legal_fill[OF assms(1) _ that, of price h] assms(2) obtain s' h' where
      "fill_order en cid price (s, h) = (Inr (), (s', h'))" "log_legal s'" by (auto simp: Pair)
    then show ?thesis by simp
  qed
  with assms(2) show ?thesis
    by (auto simp: evaluate_resting_def Let_def Pair split: option.splits sum.splits)
qed

lemma legal_tick: "quiet en \<Longrightarrow> log_legal (fst w) \<Longrightarrow> log_legal (fst (snd (det_tick en w)))"
  unfolding det_tick_def by (rule each_keeps[of "\<lambda>w. log_legal (fst w)"]) (simp_all add: legal_evaluate)

lemma legal_expire_one:
  assumes "quiet en" "log_legal (fst w)"
  shows "log_legal (fst (snd (expire_one en cid w)))"
proof (cases w)
  case (Pair s h)
  show ?thesis
  proof (cases "map_of (dv_resting s) cid")
    case None
    with assms(2) Pair show ?thesis by (simp add: expire_one_def)
  next
    case (Some ord)
    have legal: "order_legal cid s" using assms(2) by (simp add: log_legal_def Pair)
    obtain h1 where e: "emit en (ro_req ord) (ro_broker_order ord) ORDER_EXPIRED None None (s, h)
        = (Inr (), (logged en (ro_req ord) (ro_broker_order ord) ORDER_EXPIRED None None s, h1))"
      by (rule emit_quiet[OF assms(1)])
    show ?thesis
    proof (cases "ro_status ord = Rest_terminal")
      case True
      with Some assms(2) Pair show ?thesis by (simp add: expire_one_def)
    next
      case False
      with legal Some have o: "rq_client_order (ro_req ord) = cid" "truthy (map_of (dv_submitted s) cid) \<noteq> None"
        "walk PENDING_SUBMISSION (trades cid s) = Inr ACCEPTED"
        by (auto simp: order_legal_def split: sum.splits resting_status.splits)
      let ?s' = "(logged en (ro_req ord) (ro_broker_order ord) ORDER_EXPIRED None None s)
        \<lparr>dv_resting := AList.update cid (ord\<lparr>ro_status := Rest_terminal\<rparr>) (dv_resting s)\<rparr>"
      have here: "order_legal cid ?s'"
        using o by (simp add: order_legal_def walk_append plan_simps update_conv' is_terminal_def terminal_states_def)
      have "log_legal ?s'"
        by (rule log_legal_local[where s = s and cid = cid, OF _ _ here])
           (use assms(2) o(1) in \<open>simp_all add: Pair update_conv'\<close>)
      with Some False e Pair show ?thesis by (simp add: expire_one_def set_resting_def)
    qed
  qed
qed

lemma legal_expire: "quiet en \<Longrightarrow> log_legal (fst w) \<Longrightarrow> log_legal (fst (snd (expire_day_orders en w)))"
  unfolding expire_day_orders_def
  by (rule each_keeps[of "\<lambda>w. log_legal (fst w)"]) (simp_all add: legal_expire_one)

lemma legal_cancel:
  assumes "quiet en" "log_legal (fst w)"
  shows "log_legal (fst (snd (det_cancel en a cid w)))"
proof (cases w)
  case (Pair s h)
  have flag: "log_legal (s\<lparr>dv_fail_next_cancel := False\<rparr>)"
    by (rule log_legal_same[where s = s]) (use assms(2) in \<open>simp_all add: Pair\<close>)
  show ?thesis
  proof (cases "dv_fail_next_cancel s \<or> map_of (dv_resting s) cid = None")
    case True
    with assms(2) flag show ?thesis by (auto simp: det_cancel_def Pair Let_def)
  next
    case False
    then obtain ord where ord: "map_of (dv_resting s) cid = Some ord" "\<not> dv_fail_next_cancel s" by auto
    have legal: "order_legal cid s" using assms(2) by (simp add: log_legal_def Pair)
    let ?s1 = "s\<lparr>dv_resting := AList.update cid (ord\<lparr>ro_status := Rest_cancel_pending\<rparr>) (dv_resting s)\<rparr>"
    let ?log = "\<lambda>ty. logged en (ro_req ord) (ro_broker_order ord) ty None None"
    obtain h1 where e1: "emit en (ro_req ord) (ro_broker_order ord) ORDER_CANCEL_PENDING None None (?s1, h)
        = (Inr (), (?log ORDER_CANCEL_PENDING ?s1, h1))" by (rule emit_quiet[OF assms(1)])
    obtain h2 where e2: "emit en (ro_req ord) (ro_broker_order ord) ORDER_CANCELLED None None (?log ORDER_CANCEL_PENDING ?s1, h1)
        = (Inr (), (?log ORDER_CANCELLED (?log ORDER_CANCEL_PENDING ?s1), h2))" by (rule emit_quiet[OF assms(1)])
    show ?thesis
    proof (cases "ro_status ord = Rest_terminal")
      case True
      with ord assms(2) Pair show ?thesis by (simp add: det_cancel_def Let_def)
    next
      case False
      with legal ord have o: "rq_client_order (ro_req ord) = cid" "truthy (map_of (dv_submitted s) cid) \<noteq> None"
        "walk PENDING_SUBMISSION (trades cid s) = Inr ACCEPTED"
        by (auto simp: order_legal_def split: sum.splits resting_status.splits)
      let ?s' = "(?log ORDER_CANCELLED (?log ORDER_CANCEL_PENDING ?s1))
        \<lparr>dv_resting := AList.update cid (ord\<lparr>ro_status := Rest_terminal\<rparr>) (dv_resting ?s1)\<rparr>"
      have here: "order_legal cid ?s'"
        using o by (simp add: order_legal_def walk_append plan_simps update_conv' is_terminal_def terminal_states_def)
      have "log_legal ?s'"
        by (rule log_legal_local[where s = s and cid = cid, OF _ _ here])
           (use assms(2) o(1) in \<open>simp_all add: Pair update_conv'\<close>)
      with ord False e1 e2 Pair show ?thesis by (simp add: det_cancel_def Let_def set_resting_def)
    qed
  qed
qed

lemma legal_submit:
  assumes "quiet en" "log_legal (fst w)"
  shows "log_legal (fst (snd (det_submit D en rq w)))"
proof (cases w)
  case (Pair s h)
  let ?cid = "rq_client_order rq"
  show ?thesis
  proof (cases "truthy (map_of (dv_submitted s) ?cid)")
    case (Some x)
    with assms(2) Pair show ?thesis by (simp add: det_submit_def)
  next
    case None
    have legal: "order_legal ?cid s" using assms(2) by (simp add: log_legal_def Pair)
    with None have s: "map_of (dv_resting s) ?cid = None" "trades ?cid s = []"
      by (auto simp: order_legal_def split: sum.splits option.splits)
    obtain b s1 where b: "next_id_of en ''det-order'' s = (b, s1)" by (rule prod.exhaust)
    then have s1: "dv_submitted s1 = dv_submitted s" "dv_resting s1 = dv_resting s" "\<And>j. trades j s1 = trades j s"
      and named: "truthy (Some b) = Some b"
      by (auto simp: next_id_minted minted_def truthy_def)
    let ?s2 = "s1\<lparr>dv_submitted := AList.update ?cid b (dv_submitted s1)\<rparr>"
    let ?log = "\<lambda>ty re. logged en rq b ty None re"
    let ?s3 = "?log ORDER_ACKNOWLEDGED None ?s2"
    let ?ord = "\<lparr>ro_req = rq, ro_broker_order = b, ro_filled = 0, ro_status = Rest_accepted\<rparr>"
    let ?s4 = "(?log ORDER_ACCEPTED None ?s3)\<lparr>dv_resting := AList.update ?cid ?ord (dv_resting s)\<rparr>"
    note e = emit_quiet[OF assms(1)]
    obtain h1 where e1: "emit en rq b ORDER_ACKNOWLEDGED None None (?s2, h) = (Inr (), (?s3, h1))" by (rule e)
    obtain h2 where e2: "emit en rq b ORDER_ACCEPTED None None (?s3, h1) = (Inr (), (?log ORDER_ACCEPTED None ?s3, h2))"
      by (rule e)
    have rejected: "\<exists>h3. emit en rq b ORDER_REJECTED None re (?s3, h1) = (Inr (), (?log ORDER_REJECTED re ?s3, h3))" for re
      by (metis e)
    have l3: "log_legal ?s3"
      by (rule log_legal_local[where s = s and cid = ?cid])
         (use assms(2) s named in \<open>simp_all add: Pair s1 order_legal_def plan_simps update_conv'\<close>)
    have lr: "log_legal (?log ORDER_REJECTED re ?s3)" for re
      by (rule log_legal_local[where s = s and cid = ?cid])
         (use assms(2) s named in \<open>simp_all add: Pair s1 order_legal_def plan_simps update_conv'\<close>)
    have l4: "log_legal ?s4"
      by (rule log_legal_local[where s = s and cid = ?cid])
         (use assms(2) s named in \<open>simp_all add: Pair s1 order_legal_def plan_simps update_conv'\<close>)
    have fill: "log_legal (fst (snd (fill_order en ?cid price (?s4, h2))))" for price
      using legal_fill[OF assms(1) l4, of ?cid ?ord price h2] by (auto simp: update_conv')
    have evaluate: "log_legal (fst (snd (evaluate_resting en ?cid (?s4, h2))))"
      using legal_evaluate[OF assms(1), of "(?s4, h2)"] l4 by simp
    have reject: "log_legal (fst (snd (wbind (emit en rq b ORDER_REJECTED None re (?s3, h1)) (\<lambda>_ w3. (Inr x, w3)))))"
      for re and x :: submit_result
    proof -
      obtain h3 where "emit en rq b ORDER_REJECTED None re (?s3, h1) = (Inr (), (?log ORDER_REJECTED re ?s3, h3))" by (rule e)
      with lr show ?thesis by simp
    qed
    have filling: "log_legal (fst (snd (wbind (r, (?s4, h2)) (\<lambda>price w. wbind (fill_order en ?cid price w) (\<lambda>_ w5. (Inr x, w5))))))"
      for r :: "px result" and x :: submit_result
      by (cases r) (simp_all add: l4 fill)
    have resting: "log_legal (fst (snd (wbind (evaluate_resting en ?cid (?s4, h2)) (\<lambda>_ w5. (Inr x, w5)))))"
      for x :: submit_result
      using evaluate by simp
    have "det_submit D en rq (s, h) = wbind (en_market en, (?s3, h1)) (\<lambda>status w2.
        if dc_market_hours (dv_config (fst w2)) \<and> status \<noteq> Market_open then
          wbind (emit en rq b ORDER_REJECTED None (Some ''market closed'') w2)
            (\<lambda>_ w3. (Inr \<lparr>sr_broker_order = b, sr_duplicate = False\<rparr>, w3))
        else wbind (en_quote en (rq_symbol rq), w2) (\<lambda>q w2.
          if rq_type rq = MARKET \<and> \<not> is_fresh_enough q (en_now en) (dc_max_quote_age (dv_config (fst w2))) then
            wbind (emit en rq b ORDER_REJECTED None (Some ''stale quote'') w2)
              (\<lambda>_ w3. (Inr \<lparr>sr_broker_order = b, sr_duplicate = False\<rparr>, w3))
          else wbind (emit en rq b ORDER_ACCEPTED None None w2) (\<lambda>_ w3.
            let w4 = set_resting ?cid ?ord w3
            in if rq_type rq = MARKET then
                 wbind (market_fill_price D (dv_config (fst w4)) rq q, w4) (\<lambda>price w4.
                 wbind (fill_order en ?cid price w4) (\<lambda>_ w5. (Inr \<lparr>sr_broker_order = b, sr_duplicate = False\<rparr>, w5)))
               else wbind (evaluate_resting en ?cid w4)
                      (\<lambda>_ w5. (Inr \<lparr>sr_broker_order = b, sr_duplicate = False\<rparr>, w5)))))"
      using e1 by (simp add: det_submit_def None b Let_def)
    moreover have "set_resting ?cid ?ord (?log ORDER_ACCEPTED None ?s3, h2) = (?s4, h2)"
      by (simp add: set_resting_def s1)
    ultimately show ?thesis using e2 reject filling resting l3
      by (cases "en_market en"; cases "en_quote en (rq_symbol rq)") (simp_all add: Pair Let_def)
  qed
qed

lemma log_legal_new: "log_legal (new_venue n cfg)"
  by (simp add: log_legal_def order_legal_def new_venue_def trades_def events_of_def)

lemma legal_ops:
  "(venue_op D en)\<^sup>*\<^sup>* w w' \<Longrightarrow> quiet en \<Longrightarrow> log_legal (fst w) \<Longrightarrow> log_legal (fst w')"
proof (induction rule: rtranclp_induct)
  case (step y z)
  have y: "log_legal (fst y)" by (rule step.IH[OF step.prems])
  from step.hyps(2) show ?case
  proof (cases rule: venue_op.cases)
    case (op_submit rq)
    with legal_submit[OF step.prems(1) y] show ?thesis by simp
  next
    case (op_cancel a cid)
    with legal_cancel[OF step.prems(1) y] show ?thesis by simp
  next
    case op_tick
    with legal_tick[OF step.prems(1) y] show ?thesis by simp
  next
    case op_expire
    with legal_expire[OF step.prems(1) y] show ?thesis by simp
  next
    case (op_desk s s' h)
    with desk_op_orders[OF op_desk(3)] y show ?thesis
      by (auto simp: same_orders_def trades_def events_of_def intro: log_legal_same)
  qed
qed simp

text \<open>
  The venue speaks the language of the order state machine. Over any run with listeners that do not
  throw, the events the venue has logged for an order, read from \<open>PENDING_SUBMISSION\<close> by the planner,
  are never an invalid transition, so they lead along the legal life cycle to one state; an order the
  venue still works on is \<open>ACCEPTED\<close> and unfilled, and one it has closed is in a terminal state.
\<close>

theorem venue_log_legal:
  assumes "(venue_op D en)\<^sup>*\<^sup>* (new_venue n cfg, h) w" "quiet en"
  shows "\<exists>st. walk PENDING_SUBMISSION (trades cid (fst w)) = Inr st
    \<and> order_step\<^sup>*\<^sup>* PENDING_SUBMISSION st
    \<and> (case map_of (dv_resting (fst w)) cid of
         None \<Rightarrow> True
       | Some ord \<Rightarrow> if ro_status ord = Rest_terminal then is_terminal st
                     else st = ACCEPTED \<and> ro_filled ord = 0)"
proof -
  have "log_legal (fst w)" using legal_ops[OF assms] log_legal_new by simp
  then have legal: "order_legal cid (fst w)" by (simp add: log_legal_def)
  then obtain st where st: "walk PENDING_SUBMISSION (trades cid (fst w)) = Inr st"
    by (auto simp: order_legal_def split: sum.splits)
  with legal walk_path[OF st] show ?thesis
    by (auto simp: order_legal_def split: option.splits resting_status.splits)
qed

section \<open>Submitting is idempotent\<close>

definition known_as :: "uuid \<Rightarrow> string \<Rightarrow> det_state \<Rightarrow> bool" where
  "known_as cid b s \<longleftrightarrow> map_of (dv_submitted s) cid = Some b \<and> b \<noteq> []"

interpretation registry: venue_frame en "\<lambda>w. known_as cid b (fst w)" for en :: "'h venue_env" and cid b
proof unfold_locales
  fix w :: "det_state \<times> 'h" and rq c ty tr re
  assume k: "known_as cid b (fst w)"
  have "fst (snd (emit en rq c ty tr re w)) = logged en rq c ty tr re (fst w)"
    by (simp add: emit_def logged_def Let_def case_prod_beta)
  with k show "known_as cid b (fst (snd (emit en rq c ty tr re w)))" by (simp add: known_as_def)
qed (auto simp: known_as_def next_id_minted update_conv' truthy_def)

lemma known_ops: "(venue_op D en)\<^sup>*\<^sup>* w w' \<Longrightarrow> known_as cid b (fst w) \<Longrightarrow> known_as cid b (fst w')"
proof (induction rule: rtranclp_induct)
  case (step y z)
  have "known_as cid b (fst y)" by (rule step.IH[OF step.prems])
  with step.hyps(2) show ?case
  proof (cases rule: venue_op.cases)
    case (op_submit rq)
    with \<open>known_as _ _ (fst y)\<close> show ?thesis by (simp add: registry.submit_keeps)
  next
    case (op_cancel a i)
    with \<open>known_as _ _ (fst y)\<close> show ?thesis by (simp add: registry.cancel_keeps)
  next
    case op_tick
    with \<open>known_as _ _ (fst y)\<close> show ?thesis by (simp add: registry.tick_keeps)
  next
    case op_expire
    with \<open>known_as _ _ (fst y)\<close> show ?thesis by (simp add: registry.expire_keeps)
  next
    case (op_desk s s' h)
    with desk_op_orders[OF op_desk(3)] \<open>known_as _ _ (fst y)\<close> show ?thesis
      by (simp add: known_as_def same_orders_def)
  qed
qed simp

lemma submit_registers:
  "\<exists>b. known_as (rq_client_order rq) b (fst (snd (det_submit D en rq w)))
     \<and> (\<forall>a. fst (det_submit D en rq w) = Inr a \<longrightarrow> sr_broker_order a = b)"
proof (cases w)
  case (Pair s h)
  show ?thesis
  proof (cases "truthy (map_of (dv_submitted s) (rq_client_order rq))")
    case (Some b)
    then have "known_as (rq_client_order rq) b s"
      by (auto simp: known_as_def truthy_def split: option.splits if_splits)
    with Some Pair show ?thesis by (simp add: det_submit_def)
  next
    case None
    obtain b s1 where b: "next_id_of en ''det-order'' s = (b, s1)" by (rule prod.exhaust)
    let ?w2 = "(s1\<lparr>dv_submitted := AList.update (rq_client_order rq) b (dv_submitted s1)\<rparr>, h)"
    have start: "known_as (rq_client_order rq) b (fst ?w2)"
      using b by (auto simp: known_as_def next_id_minted minted_def update_conv')
    have "known_as (rq_client_order rq) b (fst (snd (det_submit D en rq w)))"
      unfolding Pair by (rule registry.submit_new[OF None b start])
    moreover have "sr_broker_order a = b" if "fst (det_submit D en rq w) = Inr a" for a
      using that
      by (auto simp: det_submit_def Pair None b Let_def wbind_def split: prod.splits sum.splits if_splits)
    ultimately show ?thesis by blast
  qed
qed

text \<open>
  Submitting is idempotent at the venue. Once an order was submitted, even when that call threw in
  the middle, and after any further activity of the venue, submitting the same client order id again
  changes nothing, emits nothing and answers with the first broker order id as a duplicate; and the
  lookup by client id, which \<open>ExecutionService.submit\<close> trusts before it gives an order up, returns it.
\<close>

theorem submit_idempotent:
  assumes "(venue_op D en)\<^sup>*\<^sup>* (snd (det_submit D en rq w)) (s', h')"
    "rq_client_order rq' = rq_client_order rq"
  shows "case det_submit D en rq' (s', h') of
      (Inr a, w2) \<Rightarrow> w2 = (s', h') \<and> sr_duplicate a
        \<and> pred_sum (\<lambda>e. True) (\<lambda>first. sr_broker_order first = sr_broker_order a) (fst (det_submit D en rq w))
        \<and> det_get_order (rq_client_order rq) s' \<noteq> Inr None
    | (Inl e, w2) \<Rightarrow> False"
proof -
  from submit_registers[of rq D en w] obtain b where
    b: "known_as (rq_client_order rq) b (fst (snd (det_submit D en rq w)))"
      "\<forall>a. fst (det_submit D en rq w) = Inr a \<longrightarrow> sr_broker_order a = b" by blast
  from known_ops[OF assms(1) b(1)] have "truthy (map_of (dv_submitted s') (rq_client_order rq)) = Some b"
    by (simp add: known_as_def truthy_def)
  with assms(2) b(2) show ?thesis
    by (cases "fst (det_submit D en rq w)")
       (auto simp: det_submit_def det_get_order_def Let_def result_simps)
qed

section \<open>The venue behind the execution service\<close>

text \<open>
  Routing through the deterministic venue is safe. With the execution service as its listener,
  whatever the venue does with an order (fills, rejections, a replayed submission, a failing
  cancellation) leaves every invariant of trading intact: schema, cash equal to the ledger, well-formed
  orders, fills that add up to the filled quantities, and positions in whole cents.
\<close>

theorem deterministic_venue_safe:
  assumes "decimal_arith D" "trading_ok d"
  shows "trading_ok (snd (snd (exec_submit D (det_broker D (service_at D en)) now i (s, d))))
    \<and> trading_ok (snd (snd (request_venue_cancel (det_broker D (service_at D en)) i (s, d))))"
proof -
  obtain r1 s1 d1 where e: "exec_submit D (det_broker D (service_at D en)) now i (s, d) = (r1, (s1, d1))"
    by (metis prod.collapse)
  obtain r2 s2 d2 where c: "request_venue_cancel (det_broker D (service_at D en)) i (s, d) = (r2, (s2, d2))"
    by (metis prod.collapse)
  from det.submit_keeps[OF assms e] det.cancel_keeps[OF assms c] e c show ?thesis by simp
qed

section \<open>Witnesses\<close>

definition desk_quote :: quote where
  "desk_quote = \<lparr>qt_symbol = ''AAPL'', qt_bid = None, qt_ask = Some 1995000, qt_last = 2000000, qt_ts = 0,
     qt_previous_close = None\<rparr>"

definition desk :: "'h listener list \<Rightarrow> 'h venue_env" where
  "desk ls = \<lparr>en_now = 5000, en_nonce = ''k7'', en_market = Inr Market_open,
     en_quote = \<lambda>_. Inr desk_quote, en_listeners = ls\<rparr>"

definition desk_env :: "broker_event list venue_env" where
  "desk_env = desk [\<lambda>ev h. (Inr (), h @ [ev])]"

definition desk_order :: order_request where
  "desk_order = \<lparr>rq_client_order = 3, rq_account = ''ext'', rq_symbol = ''AAPL'', rq_side = BUY,
     rq_type = MARKET, rq_qty = 5, rq_limit = None, rq_tif = DAY, rq_extended_hours = False\<rparr>"

definition desk_venue :: det_state where
  "desk_venue = new_venue 0 (default_deterministic_config\<lparr>dc_chunk_fills := 2\<rparr>)"

lemma desk_quiet: "quiet desk_env"
  by (simp add: quiet_def desk_env_def desk_def)

lemmas desk_defs = desk_env_def desk_def desk_order_def desk_venue_def desk_quote_def new_venue_def
  default_deterministic_config_def

theorem market_order_fills_completely_witness:
  "case det_submit js_decimal desk_env desk_order (desk_venue, []) of (r, (s', h')) \<Rightarrow>
     trades 3 s' = [(ORDER_ACKNOWLEDGED, None), (ORDER_ACCEPTED, None), (ORDER_PARTIALLY_FILLED, Some 2),
       (ORDER_PARTIALLY_FILLED, Some 2), (ORDER_FILLED, Some 1)]"
proof -
  have fresh: "trades 3 desk_venue = []" by (simp add: desk_defs trades_def events_of_def)
  have two: "replicate 2 x = [x, x]" for x :: "event_type \<times> qty option" by (simp add: numeral_2_eq_2)
  show ?thesis
    using market_order_fills_completely[OF desk_quiet, of desk_venue desk_order desk_quote js_decimal 1995000 2 "[]"] fresh
    by (simp add: desk_defs is_fresh_enough_def quote_age_ms_def market_fill_price_def truthy_def
        two split: prod.splits)
qed

lemma desk_run:
  "(venue_op js_decimal desk_env)\<^sup>*\<^sup>* (desk_venue, []) (snd (det_submit js_decimal desk_env desk_order (desk_venue, [])))"
  by (rule r_into_rtranclp) (rule venue_op.op_submit)

theorem venue_ids_unique_witness:
  "distinct (map snd (dv_submitted (fst (snd (det_submit js_decimal desk_env desk_order (desk_venue, []))))))"
  using venue_ids_unique[OF desk_run[unfolded desk_venue_def]] by (simp add: desk_venue_def)

theorem venue_log_legal_witness:
  "\<exists>st. walk PENDING_SUBMISSION (trades 3 (fst (snd (det_submit js_decimal desk_env desk_order (desk_venue, []))))) = Inr st"
  using venue_log_legal[OF desk_run[unfolded desk_venue_def] desk_quiet, of 3] by (auto simp: desk_venue_def)

theorem submit_idempotent_witness:
  "case snd (det_submit js_decimal desk_env desk_order (desk_venue, [])) of
     (s', h') \<Rightarrow> (case det_submit js_decimal desk_env (desk_order\<lparr>rq_qty := 9\<rparr>) (s', h') of
        (Inr a, w2) \<Rightarrow> w2 = (s', h') \<and> sr_duplicate a
      | (Inl e, w2) \<Rightarrow> False)"
proof -
  obtain s' h' where w: "snd (det_submit js_decimal desk_env desk_order (desk_venue, [])) = (s', h')"
    by (rule prod.exhaust)
  have run: "(venue_op js_decimal desk_env)\<^sup>*\<^sup>* (snd (det_submit js_decimal desk_env desk_order (desk_venue, []))) (s', h')"
    by (simp add: w)
  have same: "rq_client_order (desk_order\<lparr>rq_qty := 9\<rparr>) = rq_client_order desk_order" by simp
  show ?thesis
    unfolding w prod.case using submit_idempotent[OF run same]
    by (cases "det_submit js_decimal desk_env (desk_order\<lparr>rq_qty := 9\<rparr>) (s', h')") (auto split: sum.splits)
qed

theorem deterministic_venue_safe_witness:
  "trading_ok (snd (snd (exec_submit js_decimal
     (det_broker js_decimal (service_at js_decimal (desk []))) 5 3
     (desk_venue, demo_placed))))"
  using deterministic_venue_safe[OF js.decimal_arith_axioms demo_trading_ok] by blast

section \<open>A listener that throws on the last fill\<close>

definition failing_env :: "unit venue_env" where
  "failing_env = desk [\<lambda>ev h. (if ev_type ev = ORDER_FILLED then Inl (JsError ''down'') else Inr (), h)]"

text \<open>
  A delivery that fails on the last fill leaves the filled order cancellable. \<open>fill\<close> marks an order
  terminal only after \<open>emit\<close> returned, so when the listener throws the order stays accepted with its
  whole quantity filled, \<open>cancel\<close> accepts it, and its log is no legal life cycle any more.
\<close>

theorem failed_delivery_leaves_cancellable:
  "case det_submit js_decimal failing_env desk_order (desk_venue, ()) of
     (r, w1) \<Rightarrow> r = Inl (JsError ''down'')
       \<and> map_option ro_filled (map_of (dv_resting (fst w1)) 3) = Some 5
       \<and> (case det_cancel failing_env ''ext'' 3 w1 of
            (r2, w2) \<Rightarrow> r2 = Inr \<lparr>cr_accepted = True, cr_reason = None\<rparr>
              \<and> walk PENDING_SUBMISSION (trades 3 (fst w2)) = invalid_transition)"
  by code_simp

end
