(* ===== verification/Accounts_Correct.thy ===== *)
theory Accounts_Correct
  imports Accounts Cash_Safety
begin

text \<open>
  The correctness of \<^verbatim>\<open>src/core/accounts/accounts.ts\<close>: the opening deposit of an account posts exactly
  once, when it is activated, and only after the venue reported the starting cash as settled; a reset
  keeps the history and leaves no transfer pending.
\<close>

section \<open>The opening deposit\<close>

definition opened :: "account \<Rightarrow> bool" where
  "opened a \<longleftrightarrow> acc_status a = ACTIVE \<or> acc_status a = ARCHIVED"

definition account_ref :: "ledger_entry \<Rightarrow> uuid option" where
  "account_ref e = (case le_ref e of Some (Ref_account i) \<Rightarrow> Some i | _ \<Rightarrow> None)"

definition openings :: "db \<Rightarrow> uuid \<Rightarrow> (uuid \<times> money) list" where
  "openings d i = map (\<lambda>e. (le_account e, le_amount e)) (filter (\<lambda>e. account_ref e = Some i) (ledger d))"

definition opening_posted :: "db \<Rightarrow> bool" where
  "opening_posted d \<longleftrightarrow>
     list_all (\<lambda>a. openings d (acc_id a) = (if opened a then [(acc_id a, acc_starting a)] else [])) (accounts d)
   \<and> list_all (\<lambda>e. pred_option (\<lambda>i. i \<in> acc_id ` set (accounts d)) (account_ref e)) (ledger d)"

definition opened_linked :: "db \<Rightarrow> bool" where
  "opened_linked d \<longleftrightarrow> list_all (\<lambda>a. opened a \<longrightarrow> get_broker_account d (acc_id a) \<noteq> None) (accounts d)"

definition accounts_inv :: "db \<Rightarrow> bool" where
  "accounts_inv d \<longleftrightarrow> transfers_inv d \<and> opening_posted d \<and> opened_linked d"

lemma account_ref_simps [simp]:
  "le_ref e = Some (Ref_account i) \<Longrightarrow> account_ref e = Some i"
  "le_ref e = Some (Ref_transfer t) \<Longrightarrow> account_ref e = None"
  "le_ref e = Some (Ref_fill b x) \<Longrightarrow> account_ref e = None"
  by (simp_all add: account_ref_def)

lemma opening_other:
  assumes "opening_posted d" "ledger d' = ledger d @ es" "\<And>e. e \<in> set es \<Longrightarrow> account_ref e = None"
    and "map (\<lambda>a. (acc_id a, acc_starting a, opened a)) (accounts d')
       = map (\<lambda>a. (acc_id a, acc_starting a, opened a)) (accounts d)"
  shows "opening_posted d'"
proof -
  let ?k = "\<lambda>a. (acc_id a, acc_starting a, opened a)"
  have "filter (\<lambda>e. account_ref e = Some i) es = []" for i using assms(3) by (simp add: filter_empty_conv)
  then have same: "openings d' i = openings d i" for i by (simp add: openings_def assms(2))
  have keys: "?k ` set (accounts d') = ?k ` set (accounts d)" using arg_cong[OF assms(4), of set] by simp
  have "map acc_id (accounts d') = map acc_id (accounts d)"
    using arg_cong[OF assms(4), of "map fst"] by (simp add: comp_def)
  then have ids: "acc_id ` set (accounts d') = acc_id ` set (accounts d)" by (metis list.set_map)
  have "openings d (acc_id a') = (if opened a' then [(acc_id a', acc_starting a')] else [])"
    if "a' \<in> set (accounts d')" for a'
  proof -
    from that keys have "?k a' \<in> ?k ` set (accounts d)" by blast
    then obtain a where "a \<in> set (accounts d)" "?k a = ?k a'" by auto
    with assms(1) show ?thesis by (auto simp: opening_posted_def list_all_iff)
  qed
  moreover have "\<forall>e \<in> set es. account_ref e = None" using assms(3) by blast
  ultimately show ?thesis using assms(1) by (auto simp: opening_posted_def list_all_iff same ids assms(2))
qed

section \<open>The transactions of the service as steps\<close>

inductive account_step :: "db \<Rightarrow> db \<Rightarrow> bool" where
  created: "create_account u m d = Inr (a, d') \<Longrightarrow> 0 < m \<Longrightarrow> account_step d d'"
| linked: "link_tx_account i ref d = Inr (u, d') \<Longrightarrow> account_step d d'"
| failed: "fail_tx i d = Inr (u, d') \<Longrightarrow> get_broker_account d i = None \<Longrightarrow> account_step d d'"
| activated: "activate_tx i d = Inr (a, d') \<Longrightarrow> get_broker_account d i \<noteq> None \<Longrightarrow> account_step d d'"
| archived: "archive_tx archive_hooks u d = Inr (a, d') \<Longrightarrow> account_step d d'"

lemma set_status_shape:
  assumes "set_status i st d = Inr d'"
  shows "d' = d\<lparr>accounts := modify (\<lambda>a. acc_id a = i) (\<lambda>a. a\<lparr>acc_status := st\<rparr>) (accounts d)\<rparr>"
  using assms by (simp add: set_status_Inr Let_def)

lemma set_status_inv:
  assumes "set_status i st d = Inr d'" "transfers_inv d"
  shows "transfers_inv d'"
proof -
  have "schema_ok d'" by (rule schema_set_status[OF assms(1) transfers_invD(1)[OF assms(2)]])
  moreover have "in_balance d'" using transfers_invD(2)[OF assms(2)]
    by (auto simp: set_status_shape[OF assms(1)] in_balance_def sum_ledger_def list_all_iff elim!: in_set_modifyE)
  moreover have "transfers_posted d'" using transfers_invD(3)[OF assms(2)]
    by (simp add: set_status_shape[OF assms(1)] transfers_posted_def postings_def)
  ultimately show ?thesis by (simp add: transfers_inv_def)
qed

lemma set_status_opened:
  assumes "set_status i st d = Inr d'" "opening_posted d"
    "\<And>a. a \<in> set (accounts d) \<Longrightarrow> acc_id a = i \<Longrightarrow> opened a = (st = ACTIVE \<or> st = ARCHIVED)"
  shows "opening_posted d'"
proof (rule opening_other[OF assms(2)])
  show "ledger d' = ledger d @ []" by (simp add: set_status_shape[OF assms(1)])
  show "map (\<lambda>a. (acc_id a, acc_starting a, opened a)) (accounts d')
      = map (\<lambda>a. (acc_id a, acc_starting a, opened a)) (accounts d)"
    using assms(3) by (auto simp: set_status_shape[OF assms(1)] modify_def opened_def)
qed simp

lemma created_inv:
  assumes "create_account u m d = Inr (a, d')" "accounts_inv d"
  shows "accounts_inv d' \<and> get_broker_account d' (acc_id a) = None \<and> get_account d' (acc_id a) = Some a"
proof -
  from assms(1) have a: "acc_id a = next_id d" "acc_status a = PROVISIONING" "acc_cash a = 0"
    and d': "d' = d\<lparr>accounts := accounts d @ [a], next_id := next_id d + 1\<rparr>"
    by (simp_all add: create_account_Inr)
  have inv: "transfers_inv d" "opening_posted d" "opened_linked d" using assms(2) by (simp_all add: accounts_inv_def)
  have s: "references_ok d" "ids_fresh d" using transfers_invD(1)[OF inv(1)] by (simp_all add: schema_ok_def)
  have fresh: "next_id d \<notin> acc_id ` set (accounts d)" using s(2) by (auto simp: ids_fresh_def list_all_iff)
  have acc_of: "le_account e \<in> acc_id ` set (accounts d)" if "e \<in> set (ledger d)" for e
    using s(1) that by (auto simp: references_ok_def has_account_def list_all_iff list_ex_iff)
  have "total le_amount (\<lambda>r. le_account r = next_id d) (ledger d) = 0"
    by (rule total_none) (metis acc_of fresh)
  then have "sum_ledger d (next_id d) = 0" by (simp add: sum_ledger_def)
  then have "in_balance d'" using transfers_invD(2)[OF inv(1)]
    by (simp add: d' in_balance_def sum_ledger_def a)
  moreover have "schema_ok d'" by (rule schema_create_account[OF assms(1) transfers_invD(1)[OF inv(1)]])
  moreover have "transfers_posted d'" using transfers_invD(3)[OF inv(1)]
    by (simp add: d' transfers_posted_def postings_def)
  moreover have "opening_posted d'"
  proof -
    have known: "pred_option (\<lambda>i. i \<in> acc_id ` set (accounts d)) (account_ref e)" if "e \<in> set (ledger d)" for e
      using inv(2) that by (simp add: opening_posted_def list_all_iff)
    then have "account_ref e \<noteq> Some (next_id d)" if "e \<in> set (ledger d)" for e
      using fresh that by fastforce
    then have "openings d (next_id d) = []" by (simp add: openings_def filter_empty_conv)
    moreover have "openings d' i = openings d i" for i by (simp add: d' openings_def)
    moreover have "pred_option (\<lambda>i. i \<in> insert j A) x" if "pred_option (\<lambda>i. i \<in> A) x" for j A and x :: "uuid option"
      using that by (cases x) auto
    ultimately show ?thesis using inv(2) a
      by (auto simp: opening_posted_def d' opened_def list_all_iff)
  qed
  moreover have none: "get_broker_account d' (acc_id a) = None"
  proof -
    have "ba_account b \<in> acc_id ` set (accounts d)" if "b \<in> set (broker_accounts d)" for b
      using s(1) that by (auto simp: references_ok_def has_account_def list_all_iff list_ex_iff)
    with fresh show ?thesis by (simp add: d' a get_broker_account_def find_None_iff) metis
  qed
  moreover have "opened_linked d'" using inv(3) a
    by (simp add: opened_linked_def d' opened_def get_broker_account_def)
  moreover have "get_account d' (acc_id a) = Some a"
  proof -
    have "find (\<lambda>x. acc_id x = next_id d) (accounts d) = None" unfolding find_None_iff using fresh by (metis imageI)
    then show ?thesis by (simp add: d' get_account_def find_append a)
  qed
  ultimately show ?thesis by (simp add: accounts_inv_def transfers_inv_def)
qed

lemma linked_inv:
  assumes "link_tx_account i ref d = Inr (u, d')" "accounts_inv d"
  shows "accounts_inv d'"
proof -
  from assms(1) have l: "link_broker_account i ref d = Inr d'" by (auto simp: link_tx_account_def result_simps)
  then obtain b where d': "d' = d\<lparr>broker_accounts := broker_accounts d @ [b]\<rparr>"
    by (auto simp: link_broker_account_def Let_def result_simps)
  note inv = assms(2)[unfolded accounts_inv_def transfers_inv_def]
  have "schema_ok d'" using schema_link_broker_account[OF l] inv by blast
  moreover have "get_broker_account d j \<noteq> None \<Longrightarrow> get_broker_account d' j \<noteq> None" for j
    by (auto simp: d' get_broker_account_def find_append split: option.splits)
  then have "opened_linked d'" using inv by (auto simp: opened_linked_def d' list_all_iff)
  ultimately show ?thesis using inv
    by (simp add: accounts_inv_def transfers_inv_def d' in_balance_def sum_ledger_def transfers_posted_def
        postings_def opening_posted_def openings_def)
qed

lemma failed_inv:
  assumes "fail_tx i d = Inr (u, d')" "get_broker_account d i = None" "accounts_inv d"
  shows "accounts_inv d'"
proof -
  from assms(1) have s: "set_status i PROVISIONING_FAILED d = Inr d'" by (auto simp: fail_tx_def result_simps)
  note inv = assms(3)[unfolded accounts_inv_def]
  have closed: "\<not> opened a" if "a \<in> set (accounts d)" "acc_id a = i" for a
    using inv assms(2) that by (auto simp: opened_linked_def list_all_iff)
  have "transfers_inv d'" using set_status_inv[OF s] inv by blast
  moreover have "opening_posted d'" using set_status_opened[OF s] inv closed by blast
  moreover have "opened_linked d'" using inv
    by (auto simp: set_status_shape[OF s] opened_linked_def list_all_iff opened_def get_broker_account_def
        elim!: in_set_modifyE)
  ultimately show ?thesis by (simp add: accounts_inv_def)
qed

text \<open>What an activation does.\<close>

lemma activate_shape:
  assumes "activate_tx i d = Inr (r, d')"
  obtains (noop) a where "get_account d i = Some a" "acc_status a \<noteq> PROVISIONING" "r = a" "d' = d"
  | (activated) a d1 where "get_account d i = Some a" "acc_status a = PROVISIONING"
      "set_status i ACTIVE d = Inr d1" "get_account d' i = Some r"
      "acc_starting a \<noteq> 0"
      "d' = d1\<lparr>accounts := accounts (adjust_cash i (acc_starting a) d1),
              ledger := ledger d @ [entry_row (opening_entry a) (next_id d) (db_now d)], next_id := next_id d + 1\<rparr>"
      "\<exists>e. post (opening_entry a) d1 = Inr (e, d')"
proof -
  from assms obtain a where a: "get_account d i = Some a" by (auto simp: activate_tx_def result_simps)
  show thesis
  proof (cases "acc_status a = PROVISIONING")
    case False
    then have "activate_tx i d = Inr (a, d)" by (simp add: activate_tx_def lock_account_def a)
    with assms noop[OF a False] show thesis by simp
  next
    case True
    with assms a obtain d1 e where s: "set_status i ACTIVE d = Inr d1" and p: "post (opening_entry a) d1 = Inr (e, d')"
      and r: "get_account d' i = Some r"
      by (auto simp: activate_tx_def lock_account_def result_simps)
    have id: "ne_account (opening_entry a) = i" using account_of[OF a] by (simp add: opening_entry_def)
    have amount: "ne_amount (opening_entry a) = acc_starting a" by (simp add: opening_entry_def)
    have same: "ledger d1 = ledger d" "next_id d1 = next_id d" "db_now d1 = db_now d"
      by (simp_all add: set_status_shape[OF s])
    from post_shape[OF p] have "acc_starting a \<noteq> 0" "d' = d1\<lparr>accounts := accounts (adjust_cash i (acc_starting a) d1),
              ledger := ledger d @ [entry_row (opening_entry a) (next_id d) (db_now d)], next_id := next_id d + 1\<rparr>"
      unfolding amount id same by blast+
    with activated[OF a True s r] p show thesis by blast
  qed
qed

lemma activated_inv:
  assumes "activate_tx i d = Inr (r, d')" "get_broker_account d i \<noteq> None" "accounts_inv d"
  shows "accounts_inv d'"
  using assms(1)
proof (cases rule: activate_shape)
  case (noop a)
  with assms(3) show ?thesis by simp
next
  case (activated a d1)
  note inv = assms(3)[unfolded accounts_inv_def]
  have t1: "transfers_inv d1" using set_status_inv[OF activated(3)] inv by blast
  obtain e where p: "post (opening_entry a) d1 = Inr (e, d')" using activated(7) by blast
  let ?e = "entry_row (opening_entry a) (next_id d) (db_now d)"
  have id: "acc_id a = i" by (rule account_of[OF activated(1)])
  have ref: "account_ref ?e = Some i" "transfer_ref ?e = None" by (simp_all add: opening_entry_def id)
  have led: "ledger d' = ledger d @ [?e]" by (simp add: activated(6))
  have d1: "d1 = d\<lparr>accounts := modify (\<lambda>a. acc_id a = i) (\<lambda>a. a\<lparr>acc_status := ACTIVE\<rparr>) (accounts d)\<rparr>"
    by (rule set_status_shape[OF activated(3)])
  have "transfers_posted d'"
    by (rule posted_other[OF transfers_invD(3)[OF t1], of d' "[?e]"]) (simp_all add: activated(6) d1 ref)
  then have "transfers_inv d'"
    using post_schema[OF p transfers_invD(1)[OF t1]] post_in_balance[OF p transfers_invD(1,2)[OF t1]]
    by (simp add: transfers_inv_def)
  moreover have rows: "\<exists>x \<in> set (accounts d). acc_id a' = acc_id x \<and> acc_starting a' = acc_starting x
       \<and> (if acc_id x = i then acc_status a' = ACTIVE else acc_status a' = acc_status x)"
    if "a' \<in> set (accounts d')" for a'
    using that by (auto simp: activated(6) d1 adjust_cash_def elim!: in_set_modifyE)
  have uniq: "x = a" if "x \<in> set (accounts d)" "acc_id x = i" for x
    using transfers_invD(1) inv get_account_Some[OF activated(1)] that
    by (auto simp: schema_ok_def accounts_ok_def distinct_map dest: inj_onD)
  have openings: "openings d' j = openings d j @ (if j = i then [(i, acc_starting a)] else [])" for j
    using ref by (simp add: openings_def led opening_entry_def id)
  have ids: "acc_id ` set (accounts d') = acc_id ` set (accounts d)"
    unfolding list.set_map[symmetric] by (simp add: activated(6) d1 adjust_cash_def map_modify)
  have "opening_posted d'"
    unfolding opening_posted_def list_all_iff
  proof (intro conjI ballI)
    fix a' assume "a' \<in> set (accounts d')"
    from rows[OF this] obtain x where x: "x \<in> set (accounts d)" "acc_id a' = acc_id x" "acc_starting a' = acc_starting x"
      "if acc_id x = i then acc_status a' = ACTIVE else acc_status a' = acc_status x" by blast
    from inv x(1) have old: "openings d (acc_id x) = (if opened x then [(acc_id x, acc_starting x)] else [])"
      by (simp add: opening_posted_def list_all_iff)
    show "openings d' (acc_id a') = (if opened a' then [(acc_id a', acc_starting a')] else [])"
    proof (cases "acc_id x = i")
      case True
      with uniq[OF x(1)] x old activated(2) show ?thesis by (simp add: openings opened_def)
    next
      case False
      with x old show ?thesis by (simp add: openings opened_def)
    qed
  next
    fix e' assume "e' \<in> set (ledger d')"
    then consider "e' \<in> set (ledger d)" | "e' = ?e" unfolding led by auto
    then show "pred_option (\<lambda>i. i \<in> acc_id ` set (accounts d')) (account_ref e')"
    proof cases
      case 1
      with inv show ?thesis unfolding ids by (simp add: opening_posted_def list_all_iff)
    next
      case 2
      have "i \<in> acc_id ` set (accounts d)" using get_account_Some[OF activated(1)] by auto
      then show ?thesis unfolding ids 2 ref by simp
    qed
  qed
  moreover have "opened_linked d'"
    unfolding opened_linked_def list_all_iff
  proof (intro ballI impI)
    fix a' assume a': "a' \<in> set (accounts d')" "opened a'"
    from rows[OF a'(1)] obtain x where x: "x \<in> set (accounts d)" "acc_id a' = acc_id x"
      "if acc_id x = i then acc_status a' = ACTIVE else acc_status a' = acc_status x" by blast
    have same: "get_broker_account d' j = get_broker_account d j" for j
      by (simp add: activated(6) d1 get_broker_account_def)
    show "get_broker_account d' (acc_id a') \<noteq> None"
    proof (cases "acc_id x = i")
      case True
      with x assms(2) show ?thesis unfolding same by simp
    next
      case False
      with x a'(2) inv show ?thesis unfolding same by (auto simp: opened_linked_def list_all_iff opened_def)
    qed
  qed
  ultimately show ?thesis by (simp add: accounts_inv_def)
qed

section \<open>Archiving\<close>

lemma row_writes_frame: "row_write\<^sup>*\<^sup>* d d' \<Longrightarrow> \<exists>ts. d' = d\<lparr>transfers := ts\<rparr>"
proof (induction rule: rtranclp_induct)
  case base
  then show ?case by (metis db.surjective db.update_convs(9))
next
  case (step y z)
  then obtain ts where "y = d\<lparr>transfers := ts\<rparr>" by blast
  with step(2) show ?case
    by (auto simp: set_venue_transfer_id_Inr set_transfer_state_Inr elim!: row_write.cases)
qed

lemma archive_shape:
  assumes "archive_tx archive_hooks u d = Inr (a, d')" "schema_ok d"
  obtains n d1 where "get_active_for_user d u = Some a" "a \<in> set (accounts d)" "acc_user a = u"
    "acc_status a = ACTIVE" "get_account d (acc_id a) = Some a"
    "cancel_pending_for_account (acc_id a) d = Inr (n, d1)"
    "set_status (acc_id a) ARCHIVED (archive_broker_account (acc_id a) d1) = Inr d'"
proof -
  from assms(1) obtain b where b: "get_active_for_user d u = Some b"
    by (auto simp: archive_tx_def split: option.splits)
  then have active: "b \<in> set (accounts d)" "acc_user b = u" "acc_status b = ACTIVE"
    by (auto simp: get_active_for_user_def dest: find_Some_in_set)
  have g: "get_account d (acc_id b) = Some b"
    using account_key_unique[OF assms(2) active(1)] by (simp add: get_account_def)
  have "archive_tx archive_hooks u d = ebind (run_hooks archive_hooks (acc_id b) d) (\<lambda>d1.
      ebind (set_status (acc_id b) ARCHIVED (archive_broker_account (acc_id b) d1)) (\<lambda>d2. Inr (b, d2)))"
    by (simp add: archive_tx_def b lock_account_def g active(3))
  with assms(1) obtain d1 where ab: "a = b" and h: "run_hooks archive_hooks (acc_id b) d = Inr d1"
    and s: "set_status (acc_id b) ARCHIVED (archive_broker_account (acc_id b) d1) = Inr d'"
    by (auto simp: result_simps)
  from h obtain n where "cancel_pending_for_account (acc_id b) d = Inr (n, d1)"
    by (auto simp: archive_hooks_def result_simps)
  with b active g s that show thesis unfolding ab by blast
qed

lemma archived_inv:
  assumes "archive_tx archive_hooks u d = Inr (a, d')" "accounts_inv d"
  shows "accounts_inv d'"
proof -
  note inv = assms(2)[unfolded accounts_inv_def]
  have schema: "schema_ok d" using transfers_invD(1) inv by blast
  from archive_shape[OF assms(1) schema] obtain n d1 where
    a: "a \<in> set (accounts d)" "acc_status a = ACTIVE" and
    c: "cancel_pending_for_account (acc_id a) d = Inr (n, d1)" and
    s: "set_status (acc_id a) ARCHIVED (archive_broker_account (acc_id a) d1) = Inr d'" by blast
  let ?d2 = "archive_broker_account (acc_id a) d1"
  note writes = reset_writes[OF c]
  from row_writes_frame[OF writes] obtain ts where d1: "d1 = d\<lparr>transfers := ts\<rparr>" by blast
  have "transfers_inv d1" using row_writes_inv[OF writes] inv by blast
  then have t2: "transfers_inv ?d2"
    using schema_archive_broker_account[of d1 "acc_id a"]
    by (simp add: transfers_inv_def in_balance_def sum_ledger_def transfers_posted_def postings_def
        archive_broker_account_def)
  have same: "accounts ?d2 = accounts d" "ledger ?d2 = ledger d @ []"
    by (simp_all add: d1 archive_broker_account_def)
  have "opening_posted ?d2" by (rule opening_other[of d _ "[]"]) (use inv same in auto)
  moreover have "opened x" if "x \<in> set (accounts ?d2)" "acc_id x = acc_id a" for x
  proof -
    have "x = a" using that a(1) schema same
      by (auto simp: schema_ok_def accounts_ok_def distinct_map dest: inj_onD)
    with a(2) show ?thesis by (simp add: opened_def)
  qed
  ultimately have "opening_posted d'" using set_status_opened[OF s] by blast
  moreover have link: "get_broker_account d' j = get_broker_account d j" for j
    by (simp add: set_status_shape[OF s] d1 archive_broker_account_def get_broker_account_def
        find_modify[where key = ba_account] option.map_comp comp_def)
  have "opened_linked d'"
    unfolding opened_linked_def list_all_iff link
  proof (intro ballI impI)
    fix x assume x: "x \<in> set (accounts d')" "opened x"
    have "accounts d' = modify (\<lambda>r. acc_id r = acc_id a) (\<lambda>r. r\<lparr>acc_status := ARCHIVED\<rparr>) (accounts d)"
      by (simp add: set_status_shape[OF s] same)
    with x(1) obtain y where "y \<in> set (accounts d)"
      "x = (if acc_id y = acc_id a then y\<lparr>acc_status := ARCHIVED\<rparr> else y)" by (auto elim: in_set_modifyE)
    with x(2) have y: "y \<in> set (accounts d)" "acc_id x = acc_id y" "acc_id y = acc_id a \<or> opened y"
      by (auto split: if_splits)
    with a inv show "get_broker_account d (acc_id x) \<noteq> None"
      by (auto simp: opened_linked_def list_all_iff opened_def)
  qed
  ultimately show ?thesis using set_status_inv[OF s t2] by (simp add: accounts_inv_def)
qed

lemma account_step_inv: "account_step d d' \<Longrightarrow> accounts_inv d \<Longrightarrow> accounts_inv d'"
  by (induction rule: account_step.induct)
    (auto dest: created_inv linked_inv failed_inv activated_inv archived_inv)

lemma account_steps_inv: "account_step\<^sup>*\<^sup>* d d' \<Longrightarrow> accounts_inv d \<Longrightarrow> accounts_inv d'"
  by (induction rule: rtranclp_induct) (auto intro: account_step_inv)

section \<open>Every service function runs steps\<close>

lemma run_account_step:
  assumes "run_tx f d = (r, d')" "\<And>x d'. f d = Inr (x, d') \<Longrightarrow> account_step d d'"
  shows "account_step\<^sup>*\<^sup>* d d'"
  using assms by (cases rule: run_tx_cases[of f d]) auto

lemma try_activate_steps:
  assumes "try_activate pv i (v, d) = (r, (v', d'))"
  shows "account_step\<^sup>*\<^sup>* d d'"
proof -
  have "run_tx (activate_tx i) d = (x, d1) \<Longrightarrow> get_broker_account d i = Some ref \<Longrightarrow> account_step\<^sup>*\<^sup>* d d1" for x d1 ref
    by (rule run_account_step) (auto intro: account_step.activated)
  with assms show ?thesis
    by (auto simp: try_activate_def split: option.splits if_splits sum.splits prod.splits)
qed

lemma activate_all_steps:
  "activate_all pv is (n, (v, d)) = (m, (v', d')) \<Longrightarrow> account_step\<^sup>*\<^sup>* d d'"
proof (induction "is" arbitrary: n v d)
  case Nil
  then show ?case by simp
next
  case (Cons i "is")
  obtain r v1 d1 where one: "try_activate pv i (v, d) = (r, (v1, d1))" by (rule prod3_exhaust)
  with Cons(2) obtain k where "activate_all pv is (k, (v1, d1)) = (m, (v', d'))"
    by (cases r) auto
  from Cons(1)[OF this] try_activate_steps[OF one] show ?case by (meson rtranclp_trans)
qed

lemma open_steps:
  assumes "open_paper_account pv u m (v, d) = (r, (v', d'))" "accounts_inv d"
  shows "account_step\<^sup>*\<^sup>* d d'"
proof (cases "m \<le> 0")
  case True
  with assms show ?thesis by (simp add: open_paper_account_def)
next
  case pos: False
  show ?thesis
  proof (cases "create_account u m d")
    case (Inl e)
    with assms pos show ?thesis by (simp add: open_paper_account_def)
  next
    case (Inr ad)
    then obtain a d1 where c: "create_account u m d = Inr (a, d1)" by (cases ad) simp
    have first: "account_step d d1" using account_step.created[OF c] pos by simp
    have none: "get_broker_account d1 (acc_id a) = None" using created_inv[OF c assms(2)] by blast
    obtain p v1 where p: "pv_provision pv a v = (p, v1)" by (rule prod.exhaust)
    have "account_step\<^sup>*\<^sup>* d1 d'"
    proof (cases p)
      case (Inl err)
      obtain r2 d2 where f: "run_tx (fail_tx (acc_id a)) d1 = (r2, d2)" by (rule prod.exhaust)
      have "account_step\<^sup>*\<^sup>* d1 d2"
        by (rule run_account_step[OF f]) (auto intro: account_step.failed none)
      moreover have "d' = d2" using assms(1) pos c p Inl f
        by (cases r2) (auto simp: open_paper_account_def)
      ultimately show ?thesis by simp
    next
      case (Inr ref)
      obtain r2 d2 where l: "run_tx (link_tx_account (acc_id a) ref) d1 = (r2, d2)" by (rule prod.exhaust)
      have second: "account_step\<^sup>*\<^sup>* d1 d2"
        by (rule run_account_step[OF l]) (auto intro: account_step.linked)
      have "d' = d2 \<or> try_activate pv (acc_id a) (v1, d2) = (r, (v', d'))"
        using assms(1) pos c p Inr l by (cases r2) (auto simp: open_paper_account_def)
      with second try_activate_steps show ?thesis by (meson rtranclp_trans)
    qed
    with first show ?thesis by (rule converse_rtranclp_into_rtranclp)
  qed
qed

lemma reset_steps:
  assumes "archive_and_reprovision pv archive_hooks u (v, d) = (r, (v', d'))" "accounts_inv d"
  shows "account_step\<^sup>*\<^sup>* d d'"
proof -
  obtain r1 d1 where a: "run_tx (archive_tx archive_hooks u) d = (r1, d1)" by (rule prod.exhaust)
  have first: "account_step\<^sup>*\<^sup>* d d1"
    by (rule run_account_step[OF a]) (auto intro: account_step.archived)
  have inv: "accounts_inv d1" by (rule account_steps_inv[OF first assms(2)])
  show ?thesis
  proof (cases r1)
    case (Inl e)
    with assms(1) a have "d' = d1" by (simp add: archive_and_reprovision_def)
    with first show ?thesis by simp
  next
    case (Inr c)
    with assms(1) a have "open_paper_account pv u (acc_starting c) (v, d1) = (r, (v', d'))"
      by (simp add: archive_and_reprovision_def)
    from open_steps[OF this inv] first show ?thesis by (meson rtranclp_trans)
  qed
qed

section \<open>Properties\<close>

inductive account_call :: "'v provisioner \<Rightarrow> 'v \<times> db \<Rightarrow> 'v \<times> db \<Rightarrow> bool" for pv where
  open_account: "open_paper_account pv u m w = (r, w') \<Longrightarrow> account_call pv w w'"
| activate: "try_activate pv i w = (r, w') \<Longrightarrow> account_call pv w w'"
| activate_pending: "activate_pending_accounts pv w = (n, w') \<Longrightarrow> account_call pv w w'"
| reset: "archive_and_reprovision pv archive_hooks u w = (r, w') \<Longrightarrow> account_call pv w w'"

lemma account_call_inv: "account_call pv w w' \<Longrightarrow> accounts_inv (snd w) \<Longrightarrow> accounts_inv (snd w')"
proof (induction rule: account_call.induct)
  case (open_account u m w r w')
  then show ?case by (cases w; cases w') (auto intro: account_steps_inv open_steps)
next
  case (activate i w r w')
  then show ?case by (cases w; cases w') (auto intro: account_steps_inv try_activate_steps)
next
  case (activate_pending w n w')
  then obtain m where "activate_all pv (list_provisioning_ids (snd w)) (0, w) = (m, w')"
    by (auto simp: activate_pending_accounts_def Let_def split: prod.splits)
  with activate_pending(2) show ?case
    by (cases w; cases w') (auto intro: account_steps_inv activate_all_steps)
next
  case (reset u w r w')
  then show ?case by (cases w; cases w') (auto intro: account_steps_inv reset_steps)
qed

text \<open>
  Activation waits for settled cash and happens once. When \<open>tryActivate\<close> changes the database, the
  account was provisioning and the venue had reported at least the starting cash as settled; then
  the account is ACTIVE, its cash grew by exactly the starting cash, one opening DEPOSIT is appended,
  and activating again, whatever the venue reports then, returns the same account and changes nothing.
\<close>

theorem activation_needs_settled_cash:
  assumes "try_activate pv i (v, d) = (r, (v', d'))" "d' \<noteq> d" "schema_ok d"
  shows "\<exists>a a' ref m e. get_account d i = Some a \<and> acc_status a = PROVISIONING
    \<and> get_broker_account d i = Some ref \<and> pv_settled_cash pv ref v = (Inr m, v') \<and> acc_starting a \<le> m
    \<and> r = Inr a' \<and> get_account d' i = Some a' \<and> acc_status a' = ACTIVE
    \<and> acc_cash a' = acc_cash a + acc_starting a
    \<and> ledger d' = ledger d @ [e] \<and> le_account e = i \<and> le_type e = Entry_deposit
    \<and> le_amount e = acc_starting a \<and> le_ref e = Some (Ref_account i)
    \<and> try_activate pv i (v2, d') = (Inr a', (v2, d'))"
proof -
  from assms(1,2) obtain a ref m where a: "get_account d i = Some a" "acc_status a = PROVISIONING"
    "get_broker_account d i = Some ref" "pv_settled_cash pv ref v = (Inr m, v')" "acc_starting a \<le> m"
    and tx: "run_tx (activate_tx i) d = (r, d')"
    by (auto simp: try_activate_def money_compare_def sgn_if split: option.splits if_splits sum.splits prod.splits)
  from tx assms(2) obtain a' where r: "r = Inr a'" and act: "activate_tx i d = Inr (a', d')"
    by (cases rule: run_tx_cases[of "activate_tx i" d]) auto
  have id: "acc_id a = i" by (rule account_of[OF a(1)])
  from act show ?thesis
  proof (cases rule: activate_shape)
    case (noop b)
    with assms(2) show ?thesis by simp
  next
    case (activated b d1)
    with a(1) have b: "b = a" by simp
    have d1: "d1 = d\<lparr>accounts := modify (\<lambda>a. acc_id a = i) (\<lambda>a. a\<lparr>acc_status := ACTIVE\<rparr>) (accounts d)\<rparr>"
      by (rule set_status_shape[OF activated(3)])
    have g1: "get_account d1 i = Some (a\<lparr>acc_status := ACTIVE\<rparr>)"
      using a(1) by (simp add: d1 get_account_def find_modify[where key = acc_id])
    have "get_account d' i = get_account (adjust_cash i (acc_starting a) d1) i"
      by (simp add: activated(6) b get_account_def adjust_cash_def)
    then have "get_account d' i = Some (a\<lparr>acc_status := ACTIVE, acc_cash := acc_cash a + acc_starting a\<rparr>)"
      using g1 by (simp add: adjust_cash_def get_account_def find_modify[where key = acc_id])
    with activated(4) have a': "a' = a\<lparr>acc_status := ACTIVE, acc_cash := acc_cash a + acc_starting a\<rparr>" by simp
    have "get_broker_account d' i = Some ref"
      using a(3) by (simp add: activated(6) d1 get_broker_account_def)
    then have "try_activate pv i (v2, d') = (Inr a', (v2, d'))"
      using activated(4) by (simp add: try_activate_def a')
    moreover have "ledger d' = ledger d @ [entry_row (opening_entry a) (next_id d) (db_now d)]"
      by (simp add: activated(6) b)
    ultimately show ?thesis
      using a r activated(4) a'
      by (intro exI[of _ a] exI[of _ a'] exI[of _ ref] exI[of _ m]
          exI[of _ "entry_row (opening_entry a) (next_id d) (db_now d)"]) (simp add: opening_entry_def id)
  qed
qed

text \<open>The writes of a cancellation keep the transfers there are; none of the account stays pending.\<close>

lemma row_writes_ids: "row_write\<^sup>*\<^sup>* d d' \<Longrightarrow> tr_id ` set (transfers d') = tr_id ` set (transfers d)"
proof (induction rule: rtranclp_induct)
  case (step y z)
  then have "map tr_id (transfers z) = map tr_id (transfers y)"
    by (auto simp: set_venue_transfer_id_Inr set_transfer_state_Inr map_modify elim!: row_write.cases)
  then have "tr_id ` set (transfers z) = tr_id ` set (transfers y)" by (metis list.set_map)
  with step.IH show ?case by simp
qed simp

lemma cancel_all_clears:
  assumes "cancel_all_locally ps (k, d) = Inr (n, d')" "get_transfer d' j = Some t'"
  shows "(j \<in> tr_id ` set ps \<longrightarrow> tr_state t' \<noteq> PENDING)"
  using assms
proof (induction ps arbitrary: k d)
  case Nil
  then show ?case by simp
next
  case (Cons p ps)
  from Cons(2) obtain k1 d1 where one: "cancel_locally p (k, d) = Inr (k1, d1)"
    and rest: "cancel_all_locally ps (k1, d1) = Inr (n, d')" by (auto simp: result_simps)
  show ?case
  proof (cases "j = tr_id p")
    case False
    with Cons(1)[OF rest Cons(3)] show ?thesis by auto
  next
    case True
    have "\<forall>t. get_transfer d1 j = Some t \<longrightarrow> tr_state t \<noteq> PENDING"
      using one True
      by (auto simp: cancel_locally_def result_simps set_transfer_state_Inr get_transfer_retransfer
          split: option.splits if_splits)
    moreover have "get_transfer d1 j = None \<Longrightarrow> get_transfer d' j = None"
      using row_writes_ids[OF cancel_all_writes[OF rest]]
      unfolding get_transfer_def find_None_iff by (metis imageE imageI)
    ultimately obtain t1 where "get_transfer d1 j = Some t1" "tr_state t1 \<noteq> PENDING"
      using Cons(3) by (cases "get_transfer d1 j") auto
    with row_writes_keep[OF cancel_all_writes[OF rest]] Cons(3) show ?thesis
      by (fastforce simp: same_terms_def)
  qed
qed

text \<open>What the archive transaction keeps, and that the user has no active account after it.\<close>

lemma archive_keeps_history:
  assumes "archive_tx archive_hooks u d = Inr (a, d')" "accounts_inv d"
  shows "acc_user a = u \<and> acc_status a = ACTIVE \<and> get_account d (acc_id a) = Some a
    \<and> get_account d' (acc_id a) = Some (a\<lparr>acc_status := ARCHIVED\<rparr>)
    \<and> ledger d' = ledger d \<and> orders d' = orders d \<and> fills d' = fills d \<and> positions d' = positions d
    \<and> next_id d' = next_id d
    \<and> list_all (\<lambda>t. \<not> (tr_account t = acc_id a \<and> tr_state t = PENDING)) (transfers d')
    \<and> sum_pending d' (acc_id a) WITHDRAWAL = 0
    \<and> archive_tx archive_hooks u d' = Inl (AppError CONFLICT (Some ACCOUNT_NOT_ACTIVE))"
proof -
  have schema: "schema_ok d" using assms(2) by (simp add: accounts_inv_def transfers_inv_def)
  have inv': "schema_ok d'" using archived_inv[OF assms] by (simp add: accounts_inv_def transfers_inv_def)
  from archive_shape[OF assms(1) schema] obtain n d1 where
    a: "a \<in> set (accounts d)" "acc_user a = u" "acc_status a = ACTIVE" "get_account d (acc_id a) = Some a" and
    c: "cancel_pending_for_account (acc_id a) d = Inr (n, d1)" and
    s: "set_status (acc_id a) ARCHIVED (archive_broker_account (acc_id a) d1) = Inr d'" by blast
  from row_writes_frame[OF reset_writes[OF c]] obtain ts where d1: "d1 = d\<lparr>transfers := ts\<rparr>" by blast
  note d' = set_status_shape[OF s]
  have acc: "accounts d' = modify (\<lambda>x. acc_id x = acc_id a) (\<lambda>x. x\<lparr>acc_status := ARCHIVED\<rparr>) (accounts d)"
    by (simp add: d' d1 archive_broker_account_def)
  have "get_account d' (acc_id a) = Some (a\<lparr>acc_status := ARCHIVED\<rparr>)"
    using a(4) by (simp add: get_account_def acc find_modify[where key = acc_id])
  moreover have none: "\<not> (tr_account t = acc_id a \<and> tr_state t = PENDING)" if t: "t \<in> set (transfers d')" for t
  proof
    assume p: "tr_account t = acc_id a \<and> tr_state t = PENDING"
    have tr: "transfers d' = transfers d1" by (simp add: d' archive_broker_account_def)
    have "distinct (map tr_id (transfers d'))" using inv' by (simp add: schema_ok_def transfers_ok_def)
    from find_key_unique[OF this t] have g: "get_transfer d1 (tr_id t) = Some t" by (simp add: get_transfer_def tr)
    have "tr_id t \<notin> tr_id ` set (list_pending d (acc_id a))"
      using cancel_all_clears[OF c[unfolded cancel_pending_for_account_def] g] p by auto
    moreover have "t \<in> set (transfers d1)" using t tr by simp
    have "tr_id ` set (transfers d1) = tr_id ` set (transfers d)" by (rule row_writes_ids[OF reset_writes[OF c]])
    with \<open>t \<in> set (transfers d1)\<close> obtain t0 where t0: "t0 \<in> set (transfers d)" "tr_id t0 = tr_id t" by force
    have "distinct (map tr_id (transfers d))" using schema by (simp add: schema_ok_def transfers_ok_def)
    from find_key_unique[OF this t0(1)] have g0: "get_transfer d (tr_id t) = Some t0" by (simp add: get_transfer_def t0(2))
    with row_writes_keep[OF reset_writes[OF c] g0] g p have "tr_account t0 = acc_id a" "tr_state t0 = PENDING"
      by (auto simp: same_terms_def)
    with t0 have "tr_id t \<in> tr_id ` set (list_pending d (acc_id a))" by (auto simp: list_pending_def image_iff)
    ultimately show False by contradiction
  qed
  then have "sum_pending d' (acc_id a) WITHDRAWAL = 0"
    unfolding sum_pending_def by (intro total_none) blast
  moreover have "get_active_for_user d' u = None"
  proof -
    have "unique_index (\<lambda>a. if open_account a then Some (acc_user a) else None) (accounts d)"
      using schema by (simp add: schema_ok_def accounts_ok_def)
    from unique_indexD[OF this _ a(1)] a(2,3)
    have "x = a" if "x \<in> set (accounts d)" "acc_user x = u" "acc_status x = ACTIVE" for x
      using that by (simp add: open_account_def)
    then show ?thesis unfolding get_active_for_user_def find_None_iff acc
      by (auto elim!: in_set_modifyE split: if_splits)
  qed
  then have "archive_tx archive_hooks u d' = Inl (AppError CONFLICT (Some ACCOUNT_NOT_ACTIVE))"
    by (simp add: archive_tx_def app_error_def)
  moreover have "ledger d' = ledger d" "orders d' = orders d" "fills d' = fills d" "positions d' = positions d"
    by (simp_all add: d' d1 archive_broker_account_def)
  moreover have "list_all (\<lambda>t. \<not> (tr_account t = acc_id a \<and> tr_state t = PENDING)) (transfers d')"
    using none by (simp add: list_all_iff)
  moreover have "next_id d' = next_id d" by (simp add: d' d1 archive_broker_account_def)
  ultimately show ?thesis using a(2-4) by blast
qed

text \<open>What is done for one account leaves the others and everything else alone.\<close>

definition only_account :: "uuid \<Rightarrow> db \<Rightarrow> db \<Rightarrow> bool" where
  "only_account n d d' \<longleftrightarrow> orders d' = orders d \<and> fills d' = fills d \<and> positions d' = positions d
     \<and> transfers d' = transfers d \<and> (\<forall>i. i \<noteq> n \<longrightarrow> get_account d' i = get_account d i)
     \<and> (\<exists>es. ledger d' = ledger d @ es \<and> list_all (\<lambda>e. le_account e = n) es)"

lemma only_account_refl [simp]: "only_account n d d" by (simp add: only_account_def)

lemma only_account_trans: "only_account n d d1 \<Longrightarrow> only_account n d1 d2 \<Longrightarrow> only_account n d d2"
  by (fastforce simp: only_account_def)

lemma get_account_modified:
  "(\<And>a. acc_id (f a) = acc_id a) \<Longrightarrow> accounts d' = modify (\<lambda>a. acc_id a = n) f (accounts d)
    \<Longrightarrow> get_account d' i = (if i = n then map_option f (get_account d i) else get_account d i)"
  by (auto simp: get_account_def find_modify[where key = acc_id])

lemma run_only_account:
  assumes "run_tx f d = (r, d')" "\<And>x d'. f d = Inr (x, d') \<Longrightarrow> only_account n d d'"
  shows "only_account n d d'"
  using assms by (cases rule: run_tx_cases[of f d]) auto

lemma status_only_account:
  assumes "set_status n st d = Inr d'"
  shows "only_account n d d' \<and> get_account d' n = map_option (\<lambda>a. a\<lparr>acc_status := st\<rparr>) (get_account d n)"
proof -
  note d' = set_status_shape[OF assms]
  have "accounts d' = modify (\<lambda>a. acc_id a = n) (\<lambda>a. a\<lparr>acc_status := st\<rparr>) (accounts d)" by (simp add: d')
  from get_account_modified[OF _ this] show ?thesis by (simp add: only_account_def) (simp add: d')
qed

lemma link_only_account: "link_tx_account i ref d = Inr (x, d') \<Longrightarrow> only_account n d d' \<and> get_account d' j = get_account d j"
  by (auto simp: link_tx_account_def link_broker_account_def Let_def result_simps only_account_def get_account_def)

lemma activate_only_account:
  assumes "activate_tx n d = Inr (a, d')" "get_account d n = Some b"
  shows "only_account n d d' \<and> get_account d' n = Some a \<and> acc_user a = acc_user b \<and> acc_starting a = acc_starting b
    \<and> acc_id a = n
    \<and> (a = b \<or> acc_status a = ACTIVE \<and> acc_cash a = acc_cash b + acc_starting b)"
  using assms(1)
proof (cases rule: activate_shape)
  case (noop c)
  with assms(2) show ?thesis by (simp add: account_of)
next
  case (activated c d1)
  have id: "acc_id c = n" by (rule account_of[OF activated(1)])
  note st = status_only_account[OF activated(3)]
  have g1: "get_account d1 i = (if i = n then map_option (\<lambda>a. a\<lparr>acc_status := ACTIVE\<rparr>) (get_account d i) else get_account d i)" for i
    using st by (simp add: only_account_def)
  have "accounts d' = modify (\<lambda>a. acc_id a = n) (\<lambda>a. a\<lparr>acc_cash := acc_cash a + acc_starting c\<rparr>) (accounts d1)"
    by (simp add: activated(6) adjust_cash_def)
  from get_account_modified[OF _ this] g1
  have g: "get_account d' i = (if i = n then map_option (\<lambda>a. a\<lparr>acc_status := ACTIVE, acc_cash := acc_cash a + acc_starting c\<rparr>)
     (get_account d i) else get_account d i)" for i
    by (cases "get_account d i") auto
  have "only_account n d d'"
    using g st
    by (simp add: only_account_def activated(6) opening_entry_def id)
  with g[of n] activated(1,4) assms(2) id show ?thesis by simp
qed

lemma try_activate_only_account:
  assumes "try_activate pv n (v, d) = (r, (v', d'))" "get_account d n = Some b"
  shows "only_account n d d' \<and> (\<forall>a. r = Inr a \<longrightarrow> get_account d' n = Some a
    \<and> acc_user a = acc_user b \<and> acc_starting a = acc_starting b
    \<and> (a = b \<or> acc_status a = ACTIVE \<and> acc_cash a = acc_cash b + acc_starting b))"
proof -
  have "only_account n d d1 \<and> (\<forall>a. x = Inr a \<longrightarrow> get_account d1 n = Some a
    \<and> acc_user a = acc_user b \<and> acc_starting a = acc_starting b
    \<and> (a = b \<or> acc_status a = ACTIVE \<and> acc_cash a = acc_cash b + acc_starting b))"
    if "run_tx (activate_tx n) d = (x, d1)" for x d1
    using that activate_only_account[OF _ assms(2)] by (cases rule: run_tx_cases[of "activate_tx n" d]) auto
  with assms show ?thesis
    by (auto simp: try_activate_def split: option.splits if_splits sum.splits prod.splits)
qed

lemma open_only_account:
  assumes "open_paper_account pv u m (v, d) = (r, (v', d'))" "accounts_inv d"
  shows "only_account (next_id d) d d' \<and> (\<forall>b. r = Inr b \<longrightarrow> acc_id b = next_id d \<and> get_account d' (next_id d) = Some b
    \<and> acc_user b = u \<and> acc_starting b = m
    \<and> (acc_status b = PROVISIONING \<and> acc_cash b = 0 \<or> acc_status b = ACTIVE \<and> acc_cash b = m))"
proof (cases "m \<le> 0 \<or> (\<exists>e. create_account u m d = Inl e)")
  case True
  with assms(1) have "d' = d \<and> (\<exists>e. r = Inl e)"
    by (cases "m \<le> 0") (auto simp: open_paper_account_def run_tx_def)
  then show ?thesis by auto
next
  case False
  let ?n = "next_id d"
  from False obtain a d1 where pos: "\<not> m \<le> 0" and c: "create_account u m d = Inr (a, d1)"
    by (cases "create_account u m d") auto
  from c have a: "acc_id a = ?n" "acc_user a = u" "acc_starting a = m" "acc_status a = PROVISIONING" "acc_cash a = 0"
    and d1: "d1 = d\<lparr>accounts := accounts d @ [a], next_id := next_id d + 1\<rparr>"
    by (simp_all add: create_account_Inr)
  have g: "get_account d1 ?n = Some a" using created_inv[OF c assms(2)] a(1) by simp
  have "get_account d1 i = get_account d i" if "i \<noteq> ?n" for i
    using that a(1) by (auto simp: d1 get_account_def find_append split: option.splits)
  then have o1: "only_account ?n d d1" by (simp add: only_account_def d1)
  have act: ?thesis if "try_activate pv ?n (w, d2) = (r, (v', d'))" "only_account ?n d d2" "get_account d2 ?n = Some a" for w d2
    using try_activate_only_account[OF that(1,3)] only_account_trans[OF that(2)] a by (auto simp: account_of)
  obtain p v1 where p: "pv_provision pv a v = (p, v1)" by (rule prod.exhaust)
  show ?thesis
  proof (cases p)
    case (Inl err)
    obtain r2 d2 where f: "run_tx (fail_tx ?n) d1 = (r2, d2)" by (rule prod.exhaust)
    have "only_account ?n d1 d2"
      by (rule run_only_account[OF f]) (auto simp: fail_tx_def result_simps dest: status_only_account)
    moreover have "d' = d2 \<and> (\<exists>e. r = Inl e)" using assms(1) pos c p Inl f a(1)
      by (cases r2) (auto simp: open_paper_account_def)
    ultimately show ?thesis using only_account_trans[OF o1] by auto
  next
    case (Inr ref)
    obtain r2 d2 where l: "run_tx (link_tx_account ?n ref) d1 = (r2, d2)" by (rule prod.exhaust)
    have d2: "only_account ?n d1 d2 \<and> get_account d2 ?n = get_account d1 ?n"
      using l link_only_account by (cases rule: run_tx_cases[of "link_tx_account ?n ref" d1]) auto
    then have o2: "only_account ?n d d2" using only_account_trans[OF o1] by blast
    show ?thesis
    proof (cases r2)
      case (Inl e)
      then have "d' = d2 \<and> r = Inl e" using assms(1) pos c p Inr l a(1) by (auto simp: open_paper_account_def)
      with o2 show ?thesis by simp
    next
      case (Inr x)
      with assms(1) pos c p \<open>p = Inr ref\<close> l a(1) have "try_activate pv ?n (v1, d2) = (r, (v', d'))"
        by (auto simp: open_paper_account_def)
      from act[OF this o2] d2 g show ?thesis by simp
    qed
  qed
qed


section \<open>Witnesses\<close>

text \<open>The running example before its account was funded, and a venue that reports the cash settled.\<close>

definition demo_unfunded :: account where
  "demo_unfunded = demo_account\<lparr>acc_status := PROVISIONING, acc_cash := 0\<rparr>"

definition demo_waiting :: db where
  "demo_waiting = demo_db\<lparr>accounts := [demo_unfunded], ledger := [], next_id := 2\<rparr>"

definition funding_venue :: "unit provisioner" where
  "funding_venue = \<lparr>pv_provision = \<lambda>a v. (Inr \<lparr>ref_broker = DETERMINISTIC, ref_external = ''ext''\<rparr>, v),
     pv_settled_cash = \<lambda>ref v. (Inr 100000, v)\<rparr>"

lemma demo_waiting_ok: "schema_ok demo_waiting"
  by (simp add: demo_waiting_def demo_unfunded_def demo_defs schema_defs accounts_ok_def broker_accounts_ok_def
      instruments_ok_def orders_ok_def order_events_ok_def fills_ok_def positions_ok_def ledger_ok_def
      transfers_ok_def transfer_ref_def)

lemma demo_waiting_inv: "accounts_inv demo_waiting"
  unfolding accounts_inv_def transfers_inv_def using demo_waiting_ok
  by (simp add: in_balance_def sum_ledger_def transfers_posted_def opening_posted_def opened_linked_def
      opened_def openings_def)
     (simp add: demo_waiting_def demo_unfunded_def demo_defs)

lemma demo_activate_tx: "activate_tx 0 demo_waiting = Inr (demo_account, demo_db)"
proof -
  let ?d1 = "demo_waiting\<lparr>accounts := [demo_unfunded\<lparr>acc_status := ACTIVE\<rparr>]\<rparr>"
  have "lock_account demo_waiting 0 = Inr demo_unfunded"
    by (simp add: lock_account_def get_account_def demo_waiting_def demo_unfunded_def demo_defs)
  moreover have "set_status 0 ACTIVE demo_waiting = Inr ?d1"
    by (simp add: set_status_Inr demo_waiting_def demo_unfunded_def demo_defs accounts_ok_def unique_index_def)
  moreover have "post (opening_entry demo_unfunded) ?d1 = Inr (deposit_row, demo_db)"
    by (simp add: post_def post_via_def insert_entry_def Let_def checked_def ledger_ok_def transfer_ref_def has_account_def
        invariant_def adjust_cash_def opening_entry_def demo_waiting_def demo_unfunded_def demo_defs)
  moreover have "acc_status demo_unfunded = PROVISIONING" by (simp add: demo_unfunded_def)
  ultimately show ?thesis by (simp add: activate_tx_def demo_lookup of_option_def)
qed

lemma demo_activation: "try_activate funding_venue 0 ((), demo_waiting) = (Inr demo_account, ((), demo_db))"
proof -
  have "get_account demo_waiting 0 = Some demo_unfunded"
    "get_broker_account demo_waiting 0 = Some \<lparr>ref_broker = DETERMINISTIC, ref_external = ''ext''\<rparr>"
    by (simp_all add: get_account_def get_broker_account_def demo_waiting_def demo_unfunded_def demo_defs)
  moreover have "acc_status demo_unfunded = PROVISIONING" "acc_starting demo_unfunded = 100000"
    by (simp_all add: demo_unfunded_def demo_account_def)
  ultimately show ?thesis
    by (simp add: try_activate_def funding_venue_def money_compare_def demo_activate_tx run_tx_def)
qed

theorem activation_needs_settled_cash_witness:
  "try_activate funding_venue 0 ((), demo_db) = (Inr demo_account, ((), demo_db))
    \<and> ledger demo_db = [deposit_row]"
proof -
  have "demo_db \<noteq> demo_waiting" by (simp add: demo_waiting_def demo_defs)
  from activation_needs_settled_cash[OF demo_activation this demo_waiting_ok, of "()"] show ?thesis
    by (auto simp: demo_db_def)
qed

definition demo_archived :: db where
  "demo_archived = demo_requested\<lparr>accounts := [demo_account\<lparr>acc_status := ARCHIVED\<rparr>],
     broker_accounts := map (\<lambda>b. b\<lparr>ba_status := ARCHIVED\<rparr>) (broker_accounts demo_requested),
     transfers := [demo_transfer\<lparr>tr_state := CANCELED, tr_failure := Some reset_cancel_reason,
       tr_settled := None, tr_updated := 0\<rparr>]\<rparr>"

lemma demo_archive: "archive_tx archive_hooks 7 demo_requested = Inr (demo_account, demo_archived)"
proof -
  let ?d1 = "demo_requested\<lparr>transfers := [demo_transfer\<lparr>tr_state := CANCELED, tr_failure := Some reset_cancel_reason,
       tr_settled := None, tr_updated := 0\<rparr>]\<rparr>"
  have now: "db_now demo_requested = 0" "accounts demo_requested = [demo_account]" "tr_updated demo_transfer = 0"
    by (simp_all add: demo_requested_def demo_transfer_def fresh_transfer_def demo_defs)
  have "list_pending demo_requested 0 = [demo_transfer]"
    by (simp add: list_pending_def demo_requested_def)
  moreover have "set_transfer_state 3 CANCELED (Some reset_cancel_reason) None demo_requested = Inr ?d1"
    using now(1,3)
    by (simp add: set_transfer_state_Inr Let_def demo_requested_def transfers_ok_def transfer_check_def
        unique_index_def state_patch_def or_else_def)
  ultimately have "cancel_pending_for_account 0 demo_requested = Inr (1, ?d1)"
    using demo_get_transfer by (simp add: cancel_pending_for_account_def cancel_locally_def)
  moreover have "set_status 0 ARCHIVED (archive_broker_account 0 ?d1) = Inr demo_archived"
    by (simp add: set_status_Inr archive_broker_account_def demo_archived_def demo_requested_def demo_defs
        accounts_ok_def unique_index_def)
  moreover have "get_active_for_user demo_requested 7 = Some demo_account"
    "lock_account demo_requested 0 = Inr demo_account" "acc_status demo_account = ACTIVE"
    by (simp_all add: get_active_for_user_def lock_account_def get_account_def now(2) demo_account_def)
  ultimately show ?thesis by (simp add: archive_tx_def archive_hooks_def)
qed

lemma demo_requested_inv: "accounts_inv demo_requested"
  unfolding accounts_inv_def using demo_transfers_inv
  by (simp add: opening_posted_def opened_linked_def openings_def get_broker_account_def)
     (simp add: demo_requested_def demo_defs opened_def)


end
