(* ===== verification/Det_Cash.thy ===== *)
theory Det_Cash
  imports Det_Broker_Correct Accounts_Correct
begin

text \<open>
  The deterministic venue as the counterpart of the cash services: its cash follows its settled
  transfers, a deposit requested through \<^verbatim>\<open>CashTransferService.request\<close> settles within the call, and an
  account opened through \<^verbatim>\<open>AccountService.openPaperAccount\<close> is active at once, or as soon as held funding
  is released.
\<close>

section \<open>The cash of the venue\<close>

definition settled_effect :: "string \<Rightarrow> venue_record \<Rightarrow> money" where
  "settled_effect account r =
     (if vr_account r = account \<and> vt_state (vr_transfer r) = V_settled
      then (if vt_direction (vr_transfer r) = DEPOSIT then vt_amount (vr_transfer r) else - vt_amount (vr_transfer r))
      else 0)"

definition settled_sum :: "string \<Rightarrow> det_state \<Rightarrow> money" where
  "settled_sum account s = sum_list (map (settled_effect account \<circ> snd) (dv_transfers s))"

definition transfers_minted :: "string \<Rightarrow> det_state \<Rightarrow> bool" where
  "transfers_minted k s \<longleftrightarrow> drawn (minted k ''det-xfer'') (dv_sequence s) (map fst (dv_transfers s))"

lemma minted_distinct: "transfers_minted k s \<Longrightarrow> distinct (map fst (dv_transfers s))"
  unfolding transfers_minted_def by (rule drawn_distinct) (auto simp: inj_def)

lemma sum_update:
  fixes g :: "'v \<Rightarrow> int"
  assumes "distinct (map fst kvs)" "map_of kvs k = Some v0"
  shows "sum_list (map (g \<circ> snd) (AList.update k v kvs)) = sum_list (map (g \<circ> snd) kvs) - g v0 + g v"
  using assms by (induction kvs) (auto simp: map_of_eq_None_iff image_iff split: if_splits)

lemma sum_update_new:
  fixes g :: "'v \<Rightarrow> int"
  assumes "k \<notin> fst ` set kvs"
  shows "sum_list (map (g \<circ> snd) (AList.update k v kvs)) = sum_list (map (g \<circ> snd) kvs) + g v"
  using assms by (induction kvs) auto

lemma keys_update: "map_of kvs k = Some v0 \<Longrightarrow> map fst (AList.update k v kvs) = map fst kvs"
  by (induction kvs) (auto split: if_splits)

lemma keys_update_new: "k \<notin> fst ` set kvs \<Longrightarrow> map fst (AList.update k v kvs) = map fst kvs @ [k]"
  by (induction kvs) auto

definition cash_matches :: "string \<Rightarrow> det_state \<Rightarrow> det_state \<Rightarrow> bool" where
  "cash_matches account s s' \<longleftrightarrow>
     account_cash_of account s' - settled_sum account s' = account_cash_of account s - settled_sum account s"

text \<open>Writing one record back, and adding one.\<close>

lemma put_record:
  assumes "transfers_minted k s" "map_of (dv_transfers s) vid = Some r"
    "dv_transfers s' = AList.update vid r' (dv_transfers s)" "dv_sequence s' = dv_sequence s"
  shows "settled_sum a s' = settled_sum a s - settled_effect a r + settled_effect a r'" "transfers_minted k s'"
  using sum_update[OF minted_distinct[OF assms(1)] assms(2), of "settled_effect a" r'] keys_update[OF assms(2)] assms
  by (simp_all add: settled_sum_def transfers_minted_def)

lemma complete_matches:
  assumes "transfers_minted k s"
  shows "cash_matches account s (complete_transfer vid s) \<and> transfers_minted k (complete_transfer vid s)"
proof (cases "map_of (dv_transfers s) vid")
  case (Some r)
  show ?thesis
  proof (cases "vt_state (vr_transfer r) = V_pending")
    case True
    let ?r' = "r\<lparr>vr_transfer := (vr_transfer r)\<lparr>vt_state := V_settled\<rparr>\<rparr>"
    let ?s' = "complete_transfer vid s"
    have s': "dv_transfers ?s' = AList.update vid ?r' (dv_transfers s)" "dv_sequence ?s' = dv_sequence s"
      using True by (simp_all add: complete_transfer_def Some Let_def)
    have "account_cash_of account ?s' = account_cash_of account s - settled_effect account r + settled_effect account ?r'"
      using True by (auto simp: complete_transfer_def Some Let_def account_cash_of_def settled_effect_def update_conv')
    with put_record[OF assms Some s'] show ?thesis by (simp add: cash_matches_def)
  qed (use assms Some in \<open>simp add: complete_transfer_def cash_matches_def\<close>)
qed (use assms in \<open>simp_all add: complete_transfer_def cash_matches_def\<close>)

lemma fail_matches:
  assumes "transfers_minted k s"
  shows "cash_matches account s (fail_record vid reason s) \<and> transfers_minted k (fail_record vid reason s)"
proof (cases "map_of (dv_transfers s) vid")
  case (Some r)
  show ?thesis
  proof (cases "vt_state (vr_transfer r) = V_pending")
    case True
    let ?s' = "fail_record vid reason s"
    have s': "dv_transfers ?s' = AList.update vid (r\<lparr>vr_transfer := (vr_transfer r)\<lparr>vt_state := V_failed, vt_failure := Some reason\<rparr>\<rparr>)
        (dv_transfers s)" "dv_sequence ?s' = dv_sequence s" "account_cash_of account ?s' = account_cash_of account s"
      using True by (simp_all add: fail_record_def Some account_cash_of_def)
    from put_record[OF assms Some s'(1,2)] s'(3) True show ?thesis by (simp add: cash_matches_def settled_effect_def)
  qed (use assms Some in \<open>simp add: fail_record_def cash_matches_def\<close>)
qed (use assms in \<open>simp_all add: fail_record_def cash_matches_def\<close>)

lemma backdate_matches:
  assumes "transfers_minted k s"
  shows "cash_matches account s (backdate_transfer vid ms s) \<and> transfers_minted k (backdate_transfer vid ms s)"
proof (cases "map_of (dv_transfers s) vid")
  case (Some r)
  let ?s' = "backdate_transfer vid ms s"
  have s': "dv_transfers ?s' = AList.update vid (r\<lparr>vr_transfer := (vr_transfer r)\<lparr>vt_created := vt_created (vr_transfer r) - ms\<rparr>\<rparr>)
      (dv_transfers s)" "dv_sequence ?s' = dv_sequence s" "account_cash_of account ?s' = account_cash_of account s"
    by (simp_all add: backdate_transfer_def Some account_cash_of_def)
  from put_record[OF assms Some s'(1,2)] s'(3) show ?thesis by (simp add: cash_matches_def settled_effect_def)
qed (use assms in \<open>simp_all add: backdate_transfer_def cash_matches_def\<close>)

lemma matches_trans: "cash_matches a s s1 \<Longrightarrow> cash_matches a s1 s2 \<Longrightarrow> cash_matches a s s2"
  by (simp add: cash_matches_def)

lemma drawn_next_fresh: "drawn mk bnd xs \<Longrightarrow> inj mk \<Longrightarrow> bnd < n \<Longrightarrow> mk n \<notin> set xs"
  by (fastforce simp: drawn_def inj_eq)

lemma initiate_matches:
  assumes "transfers_minted (en_nonce en) s"
  shows "cash_matches account s (snd (det_initiate en rf dir amount s))
    \<and> transfers_minted (en_nonce en) (snd (det_initiate en rf dir amount s))"
proof (cases "dv_next_fault s")
  case (Some f)
  with assms show ?thesis
    by (cases f) (simp_all add: det_initiate_def Let_def cash_matches_def account_cash_of_def settled_sum_def
        transfers_minted_def)
next
  case None
  let ?vid = "minted (en_nonce en) ''det-xfer'' (dv_sequence s + 1)"
  let ?r = "\<lparr>vr_transfer = \<lparr>vt_id = ?vid, vt_direction = dir, vt_amount = amount, vt_state = V_pending,
      vt_failure = None, vt_created = en_now en\<rparr>, vr_account = ref_external rf\<rparr>"
  let ?s3 = "s\<lparr>dv_next_fault := None, dv_sequence := dv_sequence s + 1,
      dv_transfers := AList.update ?vid ?r (dv_transfers s)\<rparr>"
  have new: "?vid \<notin> fst ` set (dv_transfers s)"
    using drawn_next_fresh[OF assms[unfolded transfers_minted_def], of "dv_sequence s + 1"] by (simp add: inj_def)
  have "cash_matches account s ?s3"
    using sum_update_new[OF new, of "settled_effect account" ?r]
    by (simp add: cash_matches_def account_cash_of_def settled_sum_def settled_effect_def)
  moreover have m3: "transfers_minted (en_nonce en) ?s3"
    using drawn_next[OF assms[unfolded transfers_minted_def], of "dv_sequence s + 1" "dv_sequence s + 1"]
      keys_update_new[OF new, of ?r] by (simp add: transfers_minted_def)
  moreover have "snd (det_initiate en rf dir amount s) = (if dv_hold_transfers s then ?s3 else complete_transfer ?vid ?s3)"
    using None by (simp add: det_initiate_def next_id_minted Let_def)
  ultimately show ?thesis using complete_matches[OF m3, of account ?vid] matches_trans by simp
qed

text \<open>
  The venue's cash follows its transfers. Over any sequence of transfer operations (initiations with
  or without faults, completions, failures, cancellations, backdating) the cash of every venue account
  changes by exactly the transfers that settled in between: a settlement is applied once, at the moment
  the record turns SETTLED, and nothing else moves cash.
\<close>

theorem venue_cash_follows_transfers:
  assumes "(transfer_op en)\<^sup>*\<^sup>* s s'" "transfers_minted (en_nonce en) s"
  shows "account_cash_of account s' - account_cash_of account s = settled_sum account s' - settled_sum account s
    \<and> distinct (map fst (dv_transfers s'))"
proof -
  have "cash_matches account s s' \<and> transfers_minted (en_nonce en) s'"
    using assms
  proof (induction rule: rtranclp_induct)
    case base
    then show ?case by (simp add: cash_matches_def)
  next
    case (step y z)
    then have y: "cash_matches account s y" "transfers_minted (en_nonce en) y" by auto
    from step.hyps(2) have "cash_matches account y z \<and> transfers_minted (en_nonce en) z"
    proof (cases rule: transfer_op.cases)
      case (op_cancel_transfer vid)
      with y(2) fail_matches[OF y(2), of account vid "''Canceled at the venue''"] show ?thesis
        by (simp add: det_cancel_transfer_def cash_matches_def split: option.split)
    qed (use y(2) initiate_matches complete_matches fail_matches backdate_matches in blast)+
    with matches_trans[OF y(1)] show ?case by blast
  qed
  then show ?thesis using minted_distinct by (auto simp: cash_matches_def)
qed

theorem venue_cash_follows_transfers_witness:
  "account_cash_of ''ext'' (snd (det_initiate (desk [] :: unit venue_env) \<lparr>ref_broker = DETERMINISTIC, ref_external = ''ext''\<rparr>
     DEPOSIT 500 desk_venue)) = 500"
proof -
  let ?en = "desk [] :: unit venue_env"
  have "transfers_minted (en_nonce ?en) desk_venue" by (simp add: transfers_minted_def desk_defs)
  moreover have "(transfer_op ?en)\<^sup>*\<^sup>* desk_venue
      (snd (det_initiate ?en \<lparr>ref_broker = DETERMINISTIC, ref_external = ''ext''\<rparr> DEPOSIT 500 desk_venue))"
    by (rule r_into_rtranclp) (rule transfer_op.op_initiate)
  ultimately show ?thesis using venue_cash_follows_transfers[of ?en desk_venue _ "''ext''"]
    by (simp add: desk_defs det_initiate_def next_id_minted Let_def complete_transfer_def account_cash_of_def
        settled_sum_def settled_effect_def)
qed

section \<open>A deposit settles within its request\<close>

lemma unique_index_put:
  assumes "unique_index key rs" "distinct (map ix rs)" "\<forall>r \<in> set rs. key r \<noteq> Some v" "\<And>r. key (f r) = Some v"
  shows "unique_index key (modify (\<lambda>r. ix r = i) f rs)"
  using assms(1-3)
proof (induction rs)
  case (Cons x rs)
  show ?case
  proof (cases "ix x = i")
    case True
    with Cons.prems have "modify (\<lambda>r. ix r = i) f rs = rs" by (intro modify_key_absent) simp
    with True Cons.prems assms(4) show ?thesis by (auto simp: image_iff)
  next
    case False
    have "Some k \<notin> key ` set (modify (\<lambda>r. ix r = i) f rs)" if "key x = Some k" for k
      using Cons.prems that by (auto simp: set_modify assms(4) split: option.splits)
    with False Cons show ?thesis by (auto split: option.splits)
  qed
qed simp

lemma link_succeeds:
  assumes "schema_ok d" "\<forall>r \<in> set (transfers d). tr_venue r \<noteq> Some v"
  shows "set_venue_transfer_id i v d = Inr (retransfer i (\<lambda>r. r\<lparr>tr_venue := Some v, tr_updated := db_now d\<rparr>) d)"
proof -
  let ?f = "\<lambda>r. r\<lparr>tr_venue := Some v, tr_updated := db_now d\<rparr>"
  have ok: "transfers_ok (transfers d)" using assms(1) by (simp add: schema_ok_def)
  have "list_all transfer_check (modify (\<lambda>r. tr_id r = i) ?f (transfers d))"
    using ok by (auto simp: transfers_ok_def list_all_iff transfer_check_def elim!: in_set_modifyE split: if_splits)
  moreover have "unique_index tr_venue (modify (\<lambda>r. tr_id r = i) ?f (transfers d))"
    using ok assms(2) by (intro unique_index_put[where v = v]) (simp_all add: transfers_ok_def)
  ultimately show ?thesis
    using ok by (simp add: set_venue_transfer_id_Inr transfers_ok_def map_modify)
qed

lemma det_initiate_settles:
  assumes "\<not> dv_hold_transfers s" "dv_next_fault s = None" "transfers_minted (en_nonce en) s"
    "vid = minted (en_nonce en) ''det-xfer'' (dv_sequence s + 1)"
  obtains s' where "det_initiate en rf DEPOSIT m s = (Inr \<lparr>vt_id = vid, vt_direction = DEPOSIT, vt_amount = m,
      vt_state = V_settled, vt_failure = None, vt_created = en_now en\<rparr>, s')"
    "account_cash_of (ref_external rf) s' = account_cash_of (ref_external rf) s + m"
  using assms
  by (auto simp: det_initiate_def next_id_minted Let_def complete_transfer_def update_conv' account_cash_of_def)

text \<open>
  A simulated deposit settles within its request. Against the deterministic venue, when it holds
  nothing back and no fault is armed, a new deposit that the rules accept comes back SETTLED: the
  account's cash and the venue's cash both grow by the amount, and the ledger by one entry.
\<close>

theorem deposit_settles_at_once:
  assumes "transfers_inv d" "request_tx cfg now inp d = Inr ((t, Some rf), d1)" "rt_direction inp = DEPOSIT"
    "\<not> dv_hold_transfers s" "dv_next_fault s = None" "transfers_minted (en_nonce en) s"
    "\<forall>r \<in> set (transfers d). tr_venue r \<noteq> Some (minted (en_nonce en) ''det-xfer'' (dv_sequence s + 1))"
  shows "case request cfg (det_cash_venue en) now inp (s, d) of
      (Inr (t', replayed), (s', d')) \<Rightarrow> \<not> replayed \<and> tr_id t' = tr_id t \<and> tr_state t' = SETTLED
        \<and> get_cached_cash d' (rt_account inp) = ebind (get_cached_cash d (rt_account inp)) (\<lambda>c. Inr (c + rt_amount inp))
        \<and> account_cash_of (ref_external rf) s' = account_cash_of (ref_external rf) s + rt_amount inp
        \<and> length (ledger d') = length (ledger d) + 1
    | (Inl e, w) \<Rightarrow> False"
proof -
  let ?vid = "minted (en_nonce en) ''det-xfer'' (dv_sequence s + 1)"
  let ?vt = "\<lparr>vt_id = ?vid, vt_direction = DEPOSIT, vt_amount = rt_amount inp, vt_state = V_settled,
      vt_failure = None, vt_created = en_now en\<rparr>"
  have vid: "?vid \<noteq> []" by (simp add: minted_def)
  from assms(2) obtain a where a: "get_account d (rt_account inp) = Some a" "acc_status a = ACTIVE"
    and t: "t = fresh_transfer (new_transfer_of inp (acc_id a)) d"
    and d1: "d1 = d\<lparr>transfers := transfers d @ [t], next_id := next_id d + 1\<rparr>"
    by (cases rule: request_tx_cases) auto
  have id: "acc_id a = rt_account inp" by (rule account_of[OF a(1)])
  have tf: "tr_id t = next_id d" "tr_account t = rt_account inp" "tr_direction t = DEPOSIT"
    "tr_amount t = rt_amount inp" "tr_state t = PENDING" "tr_venue t = None"
    using assms(3) by (simp_all add: t fresh_transfer_def new_transfer_of_def id)
  have inv1: "transfers_inv d1" by (rule step_inv[OF transfer_step.requested[OF assms(2)] assms(1)])
  have "ids_fresh d" using transfers_invD(1)[OF assms(1)] by (simp add: schema_ok_def)
  then have "tr_id r < next_id d" if "r \<in> set (transfers d)" for r
    using that by (auto simp: ids_fresh_def list_all_iff)
  then have "\<forall>r \<in> set (transfers d). tr_id r \<noteq> next_id d" by (metis less_irrefl)
  then have g1: "get_transfer d1 (tr_id t) = Some t"
    by (auto simp: d1 get_transfer_def find_append tf find_None_iff split: option.split dest: find_Some_in_set)
  let ?f = "\<lambda>r. r\<lparr>tr_venue := Some ?vid, tr_updated := db_now d1\<rparr>"
  have link: "set_venue_transfer_id (tr_id t) ?vid d1 = Inr (retransfer (tr_id t) ?f d1)"
    by (rule link_succeeds[OF transfers_invD(1)[OF inv1]]) (use assms(7) tf(6) in \<open>simp add: d1\<close>)
  let ?d2 = "retransfer (tr_id t) ?f d1"
  have inv2: "transfers_inv ?d2"
    by (rule row_write_inv[OF row_write.link[OF g1 _ link] inv1]) (use tf vid in \<open>simp_all add: truthy_def\<close>)
  have g2: "get_transfer ?d2 (tr_id t) = Some (?f t)"
    by (subst get_transfer_retransfer) (simp_all add: g1)
  have acc: "get_account d1 (rt_account inp) = Some a" "get_account ?d2 (rt_account inp) = Some a"
    using a(1) by (simp_all add: d1 get_account_def)
  obtain d3 where settle: "settle_locked now a (?f t) ?d2 = Inr d3"
    by (rule settle_succeeds[OF inv2 g2]) (use tf acc in simp_all)
  have applied: "apply_venue_state now (tr_id t) ?vt d1 = (Inr SETTLED, d3)"
    using g1 g2 acc link settle tf a(2)
    by (simp add: apply_venue_state_def must_get_transfer_def link_tx_def lock_account_def run_tx_def truthy_def
        venue_state_tx_def)
  from settlement_effect[OF inv1 g1 tf(5) applied, of 0 ?vt] vid obtain e c t' where
    eff: "ledger d3 = ledger d1 @ [e]" "get_cached_cash d1 (rt_account inp) = Inr c"
      "get_cached_cash d3 (rt_account inp) = Inr (c + rt_amount inp)"
      "get_transfer d3 (tr_id t) = Some t'" "tr_state t' = SETTLED"
    by (auto simp: tf signed_amount_def)
  have t': "tr_id t' = tr_id t" using get_transfer_Some[OF eff(4)] by simp
  from det_initiate_settles[OF assms(4-6) refl, of rf "rt_amount inp"] obtain s' where
    init: "det_initiate en rf DEPOSIT (rt_amount inp) s = (Inr ?vt, s')"
    "account_cash_of (ref_external rf) s' = account_cash_of (ref_external rf) s + rt_amount inp" .
  have "request cfg (det_cash_venue en) now inp (s, d) = (Inr (t', False), (s', d3))"
    using assms(2) init(1) applied eff(4)
    by (simp add: request_def run_tx_def det_cash_venue_def tf must_get_transfer_def Let_def)
  moreover have "get_cached_cash d (rt_account inp) = Inr c" "ledger d1 = ledger d"
    using eff(2) by (simp_all add: d1 get_cached_cash_def get_account_def)
  ultimately show ?thesis using eff init(2) t' by simp
qed

definition demo_deposit :: transfer_request where
  "demo_deposit = \<lparr>rt_account = 0, rt_direction = DEPOSIT, rt_amount = 30000, rt_key = ''d1''\<rparr>"

lemma demo_deposit_tx:
  "\<exists>t d1. request_tx demo_limits 5 demo_deposit demo_db
     = Inr ((t, Some \<lparr>ref_broker = DETERMINISTIC, ref_external = ''ext''\<rparr>), d1)"
proof -
  let ?t = "fresh_transfer (new_transfer_of demo_deposit 0) demo_db"
  have "transfers_ok [?t]"
    by (simp add: transfers_ok_def transfer_check_def unique_index_def fresh_transfer_def new_transfer_of_def
        demo_deposit_def)
  then obtain d1 where ins: "insert_transfer (new_transfer_of demo_deposit 0) demo_db = Inr (Some ?t, d1)"
    by (simp add: insert_transfer_fresh demo_lookup new_transfer_of_def)
  have "deposited_in_window demo_limits 5 demo_db demo_account = 100000"
    by (simp add: deposited_in_window_def sum_deposits_since_def demo_defs demo_limits_def
        default_transfer_limits_def Let_def)
  then have "check_transfer_request DEPOSIT 30000 (tc_limits demo_limits) 0
      (deposited_in_window demo_limits 5 demo_db demo_account) = Inr ()"
    by (simp add: check_transfer_request_Inr demo_limits_def default_transfer_limits_def deposit_remaining_def
        money_is_negative_def Let_def)
  then show ?thesis
    using ins by (simp add: request_tx_def lock_account_def demo_lookup demo_deposit_def Let_def)
qed

theorem deposit_settles_at_once_witness:
  "case request demo_limits (det_cash_venue (desk [] :: unit venue_env)) 5 demo_deposit (desk_venue, demo_db) of
     (Inr (t', replayed), (s', d')) \<Rightarrow> tr_state t' = SETTLED \<and> get_cached_cash d' 0 = Inr 130000
       \<and> account_cash_of ''ext'' s' = 30000
   | (Inl e, w) \<Rightarrow> False"
proof -
  let ?en = "desk [] :: unit venue_env"
  from demo_deposit_tx obtain t d1 where tx: "request_tx demo_limits 5 demo_deposit demo_db
     = Inr ((t, Some \<lparr>ref_broker = DETERMINISTIC, ref_external = ''ext''\<rparr>), d1)" by blast
  have "transfers_minted (en_nonce ?en) desk_venue" "\<not> dv_hold_transfers desk_venue" "dv_next_fault desk_venue = None"
    "account_cash_of ''ext'' desk_venue = 0" "get_cached_cash demo_db 0 = Inr 100000"
    by (simp_all add: transfers_minted_def desk_defs account_cash_of_def get_cached_cash_def demo_lookup)
  with deposit_settles_at_once[OF demo_transfers_inv(1) tx, of desk_venue ?en] show ?thesis
    by (auto simp: demo_deposit_def demo_lookup split: sum.splits prod.splits)
qed

section \<open>An account opens\<close>

definition venue_ref :: "uuid \<Rightarrow> broker_ref" where
  "venue_ref i = \<lparr>ref_broker = DETERMINISTIC, ref_external = ''det-acct-'' @ show_nat i\<rparr>"

lemma no_refs_fresh:
  assumes "schema_ok d"
  shows "\<forall>a \<in> set (accounts d). acc_id a \<noteq> next_id d" "\<forall>b \<in> set (broker_accounts d). ba_account b \<noteq> next_id d"
    "\<forall>e \<in> set (ledger d). le_id e \<noteq> next_id d"
proof -
  have f: "ids_fresh d" "references_ok d" using assms by (simp_all add: schema_ok_def)
  from f(1) have lt: "i < next_id d" if "i \<in> set (map acc_id (accounts d) @ map le_id (ledger d))" for i
    using that by (auto simp: ids_fresh_def list_all_iff)
  show a: "\<forall>a \<in> set (accounts d). acc_id a \<noteq> next_id d" using lt by fastforce
  show "\<forall>e \<in> set (ledger d). le_id e \<noteq> next_id d" using lt by fastforce
  show "\<forall>b \<in> set (broker_accounts d). ba_account b \<noteq> next_id d"
    using f(2) a by (auto simp: references_ok_def list_all_iff has_account_def list_ex_iff)
qed

lemma create_succeeds:
  assumes "schema_ok d" "\<forall>a \<in> set (accounts d). acc_user a = u \<longrightarrow> \<not> open_account a"
  obtains a where "create_account u m d = Inr (a, d\<lparr>accounts := accounts d @ [a], next_id := next_id d + 1\<rparr>)"
    "acc_id a = next_id d" "acc_status a = PROVISIONING" "acc_starting a = m" "acc_cash a = 0" "acc_user a = u"
proof -
  let ?a = "\<lparr>acc_id = next_id d, acc_user = u, acc_status = PROVISIONING, acc_starting = m, acc_cash = 0,
      acc_created = db_now d\<rparr>"
  have ok: "accounts_ok (accounts d)" using assms(1) by (simp add: schema_ok_def)
  let ?key = "\<lambda>a. if open_account a then Some (acc_user a) else None"
  have "next_id d \<notin> acc_id ` set (accounts d)" using no_refs_fresh(1)[OF assms(1)] by force
  moreover have "\<forall>k. Some k \<in> ?key ` set (accounts d) \<longrightarrow> Some k \<notin> ?key ` set [?a]"
    using assms(2) by (auto simp: open_account_def split: if_splits)
  then have "unique_index ?key (accounts d @ [?a])"
    using ok unfolding unique_index_append by (simp add: accounts_ok_def)
  ultimately have "accounts_ok (accounts d @ [?a])"
    using ok unfolding accounts_ok_def by simp
  then show thesis by (intro that[of ?a]) (simp_all add: create_account_Inr)
qed

lemma activation_succeeds:
  assumes "schema_ok d" "get_account d i = Some a" "acc_status a = PROVISIONING" "acc_cash a = 0" "0 < acc_starting a"
  obtains d' where "activate_tx i d = Inr (a\<lparr>acc_status := ACTIVE, acc_cash := acc_starting a\<rparr>, d')"
proof -
  have id: "acc_id a = i" by (rule account_of[OF assms(2)])
  let ?f = "\<lambda>x. x\<lparr>acc_status := ACTIVE\<rparr>"
  let ?rows = "modify (\<lambda>x. acc_id x = i) ?f (accounts d)"
  have ok: "accounts_ok (accounts d)" and led: "ledger_ok (ledger d)" using assms(1) by (simp_all add: schema_ok_def)
  have a: "a \<in> set (accounts d)" using get_account_Some[OF assms(2)] by simp
  let ?key = "\<lambda>a. if open_account a then Some (acc_user a) else None"
  have "unique_index ?key ?rows"
  proof -
    have "\<forall>x \<in> set (accounts d). acc_id x = i \<longrightarrow> x = a"
      using ok a id by (auto simp: accounts_ok_def distinct_map inj_on_def)
    then have "map ?key ?rows = map ?key (accounts d)"
      using assms(3) by (auto simp: modify_def open_account_def)
    moreover have "unique_index ?key xs = distinct (List.map_filter (\<lambda>x. x) (map ?key xs))" for xs
      by (simp add: unique_index_def List.map_filter_def comp_def filter_map)
    ultimately show ?thesis using ok by (simp add: accounts_ok_def)
  qed
  then have "accounts_ok ?rows" using ok by (simp add: accounts_ok_def map_modify)
  then have s: "set_status i ACTIVE d = Inr (d\<lparr>accounts := ?rows\<rparr>)" by (simp add: set_status_Inr)
  let ?d1 = "d\<lparr>accounts := ?rows\<rparr>"
  have g1: "get_account ?d1 i = Some (?f a)"
    using assms(2) by (simp add: get_account_def find_modify[where key = acc_id])
  let ?e = "entry_row (opening_entry a) (next_id d) (db_now d)"
  have "ledger_ok (ledger d @ [?e])"
    using led no_refs_fresh(3)[OF assms(1)] assms(5)
    by (auto simp: ledger_ok_def unique_index_append opening_entry_def)
  then have ins: "insert_entry (opening_entry a) ?d1 = Inr (?e, ?d1\<lparr>ledger := ledger d @ [?e], next_id := next_id d + 1\<rparr>)"
    using g1 id by (auto simp: insert_entry_Inr entry_row_def opening_entry_def has_account_get)
  have "ne_account (opening_entry a) = i" "ne_amount (opening_entry a) = acc_starting a"
    by (simp_all add: opening_entry_def id)
  with ins have "post (opening_entry a) ?d1 = Inr (?e, adjust_cash i (acc_starting a)
      (?d1\<lparr>ledger := ledger d @ [?e], next_id := next_id d + 1\<rparr>))"
    using assms(5) by (simp add: post_def post_via_def)
  moreover have "get_account (?d1\<lparr>ledger := ledger d @ [?e], next_id := next_id d + 1\<rparr>) i = Some (?f a)"
    using g1 by (simp add: get_account_def)
  ultimately show thesis
    using s assms(2-4) that by (simp add: activate_tx_def lock_account_def)
qed

lemma link_account_succeeds:
  assumes "schema_ok d" "\<forall>b \<in> set (broker_accounts d). ba_account b \<noteq> i \<and> ba_ref b \<noteq> rf" "has_account d i"
  obtains b where "link_tx_account i rf d = Inr ((), d\<lparr>broker_accounts := broker_accounts d @ [b]\<rparr>)"
    "ba_account b = i" "ba_ref b = rf"
proof -
  let ?b = "\<lparr>ba_account = i, ba_ref = rf, ba_status = ACTIVE, ba_reconciled = None, ba_recon_status = HEALTHY\<rparr>"
  have "broker_accounts_ok (broker_accounts d @ [?b])"
    using assms(1,2) by (auto simp: schema_ok_def broker_accounts_ok_def)
  with assms(3) show thesis
    by (intro that[of ?b]) (simp_all add: link_tx_account_def link_broker_account_def Let_def checked_def)
qed

text \<open>
  A new account opens. For a user without an open account and a venue that does not know the new
  account yet, \<open>openPaperAccount\<close> against the deterministic venue creates, provisions, links and, when
  funding is not held back, activates the account: it is ACTIVE with the starting cash. When funding is
  held, it stays PROVISIONING with no cash, until the funding is released at the venue; then
  \<open>tryActivate\<close> activates it with the starting cash.
\<close>

theorem account_opens:
  assumes "accounts_inv d" "0 < m" "\<forall>a \<in> set (accounts d). acc_user a = u \<longrightarrow> \<not> open_account a"
    "\<forall>b \<in> set (broker_accounts d). ba_ref b \<noteq> venue_ref (next_id d)"
  shows "case open_paper_account det_provisioner u m (s, d) of
      (Inl e, w) \<Rightarrow> False
    | (Inr a, (s', d')) \<Rightarrow> acc_id a = next_id d \<and> acc_user a = u \<and> acc_starting a = m
        \<and> (if dv_hold_funding s
           then acc_status a = PROVISIONING \<and> acc_cash a = 0
             \<and> (case try_activate det_provisioner (next_id d)
                    (release_funding (ref_external (venue_ref (next_id d))) s', d') of
                  (Inr b, w) \<Rightarrow> acc_status b = ACTIVE \<and> acc_cash b = m | (Inl e, w) \<Rightarrow> False)
           else acc_status a = ACTIVE \<and> acc_cash a = m)"
proof -
  let ?i = "next_id d"
  have schema: "schema_ok d" using assms(1) by (simp add: accounts_inv_def transfers_inv_def)
  from create_succeeds[OF schema assms(3), where m = m] obtain a where
    c: "create_account u m d = Inr (a, d\<lparr>accounts := accounts d @ [a], next_id := ?i + 1\<rparr>)" and
    a: "acc_id a = ?i" "acc_status a = PROVISIONING" "acc_starting a = m" "acc_cash a = 0" "acc_user a = u" .
  let ?d1 = "d\<lparr>accounts := accounts d @ [a], next_id := ?i + 1\<rparr>"
  have s1: "schema_ok ?d1" by (rule schema_create_account[OF c schema])
  have g1: "get_account ?d1 ?i = Some a"
    using no_refs_fresh(1)[OF schema] a(1)
    by (auto simp: get_account_def find_append find_None_iff split: option.split dest: find_Some_in_set)
  have "has_account ?d1 ?i" using g1 by (simp add: has_account_get)
  from link_account_succeeds[OF s1 _ this, of "venue_ref ?i"] assms(4) no_refs_fresh(2)[OF schema] obtain b where
    l: "link_tx_account ?i (venue_ref ?i) ?d1 = Inr ((), ?d1\<lparr>broker_accounts := broker_accounts d @ [b]\<rparr>)"
    and b: "ba_account b = ?i" "ba_ref b = venue_ref ?i" by auto
  let ?d2 = "?d1\<lparr>broker_accounts := broker_accounts d @ [b]\<rparr>"
  have s2: "schema_ok ?d2"
    using l schema_link_broker_account[OF _ s1] by (auto simp: link_tx_account_def result_simps)
  have g2: "get_account ?d2 ?i = Some a" using g1 by (simp add: get_account_def)
  have r2: "get_broker_account ?d2 ?i = Some (venue_ref ?i)"
    using no_refs_fresh(2)[OF schema] b
    by (auto simp: get_broker_account_def find_append find_None_iff split: option.split dest: find_Some_in_set)
  from activation_succeeds[OF s2 g2 a(2,4)] assms(2) a(3) obtain d3 where
    act: "activate_tx ?i ?d2 = Inr (a\<lparr>acc_status := ACTIVE, acc_cash := m\<rparr>, d3)" by auto
  have funded: "try_activate det_provisioner ?i (v, ?d2) = (Inr (a\<lparr>acc_status := ACTIVE, acc_cash := m\<rparr>), (v, d3))"
    if "account_cash_of (ref_external (venue_ref ?i)) v = m" for v
    using that g2 r2 a act by (simp add: try_activate_def det_provisioner_def money_compare_def run_tx_def)
  have waits: "try_activate det_provisioner ?i (v, ?d2) = (Inr a, (v, ?d2))"
    if "account_cash_of (ref_external (venue_ref ?i)) v = 0" for v
    using that g2 r2 a assms(2) by (simp add: try_activate_def det_provisioner_def money_compare_def sgn_if)
  obtain rf s' where p: "det_provision a s = (rf, s')" by (rule prod.exhaust)
  then have rf: "rf = venue_ref ?i" by (auto simp: det_provision_def venue_ref_def a Let_def)
  have opened: "open_paper_account det_provisioner u m (s, d) = try_activate det_provisioner ?i (s', ?d2)"
  proof -
    have "pv_provision det_provisioner a s = (Inr (venue_ref ?i), s')" using p by (simp add: det_provisioner_def rf)
    with assms(2) c l show ?thesis by (simp add: open_paper_account_def run_tx_def a(1))
  qed
  obtain d2 where d2: "d2 = ?d2" by blast
  note opened = opened[folded d2] and funded = funded[folded d2] and waits = waits[folded d2]
  show ?thesis
  proof (cases "dv_hold_funding s")
    case True
    with p have "account_cash_of (ref_external (venue_ref ?i)) s' = 0"
      "account_cash_of (ref_external (venue_ref ?i)) (release_funding (ref_external (venue_ref ?i)) s') = m"
      by (auto simp: det_provision_def Let_def venue_ref_def a account_cash_of_def release_funding_def update_conv')
    with True a show ?thesis by (simp add: opened waits funded)
  next
    case False
    with p have "account_cash_of (ref_external (venue_ref ?i)) s' = m"
      by (auto simp: det_provision_def Let_def venue_ref_def a account_cash_of_def update_conv')
    with False a show ?thesis by (simp add: opened funded)
  qed
qed

theorem account_opens_witness:
  "case open_paper_account det_provisioner 8 50000 (desk_venue, demo_requested) of
     (Inl e, w) \<Rightarrow> False
   | (Inr a, w) \<Rightarrow> acc_user a = 8 \<and> acc_status a = ACTIVE \<and> acc_cash a = 50000"
proof -
  have "\<forall>a \<in> set (accounts demo_requested). acc_user a = 8 \<longrightarrow> \<not> open_account a"
    "\<forall>b \<in> set (broker_accounts demo_requested). ba_ref b \<noteq> venue_ref (next_id demo_requested)"
    by (simp_all add: demo_requested_def demo_defs venue_ref_def)
  from account_opens[OF demo_requested_inv _ this, of 50000 desk_venue] show ?thesis
    by (auto simp: desk_defs split: sum.splits prod.splits)
qed

end
