(* ===== verification/Reconciliation.thy ===== *)
theory Reconciliation
  imports Effects Execution
begin

text \<open>
  \<^verbatim>\<open>src/core/reconciliation/reconciliation.ts\<close>: the fallback for a lost event stream. For every open
  order of every active account the venue is asked what it knows, and its events are replayed through
  the path the stream uses. The counters the code mutates on the way, which survive an exception, are
  part of the world: the report, the venue and the database. Logging and the duration are not modelled.
\<close>

section \<open>The report\<close>

record recon_report =
  rc_accounts :: nat
  rc_orders :: nat
  rc_events :: nat
  rc_submit_failures :: nat
  rc_cancels :: nat
  rc_drift :: "uuid list"
  rc_errors :: "(uuid \<times> exn) list"

definition empty_report :: recon_report where
  "empty_report = \<lparr>rc_accounts = 0, rc_orders = 0, rc_events = 0, rc_submit_failures = 0, rc_cancels = 0,
     rc_drift = [], rc_errors = []\<rparr>"

definition pending_submission_grace_ms :: time where "pending_submission_grace_ms = 60000"
definition cancel_resend_after_ms :: time where "cancel_resend_after_ms = 60000"

definition pre_cancel_events :: "event_type set" where
  "pre_cancel_events = {ORDER_ACKNOWLEDGED, ORDER_ACCEPTED}"

type_synonym 'v recon_world = "recon_report \<times> 'v \<times> db"

definition tally :: "(recon_report \<Rightarrow> recon_report) \<Rightarrow> 'v recon_world \<Rightarrow> 'v recon_world" where
  "tally f w = (case w of (out, vd) \<Rightarrow> (f out, vd))"

definition write_db :: "(db \<Rightarrow> db) \<Rightarrow> 'v recon_world \<Rightarrow> 'v recon_world" where
  "write_db f w = (case w of (out, v, d) \<Rightarrow> (out, v, f d))"

definition db_of :: "'v recon_world \<Rightarrow> db" where
  "db_of w = snd (snd w)"

text \<open>A call of the venue, and the application of an event, inside the pass.\<close>

definition at_venue :: "('v \<times> db \<Rightarrow> 'a result \<times> ('v \<times> db)) \<Rightarrow> 'v recon_world \<Rightarrow> 'a result \<times> 'v recon_world" where
  "at_venue f w = (case w of (out, vd) \<Rightarrow> (case f vd of (r, vd1) \<Rightarrow> (r, (out, vd1))))"

definition apply_at :: "decimal_lib \<Rightarrow> broker_event \<Rightarrow> 'v recon_world \<Rightarrow> unit result \<times> 'v recon_world" where
  "apply_at D ev = at_venue (\<lambda>(v, d). (case on_broker_event D ev d of (r, d1) \<Rightarrow> (r, (v, d1))))"

section \<open>One order\<close>

definition submit_failed_event :: "broker_kind \<Rightarrow> string \<Rightarrow> uuid \<Rightarrow> time \<Rightarrow> broker_event" where
  "submit_failed_event kind account i now =
     \<lparr>ev_type = ORDER_SUBMIT_FAILED, ev_broker = kind, ev_account = account, ev_broker_order = None,
      ev_client_order = i, ev_external = Some (''recon-submit-failed-'' @ show_nat i), ev_execution = None,
      ev_fill_qty = None, ev_fill_price = None, ev_fee = None, ev_occurred = now, ev_reason = None\<rparr>"

definition resend_cancel_if_stuck ::
    "'v broker \<Rightarrow> time \<Rightarrow> uuid \<Rightarrow> string \<Rightarrow> 'v recon_world \<Rightarrow> unit result \<times> 'v recon_world" where
  "resend_cancel_if_stuck br now i account w =
     (case get_order (db_of w) i of
        None \<Rightarrow> (Inr (), w)
      | Some current \<Rightarrow>
          if ord_state current \<noteq> CANCEL_PENDING then (Inr (), w)
          else if now - ord_updated current \<le> cancel_resend_after_ms then (Inr (), w)
          else wbind (at_venue (br_cancel br account i) w)
                 (\<lambda>_ w1. (Inr (), tally (\<lambda>r. r\<lparr>rc_cancels := rc_cancels r + 1\<rparr>) w1)))"

definition replay_event ::
    "decimal_lib \<Rightarrow> bool \<Rightarrow> broker_event \<Rightarrow> 'v recon_world \<Rightarrow> unit result \<times> 'v recon_world" where
  "replay_event D cancelling ev w =
     (if cancelling \<and> ev_type ev \<in> pre_cancel_events then (Inr (), w)
      else wbind (apply_at D ev w)
             (\<lambda>_ w1. (Inr (), tally (\<lambda>r. r\<lparr>rc_events := rc_events r + 1\<rparr>) w1)))"

definition reconcile_order ::
    "decimal_lib \<Rightarrow> 'v broker \<Rightarrow> time \<Rightarrow> string \<Rightarrow> order \<Rightarrow> 'v recon_world \<Rightarrow> unit result \<times> 'v recon_world" where
  "reconcile_order D br now account ord w =
     wbind (at_venue (br_get_order br account (ord_id ord))
              (tally (\<lambda>r. r\<lparr>rc_orders := rc_orders r + 1\<rparr>) w)) (\<lambda>snapshot w1.
       case snapshot of
         None \<Rightarrow>
           if ord_state ord = PENDING_SUBMISSION \<and> now - ord_created ord > pending_submission_grace_ms then
             wbind (apply_at D (submit_failed_event (br_kind br) account (ord_id ord) now) w1)
               (\<lambda>_ w2. (Inr (), tally (\<lambda>r. r\<lparr>rc_submit_failures := rc_submit_failures r + 1\<rparr>) w2))
           else (Inr (), w1)
       | Some sn \<Rightarrow>
           let cancelling = (ord_state ord = CANCEL_PENDING)
           in wbind (each (replay_event D cancelling) (sn_events sn) w1) (\<lambda>_ w2.
                if cancelling then resend_cancel_if_stuck br now (ord_id ord) account w2 else (Inr (), w2)))"

section \<open>One account\<close>

definition drift_tx :: "uuid \<Rightarrow> time \<Rightarrow> db \<Rightarrow> (recon_status \<times> db) result" where
  "drift_tx i now d =
     ebind (reconcile i d) (\<lambda>rec.
       let st = (if rr_in_balance rec then HEALTHY else DRIFT_DETECTED)
       in Inr (st, set_recon_status i st now d))"

definition check_drift :: "uuid \<Rightarrow> time \<Rightarrow> 'v recon_world \<Rightarrow> unit result \<times> 'v recon_world" where
  "check_drift i now w =
     wbind (at_venue (\<lambda>(v, d). (case run_tx (drift_tx i now) d of (r, d1) \<Rightarrow> (r, (v, d1)))) w)
       (\<lambda>st w1. (Inr (), if st = DRIFT_DETECTED
                         then tally (\<lambda>r. r\<lparr>rc_drift := rc_drift r @ [i]\<rparr>) w1 else w1))"

definition order_page :: nat where "order_page = 100"

definition reconcile_account ::
    "decimal_lib \<Rightarrow> 'v broker \<Rightarrow> time \<Rightarrow> uuid \<Rightarrow> 'v recon_world \<Rightarrow> unit result \<times> 'v recon_world" where
  "reconcile_account D br now i w =
     (case get_broker_account (db_of w) i of
        None \<Rightarrow> (Inr (), w)
      | Some ref \<Rightarrow>
          let w1 = write_db (set_recon_status i RECONCILING now) w
          in wbind (each (reconcile_order D br now (ref_external ref)) (list_orders (db_of w1) i True order_page) w1)
               (\<lambda>_ w2. check_drift i now w2))"

section \<open>The pass\<close>

text \<open>\<open>reconcileAccountNow\<close>, and the body of the loop of \<open>reconcileAll\<close>: an exception is reported.\<close>

definition guarded_account ::
    "decimal_lib \<Rightarrow> 'v broker \<Rightarrow> time \<Rightarrow> uuid \<Rightarrow> 'v recon_world \<Rightarrow> 'v recon_world" where
  "guarded_account D br now i w =
     (case reconcile_account D br now i w of
        (Inr _, w1) \<Rightarrow> tally (\<lambda>r. r\<lparr>rc_accounts := rc_accounts r + 1\<rparr>) w1
      | (Inl e, w1) \<Rightarrow>
          write_db (set_recon_status i ERROR now) (tally (\<lambda>r. r\<lparr>rc_errors := rc_errors r @ [(i, e)]\<rparr>) w1))"

definition reconcile_account_now ::
    "decimal_lib \<Rightarrow> 'v broker \<Rightarrow> time \<Rightarrow> uuid \<Rightarrow> 'v \<times> db \<Rightarrow> 'v recon_world" where
  "reconcile_account_now D br now i w = guarded_account D br now i (empty_report, w)"

definition reconcile_all :: "decimal_lib \<Rightarrow> 'v broker \<Rightarrow> time \<Rightarrow> 'v \<times> db \<Rightarrow> 'v recon_world" where
  "reconcile_all D br now w =
     fold (guarded_account D br now) (list_active_account_ids (snd w)) (empty_report, w)"

end
