(* ===== verification/Reconciliation_Correct.thy ===== *)
theory Reconciliation_Correct
  imports Reconciliation Det_Broker_Correct Event_Delivery
begin

text \<open>
  The correctness of \<^verbatim>\<open>src/core/reconciliation/reconciliation.ts\<close>: whatever a venue that honours the
  broker port does, a pass keeps the invariants of trading, ends with a verdict on every account, and
  imports every event the venue reports; an event the order state machine refuses stops its account.
\<close>

section \<open>What a pass keeps\<close>

text \<open>
  A predicate on the report and the database that survives a delivery, the counters and the status of
  the account under reconciliation survives the reconciliation of that account.
\<close>

locale recon_frame = venue_port br D for br :: "'v broker" and D +
  fixes P :: "recon_report \<Rightarrow> db \<Rightarrow> bool" and acct :: uuid
  assumes delivered: "P out d \<Longrightarrow> P out (deliver D ev d)"
    and status_set: "P out d \<Longrightarrow> P out (set_recon_status acct st t d)"
    and counted: "P out d \<Longrightarrow> P (out\<lparr>rc_orders := n\<rparr>) d" "P out d \<Longrightarrow> P (out\<lparr>rc_events := n\<rparr>) d"
      "P out d \<Longrightarrow> P (out\<lparr>rc_submit_failures := n\<rparr>) d" "P out d \<Longrightarrow> P (out\<lparr>rc_cancels := n\<rparr>) d"
    and drifted: "P out d \<Longrightarrow> reconcile acct d0 = Inr r \<Longrightarrow> \<not> rr_in_balance r
      \<Longrightarrow> d = set_recon_status acct DRIFT_DETECTED t d0 \<Longrightarrow> P out d0
      \<Longrightarrow> P (out\<lparr>rc_drift := rc_drift out @ [acct]\<rparr>) d"
begin

abbreviation holds :: "'v recon_world \<Rightarrow> bool" where
  "holds w \<equiv> P (fst w) (db_of w)"

lemmas bound = wbind_keeps[of holds]

lemma history_keeps: "P out d \<Longrightarrow> P out (fold (deliver D) es d)"
  by (induction es arbitrary: d) (simp_all add: delivered)

lemma cancel_at: "holds w \<Longrightarrow> holds (snd (at_venue (br_cancel br a i) w))"
proof (cases w)
  case (fields out v d)
  assume w: "holds w"
  obtain r v1 d1 where c: "br_cancel br a i (v, d) = (r, (v1, d1))" by (rule prod3_exhaust)
  from cancel_delivers[OF c] w fields c history_keeps show ?thesis
    by (auto simp: at_venue_def db_of_def)
qed

lemma lookup_at: "holds w \<Longrightarrow> holds (snd (at_venue (br_get_order br a i) w))"
proof (cases w)
  case (fields out v d)
  assume w: "holds w"
  obtain r v1 d1 where c: "br_get_order br a i (v, d) = (r, (v1, d1))" by (rule prod3_exhaust)
  from lookup_reads[OF c] w fields c show ?thesis by (auto simp: at_venue_def db_of_def)
qed

lemma apply_keeps: "holds w \<Longrightarrow> holds (snd (apply_at D ev w))"
proof (cases w)
  case (fields out v d)
  assume "holds w"
  with fields delivered[of out d ev] have "P out (snd (on_broker_event D ev d))" by (simp add: db_of_def deliver_def)
  with fields show ?thesis by (simp add: apply_at_def at_venue_def db_of_def case_prod_beta)
qed

lemma tally_keeps: "P (f (fst w)) (db_of w) \<Longrightarrow> holds (tally f w)"
  by (cases w) (simp add: tally_def db_of_def)

lemma resend_keeps: "holds w \<Longrightarrow> holds (snd (resend_cancel_if_stuck br now i a w))"
  by (auto simp: resend_cancel_if_stuck_def intro!: bound cancel_at tally_keeps counted split: option.split)

lemma replay_keeps: "holds w \<Longrightarrow> holds (snd (replay_event D c ev w))"
  by (auto simp: replay_event_def intro!: bound apply_keeps tally_keeps counted)

lemma order_keeps:
  assumes "holds w"
  shows "holds (snd (reconcile_order D br now a ord w))"
proof -
  have "holds (tally (\<lambda>r. r\<lparr>rc_orders := rc_orders r + 1\<rparr>) w)" using assms by (intro tally_keeps counted)
  from lookup_at[OF this] show ?thesis
    by (auto simp: reconcile_order_def Let_def intro!: bound apply_keeps tally_keeps counted resend_keeps
        each_keeps[of holds] replay_keeps split: option.split)
qed

lemma drift_keeps: "holds w \<Longrightarrow> holds (snd (check_drift acct now w))"
proof (cases w)
  case (fields out v d)
  assume "holds w"
  with fields have P: "P out d" by (simp add: db_of_def)
  show ?thesis
  proof (cases "reconcile acct d")
    case (Inl e)
    with P fields show ?thesis
      by (simp add: check_drift_def at_venue_def drift_tx_def run_tx_def db_of_def)
  next
    case (Inr r)
    with P fields drifted[OF status_set[OF P] Inr] status_set[OF P] show ?thesis
      by (simp add: check_drift_def at_venue_def drift_tx_def run_tx_def db_of_def tally_def)
  qed
qed

lemma account_keeps: "holds w \<Longrightarrow> holds (snd (reconcile_account D br now acct w))"
proof (cases "get_broker_account (db_of w) acct")
  case (Some ref)
  assume "holds w"
  then have "holds (write_db (set_recon_status acct RECONCILING now) w)"
    by (cases w) (simp add: write_db_def db_of_def status_set)
  then show ?thesis
    by (auto simp: reconcile_account_def Some Let_def intro!: bound each_keeps[of holds] order_keeps drift_keeps)
qed (simp add: reconcile_account_def)

end

section \<open>Every account gets a verdict\<close>

definition links_except :: "uuid \<Rightarrow> db \<Rightarrow> broker_account list" where
  "links_except i d = filter (\<lambda>b. ba_account b \<noteq> i) (broker_accounts d)"

text \<open>What the reconciliation of one account leaves as it was.\<close>

definition verdict_frame ::
    "decimal_lib \<Rightarrow> uuid \<Rightarrow> recon_report \<Rightarrow> db \<Rightarrow> recon_report \<Rightarrow> db \<Rightarrow> bool" where
  "verdict_frame D i out0 d0 out d \<longleftrightarrow>
     (decimal_arith D \<and> trading_ok d0 \<longrightarrow> trading_ok d \<and> rc_drift out = rc_drift out0)
   \<and> rc_accounts out = rc_accounts out0 \<and> rc_errors out = rc_errors out0
   \<and> links_except i d = links_except i d0 \<and> map ba_account (broker_accounts d) = map ba_account (broker_accounts d0)
   \<and> map acc_id (accounts d) = map acc_id (accounts d0)"

lemma event_tx_links:
  assumes "event_tx D ev d = Inr (u, d')"
  shows "broker_accounts d' = broker_accounts d"
  using assms
proof (cases rule: event_tx_cases)
  case (moved ord r)
  from transition_frame[OF moved(3) get_order_self[OF moved(1)]] show ?thesis by simp
next
  case (filled ord r d1)
  from transition_frame[OF filled(3) get_order_self[OF filled(1)]] fill_effects_orders[OF filled(4)]
  show ?thesis by simp
qed auto

lemma deliver_links: "broker_accounts (deliver D ev d) = broker_accounts d"
  by (cases rule: deliver_cases[of D ev d]) (auto dest: event_tx_links)

lemma deliver_accounts: "map acc_id (accounts (deliver D ev d)) = map acc_id (accounts d)"
  by (cases rule: deliver_cases[of D ev d]) (auto dest: event_tx_grows)

lemma status_trading: "trading_ok d \<Longrightarrow> trading_ok (set_recon_status i st t d)"
  unfolding trading_ok_def
  by (auto intro: schema_set_recon_status)
     (simp_all add: set_recon_status_def in_balance_def sum_ledger_def orders_wf_def fills_match_def
        fills_total_def cents_basis_def)

lemma balanced_reconcile: "in_balance d \<Longrightarrow> reconcile i d = Inr r \<Longrightarrow> rr_in_balance r"
  by (auto simp: reconcile_def reconcile_via_def get_cached_cash_def result_simps Let_def in_balance_def
      list_all_iff dest!: get_account_Some)

lemma other_rows:
  "(\<And>b. key (f b) = key b) \<Longrightarrow> filter (\<lambda>b. key b \<noteq> k) (modify (\<lambda>b. key b = k) f rs) = filter (\<lambda>b. key b \<noteq> k) rs"
  by (induction rs) auto

lemma verdict_recon_frame:
  assumes "venue_port br D"
  shows "recon_frame br D (verdict_frame D i out0 d0) i"
proof -
  have links: "links_except i (set_recon_status i st t d) = links_except i d"
    "map ba_account (broker_accounts (set_recon_status i st t d)) = map ba_account (broker_accounts d)"
    "accounts (set_recon_status i st t d) = accounts d" for st t d
    by (simp_all add: set_recon_status_def links_except_def other_rows map_modify)
  show ?thesis
  proof (intro recon_frame.intro recon_frame_axioms.intro assms)
  qed (auto simp: verdict_frame_def links deliver_links deliver_accounts links_except_def[of i "deliver D _ _"]
      links_except_def[symmetric] status_trading intro: trading_deliver
      dest: balanced_reconcile[OF trading_okD(2)])
qed

text \<open>The status a reconciliation that returned has written.\<close>

lemma status_rows:
  assumes "b \<in> set (broker_accounts (set_recon_status i st t d))" "ba_account b = i"
  shows "ba_recon_status b = st"
proof -
  let ?f = "\<lambda>b. b\<lparr>ba_recon_status := st, ba_reconciled := Some t\<rparr>"
  from assms(1) obtain x where "b = (if ba_account x = i then ?f x else x)"
    unfolding set_recon_status_def by (auto elim: in_set_modifyE)
  with assms(2) show ?thesis by (cases "ba_account x = i") simp_all
qed

lemma status_accounts [simp]: "accounts (set_recon_status i st t d) = accounts d"
  by (simp add: set_recon_status_def)

lemma reconcile_status [simp]: "reconcile j (set_recon_status i st t d) = reconcile j d"
  by (simp add: reconcile_def reconcile_via_def set_recon_status_def get_cached_cash_def get_account_def sum_ledger_def)

lemma drift_verdict:
  assumes "check_drift i now w = (Inr u, w')" "b \<in> set (broker_accounts (db_of w'))" "ba_account b = i"
  shows "\<exists>r. reconcile i (db_of w') = Inr r
    \<and> ba_recon_status b = (if rr_in_balance r then HEALTHY else DRIFT_DETECTED)"
proof (cases w)
  case (fields out v d)
  with assms(1) obtain r where r: "reconcile i d = Inr r"
    "db_of w' = set_recon_status i (if rr_in_balance r then HEALTHY else DRIFT_DETECTED) now d"
    by (cases "reconcile i d")
       (auto simp: check_drift_def at_venue_def drift_tx_def run_tx_def db_of_def tally_def Let_def split: if_splits)
  with assms(2,3) show ?thesis by (auto dest: status_rows)
qed

text \<open>With the deterministic venue, whose listener is the event service, the frame holds of every pass.\<close>

interpretation verdicts: recon_frame "det_broker D (service_at D en)" D "verdict_frame D i out0 d0" i
  for D en i out0 d0
  by (rule verdict_recon_frame[OF det.venue_port_axioms])

lemma verdict_frame_refl: "verdict_frame D i out d out d"
  by (simp add: verdict_frame_def)

lemma account_frame:
  assumes "venue_port br D"
  shows "verdict_frame D i (fst w) (db_of w) (fst (snd (reconcile_account D br now i w)))
    (db_of (snd (reconcile_account D br now i w)))"
  by (rule recon_frame.account_keeps[OF verdict_recon_frame[OF assms]]) (rule verdict_frame_refl)

lemma account_verdict:
  assumes "venue_port br D" "decimal_arith D" "trading_ok (db_of w)"
    "reconcile_account D br now i w = (Inr u, w')" "b \<in> set (broker_accounts (db_of w'))" "ba_account b = i"
  shows "ba_recon_status b = HEALTHY"
proof (cases "get_broker_account (db_of w) i")
  case None
  then have "\<forall>b \<in> set (broker_accounts (db_of w)). ba_account b \<noteq> i"
    by (auto simp: get_broker_account_def find_None_iff)
  with assms(4-6) None show ?thesis by (auto simp: reconcile_account_def)
next
  case (Some ref)
  with assms(4) obtain w2 where "check_drift i now w2 = (Inr u, w')"
    by (auto simp: reconcile_account_def Let_def wbind_eq_Inr)
  from drift_verdict[OF this assms(5,6)] obtain r where
    r: "reconcile i (db_of w') = Inr r" "ba_recon_status b = (if rr_in_balance r then HEALTHY else DRIFT_DETECTED)"
    by blast
  have "trading_ok (db_of w')"
    using account_frame[OF assms(1), of i w now] assms(2-4) by (simp add: verdict_frame_def)
  with balanced_reconcile[OF trading_okD(2)] r show ?thesis by auto
qed

text \<open>One turn of the pass.\<close>

definition turned :: "uuid list \<Rightarrow> 'v recon_world \<Rightarrow> 'v recon_world \<Rightarrow> bool" where
  "turned is w w' \<longleftrightarrow> trading_ok (db_of w') \<and> rc_drift (fst w') = rc_drift (fst w)
   \<and> map acc_id (accounts (db_of w')) = map acc_id (accounts (db_of w))
   \<and> (\<exists>es. rc_errors (fst w') = rc_errors (fst w) @ es
        \<and> rc_accounts (fst w') + length es = rc_accounts (fst w) + length is
        \<and> fst ` set es \<subseteq> set is
        \<and> (\<forall>b \<in> set (broker_accounts (db_of w')).
             if ba_account b \<in> set is
             then ba_recon_status b = (if ba_account b \<in> fst ` set es then ERROR else HEALTHY)
             else b \<in> set (broker_accounts (db_of w))))"

lemma links_except_in: "b \<in> set (broker_accounts d) \<Longrightarrow> ba_account b \<noteq> i \<Longrightarrow> links_except i d = links_except i d0
    \<Longrightarrow> b \<in> set (broker_accounts d0)"
proof -
  assume b: "b \<in> set (broker_accounts d)" "ba_account b \<noteq> i" and same: "links_except i d = links_except i d0"
  from b have "b \<in> set (links_except i d)" by (simp add: links_except_def)
  then have "b \<in> set (links_except i d0)" by (simp only: same)
  then show ?thesis by (simp add: links_except_def)
qed

lemma guarded_turn:
  assumes "venue_port br D" "decimal_arith D" "trading_ok (db_of w)"
  shows "turned [i] w (guarded_account D br now i w)"
proof -
  obtain r w1 where run: "reconcile_account D br now i w = (r, w1)" by (rule prod.exhaust)
  with account_frame[OF assms(1), of i w now] assms(2,3)
  have f: "trading_ok (db_of w1)" "rc_drift (fst w1) = rc_drift (fst w)" "rc_accounts (fst w1) = rc_accounts (fst w)"
    "rc_errors (fst w1) = rc_errors (fst w)" "links_except i (db_of w1) = links_except i (db_of w)"
    "map acc_id (accounts (db_of w1)) = map acc_id (accounts (db_of w))"
    by (simp_all add: verdict_frame_def)
  show ?thesis
  proof (cases r)
    case (Inr u)
    note verdict = account_verdict[OF assms run[unfolded Inr]]
    from run Inr have g: "guarded_account D br now i w = tally (\<lambda>r. r\<lparr>rc_accounts := rc_accounts r + 1\<rparr>) w1"
      by (simp add: guarded_account_def)
    have "db_of (tally f w1) = db_of w1" "fst (tally f w1) = f (fst w1)" for f
      by (cases w1; simp add: tally_def db_of_def)+
    with f verdict links_except_in[OF _ _ f(5)] show ?thesis
      by (auto simp: turned_def g intro!: exI[of _ "[]"])
  next
    case (Inl e)
    let ?w2 = "write_db (set_recon_status i ERROR now) (tally (\<lambda>r. r\<lparr>rc_errors := rc_errors r @ [(i, e)]\<rparr>) w1)"
    from run Inl have g: "guarded_account D br now i w = ?w2" by (simp add: guarded_account_def)
    have w2: "db_of ?w2 = set_recon_status i ERROR now (db_of w1)"
      "fst ?w2 = (fst w1)\<lparr>rc_errors := rc_errors (fst w1) @ [(i, e)]\<rparr>"
      by (cases w1; simp add: tally_def db_of_def write_db_def)+
    have l: "links_except i (db_of ?w2) = links_except i (db_of w)"
      unfolding w2 f(5)[symmetric] by (simp add: set_recon_status_def links_except_def other_rows)
    show ?thesis
      unfolding turned_def g
    proof (intro conjI exI[of _ "[(i, e)]"] ballI)
      fix b assume b: "b \<in> set (broker_accounts (db_of ?w2))"
      show "if ba_account b \<in> set [i] then ba_recon_status b = (if ba_account b \<in> fst ` set [(i, e)] then ERROR else HEALTHY)
          else b \<in> set (broker_accounts (db_of w))"
        using status_rows[OF b[unfolded w2]] links_except_in[OF b _ l] by auto
    qed (use f in \<open>simp_all add: w2 status_trading\<close>)
  qed
qed

lemma turned_Cons:
  assumes "turned [i] w w1" "turned is w1 w2" "i \<notin> set is"
  shows "turned (i # is) w w2"
proof -
  from assms(1) obtain es where e: "rc_errors (fst w1) = rc_errors (fst w) @ es" "fst ` set es \<subseteq> {i}"
    "rc_accounts (fst w1) + length es = rc_accounts (fst w) + 1"
    "\<forall>b \<in> set (broker_accounts (db_of w1)). if ba_account b = i
       then ba_recon_status b = (if ba_account b \<in> fst ` set es then ERROR else HEALTHY)
       else b \<in> set (broker_accounts (db_of w))"
    by (auto simp: turned_def)
  from assms(2) obtain fs where f: "rc_errors (fst w2) = rc_errors (fst w1) @ fs" "fst ` set fs \<subseteq> set is"
    "rc_accounts (fst w2) + length fs = rc_accounts (fst w1) + length is"
    "\<forall>b \<in> set (broker_accounts (db_of w2)). if ba_account b \<in> set is
       then ba_recon_status b = (if ba_account b \<in> fst ` set fs then ERROR else HEALTHY)
       else b \<in> set (broker_accounts (db_of w1))"
    by (auto simp: turned_def)
  have apart: "i \<notin> fst ` set fs" "\<And>j. j \<in> set is \<Longrightarrow> j \<notin> fst ` set es" using e(2) f(2) assms(3) by auto
  show ?thesis
    unfolding turned_def
  proof (intro conjI exI[of _ "es @ fs"] ballI)
    fix b assume b: "b \<in> set (broker_accounts (db_of w2))"
    show "if ba_account b \<in> set (i # is)
      then ba_recon_status b = (if ba_account b \<in> fst ` set (es @ fs) then ERROR else HEALTHY)
      else b \<in> set (broker_accounts (db_of w))"
    proof (cases "ba_account b \<in> set is")
      case True
      with f(4) b have "ba_recon_status b = (if ba_account b \<in> fst ` set fs then ERROR else HEALTHY)" by simp
      with True apart(2)[OF True] show ?thesis by (simp add: image_Un)
    next
      case False
      with f(4) b have b1: "b \<in> set (broker_accounts (db_of w1))" by simp
      have "ba_account b \<notin> fst ` set fs" using False f(2) by blast
      with e(4) b1 False show ?thesis by (cases "ba_account b = i") (simp_all add: image_Un)
    qed
  qed (use assms e f in \<open>simp_all add: turned_def, blast\<close>)
qed

lemma pass_turn:
  "venue_port br D \<Longrightarrow> decimal_arith D \<Longrightarrow> trading_ok (db_of w) \<Longrightarrow> distinct is
    \<Longrightarrow> turned is w (fold (guarded_account D br now) is w)"
proof (induction "is" arbitrary: w)
  case Nil
  then show ?case by (simp add: turned_def)
next
  case (Cons i "is")
  note first = guarded_turn[OF Cons.prems(1-3), of i now]
  then have "trading_ok (db_of (guarded_account D br now i w))" by (simp add: turned_def)
  from turned_Cons[OF first Cons.IH[OF Cons.prems(1,2) this]] Cons.prems(4) show ?case by simp
qed

lemma active_ids_distinct: "schema_ok d \<Longrightarrow> distinct (list_active_account_ids d)"
  unfolding list_active_account_ids_def schema_ok_def accounts_ok_def
  by (intro distinct_map_filter) blast

section \<open>Properties\<close>

text \<open>
  C9: A reconciliation pass judges every active account and harms none. Against any venue that honours
  the broker port, and from any database in order, the pass keeps the invariants of trading; each active
  account is either counted as checked or reported with its error, one account's failure not stopping
  the others; its broker link ends as \<open>HEALTHY\<close> or \<open>ERROR\<close> accordingly, never left \<open>RECONCILING\<close>; no
  drift of cash against the ledger is found; and the links of other accounts stay as they were.
\<close>

theorem pass_gives_verdicts:
  assumes "venue_port br D" "decimal_arith D" "trading_ok d"
    "reconcile_all D br now (v, d) = (out, (v', d'))"
  shows "trading_ok d'
    \<and> rc_accounts out + length (rc_errors out) = length (list_active_account_ids d)
    \<and> fst ` set (rc_errors out) \<subseteq> set (list_active_account_ids d) \<and> rc_drift out = []
    \<and> list_all (\<lambda>b. if ba_account b \<in> set (list_active_account_ids d)
                    then ba_recon_status b = (if ba_account b \<in> fst ` set (rc_errors out) then ERROR else HEALTHY)
                    else b \<in> set (broker_accounts d)) (broker_accounts d')"
proof -
  let ?w = "(empty_report, v, d)"
  have "trading_ok (db_of ?w)" using assms(3) by (simp add: db_of_def)
  from pass_turn[OF assms(1,2) this active_ids_distinct[OF trading_okD(1)[OF assms(3)]], of now] assms(4)
  have "turned (list_active_account_ids d) ?w (out, (v', d'))" by (simp add: reconcile_all_def)
  then show ?thesis by (auto simp: turned_def db_of_def empty_report_def list_all_iff)
qed

lemma recorded_status: "event_recorded e (set_recon_status i st t d) = event_recorded e d"
  by (simp add: set_recon_status_def event_recorded_def event_seen_def event_exists_def execution_exists_def
      split: option.split)

lemma each_recorded:
  assumes "each (replay_event D c) es w = (Inr u, w')"
  shows "\<forall>e \<in> set es. identified e \<and> \<not> (c \<and> ev_type e \<in> pre_cancel_events) \<longrightarrow> event_recorded e (db_of w')"
  using assms
proof (induction es arbitrary: w)
  case (Cons e es)
  obtain out v d where w: "w = (out, v, d)" by (rule prod3_exhaust)
  from Cons.prems obtain w1 where one: "replay_event D c e w = (Inr (), w1)" and rest: "each (replay_event D c) es w1 = (Inr u, w')"
    by (auto simp: wbind_eq_Inr)
  have kept: "event_recorded e (db_of w')" if "event_recorded e (db_of w1)"
  proof -
    have "event_recorded e (db_of (snd (each (replay_event D c) es w1)))"
    proof (rule each_keeps[of "\<lambda>w. event_recorded e (db_of w)", OF that])
      fix f and w :: "'a recon_world"
      assume r: "event_recorded e (db_of w)"
      obtain out v d where w: "w = (out, v, d)" by (rule prod3_exhaust)
      show "event_recorded e (db_of (snd (replay_event D c f w)))"
        using r event_recorded_kept[of e d D f]
        by (cases "on_broker_event D f d"; cases "fst (on_broker_event D f d)")
           (auto simp: replay_event_def apply_at_def at_venue_def db_of_def w tally_def deliver_def)
    qed
    with rest show ?thesis by simp
  qed
  have "event_recorded e (db_of w1)" if "identified e" "\<not> (c \<and> ev_type e \<in> pre_cancel_events)"
  proof -
    from one that(2) obtain d1 where d1: "on_broker_event D e d = (Inr (), d1)" "db_of w1 = d1"
      by (auto simp: replay_event_def apply_at_def at_venue_def w wbind_eq_Inr db_of_def tally_def split: prod.splits)
    then have "event_tx D e d = Inr ((), d1)" by (auto simp: on_broker_event_def run_tx_def split: sum.splits)
    from committed_recorded[OF this that(1)] d1(2) show ?thesis by simp
  qed
  with kept Cons.IH[OF rest] show ?case by auto
qed simp

text \<open>
  Reconciliation imports what the stream missed, exactly once. When the venue returns an order and
  its reconciliation returns, every identified event of the snapshot is recorded (fills by their
  execution, the others by their external id), except the acceptance of an order being cancelled; and at
  any later time, after any other deliveries, replaying any of those events again changes nothing.
\<close>

theorem order_pass_imports:
  assumes "venue_port br D" "reconcile_order D br now a ord (out, (v, d)) = (Inr u, (out', (v', d')))"
    "fst (br_get_order br a (ord_id ord) (v, d)) = Inr (Some sn)" "e \<in> set (sn_events sn)" "identified e"
    "\<not> (ord_state ord = CANCEL_PENDING \<and> ev_type e \<in> pre_cancel_events)"
  shows "event_recorded e d' \<and> deliver D e (fold (deliver D) es d') = fold (deliver D) es d'"
proof -
  let ?c = "ord_state ord = CANCEL_PENDING"
  obtain v1 d1 where look: "br_get_order br a (ord_id ord) (v, d) = (Inr (Some sn), (v1, d1))"
    using assms(3) by (metis prod.collapse)
  from assms(2) look obtain w2 where
    replay: "each (replay_event D ?c) (sn_events sn) (tally (\<lambda>r. r\<lparr>rc_orders := rc_orders r + 1\<rparr>) (out, v1, d1)) = (Inr (), w2)"
    and last: "(if ?c then resend_cancel_if_stuck br now (ord_id ord) a w2 else (Inr (), w2)) = (Inr u, (out', (v', d')))"
    by (auto simp: reconcile_order_def at_venue_def tally_def Let_def wbind_eq_Inr)
  from each_recorded[OF replay] assms(4-6) have rec: "event_recorded e (db_of w2)" by blast
  have kept: "event_recorded e (fold (deliver D) fs x)" if "event_recorded e x" for fs x
    using that by (rule delivery.recorded_fold)
  have "recon_frame br D (\<lambda>out d. event_recorded e d) 0"
    by (intro recon_frame.intro recon_frame_axioms.intro assms(1))
       (simp_all add: event_recorded_kept recorded_status)
  from recon_frame.resend_keeps[OF this rec, of now "ord_id ord" a] last rec have "event_recorded e d'"
    by (cases ?c) (auto simp: db_of_def)
  with delivery.recorded_fold[of e d' D es] event_recorded_noop show ?thesis by blast
qed

lemma late_acceptance_refused:
  assumes "schema_ok d" "get_order d (ev_client_order e) = Some ord" "ord_state ord = PARTIALLY_FILLED"
    "ev_type e = ORDER_ACKNOWLEDGED \<or> ev_type e = ORDER_ACCEPTED" "\<not> event_seen (transition_of e) d"
  shows "on_broker_event D e d = (Inl (AppError DOMAIN_RULE (Some INVALID_STATE_TRANSITION)), d)"
proof -
  from lock_succeeds[OF assms(1,2)] obtain x where "lock_account d (ord_account ord) = Inr x" .
  with assms show ?thesis
    by (auto simp: on_broker_event_def run_tx_def event_tx_def lock_order_def apply_event_def apply_transition_def
        plan_event_def plan_transitions_def is_fill_event_def invalid_transition_def app_error_def
        is_terminal_def terminal_states_def)
qed


section \<open>Witnesses\<close>

text \<open>A venue that keeps one fill of the running example's order.\<close>

definition recalling_venue :: "unit broker" where
  "recalling_venue = \<lparr>br_kind = DETERMINISTIC,
     br_submit = \<lambda>rq w. (Inl (JsError ''closed''), w),
     br_cancel = \<lambda>a i w. (Inr \<lparr>cr_accepted = False, cr_reason = None\<rparr>, w),
     br_get_order = \<lambda>a i w. (Inr (Some \<lparr>sn_client_order = 3, sn_broker_order = ''b1'', sn_status = ''filled'',
        sn_filled = 1, sn_events = [demo_event]\<rparr>), w)\<rparr>"

interpretation recalling: venue_port recalling_venue D for D
  by unfold_locales (auto simp: recalling_venue_def intro: exI[of _ "[]"])

theorem order_pass_imports_witness:
  "reconcile_order js_decimal recalling_venue 9 ''ext'' demo_order (empty_report, ((), demo_placed))
     = (Inr (), (empty_report\<lparr>rc_orders := 1, rc_events := 1\<rparr>, ((), demo_settled)))
   \<and> event_recorded demo_event demo_settled
   \<and> deliver js_decimal demo_event demo_settled = demo_settled"
proof -
  have run: "reconcile_order js_decimal recalling_venue 9 ''ext'' demo_order (empty_report, ((), demo_placed))
      = (Inr (), (empty_report\<lparr>rc_orders := 1, rc_events := 1\<rparr>, ((), demo_settled)))"
    by (simp add: reconcile_order_def at_venue_def tally_def recalling_venue_def replay_event_def apply_at_def
        demo_delivery empty_report_def)
  have "fst (br_get_order recalling_venue ''ext'' (ord_id demo_order) ((), demo_placed))
      = Inr (Some \<lparr>sn_client_order = 3, sn_broker_order = ''b1'', sn_status = ''filled'', sn_filled = 1,
          sn_events = [demo_event]\<rparr>)" by (simp add: recalling_venue_def)
  from order_pass_imports[OF recalling.venue_port_axioms run this _ demo_event_fresh(2), of "[]"] run
  show ?thesis by simp
qed

theorem pass_gives_verdicts_witness:
  "case reconcile_all js_decimal (det_broker js_decimal (service_at js_decimal (desk []))) 9 (desk_venue, demo_placed) of
     (out, (v', d')) \<Rightarrow> rc_accounts out + length (rc_errors out) = 1 \<and> rc_drift out = [] \<and> trading_ok d'"
proof -
  have "list_active_account_ids demo_placed = [0]"
    by (simp add: list_active_account_ids_def demo_placed_def demo_defs)
  with pass_gives_verdicts[OF det.venue_port_axioms js.decimal_arith_axioms demo_trading_ok] show ?thesis
    by (auto split: prod.splits)
qed

definition demo_late_ack :: broker_event where
  "demo_late_ack = demo_event\<lparr>ev_type := ORDER_ACKNOWLEDGED, ev_external := Some ''late'', ev_execution := None,
     ev_fill_qty := None, ev_fill_price := None\<rparr>"

definition late_venue :: "unit broker" where
  "late_venue = recalling_venue\<lparr>br_get_order := \<lambda>a i w. (Inr (Some \<lparr>sn_client_order = 3, sn_broker_order = ''b1'',
     sn_status = ''filled'', sn_filled = 1, sn_events = [demo_late_ack]\<rparr>), w)\<rparr>"


end
