(* ===== verification/System.thy ===== *)
theory System
  imports Accounts_Correct Reconciliation_Correct
begin

text \<open>
  The services together on one database. Every transaction of the orders, execution, reconciliation,
  cash transfer and account services is a step of one relation; trading and money movement keep each
  other's invariants, and the cash of an account is explained by its opening deposit, its settled
  transfers and its fills.
\<close>

section \<open>The transactions of the program\<close>

inductive system_step :: "decimal_lib \<Rightarrow> place_config \<Rightarrow> transfers_config \<Rightarrow> db \<Rightarrow> db \<Rightarrow> bool"
  for D pcfg tcfg where
  placed: "place_tx D pcfg inp d = Inr (r, d') \<Longrightarrow> prices_positive inp \<Longrightarrow> system_step D pcfg tcfg d d'"
| cancel_requested: "request_cancel D i t d = Inr (r, d') \<Longrightarrow> system_step D pcfg tcfg d d'"
| delivered: "event_tx D ev d = Inr (u, d') \<Longrightarrow> system_step D pcfg tcfg d d'"
| submission_failed: "submit_failed_tx D k t i d = Inr (u, d') \<Longrightarrow> system_step D pcfg tcfg d d'"
| verdict: "d' = set_recon_status i st t d \<Longrightarrow> system_step D pcfg tcfg d d'"
| transfer: "transfer_step tcfg d d' \<Longrightarrow> system_step D pcfg tcfg d d'"
| account: "account_step d d' \<Longrightarrow> system_step D pcfg tcfg d d'"

section \<open>Trading leaves money movement alone\<close>

definition account_key :: "account \<Rightarrow> uuid \<times> money \<times> account_status" where
  "account_key a = (acc_id a, acc_starting a, acc_status a)"

definition fill_ref :: "ledger_entry \<Rightarrow> bool" where
  "fill_ref e = (case le_ref e of Some (Ref_fill b x) \<Rightarrow> True | _ \<Rightarrow> False)"

lemma fill_ref_other: "fill_ref e \<Longrightarrow> account_ref e = None \<and> transfer_ref e = None \<and> le_ref e \<noteq> None"
  by (auto simp: fill_ref_def account_ref_def transfer_ref_def split: option.splits ledger_ref.splits)

text \<open>What trading does to the tables of the other services: it appends entries of fills.\<close>

definition trade_frame :: "db \<Rightarrow> db \<Rightarrow> bool" where
  "trade_frame d d' \<longleftrightarrow> transfers d' = transfers d \<and> map account_key (accounts d') = map account_key (accounts d)
     \<and> (\<forall>i. get_broker_account d' i = get_broker_account d i)
     \<and> (\<exists>es. ledger d' = ledger d @ es \<and> list_all fill_ref es)"

lemma trade_frame_refl [simp]: "trade_frame d d"
  by (simp add: trade_frame_def)

lemma links_same: "broker_accounts d' = broker_accounts d \<Longrightarrow> get_broker_account d' i = get_broker_account d i"
  by (simp add: get_broker_account_def)

lemma trade_frame_transition:
  assumes "apply_transition D ord ev d = Inr (out, d')" "get_order d (ord_id ord) = Some ord"
  shows "trade_frame d d'"
proof (cases out)
  case None
  with assms show ?thesis by (cases rule: apply_transition_cases) simp_all
next
  case (Some r)
  note f = transition_frame[OF assms(1)[unfolded Some] assms(2)]
  show ?thesis using f(3,4,7) links_same[OF f(9)] by (simp add: trade_frame_def)
qed

lemma adjusted_keys: "map account_key (accounts (adjust_cash i m d)) = map account_key (accounts d)"
  by (simp add: adjust_cash_def map_modify account_key_def)

lemma trade_frame_fill:
  assumes "apply_fill_effects D r ev d = Inr (u, d')"
  shows "trade_frame d d'"
  using assms
proof (cases rule: fill_effects_shape)
  case (1 q p ex nxt rows)
  have "list_all fill_ref (map2 (\<lambda>e i. entry_row e i (db_now d))
      (fill_entries r ev q p (notional D p q) ex) [next_id d, Suc (next_id d)])"
    by (simp add: fill_entries_def fill_ref_def trade_entry_def fee_row_def)
  moreover have "get_broker_account d' i = get_broker_account d i" for i by (rule links_same) (simp add: 1(8))
  ultimately show ?thesis using adjusted_keys by (simp add: trade_frame_def 1(8))
qed

lemma trade_frame_trans: "trade_frame d d1 \<Longrightarrow> trade_frame d1 d2 \<Longrightarrow> trade_frame d d2"
  by (fastforce simp: trade_frame_def)

lemma trade_frame_event:
  assumes "event_tx D ev d = Inr (u, d')"
  shows "trade_frame d d'"
  using assms
proof (cases rule: event_tx_cases)
  case (moved ord r)
  from trade_frame_transition[OF moved(3) get_order_self[OF moved(1)]] show ?thesis .
next
  case (filled ord r d1)
  from trade_frame_transition[OF filled(3) get_order_self[OF filled(1)]] trade_frame_fill[OF filled(4)]
  show ?thesis by (rule trade_frame_trans)
qed simp

lemma trade_frame_place:
  assumes "place_tx D cfg inp d = Inr (r, d')"
  shows "trade_frame d d'"
proof -
  obtain x b where r: "r = (x, b)" by (rule prod.exhaust)
  from assms[unfolded r] show ?thesis
  proof (cases rule: place_tx_cases)
    case (placed a m)
    from insert_order_Some[OF placed(6)] show ?thesis by (simp add: trade_frame_def get_broker_account_def)
  qed simp
qed

lemma trade_frame_cancel:
  assumes "request_cancel D i t d = Inr (r, d')"
  shows "trade_frame d d'"
proof -
  from assms obtain ord where g: "get_order d i = Some ord" by (auto simp: request_cancel_def split: option.splits)
  from trade_frame_transition[OF _ get_order_self[OF g]] assms show ?thesis
    by (auto simp: request_cancel_def g result_simps split: if_splits)
qed

lemma trade_frame_submit_failed:
  assumes "submit_failed_tx D k t i d = Inr (u, d')"
  shows "trade_frame d d'"
proof -
  from assms obtain ord where g: "get_order d i = Some ord"
    by (auto simp: submit_failed_tx_def lock_order_def result_simps)
  from trade_frame_transition[OF _ get_order_self[OF g]] assms show ?thesis
    by (auto simp: submit_failed_tx_def lock_order_def g result_simps)
qed

lemma trade_frame_verdict: "trade_frame d (set_recon_status i st t d)"
  by (auto simp: trade_frame_def set_recon_status_def get_broker_account_def find_modify[where key = ba_account]
      option.map_comp comp_def)

lemma opened_linked_same:
  assumes "map account_key (accounts d') = map account_key (accounts d)"
    "\<And>i. get_broker_account d' i = get_broker_account d i" "opened_linked d"
  shows "opened_linked d'"
proof -
  have "\<exists>y \<in> set (accounts d). account_key y = account_key x" if "x \<in> set (accounts d')" for x
  proof -
    from that have "account_key x \<in> set (map account_key (accounts d'))" by simp
    then show ?thesis unfolding assms(1) by auto
  qed
  with assms(3) show ?thesis
    by (fastforce simp: opened_linked_def list_all_iff assms(2) account_key_def opened_def)
qed

lemma opening_keys:
  assumes "map account_key (accounts d') = map account_key (accounts d)"
  shows "map (\<lambda>a. (acc_id a, acc_starting a, opened a)) (accounts d')
      = map (\<lambda>a. (acc_id a, acc_starting a, opened a)) (accounts d)"
  using arg_cong[OF assms, of "map (\<lambda>(i, s, st). (i, s, st = ACTIVE \<or> st = ARCHIVED))"]
  by (simp add: account_key_def comp_def opened_def)

lemma trade_frame_inv:
  assumes "trade_frame d d'" "accounts_inv d" "trading_ok d'"
  shows "accounts_inv d'"
proof -
  note inv = assms(2)[unfolded accounts_inv_def]
  from assms(1) obtain es where led: "ledger d' = ledger d @ es" "list_all fill_ref es"
    and same: "transfers d' = transfers d" "map account_key (accounts d') = map account_key (accounts d)"
      "\<And>i. get_broker_account d' i = get_broker_account d i"
    by (auto simp: trade_frame_def)
  from led(2) have other: "account_ref e = None" "transfer_ref e = None" if "e \<in> set es" for e
    using that fill_ref_other by (auto simp: list_all_iff)
  have "transfers_posted d'" using posted_other[OF _ same(1) led(1) other(2)] inv transfers_invD(3) by blast
  then have "transfers_inv d'" using trading_okD(1,2)[OF assms(3)] by (simp add: transfers_inv_def)
  moreover have "opening_posted d'" using opening_other[OF _ led(1) other(1) opening_keys[OF same(2)]] inv by blast
  moreover have "opened_linked d'" using opened_linked_same[OF same(2,3)] inv by blast
  ultimately show ?thesis by (simp add: accounts_inv_def)
qed

section \<open>Money movement leaves trading alone\<close>

definition same_trading :: "db \<Rightarrow> db \<Rightarrow> bool" where
  "same_trading d d' \<longleftrightarrow> orders d' = orders d \<and> fills d' = fills d \<and> positions d' = positions d
     \<and> (\<exists>es. ledger d' = ledger d @ es \<and> list_all (\<lambda>e. \<not> fill_ref e \<and> le_ref e \<noteq> None) es)"

lemma same_trading_inv: "same_trading d d' \<Longrightarrow> trading_ok d \<Longrightarrow> schema_ok d' \<Longrightarrow> in_balance d' \<Longrightarrow> trading_ok d'"
  by (simp add: same_trading_def trading_ok_def orders_wf_def fills_match_def fills_total_def cents_basis_def)

definition transfer_frame :: "db \<Rightarrow> db \<Rightarrow> bool" where
  "transfer_frame d d' \<longleftrightarrow> orders d' = orders d \<and> fills d' = fills d \<and> positions d' = positions d
     \<and> map account_key (accounts d') = map account_key (accounts d) \<and> broker_accounts d' = broker_accounts d
     \<and> (\<exists>es. ledger d' = ledger d @ es \<and> list_all (\<lambda>e. transfer_ref e \<noteq> None) es)"

lemma transfer_ref_other: "transfer_ref e \<noteq> None \<Longrightarrow> \<not> fill_ref e \<and> account_ref e = None \<and> le_ref e \<noteq> None"
  by (auto simp: fill_ref_def account_ref_def transfer_ref_def split: option.splits ledger_ref.splits)

lemma transfer_frame_refl [simp]: "transfer_frame d d" by (simp add: transfer_frame_def)

lemma row_writes_transfer: "row_write\<^sup>*\<^sup>* d d' \<Longrightarrow> transfer_frame d d'"
  using row_writes_frame[of d d'] by (auto simp: transfer_frame_def)

lemma row_write_transfer: "d' = d \<or> row_write d d' \<Longrightarrow> transfer_frame d d'"
  using row_writes_transfer by blast

lemma transfer_step_frame: "transfer_step cfg d d' \<Longrightarrow> transfer_frame d d'"
proof (induction rule: transfer_step.induct)
  case (requested now inp d r d')
  obtain t rf where "r = (t, rf)" by (rule prod.exhaust)
  from requested[unfolded this] show ?case
    by (cases rule: request_tx_cases) (simp_all add: transfer_frame_def)
next
  case (linked a i v d u d')
  from row_write_transfer[OF link_cases[OF linked]] show ?case .
next
  case (answered now t i vt d st d')
  from answered(1) show ?case
  proof (cases rule: venue_state_cases)
    case (closed t m)
    then show ?thesis by (blast intro: row_write_transfer)
  next
    case (settled acc t)
    from settled(9) show ?thesis
      by (cases rule: settle_locked_Inr) (simp add: transfer_frame_def adjusted_keys)
  qed simp
next
  case (finished a i m d st d')
  from row_write_transfer[OF finish_cases[OF finished]] show ?case .
next
  case (watched t b d u d')
  from row_write_transfer[OF watch_cases[OF watched]] show ?case .
next
  case (reset a d n d')
  from row_writes_transfer[OF reset_writes[OF reset]] show ?case .
qed

lemma transfer_frame_same: "transfer_frame d d' \<Longrightarrow> same_trading d d'"
  using transfer_ref_other by (fastforce simp: transfer_frame_def same_trading_def list_all_iff)

lemma same_trading_refl [simp]: "same_trading d d" by (simp add: same_trading_def)

lemma transfer_frame_inv:
  assumes "transfer_frame d d'" "accounts_inv d" "transfers_inv d'"
  shows "accounts_inv d'"
proof -
  from assms(1) obtain es where led: "ledger d' = ledger d @ es" "list_all (\<lambda>e. transfer_ref e \<noteq> None) es"
    and keys: "map account_key (accounts d') = map account_key (accounts d)" "broker_accounts d' = broker_accounts d"
    by (auto simp: transfer_frame_def)
  have "account_ref e = None" if "e \<in> set es" for e
    using led(2) that transfer_ref_other by (simp add: list_all_iff)
  from opening_other[OF _ led(1) this opening_keys[OF keys(1)]] opened_linked_same[OF keys(1) links_same[OF keys(2)]]
    assms(2,3) show ?thesis by (simp add: accounts_inv_def)
qed

lemma account_step_same: "account_step d d' \<Longrightarrow> schema_ok d \<Longrightarrow> same_trading d d'"
proof (induction rule: account_step.induct)
  case (created u m d a d')
  then show ?case by (simp add: create_account_Inr same_trading_def)
next
  case (linked i ref d u d')
  then show ?case
    by (auto simp: link_tx_account_def link_broker_account_def checked_def result_simps Let_def same_trading_def)
next
  case (failed i d u d')
  then show ?case by (auto simp: fail_tx_def result_simps same_trading_def dest!: set_status_shape)
next
  case (activated i d a d')
  from activated(1) show ?case
  proof (cases rule: activate_shape)
    case (activated b d1)
    from set_status_shape[OF activated(3)] activated(6) show ?thesis
      by (simp add: same_trading_def fill_ref_def opening_entry_def)
  qed simp
next
  case (archived u d a d')
  from archive_shape[OF archived] obtain n d1 where
    c: "cancel_pending_for_account (acc_id a) d = Inr (n, d1)" and
    s: "set_status (acc_id a) ARCHIVED (archive_broker_account (acc_id a) d1) = Inr d'" by blast
  from transfer_frame_same[OF row_writes_transfer[OF reset_writes[OF c]]] set_status_shape[OF s] show ?case
    by (simp add: same_trading_def archive_broker_account_def)
qed

section \<open>Opening deposits\<close>

text \<open>A call of the account service or of the cash-transfer service.\<close>

inductive money_call :: "transfers_config \<Rightarrow> 'v cash_venue \<Rightarrow> 'v provisioner \<Rightarrow> 'v \<times> db \<Rightarrow> 'v \<times> db \<Rightarrow> bool"
  for cfg venue pv where
  by_accounts: "account_call pv w w' \<Longrightarrow> money_call cfg venue pv w w'"
| by_transfers: "cash_call cfg venue w w' \<Longrightarrow> money_call cfg venue pv w w'"

lemma transfer_steps_accounts_inv:
  "(transfer_step cfg)\<^sup>*\<^sup>* d d' \<Longrightarrow> accounts_inv d \<Longrightarrow> accounts_inv d'"
proof (induction rule: rtranclp_induct)
  case (step y z)
  then have "transfers_inv z" using step_inv[OF step(2)] by (simp add: accounts_inv_def)
  with step transfer_frame_inv[OF transfer_step_frame[OF step(2)]] show ?case by blast
qed

lemma money_call_inv: "money_call cfg venue pv w w' \<Longrightarrow> accounts_inv (snd w) \<Longrightarrow> accounts_inv (snd w')"
  by (induction rule: money_call.induct)
    (auto intro: account_call_inv transfer_steps_accounts_inv[OF cash_call_steps])

text \<open>
  C8: The opening deposit is counted exactly once. Whatever the provisioner and the cash venue answer, every
  interleaved run of the account service (openings, activations, sweeps, resets) and of the cash-transfer
  service (requests, synchronisation, sweeps, cancellations) keeps the schema and the balance of cash and
  ledger; an account that was ever active has exactly one opening entry, of its starting cash, and an
  account that is still provisioning or failed has none; every account that was ever active has its
  venue account.
\<close>

theorem opening_deposit_once:
  assumes "(money_call cfg venue pv)\<^sup>*\<^sup>* w w'" "accounts_inv (snd w)" "get_account (snd w') i = Some a"
  shows "accounts_inv (snd w')
    \<and> openings (snd w') i = (if acc_status a = ACTIVE \<or> acc_status a = ARCHIVED then [(i, acc_starting a)] else [])
    \<and> (acc_status a \<in> {ACTIVE, ARCHIVED} \<longrightarrow> get_broker_account (snd w') i \<noteq> None)"
proof -
  have inv: "accounts_inv (snd w')"
    using assms(1,2) by (induction rule: rtranclp_induct) (auto intro: money_call_inv)
  with get_account_Some[OF assms(3)] show ?thesis
    by (auto simp: accounts_inv_def opening_posted_def opened_linked_def list_all_iff opened_def)
qed

theorem opening_deposit_once_witness: "openings demo_db 0 = [(0, 100000)]"
proof -
  have "money_call demo_limits settling_venue funding_venue ((), demo_waiting) ((), demo_db)"
    by (rule by_accounts) (rule account_call.activate[OF demo_activation])
  then have "(money_call demo_limits settling_venue funding_venue)\<^sup>*\<^sup>* ((), demo_waiting) ((), demo_db)" by blast
  moreover obtain n w' where c: "cancel_pending_at_venue settling_venue 0 ((), demo_db) = (n, w')" by (rule prod.exhaust)
  moreover from c have "snd w' = demo_db"
    by (auto simp: cancel_pending_at_venue_def Let_def split: option.splits prod.splits)
  moreover from c have "money_call demo_limits settling_venue funding_venue ((), demo_db) w'"
    by (intro by_transfers cash_call.cancel_at_venue)
  ultimately have run: "(money_call demo_limits settling_venue funding_venue)\<^sup>*\<^sup>* ((), demo_waiting) w'"
    by (auto intro: rtranclp.rtrancl_into_rtrancl)
  from opening_deposit_once[OF this, of 0 demo_account] demo_waiting_inv demo_lookup \<open>snd w' = demo_db\<close> show ?thesis
    by (simp add: demo_account_def)
qed

section \<open>The entries of fills are those of the fill rows\<close>

definition order_terms :: "db \<Rightarrow> uuid \<Rightarrow> (uuid \<times> order_side) option" where
  "order_terms d j = map_option (\<lambda>r. (ord_account r, ord_side r)) (get_order d j)"

text \<open>What a fill did to the cash of an account: proceeds or cost, less the fee.\<close>

definition row_cash :: "db \<Rightarrow> uuid \<Rightarrow> fill \<Rightarrow> money" where
  "row_cash d i f =
     (case order_terms d (fl_order f) of
        None \<Rightarrow> 0
      | Some (a, side) \<Rightarrow>
          if a = i then (if side = BUY then - fl_notional f else fl_notional f) - fl_fee f else 0)"

definition trade_cash :: "db \<Rightarrow> uuid \<Rightarrow> money" where
  "trade_cash d i = sum_list (map (row_cash d i) (fills d))"

definition fill_entries_total :: "db \<Rightarrow> uuid \<Rightarrow> money" where
  "fill_entries_total d i = total le_amount (\<lambda>e. le_account e = i \<and> fill_ref e) (ledger d)"

definition trades_booked :: "db \<Rightarrow> bool" where
  "trades_booked d \<longleftrightarrow> (\<forall>i. fill_entries_total d i = trade_cash d i)"

lemma row_cash_terms: "order_terms d' (fl_order f) = order_terms d (fl_order f) \<Longrightarrow> row_cash d' i f = row_cash d i f"
  by (simp add: row_cash_def)

lemma booked_same_fills:
  assumes "trades_booked d" "fills d' = fills d" "ledger d' = ledger d @ es" "list_all (\<lambda>e. \<not> fill_ref e) es"
    "\<And>f. f \<in> set (fills d) \<Longrightarrow> order_terms d' (fl_order f) = order_terms d (fl_order f)"
  shows "trades_booked d'"
proof -
  have "fill_entries_total d' i = fill_entries_total d i" for i
    using assms(4) by (simp add: fill_entries_total_def assms(3) total_none list_all_iff)
  moreover have "trade_cash d' i = trade_cash d i" for i
    using row_cash_terms[OF assms(5)] by (simp add: trade_cash_def assms(2) cong: map_cong)
  ultimately show ?thesis using assms(1) by (simp add: trades_booked_def)
qed

lemma same_trading_booked: "same_trading d d' \<Longrightarrow> trades_booked d \<Longrightarrow> trades_booked d'"
  by (auto simp: same_trading_def order_terms_def get_order_def list_all_iff intro: booked_same_fills)

lemma transition_terms:
  assumes "apply_transition D ord ev d = Inr (Some r, d')" "get_order d (ord_id ord) = Some ord" "schema_ok d"
  shows "order_terms d' j = order_terms d j"
proof -
  from transition_modifies[OF assms(1,2)] obtain f where
    o: "orders d' = modify (\<lambda>x. ord_id x = ord_id ord) f (orders d)" "f ord = r" .
  note keys = transition_row_keys[OF assms(1,2)]
  have uniq: "x = ord" if "x \<in> set (orders d)" "ord_id x = ord_id ord" for x
    using that order_key_unique[OF assms(3) that(1)] assms(2) by (simp add: get_order_def)
  have "orders d' = modify (\<lambda>x. ord_id x = ord_id ord) (\<lambda>x. if x = ord then r else x) (orders d)"
    unfolding o(1) modify_def using uniq o(2) by (auto intro!: map_cong)
  then have "get_order d' j = (if j = ord_id ord then map_option (\<lambda>x. if x = ord then r else x) (get_order d j)
      else get_order d j)"
    unfolding get_order_def by (simp add: find_modify[where key = ord_id] keys(1))
  with assms(2) keys show ?thesis by (simp add: order_terms_def)
qed

lemma transition_booked:
  assumes "apply_transition D ord ev d = Inr (out, d')" "get_order d (ord_id ord) = Some ord" "schema_ok d"
    "trades_booked d"
  shows "trades_booked d'"
proof (cases out)
  case None
  with assms(1,2) show ?thesis by (cases rule: apply_transition_cases) (use assms(4) in simp_all)
next
  case (Some r)
  note t = assms(1)[unfolded Some]
  from transition_frame[OF t assms(2)] transition_terms[OF t assms(2,3)] show ?thesis
    by (intro booked_same_fills[OF assms(4), where es = "[]"]) simp_all
qed

lemma fill_effects_booked:
  assumes "apply_fill_effects D r ev d = Inr (u, d')" "get_order d (ord_id r) = Some r" "trades_booked d"
  shows "trades_booked d'"
  using assms(1)
proof (cases rule: fill_effects_shape)
  case (1 q p ex nxt rows)
  let ?es = "map2 (\<lambda>e i. entry_row e i (db_now d)) (fill_entries r ev q p (notional D p q) ex) [next_id d, Suc (next_id d)]"
  let ?f = "fill_row r ev q p (fee_of ev) (notional D p q) ex (db_now d)"
  have o: "order_terms d' = order_terms d" by (intro ext) (simp add: order_terms_def get_order_def 1(8))
  have f: "row_cash d' i = row_cash d i" for i by (intro ext) (simp add: row_cash_def o)
  have "total le_amount (\<lambda>e. le_account e = i \<and> fill_ref e) ?es = row_cash d i ?f" for i
    using assms(2) by (simp add: fill_entries_def fill_ref_def trade_entry_def fee_row_def row_cash_def order_terms_def fill_row_def)
  then show ?thesis
    using assms(3) by (simp add: trades_booked_def fill_entries_total_def trade_cash_def f, simp add: 1(8))
qed

lemma event_booked:
  assumes "event_tx D ev d = Inr (u, d')" "schema_ok d" "trades_booked d"
  shows "trades_booked d'"
  using assms(1)
proof (cases rule: event_tx_cases)
  case (moved ord r)
  from transition_booked[OF moved(3) get_order_self[OF moved(1)] assms(2,3)] show ?thesis .
next
  case (filled ord r d1)
  note g = get_order_self[OF filled(1)]
  from transition_booked[OF filled(3) g assms(2,3)] have "trades_booked d1" .
  moreover have "get_order d1 (ord_id r) = Some r"
    using transition_row_get[OF filled(3) g] transition_row_keys(1)[OF filled(3) g] by simp
  ultimately show ?thesis using fill_effects_booked[OF filled(4)] by blast
qed (use assms(3) in simp)

lemma place_booked:
  assumes "place_tx D cfg inp d = Inr (r, d')" "schema_ok d" "trades_booked d"
  shows "trades_booked d'"
proof -
  obtain x b where r: "r = (x, b)" by (rule prod.exhaust)
  from assms(1)[unfolded r] show ?thesis
  proof (cases rule: place_tx_cases)
    case (placed a m)
    note ins = insert_order_Some[OF placed(6)]
    have "order_terms d' (fl_order f) = order_terms d (fl_order f)" if "f \<in> set (fills d)" for f
    proof -
      have "has_order d (fl_order f)"
        using assms(2) that by (simp add: schema_ok_def references_ok_def list_all_iff)
      then have "get_order d (fl_order f) \<noteq> None"
        by (auto simp: has_order_def list_ex_iff get_order_def find_None_iff)
      then show ?thesis using ins by (auto simp: order_terms_def get_order_def find_append)
    qed
    with ins show ?thesis by (intro booked_same_fills[OF assms(3), where es = "[]"]) auto
  qed (use assms(3) in simp)
qed

lemma cancel_booked:
  assumes "request_cancel D i t d = Inr (r, d')" "schema_ok d" "trades_booked d"
  shows "trades_booked d'"
proof -
  from assms(1) obtain ord where g: "get_order d i = Some ord" by (auto simp: request_cancel_def split: option.splits)
  from transition_booked[OF _ get_order_self[OF g] assms(2,3)] assms(1,3) show ?thesis
    by (auto simp: request_cancel_def g result_simps split: if_splits)
qed

lemma submit_failed_booked:
  assumes "submit_failed_tx D k t i d = Inr (u, d')" "schema_ok d" "trades_booked d"
  shows "trades_booked d'"
proof -
  from assms(1) obtain ord where g: "get_order d i = Some ord"
    by (auto simp: submit_failed_tx_def lock_order_def result_simps)
  from transition_booked[OF _ get_order_self[OF g] assms(2,3)] assms(1) show ?thesis
    by (auto simp: submit_failed_tx_def lock_order_def g result_simps)
qed

section \<open>The invariant of the program\<close>

definition entries_referenced :: "db \<Rightarrow> bool" where
  "entries_referenced d \<longleftrightarrow> list_all (\<lambda>e. le_ref e \<noteq> None) (ledger d)"

definition system_ok :: "db \<Rightarrow> bool" where
  "system_ok d \<longleftrightarrow> trading_ok d \<and> accounts_inv d \<and> trades_booked d \<and> entries_referenced d"

lemma referenced_trade: "trade_frame d d' \<Longrightarrow> entries_referenced d \<Longrightarrow> entries_referenced d'"
  by (auto simp: trade_frame_def entries_referenced_def list_all_iff dest!: fill_ref_other bspec)

lemma referenced_money: "same_trading d d' \<Longrightarrow> entries_referenced d \<Longrightarrow> entries_referenced d'"
  by (auto simp: same_trading_def entries_referenced_def list_all_iff)

lemma system_trade:
  assumes "trade_frame d d'" "trading_ok d'" "trades_booked d'" "system_ok d"
  shows "system_ok d'"
  using assms trade_frame_inv referenced_trade by (auto simp: system_ok_def)

lemma system_money:
  assumes "same_trading d d'" "accounts_inv d'" "system_ok d"
  shows "system_ok d'"
  using assms same_trading_inv same_trading_booked referenced_money
  by (auto simp: system_ok_def accounts_inv_def transfers_inv_def)

lemma system_step_ok:
  assumes "decimal_arith D" "system_step D pcfg tcfg d d'" "system_ok d"
  shows "system_ok d'"
proof -
  from assms(3) have ok: "trading_ok d" "accounts_inv d" "trades_booked d" "schema_ok d"
    by (simp_all add: system_ok_def trading_ok_def)
  from assms(2) show ?thesis
  proof (cases rule: system_step.cases)
    case (placed inp r)
    obtain x b where "r = (x, b)" by (rule prod.exhaust)
    with trading_place[OF assms(1) placed(2)] placed(1) ok have "trading_ok d'" by blast
    with system_trade[OF trade_frame_place[OF placed(1)] _ place_booked[OF placed(1) ok(4,3)] assms(3)]
    show ?thesis .
  next
    case (cancel_requested i t r)
    from system_trade[OF trade_frame_cancel[OF this] trading_request_cancel[OF assms(1) this ok(1)]
        cancel_booked[OF this ok(4,3)] assms(3)] show ?thesis .
  next
    case (delivered ev u)
    from system_trade[OF trade_frame_event[OF this] trading_event_tx[OF assms(1) this ok(1)]
        event_booked[OF this ok(4,3)] assms(3)] show ?thesis .
  next
    case (submission_failed k t i u)
    from system_trade[OF trade_frame_submit_failed[OF this] trading_submit_failed[OF assms(1) this ok(1)]
        submit_failed_booked[OF this ok(4,3)] assms(3)] show ?thesis .
  next
    case (verdict i st t)
    have "trades_booked d'"
      by (rule booked_same_fills[OF ok(3), where es = "[]"])
         (simp_all add: verdict set_recon_status_def order_terms_def get_order_def)
    with system_trade[OF trade_frame_verdict status_trading[OF ok(1)] _ assms(3)] verdict show ?thesis by blast
  next
    case transfer
    note frame = transfer_step_frame[OF transfer]
    have "transfers_inv d'" using step_inv[OF transfer] ok(2) by (simp add: accounts_inv_def)
    from system_money[OF transfer_frame_same[OF frame] transfer_frame_inv[OF frame ok(2) this] assms(3)]
    show ?thesis .
  next
    case account
    from system_money[OF account_step_same[OF account ok(4)] account_step_inv[OF account ok(2)] assms(3)]
    show ?thesis .
  qed
qed

section \<open>Where the cash of an account comes from\<close>

lemma total_split:
  fixes g :: "'r \<Rightarrow> 'm::comm_monoid_add"
  shows "(\<And>e. e \<in> set es \<Longrightarrow> p e \<Longrightarrow> q e \<noteq> r e)
    \<Longrightarrow> total g p es = total g (\<lambda>e. p e \<and> q e) es + total g (\<lambda>e. p e \<and> r e) es"
  by (induction es) (auto simp: ac_simps)

lemma sum_one_key:
  fixes c :: "'m::comm_monoid_add"
  assumes "distinct (map key ts)" "t \<in> set ts"
  shows "sum_list (map (\<lambda>t'. if key t' = key t then c else 0) ts) = c"
proof -
  have "filter (\<lambda>t'. key t' = key t) ts = [t]"
    using assms by (induction ts) (auto simp: filter_empty_conv image_iff)
  moreover have "sum_list (map (\<lambda>t'. if q t' then c else 0) ts) = sum_list (map (\<lambda>_. c) (filter q ts))" for q
    by (induction ts) auto
  ultimately show ?thesis by simp
qed

text \<open>A total over entries whose key names a row of a table is a sum over the table.\<close>

lemma total_by_key:
  fixes g :: "'r \<Rightarrow> 'm::comm_monoid_add"
  assumes "distinct (map key ts)"
  shows "(\<And>e. e \<in> set es \<Longrightarrow> p e \<Longrightarrow> \<exists>t \<in> set ts. f e = Some (key t))
    \<Longrightarrow> total g p es = sum_list (map (\<lambda>t. total g (\<lambda>e. p e \<and> f e = Some (key t)) es) ts)"
proof (induction es)
  case (Cons e es)
  then have IH: "total g p es = sum_list (map (\<lambda>t. total g (\<lambda>e. p e \<and> f e = Some (key t)) es) ts)" by simp
  show ?case
  proof (cases "p e")
    case True
    with Cons(2)[of e] obtain t where t: "t \<in> set ts" "f e = Some (key t)" by auto
    then have "(f e = Some (key t')) = (key t' = key t)" for t' by auto
    with True IH sum_one_key[OF assms t(1), of "g e"] show ?thesis by (simp add: sum_list_addf)
  qed (simp add: IH)
qed simp

lemma total_of_entries:
  "total le_amount (\<lambda>e. le_account e = i \<and> q e) es
     = sum_list (map snd (filter (\<lambda>x. fst x = i) (map (\<lambda>e. (le_account e, le_amount e)) (filter q es))))"
  by (induction es) auto

definition settled_net :: "db \<Rightarrow> uuid \<Rightarrow> money" where
  "settled_net d i = total signed_amount (\<lambda>t. tr_account t = i \<and> tr_state t = SETTLED) (transfers d)"

lemma transfer_entries_total:
  assumes "transfers_posted d" "schema_ok d"
  shows "total le_amount (\<lambda>e. le_account e = i \<and> transfer_ref e \<noteq> None) (ledger d) = settled_net d i"
proof -
  let ?p = "\<lambda>e. le_account e = i \<and> transfer_ref e \<noteq> None"
  have "distinct (map tr_id (transfers d))" using assms(2) by (simp add: schema_ok_def transfers_ok_def)
  moreover have "\<exists>t \<in> set (transfers d). transfer_ref e = Some (tr_id t)" if "e \<in> set (ledger d)" "?p e" for e
    using assms(1) that by (fastforce simp: transfers_posted_def list_all_iff)
  ultimately have "total le_amount ?p (ledger d)
      = sum_list (map (\<lambda>t. total le_amount (\<lambda>e. ?p e \<and> transfer_ref e = Some (tr_id t)) (ledger d)) (transfers d))"
    by (rule total_by_key)
  also have "(\<lambda>t e. ?p e \<and> transfer_ref e = Some (tr_id t)) = (\<lambda>t e. le_account e = i \<and> transfer_ref e = Some (tr_id t))"
    by (intro ext) auto
  also have "sum_list (map (\<lambda>t. total le_amount (\<lambda>e. le_account e = i \<and> transfer_ref e = Some (tr_id t)) (ledger d)) (transfers d))
      = sum_list (map (\<lambda>t. if tr_account t = i \<and> tr_state t = SETTLED then signed_amount t else 0) (transfers d))"
  proof (intro arg_cong[of _ _ sum_list] map_cong refl)
    fix t assume "t \<in> set (transfers d)"
    with assms(1) have "postings d (tr_id t) = (if tr_state t = SETTLED then [(tr_account t, signed_amount t)] else [])"
      by (simp add: transfers_posted_def list_all_iff)
    then show "total le_amount (\<lambda>e. le_account e = i \<and> transfer_ref e = Some (tr_id t)) (ledger d)
        = (if tr_account t = i \<and> tr_state t = SETTLED then signed_amount t else 0)"
      by (simp add: total_of_entries postings_def)
  qed
  also have "\<dots> = settled_net d i" unfolding settled_net_def by (induction "transfers d") (simp_all add: total_def sum_list_map_filter')
  finally show ?thesis .
qed

lemma opening_entries_total:
  assumes "opening_posted d" "get_account d i = Some a"
  shows "total le_amount (\<lambda>e. le_account e = i \<and> account_ref e \<noteq> None) (ledger d)
    = (if opened a then acc_starting a else 0)"
proof -
  have op: "openings d (acc_id x) = (if opened x then [(acc_id x, acc_starting x)] else [])" if "x \<in> set (accounts d)" for x
    using assms(1) that by (simp add: opening_posted_def list_all_iff)
  have own: "le_account e = j" if "e \<in> set (ledger d)" "account_ref e = Some j" for e j
  proof -
    from assms(1) that have "j \<in> acc_id ` set (accounts d)"
      by (fastforce simp: opening_posted_def list_all_iff)
    then obtain x where x: "x \<in> set (accounts d)" "acc_id x = j" by auto
    from that have "(le_account e, le_amount e) \<in> set (openings d j)" by (auto simp: openings_def)
    with op[OF x(1)] x(2) show ?thesis by (auto split: if_splits)
  qed
  have "total le_amount (\<lambda>e. le_account e = i \<and> account_ref e \<noteq> None) (ledger d)
      = total le_amount (\<lambda>e. le_account e = i \<and> account_ref e = Some i) (ledger d)"
  proof (rule total_cong)
    fix e assume e: "e \<in> set (ledger d)"
    show "(le_account e = i \<and> account_ref e \<noteq> None) = (le_account e = i \<and> account_ref e = Some i)"
      using own[OF e] by (cases "account_ref e") auto
  qed simp
  also have "\<dots> = sum_list (map snd (filter (\<lambda>x. fst x = i) (openings d i)))"
    by (simp add: total_of_entries openings_def)
  finally show ?thesis
    using op[of a] get_account_Some[OF assms(2)] by (auto simp: account_of[OF assms(2)])
qed

lemma cash_sources:
  assumes "system_ok d" "get_account d i = Some a"
  shows "acc_cash a = (if opened a then acc_starting a else 0) + settled_net d i + trade_cash d i"
proof -
  from assms(1) have ok: "in_balance d" "schema_ok d" "transfers_posted d" "opening_posted d" "trades_booked d"
    "entries_referenced d"
    by (auto simp: system_ok_def trading_ok_def accounts_inv_def transfers_inv_def)
  have kinds: "(account_ref e \<noteq> None) \<noteq> (transfer_ref e \<noteq> None \<or> fill_ref e)"
    "(transfer_ref e \<noteq> None \<or> fill_ref e) \<Longrightarrow> (transfer_ref e \<noteq> None) \<noteq> fill_ref e" if "e \<in> set (ledger d)" for e
    using ok(6) that unfolding entries_referenced_def list_all_iff account_ref_def transfer_ref_def fill_ref_def
    by (auto split: option.splits ledger_ref.splits)
  let ?a = "\<lambda>e. le_account e = i"
  have "sum_ledger d i = total le_amount (\<lambda>e. ?a e \<and> account_ref e \<noteq> None) (ledger d)
      + total le_amount (\<lambda>e. ?a e \<and> (transfer_ref e \<noteq> None \<or> fill_ref e)) (ledger d)"
    unfolding sum_ledger_def using kinds(1) by (intro total_split)
  also have "total le_amount (\<lambda>e. ?a e \<and> (transfer_ref e \<noteq> None \<or> fill_ref e)) (ledger d)
      = total le_amount (\<lambda>e. (?a e \<and> (transfer_ref e \<noteq> None \<or> fill_ref e)) \<and> transfer_ref e \<noteq> None) (ledger d)
      + total le_amount (\<lambda>e. (?a e \<and> (transfer_ref e \<noteq> None \<or> fill_ref e)) \<and> fill_ref e) (ledger d)"
    using kinds(2) by (intro total_split) blast
  also have "(\<lambda>e. (?a e \<and> (transfer_ref e \<noteq> None \<or> fill_ref e)) \<and> transfer_ref e \<noteq> None) = (\<lambda>e. ?a e \<and> transfer_ref e \<noteq> None)"
    by auto
  also have "(\<lambda>e. (?a e \<and> (transfer_ref e \<noteq> None \<or> fill_ref e)) \<and> fill_ref e) = (\<lambda>e. ?a e \<and> fill_ref e)" by auto
  finally have "sum_ledger d i = (if opened a then acc_starting a else 0) + settled_net d i + trade_cash d i"
    unfolding opening_entries_total[OF ok(4) assms(2)] transfer_entries_total[OF ok(3,2)]
    using ok(5) by (simp add: trades_booked_def fill_entries_total_def)
  moreover have "acc_cash a = sum_ledger d i"
    using ok(1) get_account_Some[OF assms(2)] by (auto simp: in_balance_def list_all_iff)
  ultimately show ?thesis by simp
qed

section \<open>The services as calls\<close>

text \<open>
  A call of a service, as the server and the worker make them, on the state of the venue and the
  database: the venue, the cash venue and the provisioner are the ports of one counterpart.
\<close>

inductive system_call :: "decimal_lib \<Rightarrow> place_config \<Rightarrow> transfers_config \<Rightarrow> 'v broker \<Rightarrow> 'v cash_venue
    \<Rightarrow> 'v provisioner \<Rightarrow> 'v \<times> db \<Rightarrow> 'v \<times> db \<Rightarrow> bool"
  for D pcfg tcfg br venue pv where
  call_place: "place D pcfg inp d = (r, d') \<Longrightarrow> prices_positive inp
    \<Longrightarrow> system_call D pcfg tcfg br venue pv (v, d) (v, d')"
| call_submit: "exec_submit D br now i w = (r, w') \<Longrightarrow> system_call D pcfg tcfg br venue pv w w'"
| call_cancel: "run_tx (request_cancel D i t) d = (r, d') \<Longrightarrow> system_call D pcfg tcfg br venue pv (v, d) (v, d')"
| call_venue_cancel: "request_venue_cancel br i w = (c, w') \<Longrightarrow> system_call D pcfg tcfg br venue pv w w'"
| call_event: "on_broker_event D ev d = (u, d') \<Longrightarrow> system_call D pcfg tcfg br venue pv (v, d) (v, d')"
| call_reconcile: "reconcile_all D br now w = (out, w') \<Longrightarrow> system_call D pcfg tcfg br venue pv w w'"
| call_reconcile_now: "reconcile_account_now D br now i w = (out, w') \<Longrightarrow> system_call D pcfg tcfg br venue pv w w'"
| call_cash: "cash_call tcfg venue w w' \<Longrightarrow> system_call D pcfg tcfg br venue pv w w'"
| call_account: "account_call pv w w' \<Longrightarrow> system_call D pcfg tcfg br venue pv w w'"

lemma run_system_step:
  assumes "run_tx f d = (r, d')" "\<And>x d'. f d = Inr (x, d') \<Longrightarrow> system_step D pcfg tcfg d d'"
  shows "(system_step D pcfg tcfg)\<^sup>*\<^sup>* d d'"
  using assms by (cases rule: run_tx_cases[of f d]) auto

lemma deliver_step: "(system_step D pcfg tcfg)\<^sup>*\<^sup>* d (deliver D ev d)"
  by (cases rule: deliver_cases[of D ev d]) (auto intro: system_step.delivered)

lemma history_steps: "(system_step D pcfg tcfg)\<^sup>*\<^sup>* d (fold (deliver D) es d)"
  by (induction es arbitrary: d) (auto intro: rtranclp_trans[OF deliver_step])

lemma transfer_steps_system: "(transfer_step tcfg)\<^sup>*\<^sup>* d d' \<Longrightarrow> (system_step D pcfg tcfg)\<^sup>*\<^sup>* d d'"
  by (erule mono_rtranclp[rule_format, rotated]) (rule system_step.transfer)

lemma account_steps_system: "account_step\<^sup>*\<^sup>* d d' \<Longrightarrow> (system_step D pcfg tcfg)\<^sup>*\<^sup>* d d'"
  by (erule mono_rtranclp[rule_format, rotated]) (rule system_step.account)

lemma account_call_steps:
  assumes "account_call pv w w'" "accounts_inv (snd w)"
  shows "account_step\<^sup>*\<^sup>* (snd w) (snd w')"
  using assms
proof (induction rule: account_call.induct)
  case (open_account u m w r w')
  then show ?case by (cases w; cases w') (auto intro: open_steps)
next
  case (activate i w r w')
  then show ?case by (cases w; cases w') (auto intro: try_activate_steps)
next
  case (activate_pending w n w')
  then obtain m where "activate_all pv (list_provisioning_ids (snd w)) (0, w) = (m, w')"
    by (auto simp: activate_pending_accounts_def Let_def split: prod.splits)
  then show ?case by (cases w; cases w') (auto intro: activate_all_steps)
next
  case (reset u w r w')
  then show ?case by (cases w; cases w') (auto intro: reset_steps)
qed

text \<open>A reconciliation runs deliveries and verdicts.\<close>

lemma recon_steps:
  assumes "venue_port br D"
  shows "recon_frame br D (\<lambda>out d. (system_step D pcfg tcfg)\<^sup>*\<^sup>* d0 d) i"
  by (intro recon_frame.intro recon_frame_axioms.intro assms)
     (auto intro: rtranclp_trans[OF _ deliver_step] rtranclp.rtrancl_into_rtrancl system_step.verdict)

lemma guarded_steps:
  assumes "venue_port br D" "(system_step D pcfg tcfg)\<^sup>*\<^sup>* d0 (db_of w)"
  shows "(system_step D pcfg tcfg)\<^sup>*\<^sup>* d0 (db_of (guarded_account D br now i w))"
proof -
  obtain r w1 where rw: "reconcile_account D br now i w = (r, w1)" by (rule prod.exhaust)
  from recon_frame.account_keeps[OF recon_steps[OF assms(1)], of pcfg tcfg d0 w now i] assms(2) rw
  have w1: "(system_step D pcfg tcfg)\<^sup>*\<^sup>* d0 (db_of w1)" by simp
  have "system_step D pcfg tcfg (db_of w1) (set_recon_status i ERROR now (db_of w1))"
    by (rule system_step.verdict) (rule refl)
  with w1 have "(system_step D pcfg tcfg)\<^sup>*\<^sup>* d0 (set_recon_status i ERROR now (db_of w1))"
    by (rule rtranclp.rtrancl_into_rtrancl)
  with rw w1 show ?thesis
    by (cases w1; cases r) (simp_all add: guarded_account_def tally_def write_db_def db_of_def)
qed

lemma all_steps:
  assumes "venue_port br D"
  shows "(system_step D pcfg tcfg)\<^sup>*\<^sup>* d0 (db_of w)
    \<Longrightarrow> (system_step D pcfg tcfg)\<^sup>*\<^sup>* d0 (db_of (fold (guarded_account D br now) is w))"
  by (induction "is" arbitrary: w) (simp_all add: guarded_steps[OF assms])

lemma system_call_steps:
  assumes "system_call D pcfg tcfg br venue pv w w'" "venue_port br D" "accounts_inv (snd w)"
  shows "(system_step D pcfg tcfg)\<^sup>*\<^sup>* (snd w) (snd w')"
  using assms(1)
proof (cases rule: system_call.cases)
  case (call_place inp d r d' v)
  then have "d' = d \<or> run_tx (place_tx D pcfg inp) d = (r, d')"
    by (auto simp: place_def split: sum.splits)
  with call_place show ?thesis by (auto intro: run_system_step system_step.placed)
next
  case (call_submit now i r)
  obtain v d v' d' where w: "w = (v, d)" "w' = (v', d')" by (cases w; cases w') auto
  from venue_port.submit_effect[OF assms(2) call_submit[unfolded w]] show ?thesis
  proof cases
    case (1 es)
    with w history_steps show ?thesis by simp
  next
    case (2 es)
    obtain x where "run_tx (submit_failed_tx D (br_kind br) now i) (fold (deliver D) es d) = (x, d')"
      using 2 by (cases "run_tx (submit_failed_tx D (br_kind br) now i) (fold (deliver D) es d)") simp
    then have "(system_step D pcfg tcfg)\<^sup>*\<^sup>* (fold (deliver D) es d) d'"
      by (rule run_system_step) (rule system_step.submission_failed)
    from rtranclp_trans[OF history_steps this] w show ?thesis by simp
  qed
next
  case (call_cancel i t d r d' v)
  then show ?thesis by (auto intro: run_system_step system_step.cancel_requested)
next
  case (call_venue_cancel i c)
  obtain v d v' d' where w: "w = (v, d)" "w' = (v', d')" by (cases w; cases w') auto
  from call_venue_cancel w have "d' = d \<or> (\<exists>a j. br_cancel br a j (v, d) = (c, (v', d')))"
    by (auto simp: request_venue_cancel_def split: sum.splits prod.splits)
  with venue_port.cancel_delivers[OF assms(2)] w history_steps show ?thesis by fastforce
next
  case (call_event ev d u d' v)
  then have "d' = deliver D ev d" by (simp add: deliver_def)
  with call_event deliver_step show ?thesis by simp
next
  case (call_reconcile now out)
  from all_steps[OF assms(2), of pcfg tcfg "snd w" "(empty_report, w)" now "list_active_account_ids (snd w)"] call_reconcile
  show ?thesis by (cases w) (simp add: reconcile_all_def db_of_def)
next
  case (call_reconcile_now now i out)
  from guarded_steps[OF assms(2), of pcfg tcfg "snd w" "(empty_report, w)" now i] call_reconcile_now show ?thesis
    by (cases w) (simp add: reconcile_account_now_def db_of_def)
next
  case call_cash
  from transfer_steps_system[OF cash_call_steps[OF this]] show ?thesis .
next
  case call_account
  from account_steps_system[OF account_call_steps[OF this assms(3)]] show ?thesis .
qed

lemma system_steps_ok:
  "(system_step D pcfg tcfg)\<^sup>*\<^sup>* d d' \<Longrightarrow> decimal_arith D \<Longrightarrow> system_ok d \<Longrightarrow> system_ok d'"
  by (induction rule: rtranclp_induct) (auto intro: system_step_ok)

lemma system_run_ok:
  assumes "(system_call D pcfg tcfg br venue pv)\<^sup>*\<^sup>* w w'" "venue_port br D" "decimal_arith D" "system_ok (snd w)"
  shows "system_ok (snd w')"
  using assms(1)
proof (induction rule: rtranclp_induct)
  case (step y z)
  from system_steps_ok[OF system_call_steps[OF step(2) assms(2)] assms(3) step(3)] step(3) show ?case
    by (simp add: system_ok_def)
qed (rule assms(4))

section \<open>Properties\<close>

lemma empty_system_ok: "system_ok (empty_db t)"
  by (simp add: system_ok_def trading_ok_def accounts_inv_def transfers_inv_def empty_db_def schema_defs accounts_ok_def
      broker_accounts_ok_def instruments_ok_def orders_ok_def order_events_ok_def fills_ok_def positions_ok_def
      ledger_ok_def transfers_ok_def in_balance_def orders_wf_def fills_match_def cents_basis_def transfers_posted_def
      opening_posted_def opened_linked_def trades_booked_def fill_entries_total_def trade_cash_def
      entries_referenced_def)

text \<open>
  C1: The services keep each other's invariants. From any database in order (the empty one is), whatever
  the venue, the cash venue and the provisioner answer, any interleaving of calls to the services
  (placing, submitting and cancelling orders, delivering events, reconciling, moving cash, opening,
  activating and resetting accounts) leaves the schema intact, cash equal to the ledger, every order
  well formed with its fills, every settled transfer and every opening posted exactly once, and every
  account that was ever active linked to its venue account.
\<close>

theorem services_keep_invariants:
  assumes "(system_call D pcfg tcfg br venue pv)\<^sup>*\<^sup>* w w'" "venue_port br D" "decimal_arith D" "system_ok (snd w)"
  shows "schema_ok (snd w') \<and> in_balance (snd w') \<and> orders_wf (snd w') \<and> fills_match (snd w')
    \<and> transfers_posted (snd w') \<and> opening_posted (snd w') \<and> opened_linked (snd w') \<and> system_ok (snd w')
    \<and> system_ok (empty_db t)"
  using system_run_ok[OF assms] empty_system_ok
  by (auto simp: system_ok_def trading_ok_def accounts_inv_def transfers_inv_def)

text \<open>
  C2: Cash is explained. After any interleaving of service calls, the cash of an account is its starting
  cash if it was ever activated, plus its settled deposits less its settled withdrawals, plus the
  proceeds and less the cost and the fees of its fills, to the cent; nothing else moves money.
\<close>

theorem cash_fully_explained:
  assumes "(system_call D pcfg tcfg br venue pv)\<^sup>*\<^sup>* w w'" "venue_port br D" "decimal_arith D" "system_ok (snd w)"
    "get_account (snd w') i = Some a"
  shows "acc_cash a = (if acc_status a = ACTIVE \<or> acc_status a = ARCHIVED then acc_starting a else 0)
    + settled_net (snd w') i + trade_cash (snd w') i"
  using cash_sources[OF system_run_ok[OF assms(1-4)] assms(5)] by (simp add: opened_def)

lemma demo_system_ok: "system_ok demo_placed"
proof -
  have "accounts_inv demo_placed"
    using demo_placed_ok by (simp add: accounts_inv_def transfers_inv_def transfers_posted_def opening_posted_def
        opened_linked_def openings_def opened_def account_ref_def transfer_ref_def get_broker_account_def
        demo_placed_def demo_defs)
  then show ?thesis
    using demo_trading_ok by (simp add: system_ok_def trades_booked_def fill_entries_total_def trade_cash_def
        fill_ref_def entries_referenced_def demo_placed_def demo_defs)
qed

lemma demo_call:
  "(system_call js_decimal demo_config demo_limits recalling_venue settling_venue funding_venue)\<^sup>*\<^sup>*
     ((), demo_placed) ((), demo_settled)"
  by (rule r_into_rtranclp) (rule system_call.call_event[OF demo_delivery])

theorem services_keep_invariants_witness: "system_ok demo_settled"
  using services_keep_invariants[OF demo_call recalling.venue_port_axioms js.decimal_arith_axioms] demo_system_ok
  by simp

theorem cash_fully_explained_witness:
  "get_cached_cash demo_settled 0 = Inr 80050 \<and> 100000 + settled_net demo_settled 0 + trade_cash demo_settled 0 = 80050"
proof -
  let ?a = "demo_account\<lparr>acc_cash := 80050\<rparr>"
  have g: "get_account (snd ((), demo_settled)) 0 = Some ?a"
    by (simp add: get_account_def demo_settled_def demo_account_def)
  have "system_ok (snd ((), demo_placed))" by (simp add: demo_system_ok)
  from cash_fully_explained[OF demo_call recalling.venue_port_axioms js.decimal_arith_axioms this g] g
  show ?thesis by (simp add: get_cached_cash_def demo_account_def)
qed

end
