(* ===== verification/Account_Reset.thy ===== *)
theory Account_Reset
  imports System
begin

text \<open>
  \<^verbatim>\<open>resetAccount\<close> of \<^verbatim>\<open>src/server/api/portfolio.ts\<close>: cancel what can be cancelled, wait for the outcomes,
  reconcile once, and archive only when nothing is open. The transactions that other sessions commit
  while the workflow waits are parameters: \<open>pause k\<close> for the k-th half second of waiting, \<open>gap\<close> between
  the last look at the open orders and the archive transaction, while the venue is asked to cancel the
  cash transfers.
\<close>

definition open_orders :: "uuid \<Rightarrow> 'v \<times> db \<Rightarrow> order list" where
  "open_orders i w = list_orders (snd w) i True order_page"

definition cancel_for_reset ::
    "decimal_lib \<Rightarrow> 'v broker \<Rightarrow> time \<Rightarrow> order \<Rightarrow> 'v \<times> db \<Rightarrow> unit result \<times> ('v \<times> db)" where
  "cancel_for_reset D br now ord w =
     (if ord_state ord = PENDING_SUBMISSION \<or> ord_state ord = CANCEL_PENDING then (Inr (), w)
      else
        wbind (case run_tx (request_cancel D (ord_id ord) now) (snd w) of (r, d) \<Rightarrow> (r, (fst w, d))) (\<lambda>_ w1.
        wbind (request_venue_cancel br (ord_id ord) w1) (\<lambda>_ w2. (Inr (), w2))))"

text \<open>The bounded wait; the argument counts the attempts that are left.\<close>

definition reset_attempts :: nat where "reset_attempts = 10"

fun await_outcomes :: "(nat \<Rightarrow> 'v \<times> db \<Rightarrow> 'v \<times> db) \<Rightarrow> uuid \<Rightarrow> nat \<Rightarrow> 'v \<times> db \<Rightarrow> 'v \<times> db" where
  "await_outcomes pause i 0 w = w"
| "await_outcomes pause i (Suc k) w =
     (if open_orders i w = [] then w else await_outcomes pause i k (pause k w))"

definition reset_account ::
    "decimal_lib \<Rightarrow> 'v broker \<Rightarrow> 'v cash_venue \<Rightarrow> 'v provisioner \<Rightarrow> (nat \<Rightarrow> 'v \<times> db \<Rightarrow> 'v \<times> db)
     \<Rightarrow> ('v \<times> db \<Rightarrow> 'v \<times> db) \<Rightarrow> time \<Rightarrow> uuid \<Rightarrow> 'v \<times> db \<Rightarrow> account result \<times> ('v \<times> db)" where
  "reset_account D br venue pv pause gap now u w =
     (case get_active_for_user (snd w) u of
        None \<Rightarrow> (app_error DOMAIN_RULE ACCOUNT_NOT_ACTIVE, w)
      | Some account \<Rightarrow>
          let i = acc_id account in
          wbind (each (cancel_for_reset D br now) (open_orders i w) w) (\<lambda>_ w1.
            let w2 = await_outcomes pause i reset_attempts w1;
                w3 = (if open_orders i w2 = [] then w2 else snd (reconcile_all D br now w2))
            in if open_orders i w3 \<noteq> [] then (Inl (AppError CONFLICT None), w3)
               else
                 (case cancel_pending_at_venue venue i w3 of
                    (_, w4) \<Rightarrow> archive_and_reprovision pv archive_hooks u (gap w4))))"

section \<open>Archiving always goes through\<close>

lemma cancel_locally_succeeds:
  assumes "schema_ok d"
  obtains m d' where "cancel_locally p (n, d) = Inr (m, d')"
proof (cases "get_transfer d (tr_id p)")
  case None
  then show thesis by (intro that) (simp add: cancel_locally_def)
next
  case (Some t)
  show thesis
  proof (cases "tr_state t = PENDING")
    case True
    let ?f = "state_patch CANCELED (Some reset_cancel_reason) None (db_now d)"
    have ok: "transfers_ok (transfers d)" using assms by (simp add: schema_ok_def)
    have "transfer_check (?f r)" if "r \<in> set (transfers d)" "tr_id r = tr_id p" for r
    proof -
      have "r = t" using transfer_unique[OF assms Some that] .
      with ok that True show ?thesis
        by (auto simp: transfers_ok_def list_all_iff transfer_check_def state_patch_def or_else_def)
    qed
    then have "transfers_ok (modify (\<lambda>r. tr_id r = tr_id p) ?f (transfers d))"
      using ok by (auto simp: transfers_ok_def map_modify list_all_iff unique_index_modify elim!: in_set_modifyE)
    then have "set_transfer_state (tr_id p) CANCELED (Some reset_cancel_reason) None d
        = Inr (retransfer (tr_id p) ?f d)" by (simp add: set_transfer_state_Inr)
    with Some True show thesis by (intro that) (simp add: cancel_locally_def)
  qed (use Some in \<open>intro that, simp add: cancel_locally_def\<close>)
qed

lemma cancel_all_succeeds:
  "transfers_inv d \<Longrightarrow> \<exists>m d'. cancel_all_locally ps (n, d) = Inr (m, d')"
proof (induction ps arbitrary: n d)
  case (Cons p ps)
  from cancel_locally_succeeds[OF transfers_invD(1)[OF Cons(2)]] obtain m d1 where
    c: "cancel_locally p (n, d) = Inr (m, d1)" .
  from cancel_one_write[OF c] Cons(2) row_write_inv have "transfers_inv d1" by blast
  from Cons(1)[OF this] c show ?case by simp
qed simp

lemma archive_succeeds:
  assumes "accounts_inv d" "get_active_for_user d u = Some a"
  obtains d' where "archive_tx archive_hooks u d = Inr (a, d')" "orders d' = orders d"
    "get_account d' (acc_id a) = Some (a\<lparr>acc_status := ARCHIVED\<rparr>)"
proof -
  from assms(1) have inv: "transfers_inv d" "schema_ok d" by (simp_all add: accounts_inv_def transfers_inv_def)
  from assms(2) have a: "a \<in> set (accounts d)" "acc_status a = ACTIVE"
    by (auto simp: get_active_for_user_def dest: find_Some_in_set)
  have g: "get_account d (acc_id a) = Some a"
    using account_key_unique[OF inv(2) a(1)] by (simp add: get_account_def)
  from cancel_all_succeeds[OF inv(1)] obtain m d1 where
    c: "cancel_pending_for_account (acc_id a) d = Inr (m, d1)" by (metis cancel_pending_for_account_def)
  from row_writes_frame[OF reset_writes[OF c]] obtain ts where d1: "d1 = d\<lparr>transfers := ts\<rparr>" by blast
  let ?f = "\<lambda>x. x\<lparr>acc_status := ARCHIVED\<rparr>"
  let ?rows = "modify (\<lambda>x. acc_id x = acc_id a) ?f (accounts d)"
  let ?d2 = "(archive_broker_account (acc_id a) d1)\<lparr>accounts := ?rows\<rparr>"
  have "accounts_ok (accounts d)" using inv(2) by (simp add: schema_ok_def)
  then have "accounts_ok ?rows"
    by (simp add: accounts_ok_def map_modify unique_index_shrink open_account_def)
  then have "set_status (acc_id a) ARCHIVED (archive_broker_account (acc_id a) d1) = Inr ?d2"
    by (simp add: set_status_Inr archive_broker_account_def d1)
  with assms(2) g c a(2) have "archive_tx archive_hooks u d = Inr (a, ?d2)"
    by (simp add: archive_tx_def lock_account_def archive_hooks_def)
  moreover have "get_account ?d2 (acc_id a) = Some (?f a)"
    using g by (simp add: get_account_def find_modify[where key = acc_id])
  ultimately show thesis by (intro that) (simp_all add: archive_broker_account_def d1)
qed

text \<open>
  C18: A reset is blocked by nothing but the checks before it. The archive transaction of a user with an
  active account always commits, whatever orders are open on it, and leaves them open: an order placed
  after the last look at the open orders stays behind, open, on the archived account.
\<close>

theorem archive_ignores_open_orders:
  assumes "accounts_inv d" "get_active_for_user d u = Some a"
  shows "\<exists>d'. archive_tx archive_hooks u d = Inr (a, d') \<and> orders d' = orders d
    \<and> get_account d' (acc_id a) = Some (a\<lparr>acc_status := ARCHIVED\<rparr>)
    \<and> open_orders (acc_id a) (v, d') = open_orders (acc_id a) (v, d)"
proof -
  from archive_succeeds[OF assms] obtain d' where d': "archive_tx archive_hooks u d = Inr (a, d')"
    "orders d' = orders d" "get_account d' (acc_id a) = Some (a\<lparr>acc_status := ARCHIVED\<rparr>)" .
  then have "open_orders (acc_id a) (v, d') = open_orders (acc_id a) (v, d)"
    by (simp add: open_orders_def list_orders_def)
  with d' show ?thesis by blast
qed

theorem archive_ignores_open_orders_witness:
  "\<exists>d'. archive_tx archive_hooks 7 demo_placed = Inr (demo_account, d') \<and> ord_state demo_order \<in> open_states
     \<and> open_orders 0 ((), d') = [demo_order]"
proof -
  have "accounts_inv demo_placed" using demo_system_ok by (simp add: system_ok_def)
  moreover have "get_active_for_user demo_placed 7 = Some demo_account"
    by (simp add: get_active_for_user_def demo_placed_def demo_defs)
  moreover have "open_orders 0 ((), demo_placed) = [demo_order]"
    by (simp add: open_orders_def list_orders_def demo_placed_def demo_order_def open_states_def order_page_def)
  moreover have "acc_id demo_account = 0" "ord_state demo_order \<in> open_states"
    by (simp_all add: demo_account_def demo_order_def open_states_def)
  ultimately show ?thesis using archive_ignores_open_orders[of demo_placed 7 demo_account "()"] by auto
qed

section \<open>The workflow\<close>

lemma open_orders_none:
  "open_orders i w = [] \<longleftrightarrow> list_all (\<lambda>r. ord_account r = i \<longrightarrow> ord_state r \<notin> open_states) (orders (snd w))"
proof -
  have "take 100 (sort_key k xs) = [] \<longleftrightarrow> xs = []" for k :: "order \<Rightarrow> int" and xs
    using arg_cong[of "sort_key k xs" "[]" length] by (cases xs) auto
  then show ?thesis
    by (auto simp: open_orders_def list_orders_def order_page_def filter_empty_conv list_all_iff)
qed

text \<open>Every part of the workflow is a run of service calls, when what others do meanwhile is one.\<close>

abbreviation service_run where
  "service_run D pcfg tcfg br venue pv \<equiv> (system_call D pcfg tcfg br venue pv)\<^sup>*\<^sup>*"

lemma cancel_for_reset_run:
  assumes "service_run D pcfg tcfg br venue pv w0 w"
  shows "service_run D pcfg tcfg br venue pv w0 (snd (cancel_for_reset D br now ord w))"
proof -
  let ?P = "service_run D pcfg tcfg br venue pv w0"
  obtain r d where c: "run_tx (request_cancel D (ord_id ord) now) (snd w) = (r, d)" by (rule prod.exhaust)
  have "system_call D pcfg tcfg br venue pv w (fst w, d)"
    using system_call.call_cancel[OF c, of pcfg tcfg br venue pv "fst w"] by simp
  with assms have "?P (fst w, d)" by (rule rtranclp.rtrancl_into_rtrancl)
  moreover have "?P (snd (request_venue_cancel br (ord_id ord) x))" if "?P x" for x
  proof -
    obtain q w2 where "request_venue_cancel br (ord_id ord) x = (q, w2)" by (rule prod.exhaust)
    with system_call.call_venue_cancel[OF this] that show ?thesis by (auto intro: rtranclp.rtrancl_into_rtrancl)
  qed
  ultimately show ?thesis
    using assms by (auto simp: cancel_for_reset_def c intro!: wbind_keeps[of ?P])
qed

lemma await_run:
  assumes "\<And>k x. service_run D pcfg tcfg br venue pv x (pause k x)"
  shows "service_run D pcfg tcfg br venue pv w (await_outcomes pause i n w)"
proof (induction n arbitrary: w)
  case (Suc n)
  from rtranclp_trans[OF assms Suc] show ?case by simp
qed simp

text \<open>The world in which the workflow looked for open orders for the last time.\<close>

lemma reset_account_cases:
  assumes "reset_account D br venue pv pause gap now u w = (res, w')"
    and pause: "\<And>k x. service_run D pcfg tcfg br venue pv x (pause k x)"
  obtains (inactive) "get_active_for_user (snd w) u = None" "w' = w" "res = app_error DOMAIN_RULE ACCOUNT_NOT_ACTIVE"
  | (stopped) a e where "get_active_for_user (snd w) u = Some a" "res = Inl e" "service_run D pcfg tcfg br venue pv w w'"
  | (blocked) a where "get_active_for_user (snd w) u = Some a" "service_run D pcfg tcfg br venue pv w w'"
      "open_orders (acc_id a) w' \<noteq> []" "res = Inl (AppError CONFLICT None)"
  | (archived) a w3 w4 where "get_active_for_user (snd w) u = Some a" "service_run D pcfg tcfg br venue pv w w3"
      "open_orders (acc_id a) w3 = []" "snd w4 = snd w3" "service_run D pcfg tcfg br venue pv w w4"
      "archive_and_reprovision pv archive_hooks u (gap w4) = (res, w')"
proof (cases "get_active_for_user (snd w) u")
  case None
  show thesis by (rule inactive[OF None]) (use assms(1) None in \<open>simp_all add: reset_account_def\<close>)
next
  case (Some a)
  let ?i = "acc_id a" and ?R = "service_run D pcfg tcfg br venue pv w"
  obtain r1 w1 where e: "each (cancel_for_reset D br now) (open_orders ?i w) w = (r1, w1)" by (rule prod.exhaust)
  have "?R (snd (each (cancel_for_reset D br now) (open_orders ?i w) w))"
    by (rule each_keeps[of ?R]) (auto intro: cancel_for_reset_run)
  with e have w1: "?R w1" by simp
  show thesis
  proof (cases r1)
    case (Inl x)
    with assms(1) Some e have "res = Inl x" "w' = w1" by (simp_all add: reset_account_def Let_def)
    with stopped[OF Some] w1 show thesis by blast
  next
    case (Inr x)
    let ?w2 = "await_outcomes pause ?i reset_attempts w1"
    have w2: "?R ?w2" using rtranclp_trans[OF w1 await_run[OF pause]] .
    let ?w3 = "if open_orders ?i ?w2 = [] then ?w2 else snd (reconcile_all D br now ?w2)"
    obtain out v where "reconcile_all D br now ?w2 = (out, v)" by (rule prod.exhaust)
    with system_call.call_reconcile[OF this] w2 have w3: "?R ?w3" by (auto intro: rtranclp.rtrancl_into_rtrancl)
    obtain n w4 where c: "cancel_pending_at_venue venue ?i ?w3 = (n, w4)" by (rule prod.exhaust)
    have w4: "snd w4 = snd ?w3" using c
      by (auto simp: cancel_pending_at_venue_def Let_def split: option.splits prod.splits)
    have run4: "?R w4"
      using w3 system_call.call_cash[OF cash_call.cancel_at_venue[OF c]] by (rule rtranclp.rtrancl_into_rtrancl)
    show thesis
    proof (cases "open_orders ?i ?w3 = []")
      case True
      with assms(1) Some e Inr c have "archive_and_reprovision pv archive_hooks u (gap w4) = (res, w')"
        by (simp add: reset_account_def Let_def)
      from archived[OF Some w3 True w4 run4 this] show thesis .
    next
      case False
      with assms(1) Some e Inr have "w' = ?w3" "res = Inl (AppError CONFLICT None)"
        by (simp_all add: reset_account_def Let_def)
      with blocked[OF Some] w3 False show thesis by simp
    qed
  qed
qed

text \<open>
  A reset waits for the outcomes. Whatever other sessions do during the waits, a reset that returns a
  fresh account keeps every invariant of the program; and when nothing is committed between the last
  look at the open orders and the archive transaction, no order of the archived account is left open:
  with orders still open after the wait and the reconciliation, the reset is refused.
\<close>

theorem reset_waits_for_outcomes:
  assumes "reset_account D br venue pv pause gap now u w = (res, w')"
    "\<And>k x. service_run D pcfg tcfg br venue pv x (pause k x)" "\<And>x. service_run D pcfg tcfg br venue pv x (gap x)"
    "venue_port br D" "decimal_arith D" "system_ok (snd w)" "get_active_for_user (snd w) u = Some a"
  shows "system_ok (snd w') \<and> service_run D pcfg tcfg br venue pv w w'
    \<and> (\<forall>fresh. res = Inr fresh \<longrightarrow> (\<forall>x. gap x = x) \<longrightarrow> open_orders (acc_id a) w' = [])"
proof -
  let ?R = "service_run D pcfg tcfg br venue pv"
  have ok: "system_ok (snd x)" if "?R w x" for x
    by (rule system_run_ok[OF that assms(4-6)])
  from assms(1,2) show ?thesis
  proof (cases rule: reset_account_cases)
    case (archived b w3 w4)
    have run: "?R w (gap w4)" by (rule rtranclp_trans[OF archived(5) assms(3)])
    have "account_call pv (gap w4) w'" by (rule account_call.reset[OF archived(6)])
    with run have run': "?R w w'" by (auto intro: rtranclp.rtrancl_into_rtrancl system_call.call_account)
    have "open_orders (acc_id a) w' = []" if "gap w4 = w4"
    proof -
      obtain v d v' d' where w: "w4 = (v, d)" "w' = (v', d')" by (cases w4; cases w') auto
      from ok[OF archived(5)] w have inv: "accounts_inv d" by (simp add: system_ok_def)
      from archived(6) that w have "archive_and_reprovision pv archive_hooks u (v, d) = (res, (v', d'))" by simp
      from reset_steps[OF this inv] have "account_step\<^sup>*\<^sup>* d d'" .
      then have "orders d' = orders d \<and> accounts_inv d'"
      proof (induction rule: rtranclp_induct)
        case (step y z)
        then have "schema_ok y" by (simp add: accounts_inv_def transfers_inv_def)
        from account_step_same[OF step(2) this] account_step_inv[OF step(2)] step(3) show ?case
          by (simp add: same_trading_def)
      qed (simp add: inv)
      with archived(1,3,4) assms(7) w show ?thesis by (simp add: open_orders_none)
    qed
    then have "(\<forall>x. gap x = x) \<longrightarrow> open_orders (acc_id a) w' = []" by blast
    with run' ok[OF run'] show ?thesis by blast
  next
    case (stopped b e)
    with ok show ?thesis by simp
  next
    case (blocked b)
    with ok show ?thesis by simp
  qed (use assms(6,7) in simp)
qed

theorem reset_waits_for_outcomes_witness:
  "\<exists>res w'. reset_account js_decimal recalling_venue settling_venue funding_venue (\<lambda>k x. x) (\<lambda>x. x) 9 7 ((), demo_placed)
      = (res, w') \<and> system_ok (snd w') \<and> (\<forall>fresh. res = Inr fresh \<longrightarrow> open_orders 0 w' = [])"
proof -
  obtain res w' where r: "reset_account js_decimal recalling_venue settling_venue funding_venue (\<lambda>k x. x) (\<lambda>x. x) 9 7
      ((), demo_placed) = (res, w')" by (rule prod.exhaust)
  have "get_active_for_user (snd ((), demo_placed)) 7 = Some demo_account" "acc_id demo_account = 0"
    by (simp_all add: get_active_for_user_def demo_placed_def demo_defs)
  with reset_waits_for_outcomes[OF r _ _ recalling.venue_port_axioms js.decimal_arith_axioms, of demo_config demo_limits]
    demo_system_ok r show ?thesis by auto
qed

end
