(* ===== verification/Alert_Rules.thy ===== *)
theory Alert_Rules
  imports Market_Data
begin

text \<open>
  \<^verbatim>\<open>src/core/alerts/rules.ts\<close>: the threshold of a price alert, its one-shot life cycle and the decision
  whether a quote triggers it.
\<close>

datatype alert_direction = Above | Below

datatype alert_state = Alert_active | Alert_triggered | Alert_canceled

definition max_active_alerts_per_user :: nat where "max_active_alerts_per_user = 50"
definition alert_max_quote_age_ms :: time where "alert_max_quote_age_ms = 15 * 60000"

section \<open>Thresholds\<close>

definition threshold_re :: "string \<Rightarrow> bool" where
  "threshold_re s \<longleftrightarrow> decimal_re False (\<lambda>n. n \<le> 10) (\<lambda>n. n \<le> 4) s"

definition has_nonzero_digit :: "string \<Rightarrow> bool" where
  "has_nonzero_digit s \<longleftrightarrow> list_ex (\<lambda>c. is_digit c \<and> c \<noteq> CHR ''0'') s"

text \<open>The raw value is a string, or something else (\<open>None\<close>).\<close>

definition parse_alert_threshold :: "string option \<Rightarrow> px result" where
  "parse_alert_threshold raw =
     (case raw of
        None \<Rightarrow> app_error VALIDATION INVALID_ALERT_PRICE
      | Some s \<Rightarrow>
          if \<not> threshold_re s then app_error VALIDATION INVALID_ALERT_PRICE
          else if \<not> has_nonzero_digit s then app_error VALIDATION INVALID_ALERT_PRICE
          else px_from_string s)"

definition check_active_alert_limit :: "nat \<Rightarrow> nat \<Rightarrow> unit result" where
  "check_active_alert_limit active_count cap =
     (if active_count \<ge> cap then app_error DOMAIN_RULE ALERT_LIMIT_REACHED else Inr ())"

section \<open>The life cycle and the trigger\<close>

fun alert_transitions :: "alert_state \<Rightarrow> alert_state list" where
  "alert_transitions Alert_active = [Alert_triggered, Alert_canceled]"
| "alert_transitions Alert_triggered = [Alert_canceled]"
| "alert_transitions Alert_canceled = []"

definition can_transition_alert :: "alert_state \<Rightarrow> alert_state \<Rightarrow> bool" where
  "can_transition_alert from to \<longleftrightarrow> to \<in> set (alert_transitions from)"

definition condition_holds :: "alert_direction \<Rightarrow> px \<Rightarrow> px \<Rightarrow> bool" where
  "condition_holds dir threshold price =
     (let cmp = px_compare price threshold in if dir = Above then cmp \<ge> 0 else cmp \<le> 0)"

datatype alert_hold_reason = Not_active | Market_not_open | No_quote | Stale | Condition_not_met

datatype alert_evaluation = Trigger px time | Hold alert_hold_reason

definition evaluate_alert ::
    "alert_state \<Rightarrow> alert_direction \<Rightarrow> px \<Rightarrow> quote option \<Rightarrow> time \<Rightarrow> market_status \<Rightarrow> time \<Rightarrow> alert_evaluation" where
  "evaluate_alert st dir threshold quote now status max_age =
     (if st \<noteq> Alert_active then Hold Not_active
      else if status \<noteq> Market_open then Hold Market_not_open
      else case quote of
        None \<Rightarrow> Hold No_quote
      | Some q \<Rightarrow>
          if quote_age_ms q now > max_age then Hold Stale
          else if \<not> condition_holds dir threshold (qt_last q) then Hold Condition_not_met
          else Trigger (qt_last q) (qt_ts q))"

section \<open>Correctness\<close>

lemma condition_holds_iff:
  "condition_holds dir threshold price \<longleftrightarrow> (if dir = Above then threshold \<le> price else price \<le> threshold)"
  by (auto simp: condition_holds_def px_compare_def Let_def sgn_if)

lemma evaluate_alert_Trigger:
  "evaluate_alert st dir threshold quote now status max_age = Trigger p t \<longleftrightarrow>
     st = Alert_active \<and> status = Market_open
     \<and> (\<exists>q. quote = Some q \<and> quote_age_ms q now \<le> max_age \<and> condition_holds dir threshold (qt_last q)
          \<and> p = qt_last q \<and> t = qt_ts q)"
  by (auto simp: evaluate_alert_def split: option.splits)

lemma read_nat_positive:
  assumes "list_all is_digit s"
  shows "0 < read_nat s \<longleftrightarrow> has_nonzero_digit s"
  using assms
proof (induction s)
  case (Cons c s)
  have "0 < digit_val c \<longleftrightarrow> c \<noteq> CHR ''0''" if "is_digit c"
  proof -
    have "of_char c = (48::nat) \<longleftrightarrow> c = CHR ''0''"
      using of_char_eq_iff[of c "CHR ''0''", where 'a = nat] by simp
    with that show ?thesis by (auto simp: digit_val_def is_digit_def)
  qed
  with Cons show ?case by (auto simp: read_nat_Cons has_nonzero_digit_def)
qed (simp add: has_nonzero_digit_def)

lemma nonzero_digits:
  assumes "match_decimal s = Some (neg, w, f)"
  shows "has_nonzero_digit s \<longleftrightarrow> has_nonzero_digit w \<or> has_nonzero_digit f"
proof -
  let ?nz = has_nonzero_digit
  let ?body = "if neg then tl s else s"
  have neg: "neg \<longleftrightarrow> s \<noteq> [] \<and> hd s = CHR ''-''"
    using assms by (auto simp: match_decimal_def Let_def split: if_splits list.splits)
  have w: "w = takeWhile is_digit ?body" and f: "f = [] \<and> dropWhile is_digit ?body = []
      \<or> (\<exists>c. dropWhile is_digit ?body = c # f \<and> is_point c)"
    using assms unfolding neg by (auto simp: match_decimal_def Let_def split: if_splits list.splits)
  have "?nz s \<longleftrightarrow> ?nz ?body"
    using neg by (cases s) (auto simp: has_nonzero_digit_def)
  also have "\<dots> \<longleftrightarrow> ?nz (takeWhile is_digit ?body @ dropWhile is_digit ?body)" by simp
  also have "\<dots> \<longleftrightarrow> ?nz (takeWhile is_digit ?body) \<or> ?nz (dropWhile is_digit ?body)"
    by (simp only: has_nonzero_digit_def list_ex_append)
  also have "takeWhile is_digit ?body = w" using w by simp
  also have "?nz (dropWhile is_digit ?body) \<longleftrightarrow> ?nz f"
    using f by (elim disjE exE conjE) (simp_all only: has_nonzero_digit_def is_point_def list_ex_iff list.set ball_simps bex_simps empty_iff bex_empty not_digit_punctuation simp_thms)
  finally show ?thesis .
qed

lemma scaled_positive:
  assumes "threshold_re s"
  shows "0 < scaled 4 s \<longleftrightarrow> has_nonzero_digit s"
proof -
  from assms obtain w f where m: "match_decimal s = Some (False, w, f)"
    by (auto simp: threshold_re_def decimal_re_def split: option.splits)
  note digits = match_decimal_digits[OF m]
  have "has_nonzero_digit (pad_end 4 f) \<longleftrightarrow> has_nonzero_digit f"
    by (auto simp: pad_end_def has_nonzero_digit_def list_ex_iff)
  moreover have "list_all is_digit (pad_end 4 f)" using digits by (auto simp: pad_end_def list_all_iff)
  ultimately have "0 < read_nat (pad_end 4 f) \<longleftrightarrow> has_nonzero_digit f" using read_nat_positive by blast
  moreover have "0 < read_nat w \<longleftrightarrow> has_nonzero_digit w" using digits read_nat_positive by blast
  ultimately have "0 < read_nat w * 10 ^ 4 + read_nat (pad_end 4 f) \<longleftrightarrow> has_nonzero_digit s"
    unfolding nonzero_digits[OF m] by auto
  moreover have "scaled 4 s = int (read_nat w * 10 ^ 4 + read_nat (pad_end 4 f))"
    by (simp add: scaled_def m Let_def)
  ultimately show ?thesis by (simp only: of_nat_0_less_iff)
qed

text \<open>
  Parsing a threshold is exact and total: a printed price parses back to it exactly when it is positive
  and has at most ten whole digits, and whatever the client sends, the result is the VALIDATION error or
  a positive price that fits NUMERIC(18,4).
\<close>

theorem threshold_exact:
  "parse_alert_threshold (Some (px_to_string p))
     = (if 0 < p \<and> p < 10 ^ 14 then Inr p else app_error VALIDATION INVALID_ALERT_PRICE)
   \<and> (case parse_alert_threshold raw of
        Inl e \<Rightarrow> e = AppError VALIDATION (Some INVALID_ALERT_PRICE)
      | Inr q \<Rightarrow> 0 < q \<and> q < 10 ^ 14)"
proof
  have "nat \<bar>p\<bar> div 10000 < 10 ^ 10 \<longleftrightarrow> nat \<bar>p\<bar> < 10 ^ 14" by (simp add: div_less_iff_less_mult)
  then have re: "threshold_re (px_to_string p) \<longleftrightarrow> 0 \<le> p \<and> p < 10 ^ 14"
    by (auto simp: threshold_re_def px_to_string_def decimal_re_fixed_text length_show_nat_iff)
  moreover have "has_nonzero_digit (px_to_string p) \<longleftrightarrow> 0 < p" if "threshold_re (px_to_string p)"
    using scaled_positive[OF that] by (simp add: px_to_string_def)
  moreover have "px_from_string (px_to_string p) = Inr p" if "0 < p"
    using that by (simp add: px_from_string_def px_to_string_def px_re_def decimal_re_fixed_text)
  ultimately show "parse_alert_threshold (Some (px_to_string p))
     = (if 0 < p \<and> p < 10 ^ 14 then Inr p else app_error VALIDATION INVALID_ALERT_PRICE)"
    by (auto simp: parse_alert_threshold_def)
  show "case parse_alert_threshold raw of
        Inl e \<Rightarrow> e = AppError VALIDATION (Some INVALID_ALERT_PRICE)
      | Inr q \<Rightarrow> 0 < q \<and> q < 10 ^ 14"
  proof (cases raw)
    case (Some s)
    have "px_re s" if "threshold_re s"
      using that by (auto simp: threshold_re_def px_re_def decimal_re_def split: option.splits)
    moreover have "scaled 4 s < 10 ^ 14" if "threshold_re s"
      using decimal_re_bound[of 10 4 s] that by (simp add: threshold_re_def)
    ultimately show ?thesis
      using Some scaled_positive[of s] by (auto simp: parse_alert_threshold_def px_from_string_def app_error_def)
  qed (simp add: parse_alert_threshold_def app_error_def)
qed

end
