(* ===== verification/Alerts.thy ===== *)
theory Alerts
  imports Alert_Rules Database
begin

text \<open>
  \<^verbatim>\<open>src/core/alerts/service.ts\<close> and the table it works on (\<^verbatim>\<open>price_alerts\<close> of \<^verbatim>\<open>src/infra/db/schema.ts\<close>,
  \<^verbatim>\<open>src/infra/db/repositories/price-alerts.ts\<close>). Alerts touch no other table, so their store is a
  record of its own; the quotes are a port, what the cached provider answers during the call.
\<close>

section \<open>The table\<close>

record price_alert =
  pa_id :: uuid
  pa_user :: uuid
  pa_symbol :: string
  pa_direction :: alert_direction
  pa_threshold :: px
  pa_state :: alert_state
  pa_created :: time
  pa_triggered :: "time option"
  pa_price :: "px option"
  pa_quote_at :: "time option"
  pa_read :: "time option"
  pa_canceled :: "time option"

record alert_store =
  al_rows :: "price_alert list"
  al_next :: uuid
  al_now :: time

record new_alert =
  na_user :: uuid
  na_symbol :: string
  na_direction :: alert_direction
  na_threshold :: px

definition is_lower :: "char \<Rightarrow> bool" where
  "is_lower c \<longleftrightarrow> of_char c \<ge> (97::nat) \<and> of_char c \<le> (122::nat)"

definition alert_check :: "price_alert \<Rightarrow> bool" where
  "alert_check r \<longleftrightarrow> pa_threshold r > 0 \<and> pa_threshold r < 10 ^ 18
     \<and> list_all (\<lambda>c. \<not> is_lower c) (pa_symbol r)
     \<and> (pa_triggered r = None \<longleftrightarrow> pa_price r = None) \<and> (pa_triggered r = None \<longleftrightarrow> pa_quote_at r = None)
     \<and> (pa_state r = Alert_triggered \<longrightarrow> pa_triggered r \<noteq> None)
     \<and> (pa_state r = Alert_active \<longrightarrow> pa_triggered r = None)
     \<and> pred_option (\<lambda>p. p > 0 \<and> p < 10 ^ 18) (pa_price r)
     \<and> (pa_read r \<noteq> None \<longrightarrow> pa_triggered r \<noteq> None)
     \<and> (pa_state r = Alert_canceled \<longleftrightarrow> pa_canceled r \<noteq> None)"

definition active_terms :: "price_alert \<Rightarrow> (uuid \<times> string \<times> alert_direction \<times> px) option" where
  "active_terms r =
     (if pa_state r = Alert_active then Some (pa_user r, pa_symbol r, pa_direction r, pa_threshold r) else None)"

definition alerts_ok :: "price_alert list \<Rightarrow> bool" where
  "alerts_ok rs \<longleftrightarrow> list_all alert_check rs \<and> distinct (map pa_id rs) \<and> unique_index active_terms rs"

section \<open>The repository\<close>

definition count_active :: "alert_store \<Rightarrow> uuid \<Rightarrow> nat" where
  "count_active s u = length (filter (\<lambda>r. pa_user r = u \<and> pa_state r = Alert_active) (al_rows s))"

definition find_active_duplicate :: "alert_store \<Rightarrow> new_alert \<Rightarrow> price_alert option" where
  "find_active_duplicate s inp =
     find (\<lambda>r. pa_user r = na_user inp \<and> pa_symbol r = na_symbol inp \<and> pa_direction r = na_direction inp
             \<and> pa_threshold r = na_threshold inp \<and> pa_state r = Alert_active) (al_rows s)"

definition fresh_alert :: "new_alert \<Rightarrow> alert_store \<Rightarrow> price_alert" where
  "fresh_alert inp s = \<lparr>pa_id = al_next s, pa_user = na_user inp, pa_symbol = na_symbol inp,
     pa_direction = na_direction inp, pa_threshold = na_threshold inp, pa_state = Alert_active,
     pa_created = al_now s, pa_triggered = None, pa_price = None, pa_quote_at = None, pa_read = None,
     pa_canceled = None\<rparr>"

text \<open>\<open>INSERT \<dots> ON CONFLICT DO NOTHING\<close>: checks raise, a conflict on the active terms returns nothing.\<close>

definition insert_alert :: "new_alert \<Rightarrow> alert_store \<Rightarrow> (price_alert option \<times> alert_store) result" where
  "insert_alert inp s =
     (let r = fresh_alert inp s
      in if alert_check r \<and> find_active_duplicate s inp \<noteq> None then Inr (None, s)
         else checked ''price_alerts'' (alerts_ok (al_rows s @ [r]))
                (Some r, s\<lparr>al_rows := al_rows s @ [r], al_next := al_next s + 1\<rparr>))"

definition get_alert :: "alert_store \<Rightarrow> uuid \<Rightarrow> price_alert option" where
  "get_alert s i = find (\<lambda>r. pa_id r = i) (al_rows s)"

definition list_alerts :: "alert_store \<Rightarrow> uuid \<Rightarrow> nat \<Rightarrow> price_alert list" where
  "list_alerts s u n =
     take n (sort_key (\<lambda>r. (- pa_created r, - int (pa_id r)))
       (filter (\<lambda>r. pa_user r = u \<and> pa_state r \<noteq> Alert_canceled) (al_rows s)))"

definition list_active_for_user :: "alert_store \<Rightarrow> uuid \<Rightarrow> price_alert list" where
  "list_active_for_user s u = filter (\<lambda>r. pa_user r = u \<and> pa_state r = Alert_active) (al_rows s)"

definition list_active_symbols :: "alert_store \<Rightarrow> string list" where
  "list_active_symbols s =
     sort (remdups (map pa_symbol (filter (\<lambda>r. pa_state r = Alert_active) (al_rows s))))"

definition list_active_for_symbols :: "alert_store \<Rightarrow> string list \<Rightarrow> price_alert list" where
  "list_active_for_symbols s syms = filter (\<lambda>r. pa_state r = Alert_active \<and> pa_symbol r \<in> set syms) (al_rows s)"

text \<open>\<open>UPDATE \<dots> WHERE id = i AND p RETURNING\<close>: the updated row, when one matched.\<close>

definition update_alert ::
    "uuid \<Rightarrow> (price_alert \<Rightarrow> bool) \<Rightarrow> (price_alert \<Rightarrow> price_alert) \<Rightarrow> alert_store
     \<Rightarrow> (price_alert option \<times> alert_store) result" where
  "update_alert i p f s =
     (let rows = modify (\<lambda>r. pa_id r = i \<and> p r) f (al_rows s)
      in checked ''price_alerts'' (alerts_ok rows)
           (map_option f (find (\<lambda>r. pa_id r = i \<and> p r) (al_rows s)), s\<lparr>al_rows := rows\<rparr>))"

definition mark_triggered :: "uuid \<Rightarrow> px \<Rightarrow> time \<Rightarrow> time \<Rightarrow> alert_store \<Rightarrow> (price_alert option \<times> alert_store) result" where
  "mark_triggered i price quote_at now =
     update_alert i (\<lambda>r. pa_state r = Alert_active)
       (\<lambda>r. r\<lparr>pa_state := Alert_triggered, pa_triggered := Some now, pa_price := Some price, pa_quote_at := Some quote_at\<rparr>)"

definition cancel_row :: "uuid \<Rightarrow> time \<Rightarrow> alert_store \<Rightarrow> (price_alert option \<times> alert_store) result" where
  "cancel_row i now =
     update_alert i (\<lambda>r. pa_state r = Alert_active \<or> pa_state r = Alert_triggered)
       (\<lambda>r. r\<lparr>pa_state := Alert_canceled, pa_canceled := Some now\<rparr>)"

definition unread :: "uuid \<Rightarrow> price_alert \<Rightarrow> bool" where
  "unread u r \<longleftrightarrow> pa_user r = u \<and> pa_state r = Alert_triggered \<and> pa_read r = None"

definition mark_read_rows :: "uuid \<Rightarrow> time \<Rightarrow> uuid list option \<Rightarrow> alert_store \<Rightarrow> (nat \<times> alert_store) result" where
  "mark_read_rows u now ids s =
     (if ids = Some [] then Inr (0, s)
      else
        let hit = (\<lambda>r. unread u r \<and> pred_option (\<lambda>is. pa_id r \<in> set is) ids);
            rows = modify hit (\<lambda>r. r\<lparr>pa_read := Some now\<rparr>) (al_rows s)
        in checked ''price_alerts'' (alerts_ok rows) (length (filter hit (al_rows s)), s\<lparr>al_rows := rows\<rparr>))"

definition count_unread :: "alert_store \<Rightarrow> uuid \<Rightarrow> nat" where
  "count_unread s u = length (filter (unread u) (al_rows s))"

section \<open>The service\<close>

record alerts_config =
  ac_max_active :: nat
  ac_max_age :: time
  ac_list_limit :: nat
  ac_batch_size :: nat

definition default_alerts_config :: alerts_config where
  "default_alerts_config = \<lparr>ac_max_active = max_active_alerts_per_user, ac_max_age = alert_max_quote_age_ms,
     ac_list_limit = 200, ac_batch_size = 100\<rparr>"

definition create_alert_tx :: "alerts_config \<Rightarrow> new_alert \<Rightarrow> alert_store \<Rightarrow> ((price_alert \<times> bool) \<times> alert_store) result" where
  "create_alert_tx cfg inp s =
     (case find_active_duplicate s inp of
        Some existing \<Rightarrow> Inr ((existing, False), s)
      | None \<Rightarrow>
          ebind (check_active_alert_limit (count_active s (na_user inp)) (ac_max_active cfg)) (\<lambda>_.
          ebind (insert_alert inp s) (\<lambda>(inserted, s1).
            case inserted of
              Some a \<Rightarrow> Inr ((a, True), s1)
            | None \<Rightarrow>
                ebind (of_option (AppError CONFLICT None) (find_active_duplicate s1 inp))
                  (\<lambda>raced. Inr ((raced, False), s1)))))"

definition create_alert :: "alerts_config \<Rightarrow> new_alert \<Rightarrow> alert_store \<Rightarrow> (price_alert \<times> bool) result \<times> alert_store" where
  "create_alert cfg inp s = run_tx (create_alert_tx cfg inp) s"

definition alerts_overview :: "alerts_config \<Rightarrow> uuid \<Rightarrow> alert_store \<Rightarrow> price_alert list \<times> nat" where
  "alerts_overview cfg u s = (list_alerts s u (ac_list_limit cfg), count_unread s u)"

definition cancel_alert_tx :: "time \<Rightarrow> uuid \<Rightarrow> uuid \<Rightarrow> alert_store \<Rightarrow> (price_alert \<times> alert_store) result" where
  "cancel_alert_tx now u i s =
     (case get_alert s i of
        None \<Rightarrow> Inl (AppError NOT_FOUND None)
      | Some a \<Rightarrow>
          if pa_user a \<noteq> u \<or> pa_state a = Alert_canceled then Inl (AppError NOT_FOUND None)
          else
            ebind (cancel_row i now s) (\<lambda>(canceled, s1).
            ebind (of_option (AppError NOT_FOUND None) canceled) (\<lambda>r. Inr (r, s1))))"

definition cancel_alert :: "time \<Rightarrow> uuid \<Rightarrow> uuid \<Rightarrow> alert_store \<Rightarrow> price_alert result \<times> alert_store" where
  "cancel_alert now u i s = run_tx (cancel_alert_tx now u i) s"

definition mark_alerts_read :: "time \<Rightarrow> uuid \<Rightarrow> uuid list option \<Rightarrow> alert_store \<Rightarrow> nat result \<times> alert_store" where
  "mark_alerts_read now u ids s = run_tx (mark_read_rows u now ids) s"

section \<open>Evaluation\<close>

record alert_report =
  ar_status :: "market_status option"
  ar_symbols :: nat
  ar_checked :: nat
  ar_triggered :: nat
  ar_stale :: nat
  ar_errors :: nat

definition empty_alert_report :: alert_report where
  "empty_alert_report = \<lparr>ar_status = None, ar_symbols = 0, ar_checked = 0, ar_triggered = 0, ar_stale = 0, ar_errors = 0\<rparr>"

record alert_quotes =
  aq_status :: "market_status result"
  aq_quotes :: "string list \<Rightarrow> (string \<Rightarrow> quote option) result"

definition alert_verdict ::
    "alerts_config \<Rightarrow> (string \<Rightarrow> quote option) \<Rightarrow> time \<Rightarrow> market_status \<Rightarrow> price_alert \<Rightarrow> alert_evaluation" where
  "alert_verdict cfg quotes now status a =
     evaluate_alert (pa_state a) (pa_direction a) (pa_threshold a) (quotes (pa_symbol a)) now status (ac_max_age cfg)"

definition evaluate_one ::
    "alerts_config \<Rightarrow> (string \<Rightarrow> quote option) \<Rightarrow> time \<Rightarrow> market_status \<Rightarrow> price_alert
     \<Rightarrow> alert_report \<times> alert_store \<Rightarrow> alert_report \<times> alert_store" where
  "evaluate_one cfg quotes now status a w =
     (case w of (out0, s) \<Rightarrow>
      let out = out0\<lparr>ar_checked := ar_checked out0 + 1\<rparr> in
      case alert_verdict cfg quotes now status a of
        Hold why \<Rightarrow> (if why = Stale then out\<lparr>ar_stale := ar_stale out + 1\<rparr> else out, s)
      | Trigger price quote_at \<Rightarrow>
          (case run_tx (mark_triggered (pa_id a) price quote_at now) s of
             (Inr won, s1) \<Rightarrow> (if won \<noteq> None then out\<lparr>ar_triggered := ar_triggered out + 1\<rparr> else out, s1)
           | (Inl _, s1) \<Rightarrow> (out\<lparr>ar_errors := ar_errors out + 1\<rparr>, s1)))"

definition evaluate_batch ::
    "alerts_config \<Rightarrow> (string \<Rightarrow> quote option) \<Rightarrow> time \<Rightarrow> market_status \<Rightarrow> price_alert list
     \<Rightarrow> alert_report \<times> alert_store \<Rightarrow> alert_report \<times> alert_store" where
  "evaluate_batch cfg quotes now status as w = fold (evaluate_one cfg quotes now status) as w"

definition failed_report :: "alert_report \<Rightarrow> alert_report" where
  "failed_report out = out\<lparr>ar_errors := ar_errors out + 1\<rparr>"

text \<open>The set of symbols of the user's alerts, in the order of their first occurrence.\<close>

definition first_occurrences :: "'a list \<Rightarrow> 'a list" where
  "first_occurrences xs = rev (remdups (rev xs))"

definition evaluate_for_user ::
    "alerts_config \<Rightarrow> alert_quotes \<Rightarrow> time \<Rightarrow> uuid \<Rightarrow> alert_store \<Rightarrow> alert_report \<times> alert_store" where
  "evaluate_for_user cfg port now u s =
     (let active = list_active_for_user s u in
      if active = [] then (empty_alert_report, s)
      else
        let symbols = first_occurrences (map pa_symbol active);
            out = empty_alert_report\<lparr>ar_symbols := length symbols\<rparr>
        in case aq_status port of
             Inl _ \<Rightarrow> (failed_report out, s)
           | Inr status \<Rightarrow>
               let out1 = out\<lparr>ar_status := Some status\<rparr>
               in if status \<noteq> Market_open then (out1, s)
                  else (case aq_quotes port symbols of
                          Inl _ \<Rightarrow> (failed_report out1, s)
                        | Inr quotes \<Rightarrow> evaluate_batch cfg quotes now status active (out1, s)))"

text \<open>The loop over batches of symbols; with a batch size of zero it does not end.\<close>

partial_function (option) batch_loop :: "(string list \<Rightarrow> 's \<Rightarrow> 's) \<Rightarrow> nat \<Rightarrow> string list \<Rightarrow> 's \<Rightarrow> 's option" where
  "batch_loop step n symbols s =
     (if symbols = [] then Some s else batch_loop step n (drop n symbols) (step (take n symbols) s))"

definition evaluate_chunk ::
    "alerts_config \<Rightarrow> alert_quotes \<Rightarrow> time \<Rightarrow> market_status \<Rightarrow> string list
     \<Rightarrow> nat \<times> alert_report \<times> alert_store \<Rightarrow> nat \<times> alert_report \<times> alert_store" where
  "evaluate_chunk cfg port now status batch w =
     (case w of (fetched, out, s) \<Rightarrow>
      case aq_quotes port batch of
        Inl _ \<Rightarrow> (fetched, failed_report out, s)
      | Inr quotes \<Rightarrow>
          (fetched + 1, evaluate_batch cfg quotes now status (list_active_for_symbols s batch) (out, s)))"

definition evaluate_all ::
    "alerts_config \<Rightarrow> alert_quotes \<Rightarrow> time \<Rightarrow> alert_store \<Rightarrow> (alert_report result \<times> alert_store) option" where
  "evaluate_all cfg port now s =
     (let symbols = list_active_symbols s;
          out = empty_alert_report\<lparr>ar_symbols := length symbols\<rparr>
      in if symbols = [] then Some (Inr out, s)
         else case aq_status port of
           Inl e \<Rightarrow> Some (Inl e, s)
         | Inr status \<Rightarrow>
             let out1 = out\<lparr>ar_status := Some status\<rparr>
             in if status \<noteq> Market_open then Some (Inr out1, s)
                else map_option (\<lambda>(fetched, out2, s2).
                       (if fetched = 0 then Inl (JsError ''price alerts: no quotes available'') else Inr out2, s2))
                     (batch_loop (evaluate_chunk cfg port now status) (ac_batch_size cfg) symbols (0, out1, s)))"

end
