(* ===== verification/Alerts_Correct.thy ===== *)
theory Alerts_Correct
  imports Alerts
begin

text \<open>
  The correctness of \<^verbatim>\<open>src/core/alerts\<close>: an alert is one-shot and its trigger facts are written once;
  the batched evaluation of the worker is one pass over the table, and it ends for every positive batch
  size.
\<close>

section \<open>How a row and the table may change\<close>

definition alert_terms :: "price_alert \<Rightarrow> uuid \<times> uuid \<times> string \<times> alert_direction \<times> px \<times> time" where
  "alert_terms r = (pa_id r, pa_user r, pa_symbol r, pa_direction r, pa_threshold r, pa_created r)"

definition alert_evolves :: "price_alert \<Rightarrow> price_alert \<Rightarrow> bool" where
  "alert_evolves r r' \<longleftrightarrow> alert_terms r' = alert_terms r
     \<and> (pa_state r' = pa_state r \<or> can_transition_alert (pa_state r) (pa_state r'))
     \<and> (pa_triggered r \<noteq> None \<longrightarrow> pa_triggered r' = pa_triggered r \<and> pa_price r' = pa_price r \<and> pa_quote_at r' = pa_quote_at r)
     \<and> (pa_read r \<noteq> None \<longrightarrow> pa_read r' = pa_read r)
     \<and> (pa_state r = Alert_canceled \<longrightarrow> r' = r)"

lemma can_transition_trans:
  "can_transition_alert a b \<Longrightarrow> can_transition_alert b c \<Longrightarrow> can_transition_alert a c"
  by (cases a; cases b; cases c) (simp_all add: can_transition_alert_def)

lemma alert_evolves_refl [simp]: "alert_evolves r r" by (simp add: alert_evolves_def)

lemma alert_evolves_trans: "alert_evolves a b \<Longrightarrow> alert_evolves b c \<Longrightarrow> alert_evolves a c"
  using can_transition_trans unfolding alert_evolves_def by (auto; metis)

inductive alert_step :: "nat \<Rightarrow> alert_store \<Rightarrow> alert_store \<Rightarrow> bool" for cap where
  updated: "alerts_ok (modify hit f (al_rows s)) \<Longrightarrow> (\<And>r. r \<in> set (al_rows s) \<Longrightarrow> hit r \<Longrightarrow> alert_evolves r (f r))
    \<Longrightarrow> alert_step cap s (s\<lparr>al_rows := modify hit f (al_rows s)\<rparr>)"
| inserted: "alerts_ok (al_rows s @ [r]) \<Longrightarrow> count_active s (pa_user r) < cap
    \<Longrightarrow> alert_step cap s (s\<lparr>al_rows := al_rows s @ [r], al_next := n\<rparr>)"

definition alerts_inv :: "nat \<Rightarrow> alert_store \<Rightarrow> bool" where
  "alerts_inv cap s \<longleftrightarrow> alerts_ok (al_rows s) \<and> list_all (\<lambda>r. count_active s (pa_user r) \<le> cap) (al_rows s)"

lemma count_none: "u \<notin> pa_user ` set (al_rows s) \<Longrightarrow> count_active s u = 0"
  by (auto simp: count_active_def filter_empty_conv)

lemma alerts_inv_count: "alerts_inv cap s \<Longrightarrow> count_active s u \<le> cap"
  by (cases "u \<in> pa_user ` set (al_rows s)") (auto simp: alerts_inv_def list_all_iff count_none)

lemma alerts_invI: "alerts_ok (al_rows s) \<Longrightarrow> (\<And>u. count_active s u \<le> cap) \<Longrightarrow> alerts_inv cap s"
  by (simp add: alerts_inv_def list_all_iff)

lemma evolves_active: "alert_evolves r r' \<Longrightarrow> pa_state r' = Alert_active \<Longrightarrow> pa_state r = Alert_active"
  by (cases "pa_state r") (auto simp: alert_evolves_def can_transition_alert_def)

lemma count_shrinks:
  assumes "\<And>r. r \<in> set rs \<Longrightarrow> hit r \<Longrightarrow> alert_evolves r (f r)"
  shows "length (filter (\<lambda>r. pa_user r = u \<and> pa_state r = Alert_active) (modify hit f rs))
    \<le> length (filter (\<lambda>r. pa_user r = u \<and> pa_state r = Alert_active) rs)"
  using assms
proof (induction rs)
  case (Cons r rs)
  have "pa_user (f r) = pa_user r \<and> (pa_state (f r) = Alert_active \<longrightarrow> pa_state r = Alert_active)" if "hit r"
  proof -
    from Cons(2)[of r] that have "alert_evolves r (f r)" by simp
    from evolves_active[OF this] this show ?thesis by (auto simp: alert_evolves_def alert_terms_def)
  qed
  with Cons show ?case by auto
qed simp

lemma alert_step_inv:
  assumes "alert_step cap s s'" "alerts_inv cap s"
  shows "alerts_inv cap s'"
  using assms(1)
proof cases
  case (updated hit f)
  have "count_active s' u \<le> cap" for u
    using count_shrinks[of "al_rows s" hit f u, OF updated(3)] alerts_inv_count[OF assms(2), of u] updated(1)
    by (simp add: count_active_def)
  with updated show ?thesis by (intro alerts_invI) simp_all
next
  case (inserted r n)
  have "count_active s' u \<le> cap" for u
    using inserted(1,3) alerts_inv_count[OF assms(2), of u]
    by (auto simp: count_active_def)
  with inserted show ?thesis by (intro alerts_invI) simp_all
qed

lemma alert_step_evolves:
  assumes "alert_step cap s s'" "r \<in> set (al_rows s)"
  shows "\<exists>r' \<in> set (al_rows s'). alert_evolves r r'"
  using assms(1)
proof cases
  case (updated hit f)
  with assms(2) have "(if hit r then f r else r) \<in> set (al_rows s')" by (auto simp: modify_def)
  with updated(3)[OF assms(2)] show ?thesis by (metis alert_evolves_refl)
next
  case (inserted r' n)
  with assms(2) show ?thesis by (intro bexI[of _ r]) simp_all
qed

lemma alert_steps:
  assumes "(alert_step cap)\<^sup>*\<^sup>* s s'" "alerts_inv cap s"
  shows "alerts_inv cap s' \<and> (\<forall>r \<in> set (al_rows s). \<exists>r' \<in> set (al_rows s'). alert_evolves r r')"
  using assms(1)
proof (induction rule: rtranclp_induct)
  case base
  with assms(2) show ?case by (blast intro: alert_evolves_refl)
next
  case (step y z)
  then show ?case using alert_step_inv[OF step(2)] alert_step_evolves[OF step(2)] alert_evolves_trans by blast
qed

section \<open>Every operation is a step\<close>

lemma create_step:
  assumes "create_alert_tx cfg inp s = Inr (x, s')"
  shows "s' = s \<or> alert_step (ac_max_active cfg) s s'"
proof (cases "find_active_duplicate s inp")
  case (Some a)
  with assms show ?thesis by (simp add: create_alert_tx_def)
next
  case None
  with assms have c: "count_active s (na_user inp) < ac_max_active cfg"
    by (auto simp: create_alert_tx_def check_active_alert_limit_def app_error_def split: if_splits)
  from None assms obtain ins s1 where i: "insert_alert inp s = Inr (ins, s1)" and "s' = s1"
    by (auto simp: create_alert_tx_def result_simps split: option.splits)
  with None have "alerts_ok (al_rows s @ [fresh_alert inp s])"
    "s' = s\<lparr>al_rows := al_rows s @ [fresh_alert inp s], al_next := al_next s + 1\<rparr>"
    by (auto simp: insert_alert_def Let_def checked_def result_simps)
  with c show ?thesis by (auto intro!: alert_step.inserted simp: fresh_alert_def)
qed

lemma update_step:
  assumes "update_alert i p f s = Inr (x, s')" "\<And>r. r \<in> set (al_rows s) \<Longrightarrow> p r \<Longrightarrow> alert_evolves r (f r)"
  shows "alert_step cap s s'"
  using assms by (auto simp: update_alert_def Let_def checked_def result_simps intro: alert_step.updated)

lemma alerts_okD: "alerts_ok rs \<Longrightarrow> r \<in> set rs \<Longrightarrow> alert_check r"
  by (simp add: alerts_ok_def list_all_iff)

lemma mark_step:
  assumes "mark_triggered i p t now s = Inr (x, s')" "alerts_ok (al_rows s)"
  shows "alert_step cap s s'"
  by (rule update_step[OF assms(1)[unfolded mark_triggered_def]])
     (use alerts_okD[OF assms(2)] in
      \<open>auto simp: alert_evolves_def alert_terms_def can_transition_alert_def alert_check_def\<close>)

lemma cancel_step:
  assumes "cancel_row i now s = Inr (x, s')"
  shows "alert_step cap s s'"
  by (rule update_step[OF assms[unfolded cancel_row_def]])
     (auto simp: alert_evolves_def alert_terms_def can_transition_alert_def)

lemma read_step:
  assumes "mark_read_rows u now ids s = Inr (n, s')"
  shows "s' = s \<or> alert_step cap s s'"
  using assms
  by (auto simp: mark_read_rows_def Let_def checked_def result_simps unread_def alert_evolves_def alert_terms_def
      split: if_splits intro!: alert_step.updated)

lemma evaluate_one_steps:
  assumes "(alert_step cap)\<^sup>*\<^sup>* s0 (snd w)" "alerts_inv cap s0"
  shows "(alert_step cap)\<^sup>*\<^sup>* s0 (snd (evaluate_one cfg quotes now status a w))"
proof -
  obtain out s where w: "w = (out, s)" by (rule prod.exhaust)
  have ok: "alerts_ok (al_rows s)" using alert_steps[OF assms] w by (simp add: alerts_inv_def)
  have "(alert_step cap)\<^sup>*\<^sup>* s0 s1" if "run_tx (mark_triggered i p t now) s = (r, s1)" for i p t r s1
    using that assms(1) w mark_step[OF _ ok]
    by (cases rule: run_tx_cases[of "mark_triggered i p t now" s]) (auto intro: rtranclp.rtrancl_into_rtrancl)
  with assms(1) w show ?thesis
    by (auto simp: evaluate_one_def Let_def split: alert_evaluation.split prod.split sum.split)
qed

lemma evaluate_batch_steps:
  assumes "alerts_inv cap s0"
  shows "(alert_step cap)\<^sup>*\<^sup>* s0 (snd w) \<Longrightarrow> (alert_step cap)\<^sup>*\<^sup>* s0 (snd (evaluate_batch cfg quotes now status as w))"
  unfolding evaluate_batch_def
  by (induction as arbitrary: w) (simp_all add: evaluate_one_steps[OF _ assms])

section \<open>The batch loop\<close>

lemma batch_loop_invariant:
  assumes "batch_loop step n xs s = Some s'" "I s" "\<And>b s. I s \<Longrightarrow> I (step b s)"
  shows "I s'"
proof -
  have "(\<forall>b s. I s \<longrightarrow> I (step b s)) \<longrightarrow> I s \<longrightarrow> I s'"
    by (rule batch_loop.raw_induct[where P = "\<lambda>step n xs s s'. (\<forall>b s. I s \<longrightarrow> I (step b s)) \<longrightarrow> I s \<longrightarrow> I s'",
          OF _ assms(1)]) (auto split: if_splits)
  with assms(2,3) show ?thesis by blast
qed

lemma batch_loop_ends: "0 < n \<Longrightarrow> \<exists>s'. batch_loop step n xs s = Some s'"
proof (induction xs arbitrary: s rule: length_induct)
  case (1 xs)
  show ?case
  proof (cases "xs = []")
    case True
    then show ?thesis by (subst batch_loop.simps) simp
  next
    case False
    with 1(2) have "length (drop n xs) < length xs" by simp
    with 1 obtain s' where "batch_loop step n (drop n xs) (step (take n xs) s) = Some s'" by blast
    with False show ?thesis by (subst batch_loop.simps) simp
  qed
qed

lemma batch_loop_stuck:
  assumes "xs \<noteq> []"
  shows "batch_loop step 0 xs s = None"
proof (rule ccontr)
  assume "batch_loop step 0 xs s \<noteq> None"
  then obtain y where y: "batch_loop step 0 xs s = Some y" by blast
  have "0 = (0::nat) \<longrightarrow> xs = []"
    by (rule batch_loop.raw_induct[where P = "\<lambda>step n xs s y. n = 0 \<longrightarrow> xs = []", OF _ y]) (fastforce split: if_splits)
  with assms show False by simp
qed

section \<open>Service calls\<close>

inductive alert_call :: "alerts_config \<Rightarrow> alert_store \<Rightarrow> alert_store \<Rightarrow> bool" for cfg where
  call_create: "create_alert cfg inp s = (r, s') \<Longrightarrow> alert_call cfg s s'"
| call_cancel: "cancel_alert now u i s = (c, s') \<Longrightarrow> alert_call cfg s s'"
| call_read: "mark_alerts_read now u ids s = (n, s') \<Longrightarrow> alert_call cfg s s'"
| call_user: "evaluate_for_user cfg port now u s = (out, s') \<Longrightarrow> alert_call cfg s s'"
| call_all: "evaluate_all cfg port now s = Some (res, s') \<Longrightarrow> alert_call cfg s s'"

lemma evaluate_all_steps:
  assumes "evaluate_all cfg port now s = Some (res, s')" "alerts_inv cap s"
  shows "(alert_step cap)\<^sup>*\<^sup>* s s'"
proof -
  have "(alert_step cap)\<^sup>*\<^sup>* s s2"
    if "batch_loop (evaluate_chunk cfg port now status) n symbols (0, out, s) = Some (k, out2, s2)" for status n symbols out k out2 s2
  proof -
    have "(alert_step cap)\<^sup>*\<^sup>* s (snd (snd (k, out2, s2)))"
      using that
    proof (rule batch_loop_invariant[where I = "\<lambda>w. (alert_step cap)\<^sup>*\<^sup>* s (snd (snd w))"])
      fix b and w :: "nat \<times> alert_report \<times> alert_store"
      assume "(alert_step cap)\<^sup>*\<^sup>* s (snd (snd w))"
      then show "(alert_step cap)\<^sup>*\<^sup>* s (snd (snd (evaluate_chunk cfg port now status b w)))"
        using evaluate_batch_steps[OF assms(2), of "snd w"]
        by (cases w) (auto simp: evaluate_chunk_def split: sum.split)
    qed simp
    then show ?thesis by simp
  qed
  with assms(1) show ?thesis
    by (auto simp: evaluate_all_def Let_def split: if_splits sum.splits)
qed

lemma alert_call_steps:
  assumes "alert_call cfg s s'" "alerts_inv (ac_max_active cfg) s"
  shows "(alert_step (ac_max_active cfg))\<^sup>*\<^sup>* s s'"
  using assms(1)
proof cases
  case (call_create inp r)
  then show ?thesis
    by (cases rule: run_tx_cases[of "create_alert_tx cfg inp" s]) (auto simp: create_alert_def dest: create_step)
next
  case (call_cancel now u i c)
  have "(alert_step (ac_max_active cfg))\<^sup>*\<^sup>* s s1" if "cancel_alert_tx now u i s = Inr (x, s1)" for x s1
    using that cancel_step by (fastforce simp: cancel_alert_tx_def result_simps split: option.splits if_splits)
  with call_cancel show ?thesis
    by (cases rule: run_tx_cases[of "cancel_alert_tx now u i" s]) (auto simp: cancel_alert_def)
next
  case (call_read now u ids n)
  then show ?thesis
    by (cases rule: run_tx_cases[of "mark_read_rows u now ids" s]) (auto simp: mark_alerts_read_def dest: read_step)
next
  case (call_user port now u out)
  have "(alert_step (ac_max_active cfg))\<^sup>*\<^sup>* s (snd (evaluate_batch cfg quotes now status as (out0, s)))" for quotes status as out0
    by (rule evaluate_batch_steps[OF assms(2)]) simp
  then have "(alert_step (ac_max_active cfg))\<^sup>*\<^sup>* s (snd (evaluate_for_user cfg port now u s))"
    by (auto simp: evaluate_for_user_def Let_def split: sum.split)
  with call_user show ?thesis by simp
next
  case (call_all port now res)
  from evaluate_all_steps[OF this assms(2)] show ?thesis .
qed

text \<open>
  A price alert is one-shot. Over any run of the alert service, whatever the quotes, the table keeps
  its constraints, no user exceeds the cap on active alerts or holds the same active alert twice, and
  every alert keeps its terms, moves only along ACTIVE, TRIGGERED, CANCELED, and keeps the price and the
  times of its trigger once they are written.
\<close>

theorem alerts_are_one_shot:
  assumes "(alert_call cfg)\<^sup>*\<^sup>* s s'" "alerts_inv (ac_max_active cfg) s" "get_alert s i = Some a"
  shows "alerts_ok (al_rows s') \<and> count_active s' u \<le> ac_max_active cfg
    \<and> (\<exists>a'. get_alert s' i = Some a' \<and> alert_evolves a a')"
proof -
  have "(alert_step (ac_max_active cfg))\<^sup>*\<^sup>* s s' \<and> alerts_inv (ac_max_active cfg) s'"
    using assms(1)
  proof (induction rule: rtranclp_induct)
    case (step y z)
    then have "(alert_step (ac_max_active cfg))\<^sup>*\<^sup>* y z" using alert_call_steps by blast
    with alert_steps[OF this] step(3) show ?case by (auto intro: rtranclp_trans)
  qed (simp add: assms(2))
  then have inv: "alerts_inv (ac_max_active cfg) s'"
    and ev: "\<forall>r \<in> set (al_rows s). \<exists>r' \<in> set (al_rows s'). alert_evolves r r'"
    using alert_steps[OF _ assms(2)] by blast+
  from assms(3) have a: "a \<in> set (al_rows s)" "pa_id a = i"
    by (auto simp: get_alert_def dest: find_Some_in_set)
  with ev obtain a' where a': "a' \<in> set (al_rows s')" "alert_evolves a a'" by blast
  then have "pa_id a' = i" using a(2) by (simp add: alert_evolves_def alert_terms_def)
  moreover have "distinct (map pa_id (al_rows s'))" using inv by (simp add: alerts_inv_def alerts_ok_def)
  ultimately have "get_alert s' i = Some a'" using find_key_unique[of pa_id "al_rows s'" a'] a'(1) by (simp add: get_alert_def)
  with inv a'(2) alerts_inv_count[OF inv] show ?thesis by (auto simp: alerts_inv_def)
qed

section \<open>The batched evaluation is one pass\<close>

definition triggered_row :: "px \<Rightarrow> time \<Rightarrow> time \<Rightarrow> price_alert \<Rightarrow> price_alert" where
  "triggered_row price quote_at now r =
     r\<lparr>pa_state := Alert_triggered, pa_triggered := Some now, pa_price := Some price, pa_quote_at := Some quote_at\<rparr>"

text \<open>The reference: every row whose verdict is to trigger, at once.\<close>

definition judged :: "alerts_config \<Rightarrow> (string \<Rightarrow> quote option) \<Rightarrow> time \<Rightarrow> price_alert \<Rightarrow> price_alert" where
  "judged cfg quotes now r =
     (case alert_verdict cfg quotes now Market_open r of
        Trigger price quote_at \<Rightarrow> triggered_row price quote_at now r | Hold why \<Rightarrow> r)"

definition fires :: "alerts_config \<Rightarrow> (string \<Rightarrow> quote option) \<Rightarrow> time \<Rightarrow> price_alert \<Rightarrow> bool" where
  "fires cfg quotes now r \<longleftrightarrow> (\<exists>p t. alert_verdict cfg quotes now Market_open r = Trigger p t)"

definition quotes_ok :: "(string \<Rightarrow> quote option) \<Rightarrow> bool" where
  "quotes_ok quotes \<longleftrightarrow> (\<forall>sym q. quotes sym = Some q \<longrightarrow> 0 < qt_last q \<and> qt_last q < 10 ^ 18)"

lemma judged_fields [simp]: "pa_id (judged cfg q now r) = pa_id r" "pa_symbol (judged cfg q now r) = pa_symbol r"
  by (simp_all add: judged_def triggered_row_def split: alert_evaluation.split)

lemma judged_cases:
  obtains (fires) p t where "alert_verdict cfg q now Market_open r = Trigger p t" "judged cfg q now r = triggered_row p t now r"
      "pa_state r = Alert_active" "fires cfg q now r" "pa_state (judged cfg q now r) = Alert_triggered"
  | (holds) why where "alert_verdict cfg q now Market_open r = Hold why" "judged cfg q now r = r" "\<not> fires cfg q now r"
proof (cases "alert_verdict cfg q now Market_open r")
  case (Trigger p t)
  then have "pa_state r = Alert_active" by (simp add: alert_verdict_def evaluate_alert_Trigger)
  with Trigger fires show thesis by (simp add: judged_def triggered_row_def fires_def)
qed (use holds in \<open>simp add: judged_def fires_def\<close>)

lemma judged_inactive: "pa_state r \<noteq> Alert_active \<Longrightarrow> judged cfg q now r = r"
  by (cases rule: judged_cases[of cfg q now r]) simp_all

lemma judged_check: "alert_check r \<Longrightarrow> quotes_ok q \<Longrightarrow> alert_check (judged cfg q now r)"
proof (cases rule: judged_cases[of cfg q now r])
  case (fires p t)
  assume "alert_check r" "quotes_ok q"
  with fires show ?thesis
    by (auto simp: alert_check_def triggered_row_def alert_verdict_def evaluate_alert_Trigger quotes_ok_def)
qed simp

text \<open>Judging part of the rows keeps the constraints.\<close>

lemma judged_rows_ok:
  assumes "alerts_ok rs" "quotes_ok q"
  shows "alerts_ok (modify hit (judged cfg q now) rs)"
proof -
  have "active_terms (judged cfg q now r) = active_terms r \<or> active_terms (judged cfg q now r) = None" for r
    by (cases rule: judged_cases[of cfg q now r]) (simp_all add: active_terms_def)
  then have "unique_index active_terms (modify hit (judged cfg q now) rs)"
    using assms(1) by (intro unique_index_shrink) (simp_all add: alerts_ok_def)
  with assms show ?thesis
    by (auto simp: alerts_ok_def map_modify list_all_iff judged_check elim!: in_set_modifyE)
qed

definition stale_verdict :: "alerts_config \<Rightarrow> (string \<Rightarrow> quote option) \<Rightarrow> time \<Rightarrow> price_alert \<Rightarrow> bool" where
  "stale_verdict cfg quotes now r \<longleftrightarrow> alert_verdict cfg quotes now Market_open r = Hold Stale"

text \<open>One alert, then a batch.\<close>

lemma evaluate_one_judges:
  assumes "alerts_ok (al_rows s)" "quotes_ok q" "a \<in> set (al_rows s)" "pa_state a = Alert_active"
  shows "evaluate_one cfg q now Market_open a (out, s)
    = (out\<lparr>ar_checked := ar_checked out + 1, ar_triggered := ar_triggered out + of_bool (fires cfg q now a),
           ar_stale := ar_stale out + of_bool (stale_verdict cfg q now a)\<rparr>,
       s\<lparr>al_rows := modify (\<lambda>r. r = a) (judged cfg q now) (al_rows s)\<rparr>)"
proof -
  have same: "modify (\<lambda>r. r = a) f rs = rs" if "f a = a" for f and rs :: "price_alert list"
    using that by (induction rs) auto
  have uniq: "pa_id r = pa_id a \<and> pa_state r = Alert_active \<longleftrightarrow> r = a" if "r \<in> set (al_rows s)" for r
    using that assms(1,3,4) by (auto simp: alerts_ok_def distinct_map dest: inj_onD)
  show ?thesis
  proof (cases rule: judged_cases[of cfg q now a])
    case (fires p t)
    let ?f = "\<lambda>r. r\<lparr>pa_state := Alert_triggered, pa_triggered := Some now, pa_price := Some p, pa_quote_at := Some t\<rparr>"
    have rows: "modify (\<lambda>r. pa_id r = pa_id a \<and> pa_state r = Alert_active) ?f (al_rows s)
        = modify (\<lambda>r. r = a) (judged cfg q now) (al_rows s)"
      unfolding modify_def using uniq fires(2) by (auto simp: triggered_row_def)
    have hit: "find (\<lambda>r. pa_id r = pa_id a \<and> pa_state r = Alert_active) (al_rows s) \<noteq> None"
      using assms(3,4) by (auto simp: find_None_iff)
    have "mark_triggered (pa_id a) p t now s
        = Inr (map_option ?f (find (\<lambda>r. pa_id r = pa_id a \<and> pa_state r = Alert_active) (al_rows s)),
               s\<lparr>al_rows := modify (\<lambda>r. r = a) (judged cfg q now) (al_rows s)\<rparr>)"
      using judged_rows_ok[OF assms(1,2)]
      by (simp add: mark_triggered_def update_alert_def Let_def rows checked_def)
    with hit fires show ?thesis
      by (auto simp: evaluate_one_def Let_def run_tx_def stale_verdict_def)
  next
    case (holds why)
    from same[of "judged cfg q now", OF holds(2)] holds show ?thesis
      by (auto simp: evaluate_one_def Let_def stale_verdict_def)
  qed
qed

lemma evaluate_batch_judges:
  assumes "quotes_ok q"
  shows "alerts_ok (al_rows s) \<Longrightarrow> distinct as \<Longrightarrow> \<forall>a \<in> set as. a \<in> set (al_rows s) \<and> pa_state a = Alert_active
    \<Longrightarrow> evaluate_batch cfg q now Market_open as (out, s)
      = (out\<lparr>ar_checked := ar_checked out + length as, ar_triggered := ar_triggered out + length (filter (fires cfg q now) as),
             ar_stale := ar_stale out + length (filter (stale_verdict cfg q now) as)\<rparr>,
         s\<lparr>al_rows := modify (\<lambda>r. r \<in> set as) (judged cfg q now) (al_rows s)\<rparr>)"
proof (induction as arbitrary: out s)
  case Nil
  have "modify (\<lambda>r. False) f rs = rs" for f and rs :: "price_alert list" by (induction rs) auto
  then show ?case by (simp add: evaluate_batch_def)
next
  case (Cons a as)
  let ?j = "judged cfg q now"
  let ?rows = "modify (\<lambda>r. r = a) ?j (al_rows s)"
  let ?s1 = "s\<lparr>al_rows := ?rows\<rparr>"
  let ?o1 = "out\<lparr>ar_checked := ar_checked out + 1, ar_triggered := ar_triggered out + of_bool (fires cfg q now a),
           ar_stale := ar_stale out + of_bool (stale_verdict cfg q now a)\<rparr>"
  have one: "evaluate_one cfg q now Market_open a (out, s) = (?o1, ?s1)"
    using Cons.prems by (intro evaluate_one_judges assms) auto
  have kept: "x \<in> set ?rows" if "x \<in> set as" for x
  proof -
    have "x \<in> set (al_rows s)" "x \<noteq> a" using that Cons.prems by auto
    then show ?thesis by (auto simp: set_modify)
  qed
  have rest: "evaluate_batch cfg q now Market_open as (?o1, ?s1)
      = (?o1\<lparr>ar_checked := ar_checked ?o1 + length as, ar_triggered := ar_triggered ?o1 + length (filter (fires cfg q now) as),
             ar_stale := ar_stale ?o1 + length (filter (stale_verdict cfg q now) as)\<rparr>,
         ?s1\<lparr>al_rows := modify (\<lambda>r. r \<in> set as) ?j (al_rows ?s1)\<rparr>)"
    using Cons.prems kept by (intro Cons.IH) (simp_all add: judged_rows_ok[OF _ assms])
  have "?j a \<notin> set as"
  proof (cases rule: judged_cases[of cfg q now a])
    case (fires p t)
    with Cons.prems(3) show ?thesis by auto
  qed (use Cons.prems(2) in simp)
  then have "modify (\<lambda>r. r \<in> set as) ?j ?rows = modify (\<lambda>r. r \<in> set (a # as)) ?j (al_rows s)"
    using Cons.prems(2) by (auto simp: modify_def)
  with one rest show ?case by (simp add: evaluate_batch_def)
qed

text \<open>The batches: the rows whose symbol was processed are judged, the others untouched.\<close>

definition only :: "string list \<Rightarrow> (string \<Rightarrow> quote option) \<Rightarrow> string \<Rightarrow> quote option" where
  "only b q = (\<lambda>sym. if sym \<in> set b then q sym else None)"

definition in_symbols :: "string list \<Rightarrow> price_alert \<Rightarrow> bool" where
  "in_symbols xs r \<longleftrightarrow> pa_state r = Alert_active \<and> pa_symbol r \<in> set xs"

definition batch_report :: "alerts_config \<Rightarrow> (string \<Rightarrow> quote option) \<Rightarrow> time \<Rightarrow> price_alert list \<Rightarrow> alert_report \<Rightarrow> alert_report" where
  "batch_report cfg q now as out =
     out\<lparr>ar_checked := ar_checked out + length as, ar_triggered := ar_triggered out + length (filter (fires cfg q now) as),
         ar_stale := ar_stale out + length (filter (stale_verdict cfg q now) as)\<rparr>"

lemma verdict_only:
  "pa_symbol r \<in> set b \<Longrightarrow> alert_verdict cfg (only b q) now st r = alert_verdict cfg q now st r"
  by (simp add: alert_verdict_def only_def)

lemma report_only:
  assumes "\<forall>r \<in> set as. pa_symbol r \<in> set b"
  shows "batch_report cfg (only b q) now as = batch_report cfg q now as"
proof -
  have "filter (fires cfg (only b q) now) as = filter (fires cfg q now) as"
    "filter (stale_verdict cfg (only b q) now) as = filter (stale_verdict cfg q now) as"
    using assms by (auto simp: fires_def stale_verdict_def verdict_only intro!: filter_cong)
  then show ?thesis by (intro ext) (simp add: batch_report_def)
qed

lemma filter_split:
  "(\<And>r. p r = (q r \<or> u r)) \<Longrightarrow> (\<And>r. \<not> (q r \<and> u r))
    \<Longrightarrow> length (filter p xs) = length (filter q xs) + length (filter u xs)"
  by (induction xs) auto

lemma report_append:
  assumes "distinct (xs @ ys)"
  shows "batch_report cfg q now (filter (in_symbols ys) rs) (batch_report cfg q now (filter (in_symbols xs) rs) out)
    = batch_report cfg q now (filter (in_symbols (xs @ ys)) rs) out"
proof -
  have len: "length (filter (\<lambda>r. in_symbols (xs @ ys) r \<and> p r) rs)
      = length (filter (\<lambda>r. in_symbols xs r \<and> p r) rs) + length (filter (\<lambda>r. in_symbols ys r \<and> p r) rs)" for p
    using assms by (intro filter_split) (auto simp: in_symbols_def)
  from len[of "\<lambda>_. True"] len[of "fires cfg q now"] len[of "stale_verdict cfg q now"] show ?thesis
    by (simp add: batch_report_def filter_filter conj_commute)
qed

lemma chunk_judges:
  assumes "alerts_ok rs" "quotes_ok q" "aq_quotes port b = Inr (only b q)" "set b \<inter> B = {}"
  shows "evaluate_chunk cfg port now Market_open b
      (k, out, s\<lparr>al_rows := modify (\<lambda>r. pa_symbol r \<in> B) (judged cfg q now) rs\<rparr>)
    = (k + 1, batch_report cfg q now (filter (in_symbols b) rs) out,
       s\<lparr>al_rows := modify (\<lambda>r. pa_symbol r \<in> B \<union> set b) (judged cfg q now) rs\<rparr>)"
proof -
  let ?j = "judged cfg q now" and ?q = "only b q"
  let ?rows = "modify (\<lambda>r. pa_symbol r \<in> B) ?j rs"
  let ?s = "s\<lparr>al_rows := ?rows\<rparr>" and ?as = "filter (in_symbols b) rs"
  have other: "\<not> in_symbols b r \<and> \<not> in_symbols b (?j r)" if "pa_symbol r \<in> B" for r
    using that assms(4) by (auto simp: in_symbols_def)
  then have as: "list_active_for_symbols ?s b = ?as"
    by (induction rs) (auto simp: list_active_for_symbols_def in_symbols_def)
  have ok: "alerts_ok ?rows" by (rule judged_rows_ok[OF assms(1,2)])
  have q: "quotes_ok ?q" using assms(2) by (simp add: quotes_ok_def only_def)
  have "a \<in> set ?rows" if "a \<in> set ?as" for a
    using that other by (auto simp: set_modify)
  then have "evaluate_batch cfg ?q now Market_open ?as (out, ?s)
      = (batch_report cfg ?q now ?as out, ?s\<lparr>al_rows := modify (\<lambda>r. r \<in> set ?as) (judged cfg ?q now) (al_rows ?s)\<rparr>)"
    unfolding batch_report_def using ok assms(1)
    by (intro evaluate_batch_judges[OF q]) (auto simp: alerts_ok_def distinct_map in_symbols_def)
  moreover have "batch_report cfg ?q now ?as = batch_report cfg q now ?as"
    by (rule report_only) (simp add: in_symbols_def)
  moreover have "modify (\<lambda>r. r \<in> set ?as) (judged cfg ?q now) ?rows = modify (\<lambda>r. pa_symbol r \<in> B \<union> set b) ?j rs"
  proof -
    let ?x = "\<lambda>r. if pa_symbol r \<in> B then ?j r else r"
    have "(if ?x r \<in> set ?as then judged cfg ?q now (?x r) else ?x r) = (if pa_symbol r \<in> B \<union> set b then ?j r else r)"
      if "r \<in> set rs" for r
    proof (cases "pa_symbol r \<in> B")
      case True
      then have "?x r \<notin> set ?as" using other by auto
      with True show ?thesis by (simp only: if_True if_False) simp
    next
      case False
      show ?thesis
      proof (cases "in_symbols b r")
        case True
        then have "judged cfg ?q now r = ?j r" by (simp add: judged_def in_symbols_def verdict_only)
        with True False that show ?thesis by (simp add: in_symbols_def)
      next
        case inactive: False
        then show ?thesis using False judged_inactive[of r cfg q now] by (auto simp: in_symbols_def)
      qed
    qed
    then show ?thesis by (auto simp: modify_def)
  qed
  ultimately show ?thesis using assms(3) as by (simp add: evaluate_chunk_def)
qed

lemma loop_judges:
  assumes "0 < n" "alerts_ok rs" "quotes_ok q" "\<And>b. aq_quotes port b = Inr (only b q)"
  shows "distinct xs \<Longrightarrow> set xs \<inter> B = {}
    \<Longrightarrow> \<exists>k'. batch_loop (evaluate_chunk cfg port now Market_open) n xs
        (k, out, s\<lparr>al_rows := modify (\<lambda>r. pa_symbol r \<in> B) (judged cfg q now) rs\<rparr>)
      = Some (k', batch_report cfg q now (filter (in_symbols xs) rs) out,
          s\<lparr>al_rows := modify (\<lambda>r. pa_symbol r \<in> B \<union> set xs) (judged cfg q now) rs\<rparr>)
      \<and> k \<le> k' \<and> (xs \<noteq> [] \<longrightarrow> k < k')"
proof (induction xs arbitrary: k out B rule: length_induct)
  case (1 xs)
  show ?case
  proof (cases "xs = []")
    case True
    then show ?thesis by (subst batch_loop.simps) (simp add: in_symbols_def batch_report_def)
  next
    case False
    let ?b = "take n xs" and ?ys = "drop n xs"
    have "distinct (?b @ ?ys)" "set (?b @ ?ys) = set xs" "length ?ys < length xs"
      using 1(2) False assms(1) by simp_all
    then have split: "set ?b \<union> set ?ys = set xs" "distinct (?b @ ?ys)" "length ?ys < length xs"
      unfolding set_append by blast+
    have dis: "distinct ?ys" "set ?ys \<inter> (B \<union> set ?b) = {}" "set ?b \<inter> B = {}"
      using split(1,2) 1(3) unfolding distinct_append by blast+
    let ?out = "batch_report cfg q now (filter (in_symbols ?b) rs) out"
    from 1(1) split(3) dis(1,2) obtain k' where loop:
      "batch_loop (evaluate_chunk cfg port now Market_open) n ?ys
        (k + 1, ?out, s\<lparr>al_rows := modify (\<lambda>r. pa_symbol r \<in> B \<union> set ?b) (judged cfg q now) rs\<rparr>)
      = Some (k', batch_report cfg q now (filter (in_symbols ?ys) rs) ?out,
          s\<lparr>al_rows := modify (\<lambda>r. pa_symbol r \<in> B \<union> set ?b \<union> set ?ys) (judged cfg q now) rs\<rparr>)" "k + 1 \<le> k'"
      by blast
    have "batch_report cfg q now (filter (in_symbols ?ys) rs) ?out = batch_report cfg q now (filter (in_symbols xs) rs) out"
      using report_append[OF split(2)] by simp
    moreover have "B \<union> set ?b \<union> set ?ys = B \<union> set xs" using split(1) by blast
    ultimately show ?thesis
      using loop False chunk_judges[OF assms(2,3,4) dis(3), of cfg now k out s]
      by (subst batch_loop.simps) (auto simp del: append_take_drop_id)
  qed
qed

lemma active_symbols:
  "set (list_active_symbols s) = pa_symbol ` {r \<in> set (al_rows s). pa_state r = Alert_active}"
  "distinct (list_active_symbols s)"
  by (simp_all add: list_active_symbols_def)

text \<open>
  The scheduled evaluation is one pass over the table. When the market is open and the quotes are
  available, then for every positive batch size the worker's run returns, counts every active alert once,
  and leaves exactly the table in which each active alert whose quote is fresh and on the right side of
  its threshold is TRIGGERED at the price and the time of that quote, and every other alert is as it was.
\<close>

theorem evaluation_is_one_pass:
  assumes "alerts_ok (al_rows s)" "quotes_ok q" "aq_status port = Inr Market_open"
    "\<And>b. aq_quotes port b = Inr (only b q)" "0 < ac_batch_size cfg"
  shows "\<exists>out. evaluate_all cfg port now s = Some (Inr out, s\<lparr>al_rows := map (judged cfg q now) (al_rows s)\<rparr>)
    \<and> ar_checked out = length (filter (\<lambda>r. pa_state r = Alert_active) (al_rows s))
    \<and> ar_triggered out = length (filter (fires cfg q now) (al_rows s)) \<and> ar_errors out = 0"
proof -
  let ?xs = "list_active_symbols s"
  let ?out = "empty_alert_report\<lparr>ar_symbols := length ?xs, ar_status := Some Market_open\<rparr>"
  have untouched: "modify (\<lambda>r. pa_symbol r \<in> {}) (judged cfg q now) rs = rs" for rs by (induction rs) simp_all
  have mem: "in_symbols ?xs r \<longleftrightarrow> pa_state r = Alert_active" if "r \<in> set (al_rows s)" for r
    using that by (auto simp: in_symbols_def active_symbols)
  have rows: "modify (\<lambda>r. pa_symbol r \<in> {} \<union> set ?xs) (judged cfg q now) (al_rows s) = map (judged cfg q now) (al_rows s)"
    unfolding modify_def using judged_inactive[of _ cfg q now, symmetric] by (auto simp: active_symbols)
  have active: "filter (in_symbols ?xs) (al_rows s) = filter (\<lambda>r. pa_state r = Alert_active) (al_rows s)"
    using mem by (intro filter_cong refl)
  have "fires cfg q now r \<Longrightarrow> pa_state r = Alert_active" for r
    by (auto simp: fires_def alert_verdict_def evaluate_alert_Trigger)
  then have count: "filter (fires cfg q now) (filter (\<lambda>r. pa_state r = Alert_active) (al_rows s)) = filter (fires cfg q now) (al_rows s)"
    unfolding filter_filter by (intro filter_cong) auto
  show ?thesis
  proof (cases "?xs = []")
    case True
    then have "set ?xs = {}" by simp
    with rows True active untouched mem have "map (judged cfg q now) (al_rows s) = al_rows s"
      "filter (\<lambda>r. pa_state r = Alert_active) (al_rows s) = []" by (auto simp: in_symbols_def)
    with True count show ?thesis by (simp add: evaluate_all_def empty_alert_report_def)
  next
    case False
    from loop_judges[OF assms(5,1,2,4) active_symbols(2)[of s], of "{}" cfg now 0 ?out s] False obtain k where
      "batch_loop (evaluate_chunk cfg port now Market_open) (ac_batch_size cfg) ?xs (0, ?out, s)
        = Some (k, batch_report cfg q now (filter (\<lambda>r. pa_state r = Alert_active) (al_rows s)) ?out,
            s\<lparr>al_rows := map (judged cfg q now) (al_rows s)\<rparr>)" "0 < k"
      unfolding untouched rows active by auto
    with False assms(3) count show ?thesis
      by (simp add: evaluate_all_def Let_def batch_report_def empty_alert_report_def)
  qed
qed

text \<open>
  The scheduled evaluation ends exactly for positive batch sizes. With something to evaluate while the
  market is open, the loop over the batches returns, whatever the provider answers, if and only if the
  configured batch size is positive; in every other situation the run returns at once.
\<close>

theorem evaluation_ends:
  "evaluate_all cfg port now s = None \<longleftrightarrow>
     ac_batch_size cfg = 0 \<and> list_active_symbols s \<noteq> [] \<and> aq_status port = Inr Market_open"
proof (cases "list_active_symbols s \<noteq> [] \<and> aq_status port = Inr Market_open")
  case False
  then show ?thesis by (auto simp: evaluate_all_def Let_def split: sum.split)
next
  case True
  then have "evaluate_all cfg port now s = None \<longleftrightarrow>
      batch_loop (evaluate_chunk cfg port now Market_open) (ac_batch_size cfg) (list_active_symbols s)
        (0, empty_alert_report\<lparr>ar_symbols := length (list_active_symbols s), ar_status := Some Market_open\<rparr>, s) = None"
    by (simp add: evaluate_all_def Let_def)
  moreover have "batch_loop (evaluate_chunk cfg port now Market_open) (ac_batch_size cfg) (list_active_symbols s) w = None
      \<longleftrightarrow> ac_batch_size cfg = 0" for w
    using True batch_loop_ends[of "ac_batch_size cfg" "evaluate_chunk cfg port now Market_open" "list_active_symbols s" w]
      batch_loop_stuck[of "list_active_symbols s" "evaluate_chunk cfg port now Market_open" w]
    by (cases "ac_batch_size cfg") auto
  ultimately show ?thesis using True by simp
qed

section \<open>Witnesses\<close>

definition demo_alert :: price_alert where
  "demo_alert = \<lparr>pa_id = 0, pa_user = 7, pa_symbol = ''AAPL'', pa_direction = Above, pa_threshold = 1990000,
     pa_state = Alert_active, pa_created = 0, pa_triggered = None, pa_price = None, pa_quote_at = None,
     pa_read = None, pa_canceled = None\<rparr>"

definition demo_alerts :: alert_store where
  "demo_alerts = \<lparr>al_rows = [demo_alert], al_next = 1, al_now = 0\<rparr>"

definition demo_feed :: "string \<Rightarrow> quote option" where
  "demo_feed x = (if x = ''AAPL'' then Some demo_quote else None)"

definition demo_port :: alert_quotes where
  "demo_port = \<lparr>aq_status = Inr Market_open, aq_quotes = \<lambda>b. Inr (only b demo_feed)\<rparr>"

lemma demo_alerts_ok: "alerts_ok (al_rows demo_alerts)"
  by (simp add: demo_alerts_def demo_alert_def alerts_ok_def alert_check_def is_lower_def split: option.split)

lemma demo_feed_ok: "quotes_ok demo_feed"
  by (simp add: quotes_ok_def demo_feed_def demo_quote_def)

theorem evaluation_is_one_pass_witness:
  "\<exists>out. evaluate_all default_alerts_config demo_port 2000 demo_alerts
      = Some (Inr out, demo_alerts\<lparr>al_rows := [triggered_row 2000000 1000 2000 demo_alert]\<rparr>) \<and> ar_triggered out = 1"
proof -
  have p: "aq_status demo_port = Inr Market_open" "\<And>b. aq_quotes demo_port b = Inr (only b demo_feed)"
    "0 < ac_batch_size default_alerts_config"
    by (simp_all add: demo_port_def default_alerts_config_def)
  have "alert_verdict default_alerts_config demo_feed 2000 Market_open demo_alert = Trigger 2000000 1000"
    by (simp add: alert_verdict_def evaluate_alert_Trigger condition_holds_iff demo_alert_def demo_feed_def demo_quote_def
        quote_age_ms_def default_alerts_config_def alert_max_quote_age_ms_def)
  then have "map (judged default_alerts_config demo_feed 2000) (al_rows demo_alerts) = [triggered_row 2000000 1000 2000 demo_alert]"
    "filter (fires default_alerts_config demo_feed 2000) (al_rows demo_alerts) = [demo_alert]"
    by (simp_all add: judged_def fires_def demo_alerts_def)
  with evaluation_is_one_pass[OF demo_alerts_ok demo_feed_ok p, of 2000] show ?thesis by auto
qed

definition demo_canceled :: price_alert where
  "demo_canceled = demo_alert\<lparr>pa_state := Alert_canceled, pa_canceled := Some 5\<rparr>"

lemma demo_cancel: "cancel_alert 5 7 0 demo_alerts = (Inr demo_canceled, demo_alerts\<lparr>al_rows := [demo_canceled]\<rparr>)"
proof -
  have "alerts_ok [demo_canceled]"
    by (simp add: demo_canceled_def demo_alert_def alerts_ok_def alert_check_def is_lower_def active_terms_def)
  then have "cancel_row 0 5 demo_alerts = Inr (Some demo_canceled, demo_alerts\<lparr>al_rows := [demo_canceled]\<rparr>)"
    by (simp add: cancel_row_def update_alert_def demo_alerts_def demo_canceled_def demo_alert_def checked_def)
  moreover have "get_alert demo_alerts 0 = Some demo_alert" by (simp add: get_alert_def demo_alerts_def demo_alert_def)
  moreover have "pa_user demo_alert = 7" "pa_state demo_alert = Alert_active" by (simp_all add: demo_alert_def)
  ultimately show ?thesis by (simp add: cancel_alert_def cancel_alert_tx_def run_tx_def)
qed

theorem alerts_are_one_shot_witness:
  "\<exists>s'. alert_call default_alerts_config demo_alerts s' \<and> get_alert s' 0 = Some demo_canceled
     \<and> alert_evolves demo_alert demo_canceled"
proof -
  let ?s = "demo_alerts\<lparr>al_rows := [demo_canceled]\<rparr>"
  have "alerts_inv (ac_max_active default_alerts_config) demo_alerts"
    using demo_alerts_ok by (simp add: alerts_inv_def demo_alerts_def count_active_def default_alerts_config_def
        max_active_alerts_per_user_def)
  moreover have "get_alert demo_alerts 0 = Some demo_alert" "get_alert ?s 0 = Some demo_canceled"
    by (simp_all add: get_alert_def demo_alerts_def demo_alert_def demo_canceled_def)
  moreover have "alert_call default_alerts_config demo_alerts ?s" by (rule alert_call.call_cancel[OF demo_cancel])
  ultimately show ?thesis
    using alerts_are_one_shot[of default_alerts_config demo_alerts ?s 0 demo_alert] by auto
qed

end
