(* ===== verification/Alpaca_Translate.thy ===== *)
theory Alpaca_Translate
  imports Js_Case Execution Cash_Rules "HOL-Library.List_Lexorder"
begin

text \<open>
  \<^verbatim>\<open>src/infra/brokers/alpaca/translate.ts\<close> and \<^verbatim>\<open>transfers.ts\<close>: the translation of the payloads of the
  venue Alpaca into the events and transfers of the core. The payloads are records with the fields the
  code declares; \<open>None\<close> is an absent or null field, and \<open>reason\<close> stands for the one field of the raw
  payload that is read later. A client order id is the identifier the submission carried.
  What JavaScript's runtime computes from a timestamp or a locale is a parameter: \<open>jd_parse\<close> is the time
  value of \<open>new Date(s)\<close> (\<open>None\<close> for an invalid date), \<open>jd_iso\<close> is \<open>toISOString\<close> and \<open>jd_collation\<close>
  the collation key by which \<open>localeCompare\<close> orders two strings.
\<close>

record js_runtime =
  jd_parse :: "string \<Rightarrow> time option"
  jd_iso :: "time \<Rightarrow> string"
  jd_collation :: "string \<Rightarrow> nat list"

section \<open>Trade events of the stream\<close>

record trade_update =
  tu_account :: string
  tu_event_id :: "string option"
  tu_event :: string
  tu_at :: "string option"
  tu_timestamp :: "string option"
  tu_execution :: "string option"
  tu_price :: "string option"
  tu_qty :: "string option"
  tu_order :: string
  tu_client :: uuid
  tu_reason :: "string option"

text \<open>The own keys of the object; a vendor event named like a property of every object is left out.\<close>

definition event_map :: "string \<Rightarrow> event_type option" where
  "event_map = map_of
     [(''pending_new'', ORDER_ACKNOWLEDGED), (''accepted'', ORDER_ACCEPTED), (''new'', ORDER_ACCEPTED),
      (''partial_fill'', ORDER_PARTIALLY_FILLED), (''fill'', ORDER_FILLED),
      (''pending_cancel'', ORDER_CANCEL_PENDING), (''canceled'', ORDER_CANCELLED),
      (''cancelled'', ORDER_CANCELLED), (''rejected'', ORDER_REJECTED), (''expired'', ORDER_EXPIRED),
      (''done_for_day'', ORDER_EXPIRED)]"

definition event_time :: "js_runtime \<Rightarrow> time \<Rightarrow> trade_update \<Rightarrow> time" where
  "event_time J now raw =
     (let stamp = (case tu_timestamp raw of Some s \<Rightarrow> Some s | None \<Rightarrow> tu_at raw)
      in case stamp of
           None \<Rightarrow> now
         | Some s \<Rightarrow> (case jd_parse J s of Some t \<Rightarrow> t | None \<Rightarrow> now))"

definition status_update :: "js_runtime \<Rightarrow> time \<Rightarrow> trade_update \<Rightarrow> broker_event" where
  "status_update J now raw =
     \<lparr>ev_type = case_option UNKNOWN_VENDOR_STATUS id (event_map (tu_event raw)), ev_broker = ALPACA_PAPER,
      ev_account = tu_account raw, ev_broker_order = Some (tu_order raw), ev_client_order = tu_client raw,
      ev_external = tu_event_id raw, ev_execution = None, ev_fill_qty = None, ev_fill_price = None,
      ev_fee = None, ev_occurred = event_time J now raw, ev_reason = tu_reason raw\<rparr>"

text \<open>A fill gets its fields only when all three are present; their parsing may throw.\<close>

definition translate_trade_event ::
    "decimal_lib \<Rightarrow> js_runtime \<Rightarrow> time \<Rightarrow> trade_update \<Rightarrow> broker_event result" where
  "translate_trade_event D J now raw =
     (let ev = status_update J now raw
      in case (is_fill_event (ev_type ev), truthy (tu_execution raw), truthy (tu_price raw), truthy (tu_qty raw)) of
           (True, Some ex, Some p, Some q) \<Rightarrow>
             ebind (qty_of_string q) (\<lambda>fill_qty.
             ebind (px_from_vendor_decimal D p) (\<lambda>fill_price.
               Inr (ev\<lparr>ev_execution := Some ex, ev_fill_qty := Some fill_qty,
                       ev_fill_price := Some fill_price, ev_fee := Some 0\<rparr>)))
         | _ \<Rightarrow> Inr ev)"

section \<open>Order snapshots\<close>

record alpaca_order =
  ao_id :: string
  ao_client :: uuid
  ao_status :: string
  ao_filled :: string
  ao_submitted :: "string option"
  ao_reason :: "string option"

record fill_activity =
  fa_id :: string
  fa_execution :: "string option"
  fa_order :: string
  fa_time :: string
  fa_price :: string
  fa_qty :: string
  fa_reason :: "string option"

text \<open>What follows the last occurrence of \<open>"::"\<close>.\<close>

fun after_separator :: "string \<Rightarrow> string option" where
  "after_separator (a # b # s) =
     (case after_separator (b # s) of
        Some t \<Rightarrow> Some t
      | None \<Rightarrow> if a = CHR '':'' \<and> b = CHR '':'' then Some s else None)"
| "after_separator _ = None"

definition activity_execution_id :: "fill_activity \<Rightarrow> string" where
  "activity_execution_id f =
     (case truthy (fa_execution f) of
        Some ex \<Rightarrow> ex
      | None \<Rightarrow> (case after_separator (fa_id f) of Some ex \<Rightarrow> ex | None \<Rightarrow> fa_id f))"

text \<open>\<open>Qty.of(order.filled_qty || "0")\<close>.\<close>

definition venue_filled :: "alpaca_order \<Rightarrow> qty result" where
  "venue_filled x = qty_of_string (if ao_filled x = [] then ''0'' else ao_filled x)"

text \<open>\<open>orderFills\<close>: the fills of the order, in a stable order by time.\<close>

definition order_fills :: "js_runtime \<Rightarrow> alpaca_order \<Rightarrow> fill_activity list \<Rightarrow> fill_activity list" where
  "order_fills J x acts =
     sort_key (\<lambda>f. jd_collation J (fa_time f)) (filter (\<lambda>f. fa_order f = ao_id x) acts)"

fun visible_qty :: "fill_activity list \<Rightarrow> qty result" where
  "visible_qty [] = Inr 0"
| "visible_qty (f # fs) = ebind (qty_of_string (fa_qty f)) (\<lambda>q. ebind (visible_qty fs) (\<lambda>n. Inr (q + n)))"

text \<open>
  The event of one fill. An activity whose time does not parse gives an event dated with an invalid
  date, on which its application throws when it writes the date; here the exception comes before.
\<close>

definition fill_event_of ::
    "decimal_lib \<Rightarrow> js_runtime \<Rightarrow> string \<Rightarrow> alpaca_order \<Rightarrow> bool \<Rightarrow> fill_activity \<Rightarrow> broker_event result" where
  "fill_event_of D J account x is_last f =
     (let ex = activity_execution_id f
      in ebind (qty_of_string (fa_qty f)) (\<lambda>q.
         ebind (px_from_vendor_decimal D (fa_price f)) (\<lambda>p.
         ebind (of_option (JsError ''Invalid time value'') (jd_parse J (fa_time f))) (\<lambda>t.
           Inr \<lparr>ev_type = (if is_last \<and> ao_status x = ''filled'' then ORDER_FILLED else ORDER_PARTIALLY_FILLED),
                ev_broker = ALPACA_PAPER, ev_account = account, ev_broker_order = Some (ao_id x),
                ev_client_order = ao_client x, ev_external = Some (''recon-'' @ ex), ev_execution = Some ex,
                ev_fill_qty = Some q, ev_fill_price = Some p, ev_fee = Some 0, ev_occurred = t,
                ev_reason = fa_reason f\<rparr>))))"

fun fill_events ::
    "decimal_lib \<Rightarrow> js_runtime \<Rightarrow> string \<Rightarrow> alpaca_order \<Rightarrow> fill_activity list \<Rightarrow> broker_event list result" where
  "fill_events D J account x [] = Inr []"
| "fill_events D J account x (f # fs) =
     ebind (fill_event_of D J account x (fs = []) f) (\<lambda>ev.
     ebind (fill_events D J account x fs) (\<lambda>evs. Inr (ev # evs)))"

definition status_events :: "time \<Rightarrow> string \<Rightarrow> alpaca_order \<Rightarrow> broker_event list" where
  "status_events now account x =
     (case event_map (ao_status x) of
        None \<Rightarrow> []
      | Some t \<Rightarrow>
          if is_fill_event t then []
          else [\<lparr>ev_type = t, ev_broker = ALPACA_PAPER, ev_account = account, ev_broker_order = Some (ao_id x),
                 ev_client_order = ao_client x,
                 ev_external = Some (''recon-status-'' @ ao_id x @ ''-'' @ ao_status x),
                 ev_execution = None, ev_fill_qty = None, ev_fill_price = None, ev_fee = None,
                 ev_occurred = now, ev_reason = ao_reason x\<rparr>])"

definition events_from_snapshot ::
    "decimal_lib \<Rightarrow> js_runtime \<Rightarrow> time \<Rightarrow> string \<Rightarrow> alpaca_order \<Rightarrow> fill_activity list \<Rightarrow> broker_event list result" where
  "events_from_snapshot D J now account x acts =
     (let ofs = order_fills J x acts
      in ebind (visible_qty ofs) (\<lambda>visible.
         ebind (venue_filled x) (\<lambda>filled.
         ebind (ensure (visible \<ge> filled) (JsError ''IncompleteFillsError'')) (\<lambda>_.
         ebind (fill_events D J account x ofs) (\<lambda>evs.
           Inr (evs @ status_events now account x))))))"

section \<open>Cash transfers\<close>

record alpaca_transfer =
  at_id :: string
  at_account :: string
  at_status :: string
  at_reason :: "string option"
  at_amount :: string
  at_direction :: string
  at_created :: "string option"

record ach_relationship =
  rel_id :: string
  rel_account :: string
  rel_status :: string

definition status_map :: "string \<Rightarrow> venue_state option" where
  "status_map = map_of
     [(''QUEUED'', V_pending), (''APPROVAL_PENDING'', V_pending), (''PENDING'', V_pending),
      (''SENT_TO_CLEARING'', V_pending), (''APPROVED'', V_pending), (''COMPLETE'', V_settled),
      (''REJECTED'', V_failed), (''CANCELED'', V_failed), (''RETURNED'', V_failed)]"

definition translate_transfer_status :: "string \<Rightarrow> venue_state" where
  "translate_transfer_status st = case_option V_pending id (status_map (to_upper st))"

definition usable_relationship :: "string list" where
  "usable_relationship = [''APPROVED'', ''QUEUED'', ''PENDING'', ''SUBMITTED'']"

definition pick_ach_relationship :: "ach_relationship list \<Rightarrow> ach_relationship option" where
  "pick_ach_relationship rels =
     (let usable = filter (\<lambda>r. to_upper (rel_status r) \<in> set usable_relationship) rels
      in case find (\<lambda>r. to_upper (rel_status r) = ''APPROVED'') usable of
           Some r \<Rightarrow> Some r
         | None \<Rightarrow> (case usable of [] \<Rightarrow> None | r # _ \<Rightarrow> Some r))"

definition vendor_amount_to_money :: "string \<Rightarrow> money result" where
  "vendor_amount_to_money raw =
     (case match_decimal (js_trim raw) of
        Some (False, whole, f) \<Rightarrow>
          let frac = rev (dropWhile (\<lambda>c. c = CHR ''0'') (rev f))
          in if length frac > 2 then Inl (JsError ''alpaca transfer amount has sub-cent precision'')
             else money_from_string (if frac = [] then whole else whole @ CHR ''.'' # frac)
      | _ \<Rightarrow> Inl (JsError ''alpaca transfer amount is not a decimal''))"

definition direction_from_vendor :: "string \<Rightarrow> transfer_direction result" where
  "direction_from_vendor s =
     (if s = ''INCOMING'' then Inr DEPOSIT
      else if s = ''OUTGOING'' then Inr WITHDRAWAL
      else Inl (JsError ''alpaca transfer has unknown direction''))"

definition direction_to_vendor :: "transfer_direction \<Rightarrow> string" where
  "direction_to_vendor dir = (if dir = DEPOSIT then ''INCOMING'' else ''OUTGOING'')"

definition vendor_timestamp :: "js_runtime \<Rightarrow> string option \<Rightarrow> time result" where
  "vendor_timestamp J raw =
     of_option (JsError ''alpaca transfer has an invalid created_at'') (Option.bind raw (jd_parse J))"

definition translate_transfer :: "js_runtime \<Rightarrow> alpaca_transfer \<Rightarrow> venue_transfer result" where
  "translate_transfer J t =
     (let st = translate_transfer_status (at_status t)
      in ebind (direction_from_vendor (at_direction t)) (\<lambda>dir.
         ebind (vendor_amount_to_money (at_amount t)) (\<lambda>amount.
         ebind (vendor_timestamp J (at_created t)) (\<lambda>created.
           Inr \<lparr>vt_id = at_id t, vt_direction = dir, vt_amount = amount, vt_state = st,
                vt_failure =
                  (if st = V_failed
                   then Some (case truthy (map_option js_trim (at_reason t)) of
                                Some r \<Rightarrow> r
                              | None \<Rightarrow> ''Transfer '' @ to_lower (at_status t) @ '' by the venue'')
                   else None),
                vt_created = created\<rparr>))))"

end
