(* ===== verification/Alpaca_Broker.thy ===== *)
theory Alpaca_Broker
  imports Alpaca_Translate Effects Accounts
begin

text \<open>
  \<^verbatim>\<open>src/infra/brokers/alpaca/broker.ts\<close>: the client of the deployed venue. The venue's HTTP interface is
  a parameter: one function per endpoint, on a state of its own, which either throws (no response) or
  returns an HTTP status with the parsed body, \<open>None\<close> when the body is null or not JSON. URLs, headers
  and the fields of the fixed synthetic applicant are not modelled. The broker never touches the
  database: outcomes arrive through the event stream and through reconciliation.
\<close>

section \<open>The interface of the venue\<close>

type_synonym 'b response = "nat \<times> 'b option"

record transfer_post =
  tp_relationship :: string
  tp_amount :: string
  tp_direction :: string

text \<open>The answer to a transfer request: a transfer, or an error body with or without a message.\<close>

datatype transfer_answer = Created_transfer alpaca_transfer | Error_body "string option"

record order_post =
  op_symbol :: string
  op_qty :: string
  op_side :: string
  op_type :: string
  op_limit :: "string option"
  op_client :: uuid
  op_extended :: bool

record 'v alpaca_api =
  api_create_account :: "string \<Rightarrow> 'v \<Rightarrow> string response result \<times> 'v"
  api_create_ach :: "string \<Rightarrow> 'v \<Rightarrow> string response result \<times> 'v"
  api_list_ach :: "string \<Rightarrow> 'v \<Rightarrow> ach_relationship list response result \<times> 'v"
  api_post_transfer :: "string \<Rightarrow> transfer_post \<Rightarrow> 'v \<Rightarrow> transfer_answer response result \<times> 'v"
  api_transfers :: "string \<Rightarrow> nat \<Rightarrow> nat \<Rightarrow> 'v \<Rightarrow> alpaca_transfer list response result \<times> 'v"
  api_delete_transfer :: "string \<Rightarrow> string \<Rightarrow> 'v \<Rightarrow> unit response result \<times> 'v"
  api_post_order :: "string \<Rightarrow> order_post \<Rightarrow> 'v \<Rightarrow> string response result \<times> 'v"
  api_delete_order :: "string \<Rightarrow> string \<Rightarrow> 'v \<Rightarrow> unit response result \<times> 'v"
  api_order_by_client :: "string \<Rightarrow> uuid \<Rightarrow> 'v \<Rightarrow> alpaca_order response result \<times> 'v"
  api_open_orders :: "string \<Rightarrow> 'v \<Rightarrow> alpaca_order list response result \<times> 'v"
  api_account_cash :: "string \<Rightarrow> 'v \<Rightarrow> string response result \<times> 'v"
  api_positions :: "string \<Rightarrow> 'v \<Rightarrow> (string \<times> string) list response result \<times> 'v"
  api_fills :: "string \<Rightarrow> string option \<Rightarrow> string option \<Rightarrow> 'v \<Rightarrow> fill_activity list response result \<times> 'v"

definition transfer_reject_statuses :: "nat list" where
  "transfer_reject_statuses = [400, 401, 403, 404, 409, 422, 429]"

definition transfer_page :: nat where "transfer_page = 100"
definition transfer_max_pages :: nat where "transfer_max_pages = 50"

text \<open>\<open>request\<close>: a status that is neither 2xx nor expected throws; a 204 has no body.\<close>

definition api_request :: "nat list \<Rightarrow> 'b response result \<times> 'v \<Rightarrow> 'b response result \<times> 'v" where
  "api_request ok_statuses res =
     wbind res (\<lambda>(status, body) v.
       if \<not> (200 \<le> status \<and> status \<le> 299) \<and> status \<notin> set ok_statuses
       then (Inl (JsError ''alpaca HTTP error''), v)
       else (Inr (status, if status = 204 then None else body), v))"

text \<open>A property read of a missing body.\<close>

definition deref :: "'b option \<Rightarrow> 'b result" where
  "deref = of_option (JsError ''TypeError'')"

section \<open>Provisioning\<close>

definition provision_account ::
    "'v alpaca_api \<Rightarrow> string \<Rightarrow> money \<Rightarrow> 'v \<Rightarrow> broker_ref result \<times> 'v" where
  "provision_account api suffix starting v =
     wbind (api_request [] (api_create_account api suffix v)) (\<lambda>(_, account) v1.
     wbind (deref account, v1) (\<lambda>i v1.
     wbind (api_request [] (api_create_ach api i v1)) (\<lambda>(_, rel) v2.
     wbind (deref rel, v2) (\<lambda>r v2.
     wbind (api_request [] (api_post_transfer api i
         \<lparr>tp_relationship = r, tp_amount = money_to_string starting, tp_direction = ''INCOMING''\<rparr> v2)) (\<lambda>_ v3.
       (Inr \<lparr>ref_broker = ALPACA_PAPER, ref_external = i\<rparr>, v3))))))"

section \<open>Cash transfers\<close>

definition ensure_ach_relationship :: "'v alpaca_api \<Rightarrow> string \<Rightarrow> 'v \<Rightarrow> string result \<times> 'v" where
  "ensure_ach_relationship api account v =
     wbind (api_request [] (api_list_ach api account v)) (\<lambda>(_, rels) v1.
       case pick_ach_relationship (case_option [] id rels) of
         Some r \<Rightarrow> (Inr (rel_id r), v1)
       | None \<Rightarrow>
           wbind (api_request [] (api_create_ach api account v1)) (\<lambda>(_, created) v2. (deref created, v2)))"

definition refusal :: "nat \<Rightarrow> transfer_answer option \<Rightarrow> exn" where
  "refusal status body = TransferRejected
     (case body of
        Some (Error_body (Some m)) \<Rightarrow>
          if m = [] then ''Venue refused the transfer (HTTP '' @ show_nat status @ '')''
          else m @ '' (HTTP '' @ show_nat status @ '')''
      | _ \<Rightarrow> ''Venue refused the transfer (HTTP '' @ show_nat status @ '')'')"

definition answered_transfer :: "js_runtime \<Rightarrow> transfer_answer option \<Rightarrow> venue_transfer result" where
  "answered_transfer J body =
     (case body of
        Some (Created_transfer t) \<Rightarrow> translate_transfer J t
      | _ \<Rightarrow> Inl (JsError ''TypeError''))"

definition initiate ::
    "'v alpaca_api \<Rightarrow> js_runtime \<Rightarrow> broker_ref \<Rightarrow> uuid \<Rightarrow> transfer_direction \<Rightarrow> money \<Rightarrow> 'v \<Rightarrow> venue_transfer result \<times> 'v" where
  "initiate api J ref transfer_id dir amount v =
     wbind (ensure_ach_relationship api (ref_external ref) v) (\<lambda>rel v1.
     wbind (api_request transfer_reject_statuses (api_post_transfer api (ref_external ref)
         \<lparr>tp_relationship = rel, tp_amount = money_to_string amount, tp_direction = direction_to_vendor dir\<rparr> v1))
       (\<lambda>(status, body) v2.
         if status \<ge> 400 then (Inl (refusal status body), v2)
         else (answered_transfer J body, v2)))"

text \<open>
  \<open>pageTransfers\<close>, with the pages that are left and the variables of the callback: the callback
  returns their new values and whether to stop.
\<close>

fun page_transfers ::
    "'v alpaca_api \<Rightarrow> string \<Rightarrow> (alpaca_transfer list \<Rightarrow> 'a \<Rightarrow> 'a \<times> bool) \<Rightarrow> nat \<Rightarrow> nat \<Rightarrow> 'a \<Rightarrow> 'v \<Rightarrow> 'a result \<times> 'v" where
  "page_transfers api account stop 0 page acc v = (Inl (JsError ''alpaca transfers exceed the page limit''), v)"
| "page_transfers api account stop (Suc left) page acc v =
     wbind (api_request [] (api_transfers api account transfer_page (page * transfer_page) v)) (\<lambda>(_, body) v1.
       let batch = case_option [] id body;
           (acc1, halt) = stop batch acc
       in if halt \<or> length batch < transfer_page then (Inr acc1, v1)
          else page_transfers api account stop left (Suc page) acc1 v1)"

definition get_transfer_at ::
    "'v alpaca_api \<Rightarrow> js_runtime \<Rightarrow> broker_ref \<Rightarrow> string \<Rightarrow> 'v \<Rightarrow> venue_transfer option result \<times> 'v" where
  "get_transfer_at api J ref i v =
     wbind (page_transfers api (ref_external ref)
         (\<lambda>batch _. let found = find (\<lambda>t. at_id t = i) batch in (found, found \<noteq> None))
         transfer_max_pages 0 None v) (\<lambda>found v1.
       case found of
         None \<Rightarrow> (Inr None, v1)
       | Some t \<Rightarrow> (ebind (translate_transfer J t) (\<lambda>x. Inr (Some x)), v1))"

text \<open>
  The rows with a readable date, in order. Rows are objects, so \<open>d === opening\<close> is the identity of a
  row: the oldest one is given by its position.
\<close>

definition dated_rows :: "js_runtime \<Rightarrow> alpaca_transfer list \<Rightarrow> (alpaca_transfer \<times> time) list" where
  "dated_rows J rows =
     concat (map (\<lambda>r. case vendor_timestamp J (at_created r) of Inr t \<Rightarrow> [(r, t)] | Inl _ \<Rightarrow> []) rows)"

definition oldest_index :: "(alpaca_transfer \<times> time) list \<Rightarrow> nat option" where
  "oldest_index dated =
     foldl (\<lambda>oldest i. case oldest of
         None \<Rightarrow> Some i
       | Some j \<Rightarrow> if snd (dated ! i) < snd (dated ! j) then Some i else oldest) None [0..<length dated]"

text \<open>The second loop: the transfers and the number of skipped rows.\<close>

definition list_step ::
    "js_runtime \<Rightarrow> time \<Rightarrow> nat option \<Rightarrow> nat \<times> alpaca_transfer \<times> time \<Rightarrow> venue_transfer list \<times> nat \<Rightarrow> venue_transfer list \<times> nat" where
  "list_step J since opening = (\<lambda>(i, r, t) (ts, skipped).
     if t < since then (ts, skipped)
     else if opening = Some i \<and> at_direction r = ''INCOMING'' then (ts, skipped)
     else case translate_transfer J r of
            Inr x \<Rightarrow> (ts @ [x], skipped)
          | Inl _ \<Rightarrow> (ts, skipped + 1))"

definition listing_of :: "js_runtime \<Rightarrow> time \<Rightarrow> alpaca_transfer list \<Rightarrow> venue_listing" where
  "listing_of J since rows =
     (let dated = dated_rows J rows;
          undated = length rows - length dated;
          (ts, skipped) = fold (list_step J since (oldest_index dated)) (enumerate 0 dated) ([], undated)
      in \<lparr>vl_transfers = ts, vl_complete = (skipped = 0)\<rparr>)"

definition list_transfers_at ::
    "'v alpaca_api \<Rightarrow> js_runtime \<Rightarrow> broker_ref \<Rightarrow> time \<Rightarrow> 'v \<Rightarrow> venue_listing result \<times> 'v" where
  "list_transfers_at api J ref since v =
     wbind (page_transfers api (ref_external ref) (\<lambda>batch rows. (rows @ batch, False)) transfer_max_pages 0 [] v)
       (\<lambda>rows v1. (Inr (listing_of J since rows), v1))"

definition cancel_transfer_at :: "'v alpaca_api \<Rightarrow> broker_ref \<Rightarrow> string \<Rightarrow> 'v \<Rightarrow> bool result \<times> 'v" where
  "cancel_transfer_at api ref i v =
     wbind (api_request transfer_reject_statuses (api_delete_transfer api (ref_external ref) i v))
       (\<lambda>(status, _) v1. (Inr (status < 400), v1))"

definition alpaca_cash_venue :: "'v alpaca_api \<Rightarrow> js_runtime \<Rightarrow> 'v cash_venue" where
  "alpaca_cash_venue api J =
     \<lparr>cv_initiate = initiate api J, cv_get = get_transfer_at api J,
      cv_list = list_transfers_at api J, cv_cancel = cancel_transfer_at api\<rparr>"

section \<open>Orders\<close>

definition fill_page :: nat where "fill_page = 100"
definition fill_max_pages :: nat where "fill_max_pages = 20"

fun page_fills ::
    "'v alpaca_api \<Rightarrow> string \<Rightarrow> string option \<Rightarrow> nat \<Rightarrow> string option \<Rightarrow> fill_activity list \<Rightarrow> 'v
     \<Rightarrow> fill_activity list result \<times> 'v" where
  "page_fills api account since 0 token acc v = (Inr acc, v)"
| "page_fills api account since (Suc left) token acc v =
     wbind (api_request [] (api_fills api account since token v)) (\<lambda>(_, body) v1.
       let batch = case_option [] id body
       in if length batch < fill_page then (Inr (acc @ batch), v1)
          else page_fills api account since left (Some (fa_id (last batch))) (acc @ batch) v1)"

text \<open>\<open>after ? new Date(Date.parse(after) - 60_000).toISOString() : undefined\<close>.\<close>

definition fills_since :: "js_runtime \<Rightarrow> string option \<Rightarrow> string option result" where
  "fills_since J after_time =
     (case truthy after_time of
        None \<Rightarrow> Inr None
      | Some s \<Rightarrow> (case jd_parse J s of
          None \<Rightarrow> Inl (JsError ''Invalid time value'')
        | Some t \<Rightarrow> Inr (Some (jd_iso J (t - 60000)))))"

definition fill_activities ::
    "'v alpaca_api \<Rightarrow> js_runtime \<Rightarrow> string \<Rightarrow> string option \<Rightarrow> 'v \<Rightarrow> fill_activity list result \<times> 'v" where
  "fill_activities api J account after_time v =
     wbind (fills_since J after_time, v)
       (\<lambda>since v1. page_fills api account since fill_max_pages None [] v1)"

definition to_snapshot ::
    "decimal_lib \<Rightarrow> js_runtime \<Rightarrow> time \<Rightarrow> string \<Rightarrow> alpaca_order \<Rightarrow> fill_activity list \<Rightarrow> order_snapshot result" where
  "to_snapshot D J now account x acts =
     ebind (venue_filled x) (\<lambda>filled.
     ebind (events_from_snapshot D J now account x acts) (\<lambda>evs.
       Inr \<lparr>sn_client_order = ao_client x, sn_broker_order = ao_id x, sn_status = ao_status x,
            sn_filled = filled, sn_events = evs\<rparr>))"

definition get_order_by_client_id ::
    "decimal_lib \<Rightarrow> 'v alpaca_api \<Rightarrow> js_runtime \<Rightarrow> time \<Rightarrow> string \<Rightarrow> uuid \<Rightarrow> 'v \<Rightarrow> order_snapshot option result \<times> 'v" where
  "get_order_by_client_id D api J now account i v =
     wbind (api_request [404] (api_order_by_client api account i v)) (\<lambda>(status, body) v1.
       case body of
         None \<Rightarrow> (Inr None, v1)
       | Some x \<Rightarrow>
           if status = 404 then (Inr None, v1)
           else
             wbind (venue_filled x, v1) (\<lambda>filled v1.
             wbind (if filled > 0 then fill_activities api J account (ao_submitted x) v1 else (Inr [], v1)) (\<lambda>acts v2.
               (ebind (to_snapshot D J now account x acts) (\<lambda>sn. Inr (Some sn)), v2))))"

definition order_post_of :: "order_request \<Rightarrow> order_post" where
  "order_post_of rq =
     \<lparr>op_symbol = rq_symbol rq, op_qty = qty_to_string (rq_qty rq),
      op_side = (if rq_side rq = BUY then ''buy'' else ''sell''),
      op_type = (if rq_type rq = MARKET then ''market'' else ''limit''),
      op_limit = map_option px_to_string (rq_limit rq), op_client = rq_client_order rq,
      op_extended = rq_extended_hours rq\<rparr>"

definition submit_order ::
    "decimal_lib \<Rightarrow> 'v alpaca_api \<Rightarrow> js_runtime \<Rightarrow> time \<Rightarrow> order_request \<Rightarrow> 'v \<Rightarrow> submit_result result \<times> 'v" where
  "submit_order D api J now rq v =
     wbind (api_request [422, 409] (api_post_order api (rq_account rq) (order_post_of rq) v)) (\<lambda>(status, body) v1.
       if status = 409 \<or> status = 422 then
         wbind (get_order_by_client_id D api J now (rq_account rq) (rq_client_order rq) v1) (\<lambda>existing v2.
           case existing of
             Some sn \<Rightarrow> (Inr \<lparr>sr_broker_order = sn_broker_order sn, sr_duplicate = True\<rparr>, v2)
           | None \<Rightarrow> (Inl (JsError ''alpaca submit rejected and no existing order''), v2))
       else (ebind (deref body) (\<lambda>i. Inr \<lparr>sr_broker_order = i, sr_duplicate = False\<rparr>), v1))"

definition cancel_order ::
    "decimal_lib \<Rightarrow> 'v alpaca_api \<Rightarrow> js_runtime \<Rightarrow> time \<Rightarrow> string \<Rightarrow> uuid \<Rightarrow> 'v \<Rightarrow> cancel_result result \<times> 'v" where
  "cancel_order D api J now account i v =
     wbind (get_order_by_client_id D api J now account i v) (\<lambda>snapshot v1.
       case snapshot of
         None \<Rightarrow> (Inr \<lparr>cr_accepted = False, cr_reason = Some ''unknown order''\<rparr>, v1)
       | Some sn \<Rightarrow>
           wbind (api_request [404, 422] (api_delete_order api account (sn_broker_order sn) v1)) (\<lambda>(status, _) v2.
             (Inr (if status = 204 then \<lparr>cr_accepted = True, cr_reason = None\<rparr>
                   else \<lparr>cr_accepted = False,
                         cr_reason = Some (''venue refused (HTTP '' @ show_nat status @ '')'')\<rparr>), v2)))"

fun map_snapshots ::
    "decimal_lib \<Rightarrow> js_runtime \<Rightarrow> time \<Rightarrow> string \<Rightarrow> fill_activity list \<Rightarrow> alpaca_order list \<Rightarrow> order_snapshot list result" where
  "map_snapshots D J now account acts [] = Inr []"
| "map_snapshots D J now account acts (x # xs) =
     ebind (to_snapshot D J now account x acts) (\<lambda>sn.
     ebind (map_snapshots D J now account acts xs) (\<lambda>sns. Inr (sn # sns)))"

definition alpaca_open_orders ::
    "decimal_lib \<Rightarrow> 'v alpaca_api \<Rightarrow> js_runtime \<Rightarrow> time \<Rightarrow> string \<Rightarrow> 'v \<Rightarrow> order_snapshot list result \<times> 'v" where
  "alpaca_open_orders D api J now account v =
     wbind (api_request [] (api_open_orders api account v)) (\<lambda>(_, body) v1.
     wbind (fill_activities api J account None v1) (\<lambda>acts v2.
       (map_snapshots D J now account acts (case_option [] id body), v2)))"

text \<open>Inside the process the broker is called next to the database, which it leaves alone.\<close>

definition beside :: "('v \<Rightarrow> 'a \<times> 'v) \<Rightarrow> 'v \<times> db \<Rightarrow> 'a \<times> ('v \<times> db)" where
  "beside f w = (case w of (v, d) \<Rightarrow> (case f v of (x, v1) \<Rightarrow> (x, (v1, d))))"

definition alpaca_broker :: "decimal_lib \<Rightarrow> 'v alpaca_api \<Rightarrow> js_runtime \<Rightarrow> time \<Rightarrow> 'v broker" where
  "alpaca_broker D api J now =
     \<lparr>br_kind = ALPACA_PAPER,
      br_submit = (\<lambda>rq. beside (submit_order D api J now rq)),
      br_cancel = (\<lambda>account i. beside (cancel_order D api J now account i)),
      br_get_order = (\<lambda>account i. beside (get_order_by_client_id D api J now account i))\<rparr>"

section \<open>The account at the venue\<close>

record account_snapshot =
  sp_external :: string
  sp_cash :: money
  sp_positions :: "(string \<times> qty) list"

fun parse_positions :: "(string \<times> string) list \<Rightarrow> (string \<times> qty) list result" where
  "parse_positions [] = Inr []"
| "parse_positions ((s, q) # ps) =
     ebind (qty_of_string q) (\<lambda>n. ebind (parse_positions ps) (\<lambda>rest. Inr ((s, n) # rest)))"

text \<open>The two requests are sent together; here one after the other.\<close>

definition get_account_snapshot ::
    "decimal_lib \<Rightarrow> 'v alpaca_api \<Rightarrow> string \<Rightarrow> 'v \<Rightarrow> account_snapshot result \<times> 'v" where
  "get_account_snapshot D api account v =
     wbind (api_request [] (api_account_cash api account v)) (\<lambda>(_, a) v1.
     wbind (api_request [] (api_positions api account v1)) (\<lambda>(_, ps) v2.
       (ebind (deref a) (\<lambda>raw.
        ebind (money_from_vendor_decimal D raw) (\<lambda>cash.
        ebind (parse_positions (case_option [] id ps)) (\<lambda>positions.
          Inr \<lparr>sp_external = account, sp_cash = cash, sp_positions = positions\<rparr>))), v2)))"

text \<open>The provisioner of \<^verbatim>\<open>src/server/container.ts\<close> over this broker.\<close>

definition alpaca_provisioner ::
    "decimal_lib \<Rightarrow> 'v alpaca_api \<Rightarrow> (uuid \<Rightarrow> string) \<Rightarrow> 'v provisioner" where
  "alpaca_provisioner D api suffix_of =
     \<lparr>pv_provision = (\<lambda>a. provision_account api (suffix_of (acc_id a)) (acc_starting a)),
      pv_settled_cash = (\<lambda>ref v. wbind (get_account_snapshot D api (ref_external ref) v)
         (\<lambda>sn v1. (Inr (sp_cash sn), v1)))\<rparr>"

end
