(* ===== verification/Js_Bigint.thy ===== *)
theory Js_Bigint
  imports Money Js_Case "HOL-Library.Signed_Division"
begin

text \<open>
  Big integers as the browser code uses them: \<open>BigInt\<close> of a string, the parts of a decimal string, and the division
  that rounds half to even, written with quotient and remainder.
\<close>

section \<open>Big integers\<close>

fun base_digit :: "char \<Rightarrow> nat option" where
  "base_digit c =
     (let n = of_char c :: nat
      in if 48 \<le> n \<and> n \<le> 57 then Some (n - 48)
         else if 97 \<le> n \<and> n \<le> 122 then Some (n - 87)
         else if 65 \<le> n \<and> n \<le> 90 then Some (n - 55) else None)"

fun read_base :: "nat \<Rightarrow> string \<Rightarrow> nat \<Rightarrow> nat option" where
  "read_base b [] acc = Some acc"
| "read_base b (c # s) acc =
     (case base_digit c of None \<Rightarrow> None | Some v \<Rightarrow> if v < b then read_base b s (acc * b + v) else None)"

text \<open>\<open>BigInt(s)\<close>: white space around, then nothing, digits, signed digits or a prefixed literal; else a SyntaxError.\<close>

definition big_int :: "string \<Rightarrow> int result" where
  "big_int s =
     (let t = js_trim s; malformed = JsError ''SyntaxError''
      in if t = [] then Inr 0
         else if list_all is_digit t then Inr (int (read_nat t))
         else if (hd t = CHR ''-'' \<or> hd t = CHR ''+'') \<and> tl t \<noteq> [] \<and> list_all is_digit (tl t)
           then Inr ((if hd t = CHR ''-'' then - 1 else 1) * int (read_nat (tl t)))
         else if length t > 2 \<and> hd t = CHR ''0'' then
           (let b = (case to_lower_char (t ! 1) of c \<Rightarrow>
               if c = CHR ''x'' then 16 else if c = CHR ''o'' then 8 else if c = CHR ''b'' then 2 else 0)
            in of_option malformed (map_option int (read_base b (drop 2 t) 0)))
         else Inl malformed)"

definition or_zero :: "string \<Rightarrow> string" where
  "or_zero s = (if s = [] then ''0'' else s)"

section \<open>Decimal strings\<close>

lemma js_trim_all_digits: "list_all is_digit s \<Longrightarrow> js_trim s = s"
  by (cases "s = []") (simp add: js_trim_def, auto intro!: js_trim_digits simp: list_all_iff)

lemma big_int_digits: "list_all is_digit s \<Longrightarrow> big_int s = Inr (int (read_nat s))"
  by (simp add: big_int_def js_trim_all_digits Let_def)

lemma or_zero_digits: "list_all is_digit s \<Longrightarrow> list_all is_digit (or_zero s) \<and> read_nat (or_zero s) = read_nat s"
  by (auto simp: or_zero_def read_nat_Cons)

lemma match_decimal_shape:
  assumes "match_decimal s = Some (neg, w, f)"
  shows "neg = (take 1 s = ''-'')" "(if neg then tl s else s) = w @ (if f = [] then [] else CHR ''.'' # f)"
    "list_all is_digit w" "list_all is_digit f" "w \<noteq> []"
proof -
  let ?body = "if neg then tl s else s"
  have n: "neg = (s \<noteq> [] \<and> hd s = CHR ''-'')" and w: "w = takeWhile is_digit ?body" "w \<noteq> []"
    and r: "dropWhile is_digit ?body = [] \<and> f = []
      \<or> (\<exists>c. dropWhile is_digit ?body = c # f \<and> is_point c \<and> f \<noteq> [] \<and> list_all is_digit f)"
    using assms by (auto simp: match_decimal_def Let_def split: if_splits list.splits)
  show "neg = (take 1 s = ''-'')" using n by (cases s) auto
  show "list_all is_digit w" "list_all is_digit f" "w \<noteq> []"
    using w r by (auto simp: list_all_iff dest: set_takeWhileD)
  have "?body = w @ dropWhile is_digit ?body" unfolding w(1) by simp
  also have "dropWhile is_digit ?body = (if f = [] then [] else CHR ''.'' # f)" using r by (auto simp: is_point_def)
  finally show "?body = w @ (if f = [] then [] else CHR ''.'' # f)" .
qed

lemma split_money:
  assumes "match_decimal s = Some (neg, w, f)"
  shows "split_point (if neg then drop 1 s else s) = (w, f)"
proof -
  note m = match_decimal_shape[OF assms]
  have "(if neg then drop 1 s else s) = w @ (if f = [] then [] else CHR ''.'' # f)"
    using m(2) by (cases neg) (simp_all add: drop_Suc)
  then show ?thesis using split_point_digits[OF m(3,4)] by (simp split: if_splits)
qed

section \<open>Rounding with quotient and remainder\<close>

lemma half_even_div:
  assumes "0 < d"
  shows "half_even (of_int n / of_int d)
    = (if 2 * (n mod d) > d \<or> 2 * (n mod d) = d \<and> odd (n div d) then n div d + 1 else n div d)"
proof -
  have fl: "\<lfloor>of_int n / (of_int d :: rat)\<rfloor> = n div d" by (rule floor_divide_of_int_eq)
  have "of_int n = of_int (n div d) * of_int d + (of_int (n mod d) :: rat)"
    by (metis div_mult_mod_eq of_int_add of_int_mult)
  then have r: "of_int n / of_int d - of_int (n div d) = (of_int (n mod d) / of_int d :: rat)"
    using assms by (simp add: field_simps)
  have c: "(of_int (n mod d) / of_int d < (1 / 2 :: rat)) = (2 * (n mod d) < d)"
    "(of_int (n mod d) / of_int d > (1 / 2 :: rat)) = (2 * (n mod d) > d)"
    using assms of_int_less_iff[of "2 * (n mod d)" d, where 'a = rat] of_int_less_iff[of d "2 * (n mod d)", where 'a = rat]
    by (simp_all add: field_simps)
  show ?thesis unfolding half_even_def Let_def fl r c by auto
qed

end
