(* ===== verification/Alpaca_Correct.thy ===== *)
theory Alpaca_Correct
  imports Alpaca_Broker Execution_Submit Event_Delivery Js_Bigint
begin

text \<open>
  The correctness of the Alpaca adapter (\<^verbatim>\<open>src/infra/brokers/alpaca\<close>): the broker honours the broker
  port, an execution reported by the stream and by a snapshot is one execution, a snapshot never hides
  a fill, amounts survive the translation exactly, and a listing read to its end is authoritative.
\<close>

section \<open>The broker port\<close>

lemma beside_db: "beside f (v, d) = (x, (v', d')) \<Longrightarrow> d' = d"
  by (auto simp: beside_def split: prod.splits)

interpretation alpaca: venue_port "alpaca_broker D api J now" D for D api J now
proof unfold_locales
  have same: "d' = d \<Longrightarrow> \<exists>es. d' = fold (deliver D) es d" for d d' :: db
    by (intro exI[of _ "[]"]) simp
  show "\<exists>es. d' = fold (deliver D) es d"
    if "br_submit (alpaca_broker D api J now) rq (v, d) = (x, (v', d'))" for rq v d x v' d'
    using that by (intro same) (simp add: alpaca_broker_def beside_db)
  show "\<exists>es. d' = fold (deliver D) es d"
    if "br_cancel (alpaca_broker D api J now) a i (v, d) = (c, (v', d'))" for a i v d c v' d'
    using that by (intro same) (simp add: alpaca_broker_def beside_db)
  show "d' = d"
    if "br_get_order (alpaca_broker D api J now) a i (v, d) = (s, (v', d'))" for a i v d s v' d'
    using that by (simp add: alpaca_broker_def beside_db)
qed

section \<open>Execution identities\<close>

lemma after_separator_none: "CHR '':'' \<notin> set s \<Longrightarrow> after_separator s = None"
  by (induction s rule: after_separator.induct) auto

lemma after_separator_append:
  assumes "CHR '':'' \<notin> set ex"
  shows "after_separator (stamp @ CHR '':'' # CHR '':'' # ex) = Some ex"
proof (induction stamp)
  case Nil
  from assms have "after_separator (CHR '':'' # ex) = None"
    by (cases ex) (auto simp: after_separator_none)
  then show ?case by simp
next
  case (Cons c stamp)
  then show ?case by (cases stamp) simp_all
qed

text \<open>An activity of the sandbox: no execution id, and the identifier \<open>stamp::execution\<close>.\<close>

definition sandbox_activity :: "string \<Rightarrow> fill_activity \<Rightarrow> bool" where
  "sandbox_activity ex f \<longleftrightarrow>
     fa_execution f = None \<and> (\<exists>stamp. fa_id f = stamp @ ''::'' @ ex) \<and> CHR '':'' \<notin> set ex"

lemma sandbox_execution: "sandbox_activity ex f \<Longrightarrow> activity_execution_id f = ex"
  by (auto simp: sandbox_activity_def activity_execution_id_def truthy_def after_separator_append)

lemma translate_fill:
  assumes "translate_trade_event D J now raw = Inr ev" "is_fill_event (ev_type ev)" "truthy (ev_execution ev) = Some ex"
  shows "tu_execution raw = Some ex" "ev_broker ev = ALPACA_PAPER" "ev_client_order ev = tu_client raw"
    "ev_external ev = tu_event_id raw" "ev_execution ev = Some ex"
  using assms
  by (auto simp: translate_trade_event_def status_update_def Let_def truthy_def result_simps
      split: option.splits bool.splits if_splits)

lemma fill_event_fields:
  assumes "fill_event_of D J account x l f = Inr ev"
  shows "is_fill_event (ev_type ev)" "ev_broker ev = ALPACA_PAPER" "ev_client_order ev = ao_client x"
    "ev_execution ev = Some (activity_execution_id f)" "ev_fill_qty ev \<noteq> None"
    "ev_external ev = Some (''recon-'' @ activity_execution_id f)"
    "qty_of_string (fa_qty f) = Inr (the (ev_fill_qty ev))" "ev_fee ev = Some 0"
    "ev_type ev = ORDER_FILLED \<longleftrightarrow> l \<and> ao_status x = ''filled''"
  using assms by (auto simp: fill_event_of_def Let_def result_simps is_fill_event_def split: if_splits)

lemma event_tx_execution:
  assumes "on_broker_event D ev d = (Inr (), d')" "is_fill_event (ev_type ev)"
  obtains ex where "truthy (ev_execution ev) = Some ex"
  using assms by (auto simp: on_broker_event_def run_tx_def event_tx_def result_simps split: sum.splits if_splits)

lemma recorded_execution:
  "ev_execution ev = Some ex \<Longrightarrow> ex \<noteq> [] \<Longrightarrow> is_fill_event (ev_type ev) \<Longrightarrow>
    event_recorded ev d \<longleftrightarrow> execution_exists d (ev_broker ev) ex \<or> event_seen (transition_of ev) d"
  by (simp add: event_recorded_def truthy_def)

text \<open>
  C19: The same execution, reported by the trade stream and again by a snapshot, is booked once. Take a fill
  of the stream and the event that reconciliation synthesizes from a fill activity whose identifier ends
  in the execution id of the stream, as the venue's sandbox reports it. Once either of them was accepted
  under an event id that was new, the other one is acknowledged at any later time, whatever was delivered
  in between, and changes nothing.
\<close>

theorem alpaca_execution_books_once:
  assumes "translate_trade_event D J now raw = Inr streamed" "is_fill_event (ev_type streamed)"
    "tu_execution raw = Some ex" "tu_event_id raw = Some u" "u \<noteq> []" "ex \<noteq> []"
    and "sandbox_activity ex f" "fill_event_of D J account x l f = Inr replayed" "ao_client x = tu_client raw"
    and "(first, second) = (streamed, replayed) \<or> (first, second) = (replayed, streamed)"
    and "on_broker_event D first d = (Inr (), d')" "\<not> event_seen (transition_of first) d" "schema_ok d"
    and "truthy (ev_execution streamed) \<noteq> None"
  shows "on_broker_event D second (fold (deliver D) es d') = (Inr (), fold (deliver D) es d')"
proof -
  have streamed: "ev_broker streamed = ALPACA_PAPER" "ev_client_order streamed = tu_client raw"
    "ev_external streamed = Some u" "ev_execution streamed = Some ex"
    using translate_fill[OF assms(1,2)] assms(3,4,14) by auto
  note replayed = fill_event_fields[OF assms(8)] sandbox_execution[OF assms(7)]
  have same: "same_execution first second"
    using assms(2,9,10) streamed replayed by (auto simp: same_execution_def)
  have ident: "identified first"
    using assms(5,10) streamed replayed by (auto simp: identified_def)
  have ex: "ev_execution first = Some ex" "ev_broker first = ALPACA_PAPER" "is_fill_event (ev_type first)"
    using assms(2,10) streamed replayed by auto
  have tx: "event_tx D first d = Inr ((), d')"
    using assms(11) by (auto simp: on_broker_event_def run_tx_def split: sum.splits)
  show ?thesis
  proof (cases "execution_exists d ALPACA_PAPER ex")
    case True
    have rec: "event_recorded first d" "event_recorded second d"
      using True ex same recorded_execution[OF _ assms(6)] by (simp_all add: same_execution_def)
    have d': "d' = d" using event_tx_recorded[OF rec(1) tx] .
    from tx obtain r where r: "get_order d (ev_client_order second) = Some r"
      using same by (auto simp: event_tx_def result_simps same_execution_def)
    from get_order_ids[OF r history_invariants(2)] obtain r' where
      "get_order (fold (deliver D) es d) (ev_client_order second) = Some r'" .
    moreover have "ev_execution second = Some ex" using same ex by (simp add: same_execution_def)
    then have "truthy (ev_execution second) \<noteq> None" using assms(6) by (simp add: truthy_def)
    ultimately show ?thesis
      unfolding d' using recorded_acknowledged[OF history_invariants(1)[OF assms(13)] delivery.recorded_fold[OF rec(2)]]
      by blast
  next
    case False
    with ex assms(12) have "\<not> event_recorded first d" by (simp add: recorded_execution[OF _ assms(6)])
    with redelivery_changes_nothing[OF assms(11) ident assms(13), of second es] same show ?thesis by blast
  qed
qed

section \<open>Snapshots\<close>

definition fill_total :: "broker_event list \<Rightarrow> qty" where
  "fill_total evs = sum_list (map (\<lambda>ev. case_option 0 id (ev_fill_qty ev)) evs)"

lemma fill_events_length: "fill_events D J account x fs = Inr evs \<Longrightarrow> length evs = length fs"
  by (induction fs arbitrary: evs) (auto simp: result_simps)

lemma fill_events_nth:
  "fill_events D J account x fs = Inr evs \<Longrightarrow> i < length fs \<Longrightarrow>
    fill_event_of D J account x (Suc i = length fs) (fs ! i) = Inr (evs ! i)"
proof (induction fs arbitrary: evs i)
  case (Cons f fs)
  from Cons.prems(1) obtain ev rest where
    ev: "fill_event_of D J account x (fs = []) f = Inr ev" "fill_events D J account x fs = Inr rest" "evs = ev # rest"
    by (auto simp: result_simps)
  show ?case
  proof (cases i)
    case 0
    then show ?thesis using ev by simp
  next
    case (Suc j)
    with Cons.IH[OF ev(2), of j] Cons.prems(2) ev(3) show ?thesis by simp
  qed
qed simp

lemma fill_events_total:
  "fill_events D J account x fs = Inr evs \<Longrightarrow> visible_qty fs = Inr n \<Longrightarrow> fill_total evs = n"
proof (induction fs arbitrary: evs n)
  case (Cons f fs)
  then obtain ev rest q m where "fill_event_of D J account x (fs = []) f = Inr ev"
    "fill_events D J account x fs = Inr rest" "evs = ev # rest"
    "qty_of_string (fa_qty f) = Inr q" "visible_qty fs = Inr m" "n = q + m"
    by (auto simp: result_simps)
  with Cons.IH[of rest m] fill_event_fields(5,7)[of D J account x "fs = []" f ev] show ?case
    by (auto simp: fill_total_def)
qed (simp add: fill_total_def)

lemma fill_event_error: "fill_event_of D J account x l f = Inl e \<Longrightarrow> fill_event_of D J account x l' f = Inl e"
  by (cases "qty_of_string (fa_qty f)"; cases "px_from_vendor_decimal D (fa_price f)"; cases "jd_parse J (fa_time f)")
     (simp_all add: fill_event_of_def Let_def)

lemma fill_events_error:
  "fill_events D J account x fs = Inl e \<Longrightarrow> \<exists>f \<in> set fs. fill_event_of D J account x False f = Inl e"
proof (induction fs)
  case (Cons f fs)
  then show ?case
    by (cases "fill_event_of D J account x (fs = []) f"; cases "fill_events D J account x fs")
       (auto dest: fill_event_error)
qed simp

lemma fill_events_shape:
  assumes "fill_events D J account x fs = Inr evs"
  shows "map ev_execution evs = map (Some \<circ> activity_execution_id) fs"
    and "list_all (\<lambda>ev. is_fill_event (ev_type ev)) evs"
    and "filter (\<lambda>ev. ev_type ev = ORDER_FILLED) evs = (if ao_status x = ''filled'' then drop (length evs - 1) evs else [])"
  using assms
proof (induction fs arbitrary: evs)
  case (Cons f fs)
  {
    case 1
    with Cons.IH(1) show ?case by (auto simp: result_simps dest: fill_event_fields(4))
  next
    case 2
    with Cons.IH(2) show ?case by (auto simp: result_simps dest: fill_event_fields(1))
  next
    case 3
    then obtain ev rest where ev: "fill_event_of D J account x (fs = []) f = Inr ev"
      "fill_events D J account x fs = Inr rest" "evs = ev # rest"
      by (auto simp: result_simps)
    with Cons.IH(3)[OF ev(2)] fill_event_fields(9)[OF ev(1)] fill_events_length[OF ev(2)] show ?case
      by (cases rest; cases fs) auto
  }
qed simp_all

lemma status_events_shape:
  "length (status_events now account x) \<le> 1"
  "list_all (\<lambda>ev. \<not> is_fill_event (ev_type ev)) (status_events now account x)"
  "filter (\<lambda>ev. ev_type ev = ORDER_FILLED) (status_events now account x) = []"
  by (auto simp: status_events_def is_fill_event_def split: option.split)

text \<open>
  A snapshot never hides a fill. When the venue reports more filled shares than the fill activities of
  the order show, the translation throws. Otherwise its events are one fill event per activity of the
  order, in the order of their times, with at least the venue's filled quantity in total, followed by at most one
  event for a status that is not a fill; and only the last execution of an order the venue calls filled
  is an \<open>ORDER_FILLED\<close> event. So an order that ends FILLED here was completed at the venue.
\<close>

theorem snapshot_hides_no_fill:
  assumes "venue_filled x = Inr n" "visible_qty (order_fills J x acts) = Inr seen"
  shows "if seen < n
    then events_from_snapshot D J now account x acts = Inl (JsError ''IncompleteFillsError'')
    else case events_from_snapshot D J now account x acts of
      Inl e \<Rightarrow> (\<exists>f. fa_order f = ao_id x \<and> f \<in> set acts \<and> fill_event_of D J account x False f = Inl e)
    | Inr evs \<Rightarrow> (\<exists>fs ss. evs = fs @ ss \<and> length ss \<le> 1 \<and> n \<le> fill_total fs
        \<and> map ev_execution fs = map (Some \<circ> activity_execution_id) (order_fills J x acts)
        \<and> list_all (\<lambda>ev. is_fill_event (ev_type ev)) fs \<and> list_all (\<lambda>ev. \<not> is_fill_event (ev_type ev)) ss
        \<and> filter (\<lambda>ev. ev_type ev = ORDER_FILLED) evs
            = (if ao_status x = ''filled'' then drop (length fs - 1) fs else []))"
proof (cases "seen < n")
  case True
  with assms show ?thesis by (simp add: events_from_snapshot_def Let_def ensure_def)
next
  case False
  then have unfolded: "events_from_snapshot D J now account x acts
      = ebind (fill_events D J account x (order_fills J x acts)) (\<lambda>fs. Inr (fs @ status_events now account x))"
    using assms by (simp add: events_from_snapshot_def Let_def)
  show ?thesis
  proof (cases "fill_events D J account x (order_fills J x acts)")
    case (Inl e)
    from fill_events_error[OF this] obtain f where "f \<in> set acts" "fa_order f = ao_id x"
      "fill_event_of D J account x False f = Inl e"
      by (auto simp: order_fills_def)
    with Inl False unfolded show ?thesis by auto
  next
    case (Inr fs)
    note fills = fill_events_shape[OF Inr] and total = fill_events_total[OF Inr assms(2)]
    have evs: "events_from_snapshot D J now account x acts = Inr (fs @ status_events now account x)"
      using unfolded Inr by simp
    have "n \<le> fill_total fs" using total False by simp
    with fills status_events_shape[of now account x] show ?thesis
      unfolding evs if_not_P[OF False] sum.case
      by (intro exI[of _ fs] exI[of _ "status_events now account x"]) simp
  qed
qed

section \<open>Amounts\<close>

definition strip_zeros :: "string \<Rightarrow> string" where
  "strip_zeros f = rev (dropWhile (\<lambda>c. c = CHR ''0'') (rev f))"

lemma strip_zeros_append: "\<exists>k. f = strip_zeros f @ replicate k (CHR ''0'')"
proof (induction f rule: rev_induct)
  case (snoc c f)
  show ?case
  proof (cases "c = CHR ''0''")
    case True
    with snoc obtain k where "f = strip_zeros f @ replicate k (CHR ''0'')" by blast
    with True have "f @ [c] = strip_zeros (f @ [c]) @ replicate (Suc k) (CHR ''0'')"
      by (simp add: strip_zeros_def replicate_append_same[symmetric])
    then show ?thesis by blast
  next
    case False
    then show ?thesis by (intro exI[of _ 0]) (simp add: strip_zeros_def)
  qed
qed (simp add: strip_zeros_def)

lemma strip_zeros_last: "strip_zeros f \<noteq> [] \<Longrightarrow> last (strip_zeros f) \<noteq> CHR ''0''"
  unfolding strip_zeros_def using hd_dropWhile[of "\<lambda>c. c = CHR ''0''" "rev f"] by (simp add: last_rev)

lemma strip_zeros_digits: "list_all is_digit f \<Longrightarrow> list_all is_digit (strip_zeros f)"
  by (auto simp: strip_zeros_def list_all_iff dest: set_dropWhileD)

lemma dropWhile_replicate: "P c \<Longrightarrow> dropWhile P (replicate k c @ xs) = dropWhile P xs"
  by (induction k) simp_all

lemma strip_zeros_pad: "strip_zeros (f @ replicate k (CHR ''0'')) = strip_zeros f"
  by (simp add: strip_zeros_def dropWhile_replicate)

lemma length_strip_zeros: "length (strip_zeros f) \<le> length f"
  using length_dropWhile_le[of "\<lambda>c. c = CHR ''0''" "rev f"] by (simp add: strip_zeros_def)

lemma strip_zeros_value:
  "(of_nat (read_nat (strip_zeros f)) :: rat) / 10 ^ length (strip_zeros f) = of_nat (read_nat f) / 10 ^ length f"
proof -
  obtain k where f: "f = strip_zeros f @ replicate k (CHR ''0'')" using strip_zeros_append by blast
  have "read_nat f = read_nat (strip_zeros f) * 10 ^ k" "length f = length (strip_zeros f) + k"
    using arg_cong[OF f, of read_nat] arg_cong[OF f, of length] by (simp_all add: read_nat_append)
  then show ?thesis by (simp add: power_add)
qed

lemma match_whole: "list_all is_digit w \<Longrightarrow> w \<noteq> [] \<Longrightarrow> match_decimal w = Some (False, w, [])"
  by (cases w) (auto simp: match_decimal_def Let_def takeWhile_all_digits dropWhile_all_digits)

lemma match_digits_frac:
  assumes "list_all is_digit w" "w \<noteq> []" "list_all is_digit f"
  shows "match_decimal (if f = [] then w else w @ CHR ''.'' # f) = Some (False, w, f)"
  using assms match_whole match_decimal_nonneg_digits(1) by simp

lemma match_decimal_whole: "match_decimal s = Some (neg, w, f) \<Longrightarrow> w \<noteq> []"
  by (auto simp: match_decimal_def Let_def split: if_splits list.splits)

lemma cents_of_digits:
  assumes "length f \<le> 2"
  shows "usd (int (read_nat w * 10 ^ 2 + read_nat (pad_end 2 f))) = of_nat (read_nat w) + of_nat (read_nat f) / 10 ^ length f"
proof -
  have "read_nat (pad_end 2 f) = read_nat f * 10 ^ (2 - length f)"
    by (simp add: pad_end_def read_nat_append)
  moreover have "(10 :: rat) ^ 2 = 10 ^ (2 - length f) * 10 ^ length f"
    using assms by (simp add: power_add[symmetric])
  ultimately show ?thesis by (simp add: field_simps)
qed

lemma sub_cent_not_whole:
  assumes "list_all is_digit f" "2 < length (strip_zeros f)"
  shows "(of_nat a + of_nat (read_nat f) / 10 ^ length f) * 100 \<noteq> (of_int n :: rat)"
proof
  let ?s = "strip_zeros f"
  assume eq: "(of_nat a + of_nat (read_nat f) / 10 ^ length f) * 100 = (of_int n :: rat)"
  obtain g c where s: "?s = g @ [c]" using assms(2) by (cases ?s rule: rev_cases) auto
  obtain k where k: "length ?s = k + 3" using assms(2) by (metis add.commute less_eqE Suc_leI eval_nat_numeral(3))
  have "(of_nat a + of_nat (read_nat ?s) / 10 ^ (k + 3)) * 100 = (of_int n :: rat)"
    using eq unfolding strip_zeros_value[symmetric] k .
  then have "(of_nat (read_nat ?s) :: rat) = of_int ((n - 100 * int a) * 10 ^ (k + 1))"
    by (simp add: field_simps power_add)
  then have "int (read_nat ?s) = (n - 100 * int a) * 10 ^ (k + 1)"
    by (metis of_int_eq_iff of_int_of_nat_eq)
  then have "10 dvd int (read_nat ?s)" by simp
  then have "10 dvd int (digit_val c)" unfolding s by (simp add: dvd_add_right_iff)
  then have "10 dvd digit_val c" by presburger
  moreover have c: "is_digit c" using strip_zeros_digits[OF assms(1)] s by simp
  then have "digit_val c < 10" by (auto simp: is_digit_def digit_val_def)
  ultimately have "digit_val c = 0" by (metis nat_dvd_not_less neq0_conv)
  with c have "of_char c = (48 :: nat)" by (simp add: is_digit_def digit_val_def)
  then have "c = char_of (48 :: nat)" by (metis char_of_char)
  then have "c = CHR ''0''" by (simp add: char_of_def bit_Suc_0_iff)
  with strip_zeros_last[of f] s show False by simp
qed

lemma vendor_amount_digits:
  assumes "match_decimal (js_trim raw) = Some (False, w, f)"
  shows "vendor_amount_to_money raw =
    (if 2 < length (strip_zeros f) then Inl (JsError ''alpaca transfer amount has sub-cent precision'')
     else Inr (int (read_nat w * 10 ^ 2 + read_nat (pad_end 2 (strip_zeros f)))))"
proof -
  let ?s = "strip_zeros f"
  from match_decimal_digits[OF assms] have d: "list_all is_digit w" "list_all is_digit ?s"
    by (auto intro: strip_zeros_digits)
  note m = match_digits_frac[OF d(1) match_decimal_whole[OF assms] d(2)]
  show ?thesis
    using assms m
    by (simp add: vendor_amount_to_money_def strip_zeros_def[symmetric] Let_def money_from_string_def money_re_def
        decimal_re_def scaled_def not_less del: if_split)
qed

lemma vendor_amount_money:
  "match_decimal (js_trim raw) = Some (False, w, f) \<Longrightarrow> vendor_amount_to_money raw = Inr m \<Longrightarrow>
    usd m = decimal_rat (js_trim raw) \<and> 0 \<le> m"
  using cents_of_digits[of "strip_zeros f" w]
  by (auto simp: vendor_amount_digits decimal_rat_def Let_def strip_zeros_value split: if_splits)

text \<open>An unsigned decimal: digits, and behind a point more digits; and the number it denotes.\<close>

definition unsigned_decimal :: "string \<Rightarrow> string \<Rightarrow> string \<Rightarrow> bool" where
  "unsigned_decimal s w f \<longleftrightarrow> w \<noteq> [] \<and> list_all is_digit w \<and> list_all is_digit f
     \<and> s = w @ (if f = [] then [] else CHR ''.'' # f)"

definition denotes :: "string \<Rightarrow> string \<Rightarrow> rat" where
  "denotes w f = of_nat (read_nat w) + of_nat (read_nat f) / 10 ^ length f"

lemma unsigned_decimal_match: "unsigned_decimal s w f \<longleftrightarrow> match_decimal s = Some (False, w, f)"
proof
  assume "unsigned_decimal s w f"
  then have u: "w \<noteq> []" "list_all is_digit w" "list_all is_digit f" "s = w @ (if f = [] then [] else CHR ''.'' # f)"
    by (simp_all add: unsigned_decimal_def)
  show "match_decimal s = Some (False, w, f)"
  proof (cases "f = []")
    case True
    have "hd w \<noteq> CHR ''-''" using u by (cases w) (auto simp: is_digit_def)
    then show ?thesis using u True
      by (simp add: match_decimal_def Let_def takeWhile_all_digits dropWhile_all_digits)
  next
    case False
    with match_decimal_nonneg_digits(1)[OF u(2,1,3)] u(4) show ?thesis by simp
  qed
next
  assume "match_decimal s = Some (False, w, f)"
  from match_decimal_shape[OF this] show "unsigned_decimal s w f" by (simp add: unsigned_decimal_def)
qed

lemma decimal_rat_denotes: "match_decimal s = Some (False, w, f) \<Longrightarrow> decimal_rat s = denotes w f"
  by (simp add: decimal_rat_def denotes_def Let_def)

lemma vendor_amount_sub_cent:
  assumes "match_decimal (js_trim raw) = Some (False, w, f)"
  shows "(\<exists>m. vendor_amount_to_money raw = Inr m \<and> usd m = denotes w f)
    \<or> vendor_amount_to_money raw = Inl (JsError ''alpaca transfer amount has sub-cent precision'')
      \<and> (\<nexists>n. denotes w f = usd n)"
proof -
  have "denotes w f \<noteq> usd n" if "2 < length (strip_zeros f)" for n
    using sub_cent_not_whole[OF _ that, of "read_nat w" n] match_decimal_digits[OF assms]
    by (simp add: denotes_def)
  with vendor_amount_money[OF assms] show ?thesis
    by (cases "vendor_amount_to_money raw")
      (auto simp: vendor_amount_digits[OF assms] decimal_rat_denotes[OF assms] split: if_splits)
qed

lemma vendor_amount_roundtrip:
  "vendor_amount_to_money (money_to_string (int a) @ replicate k (CHR ''0'')) = Inr (int a)"
proof -
  let ?w = "show_nat (a div 100)" and ?f = "pad_start 2 (show_nat (a mod 100))"
  let ?t = "money_to_string (int a) @ replicate k (CHR ''0'')"
  have t: "?t = ?w @ CHR ''.'' # ?f @ replicate k (CHR ''0'')"
    by (simp add: money_to_string_def fixed_text_def Let_def)
  have f: "list_all is_digit (?f @ replicate k (CHR ''0''))" "length ?f = 2"
    using length_fraction[of 2 a] pad_start_digits[OF show_nat_digits, of 2 "a mod 100"]
    by (auto simp: list_all_iff)
  have "js_trim ?t = ?t"
  proof (rule js_trim_digits)
    show "?t \<noteq> []" unfolding t by simp
    show "is_digit (hd ?t)" unfolding t using show_nat_digits[of "a div 100"] by (cases ?w) simp_all
    show "is_digit (last ?t)" unfolding t using f by (cases k) (auto simp: list_all_iff intro: last_in_set)
  qed
  moreover have "match_decimal ?t = Some (False, ?w, ?f @ replicate k (CHR ''0''))"
    unfolding t using f by (intro match_decimal_nonneg_digits) (auto simp: show_nat_digits)
  ultimately have m: "match_decimal (js_trim ?t) = Some (False, ?w, ?f @ replicate k (CHR ''0''))" by simp
  have "length (strip_zeros (?f @ replicate k (CHR ''0''))) \<le> 2"
    using length_strip_zeros[of ?f] f(2) by (simp add: strip_zeros_pad)
  then obtain n where n: "vendor_amount_to_money ?t = Inr n" using vendor_amount_digits[OF m] by auto
  have "usd n = of_nat (a div 100) + of_nat (a mod 100) / 100"
    using vendor_amount_money[OF m n] f(2) unfolding decimal_rat_def m
    by (simp add: Let_def read_nat_append power_add)
  moreover have "(of_nat a :: rat) = 100 * of_nat (a div 100) + of_nat (a mod 100)"
    using arg_cong[OF mult_div_mod_eq[of 100 a], of "of_nat :: nat \<Rightarrow> rat"]
    unfolding of_nat_add of_nat_mult of_nat_numeral by (rule sym)
  ultimately have "of_int n = (of_nat a :: rat)" by (simp add: field_simps)
  then have "n = int a" by (metis of_int_eq_iff of_int_of_nat_eq)
  then show "vendor_amount_to_money ?t = Inr (int a)" using n by simp
qed


text \<open>
  C20: Amounts at the Alpaca boundary are exact. A vendor amount is accepted exactly when it is an unsigned
  decimal number of whole cents, however many trailing zeros it carries, and the money it gives is that
  number; a decimal with a part below the cent is refused as such, and everything else as no decimal. The
  text of an amount that is sent to the venue comes back as the same amount, also with zeros appended.
\<close>

theorem vendor_amounts_exact:
  "(if \<exists>w f. unsigned_decimal (js_trim raw) w f
    then \<exists>w f. unsigned_decimal (js_trim raw) w f \<and>
        (case vendor_amount_to_money raw of
           Inr m \<Rightarrow> usd m = denotes w f
         | Inl e \<Rightarrow> e = JsError ''alpaca transfer amount has sub-cent precision'' \<and> (\<nexists>n. denotes w f = usd n))
    else vendor_amount_to_money raw = Inl (JsError ''alpaca transfer amount is not a decimal''))
   \<and> vendor_amount_to_money (money_to_string (int a) @ replicate k (CHR ''0'')) = Inr (int a)"
proof (cases "\<exists>w f. unsigned_decimal (js_trim raw) w f")
  case True
  then obtain w f where u: "unsigned_decimal (js_trim raw) w f" by blast
  from vendor_amount_sub_cent[OF u[unfolded unsigned_decimal_match]]
  have "case vendor_amount_to_money raw of Inr m \<Rightarrow> usd m = denotes w f
    | Inl e \<Rightarrow> e = JsError ''alpaca transfer amount has sub-cent precision'' \<and> (\<nexists>n. denotes w f = usd n)"
    by (elim disjE exE) (simp_all del: not_ex)
  with u True vendor_amount_roundtrip show ?thesis by (simp only: if_True simp_thms) blast
next
  case False
  then have "vendor_amount_to_money raw = Inl (JsError ''alpaca transfer amount is not a decimal'')"
    by (auto simp: unsigned_decimal_match vendor_amount_to_money_def split: option.split bool.split)
  with False show ?thesis by (simp add: vendor_amount_roundtrip)
qed

section \<open>Witnesses\<close>

definition demo_runtime :: js_runtime where
  "demo_runtime = \<lparr>jd_parse = (\<lambda>_. Some 7), jd_iso = show_nat \<circ> nat, jd_collation = map of_char\<rparr>"

definition demo_update :: trade_update where
  "demo_update = \<lparr>tu_account = ''ext'', tu_event_id = Some ''01J'', tu_event = ''partial_fill'', tu_at = None,
     tu_timestamp = Some ''2026-09-03T09:30:03Z'', tu_execution = Some ''x1'', tu_price = Some ''199.5'',
     tu_qty = Some ''1'', tu_order = ''v1'', tu_client = 3, tu_reason = None\<rparr>"

definition demo_alpaca_order :: alpaca_order where
  "demo_alpaca_order = \<lparr>ao_id = ''v1'', ao_client = 3, ao_status = ''partially_filled'', ao_filled = ''3'',
     ao_submitted = None, ao_reason = None\<rparr>"

definition demo_activity :: fill_activity where
  "demo_activity = \<lparr>fa_id = ''20260903093003612::x1'', fa_execution = None, fa_order = ''v1'',
     fa_time = ''2026-09-03T09:30:03Z'', fa_price = ''199.5'', fa_qty = ''1'', fa_reason = None\<rparr>"

theorem snapshot_hides_no_fill_witness:
  "events_from_snapshot js_decimal demo_runtime 9 ''ext'' demo_alpaca_order [demo_activity]
    = Inl (JsError ''IncompleteFillsError'')"
proof -
  have "venue_filled demo_alpaca_order = Inr 3"
    by (simp add: venue_filled_def demo_alpaca_order_def qty_of_string_def is_digit_def read_nat_def digit_val_def)
  moreover have "visible_qty (order_fills demo_runtime demo_alpaca_order [demo_activity]) = Inr 1"
    by (simp add: order_fills_def demo_alpaca_order_def demo_activity_def qty_of_string_def is_digit_def
        read_nat_def digit_val_def)
  ultimately show ?thesis
    using snapshot_hides_no_fill[of demo_alpaca_order 3 demo_runtime "[demo_activity]" 1 js_decimal 9 "''ext''"] by simp
qed

text \<open>The running example, with the fill booked for the venue Alpaca.\<close>

definition demo_alpaca_db :: db where
  "demo_alpaca_db = demo_settled\<lparr>fills := map (\<lambda>f. f\<lparr>fl_broker := ALPACA_PAPER\<rparr>) (fills demo_settled)\<rparr>"

lemma demo_price: "px_from_vendor_decimal js_decimal ''199.5'' = Inr 1995000"
proof -
  have "dec_dp js_decimal 4 (decimal_rat ''199.5'') = 1995000"
    by (rule js.dp_exact)
       (simp add: decimal_rat_def match_decimal_def is_digit_def is_point_def read_nat_def digit_val_def Let_def)
  then show ?thesis
    by (simp add: px_from_vendor_decimal_def vendor_decimal_re_def decimal_re_def match_decimal_def is_digit_def
        is_point_def Let_def)
qed

definition demo_streamed :: broker_event where
  "demo_streamed = \<lparr>ev_type = ORDER_PARTIALLY_FILLED, ev_broker = ALPACA_PAPER, ev_account = ''ext'',
     ev_broker_order = Some ''v1'', ev_client_order = 3, ev_external = Some ''01J'', ev_execution = Some ''x1'',
     ev_fill_qty = Some 1, ev_fill_price = Some 1995000, ev_fee = Some 0, ev_occurred = 7, ev_reason = None\<rparr>"

definition demo_recon :: broker_event where
  "demo_recon = demo_streamed\<lparr>ev_external := Some ''recon-x1''\<rparr>"

lemma demo_translated: "translate_trade_event js_decimal demo_runtime 9 demo_update = Inr demo_streamed"
  by (simp add: translate_trade_event_def status_update_def demo_update_def event_map_def event_time_def demo_runtime_def
      demo_price is_fill_event_def truthy_def qty_of_string_def is_digit_def read_nat_def digit_val_def demo_streamed_def
      Let_def)

lemma demo_synthesized:
  "fill_event_of js_decimal demo_runtime ''ext'' demo_alpaca_order False demo_activity = Inr demo_recon"
  by (simp add: fill_event_of_def demo_activity_def demo_alpaca_order_def activity_execution_id_def truthy_def
      demo_price demo_runtime_def qty_of_string_def is_digit_def read_nat_def digit_val_def demo_recon_def
      demo_streamed_def Let_def)

lemma schema_fills:
  "schema_ok d \<Longrightarrow> fills_ok fs \<Longrightarrow> list_all (\<lambda>f. has_order d (fl_order f)) fs \<Longrightarrow> schema_ok (d\<lparr>fills := fs\<rparr>)"
  by (simp add: schema_defs)

lemma demo_alpaca_ok: "schema_ok demo_alpaca_db"
  unfolding demo_alpaca_db_def
proof (rule schema_fills)
  show "schema_ok demo_settled" by (rule schema_event_tx[OF demo_event_tx demo_placed_ok(1)])
  then show "list_all (\<lambda>f. has_order demo_settled (fl_order f)) (map (\<lambda>f. f\<lparr>fl_broker := ALPACA_PAPER\<rparr>) (fills demo_settled))"
    by (simp add: schema_ok_def references_ok_def list_all_iff)
  show "fills_ok (map (\<lambda>f. f\<lparr>fl_broker := ALPACA_PAPER\<rparr>) (fills demo_settled))"
    by (simp add: fills_ok_def demo_settled_def fill_row_def)
qed

lemma demo_streamed_fields: "ev_execution demo_streamed = Some ''x1''" "is_fill_event (ev_type demo_streamed)"
    "ev_broker demo_streamed = ALPACA_PAPER" "ev_client_order demo_streamed = 3"
  by (simp_all add: demo_streamed_def is_fill_event_def)

lemma demo_alpaca_order_row: "get_order demo_alpaca_db 3 = Some demo_filled_order"
  by (simp add: get_order_def demo_alpaca_db_def demo_settled_def demo_moved_def demo_filled_order_def
      demo_order_def demo_placed_def demo_defs)

lemma demo_acknowledged: "on_broker_event js_decimal demo_streamed demo_alpaca_db = (Inr (), demo_alpaca_db)"
proof -
  have "execution_exists demo_alpaca_db ALPACA_PAPER ''x1''"
    by (simp add: execution_exists_def demo_alpaca_db_def demo_settled_def fill_row_def)
  then have "event_recorded demo_streamed demo_alpaca_db"
    by (simp add: recorded_execution demo_streamed_fields)
  with demo_alpaca_order_row show ?thesis
    using recorded_acknowledged[OF demo_alpaca_ok, of demo_streamed] by (simp add: demo_streamed_fields truthy_def)
qed

theorem alpaca_execution_books_once_witness:
  "on_broker_event js_decimal demo_recon demo_alpaca_db = (Inr (), demo_alpaca_db)"
proof -
  have new: "\<not> event_seen (transition_of demo_streamed) demo_alpaca_db"
    by (simp add: event_seen_def event_exists_def transition_of_def demo_streamed_def truthy_def demo_alpaca_db_def
        demo_settled_def demo_moved_def event_row_def demo_fill_event_def)
  have sandbox: "sandbox_activity ''x1'' demo_activity"
    by (auto simp: sandbox_activity_def demo_activity_def)
  show ?thesis
    using alpaca_execution_books_once[OF demo_translated demo_streamed_fields(2) _ _ _ _ sandbox demo_synthesized _ _ demo_acknowledged new
        demo_alpaca_ok, of "''01J''" "demo_recon" "[]"] demo_streamed_fields(1)
    by (simp add: demo_update_def demo_alpaca_order_def truthy_def)
qed

end
