(* ===== verification/Alpaca_Stream.thy ===== *)
theory Alpaca_Stream
  imports Alpaca_Correct "HOL-Library.Sublist"
begin

text \<open>
  The replayable event stream: \<open>AlpacaPaperBroker.subscribe\<close> of \<^verbatim>\<open>src/infra/brokers/alpaca/broker.ts\<close> and
  its consumer \<open>startIngestion\<close> of \<^verbatim>\<open>src/worker/main.ts\<close>, with the reconnecting loop. A connection is what the
  server sends for the cursor it is asked for: nothing (an HTTP error), or a list of decoded chunks of
  text and whether reading then failed. \<open>JSON.parse\<close> of a payload is a parameter; waiting is not modelled,
  and the loop is followed for a number of connections, since it runs until the subscription is closed.
\<close>

section \<open>Lines\<close>

text \<open>\<open>buffer.split("\n")\<close>: never empty; the last part is the line that is not complete yet.\<close>

fun split_lines :: "string \<Rightarrow> string list" where
  "split_lines [] = [[]]"
| "split_lines (c # s) =
     (if c = CHR 0x0A then [] # split_lines s
      else (case split_lines s of [] \<Rightarrow> [[c]] | l # ls \<Rightarrow> (c # l) # ls))"

definition data_prefix :: string where "data_prefix = ''data:''"

text \<open>What a line carries: nothing (a comment, a heartbeat, an empty payload) or a payload.\<close>

definition line_payload :: "string \<Rightarrow> string option" where
  "line_payload line =
     (if \<not> prefix data_prefix line then None
      else let payload = js_trim (drop 5 line)
           in if payload = [] \<or> payload = ''[]'' then None else Some payload)"

section \<open>The subscription\<close>

text \<open>The client's state: the cursor \<open>lastUlid\<close>, next to the world the handler works on.\<close>

definition handle_line ::
    "decimal_lib \<Rightarrow> js_runtime \<Rightarrow> time \<Rightarrow> (string \<Rightarrow> trade_update option) \<Rightarrow> (broker_event \<Rightarrow> 'w \<Rightarrow> unit result \<times> 'w)
     \<Rightarrow> string \<Rightarrow> string option \<times> 'w \<Rightarrow> unit result \<times> (string option \<times> 'w)" where
  "handle_line D J now parse on_event line s =
     (case line_payload line of
        None \<Rightarrow> (Inr (), s)
      | Some payload \<Rightarrow>
          (case parse payload of
             None \<Rightarrow> (Inl (JsError ''SyntaxError''), s)
           | Some raw \<Rightarrow>
               (case translate_trade_event D J now raw of
                  Inl e \<Rightarrow> (Inl e, s)
                | Inr ev \<Rightarrow>
                    (case on_event ev (snd s) of
                       (Inl e, w) \<Rightarrow> (Inl e, (fst s, w))
                     | (Inr _, w) \<Rightarrow>
                         (Inr (), (case tu_event_id raw of Some i \<Rightarrow> Some i | None \<Rightarrow> fst s, w))))))"

fun read_chunks ::
    "(string \<Rightarrow> 's \<Rightarrow> unit result \<times> 's) \<Rightarrow> string list \<Rightarrow> string \<Rightarrow> 's \<Rightarrow> unit result \<times> 's" where
  "read_chunks handle [] buffer s = (Inr (), s)"
| "read_chunks handle (c # cs) buffer s =
     (let parts = split_lines (buffer @ c)
      in wbind (each handle (butlast parts) s) (\<lambda>_ s1. read_chunks handle cs (last parts) s1))"

type_synonym connection = "(string list \<times> bool) option"

definition next_backoff :: "nat \<Rightarrow> nat" where
  "next_backoff ms = min (ms * 2) 30000"

text \<open>One turn of the loop: connect, read to the end, and after an error wait longer.\<close>

definition stream_turn ::
    "(string \<Rightarrow> string option \<times> 'w \<Rightarrow> unit result \<times> (string option \<times> 'w)) \<Rightarrow> (string option \<Rightarrow> connection)
     \<Rightarrow> nat \<times> string option \<times> 'w \<Rightarrow> nat \<times> string option \<times> 'w" where
  "stream_turn handle server = (\<lambda>(backoff, ulid, w).
     case server (truthy ulid) of
       None \<Rightarrow> (next_backoff backoff, ulid, w)
     | Some (chunks, broken) \<Rightarrow>
         (case read_chunks handle chunks [] (ulid, w) of
            (Inl _, s) \<Rightarrow> (next_backoff 1000, s)
          | (Inr _, s) \<Rightarrow> (if broken then next_backoff 1000 else 1000, s)))"

fun run_stream ::
    "(string \<Rightarrow> string option \<times> 'w \<Rightarrow> unit result \<times> (string option \<times> 'w)) \<Rightarrow> (string option \<Rightarrow> connection) list
     \<Rightarrow> nat \<times> string option \<times> 'w \<Rightarrow> nat \<times> string option \<times> 'w" where
  "run_stream handle [] st = st"
| "run_stream handle (server # servers) st = run_stream handle servers (stream_turn handle server st)"

text \<open>
  The consumer of the worker: apply the event, then persist its id as the cursor of the next start. Its
  world is the persisted cursor (the row of \<open>stream_cursors\<close>) and the database.
\<close>

definition ingest ::
    "decimal_lib \<Rightarrow> broker_event \<Rightarrow> string option \<times> db \<Rightarrow> unit result \<times> (string option \<times> db)" where
  "ingest D ev = (\<lambda>(cursor, d).
     case on_broker_event D ev d of
       (Inl e, d1) \<Rightarrow> (Inl e, (cursor, d1))
     | (Inr _, d1) \<Rightarrow> (Inr (), (case truthy (ev_external ev) of Some x \<Rightarrow> Some x | None \<Rightarrow> cursor, d1)))"

text \<open>\<open>startIngestion\<close>: the subscription starts at the persisted cursor.\<close>

definition start_ingestion ::
    "decimal_lib \<Rightarrow> js_runtime \<Rightarrow> time \<Rightarrow> (string \<Rightarrow> trade_update option) \<Rightarrow> (string option \<Rightarrow> connection) list
     \<Rightarrow> string option \<times> db \<Rightarrow> nat \<times> string option \<times> string option \<times> db" where
  "start_ingestion D J now parse servers = (\<lambda>(cursor, d).
     run_stream (handle_line D J now parse (ingest D)) servers (1000, truthy cursor, (cursor, d)))"

end
