(* ===== verification/Alpaca_Stream_Correct.thy ===== *)
theory Alpaca_Stream_Correct
  imports Alpaca_Stream
begin

text \<open>
  The correctness of the event stream of \<^verbatim>\<open>src/infra/brokers/alpaca/broker.ts\<close> with its consumer in
  \<^verbatim>\<open>src/worker/main.ts\<close>: chunk boundaries do not matter, and over any connections, cut off anywhere, the
  events of the venue's log are applied in order, none skipped and none applied twice; an event that is
  refused is where the stream stops.
\<close>

section \<open>Chunks and lines\<close>

lemma split_lines_nonempty [simp]: "split_lines s \<noteq> []"
  by (induction s) (auto split: list.split)

lemma split_lines_single: "split_lines s = [l] \<Longrightarrow> l = s"
  by (induction s arbitrary: l) (auto split: if_splits list.splits)

lemma split_lines_append:
  "butlast (split_lines (a @ b)) = butlast (split_lines a) @ butlast (split_lines (last (split_lines a) @ b))
   \<and> last (split_lines (a @ b)) = last (split_lines (last (split_lines a) @ b))"
proof (induction a)
  case (Cons c a)
  obtain l ls where a: "split_lines a = l # ls" by (cases "split_lines a") auto
  obtain m ms where ab: "split_lines (a @ b) = m # ms" by (cases "split_lines (a @ b)") auto
  show ?case
  proof (cases "ls = []")
    case True
    with a split_lines_single have "l = a" by blast
    with True a show ?thesis by simp
  next
    case False
    then show ?thesis using Cons a ab by (auto split: if_splits list.splits)
  qed
qed simp

lemma split_lines_whole: "CHR 0x0A \<notin> set s \<Longrightarrow> split_lines s = [s]"
  by (induction s) auto

lemma split_lines_last: "CHR 0x0A \<notin> set (last (split_lines s))"
proof (induction s)
  case (Cons c s)
  then show ?case by (cases "split_lines s") (auto split: if_splits)
qed simp

definition complete_lines :: "string \<Rightarrow> string list" where
  "complete_lines s = butlast (split_lines s)"

text \<open>How the text is cut into chunks is of no consequence: the handler sees the complete lines.\<close>

lemma read_chunks_lines: "read_chunks handle cs buffer s = each handle (complete_lines (buffer @ concat cs)) s"
  if "length (split_lines buffer) = 1"
  using that
proof (induction cs arbitrary: buffer s)
  case Nil
  then show ?case by (simp add: complete_lines_def butlast_conv_take)
next
  case (Cons c cs)
  let ?parts = "split_lines (buffer @ c)"
  have one: "length (split_lines (last ?parts)) = 1" using split_lines_whole[OF split_lines_last] by simp
  have "complete_lines (buffer @ concat (c # cs)) = butlast ?parts @ complete_lines (last ?parts @ concat cs)"
    using split_lines_append[of "buffer @ c" "concat cs"] by (simp add: complete_lines_def)
  moreover have "read_chunks handle cs (last ?parts) = each handle (complete_lines (last ?parts @ concat cs))"
    by (intro ext) (rule Cons.IH[OF one])
  ultimately show ?case by (simp add: Let_def each_append)
qed

section \<open>Payloads\<close>

definition payloads :: "string \<Rightarrow> string list" where
  "payloads text = List.map_filter line_payload (complete_lines text)"

text \<open>What the handler does with a payload.\<close>

definition handle_payload ::
    "decimal_lib \<Rightarrow> js_runtime \<Rightarrow> time \<Rightarrow> (string \<Rightarrow> trade_update option) \<Rightarrow> (broker_event \<Rightarrow> 'w \<Rightarrow> unit result \<times> 'w)
     \<Rightarrow> string \<Rightarrow> string option \<times> 'w \<Rightarrow> unit result \<times> (string option \<times> 'w)" where
  "handle_payload D J now parse on_event payload s =
     (case parse payload of
        None \<Rightarrow> (Inl (JsError ''SyntaxError''), s)
      | Some raw \<Rightarrow>
          (case translate_trade_event D J now raw of
             Inl e \<Rightarrow> (Inl e, s)
           | Inr ev \<Rightarrow>
               (case on_event ev (snd s) of
                  (Inl e, w) \<Rightarrow> (Inl e, (fst s, w))
                | (Inr _, w) \<Rightarrow>
                    (Inr (), (case tu_event_id raw of Some i \<Rightarrow> Some i | None \<Rightarrow> fst s, w)))))"

lemma handle_line_payload:
  "handle_line D J now parse on_event line s =
     (case line_payload line of None \<Rightarrow> (Inr (), s) | Some p \<Rightarrow> handle_payload D J now parse on_event p s)"
  by (simp add: handle_line_def handle_payload_def split: option.split)

lemma each_payloads:
  "each (handle_line D J now parse on_event) lines
     = each (handle_payload D J now parse on_event) (List.map_filter line_payload lines)"
  by (induction lines) (auto simp: handle_line_payload split: option.split)

lemma read_chunks_payloads:
  "read_chunks (handle_line D J now parse on_event) chunks [] s
     = each (handle_payload D J now parse on_event) (payloads (concat chunks)) s"
  by (subst read_chunks_lines) (simp_all add: each_payloads payloads_def)

section \<open>The position in the log\<close>

text \<open>
  The venue's log of updates after the cursor \<open>c0\<close>: the cursor after the first \<open>k\<close> of them, the database they
  lead to, and which of them is accepted.
\<close>

definition cursor_at :: "string option \<Rightarrow> trade_update list \<Rightarrow> nat \<Rightarrow> string option" where
  "cursor_at c0 feed k = (if k = 0 then c0 else tu_event_id (feed ! (k - 1)))"

definition apply_update :: "decimal_lib \<Rightarrow> js_runtime \<Rightarrow> time \<Rightarrow> trade_update \<Rightarrow> db \<Rightarrow> db" where
  "apply_update D J now raw d =
     (case translate_trade_event D J now raw of Inr ev \<Rightarrow> deliver D ev d | Inl _ \<Rightarrow> d)"

abbreviation applied :: "decimal_lib \<Rightarrow> js_runtime \<Rightarrow> time \<Rightarrow> trade_update list \<Rightarrow> db \<Rightarrow> db" where
  "applied D J now \<equiv> fold (apply_update D J now)"

definition accepts_update :: "decimal_lib \<Rightarrow> js_runtime \<Rightarrow> time \<Rightarrow> trade_update \<Rightarrow> db \<Rightarrow> bool" where
  "accepts_update D J now raw d =
     (case translate_trade_event D J now raw of
        Inr ev \<Rightarrow> fst (on_broker_event D ev d) = Inr () | Inl _ \<Rightarrow> False)"

definition accepted_upto :: "decimal_lib \<Rightarrow> js_runtime \<Rightarrow> time \<Rightarrow> trade_update list \<Rightarrow> nat \<Rightarrow> db \<Rightarrow> bool" where
  "accepted_upto D J now feed k d0 = (\<forall>i < k. accepts_update D J now (feed ! i) (applied D J now (take i feed) d0))"

definition at_position ::
    "decimal_lib \<Rightarrow> js_runtime \<Rightarrow> time \<Rightarrow> string option \<Rightarrow> trade_update list \<Rightarrow> db \<Rightarrow> nat
     \<Rightarrow> string option \<times> string option \<times> db \<Rightarrow> bool" where
  "at_position D J now c0 feed d0 k s \<longleftrightarrow>
     k \<le> length feed \<and> s = (cursor_at c0 feed k, cursor_at c0 feed k, applied D J now (take k feed) d0)
     \<and> accepted_upto D J now feed k d0"

text \<open>Every update carries an event id.\<close>

definition feed_ok :: "trade_update list \<Rightarrow> bool" where
  "feed_ok feed \<longleftrightarrow> list_all (\<lambda>raw. truthy (tu_event_id raw) \<noteq> None) feed"

text \<open>
  The venue's promise (the replay cursor \<open>since_ulid\<close>): for the cursor of a position it sends updates that
  follow in the log, in order; how many arrive before the connection ends is open.
\<close>

definition serves ::
    "(string \<Rightarrow> trade_update option) \<Rightarrow> string option \<Rightarrow> trade_update list \<Rightarrow> (string option \<Rightarrow> connection) \<Rightarrow> bool" where
  "serves parse c0 feed server \<longleftrightarrow>
     (\<forall>k chunks broken. k \<le> length feed \<longrightarrow> server (cursor_at c0 feed k) = Some (chunks, broken) \<longrightarrow>
        (\<exists>j. map parse (payloads (concat chunks)) = map Some (take j (drop k feed))))"

lemma translated_external: "translate_trade_event D J now raw = Inr ev \<Longrightarrow> ev_external ev = tu_event_id raw"
  by (auto simp: translate_trade_event_def status_update_def Let_def result_simps split: option.splits bool.splits)

lemma position_step:
  assumes "at_position D J now c0 feed d0 k s" "k < length feed" "feed_ok feed" "parse p = Some (feed ! k)"
  shows "(case handle_payload D J now parse (ingest D) p s of
      (Inl e, s') \<Rightarrow> s' = s \<and> \<not> accepts_update D J now (feed ! k) (applied D J now (take k feed) d0)
    | (Inr _, s') \<Rightarrow> at_position D J now c0 feed d0 (Suc k) s')"
proof -
  let ?raw = "feed ! k" and ?d = "applied D J now (take k feed) d0"
  have s: "s = (cursor_at c0 feed k, cursor_at c0 feed k, ?d)" using assms(1) by (simp add: at_position_def)
  have next_db: "applied D J now (take (Suc k) feed) d0 = apply_update D J now ?raw ?d"
    using assms(2) by (simp add: take_Suc_conv_app_nth)
  obtain i where i: "tu_event_id ?raw = Some i" "i \<noteq> []"
    using assms(2,3) by (fastforce simp: feed_ok_def list_all_length truthy_def split: option.splits if_splits)
  show ?thesis
  proof (cases "translate_trade_event D J now ?raw")
    case (Inl e)
    then show ?thesis using assms(4) by (simp add: handle_payload_def accepts_update_def)
  next
    case (Inr ev)
    have ext: "truthy (ev_external ev) = Some i" using translated_external[OF Inr] i by (simp add: truthy_def)
    obtain r d' where o: "on_broker_event D ev ?d = (r, d')" by (cases "on_broker_event D ev ?d")
    show ?thesis
    proof (cases r)
      case (Inl e)
      with o have "d' = ?d" by (auto simp: on_broker_event_def run_tx_def split: sum.splits)
      with Inl o Inr s assms(4) show ?thesis
        by (simp add: handle_payload_def ingest_def accepts_update_def)
    next
      case (Inr u)
      have "d' = applied D J now (take (Suc k) feed) d0"
        unfolding next_db using o \<open>translate_trade_event D J now ?raw = Inr ev\<close>
        by (simp add: apply_update_def deliver_def)
      moreover have "accepts_update D J now ?raw ?d"
        using o Inr \<open>translate_trade_event D J now ?raw = Inr ev\<close> by (simp add: accepts_update_def)
      ultimately show ?thesis
        using Inr o \<open>translate_trade_event D J now ?raw = Inr ev\<close> s assms i ext
        by (auto simp: handle_payload_def ingest_def at_position_def cursor_at_def accepted_upto_def less_Suc_eq)
    qed
  qed
qed

lemma position_payloads:
  assumes "at_position D J now c0 feed d0 k s" "feed_ok feed" "map parse ps = map Some (take j (drop k feed))"
    and "each (handle_payload D J now parse (ingest D)) ps s = (r, s')"
  shows "\<exists>k'. at_position D J now c0 feed d0 k' s' \<and> k \<le> k' \<and> (r = Inr () \<longrightarrow> k' = k + length ps)
    \<and> (r \<noteq> Inr () \<longrightarrow> \<not> accepts_update D J now (feed ! k') (applied D J now (take k' feed) d0))"
  using assms(1,3,4)
proof (induction ps arbitrary: k j s)
  case Nil
  then show ?case by auto
next
  case (Cons p ps)
  have k: "k < length feed"
  proof (rule ccontr)
    assume "\<not> k < length feed"
    with Cons.prems(2) show False by simp
  qed
  then have split: "drop k feed = feed ! k # drop (Suc k) feed" by (simp add: Cons_nth_drop_Suc)
  obtain i where j: "j = Suc i" using Cons.prems(2) by (cases j) auto
  from Cons.prems(2) have p: "parse p = Some (feed ! k)" and rest: "map parse ps = map Some (take i (drop (Suc k) feed))"
    by (simp_all add: split j)
  obtain r1 s1 where h: "handle_payload D J now parse (ingest D) p s = (r1, s1)"
    by (cases "handle_payload D J now parse (ingest D) p s")
  note step = position_step[where parse = parse and p = p, OF Cons.prems(1) k assms(2) p, unfolded h]
  show ?case
  proof (cases r1)
    case (Inl e)
    with step h Cons.prems(1,3) show ?thesis by (intro exI[of _ k]) auto
  next
    case (Inr u)
    with step have "at_position D J now c0 feed d0 (Suc k) s1" by simp
    moreover have "each (handle_payload D J now parse (ingest D)) ps s1 = (r, s')"
      using Cons.prems(3) h Inr by simp
    ultimately show ?thesis using Cons.IH[OF _ rest] by fastforce
  qed
qed

lemma cursor_truthy: "feed_ok feed \<Longrightarrow> c0 \<noteq> Some [] \<Longrightarrow> k \<le> length feed \<Longrightarrow> truthy (cursor_at c0 feed k) = cursor_at c0 feed k"
  by (cases k) (auto simp: cursor_at_def feed_ok_def list_all_length truthy_def Suc_le_eq split: option.splits if_splits)

lemma position_turn:
  assumes "at_position D J now c0 feed d0 k s" "feed_ok feed" "c0 \<noteq> Some []" "serves parse c0 feed server"
    and "stream_turn (handle_line D J now parse (ingest D)) server (backoff, s) = (backoff', s')" "backoff \<in> {1000..30000}"
  shows "\<exists>k' \<ge> k. at_position D J now c0 feed d0 k' s'" "backoff' \<in> {1000..30000}"
proof -
  obtain saved d where s: "s = (cursor_at c0 feed k, saved, d)" and k: "k \<le> length feed"
    using assms(1) by (auto simp: at_position_def)
  note cur = cursor_truthy[OF assms(2,3) k]
  have "(\<exists>k' \<ge> k. at_position D J now c0 feed d0 k' s') \<and> backoff' \<in> {1000..30000}"
  proof (cases "server (cursor_at c0 feed k)")
    case None
    with assms(1,5,6) s cur show ?thesis by (auto simp: stream_turn_def next_backoff_def)
  next
    case (Some cb)
    obtain chunks broken where cb: "cb = (chunks, broken)" by (cases cb)
    from assms(4) k Some cb obtain j where
      j: "map parse (payloads (concat chunks)) = map Some (take j (drop k feed))" by (auto simp: serves_def)
    obtain r s1 where e: "each (handle_payload D J now parse (ingest D)) (payloads (concat chunks)) s = (r, s1)"
      by (cases "each (handle_payload D J now parse (ingest D)) (payloads (concat chunks)) s")
    from position_payloads[OF assms(1,2) j e] obtain k' where "at_position D J now c0 feed d0 k' s1" "k \<le> k'" by blast
    moreover have "s' = s1" "backoff' \<in> {1000..30000}"
      using assms(5) s cur Some cb e read_chunks_payloads[of D J now parse "ingest D" chunks s]
      by (auto simp: stream_turn_def next_backoff_def split: sum.splits)
    ultimately show ?thesis by blast
  qed
  then show "\<exists>k' \<ge> k. at_position D J now c0 feed d0 k' s'" "backoff' \<in> {1000..30000}" by blast+
qed

lemma position_run:
  assumes "at_position D J now c0 feed d0 k s" "feed_ok feed" "c0 \<noteq> Some []"
    and "\<forall>server \<in> set servers. serves parse c0 feed server" "backoff \<in> {1000..30000}"
    and "run_stream (handle_line D J now parse (ingest D)) servers (backoff, s) = (backoff', s')"
  shows "(\<exists>k' \<ge> k. at_position D J now c0 feed d0 k' s') \<and> backoff' \<in> {1000..30000}"
  using assms(1,4,5,6)
proof (induction servers arbitrary: k s backoff)
  case (Cons server servers)
  obtain b1 s1 where t: "stream_turn (handle_line D J now parse (ingest D)) server (backoff, s) = (b1, s1)"
    by (cases "stream_turn (handle_line D J now parse (ingest D)) server (backoff, s)")
  have "serves parse c0 feed server" using Cons.prems(2) by simp
  from position_turn[OF Cons.prems(1) assms(2,3) this t Cons.prems(3)] obtain k1 where
    k1: "k \<le> k1" "at_position D J now c0 feed d0 k1 s1" and b1: "b1 \<in> {1000..30000}" by blast
  have "\<forall>server \<in> set servers. serves parse c0 feed server" using Cons.prems(2) by simp
  moreover have "run_stream (handle_line D J now parse (ingest D)) servers (b1, s1) = (backoff', s')"
    using Cons.prems(4) t by simp
  ultimately obtain k' where "k1 \<le> k'" "at_position D J now c0 feed d0 k' s'" "backoff' \<in> {1000..30000}"
    using Cons.IH[OF k1(2) _ b1] by blast
  with k1(1) show ?case using le_trans by blast
qed auto

lemma position_start: "at_position D J now c0 feed d0 0 (c0, c0, d0)"
  by (simp add: at_position_def cursor_at_def accepted_upto_def)


text \<open>
  C21: An event that is refused stops the stream. If the update at some position of the log does not translate (a
  fractional quantity, say) or its application throws (a transition the state machine refuses), then no
  sequence of connections ever gets past it: no later update of the log, of whatever account, is applied, for
  the cursor moves only after an event was accepted, and every reconnect is served the same event again.
\<close>

theorem refused_event_blocks_stream:
  assumes "feed_ok feed" "c0 \<noteq> Some []" "\<forall>server \<in> set servers. serves parse c0 feed server"
    and "start_ingestion D J now parse servers (c0, d0) = (backoff, ulid, saved, d)"
    and "\<not> accepts_update D J now (feed ! p) (fold (apply_update D J now) (take p feed) d0)"
  shows "\<exists>k \<le> p. d = fold (apply_update D J now) (take k feed) d0 \<and> saved = cursor_at c0 feed k"
proof -
  have "truthy c0 = c0" using cursor_truthy[OF assms(1,2), of 0] by (simp add: cursor_at_def)
  then have "run_stream (handle_line D J now parse (ingest D)) servers (1000, c0, c0, d0) = (backoff, ulid, saved, d)"
    using assms(4) by (simp add: start_ingestion_def)
  from position_run[OF position_start assms(1-3) _ this] obtain k where
    k: "at_position D J now c0 feed d0 k (ulid, saved, d)" by auto
  then have "\<not> p < k" using assms(5) by (auto simp: at_position_def accepted_upto_def)
  with k show ?thesis by (intro exI[of _ k]) (auto simp: at_position_def)
qed

text \<open>
  The stream catches up. If every update of the log is acceptable when its turn comes and one connection
  delivers all the updates after the cursor it is asked for, then after that connection the database is the one
  after the whole log and the persisted cursor is the id of its last update, whatever the connections before did.
\<close>

theorem stream_catches_up:
  assumes "feed_ok feed" "c0 \<noteq> Some []" "\<forall>server \<in> set servers. serves parse c0 feed server"
    and "\<And>k. k \<le> length feed \<Longrightarrow> \<exists>chunks broken. final (cursor_at c0 feed k) = Some (chunks, broken)
      \<and> map parse (payloads (concat chunks)) = map Some (drop k feed)"
    and "accepted_upto D J now feed (length feed) d0"
    and "start_ingestion D J now parse (servers @ [final]) (c0, d0) = (backoff, ulid, saved, d)"
  shows "d = fold (apply_update D J now) feed d0 \<and> ulid = cursor_at c0 feed (length feed)
    \<and> saved = cursor_at c0 feed (length feed)"
proof -
  let ?handle = "handle_line D J now parse (ingest D)"
  have run_append: "run_stream ?handle (xs @ ys) st = run_stream ?handle ys (run_stream ?handle xs st)" for xs ys st
    by (induction xs arbitrary: st) simp_all
  have c0: "truthy c0 = c0" using cursor_truthy[OF assms(1,2), of 0] by (simp add: cursor_at_def)
  obtain b1 s1 where run: "run_stream ?handle servers (1000, c0, c0, d0) = (b1, s1)"
    by (cases "run_stream ?handle servers (1000, c0, c0, d0)")
  from position_run[OF position_start assms(1-3) _ run] obtain k where
    at: "at_position D J now c0 feed d0 k s1" by auto
  then have k: "k \<le> length feed" by (simp add: at_position_def)
  from assms(4)[OF k] obtain chunks broken where final: "final (cursor_at c0 feed k) = Some (chunks, broken)"
    and sent: "map parse (payloads (concat chunks)) = map Some (take (length feed) (drop k feed))" by auto
  obtain r s2 where e: "each (handle_payload D J now parse (ingest D)) (payloads (concat chunks)) s1 = (r, s2)"
    by (cases "each (handle_payload D J now parse (ingest D)) (payloads (concat chunks)) s1")
  from position_payloads[OF at assms(1) sent e] obtain k' where
    k': "at_position D J now c0 feed d0 k' s2" "k \<le> k'" "r = Inr () \<longrightarrow> k' = k + length (payloads (concat chunks))"
      "r \<noteq> Inr () \<longrightarrow> \<not> accepts_update D J now (feed ! k') (applied D J now (take k' feed) d0)" by blast
  have len: "length (payloads (concat chunks)) = length feed - k"
    using arg_cong[OF sent, of length] by simp
  have "k' = length feed"
  proof (cases "r = Inr ()")
    case True
    with k'(3) len k show ?thesis by simp
  next
    case False
    with k'(4) assms(5) have "\<not> k' < length feed" by (auto simp: accepted_upto_def)
    moreover have "k' \<le> length feed" using k'(1) by (simp add: at_position_def)
    ultimately show ?thesis by simp
  qed
  moreover have "s2 = (ulid, saved, d)"
  proof -
    have "stream_turn ?handle final (b1, s1) = (backoff, ulid, saved, d)"
      using assms(6) c0 run by (simp add: start_ingestion_def run_append)
    with final e cursor_truthy[OF assms(1,2) k] at show ?thesis
      by (auto simp: stream_turn_def at_position_def read_chunks_payloads split: sum.splits)
  qed
  ultimately show ?thesis using k'(1) by (simp add: at_position_def)
qed

section \<open>Witnesses\<close>

definition demo_wire :: "string option \<Rightarrow> connection" where
  "demo_wire u = Some (if u = None then [''da'', ''ta: {}'' @ [CHR 0x0A]] else [], False)"

lemma demo_wire_payloads: "payloads (concat [''da'', ''ta: {}'' @ [CHR 0x0A]]) = [''{}'']"
  by (simp add: payloads_def complete_lines_def List.map_filter_def line_payload_def data_prefix_def js_trim_def is_space_def)

lemma demo_wire_silence: "payloads (concat []) = []"
  by (simp add: payloads_def complete_lines_def)

lemma cursor_start: "feed_ok feed \<Longrightarrow> k \<le> length feed \<Longrightarrow> cursor_at None feed k = None \<longleftrightarrow> k = 0"
  by (cases k) (auto simp: cursor_at_def feed_ok_def list_all_length truthy_def Suc_le_eq split: option.splits)

lemma demo_wire_serves: "feed_ok (raw # feed) \<Longrightarrow> serves (\<lambda>_. Some raw) None (raw # feed) demo_wire"
  unfolding serves_def
proof (intro allI impI)
  fix k chunks broken
  assume "feed_ok (raw # feed)" "k \<le> length (raw # feed)"
    and "demo_wire (cursor_at None (raw # feed) k) = Some (chunks, broken)"
  then have "chunks = (if k = 0 then [''da'', ''ta: {}'' @ [CHR 0x0A]] else [])"
    by (auto simp: demo_wire_def cursor_start)
  then show "\<exists>j. map (\<lambda>_. Some raw) (payloads (concat chunks)) = map Some (take j (drop k (raw # feed)))"
    using demo_wire_payloads demo_wire_silence by (cases k) (auto intro: exI[of _ 1] exI[of _ 0])
qed

text \<open>One update, which reports an execution the database has already: it is acknowledged.\<close>

lemma demo_log_ok: "feed_ok [demo_update]"
  by (simp add: feed_ok_def demo_update_def truthy_def)


theorem stream_catches_up_witness:
  "fst (snd (snd (start_ingestion js_decimal demo_runtime 9 (\<lambda>_. Some demo_update) [demo_wire] (None, demo_alpaca_db))))
    = Some ''01J''"
proof -
  obtain b u s d where run: "start_ingestion js_decimal demo_runtime 9 (\<lambda>_. Some demo_update) ([] @ [demo_wire]) (None, demo_alpaca_db)
      = (b, u, s, d)" by (rule prod_cases4)
  have all: "\<exists>chunks broken. demo_wire (cursor_at None [demo_update] k) = Some (chunks, broken)
      \<and> map (\<lambda>_. Some demo_update) (payloads (concat chunks)) = map Some (drop k [demo_update])"
    if "k \<le> length [demo_update]" for k
    using that demo_wire_payloads demo_wire_silence cursor_start[OF demo_log_ok that]
    by (cases k) (auto simp: demo_wire_def)
  have acc: "accepted_upto js_decimal demo_runtime 9 [demo_update] (length [demo_update]) demo_alpaca_db"
    using demo_acknowledged by (simp add: accepted_upto_def accepts_update_def demo_translated)
  from stream_catches_up[OF demo_log_ok _ _ all acc run] run show ?thesis
    by (simp add: cursor_at_def demo_update_def)
qed

text \<open>An acceptance that arrives after a fill of its order was applied: the state machine refuses it.\<close>

definition demo_late_new :: trade_update where
  "demo_late_new = demo_update\<lparr>tu_event := ''new'', tu_event_id := Some ''01K'', tu_execution := None\<rparr>"

lemma demo_late_new_refused: "\<not> accepts_update js_decimal demo_runtime 9 demo_late_new demo_alpaca_db"
proof -
  have t: "translate_trade_event js_decimal demo_runtime 9 demo_late_new = Inr (status_update demo_runtime 9 demo_late_new)"
    by (simp add: translate_trade_event_def status_update_def demo_late_new_def demo_update_def event_map_def
        is_fill_event_def Let_def)
  let ?ev = "status_update demo_runtime 9 demo_late_new"
  have ev: "ev_type ?ev = ORDER_ACCEPTED" "ev_client_order ?ev = 3" "\<not> is_fill_event ORDER_ACCEPTED"
    by (simp_all add: status_update_def demo_late_new_def demo_update_def event_map_def is_fill_event_def)
  have "\<not> event_seen (transition_of ?ev) demo_alpaca_db"
    by (simp add: event_seen_def event_exists_def transition_of_def status_update_def demo_late_new_def demo_update_def
        truthy_def demo_alpaca_db_def demo_settled_def demo_moved_def event_row_def demo_fill_event_def)
  moreover have "plan_event (ord_state demo_filled_order) ORDER_ACCEPTED = Inl (AppError DOMAIN_RULE (Some INVALID_STATE_TRANSITION))"
    by (simp add: demo_filled_order_def plan_event_def plan_transitions_def is_fill_event_def invalid_transition_def
        app_error_def is_terminal_def terminal_states_def)
  moreover obtain a where "lock_account demo_alpaca_db (ord_account demo_filled_order) = Inr a"
    using lock_succeeds[OF demo_alpaca_ok demo_alpaca_order_row] .
  ultimately have "fst (on_broker_event js_decimal ?ev demo_alpaca_db) \<noteq> Inr ()"
    using ev demo_alpaca_order_row
    by (simp add: on_broker_event_def run_tx_def event_tx_def lock_order_def apply_event_def apply_transition_def
        transition_of_def)
  with t show ?thesis by (simp add: accepts_update_def)
qed

theorem refused_event_blocks_stream_witness:
  "snd (snd (snd (start_ingestion js_decimal demo_runtime 9 (\<lambda>_. Some demo_late_new) (replicate 100 demo_wire)
      (None, demo_alpaca_db)))) = demo_alpaca_db"
proof -
  let ?feed = "[demo_late_new, demo_update]"
  have ok: "feed_ok ?feed" by (simp add: feed_ok_def demo_late_new_def demo_update_def truthy_def)
  obtain b u s d where run: "start_ingestion js_decimal demo_runtime 9 (\<lambda>_. Some demo_late_new) (replicate 100 demo_wire)
      (None, demo_alpaca_db) = (b, u, s, d)" by (rule prod_cases4)
  have "\<forall>server \<in> set (replicate 100 demo_wire). serves (\<lambda>_. Some demo_late_new) None ?feed server"
    using demo_wire_serves[OF ok] by simp
  from refused_event_blocks_stream[OF ok _ this run, of 0] demo_late_new_refused have "d = demo_alpaca_db" by auto
  with run show ?thesis by simp
qed

end
