(* ===== verification/Alpaca_Paging.thy ===== *)
theory Alpaca_Paging
  imports Alpaca_Correct
begin

text \<open>
  The paged reads of \<^verbatim>\<open>src/infra/brokers/alpaca/broker.ts\<close>, against a venue that serves the pages of a fixed
  list: the look-up and the listing of transfers read it to its end or throw, and the listing tells whether
  it left anything out; the fill activities are cut off after twenty pages.
\<close>

section \<open>Transfers\<close>

definition serves_transfers :: "'v alpaca_api \<Rightarrow> string \<Rightarrow> alpaca_transfer list \<Rightarrow> bool" where
  "serves_transfers api account ts \<longleftrightarrow>
     (\<forall>limit offset v. \<exists>v'. api_transfers api account limit offset v = (Inr (200, Some (take limit (drop offset ts))), v'))"

lemma page_transfers_step:
  assumes "serves_transfers api account ts"
  obtains v' where "page_transfers api account stop (Suc left) page acc v =
    (let batch = take 100 (drop (page * 100) ts); (acc1, halt) = stop batch acc
     in if halt \<or> length ts < (page + 1) * 100 then (Inr acc1, v')
        else page_transfers api account stop left (Suc page) acc1 v')"
proof -
  from assms obtain v' where
    "api_transfers api account transfer_page (page * transfer_page) v
       = (Inr (200, Some (take transfer_page (drop (page * transfer_page) ts))), v')"
    unfolding serves_transfers_def by blast
  moreover have "length (take 100 (drop (page * 100) ts)) < 100 \<longleftrightarrow> length ts < (page + 1) * 100" by auto
  ultimately show thesis using that[of v'] by (simp add: api_request_def transfer_page_def Let_def)
qed

lemma drop_page: "drop (page * 100) xs = take 100 (drop (page * 100) xs) @ drop (Suc page * 100) xs"
  using append_take_drop_id[of 100 "drop (page * 100) xs"] by (simp add: add.commute)

lemma page_transfers_all:
  assumes "serves_transfers api account ts" "page * 100 \<le> length ts"
  shows "fst (page_transfers api account (\<lambda>batch rows. (rows @ batch, False)) left page acc v)
    = (if length ts < (page + left) * 100 then Inr (acc @ drop (page * 100) ts)
       else Inl (JsError ''alpaca transfers exceed the page limit''))"
  using assms(2)
proof (induction left arbitrary: page acc v)
  case (Suc left)
  let ?stop = "\<lambda>batch rows. (rows @ batch, False)"
  obtain v' where step: "page_transfers api account ?stop (Suc left) page acc v =
    (let batch = take 100 (drop (page * 100) ts); (acc1, halt) = ?stop batch acc
     in if halt \<or> length ts < (page + 1) * 100 then (Inr acc1, v')
        else page_transfers api account ?stop left (Suc page) acc1 v')"
    using page_transfers_step[OF assms(1)] .
  show ?case
  proof (cases "length ts < (page + 1) * 100")
    case True
    then have "take 100 (drop (page * 100) ts) = drop (page * 100) ts" by simp
    with True show ?thesis unfolding step by simp
  next
    case False
    then have "Suc page * 100 \<le> length ts" by simp
    from Suc.IH[OF this, of "acc @ take 100 (drop (page * 100) ts)" v'] False drop_page[of page ts, symmetric]
    show ?thesis unfolding step by simp
  qed
qed simp

lemma page_transfers_find:
  assumes "serves_transfers api account ts" "page * 100 \<le> length ts"
  shows "fst (page_transfers api account (\<lambda>batch _. let found = find P batch in (found, found \<noteq> None)) left page None v)
    = (case find P (take (left * 100) (drop (page * 100) ts)) of
         Some t \<Rightarrow> Inr (Some t)
       | None \<Rightarrow> if length ts < (page + left) * 100 then Inr None
           else Inl (JsError ''alpaca transfers exceed the page limit''))"
  using assms(2)
proof (induction left arbitrary: page v)
  case (Suc left)
  let ?stop = "\<lambda>batch (_ :: alpaca_transfer option). let found = find P batch in (found, found \<noteq> None)"
  obtain v' where step: "page_transfers api account ?stop (Suc left) page None v =
    (let batch = take 100 (drop (page * 100) ts); (acc1, halt) = ?stop batch None
     in if halt \<or> length ts < (page + 1) * 100 then (Inr acc1, v')
        else page_transfers api account ?stop left (Suc page) acc1 v')"
    using page_transfers_step[OF assms(1)] .
  have split: "take (Suc left * 100) (drop (page * 100) ts)
      = take 100 (drop (page * 100) ts) @ take (left * 100) (drop (Suc page * 100) ts)"
    by (simp add: take_add add.commute)
  show ?case
  proof (cases "find P (take 100 (drop (page * 100) ts))")
    case (Some t)
    then show ?thesis unfolding step split by (simp add: find_append Let_def)
  next
    case None
    note no = None
    show ?thesis
    proof (cases "length ts < (page + 1) * 100")
      case True
      then have "drop (Suc page * 100) ts = []" by simp
      with True no show ?thesis unfolding step split by (simp add: find_append Let_def)
    next
      case False
      then have "Suc page * 100 \<le> length ts" by simp
      from Suc.IH[OF this] False no show ?thesis unfolding step split by (simp add: find_append Let_def)
    qed
  qed
qed simp

text \<open>
  "The venue has no record" is authoritative. Against a venue that serves the pages of its list of transfers,
  the look-up of a transfer returns the translation of the first transfer with that id among the first five
  thousand; it returns \<open>null\<close> only when the whole list was read and no transfer has the id, and it throws
  when the list is longer and the id was not found.
\<close>

theorem transfer_lookup_authoritative:
  assumes "serves_transfers api (ref_external ref) ts"
  shows "fst (get_transfer_at api J ref i v) =
    (case find (\<lambda>t. at_id t = i) (take 5000 ts) of
       Some t \<Rightarrow> ebind (translate_transfer J t) (\<lambda>x. Inr (Some x))
     | None \<Rightarrow> if length ts < 5000 then Inr None else Inl (JsError ''alpaca transfers exceed the page limit''))"
proof -
  let ?p = "page_transfers api (ref_external ref)
      (\<lambda>batch _. let found = find (\<lambda>t. at_id t = i) batch in (found, found \<noteq> None)) 50 0 None v"
  have "fst ?p = (case find (\<lambda>t. at_id t = i) (take 5000 ts) of
         Some t \<Rightarrow> Inr (Some t)
       | None \<Rightarrow> if length ts < 5000 then Inr None
           else Inl (JsError ''alpaca transfers exceed the page limit''))"
    using page_transfers_find[OF assms, of 0 "\<lambda>t. at_id t = i" 50 v] by simp
  moreover obtain r v' where p: "?p = (r, v')" by (cases ?p)
  ultimately show ?thesis
    unfolding get_transfer_at_def transfer_max_pages_def p by (simp split: option.split)
qed

section \<open>The listing\<close>

definition kept_row :: "time \<Rightarrow> nat option \<Rightarrow> nat \<times> alpaca_transfer \<times> time \<Rightarrow> bool" where
  "kept_row since opening = (\<lambda>(i, r, t). since \<le> t \<and> \<not> (opening = Some i \<and> at_direction r = ''INCOMING''))"

lemma list_steps:
  "fold (list_step J since opening) rows (ts, n) = (ts', n') \<Longrightarrow>
    n \<le> n' \<and> set ts \<subseteq> set ts'
    \<and> (n' = n \<longrightarrow> (\<forall>(i, r, t) \<in> set rows. kept_row since opening (i, r, t) \<longrightarrow> (\<exists>x \<in> set ts'. translate_transfer J r = Inr x)))
    \<and> (\<forall>x \<in> set ts'. x \<in> set ts \<or> (\<exists>(i, r, t) \<in> set rows. kept_row since opening (i, r, t) \<and> translate_transfer J r = Inr x))"
proof (induction rows arbitrary: ts n)
  case (Cons row rows)
  obtain i r t where row: "row = (i, r, t)" by (cases row)
  obtain ts1 n1 where one: "list_step J since opening row (ts, n) = (ts1, n1)"
    by (cases "list_step J since opening row (ts, n)")
  have step: "n \<le> n1 \<and> set ts \<subseteq> set ts1
      \<and> (n1 = n \<longrightarrow> kept_row since opening row \<longrightarrow> (\<exists>x \<in> set ts1. translate_transfer J r = Inr x))
      \<and> (\<forall>x \<in> set ts1. x \<in> set ts \<or> kept_row since opening row \<and> translate_transfer J r = Inr x)"
    using one by (auto simp: row list_step_def kept_row_def split: if_splits sum.splits)
  from Cons.prems one have "fold (list_step J since opening) rows (ts1, n1) = (ts', n')" by simp
  from Cons.IH[OF this] step show ?case unfolding row by (auto; fastforce)
qed auto

lemma dated_rows_set: "(r, t) \<in> set (dated_rows J rows) \<longleftrightarrow> r \<in> set rows \<and> vendor_timestamp J (at_created r) = Inr t"
  by (auto simp: dated_rows_def split: sum.splits)

lemma dated_rows_length: "length (dated_rows J rows) \<le> length rows
    \<and> (length (dated_rows J rows) = length rows \<longrightarrow> (\<forall>r \<in> set rows. \<exists>t. vendor_timestamp J (at_created r) = Inr t))"
  by (induction rows) (auto simp: dated_rows_def split: sum.split)

lemma oldest_upto:
  "case foldl (\<lambda>oldest i. case oldest of
         None \<Rightarrow> Some i
       | Some j \<Rightarrow> if snd (dated ! i) < snd (dated ! j) then Some i else oldest) None [0..<n] of
     None \<Rightarrow> n = 0
   | Some i \<Rightarrow> i < n \<and> (\<forall>j < n. snd (dated ! i) \<le> (snd (dated ! j) :: time))"
  by (induction n) (auto simp: less_Suc_eq split: option.splits)

lemma oldest_index_least:
  "oldest_index dated = Some i \<Longrightarrow> i < length dated \<and> (\<forall>d \<in> set dated. snd (dated ! i) \<le> snd d)"
  using oldest_upto[where dated = dated and n = "length dated"]
  by (auto simp: oldest_index_def in_set_conv_nth) (metis snd_conv)

lemma translated_created: "translate_transfer J r = Inr x \<Longrightarrow> vendor_timestamp J (at_created r) = Inr (vt_created x)"
  by (auto simp: translate_transfer_def Let_def result_simps)

lemma list_transfers_result:
  assumes "serves_transfers api (ref_external ref) ts"
  shows "fst (list_transfers_at api J ref since v) =
    (if length ts < 5000 then Inr (listing_of J since ts) else Inl (JsError ''alpaca transfers exceed the page limit''))"
proof -
  let ?p = "page_transfers api (ref_external ref) (\<lambda>batch rows. (rows @ batch, False)) 50 0 [] v"
  have "fst ?p = (if length ts < 5000 then Inr ts else Inl (JsError ''alpaca transfers exceed the page limit''))"
    using page_transfers_all[OF assms, of 0 50 "[]" v] by simp
  moreover obtain r v' where p: "?p = (r, v')" by (cases ?p)
  ultimately show ?thesis
    unfolding list_transfers_at_def transfer_max_pages_def p by simp
qed

text \<open>
  A listing that calls itself complete misses nothing. Against a venue that serves the pages of its list, a
  listing is only returned when the whole list was read, and every transfer in it is the translation of a row
  dated at or after \<open>since\<close>. If it is marked complete, every row of the venue has a readable date and is
  older than \<open>since\<close>, or is the incoming transfer with which the account was opened (one row, none of the rows is older),
  or its translation is listed.
\<close>

theorem complete_listing_misses_nothing:
  assumes "serves_transfers api (ref_external ref) ts"
    and "fst (list_transfers_at api J ref since v) = Inr listing"
  shows "length ts < 5000
    \<and> (\<forall>x \<in> set (vl_transfers listing). \<exists>r \<in> set ts. translate_transfer J r = Inr x \<and> since \<le> vt_created x)
    \<and> (vl_complete listing \<longrightarrow> (\<exists>opening. \<forall>r \<in> set ts. \<exists>t. vendor_timestamp J (at_created r) = Inr t
        \<and> (t < since \<or> translate_transfer J r \<in> Inr ` set (vl_transfers listing)
          \<or> r = opening \<and> at_direction r = ''INCOMING''
            \<and> (\<forall>r' \<in> set ts. \<forall>t'. vendor_timestamp J (at_created r') = Inr t' \<longrightarrow> t \<le> t'))))"
proof -
  let ?dated = "dated_rows J ts"
  let ?opening = "oldest_index ?dated"
  obtain xs n where f: "fold (list_step J since ?opening) (enumerate 0 ?dated) ([], length ts - length ?dated) = (xs, n)"
    by (cases "fold (list_step J since ?opening) (enumerate 0 ?dated) ([], length ts - length ?dated)")
  have listing: "length ts < 5000" "vl_transfers listing = xs" "vl_complete listing \<longleftrightarrow> n = 0"
    using assms(2) f by (auto simp: list_transfers_result[OF assms(1)] listing_of_def Let_def split: if_splits)
  note steps = list_steps[OF f]
  have rows: "(i, r, t) \<in> set (enumerate 0 ?dated) \<longleftrightarrow> i < length ?dated \<and> ?dated ! i = (r, t)" for i r t
    by (auto simp: in_set_enumerate_eq)
  have listed: "\<exists>r \<in> set ts. translate_transfer J r = Inr x \<and> since \<le> vt_created x" if x: "x \<in> set xs" for x
  proof -
    from x steps obtain i r t where r: "(i, r, t) \<in> set (enumerate 0 ?dated)" "kept_row since ?opening (i, r, t)"
      "translate_transfer J r = Inr x" by fastforce
    then have "(r, t) \<in> set ?dated" using rows by (metis nth_mem)
    with r translated_created[OF r(3)] show ?thesis by (auto simp: dated_rows_set kept_row_def)
  qed
  have all: "\<exists>t. vendor_timestamp J (at_created r) = Inr t
        \<and> (t < since \<or> translate_transfer J r \<in> Inr ` set xs
          \<or> r = fst (?dated ! the ?opening) \<and> at_direction r = ''INCOMING''
            \<and> (\<forall>r' \<in> set ts. \<forall>t'. vendor_timestamp J (at_created r') = Inr t' \<longrightarrow> t \<le> t'))"
    if n: "n = 0" and r: "r \<in> set ts" for r
  proof -
    from n steps dated_rows_length[of J ts] have len: "length ?dated = length ts" and n0: "n = length ts - length ?dated"
      by auto
    with r dated_rows_length[of J ts] obtain t where t: "vendor_timestamp J (at_created r) = Inr t" by blast
    with r obtain i where i: "i < length ?dated" "?dated ! i = (r, t)" by (metis dated_rows_set in_set_conv_nth)
    show ?thesis
    proof (cases "kept_row since ?opening (i, r, t)")
      case True
      with steps n0 rows i obtain x where "x \<in> set xs" "translate_transfer J r = Inr x" by blast
      with t show ?thesis by (auto intro!: exI[of _ t])
    next
      case False
      show ?thesis
      proof (cases "t < since")
        case True
        with t show ?thesis by blast
      next
        case False
        with \<open>\<not> kept_row since ?opening (i, r, t)\<close> have o1: "?opening = Some i" "at_direction r = ''INCOMING''"
          by (auto simp: kept_row_def)
        with oldest_index_least[OF o1(1)] i have "\<forall>d \<in> set ?dated. t \<le> snd d" by simp
        then have "\<forall>r' \<in> set ts. \<forall>t'. vendor_timestamp J (at_created r') = Inr t' \<longrightarrow> t \<le> t'"
          using dated_rows_set[of _ _ J ts] by fastforce
        with t o1 i show ?thesis by (auto intro!: exI[of _ t])
      qed
    qed
  qed
  show ?thesis using listing listed all by blast
qed

section \<open>Fill activities\<close>

definition after_token :: "string option \<Rightarrow> fill_activity list \<Rightarrow> fill_activity list" where
  "after_token token acts =
     (case token of None \<Rightarrow> acts | Some i \<Rightarrow> drop 1 (dropWhile (\<lambda>f. fa_id f \<noteq> i) acts))"

definition serves_fills :: "'v alpaca_api \<Rightarrow> string \<Rightarrow> fill_activity list \<Rightarrow> bool" where
  "serves_fills api account acts \<longleftrightarrow> distinct (map fa_id acts)
     \<and> (\<forall>token v. \<exists>v'. api_fills api account None token v = (Inr (200, Some (take 100 (after_token token acts))), v'))"

lemma after_token_nth:
  "distinct (map fa_id acts) \<Longrightarrow> n < length acts \<Longrightarrow> after_token (Some (fa_id (acts ! n))) acts = drop (Suc n) acts"
proof (induction acts arbitrary: n)
  case (Cons f fs)
  then show ?case by (cases n) (auto simp: after_token_def)
qed simp

lemma page_fills_prefix:
  assumes "serves_fills api account acts" "after_token token acts = drop (page * 100) acts" "page * 100 \<le> length acts"
  shows "fst (page_fills api account None left token acc v) = Inr (acc @ take (left * 100) (drop (page * 100) acts))"
  using assms(2,3)
proof (induction left arbitrary: page token acc v)
  case (Suc left)
  from assms(1) obtain v' where req: "api_fills api account None token v
      = (Inr (200, Some (take 100 (after_token token acts))), v')" unfolding serves_fills_def by blast
  let ?batch = "take 100 (drop (page * 100) acts)"
  have split: "take (Suc left * 100) (drop (page * 100) acts) = ?batch @ take (left * 100) (drop (Suc page * 100) acts)"
    by (simp add: take_add add.commute)
  show ?case
  proof (cases "length acts < (page + 1) * 100")
    case True
    then have "length acts - page * 100 < 100" "drop (Suc page * 100) acts = []" by auto
    with req Suc.prems(1) show ?thesis unfolding split by (simp add: api_request_def fill_page_def Let_def)
  next
    case False
    then have full: "length ?batch = 100" and le: "Suc page * 100 \<le> length acts" by auto
    have "last ?batch = acts ! (page * 100 + 99)"
      using full le by (subst last_conv_nth) auto
    then have "after_token (Some (fa_id (last ?batch))) acts = drop (Suc page * 100) acts"
      using after_token_nth[of acts "page * 100 + 99"] assms(1) le by (simp add: serves_fills_def add.commute)
    from Suc.IH[OF this le, of "acc @ ?batch" v'] full req Suc.prems(1) show ?thesis
      unfolding split by (simp add: api_request_def fill_page_def Let_def)
  qed
qed simp

text \<open>
  C22: Fill activities are cut off after two thousand. Against a venue that serves the activities of an account oldest
  first, the look-up returns the oldest 2,000 of them and no error, although its comment says that it pages until
  the venue has nothing more. So when an account has traded that much, the list of its open orders cannot be
  read: an open order whose executions come later is refused as incomplete.
\<close>

theorem fills_cut_off:
  assumes "serves_fills api account acts" "truthy after_time = None"
    and "venue_filled x = Inr n" "0 < n" "list_all (\<lambda>f. fa_order f \<noteq> ao_id x) (take 2000 acts)"
  shows "fst (fill_activities api J account after_time v) = Inr (take 2000 acts)
    \<and> to_snapshot D J now account x (take 2000 acts) = Inl (JsError ''IncompleteFillsError'')"
proof
  show "fst (fill_activities api J account after_time v) = Inr (take 2000 acts)"
    using page_fills_prefix[OF assms(1), of None 0 20 "[]" v] assms(2)
    by (simp add: fill_activities_def fills_since_def fill_max_pages_def after_token_def)
  have "order_fills J x (take 2000 acts) = []"
    using assms(5) by (simp add: order_fills_def filter_empty_conv list_all_iff)
  with assms(3,4) show "to_snapshot D J now account x (take 2000 acts) = Inl (JsError ''IncompleteFillsError'')"
    by (simp add: to_snapshot_def events_from_snapshot_def Let_def ensure_def)
qed

section \<open>Witnesses\<close>

text \<open>A venue that serves pages of two given lists, and answers nothing else.\<close>

definition paging_api :: "alpaca_transfer list \<Rightarrow> fill_activity list \<Rightarrow> unit alpaca_api" where
  "paging_api ts acts =
     \<lparr>api_create_account = \<lambda>_ v. (Inr (500, None), v), api_create_ach = \<lambda>_ v. (Inr (500, None), v),
      api_list_ach = \<lambda>_ v. (Inr (500, None), v), api_post_transfer = \<lambda>_ _ v. (Inr (500, None), v),
      api_transfers = \<lambda>_ limit offset v. (Inr (200, Some (take limit (drop offset ts))), v),
      api_delete_transfer = \<lambda>_ _ v. (Inr (500, None), v), api_post_order = \<lambda>_ _ v. (Inr (500, None), v),
      api_delete_order = \<lambda>_ _ v. (Inr (500, None), v), api_order_by_client = \<lambda>_ _ v. (Inr (404, None), v),
      api_open_orders = \<lambda>_ v. (Inr (500, None), v), api_account_cash = \<lambda>_ v. (Inr (500, None), v),
      api_positions = \<lambda>_ v. (Inr (500, None), v),
      api_fills = \<lambda>_ _ token v. (Inr (200, Some (take 100 (after_token token acts))), v)\<rparr>"

lemma paging_api_serves:
  "serves_transfers (paging_api ts acts) account ts"
  "distinct (map fa_id acts) \<Longrightarrow> serves_fills (paging_api ts acts) account acts"
  by (simp_all add: serves_transfers_def serves_fills_def paging_api_def)

definition demo_ref :: broker_ref where
  "demo_ref = \<lparr>ref_broker = ALPACA_PAPER, ref_external = ''ext''\<rparr>"

definition demo_transfer :: alpaca_transfer where
  "demo_transfer = \<lparr>at_id = ''t1'', at_account = ''ext'', at_status = ''complete'', at_reason = None,
     at_amount = ''500.500'', at_direction = ''OUTGOING'', at_created = Some ''2026-09-03''\<rparr>"

definition demo_venue_transfer :: venue_transfer where
  "demo_venue_transfer = \<lparr>vt_id = ''t1'', vt_direction = WITHDRAWAL, vt_amount = 50050, vt_state = V_settled,
     vt_failure = None, vt_created = 7\<rparr>"

lemma demo_transfer_translated: "translate_transfer demo_runtime demo_transfer = Inr demo_venue_transfer"
  by (simp add: translate_transfer_def demo_transfer_def demo_venue_transfer_def translate_transfer_status_def status_map_def
      to_upper_def to_upper_char_def char_of_def direction_from_vendor_def vendor_timestamp_def demo_runtime_def vendor_amount_to_money_def
      js_trim_def is_space_def match_decimal_def is_digit_def is_point_def money_from_string_def money_re_def decimal_re_def
      scaled_def read_nat_def digit_val_def pad_end_def Let_def bit_Suc_0_iff)

theorem transfer_lookup_authoritative_witness:
  "fst (get_transfer_at (paging_api [demo_transfer] []) demo_runtime demo_ref ''t1'' ()) = Inr (Some demo_venue_transfer)"
proof -
  have t: "find (\<lambda>t. at_id t = ''t1'') (take 5000 [demo_transfer]) = Some demo_transfer" by (simp add: demo_transfer_def)
  show ?thesis
    using transfer_lookup_authoritative[OF paging_api_serves(1), where i = "''t1''" and J = demo_runtime] t demo_transfer_translated by simp
qed

theorem complete_listing_misses_nothing_witness:
  "demo_venue_transfer \<in> set (vl_transfers (listing_of demo_runtime 0 [demo_transfer]))"
proof -
  have created: "vendor_timestamp demo_runtime (at_created demo_transfer) = Inr 7" and out: "at_direction demo_transfer = ''OUTGOING''"
    by (simp_all add: demo_transfer_def vendor_timestamp_def demo_runtime_def)
  have "vl_complete (listing_of demo_runtime 0 [demo_transfer])"
    by (simp add: listing_of_def dated_rows_def created oldest_index_def list_step_def out demo_transfer_translated Let_def)
  moreover have listed: "fst (list_transfers_at (paging_api [demo_transfer] []) demo_runtime demo_ref 0 ())
      = Inr (listing_of demo_runtime 0 [demo_transfer])"
    by (simp add: list_transfers_result[OF paging_api_serves(1)])
  ultimately show ?thesis
    using complete_listing_misses_nothing[OF paging_api_serves(1) listed] created out
    by (auto simp: demo_transfer_translated)
qed

definition busy_account :: "fill_activity list" where
  "busy_account = map (\<lambda>n. demo_activity\<lparr>fa_id := show_nat n, fa_order := (if n < 2000 then ''old'' else ''v1'')\<rparr>) [0..<2001]"

theorem fills_cut_off_witness:
  "fst (fill_activities (paging_api [] busy_account) demo_runtime ''ext'' None ()) = Inr (take 2000 busy_account)
    \<and> to_snapshot js_decimal demo_runtime 9 ''ext'' demo_alpaca_order (take 2000 busy_account)
      = Inl (JsError ''IncompleteFillsError'')"
proof (rule fills_cut_off)
  have "map fa_id busy_account = map show_nat [0..<2001]" by (simp add: busy_account_def)
  moreover have "distinct (map show_nat [0..<2001])" unfolding distinct_map by (simp add: inj_on_def)
  ultimately show "serves_fills (paging_api [] busy_account) ''ext'' busy_account"
    by (intro paging_api_serves(2)) simp
  show "truthy None = None" by (simp add: truthy_def)
  show "venue_filled demo_alpaca_order = Inr 3"
    by (simp add: venue_filled_def demo_alpaca_order_def qty_of_string_def is_digit_def read_nat_def digit_val_def)
  show "list_all (\<lambda>f. fa_order f \<noteq> ao_id demo_alpaca_order) (take 2000 busy_account)"
    by (simp add: busy_account_def list_all_iff take_map take_upt demo_alpaca_order_def)
qed simp

end
