(* ===== verification/Equity_Series.thy ===== *)
theory Equity_Series
  imports Portfolio "HOL-Library.AList"
begin

text \<open>
  \<^verbatim>\<open>src/core/portfolio/equity-series.ts\<close>: the net-worth chart, derived on read from the ledger, the fills
  and the candles. A \<open>Map\<close> that is iterated over is an association list in the order of insertion
  (\<open>AList.update\<close> keeps the place of a key), one that is only looked up is a map. The candles of a symbol are
  what the market data provider returns for it, an argument; the time of a candle is its start.
\<close>

record ledger_amount =
  la_amount :: money
  la_type :: entry_type
  la_at :: time

definition is_external_flow :: "entry_type \<Rightarrow> bool" where
  "is_external_flow ty \<longleftrightarrow> ty = Entry_deposit \<or> ty = Entry_withdrawal"

record equity_point =
  ep_at :: time
  ep_value :: money
  ep_deposits :: money

text \<open>The change of the series: the difference, and the text of the percentage where there is one.\<close>

record equity_result =
  er_points :: "equity_point list"
  er_absolute :: money
  er_percent :: "string option"

fun bar_duration_ms :: "candle_range \<Rightarrow> time" where
  "bar_duration_ms R1D = 5 * 60000"
| "bar_duration_ms R1W = 60 * 60000"
| "bar_duration_ms R1M = 24 * 60 * 60000"
| "bar_duration_ms R3M = 24 * 60 * 60000"
| "bar_duration_ms R1Y = 24 * 60 * 60000"
| "bar_duration_ms R5Y = 7 * 24 * 60 * 60000"

fun range_lookback_ms :: "candle_range \<Rightarrow> time" where
  "range_lookback_ms R1D = 1 * 24 * 60 * 60000"
| "range_lookback_ms R1W = 7 * 24 * 60 * 60000"
| "range_lookback_ms R1M = 31 * 24 * 60 * 60000"
| "range_lookback_ms R3M = 93 * 24 * 60 * 60000"
| "range_lookback_ms R1Y = 366 * 24 * 60 * 60000"
| "range_lookback_ms R5Y = 5 * 366 * 24 * 60 * 60000"

definition resolve_all_range :: "time \<Rightarrow> time \<Rightarrow> candle_range" where
  "resolve_all_range created now =
     (case find (\<lambda>r. range_lookback_ms r \<ge> now - created) [R1W, R1M, R3M, R1Y, R5Y] of
        Some r \<Rightarrow> r | None \<Rightarrow> R5Y)"

section \<open>Holdings\<close>

type_synonym holdings = "(string \<times> qty) list"

definition held_qty :: "holdings \<Rightarrow> string \<Rightarrow> qty" where
  "held_qty h s = case_option 0 id (map_of h s)"

definition hold :: "holdings \<Rightarrow> replay_fill \<Rightarrow> holdings result" where
  "hold h f =
     (let q = held_qty h (rf_symbol f)
      in ebind (if rf_side f = BUY then Inr (q + rf_qty f) else qty_subtract q (rf_qty f))
           (\<lambda>n. Inr (AList.update (rf_symbol f) n h)))"

fun hold_all :: "replay_fill list \<Rightarrow> holdings \<Rightarrow> holdings result" where
  "hold_all [] h = Inr h"
| "hold_all (f # fs) h = ebind (hold h f) (hold_all fs)"

text \<open>A \<open>Set\<close> keeps the first occurrence of each element.\<close>

definition involved_symbols :: "replay_fill list \<Rightarrow> time \<Rightarrow> string list result" where
  "involved_symbols fs window_start =
     ebind (hold_all fs []) (\<lambda>_.
     ebind (hold_all (takeWhile (\<lambda>f. rf_occurred f < window_start) fs) []) (\<lambda>held_now.
       Inr (rev (remdups (rev
         (map rf_symbol (filter (\<lambda>f. rf_occurred f \<ge> window_start) fs)
          @ map fst (filter (\<lambda>(s, q). q > 0) held_now)))))))"

section \<open>Candles and the grid\<close>

fun load_candles ::
    "(string \<Rightarrow> candle list result) \<Rightarrow> string list \<Rightarrow> (string \<times> candle list) list result" where
  "load_candles get [] = Inr []"
| "load_candles get (s # ss) =
     ebind (get s) (\<lambda>cs.
     ebind (ensure (cs \<noteq> []) ProviderUnavailable) (\<lambda>_.
     ebind (load_candles get ss) (\<lambda>rest. Inr ((s, cs) # rest))))"

definition candle_grid :: "(string \<times> candle list) list \<Rightarrow> time \<Rightarrow> time \<Rightarrow> time \<Rightarrow> time \<Rightarrow> time list" where
  "candle_grid cbs bar window_start created now =
     sort (remdups (filter (\<lambda>t. t \<ge> window_start - bar \<and> t + bar > created \<and> t + bar < now)
       (map cd_time (concat (map snd cbs)))))"

definition event_grid :: "ledger_amount list \<Rightarrow> time \<Rightarrow> time \<Rightarrow> time list" where
  "event_grid ls window_start now =
     sort (remdups (filter (\<lambda>t. t \<ge> window_start \<and> t < now) (map la_at ls)))"

text \<open>The closes of a symbol by bar start, and its seed price: the last close that ended by the first grid point.\<close>

fun index_candles :: "time \<Rightarrow> time \<Rightarrow> candle list \<Rightarrow> (time \<rightharpoonup> px) \<times> px option \<Rightarrow> ((time \<rightharpoonup> px) \<times> px option) result" where
  "index_candles bar first_end [] s = Inr s"
| "index_candles bar first_end (c # cs) (slots, seed) =
     ebind (px_from_string (cd_close c)) (\<lambda>p.
       index_candles bar first_end cs
         (slots(cd_time c \<mapsto> p), if cd_time c + bar \<le> first_end then Some p else seed))"

type_synonym close_table = "(string \<times> (time \<rightharpoonup> px)) list"

fun index_all ::
    "time \<Rightarrow> time \<Rightarrow> (string \<times> candle list) list \<Rightarrow> (close_table \<times> (string \<rightharpoonup> px)) result" where
  "index_all bar first_end [] = Inr ([], Map.empty)"
| "index_all bar first_end ((s, cs) # rest) =
     ebind (index_candles bar first_end cs (Map.empty, None)) (\<lambda>(slots, seed).
     ebind (index_all bar first_end rest) (\<lambda>(table, carry).
       Inr ((s, slots) # table, case seed of Some p \<Rightarrow> carry(s \<mapsto> p) | None \<Rightarrow> carry)))"

section \<open>The walk\<close>

definition close_at :: "close_table \<Rightarrow> string \<Rightarrow> time \<Rightarrow> px option" where
  "close_at table s b = (case map_of table s of None \<Rightarrow> None | Some slots \<Rightarrow> slots b)"

fun value_holdings ::
    "decimal_lib \<Rightarrow> close_table \<Rightarrow> time \<Rightarrow> holdings \<Rightarrow> money \<times> (string \<rightharpoonup> px) \<Rightarrow> (money \<times> (string \<rightharpoonup> px)) result" where
  "value_holdings D table b [] s = Inr s"
| "value_holdings D table b ((nm, q) # h) (v, carry) =
     (if q = 0 then value_holdings D table b h (v, carry)
      else case (case close_at table nm b of Some p \<Rightarrow> Some p | None \<Rightarrow> carry nm) of
             None \<Rightarrow> Inl ProviderUnavailable
           | Some p \<Rightarrow> value_holdings D table b h (v + notional D p q, carry(nm \<mapsto> p)))"

definition refresh_carry :: "close_table \<Rightarrow> time \<Rightarrow> (string \<rightharpoonup> px) \<Rightarrow> (string \<rightharpoonup> px)" where
  "refresh_carry table b carry = (\<lambda>s. case close_at table s b of Some p \<Rightarrow> Some p | None \<Rightarrow> carry s)"

record walk_state =
  ws_cash :: money
  ws_deposits :: money
  ws_ledger :: "ledger_amount list"
  ws_fills :: "replay_fill list"
  ws_book :: holdings
  ws_carry :: "string \<rightharpoonup> px"

definition amounts :: "ledger_amount list \<Rightarrow> money" where
  "amounts ls = sum_list (map la_amount ls)"

definition external :: "ledger_amount list \<Rightarrow> ledger_amount list" where
  "external ls = filter (\<lambda>e. is_external_flow (la_type e)) ls"

fun walk :: "decimal_lib \<Rightarrow> close_table \<Rightarrow> time \<Rightarrow> time list \<Rightarrow> walk_state \<Rightarrow> equity_point list result" where
  "walk D table bar [] w = Inr []"
| "walk D table bar (b # bs) w =
     (let cutoff = (if bar > 0 then b + bar else b + 1);
          due = takeWhile (\<lambda>e. la_at e < cutoff) (ws_ledger w);
          cash = ws_cash w + amounts due;
          deposits = ws_deposits w + amounts (external due)
      in ebind (hold_all (takeWhile (\<lambda>f. rf_occurred f < cutoff) (ws_fills w)) (ws_book w)) (\<lambda>book.
         ebind (value_holdings D table b book (cash, ws_carry w)) (\<lambda>(v, carry).
         ebind (walk D table bar bs
             \<lparr>ws_cash = cash, ws_deposits = deposits,
              ws_ledger = dropWhile (\<lambda>e. la_at e < cutoff) (ws_ledger w),
              ws_fills = dropWhile (\<lambda>f. rf_occurred f < cutoff) (ws_fills w),
              ws_book = book, ws_carry = refresh_carry table b carry\<rparr>) (\<lambda>points.
           Inr (\<lparr>ep_at = b + bar, ep_value = v, ep_deposits = deposits\<rparr> # points)))))"

record equity_input =
  ei_range :: candle_range
  ei_fills :: "replay_fill list"
  ei_ledger :: "ledger_amount list"
  ei_created :: time
  ei_now :: time
  ei_live :: money

definition window_start_of :: "equity_input \<Rightarrow> time" where
  "window_start_of i = max (ei_now i - range_lookback_ms (ei_range i)) (ei_created i)"

definition live_point :: "equity_input \<Rightarrow> equity_point" where
  "live_point i = \<lparr>ep_at = ei_now i, ep_value = ei_live i, ep_deposits = amounts (external (ei_ledger i))\<rparr>"

definition equity_series ::
    "decimal_lib \<Rightarrow> (string \<Rightarrow> candle list result) \<Rightarrow> equity_input \<Rightarrow> equity_result result" where
  "equity_series D get i =
     (let bar = bar_duration_ms (ei_range i); start = window_start_of i
      in ebind (involved_symbols (ei_fills i) start) (\<lambda>syms.
         ebind (load_candles get syms) (\<lambda>cbs.
           let cg = candle_grid cbs bar start (ei_created i) (ei_now i);
               (grid, grid_bar) = (if cg = [] then (event_grid (ei_ledger i) start (ei_now i), 0) else (cg, bar));
               first_end = (if grid = [] then 0 else hd grid + grid_bar)
           in ebind (index_all bar first_end cbs) (\<lambda>(table, carry).
              ebind (walk D table grid_bar grid
                  \<lparr>ws_cash = 0, ws_deposits = 0, ws_ledger = ei_ledger i, ws_fills = ei_fills i, ws_book = [],
                   ws_carry = carry\<rparr>) (\<lambda>points.
                let all = rev (dropWhile (\<lambda>p. ep_at p \<ge> ei_now i) (rev points)) @ [live_point i];
                    first = ep_value (hd all); final = ep_value (last all)
                in Inr \<lparr>er_points = all, er_absolute = final - first,
                        er_percent = percent_change D first final\<rparr>)))))"

end
