(* ===== verification/Equity_Series_Correct.thy ===== *)
theory Equity_Series_Correct
  imports Equity_Series
begin

text \<open>
  The correctness of \<^verbatim>\<open>src/core/portfolio/equity-series.ts\<close>: the single walk with its indices, its book and
  its carried prices computes, for every bar, what the account was worth at the end of the bar from the
  facts known by then, or fails.
\<close>

section \<open>The reference\<close>

text \<open>The last close of the candles that satisfy a predicate.\<close>

definition close_of :: "candle \<Rightarrow> px option" where
  "close_of c = (case px_from_string (cd_close c) of Inr p \<Rightarrow> Some p | Inl _ \<Rightarrow> None)"

definition last_close :: "(candle \<Rightarrow> bool) \<Rightarrow> candle list \<Rightarrow> px option" where
  "last_close P cs = (if filter P cs = [] then None else close_of (last (filter P cs)))"

text \<open>The price of a symbol at the end of the bar that starts at \<open>b\<close>: the close of its last bar so far.\<close>

definition known_close :: "(string \<Rightarrow> candle list result) \<Rightarrow> string \<Rightarrow> time \<Rightarrow> px option" where
  "known_close get s b =
     (case get s of Inl _ \<Rightarrow> None | Inr cs \<Rightarrow> last_close (\<lambda>c. cd_time c \<le> b) cs)"

definition bought :: "order_side \<Rightarrow> string \<Rightarrow> replay_fill list \<Rightarrow> qty" where
  "bought side s fs = sum_list (map rf_qty (filter (\<lambda>f. rf_symbol f = s \<and> rf_side f = side) fs))"

definition net_qty :: "string \<Rightarrow> replay_fill list \<Rightarrow> qty" where
  "net_qty s fs = bought BUY s fs - bought SELL s fs"

definition value_by ::
    "decimal_lib \<Rightarrow> (string \<Rightarrow> px option) \<Rightarrow> ledger_amount list \<Rightarrow> replay_fill list \<Rightarrow> money" where
  "value_by D price ls fs = amounts ls
     + (\<Sum>s \<in> rf_symbol ` set fs. if net_qty s fs = 0 then 0 else notional D (the (price s)) (net_qty s fs))"

text \<open>The worth of the account at an instant, with the prices known at the bar that ends there.\<close>

definition fills_before :: "equity_input \<Rightarrow> time \<Rightarrow> replay_fill list" where
  "fills_before i t = filter (\<lambda>f. rf_occurred f < t) (ei_fills i)"

definition ledger_before :: "equity_input \<Rightarrow> time \<Rightarrow> ledger_amount list" where
  "ledger_before i t = filter (\<lambda>e. la_at e < t) (ei_ledger i)"

definition bar_of :: "equity_input \<Rightarrow> time" where
  "bar_of i = bar_duration_ms (ei_range i)"

definition worth_at :: "decimal_lib \<Rightarrow> (string \<Rightarrow> candle list result) \<Rightarrow> equity_input \<Rightarrow> time \<Rightarrow> equity_point" where
  "worth_at D get i b =
     \<lparr>ep_at = b + bar_of i,
      ep_value = value_by D (\<lambda>s. known_close get s b) (ledger_before i (b + bar_of i)) (fills_before i (b + bar_of i)),
      ep_deposits = amounts (external (ledger_before i (b + bar_of i)))\<rparr>"

text \<open>The starts of the closed bars of the window, over the symbols that matter.\<close>

definition bar_starts :: "(string \<Rightarrow> candle list result) \<Rightarrow> equity_input \<Rightarrow> string list \<Rightarrow> time set" where
  "bar_starts get i syms =
     {t. (\<exists>s \<in> set syms. \<exists>cs. get s = Inr cs \<and> t \<in> cd_time ` set cs)
       \<and> window_start_of i - bar_of i \<le> t \<and> ei_created i < t + bar_of i \<and> t + bar_of i < ei_now i}"

section \<open>Holdings\<close>

lemma hold_all_append: "hold_all (xs @ ys) h = ebind (hold_all xs h) (hold_all ys)"
proof (induction xs arbitrary: h)
  case (Cons f xs)
  then show ?case by (cases "hold h f") simp_all
qed simp

lemma held_qty_update: "held_qty (AList.update s n h) s' = (if s' = s then n else held_qty h s')"
  by (simp add: held_qty_def update_conv)

lemma hold_all_qty:
  "hold_all fs h = Inr h' \<Longrightarrow>
    held_qty h' s + bought SELL s fs = held_qty h s + bought BUY s fs
    \<and> (distinct (map fst h) \<longrightarrow> distinct (map fst h'))
    \<and> set (map fst h') = set (map fst h) \<union> rf_symbol ` set fs"
proof (induction fs arbitrary: h)
  case Nil
  then show ?case by (simp add: bought_def)
next
  case (Cons f fs)
  from Cons.prems obtain n where
    n: "(if rf_side f = BUY then Inr (held_qty h (rf_symbol f) + rf_qty f) else qty_subtract (held_qty h (rf_symbol f)) (rf_qty f)) = Inr n"
    and rest: "hold_all fs (AList.update (rf_symbol f) n h) = Inr h'"
    by (auto simp: hold_def result_simps Let_def)
  have "rf_side f \<noteq> BUY \<Longrightarrow> rf_side f = SELL" by (cases "rf_side f") simp_all
  with Cons.IH[OF rest] n show ?case
    by (auto simp: bought_def held_qty_update qty_subtract_eq distinct_update dom_update image_iff split: if_splits)
qed

lemma hold_all_net: "hold_all fs [] = Inr h \<Longrightarrow> held_qty h s = net_qty s fs"
proof -
  assume "hold_all fs [] = Inr h"
  from hold_all_qty[OF this, of s] have "held_qty h s + bought SELL s fs = bought BUY s fs" by (simp add: held_qty_def)
  then show ?thesis by (simp add: net_qty_def)
qed

lemma hold_all_keys: "hold_all fs [] = Inr h \<Longrightarrow> distinct (map fst h) \<and> set (map fst h) = rf_symbol ` set fs"
  using hold_all_qty[of fs "[]" h] by simp

section \<open>Valuation\<close>

definition price_of :: "close_table \<Rightarrow> time \<Rightarrow> (string \<rightharpoonup> px) \<Rightarrow> string \<Rightarrow> px option" where
  "price_of table b carry s = (case close_at table s b of Some p \<Rightarrow> Some p | None \<Rightarrow> carry s)"

lemma value_holdings_sum:
  assumes "value_holdings D table b h (v, carry) = Inr (v', carry')" "distinct (map fst h)"
  shows "v' = v + sum_list (map (\<lambda>(s, q). if q = 0 then 0 else notional D (the (price_of table b carry s)) q) h)
    \<and> (\<forall>(s, q) \<in> set h. 0 < q \<longrightarrow> price_of table b carry s \<noteq> None)
    \<and> refresh_carry table b carry' = price_of table b carry"
  using assms
proof (induction h arbitrary: v carry)
  case Nil
  then show ?case by (auto simp: refresh_carry_def price_of_def)
next
  case (Cons sq h)
  obtain s q where sq: "sq = (s, q)" by (cases sq)
  show ?case
  proof (cases "q = 0")
    case True
    with Cons sq show ?thesis by simp
  next
    case False
    with Cons.prems(1) sq obtain p where p: "price_of table b carry s = Some p"
      and rest: "value_holdings D table b h (v + notional D p q, carry(s \<mapsto> p)) = Inr (v', carry')"
      by (auto simp: price_of_def split: option.splits)
    have same: "price_of table b (carry(s \<mapsto> p)) = price_of table b carry"
      using p by (auto simp: price_of_def fun_eq_iff split: option.splits)
    from Cons.IH[OF rest] Cons.prems(2) False sq p show ?thesis
      unfolding same by (auto simp: algebra_simps)
  qed
qed

lemma sum_holdings:
  assumes "distinct (map fst h)" "\<And>s q. (s, q) \<in> set h \<Longrightarrow> q = held_qty h s"
  shows "sum_list (map (\<lambda>(s, q). g s q) h) = (\<Sum>s \<in> set (map fst h). g s (held_qty h s) :: int)"
proof -
  have "map (\<lambda>(s, q). g s q) h = map (\<lambda>s. g s (held_qty h s)) (map fst h)"
    using assms(2) by (auto simp: case_prod_beta)
  then show ?thesis by (simp only: sum_list_distinct_conv_sum_set[OF assms(1)])
qed

lemma held_qty_in: "distinct (map fst h) \<Longrightarrow> (s, q) \<in> set h \<Longrightarrow> held_qty h s = q"
  by (simp add: held_qty_def)

section \<open>The index of the candles\<close>

lemma last_close_snoc: "last_close P (cs @ [c]) = (if P c then close_of c else last_close P cs)"
  by (simp add: last_close_def)

lemma index_candles_result:
  "index_candles bar fe cs (slots, seed) = Inr (slots', seed') \<Longrightarrow>
    (\<forall>t. slots' t = (if \<exists>c \<in> set cs. cd_time c = t then last_close (\<lambda>c. cd_time c = t) cs else slots t))
    \<and> seed' = (if \<exists>c \<in> set cs. cd_time c + bar \<le> fe then last_close (\<lambda>c. cd_time c + bar \<le> fe) cs else seed)
    \<and> (\<forall>c \<in> set cs. close_of c \<noteq> None)"
proof (induction cs arbitrary: slots seed)
  case (Cons c cs)
  from Cons.prems obtain p where p: "px_from_string (cd_close c) = Inr p"
    and rest: "index_candles bar fe cs (slots(cd_time c \<mapsto> p), if cd_time c + bar \<le> fe then Some p else seed) = Inr (slots', seed')"
    by (auto simp: result_simps)
  have cons: "last_close P (c # cs) = (if \<exists>x \<in> set cs. P x then last_close P cs else if P c then Some p else None)" for P
    using p by (auto simp: last_close_def close_of_def filter_empty_conv)
  from Cons.IH[OF rest] p show ?case
    by (auto simp: cons close_of_def)
qed auto

lemma index_all_result:
  assumes "index_all bar fe cbs = Inr (table, carry)" "distinct (map fst cbs)"
  shows "close_at table s b = (case map_of cbs s of None \<Rightarrow> None | Some cs \<Rightarrow> last_close (\<lambda>c. cd_time c = b) cs)"
    and "carry s = (case map_of cbs s of None \<Rightarrow> None | Some cs \<Rightarrow> last_close (\<lambda>c. cd_time c + bar \<le> fe) cs)"
  using assms
proof (induction cbs arbitrary: table carry)
  case (Cons x cbs)
  obtain n cs where x: "x = (n, cs)" by (cases x)
  have none: "\<not> (\<exists>c \<in> set cs. P c) \<Longrightarrow> last_close P cs = None" for P
    by (auto simp: last_close_def filter_empty_conv)
  {
    case 1
    then obtain slots seed table' carry' where i: "index_candles bar fe cs (Map.empty, None) = Inr (slots, seed)"
      "index_all bar fe cbs = Inr (table', carry')" "table = (n, slots) # table'"
      by (auto simp: x result_simps split: prod.splits option.splits)
    with Cons.IH(1)[OF i(2)] 1(2) index_candles_result[OF i(1)] none show ?case
      by (auto simp: x close_at_def)
  next
    case 2
    then obtain slots seed table' carry' where i: "index_candles bar fe cs (Map.empty, None) = Inr (slots, seed)"
      "index_all bar fe cbs = Inr (table', carry')"
      "carry = (case seed of Some p \<Rightarrow> carry'(n \<mapsto> p) | None \<Rightarrow> carry')"
      by (auto simp: x result_simps split: prod.splits)
    have "n \<notin> fst ` set cbs" using 2(2) by (simp add: x)
    then have "map_of cbs n = None" by (simp add: map_of_eq_None_iff)
    with i Cons.IH(2)[OF i(2)] 2(2) index_candles_result[OF i(1)] none show ?case
      by (auto simp: x split: option.splits)
  }
qed (simp_all add: close_at_def)

section \<open>Prices along the grid\<close>

lemma sorted_filter_split:
  assumes "sorted (map cd_time cs)" "\<forall>c \<in> set cs. p < cd_time c \<longrightarrow> cd_time c \<le> b \<longrightarrow> cd_time c = b" "p \<le> b"
  shows "filter (\<lambda>c. cd_time c \<le> b) cs = filter (\<lambda>c. cd_time c \<le> p) cs @ filter (\<lambda>c. cd_time c = b \<and> p < b) cs"
  using assms
proof (induction cs)
  case (Cons c cs)
  have rest: "filter (\<lambda>c. cd_time c \<le> b) cs = filter (\<lambda>c. cd_time c \<le> p) cs @ filter (\<lambda>c. cd_time c = b \<and> p < b) cs"
    using Cons by simp
  show ?case
  proof (cases "cd_time c \<le> p")
    case True
    with rest Cons.prems(3) show ?thesis by auto
  next
    case False
    with Cons.prems(1) have "filter (\<lambda>c. cd_time c \<le> p) cs = []" by (fastforce simp: filter_empty_conv)
    with rest False Cons.prems(2,3) show ?thesis by auto
  qed
qed simp

text \<open>From one grid point to the next, the last close is the one of the bar or the carried one.\<close>

lemma last_close_next:
  assumes "sorted (map cd_time cs)" "\<forall>c \<in> set cs. p < cd_time c \<longrightarrow> cd_time c \<le> b \<longrightarrow> cd_time c = b" "p \<le> b"
    and "\<forall>c \<in> set cs. close_of c \<noteq> None"
  shows "(case last_close (\<lambda>c. cd_time c = b) cs of Some x \<Rightarrow> Some x | None \<Rightarrow> last_close (\<lambda>c. cd_time c \<le> p) cs)
    = last_close (\<lambda>c. cd_time c \<le> b) cs"
proof (cases "p = b")
  case True
  have "last_close (\<lambda>c. cd_time c = b) cs = last_close (\<lambda>c. cd_time c \<le> b) cs" if "\<exists>c \<in> set cs. cd_time c = b"
  proof -
    have "filter (\<lambda>c. cd_time c \<le> b) cs = filter (\<lambda>c. cd_time c \<le> b - 1) cs @ filter (\<lambda>c. cd_time c = b) cs"
      using sorted_filter_split[OF assms(1), of "b - 1" b] by simp
    moreover have "filter (\<lambda>c. cd_time c = b) cs \<noteq> []" using that by (simp add: filter_empty_conv)
    ultimately show ?thesis by (simp add: last_close_def)
  qed
  moreover have "last_close (\<lambda>c. cd_time c = b) cs = None" if "\<not> (\<exists>c \<in> set cs. cd_time c = b)"
    using that by (auto simp: last_close_def filter_empty_conv)
  ultimately show ?thesis using True by (cases "\<exists>c \<in> set cs. cd_time c = b") (auto split: option.split)
next
  case False
  then have f: "filter (\<lambda>c. cd_time c \<le> b) cs = filter (\<lambda>c. cd_time c \<le> p) cs @ filter (\<lambda>c. cd_time c = b) cs"
    using sorted_filter_split[OF assms(1-3)] assms(3) by simp
  show ?thesis
  proof (cases "filter (\<lambda>c. cd_time c = b) cs = []")
    case True
    with f show ?thesis by (simp add: last_close_def)
  next
    case nonempty: False
    then have "last (filter (\<lambda>c. cd_time c = b) cs) \<in> set cs" using last_in_set by fastforce
    with assms(4) obtain x where "close_of (last (filter (\<lambda>c. cd_time c = b) cs)) = Some x" by auto
    with f nonempty show ?thesis by (simp add: last_close_def)
  qed
qed

section \<open>The walk\<close>

definition price_by :: "(string \<times> candle list) list \<Rightarrow> string \<Rightarrow> time \<Rightarrow> px option" where
  "price_by cbs s b = (case map_of cbs s of None \<Rightarrow> None | Some cs \<Rightarrow> last_close (\<lambda>c. cd_time c \<le> b) cs)"

lemma takeWhile_before:
  assumes "sorted (map k (ys :: 'a list))" "\<forall>x \<in> set xs. k x < (c :: int)"
  shows "xs @ takeWhile (\<lambda>x. k x < c) ys = filter (\<lambda>x. k x < c) (xs @ ys)"
proof -
  have "takeWhile (\<lambda>x. k x < c) ys = filter (\<lambda>x. k x < c) ys"
    using assms(1)
  proof (induction ys)
    case (Cons y ys)
    then show ?case by (cases "k y < c") (auto simp: filter_empty_conv[symmetric] intro!: filter_False[symmetric])
  qed simp
  with assms(2) show ?thesis by simp
qed

lemma sorted_map_dropWhile: "sorted (map k xs) \<Longrightarrow> sorted (map k (dropWhile P xs))"
  by (induction xs) simp_all

lemma amounts_append [simp]: "amounts (xs @ ys) = amounts xs + amounts ys"
  by (simp add: amounts_def)

lemma external_append [simp]: "external (xs @ ys) = external xs @ external ys"
  by (simp add: external_def)

text \<open>One value of the walk.\<close>

lemma value_holdings_by:
  assumes "value_holdings D table b h (amounts ls, carry) = Inr (v, carry')" "hold_all fs [] = Inr h"
    "price_of table b carry = price"
  shows "v = value_by D price ls fs" "refresh_carry table b carry' = price"
    "net_qty s fs \<noteq> 0 \<Longrightarrow> price s \<noteq> None"
proof -
  note k = hold_all_keys[OF assms(2)] and n = hold_all_net[OF assms(2)]
  note s = value_holdings_sum[OF assms(1) conjunct1[OF k], unfolded assms(3)]
  have "sum_list (map (\<lambda>(s, q). if q = 0 then 0 else notional D (the (price s)) q) h)
      = (\<Sum>s \<in> set (map fst h). if held_qty h s = 0 then 0 else notional D (the (price s)) (held_qty h s))"
    by (rule sum_holdings) (use k in \<open>auto simp: held_qty_in\<close>)
  with s k n show "v = value_by D price ls fs" by (simp add: value_by_def cong: if_cong)
  from s show "refresh_carry table b carry' = price" by simp
  assume "net_qty s fs \<noteq> 0"
  with n[of s] have "held_qty h s \<noteq> 0" by simp
  then have "(s, held_qty h s) \<in> set h" "0 < held_qty h s"
    by (auto simp: held_qty_def map_of_SomeD split: option.splits)
  with s show "price s \<noteq> None" by fastforce
qed

text \<open>
  The walk from the grid point \<open>p\<close> on, with what was taken so far: the ledger entries \<open>ls\<close>, the fills
  \<open>fs\<close> and the prices at \<open>p\<close>.
\<close>

lemma price_by_next:
  assumes cbs: "distinct (map fst cbs)"
    "\<And>s cs. (s, cs) \<in> set cbs \<Longrightarrow> sorted (map cd_time cs) \<and> (\<forall>c \<in> set cs. close_of c \<noteq> None)"
    and table: "\<And>s. close_at table s b =
      (case map_of cbs s of None \<Rightarrow> None | Some cs \<Rightarrow> last_close (\<lambda>c. cd_time c = b) cs)"
    and gap: "\<And>s cs c. (s, cs) \<in> set cbs \<Longrightarrow> c \<in> set cs \<Longrightarrow> p < cd_time c \<Longrightarrow> cd_time c \<le> b \<Longrightarrow> cd_time c = b"
    and "p \<le> b"
  shows "price_of table b (\<lambda>s. price_by cbs s p) = (\<lambda>s. price_by cbs s b)"
proof
  fix s
  show "price_of table b (\<lambda>s. price_by cbs s p) s = price_by cbs s b"
  proof (cases "map_of cbs s")
    case None
    then show ?thesis by (simp add: price_of_def price_by_def table)
  next
    case (Some cs)
    then have in_cbs: "(s, cs) \<in> set cbs" by (rule map_of_SomeD)
    with cbs(2) gap \<open>p \<le> b\<close> last_close_next[of cs p b] Some show ?thesis
      by (simp add: price_of_def price_by_def table cong: option.case_cong)
  qed
qed

definition point_of ::
    "decimal_lib \<Rightarrow> time \<Rightarrow> (string \<times> candle list) list \<Rightarrow> ledger_amount list \<Rightarrow> replay_fill list \<Rightarrow> time \<Rightarrow> equity_point" where
  "point_of D bar cbs L F b =
     \<lparr>ep_at = b + bar,
      ep_value = value_by D (\<lambda>s. price_by cbs s b) (filter (\<lambda>e. la_at e < b + bar) L) (filter (\<lambda>f. rf_occurred f < b + bar) F),
      ep_deposits = amounts (external (filter (\<lambda>e. la_at e < b + bar) L))\<rparr>"

definition priced_at ::
    "time \<Rightarrow> (string \<times> candle list) list \<Rightarrow> replay_fill list \<Rightarrow> time \<Rightarrow> bool" where
  "priced_at bar cbs F b \<longleftrightarrow>
     (\<forall>s. net_qty s (filter (\<lambda>f. rf_occurred f < b + bar) F) \<noteq> 0 \<longrightarrow> price_by cbs s b \<noteq> None)"

lemma walk_points:
  assumes "walk D table bar bs w = Inr pts" "0 < bar" "sorted bs" "distinct bs" "\<forall>b \<in> set bs. p \<le> b"
    and "ws_carry w = (\<lambda>s. price_by cbs s p)"
    and "ws_cash w = amounts ls" "ws_deposits w = amounts (external ls)"
    and "sorted (map la_at (ws_ledger w))" "\<forall>b \<in> set bs. \<forall>e \<in> set ls. la_at e < b + bar"
    and "hold_all fs [] = Inr (ws_book w)"
    and "sorted (map rf_occurred (ws_fills w))" "\<forall>b \<in> set bs. \<forall>f \<in> set fs. rf_occurred f < b + bar"
    and chain: "\<And>q b. q = p \<or> q \<in> set bs \<Longrightarrow> b \<in> set bs \<Longrightarrow> q \<le> b \<Longrightarrow> \<not> (\<exists>x \<in> set bs. q < x \<and> x < b) \<Longrightarrow>
      price_of table b (\<lambda>s. price_by cbs s q) = (\<lambda>s. price_by cbs s b)"
  shows "pts = map (point_of D bar cbs (ls @ ws_ledger w) (fs @ ws_fills w)) bs
    \<and> (\<forall>b \<in> set bs. priced_at bar cbs (fs @ ws_fills w) b)"
  using assms
proof (induction bs arbitrary: w p ls fs pts)
  case Nil
  then show ?case by simp
next
  case (Cons b bs)
  let ?due = "takeWhile (\<lambda>e. la_at e < b + bar) (ws_ledger w)"
  let ?done = "takeWhile (\<lambda>f. rf_occurred f < b + bar) (ws_fills w)"
  let ?later = "dropWhile (\<lambda>e. la_at e < b + bar) (ws_ledger w)"
  let ?rest = "dropWhile (\<lambda>f. rf_occurred f < b + bar) (ws_fills w)"
  from Cons.prems(1,2) obtain book v carry points where
    book: "hold_all ?done (ws_book w) = Inr book"
    and v: "value_holdings D table b book (ws_cash w + amounts ?due, ws_carry w) = Inr (v, carry)"
    and points: "walk D table bar bs
       \<lparr>ws_cash = ws_cash w + amounts ?due, ws_deposits = ws_deposits w + amounts (external ?due),
        ws_ledger = ?later, ws_fills = ?rest, ws_book = book, ws_carry = refresh_carry table b carry\<rparr> = Inr points"
    and pts: "pts = \<lparr>ep_at = b + bar, ep_value = v, ep_deposits = ws_deposits w + amounts (external ?due)\<rparr> # points"
    by (auto simp: result_simps Let_def split: prod.splits)
  have held: "hold_all (fs @ ?done) [] = Inr book"
    using Cons.prems(11) book by (simp add: hold_all_append)
  have v': "value_holdings D table b book (amounts (ls @ ?due), ws_carry w) = Inr (v, carry)"
    using v Cons.prems(7) by simp
  have below: "x \<in> set bs \<Longrightarrow> b < x" for x using Cons.prems(3,4) by (auto simp: less_le)
  then have "\<not> (\<exists>x \<in> set (b # bs). p < x \<and> x < b)" by fastforce
  with Cons.prems(5,6) Cons.prems(14)[of p b] have price: "price_of table b (ws_carry w) = (\<lambda>s. price_by cbs s b)"
    by simp
  note val = value_holdings_by[OF v' held price]
  have L: "ls @ ?due = filter (\<lambda>e. la_at e < b + bar) (ls @ ws_ledger w)"
    by (rule takeWhile_before) (use Cons.prems(9,10) in auto)
  have F: "fs @ ?done = filter (\<lambda>f. rf_occurred f < b + bar) (fs @ ws_fills w)"
    by (rule takeWhile_before) (use Cons.prems(12,13) in auto)
  have later: "sorted (map la_at ?later)" "sorted (map rf_occurred ?rest)"
    using Cons.prems(9,12) by (simp_all add: sorted_map_dropWhile)
  have early: "\<forall>x \<in> set bs. \<forall>e \<in> set (ls @ ?due). la_at e < x + bar"
    "\<forall>x \<in> set bs. \<forall>f \<in> set (fs @ ?done). rf_occurred f < x + bar"
    using below L F Cons.prems(10,13) by (force dest: set_takeWhileD)+
  have chain: "price_of table x (\<lambda>s. price_by cbs s q) = (\<lambda>s. price_by cbs s x)"
    if "q = b \<or> q \<in> set bs" "x \<in> set bs" "q \<le> x" "\<not> (\<exists>y \<in> set bs. q < y \<and> y < x)" for q x
    using that below Cons.prems(14)[of q x] by fastforce
  have "points = map (point_of D bar cbs (ls @ ws_ledger w) (fs @ ws_fills w)) bs
    \<and> (\<forall>b \<in> set bs. priced_at bar cbs (fs @ ws_fills w) b)"
    using Cons.IH[OF points, of b "ls @ ?due" "fs @ ?done"] Cons.prems(2,3,4,7,8) below val(2) later early held chain
    by (simp add: order_less_imp_le)
  then show ?case
    using pts val[unfolded L F] arg_cong[OF L, of "\<lambda>l. amounts (external l)"] Cons.prems(8)
    by (simp add: point_of_def priced_at_def)
qed

section \<open>The series\<close>

lemma load_candles_result:
  "load_candles get syms = Inr cbs \<Longrightarrow> map fst cbs = syms \<and> (\<forall>(s, cs) \<in> set cbs. get s = Inr cs)"
  by (induction syms arbitrary: cbs) (auto simp: result_simps)

lemma index_all_closes:
  "index_all bar fe cbs = Inr (table, carry) \<Longrightarrow> (s, cs) \<in> set cbs \<Longrightarrow> \<forall>c \<in> set cs. close_of c \<noteq> None"
proof (induction cbs arbitrary: table carry)
  case (Cons x cbs)
  obtain n ds where x: "x = (n, ds)" by (cases x)
  from Cons.prems(1) obtain slots seed table' carry' where
    "index_candles bar fe ds (Map.empty, None) = Inr (slots, seed)" "index_all bar fe cbs = Inr (table', carry')"
    by (auto simp: x result_simps split: prod.splits)
  with Cons.IH Cons.prems(2) index_candles_result[of bar fe ds Map.empty None slots seed] show ?case
    by (auto simp: x)
qed simp

lemma involved_distinct: "involved_symbols fs t = Inr syms \<Longrightarrow> distinct syms"
  by (auto simp: involved_symbols_def result_simps)

lemma candle_grid_bar_starts:
  assumes "load_candles get syms = Inr cbs"
  shows "candle_grid cbs (bar_of i) (window_start_of i) (ei_created i) (ei_now i) = sorted_list_of_set (bar_starts get i syms)"
proof -
  have r: "map fst cbs = syms" "\<forall>(s, cs) \<in> set cbs. get s = Inr cs" using load_candles_result[OF assms] by auto
  let ?g = "candle_grid cbs (bar_of i) (window_start_of i) (ei_created i) (ei_now i)"
  have "set ?g = bar_starts get i syms"
    using r by (fastforce simp: candle_grid_def bar_starts_def r(1)[symmetric])
  moreover have "sorted ?g" "distinct ?g" by (simp_all add: candle_grid_def)
  ultimately show ?thesis using sorted_list_of_set.idem_if_sorted_distinct by metis
qed

text \<open>What a successful series is made of, where there are bars to draw.\<close>

lemma equity_series_bars:
  assumes "equity_series D get i = Inr r" "involved_symbols (ei_fills i) (window_start_of i) = Inr syms"
    and "bar_starts get i syms \<noteq> {}"
  obtains cbs table carry pts where "load_candles get syms = Inr cbs"
    "index_all (bar_of i) (hd (sorted_list_of_set (bar_starts get i syms)) + bar_of i) cbs = Inr (table, carry)"
    "walk D table (bar_of i) (sorted_list_of_set (bar_starts get i syms))
       \<lparr>ws_cash = 0, ws_deposits = 0, ws_ledger = ei_ledger i, ws_fills = ei_fills i, ws_book = [], ws_carry = carry\<rparr> = Inr pts"
    "er_points r = rev (dropWhile (\<lambda>p. ep_at p \<ge> ei_now i) (rev pts)) @ [live_point i]"
    "finite (bar_starts get i syms)"
proof -
  from assms(1,2) obtain cbs where cbs: "load_candles get syms = Inr cbs"
    by (auto simp: equity_series_def Let_def result_simps)
  note g = candle_grid_bar_starts[OF cbs, of i]
  have "bar_starts get i syms \<subseteq> cd_time ` set (concat (map snd cbs))"
    using load_candles_result[OF cbs] by (force simp: bar_starts_def)
  then have fin: "finite (bar_starts get i syms)" by (rule finite_subset) simp
  with assms(3) have "sorted_list_of_set (bar_starts get i syms) \<noteq> []" by simp
  with assms(1,2) cbs g fin show thesis
    by (auto simp: equity_series_def Let_def result_simps bar_of_def[symmetric] split: prod.splits intro: that)
qed

lemma bar_pos: "0 < bar_of i"
  by (cases "ei_range i") (simp_all add: bar_of_def)

lemma walk_of_series:
  assumes series: "equity_series D get i = Inr r" "involved_symbols (ei_fills i) (window_start_of i) = Inr syms"
    and bars: "bar_starts get i syms \<noteq> {}"
    and asc: "\<forall>s \<in> set syms. \<forall>cs. get s = Inr cs \<longrightarrow> sorted (map cd_time cs)"
    and "sorted (map la_at (ei_ledger i))" "sorted (map rf_occurred (ei_fills i))"
  obtains cbs where "map fst cbs = syms" "\<forall>(s, cs) \<in> set cbs. get s = Inr cs"
    "er_points r = map (point_of D (bar_of i) cbs (ei_ledger i) (ei_fills i))
       (sorted_list_of_set (bar_starts get i syms)) @ [live_point i]"
    "\<forall>b \<in> bar_starts get i syms. priced_at (bar_of i) cbs (ei_fills i) b"
proof (rule equity_series_bars[OF series bars])
  let ?B = "bar_starts get i syms"
  let ?g = "sorted_list_of_set ?B"
  fix cbs table carry pts
  assume cbs: "load_candles get syms = Inr cbs"
    and index: "index_all (bar_of i) (hd ?g + bar_of i) cbs = Inr (table, carry)"
    and run: "walk D table (bar_of i) ?g
       \<lparr>ws_cash = 0, ws_deposits = 0, ws_ledger = ei_ledger i, ws_fills = ei_fills i, ws_book = [], ws_carry = carry\<rparr> = Inr pts"
    and all: "er_points r = rev (dropWhile (\<lambda>p. ep_at p \<ge> ei_now i) (rev pts)) @ [live_point i]"
    and fin: "finite ?B"
  have r: "map fst cbs = syms" "\<forall>(s, cs) \<in> set cbs. get s = Inr cs" using load_candles_result[OF cbs] by auto
  then have dist: "distinct (map fst cbs)" using involved_distinct[OF series(2)] by simp
  have cs: "sorted (map cd_time cs) \<and> (\<forall>c \<in> set cs. close_of c \<noteq> None)" if "(s, cs) \<in> set cbs" for s cs
    using that r asc index_all_closes[OF index that] by force
  have g: "set ?g = ?B" "?g \<noteq> []" using fin bars by simp_all
  have seed: "carry = (\<lambda>s. price_by cbs s (hd ?g))"
    using index_all_result(2)[OF index dist] by (simp add: price_by_def fun_eq_iff cong: option.case_cong)
  have chain: "price_of table b (\<lambda>s. price_by cbs s q) = (\<lambda>s. price_by cbs s b)"
    if q: "q \<in> ?B" "b \<in> ?B" "q \<le> b" "\<not> (\<exists>x \<in> ?B. q < x \<and> x < b)" for q b
  proof (rule price_by_next[OF dist cs])
    show "close_at table s b = (case map_of cbs s of None \<Rightarrow> None | Some cs \<Rightarrow> last_close (\<lambda>c. cd_time c = b) cs)" for s
      by (rule index_all_result(1)[OF index dist])
    fix s cs c assume c: "(s, cs) \<in> set cbs" "c \<in> set cs" "q < cd_time c" "cd_time c \<le> b"
    with r q(1,2) have "cd_time c \<in> ?B" by (force simp: bar_starts_def)
    with q(4) c(3,4) show "cd_time c = b" by auto
  qed (use q in auto)
  have hd: "hd ?g \<in> ?B" using g by (metis hd_in_set)
  have least: "\<forall>b \<in> set ?g. hd ?g \<le> b" 
    using g(2) sorted_sorted_list_of_set[of ?B] by (cases ?g) auto
  have chain': "price_of table b (\<lambda>s. price_by cbs s q) = (\<lambda>s. price_by cbs s b)"
    if "q = hd ?g \<or> q \<in> set ?g" "b \<in> set ?g" "q \<le> b" "\<not> (\<exists>x \<in> set ?g. q < x \<and> x < b)" for q b
    using chain[of q b] that hd by (auto simp: g(1))
  have pts: "pts = map (point_of D (bar_of i) cbs (ei_ledger i) (ei_fills i)) ?g
      \<and> (\<forall>b \<in> set ?g. priced_at (bar_of i) cbs (ei_fills i) b)"
    by (rule walk_points[OF run bar_pos _ _ least _ _ _ _ _ _ _ _ chain', of "[]" "[]",
        unfolded walk_state.simps append_Nil]) (simp_all add: amounts_def external_def seed assms(5,6))
  then have "\<forall>p \<in> set pts. ep_at p < ei_now i" using fin by (auto simp: point_of_def bar_starts_def)
  then have "dropWhile (\<lambda>p. ep_at p \<ge> ei_now i) (rev pts) = rev pts"
    by (cases pts rule: rev_cases) auto
  with all pts r fin that show thesis by simp
qed

lemma price_by_known: "\<forall>(s, cs) \<in> set cbs. get s = Inr cs \<Longrightarrow> price_by cbs s b \<noteq> None \<Longrightarrow>
    price_by cbs s b = known_close get s b \<and> s \<in> set (map fst cbs)"
  by (auto simp: price_by_def known_close_def dest!: map_of_SomeD split: option.splits intro: rev_image_eqI)

text \<open>
  C23: the chart's single walk is the plain computation. Where the window has closed bars, the points of the series
  are, bar by bar in ascending order and each bar once, the worth of the account at the END of the bar: the sum of
  the ledger entries before that instant plus, for each symbol, the net of the fills before it valued at the last
  close known by the bar; then the live point. The carried prices, the seed and the book never deviate from that.
\<close>

theorem series_is_worth:
  assumes "equity_series D get i = Inr r" "involved_symbols (ei_fills i) (window_start_of i) = Inr syms"
    and "bar_starts get i syms \<noteq> {}"
    and "\<forall>s \<in> set syms. \<forall>cs. get s = Inr cs \<longrightarrow> sorted (map cd_time cs)"
    and "sorted (map la_at (ei_ledger i))" "sorted (map rf_occurred (ei_fills i))"
  shows "er_points r = map (worth_at D get i) (sorted_list_of_set (bar_starts get i syms)) @ [live_point i]"
proof (rule walk_of_series[OF assms])
  fix cbs
  let ?g = "sorted_list_of_set (bar_starts get i syms)"
  assume cbs: "map fst cbs = syms" "\<forall>(s, cs) \<in> set cbs. get s = Inr cs"
    and all: "er_points r = map (point_of D (bar_of i) cbs (ei_ledger i) (ei_fills i)) ?g @ [live_point i]"
    and priced: "\<forall>b \<in> bar_starts get i syms. priced_at (bar_of i) cbs (ei_fills i) b"
  have "point_of D (bar_of i) cbs (ei_ledger i) (ei_fills i) b = worth_at D get i b" if "b \<in> bar_starts get i syms" for b
    using priced that price_by_known[OF cbs(2)]
    by (auto simp: point_of_def worth_at_def value_by_def priced_at_def fills_before_def ledger_before_def intro!: sum.cong)
  moreover have "set ?g \<subseteq> bar_starts get i syms"
    by (cases "finite (bar_starts get i syms)") simp_all
  ultimately show ?thesis using all by (auto simp: subset_iff)
qed

text \<open>
  nothing is fabricated. If the account holds a symbol at the end of some bar of the chart and no close of that
  symbol is known by that bar, the whole series fails: there is no chart that leaves the holding out.
\<close>

theorem unpriced_holding_fails:
  assumes "involved_symbols (ei_fills i) (window_start_of i) = Inr syms" "b \<in> bar_starts get i syms"
    and "\<forall>s \<in> set syms. \<forall>cs. get s = Inr cs \<longrightarrow> sorted (map cd_time cs)"
    and "sorted (map la_at (ei_ledger i))" "sorted (map rf_occurred (ei_fills i))"
    and "net_qty s (fills_before i (b + bar_of i)) \<noteq> 0" "known_close get s b = None"
  shows "\<exists>e. equity_series D get i = Inl e"
proof (cases "equity_series D get i")
  case (Inr r)
  have "bar_starts get i syms \<noteq> {}" using assms(2) by auto
  from walk_of_series[OF Inr assms(1) this assms(3-5)] obtain cbs where
    "\<forall>(s, cs) \<in> set cbs. get s = Inr cs" "priced_at (bar_of i) cbs (ei_fills i) b"
    using assms(2) by metis
  moreover from this have "price_by cbs s b \<noteq> None" using assms(6) by (simp add: priced_at_def fills_before_def)
  ultimately show ?thesis using price_by_known[of cbs get s b] assms(7) by simp
qed simp

section \<open>Witnesses\<close>

text \<open>A day of two bars: a buy in the second, a deposit before both.\<close>

definition demo_candle :: "time \<Rightarrow> px \<Rightarrow> candle" where
  "demo_candle t p = \<lparr>cd_time = t, cd_open = px_to_string p, cd_high = px_to_string p, cd_low = px_to_string p,
     cd_close = px_to_string p\<rparr>"

definition demo_closes :: "string \<Rightarrow> candle list result" where
  "demo_closes s = (if s = ''AAPL'' then Inr [demo_candle 300000 100000, demo_candle 600000 120000]
     else Inl ProviderUnavailable)"

definition demo_chart :: "time \<Rightarrow> equity_input" where
  "demo_chart t = \<lparr>ei_range = R1D,
     ei_fills = [\<lparr>rf_instrument = 1, rf_symbol = ''AAPL'', rf_side = BUY, rf_qty = 3, rf_notional = 3000, rf_fee = 0, rf_occurred = t\<rparr>],
     ei_ledger = [\<lparr>la_amount = 10000, la_type = Entry_deposit, la_at = 0\<rparr>,
       \<lparr>la_amount = - 3000, la_type = Entry_trade, la_at = t\<rparr>],
     ei_created = 0, ei_now = 1000000, ei_live = 10600\<rparr>"

lemma demo_syms: "involved_symbols (ei_fills (demo_chart 700000)) (window_start_of (demo_chart 700000)) = Inr [''AAPL'']"
  by code_simp

lemma demo_close [simp]: "0 < p \<Longrightarrow> px_from_string (cd_close (demo_candle t p)) = Inr p"
  by (simp add: demo_candle_def)

lemma demo_time [simp]: "cd_time (demo_candle t p) = t"
  by (simp add: demo_candle_def)

lemma demo_bars: "bar_starts demo_closes (demo_chart t) [''AAPL''] = {300000, 600000}"
  by (auto simp: bar_starts_def demo_closes_def window_start_of_def bar_of_def demo_chart_def)

lemma chart_load: "load_candles demo_closes [''AAPL''] = Inr [(''AAPL'', [demo_candle 300000 100000, demo_candle 600000 120000])]"
  by (simp add: demo_closes_def ensure_def)

lemma chart_grid:
  "candle_grid [(''AAPL'', [demo_candle 300000 100000, demo_candle 600000 120000])] 300000 (window_start_of (demo_chart t))
     (ei_created (demo_chart t)) (ei_now (demo_chart t)) = [300000, 600000]"
  by (simp add: candle_grid_def window_start_of_def demo_chart_def)

lemma chart_index:
  "index_all 300000 600000 [(''AAPL'', [demo_candle 300000 100000, demo_candle 600000 120000])]
     = Inr ([(''AAPL'', [300000 \<mapsto> 100000, 600000 \<mapsto> 120000])], [''AAPL'' \<mapsto> 100000])"
  by simp

lemma demo_walk:
  "\<exists>pts. walk js_decimal [(''AAPL'', [300000 \<mapsto> 100000, 600000 \<mapsto> 120000])] 300000 [300000, 600000]
     \<lparr>ws_cash = 0, ws_deposits = 0, ws_ledger = ei_ledger (demo_chart 700000), ws_fills = ei_fills (demo_chart 700000),
      ws_book = [], ws_carry = [''AAPL'' \<mapsto> 100000]\<rparr> = Inr pts"
  by (simp add: demo_chart_def Let_def hold_def held_qty_def close_at_def)

lemma demo_series: "\<exists>r. equity_series js_decimal demo_closes (demo_chart 700000) = Inr r"
proof -
  have "bar_duration_ms (ei_range (demo_chart 700000)) = 300000" by (simp add: demo_chart_def)
  with demo_walk show ?thesis
    by (auto simp: equity_series_def demo_syms Let_def chart_load chart_grid chart_index
        simp del: load_candles.simps index_all.simps walk.simps)
qed

theorem series_is_worth_witness:
  "\<exists>r. equity_series js_decimal demo_closes (demo_chart 700000) = Inr r
    \<and> er_points r = map (worth_at js_decimal demo_closes (demo_chart 700000)) [300000, 600000] @ [live_point (demo_chart 700000)]"
proof -
  obtain r where r: "equity_series js_decimal demo_closes (demo_chart 700000) = Inr r" using demo_series by blast
  have "sorted (map la_at (ei_ledger (demo_chart 700000)))" "sorted (map rf_occurred (ei_fills (demo_chart 700000)))"
    by (simp_all add: demo_chart_def)
  from series_is_worth[OF r demo_syms _ _ this] have
    "er_points r = map (worth_at js_decimal demo_closes (demo_chart 700000)) (sorted_list_of_set {300000, 600000})
      @ [live_point (demo_chart 700000)]"
    unfolding demo_bars by (simp add: demo_closes_def)
  with r show ?thesis by simp
qed

text \<open>Bought before the first bar closed, but the only close comes with the second bar.\<close>

definition late_closes :: "string \<Rightarrow> candle list result" where
  "late_closes s = (if s = ''AAPL'' then Inr [demo_candle 600000 120000]
     else if s = ''MSFT'' then Inr [demo_candle 300000 100000] else Inl ProviderUnavailable)"

definition late_chart :: equity_input where
  "late_chart = demo_chart 400000 \<lparr>ei_fills := ei_fills (demo_chart 400000) @
     [\<lparr>rf_instrument = 2, rf_symbol = ''MSFT'', rf_side = BUY, rf_qty = 1, rf_notional = 1000, rf_fee = 0, rf_occurred = 450000\<rparr>]\<rparr>"

lemma late_syms: "involved_symbols (ei_fills late_chart) (window_start_of late_chart) = Inr [''AAPL'', ''MSFT'']"
  by code_simp

theorem unpriced_holding_fails_witness: "\<exists>e. equity_series js_decimal late_closes late_chart = Inl e"
proof (rule unpriced_holding_fails[OF late_syms, of 300000])
  show "300000 \<in> bar_starts late_closes late_chart [''AAPL'', ''MSFT'']"
    by (auto simp: bar_starts_def late_closes_def window_start_of_def bar_of_def late_chart_def demo_chart_def)
  show "net_qty ''AAPL'' (fills_before late_chart (300000 + bar_of late_chart)) \<noteq> 0"
    by (simp add: net_qty_def bought_def fills_before_def bar_of_def late_chart_def demo_chart_def)
  show "known_close late_closes ''AAPL'' 300000 = None"
    by (simp add: known_close_def late_closes_def last_close_def)
qed (simp_all add: late_closes_def late_chart_def demo_chart_def)

end
