(* ===== verification/Instruments.thy ===== *)
theory Instruments
  imports Repositories Market_Data Js_Case
begin

text \<open>
  \<^verbatim>\<open>src/core/instruments/instruments.ts\<close> and \<^verbatim>\<open>src/infra/db/repositories/instruments.ts\<close>: the symbols that
  can be traded, registered on first sight, and the search. The market data provider is an argument: what
  its \<open>search\<close> and \<open>getQuote\<close> answer at the moment of the call; so is the collation of the database.
\<close>

record instrument_summary =
  is_symbol :: string
  is_name :: string
  is_exchange :: string

section \<open>The repository\<close>

text \<open>What \<open>ON CONFLICT DO UPDATE\<close> makes of a row that is there: placeholders never replace good data.\<close>

definition refreshed :: "instrument_summary \<Rightarrow> instrument \<Rightarrow> instrument" where
  "refreshed s i = i\<lparr>
     ins_name := (if is_name s \<noteq> to_upper (is_symbol s) then is_name s else ins_name i),
     ins_exchange := (if is_exchange s \<noteq> ''UNKNOWN'' then is_exchange s else ins_exchange i),
     ins_status := ''ACTIVE''\<rparr>"

definition upsert_instrument :: "instrument_summary \<Rightarrow> db \<Rightarrow> (instrument \<times> db) result" where
  "upsert_instrument s d =
     (let sym = to_upper (is_symbol s)
      in case find (\<lambda>i. ins_symbol i = sym) (instruments d) of
           Some i \<Rightarrow> Inr (refreshed s i, d\<lparr>instruments := modify (\<lambda>r. ins_symbol r = sym) (refreshed s) (instruments d)\<rparr>)
         | None \<Rightarrow>
             let i = \<lparr>ins_id = next_id d, ins_symbol = sym, ins_name = is_name s, ins_exchange = is_exchange s,
                   ins_status = ''ACTIVE''\<rparr>
             in Inr (i, d\<lparr>instruments := instruments d @ [i], next_id := next_id d + 1\<rparr>))"

definition get_by_symbol :: "db \<Rightarrow> string \<Rightarrow> instrument option" where
  "get_by_symbol d s = find (\<lambda>i. ins_symbol i = to_upper s) (instruments d)"

text \<open>\<open>LIKE\<close>: a percent sign stands for any text, an underscore for one character, a backslash escapes.\<close>

fun like :: "string \<Rightarrow> string \<Rightarrow> bool" where
  "like [] s = (s = [])"
| "like (p # ps) s =
     (if p = CHR ''%'' then like ps s \<or> (case s of [] \<Rightarrow> False | c # cs \<Rightarrow> like (p # ps) cs)
      else if p = CHR ''_'' then (case s of [] \<Rightarrow> False | c # cs \<Rightarrow> like ps cs)
      else if of_char p = (92 :: nat) then
        (case ps of [] \<Rightarrow> False
         | q # qs \<Rightarrow> (case s of [] \<Rightarrow> False | c # cs \<Rightarrow> c = q \<and> like qs cs))
      else (case s of [] \<Rightarrow> False | c # cs \<Rightarrow> c = p \<and> like ps cs))"

definition ilike :: "string \<Rightarrow> string \<Rightarrow> bool" where
  "ilike s pattern = like (to_lower pattern) (to_lower s)"

definition search_instruments :: "(string \<Rightarrow> nat list) \<Rightarrow> db \<Rightarrow> string \<Rightarrow> nat \<Rightarrow> instrument list" where
  "search_instruments collation d query limit =
     take limit
       (sort_key (\<lambda>i. (ins_symbol i \<noteq> to_upper query, \<not> ilike (ins_symbol i) (query @ ''%''), collation (ins_symbol i)))
         (filter (\<lambda>i. ins_status i = ''ACTIVE''
             \<and> (ilike (ins_symbol i) (query @ ''%'') \<or> ilike (ins_name i) (''%'' @ query @ ''%'')))
           (instruments d)))"

definition list_active_instruments :: "db \<Rightarrow> (string \<times> string) list" where
  "list_active_instruments d =
     map (\<lambda>i. (ins_symbol i, ins_name i)) (filter (\<lambda>i. ins_status i = ''ACTIVE'') (instruments d))"

section \<open>The service\<close>

fun upsert_all :: "instrument_summary list \<Rightarrow> db \<Rightarrow> (unit \<times> db) result" where
  "upsert_all [] d = Inr ((), d)"
| "upsert_all (s # ss) d = ebind (upsert_instrument s d) (\<lambda>(_, d1). upsert_all ss d1)"

definition instrument_search ::
    "(string \<Rightarrow> nat list) \<Rightarrow> (string \<Rightarrow> instrument_summary list result) \<Rightarrow> string \<Rightarrow> db \<Rightarrow> instrument list result \<times> db" where
  "instrument_search collation provider query d =
     (let q = js_trim query
      in if q = [] then (Inr [], d)
         else case provider q of
           Inl e \<Rightarrow> (Inl e, d)
         | Inr ss \<Rightarrow> run_tx (\<lambda>d. ebind (upsert_all ss d) (\<lambda>(_, d1). Inr (search_instruments collation d1 q 10, d1))) d)"

definition get_or_register :: "(string \<Rightarrow> quote result) \<Rightarrow> string \<Rightarrow> db \<Rightarrow> instrument result \<times> db" where
  "get_or_register quotes symbol d =
     (let sym = to_upper (js_trim symbol)
      in case get_by_symbol d sym of
           Some i \<Rightarrow> (Inr i, d)
         | None \<Rightarrow>
             (case quotes sym of
                Inl e \<Rightarrow> (Inl (if e = UnknownSymbol then AppError NOT_FOUND (Some UNKNOWN_SYMBOL) else e), d)
              | Inr _ \<Rightarrow> run_tx (upsert_instrument \<lparr>is_symbol = sym, is_name = sym, is_exchange = ''UNKNOWN''\<rparr>) d))"

section \<open>The table of symbols\<close>

text \<open>The check of the table, beside the unique index on the symbol.\<close>

definition symbols_upper :: "db \<Rightarrow> bool" where
  "symbols_upper d \<longleftrightarrow> list_all (\<lambda>i. to_upper (ins_symbol i) = ins_symbol i) (instruments d)"

text \<open>What a write of this component leaves alone.\<close>

definition instruments_only :: "db \<Rightarrow> db \<Rightarrow> bool" where
  "instruments_only d d' \<longleftrightarrow> d' = d\<lparr>instruments := instruments d', next_id := next_id d'\<rparr>
     \<and> set (map ins_id (instruments d)) \<subseteq> set (map ins_id (instruments d'))"

lemma instruments_only_refl [simp]: "instruments_only d d"
  by (simp add: instruments_only_def)

lemma instruments_only_trans: "instruments_only d d1 \<Longrightarrow> instruments_only d1 d2 \<Longrightarrow> instruments_only d d2"
  by (cases d, cases d1, cases d2) (auto simp: instruments_only_def)

lemma instruments_onlyD:
  assumes "instruments_only d d'"
  shows "orders d' = orders d" "accounts d' = accounts d" "order_events d' = order_events d" "fills d' = fills d"
    "positions d' = positions d" "ledger d' = ledger d" "transfers d' = transfers d" "broker_accounts d' = broker_accounts d"
proof -
  from assms obtain rows n where "d' = d\<lparr>instruments := rows, next_id := n\<rparr>"
    unfolding instruments_only_def by blast
  then show "orders d' = orders d" "accounts d' = accounts d" "order_events d' = order_events d" "fills d' = fills d"
    "positions d' = positions d" "ledger d' = ledger d" "transfers d' = transfers d" "broker_accounts d' = broker_accounts d"
    by simp_all
qed

lemma refreshed_keys [simp]: "ins_id (refreshed s i) = ins_id i" "ins_symbol (refreshed s i) = ins_symbol i"
  by (simp_all add: refreshed_def)

lemma upsert_instrument_succeeds: "\<exists>i d'. upsert_instrument s d = Inr (i, d')"
  by (simp add: upsert_instrument_def Let_def split: option.split)

lemma upsert_instrument_cases:
  assumes "upsert_instrument s d = Inr (i, d')"
  obtains (known) j where "j \<in> set (instruments d)" "ins_symbol j = to_upper (is_symbol s)" "i = refreshed s j"
    "find (\<lambda>i. ins_symbol i = to_upper (is_symbol s)) (instruments d) = Some j"
    "d' = d\<lparr>instruments := modify (\<lambda>r. ins_symbol r = to_upper (is_symbol s)) (refreshed s) (instruments d)\<rparr>"
  | (fresh) "\<forall>j \<in> set (instruments d). ins_symbol j \<noteq> to_upper (is_symbol s)" "ins_symbol i = to_upper (is_symbol s)"
    "ins_status i = ''ACTIVE''" "ins_id i = next_id d"
    "d' = d\<lparr>instruments := instruments d @ [i], next_id := next_id d + 1\<rparr>"
  using assms
  by (auto simp: upsert_instrument_def Let_def find_None_iff split: option.splits dest: find_Some_in_set)

lemma find_upserted:
  "find (\<lambda>i. ins_symbol i = k) rs = Some j \<Longrightarrow> find (\<lambda>i. ins_symbol i = k) (modify (\<lambda>r. ins_symbol r = k) (refreshed s) rs) = Some (refreshed s j)"
  by (induction rs) (auto split: if_splits)

lemma upsert_instrument_frame:
  assumes "upsert_instrument s d = Inr (i, d')"
  shows "instruments_only d d'" "get_by_symbol d' (is_symbol s) = Some i" "ins_status i = ''ACTIVE''"
proof -
  have "instruments_only d d' \<and> get_by_symbol d' (is_symbol s) = Some i \<and> ins_status i = ''ACTIVE''"
    using assms
  proof (cases rule: upsert_instrument_cases)
    case (known j)
    have "set (map ins_id (modify (\<lambda>r. ins_symbol r = to_upper (is_symbol s)) (refreshed s) (instruments d)))
        = set (map ins_id (instruments d))"
      by (simp only: map_modify[of _ ins_id] refreshed_keys)
    with known(3,5) find_upserted[OF known(4)] show ?thesis
      by (simp add: instruments_only_def get_by_symbol_def refreshed_def[of s j])
  next
    case fresh
    have "find (\<lambda>i. ins_symbol i = to_upper (is_symbol s)) (instruments d) = None"
      using fresh(1) by (auto simp: find_None_iff)
    with fresh show ?thesis by (auto simp: instruments_only_def get_by_symbol_def find_append)
  qed
  then show "instruments_only d d'" "get_by_symbol d' (is_symbol s) = Some i" "ins_status i = ''ACTIVE''" by auto
qed

lemma upsert_instrument_schema:
  assumes "upsert_instrument s d = Inr (i, d')" "schema_ok d" "symbols_upper d"
  shows "schema_ok d'" "symbols_upper d'"
proof -
  have "schema_ok d' \<and> symbols_upper d'"
    using assms(1)
  proof (cases rule: upsert_instrument_cases)
    case (known j)
    with assms(2,3) show ?thesis
      by (auto simp: schema_defs instruments_ok_def map_modify symbols_upper_def list_all_iff elim!: in_set_modifyE)
  next
    case fresh
    with assms(2,3) show ?thesis
      by (auto simp: schema_defs instruments_ok_def symbols_upper_def list_all_iff less_Suc_eq)
  qed
  then show "schema_ok d'" "symbols_upper d'" by auto
qed

lemma get_or_register_cases:
  assumes "get_or_register quotes symbol d = (r, d')"
  obtains (found) i where "r = Inr i" "d' = d" "get_by_symbol d (to_upper (js_trim symbol)) = Some i"
  | (unquoted) e where "r = Inl e" "d' = d"
  | (registered) i where "r = Inr i" "get_by_symbol d (to_upper (js_trim symbol)) = None"
    "upsert_instrument \<lparr>is_symbol = to_upper (js_trim symbol), is_name = to_upper (js_trim symbol),
       is_exchange = ''UNKNOWN''\<rparr> d = Inr (i, d')"
  using assms
proof (cases "get_by_symbol d (to_upper (js_trim symbol))")
  case None
  obtain i d1 where u: "upsert_instrument \<lparr>is_symbol = to_upper (js_trim symbol), is_name = to_upper (js_trim symbol),
       is_exchange = ''UNKNOWN''\<rparr> d = Inr (i, d1)" using upsert_instrument_succeeds by blast
  from None assms u unquoted registered show ?thesis
    by (auto simp: get_or_register_def Let_def split: sum.splits)
qed (auto simp: get_or_register_def Let_def)

lemma get_or_register_frame:
  assumes "get_or_register quotes symbol d = (r, d')"
  shows "instruments_only d d'" "schema_ok d \<Longrightarrow> symbols_upper d \<Longrightarrow> schema_ok d' \<and> symbols_upper d'"
  using assms
  by (cases rule: get_or_register_cases, auto dest: upsert_instrument_frame upsert_instrument_schema)+

text \<open>
  a symbol is resolved to one instrument for good. When a symbol was resolved, in whatever spelling, every later
  resolution of any spelling of it gives the same row and changes nothing, whether the provider quotes the symbol or
  not; the resolution writes no other table.
\<close>

theorem symbol_resolves_once:
  assumes "get_or_register quotes s d = (Inr i, d')" "to_upper (js_trim s') = to_upper (js_trim s)"
  shows "get_or_register quotes' s' d' = (Inr i, d') \<and> instruments_only d d'"
proof -
  have "get_by_symbol d' (to_upper (js_trim s)) = Some i"
    using assms(1)
  proof (cases rule: get_or_register_cases)
    case (registered j)
    with upsert_instrument_frame(2) show ?thesis by fastforce
  qed simp_all
  with assms get_or_register_frame(1)[OF assms(1)] show ?thesis by (simp add: get_or_register_def Let_def)
qed

theorem symbol_resolves_once_witness:
  "get_or_register (\<lambda>_. Inl ProviderUnavailable) '' aapl'' (snd (get_or_register (\<lambda>s. Inr demo_quote) ''AAPL'' (empty_db 7)))
     = (Inr \<lparr>ins_id = 0, ins_symbol = ''AAPL'', ins_name = ''AAPL'', ins_exchange = ''UNKNOWN'', ins_status = ''ACTIVE''\<rparr>,
        snd (get_or_register (\<lambda>s. Inr demo_quote) ''AAPL'' (empty_db 7)))"
proof -
  have t: "to_upper (js_trim '' aapl'') = ''AAPL''" "to_upper (js_trim ''AAPL'') = ''AAPL''" "to_upper ''AAPL'' = ''AAPL''"
    by code_simp+
  have r: "get_or_register (\<lambda>s. Inr demo_quote) ''AAPL'' (empty_db 7)
    = (Inr \<lparr>ins_id = 0, ins_symbol = ''AAPL'', ins_name = ''AAPL'', ins_exchange = ''UNKNOWN'', ins_status = ''ACTIVE''\<rparr>,
       snd (get_or_register (\<lambda>s. Inr demo_quote) ''AAPL'' (empty_db 7)))"
    by (simp add: get_or_register_def Let_def t get_by_symbol_def upsert_instrument_def empty_db_def run_tx_def)
  from symbol_resolves_once[OF r, of "'' aapl''"] t show ?thesis by simp
qed

section \<open>The search\<close>

definition plain_query :: "string \<Rightarrow> bool" where
  "plain_query q \<longleftrightarrow> list_all (\<lambda>c. c \<noteq> CHR ''%'' \<and> c \<noteq> CHR ''_'' \<and> of_char c \<noteq> (92 :: nat)) q"

lemma like_prefix: "plain_query q \<Longrightarrow> like (q @ ''%'') (q @ s)"
proof (induction q)
  case Nil
  have "like ''%'' s" by (induction s) simp_all
  then show ?case by simp
next
  case (Cons c q)
  then show ?case by (simp add: plain_query_def)
qed

lemma lower_plain: "plain_query q \<Longrightarrow> plain_query (to_lower q)"
proof (induction q)
  case (Cons c q)
  have "to_lower_char c = c \<or> 97 \<le> (of_char (to_lower_char c) :: nat) \<and> (of_char (to_lower_char c) :: nat) \<le> 122"
    by (auto simp: to_lower_char_def Let_def)
  with Cons show ?case by (auto simp: plain_query_def to_lower_def)
qed (simp add: plain_query_def to_lower_def)

lemma lower_upper: "to_lower (to_upper q) = to_lower q"
  by (auto simp: to_lower_def to_upper_def to_lower_char_def to_upper_char_def Let_def)

text \<open>
  the search puts the ticker that was typed first. An ACTIVE instrument whose symbol is the query, in any case,
  is the first result, whatever its name or the other matches; nothing that is not ACTIVE is ever listed, and no
  more rows than the limit.
\<close>

theorem exact_symbol_first:
  assumes "i \<in> set (instruments d)" "ins_symbol i = to_upper q" "ins_status i = ''ACTIVE''"
    and "instruments_ok (instruments d)" "plain_query q" "0 < limit"
  shows "hd (search_instruments collation d q limit) = i
    \<and> (\<forall>j \<in> set (search_instruments collation d q limit). ins_status j = ''ACTIVE'')
    \<and> length (search_instruments collation d q limit) \<le> limit"
proof -
  let ?key = "\<lambda>i. (ins_symbol i \<noteq> to_upper q, \<not> ilike (ins_symbol i) (q @ ''%''), collation (ins_symbol i))"
  let ?rows = "filter (\<lambda>i. ins_status i = ''ACTIVE'' \<and> (ilike (ins_symbol i) (q @ ''%'') \<or> ilike (ins_name i) (''%'' @ q @ ''%'')))
      (instruments d)"
  have search: "search_instruments collation d q limit = take limit (sort_key ?key ?rows)"
    by (simp add: search_instruments_def)
  have ne: "x \<in> set xs \<Longrightarrow> xs \<noteq> []" for x :: instrument and xs by (cases xs) simp_all
  have "ilike (ins_symbol i) (q @ ''%'')"
    using like_prefix[OF lower_plain[OF assms(5)], of "[]"]
    by (simp add: assms(2) ilike_def lower_upper, simp add: to_lower_def to_lower_char_def)
  with assms(1,3) have i: "i \<in> set (sort_key ?key ?rows)" by simp
  then have "sort_key ?key ?rows \<noteq> []" by (rule ne)
  then obtain y ys where y: "sort_key ?key ?rows = y # ys" unfolding neq_Nil_conv by blast
  have "sorted (map ?key (sort_key ?key ?rows))" by simp
  with y i have "?key y \<le> ?key i" by auto
  then have "ins_symbol y = to_upper q" by (auto simp: assms(2) less_eq_prod_def)
  moreover have "set (sort_key ?key ?rows) = set ?rows" by simp
  with y have "y \<in> set (instruments d)" by auto
  ultimately have "y = i"
    using assms(1,2,4) by (metis eq_key_imp_eq_value instruments_ok_def distinct_map inj_onD)
  then have "hd (search_instruments collation d q limit) = i" unfolding search y using assms(6) by (cases limit) simp_all
  moreover have "set (search_instruments collation d q limit) \<subseteq> set ?rows"
    using set_take_subset[of limit "sort_key ?key ?rows"] by (simp add: search)
  ultimately show ?thesis by (auto simp: search)
qed

definition demo_instruments :: "instrument list" where
  "demo_instruments =
     [\<lparr>ins_id = 1, ins_symbol = ''AA'', ins_name = ''Alcoa'', ins_exchange = ''NYSE'', ins_status = ''ACTIVE''\<rparr>,
      \<lparr>ins_id = 2, ins_symbol = ''A'', ins_name = ''Agilent'', ins_exchange = ''NYSE'', ins_status = ''ACTIVE''\<rparr>]"

lemma demo_upper: "to_upper ''a'' = ''A''"
  by code_simp

theorem exact_symbol_first_witness:
  "ins_name (hd (search_instruments (\<lambda>s. [length s]) ((empty_db 7)\<lparr>instruments := demo_instruments\<rparr>) ''a'' 10)) = ''Agilent''"
  using exact_symbol_first[of "demo_instruments ! 1" "(empty_db 7)\<lparr>instruments := demo_instruments\<rparr>" "''a''" 10 "\<lambda>s. [length s]"]
  by (simp add: demo_instruments_def instruments_ok_def plain_query_def demo_upper)

end
