(* ===== verification/Rate_Limit.thy ===== *)
theory Rate_Limit
  imports Shared "HOL-Library.AList"
begin

text \<open>
  \<^verbatim>\<open>src/server/api/rate-limit.ts\<close>: the fixed-window limiter of the mutating endpoints. The table of windows
  is a \<open>Map\<close> that is also iterated over, an association list; the clock is an argument.
\<close>

record rate_window =
  rw_start :: time
  rw_count :: nat

definition max_tracked_keys :: nat where "max_tracked_keys = 10000"

definition sweep_windows ::
    "time \<Rightarrow> time \<Rightarrow> (string \<times> rate_window) list \<Rightarrow> (string \<times> rate_window) list" where
  "sweep_windows width now ws =
     (if length ws > max_tracked_keys then filter (\<lambda>(k, v). \<not> now - rw_start v \<ge> width) ws else ws)"

definition enforce_rate_limit ::
    "string \<Rightarrow> nat \<Rightarrow> time \<Rightarrow> time \<Rightarrow> (string \<times> rate_window) list \<Rightarrow> unit result \<times> (string \<times> rate_window) list" where
  "enforce_rate_limit key maximum width now ws =
     (let ws1 = sweep_windows width now ws
      in case map_of ws1 key of
           None \<Rightarrow> (Inr (), AList.update key \<lparr>rw_start = now, rw_count = 1\<rparr> ws1)
         | Some e \<Rightarrow>
             if now - rw_start e \<ge> width then (Inr (), AList.update key \<lparr>rw_start = now, rw_count = 1\<rparr> ws1)
             else (ensure (rw_count e + 1 \<le> maximum) (AppError RATE_LIMITED None),
                   AList.update key \<lparr>rw_start = rw_start e, rw_count = rw_count e + 1\<rparr> ws1))"

text \<open>A run of calls, each with its key, its maximum and its time; the width is the same for all.\<close>

fun limit_run ::
    "time \<Rightarrow> (string \<times> nat \<times> time) list \<Rightarrow> (string \<times> rate_window) list \<Rightarrow> unit result list" where
  "limit_run width [] ws = []"
| "limit_run width ((k, m, t) # cs) ws =
     (case enforce_rate_limit k m width t ws of (r, ws') \<Rightarrow> r # limit_run width cs ws')"

definition call_time :: "string \<times> nat \<times> time \<Rightarrow> time" where
  "call_time c = snd (snd c)"

lemma call_time_simp [simp]: "call_time (k, m, t) = t"
  by (simp add: call_time_def)

section \<open>One key\<close>

text \<open>The reference: a limiter for one key, which remembers one window and never forgets it.\<close>

fun key_step :: "time \<Rightarrow> nat \<Rightarrow> time \<Rightarrow> rate_window option \<Rightarrow> bool \<times> rate_window" where
  "key_step width m t None = (True, \<lparr>rw_start = t, rw_count = 1\<rparr>)"
| "key_step width m t (Some e) =
     (if t - rw_start e \<ge> width then (True, \<lparr>rw_start = t, rw_count = 1\<rparr>)
      else (rw_count e + 1 \<le> m, \<lparr>rw_start = rw_start e, rw_count = rw_count e + 1\<rparr>))"

fun admitted :: "time \<Rightarrow> nat \<Rightarrow> time list \<Rightarrow> rate_window option \<Rightarrow> time list" where
  "admitted width m [] w = []"
| "admitted width m (t # ts) w =
     (case key_step width m t w of (b, w') \<Rightarrow> (if b then [t] else []) @ admitted width m ts (Some w'))"

text \<open>The calls of a key that went through.\<close>

fun passed :: "string \<Rightarrow> (string \<times> nat \<times> time) list \<Rightarrow> unit result list \<Rightarrow> time list" where
  "passed k ((k', m, t) # cs) (r # rs) = (if k' = k \<and> r = Inr () then [t] else []) @ passed k cs rs"
| "passed k _ _ = []"

text \<open>A window that has run out counts as no window.\<close>

definition live_window :: "time \<Rightarrow> time \<Rightarrow> rate_window option \<Rightarrow> rate_window option" where
  "live_window width t w = (case w of None \<Rightarrow> None | Some e \<Rightarrow> if t - rw_start e \<ge> width then None else Some e)"

lemma key_step_live: "key_step width m t (live_window width t w) = key_step width m t w"
  by (cases w) (auto simp: live_window_def)

lemma admitted_live:
  "\<forall>t \<in> set ts. t0 \<le> t \<Longrightarrow> live_window width t0 w = live_window width t0 w' \<Longrightarrow>
    admitted width m ts w = admitted width m ts w'"
proof (cases ts)
  case (Cons t ts')
  assume "\<forall>t \<in> set ts. t0 \<le> t" "live_window width t0 w = live_window width t0 w'"
  then have "live_window width t w = live_window width t w'"
    by (auto simp: live_window_def Cons split: option.splits if_splits)
  then have "key_step width m t w = key_step width m t w'" by (metis key_step_live)
  then show ?thesis by (simp add: Cons)
qed simp

lemma map_of_sweep:
  "distinct (map fst ws) \<Longrightarrow> live_window width t (map_of (sweep_windows width t ws) k) = live_window width t (map_of ws k)"
proof -
  assume d: "distinct (map fst ws)"
  have "map_of (filter (\<lambda>(k, v). P v) ws) k = (case map_of ws k of None \<Rightarrow> None | Some v \<Rightarrow> if P v then Some v else None)" for P
    using d by (induction ws) (auto simp: map_of_eq_None_iff split: option.splits)
  then show ?thesis by (auto simp: sweep_windows_def live_window_def split: option.splits)
qed

lemma distinct_sweep: "distinct (map fst ws) \<Longrightarrow> distinct (map fst (sweep_windows width t ws))"
  by (simp add: sweep_windows_def distinct_map_filter)

lemma enforce_step:
  assumes "enforce_rate_limit k m width t ws = (r, ws')" "distinct (map fst ws)"
  shows "distinct (map fst ws')"
    and "key_step width m t (map_of ws k) = (r = Inr (), the (map_of ws' k))" "map_of ws' k \<noteq> None"
    and "k' \<noteq> k \<Longrightarrow> live_window width t (map_of ws' k') = live_window width t (map_of ws k')"
proof -
  let ?ws1 = "sweep_windows width t ws"
  note d = distinct_sweep[OF assms(2), of width t]
  have e: "enforce_rate_limit k m width t ws =
      (case key_step width m t (map_of ?ws1 k) of (b, w) \<Rightarrow> (ensure b (AppError RATE_LIMITED None), AList.update k w ?ws1))"
    by (auto simp: enforce_rate_limit_def Let_def split: option.splits)
  have s: "key_step width m t (map_of ?ws1 k) = key_step width m t (map_of ws k)"
    by (metis key_step_live map_of_sweep[OF assms(2)])
  obtain b w where bw: "key_step width m t (map_of ws k) = (b, w)" by fastforce
  with e s assms(1) have r: "r = ensure b (AppError RATE_LIMITED None)" "ws' = AList.update k w ?ws1" by simp_all
  show "distinct (map fst ws')" using d by (simp add: r(2) distinct_update)
  show "key_step width m t (map_of ws k) = (r = Inr (), the (map_of ws' k))" "map_of ws' k \<noteq> None"
    by (simp_all add: bw r ensure_def update_conv)
  assume "k' \<noteq> k"
  then show "live_window width t (map_of ws' k') = live_window width t (map_of ws k')"
    using map_of_sweep[OF assms(2)] by (simp add: r(2) update_conv)
qed

text \<open>The calls of a key are decided as if the limiter served that key alone and never swept its table.\<close>

lemma passed_alone:
  assumes "sorted (map call_time cs)" "\<forall>(k', m', t) \<in> set cs. k' = k \<longrightarrow> m' = m" "distinct (map fst ws)"
  shows "passed k cs (limit_run width cs ws)
    = admitted width m (map call_time (filter (\<lambda>c. fst c = k) cs)) (map_of ws k)"
  using assms
proof (induction cs arbitrary: ws)
  case (Cons c cs)
  obtain k' m' t where c: "c = (k', m', t)" by (cases c)
  obtain r ws' where e: "enforce_rate_limit k' m' width t ws = (r, ws')" by fastforce
  note st = enforce_step[OF e Cons.prems(3)]
  have IH: "passed k cs (limit_run width cs ws')
    = admitted width m (map call_time (filter (\<lambda>c. fst c = k) cs)) (map_of ws' k)"
    using Cons.IH[of ws'] Cons.prems(1,2) st(1) by auto
  show ?case
  proof (cases "k' = k")
    case True
    with Cons.prems(2) c have "m' = m" by simp
    with True st(2,3) IH e show ?thesis by (auto simp: c)
  next
    case False
    have "\<forall>u \<in> set (map call_time (filter (\<lambda>c. fst c = k) cs)). t \<le> u"
      using Cons.prems(1) by (auto simp: c)
    from admitted_live[OF this st(4)] False IH show ?thesis by (simp add: c e)
  qed
qed simp

section \<open>The bound\<close>

definition in_span :: "time \<Rightarrow> time \<Rightarrow> time list \<Rightarrow> nat" where
  "in_span s width ts = length (filter (\<lambda>t. s \<le> t \<and> t < s + width) ts)"

lemma within_simps [simp]:
  "in_span s width [] = 0"
  "in_span s width (t # ts) = (if s \<le> t \<and> t < s + width then 1 else 0) + in_span s width ts"
  "in_span s width (ts @ us) = in_span s width ts + in_span s width us"
  by (simp_all add: in_span_def)

lemma admitted_subset: "set (admitted width m ts w) \<subseteq> set ts"
  by (induction ts arbitrary: w) (auto split: prod.splits)

lemma within_late: "\<forall>t \<in> set ts. s + width \<le> t \<Longrightarrow> in_span s width (admitted width m ts w) = 0"
  using admitted_subset[of width m ts w] by (fastforce simp: in_span_def filter_empty_conv)

lemma within_this_window:
  "sorted ts \<Longrightarrow> \<forall>t \<in> set ts. rw_start e \<le> t \<Longrightarrow> s \<le> rw_start e \<Longrightarrow>
    in_span s width (admitted width m ts (Some e)) \<le> m - rw_count e"
proof (induction ts arbitrary: e)
  case (Cons t ts)
  show ?case
  proof (cases "t - rw_start e \<ge> width")
    case True
    with Cons.prems have "\<forall>u \<in> set (t # ts). s + width \<le> u" by auto
    from within_late[OF this] show ?thesis by (simp only: le0)
  next
    case False
    have "in_span s width (admitted width m ts (Some \<lparr>rw_start = rw_start e, rw_count = rw_count e + 1\<rparr>))
        \<le> m - (rw_count e + 1)"
      using Cons.IH[of "\<lparr>rw_start = rw_start e, rw_count = rw_count e + 1\<rparr>"] Cons.prems by simp
    with False show ?thesis by auto
  qed
qed simp

lemma within_next_window:
  "sorted ts \<Longrightarrow> \<forall>t \<in> set ts. s \<le> t \<Longrightarrow> 0 < m \<Longrightarrow> in_span s width (admitted width m ts (Some e)) \<le> (m - rw_count e) + m"
proof (induction ts arbitrary: e)
  case (Cons t ts)
  show ?case
  proof (cases "t - rw_start e \<ge> width")
    case True
    have "in_span s width (admitted width m ts (Some \<lparr>rw_start = t, rw_count = 1\<rparr>)) \<le> m - 1"
      using within_this_window[of ts "\<lparr>rw_start = t, rw_count = 1\<rparr>" s] Cons.prems by simp
    with True Cons.prems(3) show ?thesis by (simp; linarith)
  next
    case False
    have "in_span s width (admitted width m ts (Some \<lparr>rw_start = rw_start e, rw_count = rw_count e + 1\<rparr>))
        \<le> (m - (rw_count e + 1)) + m"
      using Cons.IH[of "\<lparr>rw_start = rw_start e, rw_count = rw_count e + 1\<rparr>"] Cons.prems by simp
    with False show ?thesis by auto
  qed
qed simp

lemma within_bound:
  "sorted ts \<Longrightarrow> 0 < m \<Longrightarrow> in_span s width (admitted width m ts w) \<le> 2 * m"
proof (induction ts arbitrary: w)
  case (Cons t ts)
  show ?case
  proof (cases "s \<le> t")
    case True
    with Cons.prems(1) have after: "\<forall>u \<in> set (t # ts). s \<le> u" by auto
    show ?thesis
    proof (cases w)
      case None
      have "in_span s width (admitted width m ts (Some \<lparr>rw_start = t, rw_count = 1\<rparr>)) \<le> m - 1"
        using within_this_window[of ts "\<lparr>rw_start = t, rw_count = 1\<rparr>" s] Cons.prems True by simp
      with None Cons.prems(2) show ?thesis by auto
    next
      case (Some e)
      with within_next_window[OF Cons.prems(1) after Cons.prems(2), of width e] show ?thesis by simp
    qed
  next
    case False
    with Cons show ?thesis by (simp split: prod.splits)
  qed
qed simp

text \<open>
  the brake of the mutating endpoints. Whatever calls arrive for whatever keys, with the clock not going back,
  at most twice the maximum of a key's calls pass in any span of time as long as the window (the fixed window
  restarts inside the span at most once), whatever the table held and however often expired windows are swept.
\<close>

theorem rate_limit_bounds:
  assumes "sorted (map call_time cs)" "\<forall>(k', m', t) \<in> set cs. k' = k \<longrightarrow> m' = m" "0 < m" "distinct (map fst ws)"
  shows "in_span s width (passed k cs (limit_run width cs ws)) \<le> 2 * m"
proof -
  have "sorted (map call_time (filter (\<lambda>c. fst c = k) cs))" by (rule sorted_filter[OF assms(1)])
  from within_bound[OF this assms(3)] show ?thesis using passed_alone[OF assms(1,2,4)] by simp
qed

text \<open>Twice the maximum is reached: two calls at the end of a window, two more when the next one starts.\<close>

definition demo_calls :: "(string \<times> nat \<times> time) list" where
  "demo_calls = map (\<lambda>t. (''orders:1'', 2, t)) [0, 59, 60, 61, 62]"

theorem rate_limit_bounds_witness:
  "in_span 59 60 (passed ''orders:1'' demo_calls (limit_run 60 demo_calls [])) \<le> 4
   \<and> passed ''orders:1'' demo_calls (limit_run 60 demo_calls []) = [0, 59, 60, 61]"
proof -
  have "passed ''orders:1'' demo_calls (limit_run 60 demo_calls []) = [0, 59, 60, 61]" by code_simp
  with rate_limit_bounds[of demo_calls "''orders:1''" 2 "[]" 59 60] show ?thesis by (simp add: demo_calls_def)
qed

end
