(* ===== verification/Api_Orders.thy ===== *)
theory Api_Orders
  imports Instruments Rate_Limit Execution_Submit Reconciliation
begin

text \<open>
  \<^verbatim>\<open>src/server/api/orders.ts\<close>: the order endpoints, from the parsed request to the response, over the services.
  A handler works on the limiter's windows and on the world of the venue and the database; each transaction
  in it commits on its own. What the framework decides is an argument: whether a text is a UUID and which row it
  names, the JSON body (\<open>None\<close> when it does not have the shape), ISO dates, the quotes and the clock.
\<close>

type_synonym 'v site = "(string \<times> rate_window) list \<times> 'v \<times> db"

section \<open>Requests and responses\<close>

record place_body =
  pb_symbol :: string
  pb_side :: order_side
  pb_type :: order_type
  pb_qty :: int
  pb_limit :: "string option"
  pb_key :: string

definition is_letter :: "char \<Rightarrow> bool" where
  "is_letter c \<longleftrightarrow> (let n = of_char c :: nat in 65 \<le> n \<and> n \<le> 90 \<or> 97 \<le> n \<and> n \<le> 122)"

definition symbol_schema :: "string \<Rightarrow> bool" where
  "symbol_schema s \<longleftrightarrow> 1 \<le> length s \<and> length s \<le> 10 \<and> list_all (\<lambda>c. is_letter c \<or> c = CHR ''.'' \<or> c = CHR ''-'') s"

definition limit_price_schema :: "string \<Rightarrow> bool" where
  "limit_price_schema s \<longleftrightarrow> decimal_re False (\<lambda>n. n \<le> 10) (\<lambda>n. n \<le> 4) s
     \<and> list_ex (\<lambda>c. is_digit c \<and> c \<noteq> CHR ''0'') s"

definition place_order_schema :: "(string \<Rightarrow> uuid option) \<Rightarrow> place_body \<Rightarrow> bool" where
  "place_order_schema uuid_of b \<longleftrightarrow> symbol_schema (pb_symbol b) \<and> 0 < pb_qty b \<and> pb_qty b \<le> 1000000
     \<and> (case pb_limit b of None \<Rightarrow> True | Some s \<Rightarrow> limit_price_schema s) \<and> uuid_of (pb_key b) \<noteq> None"

record order_dto =
  od_id :: uuid
  od_account :: uuid
  od_symbol :: string
  od_side :: order_side
  od_type :: order_type
  od_tif :: time_in_force
  od_qty :: string
  od_limit :: "string option"
  od_state :: order_state
  od_display :: string
  od_filled :: string
  od_reserved :: string
  od_reject :: "string option"
  od_created :: string
  od_updated :: string

definition serialize_order :: "(time \<Rightarrow> string) \<Rightarrow> order \<Rightarrow> order_dto" where
  "serialize_order to_iso r = \<lparr>od_id = ord_id r, od_account = ord_account r, od_symbol = ord_symbol r, od_side = ord_side r,
     od_type = ord_type r, od_tif = ord_tif r, od_qty = qty_to_string (ord_qty r),
     od_limit = map_option px_to_string (ord_limit r), od_state = ord_state r, od_display = state_display (ord_state r),
     od_filled = qty_to_string (ord_filled r), od_reserved = money_to_string (ord_reserved r), od_reject = ord_reject r,
     od_created = to_iso (ord_created r), od_updated = to_iso (ord_updated r)\<rparr>"

record place_answer =
  pa_order :: order_dto
  pa_replayed :: bool
  pa_status :: nat

section \<open>Guards\<close>

definition require_active_account :: "db \<Rightarrow> uuid \<Rightarrow> account result" where
  "require_active_account d u = of_option (AppError DOMAIN_RULE (Some ACCOUNT_NOT_ACTIVE)) (get_active_for_user d u)"

definition require_owned_order :: "(string \<Rightarrow> uuid option) \<Rightarrow> uuid \<Rightarrow> string \<Rightarrow> db \<Rightarrow> order result" where
  "require_owned_order uuid_of u order_id d =
     ebind (of_option (AppError NOT_FOUND None) (uuid_of order_id)) (\<lambda>i.
     ebind (of_option (AppError NOT_FOUND None) (get_order d i)) (\<lambda>r.
       case get_account d (ord_account r) of
         None \<Rightarrow> Inl (AppError NOT_FOUND None)
       | Some a \<Rightarrow> if acc_user a \<noteq> u then Inl (AppError NOT_FOUND None) else Inr r))"

section \<open>Placing\<close>

definition reference_quote :: "(string \<Rightarrow> quote result) \<Rightarrow> place_body \<Rightarrow> instrument \<Rightarrow> px option result" where
  "reference_quote quotes b ins =
     (if pb_side b = BUY \<and> pb_type b = MARKET
      then ebind (quotes (ins_symbol ins)) (\<lambda>q. Inr (Some (case qt_ask q of Some p \<Rightarrow> p | None \<Rightarrow> qt_last q)))
      else Inr None)"

definition limit_of :: "place_body \<Rightarrow> px option result" where
  "limit_of b = (case pb_limit b of None \<Rightarrow> Inr None | Some s \<Rightarrow> ebind (px_from_string s) (\<lambda>p. Inr (Some p)))"

definition place_input :: "account \<Rightarrow> instrument \<Rightarrow> place_body \<Rightarrow> px option \<Rightarrow> px option \<Rightarrow> new_order" where
  "place_input a ins b limit ref = \<lparr>no_account = a, no_instrument = ins, no_side = pb_side b, no_type = pb_type b,
     no_qty = nat (pb_qty b), no_limit = limit, no_ref_price = ref, no_key = pb_key b\<rparr>"

text \<open>From the commit on: submit unless it was a replay, and answer with the order as it is now.\<close>

definition after_placing ::
    "decimal_lib \<Rightarrow> 'v broker \<Rightarrow> (time \<Rightarrow> string) \<Rightarrow> time \<Rightarrow> order \<times> bool \<Rightarrow> 'v \<times> db \<Rightarrow> place_answer \<times> ('v \<times> db)" where
  "after_placing D br to_iso now placed w =
     (let w1 = (if snd placed then w else snd (exec_submit D br now (ord_id (fst placed)) w));
          current = (case get_order (snd w1) (ord_id (fst placed)) of Some r \<Rightarrow> r | None \<Rightarrow> fst placed)
      in (\<lparr>pa_order = serialize_order to_iso current, pa_replayed = snd placed,
           pa_status = (if snd placed then 200 else 201)\<rparr>, w1))"

definition place_order ::
    "decimal_lib \<Rightarrow> place_config \<Rightarrow> 'v broker \<Rightarrow> (string \<Rightarrow> uuid option) \<Rightarrow> (time \<Rightarrow> string) \<Rightarrow> (string \<Rightarrow> quote result) \<Rightarrow> time
     \<Rightarrow> uuid \<Rightarrow> place_body option \<Rightarrow> 'v site \<Rightarrow> place_answer result \<times> 'v site" where
  "place_order D cfg br uuid_of to_iso quotes now u body s =
     (case s of (ws, v, d) \<Rightarrow>
      case enforce_rate_limit (''orders:'' @ show_nat u) 60 60000 now ws of
        (Inl e, ws1) \<Rightarrow> (Inl e, ws1, v, d)
      | (Inr _, ws1) \<Rightarrow>
     (case body of
        None \<Rightarrow> (Inl (AppError VALIDATION None), ws1, v, d)
      | Some b \<Rightarrow>
        if \<not> place_order_schema uuid_of b then (Inl (AppError VALIDATION None), ws1, v, d)
        else case require_active_account d u of
          Inl e \<Rightarrow> (Inl e, ws1, v, d)
        | Inr account \<Rightarrow>
     (case get_or_register quotes (pb_symbol b) d of
        (Inl e, d1) \<Rightarrow> (Inl e, ws1, v, d1)
      | (Inr ins, d1) \<Rightarrow>
     (case ebind (reference_quote quotes b ins) (\<lambda>ref. ebind (limit_of b) (\<lambda>limit. Inr (ref, limit))) of
        Inl e \<Rightarrow> (Inl e, ws1, v, d1)
      | Inr (ref, limit) \<Rightarrow>
     (case place D cfg (place_input account ins b limit ref) d1 of
        (Inl e, d2) \<Rightarrow> (Inl e, ws1, v, d2)
      | (Inr placed, d2) \<Rightarrow>
          (case after_placing D br to_iso now placed (v, d2) of (ans, w3) \<Rightarrow> (Inr ans, ws1, w3)))))))"

section \<open>Reading and cancelling\<close>

text \<open>The deterministic venue ticks while orders are polled; with another venue there is nothing to tick.\<close>

type_synonym 'v ticker = "('v \<times> db \<Rightarrow> unit result \<times> ('v \<times> db)) option"

definition tick_venue :: "'v ticker \<Rightarrow> 'v \<times> db \<Rightarrow> unit result \<times> ('v \<times> db)" where
  "tick_venue det w = (case det of None \<Rightarrow> (Inr (), w) | Some t \<Rightarrow> t w)"

definition list_orders_api ::
    "'v ticker \<Rightarrow> (time \<Rightarrow> string) \<Rightarrow> uuid \<Rightarrow> bool \<Rightarrow> 'v \<times> db \<Rightarrow> order_dto list result \<times> ('v \<times> db)" where
  "list_orders_api det to_iso u open_only w =
     (case require_active_account (snd w) u of
        Inl e \<Rightarrow> (Inl e, w)
      | Inr a \<Rightarrow> wbind (tick_venue det w) (\<lambda>_ w1.
          (Inr (map (serialize_order to_iso) (list_orders (snd w1) (acc_id a) open_only 100)), w1)))"

definition list_order_events :: "db \<Rightarrow> uuid \<Rightarrow> order_event list" where
  "list_order_events d i = filter (\<lambda>e. oe_order e = i) (order_events d)"

definition list_fills_for_order :: "db \<Rightarrow> uuid \<Rightarrow> fill list" where
  "list_fills_for_order d i = sort_key fl_occurred (filter (\<lambda>f. fl_order f = i) (fills d))"

definition order_detail ::
    "'v ticker \<Rightarrow> (string \<Rightarrow> uuid option) \<Rightarrow> (time \<Rightarrow> string) \<Rightarrow> uuid \<Rightarrow> string \<Rightarrow> 'v \<times> db
     \<Rightarrow> (order_dto \<times> order_event list \<times> fill list) result \<times> ('v \<times> db)" where
  "order_detail det uuid_of to_iso u order_id w =
     wbind (tick_venue det w) (\<lambda>_ w1.
       (ebind (require_owned_order uuid_of u order_id (snd w1)) (\<lambda>r.
          Inr (serialize_order to_iso r, list_order_events (snd w1) (ord_id r),
               list_fills_for_order (snd w1) (ord_id r))), w1))"

definition cancel_order_api ::
    "decimal_lib \<Rightarrow> 'v broker \<Rightarrow> (string \<Rightarrow> uuid option) \<Rightarrow> (time \<Rightarrow> string) \<Rightarrow> time \<Rightarrow> uuid \<Rightarrow> string \<Rightarrow> 'v \<times> db
     \<Rightarrow> order_dto result \<times> ('v \<times> db)" where
  "cancel_order_api D br uuid_of to_iso now u order_id w =
     (case require_owned_order uuid_of u order_id (snd w) of
        Inl e \<Rightarrow> (Inl e, w)
      | Inr r \<Rightarrow>
     (case run_tx (request_cancel D (ord_id r) now) (snd w) of
        (Inl e, d1) \<Rightarrow> (Inl e, fst w, d1)
      | (Inr cancelled, d1) \<Rightarrow>
          let (outcome, w2) = request_venue_cancel br (ord_id cancelled) (fst w, d1);
              w3 = (case outcome of
                      Inr c \<Rightarrow> if cr_accepted c then w2
                               else snd (reconcile_account_now D br now (ord_account cancelled) w2)
                    | Inl _ \<Rightarrow> w2);
              current = (case get_order (snd w3) (ord_id cancelled) of Some x \<Rightarrow> x | None \<Rightarrow> cancelled)
          in (Inr (serialize_order to_iso current), w3)))"

section \<open>What an endpoint answers\<close>

text \<open>The terms of an order, which nothing changes after it was placed.\<close>

definition order_terms ::
    "order \<Rightarrow> uuid \<times> uuid \<times> string \<times> uuid \<times> string \<times> order_side \<times> order_type \<times> qty \<times> px option" where
  "order_terms r = (ord_id r, ord_account r, ord_key r, ord_instrument r, ord_symbol r, ord_side r, ord_type r,
     ord_qty r, ord_limit r)"

definition terms_of :: "db \<Rightarrow> (uuid \<times> uuid \<times> string \<times> uuid \<times> string \<times> order_side \<times> order_type \<times> qty \<times> px option) list" where
  "terms_of d = map order_terms (orders d)"

lemma terms_transition:
  assumes "apply_transition D ord ev d = Inr (out, d')" "get_order d (ord_id ord) = Some ord"
  shows "terms_of d' = terms_of d"
  using assms by (cases rule: apply_transition_cases) (simp_all add: terms_of_def map_modify order_terms_def)

lemma terms_event:
  assumes "event_tx D ev d = Inr (u, d')"
  shows "terms_of d' = terms_of d"
  using assms
proof (cases rule: event_tx_cases)
  case (moved ord r)
  from terms_transition[OF moved(3) get_order_self[OF moved(1)]] show ?thesis .
next
  case (filled ord r d1)
  from filled(4) have "orders d' = orders d1" by (cases rule: fill_effects_shape) simp
  with terms_transition[OF filled(3) get_order_self[OF filled(1)]] show ?thesis by (simp add: terms_of_def)
qed simp

lemma terms_deliver: "terms_of (deliver D ev d) = terms_of d"
  by (cases rule: deliver_cases[of D ev d]) (auto simp: terms_event)

lemma terms_history: "terms_of (fold (deliver D) es d) = terms_of d"
  by (induction es arbitrary: d) (simp_all add: terms_deliver)

lemma terms_submit_failed: "terms_of (snd (run_tx (submit_failed_tx D k t i) d)) = terms_of d"
proof (cases "submit_failed_tx D k t i d")
  case (Inr x)
  obtain u d' where x: "x = (u, d')" by (cases x)
  from Inr x obtain ord where g: "get_order d i = Some ord"
    by (auto simp: submit_failed_tx_def lock_order_def result_simps)
  from terms_transition[OF _ get_order_self[OF g]] Inr x show ?thesis
    by (auto simp: submit_failed_tx_def lock_order_def g result_simps run_tx_def)
qed (simp add: run_tx_def)

lemma find_same_terms:
  "map order_terms xs = map order_terms ys \<Longrightarrow>
    map_option order_terms (find (\<lambda>r. ord_id r = i) xs) = map_option order_terms (find (\<lambda>r. ord_id r = i) ys)"
proof (induction xs arbitrary: ys)
  case (Cons x xs)
  then obtain y zs where y: "ys = y # zs" "order_terms x = order_terms y" "map order_terms xs = map order_terms zs"
    by (cases ys) auto
  then have "ord_id x = ord_id y" by (simp add: order_terms_def)
  with Cons.IH[OF y(3)] y show ?case by simp
qed simp

lemma get_order_same_terms:
  assumes "terms_of d' = terms_of d" "get_order d i = Some r"
  obtains r' where "get_order d' i = Some r'" "order_terms r' = order_terms r"
  using find_same_terms[of "orders d'" "orders d" i] assms that by (auto simp: terms_of_def get_order_def)

context venue_port begin

lemma terms_submit: "exec_submit D br now i (v, d) = (x, (v', d')) \<Longrightarrow> terms_of d' = terms_of d"
  by (erule submit_effect) (simp_all add: terms_history terms_submit_failed)

lemma after_placing_answer:
  assumes "after_placing D br to_iso now (r0, b) (v, d) = (ans, v', d')" "get_order d (ord_id r0) = Some r0"
  obtains r where "r \<in> set (orders d')" "order_terms r = order_terms r0" "terms_of d' = terms_of d"
    "ans = \<lparr>pa_order = serialize_order to_iso r, pa_replayed = b, pa_status = (if b then 200 else 201)\<rparr>"
proof -
  obtain x v1 d1 where e: "exec_submit D br now (ord_id r0) (v, d) = (x, (v1, d1))" by (metis prod.collapse)
  have t: "terms_of d' = terms_of d"
    using assms(1) terms_submit[OF e] by (auto simp: after_placing_def Let_def e split: if_splits)
  from get_order_same_terms[OF t assms(2)] obtain r where
    r: "get_order d' (ord_id r0) = Some r" "order_terms r = order_terms r0" by blast
  with assms(1) have "ans = \<lparr>pa_order = serialize_order to_iso r, pa_replayed = b, pa_status = (if b then 200 else 201)\<rparr>"
    by (auto simp: after_placing_def Let_def e split: if_splits)
  with get_order_Some[OF r(1)] r(2) t that show thesis by blast
qed

end

lemma place_order_cases:
  assumes "place_order D cfg br uuid_of to_iso quotes now u body (ws, v, d) = (res, ws', v', d')"
  obtains (refused) e where "res = Inl e" "v' = v" "instruments_only d d'"
  | (placed) b a ins ref limit r0 rep d1 d2 ans where "body = Some b" "place_order_schema uuid_of b"
      "get_active_for_user d u = Some a" "get_or_register quotes (pb_symbol b) d = (Inr ins, d1)"
      "reference_quote quotes b ins = Inr ref" "limit_of b = Inr limit"
      "place D cfg (place_input a ins b limit ref) d1 = (Inr (r0, rep), d2)"
      "after_placing D br to_iso now (r0, rep) (v, d2) = (ans, v', d')" "res = Inr ans"
proof -
  obtain lr ws1 where rl: "enforce_rate_limit (''orders:'' @ show_nat u) 60 60000 now ws = (lr, ws1)" by fastforce
  show thesis
  proof (cases "lr = Inr () \<and> (\<exists>b. body = Some b \<and> place_order_schema uuid_of b) \<and> get_active_for_user d u \<noteq> None")
    case False
    with assms rl show thesis
      by (intro refused[where e = "projl res"])
         (auto simp: place_order_def require_active_account_def of_option_def split: sum.splits option.splits if_splits)
  next
    case True
    then obtain b a where b: "lr = Inr ()" "body = Some b" "place_order_schema uuid_of b" "get_active_for_user d u = Some a" by auto
    obtain ri d1 where g: "get_or_register quotes (pb_symbol b) d = (ri, d1)" by fastforce
    note only = get_or_register_frame(1)[OF g]
    show thesis
    proof (cases ri)
      case (Inl e)
      with assms rl b g only show thesis
        by (intro refused[of e]) (auto simp: place_order_def require_active_account_def)
    next
      case (Inr ins)
      show thesis
      proof (cases "ebind (reference_quote quotes b ins) (\<lambda>ref. ebind (limit_of b) (\<lambda>limit. Inr (ref, limit)))")
        case (Inl e)
        with assms rl b g Inr only show thesis
          by (intro refused[of e]) (auto simp: place_order_def require_active_account_def)
      next
        case rlim: (Inr p)
        then obtain ref limit where p: "reference_quote quotes b ins = Inr ref" "limit_of b = Inr limit"
          by (auto simp: result_simps)
        obtain rp d2 where pl: "place D cfg (place_input a ins b limit ref) d1 = (rp, d2)" by fastforce
        show thesis
        proof (cases rp)
          case (Inl e)
          with pl have "d2 = d1" by (auto simp: place_def run_tx_def split: sum.splits prod.splits)
          with assms rl b g Inr p pl Inl only show thesis
            by (intro refused[of e]) (auto simp: place_order_def require_active_account_def)
        next
          case ok: (Inr placed)
          obtain r0 rep where "placed = (r0, rep)" by fastforce
          moreover obtain ans v3 d3 where "after_placing D br to_iso now placed (v, d2) = (ans, v3, d3)" by (metis prod.collapse)
          ultimately show thesis
            using assms rl b g Inr p pl ok
            by (intro placed[of b a ins d1 ref limit r0 rep d2 ans])
               (auto simp: place_order_def require_active_account_def)
        qed
      qed
    qed
  qed
qed

text \<open>
  an order request that is answered with an error placed nothing. Whatever made it fail (the rate limit, the
  body, the account, the symbol, the price, the means), no order, fill, position, ledger row, transfer or account
  was touched and the venue was not asked; a failure of the venue after the order was committed is never an error.
\<close>

theorem failed_request_places_nothing:
  assumes "place_order D cfg br uuid_of to_iso quotes now u body (ws, v, d) = (Inl e, ws', v', d')"
  shows "v' = v \<and> instruments_only d d'"
  using assms by (cases rule: place_order_cases) simp_all

text \<open>
  the answer to an order request describes what was committed. It is an order of the active account of the user
  under the request's idempotency key, as it stands in the database at the end; with status 201 exactly this
  order was added, with the terms of the request, and with status 200 (a replay) none was added.
\<close>

theorem placement_answer_is_committed:
  assumes "venue_port br D" "schema_ok d" "symbols_upper d"
    and run: "place_order D cfg br uuid_of to_iso quotes now u (Some b) (ws, v, d) = (Inr ans, ws', v', d')"
  shows "\<exists>a r. get_active_for_user d u = Some a \<and> r \<in> set (orders d') \<and> pa_order ans = serialize_order to_iso r
    \<and> ord_account r = acc_id a \<and> ord_key r = pb_key b
    \<and> (pa_status ans = 201 \<and> terms_of d' = terms_of d @ [order_terms r]
         \<and> ord_side r = pb_side b \<and> ord_type r = pb_type b \<and> int (ord_qty r) = pb_qty b
       \<or> pa_status ans = 200 \<and> terms_of d' = terms_of d)"
  using run
proof (cases rule: place_order_cases)
  case (placed b' a ins ref limit r0 rep d1 d2 ans')
  then have b: "b' = b" "ans' = ans" by simp_all
  let ?inp = "place_input a ins b limit ref"
  note frame = get_or_register_frame[OF placed(4)]
  from placed(7) b have tx: "place_tx D cfg ?inp d1 = Inr ((r0, rep), d2)"
    by (auto simp: place_def run_tx_def split: sum.splits)
  from frame(2)[OF assms(2,3)] have s1: "schema_ok d1" by simp
  have s2: "schema_ok d2" by (rule schema_place_tx[OF tx s1])
  have same: "terms_of d1 = terms_of d" "accounts d1 = accounts d"
    using instruments_onlyD[OF frame(1)] by (simp_all add: terms_of_def)
  from tx have order: "r0 \<in> set (orders d2) \<and> ord_account r0 = acc_id a \<and> ord_key r0 = pb_key b
      \<and> (if rep then terms_of d2 = terms_of d1 else terms_of d2 = terms_of d1 @ [order_terms r0]
           \<and> ord_side r0 = pb_side b \<and> ord_type r0 = pb_type b \<and> ord_qty r0 = nat (pb_qty b))"
  proof (cases rule: place_tx_cases)
    case (replay x)
    from replay(3) have "acc_id x = acc_id a" by (auto simp: place_input_def dest: get_account_Some)
    with replay show ?thesis by (auto simp: find_order_key_def place_input_def dest: find_Some_in_set)
  next
    case (placed x m)
    from insert_order_Some[OF placed(6)] placed(1) show ?thesis by (simp add: place_input_def terms_of_def)
  qed
  then have "get_order d2 (ord_id r0) = Some r0" using order_key_unique[OF s2] by (simp add: get_order_def)
  from venue_port.after_placing_answer[OF assms(1) placed(8) this] obtain r where
    r: "r \<in> set (orders d')" "order_terms r = order_terms r0" "terms_of d' = terms_of d2"
    "ans' = \<lparr>pa_order = serialize_order to_iso r, pa_replayed = rep, pa_status = (if rep then 200 else 201)\<rparr>" by blast
  have "0 < pb_qty b" using placed(2) b by (simp add: place_order_schema_def)
  with r order same placed(3) b show ?thesis by (intro exI[of _ a] exI[of _ r]) (auto simp: order_terms_def)
qed simp

text \<open>
  orders of other users do not exist for a session. A request to cancel or to look at an order that is malformed,
  unknown or belongs to an account of another user is answered NOT_FOUND, the same in all three cases, and nothing
  is changed in the database or at the venue.
\<close>

theorem foreign_order_hidden:
  assumes "\<And>i r a. uuid_of order_id = Some i \<Longrightarrow> get_order d i = Some r \<Longrightarrow> get_account d (ord_account r) = Some a \<Longrightarrow> acc_user a \<noteq> u"
  shows "cancel_order_api D br uuid_of to_iso now u order_id (v, d) = (Inl (AppError NOT_FOUND None), v, d)
    \<and> order_detail None uuid_of to_iso u order_id (v, d) = (Inl (AppError NOT_FOUND None), v, d)"
proof -
  have "require_owned_order uuid_of u order_id d = Inl (AppError NOT_FOUND None)"
    using assms by (auto simp: require_owned_order_def of_option_def split: option.splits)
  then show ?thesis by (simp add: cancel_order_api_def order_detail_def tick_venue_def)
qed

section \<open>Witnesses\<close>

text \<open>A venue that takes every order and reports later.\<close>

definition slip_venue :: "unit broker" where
  "slip_venue = \<lparr>br_kind = DETERMINISTIC, br_submit = (\<lambda>rq w. (Inr \<lparr>sr_broker_order = ''b1'', sr_duplicate = False\<rparr>, w)),
     br_cancel = (\<lambda>a i w. (Inr \<lparr>cr_accepted = False, cr_reason = None\<rparr>, w)), br_get_order = (\<lambda>a i w. (Inr None, w))\<rparr>"

interpretation slip: venue_port slip_venue D for D
  by unfold_locales (auto simp: slip_venue_def intro: exI[of _ "[]"])

definition demo_body :: place_body where
  "demo_body = \<lparr>pb_symbol = ''AAPL'', pb_side = BUY, pb_type = LIMIT, pb_qty = 4, pb_limit = Some (px_to_string 2000000),
     pb_key = ''k1''\<rparr>"

definition demo_uuid :: "string \<Rightarrow> uuid option" where
  "demo_uuid s = (if s = ''k1'' then Some 1 else if s = ''3'' then Some 3 else None)"

lemma demo_symbol: "to_upper (js_trim ''AAPL'') = ''AAPL''" "to_upper ''AAPL'' = ''AAPL''"
  by code_simp+

lemma demo_schema: "place_order_schema demo_uuid demo_body"
proof -
  have "symbol_schema ''AAPL''" by code_simp
  moreover have "digit_char 2 \<noteq> CHR ''0''" by code_simp
  then have "limit_price_schema (px_to_string 2000000)"
    by (simp add: limit_price_schema_def px_to_string_def decimal_re_fixed_text length_show_nat_iff)
       (simp add: fixed_text_def Let_def show_nat.simps[of 200] show_nat.simps[of 20] show_nat.simps[of 2])
  ultimately show ?thesis by (simp add: place_order_schema_def demo_body_def demo_uuid_def)
qed

lemma demo_place_order:
  "\<exists>ans ws w. place_order js_decimal demo_config slip_venue demo_uuid (\<lambda>t. show_nat (nat t)) (\<lambda>_. Inl ProviderUnavailable) 5 7 (Some demo_body)
     ([], (), demo_db) = (Inr ans, ws, w)"
proof -
  have "get_or_register (\<lambda>_. Inl ProviderUnavailable) ''AAPL'' demo_db = (Inr demo_instrument, demo_db)"
    by (simp add: get_or_register_def Let_def demo_symbol get_by_symbol_def demo_defs)
  moreover have "require_active_account demo_db 7 = Inr demo_account"
    by (simp add: require_active_account_def get_active_for_user_def demo_defs)
  moreover have "place_input demo_account demo_instrument demo_body (Some 2000000) None = demo_buy"
    by (simp add: place_input_def demo_body_def demo_buy_def)
  ultimately show ?thesis
    using demo_place demo_schema
    by (simp add: place_order_def enforce_rate_limit_def sweep_windows_def reference_quote_def limit_of_def Let_def
        demo_body_def split: prod.split)
qed

theorem placement_answer_is_committed_witness:
  "\<exists>ans ws d'. place_order js_decimal demo_config slip_venue demo_uuid (\<lambda>t. show_nat (nat t)) (\<lambda>_. Inl ProviderUnavailable) 5 7 (Some demo_body)
       ([], (), demo_db) = (Inr ans, ws, (), d')
     \<and> pa_status ans = 201 \<and> (\<exists>r. terms_of d' = [order_terms r] \<and> ord_key r = ''k1'' \<and> ord_account r = 0 \<and> ord_qty r = 4)"
proof -
  obtain ans ws d' where run: "place_order js_decimal demo_config slip_venue demo_uuid (\<lambda>t. show_nat (nat t))
      (\<lambda>_. Inl ProviderUnavailable) 5 7 (Some demo_body) ([], (), demo_db) = (Inr ans, ws, (), d')"
    using demo_place_order by auto
  have up: "symbols_upper demo_db" by (simp add: symbols_upper_def demo_defs demo_symbol)
  from placement_answer_is_committed[OF slip.venue_port_axioms demo_db_ok up run] run show ?thesis
    by (auto simp: terms_of_def demo_defs demo_body_def get_active_for_user_def)
qed

theorem failed_request_places_nothing_witness:
  "instruments_only demo_db (snd (snd (snd (place_order js_decimal demo_config slip_venue demo_uuid (\<lambda>t. show_nat (nat t))
     (\<lambda>_. Inl ProviderUnavailable) 5 8 (Some demo_body) ([], (), demo_db)))))"
proof -
  have "require_active_account demo_db 8 = Inl (AppError DOMAIN_RULE (Some ACCOUNT_NOT_ACTIVE))"
    by (simp add: require_active_account_def get_active_for_user_def demo_defs)
  then have r: "place_order js_decimal demo_config slip_venue demo_uuid (\<lambda>t. show_nat (nat t)) (\<lambda>_. Inl ProviderUnavailable) 5 8 (Some demo_body)
      ([], (), demo_db) = (Inl (AppError DOMAIN_RULE (Some ACCOUNT_NOT_ACTIVE)),
        [(''orders:'' @ show_nat 8, \<lparr>rw_start = 5, rw_count = 1\<rparr>)], (), demo_db)"
    using demo_schema by (simp add: place_order_def enforce_rate_limit_def sweep_windows_def Let_def)
  show ?thesis unfolding r snd_conv by (rule failed_request_places_nothing[OF r, THEN conjunct2])
qed

theorem foreign_order_hidden_witness:
  "cancel_order_api js_decimal slip_venue demo_uuid (\<lambda>t. show_nat (nat t)) 9 8 ''3'' ((), demo_placed) = (Inl (AppError NOT_FOUND None), (), demo_placed)
   \<and> get_order demo_placed 3 = Some demo_order"
proof -
  have "acc_user a \<noteq> 8" if "demo_uuid ''3'' = Some i" "get_order demo_placed i = Some r"
    "get_account demo_placed (ord_account r) = Some a" for i r a
    using that by (auto simp: demo_uuid_def get_order_def get_account_def demo_placed_def demo_order_def demo_defs split: if_splits)
  then have "cancel_order_api js_decimal slip_venue demo_uuid (\<lambda>t. show_nat (nat t)) 9 8 ''3'' ((), demo_placed)
      = (Inl (AppError NOT_FOUND None), (), demo_placed)"
    by (rule foreign_order_hidden[THEN conjunct1])
  then show ?thesis by (simp add: get_order_def demo_placed_def demo_order_def)
qed

end
