(* ===== verification/Client_Cash.thy ===== *)
theory Client_Cash
  imports Cash_Rules Js_Bigint
begin

text \<open>
  \<^verbatim>\<open>src/lib/cash-transfer.ts\<close>: what the browser does with amounts, exactly, on canonical strings and big
  integers. The server (\<open>Cash_Rules\<close>) stays the authority; the theorems say that both agree.
  A rejected amount carries the reason; the sentences shown to the user are not modelled.
\<close>

section \<open>Amounts\<close>

definition to_cents :: "string \<Rightarrow> int result" where
  "to_cents value =
     (let negative = (take 1 value = ''-'');
          (whole, frac) = split_point (if negative then drop 1 value else value)
      in ebind (big_int (or_zero whole)) (\<lambda>w.
         ebind (big_int (or_zero (take 2 (pad_end 2 frac)))) (\<lambda>f.
           Inr (if negative then - (w * 100 + f) else w * 100 + f))))"

definition cents_to_string :: "int \<Rightarrow> string" where
  "cents_to_string cents =
     (let digits = pad_start 3 (show_nat (nat \<bar>cents\<bar>))
      in (if cents < 0 then ''-'' else []) @ take (length digits - 2) digits @ ''.'' @ drop (length digits - 2) digits)"

definition add_money :: "string \<Rightarrow> string \<Rightarrow> string result" where
  "add_money a b = ebind (to_cents a) (\<lambda>x. ebind (to_cents b) (\<lambda>y. Inr (cents_to_string (x + y))))"

definition subtract_money :: "string \<Rightarrow> string \<Rightarrow> string result" where
  "subtract_money a b = ebind (to_cents a) (\<lambda>x. ebind (to_cents b) (\<lambda>y. Inr (cents_to_string (x - y))))"

text \<open>Division of big integers truncates.\<close>

definition percent_of :: "string \<Rightarrow> int \<Rightarrow> string result" where
  "percent_of value percent =
     ebind (to_cents value) (\<lambda>cents.
       if cents \<le> 0 then Inr ''0.00'' else Inr (cents_to_string ((cents * percent) sdiv 100)))"

definition keep_digits_points :: "string \<Rightarrow> string" where
  "keep_digits_points raw =
     filter (\<lambda>c. is_digit c \<or> is_point c) (filter (\<lambda>c. \<not> (c = CHR '','' \<or> c = CHR ''$'' \<or> is_space c)) raw)"

definition one_point :: "nat \<Rightarrow> string \<Rightarrow> string" where
  "one_point dp cleaned =
     (if list_ex is_point cleaned
      then takeWhile (\<lambda>c. \<not> is_point c) cleaned @ ''.''
           @ take dp (filter (\<lambda>c. \<not> is_point c) (drop 1 (dropWhile (\<lambda>c. \<not> is_point c) cleaned)))
      else cleaned)"

definition sanitize_amount_input :: "string \<Rightarrow> string" where
  "sanitize_amount_input raw = one_point 2 (keep_digits_points raw)"

definition parse_amount :: "string \<Rightarrow> string option result" where
  "parse_amount input =
     (let s = js_trim (filter (\<lambda>c. c \<noteq> CHR '','') input)
      in case match_decimal s of
           None \<Rightarrow> Inr None
         | Some (neg, w, f) \<Rightarrow>
             if neg \<or> length f > 2 then Inr None
             else ebind (big_int w) (\<lambda>x. ebind (big_int (or_zero (pad_end 2 f))) (\<lambda>y.
               Inr (Some (cents_to_string (x * 100 + y))))))"

record transfer_rules =
  tu_direction :: transfer_direction
  tu_min :: string
  tu_max :: string
  tu_deposit_left :: string
  tu_withdrawable :: string

datatype amount_problem =
  Empty_field | Bad_format | Below_minimum | Above_maximum | Deposit_exhausted | Above_deposit_left
| Nothing_withdrawable | Above_withdrawable

datatype amount_check = Amount_ok string | Amount_bad amount_problem

definition check_transfer_amount :: "string \<Rightarrow> transfer_rules \<Rightarrow> amount_check result" where
  "check_transfer_amount input rules =
     (if js_trim input = [] then Inr (Amount_bad Empty_field)
      else ebind (parse_amount input) (\<lambda>parsed. case parsed of
        None \<Rightarrow> Inr (Amount_bad Bad_format)
      | Some amount \<Rightarrow>
          ebind (to_cents amount) (\<lambda>cents.
          ebind (to_cents (tu_min rules)) (\<lambda>least.
          if cents < least then Inr (Amount_bad Below_minimum)
          else ebind (to_cents (tu_max rules)) (\<lambda>most.
          if cents > most then Inr (Amount_bad Above_maximum)
          else if tu_direction rules = DEPOSIT then
            ebind (to_cents (tu_deposit_left rules)) (\<lambda>left.
              if cents > left then Inr (Amount_bad (if left \<le> 0 then Deposit_exhausted else Above_deposit_left))
              else Inr (Amount_ok amount))
          else
            ebind (to_cents (tu_withdrawable rules)) (\<lambda>free.
              if cents > free then Inr (Amount_bad (if free \<le> 0 then Nothing_withdrawable else Above_withdrawable))
              else Inr (Amount_ok amount)))))))"

text \<open>The words for a failed submission, by status, code and subcode of the error envelope.\<close>

datatype transfer_message =
  Key_reused | Too_small | Too_large | Over_daily_limit | Withdrawable_moved | Not_open_yet | Format_message | Connection

definition transfer_error_message :: "nat \<Rightarrow> string option \<Rightarrow> string option \<Rightarrow> transfer_message" where
  "transfer_error_message status code subcode =
     (if status = 409 then Key_reused
      else if subcode = Some ''AMOUNT_TOO_SMALL'' then Too_small
      else if subcode = Some ''AMOUNT_TOO_LARGE'' then Too_large
      else if subcode = Some ''DEPOSIT_LIMIT'' then Over_daily_limit
      else if subcode = Some ''INSUFFICIENT_WITHDRAWABLE'' then Withdrawable_moved
      else if subcode = Some ''ACCOUNT_NOT_ACTIVE'' then Not_open_yet
      else if code = Some ''VALIDATION'' then Format_message
      else Connection)"

section \<open>Exactness\<close>


lemma pad_two: "m < 100 \<Longrightarrow> pad_start 2 (show_nat m) = [digit_char (m div 10), digit_char (m mod 10)]"
proof (cases "m < 10")
  case True
  moreover have "digit_char 0 = CHR ''0''" by code_simp
  ultimately show ?thesis by (simp add: show_nat.simps[of m] pad_start_def numeral_2_eq_2)
next
  case False
  assume "m < 100"
  with False show ?thesis by (simp add: show_nat.simps[of m] show_nat.simps[of "m div 10"] pad_start_def)
qed

lemma show_nat_hundreds:
  assumes "100 \<le> n"
  shows "show_nat n = show_nat (n div 100) @ pad_start 2 (show_nat (n mod 100))"
proof -
  have "n div 10 div 10 = n div 100" "n div 10 mod 10 = n mod 100 div 10" "n mod 10 = n mod 100 mod 10"
    by (simp_all add: div_mult2_eq[symmetric] mod_mult2_eq[of n 10 10, simplified] mod_mod_cancel)
  moreover have "\<not> n < 10" "\<not> n div 10 < 10" using assms by simp_all
  ultimately show ?thesis
    by (simp add: pad_two show_nat.simps[of n] show_nat.simps[of "n div 10"])
qed

lemma cents_to_string_eq: "cents_to_string m = money_to_string m"
proof -
  let ?n = "nat \<bar>m\<bar>"
  have p: "pad_start 3 (show_nat ?n) = show_nat (?n div 100) @ pad_start 2 (show_nat (?n mod 100))"
  proof (cases "100 \<le> ?n")
    case True
    have "0 < length (show_nat (?n div 100))" by simp
    then have "3 \<le> length (show_nat ?n)"
      unfolding show_nat_hundreds[OF True] by (simp add: pad_two del: length_greater_0_conv)
    then show ?thesis using show_nat_hundreds[OF True] by (simp add: pad_start_def)
  next
    case False
    then have "length (show_nat ?n) \<le> 2" by (intro length_show_nat) simp_all
    then have "pad_start 3 (show_nat ?n) = CHR ''0'' # pad_start 2 (show_nat ?n)"
      by (simp add: pad_start_def numeral_3_eq_3 Suc_diff_le)
    moreover have "show_nat 0 = ''0''" by code_simp
    ultimately show ?thesis using False by simp
  qed
  have l: "length (pad_start 2 (show_nat (?n mod 100))) = 2" by (simp add: pad_two)
  show ?thesis
    unfolding cents_to_string_def money_to_string_def fixed_text_def Let_def p
    by (simp add: l)
qed

lemma to_cents_decimal:
  assumes "match_decimal s = Some (neg, w, f)" "length f \<le> 2"
  shows "to_cents s = Inr (scaled 2 s)"
proof -
  note m = match_decimal_shape[OF assms(1)]
  have p: "take 2 (pad_end 2 f) = pad_end 2 f" "list_all is_digit (pad_end 2 f)"
    using assms(2) m(4) by (auto simp: pad_end_def list_all_iff)
  have u: "to_cents s = Inr (if neg then - (int (read_nat w) * 100 + int (read_nat (pad_end 2 f)))
      else int (read_nat w) * 100 + int (read_nat (pad_end 2 f)))"
    unfolding to_cents_def Let_def m(1)[symmetric] split_money[OF assms(1)] prod.case p(1)
    using or_zero_digits[OF m(3)] or_zero_digits[OF p(2)] by (simp add: big_int_digits)
  show ?thesis unfolding u scaled_def assms(1) by (simp add: Let_def)
qed

lemma to_cents_money: "money_from_string s = Inr m \<Longrightarrow> to_cents s = Inr m"
  by (auto simp: money_from_string_def money_re_def decimal_re_def result_simps to_cents_decimal split: option.splits)

lemma to_cents_of_money [simp]: "to_cents (money_to_string m) = Inr m"
  by (rule to_cents_money) simp

section \<open>Agreement with the server\<close>

lemma parse_amount_cases:
  obtains "parse_amount s = Inr None"
  | m where "parse_amount s = Inr (Some (money_to_string m))" "0 \<le> m"
      "match_decimal (js_trim (filter (\<lambda>c. c \<noteq> CHR '','') s)) \<noteq> None"
      "m = scaled 2 (js_trim (filter (\<lambda>c. c \<noteq> CHR '','') s))"
proof -
  let ?s = "js_trim (filter (\<lambda>c. c \<noteq> CHR '','') s)"
  show thesis
  proof (cases "match_decimal ?s")
    case None
    then show thesis by (intro that(1)) (simp add: parse_amount_def Let_def)
  next
    case (Some x)
    obtain neg w f where x: "x = (neg, w, f)" by (cases x)
    note m = match_decimal_shape[OF Some[unfolded x]]
    show thesis
    proof (cases "neg \<or> length f > 2")
      case True
      with Some x show thesis by (intro that(1)) (simp add: parse_amount_def Let_def)
    next
      case False
      have p: "list_all is_digit (pad_end 2 f)" using m(4) by (auto simp: pad_end_def list_all_iff)
      have v: "scaled 2 ?s = int (read_nat w) * 100 + int (read_nat (pad_end 2 f))"
        using False by (simp add: scaled_def Some x Let_def)
      have "parse_amount s = Inr (Some (money_to_string (scaled 2 ?s)))"
        using False big_int_digits[OF m(3)] or_zero_digits[OF p] unfolding v
        by (simp add: parse_amount_def Let_def Some x big_int_digits cents_to_string_eq)
      with v Some show thesis by (intro that(2)[of "scaled 2 ?s"]) simp_all
    qed
  qed
qed

lemma amount_text_clean:
  assumes "match_decimal s = Some (False, w, f)"
  shows "js_trim (filter (\<lambda>c. c \<noteq> CHR '','') s) = s" "js_trim s \<noteq> []"
proof -
  note m = match_decimal_shape[OF assms]
  from m(2) have s: "s = w @ (if f = [] then [] else CHR ''.'' # f)" by simp
  have "is_digit (hd s)" "is_digit (last s)" "s \<noteq> []"
    using m(3-5) by (auto simp: s list_all_iff)
  then have t: "js_trim s = s" by (intro js_trim_digits)
  have "CHR '','' \<notin> set s" using m(3,4) not_digit_punctuation by (auto simp: s list_all_iff is_digit_def)
  then have "filter (\<lambda>c. c \<noteq> CHR '','') s = s" by (auto simp: filter_id_conv)
  with t \<open>s \<noteq> []\<close> show "js_trim (filter (\<lambda>c. c \<noteq> CHR '','') s) = s" "js_trim s \<noteq> []" by simp_all
qed

lemma parse_amount_server:
  assumes "parse_transfer_amount (Some s) = Inr m"
  shows "parse_amount s = Inr (Some (money_to_string m))" "js_trim s \<noteq> []"
proof -
  from assms have re: "amount_re s" and m: "m = scaled 2 s"
    by (auto simp: parse_transfer_amount_def money_from_string_def result_simps split: if_splits)
  then obtain w f where d: "match_decimal s = Some (False, w, f)" "length f \<le> 2"
    by (cases "f = []") (auto simp: amount_re_def decimal_re_def split: option.splits)
  note c = amount_text_clean[OF d(1)]
  show "js_trim s \<noteq> []" by (rule c(2))
  note sh = match_decimal_shape[OF d(1)]
  have p: "list_all is_digit (pad_end 2 f)" using sh(4) by (auto simp: pad_end_def list_all_iff)
  show "parse_amount s = Inr (Some (money_to_string m))"
    using big_int_digits[OF sh(3)] or_zero_digits[OF p] d(2)
    by (simp add: parse_amount_def Let_def c(1) d(1) big_int_digits cents_to_string_eq m scaled_def)
qed

text \<open>The rules as the summary endpoint sends them.\<close>

definition rules_of :: "transfer_direction \<Rightarrow> transfer_limits \<Rightarrow> money \<Rightarrow> money \<Rightarrow> transfer_rules" where
  "rules_of dir limits withdrawable deposited =
     \<lparr>tu_direction = dir, tu_min = money_to_string (min_amount limits), tu_max = money_to_string (max_per_transfer limits),
      tu_deposit_left = money_to_string (deposit_remaining limits deposited), tu_withdrawable = money_to_string withdrawable\<rparr>"

lemma check_of_amount:
  assumes "parse_amount s = Inr (Some (money_to_string m))" "js_trim s \<noteq> []"
  shows "check_transfer_amount s (rules_of dir limits w dep) = Inr (Amount_ok a) \<longleftrightarrow>
    a = money_to_string m \<and> check_transfer_request dir m limits w dep = Inr ()"
  using assms
  by (auto simp: check_transfer_amount_def rules_of_def check_transfer_request_Inr)

text \<open>
  the check in the browser and the rules of the server agree. On every text that the server accepts as an amount
  the sheet lets the transfer through exactly when the server's rules do, and whatever the sheet lets through, it
  sends a text that the server parses to an amount that passes the rules.
\<close>

theorem client_check_agrees:
  assumes "0 < min_amount limits" "max_per_transfer limits < 10 ^ 18"
  shows "(parse_transfer_amount (Some s) = Inr m \<longrightarrow>
      (check_transfer_amount s (rules_of dir limits w dep) = Inr (Amount_ok (money_to_string m))
        \<longleftrightarrow> check_transfer_request dir m limits w dep = Inr ()))
    \<and> (check_transfer_amount input (rules_of dir limits w dep) = Inr (Amount_ok a) \<longrightarrow>
      (\<exists>n. parse_transfer_amount (Some a) = Inr n \<and> check_transfer_request dir n limits w dep = Inr ()))"
proof (intro conjI impI)
  assume "parse_transfer_amount (Some s) = Inr m"
  from check_of_amount[OF parse_amount_server[OF this]] show
    "check_transfer_amount s (rules_of dir limits w dep) = Inr (Amount_ok (money_to_string m))
      \<longleftrightarrow> check_transfer_request dir m limits w dep = Inr ()" by simp
next
  assume ok: "check_transfer_amount input (rules_of dir limits w dep) = Inr (Amount_ok a)"
  then have t: "js_trim input \<noteq> []" by (auto simp: check_transfer_amount_def)
  show "\<exists>n. parse_transfer_amount (Some a) = Inr n \<and> check_transfer_request dir n limits w dep = Inr ()"
  proof (cases rule: parse_amount_cases[of input])
    case 1
    with ok t show ?thesis by (simp add: check_transfer_amount_def)
  next
    case (2 n)
    from ok check_of_amount[OF 2(1) t] have a: "a = money_to_string n"
      and c: "check_transfer_request dir n limits w dep = Inr ()" by simp_all
    with assms have "0 < n" "n < 10 ^ 18" by (auto simp: check_transfer_request_Inr)
    then have "parse_transfer_amount (Some a) = Inr n"
      unfolding a by (auto simp: parse_transfer_amount_def amount_re_text)
    with c show ?thesis by blast
  qed
qed

theorem client_check_agrees_witness:
  "check_transfer_amount (money_to_string 50000) (rules_of DEPOSIT default_transfer_limits 0 0) = Inr (Amount_ok (money_to_string 50000))"
proof -
  have "parse_transfer_amount (Some (money_to_string 50000)) = Inr 50000"
    by (simp add: parse_transfer_amount_def amount_re_text)
  moreover have "check_transfer_request DEPOSIT 50000 default_transfer_limits 0 0 = Inr ()"
    by (simp add: check_transfer_request_Inr default_transfer_limits_def deposit_remaining_def money_is_negative_def)
  ultimately show ?thesis
    using client_check_agrees[of default_transfer_limits "money_to_string 50000" 50000 DEPOSIT 0 0 "''''" "''''"]
    by (simp add: default_transfer_limits_def)
qed

end
