(* ===== verification/Order_Ticket.thy ===== *)
theory Order_Ticket
  imports Client_Cash Orders_Correct Market_Data
begin

text \<open>
  \<^verbatim>\<open>src/lib/order-ticket.ts\<close>: the trading ticket's inputs, estimates and pre-checks. The arithmetic is on integer
  ten-thousandths and cents; the theorems say that it computes what the server's decimals compute and that the
  pre-check refuses exactly what the server would refuse for lack of means. The sentences shown are constructors.
\<close>

definition max_order_qty :: nat where "max_order_qty = 1000000"

section \<open>Fields\<close>

datatype field_problem =
  Quiet | Not_whole | Not_positive | Above_cap | Bad_price | Zero_price

text \<open>\<open>FieldCheck\<close>: the left summand is \<open>ok: false\<close>; \<open>Quiet\<close> is its error \<open>null\<close>.\<close>

type_synonym 'a field_check = "field_problem + 'a"

definition sanitize_qty_input :: "string \<Rightarrow> string" where
  "sanitize_qty_input raw = filter is_digit raw"

definition sanitize_price_input :: "string \<Rightarrow> string" where
  "sanitize_price_input raw = one_point 4 (keep_digits_points raw)"

definition check_qty :: "string \<Rightarrow> nat field_check" where
  "check_qty s =
     (if s = [] then Inl Quiet
      else if \<not> list_all is_digit s then Inl Not_whole
      else let n = read_nat s in
        if n = 0 then Inl Not_positive else if n > max_order_qty then Inl Above_cap else Inr n)"

text \<open>A canonical price string in ten-thousandths of a dollar.\<close>

definition price_units :: "string \<Rightarrow> int result" where
  "price_units price =
     (let (whole, frac) = split_point price
      in ebind (big_int (or_zero whole)) (\<lambda>w.
         ebind (big_int (or_zero (take 4 (pad_end 4 frac)))) (\<lambda>f. Inr (w * 10000 + f))))"

text \<open>The groups of \<^verbatim>\<open>^(\d*)(?:\.(\d{1,4}))?$\<close>.\<close>

definition match_price :: "string \<Rightarrow> (string \<times> string option) option" where
  "match_price s =
     (let w = takeWhile is_digit s
      in case dropWhile is_digit s of
           [] \<Rightarrow> Some (w, None)
         | c # f \<Rightarrow> if is_point c \<and> list_all is_digit f \<and> 1 \<le> length f \<and> length f \<le> 4 then Some (w, Some f) else None)"

definition check_limit_price :: "string \<Rightarrow> string field_check result" where
  "check_limit_price s =
     (if s = [] \<or> (last s = CHR ''.'' \<and> list_all is_digit (butlast s)) then Inr (Inl Quiet)
      else case match_price s of
        None \<Rightarrow> Inr (Inl Bad_price)
      | Some (w, f) \<Rightarrow>
          ebind (price_units s) (\<lambda>u.
            if u = 0 then Inr (Inl Zero_price)
            else ebind (big_int (or_zero w)) (\<lambda>n.
              Inr (Inr (case f of Some x \<Rightarrow> show_nat (nat n) @ ''.'' @ x | None \<Rightarrow> show_nat (nat n))))))"

section \<open>Estimates\<close>

definition estimate_notional :: "string \<Rightarrow> nat \<Rightarrow> string result" where
  "estimate_notional price q =
     ebind (price_units price) (\<lambda>p.
       let units = p * int q; cents = units sdiv 100; rest = units smod 100
       in Inr (cents_to_string (if rest > 50 \<or> rest = 50 \<and> cents smod 2 = 1 then cents + 1 else cents)))"

definition reserve_estimate :: "string \<Rightarrow> nat \<Rightarrow> string \<Rightarrow> string result" where
  "reserve_estimate price q buffer =
     (let frac = snd (split_point buffer);
          scale = 10 ^ length frac;
          joined = takeWhile (\<lambda>c. \<not> is_point c) buffer @ drop 1 (dropWhile (\<lambda>c. \<not> is_point c) buffer)
      in ebind (big_int (or_zero joined)) (\<lambda>ratio.
         ebind (price_units price) (\<lambda>p.
           let numerator = p * int q * (scale + ratio);
               denominator = scale * 100;
               cents = numerator sdiv denominator;
               twice = (numerator smod denominator) * 2
           in Inr (cents_to_string
                (if twice > denominator \<or> twice = denominator \<and> cents smod 2 = 1 then cents + 1 else cents)))))"

definition strip_zeros :: "string \<Rightarrow> string" where
  "strip_zeros s = rev (dropWhile (\<lambda>c. c = CHR ''0'') (rev s))"

definition show_big :: "int \<Rightarrow> string" where
  "show_big n = (if n < 0 then CHR ''-'' # show_nat (nat (- n)) else show_nat (nat n))"

definition format_buffer_percent :: "string \<Rightarrow> string result" where
  "format_buffer_percent buffer =
     (let (whole, frac) = split_point buffer; d = length frac
      in ebind (big_int whole) (\<lambda>w.
         ebind (big_int (or_zero frac)) (\<lambda>f.
           let str = pad_start (d + 1) (show_big ((w * 10 ^ d + f) * 100));
               whole_part = or_zero (take (length str - d) str);
               dec = (if d = 0 then [] else strip_zeros (drop (length str - d) str))
           in Inr (whole_part @ (if dec = [] then [] else ''.'' @ dec) @ ''%''))))"

definition reference_price :: "quote option \<Rightarrow> order_side \<Rightarrow> px option" where
  "reference_price q side =
     (case q of
        None \<Rightarrow> None
      | Some q \<Rightarrow> Some (case (if side = BUY then qt_ask q else qt_bid q) of Some p \<Rightarrow> p | None \<Rightarrow> qt_last q))"

section \<open>The pre-check\<close>

record ticket =
  tk_side :: order_side
  tk_qty :: nat
  tk_estimate :: "string option"
  tk_buying_power :: string
  tk_sellable :: string
  tk_reserve :: "string option"
  tk_buffer :: "string option"

datatype ticket_problem =
  Nothing_held | Above_sellable | Above_buying_power | Reserve_above_buying_power "string option"

definition not_empty :: "string option \<Rightarrow> string option" where
  "not_empty s = (case s of Some t \<Rightarrow> if t = [] then None else Some t | None \<Rightarrow> None)"

definition ticket_precheck :: "ticket \<Rightarrow> ticket_problem option result" where
  "ticket_precheck t =
     (if tk_side t = SELL then
        ebind (big_int (if tk_sellable t \<noteq> [] \<and> list_all is_digit (tk_sellable t) then tk_sellable t else ''0'')) (\<lambda>sellable.
          if sellable = 0 then Inr (Some Nothing_held)
          else if int (tk_qty t) > sellable then Inr (Some Above_sellable)
          else Inr None)
      else
        ebind (case tk_estimate t of
                 None \<Rightarrow> Inr False
               | Some e \<Rightarrow> ebind (to_cents e) (\<lambda>c. ebind (to_cents (tk_buying_power t)) (\<lambda>b. Inr (c > b)))) (\<lambda>short.
        if short then Inr (Some Above_buying_power)
        else case not_empty (tk_reserve t) of
          None \<Rightarrow> Inr None
        | Some r \<Rightarrow>
            ebind (to_cents r) (\<lambda>c. ebind (to_cents (tk_buying_power t)) (\<lambda>b.
              if c > b then
                (case not_empty (tk_buffer t) of
                   None \<Rightarrow> Inr (Some (Reserve_above_buying_power None))
                 | Some x \<Rightarrow> ebind (format_buffer_percent x) (\<lambda>p. Inr (Some (Reserve_above_buying_power (Some p)))))
              else Inr None))))"

section \<open>A failed placement\<close>

text \<open>\<open>ApiError\<close>, or any other failure (\<open>None\<close>): the network, a response that is not one.\<close>

record api_error =
  ae_status :: nat
  ae_code :: string
  ae_subcode :: "string option"

datatype place_problem =
  Unconfirmed | Short_of_cash | Short_of_shares | Not_tradable | Account_not_open | Too_many | Unpriced | As_the_server_says

definition place_order_error :: "api_error option \<Rightarrow> place_problem \<times> bool" where
  "place_order_error err =
     (case err of
        None \<Rightarrow> (Unconfirmed, True)
      | Some e \<Rightarrow>
          if ae_subcode e = Some ''INSUFFICIENT_BUYING_POWER'' then (Short_of_cash, False)
          else if ae_subcode e = Some ''INSUFFICIENT_HOLDINGS'' then (Short_of_shares, False)
          else if ae_subcode e = Some ''INSTRUMENT_INACTIVE'' then (Not_tradable, False)
          else if ae_subcode e = Some ''ACCOUNT_NOT_ACTIVE'' then (Account_not_open, False)
          else if ae_code e = ''RATE_LIMITED'' then (Too_many, True)
          else if ae_code e = ''PROVIDER_UNAVAILABLE'' then (Unpriced, True)
          else if ae_status e \<ge> 500 then (Unconfirmed, True)
          else (As_the_server_says, False))"

section \<open>The same numbers as the server\<close>

lemma price_units_px:
  assumes "px_from_string s = Inr p"
  shows "price_units s = Inr p"
proof -
  from assms obtain w f where d: "match_decimal s = Some (False, w, f)" "f = [] \<or> length f \<le> 4" and p: "p = scaled 4 s"
    by (auto simp: px_from_string_def px_re_def decimal_re_def result_simps split: option.splits)
  note m = match_decimal_shape[OF d(1)]
  have l: "length f \<le> 4" using d(2) by auto
  have z: "take 4 (pad_end 4 f) = pad_end 4 f" "list_all is_digit (pad_end 4 f)"
    using l m(4) by (auto simp: pad_end_def list_all_iff)
  show ?thesis
    unfolding price_units_def split_money[OF d(1), simplified] prod.case z(1) p
    using or_zero_digits[OF m(3)] or_zero_digits[OF z(2)] by (simp add: big_int_digits scaled_def d(1) Let_def z(1))
qed

lemma truncated_nonneg: "0 \<le> (n :: int) \<Longrightarrow> 0 < d \<Longrightarrow> n sdiv d = n div d \<and> n smod d = n mod d"
  by (cases "n = 0") (simp_all add: signed_divide_int_def signed_modulo_int_def)

lemma truncated_half_even:
  assumes "0 \<le> n" "0 < d"
  shows "(if 2 * (n smod d) > d \<or> 2 * (n smod d) = d \<and> (n sdiv d) smod 2 = 1 then n sdiv d + 1 else n sdiv d)
    = half_even (of_int n / of_int d)"
proof -
  have "0 \<le> n div d" using assms by (simp add: pos_imp_zdiv_nonneg_iff)
  with truncated_nonneg[OF assms] truncated_nonneg[of "n div d" 2] half_even_div[OF assms(2), of n] show ?thesis
    by (simp add: odd_iff_mod_2_eq_one)
qed

text \<open>The estimate of a valid price is the server's notional.\<close>

lemma estimate_is_notional:
  assumes "decimal_arith D" "px_from_string price = Inr p"
  shows "estimate_notional price q = Inr (money_to_string (notional D p q))"
proof -
  from px_from_string_pos[OF assms(2)] have n: "0 \<le> p * int q" by simp
  have "(if (p * int q) smod 100 > 50 \<or> (p * int q) smod 100 = 50 \<and> ((p * int q) sdiv 100) smod 2 = 1
        then (p * int q) sdiv 100 + 1 else (p * int q) sdiv 100) = half_even (of_int (p * int q) / of_int 100)"
    using truncated_half_even[OF n, of 100] by (auto split: if_splits)
  then show ?thesis
    using decimal_arith.notional_half_even[OF assms(1), of p q]
    by (simp add: estimate_notional_def price_units_px[OF assms(2)] Let_def cents_to_string_eq)
qed

text \<open>A buffer ratio as the configuration writes it.\<close>

lemma joined_digits:
  assumes "match_decimal b = Some (False, w, f)"
  shows "takeWhile (\<lambda>c. \<not> is_point c) b @ drop 1 (dropWhile (\<lambda>c. \<not> is_point c) b) = w @ f"
proof -
  note m = match_decimal_shape[OF assms]
  have np: "\<forall>c \<in> set w. \<not> is_point c" using m(3) digit_not_point by (auto simp: list_all_iff)
  have b: "b = w @ (if f = [] then [] else CHR ''.'' # f)" using m(2) by simp
  have "is_point (CHR ''.'')" by (simp add: is_point_def)
  then show ?thesis
    using np by (simp add: b takeWhile_append2 dropWhile_append2 takeWhile_eq_all_conv[THEN iffD2] dropWhile_eq_Nil_conv[THEN iffD2])
qed

lemma reserve_estimate_is_reserve:
  assumes "decimal_arith D" "px_from_string price = Inr p"
    and "match_decimal buffer = Some (False, w, f)" "decimal_rat buffer < 1"
  shows "\<exists>r. reserve_with_buffer D p q (decimal_rat buffer) = Inr r \<and> reserve_estimate price q buffer = Inr (money_to_string r)"
proof -
  note m = match_decimal_shape[OF assms(3)]
  let ?s = "10 ^ length f :: int" and ?ratio = "int (read_nat (w @ f))"
  have v: "decimal_rat buffer = of_int ?ratio / of_int ?s"
    by (simp add: decimal_rat_def assms(3) read_nat_append add_divide_distrib)
  have joined: "list_all is_digit (w @ f)" using m(3,4) by simp
  let ?n = "p * int q * (?s + ?ratio)"
  from px_from_string_pos[OF assms(2)] have n: "0 \<le> ?n" by simp
  have "of_int ?n / of_int (?s * 100) = px_rat p * of_nat q * (1 + decimal_rat buffer) * 10 ^ 2"
    unfolding v by (simp add: field_simps)
  then have "dec_dp D 2 (px_rat p * of_nat q * (1 + decimal_rat buffer)) = half_even (of_int ?n / of_int (?s * 100))"
    by (simp only: decimal_arith.dp_half_even[OF assms(1)])
  moreover have "0 \<le> decimal_rat buffer" unfolding v by simp
  moreover have "?s * 100 > 0" by simp
  note truncated_half_even[OF n this]
  ultimately show ?thesis
    using assms(4) or_zero_digits[OF joined] split_money[OF assms(3)] joined_digits[OF assms(3)]
    by (simp add: reserve_with_buffer_def reserve_estimate_def price_units_px[OF assms(2)] Let_def cents_to_string_eq
        big_int_digits mult.commute[of _ 2] del: of_int_mult)
qed

text \<open>
  the ticket shows the server's numbers. For every price the server parses, the estimate is the text of the
  server's notional to the cent, and for every buffer ratio below one the amount to hold is the text of what the
  server reserves for a market buy, whatever implementation of the decimal contract the server runs on.
\<close>

theorem ticket_estimates_exact:
  assumes "decimal_arith D" "px_from_string price = Inr p"
    and "match_decimal buffer = Some (False, w, f)" "decimal_rat buffer < 1"
  shows "estimate_notional price q = Inr (money_to_string (notional D p q))
    \<and> (\<exists>r. reserve_with_buffer D p q (decimal_rat buffer) = Inr r \<and> reserve_estimate price q buffer = Inr (money_to_string r))"
  using estimate_is_notional[OF assms(1,2)] reserve_estimate_is_reserve[OF assms] by simp

text \<open>The ticket of an order, as the sheet builds it from the quote, the buying power and the holdings.\<close>

definition ticket_of :: "decimal_lib \<Rightarrow> new_order \<Rightarrow> money \<Rightarrow> money \<Rightarrow> qty \<Rightarrow> string option \<Rightarrow> ticket" where
  "ticket_of D inp m cash sellable buffer =
     \<lparr>tk_side = no_side inp, tk_qty = no_qty inp,
      tk_estimate = map_option (\<lambda>p. money_to_string (notional D p (no_qty inp)))
        (if no_type inp = LIMIT then no_limit inp else no_ref_price inp),
      tk_buying_power = money_to_string cash, tk_sellable = qty_to_string sellable,
      tk_reserve = (if no_side inp = BUY \<and> no_type inp = MARKET then Some (money_to_string m) else None),
      tk_buffer = buffer\<rparr>"

lemma money_to_string_nonempty: "money_to_string m \<noteq> []"
  by (simp add: money_to_string_def fixed_text_def Let_def)

text \<open>
  the pre-check neither blocks nor promises wrongly. On the figures of a moment the ticket lets an order through
  exactly when the server's check of means accepts it on the same figures, for buys at market and at a limit and for
  sells; so what the user can confirm fails for lack of cash or shares only if the figures moved.
\<close>

theorem precheck_mirrors_server:
  assumes "decimal_arith D" "0 < no_qty inp" "prices_positive inp" "reservation_for D cfg inp = Inr m"
    and "sellable_qty d (acc_id a) (ins_id (no_instrument inp)) = Inr s"
  shows "ticket_precheck (ticket_of D inp m (buying_power d a) s buffer) = Inr None \<longleftrightarrow> check_means inp a m d = Inr ()"
proof (cases "no_side inp")
  case SELL
  have "big_int (qty_to_string s) = Inr (int s)" "list_all is_digit (qty_to_string s)"
    by (simp_all add: qty_to_string_def big_int_digits show_nat_digits)
  with SELL assms(2,5) show ?thesis
    by (auto simp: ticket_precheck_def ticket_of_def check_means_def qty_to_string_def)
next
  case BUY
  with assms(4) obtain p where p: "(if no_type inp = LIMIT then no_limit inp else no_ref_price inp) = Some p"
    and m: "no_type inp = LIMIT \<Longrightarrow> m = notional D p (no_qty inp)"
    "no_type inp = MARKET \<Longrightarrow> reserve_with_buffer D p (no_qty inp) (market_buy_buffer cfg) = Inr m"
    by (cases "no_type inp") (auto simp: reservation_for_def buy_reservation_def result_simps)
  have "0 \<le> p" using p assms(3) by (auto simp: prices_positive_def split: if_splits)
  with m decimal_arith.reserve_covers_notional[OF assms(1), of p "no_qty inp" "market_buy_buffer cfg" m]
  have "notional D p (no_qty inp) \<le> m" by (cases "no_type inp") auto
  with BUY p m(1) show ?thesis
    by (cases "no_type inp")
       (auto simp: ticket_precheck_def ticket_of_def check_means_def not_empty_def money_to_string_nonempty
          ebind_eq_Inr app_error_def split: option.splits)
qed

section \<open>Witnesses\<close>

lemma demo_ratio: "match_decimal ''0.025'' = Some (False, ''0'', ''025'')" "read_nat ''025'' = 25" "read_nat ''0'' = 0"
  by code_simp+

theorem ticket_estimates_exact_witness:
  "estimate_notional (px_to_string 2000000) 4 = Inr (money_to_string 80000)"
proof -
  have "decimal_rat ''0.025'' < 1" by (simp add: decimal_rat_def demo_ratio)
  from ticket_estimates_exact[OF js.decimal_arith_axioms px_from_to_string demo_ratio(1) this, of 2000000 4] demo_notional
  show ?thesis by simp
qed

theorem precheck_mirrors_server_witness:
  "ticket_precheck (ticket_of js_decimal demo_buy 80000 (buying_power demo_db demo_account) 0 None) = Inr None"
proof -
  have r: "reservation_for js_decimal demo_config demo_buy = Inr 80000"
    by (simp add: reservation_for_def buy_reservation_def demo_buy_def demo_notional)
  have s: "sellable_qty demo_db (acc_id demo_account) (ins_id (no_instrument demo_buy)) = Inr 0"
    by (simp add: sellable_qty_def position_qty_def sum_open_sell_remainders_def get_position_def demo_buy_def demo_defs Let_def
        qty_of_int_def qty_subtract_def)
  have c: "check_means demo_buy demo_account 80000 demo_db = Inr ()"
    by (simp add: check_means_def buying_power_def sum_open_buy_reservations_def sum_pending_def demo_buy_def demo_defs)
  have "0 < no_qty demo_buy" "prices_positive demo_buy" by (simp_all add: demo_buy_def prices_positive_def)
  from precheck_mirrors_server[OF js.decimal_arith_axioms this r s, of None] c show ?thesis by simp
qed

end
