(* ===== verification/Client_Prices.thy ===== *)
theory Client_Prices
  imports Order_Ticket Alert_Rules Execution
begin

text \<open>
  Prices in the browser: the change between two plotted prices (\<^verbatim>\<open>src/lib/chart-format.ts\<close>) and the pre-check of a
  price alert (\<^verbatim>\<open>src/lib/alerts.ts\<close>), exactly on canonical strings, against the rules of the server.
\<close>

section \<open>The change between two prices\<close>

definition chart_scale :: nat where "chart_scale = 4"

definition to_units :: "string \<Rightarrow> int result" where
  "to_units value =
     (let negative = (take 1 value = ''-'');
          (whole, frac) = split_point (if negative then drop 1 value else value)
      in ebind (big_int (or_zero whole)) (\<lambda>w.
         ebind (big_int (or_zero (take chart_scale (pad_end chart_scale frac)))) (\<lambda>f.
           let units = w * 10 ^ chart_scale + f in Inr (if negative then - units else units))))"

definition div_half_even :: "int \<Rightarrow> int \<Rightarrow> int" where
  "div_half_even n d =
     (let negative = ((n < 0) \<noteq> (d < 0)); an = \<bar>n\<bar>; ad = \<bar>d\<bar>;
          q = an sdiv ad; twice = (an smod ad) * 2;
          r = (if twice > ad \<or> twice = ad \<and> q smod 2 = 1 then q + 1 else q)
      in if negative then - r else r)"

definition units_to_string :: "int \<Rightarrow> nat \<Rightarrow> string" where
  "units_to_string units dp =
     (let digits = pad_start (dp + 1) (show_nat (nat \<bar>units\<bar>))
      in (if units < 0 then ''-'' else []) @ take (length digits - dp) digits
         @ (if dp > 0 then ''.'' @ drop (length digits - dp) digits else []))"

record price_change =
  pg_absolute :: string
  pg_percent :: "string option"
  pg_direction :: int

definition no_minus_zero :: "string \<Rightarrow> string" where
  "no_minus_zero s = (if s = ''-0.00'' then ''0.00'' else s)"

definition change_between :: "string \<Rightarrow> string \<Rightarrow> price_change result" where
  "change_between from to =
     ebind (to_units from) (\<lambda>a.
     ebind (to_units to) (\<lambda>b.
       let diff = b - a;
           absolute = units_to_string (div_half_even diff 100) 2;
           percent = (if a = 0 then None else Some (units_to_string (div_half_even (diff * 10000) a) 2))
       in Inr \<lparr>pg_absolute = no_minus_zero absolute, pg_percent = map_option no_minus_zero percent,
               pg_direction = (if absolute = ''0.00'' \<or> absolute = ''-0.00'' then 0 else if diff < 0 then - 1 else 1)\<rparr>))"

lemma to_units_px:
  assumes "px_from_string s = Inr p"
  shows "to_units s = Inr p"
proof -
  from assms obtain w f where d: "match_decimal s = Some (False, w, f)"
    by (auto simp: px_from_string_def px_re_def decimal_re_def result_simps split: option.splits)
  note m = match_decimal_shape[OF d]
  have "take 1 s \<noteq> ''-''" using m(1) by simp
  then show ?thesis using price_units_px[OF assms] by (simp add: to_units_def price_units_def chart_scale_def Let_def)
qed

lemma units_to_string_two: "units_to_string m 2 = money_to_string m"
  using cents_to_string_eq[of m] by (simp add: units_to_string_def cents_to_string_def)

lemma div_half_even_eq:
  assumes "0 < d"
  shows "div_half_even n d = half_even (of_int n / of_int d)"
proof (cases "n < 0")
  case True
  have "div_half_even n d = - half_even (of_int (- n) / of_int d)"
    using True assms truncated_half_even[of "- n" d] by (simp add: div_half_even_def Let_def mult.commute)
  also have "\<dots> = half_even (of_int n / of_int d)"
    using half_even_minus[of "of_int n / of_int d"] by simp
  finally show ?thesis .
next
  case False
  then show ?thesis
    using assms truncated_half_even[of n d] by (simp add: div_half_even_def Let_def mult.commute)
qed

lemma money_text_zero: "money_to_string 0 = ''0.00''"
  by code_simp

lemma no_minus_zero_money: "no_minus_zero (money_to_string m) = money_to_string m"
proof -
  have "money_to_string m \<noteq> ''-0.00''"
  proof
    assume "money_to_string m = ''-0.00''"
    then have "money_from_string ''-0.00'' = Inr m" using money_from_to_string[of m] by simp
    moreover have "money_from_string ''-0.00'' = Inr 0" by code_simp
    ultimately have "m = 0" by simp
    with money_text_zero \<open>money_to_string m = ''-0.00''\<close> show False by simp
  qed
  then show ?thesis by (simp add: no_minus_zero_def)
qed

text \<open>
  the readout of the chart is the server's day change. Between two prices the server parses, the change shown is
  the server's price delta: the absolute change in cents and the change in hundredths of a percent, each rounded half
  to even once although the server divides at 40 digits first; the arrow follows the amount shown, with none for zero.
\<close>

theorem chart_change_is_price_delta:
  assumes "decimal_arith D" "px_from_string from = Inr a" "px_from_string to = Inr b" "\<bar>b - a\<bar> < 10 ^ 35"
  shows "change_between from to = Inr \<lparr>pg_absolute = money_to_string (fst (price_delta D a b)),
     pg_percent = Some (money_to_string (snd (price_delta D a b))), pg_direction = sgn (fst (price_delta D a b))\<rparr>"
proof -
  note pos = px_from_string_pos[OF assms(2)]
  have "of_int (b - a) / of_int 100 = (px_rat b - px_rat a) * 10 ^ 2" by (simp add: field_simps)
  then have abs: "div_half_even (b - a) 100 = fst (price_delta D a b)"
    by (simp only: div_half_even_eq[of 100, simplified] price_delta_def Let_def fst_conv
        decimal_arith.dp_half_even[OF assms(1)] of_int_numeral)
  have "dec_dp D 2 (dec_div D (px_rat b - px_rat a) (px_rat a) * 100) = dec_dp D 4 (dec_div D (px_rat b - px_rat a) (px_rat a))"
    by (simp add: decimal_arith.dp_half_even[OF assms(1)] mult.commute)
  also have "\<dots> = half_even ((px_rat b - px_rat a) / px_rat a * 10 ^ 4)"
  proof (rule decimal_arith.dp_div_once[OF assms(1), where N = "(b - a) * 10000" and d = a])
    show "\<bar>(b - a) * 10000\<bar> < 10 ^ 39" using assms(4) by (simp add: abs_mult)
  qed (use pos in \<open>simp_all add: field_simps\<close>)
  also have "(px_rat b - px_rat a) / px_rat a * 10 ^ 4 = of_int ((b - a) * 10000) / of_int a"
    using pos by (simp add: field_simps)
  finally have pct: "div_half_even ((b - a) * 10000) a = snd (price_delta D a b)"
    by (simp only: div_half_even_eq[OF pos] price_delta_def Let_def snd_conv)
  note pct' = pct[unfolded left_diff_distrib]
  have "money_to_string m = ''0.00'' \<longleftrightarrow> m = 0" for m
    by (metis money_text_zero money_from_to_string sum.inject(2))
  moreover have "money_to_string m \<noteq> ''-0.00''" for m
    using no_minus_zero_money[of m] by (auto simp: no_minus_zero_def)
  moreover have "b - a < 0 \<Longrightarrow> fst (price_delta D a b) \<le> 0" "\<not> b - a < 0 \<Longrightarrow> 0 \<le> fst (price_delta D a b)"
    unfolding abs[symmetric] div_half_even_eq[of 100, simplified]
    by (auto intro: half_even_le_int[of _ 0, simplified] half_even_nonneg)
  ultimately show ?thesis
    using pos by (auto simp: change_between_def to_units_px[OF assms(2)] to_units_px[OF assms(3)] Let_def abs pct' left_diff_distrib
        units_to_string_two no_minus_zero_money sgn_if)
qed

theorem chart_change_is_price_delta_witness:
  "\<exists>c. change_between (px_to_string 2000000) (px_to_string 2064000) = Inr c \<and> pg_absolute c = money_to_string 640 \<and> pg_direction c = 1"
proof -
  have f: "fst (price_delta js_decimal 2000000 2064000) = 640"
    by (simp add: price_delta_def Let_def js.dp_half_even)
  from chart_change_is_price_delta[OF js.decimal_arith_axioms px_from_to_string px_from_to_string, of 2000000 2064000] f
  show ?thesis by auto
qed

section \<open>Alert prices\<close>

definition max_active_alerts :: nat where "max_active_alerts = 50"

definition alert_price_re :: "string \<Rightarrow> bool" where
  "alert_price_re s \<longleftrightarrow> decimal_re False (\<lambda>n. n \<le> 10) (\<lambda>n. n \<le> 4) s"

definition to_price_units :: "string \<Rightarrow> int result" where
  "to_price_units value =
     (let (whole, frac) = split_point value
      in ebind (big_int (or_zero whole)) (\<lambda>w.
         ebind (big_int (or_zero (take 4 (pad_end 4 frac)))) (\<lambda>f. Inr (w * 10000 + f))))"

definition compare_prices :: "string \<Rightarrow> string \<Rightarrow> int result" where
  "compare_prices a b =
     ebind (to_price_units a) (\<lambda>x. ebind (to_price_units b) (\<lambda>y. Inr (if x - y < 0 then - 1 else if x - y > 0 then 1 else 0)))"

definition sanitize_alert_price :: "string \<Rightarrow> string" where
  "sanitize_alert_price raw = one_point 4 (keep_digits_points raw)"

definition format_alert_price :: "string \<Rightarrow> string result" where
  "format_alert_price value =
     (let (whole, frac) = split_point value; trimmed = strip_zeros frac;
          decimals = (if length trimmed \<le> 2 then pad_end 2 trimmed else trimmed)
      in ebind (big_int (or_zero whole)) (\<lambda>w.
           Inr (''$'' @ (if w < 0 then ''-'' else []) @ locale_string (nat \<bar>w\<bar>) @ ''.'' @ decimals)))"

definition alert_condition :: "alert_direction \<Rightarrow> string \<Rightarrow> string result" where
  "alert_condition dir threshold =
     ebind (format_alert_price threshold) (\<lambda>p. Inr ((if dir = Above then ''above '' else ''below '') @ p))"

definition alert_title :: "string \<Rightarrow> alert_state \<Rightarrow> alert_direction \<Rightarrow> string \<Rightarrow> string result" where
  "alert_title symbol st dir threshold =
     ebind (alert_condition dir threshold) (\<lambda>c.
       Inr (symbol @ (if st = Alert_triggered then '' crossed '' else '' '') @ c))"

datatype alert_price_problem = Mid_typing | Malformed | Not_above_zero | Not_above_last | Not_below_last

definition check_alert_price :: "string \<Rightarrow> alert_direction \<Rightarrow> string option \<Rightarrow> (alert_price_problem + string) result" where
  "check_alert_price input dir latest =
     (let value = js_trim input
      in if value = [] \<or> last value = CHR ''.'' then Inr (Inl Mid_typing)
         else if \<not> alert_price_re value then Inr (Inl Malformed)
         else ebind (to_price_units value) (\<lambda>u.
           if u = 0 then Inr (Inl Not_above_zero)
           else case not_empty latest of
             None \<Rightarrow> Inr (Inr value)
           | Some l \<Rightarrow>
               ebind (compare_prices value l) (\<lambda>cmp.
                 if dir = Above \<and> cmp \<le> 0 then Inr (Inl Not_above_last)
                 else if dir = Below \<and> cmp \<ge> 0 then Inr (Inl Not_below_last)
                 else Inr (Inr value))))"

lemma to_price_units_scaled:
  assumes "match_decimal s = Some (False, w, f)" "length f \<le> 4"
  shows "to_price_units s = Inr (scaled 4 s)"
proof -
  note m = match_decimal_shape[OF assms(1)]
  have z: "take 4 (pad_end 4 f) = pad_end 4 f" "list_all is_digit (pad_end 4 f)"
    using assms(2) m(4) by (auto simp: pad_end_def list_all_iff)
  show ?thesis
    unfolding to_price_units_def split_money[OF assms(1), simplified] prod.case z(1)
    using or_zero_digits[OF m(3)] or_zero_digits[OF z(2)] by (simp add: big_int_digits scaled_def assms(1) Let_def z(1))
qed

lemma to_price_units_px: "px_from_string s = Inr p \<Longrightarrow> to_price_units s = Inr p"
  using price_units_px by (simp add: to_price_units_def price_units_def)

lemma threshold_value:
  assumes "alert_price_re s"
  shows "to_price_units s = Inr (scaled 4 s)" "0 < scaled 4 s \<Longrightarrow> parse_alert_threshold (Some s) = Inr (scaled 4 s)"
    "0 \<le> scaled 4 s"
proof -
  from assms obtain w f where d: "match_decimal s = Some (False, w, f)" "length f \<le> 4"
    by (cases "snd (snd (the (match_decimal s))) = []") (auto simp: alert_price_re_def decimal_re_def split: option.splits)
  show "to_price_units s = Inr (scaled 4 s)" by (rule to_price_units_scaled[OF d])
  have px: "px_re s" using assms by (auto simp: alert_price_re_def px_re_def decimal_re_def split: option.splits)
  show "0 \<le> scaled 4 s" using px unfolding px_re_def by (rule scaled_nonneg)
  assume "0 < scaled 4 s"
  moreover from this have "has_nonzero_digit s" using scaled_positive[of s] assms
    by (simp add: alert_price_re_def threshold_re_def)
  ultimately show "parse_alert_threshold (Some s) = Inr (scaled 4 s)"
    using assms px by (simp add: parse_alert_threshold_def threshold_re_def alert_price_re_def px_from_string_def)
qed

text \<open>
  an alert the sheet lets through is one the server takes and that has not fired yet. Whatever the user types,
  the check gives an answer; when it accepts, the server parses the text it sends to a positive threshold, and the last
  price shown does not meet the alert's condition, so creating it never triggers on the price the user saw.
\<close>

theorem accepted_alert_is_open:
  assumes "px_from_string latest = Inr q"
  shows "\<exists>r. check_alert_price input dir (Some latest) = Inr r
    \<and> (\<forall>price. r = Inr price \<longrightarrow> (\<exists>p. parse_alert_threshold (Some price) = Inr p \<and> 0 < p \<and> \<not> condition_holds dir p q))"
proof -
  let ?v = "js_trim input"
  have l: "not_empty (Some latest) = Some latest"
    using assms by (auto simp: not_empty_def px_from_string_def px_re_def decimal_re_def match_decimal_def result_simps)
  show ?thesis
  proof (cases "?v = [] \<or> last ?v = CHR ''.'' \<or> \<not> alert_price_re ?v")
    case True
    then show ?thesis by (auto simp: check_alert_price_def Let_def)
  next
    case False
    note t = threshold_value[of ?v]
    show ?thesis
    proof (cases "scaled 4 ?v = 0")
      case True
      with False t show ?thesis by (auto simp: check_alert_price_def Let_def)
    next
      case nonzero: False
      with False t have "0 < scaled 4 ?v" by auto
      with False t nonzero show ?thesis
        using to_price_units_px[OF assms]
        by (auto simp: check_alert_price_def Let_def l compare_prices_def condition_holds_iff split: if_splits; cases dir; simp)
    qed
  qed
qed

lemma js_trim_decimal:
  assumes "match_decimal s = Some (False, w, f)"
  shows "js_trim s = s" "s \<noteq> []" "last s \<noteq> CHR ''.''"
proof -
  note m = match_decimal_shape[OF assms]
  from m(2) have s: "s = w @ (if f = [] then [] else CHR ''.'' # f)" by simp
  have d: "is_digit (hd s)" "is_digit (last s)" "s \<noteq> []" using m(3-5) by (auto simp: s list_all_iff)
  then show "js_trim s = s" "s \<noteq> []" by (simp_all add: js_trim_digits)
  show "last s \<noteq> CHR ''.''" using d(2) by (auto simp: is_digit_def)
qed

theorem accepted_alert_is_open_witness:
  "\<exists>p. parse_alert_threshold (Some (px_to_string 2100000)) = Inr p \<and> 0 < p \<and> \<not> condition_holds Above p 2000000"
proof -
  have d: "match_decimal (px_to_string 2100000) = Some (False, show_nat 210, pad_start 4 (show_nat 0))"
    by (simp add: px_to_string_def match_fixed_text)
  have "alert_price_re (px_to_string 2100000)"
    by (simp add: alert_price_re_def px_to_string_def decimal_re_fixed_text length_show_nat_iff)
  moreover have "not_empty (Some (px_to_string 2000000)) = Some (px_to_string 2000000)"
    by (simp add: not_empty_def px_to_string_def fixed_text_def Let_def)
  ultimately have "check_alert_price (px_to_string 2100000) Above (Some (px_to_string 2000000)) = Inr (Inr (px_to_string 2100000))"
    using js_trim_decimal[OF d] to_price_units_px[OF px_from_to_string]
    by (simp add: check_alert_price_def Let_def compare_prices_def)
  with accepted_alert_is_open[OF px_from_to_string, of 2000000 "px_to_string 2100000" Above] show ?thesis by simp
qed

end
