(* ===== verification/Job_Runs.thy ===== *)
theory Job_Runs
  imports Effects
begin

text \<open>
  Scheduled jobs (\<^verbatim>\<open>src/worker/jobs/registry.ts\<close>) and their bookkeeping
  (\<^verbatim>\<open>src/infra/db/repositories/job-runs.ts\<close>, the table \<open>jobRuns\<close> of \<^verbatim>\<open>schema.ts\<close>). A trigger asks
  which jobs are due, claims each in one atomic upsert that leases it, runs it and writes the outcome.
  A job is a state transformer on the world of the worker; the store is an argument, as in the code,
  and the loop is reasoned about once under the contract the store promises. The text of an exception
  is a parameter (\<open>message\<close>); log lines are left out.
\<close>

section \<open>The repository\<close>

record job_row =
  jr_name :: string
  jr_started :: "time option"
  jr_succeeded :: "time option"
  jr_error :: "string option"
  jr_lease :: "time option"

record claim_opts =
  co_now :: time
  co_due_before :: time
  co_lease_until :: time

text \<open>The condition of \<open>setWhere\<close>; a missing time makes its disjunction true.\<close>

definition claimable :: "claim_opts \<Rightarrow> time option \<Rightarrow> time option \<Rightarrow> bool" where
  "claimable c succeeded lease \<longleftrightarrow>
     (case lease of None \<Rightarrow> True | Some l \<Rightarrow> l < co_now c)
     \<and> (case succeeded of None \<Rightarrow> True | Some s \<Rightarrow> s \<le> co_due_before c)"

text \<open>\<open>claim\<close>: a new row, or the update of the row in its place where the condition holds.\<close>

definition claim_run :: "string \<Rightarrow> claim_opts \<Rightarrow> job_row list \<Rightarrow> bool \<times> job_row list" where
  "claim_run n c rows =
     (case find (\<lambda>r. jr_name r = n) rows of
        None \<Rightarrow> (True, rows @ [\<lparr>jr_name = n, jr_started = Some (co_now c), jr_succeeded = None,
                               jr_error = None, jr_lease = Some (co_lease_until c)\<rparr>])
      | Some r \<Rightarrow>
          if claimable c (jr_succeeded r) (jr_lease r)
          then (True, modify (\<lambda>r. jr_name r = n)
                        (\<lambda>r. r\<lparr>jr_started := Some (co_now c), jr_lease := Some (co_lease_until c)\<rparr>) rows)
          else (False, rows))"

definition succeed_run :: "string \<Rightarrow> time \<Rightarrow> job_row list \<Rightarrow> job_row list" where
  "succeed_run n t = modify (\<lambda>r. jr_name r = n)
     (\<lambda>r. r\<lparr>jr_succeeded := Some t, jr_error := None, jr_lease := None\<rparr>)"

definition fail_run :: "string \<Rightarrow> string \<Rightarrow> job_row list \<Rightarrow> job_row list" where
  "fail_run n err = modify (\<lambda>r. jr_name r = n)
     (\<lambda>r. r\<lparr>jr_error := Some (take 2000 err), jr_lease := None\<rparr>)"

section \<open>The registry\<close>

record 'w job_store =
  st_claim :: "string \<Rightarrow> claim_opts \<Rightarrow> 'w \<Rightarrow> bool result \<times> 'w"
  st_succeed :: "string \<Rightarrow> time \<Rightarrow> 'w \<Rightarrow> unit result \<times> 'w"
  st_fail :: "string \<Rightarrow> string \<Rightarrow> 'w \<Rightarrow> unit result \<times> 'w"

record ('a, 'w) job =
  jb_name :: string
  jb_interval :: int
  jb_lease :: int
  jb_enabled :: "'w \<Rightarrow> bool"
  jb_run :: "'w \<Rightarrow> 'a result \<times> 'w"

definition define_job :: "string \<Rightarrow> int \<Rightarrow> int option \<Rightarrow> ('w \<Rightarrow> bool) option \<Rightarrow> ('w \<Rightarrow> 'a result \<times> 'w)
    \<Rightarrow> ('a, 'w) job" where
  "define_job n interval lease enabled run =
     \<lparr>jb_name = n, jb_interval = interval,
      jb_lease = (case lease of None \<Rightarrow> 15 * 60000 | Some l \<Rightarrow> l),
      jb_enabled = (case enabled of None \<Rightarrow> (\<lambda>_. True) | Some e \<Rightarrow> e),
      jb_run = run\<rparr>"

datatype 'a job_status = Ran 'a | Failed string | Not_due | Disabled

type_synonym 'a job_outcome = "string \<times> 'a job_status"

definition claim_opts_of :: "bool \<Rightarrow> ('a, 'w) job \<Rightarrow> time \<Rightarrow> claim_opts" where
  "claim_opts_of force j start =
     \<lparr>co_now = start, co_due_before = (if force then start else start - jb_interval j),
      co_lease_until = start + jb_lease j\<rparr>"

text \<open>
  The \<open>try\<close> of the loop: the run and the note of its success, and when either throws the note of the
  failure, outside of any \<open>try\<close>.
\<close>

definition run_claimed :: "(exn \<Rightarrow> string) \<Rightarrow> 'w job_store \<Rightarrow> ('w \<Rightarrow> time) \<Rightarrow> ('a, 'w) job \<Rightarrow> 'w
    \<Rightarrow> 'a job_outcome result \<times> 'w" where
  "run_claimed message st now j w =
     (case wbind (jb_run j w) (\<lambda>x w. wbind (st_succeed st (jb_name j) (now w) w) (\<lambda>_ w. (Inr x, w))) of
        (Inr x, w) \<Rightarrow> (Inr (jb_name j, Ran x), w)
      | (Inl e, w) \<Rightarrow>
          wbind (st_fail st (jb_name j) (message e) w) (\<lambda>_ w. (Inr (jb_name j, Failed (message e)), w)))"

definition run_job :: "(exn \<Rightarrow> string) \<Rightarrow> 'w job_store \<Rightarrow> ('w \<Rightarrow> time) \<Rightarrow> bool \<Rightarrow> ('a, 'w) job \<Rightarrow> 'w
    \<Rightarrow> 'a job_outcome result \<times> 'w" where
  "run_job message st now force j w =
     (if \<not> jb_enabled j w then (Inr (jb_name j, Disabled), w)
      else wbind (st_claim st (jb_name j) (claim_opts_of force j (now w)) w) (\<lambda>claimed w.
             if \<not> claimed then (Inr (jb_name j, Not_due), w)
             else run_claimed message st now j w))"

fun run_due_jobs :: "(exn \<Rightarrow> string) \<Rightarrow> 'w job_store \<Rightarrow> ('w \<Rightarrow> time) \<Rightarrow> bool \<Rightarrow> ('a, 'w) job list \<Rightarrow> 'w
    \<Rightarrow> 'a job_outcome list result \<times> 'w" where
  "run_due_jobs message st now force [] w = (Inr [], w)"
| "run_due_jobs message st now force (j # js) w =
     wbind (run_job message st now force j w) (\<lambda>o1 w.
     wbind (run_due_jobs message st now force js w) (\<lambda>os w. (Inr (o1 # os), w)))"

section \<open>The contract of the store and the loop under it\<close>

text \<open>
  What the loop relies on: the store shows for each job name its last success and its lease, a claim
  succeeds exactly when that is claimable and leases it, and an outcome clears the lease. It does not
  move the clock.
\<close>

type_synonym job_view = "(time option \<times> time option) option"

definition view_claimable :: "claim_opts \<Rightarrow> job_view \<Rightarrow> bool" where
  "view_claimable c v = (case v of None \<Rightarrow> True | Some (s, l) \<Rightarrow> claimable c s l)"

definition last_success :: "job_view \<Rightarrow> time option" where
  "last_success v = (case v of None \<Rightarrow> None | Some (s, l) \<Rightarrow> s)"

locale job_bookkeeping =
  fixes st :: "'w job_store"
    and now :: "'w \<Rightarrow> time"
    and view :: "'w \<Rightarrow> string \<Rightarrow> job_view"
  assumes claim_answers: "fst (st_claim st n c w) = Inr (view_claimable c (view w n))"
    and claim_leases: "view (snd (st_claim st n c w)) =
      (if view_claimable c (view w n)
       then (view w)(n := Some (last_success (view w n), Some (co_lease_until c))) else view w)"
    and claim_clock: "now (snd (st_claim st n c w)) = now w"
    and succeed_answers: "fst (st_succeed st n t w) = Inr ()"
    and succeed_notes: "view (snd (st_succeed st n t w)) =
      (view w)(n := map_option (\<lambda>_. (Some t, None)) (view w n))"
    and succeed_clock: "now (snd (st_succeed st n t w)) = now w"
    and fail_answers: "fst (st_fail st n err w) = Inr ()"
    and fail_notes: "view (snd (st_fail st n err w)) =
      (view w)(n := map_option (\<lambda>(s, l). (s, None)) (view w n))"
    and fail_clock: "now (snd (st_fail st n err w)) = now w"
begin

text \<open>A job minds its own business: its run neither writes the bookkeeping nor turns back the clock.\<close>

definition well_behaved :: "('a, 'w) job \<Rightarrow> bool" where
  "well_behaved j \<longleftrightarrow> (\<forall>w. view (snd (jb_run j w)) = view w \<and> now w \<le> now (snd (jb_run j w)))"

definition is_due :: "bool \<Rightarrow> ('a, 'w) job \<Rightarrow> 'w \<Rightarrow> bool" where
  "is_due force j w \<longleftrightarrow> view_claimable (claim_opts_of force j (now w)) (view w (jb_name j))"

lemma st_claim_eq:
  "\<exists>w'. st_claim st n c w = (Inr (view_claimable c (view w n)), w')
    \<and> view w' = (if view_claimable c (view w n)
         then (view w)(n := Some (last_success (view w n), Some (co_lease_until c))) else view w)
    \<and> now w' = now w"
  by (rule exI[of _ "snd (st_claim st n c w)"])
     (simp add: claim_leases claim_clock prod_eq_iff claim_answers)

lemma st_succeed_eq:
  "\<exists>w'. st_succeed st n t w = (Inr (), w')
    \<and> view w' = (view w)(n := map_option (\<lambda>_. (Some t, None)) (view w n)) \<and> now w' = now w"
  by (rule exI[of _ "snd (st_succeed st n t w)"])
     (simp add: succeed_notes succeed_clock prod_eq_iff succeed_answers)

lemma st_fail_eq:
  "\<exists>w'. st_fail st n err w = (Inr (), w')
    \<and> view w' = (view w)(n := map_option (\<lambda>(s, l). (s, None)) (view w n)) \<and> now w' = now w"
  by (rule exI[of _ "snd (st_fail st n err w)"])
     (simp add: fail_notes fail_clock prod_eq_iff fail_answers)

text \<open>What one turn of the loop makes of a job.\<close>

lemma run_job_result:
  assumes "well_behaved j"
  shows "\<exists>s w'. run_job message st now force j w = (Inr (jb_name j, s), w') \<and> now w \<le> now w'
    \<and> (s = Disabled \<longleftrightarrow> \<not> jb_enabled j w)
    \<and> (s = Not_due \<longleftrightarrow> jb_enabled j w \<and> \<not> is_due force j w)
    \<and> view w' = (case s of
          Ran x \<Rightarrow> (view w)(jb_name j := Some (Some (now w'), None))
        | Failed err \<Rightarrow> (view w)(jb_name j := Some (last_success (view w (jb_name j)), None))
        | Not_due \<Rightarrow> view w
        | Disabled \<Rightarrow> view w)"
proof -
  obtain w1 where c: "st_claim st (jb_name j) (claim_opts_of force j (now w)) w = (Inr (is_due force j w), w1)"
    and v1: "view w1 = (if is_due force j w then (view w)(jb_name j := Some (last_success (view w (jb_name j)),
        Some (co_lease_until (claim_opts_of force j (now w))))) else view w)"
    and n1: "now w1 = now w"
    using st_claim_eq[of "jb_name j" "claim_opts_of force j (now w)" w] unfolding is_due_def by blast
  obtain r w2 where run: "jb_run j w1 = (r, w2)" by (cases "jb_run j w1")
  have v2: "view w2 = view w1" and n2: "now w1 \<le> now w2"
    using assms run unfolding well_behaved_def by (metis snd_conv)+
  obtain w3 where s: "st_succeed st (jb_name j) (now w2) w2 = (Inr (), w3)"
    "view w3 = (view w2)(jb_name j := map_option (\<lambda>_. (Some (now w2), None)) (view w2 (jb_name j)))" "now w3 = now w2"
    using st_succeed_eq[of "jb_name j" "now w2" w2] by blast
  note f = st_fail_eq[of "jb_name j" _ w2]
  show ?thesis
  proof (cases r)
    case (Inr x)
    with c run s v1 v2 n1 n2 show ?thesis
      by (auto simp: run_job_def run_claimed_def fun_upd_twist)
  next
    case (Inl e)
    obtain w4 where "st_fail st (jb_name j) (message e) w2 = (Inr (), w4)"
      "view w4 = (view w2)(jb_name j := map_option (\<lambda>(s, l). (s, None)) (view w2 (jb_name j)))" "now w4 = now w2"
      using f by blast
    with Inl c run v1 v2 n1 n2 show ?thesis by (auto simp: run_job_def run_claimed_def)
  qed
qed

text \<open>Being due only grows with time, so what is due when the tick starts is due in its turn.\<close>

lemma is_due_later:
  assumes "is_due force j w" and "now w \<le> now w'" and "view w' (jb_name j) = view w (jb_name j)"
  shows "is_due force j w'"
  using assms unfolding is_due_def view_claimable_def claimable_def claim_opts_of_def
  by (auto split: option.splits prod.splits if_splits)

definition outcome_fits :: "bool \<Rightarrow> ('a, 'w) job \<Rightarrow> 'a job_status \<Rightarrow> 'w \<Rightarrow> 'w \<Rightarrow> bool" where
  "outcome_fits force j s w w' \<longleftrightarrow>
     (case s of
        Ran x \<Rightarrow> \<exists>t. now w \<le> t \<and> t \<le> now w' \<and> view w' (jb_name j) = Some (Some t, None)
      | Failed err \<Rightarrow> view w' (jb_name j) = Some (last_success (view w (jb_name j)), None)
      | Not_due \<Rightarrow> \<not> is_due force j w \<and> view w' (jb_name j) = view w (jb_name j)
      | Disabled \<Rightarrow> (\<exists>w1. \<not> jb_enabled j w1) \<and> view w' (jb_name j) = view w (jb_name j))"

lemma run_due_jobs_result:
  assumes "\<And>j. j \<in> set jobs \<Longrightarrow> well_behaved j" and "distinct (map jb_name jobs)"
  shows "\<exists>os w'. run_due_jobs message st now force jobs w = (Inr os, w') \<and> now w \<le> now w'
    \<and> map fst os = map jb_name jobs
    \<and> (\<forall>n. n \<notin> jb_name ` set jobs \<longrightarrow> view w' n = view w n)
    \<and> list_all2 (\<lambda>j out. outcome_fits force j (snd out) w w') jobs os"
  using assms
proof (induction jobs arbitrary: w)
  case (Cons j js)
  from Cons.prems have ok: "well_behaved j" and fresh: "jb_name j \<notin> jb_name ` set js" by auto
  obtain s w1 where j: "run_job message st now force j w = (Inr (jb_name j, s), w1)" and t1: "now w \<le> now w1"
    and s: "s = Disabled \<longleftrightarrow> \<not> jb_enabled j w" "s = Not_due \<longleftrightarrow> jb_enabled j w \<and> \<not> is_due force j w"
    and v: "view w1 = (case s of
          Ran x \<Rightarrow> (view w)(jb_name j := Some (Some (now w1), None))
        | Failed err \<Rightarrow> (view w)(jb_name j := Some (last_success (view w (jb_name j)), None))
        | Not_due \<Rightarrow> view w
        | Disabled \<Rightarrow> view w)"
    using run_job_result[OF ok] by blast
  obtain os w' where js: "run_due_jobs message st now force js w1 = (Inr os, w')" and t2: "now w1 \<le> now w'"
    and names: "map fst os = map jb_name js"
    and rest: "\<forall>n. n \<notin> jb_name ` set js \<longrightarrow> view w' n = view w1 n"
    and fits: "list_all2 (\<lambda>j out. outcome_fits force j (snd out) w1 w') js os"
    using Cons.IH[of w1] Cons.prems by auto
  have other: "view w1 n = view w n" if "n \<noteq> jb_name j" for n
    using v that by (cases s) auto
  have "outcome_fits force j s w w'"
    using s v rest fresh t1 t2 unfolding outcome_fits_def by (cases s) auto
  moreover have "outcome_fits force k (snd out) w w'"
    if "k \<in> set js" and f: "outcome_fits force k (snd out) w1 w'" for k :: "('a, 'w) job" and out :: "'a job_outcome"
  proof -
    have same: "view w1 (jb_name k) = view w (jb_name k)" using that(1) fresh by (metis image_eqI other)
    show ?thesis
      using f same is_due_later[of force k w w1] t1 unfolding outcome_fits_def
      by (cases "snd out") (auto intro: order_trans)
  qed
  then have "list_all2 (\<lambda>j out. outcome_fits force j (snd out) w w') js os"
    using fits by (auto simp: list_all2_conv_all_nth)
  ultimately show ?case using j js names rest other t1 t2 by auto
qed simp

text \<open>What a tick leaves behind: a job that failed is due at once, one that ran after its interval.\<close>

lemma failed_is_due_again:
  assumes "outcome_fits force j (Failed err) w w'" and "is_due False j w" and "now w \<le> now w'"
  shows "is_due False j w'"
  using assms unfolding outcome_fits_def is_due_def view_claimable_def claimable_def claim_opts_of_def
    last_success_def by (auto split: option.splits prod.splits)

lemma ran_waits_for_interval:
  assumes "outcome_fits force j (Ran x) w w'" and "view w'' (jb_name j) = view w' (jb_name j)"
  shows "\<exists>t. now w \<le> t \<and> t \<le> now w' \<and> (is_due False j w'' \<longleftrightarrow> t + jb_interval j \<le> now w'')"
  using assms unfolding outcome_fits_def is_due_def view_claimable_def claimable_def claim_opts_of_def
  by (auto simp: algebra_simps)

end

section \<open>The repository keeps the contract\<close>

record 'x worker =
  wk_rows :: "job_row list"
  wk_clock :: time
  wk_rest :: 'x

text \<open>The store on the table of the worker's world, each operation one statement.\<close>

definition pg_store :: "'x worker job_store" where
  "pg_store =
     \<lparr>st_claim = (\<lambda>n c w. let (b, rows) = claim_run n c (wk_rows w) in (Inr b, w\<lparr>wk_rows := rows\<rparr>)),
      st_succeed = (\<lambda>n t w. (Inr (), w\<lparr>wk_rows := succeed_run n t (wk_rows w)\<rparr>)),
      st_fail = (\<lambda>n err w. (Inr (), w\<lparr>wk_rows := fail_run n err (wk_rows w)\<rparr>))\<rparr>"

definition row_view :: "job_row list \<Rightarrow> string \<Rightarrow> job_view" where
  "row_view rows n = map_option (\<lambda>r. (jr_succeeded r, jr_lease r)) (find (\<lambda>r. jr_name r = n) rows)"

lemma row_view_modify:
  "(\<And>r. jr_name (f r) = jr_name r) \<Longrightarrow>
   row_view (modify (\<lambda>r. jr_name r = n) f rows) = (row_view rows)(n :=
     map_option (\<lambda>r. (jr_succeeded r, jr_lease r)) (map_option f (find (\<lambda>r. jr_name r = n) rows)))"
  by (rule ext) (simp add: row_view_def find_modify)

lemma row_view_claim:
  "claim_run n c rows = (b, rows') \<Longrightarrow>
   b = view_claimable c (row_view rows n)
    \<and> row_view rows' = (if b
       then (row_view rows)(n := Some (last_success (row_view rows n), Some (co_lease_until c))) else row_view rows)"
proof (cases "find (\<lambda>r. jr_name r = n) rows")
  case None
  then show "claim_run n c rows = (b, rows') \<Longrightarrow> ?thesis"
    by (auto simp: claim_run_def view_claimable_def last_success_def row_view_def find_append fun_eq_iff
        split: option.splits)
next
  case (Some r)
  then show "claim_run n c rows = (b, rows') \<Longrightarrow> ?thesis"
    by (auto simp: claim_run_def row_view_modify split: if_splits)
       (auto simp: view_claimable_def last_success_def row_view_def)
qed

lemma row_view_succeed: "row_view (succeed_run n t rows) =
    (row_view rows)(n := map_option (\<lambda>_. (Some t, None)) (row_view rows n))"
  unfolding succeed_run_def by (subst row_view_modify) (simp_all add: row_view_def option.map_comp comp_def)

lemma row_view_fail: "row_view (fail_run n err rows) =
    (row_view rows)(n := map_option (\<lambda>(s, l). (s, None)) (row_view rows n))"
  unfolding fail_run_def by (subst row_view_modify) (simp_all add: row_view_def option.map_comp comp_def)

interpretation pg: job_bookkeeping pg_store wk_clock "\<lambda>w. row_view (wk_rows w)"
proof
  fix n c and w :: "'a worker"
  obtain b rows where "claim_run n c (wk_rows w) = (b, rows)" by (cases "claim_run n c (wk_rows w)")
  with row_view_claim[OF this]
  show "fst (st_claim pg_store n c w) = Inr (view_claimable c (row_view (wk_rows w) n))"
    and "row_view (wk_rows (snd (st_claim pg_store n c w))) =
      (if view_claimable c (row_view (wk_rows w) n)
       then (row_view (wk_rows w))(n := Some (last_success (row_view (wk_rows w) n), Some (co_lease_until c)))
       else row_view (wk_rows w))"
    and "wk_clock (snd (st_claim pg_store n c w)) = wk_clock w"
    by (simp_all add: pg_store_def)
qed (simp_all add: pg_store_def row_view_succeed row_view_fail)

section \<open>Properties of the tick\<close>

text \<open>A job that neither writes the bookkeeping nor turns back the clock.\<close>

definition minds_its_business :: "('a, 'x worker) job \<Rightarrow> bool" where
  "minds_its_business j \<longleftrightarrow> (\<forall>w. row_view (wk_rows (snd (jb_run j w))) = row_view (wk_rows w)
     \<and> wk_clock w \<le> wk_clock (snd (jb_run j w)))"

text \<open>Claimable at the time of the world: never succeeded or the interval has passed, and not leased.\<close>

definition due_now :: "('a, 'x worker) job \<Rightarrow> 'x worker \<Rightarrow> bool" where
  "due_now j w \<longleftrightarrow>
     (case find (\<lambda>r. jr_name r = jb_name j) (wk_rows w) of
        None \<Rightarrow> True
      | Some r \<Rightarrow> (\<forall>l. jr_lease r = Some l \<longrightarrow> l < wk_clock w)
          \<and> (\<forall>t. jr_succeeded r = Some t \<longrightarrow> t + jb_interval j \<le> wk_clock w))"

definition status_of :: "'a job_outcome list \<Rightarrow> ('a, 'w) job \<Rightarrow> 'a job_status option" where
  "status_of os j = map_of os (jb_name j)"

lemma due_now_iff: "due_now j w \<longleftrightarrow> pg.is_due False j w"
  by (auto simp: due_now_def pg.is_due_def view_claimable_def row_view_def claimable_def
      claim_opts_of_def algebra_simps split: option.splits)

lemma well_behaved_iff: "minds_its_business j \<longleftrightarrow> pg.well_behaved j"
  by (simp add: minds_its_business_def pg.well_behaved_def)

lemma status_of_zip:
  assumes "list_all2 (\<lambda>j out. P j (snd out)) jobs os" and "map fst os = map jb_name jobs"
    and "distinct (map jb_name jobs)" and "j \<in> set jobs"
  shows "\<exists>s. status_of os j = Some s \<and> P j s"
proof -
  obtain i where i: "i < length jobs" "jobs ! i = j" using assms(4) by (auto simp: in_set_conv_nth)
  have n: "i < length os" using assms(1) i by (simp add: list_all2_lengthD)
  have name: "fst (os ! i) = jb_name j" using assms(2) i n by (metis nth_map)
  have "map_of os (jb_name j) = Some (snd (os ! i))"
    using n name assms(2,3) by (metis map_of_eq_Some_iff nth_mem prod.collapse)
  with assms(1) i n show ?thesis by (auto simp: status_of_def list_all2_conv_all_nth)
qed

lemma tick_of_jobs:
  assumes "\<And>j. j \<in> set jobs \<Longrightarrow> minds_its_business j" and "distinct (map jb_name jobs)"
  obtains os w' where "run_due_jobs message pg_store wk_clock force jobs w = (Inr os, w')"
    and "wk_clock w \<le> wk_clock w'" and "map fst os = map jb_name jobs"
    and "\<And>j. j \<in> set jobs \<Longrightarrow> \<exists>s. status_of os j = Some s \<and> pg.outcome_fits force j s w w'"
proof -
  obtain os w' where "run_due_jobs message pg_store wk_clock force jobs w = (Inr os, w')"
    "wk_clock w \<le> wk_clock w'" and os: "map fst os = map jb_name jobs"
    and fits: "list_all2 (\<lambda>j out. pg.outcome_fits force j (snd out) w w') jobs os"
    using pg.run_due_jobs_result[of jobs message force w] assms unfolding well_behaved_iff by blast
  with status_of_zip[OF fits os assms(2)] show thesis by (intro that) auto
qed

text \<open>
  A tick over jobs that mind their own business always answers, with one outcome per job in order.
  A job that is enabled and due when the tick starts runs in it; if it fails it is due again at once,
  and if it succeeds it is due again exactly when its interval has passed, unless its row is written
  by another. Whatever the other jobs of the tick do, fail included, changes nothing of this.
\<close>

theorem due_jobs_run:
  assumes "\<And>j. j \<in> set jobs \<Longrightarrow> minds_its_business j" and "distinct (map jb_name jobs)"
    and "j \<in> set jobs" and "\<And>w. jb_enabled j w" and "due_now j w"
  shows "\<exists>os w'. run_due_jobs message pg_store wk_clock False jobs w = (Inr os, w')
    \<and> map fst os = map jb_name jobs
    \<and> ((\<exists>err. status_of os j = Some (Failed err) \<and> due_now j w')
       \<or> (\<exists>x t. status_of os j = Some (Ran x) \<and> wk_clock w \<le> t \<and> t \<le> wk_clock w'
            \<and> (\<forall>w2. row_view (wk_rows w2) (jb_name j) = row_view (wk_rows w') (jb_name j)
                  \<longrightarrow> due_now j w2 = (t + jb_interval j \<le> wk_clock w2))))"
proof -
  obtain os w' s where run: "run_due_jobs message pg_store wk_clock False jobs w = (Inr os, w')"
    and names: "map fst os = map jb_name jobs" and clock: "wk_clock w \<le> wk_clock w'"
    and s: "status_of os j = Some s" and fits: "pg.outcome_fits False j s w w'"
    using tick_of_jobs[OF assms(1,2)] assms(3) by metis
  have "(\<exists>err. status_of os j = Some (Failed err) \<and> due_now j w')
       \<or> (\<exists>x t. status_of os j = Some (Ran x) \<and> wk_clock w \<le> t \<and> t \<le> wk_clock w'
            \<and> (\<forall>w2. row_view (wk_rows w2) (jb_name j) = row_view (wk_rows w') (jb_name j)
                  \<longrightarrow> due_now j w2 = (t + jb_interval j \<le> wk_clock w2)))"
  proof (cases s)
    case (Ran x)
    then obtain t where "wk_clock w \<le> t" "t \<le> wk_clock w'"
      "row_view (wk_rows w') (jb_name j) = Some (Some t, None)"
      using fits by (auto simp: pg.outcome_fits_def)
    moreover from this have "\<forall>w2. row_view (wk_rows w2) (jb_name j) = row_view (wk_rows w') (jb_name j)
        \<longrightarrow> due_now j w2 = (t + jb_interval j \<le> wk_clock w2)"
      by (auto simp: due_now_def row_view_def split: option.splits)
    ultimately show ?thesis using s Ran by blast
  next
    case (Failed err)
    then have "due_now j w'"
      using pg.failed_is_due_again[OF _ _ clock] fits assms(5) unfolding due_now_iff by simp
    with s Failed show ?thesis by blast
  next
    case Not_due
    then show ?thesis using fits assms(5) by (simp add: pg.outcome_fits_def due_now_iff)
  next
    case Disabled
    then show ?thesis using fits assms(4) by (simp add: pg.outcome_fits_def)
  qed
  with run names show ?thesis by blast
qed

definition failing_job :: "(nat, unit worker) job" where
  "failing_job = define_job ''fails'' 60000 None None (\<lambda>w. (Inl UnknownSymbol, w\<lparr>wk_clock := wk_clock w + 5\<rparr>))"

definition counting_job :: "(nat, unit worker) job" where
  "counting_job = define_job ''counts'' 60000 (Some 1000) None (\<lambda>w. (Inr 7, w\<lparr>wk_clock := wk_clock w + 10\<rparr>))"

definition fresh_worker :: "unit worker" where
  "fresh_worker = \<lparr>wk_rows = [], wk_clock = 1000000, wk_rest = ()\<rparr>"

theorem due_jobs_run_witness:
  "\<exists>os w'. run_due_jobs (\<lambda>_. ''no'') pg_store wk_clock False [failing_job, counting_job] fresh_worker = (Inr os, w')
    \<and> map fst os = [''fails'', ''counts'']
    \<and> ((\<exists>err. status_of os failing_job = Some (Failed err) \<and> due_now failing_job w')
       \<or> (\<exists>x. status_of os failing_job = Some (Ran x)))"
proof -
  have "minds_its_business failing_job" "minds_its_business counting_job"
    "distinct (map jb_name [failing_job, counting_job])" "due_now failing_job fresh_worker"
    "\<And>w. jb_enabled failing_job w"
    by (simp_all add: minds_its_business_def failing_job_def counting_job_def define_job_def due_now_def
        fresh_worker_def)
  then have "\<exists>os w'. run_due_jobs (\<lambda>_. ''no'') pg_store wk_clock False [failing_job, counting_job] fresh_worker = (Inr os, w')
    \<and> map fst os = map jb_name [failing_job, counting_job]
    \<and> ((\<exists>err. status_of os failing_job = Some (Failed err) \<and> due_now failing_job w')
       \<or> (\<exists>x t. status_of os failing_job = Some (Ran x) \<and> wk_clock fresh_worker \<le> t \<and> t \<le> wk_clock w'
            \<and> (\<forall>w2. row_view (wk_rows w2) (jb_name failing_job) = row_view (wk_rows w') (jb_name failing_job)
                  \<longrightarrow> due_now failing_job w2 = (t + jb_interval failing_job \<le> wk_clock w2))))"
    by (intro due_jobs_run) auto
  then show ?thesis by (auto simp: failing_job_def counting_job_def define_job_def)
qed

section \<open>Overlapping triggers\<close>

text \<open>
  Several processes trigger at once. Between its claim and its outcome a run of a job is in flight with
  the end of its lease; every access to the table is one statement of the repository, and time passes.
\<close>

record triggers =
  tg_rows :: "job_row list"
  tg_now :: time
  tg_runs :: "(string \<times> time) list"

inductive trigger_step :: "triggers \<Rightarrow> triggers \<Rightarrow> bool" where
  time_passes: "tg_now s \<le> t \<Longrightarrow> trigger_step s (s\<lparr>tg_now := t\<rparr>)"
| claimed: "co_now c = tg_now s \<Longrightarrow> claim_run n c (tg_rows s) = (True, rows)
    \<Longrightarrow> trigger_step s (s\<lparr>tg_rows := rows, tg_runs := (n, co_lease_until c) # tg_runs s\<rparr>)"
| turned_away: "co_now c = tg_now s \<Longrightarrow> claim_run n c (tg_rows s) = (False, rows)
    \<Longrightarrow> trigger_step s (s\<lparr>tg_rows := rows\<rparr>)"
| succeeded: "tg_runs s = before @ (n, l) # after \<Longrightarrow> t \<le> tg_now s
    \<Longrightarrow> trigger_step s (s\<lparr>tg_rows := succeed_run n t (tg_rows s), tg_runs := before @ after\<rparr>)"
| failed: "tg_runs s = before @ (n, l) # after
    \<Longrightarrow> trigger_step s (s\<lparr>tg_rows := fail_run n err (tg_rows s), tg_runs := before @ after\<rparr>)"

definition within_leases :: "triggers \<Rightarrow> bool" where
  "within_leases s \<longleftrightarrow> list_all (\<lambda>(n, l). tg_now s \<le> l) (tg_runs s)"

text \<open>The reachable states in which no run has outlived its lease so far.\<close>

inductive punctual :: "triggers \<Rightarrow> bool" where
  idle: "tg_runs s = [] \<Longrightarrow> punctual s"
| goes_on: "punctual s \<Longrightarrow> trigger_step s s' \<Longrightarrow> within_leases s' \<Longrightarrow> punctual s'"

definition leases_held :: "triggers \<Rightarrow> bool" where
  "leases_held s \<longleftrightarrow> distinct (map fst (tg_runs s))
     \<and> (\<forall>(n, l) \<in> set (tg_runs s). \<exists>succ. row_view (tg_rows s) n = Some (succ, Some l))"

lemma leases_heldD:
  "leases_held s \<Longrightarrow> (n, l) \<in> set (tg_runs s) \<Longrightarrow> \<exists>succ. row_view (tg_rows s) n = Some (succ, Some l)"
  by (auto simp: leases_held_def)

lemma leases_held_finish:
  assumes "leases_held s" and runs: "tg_runs s = before @ (n, l) # after"
    and "\<And>m. m \<noteq> n \<Longrightarrow> row_view rows m = row_view (tg_rows s) m"
  shows "leases_held (s\<lparr>tg_rows := rows, tg_runs := before @ after\<rparr>)"
proof -
  have d: "distinct (map fst (before @ (n, l) # after))" using assms(1) runs by (simp add: leases_held_def)
  have "\<exists>succ. row_view rows m = Some (succ, Some k)" if "(m, k) \<in> set (before @ after)" for m k
  proof -
    have "n \<notin> fst ` set (before @ after)" using d by (simp add: image_Un)
    then have "m \<noteq> n" using imageI[OF that, of fst] by (metis fst_conv)
    moreover have "(m, k) \<in> set (tg_runs s)" using that runs by auto
    ultimately show ?thesis using leases_heldD[OF assms(1)] assms(3) by simp
  qed
  then have "\<forall>(m, k) \<in> set (before @ after). \<exists>succ. row_view rows m = Some (succ, Some k)" by blast
  moreover have "distinct (map fst (before @ after))" using d by simp
  ultimately show ?thesis by (simp add: leases_held_def)
qed

lemma leases_held_step:
  assumes "trigger_step s s'" and "leases_held s" and "within_leases s"
  shows "leases_held s'"
  using assms
proof (cases rule: trigger_step.cases)
  case (claimed c n rows)
  note v = row_view_claim[OF claimed(3)]
  have "n \<notin> fst ` set (tg_runs s)"
  proof
    assume "n \<in> fst ` set (tg_runs s)"
    then obtain l where l: "(n, l) \<in> set (tg_runs s)" by auto
    then have "tg_now s \<le> l" using assms(3) by (auto simp: within_leases_def list_all_iff)
    moreover from l obtain succ where "row_view (tg_rows s) n = Some (succ, Some l)"
      using assms(2) by (auto simp: leases_held_def)
    ultimately show False using v claimed(2) by (simp add: view_claimable_def claimable_def)
  qed
  moreover have "\<exists>succ. row_view rows m = Some (succ, Some l)" if "(m, l) \<in> set (tg_runs s)" for m l
  proof -
    have "m \<noteq> n" using \<open>n \<notin> fst ` set (tg_runs s)\<close> that by force
    with v show ?thesis using leases_heldD[OF assms(2) that] by simp
  qed
  ultimately show ?thesis using assms(2) v claimed(1) by (auto simp: leases_held_def)
next
  case (turned_away c n rows)
  then show ?thesis using assms(2) row_view_claim[OF turned_away(3)] by (simp add: leases_held_def)
next
  case (succeeded before n l after t)
  then show ?thesis using leases_held_finish[OF assms(2) succeeded(2)] by (simp add: row_view_succeed)
next
  case (failed before n l after err)
  then show ?thesis using leases_held_finish[OF assms(2) failed(2)] by (simp add: row_view_fail)
qed (simp add: leases_held_def)

lemma punctual_held: "punctual s \<Longrightarrow> leases_held s \<and> within_leases s"
proof (induction rule: punctual.induct)
  case (idle s)
  then show ?case by (simp add: leases_held_def within_leases_def)
next
  case (goes_on s s')
  then show ?case using leases_held_step by blast
qed

text \<open>
  As long as no run outlives its lease, overlapping triggers never have two runs of one job in
  flight, in any interleaving of their statements.
\<close>

theorem lease_excludes_overlap:
  assumes "punctual s"
  shows "distinct (map fst (tg_runs s))"
  using punctual_held[OF assms] by (simp add: leases_held_def)

definition one_claim :: triggers where
  "one_claim = \<lparr>tg_rows = snd (claim_run ''top100'' \<lparr>co_now = 100, co_due_before = 40, co_lease_until = 160\<rparr> []),
     tg_now = 100, tg_runs = [(''top100'', 160)]\<rparr>"

lemma one_claim_punctual: "punctual one_claim"
proof -
  define s where "s = \<lparr>tg_rows = [], tg_now = 100, tg_runs = []\<rparr>"
  have "trigger_step s one_claim"
    using trigger_step.claimed[of "\<lparr>co_now = 100, co_due_before = 40, co_lease_until = 160\<rparr>" s "''top100''"]
    by (simp add: s_def one_claim_def claim_run_def)
  moreover have "punctual s" by (rule punctual.idle) (simp add: s_def)
  moreover have "within_leases one_claim" by (simp add: within_leases_def one_claim_def)
  ultimately show ?thesis by (blast intro: punctual.goes_on)
qed

theorem lease_excludes_overlap_witness: "distinct (map fst (tg_runs one_claim))"
  by (rule lease_excludes_overlap[OF one_claim_punctual])


end
