(* ===== verification/Worker.thy ===== *)
theory Worker
  imports System Job_Runs
begin

text \<open>
  The worker process (\<^verbatim>\<open>src/worker/main.ts\<close>): its reconciliation run, the health report and the
  requests it serves, on a world of the venue with the database, the rows of the job bookkeeping, the
  clock and the variables of the process. The event stream is in \<open>Alpaca_Stream\<close>. Sockets, shutdown,
  log lines and the JSON form of the answers are left out; whether the database answers a probe is an
  argument of the health request.
\<close>

section \<open>The process\<close>

record 'v process =
  pr_world :: "'v \<times> db"
  pr_last_event :: "time option"
  pr_last_reconcile :: "time option"
  pr_heartbeat :: "time option"

type_synonym 'v host = "'v process worker"

record ('a, 'v) worker_deps =
  wd_decimal :: decimal_lib
  wd_provisioner :: "'v provisioner"
  wd_transfers :: transfers_config
  wd_cash_venue :: "'v cash_venue"
  wd_broker :: "'v broker"
  wd_deterministic :: bool
  wd_secret :: "string option"
  wd_message :: "exn \<Rightarrow> string"
  wd_jobs :: "('a, 'v host) job list"

definition bearer_matches :: "string option \<Rightarrow> string \<Rightarrow> bool" where
  "bearer_matches header secret =
     (let presented = (case header of None \<Rightarrow> [] | Some h \<Rightarrow> h);
          expected = ''Bearer '' @ secret
      in length presented = length expected \<and> presented = expected)"

section \<open>The reconciliation run\<close>

record reconcile_result =
  rr_report :: recon_report
  rr_provisioning :: "nat \<times> nat"
  rr_transfers :: sweep_result

definition run_reconciliation :: "('a, 'v) worker_deps \<Rightarrow> 'v host \<Rightarrow> reconcile_result \<times> 'v host" where
  "run_reconciliation wd w =
     (let now = wk_clock w; p = wk_rest w;
          (provisioning, w1) = activate_pending_accounts (wd_provisioner wd) (pr_world p);
          (transfers, w2) = sweep_pending (wd_transfers wd) (wd_cash_venue wd) now w1;
          (report, w3) = reconcile_all (wd_decimal wd) (wd_broker wd) now w2
      in (\<lparr>rr_report = report, rr_provisioning = provisioning, rr_transfers = transfers\<rparr>,
          w\<lparr>wk_rest := p\<lparr>pr_world := w3, pr_last_reconcile := Some now, pr_heartbeat := Some now\<rparr>\<rparr>))"

section \<open>Health\<close>

record job_health =
  jh_name :: string
  jh_enabled :: bool
  jh_last_succeeded :: "time option"
  jh_last_error :: "string option"
  jh_overdue :: bool

definition job_health_of :: "job_row list \<Rightarrow> 'w \<Rightarrow> time \<Rightarrow> ('a, 'w) job \<Rightarrow> job_health" where
  "job_health_of rows w now j =
     (let row = find (\<lambda>r. jr_name r = jb_name j) rows;
          succeeded = Option.bind row jr_succeeded;
          enabled = jb_enabled j w
      in \<lparr>jh_name = jb_name j, jh_enabled = enabled, jh_last_succeeded = succeeded,
          jh_last_error = Option.bind row jr_error,
          jh_overdue = (enabled \<and> (case succeeded of None \<Rightarrow> True | Some t \<Rightarrow> now - t > 2 * jb_interval j))\<rparr>)"

datatype health_status = Not_ready | Degraded | Healthy_worker

record health_report =
  hr_status :: health_status
  hr_db :: bool
  hr_last_event :: "time option"
  hr_last_reconcile :: "time option"
  hr_jobs :: "job_health list"

definition activity_age :: "'v process \<Rightarrow> time \<Rightarrow> int option" where
  "activity_age p now =
     (let last_activity = max (case pr_last_event p of None \<Rightarrow> 0 | Some t \<Rightarrow> t)
                              (case pr_last_reconcile p of None \<Rightarrow> 0 | Some t \<Rightarrow> t)
      in if last_activity \<noteq> 0 then Some (now - last_activity) else None)"

definition healthz :: "('a, 'v) worker_deps \<Rightarrow> bool \<Rightarrow> 'v host \<Rightarrow> nat \<times> health_report" where
  "healthz wd db_ok w =
     (let p = wk_rest w; now = wk_clock w;
          stale = (case activity_age p now of None \<Rightarrow> True | Some ms \<Rightarrow> ms > 30 * 60000);
          jobs = (if db_ok then map (job_health_of (wk_rows w) w now) (wd_jobs wd) else []);
          degraded = ((\<not> wd_deterministic wd \<and> stale) \<or> list_ex jh_overdue jobs)
      in (if db_ok then 200 else 503,
          \<lparr>hr_status = (if \<not> db_ok then Not_ready else if degraded then Degraded else Healthy_worker),
           hr_db = db_ok, hr_last_event = pr_last_event p, hr_last_reconcile = pr_last_reconcile p,
           hr_jobs = jobs\<rparr>))"

section \<open>The requests\<close>

text \<open>Only names and statuses go on the wire: errors stay in the log.\<close>

fun status_name :: "'a job_status \<Rightarrow> string" where
  "status_name (Ran x) = ''ran''"
| "status_name (Failed err) = ''failed''"
| "status_name Not_due = ''not-due''"
| "status_name Disabled = ''disabled''"

definition on_wire :: "'a job_outcome list \<Rightarrow> (string \<times> string) list" where
  "on_wire = map (\<lambda>(n, s). (n, status_name s))"

datatype worker_answer =
    Health health_report
  | Unauthorized
  | Ticked "(string \<times> string) list"
  | Reconciled reconcile_result "(string \<times> string) list"
  | Worker_error
  | No_route

definition authorized :: "('a, 'v) worker_deps \<Rightarrow> string option \<Rightarrow> bool" where
  "authorized wd header = (case wd_secret wd of None \<Rightarrow> False | Some s \<Rightarrow> s \<noteq> [] \<and> bearer_matches header s)"

definition run_jobs :: "('a, 'v) worker_deps \<Rightarrow> 'v host \<Rightarrow> 'a job_outcome list result \<times> 'v host" where
  "run_jobs wd = run_due_jobs (wd_message wd) pg_store wk_clock False (wd_jobs wd)"

definition tick_request :: "('a, 'v) worker_deps \<Rightarrow> 'v host \<Rightarrow> (nat \<times> worker_answer) \<times> 'v host" where
  "tick_request wd w =
     (case run_jobs wd w of
        (Inr os, w1) \<Rightarrow> ((200, Ticked (on_wire os)), w1)
      | (Inl e, w1) \<Rightarrow> ((500, Worker_error), w1))"

definition reconcile_request :: "('a, 'v) worker_deps \<Rightarrow> 'v host \<Rightarrow> (nat \<times> worker_answer) \<times> 'v host" where
  "reconcile_request wd w =
     (case run_reconciliation wd w of
        (r, w1) \<Rightarrow> (case run_jobs wd w1 of
          (Inr os, w2) \<Rightarrow> ((200, Reconciled r (on_wire os)), w2)
        | (Inl e, w2) \<Rightarrow> ((200, Reconciled r []), w2)))"

definition serve :: "('a, 'v) worker_deps \<Rightarrow> bool \<Rightarrow> string \<Rightarrow> string \<Rightarrow> string option \<Rightarrow> 'v host
    \<Rightarrow> (nat \<times> worker_answer) \<times> 'v host" where
  "serve wd db_ok verb url header w =
     (if url = ''/healthz'' then (case healthz wd db_ok w of (code, h) \<Rightarrow> ((code, Health h), w))
      else if url = ''/jobs/tick'' \<and> verb = ''POST'' then
        if \<not> authorized wd header then ((401, Unauthorized), w) else tick_request wd w
      else if url = ''/reconcile'' \<and> verb = ''POST'' then
        if \<not> authorized wd header then ((401, Unauthorized), w) else reconcile_request wd w
      else ((404, No_route), w))"

section \<open>The run calls the services\<close>

lemma reconciliation_calls:
  assumes "run_reconciliation wd w = (r, w')"
  shows "(system_call (wd_decimal wd) pcfg (wd_transfers wd) (wd_broker wd) (wd_cash_venue wd) (wd_provisioner wd))\<^sup>*\<^sup>*
      (pr_world (wk_rest w)) (pr_world (wk_rest w'))"
proof -
  let ?call = "system_call (wd_decimal wd) pcfg (wd_transfers wd) (wd_broker wd) (wd_cash_venue wd) (wd_provisioner wd)"
  obtain n w1 where one: "activate_pending_accounts (wd_provisioner wd) (pr_world (wk_rest w)) = (n, w1)"
    by (rule prod.exhaust)
  obtain s w2 where two: "sweep_pending (wd_transfers wd) (wd_cash_venue wd) (wk_clock w) w1 = (s, w2)"
    by (rule prod.exhaust)
  obtain c w3 where three: "reconcile_all (wd_decimal wd) (wd_broker wd) (wk_clock w) w2 = (c, w3)"
    by (rule prod.exhaust)
  have "?call (pr_world (wk_rest w)) w1"
    by (rule system_call.call_account, rule account_call.activate_pending, rule one)
  moreover have "?call w1 w2"
    by (rule system_call.call_cash) (use two in \<open>auto intro: cash_call.intros\<close>)
  moreover have "?call w2 w3" by (rule system_call.call_reconcile, rule three)
  moreover have "pr_world (wk_rest w') = w3"
    using assms one two three by (auto simp: run_reconciliation_def Let_def)
  ultimately show ?thesis by (simp add: converse_rtranclp_into_rtranclp r_into_rtranclp)
qed

text \<open>Jobs that leave the process alone, as the scheduled ones do, leave it alone in a tick.\<close>

lemma pg_store_rest [simp]:
  "wk_rest (snd (st_claim pg_store n c w)) = wk_rest w"
  "wk_rest (snd (st_succeed pg_store n t w)) = wk_rest w"
  "wk_rest (snd (st_fail pg_store n err w)) = wk_rest w"
  by (simp_all add: pg_store_def split: prod.splits)

lemma run_job_rest:
  assumes "\<And>w. wk_rest (snd (jb_run j w)) = wk_rest w"
  shows "wk_rest (snd (run_job message pg_store wk_clock force j w)) = wk_rest w"
proof -
  let ?keeps = "\<lambda>w'. wk_rest w' = wk_rest w"
  let ?m = "\<lambda>w. wbind (jb_run j w) (\<lambda>x w. wbind (st_succeed pg_store (jb_name j) (wk_clock w) w) (\<lambda>_ w. (Inr x, w)))"
  have "?keeps (snd (run_claimed message pg_store wk_clock j w1))" if "?keeps w1" for w1
  proof -
    have m: "?keeps (snd (?m w1))"
      by (rule wbind_keeps) (use assms that in auto)
    obtain v w2 where v: "?m w1 = (v, w2)" by (rule prod.exhaust)
    with m have "?keeps w2" by simp
    then have "?keeps (snd (wbind (st_fail pg_store (jb_name j) (message e) w2) (\<lambda>_ w. (Inr (jb_name j, Failed (message e)), w))))" for e
      by (intro wbind_keeps[of ?keeps]) simp_all
    with v \<open>?keeps w2\<close> show ?thesis unfolding run_claimed_def by (cases v) simp_all
  qed
  then show ?thesis unfolding run_job_def
    by (simp, intro impI wbind_keeps[of ?keeps]) (simp_all)
qed

lemma run_due_jobs_rest:
  assumes "\<And>j w. j \<in> set jobs \<Longrightarrow> wk_rest (snd (jb_run j w)) = wk_rest w"
  shows "wk_rest (snd (run_due_jobs message pg_store wk_clock force jobs w)) = wk_rest w"
  using assms
proof (induction jobs arbitrary: w)
  case (Cons j js)
  let ?keeps = "\<lambda>w'. wk_rest w' = wk_rest w"
  have "?keeps (snd (run_job message pg_store wk_clock force j w))"
    by (rule run_job_rest) (simp add: Cons.prems)
  moreover have "?keeps (snd (run_due_jobs message pg_store wk_clock force js w1))" if "?keeps w1" for w1
    using Cons.IH[of w1] Cons.prems that by simp
  ultimately show ?case by (simp, intro wbind_keeps[of ?keeps]) simp_all
qed simp

text \<open>
  Nobody without the cron secret changes anything. Whatever is requested, the world of the worker
  stays as it is unless the request is a \<open>POST\<close> to one of the two routes with exactly the header
  \<open>Bearer\<close> and the configured, non-empty secret.
\<close>

theorem only_secret_holder_acts:
  "case serve wd db_ok verb url header w of (ans, w') \<Rightarrow>
     w' = w
     \<or> verb = ''POST'' \<and> (url = ''/jobs/tick'' \<or> url = ''/reconcile'')
       \<and> (\<exists>s. wd_secret wd = Some s \<and> s \<noteq> [] \<and> header = Some (''Bearer '' @ s))"
  unfolding serve_def authorized_def bearer_matches_def Let_def
  by (auto split: if_splits option.splits prod.splits)

text \<open>What a reconciliation run does, put together from the laws of the services it calls.\<close>

lemma reconciliation_run:
  assumes "venue_port (wd_broker wd) (wd_decimal wd)" "decimal_arith (wd_decimal wd)"
    and ok: "system_ok (snd (pr_world (wk_rest w)))" and run: "run_reconciliation wd w = (r, w')"
  shows "system_ok (snd (pr_world (wk_rest w')))" and "rc_drift (rr_report r) = []"
    and "wk_clock w' = wk_clock w" and "wk_rows w' = wk_rows w"
    and "pr_last_reconcile (wk_rest w') = Some (wk_clock w)" and "pr_heartbeat (wk_rest w') = Some (wk_clock w)"
proof -
  show "system_ok (snd (pr_world (wk_rest w')))"
    using system_run_ok[OF reconciliation_calls[OF run] assms(1-3)] by simp
  obtain n w1 where one: "activate_pending_accounts (wd_provisioner wd) (pr_world (wk_rest w)) = (n, w1)"
    by (rule prod.exhaust)
  obtain sw v2 d2 where two: "sweep_pending (wd_transfers wd) (wd_cash_venue wd) (wk_clock w) w1 = (sw, (v2, d2))"
    by (metis prod.exhaust)
  obtain c v3 d3 where three: "reconcile_all (wd_decimal wd) (wd_broker wd) (wk_clock w) (v2, d2) = (c, (v3, d3))"
    by (metis prod.exhaust)
  let ?call = "\<lambda>p. system_call (wd_decimal wd) p (wd_transfers wd) (wd_broker wd) (wd_cash_venue wd) (wd_provisioner wd)"
  have "?call p (pr_world (wk_rest w)) w1" "?call p w1 (v2, d2)" for p
    using one two by (auto intro: system_call.intros account_call.intros cash_call.intros)
  then have "(?call p)\<^sup>*\<^sup>* (pr_world (wk_rest w)) (v2, d2)" for p
    by (meson converse_rtranclp_into_rtranclp r_into_rtranclp)
  from system_run_ok[OF this assms(1-3)] have "trading_ok d2" by (simp add: system_ok_def)
  then have "turned (list_active_account_ids d2) (empty_report, (v2, d2)) (c, (v3, d3))"
    using pass_turn[OF assms(1,2), of "(empty_report, v2, d2)" "list_active_account_ids d2" "wk_clock w"]
      active_ids_distinct[OF trading_okD(1)] three
    by (simp add: reconcile_all_def db_of_def)
  then have "rc_drift c = []" by (auto simp: turned_def empty_report_def)
  then show "rc_drift (rr_report r) = []" "wk_clock w' = wk_clock w" "wk_rows w' = wk_rows w"
    "pr_last_reconcile (wk_rest w') = Some (wk_clock w)" "pr_heartbeat (wk_rest w') = Some (wk_clock w)"
    using run one two three by (auto simp: run_reconciliation_def Let_def)
qed

text \<open>
  A reconcile request serves the three sweeps in one. When a request to \<open>/reconcile\<close> is answered with
  a result, from any database in order and whatever the venues answer, the database is in order
  afterwards, no account drifts from its ledger, the scheduled jobs were run after it whatever became of
  it, and the health report shows activity of this moment.
\<close>

theorem reconcile_request_keeps_order:
  assumes "venue_port (wd_broker wd) (wd_decimal wd)" "decimal_arith (wd_decimal wd)"
    and "\<And>j w. j \<in> set (wd_jobs wd) \<Longrightarrow> wk_rest (snd (jb_run j w)) = wk_rest w"
    and "system_ok (snd (pr_world (wk_rest w)))"
    and "serve wd db_ok verb url header w = ((code, Reconciled r os), w')"
  shows "system_ok (snd (pr_world (wk_rest w'))) \<and> rc_drift (rr_report r) = []
    \<and> (\<exists>w1. run_reconciliation wd w = (r, w1) \<and> w' = snd (run_jobs wd w1))
    \<and> pr_heartbeat (wk_rest w') = Some (wk_clock w)
    \<and> (0 < wk_clock w \<and> (case pr_last_event (wk_rest w) of None \<Rightarrow> True | Some t \<Rightarrow> t \<le> wk_clock w)
         \<longrightarrow> activity_age (wk_rest w') (wk_clock w) = Some 0)"
proof -
  obtain w1 where run: "run_reconciliation wd w = (r, w1)" and w': "w' = snd (run_jobs wd w1)"
    using assms(5) unfolding serve_def reconcile_request_def tick_request_def healthz_def
    by (auto simp: Let_def split: if_splits prod.splits sum.splits)
  have rest: "wk_rest w' = wk_rest w1"
    unfolding w' run_jobs_def by (rule run_due_jobs_rest) (rule assms(3))
  note facts = reconciliation_run[OF assms(1,2,4) run]
  have "pr_last_event (wk_rest w1) = pr_last_event (wk_rest w)"
    using run by (auto simp: run_reconciliation_def Let_def split: prod.splits)
  then show ?thesis using facts run w' unfolding rest activity_age_def Let_def
    by (auto split: option.splits)
qed

definition demo_deps :: "(nat, unit) worker_deps" where
  "demo_deps = \<lparr>wd_decimal = js_decimal, wd_provisioner = funding_venue, wd_transfers = demo_limits,
     wd_cash_venue = settling_venue, wd_broker = recalling_venue, wd_deterministic = False,
     wd_secret = Some ''s3cret'', wd_message = (\<lambda>_. ''failed''),
     wd_jobs = [define_job ''fails'' 60000 None None (\<lambda>w. (Inl UnknownSymbol, w))]\<rparr>"

definition demo_host :: "unit host" where
  "demo_host = \<lparr>wk_rows = [], wk_clock = 9, wk_rest =
     \<lparr>pr_world = ((), demo_placed), pr_last_event = None, pr_last_reconcile = None, pr_heartbeat = None\<rparr>\<rparr>"

theorem reconcile_request_keeps_order_witness:
  "case serve demo_deps True ''POST'' ''/reconcile'' (Some ''Bearer s3cret'') demo_host of
     ((code, answer), w') \<Rightarrow> code = 200 \<and> system_ok (snd (pr_world (wk_rest w')))
       \<and> activity_age (wk_rest w') 9 = Some 0"
proof -
  obtain r w1 where run: "run_reconciliation demo_deps demo_host = (r, w1)" by (rule prod.exhaust)
  obtain os w' where jobs: "run_jobs demo_deps w1 = (Inr os, w')"
    unfolding run_jobs_def by (rule tick_of_jobs[of "wd_jobs demo_deps"])
      (auto simp: demo_deps_def minds_its_business_def define_job_def)
  have auth: "authorized demo_deps (Some ''Bearer s3cret'')"
    by (simp add: authorized_def bearer_matches_def demo_deps_def)
  then have served: "serve demo_deps True ''POST'' ''/reconcile'' (Some ''Bearer s3cret'') demo_host
      = ((200, Reconciled r (on_wire os)), w')"
    by (simp add: serve_def reconcile_request_def run jobs)
  have "venue_port (wd_broker demo_deps) (wd_decimal demo_deps)" "decimal_arith (wd_decimal demo_deps)"
    using recalling.venue_port_axioms js.decimal_arith_axioms by (simp_all add: demo_deps_def)
  from reconcile_request_keeps_order[OF this _ _ served] demo_system_ok served show ?thesis
    by (simp add: demo_deps_def demo_host_def define_job_def)
qed

end
