(* ===== verification/Cached_Market_Data.thy ===== *)
theory Cached_Market_Data
  imports Market_Data Alpaca_Translate
begin

text \<open>
  The caching provider (\<^verbatim>\<open>src/infra/market-data/cached.ts\<close>): an in-memory memo per instance and the
  shared rows of \<open>market_data_cache\<close> in front of another provider. A JavaScript value of unknown type is
  a tagged value; the \<open>Map\<close> of quotes is an association list in insertion order. What the inner provider
  answers and whether the database reads and writes are arguments of a call, as is the clock, which is
  read once per call. The payload is the record that is stored, not its JSON text; a timestamp text that
  is no date, which \<open>toISOString\<close> never writes, is an error here.
\<close>

section \<open>Quotes as stored\<close>

record full_quote = quote +
  fq_bid_size :: "int option"
  fq_ask_size :: "int option"
  fq_source :: string

record serialized_quote =
  sq_symbol :: string
  sq_bid :: "string option"
  sq_bid_size :: "int option"
  sq_ask :: "string option"
  sq_ask_size :: "int option"
  sq_last :: string
  sq_ts :: string
  sq_source :: string
  sq_previous_close :: "string option"

definition serialize_quote :: "js_runtime \<Rightarrow> full_quote \<Rightarrow> serialized_quote" where
  "serialize_quote J q =
     \<lparr>sq_symbol = qt_symbol q, sq_bid = map_option px_to_string (qt_bid q), sq_bid_size = fq_bid_size q,
      sq_ask = map_option px_to_string (qt_ask q), sq_ask_size = fq_ask_size q,
      sq_last = px_to_string (qt_last q), sq_ts = jd_iso J (qt_ts q), sq_source = fq_source q,
      sq_previous_close = map_option px_to_string (qt_previous_close q)\<rparr>"

text \<open>\<open>s.bid ? Px.fromString(s.bid) : null\<close>: an empty text is false.\<close>

definition px_or_null :: "string option \<Rightarrow> px option result" where
  "px_or_null s = (case s of None \<Rightarrow> Inr None | Some t \<Rightarrow>
     if t = [] then Inr None else ebind (px_from_string t) (\<lambda>p. Inr (Some p)))"

definition deserialize_quote :: "js_runtime \<Rightarrow> serialized_quote \<Rightarrow> full_quote result" where
  "deserialize_quote J s =
     ebind (px_or_null (sq_bid s)) (\<lambda>bid.
     ebind (px_or_null (sq_ask s)) (\<lambda>ask.
     ebind (px_from_string (sq_last s)) (\<lambda>latest.
     ebind (of_option (JsError ''Invalid Date'') (jd_parse J (sq_ts s))) (\<lambda>ts.
     ebind (px_or_null (sq_previous_close s)) (\<lambda>previous.
       Inr \<lparr>qt_symbol = sq_symbol s, qt_bid = bid, qt_ask = ask, qt_last = latest, qt_ts = ts,
            qt_previous_close = previous, fq_bid_size = sq_bid_size s, fq_ask_size = sq_ask_size s,
            fq_source = sq_source s\<rparr>)))))"

section \<open>The state and what surrounds a call\<close>

datatype cache_value = Quote_value full_quote | Candles_value "candle list"
datatype cache_payload = Quote_payload serialized_quote | Candles_payload "candle list"

record cache_row =
  cr_key :: string
  cr_payload :: cache_payload
  cr_fetched :: time
  cr_stale_after :: time

record cache_state =
  cs_memo :: "string \<Rightarrow> (cache_value \<times> time) option"
  cs_status :: "((market_status \<times> time) \<times> time) option"
  cs_rows :: "cache_row list"

record market_provider =
  mp_quote :: "string \<Rightarrow> full_quote result"
  mp_quotes :: "string list \<Rightarrow> (string \<times> full_quote) list result"
  mp_candles :: "string \<Rightarrow> candle_range \<Rightarrow> candle list result"
  mp_status :: "(market_status \<times> time) result"

record cache_env =
  ce_now :: time
  ce_inner :: market_provider
  ce_read :: "unit result"
  ce_write :: "unit result"

definition ttl_quote_open :: int where "ttl_quote_open = 10000"
definition ttl_quote_closed :: int where "ttl_quote_closed = 60000"
definition ttl_candles_intraday :: int where "ttl_candles_intraday = 60 * 60000"
definition ttl_candles_daily :: int where "ttl_candles_daily = 24 * 60 * 60000"
definition ttl_status :: int where "ttl_status = 60000"

lemmas ttl_defs = ttl_quote_open_def ttl_quote_closed_def ttl_candles_intraday_def ttl_candles_daily_def
  ttl_status_def

text \<open>The insert with \<open>onConflictDoUpdate\<close> on the unique key.\<close>

definition upsert_row :: "cache_row \<Rightarrow> cache_row list \<Rightarrow> cache_row list" where
  "upsert_row r rows =
     (if find (\<lambda>x. cr_key x = cr_key r) rows = None then rows @ [r]
      else modify (\<lambda>x. cr_key x = cr_key r) (\<lambda>_. r) rows)"

definition memoize :: "string \<Rightarrow> cache_value \<Rightarrow> time \<Rightarrow> cache_state \<Rightarrow> cache_state" where
  "memoize k v t s = s\<lparr>cs_memo := (cs_memo s)(k \<mapsto> (v, t))\<rparr>"

definition unavailable :: "exn \<Rightarrow> exn" where
  "unavailable e = (if e = ProviderUnavailable then e else ProviderUnavailable)"

section \<open>withCache\<close>

definition degrade :: "(cache_payload \<Rightarrow> cache_value result) \<Rightarrow> cache_row option \<Rightarrow> exn \<Rightarrow> cache_value result" where
  "degrade deser row e = (case row of Some r \<Rightarrow> deser (cr_payload r) | None \<Rightarrow> Inl (unavailable e))"

text \<open>The \<open>try\<close>: load, write the row and memoize; when the load or the write throws, degrade.\<close>

definition load_fresh :: "cache_env \<Rightarrow> string \<Rightarrow> int \<Rightarrow> cache_value result \<Rightarrow> (cache_value \<Rightarrow> cache_payload)
    \<Rightarrow> (cache_payload \<Rightarrow> cache_value result) \<Rightarrow> cache_row option \<Rightarrow> cache_state \<Rightarrow> cache_value result \<times> cache_state" where
  "load_fresh env key ttl load ser deser row s =
     (case load of
        Inl e \<Rightarrow> (degrade deser row e, s)
      | Inr fresh \<Rightarrow> (case ce_write env of
          Inl e \<Rightarrow> (degrade deser row e, s)
        | Inr _ \<Rightarrow>
            let stale_after = ce_now env + ttl;
                r = \<lparr>cr_key = key, cr_payload = ser fresh, cr_fetched = ce_now env, cr_stale_after = stale_after\<rparr>
            in (Inr fresh, memoize key fresh stale_after (s\<lparr>cs_rows := upsert_row r (cs_rows s)\<rparr>))))"

definition from_rows :: "cache_env \<Rightarrow> string \<Rightarrow> int \<Rightarrow> cache_value result \<Rightarrow> (cache_value \<Rightarrow> cache_payload)
    \<Rightarrow> (cache_payload \<Rightarrow> cache_value result) \<Rightarrow> cache_state \<Rightarrow> cache_value result \<times> cache_state" where
  "from_rows env key ttl load ser deser s =
     (case ce_read env of
        Inl e \<Rightarrow> (Inl e, s)
      | Inr _ \<Rightarrow> (case find (\<lambda>r. cr_key r = key) (cs_rows s) of
          None \<Rightarrow> load_fresh env key ttl load ser deser None s
        | Some r \<Rightarrow>
            if cr_stale_after r > ce_now env
            then (case deser (cr_payload r) of
                Inl e \<Rightarrow> (Inl e, s)
              | Inr v \<Rightarrow> (Inr v, memoize key v (cr_stale_after r) s))
            else load_fresh env key ttl load ser deser (Some r) s))"

definition with_cache :: "cache_env \<Rightarrow> string \<Rightarrow> int \<Rightarrow> cache_value result \<Rightarrow> (cache_value \<Rightarrow> cache_payload)
    \<Rightarrow> (cache_payload \<Rightarrow> cache_value result) \<Rightarrow> cache_state \<Rightarrow> cache_value result \<times> cache_state" where
  "with_cache env key ttl load ser deser s =
     (case cs_memo s key of
        Some (v, stale) \<Rightarrow> if stale > ce_now env then (Inr v, s) else from_rows env key ttl load ser deser s
      | None \<Rightarrow> from_rows env key ttl load ser deser s)"

section \<open>The provider\<close>

definition market_status_cached :: "cache_env \<Rightarrow> cache_state \<Rightarrow> (market_status \<times> time) result \<times> cache_state" where
  "market_status_cached env s =
     (let refresh = (case mp_status (ce_inner env) of
              Inl e \<Rightarrow> (Inl e, s)
            | Inr v \<Rightarrow> (Inr v, s\<lparr>cs_status := Some (v, ce_now env + ttl_status)\<rparr>))
      in case cs_status s of
           Some (v, stale) \<Rightarrow> if stale > ce_now env then (Inr v, s) else refresh
         | None \<Rightarrow> refresh)"

definition quote_ttl :: "cache_env \<Rightarrow> cache_state \<Rightarrow> int result \<times> cache_state" where
  "quote_ttl env s =
     (case market_status_cached env s of
        (Inl e, s1) \<Rightarrow> (Inl e, s1)
      | (Inr (st, as_of), s1) \<Rightarrow> (Inr (if st = Market_open then ttl_quote_open else ttl_quote_closed), s1))"

definition quote_key :: "string \<Rightarrow> string" where "quote_key ticker = ''quote:'' @ ticker"

fun range_name :: "candle_range \<Rightarrow> string" where
  "range_name R1D = ''1D''"
| "range_name R1W = ''1W''"
| "range_name R1M = ''1M''"
| "range_name R3M = ''3M''"
| "range_name R1Y = ''1Y''"
| "range_name R5Y = ''5Y''"

definition candles_key :: "string \<Rightarrow> candle_range \<Rightarrow> string" where
  "candles_key ticker r = ''candles:'' @ ticker @ '':'' @ range_name r"

definition as_quote :: "cache_value \<Rightarrow> full_quote result" where
  "as_quote v = (case v of Quote_value q \<Rightarrow> Inr q | Candles_value _ \<Rightarrow> Inl (JsError ''not a quote''))"

definition as_candles :: "cache_value \<Rightarrow> candle list result" where
  "as_candles v = (case v of Candles_value c \<Rightarrow> Inr c | Quote_value _ \<Rightarrow> Inl (JsError ''not candles''))"

definition value_payload :: "js_runtime \<Rightarrow> cache_value \<Rightarrow> cache_payload" where
  "value_payload J v = (case v of Quote_value q \<Rightarrow> Quote_payload (serialize_quote J q)
     | Candles_value c \<Rightarrow> Candles_payload c)"

definition payload_value :: "js_runtime \<Rightarrow> cache_payload \<Rightarrow> cache_value result" where
  "payload_value J p = (case p of
       Quote_payload s \<Rightarrow> ebind (deserialize_quote J s) (\<lambda>q. Inr (Quote_value q))
     | Candles_payload c \<Rightarrow> Inr (Candles_value c))"

definition get_quote :: "js_runtime \<Rightarrow> cache_env \<Rightarrow> string \<Rightarrow> cache_state \<Rightarrow> full_quote result \<times> cache_state" where
  "get_quote J env symbol s =
     (case quote_ttl env s of
        (Inl e, s1) \<Rightarrow> (Inl e, s1)
      | (Inr ttl, s1) \<Rightarrow>
          (case with_cache env (quote_key (to_upper symbol)) ttl
                  (ebind (mp_quote (ce_inner env) symbol) (\<lambda>q. Inr (Quote_value q)))
                  (value_payload J) (payload_value J) s1 of
             (r, s2) \<Rightarrow> (ebind r as_quote, s2)))"

definition get_candles :: "js_runtime \<Rightarrow> cache_env \<Rightarrow> string \<Rightarrow> candle_range \<Rightarrow> cache_state
    \<Rightarrow> candle list result \<times> cache_state" where
  "get_candles J env symbol bars s =
     (let ttl = (if bars = R1D \<or> bars = R1W then ttl_candles_intraday else ttl_candles_daily)
      in case with_cache env (candles_key (to_upper symbol) bars) ttl
                (ebind (mp_candles (ce_inner env) symbol bars) (\<lambda>c. Inr (Candles_value c)))
                (value_payload J) (payload_value J) s of
           (r, s1) \<Rightarrow> (ebind r as_candles, s1))"

section \<open>The batch of quotes\<close>

record quote_batch =
  qb_out :: "(string \<times> full_quote) list"
  qb_expired :: "(string \<times> full_quote) list"
  qb_uncached :: "string list"

definition memo_quote :: "cache_env \<Rightarrow> cache_state \<Rightarrow> string \<Rightarrow> cache_value option" where
  "memo_quote env s ticker =
     (case cs_memo s (quote_key ticker) of
        Some (v, stale) \<Rightarrow> if stale > ce_now env then Some v else None
      | None \<Rightarrow> None)"

text \<open>The first loop: hits of the memo, and the symbols that miss it.\<close>

fun memo_hits :: "cache_env \<Rightarrow> cache_state \<Rightarrow> string list \<Rightarrow> (string \<times> full_quote) list \<Rightarrow> string list
    \<Rightarrow> ((string \<times> full_quote) list \<times> string list) result" where
  "memo_hits env s [] out misses = Inr (out, misses)"
| "memo_hits env s (x # xs) out misses =
     (let ticker = to_upper x
      in case memo_quote env s ticker of
           Some v \<Rightarrow> ebind (as_quote v) (\<lambda>q. memo_hits env s xs (AList.update ticker q out) misses)
         | None \<Rightarrow> memo_hits env s xs out (misses @ [ticker]))"

text \<open>The second loop over the rows that were read; a live row is memoized.\<close>

fun row_hits :: "js_runtime \<Rightarrow> time \<Rightarrow> cache_row list \<Rightarrow> string list \<Rightarrow> quote_batch \<times> cache_state
    \<Rightarrow> quote_batch result \<times> cache_state" where
  "row_hits J now rows [] (b, s) = (Inr b, s)"
| "row_hits J now rows (ticker # misses) (b, s) =
     (case find (\<lambda>r. cr_key r = quote_key ticker) rows of
        None \<Rightarrow> row_hits J now rows misses (b\<lparr>qb_uncached := qb_uncached b @ [ticker]\<rparr>, s)
      | Some r \<Rightarrow>
          (case ebind (payload_value J (cr_payload r)) as_quote of
             Inl e \<Rightarrow> (Inl e, s)
           | Inr q \<Rightarrow>
               if cr_stale_after r > now
               then row_hits J now rows misses
                      (b\<lparr>qb_out := AList.update ticker q (qb_out b)\<rparr>,
                       memoize (quote_key ticker) (Quote_value q) (cr_stale_after r) s)
               else row_hits J now rows misses
                      (b\<lparr>qb_expired := AList.update ticker q (qb_expired b),
                         qb_uncached := qb_uncached b @ [ticker]\<rparr>, s)))"

definition set_all :: "('k \<times> 'v) list \<Rightarrow> ('k \<times> 'v) list \<Rightarrow> ('k \<times> 'v) list" where
  "set_all new out = fold (\<lambda>(k, v). AList.update k v) new out"

definition memoize_all :: "(string \<times> full_quote) list \<Rightarrow> time \<Rightarrow> cache_state \<Rightarrow> cache_state" where
  "memoize_all new stale s = fold (\<lambda>(k, q). memoize (quote_key k) (Quote_value q) stale) new s"

definition store_all :: "js_runtime \<Rightarrow> (string \<times> full_quote) list \<Rightarrow> time \<Rightarrow> time \<Rightarrow> cache_row list \<Rightarrow> cache_row list" where
  "store_all J new now stale rows =
     fold (\<lambda>(k, q). upsert_row \<lparr>cr_key = quote_key k, cr_payload = Quote_payload (serialize_quote J q),
                               cr_fetched = now, cr_stale_after = stale\<rparr>) new rows"

text \<open>The handler of the \<open>catch\<close>: expired quotes join what there is, a total miss throws.\<close>

definition after_failure :: "exn \<Rightarrow> (string \<times> full_quote) list \<Rightarrow> (string \<times> full_quote) list
    \<Rightarrow> (string \<times> full_quote) list result" where
  "after_failure e expired out =
     (if expired = [] \<and> out = [] then Inl (unavailable e) else Inr (set_all expired out))"

definition fetch_uncached :: "js_runtime \<Rightarrow> cache_env \<Rightarrow> int \<Rightarrow> quote_batch \<Rightarrow> cache_state
    \<Rightarrow> (string \<times> full_quote) list result \<times> cache_state" where
  "fetch_uncached J env ttl b s =
     (let now = ce_now env
      in case mp_quotes (ce_inner env) (qb_uncached b) of
           Inl e \<Rightarrow> (after_failure e (qb_expired b) (qb_out b), s)
         | Inr fresh \<Rightarrow>
             let out = set_all fresh (qb_out b);
                 s1 = memoize_all fresh (now + ttl) s
             in if fresh = [] then (Inr out, s1)
                else (case ce_write env of
                    Inl e \<Rightarrow> (after_failure e (qb_expired b) out, s1)
                  | Inr _ \<Rightarrow> (Inr out, s1\<lparr>cs_rows := store_all J fresh now (now + ttl) (cs_rows s1)\<rparr>)))"

definition get_quotes :: "js_runtime \<Rightarrow> cache_env \<Rightarrow> string list \<Rightarrow> cache_state
    \<Rightarrow> (string \<times> full_quote) list result \<times> cache_state" where
  "get_quotes J env symbols s =
     (case quote_ttl env s of
        (Inl e, s1) \<Rightarrow> (Inl e, s1)
      | (Inr ttl, s1) \<Rightarrow>
          (case memo_hits env s1 symbols [] [] of
             Inl e \<Rightarrow> (Inl e, s1)
           | Inr (out, misses) \<Rightarrow>
               if misses = [] then (Inr out, s1)
               else (case ce_read env of
                   Inl e \<Rightarrow> (Inl e, s1)
                 | Inr _ \<Rightarrow>
                     (case row_hits J (ce_now env) (cs_rows s1) misses
                             (\<lparr>qb_out = out, qb_expired = [], qb_uncached = []\<rparr>, s1) of
                        (Inl e, s2) \<Rightarrow> (Inl e, s2)
                      | (Inr b, s2) \<Rightarrow>
                          if qb_uncached b = [] then (Inr (qb_out b), s2)
                          else fetch_uncached J env ttl b s2))))"

end
