(* ===== verification/Cached_Market_Correct.thy ===== *)
theory Cached_Market_Correct
  imports Cached_Market_Data Instruments
begin

text \<open>
  What the cache promises: a stored quote comes back as it was, every quote served is one the provider
  gave, younger than its lifetime unless the provider or the table failed, on every instance that
  shares the table; and what it does to the errors of the provider.
\<close>

section \<open>The round trip of a quote\<close>

definition quote_valid :: "js_runtime \<Rightarrow> full_quote \<Rightarrow> bool" where
  "quote_valid J q \<longleftrightarrow> 0 < qt_last q \<and> pred_option (\<lambda>p. 0 < p) (qt_bid q) \<and> pred_option (\<lambda>p. 0 < p) (qt_ask q)
     \<and> pred_option (\<lambda>p. 0 < p) (qt_previous_close q) \<and> jd_parse J (jd_iso J (qt_ts q)) = Some (qt_ts q)"

lemma px_to_string_not_Nil [simp]: "px_to_string p \<noteq> []"
  by (simp add: px_to_string_def fixed_text_def Let_def)

lemma px_or_null_back: "pred_option (\<lambda>p. 0 < p) x \<Longrightarrow> px_or_null (map_option px_to_string x) = Inr x"
  by (cases x) (simp_all add: px_or_null_def)

lemma deserialize_serialize: "quote_valid J q \<Longrightarrow> deserialize_quote J (serialize_quote J q) = Inr q"
  by (simp add: quote_valid_def deserialize_quote_def serialize_quote_def px_or_null_back)

text \<open>
  A quote survives the table. What is stored of a quote with positive prices and a timestamp that
  its text denotes is read back as the same quote.
\<close>

theorem quote_roundtrip:
  assumes "quote_valid J q"
  shows "ebind (payload_value J (value_payload J (Quote_value q))) as_quote = Inr q"
  using deserialize_serialize[OF assms] by (simp add: payload_value_def value_payload_def as_quote_def)

section \<open>What the cache holds\<close>

text \<open>The provider answers differently at different times: \<open>prov t\<close> is what it answers at \<open>t\<close>.\<close>

definition quoted :: "(time \<Rightarrow> market_provider) \<Rightarrow> time \<Rightarrow> string \<Rightarrow> full_quote \<Rightarrow> bool" where
  "quoted prov t ticker q \<longleftrightarrow>
     (\<exists>x. to_upper x = ticker \<and> mp_quote (prov t) x = Inr q)
     \<or> (\<exists>xs m. mp_quotes (prov t) xs = Inr m \<and> (ticker, q) \<in> set m)"

definition provider_valid :: "js_runtime \<Rightarrow> (time \<Rightarrow> market_provider) \<Rightarrow> bool" where
  "provider_valid J prov \<longleftrightarrow> (\<forall>t ticker q. quoted prov t ticker q \<longrightarrow> quote_valid J q)"

definition stamped :: "(time \<Rightarrow> market_provider) \<Rightarrow> time \<Rightarrow> string \<Rightarrow> full_quote \<Rightarrow> time \<Rightarrow> bool" where
  "stamped prov now ticker q stale \<longleftrightarrow> (\<exists>t \<le> now. quoted prov t ticker q \<and> stale \<le> t + ttl_quote_closed)"

definition memo_sound :: "(time \<Rightarrow> market_provider) \<Rightarrow> time \<Rightarrow> cache_state \<Rightarrow> bool" where
  "memo_sound prov now s \<longleftrightarrow> (\<forall>ticker v stale. cs_memo s (quote_key ticker) = Some (v, stale)
     \<longrightarrow> (\<exists>q. v = Quote_value q \<and> stamped prov now ticker q stale))"

definition rows_sound :: "js_runtime \<Rightarrow> (time \<Rightarrow> market_provider) \<Rightarrow> time \<Rightarrow> cache_row list \<Rightarrow> bool" where
  "rows_sound J prov now rows \<longleftrightarrow> (\<forall>r \<in> set rows. \<forall>ticker. cr_key r = quote_key ticker
     \<longrightarrow> (\<exists>q. cr_payload r = Quote_payload (serialize_quote J q) \<and> stamped prov now ticker q (cr_stale_after r)))"

definition cache_sound :: "js_runtime \<Rightarrow> (time \<Rightarrow> market_provider) \<Rightarrow> time \<Rightarrow> cache_state \<Rightarrow> bool" where
  "cache_sound J prov now s \<longleftrightarrow> memo_sound prov now s \<and> rows_sound J prov now (cs_rows s)"

lemma stamped_later: "stamped prov now ticker q stale \<Longrightarrow> now \<le> now' \<Longrightarrow> stamped prov now' ticker q stale"
  unfolding stamped_def by (meson order_trans)

lemma stamped_now: "quoted prov now ticker q \<Longrightarrow> ttl \<le> ttl_quote_closed \<Longrightarrow> stamped prov now ticker q (now + ttl)"
  unfolding stamped_def by (rule exI[of _ now]) simp

lemma stamped_valid: "provider_valid J prov \<Longrightarrow> stamped prov now ticker q stale \<Longrightarrow> quote_valid J q"
  by (auto simp: stamped_def provider_valid_def)

lemma quote_key_inject [simp]: "quote_key a = quote_key b \<longleftrightarrow> a = b"
  by (simp add: quote_key_def)

lemma keys_apart [simp]: "candles_key a r \<noteq> quote_key b" "quote_key b \<noteq> candles_key a r"
  by (simp_all add: quote_key_def candles_key_def)

lemma memo_soundD:
  "memo_sound prov now s \<Longrightarrow> cs_memo s (quote_key ticker) = Some (v, stale)
    \<Longrightarrow> \<exists>q. v = Quote_value q \<and> stamped prov now ticker q stale"
  by (simp add: memo_sound_def)

lemma rows_soundD:
  "rows_sound J prov now rows \<Longrightarrow> find (\<lambda>r. cr_key r = quote_key ticker) rows = Some r
    \<Longrightarrow> \<exists>q. cr_payload r = Quote_payload (serialize_quote J q) \<and> stamped prov now ticker q (cr_stale_after r)"
  by (auto simp: rows_sound_def dest!: find_Some_in_set)

lemma memo_sound_memoize:
  "memo_sound prov now s \<Longrightarrow> stamped prov now ticker q stale
    \<Longrightarrow> memo_sound prov now (memoize (quote_key ticker) (Quote_value q) stale s)"
  by (auto simp: memo_sound_def memoize_def)

lemma memo_sound_other:
  "memo_sound prov now s \<Longrightarrow> (\<And>ticker. quote_key ticker \<noteq> k) \<Longrightarrow> memo_sound prov now (memoize k v stale s)"
  by (auto simp: memo_sound_def memoize_def)

lemma memo_sound_same: "memo_sound prov now s \<Longrightarrow> cs_memo s' = cs_memo s \<Longrightarrow> memo_sound prov now s'"
  by (simp add: memo_sound_def)

lemma rows_memoize [simp]: "cs_rows (memoize k v t s) = cs_rows s"
  by (simp add: memoize_def)

lemma set_upsert: "set (upsert_row r rows) \<subseteq> insert r (set rows)"
  by (auto simp: upsert_row_def set_modify)

lemma rows_sound_upsert:
  assumes "rows_sound J prov now rows"
    and "\<And>ticker. cr_key r = quote_key ticker \<Longrightarrow>
      \<exists>q. cr_payload r = Quote_payload (serialize_quote J q) \<and> stamped prov now ticker q (cr_stale_after r)"
  shows "rows_sound J prov now (upsert_row r rows)"
  using assms set_upsert[of r rows] unfolding rows_sound_def by blast

lemma cache_sound_later: "cache_sound J prov now s \<Longrightarrow> now \<le> now' \<Longrightarrow> cache_sound J prov now' s"
  unfolding cache_sound_def memo_sound_def rows_sound_def by (meson stamped_later)

section \<open>One call keeps it\<close>

text \<open>The call is made at \<open>now\<close> on what the provider answers then.\<close>

definition called_at :: "(time \<Rightarrow> market_provider) \<Rightarrow> time \<Rightarrow> cache_env \<Rightarrow> bool" where
  "called_at prov now env \<longleftrightarrow> ce_now env = now \<and> ce_inner env = prov now"

definition served :: "(time \<Rightarrow> market_provider) \<Rightarrow> time \<Rightarrow> bool \<Rightarrow> string \<Rightarrow> full_quote \<Rightarrow> bool" where
  "served prov now failing ticker q \<longleftrightarrow>
     (\<exists>t \<le> now. quoted prov t ticker q \<and> (now < t + ttl_quote_closed \<or> failing))"

lemma served_live: "stamped prov now ticker q stale \<Longrightarrow> now < stale \<Longrightarrow> served prov now failing ticker q"
  unfolding stamped_def served_def by (meson less_le_trans)

lemma served_failing: "stamped prov now ticker q stale \<Longrightarrow> served prov now True ticker q"
  unfolding stamped_def served_def by blast

lemma served_fresh: "quoted prov now ticker q \<Longrightarrow> served prov now failing ticker q"
  unfolding served_def by (rule exI[of _ now]) (simp add: ttl_defs)

lemma status_keeps:
  "market_status_cached env s = (r, s') \<Longrightarrow> cs_memo s' = cs_memo s \<and> cs_rows s' = cs_rows s"
  by (auto simp: market_status_cached_def Let_def split: option.splits sum.splits if_splits)

lemma quote_ttl_keeps:
  assumes "quote_ttl env s = (r, s')"
  shows "cs_memo s' = cs_memo s" and "cs_rows s' = cs_rows s"
    and "r = Inr ttl \<Longrightarrow> 0 < ttl \<and> ttl \<le> ttl_quote_closed"
    and "r = Inl e \<Longrightarrow> mp_status (ce_inner env) = Inl e"
proof -
  obtain r1 s1 where st: "market_status_cached env s = (r1, s1)" by (rule prod.exhaust)
  have r: "r = map_sum id (\<lambda>(st, as_of). if st = Market_open then ttl_quote_open else ttl_quote_closed) r1" "s' = s1"
    using assms st by (cases r1; auto simp: quote_ttl_def)+
  then show "cs_memo s' = cs_memo s" "cs_rows s' = cs_rows s" using status_keeps[OF st] by simp_all
  show "0 < ttl \<and> ttl \<le> ttl_quote_closed" if "r = Inr ttl"
    using that r(1) by (cases r1) (auto simp: ttl_defs)
  have "r1 = Inl e" if "r = Inl e" using that r(1) by (cases r1) auto
  then show "mp_status (ce_inner env) = Inl e" if "r = Inl e"
    using st that by (auto simp: market_status_cached_def Let_def split: option.splits sum.splits if_splits)
qed

lemma read_back:
  "provider_valid J prov \<Longrightarrow> stamped prov now ticker q stale \<Longrightarrow>
   payload_value J (Quote_payload (serialize_quote J q)) = Inr (Quote_value q)"
  by (simp add: payload_value_def deserialize_serialize stamped_valid)

text \<open>What a call for a quote may answer, and that it leaves the cache sound.\<close>

definition answer_ok :: "js_runtime \<Rightarrow> (time \<Rightarrow> market_provider) \<Rightarrow> cache_env \<Rightarrow> string
    \<Rightarrow> cache_value result \<times> cache_state \<Rightarrow> bool" where
  "answer_ok J prov env symbol rs \<longleftrightarrow> cache_sound J prov (ce_now env) (snd rs)
     \<and> (case fst rs of
          Inl e \<Rightarrow> e = ProviderUnavailable \<or> ce_read env = Inl e
        | Inr v \<Rightarrow> \<exists>q. v = Quote_value q \<and> served prov (ce_now env)
            (mp_quote (ce_inner env) symbol \<notin> range Inr \<or> ce_write env \<noteq> Inr ()) (to_upper symbol) q)"

abbreviation quote_load :: "cache_env \<Rightarrow> string \<Rightarrow> cache_value result" where
  "quote_load env symbol \<equiv> ebind (mp_quote (ce_inner env) symbol) (\<lambda>q. Inr (Quote_value q))"

lemma degraded_ok:
  assumes "cache_sound J prov (ce_now env) s" and "provider_valid J prov"
    and "mp_quote (ce_inner env) symbol \<notin> range Inr \<or> ce_write env \<noteq> Inr ()"
  shows "answer_ok J prov env symbol
    (degrade (payload_value J) (find (\<lambda>r. cr_key r = quote_key (to_upper symbol)) (cs_rows s)) e, s)"
proof (cases "find (\<lambda>r. cr_key r = quote_key (to_upper symbol)) (cs_rows s)")
  case None
  then show ?thesis using assms(1) by (simp add: answer_ok_def degrade_def unavailable_def)
next
  case (Some r)
  then obtain q where q: "cr_payload r = Quote_payload (serialize_quote J q)"
    "stamped prov (ce_now env) (to_upper symbol) q (cr_stale_after r)"
    using assms(1) unfolding cache_sound_def by (metis rows_soundD)
  show ?thesis
    using Some q(1) read_back[OF assms(2) q(2)] served_failing[OF q(2)] assms(1,3)
    by (simp add: answer_ok_def degrade_def)
qed

lemma stored_sound:
  assumes "cache_sound J prov now s" and st: "stamped prov now ticker q stale"
  shows "cache_sound J prov now (memoize (quote_key ticker) (Quote_value q) stale
    (s\<lparr>cs_rows := upsert_row \<lparr>cr_key = quote_key ticker, cr_payload = Quote_payload (serialize_quote J q),
       cr_fetched = t, cr_stale_after = stale\<rparr> (cs_rows s)\<rparr>))"
proof -
  have "memo_sound prov now (s\<lparr>cs_rows := rows\<rparr>)" for rows
    using assms(1) by (simp add: cache_sound_def memo_sound_def)
  then have "memo_sound prov now (memoize (quote_key ticker) (Quote_value q) stale (s\<lparr>cs_rows := rows\<rparr>))" for rows
    using st by (rule memo_sound_memoize)
  moreover have "rows_sound J prov now (upsert_row \<lparr>cr_key = quote_key ticker,
      cr_payload = Quote_payload (serialize_quote J q), cr_fetched = t, cr_stale_after = stale\<rparr> (cs_rows s))"
    by (rule rows_sound_upsert) (use assms in \<open>auto simp: cache_sound_def\<close>)
  ultimately show ?thesis by (simp add: cache_sound_def)
qed

lemma load_fresh_ok:
  assumes "called_at prov now env" "cache_sound J prov now s" "provider_valid J prov" "ttl \<le> ttl_quote_closed"
  shows "answer_ok J prov env symbol (load_fresh env (quote_key (to_upper symbol)) ttl (quote_load env symbol)
    (value_payload J) (payload_value J) (find (\<lambda>r. cr_key r = quote_key (to_upper symbol)) (cs_rows s)) s)"
proof (cases "mp_quote (ce_inner env) symbol")
  case (Inl e)
  with degraded_ok[of J prov env s symbol] assms show ?thesis
    by (simp add: load_fresh_def called_at_def image_iff)
next
  case (Inr q)
  show ?thesis
  proof (cases "ce_write env")
    case (Inl e)
    with degraded_ok[of J prov env s symbol] Inr assms show ?thesis by (simp add: load_fresh_def called_at_def)
  next
    case (Inr u)
    have q: "quoted prov now (to_upper symbol) q"
      using \<open>mp_quote (ce_inner env) symbol = Inr q\<close> assms(1) by (auto simp: quoted_def called_at_def)
    from stored_sound[OF assms(2) stamped_now[OF q assms(4)]] served_fresh[OF q] assms(1)
      Inr \<open>mp_quote (ce_inner env) symbol = Inr q\<close>
    show ?thesis by (simp add: load_fresh_def answer_ok_def called_at_def value_payload_def Let_def)
  qed
qed

lemma cached_load_ok:
  assumes "called_at prov now env" "cache_sound J prov now s" "provider_valid J prov" "ttl \<le> ttl_quote_closed"
  shows "answer_ok J prov env symbol (with_cache env (quote_key (to_upper symbol)) ttl (quote_load env symbol)
    (value_payload J) (payload_value J) s)"
proof -
  let ?k = "quote_key (to_upper symbol)"
  have now: "ce_now env = now" using assms(1) by (simp add: called_at_def)
  have rows: "answer_ok J prov env symbol (from_rows env ?k ttl (quote_load env symbol) (value_payload J) (payload_value J) s)"
  proof (cases "find (\<lambda>r. cr_key r = ?k) (cs_rows s)")
    case None
    then show ?thesis using load_fresh_ok[OF assms, of symbol] assms(2) now
      by (cases "ce_read env") (simp_all add: from_rows_def answer_ok_def)
  next
    case (Some row)
    then obtain q where q: "cr_payload row = Quote_payload (serialize_quote J q)"
      "stamped prov now (to_upper symbol) q (cr_stale_after row)"
      using assms(2) unfolding cache_sound_def by (metis rows_soundD)
    show ?thesis
    proof (cases "now < cr_stale_after row \<and> ce_read env = Inr ()")
      case True
      then have "served prov now failing (to_upper symbol) q" for failing using served_live[OF q(2)] by simp
      with Some q(1) True assms(2) now read_back[OF assms(3) q(2)] memo_sound_memoize[OF _ q(2)] show ?thesis
        by (simp add: from_rows_def answer_ok_def cache_sound_def)
    next
      case False
      then show ?thesis using Some load_fresh_ok[OF assms, of symbol] assms(2) now
        by (cases "ce_read env") (auto simp: from_rows_def answer_ok_def)
    qed
  qed
  show ?thesis
  proof (cases "\<exists>v stale. cs_memo s ?k = Some (v, stale) \<and> now < stale")
    case True
    then obtain v stale where m: "cs_memo s ?k = Some (v, stale)" "now < stale" by blast
    with assms(2) obtain q where "v = Quote_value q" "stamped prov now (to_upper symbol) q stale"
      unfolding cache_sound_def by (metis memo_soundD)
    then show ?thesis using m assms(2) now served_live by (simp add: with_cache_def answer_ok_def)
  next
    case False
    with rows now show ?thesis by (auto simp: with_cache_def split: option.splits)
  qed
qed

section \<open>The calls\<close>

lemma get_quote_ok:
  assumes "called_at prov now env" "cache_sound J prov now s" "provider_valid J prov"
    and "get_quote J env symbol s = (r, s')"
  shows "cache_sound J prov now s'" and "r = Inl e \<Longrightarrow> e = ProviderUnavailable \<or> ce_read env = Inl e
      \<or> mp_status (ce_inner env) = Inl e"
    and "r = Inr q \<Longrightarrow> served prov now (mp_quote (ce_inner env) symbol \<notin> range Inr \<or> ce_write env \<noteq> Inr ())
      (to_upper symbol) q"
proof -
  have now: "ce_now env = now" using assms(1) by (simp add: called_at_def)
  obtain tr s1 where ttl: "quote_ttl env s = (tr, s1)" by (rule prod.exhaust)
  have s1: "cache_sound J prov now s1"
    using assms(2) quote_ttl_keeps(1,2)[OF ttl] by (simp add: cache_sound_def memo_sound_def)
  have "cache_sound J prov now s' \<and> (\<forall>e. r = Inl e \<longrightarrow> e = ProviderUnavailable \<or> ce_read env = Inl e
      \<or> mp_status (ce_inner env) = Inl e)
    \<and> (\<forall>q. r = Inr q \<longrightarrow> served prov now (mp_quote (ce_inner env) symbol \<notin> range Inr \<or> ce_write env \<noteq> Inr ())
      (to_upper symbol) q)"
  proof (cases tr)
    case (Inl e)
    with assms(4) ttl quote_ttl_keeps(4)[OF ttl] s1 show ?thesis by (auto simp: get_quote_def)
  next
    case (Inr t)
    obtain v s2 where load: "with_cache env (quote_key (to_upper symbol)) t (quote_load env symbol)
        (value_payload J) (payload_value J) s1 = (v, s2)" by (rule prod.exhaust)
    have "t \<le> ttl_quote_closed" using quote_ttl_keeps(3)[OF ttl] Inr by simp
    from cached_load_ok[OF assms(1) s1 assms(3) this, of symbol] load
    have ok: "answer_ok J prov env symbol (v, s2)" by simp
    have "r = ebind v as_quote" "s' = s2" using assms(4) ttl Inr load by (auto simp: get_quote_def)
    then show ?thesis using ok now by (cases v) (auto simp: answer_ok_def as_quote_def)
  qed
  then show "cache_sound J prov now s'" and "r = Inl e \<Longrightarrow> e = ProviderUnavailable \<or> ce_read env = Inl e
      \<or> mp_status (ce_inner env) = Inl e"
    and "r = Inr q \<Longrightarrow> served prov now (mp_quote (ce_inner env) symbol \<notin> range Inr \<or> ce_write env \<noteq> Inr ())
      (to_upper symbol) q" by blast+
qed

definition all_served :: "(time \<Rightarrow> market_provider) \<Rightarrow> time \<Rightarrow> bool \<Rightarrow> (string \<times> full_quote) list \<Rightarrow> bool" where
  "all_served prov now failing out \<longleftrightarrow> (\<forall>(k, q) \<in> set out. served prov now failing k q)"

lemma served_weaker: "served prov now failing k q \<Longrightarrow> (failing \<Longrightarrow> failing') \<Longrightarrow> served prov now failing' k q"
  unfolding served_def by blast

lemma all_served_weaker: "all_served prov now failing out \<Longrightarrow> (failing \<Longrightarrow> failing') \<Longrightarrow> all_served prov now failing' out"
  unfolding all_served_def using served_weaker by blast

lemma all_served_update:
  "all_served prov now failing out \<Longrightarrow> served prov now failing k q \<Longrightarrow> all_served prov now failing (AList.update k q out)"
  unfolding all_served_def using set_alist_update by fastforce

lemma all_served_set_all:
  "all_served prov now failing new \<Longrightarrow> all_served prov now failing out \<Longrightarrow> all_served prov now failing (set_all new out)"
proof (induction new arbitrary: out)
  case (Cons kq new)
  then show ?case
    by (cases kq) (simp add: set_all_def all_served_update all_served_def[of _ _ _ "_ # _"]
        all_served_def[of _ _ _ new, symmetric])
qed (simp add: set_all_def)

lemma memo_quote_served:
  assumes "called_at prov now env" "cache_sound J prov now s" "memo_quote env s k = Some v"
  shows "\<exists>q. v = Quote_value q \<and> served prov now failing k q"
  using assms memo_soundD[of prov now s k] served_live
  by (fastforce simp: memo_quote_def called_at_def cache_sound_def split: option.splits if_splits)

lemma memo_hits_ok:
  assumes "called_at prov now env" "cache_sound J prov now s" "all_served prov now failing out"
  shows "\<exists>out' misses'. memo_hits env s xs out misses = Inr (out', misses') \<and> all_served prov now failing out'"
  using assms(3)
proof (induction xs arbitrary: out misses)
  case (Cons x xs)
  show ?case
  proof (cases "memo_quote env s (to_upper x)")
    case None
    then show ?thesis using Cons.IH[OF Cons.prems] by simp
  next
    case (Some v)
    from memo_quote_served[OF assms(1,2) this] obtain q where q: "v = Quote_value q" "served prov now failing (to_upper x) q"
      by blast
    from Cons.IH[OF all_served_update[OF Cons.prems q(2)]] Some q(1) show ?thesis by (simp add: as_quote_def)
  qed
qed simp

lemma row_hits_ok:
  assumes "provider_valid J prov" "rows_sound J prov now rows"
    and "cache_sound J prov now s" "all_served prov now False (qb_out b)" "all_served prov now True (qb_expired b)"
  shows "\<exists>b' s'. row_hits J now rows misses (b, s) = (Inr b', s') \<and> cache_sound J prov now s'
    \<and> all_served prov now False (qb_out b') \<and> all_served prov now True (qb_expired b')"
  using assms(3-5)
proof (induction misses arbitrary: b s)
  case (Cons k misses)
  show ?case
  proof (cases "find (\<lambda>r. cr_key r = quote_key k) rows")
    case None
    then show ?thesis using Cons.IH[of s "b\<lparr>qb_uncached := qb_uncached b @ [k]\<rparr>"] Cons.prems by simp
  next
    case (Some r)
    from rows_soundD[OF assms(2) this] obtain q where
      q: "cr_payload r = Quote_payload (serialize_quote J q)" "stamped prov now k q (cr_stale_after r)" by blast
    have restored: "ebind (payload_value J (cr_payload r)) as_quote = Inr q"
      using q(1) read_back[OF assms(1) q(2)] by (simp add: as_quote_def)
    show ?thesis
    proof (cases "now < cr_stale_after r")
      case True
      have "cache_sound J prov now (memoize (quote_key k) (Quote_value q) (cr_stale_after r) s)"
        using Cons.prems(1) memo_sound_memoize[OF _ q(2)] by (simp add: cache_sound_def)
      from Cons.IH[OF this, of "b\<lparr>qb_out := AList.update k q (qb_out b)\<rparr>"] True Some restored Cons.prems
        all_served_update served_live[OF q(2) True] show ?thesis by simp
    next
      case False
      from Cons.IH[OF Cons.prems(1), of "b\<lparr>qb_expired := AList.update k q (qb_expired b), qb_uncached := qb_uncached b @ [k]\<rparr>"]
        False Some restored Cons.prems all_served_update served_failing[OF q(2)] show ?thesis by simp
    qed
  qed
qed simp

lemma memoize_all_sound:
  "cache_sound J prov now s \<Longrightarrow> (\<And>k q. (k, q) \<in> set new \<Longrightarrow> stamped prov now k q stale)
    \<Longrightarrow> cache_sound J prov now (memoize_all new stale s) \<and> cs_rows (memoize_all new stale s) = cs_rows s"
proof (induction new arbitrary: s)
  case (Cons kq new)
  obtain k q where kq: "kq = (k, q)" by (rule prod.exhaust)
  have "cache_sound J prov now (memoize (quote_key k) (Quote_value q) stale s)"
    using Cons.prems kq memo_sound_memoize by (simp add: cache_sound_def)
  from Cons.IH[OF this] Cons.prems(2) kq show ?case by (simp add: memoize_all_def)
qed (simp add: memoize_all_def)

lemma store_all_sound:
  "rows_sound J prov now rows \<Longrightarrow> (\<And>k q. (k, q) \<in> set new \<Longrightarrow> stamped prov now k q stale)
    \<Longrightarrow> rows_sound J prov now (store_all J new t stale rows)"
proof (induction new arbitrary: rows)
  case (Cons kq new)
  obtain k q where kq: "kq = (k, q)" by (rule prod.exhaust)
  have "rows_sound J prov now (upsert_row \<lparr>cr_key = quote_key k, cr_payload = Quote_payload (serialize_quote J q),
      cr_fetched = t, cr_stale_after = stale\<rparr> rows)"
    by (rule rows_sound_upsert) (use Cons.prems kq in auto)
  from Cons.IH[OF this] Cons.prems(2) kq show ?case by (simp add: store_all_def)
qed (simp add: store_all_def)

definition batch_failing :: "cache_env \<Rightarrow> bool" where
  "batch_failing env \<longleftrightarrow> (\<exists>xs. mp_quotes (ce_inner env) xs \<notin> range Inr) \<or> ce_write env \<noteq> Inr ()"

lemma after_failure_ok:
  assumes "all_served prov now True expired" "all_served prov now False out"
  shows "case after_failure e expired out of Inl e \<Rightarrow> e = ProviderUnavailable | Inr out' \<Rightarrow> all_served prov now True out'"
  using assms all_served_set_all[OF assms(1) all_served_weaker[OF assms(2)]]
  by (simp add: after_failure_def unavailable_def)

lemma fetch_uncached_ok:
  assumes at: "called_at prov now env" and "cache_sound J prov now s" "ttl \<le> ttl_quote_closed"
    and served: "all_served prov now False (qb_out b)" "all_served prov now True (qb_expired b)"
    and "fetch_uncached J env ttl b s = (r, s')"
  shows "cache_sound J prov now s' \<and> (case r of Inl e \<Rightarrow> e = ProviderUnavailable
    | Inr out \<Rightarrow> all_served prov now (batch_failing env) out)"
proof (cases "mp_quotes (ce_inner env) (qb_uncached b)")
  case (Inl e)
  then have "batch_failing env" unfolding batch_failing_def by (metis Inl_Inr_False rangeE)
  then show ?thesis using assms(2,6) Inl after_failure_ok[OF served(2,1), of e]
    by (auto simp: fetch_uncached_def split: sum.splits)
next
  case (Inr fresh)
  have now: "ce_now env = now" using at by (simp add: called_at_def)
  have fresh: "stamped prov now k q (now + ttl)" "served prov now failing k q" if "(k, q) \<in> set fresh" for k q failing
    using that Inr at stamped_now[OF _ assms(3)] served_fresh unfolding called_at_def quoted_def by metis+
  then have out: "all_served prov now False (set_all fresh (qb_out b))"
    using served(1) by (intro all_served_set_all) (auto simp: all_served_def)
  have s1: "cache_sound J prov now (memoize_all fresh (now + ttl) s)"
    "cs_rows (memoize_all fresh (now + ttl) s) = cs_rows s"
    using memoize_all_sound[OF assms(2)] fresh(1) by blast+
  have s2: "cache_sound J prov now ((memoize_all fresh (now + ttl) s)
      \<lparr>cs_rows := store_all J fresh now (now + ttl) (cs_rows s)\<rparr>)"
    using s1 store_all_sound[of J prov now "cs_rows s" fresh "now + ttl" now] fresh(1) assms(2)
    by (simp add: cache_sound_def memo_sound_def)
  show ?thesis
  proof (cases "fresh = [] \<or> ce_write env = Inr ()")
    case True
    then show ?thesis
      using assms(6) Inr now s1 s2 all_served_weaker[OF out, of "batch_failing env"]
      by (auto simp: fetch_uncached_def Let_def split: if_splits)
  next
    case False
    then obtain e where e: "ce_write env = Inl e" by (cases "ce_write env") auto
    then have "batch_failing env" by (simp add: batch_failing_def)
    then show ?thesis
      using assms(6) Inr now s1 e False after_failure_ok[OF served(2) out, of e]
      by (auto simp: fetch_uncached_def Let_def split: sum.splits)
  qed
qed

lemma get_quotes_ok:
  assumes "called_at prov now env" "cache_sound J prov now s" "provider_valid J prov"
    and "get_quotes J env symbols s = (r, s')"
  shows "cache_sound J prov now s' \<and> (case r of
       Inl e \<Rightarrow> e = ProviderUnavailable \<or> ce_read env = Inl e \<or> mp_status (ce_inner env) = Inl e
     | Inr out \<Rightarrow> all_served prov now (batch_failing env) out)"
proof -
  have now: "ce_now env = now" using assms(1) by (simp add: called_at_def)
  obtain tr s1 where ttl: "quote_ttl env s = (tr, s1)" by (rule prod.exhaust)
  have s1: "cache_sound J prov now s1"
    using assms(2) quote_ttl_keeps(1,2)[OF ttl] by (simp add: cache_sound_def memo_sound_def)
  show ?thesis
  proof (cases tr)
    case (Inl e)
    with assms(4) ttl quote_ttl_keeps(4)[OF ttl] s1 show ?thesis by (auto simp: get_quotes_def)
  next
    case (Inr t)
    have t: "t \<le> ttl_quote_closed" using quote_ttl_keeps(3)[OF ttl] Inr by simp
    obtain out misses where hits: "memo_hits env s1 symbols [] [] = Inr (out, misses)" "all_served prov now False out"
      using memo_hits_ok[OF assms(1) s1, of False "[]" symbols "[]"] by (auto simp: all_served_def)
    have "rows_sound J prov now (cs_rows s1)" using s1 by (simp add: cache_sound_def)
    from row_hits_ok[OF assms(3) this s1, of "\<lparr>qb_out = out, qb_expired = [], qb_uncached = []\<rparr>" misses] hits(2)
    obtain b s2 where rows: "row_hits J now (cs_rows s1) misses (\<lparr>qb_out = out, qb_expired = [], qb_uncached = []\<rparr>, s1) = (Inr b, s2)"
      "cache_sound J prov now s2" "all_served prov now False (qb_out b)" "all_served prov now True (qb_expired b)"
      by (auto simp: all_served_def[of _ _ _ "[]"])
    note weaker = all_served_weaker[of prov now False _ "batch_failing env"]
    show ?thesis
      using assms(4) ttl Inr hits s1 rows now weaker fetch_uncached_ok[OF assms(1) rows(2) t rows(3,4)]
      by (auto simp: get_quotes_def split: if_splits sum.splits)
  qed
qed

lemma get_candles_ok:
  assumes "cache_sound J prov now s" and "get_candles J env symbol bars s = (r, s')"
  shows "cache_sound J prov now s'"
proof -
  let ?k = "candles_key (to_upper symbol) bars"
  have put: "cache_sound J prov now (memoize ?k v stale s1)" if "cache_sound J prov now s1" for v stale s1
    using that memo_sound_other[of prov now s1 ?k] by (simp add: cache_sound_def)
  have row: "cache_sound J prov now (s\<lparr>cs_rows := upsert_row \<lparr>cr_key = ?k, cr_payload = p, cr_fetched = t,
      cr_stale_after = u\<rparr> (cs_rows s)\<rparr>)" for p t u
  proof -
    have "rows_sound J prov now (upsert_row \<lparr>cr_key = ?k, cr_payload = p, cr_fetched = t,
        cr_stale_after = u\<rparr> (cs_rows s))"
      by (rule rows_sound_upsert) (use assms(1) in \<open>simp_all add: cache_sound_def\<close>)
    then show ?thesis using assms(1) by (simp add: cache_sound_def memo_sound_def)
  qed
  have "cache_sound J prov now (snd (load_fresh env ?k ttl load ser deser x s))" for ttl load ser deser x
    using assms(1) put row by (auto simp: load_fresh_def Let_def split: sum.splits)
  then have "cache_sound J prov now (snd (with_cache env ?k ttl load ser deser s))" for ttl load ser deser
    using assms(1) put by (auto simp: with_cache_def from_rows_def split: option.splits sum.splits)
  then show ?thesis using assms(2) by (auto simp: get_candles_def Let_def split: prod.splits)
       (metis snd_conv)+
qed

section \<open>Many instances on one table\<close>

text \<open>Each serverless instance has its memo; the rows are shared. Calls come one after the other.\<close>

record fleet =
  fl_now :: time
  fl_instances :: "nat \<Rightarrow> cache_state"
  fl_rows :: "cache_row list"

definition instance_view :: "fleet \<Rightarrow> nat \<Rightarrow> cache_state" where
  "instance_view f i = (fl_instances f i)\<lparr>cs_rows := fl_rows f\<rparr>"

definition after_call :: "nat \<Rightarrow> cache_state \<Rightarrow> fleet \<Rightarrow> fleet" where
  "after_call i s f = f\<lparr>fl_instances := (fl_instances f)(i := s), fl_rows := cs_rows s\<rparr>"

definition cold_fleet :: "time \<Rightarrow> fleet" where
  "cold_fleet t = \<lparr>fl_now = t, fl_instances = (\<lambda>_. \<lparr>cs_memo = (\<lambda>_. None), cs_status = None, cs_rows = []\<rparr>), fl_rows = []\<rparr>"

inductive fleet_step :: "js_runtime \<Rightarrow> (time \<Rightarrow> market_provider) \<Rightarrow> fleet \<Rightarrow> fleet \<Rightarrow> bool" for J prov where
  clock: "fl_now f \<le> t \<Longrightarrow> fleet_step J prov f (f\<lparr>fl_now := t\<rparr>)"
| quote_call: "called_at prov (fl_now f) env \<Longrightarrow> get_quote J env symbol (instance_view f i) = (r, s)
    \<Longrightarrow> fleet_step J prov f (after_call i s f)"
| quotes_call: "called_at prov (fl_now f) env \<Longrightarrow> get_quotes J env symbols (instance_view f i) = (rs, s)
    \<Longrightarrow> fleet_step J prov f (after_call i s f)"
| candles_call: "called_at prov (fl_now f) env \<Longrightarrow> get_candles J env symbol bars (instance_view f i) = (c, s)
    \<Longrightarrow> fleet_step J prov f (after_call i s f)"
| restarted: "fleet_step J prov f (f\<lparr>fl_instances := (fl_instances f)(i := fl_instances (cold_fleet 0) i)\<rparr>)"

definition fleet_sound :: "js_runtime \<Rightarrow> (time \<Rightarrow> market_provider) \<Rightarrow> fleet \<Rightarrow> bool" where
  "fleet_sound J prov f \<longleftrightarrow> (\<forall>i. cache_sound J prov (fl_now f) (instance_view f i))"

lemma fleet_sound_call:
  assumes "fleet_sound J prov f" and "cache_sound J prov (fl_now f) s"
  shows "fleet_sound J prov (after_call i s f)"
  using assms unfolding fleet_sound_def cache_sound_def memo_sound_def after_call_def instance_view_def
  by simp

lemma fleet_step_sound:
  assumes "fleet_step J prov f f'" and "provider_valid J prov" and "fleet_sound J prov f"
  shows "fleet_sound J prov f'"
  using assms(1)
proof (cases rule: fleet_step.cases)
  case (clock t)
  then show ?thesis using assms(3) cache_sound_later[OF _ clock(2)] by (simp add: fleet_sound_def instance_view_def)
next
  case (quote_call env symbol i r s)
  then show ?thesis using get_quote_ok(1)[OF quote_call(2) _ assms(2) quote_call(3)] fleet_sound_call assms(3)
    by (simp add: fleet_sound_def)
next
  case (quotes_call env symbols i rs s)
  then show ?thesis using get_quotes_ok[OF quotes_call(2) _ assms(2) quotes_call(3)] fleet_sound_call assms(3)
    by (simp add: fleet_sound_def)
next
  case (candles_call env symbol bars i c s)
  then show ?thesis using get_candles_ok[OF _ candles_call(3)] fleet_sound_call assms(3)
    by (simp add: fleet_sound_def)
next
  case (restarted i)
  then show ?thesis using assms(3)
    by (auto simp: fleet_sound_def instance_view_def cache_sound_def memo_sound_def cold_fleet_def)
qed

lemma fleet_run_sound:
  assumes "(fleet_step J prov)\<^sup>*\<^sup>* (cold_fleet t) f" and "provider_valid J prov"
  shows "fleet_sound J prov f"
  using assms(1)
proof (induction rule: rtranclp_induct)
  case base
  then show ?case by (simp add: fleet_sound_def cache_sound_def memo_sound_def rows_sound_def cold_fleet_def instance_view_def)
next
  case (step f f')
  then show ?case using fleet_step_sound assms(2) by blast
qed

text \<open>
  C25: Display quotes are genuine and recent. After any calls on any instances that share the table, in any
  order and with any failures and restarts, a quote that is served was given by the provider for that
  symbol, and less than sixty seconds ago unless the provider or the write of the table fails now; and a
  call fails only as unavailable, or with the error of the table or of the market status.
\<close>

theorem served_quotes_recent:
  assumes "(fleet_step J prov)\<^sup>*\<^sup>* (cold_fleet t0) f" and "provider_valid J prov" and "called_at prov (fl_now f) env"
  shows "(case fst (get_quote J env symbol (instance_view f i)) of
      Inl e \<Rightarrow> e = ProviderUnavailable \<or> ce_read env = Inl e \<or> mp_status (ce_inner env) = Inl e
    | Inr q \<Rightarrow> served prov (fl_now f) (mp_quote (ce_inner env) symbol \<notin> range Inr \<or> ce_write env \<noteq> Inr ())
        (to_upper symbol) q)
    \<and> (case fst (get_quotes J env symbols (instance_view f i)) of
      Inl e \<Rightarrow> e = ProviderUnavailable \<or> ce_read env = Inl e \<or> mp_status (ce_inner env) = Inl e
    | Inr out \<Rightarrow> all_served prov (fl_now f) (batch_failing env) out)"
proof (rule conjI)
  have sound: "cache_sound J prov (fl_now f) (instance_view f i)"
    using fleet_run_sound[OF assms(1,2)] by (simp add: fleet_sound_def)
  obtain r s where r: "get_quote J env symbol (instance_view f i) = (r, s)" by (rule prod.exhaust)
  show "case fst (get_quote J env symbol (instance_view f i)) of
      Inl e \<Rightarrow> e = ProviderUnavailable \<or> ce_read env = Inl e \<or> mp_status (ce_inner env) = Inl e
    | Inr q \<Rightarrow> served prov (fl_now f) (mp_quote (ce_inner env) symbol \<notin> range Inr \<or> ce_write env \<noteq> Inr ())
        (to_upper symbol) q"
    using get_quote_ok(2,3)[OF assms(3) sound assms(2) r] r by (cases r) simp_all
  obtain rs s' where rs: "get_quotes J env symbols (instance_view f i) = (rs, s')" by (rule prod.exhaust)
  then show "case fst (get_quotes J env symbols (instance_view f i)) of
      Inl e \<Rightarrow> e = ProviderUnavailable \<or> ce_read env = Inl e \<or> mp_status (ce_inner env) = Inl e
    | Inr out \<Rightarrow> all_served prov (fl_now f) (batch_failing env) out"
    using get_quotes_ok[OF assms(3) sound assms(2) rs] by simp
qed

section \<open>What becomes of the provider's errors\<close>

lemma uncached_load:
  assumes "ce_read env = Inr ()" "cs_memo s k = None" "find (\<lambda>r. cr_key r = k) (cs_rows s) = None"
  shows "with_cache env k ttl load ser deser s = load_fresh env k ttl load ser deser None s"
  using assms by (simp add: with_cache_def from_rows_def)

lemma uncached_quote:
  assumes "ce_read env = Inr ()" "mp_status (ce_inner env) = Inr st"
    and "cs_memo s (quote_key (to_upper symbol)) = None"
    and "find (\<lambda>r. cr_key r = quote_key (to_upper symbol)) (cs_rows s) = None"
  obtains ttl s1 where "fst (get_quote J env symbol s) = ebind (fst (load_fresh env (quote_key (to_upper symbol)) ttl
      (quote_load env symbol) (value_payload J) (payload_value J) None s1)) as_quote"
proof -
  obtain tr s1 where ttl: "quote_ttl env s = (tr, s1)" by (rule prod.exhaust)
  note keeps = quote_ttl_keeps[OF ttl]
  obtain t where t: "tr = Inr t" using keeps(4) assms(2) by (cases tr) auto
  have "with_cache env (quote_key (to_upper symbol)) t load ser deser s1
      = load_fresh env (quote_key (to_upper symbol)) t load ser deser None s1" for load ser deser
    using assms keeps(1,2) by (intro uncached_load) simp_all
  then have "fst (get_quote J env symbol s) = ebind (fst (load_fresh env (quote_key (to_upper symbol)) t
      (quote_load env symbol) (value_payload J) (payload_value J) None s1)) as_quote"
    using ttl t by (simp add: get_quote_def split: prod.split)
  then show thesis by (rule that)
qed

text \<open>
  The cache hides that a symbol is unknown. For a symbol the provider does not know and nobody has
  stored, registering it through the cached provider fails as unavailable; the same registration on the
  provider itself answers that the symbol is not found.
\<close>

theorem unknown_symbol_masked:
  assumes "mp_quote (ce_inner env) (to_upper (js_trim symbol)) = Inl UnknownSymbol"
    and "mp_status (ce_inner env) = Inr st" and "ce_read env = Inr ()"
    and "cs_memo s (quote_key (to_upper (js_trim symbol))) = None"
    and "find (\<lambda>r. cr_key r = quote_key (to_upper (js_trim symbol))) (cs_rows s) = None"
    and "get_by_symbol d (to_upper (js_trim symbol)) = None"
  shows "get_or_register (\<lambda>x. map_sum id quote.truncate (fst (get_quote J env x s))) symbol d
      = (Inl ProviderUnavailable, d)
    \<and> get_or_register (\<lambda>x. map_sum id quote.truncate (mp_quote (ce_inner env) x)) symbol d
      = (Inl (AppError NOT_FOUND (Some UNKNOWN_SYMBOL)), d)"
proof -
  let ?t = "to_upper (js_trim symbol)"
  have "fst (get_quote J env ?t s) = Inl ProviderUnavailable"
    using uncached_quote[of env st s ?t J] assms
    by (simp add: load_fresh_def degrade_def unavailable_def) (metis ebind_simps(1) fst_conv)
  then show ?thesis using assms by (simp add: get_or_register_def Let_def)
qed

text \<open>
  C26: A failing table hides a good answer. When the provider gives a fresh quote but the row cannot be
  written, a single lookup of a symbol with no row fails as unavailable, and a batch answers with the
  expired row in place of the fresh quote, which only the memo keeps.
\<close>

theorem failed_write_hides_answer:
  assumes "ce_write env = Inl e" and "ce_read env = Inr ()" and "mp_status (ce_inner env) = Inr st"
    and "mp_quote (ce_inner env) a = Inr qa" and "cs_memo s (quote_key (to_upper a)) = None"
    and "find (\<lambda>r. cr_key r = quote_key (to_upper a)) (cs_rows s) = None"
    and "mp_quotes (ce_inner env) [to_upper b] = Inr [(to_upper b, new)]" and "cs_memo s (quote_key (to_upper b)) = None"
    and "find (\<lambda>r. cr_key r = quote_key (to_upper b)) (cs_rows s) = Some r" and "cr_stale_after r \<le> ce_now env"
    and "cr_payload r = Quote_payload (serialize_quote J old)" and "quote_valid J old"
  shows "fst (get_quote J env a s) = Inl ProviderUnavailable
    \<and> fst (get_quotes J env [b] s) = Inr [(to_upper b, old)]
    \<and> (\<exists>ttl. cs_memo (snd (get_quotes J env [b] s)) (quote_key (to_upper b)) = Some (Quote_value new, ce_now env + ttl))"
proof -
  have one: "fst (get_quote J env a s) = Inl ProviderUnavailable"
    using uncached_quote[OF assms(2,3,5,6), of J] assms(1,4)
    by (simp add: load_fresh_def degrade_def unavailable_def) (metis ebind_simps(1) fst_conv)
  obtain tr s1 where ttl: "quote_ttl env s = (tr, s1)" by (rule prod.exhaust)
  note keeps = quote_ttl_keeps[OF ttl]
  obtain t where t: "tr = Inr t" using keeps(4) assms(3) by (cases tr) auto
  have stored: "ebind (payload_value J (cr_payload r)) as_quote = Inr old"
    using assms(11,12) by (simp add: payload_value_def deserialize_serialize as_quote_def)
  have "get_quotes J env [b] s = (Inr [(to_upper b, old)], memoize (quote_key (to_upper b)) (Quote_value new) (ce_now env + t) s1)"
    using assms(1,2,7-10) ttl t keeps(1,2) stored
    by (simp add: get_quotes_def memo_quote_def fetch_uncached_def after_failure_def set_all_def memoize_all_def Let_def)
  with one show ?thesis by (simp add: memoize_def)
qed

section \<open>At concrete inputs\<close>

definition tally_runtime :: js_runtime where
  "tally_runtime = \<lparr>jd_parse = (\<lambda>s. Some (int (length s))), jd_iso = (\<lambda>t. replicate (nat t) CHR ''x''),
     jd_collation = map of_char\<rparr>"

definition demo_full :: "string \<Rightarrow> full_quote" where
  "demo_full ticker = \<lparr>qt_symbol = ticker, qt_bid = Some 1999000, qt_ask = None, qt_last = 2000000, qt_ts = 10,
     qt_previous_close = Some 1900000, fq_bid_size = Some 5, fq_ask_size = None, fq_source = ''feed''\<rparr>"

lemma demo_full_valid: "quote_valid tally_runtime (demo_full ticker)"
  by (simp add: quote_valid_def demo_full_def tally_runtime_def)

theorem quote_roundtrip_witness:
  "ebind (payload_value tally_runtime (value_payload tally_runtime (Quote_value (demo_full ''AAPL'')))) as_quote
     = Inr (demo_full ''AAPL'')"
  by (rule quote_roundtrip[OF demo_full_valid])

definition steady_provider :: "time \<Rightarrow> market_provider" where
  "steady_provider t = \<lparr>mp_quote = (\<lambda>x. if x = ''NOPE'' then Inl UnknownSymbol else Inr (demo_full (to_upper x))),
     mp_quotes = (\<lambda>xs. Inr (map (\<lambda>x. (to_upper x, demo_full (to_upper x))) xs)),
     mp_candles = (\<lambda>_ _. Inr []), mp_status = Inr (Market_open, t)\<rparr>"

definition steady_env :: "time \<Rightarrow> unit result \<Rightarrow> cache_env" where
  "steady_env t w = \<lparr>ce_now = t, ce_inner = steady_provider t, ce_read = Inr (), ce_write = w\<rparr>"

lemma steady_valid: "provider_valid tally_runtime steady_provider"
  by (auto simp: provider_valid_def quoted_def steady_provider_def demo_full_valid split: if_splits)

lemma steady_called: "called_at steady_provider t (steady_env t w)"
  by (simp add: called_at_def steady_env_def)

text \<open>Another instance asks five seconds after the first one loaded the quote.\<close>

definition later_fleet :: fleet where
  "later_fleet = (after_call 0 (snd (get_quote tally_runtime (steady_env 1000 (Inr ())) ''AAPL'' (instance_view (cold_fleet 1000) 0)))
     (cold_fleet 1000))\<lparr>fl_now := 6000\<rparr>"

lemma later_fleet_reached: "(fleet_step tally_runtime steady_provider)\<^sup>*\<^sup>* (cold_fleet 1000) later_fleet"
proof -
  let ?f = "after_call 0 (snd (get_quote tally_runtime (steady_env 1000 (Inr ())) ''AAPL'' (instance_view (cold_fleet 1000) 0)))
     (cold_fleet 1000)"
  have "fl_now (cold_fleet 1000) = 1000" "fl_now ?f = 1000" by (simp_all add: cold_fleet_def after_call_def)
  then have "fleet_step tally_runtime steady_provider (cold_fleet 1000) ?f"
    and "fleet_step tally_runtime steady_provider ?f later_fleet"
    using fleet_step.quote_call[of steady_provider "cold_fleet 1000" "steady_env 1000 (Inr ())"] steady_called
      fleet_step.clock[of ?f 6000] by (auto simp: later_fleet_def prod_eq_iff)
  then show ?thesis by (meson converse_rtranclp_into_rtranclp r_into_rtranclp)
qed

theorem served_quotes_recent_witness:
  "case fst (get_quote tally_runtime (steady_env 6000 (Inr ())) ''aapl'' (instance_view later_fleet 1)) of
     Inl e \<Rightarrow> e = ProviderUnavailable
   | Inr q \<Rightarrow> served steady_provider 6000 False ''AAPL'' q"
proof -
  have now: "fl_now later_fleet = 6000" by (simp add: later_fleet_def)
  have up: "to_upper ''aapl'' = ''AAPL''" by code_simp
  have "mp_quote (ce_inner (steady_env 6000 (Inr ()))) ''aapl'' \<in> range Inr" "ce_read (steady_env 6000 (Inr ())) = Inr ()"
    "ce_write (steady_env 6000 (Inr ())) = Inr ()" "mp_status (ce_inner (steady_env 6000 (Inr ()))) = Inr (Market_open, 6000)"
    by (simp_all add: steady_env_def steady_provider_def)
  with served_quotes_recent[OF later_fleet_reached steady_valid, of "steady_env 6000 (Inr ())" "''aapl''" 1 "[]"] steady_called
    now up show ?thesis by (auto split: sum.splits)
qed

definition cold_cache :: cache_state where
  "cold_cache = \<lparr>cs_memo = (\<lambda>_. None), cs_status = None, cs_rows = []\<rparr>"

theorem unknown_symbol_masked_witness:
  "get_or_register (\<lambda>x. map_sum id quote.truncate (fst (get_quote tally_runtime (steady_env 1000 (Inr ())) x cold_cache)))
     ''nope'' (empty_db 0) = (Inl ProviderUnavailable, empty_db 0)"
proof -
  have up: "to_upper (js_trim ''nope'') = ''NOPE''" by code_simp
  then have "mp_quote (ce_inner (steady_env 1000 (Inr ()))) (to_upper (js_trim ''nope'')) = Inl UnknownSymbol"
    by (simp add: steady_env_def steady_provider_def)
  from unknown_symbol_masked[OF this, of "(Market_open, 1000)" cold_cache "empty_db 0" tally_runtime] show ?thesis
    by (simp add: steady_env_def steady_provider_def cold_cache_def get_by_symbol_def empty_db_def)
qed

definition stale_cache :: cache_state where
  "stale_cache = cold_cache\<lparr>cs_rows := [\<lparr>cr_key = quote_key ''MSFT'',
     cr_payload = Quote_payload (serialize_quote tally_runtime ((demo_full ''MSFT'')\<lparr>qt_last := 1\<rparr>)), cr_fetched = 0,
     cr_stale_after = 10\<rparr>]\<rparr>"

theorem failed_write_hides_answer_witness:
  "fst (get_quote tally_runtime (steady_env 1000 (Inl (JsError ''db''))) ''AAPL'' stale_cache) = Inl ProviderUnavailable
   \<and> fst (get_quotes tally_runtime (steady_env 1000 (Inl (JsError ''db''))) [''MSFT''] stale_cache)
     = Inr [(''MSFT'', (demo_full ''MSFT'')\<lparr>qt_last := 1\<rparr>)]"
proof -
  have up: "to_upper ''AAPL'' = ''AAPL''" "to_upper ''MSFT'' = ''MSFT''"
    by code_simp+
  have "quote_valid tally_runtime ((demo_full ''MSFT'')\<lparr>qt_last := 1\<rparr>)"
    by (simp add: quote_valid_def demo_full_def tally_runtime_def)
  then show ?thesis
    using failed_write_hides_answer[of "steady_env 1000 (Inl (JsError ''db''))" "JsError ''db''" "(Market_open, 1000)"
        "''AAPL''" "demo_full ''AAPL''" stale_cache "''MSFT''" "demo_full ''MSFT''" "hd (cs_rows stale_cache)"
        tally_runtime "(demo_full ''MSFT'')\<lparr>qt_last := 1\<rparr>"] up
    by (simp add: steady_env_def steady_provider_def stale_cache_def cold_cache_def)
qed

end
