(* ===== verification/Ledger_Pages.thy ===== *)
theory Ledger_Pages
  imports Api_Orders
begin

text \<open>
  The history of a user, page by page: \<open>listForUser\<close> of \<^verbatim>\<open>src/infra/db/repositories/ledger.ts\<close>, the endpoint
  \<open>getLedger\<close> of \<^verbatim>\<open>src/server/api/portfolio.ts\<close>, and the reader in the browser that follows its cursors
  (\<^verbatim>\<open>src/app/(app)/activity/page.tsx\<close>). PostgreSQL keeps a timestamp in microseconds; a JavaScript \<open>Date\<close>,
  which is what \<open>le_created\<close> holds, has the milliseconds only. The microseconds of a row beyond its
  millisecond are the argument \<open>micros\<close>; the database orders and compares with them, but the pivot of a page
  comes back to it as a \<open>Date\<close>.
\<close>

section \<open>The query\<close>

definition stored_at :: "(uuid \<Rightarrow> nat) \<Rightarrow> ledger_entry \<Rightarrow> int" where
  "stored_at micros r = le_created r * 1000 + int (micros (le_id r))"

definition entry_order :: "(uuid \<Rightarrow> nat) \<Rightarrow> ledger_entry \<times> bool \<Rightarrow> int \<times> uuid" where
  "entry_order micros x = (stored_at micros (fst x), le_id (fst x))"

text \<open>The join with the accounts of the user; the flag tells an archived account.\<close>

definition entries_of_user :: "db \<Rightarrow> uuid \<Rightarrow> (ledger_entry \<times> bool) list" where
  "entries_of_user d u =
     List.map_filter (\<lambda>r. case get_account d (le_account r) of
         Some a \<Rightarrow> if acc_user a = u then Some (r, acc_status a = ARCHIVED) else None
       | None \<Rightarrow> None) (ledger d)"

definition newest_first :: "(uuid \<Rightarrow> nat) \<Rightarrow> (ledger_entry \<times> bool) list \<Rightarrow> (ledger_entry \<times> bool) list" where
  "newest_first micros xs = rev (sort_key (entry_order micros) xs)"

definition list_ledger_for_user ::
    "(uuid \<Rightarrow> nat) \<Rightarrow> db \<Rightarrow> uuid \<Rightarrow> nat \<Rightarrow> uuid option \<Rightarrow> (ledger_entry \<times> bool) list" where
  "list_ledger_for_user micros d u limit before =
     (let mine = entries_of_user d u
      in case before of
           None \<Rightarrow> take limit (newest_first micros mine)
         | Some b \<Rightarrow>
             (case find (\<lambda>x. le_id (fst x) = b) mine of
                None \<Rightarrow> []
              | Some pivot \<Rightarrow>
                  take limit (newest_first micros
                    (filter (\<lambda>x. entry_order micros x < (le_created (fst pivot) * 1000, le_id (fst pivot))) mine))))"

section \<open>The endpoint\<close>

record ledger_dto =
  ld_id :: uuid
  ld_type :: entry_type
  ld_amount :: string
  ld_description :: string
  ld_ref :: "ledger_ref option"
  ld_archived :: bool
  ld_created :: string

record ledger_page =
  lp_next :: "uuid option"
  lp_entries :: "ledger_dto list"

definition ledger_page_size :: nat where "ledger_page_size = 50"

definition serialize_entry :: "(time \<Rightarrow> string) \<Rightarrow> ledger_entry \<times> bool \<Rightarrow> ledger_dto" where
  "serialize_entry to_iso x =
     \<lparr>ld_id = le_id (fst x), ld_type = le_type (fst x), ld_amount = money_to_string (le_amount (fst x)),
      ld_description = le_description (fst x), ld_ref = le_ref (fst x), ld_archived = snd x,
      ld_created = to_iso (le_created (fst x))\<rparr>"

text \<open>The query parameter: absent, or the text of a UUID.\<close>

definition ledger_cursor :: "(string \<Rightarrow> uuid option) \<Rightarrow> string option \<Rightarrow> uuid option result" where
  "ledger_cursor uuid_of before =
     (case before of
        None \<Rightarrow> Inr None
      | Some s \<Rightarrow> ebind (of_option (AppError VALIDATION None) (uuid_of s)) (\<lambda>i. Inr (Some i)))"

definition get_ledger ::
    "(uuid \<Rightarrow> nat) \<Rightarrow> (string \<Rightarrow> uuid option) \<Rightarrow> (time \<Rightarrow> string) \<Rightarrow> db \<Rightarrow> uuid \<Rightarrow> string option \<Rightarrow> ledger_page result" where
  "get_ledger micros uuid_of to_iso d u before =
     ebind (ledger_cursor uuid_of before) (\<lambda>cursor.
       let rows = list_ledger_for_user micros d u (ledger_page_size + 1) cursor;
           entries = take ledger_page_size rows
       in Inr \<lparr>lp_next = (if length rows > ledger_page_size then Some (le_id (fst (last entries))) else None),
               lp_entries = map (serialize_entry to_iso) entries\<rparr>)"

text \<open>
  The reader after some number of pages: the entries it has, and whether it has reached the end, as the last
  page named no next cursor. Without a next cursor no page is asked for any more.
\<close>

fun read_pages :: "(string option \<Rightarrow> ledger_page result) \<Rightarrow> (uuid \<Rightarrow> string) \<Rightarrow> nat \<Rightarrow> string option \<Rightarrow> (ledger_dto list \<times> bool) result" where
  "read_pages get show_id 0 cursor = Inr ([], False)"
| "read_pages get show_id (Suc n) cursor =
     ebind (get cursor) (\<lambda>pg.
       case lp_next pg of
         None \<Rightarrow> Inr (lp_entries pg, True)
       | Some i \<Rightarrow> ebind (read_pages get show_id n (Some (show_id i))) (\<lambda>(rest, ended). Inr (lp_entries pg @ rest, ended)))"

section \<open>The pages are cut from one ordered history\<close>

definition history :: "(uuid \<Rightarrow> nat) \<Rightarrow> db \<Rightarrow> uuid \<Rightarrow> (ledger_entry \<times> bool) list" where
  "history micros d u = newest_first micros (entries_of_user d u)"

lemma newest_first_filter: "newest_first micros (filter P xs) = filter P (newest_first micros xs)"
  by (simp add: newest_first_def rev_filter flip: filter_sort)

lemma set_newest_first [simp]: "set (newest_first micros xs) = set xs"
  by (simp add: newest_first_def)

lemma joined_ids:
  "map (\<lambda>x. le_id (fst x)) (List.map_filter (\<lambda>r. case acc r of
       Some a \<Rightarrow> if P a then Some (r, g a) else None | None \<Rightarrow> None) rs)
    = map le_id (filter (\<lambda>r. case acc r of Some a \<Rightarrow> P a | None \<Rightarrow> False) rs)"
  by (induction rs) (auto simp: List.map_filter_simps split: option.splits)

lemma entries_ids:
  assumes "schema_ok d"
  shows "distinct (map (\<lambda>x. le_id (fst x)) (entries_of_user d u))"
proof -
  have "distinct (map le_id (ledger d))" using assms by (simp add: schema_ok_def ledger_ok_def)
  moreover have "map (\<lambda>x. le_id (fst x)) (entries_of_user d u)
      = map le_id (filter (\<lambda>r. case get_account d (le_account r) of Some a \<Rightarrow> acc_user a = u | None \<Rightarrow> False) (ledger d))"
    unfolding entries_of_user_def by (rule joined_ids)
  ultimately show ?thesis by (simp add: distinct_map_filter)
qed

lemma history_descends:
  assumes "schema_ok d"
  shows "sorted_wrt (\<lambda>x y. entry_order micros y < entry_order micros x) (history micros d u)"
proof -
  let ?s = "sort_key (entry_order micros) (entries_of_user d u)"
  have "map snd (map (entry_order micros) (entries_of_user d u)) = map (\<lambda>x. le_id (fst x)) (entries_of_user d u)"
    by (simp add: entry_order_def)
  then have "distinct (map (entry_order micros) (entries_of_user d u))"
    using entries_ids[OF assms, of u] by (metis distinct_map)
  then have "distinct (map (entry_order micros) ?s)" by (simp add: distinct_map)
  then have "sorted_wrt (<) (map (entry_order micros) ?s)" by (simp add: strict_sorted_iff)
  then show ?thesis by (simp add: history_def newest_first_def sorted_wrt_rev sorted_wrt_map)
qed

lemma page_first: "list_ledger_for_user micros d u n None = take n (history micros d u)"
  by (simp add: list_ledger_for_user_def history_def)

text \<open>What the database compares with: the pivot as it went through the \<open>Date\<close>.\<close>

definition cut_at :: "ledger_entry \<times> bool \<Rightarrow> int \<times> uuid" where
  "cut_at x = (le_created (fst x) * 1000, le_id (fst x))"

lemma cut_below: "cut_at x \<le> entry_order micros x"
  by (simp add: cut_at_def entry_order_def stored_at_def less_eq_prod_def)

lemma page_after:
  assumes "schema_ok d" "p \<in> set (history micros d u)"
  shows "list_ledger_for_user micros d u n (Some (le_id (fst p)))
    = take n (filter (\<lambda>x. entry_order micros x < cut_at p) (history micros d u))"
proof -
  have "p \<in> set (entries_of_user d u)" using assms(2) by (simp add: history_def)
  then have "find (\<lambda>x. le_id (fst x) = le_id (fst p)) (entries_of_user d u) = Some p"
    by (rule find_key_unique[OF entries_ids[OF assms(1)]])
  then show ?thesis by (simp add: list_ledger_for_user_def history_def newest_first_filter cut_at_def)
qed

lemma get_ledger_rows:
  assumes "ledger_cursor uuid_of before = Inr cursor" "list_ledger_for_user micros d u 51 cursor = take 51 rows"
  shows "get_ledger micros uuid_of to_iso d u before
    = Inr \<lparr>lp_next = (if 50 < length rows then Some (le_id (fst (rows ! 49))) else None),
           lp_entries = map (serialize_entry to_iso) (take 50 rows)\<rparr>"
proof -
  have "last (take 50 rows) = rows ! 49" if "50 < length rows"
    using that by (subst last_conv_nth) (auto simp: min_def)
  then show ?thesis using assms by (simp add: get_ledger_def ledger_page_size_def min_def)
qed

section \<open>On whole milliseconds nothing is lost\<close>

definition whole_milliseconds :: "(uuid \<Rightarrow> nat) \<Rightarrow> db \<Rightarrow> bool" where
  "whole_milliseconds micros d \<longleftrightarrow> list_all (\<lambda>r. micros (le_id r) = 0) (ledger d)"

lemma entries_in_ledger: "x \<in> set (entries_of_user d u) \<Longrightarrow> fst x \<in> set (ledger d)"
  unfolding entries_of_user_def by (auto simp: List.map_filter_def split: option.splits if_splits)

lemma whole_cut:
  "whole_milliseconds micros d \<Longrightarrow> x \<in> set (history micros d u) \<Longrightarrow> cut_at x = entry_order micros x"
  using entries_in_ledger[of x d u]
  by (simp add: whole_milliseconds_def list_all_iff history_def cut_at_def entry_order_def stored_at_def)

lemma rest_of_history:
  assumes "schema_ok d" "whole_milliseconds micros d" "history micros d u = xs @ p # rest"
  shows "filter (\<lambda>x. entry_order micros x < cut_at p) (history micros d u) = rest"
proof -
  have cut: "cut_at p = entry_order micros p" using assms(3) by (intro whole_cut[OF assms(2), of _ u]) simp
  have "sorted_wrt (\<lambda>x y. entry_order micros y < entry_order micros x) (xs @ p # rest)"
    using history_descends[OF assms(1), of micros u] unfolding assms(3) .
  then have "\<forall>x \<in> set xs. entry_order micros p < entry_order micros x" "\<forall>x \<in> set rest. entry_order micros x < entry_order micros p"
    by (auto simp: sorted_wrt_append)
  then have "filter (\<lambda>x. entry_order micros x < entry_order micros p) xs = []"
    "filter (\<lambda>x. entry_order micros x < entry_order micros p) rest = rest"
    by (auto simp: filter_empty_conv filter_id_conv dest: less_imp_not_less)
  then show ?thesis by (simp add: assms(3) cut)
qed

lemma read_rest:
  assumes d: "schema_ok d" "whole_milliseconds micros d" and ids: "\<And>i. uuid_of (show_id i) = Some i"
    and n: "length rest \<le> 50 * n" "0 < n"
    and at: "cursor = None \<and> rest = history micros d u
      \<or> (\<exists>xs p. history micros d u = xs @ p # rest \<and> cursor = Some (show_id (le_id (fst p))))"
  shows "read_pages (get_ledger micros uuid_of to_iso d u) show_id n cursor = Inr (map (serialize_entry to_iso) rest, True)"
  using n at
proof (induction n arbitrary: rest cursor)
  case (Suc n)
  have rows: "\<exists>c. ledger_cursor uuid_of cursor = Inr c \<and> list_ledger_for_user micros d u 51 c = take 51 rest"
    using Suc.prems(3)
  proof
    assume "\<exists>xs p. history micros d u = xs @ p # rest \<and> cursor = Some (show_id (le_id (fst p)))"
    then obtain xs p where p: "history micros d u = xs @ p # rest" "cursor = Some (show_id (le_id (fst p)))" by blast
    then have "list_ledger_for_user micros d u 51 (Some (le_id (fst p))) = take 51 rest"
      using page_after[OF d(1), of p micros u 51] unfolding rest_of_history[OF d p(1)] by (simp add: p(1))
    then show ?thesis using p(2) by (simp add: ledger_cursor_def ids)
  qed (simp add: ledger_cursor_def page_first)
  then have pg: "get_ledger micros uuid_of to_iso d u cursor
    = Inr \<lparr>lp_next = (if 50 < length rest then Some (le_id (fst (rest ! 49))) else None),
           lp_entries = map (serialize_entry to_iso) (take 50 rest)\<rparr>"
    using get_ledger_rows by blast
  show ?case
  proof (cases "50 < length rest")
    case True
    have "take 50 rest = take 49 rest @ [rest ! 49]" using True take_Suc_conv_app_nth[of 49 rest] by simp
    then have split: "rest = take 49 rest @ rest ! 49 # drop 50 rest" using append_take_drop_id[of 50 rest] by simp
    have "\<exists>xs. history micros d u = xs @ rest" using Suc.prems(3) by (auto intro: exI[of _ "[]"] exI[of _ "_ @ [_]"])
    then obtain xs where "history micros d u = xs @ take 49 rest @ rest ! 49 # drop 50 rest" using split by metis
    then have "history micros d u = (xs @ take 49 rest) @ rest ! 49 # drop 50 rest" by simp
    then have "read_pages (get_ledger micros uuid_of to_iso d u) show_id n (Some (show_id (le_id (fst (rest ! 49)))))
        = Inr (map (serialize_entry to_iso) (drop 50 rest), True)"
      using Suc.prems(1) True by (intro Suc.IH) auto
    then show ?thesis using True by (simp add: pg flip: map_append)
  qed (simp add: pg)
qed simp

text \<open>
  C30: The history is read completely. If every stored timestamp is a whole millisecond, the reader who
  follows the cursors reaches the end, a page without a next cursor, within a page for every fifty entries, and then has
  exactly the ledger entries of all accounts of the user, archived ones included, each once, from the newest
  to the oldest.
\<close>

theorem history_read_completely:
  assumes "schema_ok d" "whole_milliseconds micros d" "\<And>i. uuid_of (show_id i) = Some i"
    and "length (ledger d) \<le> 50 * n" "0 < n"
  shows "\<exists>xs. read_pages (get_ledger micros uuid_of to_iso d u) show_id n None = Inr (map (serialize_entry to_iso) xs, True)
    \<and> distinct xs \<and> set xs = set (entries_of_user d u)
    \<and> sorted_wrt (\<lambda>x y. (le_created (fst y), le_id (fst y)) < (le_created (fst x), le_id (fst x))) xs"
proof (intro exI conjI)
  let ?h = "history micros d u"
  have "length (entries_of_user d u) \<le> length (ledger d)"
    unfolding entries_of_user_def by (simp add: List.map_filter_def)
  then have "length ?h \<le> 50 * n" using assms(4) by (simp add: history_def newest_first_def)
  then show "read_pages (get_ledger micros uuid_of to_iso d u) show_id n None = Inr (map (serialize_entry to_iso) ?h, True)"
    using assms(5) by (intro read_rest[OF assms(1,2,3)]) simp_all
  show "distinct ?h" using entries_ids[OF assms(1), of u] by (simp add: history_def newest_first_def distinct_map)
  show "set ?h = set (entries_of_user d u)" by (simp add: history_def)
  have eq: "(entry_order micros y < entry_order micros x)
      = ((le_created (fst y), le_id (fst y)) < (le_created (fst x), le_id (fst x)))" if "x \<in> set ?h" "y \<in> set ?h" for x y
    unfolding whole_cut[OF assms(2) that(1), symmetric] whole_cut[OF assms(2) that(2), symmetric]
    by (simp add: cut_at_def less_prod_def)
  show "sorted_wrt (\<lambda>x y. (le_created (fst y), le_id (fst y)) < (le_created (fst x), le_id (fst x))) ?h"
    by (rule sorted_wrt_mono_rel[OF _ history_descends[OF assms(1)]]) (use eq in blast)
qed


section \<open>Within a millisecond entries are skipped\<close>

text \<open>A page: the entries below the cut of its cursor, all of them if there is none.\<close>

definition below_cursor :: "(ledger_entry \<times> bool) option \<Rightarrow> (uuid \<Rightarrow> nat) \<Rightarrow> ledger_entry \<times> bool \<Rightarrow> bool" where
  "below_cursor c micros x = (case c of None \<Rightarrow> True | Some p \<Rightarrow> entry_order micros x < cut_at p)"

lemma below_cursor_down: "entry_order micros x < entry_order micros q \<Longrightarrow> below_cursor c micros q \<Longrightarrow> below_cursor c micros x"
  by (cases c) (simp_all add: below_cursor_def less_trans)

abbreviation descending :: "(uuid \<Rightarrow> nat) \<Rightarrow> (ledger_entry \<times> bool) list \<Rightarrow> bool" where
  "descending micros xs \<equiv> sorted_wrt (\<lambda>x y. entry_order micros y < entry_order micros x) xs"

abbreviation cursor_text :: "(uuid \<Rightarrow> string) \<Rightarrow> (ledger_entry \<times> bool) option \<Rightarrow> string option" where
  "cursor_text show_id c \<equiv> map_option (\<lambda>p. show_id (le_id (fst p))) c"

lemma page_of_cursor:
  assumes "schema_ok d" "\<And>i. uuid_of (show_id i) = Some i" "set_option c \<subseteq> set (history micros d u)"
  shows "get_ledger micros uuid_of to_iso d u (cursor_text show_id c)
    = (let rows = filter (below_cursor c micros) (history micros d u)
       in Inr \<lparr>lp_next = (if 50 < length rows then Some (le_id (fst (rows ! 49))) else None),
              lp_entries = map (serialize_entry to_iso) (take 50 rows)\<rparr>)"
proof (cases c)
  case None
  then show ?thesis unfolding Let_def
    by (intro get_ledger_rows[where cursor = None]) (simp_all add: ledger_cursor_def page_first below_cursor_def)
next
  case (Some p)
  then have "p \<in> set (history micros d u)" using assms(3) by simp
  moreover have "below_cursor c micros = (\<lambda>x. entry_order micros x < cut_at p)"
    by (simp add: fun_eq_iff below_cursor_def Some)
  ultimately show ?thesis unfolding Let_def using page_after[OF assms(1), of p micros u 51]
    by (intro get_ledger_rows[where cursor = "Some (le_id (fst p))"])
      (simp_all add: ledger_cursor_def assms(2) Some)
qed

text \<open>
  What a reader has is descending and below its cursor; what it has not reached the end of continues at the
  cursor of its last entry.
\<close>

lemma read_descends:
  assumes "schema_ok d" "\<And>i. uuid_of (show_id i) = Some i" "set_option c \<subseteq> set (history micros d u)"
  shows "\<exists>xs ended. read_pages (get_ledger micros uuid_of to_iso d u) show_id n (cursor_text show_id c)
      = Inr (map (serialize_entry to_iso) xs, ended)
    \<and> set xs \<subseteq> set (history micros d u) \<and> descending micros xs \<and> list_all (below_cursor c micros) xs"
  using assms(3)
proof (induction n arbitrary: c)
  case (Suc n)
  let ?rows = "filter (below_cursor c micros) (history micros d u)"
  note pg = page_of_cursor[OF assms(1,2) Suc.prems, of to_iso, unfolded Let_def]
  have rows: "descending micros ?rows" using history_descends[OF assms(1)] by (rule sorted_wrt_filter)
  then have page: "descending micros (take 50 ?rows)" "list_all (below_cursor c micros) (take 50 ?rows)"
    "set (take 50 ?rows) \<subseteq> set (history micros d u)"
    by (auto simp: sorted_wrt_take list_all_iff dest!: in_set_takeD)
  show ?case
  proof (cases "50 < length ?rows")
    case False
    then have "read_pages (get_ledger micros uuid_of to_iso d u) show_id (Suc n) (cursor_text show_id c)
        = Inr (map (serialize_entry to_iso) (take 50 ?rows), True)" by (simp add: pg)
    with page show ?thesis by blast
  next
    case True
    let ?q = "?rows ! 49"
    have "take 50 ?rows = take 49 ?rows @ [?q]" using True take_Suc_conv_app_nth[of 49 ?rows] by simp
    then have q: "?q \<in> set (take 50 ?rows)" and last_q: "\<forall>x \<in> set (take 50 ?rows). entry_order micros ?q \<le> entry_order micros x"
      using page(1) by (auto simp: sorted_wrt_append)
    have "set_option (Some ?q) \<subseteq> set (history micros d u)" using q page(3) by auto
    from Suc.IH[OF this] obtain xs ended where
      rest: "read_pages (get_ledger micros uuid_of to_iso d u) show_id n (Some (show_id (le_id (fst ?q))))
          = Inr (map (serialize_entry to_iso) xs, ended)"
      and xs: "set xs \<subseteq> set (history micros d u)" "descending micros xs" "list_all (below_cursor (Some ?q) micros) xs"
      by auto
    have less: "entry_order micros x < entry_order micros ?q" if "x \<in> set xs" for x
      using that xs(3) cut_below[of ?q micros] by (auto simp: list_all_iff below_cursor_def)
    then have "descending micros (take 50 ?rows @ xs)"
      using page(1) xs(2) last_q by (fastforce simp: sorted_wrt_append)
    moreover have below: "below_cursor c micros x" if "x \<in> set xs" for x
    proof -
      have "below_cursor c micros ?q" using page(2) q unfolding list_all_iff by blast
      with less[OF that] show ?thesis by (rule below_cursor_down)
    qed
    moreover have "read_pages (get_ledger micros uuid_of to_iso d u) show_id (Suc n) (cursor_text show_id c)
        = Inr (map (serialize_entry to_iso) (take 50 ?rows @ xs), ended)"
      using True rest by (simp add: pg)
    moreover have "list_all (below_cursor c micros) (take 50 ?rows @ xs)"
      using page(2) below unfolding list_all_iff set_append by blast
    moreover have "set (take 50 ?rows @ xs) \<subseteq> set (history micros d u)"
      unfolding set_append using page(3) xs(1) by (rule Un_least)
    ultimately show ?thesis by blast
  qed
qed (intro exI[of _ "[]"] exI[of _ False], simp)

lemma next_page_read:
  assumes "read_pages get show_id (Suc n) cursor = Inr (ys, ended)"
  obtains (stop) pg where "get cursor = Inr pg" "lp_next pg = None" "ys = lp_entries pg" "ended"
  | (more) pg i zs where "get cursor = Inr pg" "lp_next pg = Some i" "ys = lp_entries pg @ zs"
      "read_pages get show_id n (Some (show_id i)) = Inr (zs, ended)"
proof -
  from assms obtain pg where pg: "get cursor = Inr pg" by (cases "get cursor") auto
  show thesis
  proof (cases "lp_next pg")
    case None
    with assms pg stop show thesis by simp
  next
    case (Some i)
    with assms pg obtain q where "read_pages get show_id n (Some (show_id i)) = Inr q"
      by (cases "read_pages get show_id n (Some (show_id i))") auto
    with assms pg Some more[of pg i "fst q"] show thesis by (cases q) simp
  qed
qed

lemma read_on:
  assumes "\<And>c pg i. get c = Inr pg \<Longrightarrow> lp_next pg = Some i \<Longrightarrow> lp_entries pg \<noteq> [] \<and> ld_id (last (lp_entries pg)) = i"
    and "read_pages get show_id (Suc k) cursor = Inr (ys, False)"
  shows "ys \<noteq> [] \<and> read_pages get show_id (Suc k + m) cursor
    = ebind (read_pages get show_id m (Some (show_id (ld_id (last ys))))) (\<lambda>(rest, ended). Inr (ys @ rest, ended))"
  using assms(2)
proof (induction k arbitrary: cursor ys)
  case 0
  then obtain pg i where pg: "get cursor = Inr pg" "lp_next pg = Some i" "ys = lp_entries pg"
    by (cases rule: next_page_read) simp_all
  with assms(1)[OF pg(1,2)] show ?case by simp
next
  case (Suc k)
  from Suc.prems obtain pg i zs where pg: "get cursor = Inr pg" "lp_next pg = Some i" "ys = lp_entries pg @ zs"
    and rest: "read_pages get show_id (Suc k) (Some (show_id i)) = Inr (zs, False)"
    by (cases rule: next_page_read) simp_all
  from Suc.IH[OF rest] have zs: "zs \<noteq> []" and on: "read_pages get show_id (Suc k + m) (Some (show_id i))
    = ebind (read_pages get show_id m (Some (show_id (ld_id (last zs))))) (\<lambda>(r, ended). Inr (zs @ r, ended))" by auto
  have "read_pages get show_id (Suc (Suc k + m)) cursor
      = ebind (read_pages get show_id (Suc k + m) (Some (show_id i))) (\<lambda>(r, ended). Inr (lp_entries pg @ r, ended))"
    by (subst read_pages.simps(2)) (simp only: pg(1,2) ebind_simps option.case)
  also have "\<dots> = ebind (read_pages get show_id m (Some (show_id (ld_id (last ys))))) (\<lambda>(r, ended). Inr (ys @ r, ended))"
    unfolding on using zs pg(3) by (cases "read_pages get show_id m (Some (show_id (ld_id (last zs))))") (auto split: prod.splits)
  finally show ?case using zs pg(3) by simp
qed

lemma read_prefix:
  assumes "read_pages get show_id n cursor = Inr (ys, ended)" "m \<le> n"
  shows "\<exists>zs ended'. read_pages get show_id m cursor = Inr (zs, ended') \<and> set zs \<subseteq> set ys"
  using assms
proof (induction n arbitrary: m cursor ys ended)
  case (Suc n)
  show ?case
  proof (cases m)
    case m: (Suc l)
    from Suc.prems(1) show ?thesis
    proof (cases rule: next_page_read)
      case (stop pg)
      then show ?thesis by (auto simp: m)
    next
      case (more pg i zs)
      from Suc.IH[OF more(4), of l] Suc.prems(2) m obtain ws e where
        "read_pages get show_id l (Some (show_id i)) = Inr (ws, e)" "set ws \<subseteq> set zs" by auto
      with more(1-3) show ?thesis by (auto simp: m)
    qed
  qed auto
qed auto

lemma next_names_last:
  assumes "get_ledger micros uuid_of to_iso d u c = Inr pg" "lp_next pg = Some i"
  shows "lp_entries pg \<noteq> [] \<and> ld_id (last (lp_entries pg)) = i"
proof -
  obtain cursor where pg: "pg = (let rows = list_ledger_for_user micros d u (ledger_page_size + 1) cursor;
      entries = take ledger_page_size rows
    in \<lparr>lp_next = (if length rows > ledger_page_size then Some (le_id (fst (last entries))) else None),
        lp_entries = map (serialize_entry to_iso) entries\<rparr>)"
    using assms(1) by (auto simp: get_ledger_def result_simps Let_def)
  let ?entries = "take ledger_page_size (list_ledger_for_user micros d u (ledger_page_size + 1) cursor)"
  have "?entries \<noteq> []" "i = le_id (fst (last ?entries))"
    using assms(2) unfolding pg by (auto simp: Let_def ledger_page_size_def split: if_splits)
  then show ?thesis unfolding pg by (simp add: Let_def last_map serialize_entry_def)
qed

lemma ids_in_history:
  assumes "schema_ok d" "set xs \<subseteq> set (history micros d u)" "x \<in> set (history micros d u)" "x \<notin> set xs"
  shows "le_id (fst x) \<notin> ld_id ` set (map (serialize_entry to_iso) xs)"
proof -
  have "distinct (map (\<lambda>x. le_id (fst x)) (history micros d u))"
    using entries_ids[OF assms(1), of u] by (simp add: history_def newest_first_def distinct_map)
  then have "inj_on (\<lambda>x. le_id (fst x)) (set (history micros d u))" by (simp add: distinct_map)
  from inj_on_image_mem_iff[OF this assms(3,2)] assms(4) show ?thesis
    by (simp add: image_image serialize_entry_def)
qed

text \<open>
  C31: The keyset cursor loses the siblings it was made for. If any page a reader gets, the first or a later
  one, ends between two entries of the same instant, as the TRADE and the FEE of one fill, whose time is not a
  whole millisecond, then the second is on no page: however many pages the reader asks for, it is never shown.
\<close>

theorem shared_instant_is_skipped:
  assumes "schema_ok d" "\<And>i. uuid_of (show_id i) = Some i"
    and "history micros d u = before @ p # e # after"
    and "read_pages (get_ledger micros uuid_of to_iso d u) show_id k None = Inr (shown, False)"
    and "shown \<noteq> []" "ld_id (last shown) = le_id (fst p)"
    and "stored_at micros (fst e) = stored_at micros (fst p)" "le_created (fst e) = le_created (fst p)" "0 < micros (le_id (fst e))"
  shows "\<exists>out ended. read_pages (get_ledger micros uuid_of to_iso d u) show_id n None = Inr (out, ended)
    \<and> e \<in> set (entries_of_user d u) \<and> le_id (fst e) \<notin> ld_id ` set out"
proof -
  let ?h = "history micros d u" and ?read = "read_pages (get_ledger micros uuid_of to_iso d u) show_id"
  have e: "e \<in> set ?h" and p: "p \<in> set ?h" unfolding assms(3) by simp_all
  then have entry: "e \<in> set (entries_of_user d u)" by (simp add: history_def)
  have ep: "entry_order micros e < entry_order micros p"
    using history_descends[OF assms(1), of micros u] unfolding assms(3) by (simp add: sorted_wrt_append)
  obtain k' where k: "k = Suc k'" using assms(4,5) by (cases k) auto
  obtain xs where xs: "shown = map (serialize_entry to_iso) xs" "set xs \<subseteq> set ?h" "descending micros xs"
    using read_descends[OF assms(1,2), of None micros u to_iso k] assms(4) by auto
  then have nonempty: "xs \<noteq> []" using assms(5) by auto
  have "last xs = p"
  proof (rule ccontr)
    assume "last xs \<noteq> p"
    then have "le_id (fst p) \<notin> ld_id ` set (map (serialize_entry to_iso) [last xs])"
      using xs(2) nonempty by (intro ids_in_history[OF assms(1) _ p]) auto
    then show False using assms(6) xs(1) nonempty by (simp add: last_map)
  qed
  then have "xs = butlast xs @ [p]" using nonempty by (metis append_butlast_last_id)
  then have "entry_order micros p \<le> entry_order micros x" if "x \<in> set xs" for x
    using that xs(3) by (metis (no_types, lifting) Un_iff less_imp_le list.set_intros(1) order_refl set_ConsD set_append sorted_wrt_append empty_iff list.set(1))
  then have "e \<notin> set xs" using ep by (metis leD)
  then have unseen: "le_id (fst e) \<notin> ld_id ` set shown" unfolding xs(1) by (rule ids_in_history[OF assms(1) xs(2) e])
  show ?thesis
  proof (cases "n \<le> k")
    case True
    from read_prefix[OF assms(4) this] unseen entry show ?thesis by blast
  next
    case False
    then obtain m where n: "n = k + m" by (metis le_Suc_ex nat_le_linear)
    obtain zs ended where zs: "?read m (Some (show_id (le_id (fst p)))) = Inr (map (serialize_entry to_iso) zs, ended)"
      "set zs \<subseteq> set ?h" "list_all (below_cursor (Some p) micros) zs"
      using read_descends[OF assms(1,2), of "Some p" micros u to_iso m] p by auto
    have "cut_at p < entry_order micros e"
      using assms(8,9) by (simp add: cut_at_def entry_order_def stored_at_def less_prod_def)
    then have "e \<notin> set zs" using zs(3) by (auto simp: list_all_iff below_cursor_def)
    then have "le_id (fst e) \<notin> ld_id ` set (map (serialize_entry to_iso) zs)" by (rule ids_in_history[OF assms(1) zs(2) e])
    moreover have "?read n None = Inr (shown @ map (serialize_entry to_iso) zs, ended)"
      using read_on[where m = m, OF next_names_last assms(4)[unfolded k]] zs(1) assms(6) by (simp add: n k)
    ultimately show ?thesis using unseen entry by (simp add: image_Un)
  qed
qed

section \<open>Fifty-one fees of one instant\<close>

definition tie_row :: "nat \<Rightarrow> ledger_entry" where
  "tie_row k = \<lparr>le_id = 10 + k, le_account = 0, le_type = Entry_fee, le_amount = - 1, le_ref = None,
     le_description = ''Fee'', le_created = 0\<rparr>"

definition tie_db :: db where
  "tie_db = (empty_db 0)\<lparr>accounts := [demo_account], ledger := map tie_row [0..<51], next_id := 61\<rparr>"

definition id_of_text :: "string \<Rightarrow> uuid option" where
  "id_of_text s = Some (read_nat s)"

lemma id_of_text_show: "id_of_text (show_nat i) = Some i"
  by (simp add: id_of_text_def)

lemma tie_db_ok: "schema_ok tie_db"
proof -
  have ids: "distinct (map le_id (map tie_row [0..<51]))" by (simp add: distinct_map tie_row_def inj_on_def)
  have refs: "List.map_filter transfer_ref (map tie_row ks) = []" for ks
    by (induction ks) (simp_all add: tie_row_def transfer_ref_def List.map_filter_simps)
  have "ledger_ok (map tie_row [0..<51])"
    unfolding ledger_ok_def unique_index_def refs using ids by (simp add: list_all_iff tie_row_def)
  then show ?thesis
    by (simp add: tie_db_def demo_defs schema_defs accounts_ok_def broker_accounts_ok_def instruments_ok_def
      orders_ok_def order_events_ok_def fills_ok_def positions_ok_def transfers_ok_def tie_row_def list_all_iff)
qed

lemma tie_entries: "entries_of_user tie_db 7 = map (\<lambda>k. (tie_row k, False)) [0..<51]"
proof -
  have "List.map_filter (\<lambda>r. case get_account tie_db (le_account r) of
         Some a \<Rightarrow> if acc_user a = 7 then Some (r, acc_status a = ARCHIVED) else None
       | None \<Rightarrow> None) (map tie_row ks) = map (\<lambda>k. (tie_row k, False)) ks" for ks
    by (induction ks) (simp_all add: List.map_filter_simps tie_db_def tie_row_def get_account_def demo_account_def)
  then show ?thesis by (simp add: entries_of_user_def tie_db_def)
qed

lemma tie_history:
  "history (\<lambda>_. m) tie_db 7 = rev (map (\<lambda>k. (tie_row k, False)) [2..<51]) @ (tie_row 1, False) # (tie_row 0, False) # []"
proof -
  let ?rows = "map (\<lambda>k. (tie_row k, False)) [0..<51]"
  have "map (entry_order (\<lambda>_. m)) ?rows = map (\<lambda>k. (int m, 10 + k)) [0..<51]"
    by (simp add: entry_order_def stored_at_def tie_row_def)
  moreover have "sorted (map (\<lambda>k. (int m, 10 + k)) [0..<51])"
    unfolding sorted_map by (rule sorted_wrt_mono_rel[OF _ sorted_upt]) (simp add: less_eq_prod_def)
  ultimately have "sorted (map (entry_order (\<lambda>_. m)) ?rows)" by metis
  then have "sort_key (entry_order (\<lambda>_. m)) ?rows = ?rows" by (rule sort_key_id_if_sorted)
  moreover have "[0..<51] = [0, 1] @ [2..<51::nat]" by (simp add: upt_rec)
  ultimately show ?thesis by (simp add: history_def newest_first_def tie_entries)
qed

theorem shared_instant_is_skipped_witness:
  "\<exists>out ended. read_pages (get_ledger (\<lambda>_. 456) id_of_text (\<lambda>_. []) tie_db 7) show_nat 3 None = Inr (out, ended)
    \<and> (tie_row 0, False) \<in> set (entries_of_user tie_db 7) \<and> le_id (fst (tie_row 0, False)) \<notin> ld_id ` set out"
proof -
  let ?h = "history (\<lambda>_. 456) tie_db 7"
  have h: "take 50 ?h = rev (map (\<lambda>k. (tie_row k, False)) [2..<51]) @ [(tie_row 1, False)]" "length ?h = 51" "?h ! 49 = (tie_row 1, False)"
    by (simp_all add: tie_history nth_append)
  then have one: "read_pages (get_ledger (\<lambda>_. 456) id_of_text (\<lambda>_. []) tie_db 7) show_nat 1 None
      = Inr (map (serialize_entry (\<lambda>_. [])) (take 50 ?h), False)"
    using page_of_cursor[OF tie_db_ok id_of_text_show, of None "\<lambda>_. 456" 7 "\<lambda>_. []"] by (simp add: below_cursor_def)
  show ?thesis
    by (rule shared_instant_is_skipped[OF tie_db_ok id_of_text_show tie_history one])
      (simp_all add: h stored_at_def tie_row_def serialize_entry_def)
qed

theorem history_read_completely_witness:
  "\<exists>xs. read_pages (get_ledger (\<lambda>_. 0) id_of_text (\<lambda>_. []) tie_db 7) show_nat 2 None = Inr (map (serialize_entry (\<lambda>_. [])) xs, True)
    \<and> distinct xs \<and> set xs = set (entries_of_user tie_db 7)"
proof -
  have "length (ledger tie_db) \<le> 50 * 2" by (simp add: tie_db_def)
  moreover have "whole_milliseconds (\<lambda>_. 0) tie_db" by (simp add: whole_milliseconds_def list_all_iff)
  ultimately obtain xs where "read_pages (get_ledger (\<lambda>_. 0) id_of_text (\<lambda>_. []) tie_db 7) show_nat 2 None
      = Inr (map (serialize_entry (\<lambda>_. [])) xs, True)" "distinct xs" "set xs = set (entries_of_user tie_db 7)"
    using history_read_completely[OF tie_db_ok _ id_of_text_show, of "\<lambda>_. 0" 2 "\<lambda>_. []" 7] by auto
  then show ?thesis by blast
qed

end
