(* ===== verification/Api_Portfolio.thy ===== *)
theory Api_Portfolio
  imports Api_Orders Equity_Series Accounts_Correct
begin

text \<open>
  The account endpoints of \<^verbatim>\<open>src/server/api/portfolio.ts\<close>: who am I, setting up the account, the portfolio
  view and its chart. Handlers work on the world of the provisioner and the database; what other sessions
  commit between two reads of a handler is an argument, or the handler gets a database for each read. The
  request body is the number it carries, if it has the shape; the bounds of the starting cash are
  configuration.
\<close>

section \<open>Who am I\<close>

record account_dto =
  ad_id :: uuid
  ad_status :: account_status
  ad_cash :: string
  ad_starting :: string

definition serialize_account :: "account \<Rightarrow> account_dto" where
  "serialize_account a = \<lparr>ad_id = acc_id a, ad_status = acc_status a, ad_cash = money_to_string (acc_cash a),
     ad_starting = money_to_string (acc_starting a)\<rparr>"

record cash_bounds =
  cb_min :: int
  cb_max :: int
  cb_default :: int

record me_answer =
  ma_user :: uuid
  ma_account :: "account_dto option"
  ma_onboarding :: cash_bounds

definition get_me :: "'v provisioner \<Rightarrow> cash_bounds \<Rightarrow> uuid \<Rightarrow> 'v \<times> db \<Rightarrow> me_answer result \<times> ('v \<times> db)" where
  "get_me pv bounds u w =
     (let answer = (\<lambda>a. \<lparr>ma_user = u, ma_account = map_option serialize_account a, ma_onboarding = bounds\<rparr>)
      in case get_current_for_user (snd w) u of
           None \<Rightarrow> (Inr (answer None), w)
         | Some a \<Rightarrow>
             if acc_status a = PROVISIONING
             then wbind (try_activate pv (acc_id a) w) (\<lambda>b w1. (Inr (answer (Some b)), w1))
             else (Inr (answer (Some a)), w))"

section \<open>Setting up the account\<close>

text \<open>
  SQLSTATE 23505. Of the constraints that can fail while an account is opened, those of the tables of
  accounts and venue accounts are unique indexes.
\<close>

definition is_unique_violation :: "exn \<Rightarrow> bool" where
  "is_unique_violation e \<longleftrightarrow> e = ConstraintViolation ''accounts'' \<or> e = ConstraintViolation ''broker_accounts''"

text \<open>\<open>Money.fromString(`${startingCash}.00`)\<close>.\<close>

definition starting_money :: "int \<Rightarrow> money result" where
  "starting_money n = money_from_string ((if n < 0 then ''-'' else []) @ show_nat (nat \<bar>n\<bar>) @ ''.00'')"

definition provision_account ::
    "'v provisioner \<Rightarrow> cash_bounds \<Rightarrow> ('v \<times> db \<Rightarrow> 'v \<times> db) \<Rightarrow> uuid \<Rightarrow> int option \<Rightarrow> 'v \<times> db \<Rightarrow> account_dto result \<times> ('v \<times> db)" where
  "provision_account pv bounds gap u body w =
     (case body of
        None \<Rightarrow> (Inl (AppError VALIDATION None), w)
      | Some n \<Rightarrow>
          if n < cb_min bounds \<or> n > cb_max bounds then (app_error VALIDATION INVALID_STARTING_CASH, w)
          else (case get_current_for_user (snd w) u of
              Some a \<Rightarrow>
                if acc_status a \<noteq> PROVISIONING_FAILED then (app_error CONFLICT ACCOUNT_EXISTS, w)
                else (case starting_money n of
                    Inl e \<Rightarrow> (Inl e, gap w)
                  | Inr m \<Rightarrow> (case open_paper_account pv u m (gap w) of
                        (Inr b, w1) \<Rightarrow> (Inr (serialize_account b), w1)
                      | (Inl e, w1) \<Rightarrow> (if is_unique_violation e then app_error CONFLICT ACCOUNT_EXISTS else Inl e, w1)))
            | None \<Rightarrow> (case starting_money n of
                    Inl e \<Rightarrow> (Inl e, gap w)
                  | Inr m \<Rightarrow> (case open_paper_account pv u m (gap w) of
                        (Inr b, w1) \<Rightarrow> (Inr (serialize_account b), w1)
                      | (Inl e, w1) \<Rightarrow> (if is_unique_violation e then app_error CONFLICT ACCOUNT_EXISTS else Inl e, w1)))))"

section \<open>The portfolio and its chart\<close>

record portfolio_answer =
  po_view :: portfolio_view
  po_market :: market_status
  po_market_at :: string

definition get_portfolio ::
    "decimal_lib \<Rightarrow> (time \<Rightarrow> string) \<Rightarrow> (string list \<Rightarrow> (string \<rightharpoonup> quote) result) \<Rightarrow> (market_status \<times> time) result \<Rightarrow> uuid \<Rightarrow> time
     \<Rightarrow> db \<Rightarrow> db \<Rightarrow> portfolio_answer result" where
  "get_portfolio D to_iso quotes market u now d0 d1 =
     ebind (require_active_account d0 u) (\<lambda>a.
     ebind (portfolio_view D quotes (acc_id a) (acc_cash a) now d1) (\<lambda>v.
     ebind market (\<lambda>(st, as_of). Inr \<lparr>po_view = v, po_market = st, po_market_at = to_iso as_of\<rparr>)))"

text \<open>The range asked for; \<open>None\<close> is \<open>ALL\<close>.\<close>

definition history_range :: "string option \<Rightarrow> candle_range option result" where
  "history_range param =
     (let s = (case param of None \<Rightarrow> ''1M'' | Some s \<Rightarrow> s)
      in of_option (AppError VALIDATION None)
           (map_of [(''1D'', Some R1D), (''1W'', Some R1W), (''1M'', Some R1M), (''3M'', Some R3M), (''1Y'', Some R1Y),
                    (''ALL'', None)] s))"

definition ledger_amounts :: "db \<Rightarrow> uuid \<Rightarrow> ledger_amount list" where
  "ledger_amounts d i =
     map (\<lambda>e. \<lparr>la_amount = le_amount e, la_type = le_type e, la_at = le_created e\<rparr>) (list_ledger_ascending d i)"

record history_answer =
  hi_resolved :: candle_range
  hi_points :: "(string \<times> string \<times> string) list"
  hi_absolute :: string
  hi_percent :: "string option"
  hi_as_of :: string

definition get_portfolio_history ::
    "decimal_lib \<Rightarrow> (time \<Rightarrow> string) \<Rightarrow> (string list \<Rightarrow> (string \<rightharpoonup> quote) result) \<Rightarrow> (candle_range \<Rightarrow> string \<Rightarrow> candle list result)
     \<Rightarrow> uuid \<Rightarrow> string option \<Rightarrow> time \<Rightarrow> db \<Rightarrow> db \<Rightarrow> db \<Rightarrow> history_answer result" where
  "get_portfolio_history D to_iso quotes candles u param now d0 d1 d2 =
     ebind (history_range param) (\<lambda>range_asked.
     ebind (require_active_account d0 u) (\<lambda>a.
       let resolved = (case range_asked of None \<Rightarrow> resolve_all_range (acc_created a) now | Some r \<Rightarrow> r);
           fs = list_fills_chronological d1 (acc_id a); ls = ledger_amounts d1 (acc_id a)
       in ebind (portfolio_view D quotes (acc_id a) (acc_cash a) now d2) (\<lambda>v.
          ebind (money_from_string (vw_equity v)) (\<lambda>live.
          ebind (equity_series D (candles resolved) \<lparr>ei_range = resolved, ei_fills = fs, ei_ledger = ls,
                   ei_created = acc_created a, ei_now = now, ei_live = live\<rparr>) (\<lambda>series.
            Inr \<lparr>hi_resolved = resolved,
                 hi_points = map (\<lambda>p. (to_iso (ep_at p), money_to_string (ep_value p), money_to_string (ep_deposits p)))
                   (er_points series),
                 hi_absolute = money_to_string (er_absolute series), hi_percent = er_percent series,
                 hi_as_of = to_iso now\<rparr>)))))"

section \<open>One account per user\<close>

lemma starting_money_exact: "starting_money n = Inr (n * 100)"
proof -
  have z: "pad_start 2 (show_nat 0) = ''00''" by code_simp
  have "nat \<bar>n * 100\<bar> = nat \<bar>n\<bar> * 100" by (simp add: abs_mult nat_mult_distrib)
  then have "(if n < 0 then ''-'' else []) @ show_nat (nat \<bar>n\<bar>) @ ''.00'' = money_to_string (n * 100)"
    by (simp add: money_to_string_def fixed_text_def Let_def z)
  then show ?thesis by (simp add: starting_money_def)
qed

text \<open>A user with an open account cannot open another: the insert fails, and with it the call.\<close>

lemma create_refused:
  assumes "schema_ok d" "a \<in> set (accounts d)" "open_account a" "acc_user a = u"
  shows "create_account u m d = Inl (ConstraintViolation ''accounts'')"
proof -
  have "u \<in> set (List.map_filter (\<lambda>a. if open_account a then Some (acc_user a) else None) (accounts d))"
    using assms(2-4) by (force simp: List.map_filter_def)
  then have "\<not> accounts_ok (accounts d @ [\<lparr>acc_id = next_id d, acc_user = u, acc_status = PROVISIONING,
      acc_starting = m, acc_cash = 0, acc_created = db_now d\<rparr>])"
    by (auto simp: accounts_ok_def unique_index_def open_account_def List.map_filter_def)
  then show ?thesis by (simp add: create_account_def checked_def Let_def)
qed

lemma try_activate_returns:
  assumes "try_activate pv i (v, d) = (Inr b, (v', d'))" "get_account d i = Some a" "acc_status a = PROVISIONING"
  shows "get_account d' i = Some b \<and> (b = a \<and> d' = d \<or> b = a\<lparr>acc_status := ACTIVE, acc_cash := acc_cash a + acc_starting a\<rparr>)"
proof (cases "get_broker_account d i")
  case None
  then show ?thesis using assms by (simp add: try_activate_def)
next
  case (Some ref)
  obtain s v1 where s: "pv_settled_cash pv ref v = (s, v1)" by (rule prod.exhaust)
  show ?thesis
  proof (cases s)
    case (Inl e)
    with Some s assms show ?thesis by (simp add: try_activate_def)
  next
    case (Inr settled)
    show ?thesis
    proof (cases "money_compare settled (acc_starting a) < 0")
      case True
      with Some s Inr assms show ?thesis by (simp add: try_activate_def)
    next
      case False
      with Some s Inr assms have "run_tx (activate_tx i) d = (Inr b, d')"
        by (auto simp: try_activate_def split: prod.splits)
      then have act: "activate_tx i d = Inr (b, d')" by (cases rule: run_tx_cases[of "activate_tx i" d]) auto
      from act show ?thesis
      proof (cases rule: activate_shape)
        case (noop c)
        with assms show ?thesis by simp
      next
        case (activated c d1)
        have "accounts d' = modify (\<lambda>a. acc_id a = i) (\<lambda>a. a\<lparr>acc_cash := acc_cash a + acc_starting c\<rparr>)
            (modify (\<lambda>a. acc_id a = i) (\<lambda>a. a\<lparr>acc_status := ACTIVE\<rparr>) (accounts d))"
          using activated(6) by (simp add: set_status_shape[OF activated(3)] adjust_cash_def)
        then have "get_account d' i = Some (a\<lparr>acc_status := ACTIVE, acc_cash := acc_cash a + acc_starting c\<rparr>)"
          using assms(2) by (simp add: get_account_def find_modify[where key = acc_id])
        with activated(1,4) assms(2) show ?thesis by simp
      qed
    qed
  qed
qed

lemma open_returns:
  assumes "open_paper_account pv u m (v, d) = (Inr b, (v', d'))" "accounts_inv d"
  shows "get_account d' (acc_id b) = Some b \<and> acc_user b = u \<and> acc_starting b = m \<and> 0 < m
    \<and> (acc_status b = PROVISIONING \<and> acc_cash b = 0 \<or> acc_status b = ACTIVE \<and> acc_cash b = m)"
proof -
  have pos: "\<not> m \<le> 0" using assms(1) by (auto simp: open_paper_account_def split: if_splits)
  then obtain a d1 where c: "create_account u m d = Inr (a, d1)"
    using assms(1) by (cases "create_account u m d") (auto simp: open_paper_account_def)
  obtain p v1 where p: "pv_provision pv a v = (p, v1)" by (rule prod.exhaust)
  have a: "acc_status a = PROVISIONING" "acc_cash a = 0" "acc_user a = u" "acc_starting a = m"
    using c by (auto simp: create_account_Inr)
  have g: "get_account d1 (acc_id a) = Some a" using created_inv[OF c assms(2)] by blast
  show ?thesis
  proof (cases p)
    case (Inl err)
    with assms(1) pos c p show ?thesis by (auto simp: open_paper_account_def split: sum.splits prod.splits)
  next
    case (Inr ref)
    obtain d2 where l: "link_tx_account (acc_id a) ref d1 = Inr ((), d2)"
      and t: "try_activate pv (acc_id a) (v1, d2) = (Inr b, (v', d'))"
      using assms(1) pos c p Inr by (cases "link_tx_account (acc_id a) ref d1") (auto simp: open_paper_account_def)
    have "get_account d2 (acc_id a) = Some a"
      using l g by (auto simp: link_tx_account_def link_broker_account_def result_simps Let_def get_account_def)
    from try_activate_returns[OF t this a(1)] a show ?thesis using pos by auto
  qed
qed

lemma open_refused:
  assumes "schema_ok d" "a \<in> set (accounts d)" "open_account a" "acc_user a = u" "0 < m"
  shows "open_paper_account pv u m (v, d) = (Inl (ConstraintViolation ''accounts''), (v, d))"
  using create_refused[OF assms(1-4)] assms(5) by (simp add: open_paper_account_def)

text \<open>
  One account per user, whoever wins the race. If another session opened an account for the user
  before the insert, after the check or before it, the request is refused (a conflict, or out of bounds) and
  changes nothing. A request that succeeds opened an account of the user at exactly the amount asked for,
  within the bounds, whose cash is that amount if it is active already and nothing while the venue is still
  funding it. Either way the invariants of the accounts hold afterwards.
\<close>

theorem account_set_up_once:
  assumes "provision_account pv bounds gap u (Some n) w = (r, w')" "accounts_inv (snd w)" "accounts_inv (snd (gap w))" "0 < cb_min bounds"
  shows "accounts_inv (snd w')
    \<and> ((\<exists>a \<in> set (accounts (snd (gap w))). open_account a \<and> acc_user a = u) \<longrightarrow>
         r \<in> {app_error CONFLICT ACCOUNT_EXISTS, app_error VALIDATION INVALID_STARTING_CASH} \<and> w' \<in> {w, gap w})
    \<and> (\<forall>dto. r = Inr dto \<longrightarrow> (\<exists>a. get_account (snd w') (ad_id dto) = Some a \<and> dto = serialize_account a \<and> acc_user a = u
         \<and> acc_starting a = n * 100 \<and> cb_min bounds \<le> n \<and> n \<le> cb_max bounds
         \<and> (acc_status a = PROVISIONING \<and> acc_cash a = 0 \<or> acc_status a = ACTIVE \<and> acc_cash a = n * 100)))"
proof -
  obtain v d where g: "gap w = (v, d)" by (rule prod.exhaust)
  consider (refused) "r = app_error VALIDATION INVALID_STARTING_CASH \<or> r = app_error CONFLICT ACCOUNT_EXISTS" "w' = w"
    | (attempt) x where "open_paper_account pv u (n * 100) (v, d) = (x, w')" "cb_min bounds \<le> n" "n \<le> cb_max bounds"
        "r = (case x of Inr b \<Rightarrow> Inr (serialize_account b)
              | Inl e \<Rightarrow> if is_unique_violation e then app_error CONFLICT ACCOUNT_EXISTS else Inl e)"
    using assms(1) unfolding provision_account_def starting_money_exact g
    by (auto split: if_splits option.splits sum.splits prod.splits)
  then show ?thesis
  proof cases
    case refused
    then show ?thesis using assms(2) by auto
  next
    case attempt
    obtain v' d' where w': "w' = (v', d')" by (rule prod.exhaust)
    have inv: "accounts_inv d" using assms(3) g by simp
    have n: "0 < n * 100" using attempt(2) assms(4) by simp
    have kept: "accounts_inv d'" by (rule account_steps_inv[OF open_steps[OF attempt(1)[unfolded w'] inv] inv])
    have refuse: "r = app_error CONFLICT ACCOUNT_EXISTS \<and> w' = gap w" if "a \<in> set (accounts d)" "open_account a" "acc_user a = u" for a
      using open_refused[OF _ that n, of pv v] attempt(1,4) inv g
      by (auto simp: accounts_inv_def transfers_inv_def is_unique_violation_def)
    have done_right: "\<exists>a. get_account d' (ad_id dto) = Some a \<and> dto = serialize_account a \<and> acc_user a = u
         \<and> acc_starting a = n * 100 \<and> (acc_status a = PROVISIONING \<and> acc_cash a = 0 \<or> acc_status a = ACTIVE \<and> acc_cash a = n * 100)"
      if answered: "r = Inr dto" for dto
    proof -
      obtain b where x: "x = Inr b" "dto = serialize_account b" using answered attempt(4) by (cases x) (auto split: if_splits)
      have "get_account d' (acc_id b) = Some b \<and> acc_user b = u \<and> acc_starting b = n * 100 \<and> 0 < n * 100
        \<and> (acc_status b = PROVISIONING \<and> acc_cash b = 0 \<or> acc_status b = ACTIVE \<and> acc_cash b = n * 100)"
        by (rule open_returns[OF attempt(1)[unfolded w' x(1)] inv])
      then show ?thesis using x(2) by (intro exI[of _ b]) (simp add: serialize_account_def)
    qed
    show ?thesis using kept refuse done_right attempt(2,3) g w' by auto
  qed
qed

text \<open>
  The chart ends where the portfolio stands. The last point of the net-worth chart is now, at the text of
  the equity that the portfolio view of the same instant shows, with the deposits and withdrawals of the whole
  ledger of the account as its net deposits.
\<close>

theorem chart_ends_at_equity:
  assumes "get_portfolio_history D to_iso quotes candles u param now d0 d1 d2 = Inr h"
  shows "\<exists>a v. get_active_for_user d0 u = Some a \<and> portfolio_view D quotes (acc_id a) (acc_cash a) now d2 = Inr v
    \<and> hi_points h \<noteq> []
    \<and> last (hi_points h) = (to_iso now, vw_equity v, money_to_string (amounts (external (ledger_amounts d1 (acc_id a)))))"
proof -
  obtain a v live series where p: "get_active_for_user d0 u = Some a"
      "portfolio_view D quotes (acc_id a) (acc_cash a) now d2 = Inr v" "money_from_string (vw_equity v) = Inr live"
      "hi_points h = map (\<lambda>p. (to_iso (ep_at p), money_to_string (ep_value p), money_to_string (ep_deposits p))) (er_points series)"
    and s: "\<exists>resolved. equity_series D (candles resolved) \<lparr>ei_range = resolved, ei_fills = list_fills_chronological d1 (acc_id a),
        ei_ledger = ledger_amounts d1 (acc_id a), ei_created = acc_created a, ei_now = now, ei_live = live\<rparr> = Inr series"
    using assms by (fastforce simp: get_portfolio_history_def require_active_account_def result_simps Let_def)
  obtain m where m: "vw_equity v = money_to_string m" using p(2) by (auto simp: portfolio_view_def result_simps Let_def)
  then have live: "money_to_string live = vw_equity v" using p(3) by simp
  from s obtain xs where "er_points series = xs @ [\<lparr>ep_at = now, ep_value = live,
      ep_deposits = amounts (external (ledger_amounts d1 (acc_id a)))\<rparr>]"
    by (auto simp: equity_series_def result_simps Let_def live_point_def split: prod.splits if_splits)
  then show ?thesis using p(1,2) live by (intro exI[of _ a] exI[of _ v]) (simp add: p(4))
qed

definition idle_provisioner :: "unit provisioner" where
  "idle_provisioner = \<lparr>pv_provision = (\<lambda>a v. (Inr \<lparr>ref_broker = DETERMINISTIC, ref_external = ''new''\<rparr>, v)),
     pv_settled_cash = (\<lambda>r v. (Inr 0, v))\<rparr>"

definition demo_bounds :: cash_bounds where
  "demo_bounds = \<lparr>cb_min = 1000, cb_max = 1000000, cb_default = 10000\<rparr>"

lemma demo_series_answers:
  "\<exists>s. equity_series js_decimal (\<lambda>_. Inr []) \<lparr>ei_range = R1M, ei_fills = [],
      ei_ledger = [\<lparr>la_amount = 100000, la_type = Entry_deposit, la_at = 0\<rparr>], ei_created = 0, ei_now = 100, ei_live = 100000\<rparr> = Inr s"
  by (simp add: equity_series_def involved_symbols_def candle_grid_def event_grid_def window_start_of_def Let_def)

lemma demo_parts:
  "get_active_for_user demo_db 7 = Some demo_account" "list_fills_chronological demo_db 0 = []"
  "ledger_amounts demo_db 0 = [\<lparr>la_amount = 100000, la_type = Entry_deposit, la_at = 0\<rparr>]"
  "acc_id demo_account = 0" "acc_cash demo_account = 100000" "acc_created demo_account = 0"
  "history_range None = Inr (Some R1M)"
  by (simp_all add: get_active_for_user_def demo_defs list_fills_chronological_def ledger_amounts_def list_ledger_ascending_def
      history_range_def Let_def)

lemma demo_view_answers:
  "\<exists>v. portfolio_view js_decimal (\<lambda>_. Inr Map.empty) 0 100000 100 demo_db = Inr v \<and> vw_equity v = money_to_string 100000"
proof -
  have "list_positions demo_db 0 = []" by (simp add: list_positions_def demo_defs)
  then show ?thesis
    by (simp add: portfolio_view_def realized_pnl_def realized_pnl_of_def demo_parts(2) Let_def)
qed

theorem chart_ends_at_equity_witness:
  "\<exists>h. get_portfolio_history js_decimal (\<lambda>t. ''then'') (\<lambda>_. Inr Map.empty) (\<lambda>_ _. Inr []) 7 None 100 demo_db demo_db demo_db = Inr h
    \<and> hi_points h \<noteq> [] \<and> fst (last (hi_points h)) = ''then''"
proof -
  obtain v where v: "portfolio_view js_decimal (\<lambda>_. Inr Map.empty) 0 100000 100 demo_db = Inr v" "vw_equity v = money_to_string 100000"
    using demo_view_answers by blast
  have "\<exists>h. get_portfolio_history js_decimal (\<lambda>t. ''then'') (\<lambda>_. Inr Map.empty) (\<lambda>_ _. Inr []) 7 None 100 demo_db demo_db demo_db = Inr h"
    using demo_series_answers v by (auto simp: get_portfolio_history_def require_active_account_def demo_parts Let_def)
  then obtain h where h: "get_portfolio_history js_decimal (\<lambda>t. ''then'') (\<lambda>_. Inr Map.empty) (\<lambda>_ _. Inr []) 7 None 100 demo_db demo_db demo_db = Inr h" ..
  with chart_ends_at_equity[OF h] show ?thesis by fastforce
qed

text \<open>The race: nothing is there at the check, another session's account at the insert.\<close>

lemma empty_accounts_inv: "accounts_inv (empty_db 0)"
  by (simp add: accounts_inv_def transfers_inv_def in_balance_def transfers_posted_def opening_posted_def opened_linked_def)
     (simp add: empty_db_def)

theorem account_set_up_once_witness:
  "fst (provision_account idle_provisioner demo_bounds (\<lambda>_. ((), demo_waiting)) 7 (Some 5000) ((), empty_db 0))
    \<in> {app_error CONFLICT ACCOUNT_EXISTS, app_error VALIDATION INVALID_STARTING_CASH}"
proof -
  let ?gap = "\<lambda>_. ((), demo_waiting)"
  obtain r w' where r: "provision_account idle_provisioner demo_bounds ?gap 7 (Some 5000) ((), empty_db 0) = (r, w')"
    by (rule prod.exhaust)
  have "\<exists>a \<in> set (accounts demo_waiting). open_account a \<and> acc_user a = 7"
    by (simp add: demo_waiting_def demo_unfunded_def demo_defs open_account_def)
  then have "r \<in> {app_error CONFLICT ACCOUNT_EXISTS, app_error VALIDATION INVALID_STARTING_CASH}"
    using account_set_up_once[OF r] empty_accounts_inv demo_waiting_inv by (simp add: demo_bounds_def)
  then show ?thesis by (simp add: r)
qed

end
