(* ===== verification/Order_Typing.thy ===== *)
theory Order_Typing
  imports Api_Orders Alert_Rules
begin

text \<open>
  What the request schema of \<^verbatim>\<open>src/server/api/orders.ts\<close> (lines 14 to 27) buys the rest of the program: the
  conversions behind it never throw, and every order row that requests and venue events produce is well-typed.
\<close>

definition typed_order :: "order \<Rightarrow> bool" where
  "typed_order r \<longleftrightarrow> 1 \<le> ord_qty r \<and> ord_qty r \<le> 1000000
     \<and> (case ord_limit r of None \<Rightarrow> ord_type r = MARKET | Some p \<Rightarrow> ord_type r = LIMIT \<and> 0 < p \<and> p < 10 ^ 14)"

text \<open>
  One step of the traffic on the orders of a site: a request to place (whatever its body and the answers of the
  market), a cancellation that is recorded, or a batch of events from the venue, which may move the venue.
\<close>

inductive order_traffic :: "decimal_lib \<Rightarrow> (string \<Rightarrow> uuid option) \<Rightarrow> 'v site \<Rightarrow> 'v site \<Rightarrow> bool"
    for D :: decimal_lib and uuid_of :: "string \<Rightarrow> uuid option" where
  placing: "venue_port br D \<Longrightarrow> place_order D cfg br uuid_of to_iso quotes now u body s = (ans, s') \<Longrightarrow> order_traffic D uuid_of s s'"
| cancelling: "order_traffic D uuid_of (ws, v, d) (ws, v, snd (run_tx (request_cancel D i now) d))"
| reporting: "order_traffic D uuid_of (ws, v, d) (ws, v', fold (deliver D) es d)"

lemma limit_schema_typed:
  assumes "limit_price_schema s"
  shows "px_from_string s = Inr (scaled 4 s)" "0 < scaled 4 s" "scaled 4 s < 10 ^ 14"
proof -
  have re: "threshold_re s" and nz: "has_nonzero_digit s"
    using assms by (simp_all add: limit_price_schema_def threshold_re_def has_nonzero_digit_def)
  show pos: "0 < scaled 4 s" using scaled_positive[OF re] nz by simp
  show "scaled 4 s < 10 ^ 14" using decimal_re_bound[of 10 4 s] assms by (simp add: limit_price_schema_def)
  have "px_re s" using assms by (auto simp: limit_price_schema_def px_re_def decimal_re_def split: option.splits)
  then show "px_from_string s = Inr (scaled 4 s)" using pos by (simp add: px_from_string_def)
qed

lemma schema_converts:
  assumes "place_order_schema uuid_of b"
  shows "\<exists>limit. limit_of b = Inr limit \<and> (\<forall>p. limit = Some p \<longrightarrow> 0 < p \<and> p < 10 ^ 14)"
    "qty_of_int (pb_qty b) = Inr (nat (pb_qty b))"
  using assms limit_schema_typed
  by (auto simp: place_order_schema_def limit_of_def qty_of_int_def split: option.splits)

lemma typed_terms: "order_terms r = order_terms r' \<Longrightarrow> typed_order r = typed_order r'"
  by (simp add: order_terms_def typed_order_def) (simp split: option.splits)

lemma typed_same_terms:
  assumes "terms_of d' = terms_of d" "\<forall>r \<in> set (orders d). typed_order r"
  shows "\<forall>r \<in> set (orders d'). typed_order r"
proof
  fix r assume "r \<in> set (orders d')"
  then have "order_terms r \<in> order_terms ` set (orders d')" by simp
  also have "\<dots> = order_terms ` set (orders d)" using assms(1) by (metis terms_of_def set_map)
  finally show "typed_order r" using assms(2) typed_terms by blast
qed

lemma typed_place:
  assumes "place_tx D cfg (place_input a ins b limit ref) d = Inr ((r, rep), d')" "place_order_schema uuid_of b"
    "limit_of b = Inr limit" "\<forall>r \<in> set (orders d). typed_order r"
  shows "\<forall>r \<in> set (orders d'). typed_order r"
  using assms(1)
proof (cases rule: place_tx_cases)
  case (placed a' m)
  note new = insert_order_Some[OF placed(6)]
  then have "order_check r" by (auto simp: orders_ok_def)
  moreover have "\<forall>p. limit = Some p \<longrightarrow> 0 < p \<and> p < 10 ^ 14" using schema_converts(1)[OF assms(2)] assms(3) by auto
  ultimately have "typed_order r"
    using new assms(2)
    by (cases "ord_type r") (auto simp: typed_order_def place_input_def order_check_def place_order_schema_def split: option.splits)
  then show ?thesis using new assms(4) by simp
qed (use assms(4) in simp)

lemma terms_request_cancel: "terms_of (snd (run_tx (request_cancel D i now) d)) = terms_of d"
proof (cases "request_cancel D i now d")
  case (Inr x)
  obtain r d' where x: "x = (r, d')" by (cases x)
  have "terms_of d' = terms_of d"
  proof (cases "get_order d i")
    case (Some ord)
    note self = get_order_self[OF Some]
    show ?thesis using Inr x Some terms_transition[OF _ self]
      by (auto simp: request_cancel_def app_error_def result_simps split: if_splits)
  qed (use Inr in \<open>simp add: request_cancel_def\<close>)
  then show ?thesis by (simp add: run_tx_def Inr x)
qed (simp add: run_tx_def)

text \<open>
  C33: Every order is well-typed. Whatever requests, cancellations and venue events happen, in whatever order, every
  order that is stored has a quantity of one to a million shares, a limit price exactly if it is a limit order, and
  then a positive one that fits its NUMERIC(18,4) column; and a body that passes the schema is converted
  without an exception.
\<close>

theorem orders_are_typed:
  assumes "(order_traffic D uuid_of)\<^sup>*\<^sup>* (ws, v, d) (ws', v', d')" "\<forall>r \<in> set (orders d). typed_order r"
  shows "(\<forall>r \<in> set (orders d'). typed_order r)
    \<and> (place_order_schema uuid_of b \<longrightarrow> (\<exists>limit. limit_of b = Inr limit) \<and> qty_of_int (pb_qty b) = Inr (nat (pb_qty b)))"
proof -
  have step: "\<forall>r \<in> set (orders (snd (snd s'))). typed_order r"
    if "order_traffic D uuid_of s s'" "\<forall>r \<in> set (orders (snd (snd s))). typed_order r" for s s' :: "'a site"
    using that
  proof (cases rule: order_traffic.cases)
    case (placing br cfg to_iso quotes now u body ans)
    obtain ws v d ws' v' d' where s: "s = (ws, v, d)" "s' = (ws', v', d')" by (metis prod.collapse)
    from placing(2)[unfolded s] show ?thesis
    proof (cases rule: place_order_cases)
      case refused
      then show ?thesis using instruments_onlyD(1) that(2) s by auto
    next
      case (placed b a ins ref limit r0 rep d1 d2 ans')
      from placed(7) have tx: "place_tx D cfg (place_input a ins b limit ref) d1 = Inr ((r0, rep), d2)"
        by (auto simp: place_def run_tx_def split: sum.splits)
      have "orders d1 = orders d" using get_or_register_frame(1)[OF placed(4)] by (rule instruments_onlyD)
      then have typed2: "\<forall>r \<in> set (orders d2). typed_order r"
        using typed_place[OF tx placed(2,6)] that(2) s by simp
      obtain x v1 d3 where e: "exec_submit D br now (ord_id r0) (v, d2) = (x, (v1, d3))" by (metis prod.collapse)
      have "terms_of d' = terms_of d2"
        using placed(8) venue_port.terms_submit[OF placing(1) e] by (auto simp: after_placing_def Let_def e split: if_splits)
      then show ?thesis using typed_same_terms[OF _ typed2] s by simp
    qed
  next
    case (cancelling ws v d i now)
    then show ?thesis using typed_same_terms[OF terms_request_cancel] that(2) by simp
  next
    case (reporting ws v d v' es)
    then show ?thesis using typed_same_terms[OF terms_history] that(2) by simp
  qed
  have "\<forall>r \<in> set (orders (snd (snd (ws', v', d')))). typed_order r"
    using assms(1) by (induction rule: rtranclp_induct) (use assms(2) step in auto)
  then show ?thesis using schema_converts by (metis prod.sel)
qed

theorem orders_are_typed_witness:
  "\<exists>s'. (order_traffic js_decimal demo_uuid)\<^sup>*\<^sup>* ([], (), demo_db) s' \<and> orders (snd (snd s')) \<noteq> []
     \<and> (\<forall>r \<in> set (orders (snd (snd s'))). typed_order r)"
proof -
  obtain ans ws d' r where run: "place_order js_decimal demo_config slip_venue demo_uuid (\<lambda>t. show_nat (nat t))
      (\<lambda>_. Inl ProviderUnavailable) 5 7 (Some demo_body) ([], (), demo_db) = (Inr ans, ws, (), d')"
      and terms: "terms_of d' = [order_terms r]"
    using placement_answer_is_committed_witness by auto
  have "order_traffic js_decimal demo_uuid ([], (), demo_db) (ws, (), d')"
    by (rule order_traffic.placing[OF slip.venue_port_axioms run])
  then have t: "(order_traffic js_decimal demo_uuid)\<^sup>*\<^sup>* ([], (), demo_db) (ws, (), d')" by simp
  have none: "\<forall>r \<in> set (orders demo_db). typed_order r" by (simp add: demo_defs)
  have "orders d' \<noteq> []" using terms by (auto simp: terms_of_def)
  then show ?thesis using t orders_are_typed[OF t none, THEN conjunct1] by (intro exI[of _ "(ws, (), d')"]) simp
qed

end
