(* ===== verification/Movers.thy ===== *)
theory Movers
  imports Js_Bigint
begin

text \<open>
  Top movers (\<^verbatim>\<open>src/core/discovery/movers.ts\<close>): decimal strings compared exactly as scaled integers, and the
  biggest gainers and losers. \<open>Array.prototype.sort\<close> is a stable sort by a comparator; any stable sort
  gives the same list for a consistent comparator, so insertion stands for it. Strings compare by code
  units.
\<close>

section \<open>Sorting by a comparator\<close>

fun insert_by :: "('a \<Rightarrow> 'a \<Rightarrow> int) \<Rightarrow> 'a \<Rightarrow> 'a list \<Rightarrow> 'a list" where
  "insert_by cmp x [] = [x]"
| "insert_by cmp x (y # ys) = (if cmp x y \<le> 0 then x # y # ys else y # insert_by cmp x ys)"

definition js_sort :: "('a \<Rightarrow> 'a \<Rightarrow> int) \<Rightarrow> 'a list \<Rightarrow> 'a list" where
  "js_sort cmp xs = foldr (insert_by cmp) xs []"

definition order_of :: "'a::linorder \<Rightarrow> 'a \<Rightarrow> int" where
  "order_of a b = (if a < b then - 1 else if b < a then 1 else 0)"

lemma insert_by_key:
  "(\<And>y. y \<in> set ys \<Longrightarrow> (cmp x y \<le> 0) = (k x \<le> k y)) \<Longrightarrow> insert_by cmp x ys = insort_key k x ys"
  by (induction ys) auto

lemma set_insert_by [simp]: "set (insert_by cmp x ys) = insert x (set ys)"
  by (induction ys) auto

lemma set_js_sort [simp]: "set (js_sort cmp xs) = set xs"
  by (induction xs) (auto simp: js_sort_def)

lemma js_sort_key:
  assumes "\<And>x y. x \<in> set xs \<Longrightarrow> y \<in> set xs \<Longrightarrow> (cmp x y \<le> 0) = (k x \<le> k y)"
  shows "js_sort cmp xs = sort_key k xs"
  using assms
proof (induction xs)
  case (Cons x xs)
  have "js_sort cmp (x # xs) = insert_by cmp x (js_sort cmp xs)" by (simp add: js_sort_def)
  also have "\<dots> = insort_key k x (sort_key k xs)"
    using Cons by (subst insert_by_key) auto
  finally show ?case by simp
qed (simp add: js_sort_def)

section \<open>Exact comparison\<close>

definition to_scaled :: "string \<Rightarrow> nat \<Rightarrow> int result" where
  "to_scaled value scale =
     (case match_decimal value of
        None \<Rightarrow> Inl (JsError ''invalid decimal string'')
      | Some (negative, whole, fraction) \<Rightarrow>
          (let n = int (read_nat (whole @ pad_end scale fraction)) in Inr (if negative then - n else n)))"

definition fraction_length :: "string \<Rightarrow> nat" where
  "fraction_length s = length (snd (split_point s))"

definition compare_decimal :: "string \<Rightarrow> string \<Rightarrow> int result" where
  "compare_decimal a b =
     (let scale = max (fraction_length a) (fraction_length b)
      in ebind (to_scaled a scale) (\<lambda>x. ebind (to_scaled b scale) (\<lambda>y.
           Inr (if x < y then - 1 else if x > y then 1 else 0))))"

lemma split_point_match:
  assumes "match_decimal s = Some (neg, w, f)"
  shows "snd (split_point s) = f"
proof -
  note m = match_decimal_shape[OF assms]
  have s: "s = (if neg then ''-'' else []) @ w @ (if f = [] then [] else CHR ''.'' # f)"
    using m(1,2) by (cases s) (auto split: if_splits)
  have no_point: "list_all (\<lambda>c. \<not> is_point c) ((if neg then ''-'' else []) @ w)" "list_all (\<lambda>c. \<not> is_point c) f"
    using m(3,4) by (auto simp: list_all_iff is_point_def)
  let ?p = "(if neg then ''-'' else []) @ w"
  have "dropWhile (\<lambda>c. \<not> is_point c) (?p @ t) = dropWhile (\<lambda>c. \<not> is_point c) t" for t
    using no_point(1) by (intro dropWhile_append2) (auto simp: list_all_iff)
  then have "snd (split_point s) = takeWhile (\<lambda>c. \<not> is_point c) (drop 1 (if f = [] then [] else CHR ''.'' # f))"
    unfolding s split_point_def by (simp add: is_point_def)
  also have "\<dots> = f" using no_point(2) by (cases "f = []") (simp_all add: list_all_iff)
  finally show ?thesis .
qed

lemma to_scaled_rat:
  assumes "match_decimal s = Some (neg, w, f)" and "length f \<le> scale"
  shows "\<exists>n. to_scaled s scale = Inr n \<and> of_int n = decimal_rat s * 10 ^ scale"
proof -
  have e: "(10::rat) ^ scale = 10 ^ length f * 10 ^ (scale - length f)" using assms(2) by (simp flip: power_add)
  have p: "length (pad_end scale f) = scale" using assms(2) by (simp add: pad_end_def)
  have "of_nat (read_nat (pad_end scale f)) = (of_nat (read_nat f) * 10 ^ (scale - length f) :: rat)"
    by (simp add: pad_end_def read_nat_append)
  then have "of_nat (read_nat (w @ pad_end scale f))
      = (of_nat (read_nat w) + of_nat (read_nat f) / 10 ^ length f) * (10::rat) ^ scale"
    using p by (simp add: read_nat_append e field_simps)
  then show ?thesis using assms(1) by (auto simp: to_scaled_def decimal_rat_def Let_def algebra_simps)
qed

lemma compare_decimal_rat:
  assumes "match_decimal a \<noteq> None" and "match_decimal b \<noteq> None"
  shows "compare_decimal a b = Inr (order_of (decimal_rat a) (decimal_rat b))"
proof -
  let ?s = "max (fraction_length a) (fraction_length b)"
  obtain na wa fa nb wb fb where m: "match_decimal a = Some (na, wa, fa)" "match_decimal b = Some (nb, wb, fb)"
    using assms by auto
  have "length fa \<le> ?s" "length fb \<le> ?s" using split_point_match[OF m(1)] split_point_match[OF m(2)]
    by (simp_all add: fraction_length_def)
  with to_scaled_rat[OF m(1)] to_scaled_rat[OF m(2)] obtain x y where
    xy: "to_scaled a ?s = Inr x" "of_int x = decimal_rat a * 10 ^ ?s" "to_scaled b ?s = Inr y" "of_int y = decimal_rat b * 10 ^ ?s"
    by blast
  have "(x < y) = (of_int x < (of_int y :: rat))" "(y < x) = (of_int y < (of_int x :: rat))" by simp_all
  then have "(x < y) = (decimal_rat a < decimal_rat b)" "(y < x) = (decimal_rat b < decimal_rat a)"
    unfolding xy(2,4) by simp_all
  then show ?thesis using xy(1,3) by (simp add: compare_decimal_def order_of_def Let_def)
qed

section \<open>The movers\<close>

record mover =
  mv_symbol :: string
  mv_percent :: string

definition movers_limit :: nat where "movers_limit = 5"

text \<open>The first occurrence of a symbol wins.\<close>

fun unique_movers :: "string list \<Rightarrow> 'a mover_scheme list \<Rightarrow> 'a mover_scheme list" where
  "unique_movers seen [] = []"
| "unique_movers seen (c # cs) =
     (if mv_symbol c \<in> set seen then unique_movers seen cs
      else c # unique_movers (mv_symbol c # seen) cs)"

fun filter_percent :: "(int \<Rightarrow> bool) \<Rightarrow> 'a mover_scheme list \<Rightarrow> 'a mover_scheme list result" where
  "filter_percent p [] = Inr []"
| "filter_percent p (c # cs) =
     ebind (compare_decimal (mv_percent c) ''0'') (\<lambda>o1. ebind (filter_percent p cs) (\<lambda>rest.
       Inr (if p o1 then c # rest else rest)))"

text \<open>\<open>compareDecimal(a, b) || bySymbol(a, b)\<close>; the percents were parsed by the filter before.\<close>

definition mover_order :: "bool \<Rightarrow> 'a mover_scheme \<Rightarrow> 'a mover_scheme \<Rightarrow> int" where
  "mover_order descending a b =
     (case (if descending then compare_decimal (mv_percent b) (mv_percent a)
            else compare_decimal (mv_percent a) (mv_percent b)) of
        Inl e \<Rightarrow> 0
      | Inr o1 \<Rightarrow> if o1 \<noteq> 0 then o1 else order_of (mv_symbol a) (mv_symbol b))"

definition rank_movers :: "'a mover_scheme list \<Rightarrow> nat \<Rightarrow> ('a mover_scheme list \<times> 'a mover_scheme list) result" where
  "rank_movers candidates limit =
     (let unique = unique_movers [] candidates
      in ebind (filter_percent (\<lambda>o1. o1 > 0) unique) (\<lambda>up.
         ebind (filter_percent (\<lambda>o1. o1 < 0) unique) (\<lambda>down.
           Inr (take limit (js_sort (mover_order True) up), take limit (js_sort (mover_order False) down)))))"

section \<open>The movers are the extremes\<close>

definition percent_of_mover :: "'a mover_scheme \<Rightarrow> rat" where
  "percent_of_mover c = decimal_rat (mv_percent c)"

definition percents_valid :: "'a mover_scheme list \<Rightarrow> bool" where
  "percents_valid cs \<longleftrightarrow> list_all (\<lambda>c. match_decimal (mv_percent c) \<noteq> None) cs"

lemma unique_movers_set:
  "set (unique_movers seen cs) \<subseteq> set cs" "mv_symbol ` set (unique_movers seen cs) \<inter> set seen = {}"
  "distinct (map mv_symbol (unique_movers seen cs))"
  "mv_symbol ` set cs \<subseteq> mv_symbol ` set (unique_movers seen cs) \<union> set seen"
  by (induction seen cs rule: unique_movers.induct) auto

lemma unique_movers_valid: "percents_valid cs \<Longrightarrow> percents_valid (unique_movers seen cs)"
  using unique_movers_set(1)[of seen cs] unfolding percents_valid_def list_all_iff by blast

lemma zero_matches: "match_decimal ''0'' \<noteq> None" "decimal_rat ''0'' = 0"
proof -
  have "match_decimal ''0'' = Some (False, ''0'', [])" by (simp add: match_decimal_def Let_def)
  then show "match_decimal ''0'' \<noteq> None" "decimal_rat ''0'' = 0" by (simp_all add: decimal_rat_def read_nat_Cons)
qed

lemma filter_percent_eq:
  "percents_valid cs \<Longrightarrow> filter_percent p cs = Inr (filter (\<lambda>c. p (order_of (percent_of_mover c) 0)) cs)"
  by (induction cs) (auto simp: percents_valid_def compare_decimal_rat zero_matches percent_of_mover_def)

definition mover_key :: "bool \<Rightarrow> 'a mover_scheme \<Rightarrow> rat \<times> string" where
  "mover_key descending c = (if descending then - percent_of_mover c else percent_of_mover c, mv_symbol c)"

lemma mover_order_key:
  assumes "match_decimal (mv_percent a) \<noteq> None" and "match_decimal (mv_percent b) \<noteq> None"
  shows "(mover_order descending a b \<le> 0) = (mover_key descending a \<le> mover_key descending b)"
  using assms
  by (auto simp: mover_order_def mover_key_def compare_decimal_rat order_of_def percent_of_mover_def less_eq_prod_def)

lemma js_sort_movers:
  assumes "percents_valid cs"
  shows "js_sort (mover_order descending) cs = sort_key (mover_key descending) cs"
  using assms by (intro js_sort_key mover_order_key) (auto simp: percents_valid_def list_all_iff)

text \<open>The first \<open>n\<close> of a list sorted by a key: all of it, or nothing outside is smaller than anything inside.\<close>

lemma take_sort_dropped:
  "c \<in> set cs \<Longrightarrow> c \<notin> set (take n (sort_key k cs)) \<Longrightarrow> c \<in> set (drop n (sort_key k cs))"
  by (metis Un_iff append_take_drop_id set_append set_sort)

lemma take_sort_full:
  "c \<in> set cs \<Longrightarrow> c \<notin> set (take n (sort_key k cs)) \<Longrightarrow> length (take n (sort_key k cs)) = n"
  using take_sort_dropped[of c cs n k] by (cases "n \<le> length cs") simp_all

lemma take_sort_least:
  assumes "c \<in> set cs" and "c \<notin> set (take n (sort_key k cs))" and "r \<in> set (take n (sort_key k cs))"
  shows "k r \<le> k c"
proof -
  let ?s = "sort_key k cs"
  have "sorted (map k ?s)" by simp
  then have "sorted (map k (take n ?s) @ map k (drop n ?s))" by (metis append_take_drop_id map_append)
  then have "\<forall>x \<in> set (map k (take n ?s)). \<forall>y \<in> set (map k (drop n ?s)). x \<le> y"
    unfolding sorted_append by blast
  then show ?thesis using take_sort_dropped[OF assms(1,2)] assms(3) by simp
qed

text \<open>A list of movers of one sign: sorted, without repetition, and nothing better left out.\<close>

definition extremes :: "bool \<Rightarrow> nat \<Rightarrow> 'a mover_scheme list \<Rightarrow> 'a mover_scheme list \<Rightarrow> bool" where
  "extremes descending limit all shown \<longleftrightarrow>
     length shown \<le> limit \<and> distinct (map mv_symbol shown) \<and> set shown \<subseteq> set all
     \<and> list_all (\<lambda>c. if descending then 0 < percent_of_mover c else percent_of_mover c < 0) shown
     \<and> sorted (map (mover_key descending) shown)
     \<and> (\<forall>c \<in> set all. (if descending then 0 < percent_of_mover c else percent_of_mover c < 0) \<longrightarrow>
          c \<in> set shown \<or> (length shown = limit \<and> list_all (\<lambda>r. mover_key descending r \<le> mover_key descending c) shown))"

lemma extremes_take:
  assumes "distinct (map mv_symbol cs)"
  shows "extremes descending limit cs (take limit (sort_key (mover_key descending)
    (filter (\<lambda>c. if descending then 0 < percent_of_mover c else percent_of_mover c < 0) cs)))"
proof -
  let ?f = "filter (\<lambda>c. if descending then 0 < percent_of_mover c else percent_of_mover c < 0) cs"
  let ?t = "take limit (sort_key (mover_key descending) ?f)"
  have sub: "set ?t \<subseteq> set ?f" using set_take_subset[of limit "sort_key (mover_key descending) ?f"] by simp
  have "distinct (map mv_symbol ?f)" using assms by (rule distinct_map_filter)
  then have "distinct (map mv_symbol (sort_key (mover_key descending) ?f))" by (simp add: distinct_map)
  then have dist: "distinct (map mv_symbol ?t)" unfolding take_map[symmetric] by (rule distinct_take)
  have sorted: "sorted (map (mover_key descending) ?t)" by (simp add: take_map[symmetric] sorted_wrt_take)
  have full: "c \<in> set ?t \<or> (length ?t = limit \<and> list_all (\<lambda>r. mover_key descending r \<le> mover_key descending c) ?t)"
    if "c \<in> set ?f" for c
    using take_sort_full[OF that, of limit "mover_key descending"] take_sort_least[OF that, of limit "mover_key descending"]
    unfolding list_all_iff by blast
  have complete: "\<forall>c \<in> set cs. (if descending then 0 < percent_of_mover c else percent_of_mover c < 0) \<longrightarrow>
      c \<in> set ?t \<or> (length ?t = limit \<and> list_all (\<lambda>r. mover_key descending r \<le> mover_key descending c) ?t)"
    by (intro ballI impI full) simp
  have subset: "set ?t \<subseteq> set cs" using sub filter_is_subset by (rule subset_trans)
  have sign: "list_all (\<lambda>c. if descending then 0 < percent_of_mover c else percent_of_mover c < 0) ?t"
    unfolding list_all_iff
  proof
    fix x assume "x \<in> set ?t"
    with sub have "x \<in> set ?f" by (rule subsetD)
    then show "if descending then 0 < percent_of_mover x else percent_of_mover x < 0"
      unfolding set_filter mem_Collect_eq by (rule conjunct2)
  qed
  show ?thesis
    unfolding extremes_def by (intro conjI dist subset sign sorted complete) simp
qed

text \<open>
  The movers are the extremes, exactly. Whatever the precision of the percents, the gainers (and the
  losers) are at most the limit, each symbol once, all rising (falling), in order of the exact change and
  then of the symbol; and a symbol of the same sign that is not shown is no bigger mover than any shown.
\<close>

theorem movers_are_extremes:
  assumes "percents_valid candidates"
  shows "\<exists>gainers losers. rank_movers candidates limit = Inr (gainers, losers)
    \<and> extremes True limit (unique_movers [] candidates) gainers
    \<and> extremes False limit (unique_movers [] candidates) losers"
proof -
  let ?u = "unique_movers [] candidates"
  let ?sign = "\<lambda>descending c. if descending then 0 < percent_of_mover c else percent_of_mover c < 0"
  have v: "percents_valid ?u" using assms by (rule unique_movers_valid)
  have vf: "percents_valid (filter p ?u)" for p using v by (simp add: percents_valid_def list_all_iff)
  have signs: "(order_of (percent_of_mover c) 0 > 0) = ?sign True c" "(order_of (percent_of_mover c) 0 < 0) = ?sign False c"
    for c :: "'a mover_scheme" by (simp_all add: order_of_def)
  have up: "filter_percent (\<lambda>o1. o1 > 0) ?u = Inr (filter (?sign True) ?u)"
    unfolding filter_percent_eq[OF v] signs ..
  have down: "filter_percent (\<lambda>o1. o1 < 0) ?u = Inr (filter (?sign False) ?u)"
    unfolding filter_percent_eq[OF v] signs ..
  have "rank_movers candidates limit = Inr (take limit (sort_key (mover_key True) (filter (?sign True) ?u)),
      take limit (sort_key (mover_key False) (filter (?sign False) ?u)))"
    unfolding rank_movers_def Let_def up down ebind_simps js_sort_movers[OF vf] ..
  with extremes_take[OF unique_movers_set(3), where descending = True] extremes_take[OF unique_movers_set(3), where descending = False]
  show ?thesis by blast
qed

definition demo_movers :: "mover list" where
  "demo_movers = [\<lparr>mv_symbol = ''AAA'', mv_percent = ''1.09''\<rparr>, \<lparr>mv_symbol = ''BBB'', mv_percent = ''1.1''\<rparr>,
     \<lparr>mv_symbol = ''CCC'', mv_percent = ''-12.50''\<rparr>, \<lparr>mv_symbol = ''AAA'', mv_percent = ''9''\<rparr>]"

theorem movers_are_extremes_witness:
  "\<exists>gainers losers. rank_movers demo_movers movers_limit = Inr (gainers, losers)
    \<and> extremes True movers_limit (unique_movers [] demo_movers) gainers
    \<and> extremes False movers_limit (unique_movers [] demo_movers) losers"
proof (rule movers_are_extremes)
  show "percents_valid demo_movers"
    by code_simp
qed

text \<open>Exact comparison of a shorter text with a longer one, on the code itself.\<close>

lemma movers_example:
  "rank_movers demo_movers 1 = Inr ([\<lparr>mv_symbol = ''BBB'', mv_percent = ''1.1''\<rparr>], [\<lparr>mv_symbol = ''CCC'', mv_percent = ''-12.50''\<rparr>])"
  by code_simp

end
