(* ===== verification/Fundamentals.thy ===== *)
theory Fundamentals
  imports Movers Client_Prices Alpaca_Translate
begin

text \<open>
  Key statistics (\<^verbatim>\<open>src/core/discovery/fundamentals.ts\<close>): trailing earnings per share from the facts of
  the filings, price over earnings, the range of 52 weeks, and the thinning of a sparkline
  (\<^verbatim>\<open>sparkline.ts\<close>). Dates are parsed by the runtime; a date that does not parse makes every
  comparison with it false, as \<open>NaN\<close> does. A number of days is exact.
\<close>

section \<open>Four decimal places as integers\<close>

definition day_ms :: int where "day_ms = 86400000"

definition eps_units :: "string \<Rightarrow> int result" where
  "eps_units value =
     (let negative = (take 1 value = ''-'');
          (whole, fraction) = split_point (if negative then drop 1 value else value)
      in ebind (big_int (or_zero whole)) (\<lambda>w.
         ebind (big_int (or_zero (take 4 (fraction @ ''0000'')))) (\<lambda>f.
           let u = w * 10000 + f in Inr (if negative then - u else u))))"

definition eps_text :: "int \<Rightarrow> string" where
  "eps_text u =
     (let digits = pad_start 5 (show_nat (nat \<bar>u\<bar>))
      in (if u < 0 then ''-'' else []) @ take (length digits - 4) digits @ ''.'' @ drop (length digits - 4) digits)"

section \<open>Trailing earnings per share\<close>

record eps_fact =
  ef_start :: string
  ef_end :: string
  ef_value :: string

datatype eps_basis = Ttm | Fy

record trailing_figure =
  te_eps :: string
  te_basis :: eps_basis
  te_period_end :: string

definition fact_days :: "js_runtime \<Rightarrow> eps_fact \<Rightarrow> rat option" where
  "fact_days J f =
     (case (jd_parse J (ef_start f), jd_parse J (ef_end f)) of
        (Some a, Some b) \<Rightarrow> Some (of_int (b - a) / of_int day_ms)
      | _ \<Rightarrow> None)"

text \<open>A comparison with \<open>NaN\<close> is false.\<close>

definition holds_for :: "'a option \<Rightarrow> ('a \<Rightarrow> bool) \<Rightarrow> bool" where
  "holds_for x p = (case x of None \<Rightarrow> False | Some v \<Rightarrow> p v)"

definition annual_length :: "js_runtime \<Rightarrow> eps_fact \<Rightarrow> bool" where
  "annual_length J f = holds_for (fact_days J f) (\<lambda>n. 350 \<le> n \<and> n \<le> 380)"

definition ytd_length :: "js_runtime \<Rightarrow> eps_fact \<Rightarrow> bool" where
  "ytd_length J f = holds_for (fact_days J f) (\<lambda>n. n < 350 \<and> 80 \<le> n)"

definition latest_end :: "js_runtime \<Rightarrow> eps_fact \<Rightarrow> eps_fact \<Rightarrow> int" where
  "latest_end J a b = order_of (jd_collation J (ef_end b)) (jd_collation J (ef_end a))"

definition latest_longest :: "js_runtime \<Rightarrow> eps_fact \<Rightarrow> eps_fact \<Rightarrow> int" where
  "latest_longest J a b =
     (if latest_end J a b \<noteq> 0 then latest_end J a b
      else case (fact_days J a, fact_days J b) of (Some x, Some y) \<Rightarrow> order_of y x | _ \<Rightarrow> 0)"

definition head_of :: "'a list \<Rightarrow> 'a option" where
  "head_of xs = (case xs of [] \<Rightarrow> None | x # _ \<Rightarrow> Some x)"

definition latest_annual :: "js_runtime \<Rightarrow> eps_fact list \<Rightarrow> eps_fact option" where
  "latest_annual J facts = head_of (js_sort (latest_end J) (filter (annual_length J) facts))"

definition latest_ytd :: "js_runtime \<Rightarrow> eps_fact list \<Rightarrow> eps_fact \<Rightarrow> eps_fact option" where
  "latest_ytd J facts annual =
     head_of (js_sort (latest_longest J) (filter (\<lambda>f. ef_end f > ef_end annual \<and> ytd_length J f) facts))"

definition same_period_before :: "js_runtime \<Rightarrow> eps_fact \<Rightarrow> eps_fact \<Rightarrow> bool" where
  "same_period_before J ytd f =
     (case (jd_parse J (ef_end ytd), jd_parse J (ef_end f), fact_days J f, fact_days J ytd) of
        (Some e, Some t, Some n, Some m) \<Rightarrow> \<bar>t - (e - 365 * day_ms)\<bar> \<le> 15 * day_ms \<and> \<bar>n - m\<bar> \<le> 10
      | _ \<Rightarrow> False)"

definition fiscal_year :: "eps_fact \<Rightarrow> trailing_figure option result" where
  "fiscal_year annual = ebind (eps_units (ef_value annual)) (\<lambda>a.
     Inr (Some \<lparr>te_eps = eps_text a, te_basis = Fy, te_period_end = ef_end annual\<rparr>))"

definition trailing_eps :: "js_runtime \<Rightarrow> eps_fact list \<Rightarrow> time \<Rightarrow> trailing_figure option result" where
  "trailing_eps J facts now =
     (case latest_annual J facts of
        None \<Rightarrow> Inr None
      | Some annual \<Rightarrow>
          if holds_for (jd_parse J (ef_end annual)) (\<lambda>t. now - t > 456 * day_ms) then Inr None
          else (case latest_ytd J facts annual of
              None \<Rightarrow> fiscal_year annual
            | Some ytd \<Rightarrow>
                (case find (same_period_before J ytd) facts of
                   None \<Rightarrow> fiscal_year annual
                 | Some prior \<Rightarrow>
                     ebind (eps_units (ef_value annual)) (\<lambda>a. ebind (eps_units (ef_value ytd)) (\<lambda>y.
                     ebind (eps_units (ef_value prior)) (\<lambda>p.
                       Inr (Some \<lparr>te_eps = eps_text (a + y - p), te_basis = Ttm, te_period_end = ef_end ytd\<rparr>)))))))"

section \<open>Price over earnings\<close>

definition price_to_earnings :: "px \<Rightarrow> string \<Rightarrow> string option result" where
  "price_to_earnings price eps =
     ebind (eps_units eps) (\<lambda>e.
       if e \<le> 0 then Inr None
       else ebind (eps_units (px_to_string price)) (\<lambda>p.
         let n = p * 10; q = n sdiv e; twice = (n smod e) * 2;
             r = (if twice > e \<or> twice = e \<and> q smod 2 = 1 then q + 1 else q);
             s = pad_start 2 (show_nat (nat r))
         in Inr (Some (take (length s - 1) s @ ''.'' @ drop (length s - 1) s))))"

section \<open>The range of 52 weeks\<close>

fun week_range :: "time \<Rightarrow> candle list \<Rightarrow> (px \<times> px) option \<Rightarrow> (px \<times> px) option result" where
  "week_range since [] r = Inr r"
| "week_range since (c # cs) r =
     (if cd_time c < since then week_range since cs r
      else ebind (px_from_string (cd_high c)) (\<lambda>h. ebind (px_from_string (cd_low c)) (\<lambda>l.
        week_range since cs (Some (case r of None \<Rightarrow> (h, l) | Some (high, low) \<Rightarrow> (px_max high h, px_min low l))))))"

definition fifty_two_week_range :: "candle list \<Rightarrow> time \<Rightarrow> px option \<Rightarrow> (px \<times> px) option result" where
  "fifty_two_week_range candles now latest =
     ebind (week_range (now - 365 * day_ms) candles None) (\<lambda>r.
       Inr (map_option (\<lambda>(high, low). case latest of None \<Rightarrow> (high, low) | Some p \<Rightarrow> (px_max high p, px_min low p)) r))"

section \<open>Sparklines\<close>

definition sparkline_max_points :: nat where "sparkline_max_points = 40"

text \<open>\<open>Math.round\<close> of a quotient of naturals: halves are rounded up.\<close>

definition rounded_div :: "nat \<Rightarrow> nat \<Rightarrow> nat" where
  "rounded_div a b = (2 * a + b) div (2 * b)"

definition downsample_series :: "'a list \<Rightarrow> nat \<Rightarrow> 'a list result" where
  "downsample_series values max_points =
     (if max_points < 2 then Inl (JsError ''downsampleSeries needs at least 2 points'')
      else if length values \<le> max_points then Inr values
      else Inr (map (\<lambda>i. values ! rounded_div (i * (length values - 1)) (max_points - 1)) [0..<max_points]))"

section \<open>Round trips and exactness\<close>

lemma eps_text_units_to_string: "eps_text u = units_to_string u 4"
  by (simp add: eps_text_def units_to_string_def)

lemma digits_inject:
  "list_all is_digit s \<Longrightarrow> list_all is_digit t \<Longrightarrow> length s = length t \<Longrightarrow> read_nat s = read_nat t \<Longrightarrow> s = t"
proof (induction s arbitrary: t)
  case (Cons c s)
  then obtain d t' where t: "t = d # t'" by (cases t) auto
  have b: "read_nat s < 10 ^ length s" "read_nat t' < 10 ^ length s"
    using Cons.prems t read_nat_less[of s] read_nat_less[of t'] by simp_all
  have e: "digit_val c * 10 ^ length s + read_nat s = digit_val d * 10 ^ length s + read_nat t'"
    using Cons.prems t by (simp add: read_nat_Cons)
  then have "(digit_val c * 10 ^ length s + read_nat s) div 10 ^ length s = (digit_val d * 10 ^ length s + read_nat t') div 10 ^ length s"
    by simp
  then have v: "digit_val c = digit_val d" using b by simp
  with e have "read_nat s = read_nat t'" by simp
  moreover have "c = d"
  proof -
    have "48 \<le> (of_char c :: nat)" "48 \<le> (of_char d :: nat)" using Cons.prems(1,2) t by (auto simp: is_digit_def)
    with v have "(of_char c :: nat) = of_char d" unfolding digit_val_def by linarith
    then show ?thesis by (simp add: of_char_eq_iff)
  qed
  ultimately show ?case using Cons t by simp
qed simp

lemma pad_show_nat:
  assumes "0 < k"
  shows "pad_start (k + 1) (show_nat n) = show_nat (n div 10 ^ k) @ pad_start k (show_nat (n mod 10 ^ k))"
proof (rule digits_inject)
  show "list_all is_digit (pad_start (k + 1) (show_nat n))" by (intro pad_start_digits show_nat_digits)
  show "list_all is_digit (show_nat (n div 10 ^ k) @ pad_start k (show_nat (n mod 10 ^ k)))"
    by (simp add: pad_start_digits show_nat_digits)
  have last: "length (pad_start k (show_nat (n mod 10 ^ k))) = k" using assms by (rule length_fraction)
  show "read_nat (pad_start (k + 1) (show_nat n)) = read_nat (show_nat (n div 10 ^ k) @ pad_start k (show_nat (n mod 10 ^ k)))"
    using last div_mult_mod_eq[of n "10 ^ k"] by (simp add: read_nat_append)
  have "length (show_nat n) \<le> j + k \<longleftrightarrow> length (show_nat (n div 10 ^ k)) \<le> j" if "0 < j" for j
    using that assms by (simp add: length_show_nat_iff power_add less_mult_imp_div_less div_less_iff_less_mult)
  note fits = this
  have p: "0 < length (show_nat (n div 10 ^ k))" by simp
  have "max (k + 1) (length (show_nat n)) = length (show_nat (n div 10 ^ k)) + k"
  proof (cases "length (show_nat (n div 10 ^ k)) = 1")
    case True
    then show ?thesis using fits[of 1] by simp
  next
    case False
    then show ?thesis
      using p fits[of "length (show_nat (n div 10 ^ k))"] fits[of "length (show_nat (n div 10 ^ k)) - 1"] by linarith
  qed
  then show "length (pad_start (k + 1) (show_nat n)) = length (show_nat (n div 10 ^ k) @ pad_start k (show_nat (n mod 10 ^ k)))"
    using last by (simp add: pad_start_def)
qed

lemma eps_text_fixed: "eps_text u = fixed_text 4 u"
proof -
  let ?n = "nat \<bar>u\<bar>" and ?f = "pad_start 4 (show_nat (nat \<bar>u\<bar> mod 10 ^ 4))"
  have p: "pad_start 5 (show_nat ?n) = show_nat (?n div 10 ^ 4) @ ?f"
    using pad_show_nat[of 4 ?n] by (simp only: numeral_plus_one semiring_norm)
  have l: "length ?f = 4" by (rule length_fraction) simp
  show ?thesis unfolding eps_text_def Let_def p using l by (simp add: fixed_text_def Let_def)
qed

lemma eps_units_match:
  assumes "match_decimal s = Some (neg, w, f)"
  shows "eps_units s = Inr ((if neg then - 1 else 1) * int (read_nat w * 10000 + read_nat (take 4 (f @ ''0000''))))"
proof -
  note m = match_decimal_shape[OF assms]
  have sp: "split_point (if take 1 s = ''-'' then drop 1 s else s) = (w, f)" using split_money[OF assms] m(1) by simp
  have f: "list_all is_digit (take 4 (f @ ''0000''))" using m(4) by (auto simp: list_all_iff dest!: in_set_takeD)
  show ?thesis
    using or_zero_digits[OF m(3)] or_zero_digits[OF f] m(1)
    unfolding eps_units_def Let_def sp by (simp add: big_int_digits)
qed

lemma match_eps_text:
  "match_decimal (eps_text u)
    = Some (u < 0, show_nat (nat \<bar>u\<bar> div 10000), pad_start 4 (show_nat (nat \<bar>u\<bar> mod 10000)))"
  using match_fixed_text[of 4 u] by (simp add: eps_text_fixed)

lemma eps_roundtrip: "eps_units (eps_text u) = Inr u"
proof -
  let ?n = "nat \<bar>u\<bar>" and ?f = "pad_start 4 (show_nat (nat \<bar>u\<bar> mod 10000))"
  have l: "length ?f = 4" using length_fraction[of 4 ?n] by simp
  have t: "take 4 (?f @ ''0000'') = ?f" using l by simp
  have n: "?n div 10000 * 10000 + ?n mod 10000 = ?n" by (rule div_mult_mod_eq)
  show ?thesis unfolding eps_units_match[OF match_eps_text] t read_show_nat read_pad_start n by simp
qed

section \<open>The last four quarters\<close>

text \<open>
  A filer's true earnings \<open>q k\<close> per quarter \<open>k\<close>, which starts at \<open>st k\<close>; fiscal years are four quarters, from a quarter
  that is a multiple of four. A reported fact covers quarters of one year, and the calendar has quarters of
  88 to 98 days and years of at most 381. The filings are complete when each fact has its year to date beside it and
  the year before it is reported; text order and collation of ISO dates follow time.
\<close>

definition calendar :: "(nat \<Rightarrow> time) \<Rightarrow> bool" where
  "calendar st \<longleftrightarrow> (\<forall>k. st k + 88 * day_ms \<le> st (Suc k) \<and> st (Suc k) \<le> st k + 98 * day_ms)
     \<and> (\<forall>y. st (4 * y + 4) \<le> st (4 * y) + 381 * day_ms)"

text \<open>Years of the same make: at most 380 days, and the same quarters differ by at most 10 days from one to the next.\<close>

definition regular_years :: "(nat \<Rightarrow> time) \<Rightarrow> bool" where
  "regular_years st \<longleftrightarrow> (\<forall>k. st (k + 4) \<le> st k + 380 * day_ms)
     \<and> (\<forall>i j. i \<le> j \<and> j \<le> i + 3 \<longrightarrow> \<bar>st (j + 4) - st (i + 4) - (st j - st i)\<bar> \<le> 10 * day_ms)"

definition covers :: "js_runtime \<Rightarrow> (nat \<Rightarrow> int) \<Rightarrow> (nat \<Rightarrow> time) \<Rightarrow> eps_fact \<Rightarrow> nat \<Rightarrow> nat \<Rightarrow> bool" where
  "covers J q st f i j \<longleftrightarrow> i < j \<and> j \<le> 4 * (i div 4) + 4 \<and> jd_parse J (ef_start f) = Some (st i)
     \<and> jd_parse J (ef_end f) = Some (st j - day_ms) \<and> eps_units (ef_value f) = Inr (sum q {i..<j})"

definition complete_filings :: "js_runtime \<Rightarrow> (nat \<Rightarrow> int) \<Rightarrow> (nat \<Rightarrow> time) \<Rightarrow> eps_fact list \<Rightarrow> bool" where
  "complete_filings J q st facts \<longleftrightarrow>
     (\<forall>f \<in> set facts. \<exists>i j. covers J q st f i j
        \<and> (\<exists>g \<in> set facts. covers J q st g (4 * (i div 4)) j)
        \<and> (4 \<le> i \<longrightarrow> (\<exists>g \<in> set facts. covers J q st g (4 * (i div 4) - 4) (4 * (i div 4)))))
     \<and> (\<forall>f \<in> set facts. \<forall>g \<in> set facts. \<forall>s t. jd_parse J (ef_end f) = Some s \<and> jd_parse J (ef_end g) = Some t
          \<longrightarrow> (ef_end f < ef_end g \<longleftrightarrow> s < t) \<and> (jd_collation J (ef_end f) < jd_collation J (ef_end g) \<longleftrightarrow> s < t))"

lemma calendar_span:
  assumes "calendar st" "i \<le> j"
  shows "int (j - i) * (88 * day_ms) \<le> st j - st i" "st j - st i \<le> int (j - i) * (98 * day_ms)"
proof -
  have step: "st k + 88 * day_ms \<le> st (Suc k)" "st (Suc k) \<le> st k + 98 * day_ms" for k
    using assms(1) by (auto simp: calendar_def)
  have "int n * (88 * day_ms) \<le> st (i + n) - st i \<and> st (i + n) - st i \<le> int n * (98 * day_ms)" for n
  proof (induction n)
    case (Suc n)
    then show ?case using step[of "i + n"] by (simp add: algebra_simps)
  qed simp
  from this[of "j - i"] assms(2) show "int (j - i) * (88 * day_ms) \<le> st j - st i" "st j - st i \<le> int (j - i) * (98 * day_ms)"
    by simp_all
qed

lemma calendar_mono:
  assumes "calendar st"
  shows "st i < st j \<longleftrightarrow> i < j"
proof -
  have up: "st a < st b" if "a < b" for a b
  proof -
    have "0 < int (b - a) * (88 * day_ms)" using that by (simp add: day_ms_def)
    also have "\<dots> \<le> st b - st a" using calendar_span(1)[OF assms, of a b] that by simp
    finally show ?thesis by simp
  qed
  show ?thesis using up[of i j] up[of j i] by (metis linorder_cases order.asym)
qed

text \<open>The length of a fact in days tells how many quarters it covers.\<close>

lemma covers_days: "covers J q st f i j \<Longrightarrow> fact_days J f = Some (of_int (st j - st i - day_ms) / of_int day_ms)"
  by (simp add: covers_def fact_days_def algebra_simps)

lemma day_quotient:
  "(of_int c \<le> of_int a / (of_int day_ms :: rat)) = (c * day_ms \<le> a)"
  "(of_int a / (of_int day_ms :: rat) \<le> of_int c) = (a \<le> c * day_ms)"
  "(of_int a / (of_int day_ms :: rat) < of_int c) = (a < c * day_ms)"
proof -
  have d: "0 < (of_int day_ms :: rat)" by (simp add: day_ms_def)
  show "(of_int c \<le> of_int a / (of_int day_ms :: rat)) = (c * day_ms \<le> a)"
    "(of_int a / (of_int day_ms :: rat) \<le> of_int c) = (a \<le> c * day_ms)"
    "(of_int a / (of_int day_ms :: rat) < of_int c) = (a < c * day_ms)"
    unfolding pos_le_divide_eq[OF d] pos_divide_le_eq[OF d] pos_divide_less_eq[OF d] of_int_mult[symmetric] of_int_le_iff of_int_less_iff
    by (rule refl)+
qed

lemma covers_le: "covers J q st f i j \<Longrightarrow> i < j \<and> j \<le> 4 * (i div 4) + 4 \<and> j - i \<le> 4"
  by (auto simp: covers_def)

lemma span_days:
  assumes "calendar st" "covers J q st f i j"
  shows "j - i \<le> 3 \<Longrightarrow> st j - st i \<le> 294 * day_ms" "88 * day_ms \<le> st j - st i" "4 \<le> j - i \<Longrightarrow> 352 * day_ms \<le> st j - st i"
proof -
  have ij: "i \<le> j" "1 \<le> int (j - i)" using covers_le[OF assms(2)] by auto
  note sp = calendar_span[OF assms(1) ij(1)]
  have d: "0 \<le> day_ms" by (simp add: day_ms_def)
  show "st j - st i \<le> 294 * day_ms" if "j - i \<le> 3"
  proof -
    have "int (j - i) * (98 * day_ms) \<le> 294 * day_ms" using that by (simp add: day_ms_def)
    with sp(2) show ?thesis by (rule order_trans)
  qed
  have "1 * (88 * day_ms) \<le> int (j - i) * (88 * day_ms)" by (rule mult_right_mono) (use ij d in auto)
  with sp(1) show "88 * day_ms \<le> st j - st i" by simp
  show "352 * day_ms \<le> st j - st i" if "4 \<le> j - i"
  proof -
    have "352 * day_ms \<le> int (j - i) * (88 * day_ms)" using that by (simp add: day_ms_def)
    then show ?thesis using sp(1) by (rule order_trans)
  qed
qed

lemma annual_quarters:
  assumes "calendar st" "covers J q st f i j"
  shows "annual_length J f \<longleftrightarrow> j = i + 4"
proof
  assume "annual_length J f"
  then have "350 * day_ms \<le> st j - st i - day_ms"
    using day_quotient(1)[of 350 "st j - st i - day_ms"]
    by (simp add: annual_length_def holds_for_def covers_days[OF assms(2)])
  then have "\<not> j - i \<le> 3" using span_days(1)[OF assms] by (auto simp: day_ms_def)
  with covers_le[OF assms(2)] show "j = i + 4" by arith
next
  assume j: "j = i + 4"
  then have "i = 4 * (i div 4)" using covers_le[OF assms(2)] by arith
  moreover have "st (4 * (i div 4) + 4) \<le> st (4 * (i div 4)) + 381 * day_ms" using assms(1) by (simp add: calendar_def)
  ultimately have "st j - st i \<le> 381 * day_ms" using j by simp
  moreover have "352 * day_ms \<le> st j - st i" using j span_days(3)[OF assms] by simp
  ultimately show "annual_length J f"
    using day_quotient(1)[of 350 "st j - st i - day_ms"] day_quotient(2)[of "st j - st i - day_ms" 380]
    by (simp add: annual_length_def holds_for_def covers_days[OF assms(2)] day_ms_def)
qed

lemma ytd_quarters:
  assumes "calendar st" "covers J q st f i j"
  shows "ytd_length J f \<longleftrightarrow> j - i \<le> 3"
proof
  assume "ytd_length J f"
  then have "st j - st i - day_ms < 350 * day_ms"
    using day_quotient(3)[of "st j - st i - day_ms" 350]
    by (simp add: ytd_length_def holds_for_def covers_days[OF assms(2)])
  then show "j - i \<le> 3" using span_days(3)[OF assms] by (cases "4 \<le> j - i") (auto simp: day_ms_def)
next
  assume "j - i \<le> 3"
  then show "ytd_length J f"
    using span_days(1,2)[OF assms] day_quotient(3)[of "st j - st i - day_ms" 350] day_quotient(1)[of 80 "st j - st i - day_ms"]
    by (simp add: ytd_length_def holds_for_def covers_days[OF assms(2)] day_ms_def)
qed

text \<open>The same period a year before: as many quarters, ending four quarters earlier.\<close>

lemma same_period_quarters:
  assumes "calendar st" "covers J q st g i j" "covers J q st f i' j'" "same_period_before J g f" "j - i \<le> 3"
  shows "j' + 4 = j \<and> j' - i' = j - i"
proof -
  have ends: "\<bar>st j' - day_ms - (st j - day_ms - 365 * day_ms)\<bar> \<le> 15 * day_ms"
    and len: "\<bar>of_int (st j' - st i' - day_ms) / of_int day_ms - of_int (st j - st i - day_ms) / (of_int day_ms :: rat)\<bar> \<le> 10"
    using assms(4) covers_days[OF assms(2)] covers_days[OF assms(3)] assms(2,3)
    by (simp_all add: same_period_before_def covers_def)
  from ends have span: "350 * day_ms \<le> st j - st j'" "st j - st j' \<le> 380 * day_ms" by auto
  have "0 < day_ms" by (simp add: day_ms_def)
  with span(1) have jj: "j' < j" using calendar_mono[OF assms(1), of j' j] by linarith
  have e: "j' + 4 = j"
  proof -
    note sp = calendar_span[OF assms(1) less_imp_le[OF jj]]
    have "int (j - j') * (88 * day_ms) \<le> 380 * day_ms" "350 * day_ms \<le> int (j - j') * (98 * day_ms)"
      using sp span by linarith+
    then have "int (j - j') * 88 \<le> 380" "350 \<le> int (j - j') * 98" by (simp_all add: day_ms_def)
    then show ?thesis using jj by linarith
  qed
  have "of_int (st j' - st i' - (st j - st i)) / (of_int day_ms :: rat)
      = of_int (st j' - st i' - day_ms) / of_int day_ms - of_int (st j - st i - day_ms) / of_int day_ms"
    by (simp add: diff_divide_distrib[symmetric])
  with len have "of_int (st j' - st i' - (st j - st i)) / (of_int day_ms :: rat) \<le> of_int 10"
    "of_int (- 10) \<le> of_int (st j' - st i' - (st j - st i)) / (of_int day_ms :: rat)"
    by (simp_all only: abs_le_iff of_int_numeral of_int_minus minus_le_iff)
  then have d: "st j' - st i' - (st j - st i) \<le> 10 * day_ms" "- 10 * day_ms \<le> st j' - st i' - (st j - st i)"
    unfolding day_quotient by simp_all
  have i: "i \<le> j" "i' \<le> j'" "j' - i' \<le> 4" using covers_le[OF assms(2)] covers_le[OF assms(3)] by auto
  note a = calendar_span[OF assms(1) i(1)] and b = calendar_span[OF assms(1) i(2)]
  have "int (j' - i') * (88 * day_ms) - int (j - i) * (98 * day_ms) \<le> 10 * day_ms"
    "int (j - i) * (88 * day_ms) - int (j' - i') * (98 * day_ms) \<le> 10 * day_ms"
    using a b d by linarith+
  then have "int (j' - i') * 88 - int (j - i) * 98 \<le> 10" "int (j - i) * 88 - int (j' - i') * 98 \<le> 10"
    by (simp_all add: day_ms_def)
  with assms(5) i(3) have "j' - i' = j - i" by linarith
  with e show ?thesis by simp
qed

lemma same_period_found:
  assumes "calendar st" "regular_years st" "covers J q st y j k" "covers J q st p (j - 4) (k - 4)" "4 \<le> j" "k \<le> j + 3"
  shows "same_period_before J y p"
proof -
  have jk: "j < k" using assms(3) by (simp add: covers_def)
  obtain a b where ab: "j = a + 4" "k = b + 4" "a \<le> b" "b \<le> a + 3"
  proof
    show "j = (j - 4) + 4" "k = (k - 4) + 4" "j - 4 \<le> k - 4" "k - 4 \<le> (j - 4) + 3" using assms(5,6) jk by arith+
  qed
  have year: "st (b + 4) \<le> st b + 380 * day_ms" and len: "\<bar>st (b + 4) - st (a + 4) - (st b - st a)\<bar> \<le> 10 * day_ms"
    using assms(2) ab(3,4) by (auto simp: regular_years_def)
  have "int 4 * (88 * day_ms) \<le> st (b + 4) - st b" using calendar_span(1)[OF assms(1), of b "b + 4"] by simp
  then have ends: "\<bar>st b - day_ms - (st (b + 4) - day_ms - 365 * day_ms)\<bar> \<le> 15 * day_ms"
    using year by (simp add: day_ms_def)
  have "of_int (st b - st a - day_ms) / (of_int day_ms :: rat) - of_int (st (b + 4) - st (a + 4) - day_ms) / of_int day_ms
      = of_int (st b - st a - (st (b + 4) - st (a + 4))) / of_int day_ms"
    by (simp add: diff_divide_distrib[symmetric])
  moreover have "- 10 * day_ms \<le> st b - st a - (st (b + 4) - st (a + 4))" "st b - st a - (st (b + 4) - st (a + 4)) \<le> 10 * day_ms"
    using len by linarith+
  then have "of_int (- 10) \<le> of_int (st b - st a - (st (b + 4) - st (a + 4))) / (of_int day_ms :: rat)"
    "of_int (st b - st a - (st (b + 4) - st (a + 4))) / (of_int day_ms :: rat) \<le> of_int 10"
    unfolding day_quotient by simp_all
  ultimately have "\<bar>of_int (st b - st a - day_ms) / (of_int day_ms :: rat) - of_int (st (b + 4) - st (a + 4) - day_ms) / of_int day_ms\<bar> \<le> 10"
    by (simp add: abs_le_iff)
  with ends show ?thesis
    using assms(3,4) covers_days[OF assms(3)] covers_days[OF assms(4)]
    by (simp add: same_period_before_def covers_def ab)
qed

text \<open>The head of a list sorted by a comparator that follows a key is a least element.\<close>

lemma head_js_sort:
  fixes k :: "'a \<Rightarrow> 'b::linorder"
  assumes "head_of (js_sort cmp xs) = Some x" and "\<And>a b. a \<in> set xs \<Longrightarrow> b \<in> set xs \<Longrightarrow> (cmp a b \<le> 0) = (k a \<le> k b)"
  shows "x \<in> set xs" "\<And>y. y \<in> set xs \<Longrightarrow> k x \<le> k y"
proof -
  obtain ys where xs: "sort_key k xs = x # ys"
    using assms(1) js_sort_key[of xs cmp k, OF assms(2)] by (auto simp: head_of_def split: list.splits)
  then show "x \<in> set xs" by (metis list.set_intros(1) set_sort)
  have "sorted (map k (x # ys))" using sorted_sort_key[of k xs] xs by simp
  then show "k x \<le> k y" if "y \<in> set xs" for y using that xs set_sort[of k xs] by auto
qed

lemma head_none: "head_of (js_sort cmp xs) = None \<longleftrightarrow> xs = []"
proof
  assume "head_of (js_sort cmp xs) = None"
  then have "js_sort cmp xs = []" by (auto simp: head_of_def split: list.splits)
  then show "xs = []" by (metis list.set(1) set_empty set_js_sort)
qed (simp add: head_of_def js_sort_def)

definition end_time :: "js_runtime \<Rightarrow> eps_fact \<Rightarrow> time" where
  "end_time J f = the (jd_parse J (ef_end f))"

lemma complete_fact:
  assumes "complete_filings J q st facts" "f \<in> set facts"
  obtains i j where "covers J q st f i j" "end_time J f = st j - day_ms"
    "\<exists>g \<in> set facts. covers J q st g (4 * (i div 4)) j"
    "4 \<le> i \<Longrightarrow> \<exists>g \<in> set facts. covers J q st g (4 * (i div 4) - 4) (4 * (i div 4))"
  using assms by (fastforce simp: complete_filings_def covers_def end_time_def)

lemma complete_order:
  assumes "complete_filings J q st facts" "f \<in> set facts" "g \<in> set facts"
  shows "ef_end f < ef_end g \<longleftrightarrow> end_time J f < end_time J g"
    "order_of (jd_collation J (ef_end g)) (jd_collation J (ef_end f)) = order_of (end_time J g) (end_time J f)"
proof -
  obtain s t where "jd_parse J (ef_end f) = Some s" "jd_parse J (ef_end g) = Some t"
    using complete_fact[OF assms(1,2)] complete_fact[OF assms(1,3)] unfolding covers_def by metis
  with assms show "ef_end f < ef_end g \<longleftrightarrow> end_time J f < end_time J g"
    "order_of (jd_collation J (ef_end g)) (jd_collation J (ef_end f)) = order_of (end_time J g) (end_time J f)"
    unfolding complete_filings_def order_of_def end_time_def by simp_all
qed

lemma latest_annual_max:
  assumes "complete_filings J q st facts" "latest_annual J facts = Some a"
  shows "a \<in> set facts" "annual_length J a" "\<And>f. f \<in> set facts \<Longrightarrow> annual_length J f \<Longrightarrow> end_time J f \<le> end_time J a"
proof -
  have cmp: "(latest_end J f g \<le> 0) = (- end_time J f \<le> - end_time J g)" if "f \<in> set facts" "g \<in> set facts" for f g
    unfolding latest_end_def complete_order(2)[OF assms(1) that] by (auto simp: order_of_def)
  note h = head_js_sort[OF assms(2)[unfolded latest_annual_def], where k = "\<lambda>f. - end_time J f"]
  from h(1) cmp show "a \<in> set facts" "annual_length J a" by auto
  show "end_time J f \<le> end_time J a" if "f \<in> set facts" "annual_length J f" for f
    using h(2)[of f] cmp that by auto
qed

lemma latest_ytd_max:
  assumes "complete_filings J q st facts" "a \<in> set facts" "latest_ytd J facts a = Some y"
  shows "y \<in> set facts" "end_time J a < end_time J y" "ytd_length J y"
    "\<And>f. f \<in> set facts \<Longrightarrow> ytd_length J f \<Longrightarrow> end_time J a < end_time J f
      \<Longrightarrow> end_time J f \<le> end_time J y \<and> (end_time J f = end_time J y \<longrightarrow> the (fact_days J f) \<le> the (fact_days J y))"
proof -
  let ?k = "\<lambda>f. (- end_time J f, - the (fact_days J f))"
  have days: "\<exists>n. fact_days J f = Some n" if "f \<in> set facts" for f
    using complete_fact[OF assms(1) that] covers_days by metis
  have cmp: "(latest_longest J f g \<le> 0) = (?k f \<le> ?k g)" if fg: "f \<in> set facts" "g \<in> set facts" for f g
    using days[OF fg(1)] days[OF fg(2)] unfolding latest_longest_def latest_end_def complete_order(2)[OF assms(1) fg]
    by (auto simp: order_of_def less_eq_prod_def split: if_splits)
  note h = head_js_sort[OF assms(3)[unfolded latest_ytd_def], where k = ?k]
  have y: "y \<in> set (filter (\<lambda>f. ef_end f > ef_end a \<and> ytd_length J f) facts)" by (rule h(1)) (use cmp in auto)
  then show "y \<in> set facts" "ytd_length J y" by auto
  then show "end_time J a < end_time J y" using y complete_order(1)[OF assms(1,2)] by auto
  show "end_time J f \<le> end_time J y \<and> (end_time J f = end_time J y \<longrightarrow> the (fact_days J f) \<le> the (fact_days J y))"
    if "f \<in> set facts" "ytd_length J f" "end_time J a < end_time J f" for f
  proof -
    have "?k y \<le> ?k f" by (rule h(2)) (use cmp that complete_order(1)[OF assms(1,2)] in auto)
    then show ?thesis by (auto simp: less_eq_prod_def)
  qed
qed

text \<open>The year to date that is chosen follows the last year and ends last of all.\<close>

lemma ytd_part:
  assumes cal: "calendar st" and filed: "complete_filings J q st facts" and a: "latest_annual J facts = Some a" "covers J q st a i j"
    and y: "latest_ytd J facts a = Some y"
  obtains k where "covers J q st y j k" "j < k" "k \<le> j + 3" "j = i + 4"
    "\<forall>f \<in> set facts. end_time J f \<le> st k - day_ms"
proof -
  note am = latest_annual_max[OF filed a(1)]
  note ym = latest_ytd_max[OF filed am(1) y]
  have j: "j = i + 4" "i = 4 * (i div 4)" using annual_quarters[OF cal a(2)] am(2) covers_le[OF a(2)] by arith+
  have ea: "end_time J a = st j - day_ms" using a(2) by (simp add: covers_def end_time_def)
  obtain i' k where c: "covers J q st y i' k" "end_time J y = st k - day_ms"
      "\<exists>g \<in> set facts. covers J q st g (4 * (i' div 4)) k"
      "4 \<le> i' \<Longrightarrow> \<exists>g \<in> set facts. covers J q st g (4 * (i' div 4) - 4) (4 * (i' div 4))"
    using complete_fact[OF filed ym(1)] by metis
  have short: "k - i' \<le> 3" using ytd_quarters[OF cal c(1)] ym(3) by simp
  have jk: "j < k" using ym(2) ea c(2) calendar_mono[OF cal, of j k] by simp
  have later: "end_time J f \<le> st j - day_ms" if "f \<in> set facts" "covers J q st f x (x + 4)" for f x
    using am(3)[OF that(1)] annual_quarters[OF cal that(2)] ea by simp
  obtain g where g: "g \<in> set facts" "covers J q st g (4 * (i' div 4)) k" using c(3) by blast
  have eg: "end_time J g = st k - day_ms" using g(2) by (simp add: covers_def end_time_def)
  have "k \<noteq> 4 * (i' div 4) + 4"
  proof
    assume "k = 4 * (i' div 4) + 4"
    with later[of g "4 * (i' div 4)"] g eg have "st k \<le> st j" by simp
    with jk show False using calendar_mono[OF cal, of j k] by simp
  qed
  then have short_g: "k - 4 * (i' div 4) \<le> 3" using covers_le[OF c(1)] by arith
  then have "ytd_length J g" using ytd_quarters[OF cal g(2)] by simp
  then have "the (fact_days J g) \<le> the (fact_days J y)" using ym(4)[OF g(1)] ym(2) eg c(2) by simp
  then have "st i' \<le> st (4 * (i' div 4))"
    unfolding covers_days[OF g(2)] covers_days[OF c(1)] option.sel by (simp add: day_ms_def divide_le_cancel)
  then have i4: "i' = 4 * (i' div 4)" using calendar_mono[OF cal, of "4 * (i' div 4)" i'] by (cases "4 * (i' div 4) < i'") auto
  have "\<not> j < i'"
  proof
    assume jlt: "j < i'"
    then have "4 \<le> i'" using i4 j by arith
    then obtain h where h: "h \<in> set facts" "covers J q st h (4 * (i' div 4) - 4) (4 * (i' div 4))" using c(4) by blast
    have "4 * (i' div 4) = 4 * (i' div 4) - 4 + 4" using \<open>4 \<le> i'\<close> i4 by arith
    with later[OF h(1), of "4 * (i' div 4) - 4"] h(2) have "end_time J h \<le> st j - day_ms" by simp
    moreover have "end_time J h = st i' - day_ms" using h(2) i4 by (simp add: covers_def end_time_def)
    ultimately show False using jlt calendar_mono[OF cal, of j i'] by simp
  qed
  moreover obtain m n where m: "i' = 4 * m" "i = 4 * n" using i4 j(2) by blast
  moreover have "k \<le> i' + 4" using covers_le[OF c(1)] i4 by simp
  ultimately have order: "4 * m \<le> 4 * n + 4" "4 * n + 4 < k" "k \<le> 4 * m + 4" using jk j(1) by simp_all
  then have "4 * n + 4 < 4 * m + 4" by (metis less_le_trans)
  then have "n < m" by simp
  with order(1) have "m = n + 1" by simp
  then have i': "i' = j" using m j(1) by simp
  have all: "end_time J f \<le> st k - day_ms" if f: "f \<in> set facts" for f
  proof (rule ccontr)
    assume late: "\<not> end_time J f \<le> st k - day_ms"
    obtain x z where fx: "covers J q st f x z" using complete_fact[OF filed f] by metis
    show False
    proof (cases "z = x + 4")
      case True
      with later[OF f, of x] fx late jk calendar_mono[OF cal, of j k] show False by simp
    next
      case False
      moreover have "x < z" "z - x \<le> 4" using covers_le[OF fx] by auto
      ultimately have "z - x \<le> 3" by arith
      then have "ytd_length J f" using ytd_quarters[OF cal fx] by simp
      with ym(4)[OF f] late c(2) ym(2) show False by simp
    qed
  qed
  show thesis
  proof (rule that[of k])
    show "covers J q st y j k" using c(1) unfolding i' .
    show "j < k" by (rule jk)
    show "k \<le> j + 3" using short i' by arith
    show "j = i + 4" by (rule j(1))
    show "\<forall>f \<in> set facts. end_time J f \<le> st k - day_ms" using all by (rule ballI)
  qed
qed

text \<open>The three facts of a trailing figure: the last year, the year to date, and its counterpart a year before.\<close>

lemma trailing_parts:
  assumes cal: "calendar st" and filed: "complete_filings J q st facts" and a: "latest_annual J facts = Some a" "covers J q st a i j"
    and y: "latest_ytd J facts a = Some y" and p: "p \<in> set facts" "same_period_before J y p"
  obtains k where "covers J q st y j k" "covers J q st p i (k - 4)" "j < k" "k \<le> j + 4"
    "\<forall>f \<in> set facts. end_time J f \<le> st k - day_ms"
proof -
  obtain k where k: "covers J q st y j k" "j < k" "k \<le> j + 3" "j = i + 4"
    "\<forall>f \<in> set facts. end_time J f \<le> st k - day_ms" by (rule ytd_part[OF assms(1-5)])
  obtain i'' j'' where cp: "covers J q st p i'' j''" using complete_fact[OF filed p(1)] by metis
  have "j'' + 4 = k \<and> j'' - i'' = k - j"
    by (rule same_period_quarters[OF cal k(1) cp p(2)]) (use k(3) in arith)
  then have "j'' = k - 4" "i'' = i" using k(2,4) covers_le[OF cp] by arith+
  with cp k that show thesis by simp
qed

text \<open>A filer that has reported a year to date after its last year and the counterpart has a trailing figure.\<close>

lemma trailing_pair_found:
  assumes cal: "calendar st" "regular_years st" and filed: "complete_filings J q st facts"
    and a: "latest_annual J facts = Some a" "covers J q st a i j"
    and pair: "y \<in> set facts" "covers J q st y j k" "p \<in> set facts" "covers J q st p (j - 4) (k - 4)"
    and last_end: "\<forall>f \<in> set facts. end_time J f \<le> st k - day_ms"
  shows "\<exists>y'. latest_ytd J facts a = Some y' \<and> find (same_period_before J y') facts \<noteq> None"
proof -
  note am = latest_annual_max[OF filed a(1)]
  have j: "j = i + 4" "i = 4 * (i div 4)" using annual_quarters[OF cal(1) a(2)] am(2) covers_le[OF a(2)] by arith+
  have ends: "end_time J a = st j - day_ms" "end_time J y = st k - day_ms"
    using a(2) pair(2) by (simp_all add: covers_def end_time_def)
  have jk: "j < k" using pair(2) by (simp add: covers_def)
  then have later: "end_time J a < end_time J y" using ends calendar_mono[OF cal(1), of j k] by simp
  have "\<not> annual_length J y" using am(3)[OF pair(1)] later by auto
  then have short: "k \<le> j + 3" using annual_quarters[OF cal(1) pair(2)] covers_le[OF pair(2)] by arith
  then have "ytd_length J y" using ytd_quarters[OF cal(1) pair(2)] by simp
  then have "y \<in> set (filter (\<lambda>f. ef_end f > ef_end a \<and> ytd_length J f) facts)"
    using pair(1) later complete_order(1)[OF filed am(1) pair(1)] by simp
  then obtain y' where y': "latest_ytd J facts a = Some y'"
    unfolding latest_ytd_def using head_none by (metis empty_iff list.set(1) option.exhaust)
  obtain k' where k': "covers J q st y' j k'" "j < k'" "k' \<le> j + 3" "\<forall>f \<in> set facts. end_time J f \<le> st k' - day_ms"
    by (rule ytd_part[OF cal(1) filed a y'])
  have "y' \<in> set facts" using latest_ytd_max(1)[OF filed am(1) y'] .
  then have "st k' \<le> st k" using last_end k'(1) by (auto simp: covers_def end_time_def)
  moreover have "st k \<le> st k'" using k'(4) pair(1) ends(2) by auto
  ultimately have "k' = k" using calendar_mono[OF cal(1)] by (metis antisym_conv3 order.antisym order_less_irrefl)
  then have "same_period_before J y' p"
    using same_period_found[OF cal] k'(1) pair(4) j(1) short by simp
  with y' pair(3) show ?thesis by (auto simp: find_None_iff)
qed

lemma quarters_sum:
  fixes q :: "nat \<Rightarrow> int"
  assumes "j = i + 4" "j < k" "k \<le> j + 4"
  shows "sum q {i..<j} + sum q {j..<k} - sum q {i..<k - 4} = sum q {k - 4..<k}"
proof -
  have "sum q {i..<j} + sum q {j..<k} = sum q {i..<k}" using assms by (intro sum.atLeastLessThan_concat) auto
  moreover have "sum q {i..<k - 4} + sum q {k - 4..<k} = sum q {i..<k}" using assms by (intro sum.atLeastLessThan_concat) auto
  ultimately show ?thesis by simp
qed

text \<open>
  C29: Trailing earnings are the last four quarters. From complete filings, in whichever order, \<open>trailingEps\<close>
  never throws. It gives none exactly if every annual fact ended more than 456 days ago. The figure it gives is
  the sum of the four quarters ending at the period end it names, which is at most 456 days ago. Labelled as
  trailing twelve months, no reported fact ends later. Labelled as a fiscal year, it is the last one
  reported, and then, when years are regular, the last year to date or its counterpart a year
  before is missing: the trailing figure is given whenever the filings allow it.
\<close>

theorem trailing_is_four_quarters:
  assumes "calendar st" and "complete_filings J q st facts"
  shows "case trailing_eps J facts now of
      Inl e \<Rightarrow> False
    | Inr None \<Rightarrow> \<forall>f \<in> set facts. \<forall>i. covers J q st f i (i + 4) \<longrightarrow> 456 * day_ms < now - end_time J f
    | Inr (Some t) \<Rightarrow> (\<exists>f \<in> set facts. \<exists>i. covers J q st f i (i + 4) \<and> now - end_time J f \<le> 456 * day_ms)
        \<and> (\<exists>j. 4 \<le> j \<and> jd_parse J (te_period_end t) = Some (st j - day_ms)
        \<and> eps_units (te_eps t) = Inr (sum q {j - 4..<j}) \<and> now - (st j - day_ms) \<le> 456 * day_ms
        \<and> (case te_basis t of
             Ttm \<Rightarrow> \<forall>f \<in> set facts. end_time J f \<le> st j - day_ms
           | Fy \<Rightarrow> (\<exists>f \<in> set facts. covers J q st f (j - 4) j)
               \<and> (\<forall>f \<in> set facts. \<forall>i. covers J q st f i (i + 4) \<longrightarrow> i + 4 \<le> j)
               \<and> (regular_years st \<longrightarrow> (\<nexists>k. (\<exists>f \<in> set facts. covers J q st f j k)
                    \<and> (\<exists>f \<in> set facts. covers J q st f (j - 4) (k - 4))
                    \<and> (\<forall>f \<in> set facts. end_time J f \<le> st k - day_ms)))))"
proof (cases "latest_annual J facts")
  case None
  then have none: "filter (annual_length J) facts = []" by (simp add: latest_annual_def head_none)
  have "False" if "f \<in> set facts" "covers J q st f i (i + 4)" for f i
    using none that annual_quarters[OF assms(1) that(2)] by (auto simp: filter_empty_conv)
  then show ?thesis using None by (auto simp: trailing_eps_def)
next
  case (Some a)
  note am = latest_annual_max[OF assms(2) Some]
  obtain i j where a: "covers J q st a i j" "end_time J a = st j - day_ms" using complete_fact[OF assms(2) am(1)] by metis
  have j: "j = i + 4" "i = 4 * (i div 4)"
    using annual_quarters[OF assms(1) a(1)] am(2) covers_le[OF a(1)] by arith+
  have ap: "jd_parse J (ef_end a) = Some (st j - day_ms)" "eps_units (ef_value a) = Inr (sum q {i..<j})"
    using a(1) by (simp_all add: covers_def)
  have annual: "end_time J f \<le> st j - day_ms" "x + 4 \<le> j" if f: "f \<in> set facts" "covers J q st f x (x + 4)" for f x
  proof -
    show "end_time J f \<le> st j - day_ms"
      using am(3)[OF f(1)] annual_quarters[OF assms(1) f(2)] a(2) by simp
    moreover have "end_time J f = st (x + 4) - day_ms" using f(2) by (simp add: covers_def end_time_def)
    ultimately show "x + 4 \<le> j" using calendar_mono[OF assms(1), of j "x + 4"] by linarith
  qed
  show ?thesis
  proof (cases "456 * day_ms < now - (st j - day_ms)")
    case True
    then have "trailing_eps J facts now = Inr None" using Some ap by (simp add: trailing_eps_def holds_for_def)
    moreover have "456 * day_ms < now - end_time J f" if "f \<in> set facts" "covers J q st f x (x + 4)" for f x
      using annual(1)[OF that] True by linarith
    ultimately show ?thesis by simp
  next
    case False
    have recent: "\<exists>f \<in> set facts. \<exists>i. covers J q st f i (i + 4) \<and> now - end_time J f \<le> 456 * day_ms"
      using am(1) a False j(1) by (intro bexI[of _ a] exI[of _ i]) simp_all
    have fy: "fiscal_year a = Inr (Some \<lparr>te_eps = eps_text (sum q {i..<j}), te_basis = Fy, te_period_end = ef_end a\<rparr>)"
      by (simp add: fiscal_year_def ap)
    have fallback: ?thesis if fb: "trailing_eps J facts now = fiscal_year a"
      and none: "\<And>y. latest_ytd J facts a = Some y \<Longrightarrow> find (same_period_before J y) facts = None"
    proof -
      have "\<nexists>k. (\<exists>f \<in> set facts. covers J q st f j k) \<and> (\<exists>f \<in> set facts. covers J q st f (j - 4) (k - 4))
          \<and> (\<forall>f \<in> set facts. end_time J f \<le> st k - day_ms)" if "regular_years st"
        using trailing_pair_found[OF assms(1) that assms(2) Some a(1)] none by fastforce
      moreover have "\<exists>f \<in> set facts. covers J q st f (j - 4) j" using am(1) a(1) j(1) by auto
      moreover have "4 \<le> j" "i = j - 4" using j(1) by simp_all
      ultimately show ?thesis
        unfolding fb fy using False ap(1) annual(2)
        using recent by (simp add: eps_roundtrip) (intro exI[of _ j], simp)
    qed
    show ?thesis
    proof (cases "latest_ytd J facts a")
      case None
      then show ?thesis using Some False ap(1) by (intro fallback) (simp_all add: trailing_eps_def holds_for_def)
    next
      case y: (Some y)
      show ?thesis
      proof (cases "find (same_period_before J y) facts")
        case None
        then show ?thesis using Some y False ap(1) by (intro fallback) (simp_all add: trailing_eps_def holds_for_def)
      next
        case p: (Some p)
        then have pf: "p \<in> set facts" "same_period_before J y p" by (auto simp: find_Some_iff)
        obtain k where k: "covers J q st y j k" "covers J q st p i (k - 4)" "j < k" "k \<le> j + 4"
            "\<forall>f \<in> set facts. end_time J f \<le> st k - day_ms"
          using trailing_parts[OF assms Some a(1) y pf] by metis
        have "trailing_eps J facts now = Inr (Some \<lparr>te_eps = eps_text (sum q {i..<j} + sum q {j..<k} - sum q {i..<k - 4}),
            te_basis = Ttm, te_period_end = ef_end y\<rparr>)"
          using Some y p False ap k(1,2) by (simp add: trailing_eps_def holds_for_def covers_def)
        moreover have "st j < st k" using k(3) calendar_mono[OF assms(1)] by simp
        moreover have "jd_parse J (ef_end y) = Some (st k - day_ms)" using k(1) by (simp add: covers_def)
        ultimately show ?thesis
          unfolding quarters_sum[OF j(1) k(3,4)] using recent False k(3,5) j(1) by (auto simp: eps_roundtrip intro!: exI[of _ k])
      qed
    qed
  qed
qed

text \<open>A filer with a year, a year to date and its counterpart, on an invented calendar.\<close>

definition demo_start :: "nat \<Rightarrow> time" where
  "demo_start k = int k * 91 * day_ms"

definition demo_dates :: js_runtime where
  "demo_dates = \<lparr>jd_parse = (\<lambda>s. map_of [(''a'', 0), (''c'', 90 * day_ms), (''d'', 363 * day_ms),
       (''e'', 364 * day_ms), (''f'', 454 * day_ms)] s),
     jd_iso = (\<lambda>t. []), jd_collation = map of_char\<rparr>"

definition demo_facts :: "eps_fact list" where
  "demo_facts = [\<lparr>ef_start = ''a'', ef_end = ''c'', ef_value = ''1.0000''\<rparr>, \<lparr>ef_start = ''a'', ef_end = ''d'', ef_value = ''4.0000''\<rparr>,
     \<lparr>ef_start = ''e'', ef_end = ''f'', ef_value = ''1.5000''\<rparr>]"

definition demo_earnings :: "nat \<Rightarrow> int" where
  "demo_earnings k = (if k = 4 then 15000 else 10000)"

lemma demo_calendar: "calendar demo_start"
  by (auto simp: calendar_def demo_start_def day_ms_def)

lemma demo_values: "eps_units ''1.0000'' = Inr 10000" "eps_units ''4.0000'' = Inr 40000" "eps_units ''1.5000'' = Inr 15000"
  by code_simp+

lemma demo_sums: "sum demo_earnings {0..<1} = 10000" "sum demo_earnings {0..<4} = 40000" "sum demo_earnings {4..<5} = 15000"
proof -
  have "{0..<1} = {0::nat}" "{0..<4} = {0, 1, 2, 3::nat}" "{4..<5} = {4::nat}" by auto
  then show "sum demo_earnings {0..<1} = 10000" "sum demo_earnings {0..<4} = 40000" "sum demo_earnings {4..<5} = 15000"
    by (simp_all add: demo_earnings_def)
qed

lemma demo_covers:
  "covers demo_dates demo_earnings demo_start \<lparr>ef_start = ''a'', ef_end = ''c'', ef_value = ''1.0000''\<rparr> 0 1"
  "covers demo_dates demo_earnings demo_start \<lparr>ef_start = ''a'', ef_end = ''d'', ef_value = ''4.0000''\<rparr> 0 4"
  "covers demo_dates demo_earnings demo_start \<lparr>ef_start = ''e'', ef_end = ''f'', ef_value = ''1.5000''\<rparr> 4 5"
  unfolding covers_def eps_fact.select_convs demo_values demo_sums
  by (simp_all add: demo_dates_def demo_start_def day_ms_def)

lemma demo_order:
  "\<forall>s \<in> {''c'', ''d'', ''f''}. \<forall>t \<in> {''c'', ''d'', ''f''}. s < t \<longleftrightarrow> the (jd_parse demo_dates s) < the (jd_parse demo_dates t)"
  "\<forall>s \<in> {''c'', ''d'', ''f''}. \<forall>t \<in> {''c'', ''d'', ''f''}.
     jd_collation demo_dates s < jd_collation demo_dates t \<longleftrightarrow> the (jd_parse demo_dates s) < the (jd_parse demo_dates t)"
  by (simp_all add: demo_dates_def day_ms_def)

lemma demo_filed: "complete_filings demo_dates demo_earnings demo_start demo_facts"
proof -
  let ?filed = "\<lambda>f. \<exists>i j. covers demo_dates demo_earnings demo_start f i j
      \<and> (\<exists>g \<in> set demo_facts. covers demo_dates demo_earnings demo_start g (4 * (i div 4)) j)
      \<and> (4 \<le> i \<longrightarrow> (\<exists>g \<in> set demo_facts. covers demo_dates demo_earnings demo_start g (4 * (i div 4) - 4) (4 * (i div 4))))"
  have "?filed f" if member: "f \<in> set demo_facts" for f
  proof -
    have three: "length demo_facts = 3" by (simp add: demo_facts_def)
    obtain n where n: "n < 3" "demo_facts ! n = f" using member unfolding in_set_conv_nth three by blast
    then consider "n = 0" | "n = 1" | "n = 2" by linarith
    then have "f = demo_facts ! 0 \<or> f = demo_facts ! 1 \<or> f = demo_facts ! 2" using n(2) by cases auto
    then consider "f = demo_facts ! 0" | "f = demo_facts ! 1" | "f = demo_facts ! 2" by blast
    then show ?thesis
    proof cases
      case 1
      with demo_covers show ?thesis by (intro exI[of _ 0] exI[of _ 1]) (simp add: demo_facts_def)
    next
      case 2
      with demo_covers show ?thesis by (intro exI[of _ 0] exI[of _ 4]) (simp add: demo_facts_def)
    next
      case 3
      with demo_covers show ?thesis by (intro exI[of _ 4] exI[of _ 5]) (simp add: demo_facts_def)
    qed
  qed
  moreover have "\<forall>f \<in> set demo_facts. ef_end f \<in> {''c'', ''d'', ''f''}" by (simp add: demo_facts_def)
  ultimately show ?thesis
    using demo_order unfolding complete_filings_def by (metis option.sel)
qed

theorem trailing_is_four_quarters_witness:
  "\<exists>t j. trailing_eps demo_dates demo_facts (500 * day_ms) = Inr (Some t) \<and> 4 \<le> j
    \<and> eps_units (te_eps t) = Inr (sum demo_earnings {j - 4..<j})"
proof -
  note r = trailing_is_four_quarters[OF demo_calendar demo_filed, of "500 * day_ms"]
  let ?year = "\<lparr>ef_start = ''a'', ef_end = ''d'', ef_value = ''4.0000''\<rparr>"
  have year: "?year \<in> set demo_facts" "covers demo_dates demo_earnings demo_start ?year 0 (0 + 4)"
    "end_time demo_dates ?year = 363 * day_ms"
    using demo_covers(2) by (simp_all add: demo_facts_def end_time_def demo_dates_def)
  have "trailing_eps demo_dates demo_facts (500 * day_ms) \<noteq> Inr None"
  proof
    assume "trailing_eps demo_dates demo_facts (500 * day_ms) = Inr None"
    with r have "\<forall>f \<in> set demo_facts. \<forall>i. covers demo_dates demo_earnings demo_start f i (i + 4)
        \<longrightarrow> 456 * day_ms < 500 * day_ms - end_time demo_dates f" by simp
    with year have "456 * day_ms < 500 * day_ms - 363 * day_ms" by metis
    then show False by (simp add: day_ms_def)
  qed
  with r show ?thesis by (auto split: sum.splits option.splits)
qed

section \<open>The other statistics\<close>

text \<open>The ratio shown is the exact ratio, rounded half to even once, to one decimal.\<close>

lemma price_to_earnings_exact:
  assumes "eps_units eps = Inr e" and "0 < e" and "0 < p"
  shows "price_to_earnings p eps = Inr (Some (fixed_text 1 (half_even (of_int (10 * p) / of_int e))))"
proof -
  have pe: "eps_units (px_to_string p) = Inr p" using eps_roundtrip[of p] by (simp add: eps_text_fixed px_to_string_def)
  define r where "r = half_even (of_int (10 * p) / of_int e)"
  have q: "(if (p * 10 smod e) * 2 > e \<or> (p * 10 smod e) * 2 = e \<and> (p * 10 sdiv e) smod 2 = 1 then p * 10 sdiv e + 1 else p * 10 sdiv e) = r"
    using truncated_half_even[of "p * 10" e] assms by (simp add: mult.commute r_def)
  have "0 \<le> 10 * p div e" using assms by (simp add: pos_imp_zdiv_nonneg_iff)
  then have pos: "0 \<le> r" using half_even_div[OF assms(2), of "10 * p"] unfolding r_def by auto
  have digits: "pad_start 2 (show_nat (nat r)) = show_nat (nat r div 10) @ pad_start 1 (show_nat (nat r mod 10))"
    using pad_show_nat[of 1 "nat r"] by (simp add: numeral_2_eq_2)
  have l: "length (pad_start 1 (show_nat (nat r mod 10))) = 1" using length_fraction[of 1 "nat r"] by simp
  have "price_to_earnings p eps = Inr (Some (fixed_text 1 r))"
    using assms(1,2) l pos unfolding price_to_earnings_def pe Let_def ebind_simps q digits
    by (simp add: q digits fixed_text_def Let_def split del: if_split)
  then show ?thesis unfolding r_def .
qed

text \<open>The 52-week range is a range: it holds the bars of the last 365 days and the last price.\<close>

lemma week_range_bounds:
  assumes "week_range since cs r = Inr (Some (high, low))"
  shows "(\<forall>c \<in> set cs. since \<le> cd_time c \<longrightarrow> (\<exists>h l. px_from_string (cd_high c) = Inr h \<and> px_from_string (cd_low c) = Inr l \<and> h \<le> high \<and> low \<le> l))
    \<and> (\<forall>h l. r = Some (h, l) \<longrightarrow> h \<le> high \<and> low \<le> l)"
  using assms
proof (induction cs arbitrary: r)
  case (Cons c cs)
  show ?case
  proof (cases "cd_time c < since")
    case True
    with Cons show ?thesis by simp
  next
    case False
    with Cons.prems obtain h l where hl: "px_from_string (cd_high c) = Inr h" "px_from_string (cd_low c) = Inr l"
        "week_range since cs (Some (case r of None \<Rightarrow> (h, l) | Some (a, b) \<Rightarrow> (px_max a h, px_min b l))) = Inr (Some (high, low))"
      by (auto simp: result_simps)
    from Cons.IH[OF hl(3)] hl(1,2) show ?thesis
      by (cases r) (auto simp: px_max_def px_min_def split: if_splits prod.splits)
  qed
qed simp

lemma fifty_two_weeks_bound:
  assumes "fifty_two_week_range candles now latest = Inr (Some (high, low))"
  shows "(\<forall>c \<in> set candles. now - 365 * day_ms \<le> cd_time c \<longrightarrow> (\<exists>h l. px_from_string (cd_high c) = Inr h
      \<and> px_from_string (cd_low c) = Inr l \<and> h \<le> high \<and> low \<le> l)) \<and> (\<forall>p. latest = Some p \<longrightarrow> low \<le> p \<and> p \<le> high)"
proof -
  obtain a b where w: "week_range (now - 365 * day_ms) candles None = Inr (Some (a, b))"
      "(high, low) = (case latest of None \<Rightarrow> (a, b) | Some p \<Rightarrow> (px_max a p, px_min b p))"
    using assms by (auto simp: fifty_two_week_range_def result_simps)
  then have "a \<le> high" "low \<le> b" "\<And>p. latest = Some p \<Longrightarrow> low \<le> p \<and> p \<le> high"
    by (auto simp: px_max_def px_min_def split: option.splits if_splits)
  note wide = this
  show ?thesis
  proof (intro conjI ballI impI allI)
    fix p assume "latest = Some p"
    then show "low \<le> p" "p \<le> high" using wide(3) by auto
  next
    fix c assume "c \<in> set candles" "now - 365 * day_ms \<le> cd_time c"
    then obtain h l where "px_from_string (cd_high c) = Inr h" "px_from_string (cd_low c) = Inr l" "h \<le> a" "b \<le> l"
      using week_range_bounds[OF w(1)] by metis
    with wide(1,2) show "\<exists>h l. px_from_string (cd_high c) = Inr h \<and> px_from_string (cd_low c) = Inr l \<and> h \<le> high \<and> low \<le> l"
      by (intro exI[of _ h] exI[of _ l]) simp
  qed
qed

lemma rounded_div_exact: "0 < m \<Longrightarrow> rounded_div (m * k) m = k"
proof -
  assume m: "0 < m"
  have "2 * (m * k) + m = m + k * (2 * m)" by (simp add: algebra_simps)
  then show ?thesis using m unfolding rounded_div_def by (simp only: div_mult_self1) simp
qed

text \<open>A thinned series keeps its first and its last point and takes its points in order.\<close>

lemma downsample_keeps_ends:
  assumes "downsample_series values n = Inr out" and "values \<noteq> []"
  shows "hd out = hd values \<and> last out = last values \<and> length out = min n (length values) \<and> set out \<subseteq> set values"
proof (cases "length values \<le> n")
  case True
  with assms show ?thesis by (auto simp: downsample_series_def split: if_splits)
next
  case False
  then have n: "2 \<le> n" and out: "out = map (\<lambda>i. values ! rounded_div (i * (length values - 1)) (n - 1)) [0..<n]"
    using assms(1) by (auto simp: downsample_series_def split: if_splits)
  let ?l = "length values - 1"
  have le: "rounded_div (i * ?l) (n - 1) \<le> ?l" if "i < n" for i
  proof -
    obtain m where m: "n = Suc m" "0 < m" using n by (cases n) auto
    have "i * ?l \<le> m * ?l" using that m by (intro mult_le_mono1) simp
    moreover have "(?l + 1) * (2 * m) = 2 * (m * ?l) + 2 * m" by (simp add: algebra_simps)
    ultimately have "2 * (i * ?l) + m < (?l + 1) * (2 * m)" using m(2) by linarith
    then have "2 * (i * ?l) + (n - 1) < (?l + 1) * (2 * (n - 1))" using m(1) by simp
    then show ?thesis unfolding rounded_div_def using n by (simp add: div_less_iff_less_mult less_Suc_eq_le[symmetric])
  qed
  have "hd out = values ! 0" using n out by (simp add: hd_map upt_rec rounded_div_def)
  moreover have "last out = values ! ?l"
  proof -
    have "last out = values ! rounded_div ((n - 1) * ?l) (n - 1)" using n unfolding out by (simp add: last_map)
    also have "rounded_div ((n - 1) * ?l) (n - 1) = ?l"
      using n by (intro rounded_div_exact) simp
    finally show ?thesis .
  qed
  moreover have "set out \<subseteq> set values"
  proof
    fix v assume "v \<in> set out"
    then obtain i where i: "i < n" "v = values ! rounded_div (i * ?l) (n - 1)" unfolding out by auto
    have "0 < length values" using assms(2) by simp
    then have "rounded_div (i * ?l) (n - 1) < length values" using le[OF i(1)] by linarith
    then show "v \<in> set values" unfolding i(2) by (rule nth_mem)
  qed
  ultimately show ?thesis using False assms(2) out by (simp add: hd_conv_nth last_conv_nth)
qed

end
