(* ===== verification/Ranking.thy ===== *)
theory Ranking
  imports Money Js_Case
begin

text \<open>
  The ranking by market value (\<^verbatim>\<open>src/core/discovery/ranking.ts\<close>): which companies are valued, which are
  rejected or missing, the order and the cut, and the refusal of a degraded snapshot. Prices are a map;
  a JavaScript \<open>Map\<close> that is iterated is an association list. The industry code of a filer is one request
  that may throw, given by its answer; the collation of \<open>localeCompare\<close> is an argument. The quotient
  \<open>priced / candidates\<close> of two counts is compared exactly: for counts below \<open>2\<^sup>5\<^sup>0\<close> the floating-point
  quotient is below \<open>0.8\<close> for the same counts.
\<close>

section \<open>The inputs\<close>

datatype share_basis = Cover | Weighted_average | No_basis

record share_count =
  sc_cik :: string
  sc_name :: string
  sc_tickers :: "string list"
  sc_shares :: "qty option"
  sc_as_of :: string
  sc_basis :: share_basis
  sc_float :: "money option"

datatype share_override =
    Override_shares (so_cik: string) (so_name: string) (so_symbol: string) (so_shares: string) (so_as_of: string)
  | Override_exclude (so_cik: string) (so_name: string) (so_as_of: string)

record ranked_company =
  rk_rank :: nat
  rk_cik :: string
  rk_symbol :: string
  rk_name :: string
  rk_shares :: qty
  rk_price :: px
  rk_cap :: money

record rank_input =
  ri_counts :: "share_count list"
  ri_eligible :: "string \<Rightarrow> bool"
  ri_prices :: "string \<rightharpoonup> px"
  ri_overrides :: "share_override list"
  ri_industry :: "string \<Rightarrow> string option result"
  ri_size :: nat

record rank_result =
  rr_ranked :: "ranked_company list"
  rr_rejected :: "(string \<times> string \<times> money \<times> money) list"
  rr_missing :: "(string \<times> string \<times> money) list"

definition excluded_sic :: "string list" where
  "excluded_sic = [''6221'', ''6722'', ''6726'']"

definition missing_float_alert :: money where
  "missing_float_alert = 50000000000 * 100"

section \<open>Depositary receipts\<close>

text \<open>
  \<open>/\bADSs?\b|\bADRs?\b|depositary/i\<close>: the word boundaries are those of ASCII letters, digits and the
  underscore. \<open>whole_word\<close> finds a word at the start of a text that is followed by a boundary.
\<close>

definition word_char :: "char \<Rightarrow> bool" where
  "word_char c \<longleftrightarrow> is_digit c \<or> c = CHR ''_''
     \<or> (of_char c \<ge> (65::nat) \<and> of_char c \<le> (90::nat)) \<or> (of_char c \<ge> (97::nat) \<and> of_char c \<le> (122::nat))"

fun strip_prefix :: "string \<Rightarrow> string \<Rightarrow> string option" where
  "strip_prefix [] s = Some s"
| "strip_prefix (p # ps) [] = None"
| "strip_prefix (p # ps) (c # cs) = (if p = c then strip_prefix ps cs else None)"

definition whole_word :: "string \<Rightarrow> string \<Rightarrow> bool" where
  "whole_word w s = (case strip_prefix w s of None \<Rightarrow> False | Some [] \<Rightarrow> True | Some (c # _) \<Rightarrow> \<not> word_char c)"

fun depositary_in :: "bool \<Rightarrow> string \<Rightarrow> bool" where
  "depositary_in after_word [] = False"
| "depositary_in after_word (c # cs) =
     (strip_prefix ''depositary'' (c # cs) \<noteq> None
      \<or> (\<not> after_word \<and> list_ex (\<lambda>w. whole_word w (c # cs)) [''ads'', ''adss'', ''adr'', ''adrs''])
      \<or> depositary_in (word_char c) cs)"

definition is_depositary_receipt :: "string \<Rightarrow> bool" where
  "is_depositary_receipt name = depositary_in False (to_lower name)"

section \<open>The ranking\<close>

definition within_float_band :: "decimal_lib \<Rightarrow> money \<Rightarrow> money \<Rightarrow> bool" where
  "within_float_band D cap flt =
     (if flt = 0 \<or> money_is_negative flt then False
      else let ratio = dec_div D (usd cap) (usd flt) in 1/5 \<le> ratio \<and> ratio \<le> 25)"

text \<open>The \<open>Map\<close> of counts, with a row without data for each override the bulk data omits.\<close>

definition count_map :: "share_count list \<Rightarrow> (string \<times> share_count) list" where
  "count_map counts = fold (\<lambda>sc. AList.update (sc_cik sc) sc) counts []"

definition with_overrides :: "share_override list \<Rightarrow> (string \<times> share_count) list \<Rightarrow> (string \<times> share_count) list" where
  "with_overrides os m =
     fold (\<lambda>o1 m. if map_of m (so_cik o1) = None
                  then AList.update (so_cik o1) \<lparr>sc_cik = so_cik o1, sc_name = so_name o1, sc_tickers = [],
                         sc_shares = None, sc_as_of = so_as_of o1, sc_basis = No_basis, sc_float = None\<rparr> m
                  else m) os m"

definition override_of :: "share_override list \<Rightarrow> string \<Rightarrow> share_override option" where
  "override_of os cik = find (\<lambda>o1. so_cik o1 = cik) (rev os)"

text \<open>One turn of the loop: a filer is valued, rejected, reported missing or passed over.\<close>

datatype valuation = Passed | Missing | Rejected string money money | Valued ranked_company

definition no_shares :: "share_count \<Rightarrow> valuation" where
  "no_shares sc = (case sc_float sc of
       None \<Rightarrow> Passed | Some f \<Rightarrow> if missing_float_alert \<le> f then Missing else Passed)"

definition valued_at :: "decimal_lib \<Rightarrow> rank_input \<Rightarrow> share_count \<Rightarrow> bool \<Rightarrow> string option \<Rightarrow> qty option \<Rightarrow> valuation" where
  "valued_at D inp sc overridden symbol shares =
     (case shares of
        None \<Rightarrow> no_shares sc
      | Some n \<Rightarrow>
          if n = 0 then no_shares sc
          else (case symbol of
              None \<Rightarrow> Passed
            | Some s \<Rightarrow>
                if s = [] \<or> \<not> ri_eligible inp s then Passed
                else (case ri_prices inp s of
                    None \<Rightarrow> Passed
                  | Some p \<Rightarrow>
                      let cap = notional D p n;
                          row = Valued \<lparr>rk_rank = 0, rk_cik = sc_cik sc, rk_symbol = s, rk_name = sc_name sc,
                                        rk_shares = n, rk_price = p, rk_cap = cap\<rparr>
                      in case sc_float sc of
                           None \<Rightarrow> row
                         | Some f \<Rightarrow> if \<not> overridden \<and> \<not> within_float_band D cap f then Rejected s cap f else row)))"

definition value_filer :: "decimal_lib \<Rightarrow> rank_input \<Rightarrow> share_count \<Rightarrow> valuation result" where
  "value_filer D inp sc =
     (case override_of (ri_overrides inp) (sc_cik sc) of
        Some (Override_exclude cik name as_of) \<Rightarrow> Inr Passed
      | Some (Override_shares cik name symbol shares as_of) \<Rightarrow>
          ebind (qty_of_string shares) (\<lambda>n. Inr (valued_at D inp sc True (Some symbol) (Some n)))
      | None \<Rightarrow> Inr (valued_at D inp sc False
          (find (\<lambda>t. ri_eligible inp t \<and> ri_prices inp t \<noteq> None) (sc_tickers sc)) (sc_shares sc)))"

fun value_all :: "decimal_lib \<Rightarrow> rank_input \<Rightarrow> share_count list \<Rightarrow> (share_count \<times> valuation) list result" where
  "value_all D inp [] = Inr []"
| "value_all D inp (sc # scs) =
     ebind (value_filer D inp sc) (\<lambda>v. ebind (value_all D inp scs) (\<lambda>vs. Inr ((sc, v) # vs)))"

fun candidate_of :: "valuation \<Rightarrow> ranked_company option" where
  "candidate_of (Valued c) = Some c"
| "candidate_of v = None"

fun rejected_of :: "share_count \<times> valuation \<Rightarrow> (string \<times> string \<times> money \<times> money) option" where
  "rejected_of (sc, Rejected s cap f) = Some (s, sc_name sc, cap, f)"
| "rejected_of (sc, v) = None"

fun missing_of :: "share_count \<times> valuation \<Rightarrow> (string \<times> string \<times> money) option" where
  "missing_of (sc, Missing) = map_option (\<lambda>f. (sc_cik sc, sc_name sc, f)) (sc_float sc)"
| "missing_of (sc, v) = None"

text \<open>The comparator: the larger value first, then the symbol; the sort is stable.\<close>

definition by_cap :: "(string \<Rightarrow> nat list) \<Rightarrow> ranked_company list \<Rightarrow> ranked_company list" where
  "by_cap collation = sort_key (\<lambda>c. (- rk_cap c, collation (rk_symbol c)))"

definition excluded_industry :: "string option \<Rightarrow> bool" where
  "excluded_industry code = (case code of None \<Rightarrow> False | Some s \<Rightarrow> s \<noteq> [] \<and> s \<in> set excluded_sic)"

fun head_of_list :: "rank_input \<Rightarrow> ranked_company list \<Rightarrow> ranked_company list \<Rightarrow> ranked_company list result" where
  "head_of_list inp [] out = Inr out"
| "head_of_list inp (c # cs) out =
     (if length out \<ge> ri_size inp then Inr out
      else case ri_industry inp (rk_cik c) of
          Inl e \<Rightarrow> Inl e
        | Inr code \<Rightarrow>
            if excluded_industry code then head_of_list inp cs out
            else head_of_list inp cs (out @ [c\<lparr>rk_rank := length out + 1\<rparr>]))"

definition rank_by_market_cap :: "decimal_lib \<Rightarrow> (string \<Rightarrow> nat list) \<Rightarrow> rank_input \<Rightarrow> rank_result result" where
  "rank_by_market_cap D collation inp =
     ebind (value_all D inp (map snd (with_overrides (ri_overrides inp) (count_map (ri_counts inp))))) (\<lambda>vs.
     ebind (head_of_list inp (by_cap collation (List.map_filter (candidate_of \<circ> snd) vs)) []) (\<lambda>ranked.
       Inr \<lparr>rr_ranked = ranked, rr_rejected = List.map_filter rejected_of vs, rr_missing = List.map_filter missing_of vs\<rparr>))"

section \<open>Refusing a degraded snapshot\<close>

datatype snapshot_verdict =
    Snapshot_ok
  | Too_few nat
  | Unpriced nat nat
  | Top_changed nat

definition validate_snapshot :: "string list option \<Rightarrow> string list \<Rightarrow> nat \<Rightarrow> nat \<Rightarrow> nat \<Rightarrow> snapshot_verdict" where
  "validate_snapshot previous fresh candidates priced wanted =
     (let kept = (case previous of None \<Rightarrow> 0
            | Some old \<Rightarrow> length (filter (\<lambda>s. s \<in> set (take 10 old)) (take 10 fresh)))
      in if length fresh < wanted then Too_few (length fresh)
         else if candidates = 0 \<or> 5 * priced < 4 * candidates then Unpriced priced candidates
         else case previous of
             None \<Rightarrow> Snapshot_ok
           | Some old \<Rightarrow> if length old \<ge> 10 \<and> kept < 7 then Top_changed kept else Snapshot_ok)"

section \<open>What the ranking is\<close>

fun renumber :: "nat \<Rightarrow> ranked_company list \<Rightarrow> ranked_company list" where
  "renumber k [] = []"
| "renumber k (c # cs) = c\<lparr>rk_rank := k + 1\<rparr> # renumber (k + 1) cs"

definition kept :: "rank_input \<Rightarrow> ranked_company \<Rightarrow> bool" where
  "kept inp c \<longleftrightarrow> (case ri_industry inp (rk_cik c) of Inl e \<Rightarrow> False | Inr code \<Rightarrow> \<not> excluded_industry code)"

lemma renumber_simps [simp]:
  "length (renumber k cs) = length cs"
  "map rk_cik (renumber k cs) = map rk_cik cs"
  "map rk_cap (renumber k cs) = map rk_cap cs"
  by (induction cs arbitrary: k) simp_all

lemma renumber_ranks: "map rk_rank (renumber k cs) = [Suc k..<Suc (k + length cs)]"
  by (induction cs arbitrary: k) (simp_all add: upt_rec)

lemma renumber_member:
  "r \<in> set (renumber k cs) \<Longrightarrow> \<exists>c \<in> set cs. \<exists>i. r = c\<lparr>rk_rank := i\<rparr>"
  by (induction cs arbitrary: k) auto

lemma renumber_append: "renumber k (xs @ ys) = renumber k xs @ renumber (k + length xs) ys"
  by (induction xs arbitrary: k) simp_all

text \<open>The loop reads a prefix of the candidates, keeps what is no fund, and stops when it has enough.\<close>

lemma head_of_list_spec:
  assumes "head_of_list inp cs out = Inr r" and "length out \<le> ri_size inp"
  shows "\<exists>pre post. cs = pre @ post \<and> r = out @ renumber (length out) (filter (kept inp) pre)
    \<and> (post = [] \<or> ri_size inp \<le> length r) \<and> length r \<le> ri_size inp
    \<and> (\<forall>c \<in> set pre. \<exists>code. ri_industry inp (rk_cik c) = Inr code)"
  using assms
proof (induction inp cs out rule: head_of_list.induct)
  case (2 inp c cs out)
  show ?case
  proof (cases "ri_size inp \<le> length out")
    case True
    with 2(3,4) show ?thesis by (intro exI[of _ "[]"] exI[of _ "c # cs"]) simp
  next
    case False
    with 2(3) obtain code where code: "ri_industry inp (rk_cik c) = Inr code" by (cases "ri_industry inp (rk_cik c)") auto
    show ?thesis
    proof (cases "excluded_industry code")
      case True
      with 2(3) False code have "head_of_list inp cs out = Inr r" by simp
      from 2(1)[OF False code True this 2(4)] obtain pre post where
        "cs = pre @ post" "r = out @ renumber (length out) (filter (kept inp) pre)"
        "post = [] \<or> ri_size inp \<le> length r" "length r \<le> ri_size inp"
        "\<forall>c \<in> set pre. \<exists>code. ri_industry inp (rk_cik c) = Inr code" by blast
      moreover have "\<not> kept inp c" using code True by (simp add: kept_def)
      ultimately show ?thesis using code by (intro exI[of _ "c # pre"] exI[of _ post]) auto
    next
      case not_excluded: False
      with 2(3) False code have "head_of_list inp cs (out @ [c\<lparr>rk_rank := length out + 1\<rparr>]) = Inr r" by simp
      moreover have "length (out @ [c\<lparr>rk_rank := length out + 1\<rparr>]) \<le> ri_size inp" using False by simp
      ultimately obtain pre post where
        "cs = pre @ post" "r = (out @ [c\<lparr>rk_rank := length out + 1\<rparr>])
            @ renumber (length (out @ [c\<lparr>rk_rank := length out + 1\<rparr>])) (filter (kept inp) pre)"
        "post = [] \<or> ri_size inp \<le> length r" "length r \<le> ri_size inp"
        "\<forall>c \<in> set pre. \<exists>code. ri_industry inp (rk_cik c) = Inr code"
        using 2(2)[OF False code not_excluded] by blast
      moreover have "kept inp c" using code not_excluded by (simp add: kept_def)
      ultimately show ?thesis using code by (intro exI[of _ "c # pre"] exI[of _ post]) auto
    qed
  qed
qed (intro exI[of _ "[]"], simp)

lemma value_all_spec:
  "value_all D inp scs = Inr vs \<Longrightarrow> map fst vs = scs \<and> (\<forall>(sc, v) \<in> set vs. value_filer D inp sc = Inr v)"
proof (induction scs arbitrary: vs)
  case (Cons sc scs)
  then obtain v ws where "value_filer D inp sc = Inr v" "value_all D inp scs = Inr ws" "vs = (sc, v) # ws"
    by (auto simp: result_simps)
  with Cons.IH show ?case by auto
qed simp

definition keyed :: "(string \<times> share_count) list \<Rightarrow> bool" where
  "keyed m \<longleftrightarrow> distinct (map fst m) \<and> (\<forall>(k, sc) \<in> set m. k = sc_cik sc)"

lemma keyed_update: "keyed m \<Longrightarrow> k = sc_cik sc \<Longrightarrow> keyed (AList.update k sc m)"
  unfolding keyed_def using set_alist_update[of k sc m] by (auto simp: distinct_update)

lemma count_map_keyed: "keyed (count_map counts)"
proof -
  have "keyed m \<Longrightarrow> keyed (fold (\<lambda>sc. AList.update (sc_cik sc) sc) counts m)" for m
    by (induction counts arbitrary: m) (simp_all add: keyed_update)
  from this[of "[]"] show ?thesis by (simp add: count_map_def keyed_def[of "[]"])
qed

lemma with_overrides_keyed: "keyed m \<Longrightarrow> keyed (with_overrides os m)"
proof (induction os arbitrary: m)
  case (Cons o1 os)
  then show ?case by (simp add: with_overrides_def keyed_update)
qed (simp add: with_overrides_def)

lemma keyed_filers: "keyed m \<Longrightarrow> distinct (map sc_cik (map snd m))"
proof -
  assume "keyed m"
  then have "map sc_cik (map snd m) = map fst m" unfolding keyed_def map_map by (intro map_cong) auto
  with \<open>keyed m\<close> show ?thesis unfolding keyed_def by metis
qed

lemma valued_sound:
  assumes "value_filer D inp sc = Inr (Valued c)"
  shows "rk_cik c = sc_cik sc" and "ri_eligible inp (rk_symbol c)" and "ri_prices inp (rk_symbol c) = Some (rk_price c)"
    and "rk_cap c = notional D (rk_price c) (rk_shares c)" and "0 < rk_shares c"
  using assms
  by (auto simp: value_filer_def valued_at_def no_shares_def Let_def result_simps
      split: option.splits share_override.splits if_splits)

lemma candidates_distinct:
  assumes "distinct (map sc_cik (map fst vs))" and "\<forall>(sc, v) \<in> set vs. value_filer D inp sc = Inr v"
  shows "distinct (map rk_cik (List.map_filter (candidate_of \<circ> snd) vs))"
  using assms
proof (induction vs)
  case (Cons x vs)
  obtain sc v where x: "x = (sc, v)" by (rule prod.exhaust)
  show ?case
  proof (cases "candidate_of v")
    case None
    with Cons x show ?thesis by (simp add: List.map_filter_simps)
  next
    case (Some c)
    then have v: "v = Valued c" by (cases v) auto
    have "rk_cik c \<noteq> rk_cik c'" if c': "c' \<in> set (List.map_filter (candidate_of \<circ> snd) vs)" for c'
    proof -
      from c' obtain y where y: "y \<in> set vs" "candidate_of (snd y) = Some c'" by (auto simp: List.map_filter_def)
      then have "snd y = Valued c'" by (cases "snd y") auto
      with Cons.prems(2) y(1) have "value_filer D inp (fst y) = Inr (Valued c')" by (cases y) auto
      then have "rk_cik c' = sc_cik (fst y)" by (rule valued_sound(1))
      moreover have "rk_cik c = sc_cik sc" using Cons.prems(2) x v by (auto dest: valued_sound(1))
      moreover have "sc_cik sc \<noteq> sc_cik (fst y)" using Cons.prems(1) x y(1) by auto
      ultimately show ?thesis by simp
    qed
    then show ?thesis using Cons Some x by (auto simp: List.map_filter_simps comp_def)
  qed
qed (simp add: List.map_filter_simps)

lemma by_cap_sorted: "sorted_wrt (\<lambda>a b. rk_cap b \<le> rk_cap a) (by_cap collation cs)"
proof -
  have "sorted (map (\<lambda>c. (- rk_cap c, collation (rk_symbol c))) (by_cap collation cs))" by (simp add: by_cap_def)
  then show ?thesis
    unfolding sorted_map by (rule sorted_wrt_mono_rel[rotated]) (auto simp: less_eq_prod_def)
qed

text \<open>The filers that are looked at: one per key, with the overrides the bulk data omits.\<close>

definition filers :: "rank_input \<Rightarrow> share_count list" where
  "filers inp = map snd (with_overrides (ri_overrides inp) (count_map (ri_counts inp)))"

text \<open>A listed company is a filer's value with its rank.\<close>

definition listed_as :: "decimal_lib \<Rightarrow> rank_input \<Rightarrow> ranked_company \<Rightarrow> bool" where
  "listed_as D inp r \<longleftrightarrow> ri_eligible inp (rk_symbol r) \<and> ri_prices inp (rk_symbol r) = Some (rk_price r)
     \<and> rk_cap r = notional D (rk_price r) (rk_shares r) \<and> 0 < rk_shares r
     \<and> (\<exists>code. ri_industry inp (rk_cik r) = Inr code \<and> \<not> excluded_industry code)
     \<and> rk_cik r \<in> sc_cik ` set (filers inp)"

lemma ranking_shape:
  assumes "rank_by_market_cap D collation inp = Inr res"
  obtains vs pre post where "map fst vs = filers inp" "\<forall>(sc, v) \<in> set vs. value_filer D inp sc = Inr v"
    and "by_cap collation (List.map_filter (candidate_of \<circ> snd) vs) = pre @ post"
    and "rr_ranked res = renumber 0 (filter (kept inp) pre)"
    and "post = [] \<or> ri_size inp \<le> length (rr_ranked res)" and "length (rr_ranked res) \<le> ri_size inp"
    and "\<forall>c \<in> set pre. \<exists>code. ri_industry inp (rk_cik c) = Inr code"
proof -
  obtain vs ranked where vs: "value_all D inp (filers inp) = Inr vs"
    and r: "head_of_list inp (by_cap collation (List.map_filter (candidate_of \<circ> snd) vs)) [] = Inr ranked"
    and res: "rr_ranked res = ranked"
    using assms by (auto simp: rank_by_market_cap_def filers_def result_simps)
  from head_of_list_spec[OF r] obtain pre post where
    "by_cap collation (List.map_filter (candidate_of \<circ> snd) vs) = pre @ post"
    "ranked = renumber 0 (filter (kept inp) pre)" "post = [] \<or> ri_size inp \<le> length ranked"
    "length ranked \<le> ri_size inp" "\<forall>c \<in> set pre. \<exists>code. ri_industry inp (rk_cik c) = Inr code"
    unfolding list.size append_Nil by blast
  with value_all_spec[OF vs] res show thesis by (intro that[of vs pre post]) simp_all
qed

lemma ranking_spec:
  assumes "rank_by_market_cap D collation inp = Inr res"
  shows "map rk_rank (rr_ranked res) = [1..<Suc (length (rr_ranked res))]
    \<and> length (rr_ranked res) \<le> ri_size inp
    \<and> sorted_wrt (\<lambda>a b. rk_cap b \<le> rk_cap a) (rr_ranked res)
    \<and> distinct (map rk_cik (rr_ranked res))
    \<and> list_all (listed_as D inp) (rr_ranked res)
    \<and> (\<forall>sc \<in> set (filers inp). \<forall>c. value_filer D inp sc = Inr (Valued c) \<longrightarrow>
         rk_cik c \<in> rk_cik ` set (rr_ranked res) \<or> \<not> kept inp c
         \<or> (length (rr_ranked res) = ri_size inp \<and> list_all (\<lambda>r. rk_cap c \<le> rk_cap r) (rr_ranked res)))"
proof -
  obtain vs pre post where vs: "map fst vs = filers inp" "\<forall>(sc, v) \<in> set vs. value_filer D inp sc = Inr v"
    and cands: "by_cap collation (List.map_filter (candidate_of \<circ> snd) vs) = pre @ post"
    and ranked: "rr_ranked res = renumber 0 (filter (kept inp) pre)"
    and stop: "post = [] \<or> ri_size inp \<le> length (rr_ranked res)" "length (rr_ranked res) \<le> ri_size inp"
    by (rule ranking_shape[OF assms]) (rule that; assumption)
  let ?cs = "List.map_filter (candidate_of \<circ> snd) vs"
  have set_cs: "set ?cs = set pre \<union> set post"
    using arg_cong[OF cands, of set] by (simp add: by_cap_def)
  have valued: "\<exists>sc \<in> set (filers inp). value_filer D inp sc = Inr (Valued c)" if "c \<in> set ?cs" for c
  proof -
    from that obtain y where y: "y \<in> set vs" "candidate_of (snd y) = Some c" by (auto simp: List.map_filter_def)
    then have "snd y = Valued c" by (cases "snd y") auto
    then obtain sc where sc: "y = (sc, Valued c)" by (metis prod.collapse)
    have "sc \<in> set (map fst vs)" using y(1) sc by force
    moreover have "value_filer D inp sc = Inr (Valued c)" using vs(2) y(1) sc by auto
    ultimately show ?thesis using vs(1) by auto
  qed
  have sorted: "sorted_wrt (\<lambda>a b. rk_cap b \<le> rk_cap a) (pre @ post)" using by_cap_sorted cands by metis
  have caps: "sorted_wrt (\<lambda>a b. rk_cap b \<le> rk_cap a) (rr_ranked res)"
  proof -
    have "sorted_wrt (\<lambda>a b. b \<le> a) (map rk_cap (filter (kept inp) pre))"
      using sorted by (auto simp: sorted_wrt_map sorted_wrt_append intro: sorted_wrt_filter)
    then have "sorted_wrt (\<lambda>a b. b \<le> a) (map rk_cap (rr_ranked res))" unfolding ranked by simp
    then show ?thesis by (simp add: sorted_wrt_map)
  qed
  have distinct: "distinct (map rk_cik (rr_ranked res))"
  proof -
    have "distinct (map sc_cik (map fst vs))"
      using keyed_filers[OF with_overrides_keyed[OF count_map_keyed]] vs(1) unfolding filers_def by simp
    from candidates_distinct[OF this vs(2)] have "distinct (map rk_cik ?cs)" .
    then have "distinct (map rk_cik (pre @ post))"
      unfolding cands[symmetric] by_cap_def by (simp add: distinct_map)
    then show ?thesis unfolding ranked by (simp add: distinct_map_filter)
  qed
  have "list_all (listed_as D inp) (rr_ranked res)"
    unfolding list_all_iff
  proof
    fix r assume "r \<in> set (rr_ranked res)"
    then obtain c i where c: "c \<in> set pre" "kept inp c" "r = c\<lparr>rk_rank := i\<rparr>"
      unfolding ranked using renumber_member by fastforce
    with valued set_cs obtain sc where sc: "sc \<in> set (filers inp)" "value_filer D inp sc = Inr (Valued c)" by blast
    with valued_sound[OF sc(2)] c show "listed_as D inp r"
      by (auto simp: listed_as_def kept_def split: sum.splits)
  qed
  moreover have "rk_cik c \<in> rk_cik ` set (rr_ranked res) \<or> \<not> kept inp c
         \<or> (length (rr_ranked res) = ri_size inp \<and> list_all (\<lambda>r. rk_cap c \<le> rk_cap r) (rr_ranked res))"
    if sc: "sc \<in> set (filers inp)" "value_filer D inp sc = Inr (Valued c)" for sc c
  proof -
    obtain v where "(sc, v) \<in> set vs" using sc(1) vs(1) by (metis (no_types) imageE list.set_map prod.collapse)
    with vs(2) sc(2) have "(sc, Valued c) \<in> set vs" by auto
    then have "c \<in> set ?cs" by (force simp: List.map_filter_def)
    with set_cs consider "c \<in> set pre" | "c \<in> set post" by blast
    then show ?thesis
    proof cases
      case 1
      have "rk_cik c \<in> set (map rk_cik (rr_ranked res))" if "kept inp c"
        unfolding ranked renumber_simps using 1 that by simp
      then show ?thesis by auto
    next
      case 2
      then have "length (rr_ranked res) = ri_size inp" using stop by auto
      moreover have "rk_cap c \<le> k" if "k \<in> set (map rk_cap (rr_ranked res))" for k
        using that 2 sorted unfolding ranked renumber_simps by (auto simp: sorted_wrt_append)
      ultimately show ?thesis by (auto simp: list_all_iff)
    qed
  qed
  ultimately show ?thesis using caps distinct stop(2) renumber_ranks[of 0 "filter (kept inp) pre"]
    unfolding ranked by simp
qed

section \<open>The ranking by a plain specification\<close>

text \<open>
  The row of a filer: the last one of the counts, or one without data if only an override names it. A
  company: what a filer is worth, at the price of its symbol, by the last override or by its own figures
  when they pass the float band.
\<close>

definition row_of :: "rank_input \<Rightarrow> string \<Rightarrow> share_count option" where
  "row_of inp cik =
     (case find (\<lambda>sc. sc_cik sc = cik) (rev (ri_counts inp)) of
        Some sc \<Rightarrow> Some sc
      | None \<Rightarrow> map_option (\<lambda>o1. \<lparr>sc_cik = so_cik o1, sc_name = so_name o1, sc_tickers = [], sc_shares = None,
            sc_as_of = so_as_of o1, sc_basis = No_basis, sc_float = None\<rparr>)
          (find (\<lambda>o1. so_cik o1 = cik) (ri_overrides inp)))"

definition company_of :: "decimal_lib \<Rightarrow> rank_input \<Rightarrow> share_count \<Rightarrow> ranked_company \<Rightarrow> bool" where
  "company_of D inp sc c \<longleftrightarrow> (\<exists>s n p. c = \<lparr>rk_rank = 0, rk_cik = sc_cik sc, rk_symbol = s, rk_name = sc_name sc,
        rk_shares = n, rk_price = p, rk_cap = notional D p n\<rparr>
     \<and> 0 < n \<and> s \<noteq> [] \<and> ri_eligible inp s \<and> ri_prices inp s = Some p
     \<and> (case find (\<lambda>o1. so_cik o1 = sc_cik sc) (rev (ri_overrides inp)) of
          None \<Rightarrow> sc_shares sc = Some n \<and> find (\<lambda>t. ri_eligible inp t \<and> ri_prices inp t \<noteq> None) (sc_tickers sc) = Some s
            \<and> (case sc_float sc of None \<Rightarrow> True
               | Some f \<Rightarrow> 0 < f \<and> 1/5 \<le> dec_div D (usd (notional D p n)) (usd f)
                   \<and> dec_div D (usd (notional D p n)) (usd f) \<le> 25)
        | Some (Override_shares cik name shown shares as_of) \<Rightarrow> s = shown \<and> qty_of_string shares = Inr n
        | Some (Override_exclude cik name as_of) \<Rightarrow> False))"

definition is_fund :: "rank_input \<Rightarrow> string \<Rightarrow> bool" where
  "is_fund inp cik \<longleftrightarrow> (\<exists>s. ri_industry inp cik = Inr (Some s) \<and> s \<in> {''6221'', ''6722'', ''6726''})"

definition precedes :: "(string \<Rightarrow> nat list) \<Rightarrow> ranked_company \<Rightarrow> ranked_company \<Rightarrow> bool" where
  "precedes collation a b \<longleftrightarrow> rk_cap b < rk_cap a
     \<or> rk_cap a = rk_cap b \<and> collation (rk_symbol a) \<le> collation (rk_symbol b)"

lemma valued_at_company:
  "valued_at D inp sc overridden symbol shares = Valued c \<longleftrightarrow> (\<exists>s n p. shares = Some n \<and> symbol = Some s
     \<and> c = \<lparr>rk_rank = 0, rk_cik = sc_cik sc, rk_symbol = s, rk_name = sc_name sc, rk_shares = n, rk_price = p,
            rk_cap = notional D p n\<rparr>
     \<and> 0 < n \<and> s \<noteq> [] \<and> ri_eligible inp s \<and> ri_prices inp s = Some p
     \<and> (overridden \<or> (case sc_float sc of None \<Rightarrow> True | Some f \<Rightarrow> within_float_band D (notional D p n) f)))"
proof (cases "shares = None \<or> shares = Some 0 \<or> symbol = None")
  case True
  then show ?thesis by (auto simp: valued_at_def no_shares_def split: option.splits)
next
  case False
  then obtain n s where ns: "shares = Some n" "0 < n" "symbol = Some s" by (cases shares; cases symbol) auto
  show ?thesis
  proof (cases "s = [] \<or> \<not> ri_eligible inp s \<or> ri_prices inp s = None")
    case True
    with ns show ?thesis by (auto simp: valued_at_def split: option.splits)
  next
    case False
    then obtain p where "s \<noteq> []" "ri_eligible inp s" "ri_prices inp s = Some p" by auto
    with ns show ?thesis by (cases "sc_float sc") (auto simp: valued_at_def Let_def)
  qed
qed

lemma float_band: "within_float_band D cap f \<longleftrightarrow>
    0 < f \<and> 1/5 \<le> dec_div D (usd cap) (usd f) \<and> dec_div D (usd cap) (usd f) \<le> 25"
  by (auto simp: within_float_band_def money_is_negative_def Let_def)

lemma valued_company: "value_filer D inp sc = Inr (Valued c) \<longleftrightarrow> company_of D inp sc c"
proof (cases "override_of (ri_overrides inp) (sc_cik sc)")
  case None
  then have o: "find (\<lambda>o1. so_cik o1 = sc_cik sc) (rev (ri_overrides inp)) = None" by (simp only: override_of_def)
  show ?thesis unfolding company_of_def value_filer_def None o option.case float_band[symmetric]
      sum.inject valued_at_company by blast
next
  case (Some o1)
  then have o: "find (\<lambda>o1. so_cik o1 = sc_cik sc) (rev (ri_overrides inp)) = Some o1" by (simp only: override_of_def)
  show ?thesis
  proof (cases o1)
    case (Override_shares cik name shown shares as_of)
    show ?thesis
      unfolding company_of_def value_filer_def Some o option.case Override_shares share_override.case ebind_eq_Inr
        sum.inject valued_at_company by auto
  qed (simp add: company_of_def value_filer_def Some o)
qed

lemma map_of_count_map: "map_of (count_map counts) k = find (\<lambda>sc. sc_cik sc = k) (rev counts)"
proof -
  have "map_of (fold (\<lambda>sc. AList.update (sc_cik sc) sc) counts m) k
      = (case find (\<lambda>sc. sc_cik sc = k) (rev counts) of Some sc \<Rightarrow> Some sc | None \<Rightarrow> map_of m k)" for m
    by (induction counts arbitrary: m) (auto simp: find_append update_conv' split: option.splits)
  from this[of "[]"] show ?thesis by (simp add: count_map_def option.case_eq_if)
qed

lemma map_of_with_overrides:
  "map_of (with_overrides os m) k = (case map_of m k of Some sc \<Rightarrow> Some sc
     | None \<Rightarrow> map_option (\<lambda>o1. \<lparr>sc_cik = so_cik o1, sc_name = so_name o1, sc_tickers = [], sc_shares = None,
            sc_as_of = so_as_of o1, sc_basis = No_basis, sc_float = None\<rparr>) (find (\<lambda>o1. so_cik o1 = k) os))"
proof (induction os arbitrary: m)
  case (Cons o1 os)
  have "with_overrides (o1 # os) m = with_overrides os (if map_of m (so_cik o1) = None
      then AList.update (so_cik o1) \<lparr>sc_cik = so_cik o1, sc_name = so_name o1, sc_tickers = [],
        sc_shares = None, sc_as_of = so_as_of o1, sc_basis = No_basis, sc_float = None\<rparr> m else m)"
    by (simp add: with_overrides_def)
  then show ?case by (auto simp: Cons update_conv' split: option.splits)
qed (simp add: with_overrides_def option.case_eq_if)

lemma filer_rows: "sc \<in> set (filers inp) \<longleftrightarrow> row_of inp (sc_cik sc) = Some sc"
proof -
  let ?m = "with_overrides (ri_overrides inp) (count_map (ri_counts inp))"
  have k: "keyed ?m" by (rule with_overrides_keyed[OF count_map_keyed])
  have "map_of ?m (sc_cik sc) = row_of inp (sc_cik sc)"
    by (simp add: map_of_with_overrides map_of_count_map row_of_def)
  moreover have "sc \<in> set (filers inp) \<longleftrightarrow> (sc_cik sc, sc) \<in> set ?m"
    using k by (force simp: filers_def keyed_def)
  moreover have "map_of ?m (sc_cik sc) = Some sc \<longleftrightarrow> (sc_cik sc, sc) \<in> set ?m"
    by (rule map_of_eq_Some_iff) (use k in \<open>simp add: keyed_def\<close>)
  ultimately show ?thesis by simp
qed

lemma by_cap_precedes: "sorted_wrt (precedes collation) (by_cap collation cs)"
proof -
  have "sorted (map (\<lambda>c. (- rk_cap c, collation (rk_symbol c))) (by_cap collation cs))" by (simp add: by_cap_def)
  then show ?thesis
    unfolding sorted_map by (rule sorted_wrt_mono_rel[rotated]) (auto simp: less_eq_prod_def precedes_def)
qed

lemma candidates_are_companies:
  assumes "map fst vs = filers inp" "\<forall>(sc, v) \<in> set vs. value_filer D inp sc = Inr v"
  shows "c \<in> set (List.map_filter (candidate_of \<circ> snd) vs) \<longleftrightarrow> (\<exists>sc. row_of inp (sc_cik sc) = Some sc \<and> company_of D inp sc c)"
proof
  assume "c \<in> set (List.map_filter (candidate_of \<circ> snd) vs)"
  then obtain y where y: "y \<in> set vs" "candidate_of (snd y) = Some c" by (auto simp: List.map_filter_def)
  then have "snd y = Valued c" by (cases "snd y") auto
  then obtain sc where sc: "y = (sc, Valued c)" by (metis prod.collapse)
  have "sc \<in> set (map fst vs)" using y(1) sc by force
  moreover have "value_filer D inp sc = Inr (Valued c)" using assms(2) y(1) sc by auto
  ultimately show "\<exists>sc. row_of inp (sc_cik sc) = Some sc \<and> company_of D inp sc c"
    using assms(1) filer_rows valued_company by metis
next
  assume "\<exists>sc. row_of inp (sc_cik sc) = Some sc \<and> company_of D inp sc c"
  then obtain sc where sc: "sc \<in> set (filers inp)" "value_filer D inp sc = Inr (Valued c)"
    by (auto simp: filer_rows valued_company)
  then obtain v where "(sc, v) \<in> set vs" using assms(1) by (metis (no_types) imageE list.set_map prod.collapse)
  with assms(2) sc(2) have "(sc, Valued c) \<in> set vs" by auto
  then show "c \<in> set (List.map_filter (candidate_of \<circ> snd) vs)" by (force simp: List.map_filter_def)
qed

lemma kept_no_fund: "ri_industry inp (rk_cik c) = Inr code \<Longrightarrow> kept inp c \<longleftrightarrow> \<not> is_fund inp (rk_cik c)"
  by (auto simp: kept_def is_fund_def excluded_industry_def excluded_sic_def split: option.splits)

lemma precedes_unranked [simp]:
  "precedes collation (a\<lparr>rk_rank := i\<rparr>) b = precedes collation a b"
  "precedes collation a (b\<lparr>rk_rank := i\<rparr>) = precedes collation a b"
  by (simp_all add: precedes_def)

lemma renumber_sorted: "sorted_wrt (precedes collation) (renumber k cs) = sorted_wrt (precedes collation) cs"
proof (induction cs arbitrary: k)
  case (Cons c cs)
  have "(\<forall>r \<in> set (renumber (k + 1) cs). precedes collation c r) = (\<forall>r \<in> set cs. precedes collation c r)"
    by (induction cs arbitrary: k) auto
  with Cons show ?case by simp
qed simp

lemma renumber_zero: "(\<lambda>r. r\<lparr>rk_rank := 0\<rparr>) ` set (renumber k cs) = (\<lambda>r. r\<lparr>rk_rank := 0\<rparr>) ` set cs"
  by (induction cs arbitrary: k) auto

lemma company_rank: "company_of D inp sc c \<Longrightarrow> c\<lparr>rk_rank := 0\<rparr> = c"
  by (auto simp: company_of_def)

text \<open>
  C27: The Top list is the top. Of a ranking that answers: ranks run from one without gaps and never
  beyond the size asked for; the list is ordered by falling value, equal values by symbol; no filer is
  listed twice. Every entry is, but for its rank, the company of a filer: its symbol is eligible and
  priced, its value the exact value of the shares of the last override or of the filing, and a filing's is within the
  float band; and it is no fund. A company that is not listed is a fund, or the list is full and every entry comes before it.
\<close>

theorem ranking_is_top:
  assumes "rank_by_market_cap D collation inp = Inr res"
  shows "map rk_rank (rr_ranked res) = [1..<Suc (length (rr_ranked res))]
    \<and> length (rr_ranked res) \<le> ri_size inp
    \<and> sorted_wrt (precedes collation) (rr_ranked res)
    \<and> distinct (map rk_cik (rr_ranked res))
    \<and> (\<forall>r \<in> set (rr_ranked res). \<not> is_fund inp (rk_cik r)
         \<and> (\<exists>sc. row_of inp (sc_cik sc) = Some sc \<and> company_of D inp sc (r\<lparr>rk_rank := 0\<rparr>)))
    \<and> (\<forall>sc c. row_of inp (sc_cik sc) = Some sc \<longrightarrow> company_of D inp sc c \<longrightarrow>
         c \<in> (\<lambda>r. r\<lparr>rk_rank := 0\<rparr>) ` set (rr_ranked res) \<or> is_fund inp (rk_cik c)
         \<or> length (rr_ranked res) = ri_size inp \<and> (\<forall>r \<in> set (rr_ranked res). precedes collation r c))"
proof -
  obtain vs pre post where vs: "map fst vs = filers inp" "\<forall>(sc, v) \<in> set vs. value_filer D inp sc = Inr v"
    and cands: "by_cap collation (List.map_filter (candidate_of \<circ> snd) vs) = pre @ post"
    and ranked: "rr_ranked res = renumber 0 (filter (kept inp) pre)"
    and stop: "post = [] \<or> ri_size inp \<le> length (rr_ranked res)" "length (rr_ranked res) \<le> ri_size inp"
    and asked: "\<forall>c \<in> set pre. \<exists>code. ri_industry inp (rk_cik c) = Inr code"
    by (rule ranking_shape[OF assms])
  have set_cs: "set (List.map_filter (candidate_of \<circ> snd) vs) = set pre \<union> set post"
    using arg_cong[OF cands, of set] by (simp add: by_cap_def)
  note company = candidates_are_companies[OF vs, unfolded set_cs]
  have sorted: "sorted_wrt (precedes collation) (pre @ post)" using by_cap_precedes cands by metis
  then have caps: "sorted_wrt (precedes collation) (rr_ranked res)"
    by (simp add: ranked renumber_sorted sorted_wrt_append sorted_wrt_filter)
  have fund: "kept inp c \<longleftrightarrow> \<not> is_fund inp (rk_cik c)" if "c \<in> set pre" for c
    using asked that kept_no_fund by blast
  have listed: "\<not> is_fund inp (rk_cik r) \<and> (\<exists>sc. row_of inp (sc_cik sc) = Some sc \<and> company_of D inp sc (r\<lparr>rk_rank := 0\<rparr>))"
    if "r \<in> set (rr_ranked res)" for r
  proof -
    from that obtain c i where c: "c \<in> set pre" "kept inp c" "r = c\<lparr>rk_rank := i\<rparr>"
      unfolding ranked using renumber_member by fastforce
    from c(1) company obtain sc where "row_of inp (sc_cik sc) = Some sc" "company_of D inp sc c" by blast
    with c fund company_rank show ?thesis by fastforce
  qed
  have rest: "c \<in> (\<lambda>r. r\<lparr>rk_rank := 0\<rparr>) ` set (rr_ranked res) \<or> is_fund inp (rk_cik c)
         \<or> length (rr_ranked res) = ri_size inp \<and> (\<forall>r \<in> set (rr_ranked res). precedes collation r c)"
    if c: "row_of inp (sc_cik sc) = Some sc" "company_of D inp sc c" for sc c
  proof -
    from c company consider "c \<in> set pre" | "c \<in> set post" by blast
    then show ?thesis
    proof cases
      case 1
      with fund company_rank[OF c(2)] show ?thesis unfolding ranked renumber_zero by force
    next
      case 2
      then have "length (rr_ranked res) = ri_size inp" using stop by auto
      moreover have "precedes collation r c" if r: "r \<in> set (rr_ranked res)" for r
      proof -
        from r obtain x i where "x \<in> set pre" "r = x\<lparr>rk_rank := i\<rparr>"
          unfolding ranked using renumber_member by fastforce
        with 2 sorted show ?thesis by (simp add: sorted_wrt_append)
      qed
      ultimately show ?thesis by blast
    qed
  qed
  have "map rk_rank (rr_ranked res) = [1..<Suc (length (rr_ranked res))]"
    unfolding ranked by (simp add: renumber_ranks)
  with stop(2) caps ranking_spec[OF assms] listed rest show ?thesis by blast
qed

definition demo_rank :: rank_input where
  "demo_rank = \<lparr>ri_counts = [\<lparr>sc_cik = ''320193'', sc_name = ''Apple'', sc_tickers = [''AAPL''], sc_shares = Some 1000,
       sc_as_of = ''2026-06-30'', sc_basis = Cover, sc_float = None\<rparr>],
     ri_eligible = (\<lambda>s. s = ''AAPL''), ri_prices = [''AAPL'' \<mapsto> 2000000],
     ri_overrides = [Override_exclude ''835403'' ''Diageo'' ''2026-09-30''], ri_industry = (\<lambda>_. Inr None), ri_size = 100\<rparr>"

lemma demo_rank_answers:
  "rank_by_market_cap js_decimal (map of_char) demo_rank = Inr \<lparr>rr_ranked = [\<lparr>rk_rank = 1, rk_cik = ''320193'',
     rk_symbol = ''AAPL'', rk_name = ''Apple'', rk_shares = 1000, rk_price = 2000000,
     rk_cap = notional js_decimal 2000000 1000\<rparr>], rr_rejected = [], rr_missing = []\<rparr>"
  by (simp add: rank_by_market_cap_def demo_rank_def count_map_def with_overrides_def value_filer_def override_of_def
      valued_at_def by_cap_def excluded_industry_def List.map_filter_simps Let_def)

theorem ranking_is_top_witness:
  "\<exists>res. rank_by_market_cap js_decimal (map of_char) demo_rank = Inr res \<and> map rk_rank (rr_ranked res) = [1]
     \<and> (\<exists>r \<in> set (rr_ranked res). \<exists>sc. company_of js_decimal demo_rank sc (r\<lparr>rk_rank := 0\<rparr>))"
proof -
  note top = ranking_is_top[OF demo_rank_answers]
  have "[Suc 0..<2] = [Suc 0]" by (simp add: upt_rec)
  with top demo_rank_answers show ?thesis by auto
qed

text \<open>The receipts the catalog names, and words that only contain the letters.\<close>

lemma depositary_examples:
  "is_depositary_receipt ''ASML Holding N.V. ADS''" "is_depositary_receipt ''Diageo plc (ADRs)''"
  "is_depositary_receipt ''BP p.l.c. American Depositary Shares''"
  "\<not> is_depositary_receipt ''Roads Inc.''" "\<not> is_depositary_receipt ''Adsorbent ADS_2''"
  by code_simp+

end
