(* ===== verification/Top100.thy ===== *)
theory Top100
  imports Ranking Market_Data Effects
begin

text \<open>
  The daily job of the Top 100 (\<^verbatim>\<open>src/worker/jobs/top100.ts\<close>) with its stores
  (\<^verbatim>\<open>src/infra/db/repositories/market-cap-rankings.ts\<close> and \<open>company-fundamentals.ts\<close>): share counts times
  prices, ranked, the share counts kept, and the snapshot published unless it looks degraded. The filings,
  the quotes and the cleaning of company names are arguments; the two reads that the code starts together
  are done one after the other. Log lines are left out; the times sign of the source text is written as an x.
\<close>

section \<open>The stores\<close>

record ranking_entry =
  re_rank :: nat
  re_cik :: string
  re_symbol :: string
  re_name :: string
  re_shares :: string
  re_price :: string
  re_cap :: string

record ranking_snapshot =
  rs_list :: string
  rs_as_of :: time
  rs_source :: string
  rs_created :: time
  rs_entries :: "ranking_entry list"

record shares_row =
  sr_symbol :: string
  sr_cik :: string
  sr_name :: string
  sr_shares :: string
  sr_as_of :: string
  sr_basis :: string

record discovery_store =
  ds_snapshots :: "ranking_snapshot list"
  ds_shares :: "shares_row list"

text \<open>The newest snapshot of a list by creation, then by its date; its entries by rank.\<close>

definition latest_snapshot :: "string \<Rightarrow> discovery_store \<Rightarrow> ranking_snapshot option" where
  "latest_snapshot l s =
     (case sort_key (\<lambda>r. (- rs_created r, - rs_as_of r)) (filter (\<lambda>r. rs_list r = l) (ds_snapshots s)) of
        [] \<Rightarrow> None
      | r # _ \<Rightarrow> Some (r\<lparr>rs_entries := sort_key re_rank (rs_entries r)\<rparr>))"

text \<open>One transaction; the ranks of a snapshot are unique.\<close>

definition save_snapshot :: "ranking_snapshot \<Rightarrow> discovery_store \<Rightarrow> (unit \<times> discovery_store) result" where
  "save_snapshot r s =
     (if distinct (map re_rank (rs_entries r)) then Inr ((), s\<lparr>ds_snapshots := ds_snapshots s @ [r]\<rparr>)
      else Inl (ConstraintViolation ''market_cap_entries_rank''))"

text \<open>
  One statement per five hundred rows. \<open>ON CONFLICT DO UPDATE\<close> refuses to touch a row twice in one
  statement.
\<close>

definition upsert_share :: "shares_row \<Rightarrow> shares_row list \<Rightarrow> shares_row list" where
  "upsert_share r rows =
     (if find (\<lambda>x. sr_symbol x = sr_symbol r) rows = None then rows @ [r]
      else modify (\<lambda>x. sr_symbol x = sr_symbol r) (\<lambda>_. r) rows)"

definition upsert_chunk :: "shares_row list \<Rightarrow> discovery_store \<Rightarrow> unit result \<times> discovery_store" where
  "upsert_chunk rs s =
     (if distinct (map sr_symbol rs) then (Inr (), s\<lparr>ds_shares := fold upsert_share rs (ds_shares s)\<rparr>)
      else (Inl (JsError ''ON CONFLICT DO UPDATE command cannot affect row a second time''), s))"

function upsert_shares :: "shares_row list \<Rightarrow> discovery_store \<Rightarrow> unit result \<times> discovery_store" where
  "upsert_shares rs s =
     (if rs = [] then (Inr (), s)
      else wbind (upsert_chunk (take 500 rs) s) (\<lambda>_. upsert_shares (drop 500 rs)))"
  by pat_completeness auto
termination by (relation "measure (\<lambda>(rs, s). length rs)") auto

declare upsert_shares.simps [simp del]

section \<open>The job\<close>

definition top100_list :: string where
  "top100_list = ''top-100''"

text \<open>\<open>SHARE_OVERRIDES\<close>, without the notes.\<close>

definition share_overrides :: "share_override list" where
  "share_overrides =
     [Override_shares ''1067983'' ''Berkshire Hathaway'' ''BRK.B'' ''2140710161'' ''2026-07-29'',
      Override_shares ''1403161'' ''Visa'' ''V'' ''1880000000'' ''2026-06-30'',
      Override_shares ''831001'' ''Citigroup'' ''C'' ''1677436783'' ''2026-06-30'',
      Override_exclude ''835403'' ''Diageo'' ''2026-09-30'',
      Override_exclude ''1720592'' ''Repay Holdings'' ''2026-09-30'']"

record top100_deps =
  td_counts :: "share_count list result"
  td_industry :: "string \<Rightarrow> string option result"
  td_quotes :: "string list \<Rightarrow> (string \<times> quote) list result"
  td_instruments :: "(string \<times> string) list result"
  td_save_shares :: bool
  td_now :: time
  td_created :: time

record top100_report =
  tp_candidates :: nat
  tp_priced :: nat
  tp_top5 :: "string list"
  tp_rejected :: nat
  tp_missing :: "string list"

text \<open>\<open>[...new Set(xs)]\<close>: each element once, where it is first.\<close>

definition js_set :: "'a list \<Rightarrow> 'a list" where
  "js_set xs = rev (remdups (rev xs))"

definition eligible_symbols :: "(string \<times> string) list \<Rightarrow> string list" where
  "eligible_symbols instruments = map fst (filter (\<lambda>(s, name). \<not> is_depositary_receipt name) instruments)"

definition override_symbols :: "share_override list \<Rightarrow> string list" where
  "override_symbols os = concat (map (\<lambda>o1. case o1 of Override_shares c n s sh d \<Rightarrow> [s] | Override_exclude c n d \<Rightarrow> []) os)"

definition symbols_to_price :: "(string \<Rightarrow> bool) \<Rightarrow> share_count list \<Rightarrow> string list" where
  "symbols_to_price eligible counts =
     js_set (concat (map (\<lambda>sc. filter eligible (sc_tickers sc))
               (filter (\<lambda>sc. sc_shares sc \<noteq> None \<and> sc_cik sc \<notin> so_cik ` set share_overrides) counts))
             @ override_symbols share_overrides)"

fun basis_text :: "share_basis \<Rightarrow> string" where
  "basis_text Cover = ''cover''"
| "basis_text Weighted_average = ''weighted-average''"
| "basis_text No_basis = ''none''"

definition rows_of_count :: "(string \<Rightarrow> string) \<Rightarrow> (string \<Rightarrow> bool) \<Rightarrow> string list \<Rightarrow> share_count \<Rightarrow> shares_row list" where
  "rows_of_count clean eligible rejected sc =
     (case sc_shares sc of
        None \<Rightarrow> []
      | Some n \<Rightarrow>
          if sc_cik sc \<in> so_cik ` set share_overrides then []
          else let tickers = filter eligible (sc_tickers sc)
            in if list_ex (\<lambda>t. t \<in> set rejected) tickers then []
               else map (\<lambda>t. \<lparr>sr_symbol = t, sr_cik = sc_cik sc, sr_name = clean (sc_name sc),
                             sr_shares = qty_to_string n, sr_as_of = sc_as_of sc,
                             sr_basis = basis_text (sc_basis sc)\<rparr>) tickers)"

definition rows_of_override :: "(string \<Rightarrow> bool) \<Rightarrow> share_override \<Rightarrow> shares_row list" where
  "rows_of_override eligible o1 =
     (case o1 of
        Override_exclude c n d \<Rightarrow> []
      | Override_shares c n s sh d \<Rightarrow>
          if eligible s then [\<lparr>sr_symbol = s, sr_cik = c, sr_name = n, sr_shares = sh, sr_as_of = d, sr_basis = ''override''\<rparr>]
          else [])"

definition share_rows :: "(string \<Rightarrow> string) \<Rightarrow> (string \<Rightarrow> bool) \<Rightarrow> string list \<Rightarrow> share_count list \<Rightarrow> shares_row list" where
  "share_rows clean eligible rejected counts =
     concat (map (rows_of_count clean eligible rejected) counts) @ concat (map (rows_of_override eligible) share_overrides)"

definition stored_entry :: "(string \<Rightarrow> string) \<Rightarrow> ranked_company \<Rightarrow> ranking_entry" where
  "stored_entry clean r =
     \<lparr>re_rank = rk_rank r, re_cik = rk_cik r, re_symbol = rk_symbol r, re_name = clean (rk_name r),
      re_shares = qty_to_string (rk_shares r), re_price = px_to_string (rk_price r), re_cap = money_to_string (rk_cap r)\<rparr>"

text \<open>The end of the job: the verdict on the ranking against the newest snapshot, and the publication.\<close>

definition publish :: "(string \<Rightarrow> string) \<Rightarrow> top100_deps \<Rightarrow> string list \<Rightarrow> nat \<Rightarrow> rank_result \<Rightarrow> discovery_store
    \<Rightarrow> top100_report result \<times> discovery_store" where
  "publish clean dp symbols priced res s =
     (let previous = map_option (\<lambda>r. map re_symbol (rs_entries r)) (latest_snapshot top100_list s);
          verdict = validate_snapshot previous (map rk_symbol (rr_ranked res)) (length symbols) priced 100
      in if verdict \<noteq> Snapshot_ok then (Inl (JsError ''top-100 snapshot refused''), s)
         else wbind (run_tx (save_snapshot
                \<lparr>rs_list = top100_list, rs_as_of = td_now dp,
                 rs_source = ''SEC EDGAR shares outstanding x IEX last price'', rs_created = td_created dp,
                 rs_entries = map (stored_entry clean) (rr_ranked res)\<rparr>) s)
              (\<lambda>_ s1. (Inr \<lparr>tp_candidates = length symbols, tp_priced = priced,
                            tp_top5 = map rk_symbol (take 5 (rr_ranked res)),
                            tp_rejected = length (rr_rejected res),
                            tp_missing = map (\<lambda>(c, n, f). n) (rr_missing res)\<rparr>, s1)))"

definition top100_input :: "top100_deps \<Rightarrow> share_count list \<Rightarrow> string list \<Rightarrow> (string \<times> quote) list \<Rightarrow> rank_input" where
  "top100_input dp counts eligible quotes =
     \<lparr>ri_counts = counts, ri_eligible = (\<lambda>s. s \<in> set eligible), ri_prices = map_of (map (\<lambda>(s, q). (s, qt_last q)) quotes),
      ri_overrides = share_overrides, ri_industry = td_industry dp, ri_size = 100\<rparr>"

definition refresh_top100 :: "decimal_lib \<Rightarrow> (string \<Rightarrow> nat list) \<Rightarrow> (string \<Rightarrow> string) \<Rightarrow> top100_deps \<Rightarrow> discovery_store
    \<Rightarrow> top100_report result \<times> discovery_store" where
  "refresh_top100 D collation clean dp s =
     (case ebind (td_counts dp) (\<lambda>counts. ebind (td_instruments dp) (\<lambda>instruments.
            let eligible = eligible_symbols instruments;
                symbols = symbols_to_price (\<lambda>t. t \<in> set eligible) counts
            in ebind (td_quotes dp symbols) (\<lambda>quotes.
               ebind (rank_by_market_cap D collation (top100_input dp counts eligible quotes)) (\<lambda>res.
                 Inr (counts, eligible, symbols, length quotes, res))))) of
        Inl e \<Rightarrow> (Inl e, s)
      | Inr (counts, eligible, symbols, priced, res) \<Rightarrow>
          wbind (if td_save_shares dp
                 then upsert_shares (share_rows clean (\<lambda>t. t \<in> set eligible) (map fst (rr_rejected res)) counts) s
                 else (Inr (), s))
            (\<lambda>_. publish clean dp symbols priced res))"

section \<open>What is published\<close>

lemma upsert_shares_snapshots: "ds_snapshots (snd (upsert_shares rs s)) = ds_snapshots s"
proof (induction rs s rule: upsert_shares.induct)
  case (1 rs s)
  obtain r s1 where chunk: "upsert_chunk (take 500 rs) s = (r, s1)" by (rule prod.exhaust)
  then have "ds_snapshots s1 = ds_snapshots s" by (auto simp: upsert_chunk_def split: if_splits)
  with 1 chunk show ?case by (cases r) (auto simp: upsert_shares.simps[of rs s])
qed

lemma sort_key_newest:
  assumes "\<And>x. x \<in> set xs \<Longrightarrow> f y < f x"
  shows "sort_key f (xs @ [y]) = y # sort_key f xs"
proof -
  have "insort_key f y (sort_key f zs) = y # sort_key f zs" if "\<forall>x \<in> set zs. f y < f x" for zs
    using that by (cases "sort_key f zs") (auto dest!: arg_cong[of _ _ set])
  moreover have "sort_key f (xs @ [y]) = insort_key f y (sort_key f xs)"
    using assms
  proof (induction xs)
    case (Cons a xs)
    have "f y \<noteq> f a" using Cons.prems[of a] by auto
    then show ?case using Cons by (simp add: insort_key_left_comm)
  qed simp
  ultimately show ?thesis using assms by simp
qed

text \<open>The parts of a run, up to the publication.\<close>

lemma refresh_cases:
  assumes "refresh_top100 D collation clean dp s = (r, s')"
  obtains (stopped) e where "r = Inl e" "ds_snapshots s' = ds_snapshots s"
  | (published) counts instruments quotes res s1 where "td_counts dp = Inr counts" "td_instruments dp = Inr instruments"
      and "rank_by_market_cap D collation (top100_input dp counts (eligible_symbols instruments) quotes) = Inr res"
      and "ds_snapshots s1 = ds_snapshots s"
      and "publish clean dp (symbols_to_price (\<lambda>t. t \<in> set (eligible_symbols instruments)) counts) (length quotes) res s1
        = (r, s')"
proof -
  let ?saved = "\<lambda>counts eligible res. if td_save_shares dp
                 then upsert_shares (share_rows clean (\<lambda>t. t \<in> set eligible) (map fst (rr_rejected res)) counts) s
                 else (Inr (), s)"
  have saved: "ds_snapshots (snd (?saved counts eligible res)) = ds_snapshots s" for counts eligible res
    by (simp add: upsert_shares_snapshots)
  let ?start = "ebind (td_counts dp) (\<lambda>counts. ebind (td_instruments dp) (\<lambda>instruments.
            let eligible = eligible_symbols instruments;
                symbols = symbols_to_price (\<lambda>t. t \<in> set eligible) counts
            in ebind (td_quotes dp symbols) (\<lambda>quotes.
               ebind (rank_by_market_cap D collation (top100_input dp counts eligible quotes)) (\<lambda>res.
                 Inr (counts, eligible, symbols, length quotes, res)))))"
  show thesis
  proof (cases ?start)
    case (Inl e)
    with assms show thesis by (intro stopped[of e]) (simp_all add: refresh_top100_def)
  next
    case (Inr x)
    then obtain counts instruments quotes res where start: "td_counts dp = Inr counts" "td_instruments dp = Inr instruments"
        "rank_by_market_cap D collation (top100_input dp counts (eligible_symbols instruments) quotes) = Inr res"
        "x = (counts, eligible_symbols instruments, symbols_to_price (\<lambda>t. t \<in> set (eligible_symbols instruments)) counts,
              length quotes, res)"
      by (auto simp: result_simps Let_def)
    have run: "wbind (?saved counts (eligible_symbols instruments) res)
        (\<lambda>_. publish clean dp (symbols_to_price (\<lambda>t. t \<in> set (eligible_symbols instruments)) counts) (length quotes) res) = (r, s')"
      using assms Inr start(4) by (simp add: refresh_top100_def)
    obtain u s1 where w: "?saved counts (eligible_symbols instruments) res = (u, s1)" by (rule prod.exhaust)
    have "ds_snapshots (snd (?saved counts (eligible_symbols instruments) res)) = ds_snapshots s" by (rule saved)
    then have s1: "ds_snapshots s1 = ds_snapshots s" unfolding w by simp
    show thesis
    proof (cases u)
      case (Inl e)
      with run w s1 show thesis by (intro stopped[of e]) simp_all
    next
      case (Inr v)
      with run w s1 start show thesis by (intro published[of counts instruments quotes res s1]) simp_all
    qed
  qed
qed

lemma publish_cases:
  assumes "publish clean dp symbols priced res s = (r, s')"
  obtains (refused) e where "r = Inl e" "ds_snapshots s' = ds_snapshots s"
  | (accepted) rep where "r = Inr rep"
      and "validate_snapshot (map_option (\<lambda>r. map re_symbol (rs_entries r)) (latest_snapshot top100_list s))
        (map rk_symbol (rr_ranked res)) (length symbols) priced 100 = Snapshot_ok"
      and "ds_snapshots s' = ds_snapshots s @ [\<lparr>rs_list = top100_list, rs_as_of = td_now dp,
        rs_source = ''SEC EDGAR shares outstanding x IEX last price'', rs_created = td_created dp,
        rs_entries = map (stored_entry clean) (rr_ranked res)\<rparr>]"
  using assms unfolding publish_def run_tx_def save_snapshot_def
  by (auto simp: Let_def split: if_splits)

text \<open>What a snapshot must be, beside the one that was newest before it.\<close>

definition credible :: "string list \<Rightarrow> ranking_snapshot option \<Rightarrow> ranking_snapshot \<Rightarrow> bool" where
  "credible eligible previous r \<longleftrightarrow>
     map re_rank (rs_entries r) = [1..<101] \<and> distinct (map re_cik (rs_entries r))
     \<and> list_all (\<lambda>e. re_symbol e \<in> set eligible) (rs_entries r)
     \<and> (case previous of None \<Rightarrow> True | Some old \<Rightarrow> length (rs_entries old) < 10
          \<or> 7 \<le> length (filter (\<lambda>s. s \<in> set (take 10 (map re_symbol (rs_entries old)))) (take 10 (map re_symbol (rs_entries r)))))"

text \<open>
  C28: A refused run leaves the published Top 100 alone, and what is published can be trusted. A run that
  fails in any of its steps changes no snapshot. A run that succeeds adds exactly one, which becomes the
  newest if the clock of the database has moved on: one hundred different filers, ranked from 1 to 100, each
  under an active symbol whose name is no depositary receipt, with at least seven of the ten at the top of
  the snapshot before it (if that had ten) among its own top ten.
\<close>

theorem top100_keeps_credible:
  assumes "refresh_top100 D collation clean dp s = (r, s')"
    and "list_all (\<lambda>x. rs_created x < td_created dp) (ds_snapshots s)"
  shows "case r of
      Inl e \<Rightarrow> ds_snapshots s' = ds_snapshots s
    | Inr rep \<Rightarrow> \<exists>x instruments. ds_snapshots s' = ds_snapshots s @ [x] \<and> latest_snapshot top100_list s' = Some x
        \<and> td_instruments dp = Inr instruments
        \<and> credible (map fst (filter (\<lambda>(s, name). \<not> is_depositary_receipt name) instruments)) (latest_snapshot top100_list s) x"
  using assms(1)
proof (cases rule: refresh_cases)
  case (stopped e)
  then show ?thesis by simp
next
  case (published counts instruments quotes res s1)
  from published(5) show ?thesis
  proof (cases rule: publish_cases)
    case (refused e)
    with published(4) show ?thesis by simp
  next
    case (accepted rep)
    let ?x = "\<lparr>rs_list = top100_list, rs_as_of = td_now dp,
        rs_source = ''SEC EDGAR shares outstanding x IEX last price'', rs_created = td_created dp,
        rs_entries = map (stored_entry clean) (rr_ranked res)\<rparr>"
    let ?E = "eligible_symbols instruments"
    have top: "map rk_rank (rr_ranked res) = [1..<Suc (length (rr_ranked res))]" "length (rr_ranked res) \<le> 100"
      "distinct (map rk_cik (rr_ranked res))" "list_all (listed_as D (top100_input dp counts ?E quotes)) (rr_ranked res)"
      using ranking_spec[OF published(3)] by (simp_all add: top100_input_def)
    have full: "length (rr_ranked res) = 100"
      using accepted(2) top(2) by (auto simp: validate_snapshot_def Let_def split: if_splits)
    have ranks: "map re_rank (rs_entries ?x) = [1..<101]" using top(1) full by (simp add: stored_entry_def comp_def)
    have "sorted (map re_rank (rs_entries ?x))" unfolding ranks by simp
    then have same: "sort_key re_rank (rs_entries ?x) = rs_entries ?x" by (rule sort_key_id_if_sorted)
    have "latest_snapshot top100_list s' = Some ?x"
    proof -
      have "sort_key (\<lambda>r. (- rs_created r, - rs_as_of r)) (filter (\<lambda>r. rs_list r = top100_list) (ds_snapshots s) @ [?x])
        = ?x # sort_key (\<lambda>r. (- rs_created r, - rs_as_of r)) (filter (\<lambda>r. rs_list r = top100_list) (ds_snapshots s))"
        using assms(2) by (intro sort_key_newest) (auto simp: list_all_iff less_prod_def)
      then show ?thesis using accepted(3) published(4) same by (simp add: latest_snapshot_def)
    qed
    moreover have "credible ?E (latest_snapshot top100_list s) ?x"
    proof -
      have "latest_snapshot top100_list s1 = latest_snapshot top100_list s"
        using published(4) by (simp add: latest_snapshot_def)
      with accepted(2) show ?thesis
        using ranks top(3,4) unfolding credible_def
        by (auto simp: stored_entry_def comp_def list_all_iff listed_as_def top100_input_def validate_snapshot_def
            Let_def split: if_splits option.splits)
    qed
    ultimately show ?thesis using accepted(1,3) published(2,4) by (auto simp: eligible_symbols_def)
  qed
qed

definition demo_top100 :: top100_deps where
  "demo_top100 = \<lparr>td_counts = Inr (ri_counts demo_rank), td_industry = (\<lambda>_. Inr None),
     td_quotes = (\<lambda>xs. Inr (map (\<lambda>x. (x, demo_quote\<lparr>qt_symbol := x\<rparr>)) xs)), td_instruments = Inr [(''AAPL'', ''Apple Inc.'')],
     td_save_shares = True, td_now = 20, td_created = 21\<rparr>"

definition demo_snapshots :: discovery_store where
  "demo_snapshots = \<lparr>ds_snapshots = [\<lparr>rs_list = top100_list, rs_as_of = 1, rs_source = ''seed'', rs_created = 2, rs_entries = []\<rparr>],
     ds_shares = []\<rparr>"

theorem top100_keeps_credible_witness:
  "case refresh_top100 js_decimal (map of_char) (\<lambda>n. n) demo_top100 demo_snapshots of (r, s') \<Rightarrow>
     (case r of Inl e \<Rightarrow> ds_snapshots s' = ds_snapshots demo_snapshots
      | Inr rep \<Rightarrow> \<exists>x. ds_snapshots s' = ds_snapshots demo_snapshots @ [x] \<and> latest_snapshot top100_list s' = Some x)"
proof -
  obtain r s' where run: "refresh_top100 js_decimal (map of_char) (\<lambda>n. n) demo_top100 demo_snapshots = (r, s')"
    by (rule prod.exhaust)
  from top100_keeps_credible[OF run] show ?thesis
    unfolding run by (cases r) (auto simp: demo_top100_def demo_snapshots_def)
qed

text \<open>Two filers under one ticker in one statement stop the job before it ranks anything for publication.\<close>

lemma shared_ticker_fails:
  assumes "\<not> distinct (map sr_symbol (take 500 rs))"
  shows "\<exists>e. upsert_shares rs s = (Inl e, s)"
proof -
  have "rs \<noteq> []" using assms by auto
  with assms show ?thesis by (subst upsert_shares.simps) (simp add: upsert_chunk_def)
qed

end
