(* ===== verification/Http.thy ===== *)
theory Http
  imports Shared
begin

text \<open>
  The error envelope and the session guard of every endpoint (\<^verbatim>\<open>src/server/api/http.ts\<close>): which exception
  becomes which code and HTTP status. A schema error of the request is already an \<open>AppError VALIDATION\<close> in
  this model; messages, details and the log line are left out.
\<close>

section \<open>The envelope\<close>

definition to_app_error :: "exn \<Rightarrow> error_code \<times> domain_subcode option" where
  "to_app_error e =
     (case e of
        AppError code sub \<Rightarrow> (code, sub)
      | UnknownSymbol \<Rightarrow> (NOT_FOUND, Some UNKNOWN_SYMBOL)
      | ProviderUnavailable \<Rightarrow> (PROVIDER_UNAVAILABLE, None)
      | _ \<Rightarrow> (INTERNAL, None))"

record error_envelope =
  ee_status :: nat
  ee_code :: error_code
  ee_subcode :: "domain_subcode option"
  ee_request :: string

definition error_response :: "exn \<Rightarrow> string \<Rightarrow> error_envelope" where
  "error_response e request_id =
     (case to_app_error e of (code, sub) \<Rightarrow>
        \<lparr>ee_status = error_http_status code, ee_code = code, ee_subcode = sub, ee_request = request_id\<rparr>)"

text \<open>A handler answers with a status and a body, or throws; reading the session may throw, too.\<close>

definition with_auth ::
    "('r \<Rightarrow> 'u option result) \<Rightarrow> ('r \<Rightarrow> 'u \<Rightarrow> 's \<Rightarrow> (nat \<times> 'b) result \<times> 's) \<Rightarrow> string \<Rightarrow> 'r \<Rightarrow> 's \<Rightarrow> (error_envelope + nat \<times> 'b) \<times> 's" where
  "with_auth session handler request_id req s =
     (case session req of
        Inl e \<Rightarrow> (Inl (error_response e request_id), s)
      | Inr None \<Rightarrow> (Inl (error_response (AppError AUTH_REQUIRED None) request_id), s)
      | Inr (Some u) \<Rightarrow>
          (case handler req u s of
             (Inl e, s1) \<Rightarrow> (Inl (error_response e request_id), s1)
           | (Inr b, s1) \<Rightarrow> (Inr b, s1)))"

text \<open>Without a session the handler does not run; what it throws becomes the status of its code.\<close>

lemma with_auth_no_session:
  "session req = Inr None \<Longrightarrow> fst (with_auth session handler rid req s) = Inl e \<Longrightarrow> ee_status e = 401
    \<and> snd (with_auth session handler rid req s) = s"
  by (auto simp: with_auth_def error_response_def to_app_error_def)

lemma with_auth_status:
  "session req = Inr (Some u) \<Longrightarrow> handler req u s = (Inl e, s1) \<Longrightarrow>
    with_auth session handler rid req s = (Inl (error_response e rid), s1)"
  by (simp add: with_auth_def)

end
