(* ===== verification/Api_Market.thy ===== *)
theory Api_Market
  imports Api_Orders Cached_Market_Correct Fundamentals Top100 Http
begin

text \<open>
  The market endpoints (\<^verbatim>\<open>src/server/api/market.ts\<close>, \<open>movers.ts\<close>, \<open>discovery.ts\<close>): search, the instrument page,
  candles, batched quotes, the browse lists and the top movers. The market data is the record of what the
  provider answers while the request runs (behind the cache or not); of two reads that are started together the
  first is made first. The catalogue of sectors, the curated names and the dated seed are data and so
  arguments; so is the number a query parameter is coerced to. Answers are records in the order of the response.
\<close>

section \<open>Quotes\<close>

record api_quote = serialized_quote +
  aq_change :: "(string \<times> string) option"

definition change_texts :: "decimal_lib \<Rightarrow> full_quote \<Rightarrow> (string \<times> string) option" where
  "change_texts D q =
     map_option (\<lambda>(absolute, percent). (money_to_string absolute, money_to_string percent)) (day_change D (quote.truncate q))"

definition quote_answer :: "decimal_lib \<Rightarrow> js_runtime \<Rightarrow> full_quote \<Rightarrow> api_quote" where
  "quote_answer D J q = serialized_quote.extend (serialize_quote J q) (api_quote.fields (change_texts D q))"

definition plain_quotes :: "market_provider \<Rightarrow> string \<Rightarrow> quote result" where
  "plain_quotes feed s = map_sum id quote.truncate (mp_quote feed s)"

text \<open>The stalest of some quotes.\<close>

definition oldest_of :: "full_quote list \<Rightarrow> full_quote option" where
  "oldest_of qs = head_of (sort_key qt_ts qs)"

record freshness_chip =
  fc_freshness :: "display_freshness option"
  fc_ts :: "string option"
  fc_source :: "string option"

definition chip_of :: "js_runtime \<Rightarrow> time \<Rightarrow> market_status \<Rightarrow> full_quote list \<Rightarrow> freshness_chip" where
  "chip_of J now st qs =
     \<lparr>fc_freshness = map_option (\<lambda>q. display_freshness (quote.truncate q) now st) (oldest_of qs),
      fc_ts = map_option (\<lambda>q. jd_iso J (qt_ts q)) (oldest_of qs), fc_source = map_option fq_source (oldest_of qs)\<rparr>"

section \<open>Search and the instrument page\<close>

definition search_endpoint ::
    "(string \<Rightarrow> nat list) \<Rightarrow> (string \<Rightarrow> instrument_summary list result) \<Rightarrow> string option \<Rightarrow> db \<Rightarrow> instrument list result \<times> db" where
  "search_endpoint collation provider param d =
     (let query = (case param of None \<Rightarrow> [] | Some s \<Rightarrow> s)
      in if length query < 1 \<or> length query > 40 then (Inl (AppError VALIDATION None), d)
         else instrument_search collation provider query d)"

definition quote_or_null :: "market_provider \<Rightarrow> string \<Rightarrow> full_quote option result" where
  "quote_or_null feed s =
     (case mp_quote feed s of Inr q \<Rightarrow> Inr (Some q) | Inl e \<Rightarrow> if e = UnknownSymbol then Inr None else Inl e)"

record detail_answer =
  da_instrument :: instrument
  da_quote :: "api_quote option"
  da_market :: "market_status \<times> string"
  da_freshness :: "display_freshness option"
  da_buffer :: string

definition get_instrument_detail ::
    "decimal_lib \<Rightarrow> js_runtime \<Rightarrow> string \<Rightarrow> market_provider \<Rightarrow> time \<Rightarrow> string \<Rightarrow> db \<Rightarrow> detail_answer result \<times> db" where
  "get_instrument_detail D J buffer feed now raw d =
     (if \<not> symbol_schema raw then (Inl (AppError VALIDATION None), d)
      else let symbol = to_upper raw
        in case get_or_register (plain_quotes feed) symbol d of
             (Inl e, d1) \<Rightarrow> (Inl e, d1)
           | (Inr ins, d1) \<Rightarrow>
               (ebind (quote_or_null feed symbol) (\<lambda>q. ebind (mp_status feed) (\<lambda>(st, as_of).
                  Inr \<lparr>da_instrument = ins, da_quote = map_option (quote_answer D J) q, da_market = (st, jd_iso J as_of),
                       da_freshness = map_option (\<lambda>q. display_freshness (quote.truncate q) now st) q, da_buffer = buffer\<rparr>)), d1))"

definition candle_range_schema :: "string \<Rightarrow> candle_range option" where
  "candle_range_schema = map_of [(''1D'', R1D), (''1W'', R1W), (''1M'', R1M), (''3M'', R3M), (''1Y'', R1Y), (''5Y'', R5Y)]"

definition get_instrument_candles :: "market_provider \<Rightarrow> string \<Rightarrow> string \<Rightarrow> (string \<times> candle_range \<times> candle list) result" where
  "get_instrument_candles feed raw range_raw =
     ebind (ensure (symbol_schema raw) (AppError VALIDATION None)) (\<lambda>_.
     ebind (of_option (AppError VALIDATION None) (candle_range_schema range_raw)) (\<lambda>r.
     ebind (mp_candles feed (to_upper raw) r) (\<lambda>cs. Inr (to_upper raw, r, cs))))"

section \<open>Batched quotes\<close>

text \<open>\<open>s.split(",")\<close>.\<close>

fun split_commas :: "string \<Rightarrow> string list" where
  "split_commas [] = [[]]"
| "split_commas (c # s) =
     (if c = CHR '','' then [] # split_commas s
      else (case split_commas s of [] \<Rightarrow> [[c]] | l # ls \<Rightarrow> (c # l) # ls))"

definition symbols_schema :: "string \<Rightarrow> string list option" where
  "symbols_schema s =
     (let xs = map js_trim (split_commas s)
      in if list_all symbol_schema xs \<and> 1 \<le> length xs \<and> length xs \<le> 25 then Some xs else None)"

definition get_batch_quotes ::
    "decimal_lib \<Rightarrow> js_runtime \<Rightarrow> market_provider \<Rightarrow> string option \<Rightarrow> ((string \<times> api_quote) list \<times> market_status \<times> string) result" where
  "get_batch_quotes D J feed param =
     ebind (of_option (AppError VALIDATION None) (symbols_schema (case param of None \<Rightarrow> [] | Some s \<Rightarrow> s))) (\<lambda>symbols.
     ebind (mp_quotes feed (map to_upper symbols)) (\<lambda>quotes.
     ebind (mp_status feed) (\<lambda>(st, as_of).
       Inr (map (\<lambda>(s, q). (s, quote_answer D J q)) quotes, st, jd_iso J as_of))))"

section \<open>The browse lists\<close>

record browse_row =
  br_rank :: "nat option"
  br_symbol :: string
  br_name :: string
  br_cap :: "string option option"

record sector =
  se_slug :: string
  se_name :: string
  se_companies :: "(string \<times> string) list"

record catalogue =
  ct_sectors :: "sector list"
  ct_seed :: "(nat \<times> string \<times> string) list"
  ct_seed_as_of :: string

text \<open>\<open>CURATED_NAMES\<close>: of a symbol in two sectors the later name is kept.\<close>

definition curated :: "catalogue \<Rightarrow> string \<Rightarrow> string option" where
  "curated c = map_of (rev (concat (map se_companies (ct_sectors c))))"

record top100 =
  tt_as_of :: string
  tt_entries :: "(nat \<times> string \<times> string \<times> string option) list"

definition load_top100 :: "js_runtime \<Rightarrow> catalogue \<Rightarrow> ranking_snapshot option result \<Rightarrow> top100" where
  "load_top100 J c stored =
     (let seed = \<lparr>tt_as_of = ct_seed_as_of c, tt_entries = map (\<lambda>(r, s, n). (r, s, n, None)) (ct_seed c)\<rparr>
      in case stored of
           Inr (Some x) \<Rightarrow>
             if rs_entries x = [] then seed
             else \<lparr>tt_as_of = jd_iso J (rs_as_of x),
                   tt_entries = map (\<lambda>e. (re_rank e, re_symbol e,
                     case curated c (re_symbol e) of Some n \<Rightarrow> n | None \<Rightarrow> re_name e, Some (re_cap e))) (rs_entries x)\<rparr>
         | _ \<Rightarrow> seed)"

definition browse_overview ::
    "js_runtime \<Rightarrow> catalogue \<Rightarrow> ranking_snapshot option result \<Rightarrow> (nat \<times> string \<times> string list) \<times> (string \<times> string \<times> nat \<times> string list) list" where
  "browse_overview J c stored =
     (let t = load_top100 J c stored
      in ((length (tt_entries t), tt_as_of t, map (\<lambda>(r, s, n, m). s) (take 5 (tt_entries t))),
          map (\<lambda>s. (se_slug s, se_name s, length (se_companies s), map fst (take 3 (se_companies s)))) (ct_sectors c)))"

definition browse_page :: nat where "browse_page = 25"

text \<open>\<open>z.coerce.number().int().min(0).max(40).default(0)\<close>; the number of a text is an argument.\<close>

definition page_schema :: "(string \<Rightarrow> int option) \<Rightarrow> string option \<Rightarrow> nat result" where
  "page_schema number param =
     (case param of
        None \<Rightarrow> Inr 0
      | Some s \<Rightarrow> (case number s of
            Some n \<Rightarrow> if 0 \<le> n \<and> n \<le> 40 then Inr (nat n) else Inl (AppError VALIDATION None)
          | None \<Rightarrow> Inl (AppError VALIDATION None)))"

definition list_rows :: "js_runtime \<Rightarrow> catalogue \<Rightarrow> ranking_snapshot option result \<Rightarrow> string \<Rightarrow> (browse_row list \<times> string option) result" where
  "list_rows J c stored slug =
     (if slug = top100_list
      then let t = load_top100 J c stored
        in Inr (map (\<lambda>(r, s, n, m). \<lparr>br_rank = Some r, br_symbol = s, br_name = n, br_cap = Some m\<rparr>) (tt_entries t), Some (tt_as_of t))
      else case find (\<lambda>s. se_slug s = slug) (ct_sectors c) of
          None \<Rightarrow> Inl (AppError NOT_FOUND None)
        | Some s \<Rightarrow> Inr (map (\<lambda>(sym, n). \<lparr>br_rank = None, br_symbol = sym, br_name = n, br_cap = None\<rparr>) (se_companies s), None))"

record browse_answer =
  ba_count :: nat
  ba_ranking_as_of :: "string option"
  ba_page :: nat
  ba_next_page :: "nat option"
  ba_instruments :: "(browse_row \<times> api_quote option) list"
  ba_market :: "market_status \<times> string"
  ba_chip :: freshness_chip

definition get_browse_list ::
    "decimal_lib \<Rightarrow> js_runtime \<Rightarrow> catalogue \<Rightarrow> ranking_snapshot option result \<Rightarrow> (string \<Rightarrow> int option) \<Rightarrow> market_provider \<Rightarrow> time
     \<Rightarrow> string \<Rightarrow> string option \<Rightarrow> browse_answer result" where
  "get_browse_list D J c stored number feed now slug param =
     ebind (page_schema number param) (\<lambda>page.
     ebind (list_rows J c stored slug) (\<lambda>(rows, ranking_as_of).
       let part = take browse_page (drop (page * browse_page) rows)
       in ebind (if part = [] then Inr [] else mp_quotes feed (map br_symbol part)) (\<lambda>quotes.
          ebind (mp_status feed) (\<lambda>(st, as_of).
            Inr \<lparr>ba_count = length rows, ba_ranking_as_of = ranking_as_of, ba_page = page,
                 ba_next_page = (if (page + 1) * browse_page < length rows then Some (page + 1) else None),
                 ba_instruments = map (\<lambda>r. (r, map_option (quote_answer D J) (map_of quotes (br_symbol r)))) part,
                 ba_market = (st, jd_iso J as_of), ba_chip = chip_of J now st (map snd quotes)\<rparr>))))"

section \<open>The movers\<close>

definition day_change_period :: "market_status \<Rightarrow> string" where
  "day_change_period st = (if st = Market_closed then ''last-session'' else ''today'')"

fun first_by_symbol :: "string list \<Rightarrow> (string \<times> string) list \<Rightarrow> (string \<times> string) list" where
  "first_by_symbol seen [] = []"
| "first_by_symbol seen (r # rs) =
     (if fst r \<in> set seen then first_by_symbol seen rs else r # first_by_symbol (fst r # seen) rs)"

definition movers_universe :: "js_runtime \<Rightarrow> catalogue \<Rightarrow> ranking_snapshot option result \<Rightarrow> (string \<times> string) list" where
  "movers_universe J c stored =
     first_by_symbol [] (map (\<lambda>(r, s, n, m). (s, n)) (tt_entries (load_top100 J c stored)) @ concat (map se_companies (ct_sectors c)))"

record quoted_mover = mover +
  qm_name :: string
  qm_quote :: full_quote

definition mover_of :: "decimal_lib \<Rightarrow> (string \<times> full_quote) list \<Rightarrow> string \<times> string \<Rightarrow> quoted_mover option" where
  "mover_of D quotes r =
     (case map_of quotes (fst r) of
        None \<Rightarrow> None
      | Some q \<Rightarrow> map_option (\<lambda>(absolute, percent).
          \<lparr>mv_symbol = fst r, mv_percent = percent, qm_name = snd r, qm_quote = q\<rparr>) (change_texts D q))"

record movers_answer =
  mo_gainers :: "(string \<times> string \<times> api_quote) list"
  mo_losers :: "(string \<times> string \<times> api_quote) list"
  mo_period :: string
  mo_as_of :: string
  mo_market :: "market_status \<times> string"
  mo_chip :: freshness_chip

definition mover_row :: "decimal_lib \<Rightarrow> js_runtime \<Rightarrow> quoted_mover \<Rightarrow> string \<times> string \<times> api_quote" where
  "mover_row D J r = (mv_symbol r, qm_name r, quote_answer D J (qm_quote r))"

definition get_movers ::
    "decimal_lib \<Rightarrow> js_runtime \<Rightarrow> catalogue \<Rightarrow> ranking_snapshot option result \<Rightarrow> market_provider \<Rightarrow> time \<Rightarrow> movers_answer result" where
  "get_movers D J c stored feed now =
     (let universe = movers_universe J c stored
      in ebind (mp_quotes feed (map fst universe)) (\<lambda>quotes.
         ebind (mp_status feed) (\<lambda>(st, as_of).
         ebind (rank_movers (List.map_filter (mover_of D quotes) universe) movers_limit) (\<lambda>(gainers, losers).
           Inr \<lparr>mo_gainers = map (mover_row D J) gainers, mo_losers = map (mover_row D J) losers,
                mo_period = day_change_period st, mo_as_of = jd_iso J now, mo_market = (st, jd_iso J as_of),
                mo_chip = chip_of J now st (map qm_quote (gainers @ losers))\<rparr>))))"

section \<open>A known instrument without a quote\<close>

text \<open>What a request sees of the provider through the cache.\<close>

definition cached_feed :: "js_runtime \<Rightarrow> cache_env \<Rightarrow> cache_state \<Rightarrow> market_provider" where
  "cached_feed J env s =
     \<lparr>mp_quote = (\<lambda>x. fst (get_quote J env x s)), mp_quotes = (\<lambda>xs. fst (get_quotes J env xs s)),
      mp_candles = (\<lambda>x r. fst (get_candles J env x r s)), mp_status = fst (market_status_cached env s)\<rparr>"

lemma symbol_schema_trim: "symbol_schema s \<Longrightarrow> js_trim s = s \<and> js_trim (to_upper s) = to_upper s"
proof -
  assume "symbol_schema s"
  then have s: "s \<noteq> []" "list_all (\<lambda>c. is_letter c \<or> c = CHR ''.'' \<or> c = CHR ''-'') s" by (auto simp: symbol_schema_def)
  have no_space: "\<not> is_space c" "\<not> is_space (to_upper_char c)" if "is_letter c \<or> c = CHR ''.'' \<or> c = CHR ''-''" for c
    using that by (auto simp: is_letter_def is_space_def to_upper_char_def Let_def)
  have "\<not> is_space (hd s)" "\<not> is_space (last s)" "\<not> is_space (to_upper_char (hd s))" "\<not> is_space (to_upper_char (last s))"
    using s no_space by (auto simp: list_all_iff)
  with s(1) show ?thesis
    by (auto intro!: js_trim_bounded simp: to_upper_def hd_map last_map)
qed

lemma known_registered:
  assumes "symbol_schema raw" "get_by_symbol d (to_upper raw) = Some ins"
  shows "get_or_register quotes (to_upper raw) d = (Inr ins, d)"
  using assms(2) symbol_schema_trim[OF assms(1)] by (simp add: get_or_register_def Let_def)

text \<open>
  C32: The page of an unquoted instrument is lost behind the cache. For an instrument that is known but that the
  feed does not quote, the instrument page answers without a quote when it asks the feed itself. Through
  the cache, which the deployed provider always has, and with no fresh entry for the symbol, it depends on what was
  cached: if no instance has ever cached a quote of it the request fails, and its response is a 502; if an
  expired row is left, the page shows the quote of that row, however old it is.
\<close>

theorem unquoted_page:
  assumes "symbol_schema raw" "get_by_symbol d (to_upper raw) = Some ins"
    and "mp_quote (ce_inner env) (to_upper raw) = Inl UnknownSymbol" "mp_status (ce_inner env) = Inr (st, as_of)"
    and "ce_read env = Inr ()" "mp_status (cached_feed J env s) = Inr (st', as_of')"
    and "pred_option (\<lambda>(v, stale). stale \<le> ce_now env) (cs_memo s (quote_key (to_upper raw)))"
    and "find (\<lambda>r. cr_key r = quote_key (to_upper raw)) (cs_rows s) = row" "pred_option (\<lambda>r. cr_stale_after r \<le> ce_now env) row"
  shows "get_instrument_detail D J buffer (ce_inner env) now raw d
      = (Inr \<lparr>da_instrument = ins, da_quote = None, da_market = (st, jd_iso J as_of), da_freshness = None, da_buffer = buffer\<rparr>, d)
    \<and> (case row of
         None \<Rightarrow> get_instrument_detail D J buffer (cached_feed J env s) now raw d = (Inl ProviderUnavailable, d)
           \<and> ee_status (error_response ProviderUnavailable request_id) = 502
       | Some r \<Rightarrow> \<forall>q. payload_value J (cr_payload r) = Inr (Quote_value q) \<longrightarrow>
           get_instrument_detail D J buffer (cached_feed J env s) now raw d
           = (Inr \<lparr>da_instrument = ins, da_quote = Some (quote_answer D J q), da_market = (st', jd_iso J as_of'),
                 da_freshness = Some (display_freshness (quote.truncate q) now st'), da_buffer = buffer\<rparr>, d))"
proof -
  obtain s1 where status: "market_status_cached env s = (Inr (st', as_of'), s1)"
    using assms(6) by (cases "market_status_cached env s") (simp add: cached_feed_def)
  then have same: "cs_memo s1 = cs_memo s" "cs_rows s1 = cs_rows s"
    by (auto simp: market_status_cached_def Let_def split: option.splits if_splits sum.splits)
  have "\<exists>ttl. quote_ttl env s = (Inr ttl, s1)" by (simp add: quote_ttl_def status)
  then obtain ttl where ttl: "quote_ttl env s = (Inr ttl, s1)" ..
  have load: "ebind (mp_quote (ce_inner env) (to_upper raw)) (\<lambda>q. Inr (Quote_value q)) = Inl UnknownSymbol"
    by (simp add: assms(3))
  have rows: "from_rows env (quote_key (to_upper raw)) ttl (Inl UnknownSymbol) (value_payload J) (payload_value J) s1
      = (case row of None \<Rightarrow> Inl ProviderUnavailable | Some r \<Rightarrow> payload_value J (cr_payload r), s1)"
    using assms(5,8,9) same by (cases row) (simp_all add: from_rows_def load_fresh_def degrade_def unavailable_def)
  have "with_cache env (quote_key (to_upper raw)) ttl (Inl UnknownSymbol) (value_payload J) (payload_value J) s1
      = from_rows env (quote_key (to_upper raw)) ttl (Inl UnknownSymbol) (value_payload J) (payload_value J) s1"
    using assms(7) same by (auto simp: with_cache_def split: option.splits)
  then have q: "mp_quote (cached_feed J env s) (to_upper raw)
      = (case row of None \<Rightarrow> Inl ProviderUnavailable | Some r \<Rightarrow> ebind (payload_value J (cr_payload r)) as_quote)"
    by (cases row) (simp_all add: cached_feed_def get_quote_def ttl load rows to_upper_idem)
  have direct: "get_instrument_detail D J buffer (ce_inner env) now raw d
      = (Inr \<lparr>da_instrument = ins, da_quote = None, da_market = (st, jd_iso J as_of), da_freshness = None, da_buffer = buffer\<rparr>, d)"
    using assms(1,3,4) known_registered[OF assms(1,2)] by (simp add: get_instrument_detail_def quote_or_null_def)
  note detail = get_instrument_detail_def[of D J buffer "cached_feed J env s" now raw d] known_registered[OF assms(1,2)]
  show ?thesis
  proof (cases row)
    case None
    then have "get_instrument_detail D J buffer (cached_feed J env s) now raw d = (Inl ProviderUnavailable, d)"
      using assms(1) q by (simp add: detail quote_or_null_def)
    with direct None show ?thesis by (simp add: error_response_def to_app_error_def)
  next
    case (Some r)
    have "get_instrument_detail D J buffer (cached_feed J env s) now raw d
           = (Inr \<lparr>da_instrument = ins, da_quote = Some (quote_answer D J x), da_market = (st', jd_iso J as_of'),
                 da_freshness = Some (display_freshness (quote.truncate x) now st'), da_buffer = buffer\<rparr>, d)"
      if "payload_value J (cr_payload r) = Inr (Quote_value x)" for x
      using assms(1,6) q Some that by (simp add: detail quote_or_null_def as_quote_def)
    with direct Some show ?thesis by simp
  qed
qed

definition nope_db :: db where
  "nope_db = (empty_db 0)\<lparr>instruments := [\<lparr>ins_id = 1, ins_symbol = ''NOPE'', ins_name = ''Nope'', ins_exchange = ''NYSE'',
     ins_status = ''ACTIVE''\<rparr>], next_id := 2\<rparr>"

theorem unquoted_page_witness:
  "get_instrument_detail js_decimal tally_runtime ''0.05'' (cached_feed tally_runtime (steady_env 1000 (Inr ())) cold_cache) 1000 ''nope'' nope_db
    = (Inl ProviderUnavailable, nope_db)"
proof -
  have up: "to_upper ''nope'' = ''NOPE''" "symbol_schema ''nope''" "to_upper ''NOPE'' = ''NOPE''" by code_simp+
  have known: "get_by_symbol nope_db (to_upper ''nope'') = Some \<lparr>ins_id = 1, ins_symbol = ''NOPE'', ins_name = ''Nope'',
      ins_exchange = ''NYSE'', ins_status = ''ACTIVE''\<rparr>"
    unfolding get_by_symbol_def to_upper_idem up(1,3) by (simp add: nope_db_def)
  show ?thesis
    using unquoted_page[OF up(2) known, of "steady_env 1000 (Inr ())" Market_open 1000 tally_runtime cold_cache Market_open 1000 None js_decimal "''0.05''" 1000]
    by (simp add: up(1,3) steady_env_def steady_provider_def cold_cache_def cached_feed_def market_status_cached_def Let_def)
qed

section \<open>The pages of a list\<close>

lemma browse_parts:
  assumes "get_browse_list D J c stored number feed now slug param = Inr a"
  obtains page rows as_of where "page_schema number param = Inr page" "list_rows J c stored slug = Inr (rows, as_of)"
    "map fst (ba_instruments a) = take 25 (drop (page * 25) rows)" "ba_count a = length rows"
    "ba_next_page a = (if (page + 1) * 25 < length rows then Some (page + 1) else None)"
  using assms by (auto simp: get_browse_list_def result_simps Let_def browse_page_def comp_def)

text \<open>
  Following the pages of a browse list gives every row once. The page that is asked for holds its
  twenty-five rows in the order of the list; each page but the last names the next, and so the pages from zero
  to the last, put together, are the list, as long as it fits in forty-one pages.
\<close>

theorem browse_pages_partition:
  assumes "\<And>p. p \<le> k \<Longrightarrow> get_browse_list D J c stored number (feed p) (now p) slug (Some (texts p)) = Inr (answer p)"
    and "\<And>p. p \<le> k \<Longrightarrow> number (texts p) = Some (int p)"
    and "\<And>p. p < k \<Longrightarrow> ba_next_page (answer p) = Some (p + 1)" "ba_next_page (answer k) = None" "k \<le> 40"
  shows "\<exists>rows as_of. list_rows J c stored slug = Inr (rows, as_of)
    \<and> concat (map (\<lambda>p. map fst (ba_instruments (answer p))) [0..<Suc k]) = rows"
proof -
  have page: "page_schema number (Some (texts p)) = Inr p" if "p \<le> k" for p
    using assms(2)[OF that] assms(5) that by (simp add: page_schema_def)
  obtain rows as_of where rows: "list_rows J c stored slug = Inr (rows, as_of)"
    using browse_parts[OF assms(1)[OF order.refl]] by metis
  have answer: "map fst (ba_instruments (answer p)) = take 25 (drop (p * 25) rows)"
      "ba_next_page (answer p) = (if (p + 1) * 25 < length rows then Some (p + 1) else None)" if "p \<le> k" for p
    using assms(1)[OF that] page[OF that] rows by (auto elim!: browse_parts)
  have pages: "concat (map (\<lambda>p. map fst (ba_instruments (answer p))) [0..<n]) = take (n * 25) rows" if "n \<le> Suc k" for n
    using that
  proof (induction n)
    case (Suc n)
    have "take (Suc n * 25) rows = take (n * 25) rows @ take 25 (drop (n * 25) rows)"
      using take_add[of "n * 25" 25 rows] by (simp add: add.commute)
    with Suc show ?case using answer(1)[of n] by simp
  qed simp
  have "concat (map (\<lambda>p. map fst (ba_instruments (answer p))) [0..<Suc k]) = take (Suc k * 25) rows"
    by (rule pages[OF order.refl])
  moreover have "length rows \<le> Suc k * 25" using answer(2)[of k] assms(4) by (simp split: if_splits)
  ultimately show ?thesis using rows by simp
qed


section \<open>The movers that are shown\<close>

lemma oldest_of_least:
  assumes "q \<in> set qs"
  obtains z where "oldest_of qs = Some z" "z \<in> set qs" "qt_ts z \<le> qt_ts q"
proof -
  have "q \<in> set (sort_key qt_ts qs)" using assms by simp
  then obtain z zs where z: "sort_key qt_ts qs = z # zs" by (cases "sort_key qt_ts qs") auto
  have "sorted (map qt_ts (z # zs))" by (metis z sorted_sort_key)
  then have "\<forall>y \<in> set (z # zs). qt_ts z \<le> qt_ts y" by simp
  moreover have members: "set (z # zs) = set qs" by (metis z set_sort)
  ultimately have "qt_ts z \<le> qt_ts q" using assms by blast
  moreover have "z \<in> set qs" using members by auto
  moreover have "oldest_of qs = Some z" by (simp add: oldest_of_def head_of_def z)
  ultimately show thesis by (intro that)
qed

lemma older_is_staler:
  "qt_ts z \<le> qt_ts q \<Longrightarrow> staleness (display_freshness (quote.truncate q) now st) \<le> staleness (display_freshness (quote.truncate z) now st)"
  by (auto simp: display_freshness_def quote_age_ms_def quote.truncate_def Let_def display_aging_ms_def display_stale_ms_def)

text \<open>The chip of a list is as stale as the stalest quote in it.\<close>

lemma chip_governs:
  assumes "q \<in> set qs"
  shows "\<exists>f. fc_freshness (chip_of J now st qs) = Some f \<and> staleness (display_freshness (quote.truncate q) now st) \<le> staleness f"
proof -
  obtain z where "oldest_of qs = Some z" "qt_ts z \<le> qt_ts q" using oldest_of_least[OF assms] .
  with older_is_staler[of z q] show ?thesis by (simp add: chip_of_def)
qed

lemma mover_of_Some:
  "mover_of D quotes r = Some m \<Longrightarrow> mv_symbol m = fst r \<and> map_of quotes (mv_symbol m) = Some (qm_quote m)
    \<and> match_decimal (mv_percent m) \<noteq> None"
  by (auto simp: mover_of_def change_texts_def money_to_string_def match_fixed_text split: option.splits)

lemma in_movers: "m \<in> set (List.map_filter (mover_of D quotes) universe) \<Longrightarrow> \<exists>r \<in> set universe. mover_of D quotes r = Some m"
  by (auto simp: List.map_filter_def)

lemma movers_valid: "percents_valid (List.map_filter (mover_of D quotes) universe)"
  unfolding percents_valid_def list_all_iff using in_movers mover_of_Some by blast

lemma first_by_symbol_set:
  "set (first_by_symbol seen rs) \<subseteq> set rs" "fst ` set (first_by_symbol seen rs) \<inter> set seen = {}"
  "distinct (map fst (first_by_symbol seen rs))"
  by (induction seen rs rule: first_by_symbol.induct) auto

lemma movers_distinct:
  "distinct (map fst rs) \<Longrightarrow> distinct (map mv_symbol (List.map_filter (mover_of D quotes) rs))"
proof (induction rs)
  case (Cons r rs)
  have "mv_symbol m \<in> fst ` set rs" if "m \<in> set (List.map_filter (mover_of D quotes) rs)" for m
    using in_movers[OF that] mover_of_Some by force
  then have sub: "mv_symbol ` set (List.map_filter (mover_of D quotes) rs) \<subseteq> fst ` set rs" by (rule image_subsetI)
  show ?case
  proof (cases "mover_of D quotes r")
    case None
    with Cons show ?thesis by (simp add: List.map_filter_simps)
  next
    case (Some m)
    have "fst r \<notin> mv_symbol ` set (List.map_filter (mover_of D quotes) rs)" using sub Cons.prems by auto
    with Some Cons mover_of_Some[OF Some] show ?thesis by (simp add: List.map_filter_simps)
  qed
qed (simp add: List.map_filter_simps)

lemma unique_movers_distinct: "distinct (map mv_symbol cs) \<Longrightarrow> mv_symbol ` set cs \<inter> set seen = {} \<Longrightarrow> unique_movers seen cs = cs"
  by (induction seen cs rule: unique_movers.induct) auto

text \<open>
  The top movers are what they say. When the feed answers, so does the endpoint: each list shows at most
  five rows, of different symbols of the universe, all rising (falling) against their previous close, in order
  of the exact change; and the freshness that is printed over the lists is at least as stale as that of every
  quote in them.
\<close>

theorem movers_answer_honest:
  assumes "mp_quotes feed (map fst (movers_universe J c stored)) = Inr quotes" "mp_status feed = Inr (st, as_of)"
  shows "\<exists>a gainers losers. get_movers D J c stored feed now = Inr a
    \<and> mo_gainers a = map (mover_row D J) gainers \<and> mo_losers a = map (mover_row D J) losers
    \<and> extremes True 5 (List.map_filter (mover_of D quotes) (movers_universe J c stored)) gainers
    \<and> extremes False 5 (List.map_filter (mover_of D quotes) (movers_universe J c stored)) losers
    \<and> (\<forall>r \<in> set (gainers @ losers). map_of quotes (mv_symbol r) = Some (qm_quote r)
        \<and> (\<exists>f. fc_freshness (mo_chip a) = Some f
             \<and> staleness (display_freshness (quote.truncate (qm_quote r)) now st) \<le> staleness f))"
proof -
  let ?u = "movers_universe J c stored" and ?cs = "List.map_filter (mover_of D quotes) (movers_universe J c stored)"
  have "unique_movers [] ?cs = ?cs"
    by (rule unique_movers_distinct) (simp_all add: movers_distinct movers_universe_def first_by_symbol_set)
  then obtain g l where r: "rank_movers ?cs 5 = Inr (g, l)" "extremes True 5 ?cs g" "extremes False 5 ?cs l"
    using movers_are_extremes[OF movers_valid, of D quotes ?u 5] by auto
  have sub: "set (g @ l) \<subseteq> set ?cs" using r(2,3) by (auto simp: extremes_def)
  have "map_of quotes (mv_symbol m) = Some (qm_quote m)" if "m \<in> set ?cs" for m
    using in_movers[OF that] mover_of_Some by blast
  then have "\<forall>m \<in> set (g @ l). map_of quotes (mv_symbol m) = Some (qm_quote m)" using sub by blast
  moreover have "\<forall>m \<in> set (g @ l). \<exists>f. fc_freshness (chip_of J now st (map qm_quote (g @ l))) = Some f
      \<and> staleness (display_freshness (quote.truncate (qm_quote m)) now st) \<le> staleness f"
    by (intro ballI chip_governs) auto
  moreover have "get_movers D J c stored feed now = Inr \<lparr>mo_gainers = map (mover_row D J) g, mo_losers = map (mover_row D J) l,
      mo_period = day_change_period st, mo_as_of = jd_iso J now, mo_market = (st, jd_iso J as_of),
      mo_chip = chip_of J now st (map qm_quote (g @ l))\<rparr>"
    using r(1) assms by (simp add: get_movers_def Let_def movers_limit_def)
  ultimately show ?thesis using r(2,3) by (intro exI conjI) (assumption | simp)+
qed

definition demo_catalogue :: catalogue where
  "demo_catalogue = \<lparr>ct_sectors = [\<lparr>se_slug = ''tech'', se_name = ''Tech'', se_companies = [(''AAPL'', ''Apple''), (''MSFT'', ''Microsoft'')]\<rparr>],
     ct_seed = [(1, ''AAPL'', ''Apple'')], ct_seed_as_of = ''2026-07-01''\<rparr>"

theorem movers_answer_honest_witness:
  "\<exists>a. get_movers js_decimal tally_runtime demo_catalogue (Inr None) (steady_provider 1000) 2000 = Inr a
    \<and> length (mo_gainers a) \<le> 5 \<and> length (mo_losers a) \<le> 5"
  using movers_answer_honest[of "steady_provider 1000" tally_runtime demo_catalogue "Inr None"
      "map (\<lambda>x. (to_upper x, demo_full (to_upper x))) (map fst (movers_universe tally_runtime demo_catalogue (Inr None)))"
      Market_open 1000 js_decimal 2000]
  by (auto simp: steady_provider_def extremes_def)


end
