(* ===== verification/Watchlists.thy ===== *)
theory Watchlists
  imports Api_Market
begin

text \<open>
  Watchlists: the repository (\<^verbatim>\<open>src/infra/db/repositories/watchlists.ts\<close>), the handlers of
  \<^verbatim>\<open>src/server/api/portfolio.ts\<close>, and the quotes with sparklines (\<^verbatim>\<open>src/server/api/watchlist-quotes.ts\<close>), whose
  candles are loaded by a bounded number of workers. A world is the database and the two tables of the
  watchlists; each transaction is one function on them. What the framework decides is an argument, as in
  the order endpoints.
\<close>

section \<open>The tables\<close>

record watchlist =
  wl_id :: uuid
  wl_user :: uuid

record watchlist_item =
  wi_id :: uuid
  wi_list :: uuid
  wi_instrument :: uuid
  wi_sort :: int

record watch_store =
  wt_db :: db
  wt_lists :: "watchlist list"
  wt_items :: "watchlist_item list"
  wt_next :: uuid

text \<open>The primary keys and the unique indexes, with identifiers that are fresh.\<close>

definition watch_ok :: "watch_store \<Rightarrow> bool" where
  "watch_ok s \<longleftrightarrow> distinct (map wl_id (wt_lists s)) \<and> distinct (map wl_user (wt_lists s))
     \<and> distinct (map wi_id (wt_items s)) \<and> distinct (map (\<lambda>r. (wi_list r, wi_instrument r)) (wt_items s))
     \<and> list_all (\<lambda>r. wi_list r \<in> wl_id ` set (wt_lists s)) (wt_items s)
     \<and> list_all (\<lambda>r. wl_id r < wt_next s) (wt_lists s) \<and> list_all (\<lambda>r. wi_id r < wt_next s) (wt_items s)"

section \<open>The repository\<close>

definition get_or_create_for_user :: "uuid \<Rightarrow> watch_store \<Rightarrow> uuid \<times> watch_store" where
  "get_or_create_for_user u s =
     (case find (\<lambda>r. wl_user r = u) (wt_lists s) of
        Some r \<Rightarrow> (wl_id r, s)
      | None \<Rightarrow> (wt_next s, s\<lparr>wt_lists := wt_lists s @ [\<lparr>wl_id = wt_next s, wl_user = u\<rparr>], wt_next := wt_next s + 1\<rparr>))"

record watchlist_row =
  wr_id :: uuid
  wr_symbol :: string
  wr_name :: string
  wr_sort :: int

definition watchlist_rows :: "(string \<Rightarrow> nat list) \<Rightarrow> uuid \<Rightarrow> watch_store \<Rightarrow> watchlist_row list" where
  "watchlist_rows collation l s =
     sort_key (\<lambda>r. (wr_sort r, collation (wr_symbol r)))
       (List.map_filter (\<lambda>r. case find (\<lambda>i. ins_id i = wi_instrument r) (instruments (wt_db s)) of
            Some i \<Rightarrow> Some \<lparr>wr_id = wi_id r, wr_symbol = ins_symbol i, wr_name = ins_name i, wr_sort = wi_sort r\<rparr>
          | None \<Rightarrow> None) (filter (\<lambda>r. wi_list r = l) (wt_items s)))"

definition add_item :: "uuid \<Rightarrow> uuid \<Rightarrow> watch_store \<Rightarrow> watch_store" where
  "add_item l i s =
     (if list_ex (\<lambda>r. wi_list r = l \<and> wi_instrument r = i) (wt_items s) then s
      else s\<lparr>wt_items := wt_items s @ [\<lparr>wi_id = wt_next s, wi_list = l, wi_instrument = i, wi_sort = 0\<rparr>],
             wt_next := wt_next s + 1\<rparr>)"

definition remove_item :: "uuid \<Rightarrow> uuid \<Rightarrow> watch_store \<Rightarrow> watch_store" where
  "remove_item l item s = s\<lparr>wt_items := filter (\<lambda>r. \<not> (wi_id r = item \<and> wi_list r = l)) (wt_items s)\<rparr>"

section \<open>The handlers\<close>

record watch_answer =
  wa_row :: watchlist_row
  wa_quote :: "api_quote option"

definition get_watchlist ::
    "decimal_lib \<Rightarrow> js_runtime \<Rightarrow> (string \<Rightarrow> nat list) \<Rightarrow> market_provider \<Rightarrow> uuid \<Rightarrow> watch_store \<Rightarrow> watch_answer list result \<times> watch_store" where
  "get_watchlist D J collation feed u s =
     (case get_or_create_for_user u s of
        (l, s1) \<Rightarrow>
          let rows = watchlist_rows collation l s1
          in (ebind (if rows = [] then Inr [] else mp_quotes feed (map wr_symbol rows)) (\<lambda>quotes.
                Inr (map (\<lambda>r. \<lparr>wa_row = r, wa_quote = map_option (quote_answer D J) (map_of quotes (wr_symbol r))\<rparr>) rows)), s1))"

definition add_watchlist_item ::
    "decimal_lib \<Rightarrow> js_runtime \<Rightarrow> (string \<Rightarrow> nat list) \<Rightarrow> market_provider \<Rightarrow> uuid \<Rightarrow> string option \<Rightarrow> watch_store
     \<Rightarrow> watch_answer list result \<times> watch_store" where
  "add_watchlist_item D J collation feed u body s =
     (case body of
        None \<Rightarrow> (Inl (AppError VALIDATION None), s)
      | Some symbol \<Rightarrow>
          if \<not> symbol_schema symbol then (Inl (AppError VALIDATION None), s)
          else (case get_or_register (plain_quotes feed) symbol (wt_db s) of
              (Inl e, d) \<Rightarrow> (Inl e, s\<lparr>wt_db := d\<rparr>)
            | (Inr i, d) \<Rightarrow>
                (case get_or_create_for_user u (s\<lparr>wt_db := d\<rparr>) of
                   (l, s1) \<Rightarrow> get_watchlist D J collation feed u (add_item l (ins_id i) s1))))"

definition remove_watchlist_item ::
    "decimal_lib \<Rightarrow> js_runtime \<Rightarrow> (string \<Rightarrow> nat list) \<Rightarrow> market_provider \<Rightarrow> (string \<Rightarrow> uuid option) \<Rightarrow> uuid \<Rightarrow> string \<Rightarrow> watch_store
     \<Rightarrow> watch_answer list result \<times> watch_store" where
  "remove_watchlist_item D J collation feed uuid_of u item_id s =
     (case uuid_of item_id of
        None \<Rightarrow> (Inl (AppError NOT_FOUND None), s)
      | Some i \<Rightarrow>
          (case get_or_create_for_user u s of
             (l, s1) \<Rightarrow> get_watchlist D J collation feed u (remove_item l i s1)))"

section \<open>Lists of different users stay apart\<close>

definition watched :: "uuid \<Rightarrow> watch_store \<Rightarrow> (uuid \<times> uuid) list" where
  "watched u s = map (\<lambda>r. (wi_id r, wi_instrument r))
     (filter (\<lambda>r. list_ex (\<lambda>l. wl_id l = wi_list r \<and> wl_user l = u) (wt_lists s)) (wt_items s))"

lemma created_list:
  assumes "get_or_create_for_user u s = (l, s1)" "watch_ok s"
  shows "watch_ok s1" "\<exists>r \<in> set (wt_lists s1). wl_id r = l \<and> wl_user r = u" "watched v s1 = watched v s"
    "wt_db s1 = wt_db s" "wt_items s1 = wt_items s"
proof -
  have "watch_ok s1 \<and> (\<exists>r \<in> set (wt_lists s1). wl_id r = l \<and> wl_user r = u) \<and> watched v s1 = watched v s
      \<and> wt_db s1 = wt_db s \<and> wt_items s1 = wt_items s"
  proof (cases "find (\<lambda>r. wl_user r = u) (wt_lists s)")
    case (Some r)
    with assms show ?thesis by (auto simp: get_or_create_for_user_def dest: find_Some_in_set)
  next
    case None
    then have new: "\<forall>r \<in> set (wt_lists s). wl_user r \<noteq> u" by (auto simp: find_None_iff)
    have s1: "s1 = s\<lparr>wt_lists := wt_lists s @ [\<lparr>wl_id = wt_next s, wl_user = u\<rparr>], wt_next := wt_next s + 1\<rparr>" "l = wt_next s"
      using assms(1) None by (auto simp: get_or_create_for_user_def)
    have old: "wi_list r \<noteq> wt_next s" if "r \<in> set (wt_items s)" for r
      using assms(2) that by (fastforce simp: watch_ok_def list_all_iff)
    have "filter (\<lambda>r. list_ex (\<lambda>l. wl_id l = wi_list r \<and> wl_user l = v) (wt_lists s1)) (wt_items s)
        = filter (\<lambda>r. list_ex (\<lambda>l. wl_id l = wi_list r \<and> wl_user l = v) (wt_lists s)) (wt_items s)"
      by (rule filter_cong[OF refl]) (use old in \<open>force simp: s1\<close>)
    then have "watched v s1 = watched v s" unfolding watched_def by (simp add: s1)
    moreover have "watch_ok s1"
      using assms(2) new by (auto simp: watch_ok_def s1 list_all_iff less_Suc_eq)
    ultimately show ?thesis by (simp add: s1)
  qed
  then show "watch_ok s1" "\<exists>r \<in> set (wt_lists s1). wl_id r = l \<and> wl_user r = u" "watched v s1 = watched v s"
    "wt_db s1 = wt_db s" "wt_items s1 = wt_items s" by auto
qed

lemma list_of_user:
  assumes "watch_ok s" "r \<in> set (wt_lists s)" "wl_user r = u"
  shows "list_ex (\<lambda>l. wl_id l = k \<and> wl_user l = u) (wt_lists s) \<longleftrightarrow> k = wl_id r"
proof -
  have "inj_on wl_user (set (wt_lists s))" using assms(1) by (simp add: watch_ok_def distinct_map)
  then have one: "l = r" if "l \<in> set (wt_lists s)" "wl_user l = u" for l
    using inj_onD[of wl_user _ l r] that assms(2,3) by simp
  show ?thesis
  proof
    assume "list_ex (\<lambda>l. wl_id l = k \<and> wl_user l = u) (wt_lists s)"
    then obtain l where "l \<in> set (wt_lists s)" "wl_id l = k" "wl_user l = u" unfolding list_ex_iff by blast
    with one show "k = wl_id r" by simp
  qed (use assms(2,3) in \<open>simp add: list_ex_iff bexI[of _ r]\<close>)
qed

lemma watched_list:
  assumes "watch_ok s" "r \<in> set (wt_lists s)" "wl_user r = u"
  shows "watched u s = map (\<lambda>x. (wi_id x, wi_instrument x)) (filter (\<lambda>x. wi_list x = wl_id r) (wt_items s))"
  unfolding watched_def list_of_user[OF assms] ..

lemma list_ids: "watch_ok s \<Longrightarrow> r \<in> set (wt_lists s) \<Longrightarrow> r' \<in> set (wt_lists s) \<Longrightarrow> wl_id r = wl_id r' \<Longrightarrow> r = r'"
  using inj_onD[of wl_id "set (wt_lists s)" r r'] by (simp add: watch_ok_def distinct_map)

text \<open>What another user watches is in another list.\<close>

lemma other_list:
  assumes "watch_ok s" "r \<in> set (wt_lists s)" "wl_user r = u" "v \<noteq> u"
  shows "\<not> list_ex (\<lambda>l. wl_id l = wl_id r \<and> wl_user l = v) (wt_lists s)"
proof
  assume "list_ex (\<lambda>l. wl_id l = wl_id r \<and> wl_user l = v) (wt_lists s)"
  then obtain l where l: "l \<in> set (wt_lists s)" "wl_id l = wl_id r" "wl_user l = v" unfolding list_ex_iff by blast
  from list_ids[OF assms(1) l(1) assms(2) l(2)] l(3) assms(3,4) show False by simp
qed

lemma added_item:
  assumes "watch_ok s" "r \<in> set (wt_lists s)" "wl_user r = u"
  shows "watch_ok (add_item (wl_id r) i s)" "v \<noteq> u \<Longrightarrow> watched v (add_item (wl_id r) i s) = watched v s"
    "watched u (add_item (wl_id r) i s) = (if i \<in> snd ` set (watched u s) then watched u s else watched u s @ [(wt_next s, i)])"
proof -
  let ?s = "add_item (wl_id r) i s"
  let ?there = "list_ex (\<lambda>x. wi_list x = wl_id r \<and> wi_instrument x = i) (wt_items s)"
  have there: "?there \<longleftrightarrow> i \<in> snd ` set (watched u s)" unfolding watched_list[OF assms] by (force simp: list_ex_iff)
  show ok: "watch_ok ?s"
  proof (cases ?there)
    case False
    then have "(wl_id r, i) \<notin> (\<lambda>x. (wi_list x, wi_instrument x)) ` set (wt_items s)" by (auto simp: list_ex_iff)
    moreover have "wt_next s \<notin> wi_id ` set (wt_items s)" using assms(1) by (auto simp: watch_ok_def list_all_iff)
    ultimately show ?thesis using assms False by (auto simp: add_item_def watch_ok_def list_all_iff less_Suc_eq)
  qed (simp add: add_item_def assms(1))
  have lists: "wt_lists ?s = wt_lists s" by (simp add: add_item_def)
  show "watched v ?s = watched v s" if "v \<noteq> u"
    using other_list[OF assms that] by (simp add: watched_def add_item_def)
  show "watched u ?s = (if i \<in> snd ` set (watched u s) then watched u s else watched u s @ [(wt_next s, i)])"
    using assms(2,3) watched_list[OF ok, of r u] watched_list[OF assms]
    unfolding there[symmetric] by (simp add: add_item_def)
qed

lemma removed_item:
  assumes "watch_ok s" "r \<in> set (wt_lists s)" "wl_user r = u"
  shows "watch_ok (remove_item (wl_id r) i s)" "v \<noteq> u \<Longrightarrow> watched v (remove_item (wl_id r) i s) = watched v s"
    "watched u (remove_item (wl_id r) i s) = filter (\<lambda>x. fst x \<noteq> i) (watched u s)"
proof -
  let ?s = "remove_item (wl_id r) i s"
  show ok: "watch_ok ?s" using assms(1) by (auto simp: watch_ok_def remove_item_def distinct_map_filter list_all_iff)
  show "watched v ?s = watched v s" if "v \<noteq> u"
  proof -
    have "filter (\<lambda>x. list_ex (\<lambda>l. wl_id l = wi_list x \<and> wl_user l = v) (wt_lists s) \<and> \<not> (wi_id x = i \<and> wi_list x = wl_id r)) (wt_items s)
        = filter (\<lambda>x. list_ex (\<lambda>l. wl_id l = wi_list x \<and> wl_user l = v) (wt_lists s)) (wt_items s)"
      using other_list[OF assms that] by (intro filter_cong) auto
    then show ?thesis by (simp add: watched_def remove_item_def conj_commute)
  qed
  show "watched u ?s = filter (\<lambda>x. fst x \<noteq> i) (watched u s)"
    using watched_list[OF ok, of r u] assms(2,3) watched_list[OF assms]
    by (auto simp: remove_item_def filter_map comp_def intro!: arg_cong[where f = "map _"] filter_cong)
qed

text \<open>A request of a user: look at the list, watch what a body names, or take off the row of an id.\<close>

datatype watch_request = Look | Watch "string option" | Unwatch string

definition watch_call :: "decimal_lib \<Rightarrow> js_runtime \<Rightarrow> (string \<Rightarrow> nat list) \<Rightarrow> (string \<Rightarrow> uuid option) \<Rightarrow> market_provider
    \<Rightarrow> uuid \<Rightarrow> watch_request \<Rightarrow> watch_store \<Rightarrow> watch_answer list result \<times> watch_store" where
  "watch_call D J collation uuid_of feed u rq s =
     (case rq of
        Look \<Rightarrow> get_watchlist D J collation feed u s
      | Watch body \<Rightarrow> add_watchlist_item D J collation feed u body s
      | Unwatch item_id \<Rightarrow> remove_watchlist_item D J collation feed uuid_of u item_id s)"

text \<open>The instrument a body asks for: the one its symbol is registered as, if the request is accepted.\<close>

definition asked_instrument :: "market_provider \<Rightarrow> string option \<Rightarrow> db \<Rightarrow> uuid option" where
  "asked_instrument feed body d =
     (case body of
        None \<Rightarrow> None
      | Some symbol \<Rightarrow>
          if symbol_schema symbol
          then (case fst (get_or_register (plain_quotes feed) symbol d) of Inl _ \<Rightarrow> None | Inr ins \<Rightarrow> Some (ins_id ins))
          else None)"

text \<open>What a request makes of what its user watches.\<close>

definition own_change :: "(string \<Rightarrow> uuid option) \<Rightarrow> market_provider \<Rightarrow> db \<Rightarrow> watch_request \<Rightarrow> (uuid \<times> uuid) list \<Rightarrow> (uuid \<times> uuid) list \<Rightarrow> bool" where
  "own_change uuid_of feed d rq xs ys \<longleftrightarrow>
     (case rq of
        Look \<Rightarrow> ys = xs
      | Watch body \<Rightarrow>
          (case asked_instrument feed body d of
             None \<Rightarrow> ys = xs
           | Some i \<Rightarrow> if i \<in> snd ` set xs then ys = xs else \<exists>n. n \<notin> fst ` set xs \<and> ys = xs @ [(n, i)])
      | Unwatch item_id \<Rightarrow> (case uuid_of item_id of None \<Rightarrow> ys = xs | Some n \<Rightarrow> ys = filter (\<lambda>x. fst x \<noteq> n) xs))"

definition watch_step :: "(string \<Rightarrow> uuid option) \<Rightarrow> market_provider \<Rightarrow> uuid \<Rightarrow> watch_request \<Rightarrow> watch_store \<Rightarrow> watch_store \<Rightarrow> bool" where
  "watch_step uuid_of feed u rq s s' \<longleftrightarrow> watch_ok s' \<and> (\<forall>v. v \<noteq> u \<longrightarrow> watched v s' = watched v s)
     \<and> own_change uuid_of feed (wt_db s) rq (watched u s) (watched u s')"

lemma watch_read_step: "get_watchlist D J collation feed u s = (r, s') \<Longrightarrow> watch_ok s \<Longrightarrow> watch_ok s' \<and> (\<forall>v. watched v s' = watched v s)"
proof -
  assume g: "get_watchlist D J collation feed u s = (r, s')" and ok: "watch_ok s"
  obtain l s1 where c: "get_or_create_for_user u s = (l, s1)" by (rule prod.exhaust)
  from g have "s' = s1" by (simp add: get_watchlist_def c Let_def)
  with created_list(1,3)[OF c ok] show ?thesis by simp
qed

lemma watched_db [simp]: "watched u (s\<lparr>wt_db := d\<rparr>) = watched u s" "watch_ok (s\<lparr>wt_db := d\<rparr>) = watch_ok s"
  by (simp_all add: watched_def watch_ok_def)

lemma watched_fresh: "watch_ok s \<Longrightarrow> wt_next s \<notin> fst ` set (watched u s)"
  by (fastforce simp: watched_def watch_ok_def list_all_iff)

lemma watch_call_step: "watch_call D J collation uuid_of feed u rq s = (r, s') \<Longrightarrow> watch_ok s \<Longrightarrow> watch_step uuid_of feed u rq s s'"
proof (cases rq)
  case Look
  assume "watch_call D J collation uuid_of feed u rq s = (r, s')" "watch_ok s"
  with Look watch_read_step show ?thesis by (auto simp: watch_call_def watch_step_def own_change_def)
next
  case (Watch body)
  assume call: "watch_call D J collation uuid_of feed u rq s = (r, s')" and s: "watch_ok s"
  show ?thesis
  proof (cases "\<exists>symbol i d. body = Some symbol \<and> symbol_schema symbol \<and> get_or_register (plain_quotes feed) symbol (wt_db s) = (Inr i, d)")
    case False
    with call s Watch show ?thesis
      by (auto simp: watch_call_def own_change_def asked_instrument_def add_watchlist_item_def watch_step_def
          split: option.splits if_splits prod.splits sum.splits)
  next
    case True
    then obtain symbol i d where b: "body = Some symbol" "symbol_schema symbol" "get_or_register (plain_quotes feed) symbol (wt_db s) = (Inr i, d)"
      by blast
    then have asked: "asked_instrument feed body (wt_db s) = Some (ins_id i)" by (simp add: asked_instrument_def)
    obtain l s1 where c: "get_or_create_for_user u (s\<lparr>wt_db := d\<rparr>) = (l, s1)" by (rule prod.exhaust)
    have ok: "watch_ok (s\<lparr>wt_db := d\<rparr>)" using s by simp
    note created = created_list[OF c ok]
    obtain q where q: "q \<in> set (wt_lists s1)" "wl_id q = l" "wl_user q = u" using created(2) by blast
    have "get_watchlist D J collation feed u (add_item l (ins_id i) s1) = (r, s')"
      using call Watch b c by (simp add: watch_call_def add_watchlist_item_def)
    from watch_read_step[OF this] added_item[OF created(1) q(1,3)] watched_fresh[OF created(1), of u] created(3) q(2) Watch asked
    show ?thesis by (auto simp: watch_step_def own_change_def)
  qed
next
  case (Unwatch item_id)
  assume call: "watch_call D J collation uuid_of feed u rq s = (r, s')" and s: "watch_ok s"
  show ?thesis
  proof (cases "uuid_of item_id")
    case None
    with call s Unwatch show ?thesis by (auto simp: watch_call_def own_change_def remove_watchlist_item_def watch_step_def)
  next
    case (Some i)
    obtain l s1 where c: "get_or_create_for_user u s = (l, s1)" by (rule prod.exhaust)
    note created = created_list[OF c s]
    obtain q where q: "q \<in> set (wt_lists s1)" "wl_id q = l" "wl_user q = u" using created(2) by blast
    have "get_watchlist D J collation feed u (remove_item l i s1) = (r, s')"
      using call Unwatch Some c by (simp add: watch_call_def remove_watchlist_item_def)
    from watch_read_step[OF this] removed_item[OF created(1) q(1,3)] created(3) q(2) Unwatch Some
    show ?thesis by (auto simp: watch_step_def own_change_def)
  qed
qed

text \<open>
  C34: Nobody changes another user's watchlist. Over any calls of other users, with any feed and any ids, what a
  user watches stays exactly as it was, and the tables keep their keys. The user's own call does what it asks for:
  looking changes nothing; watching adds the instrument its symbol is registered as at the end, unless it is
  there already or the request is refused; taking off removes the row of the id that was given, and no other.
\<close>

theorem watchlists_stay_apart:
  assumes "(\<lambda>s s'. \<exists>feed u rq r. u \<noteq> v \<and> watch_call D J collation uuid_of feed u rq s = (r, s'))\<^sup>*\<^sup>* s s1"
    and "watch_call D J collation uuid_of feed v rq s1 = (r, s2)" "watch_ok s"
  shows "watch_ok s2 \<and> watched v s1 = watched v s
    \<and> own_change uuid_of feed (wt_db s1) rq (watched v s) (watched v s2)"
proof -
  have "watch_ok s1 \<and> watched v s1 = watched v s"
    using assms(1,3)
  proof (induction rule: rtranclp_induct)
    case (step y z)
    then show ?case using watch_call_step by (fastforce simp: watch_step_def)
  qed simp
  with watch_call_step[OF assms(2)] show ?thesis by (simp add: watch_step_def)
qed

text \<open>Two users watch the same instrument; the second tries to remove the row of the first.\<close>

definition shared_watch :: watch_store where
  "shared_watch = \<lparr>wt_db = empty_db 0, wt_lists = [\<lparr>wl_id = 1, wl_user = 7\<rparr>, \<lparr>wl_id = 2, wl_user = 8\<rparr>],
     wt_items = [\<lparr>wi_id = 3, wi_list = 1, wi_instrument = 9, wi_sort = 0\<rparr>, \<lparr>wi_id = 4, wi_list = 2, wi_instrument = 9, wi_sort = 0\<rparr>],
     wt_next = 5\<rparr>"

definition silent_feed :: market_provider where
  "silent_feed = \<lparr>mp_quote = (\<lambda>_. Inl ProviderUnavailable), mp_quotes = (\<lambda>_. Inl ProviderUnavailable),
     mp_candles = (\<lambda>_ _. Inl ProviderUnavailable), mp_status = Inl ProviderUnavailable\<rparr>"

theorem watchlists_stay_apart_witness:
  "\<exists>J r1 s1 r2 s2. watch_call js_decimal J (\<lambda>_. []) (\<lambda>_. Some 3) silent_feed 8 (Unwatch ''x'') shared_watch = (r1, s1)
     \<and> watch_call js_decimal J (\<lambda>_. []) (\<lambda>_. Some 3) silent_feed 7 (Unwatch ''x'') s1 = (r2, s2) \<and> watch_ok s2
     \<and> watched 7 s1 = [(3, 9)] \<and> watched 7 s2 = []"
proof -
  fix J :: js_runtime
  obtain r1 s1 where a: "watch_call js_decimal J (\<lambda>_. []) (\<lambda>_. Some 3) silent_feed 8 (Unwatch ''x'') shared_watch = (r1, s1)" by (rule prod.exhaust)
  obtain r2 s2 where b: "watch_call js_decimal J (\<lambda>_. []) (\<lambda>_. Some 3) silent_feed 7 (Unwatch ''x'') s1 = (r2, s2)" by (rule prod.exhaust)
  have ok: "watch_ok shared_watch" by (simp add: watch_ok_def shared_watch_def)
  have "(\<lambda>s s'. \<exists>feed u rq r. u \<noteq> 7 \<and> watch_call js_decimal J (\<lambda>_. []) (\<lambda>_. Some 3) feed u rq s = (r, s'))\<^sup>*\<^sup>* shared_watch s1"
    using a by (intro r_into_rtranclp exI[of _ silent_feed] exI[of _ 8] exI[of _ "Unwatch ''x''"] exI[of _ r1]) simp
  from watchlists_stay_apart[OF this b ok] have "watch_ok s2 \<and> watched 7 s1 = watched 7 shared_watch
      \<and> watched 7 s2 = filter (\<lambda>x. fst x \<noteq> 3) (watched 7 shared_watch)" by (simp add: own_change_def)
  then show ?thesis using a b
    by (intro exI[of _ J] exI[of _ r1] exI[of _ s1] exI[of _ r2] exI[of _ s2]) (simp add: watched_def shared_watch_def)
qed

end
