(* ===== verification/Watchlist_Quotes.thy ===== *)
theory Watchlist_Quotes
  imports Watchlists Fundamentals
begin

text \<open>
  \<^verbatim>\<open>src/server/api/watchlist-quotes.ts\<close>: the quotes and sparklines of a watchlist. The candles are loaded by a
  pool of workers that share one counter (\<open>mapWithConcurrency\<close>); the pool is a relation on its states, since
  the answers come in any order.
\<close>

section \<open>The pool\<close>

text \<open>A worker is at the head of its loop, waits for the answer of a call, or has left its loop.\<close>

datatype pool_worker = Looping | Calling nat | Finished

record 'r pool =
  po_next :: nat
  po_workers :: "pool_worker list"
  po_out :: "'r option list"

definition start_pool :: "'a list \<Rightarrow> nat \<Rightarrow> 'r pool" where
  "start_pool items limit = \<lparr>po_next = 0, po_workers = replicate (min limit (length items)) Looping,
     po_out = replicate (length items) None\<rparr>"

text \<open>\<open>may x y\<close>: the call for the item \<open>x\<close> may answer \<open>y\<close>.\<close>

inductive pool_step :: "('a \<Rightarrow> 'r \<Rightarrow> bool) \<Rightarrow> 'a list \<Rightarrow> 'r pool \<Rightarrow> 'r pool \<Rightarrow> bool"
    for may :: "'a \<Rightarrow> 'r \<Rightarrow> bool" and items :: "'a list" where
  take_item: "k < length (po_workers p) \<Longrightarrow> po_workers p ! k = Looping \<Longrightarrow> po_next p < length items \<Longrightarrow>
    pool_step may items p (p\<lparr>po_workers := (po_workers p)[k := Calling (po_next p)], po_next := po_next p + 1\<rparr>)"
| leave: "k < length (po_workers p) \<Longrightarrow> po_workers p ! k = Looping \<Longrightarrow> \<not> po_next p < length items \<Longrightarrow>
    pool_step may items p (p\<lparr>po_workers := (po_workers p)[k := Finished]\<rparr>)"
| answered: "k < length (po_workers p) \<Longrightarrow> po_workers p ! k = Calling i \<Longrightarrow> may (items ! i) y \<Longrightarrow>
    pool_step may items p (p\<lparr>po_workers := (po_workers p)[k := Looping], po_out := (po_out p)[i := Some y]\<rparr>)"

text \<open>\<open>Promise.all\<close>: every worker has returned.\<close>

definition pool_done :: "'r pool \<Rightarrow> bool" where
  "pool_done p \<longleftrightarrow> (\<forall>w \<in> set (po_workers p). w = Finished)"

section \<open>The handler\<close>

definition sparkline_for :: "market_provider \<Rightarrow> string \<Rightarrow> string list option" where
  "sparkline_for feed s =
     (case ebind (mp_candles feed s R1D) (\<lambda>cs. downsample_series (map cd_close cs) sparkline_max_points) of
        Inl _ \<Rightarrow> None
      | Inr closes \<Rightarrow> if length closes \<ge> 2 then Some closes else None)"

record watch_quote =
  wq_symbol :: string
  wq_quote :: "api_quote option"
  wq_sparkline :: "string list option"

record watch_quotes_answer =
  wqa_items :: "watch_quote list"
  wqa_period :: string
  wqa_market :: "market_status \<times> string"
  wqa_chip :: freshness_chip

definition get_watchlist_quotes ::
    "decimal_lib \<Rightarrow> js_runtime \<Rightarrow> (string \<Rightarrow> nat list) \<Rightarrow> market_provider \<Rightarrow> time \<Rightarrow> uuid \<Rightarrow> watch_store
     \<Rightarrow> watch_quotes_answer result \<times> watch_store" where
  "get_watchlist_quotes D J collation feed now u s =
     (case get_or_create_for_user u s of
        (l, s1) \<Rightarrow>
          let symbols = js_set (map wr_symbol (watchlist_rows collation l s1))
          in (ebind (if symbols = [] then Inr [] else mp_quotes feed symbols) (\<lambda>quotes.
              ebind (mp_status feed) (\<lambda>(st, as_of).
                let sparklines = map (\<lambda>x. if map_of quotes x \<noteq> None then sparkline_for feed x else None) symbols
                in Inr \<lparr>wqa_items = map (\<lambda>x. \<lparr>wq_symbol = x, wq_quote = map_option (quote_answer D J) (map_of quotes x),
                          wq_sparkline = (case map_of (zip symbols sparklines) x of Some (Some c) \<Rightarrow> Some c | _ \<Rightarrow> None)\<rparr>) symbols,
                        wqa_period = day_change_period st, wqa_market = (st, jd_iso J as_of),
                        wqa_chip = chip_of J now st (map snd quotes)\<rparr>)), s1))"

section \<open>The pool maps, within its limit\<close>

text \<open>Who holds which item, what the workers have left, and which answers are stored.\<close>

definition pool_shape :: "'a list \<Rightarrow> nat \<Rightarrow> 'r pool \<Rightarrow> bool" where
  "pool_shape items limit p \<longleftrightarrow> length (po_out p) = length items \<and> length (po_workers p) = min limit (length items)
     \<and> po_next p \<le> length items \<and> (Finished \<in> set (po_workers p) \<longrightarrow> po_next p = length items)"

definition one_caller :: "'r pool \<Rightarrow> bool" where
  "one_caller p \<longleftrightarrow> (\<forall>k i. k < length (po_workers p) \<and> po_workers p ! k = Calling i \<longrightarrow>
     i < po_next p \<and> (\<forall>j < length (po_workers p). po_workers p ! j = Calling i \<longrightarrow> j = k))"

definition answers_kept :: "('a \<Rightarrow> 'r \<Rightarrow> bool) \<Rightarrow> 'a list \<Rightarrow> 'r pool \<Rightarrow> bool" where
  "answers_kept may items p \<longleftrightarrow> (\<forall>i < po_next p. Calling i \<in> set (po_workers p) \<or> (\<exists>y. po_out p ! i = Some y \<and> may (items ! i) y))"

definition pool_inv :: "('a \<Rightarrow> 'r \<Rightarrow> bool) \<Rightarrow> 'a list \<Rightarrow> nat \<Rightarrow> 'r pool \<Rightarrow> bool" where
  "pool_inv may items limit p \<longleftrightarrow> pool_shape items limit p \<and> one_caller p \<and> answers_kept may items p"

lemma pool_start: "pool_inv may items limit (start_pool items limit)"
  by (auto simp: pool_inv_def pool_shape_def one_caller_def answers_kept_def start_pool_def)

lemma kept_update:
  assumes "k < length ws" "ws ! k = w" "w \<noteq> Calling i" "Calling i \<in> set ws"
  shows "Calling i \<in> set (ws[k := w'])"
proof -
  obtain j where j: "j < length ws" "ws ! j = Calling i" using assms(4) by (auto simp: in_set_conv_nth)
  then have "j \<noteq> k" using assms(2,3) by auto
  then have "ws[k := w'] ! j = Calling i" using j by simp
  then show ?thesis using j(1) by (metis length_list_update nth_mem)
qed

lemma shape_step: "pool_step may items p p' \<Longrightarrow> pool_shape items limit p \<Longrightarrow> pool_shape items limit p'"
  by (erule pool_step.cases) (auto simp: pool_shape_def dest!: set_update_subset_insert[THEN subsetD])

lemma one_callerI:
  assumes "\<And>k i. k < length (po_workers p) \<Longrightarrow> po_workers p ! k = Calling i \<Longrightarrow> i < po_next p"
    "\<And>j k i. j < length (po_workers p) \<Longrightarrow> k < length (po_workers p) \<Longrightarrow> po_workers p ! j = Calling i \<Longrightarrow> po_workers p ! k = Calling i \<Longrightarrow> j = k"
  shows "one_caller p"
  unfolding one_caller_def using assms by blast

lemma caller_step:
  assumes "pool_step may items p p'" "one_caller p"
  shows "one_caller p'"
proof -
  have below: "i < po_next p" if "k < length (po_workers p)" "po_workers p ! k = Calling i" for k i
    using assms(2) that unfolding one_caller_def by blast
  have single: "j = k" if "j < length (po_workers p)" "k < length (po_workers p)" "po_workers p ! j = Calling i" "po_workers p ! k = Calling i" for j k i
    using assms(2) that unfolding one_caller_def by blast
  from assms(1) show ?thesis
  proof (cases rule: pool_step.cases)
    case (take_item k)
    let ?ws = "(po_workers p)[k := Calling (po_next p)]"
    have old: "j = k \<and> i = po_next p \<or> j \<noteq> k \<and> po_workers p ! j = Calling i \<and> i < po_next p"
      if "j < length (po_workers p)" "?ws ! j = Calling i" for j i
      using that below[of j i] take_item(2) by (cases "j = k") auto
    show ?thesis
    proof (rule one_callerI)
      show "i < po_next p'" if "j < length (po_workers p')" "po_workers p' ! j = Calling i" for j i
        using old[of j i] that take_item(1) by auto
      show "j = m" if "j < length (po_workers p')" "m < length (po_workers p')" "po_workers p' ! j = Calling i" "po_workers p' ! m = Calling i" for j m i
        using old[of j i] old[of m i] single[of j m i] that take_item(1) by auto
    qed
  next
    case (leave k)
    then show ?thesis using below single by (intro one_callerI) (auto simp: nth_list_update split: if_splits)
  next
    case (answered k i y)
    then show ?thesis using below single by (intro one_callerI) (auto simp: nth_list_update split: if_splits)
  qed
qed

lemma answers_step:
  assumes "pool_step may items p p'" "pool_inv may items limit p"
  shows "answers_kept may items p'"
  using assms(1)
proof (cases rule: pool_step.cases)
  case (take_item k)
  have "Calling (po_next p) \<in> set ((po_workers p)[k := Calling (po_next p)])" using take_item(2) by (simp add: set_update_memI)
  then show ?thesis
    using take_item assms(2) kept_update[OF take_item(2,3)] by (auto simp: answers_kept_def pool_inv_def less_Suc_eq)
next
  case (leave k)
  then show ?thesis using assms(2) kept_update[OF leave(2,3)] by (auto simp: answers_kept_def pool_inv_def)
next
  case (answered k i y)
  have "\<exists>y'. ((po_out p)[i := Some y]) ! j = Some y' \<and> may (items ! j) y'"
    if "j < po_next p" "Calling j \<notin> set ((po_workers p)[k := Looping])" for j
  proof (cases "j = i")
    case True
    have "i < length (po_out p)" using assms(2) answered(2,3) by (fastforce simp: pool_inv_def one_caller_def pool_shape_def)
    then show ?thesis using True answered(4) by simp
  next
    case False
    then have "Calling j \<notin> set (po_workers p)" using kept_update[OF answered(2,3), of j] that(2) by auto
    then show ?thesis using assms(2) that(1) False by (auto simp: pool_inv_def answers_kept_def)
  qed
  then show ?thesis using answered(1) by (auto simp: answers_kept_def)
qed

lemma pool_keeps: "pool_step may items p p' \<Longrightarrow> pool_inv may items limit p \<Longrightarrow> pool_inv may items limit p'"
  using shape_step caller_step answers_step unfolding pool_inv_def by blast

text \<open>Every step uses up one unit of the work: two for each item that is not taken, and what the workers still do.\<close>

definition worker_work :: "pool_worker \<Rightarrow> nat" where
  "worker_work w = (case w of Looping \<Rightarrow> 1 | Calling _ \<Rightarrow> 2 | Finished \<Rightarrow> 0)"

definition pool_work :: "'a list \<Rightarrow> 'r pool \<Rightarrow> nat" where
  "pool_work items p = 2 * (length items - po_next p) + sum_list (map worker_work (po_workers p))"

lemma work_update:
  "k < length ws \<Longrightarrow> sum_list (map worker_work (ws[k := w])) + worker_work (ws ! k) = sum_list (map worker_work ws) + worker_work w"
proof (induction ws arbitrary: k)
  case (Cons x xs)
  then show ?case by (cases k) auto
qed simp

lemma step_works:
  assumes "pool_step may items p p'"
  shows "pool_work items p = Suc (pool_work items p')"
  using assms
proof (cases rule: pool_step.cases)
  case (take_item k)
  then show ?thesis using work_update[OF take_item(2), of "Calling (po_next p)"] by (simp add: pool_work_def worker_work_def)
next
  case (leave k)
  then show ?thesis using work_update[OF leave(2), of Finished] by (simp add: pool_work_def worker_work_def)
next
  case (answered k i y)
  then show ?thesis using work_update[OF answered(2), of Looping] by (simp add: pool_work_def worker_work_def)
qed

lemma steps_work: "(pool_step may items ^^ n) p p' \<Longrightarrow> pool_work items p = n + pool_work items p'"
  by (induction n arbitrary: p') (auto dest!: step_works)

lemma pool_steps_keep: "(pool_step may items ^^ n) p p' \<Longrightarrow> pool_inv may items limit p \<Longrightarrow> pool_inv may items limit p'"
  by (induction n arbitrary: p') (auto intro: pool_keeps)

lemma not_done_steps:
  assumes "\<not> pool_done p" "\<forall>x. \<exists>y. may x y"
  shows "\<exists>p'. pool_step may items p p'"
proof -
  obtain k where k: "k < length (po_workers p)" "po_workers p ! k \<noteq> Finished"
    using assms(1) by (auto simp: pool_done_def in_set_conv_nth)
  show ?thesis
  proof (cases "po_workers p ! k")
    case Looping
    then show ?thesis using take_item[OF k(1)] leave[OF k(1)] by blast
  next
    case (Calling i)
    obtain y where "may (items ! i) y" using assms(2) by blast
    then show ?thesis using answered[OF k(1) Calling] by blast
  qed (use k in simp)
qed

lemma done_work: "pool_done p \<Longrightarrow> po_next p = length items \<Longrightarrow> pool_work items p = 0"
  by (auto simp: pool_done_def pool_work_def worker_work_def sum_list_eq_0_iff)

text \<open>
  C35: The pool is a map. However the answers of the calls interleave, at most \<open>limit\<close> calls are in flight, never two
  for one item; as long as a worker is left something can happen; the run is over after exactly two steps per
  item and one per worker, and then the results are the answers to the items, in their order.
\<close>

theorem pool_maps:
  assumes "0 < limit" "\<forall>x. \<exists>y. may x y" "(pool_step may items ^^ n) (start_pool items limit) p"
  shows "length (filter (\<lambda>w. \<exists>i. w = Calling i) (po_workers p)) \<le> limit
    \<and> (\<forall>j k i. j < length (po_workers p) \<and> k < length (po_workers p) \<and> po_workers p ! j = Calling i \<and> po_workers p ! k = Calling i \<longrightarrow> j = k)
    \<and> (pool_done p \<longleftrightarrow> n = 2 * length items + min limit (length items))
    \<and> (if pool_done p then list_all2 (\<lambda>x r. \<exists>y. r = Some y \<and> may x y) items (po_out p) else \<exists>p'. pool_step may items p p')"
proof -
  have inv: "pool_inv may items limit p" by (rule pool_steps_keep[OF assms(3) pool_start])
  have work: "2 * length items + min limit (length items) = n + pool_work items p"
    using steps_work[OF assms(3)] by (simp add: pool_work_def start_pool_def worker_work_def sum_list_replicate)
  have all_taken: "po_next p = length items" if "pool_done p"
    using inv that assms(1) by (cases "po_workers p") (auto simp: pool_inv_def pool_shape_def pool_done_def)
  have few: "length (filter (\<lambda>w. \<exists>i. w = Calling i) (po_workers p)) \<le> limit"
    using inv length_filter_le[of _ "po_workers p"] by (auto simp: pool_inv_def pool_shape_def intro: le_trans)
  have over: "pool_done p \<longleftrightarrow> n = 2 * length items + min limit (length items)"
    using done_work[OF _ all_taken] not_done_steps[OF _ assms(2), of p items] step_works[of may items p] work by fastforce
  have result: "list_all2 (\<lambda>x r. \<exists>y. r = Some y \<and> may x y) items (po_out p)" if "pool_done p"
    using inv that all_taken[OF that]
    by (fastforce simp: list_all2_conv_all_nth pool_inv_def pool_shape_def answers_kept_def pool_done_def)
  show ?thesis using few inv over result not_done_steps[OF _ assms(2)] by (auto simp: pool_inv_def one_caller_def)
qed

theorem pool_maps_witness:
  "\<exists>p. (pool_step (\<lambda>x y. y = Suc x) [5, 6] ^^ 6) (start_pool [5 :: nat, 6] 6) p \<and> po_out p = [Some 6, Some 7]"
proof -
  let ?may = "\<lambda>x y :: nat. y = Suc x" and ?start = "start_pool [5, 6 :: nat] 6"
  note maps = pool_maps[of 6 ?may _ "[5, 6]", simplified]
  have run: "n \<le> 6 \<Longrightarrow> \<exists>p. (pool_step ?may [5, 6] ^^ n) ?start p" for n
  proof (induction n)
    case (Suc n)
    then obtain p where p: "(pool_step ?may [5, 6] ^^ n) ?start p" by auto
    with maps[OF p] Suc.prems obtain p' where "pool_step ?may [5, 6] p p'" by auto
    with p show ?case by auto
  qed (simp add: exI)
  then obtain p where p: "(pool_step ?may [5, 6] ^^ 6) ?start p" by blast
  have finished: "pool_done p" using maps[OF p] by simp
  have "list_all2 (\<lambda>x r. \<exists>y. r = Some y \<and> y = Suc x) [5, 6] (po_out p)"
    using maps[OF p] unfolding if_P[OF finished] by (elim conjE)
  with p show ?thesis by (intro exI[of _ p]) (auto simp: list_all2_Cons1)
qed

end
