(* ===== verification/Sec_Edgar.thy ===== *)
theory Sec_Edgar
  imports Ranking Fundamentals
begin

text \<open>
  The filings of the SEC (\<^verbatim>\<open>src/infra/sec-edgar/shares.ts\<close>): share counts from the bulk frames, the history
  of reported earnings, the industry code, and the pace of the requests. A JSON number is the rational it
  denotes; the quotient of two of them, and the text of a number beyond \<open>10\<^sup>2\<^sup>1\<close>, are arguments. A request is
  given by its reply.
\<close>

section \<open>Replies\<close>

datatype 'b reply = Unreachable | Reply nat "'b option"

text \<open>A reply without a body that parses is \<open>Reply n None\<close>.\<close>

definition sec_get :: "bool \<Rightarrow> 'b reply \<Rightarrow> 'b option result" where
  "sec_get allow404 r =
     (case r of
        Unreachable \<Rightarrow> Inl ProviderUnavailable
      | Reply status body \<Rightarrow>
          if status = 404 \<and> allow404 then Inr None
          else if \<not> (200 \<le> status \<and> status \<le> 299) then Inl ProviderUnavailable
          else (case body of None \<Rightarrow> Inl (JsError ''invalid JSON'') | Some b \<Rightarrow> Inr (Some b)))"

section \<open>Quarters\<close>

text \<open>The loop of \<open>recentQuarters\<close>, from a year and a quarter.\<close>

fun quarters_from :: "nat \<Rightarrow> nat \<Rightarrow> nat \<Rightarrow> string list" where
  "quarters_from y q 0 = []"
| "quarters_from y q (Suc n) =
     (''CY'' @ show_nat y @ ''Q'' @ show_nat q) # (if q - 1 = 0 then quarters_from (y - 1) 4 n else quarters_from y (q - 1) n)"

text \<open>The month counts from zero, as \<open>getUTCMonth\<close> does.\<close>

definition recent_quarters :: "nat \<Rightarrow> nat \<Rightarrow> nat \<Rightarrow> string list" where
  "recent_quarters year month count = quarters_from year (month div 3 + 1) count"

section \<open>Frames\<close>

record frame_row =
  fw_cik :: nat
  fw_name :: string
  fw_end :: string
  fw_val :: rat

definition max_age :: int where "max_age = 400 * day_ms"
definition max_float_age :: int where "max_float_age = 700 * day_ms"

definition frame_row_ok :: "js_runtime \<Rightarrow> time \<Rightarrow> int \<Rightarrow> frame_row \<Rightarrow> bool" where
  "frame_row_ok J now age r \<longleftrightarrow> fw_val r > 0 \<and> \<not> holds_for (jd_parse J (fw_end r)) (\<lambda>t. now - t > age)"

definition keep_latest :: "js_runtime \<Rightarrow> time \<Rightarrow> int \<Rightarrow> frame_row \<Rightarrow> (nat \<rightharpoonup> frame_row) \<Rightarrow> (nat \<rightharpoonup> frame_row)" where
  "keep_latest J now age r latest =
     (if \<not> frame_row_ok J now age r then latest
      else case latest (fw_cik r) of
          None \<Rightarrow> latest(fw_cik r \<mapsto> r)
        | Some prev \<Rightarrow> if fw_end r > fw_end prev then latest(fw_cik r \<mapsto> r) else latest)"

fun frames_from ::
    "js_runtime \<Rightarrow> (string \<Rightarrow> frame_row list reply) \<Rightarrow> time \<Rightarrow> int \<Rightarrow> string list \<Rightarrow> (nat \<rightharpoonup> frame_row) \<Rightarrow> (nat \<rightharpoonup> frame_row) result" where
  "frames_from J fetch now age [] latest = Inr latest"
| "frames_from J fetch now age (p # ps) latest =
     ebind (sec_get True (fetch p)) (\<lambda>body.
       frames_from J fetch now age ps (fold (keep_latest J now age) (case body of None \<Rightarrow> [] | Some rows \<Rightarrow> rows) latest))"

definition sec_frames ::
    "js_runtime \<Rightarrow> (string \<Rightarrow> frame_row list reply) \<Rightarrow> time \<Rightarrow> int \<Rightarrow> string list \<Rightarrow> (nat \<rightharpoonup> frame_row) result" where
  "sec_frames J fetch now age periods = frames_from J fetch now age periods Map.empty"

section \<open>Share counts\<close>

definition choose_count ::
    "(rat \<Rightarrow> rat \<Rightarrow> rat) \<Rightarrow> frame_row option \<Rightarrow> frame_row option \<Rightarrow> bool \<Rightarrow> (frame_row \<times> share_basis) option" where
  "choose_count quot c w multi =
     (case (c, w) of
        (Some x, Some y) \<Rightarrow>
          if \<not> multi then Some (x, Cover)
          else if quot (fw_val y) (fw_val x) > 50 \<or> quot (fw_val y) (fw_val x) < 1 / 2 then Some (x, Cover)
          else Some (y, Weighted_average)
      | (Some x, None) \<Rightarrow> Some (x, Cover)
      | (None, Some y) \<Rightarrow> Some (y, Weighted_average)
      | (None, None) \<Rightarrow> None)"

record ticker_row =
  tk_cik :: nat
  tk_ticker :: string
  tk_title :: string

definition is_capital :: "char \<Rightarrow> bool" where
  "is_capital c \<longleftrightarrow> (let n = of_char c :: nat in 65 \<le> n \<and> n \<le> 90)"

text \<open>\<^verbatim>\<open>^[A-Z]{1,5}(-[A-Z])?$\<close>\<close>

definition common_ticker :: "string \<Rightarrow> bool" where
  "common_ticker s =
     (let w = takeWhile is_capital s; r = dropWhile is_capital s
      in 1 \<le> length w \<and> length w \<le> 5 \<and> (r = [] \<or> (length r = 2 \<and> hd r = CHR ''-'' \<and> is_capital (r ! 1))))"

text \<open>The first hyphen becomes a point: \<^verbatim>\<open>BRK-B\<close> is \<^verbatim>\<open>BRK.B\<close>.\<close>

fun class_symbol :: "string \<Rightarrow> string" where
  "class_symbol [] = []"
| "class_symbol (c # s) = (if c = CHR ''-'' then CHR ''.'' # s else c # class_symbol s)"

record filer =
  fi_cik :: nat
  fi_title :: string
  fi_symbols :: "string list"

fun add_ticker :: "ticker_row \<Rightarrow> filer list \<Rightarrow> filer list" where
  "add_ticker t [] = [\<lparr>fi_cik = tk_cik t, fi_title = tk_title t, fi_symbols = [class_symbol (tk_ticker t)]\<rparr>]"
| "add_ticker t (f # fs) =
     (if fi_cik f = tk_cik t
      then (if class_symbol (tk_ticker t) \<in> set (fi_symbols f) then f
            else f\<lparr>fi_symbols := fi_symbols f @ [class_symbol (tk_ticker t)]\<rparr>) # fs
      else f # add_ticker t fs)"

definition filers_of :: "ticker_row list \<Rightarrow> filer list" where
  "filers_of rows = fold (\<lambda>t fs. if common_ticker (tk_ticker t) then add_ticker t fs else fs) rows []"

text \<open>\<open>Math.round\<close>: the next integer, halves upwards.\<close>

definition math_round :: "rat \<Rightarrow> int" where
  "math_round x = \<lfloor>x + 1 / 2\<rfloor>"

definition int_text :: "int \<Rightarrow> string" where
  "int_text n = (if n < 0 then ''-'' else []) @ show_nat (nat \<bar>n\<bar>)"

definition share_count_of ::
    "(rat \<Rightarrow> rat \<Rightarrow> rat) \<Rightarrow> (nat \<rightharpoonup> frame_row) \<Rightarrow> (nat \<rightharpoonup> frame_row) \<Rightarrow> (nat \<rightharpoonup> frame_row) \<Rightarrow> filer \<Rightarrow> share_count option result" where
  "share_count_of quot cover weighted floats f =
     (let pick = choose_count quot (cover (fi_cik f)) (weighted (fi_cik f)) (length (fi_symbols f) > 1)
      in case (pick, floats (fi_cik f)) of
           (None, None) \<Rightarrow> Inr None
         | (Some (row, basis), float) \<Rightarrow>
             ebind (qty_of_int (math_round (fw_val row))) (\<lambda>q.
             ebind (case float of None \<Rightarrow> Inr None
                    | Some r \<Rightarrow> ebind (money_from_string (int_text (math_round (fw_val r)))) (\<lambda>m. Inr (Some m))) (\<lambda>pf.
               Inr (Some \<lparr>sc_cik = show_nat (fi_cik f), sc_name = fi_title f, sc_tickers = fi_symbols f, sc_shares = Some q,
                          sc_as_of = fw_end row, sc_basis = basis, sc_float = pf\<rparr>)))
         | (None, Some r) \<Rightarrow>
             ebind (money_from_string (int_text (math_round (fw_val r)))) (\<lambda>m.
               Inr (Some \<lparr>sc_cik = show_nat (fi_cik f), sc_name = fi_title f, sc_tickers = fi_symbols f, sc_shares = None,
                          sc_as_of = fw_end r, sc_basis = No_basis, sc_float = Some m\<rparr>)))"

fun share_counts_of ::
    "(rat \<Rightarrow> rat \<Rightarrow> rat) \<Rightarrow> (nat \<rightharpoonup> frame_row) \<Rightarrow> (nat \<rightharpoonup> frame_row) \<Rightarrow> (nat \<rightharpoonup> frame_row) \<Rightarrow> filer list \<Rightarrow> share_count list result" where
  "share_counts_of quot cover weighted floats [] = Inr []"
| "share_counts_of quot cover weighted floats (f # fs) =
     ebind (share_count_of quot cover weighted floats f) (\<lambda>x.
     ebind (share_counts_of quot cover weighted floats fs) (\<lambda>xs. Inr (case x of None \<Rightarrow> xs | Some c \<Rightarrow> c # xs)))"

record sec_site =
  ss_tickers :: "ticker_row list reply"
  ss_cover :: "string \<Rightarrow> frame_row list reply"
  ss_weighted :: "string \<Rightarrow> frame_row list reply"
  ss_floats :: "string \<Rightarrow> frame_row list reply"

definition instants :: "string list \<Rightarrow> string list" where
  "instants qs = map (\<lambda>q. q @ ''I'') qs"

text \<open>The year and month are those of \<open>now\<close>.\<close>

definition list_share_counts ::
    "js_runtime \<Rightarrow> (rat \<Rightarrow> rat \<Rightarrow> rat) \<Rightarrow> sec_site \<Rightarrow> nat \<Rightarrow> nat \<Rightarrow> time \<Rightarrow> share_count list result" where
  "list_share_counts J quot site year month now =
     ebind (sec_get False (ss_tickers site)) (\<lambda>body.
       let filers = filers_of (case body of None \<Rightarrow> [] | Some rows \<Rightarrow> rows); quarters = recent_quarters year month 8
       in ebind (sec_frames J (ss_cover site) now max_age (instants (take 3 quarters))) (\<lambda>cover.
          ebind (sec_frames J (ss_weighted site) now max_age (take 3 (drop 1 quarters))) (\<lambda>weighted.
          ebind (sec_frames J (ss_floats site) now max_float_age (instants quarters)) (\<lambda>floats.
            share_counts_of quot cover weighted floats filers))))"

section \<open>Earnings and industry\<close>

record concept_fact =
  cf_start :: "string option"
  cf_end :: string
  cf_val :: "rat option"

text \<open>\<open>toFixed(4)\<close>: halves away from zero, and a minus sign whenever the number is negative.\<close>

definition to_fixed4 :: "(rat \<Rightarrow> string) \<Rightarrow> rat \<Rightarrow> string" where
  "to_fixed4 show_number x =
     (if \<bar>x\<bar> \<ge> 10 ^ 21 then show_number x
      else (if x < 0 then ''-'' else []) @ fixed_text 4 \<lfloor>\<bar>x\<bar> * 10 ^ 4 + 1 / 2\<rfloor>)"

text \<open>One fact per period, at the place of the first, with the value of the last; an empty date is no date.\<close>

definition period_key :: "eps_fact \<Rightarrow> string" where
  "period_key f = ef_start f @ ''/'' @ ef_end f"

fun put_fact :: "eps_fact \<Rightarrow> eps_fact list \<Rightarrow> eps_fact list" where
  "put_fact f [] = [f]"
| "put_fact f (g # gs) =
     (if period_key f = period_key g then f # gs else g # put_fact f gs)"

definition fact_of :: "(rat \<Rightarrow> string) \<Rightarrow> concept_fact \<Rightarrow> eps_fact option" where
  "fact_of show_number f =
     (case (cf_start f, cf_val f) of
        (Some s, Some v) \<Rightarrow> if s = [] then None else Some \<lparr>ef_start = s, ef_end = cf_end f, ef_value = to_fixed4 show_number v\<rparr>
      | _ \<Rightarrow> None)"

definition facts_by_period :: "(rat \<Rightarrow> string) \<Rightarrow> concept_fact list \<Rightarrow> eps_fact list" where
  "facts_by_period show_number facts = fold put_fact (List.map_filter (fact_of show_number) facts) []"

text \<open>The replies are those for diluted and for basic earnings; no unit of that name is an empty list.\<close>

definition eps_history :: "(rat \<Rightarrow> string) \<Rightarrow> concept_fact list reply \<Rightarrow> concept_fact list reply \<Rightarrow> eps_fact list option result" where
  "eps_history show_number diluted basic =
     ebind (sec_get True diluted) (\<lambda>body.
       case body of
         Some (f # fs) \<Rightarrow> Inr (Some (facts_by_period show_number (f # fs)))
       | _ \<Rightarrow> ebind (sec_get True basic) (\<lambda>body.
           case body of
             Some (f # fs) \<Rightarrow> Inr (Some (facts_by_period show_number (f # fs)))
           | _ \<Rightarrow> Inr None))"

definition industry_code ::
    "(string \<Rightarrow> string option reply) \<Rightarrow> string \<Rightarrow> (string \<rightharpoonup> string option) \<Rightarrow> string option result \<times> (string \<rightharpoonup> string option)" where
  "industry_code fetch cik cache =
     (case cache cik of
        Some code \<Rightarrow> (Inr code, cache)
      | None \<Rightarrow>
          (case sec_get True (fetch cik) of
             Inl e \<Rightarrow> (Inl e, cache)
           | Inr body \<Rightarrow>
               (let sic = (case body of Some (Some s) \<Rightarrow> if s = [] then None else Some s | _ \<Rightarrow> None)
                in (Inr sic, cache(cik \<mapsto> sic)))))"

section \<open>The pace\<close>

definition min_gap :: int where "min_gap = 120"

text \<open>
  When a request is sent that arrives at \<open>now\<close> at a client whose last request was sent at \<open>last\<close>; a timer fires
  \<open>late\<close> milliseconds after it is due.
\<close>

definition sent_at :: "time \<Rightarrow> time \<Rightarrow> nat \<Rightarrow> time" where
  "sent_at last_sent now late = (if last_sent + min_gap - now > 0 then last_sent + min_gap + int late else now)"

section \<open>The quarters are consecutive\<close>

definition quarter_label :: "nat \<Rightarrow> string" where
  "quarter_label k = ''CY'' @ show_nat (k div 4) @ ''Q'' @ show_nat (k mod 4 + 1)"

lemma quarters_from_labels: "q < 4 \<Longrightarrow> n \<le> 4 * y + q + 1 \<Longrightarrow> quarters_from y (q + 1) n = map (\<lambda>i. quarter_label (4 * y + q - i)) [0..<n]"
proof (induction n arbitrary: y q)
  case (Suc n)
  have label: "quarter_label (4 * y + q) = ''CY'' @ show_nat y @ ''Q'' @ show_nat (q + 1)" using Suc.prems by (simp add: quarter_label_def)
  have shift: "map (\<lambda>i. quarter_label (4 * y + q - i)) [0..<Suc n]
      = quarter_label (4 * y + q) # map (\<lambda>i. quarter_label (4 * y + q - Suc i)) [0..<n]"
    by (simp add: upt_conv_Cons map_Suc_upt[symmetric] comp_def del: upt_Suc)
  show ?case
  proof (cases "q = 0")
    case True
    show ?thesis
    proof (cases n)
      case 0
      then show ?thesis using label True by simp
    next
      case (Suc m)
      then have y: "0 < y" using Suc.prems True by simp
      then have "quarters_from (y - 1) (3 + 1) n = map (\<lambda>i. quarter_label (4 * (y - 1) + 3 - i)) [0..<n]"
        using Suc.prems True by (intro Suc.IH) auto
      moreover have "4 * (y - 1) + 3 - i = 4 * y + q - Suc i" for i using y True by arith
      ultimately show ?thesis unfolding shift label using True by simp
    qed
  next
    case False
    then have "quarters_from y (q - 1 + 1) n = map (\<lambda>i. quarter_label (4 * y + (q - 1) - i)) [0..<n]"
      using Suc.prems by (intro Suc.IH) auto
    moreover have "4 * y + (q - 1) - i = 4 * y + q - Suc i" for i using False by arith
    ultimately show ?thesis unfolding shift label using False by simp
  qed
qed simp

lemma recent_quarters_consecutive:
  assumes "month < 12" "n \<le> 4 * year + month div 3 + 1"
  shows "recent_quarters year month n = map (\<lambda>i. quarter_label (4 * year + month div 3 - i)) [0..<n]"
  unfolding recent_quarters_def using assms by (intro quarters_from_labels) auto

section \<open>A frame keeps the newest row of a filer\<close>

definition frame_rows :: "(string \<Rightarrow> frame_row list reply) \<Rightarrow> string list \<Rightarrow> frame_row list" where
  "frame_rows fetch periods = concat (map (\<lambda>p. case sec_get True (fetch p) of Inr (Some rows) \<Rightarrow> rows | _ \<Rightarrow> []) periods)"

definition newest_in :: "js_runtime \<Rightarrow> time \<Rightarrow> int \<Rightarrow> frame_row list \<Rightarrow> nat \<Rightarrow> frame_row option \<Rightarrow> bool" where
  "newest_in J now age rows c x \<longleftrightarrow>
     (case x of
        None \<Rightarrow> \<forall>r \<in> set rows. fw_cik r = c \<longrightarrow> \<not> frame_row_ok J now age r
      | Some r \<Rightarrow> r \<in> set rows \<and> fw_cik r = c \<and> frame_row_ok J now age r
          \<and> (\<forall>r' \<in> set rows. fw_cik r' = c \<longrightarrow> frame_row_ok J now age r' \<longrightarrow> fw_end r' \<le> fw_end r))"

lemma keep_latest_newest:
  assumes "\<forall>c. newest_in J now age seen c (m c)"
  shows "newest_in J now age (seen @ [r]) c (keep_latest J now age r m c)"
  using assms[rule_format, of c]
  by (auto simp: newest_in_def keep_latest_def less_imp_le not_less split: option.splits dest: order_trans[OF _ less_imp_le])

lemma fold_latest_newest:
  "\<forall>c. newest_in J now age seen c (m c) \<Longrightarrow> \<forall>c. newest_in J now age (seen @ rows) c (fold (keep_latest J now age) rows m c)"
proof (induction rows arbitrary: seen m)
  case (Cons r rows)
  then have "\<forall>c. newest_in J now age (seen @ [r]) c (keep_latest J now age r m c)" using keep_latest_newest by blast
  from Cons.IH[OF this] show ?case by simp
qed simp

lemma frames_newest:
  "frames_from J fetch now age ps m = Inr m' \<Longrightarrow> \<forall>c. newest_in J now age seen c (m c) \<Longrightarrow>
    \<forall>c. newest_in J now age (seen @ frame_rows fetch ps) c (m' c)"
proof (induction ps arbitrary: m seen)
  case (Cons p ps)
  then obtain body where b: "sec_get True (fetch p) = Inr body"
    "frames_from J fetch now age ps (fold (keep_latest J now age) (case body of None \<Rightarrow> [] | Some rows \<Rightarrow> rows) m) = Inr m'"
    by (auto simp: result_simps)
  from Cons.IH[OF b(2) fold_latest_newest[OF Cons.prems(2)]] b(1) show ?case
    by (cases body) (simp_all add: frame_rows_def)
qed (simp add: frame_rows_def)

lemma sec_frames_newest: "sec_frames J fetch now age ps = Inr m \<Longrightarrow> newest_in J now age (frame_rows fetch ps) c (m c)"
  using frames_newest[of J fetch now age ps Map.empty m "[]"] by (simp add: sec_frames_def newest_in_def)

lemma frames_answer: "\<forall>p \<in> set ps. \<exists>b. sec_get True (fetch p) = Inr b \<Longrightarrow> \<exists>m'. frames_from J fetch now age ps m = Inr m'"
  by (induction ps arbitrary: m) auto

section \<open>Share counts\<close>

definition filers_ok :: "filer list \<Rightarrow> bool" where
  "filers_ok fs \<longleftrightarrow> distinct (map fi_cik fs) \<and> (\<forall>f \<in> set fs. fi_symbols f \<noteq> [] \<and> distinct (fi_symbols f))"

lemma add_ticker_ciks: "fi_cik ` set (add_ticker t fs) = insert (tk_cik t) (fi_cik ` set fs)"
  by (induction fs) auto

lemma add_ticker_ok: "filers_ok fs \<Longrightarrow> filers_ok (add_ticker t fs)"
proof (induction fs)
  case (Cons f fs)
  then have "filers_ok (add_ticker t fs)" by (simp add: filers_ok_def)
  moreover have "fi_cik f \<notin> fi_cik ` set (add_ticker t fs)" if "fi_cik f \<noteq> tk_cik t"
    using Cons.prems that unfolding add_ticker_ciks by (simp add: filers_ok_def)
  ultimately show ?case using Cons.prems by (auto simp: filers_ok_def)
qed (simp add: filers_ok_def)

lemma filers_of_ok: "filers_ok (filers_of rows)"
proof -
  have "filers_ok fs \<Longrightarrow> filers_ok (fold (\<lambda>t fs. if common_ticker (tk_ticker t) then add_ticker t fs else fs) rows fs)" for fs
    by (induction rows arbitrary: fs) (simp_all add: add_ticker_ok)
  from this[of "[]"] show ?thesis unfolding filers_of_def by (simp add: filers_ok_def[of "[]"])
qed

lemma match_decimal_digits_only:
  assumes "list_all is_digit w" "w \<noteq> []"
  shows "match_decimal w = Some (False, w, [])"
proof -
  have "hd w \<noteq> CHR ''-''" using assms by (cases w) auto
  then show ?thesis using assms by (simp add: match_decimal_def Let_def takeWhile_all_digits dropWhile_all_digits)
qed

text \<open>The conversions of a positive number do not throw.\<close>

lemma rounded_positive:
  assumes "0 < x"
  shows "qty_of_int (math_round x) = Inr (nat (math_round x))" "money_from_string (int_text (math_round x)) = Inr (math_round x * 100)"
proof -
  have n: "0 \<le> math_round x" using assms by (simp add: math_round_def)
  then show "qty_of_int (math_round x) = Inr (nat (math_round x))" by (simp add: qty_of_int_def)
  let ?s = "show_nat (nat (math_round x))"
  have m: "match_decimal ?s = Some (False, ?s, [])" by (rule match_decimal_digits_only[OF show_nat_digits show_nat_nonempty])
  have "int_text (math_round x) = ?s" using n by (simp add: int_text_def)
  moreover have "scaled 2 ?s = math_round x * 100"
    using n by (simp add: scaled_def m Let_def pad_end_def)
  ultimately show "money_from_string (int_text (math_round x)) = Inr (math_round x * 100)"
    by (simp add: money_from_string_def money_re_def decimal_re_def m)
qed

lemma choose_count_cases:
  assumes "choose_count quot c w multi = Some (row, basis)"
  obtains "basis = Cover" "c = Some row" "w = None \<or> \<not> multi \<or> (\<exists>y. w = Some y \<and> (quot (fw_val y) (fw_val row) > 50 \<or> quot (fw_val y) (fw_val row) < 1 / 2))"
  | "basis = Weighted_average" "w = Some row" "c = None \<or> multi \<and> (\<exists>x. c = Some x \<and> \<not> (quot (fw_val row) (fw_val x) > 50 \<or> quot (fw_val row) (fw_val x) < 1 / 2))"
  using assms by (auto simp: choose_count_def split: option.splits if_splits)


definition positive_frame :: "(nat \<rightharpoonup> frame_row) \<Rightarrow> bool" where
  "positive_frame m \<longleftrightarrow> (\<forall>c r. m c = Some r \<longrightarrow> 0 < fw_val r)"

lemma positive_frameD: "positive_frame m \<Longrightarrow> m c = Some r \<Longrightarrow> 0 < fw_val r"
  by (simp add: positive_frame_def)

lemma share_count_answers:
  assumes "positive_frame cover" "positive_frame weighted" "positive_frame floats"
  obtains (none) "share_count_of quot cover weighted floats f = Inr None"
      "cover (fi_cik f) = None" "weighted (fi_cik f) = None" "floats (fi_cik f) = None"
  | (counted) c where "share_count_of quot cover weighted floats f = Inr (Some c)"
      "sc_cik c = show_nat (fi_cik f)" "sc_tickers c = fi_symbols f" "sc_name c = fi_title f"
      "sc_float c = map_option (\<lambda>r. math_round (fw_val r) * 100) (floats (fi_cik f))"
      "case choose_count quot (cover (fi_cik f)) (weighted (fi_cik f)) (length (fi_symbols f) > 1) of
         None \<Rightarrow> sc_shares c = None
       | Some (row, basis) \<Rightarrow> sc_shares c = Some (nat (math_round (fw_val row))) \<and> sc_as_of c = fw_end row \<and> sc_basis c = basis"
proof (cases "choose_count quot (cover (fi_cik f)) (weighted (fi_cik f)) (length (fi_symbols f) > 1)")
  case None
  then have both: "cover (fi_cik f) = None" "weighted (fi_cik f) = None"
    by (auto simp: choose_count_def split: option.splits if_splits)
  show thesis
  proof (cases "floats (fi_cik f)")
    case (Some r)
    show thesis
      by (rule counted[of "\<lparr>sc_cik = show_nat (fi_cik f), sc_name = fi_title f, sc_tickers = fi_symbols f, sc_shares = None,
              sc_as_of = fw_end r, sc_basis = No_basis, sc_float = Some (math_round (fw_val r) * 100)\<rparr>"])
         (simp_all add: share_count_of_def None Some rounded_positive[OF positive_frameD[OF assms(3) Some]] del: One_nat_def)
  qed (use none both None in \<open>simp add: share_count_of_def del: One_nat_def\<close>)
next
  case (Some p)
  obtain row basis where p: "p = (row, basis)" by (rule prod.exhaust)
  have "0 < fw_val row" using Some[unfolded p] by (rule choose_count_cases) (use assms positive_frameD in blast)+
  note shares = rounded_positive(1)[OF this]
  show thesis
  proof (cases "floats (fi_cik f)")
    case None
    show thesis
      by (rule counted[of "\<lparr>sc_cik = show_nat (fi_cik f), sc_name = fi_title f, sc_tickers = fi_symbols f, sc_shares = Some (nat (math_round (fw_val row))),
              sc_as_of = fw_end row, sc_basis = basis, sc_float = None\<rparr>"])
         (simp_all add: share_count_of_def Some p None shares del: One_nat_def)
  next
    case fl: (Some r)
    show thesis
      by (rule counted[of "\<lparr>sc_cik = show_nat (fi_cik f), sc_name = fi_title f, sc_tickers = fi_symbols f, sc_shares = Some (nat (math_round (fw_val row))),
              sc_as_of = fw_end row, sc_basis = basis, sc_float = Some (math_round (fw_val r) * 100)\<rparr>"])
         (simp_all add: share_count_of_def Some p fl shares rounded_positive(2)[OF positive_frameD[OF assms(3) fl]] del: One_nat_def)
  qed
qed

lemma share_counts_answer:
  assumes "positive_frame cover" "positive_frame weighted" "positive_frame floats"
  shows "\<exists>out. share_counts_of quot cover weighted floats fs = Inr out
    \<and> out = List.map_filter (\<lambda>f. projr (share_count_of quot cover weighted floats f)) fs"
proof (induction fs)
  case (Cons f fs)
  then obtain out where "share_counts_of quot cover weighted floats fs = Inr out"
    "out = List.map_filter (\<lambda>f. projr (share_count_of quot cover weighted floats f)) fs" by blast
  moreover have "\<exists>x. share_count_of quot cover weighted floats f = Inr x" by (rule share_count_answers[OF assms]) blast+
  ultimately show ?case by (auto simp: map_filter_simps)
qed (simp add: map_filter_simps)

lemma sec_frames_positive:
  assumes "sec_frames J fetch now age ps = Inr m"
  shows "positive_frame m"
  unfolding positive_frame_def
proof (intro allI impI)
  fix c r assume "m c = Some r"
  with sec_frames_newest[OF assms, of c] show "0 < fw_val r" by (simp add: newest_in_def frame_row_ok_def)
qed

lemma distinct_map_filter_key:
  assumes "\<And>f c. g f = Some c \<Longrightarrow> sc_cik c = show_nat (fi_cik f)" "distinct (map fi_cik fs)"
  shows "distinct (map sc_cik (List.map_filter g fs)) \<and> sc_cik ` set (List.map_filter g fs) \<subseteq> (\<lambda>f. show_nat (fi_cik f)) ` set fs"
  using assms(2)
proof (induction fs)
  case (Cons f fs)
  show ?case
  proof (cases "g f")
    case None
    then show ?thesis using Cons by (auto simp: map_filter_simps)
  next
    case (Some c)
    have "show_nat (fi_cik f) \<notin> (\<lambda>f. show_nat (fi_cik f)) ` set fs" using Cons.prems by (auto simp: show_nat_inject)
    then show ?thesis using Cons Some assms(1)[OF Some] by (auto simp: map_filter_simps)
  qed
qed (simp add: map_filter_simps)

text \<open>The rows the code asks for, per concept.\<close>

definition cover_rows :: "sec_site \<Rightarrow> nat \<Rightarrow> nat \<Rightarrow> frame_row list" where
  "cover_rows site year month = frame_rows (ss_cover site) (instants (take 3 (recent_quarters year month 8)))"

definition weighted_rows :: "sec_site \<Rightarrow> nat \<Rightarrow> nat \<Rightarrow> frame_row list" where
  "weighted_rows site year month = frame_rows (ss_weighted site) (take 3 (drop 1 (recent_quarters year month 8)))"

definition site_answers :: "sec_site \<Rightarrow> ticker_row list \<Rightarrow> bool" where
  "site_answers site rows \<longleftrightarrow> sec_get False (ss_tickers site) = Inr (Some rows)
     \<and> (\<forall>q. \<exists>a b c. sec_get True (ss_cover site q) = Inr a \<and> sec_get True (ss_weighted site q) = Inr b \<and> sec_get True (ss_floats site q) = Inr c)"

text \<open>
  A share count is the newest one the filings have, of the right kind. When the requests are answered, so is the
  list, whatever the rows hold: no filer twice, and a filer's count is the rounded value of its newest acceptable
  row (positive, at most 400 days old) of the cover pages or of the weighted averages; a filer with one class of
  shares is counted by its cover page whenever it has an acceptable one, by a weighted average only otherwise; and a
  filer that is listed without a count has no acceptable row of either kind.
\<close>

theorem share_counts_current:
  assumes "site_answers site rows"
  shows "\<exists>out. list_share_counts J quot site year month now = Inr out \<and> distinct (map sc_cik out)
    \<and> (\<forall>c \<in> set out. \<exists>f \<in> set (filers_of rows). sc_cik c = show_nat (fi_cik f) \<and> sc_tickers c = fi_symbols f
        \<and> (case sc_shares c of
             None \<Rightarrow> newest_in J now max_age (cover_rows site year month) (fi_cik f) None
                 \<and> newest_in J now max_age (weighted_rows site year month) (fi_cik f) None
           | Some q \<Rightarrow> \<exists>r. q = nat (math_round (fw_val r)) \<and> sc_as_of c = fw_end r
                 \<and> newest_in J now max_age (if sc_basis c = Cover then cover_rows site year month else weighted_rows site year month) (fi_cik f) (Some r)
                 \<and> (length (fi_symbols f) = 1 \<longrightarrow> sc_basis c \<noteq> Cover \<longrightarrow>
                      newest_in J now max_age (cover_rows site year month) (fi_cik f) None)))"
proof -
  let ?q = "recent_quarters year month 8"
  obtain cover weighted floats where
    m: "sec_frames J (ss_cover site) now max_age (instants (take 3 ?q)) = Inr cover"
       "sec_frames J (ss_weighted site) now max_age (take 3 (drop 1 ?q)) = Inr weighted"
       "sec_frames J (ss_floats site) now max_float_age (instants ?q) = Inr floats"
    using assms frames_answer unfolding sec_frames_def site_answers_def by metis
  note newest = m[THEN sec_frames_newest]
  have pos: "positive_frame cover" "positive_frame weighted" "positive_frame floats"
    by (rule sec_frames_positive[OF m(1)], rule sec_frames_positive[OF m(2)], rule sec_frames_positive[OF m(3)])
  let ?count = "share_count_of quot cover weighted floats"
  obtain out where out: "share_counts_of quot cover weighted floats (filers_of rows) = Inr out"
    "out = List.map_filter (\<lambda>f. projr (?count f)) (filers_of rows)"
    using share_counts_answer[OF pos] by blast
  have answer: "list_share_counts J quot site year month now = Inr out"
    using assms m out(1) by (simp add: list_share_counts_def site_answers_def Let_def)
  have cik: "sc_cik c = show_nat (fi_cik f)" if "projr (?count f) = Some c" for f c
    using that by (cases rule: share_count_answers[OF pos, where quot = quot and f = f]) simp_all
  have once: "distinct (map sc_cik out)"
    using filers_of_ok[of rows] distinct_map_filter_key[of "\<lambda>f. projr (?count f)" "filers_of rows", OF cik] unfolding out(2) filers_ok_def by blast
  have "\<exists>f \<in> set (filers_of rows). sc_cik c = show_nat (fi_cik f) \<and> sc_tickers c = fi_symbols f
        \<and> (case sc_shares c of
             None \<Rightarrow> newest_in J now max_age (cover_rows site year month) (fi_cik f) None
                 \<and> newest_in J now max_age (weighted_rows site year month) (fi_cik f) None
           | Some q \<Rightarrow> \<exists>r. q = nat (math_round (fw_val r)) \<and> sc_as_of c = fw_end r
                 \<and> newest_in J now max_age (if sc_basis c = Cover then cover_rows site year month else weighted_rows site year month) (fi_cik f) (Some r)
                 \<and> (length (fi_symbols f) = 1 \<longrightarrow> sc_basis c \<noteq> Cover \<longrightarrow>
                      newest_in J now max_age (cover_rows site year month) (fi_cik f) None))"
    if c: "c \<in> set out" for c
  proof -
    obtain f where f: "f \<in> set (filers_of rows)" "projr (?count f) = Some c"
      using c unfolding out(2) by (auto simp: List.map_filter_def)
    let ?pick = "choose_count quot (cover (fi_cik f)) (weighted (fi_cik f)) (length (fi_symbols f) > 1)"
    have parts: "sc_cik c = show_nat (fi_cik f) \<and> sc_tickers c = fi_symbols f
      \<and> (case ?pick of None \<Rightarrow> sc_shares c = None
         | Some (row, basis) \<Rightarrow> sc_shares c = Some (nat (math_round (fw_val row))) \<and> sc_as_of c = fw_end row \<and> sc_basis c = basis)"
      using f(2) by (cases rule: share_count_answers[OF pos, where quot = quot and f = f]) simp_all
    show ?thesis
    proof (cases ?pick)
      case None
      then have "cover (fi_cik f) = None" "weighted (fi_cik f) = None"
        by (auto simp: choose_count_def split: option.splits if_splits)
      then show ?thesis using f(1) parts None newest[of "fi_cik f"]
        by (intro bexI[of _ f]) (simp_all add: cover_rows_def weighted_rows_def)
    next
      case (Some p)
      obtain row basis where p: "p = (row, basis)" by (rule prod.exhaust)
      from Some[unfolded p] show ?thesis
      proof (cases rule: choose_count_cases)
        case 1
        then show ?thesis using f(1) parts Some p newest(1)[of "fi_cik f"]
          by (intro bexI[of _ f]) (simp_all add: cover_rows_def exI[of _ row])
      next
        case 2
        then show ?thesis using f(1) parts Some p newest(1,2)[of "fi_cik f"]
          by (intro bexI[of _ f]) (auto simp: cover_rows_def weighted_rows_def)
      qed
    qed
  qed
  then show ?thesis using answer once by blast
qed


section \<open>The earnings history\<close>

lemma put_fact_keys: "period_key ` set (put_fact f gs) = insert (period_key f) (period_key ` set gs)"
  by (induction gs) auto

lemma put_fact_set:
  "distinct (map period_key gs) \<Longrightarrow> set (put_fact f gs) = insert f {g \<in> set gs. period_key g \<noteq> period_key f}"
proof (induction gs)
  case (Cons g gs)
  have "period_key h \<noteq> period_key g" if "h \<in> set gs" for h
    using Cons.prems imageI[OF that, of period_key] by auto
  then show ?case using Cons by auto
qed simp

lemma put_fact_distinct: "distinct (map period_key gs) \<Longrightarrow> distinct (map period_key (put_fact f gs))"
proof (induction gs)
  case (Cons g gs)
  have "period_key g \<notin> period_key ` set (put_fact f gs)" if "period_key f \<noteq> period_key g"
    using Cons.prems that unfolding put_fact_keys by auto
  then show ?case using Cons by auto
qed simp

text \<open>What is kept of each period is the fact that was listed last.\<close>

lemma fold_put_fact:
  "distinct (map period_key gs) \<Longrightarrow> distinct (map period_key (fold put_fact fs gs))
    \<and> set (fold put_fact fs gs) = {f. \<exists>ys zs. gs @ fs = ys @ f # zs \<and> period_key f \<notin> period_key ` set zs}"
proof (induction fs rule: rev_induct)
  case Nil
  have "(\<exists>ys zs. gs = ys @ f # zs \<and> period_key f \<notin> period_key ` set zs) \<longleftrightarrow> f \<in> set gs" for f
    using Nil by (auto simp: in_set_conv_decomp) fastforce
  then show ?case using Nil by auto
next
  case (snoc x fs)
  then have IH: "distinct (map period_key (fold put_fact fs gs))"
    "set (fold put_fact fs gs) = {f. \<exists>ys zs. gs @ fs = ys @ f # zs \<and> period_key f \<notin> period_key ` set zs}" by blast+
  have "(\<exists>ys zs. gs @ fs @ [x] = ys @ f # zs \<and> period_key f \<notin> period_key ` set zs)
      \<longleftrightarrow> f = x \<or> period_key f \<noteq> period_key x \<and> (\<exists>ys zs. gs @ fs = ys @ f # zs \<and> period_key f \<notin> period_key ` set zs)" (is "?l \<longleftrightarrow> ?r") for f
  proof
    assume ?l
    then obtain ys zs where d: "gs @ fs @ [x] = ys @ f # zs" "period_key f \<notin> period_key ` set zs" by blast
    show ?r
    proof (cases zs rule: rev_cases)
      case (snoc zs' z)
      with d have "(gs @ fs) @ [x] = (ys @ f # zs') @ [z]" by simp
      then have "gs @ fs = ys @ f # zs'" "x = z" by blast+
      then show ?thesis using d(2) snoc by auto
    qed (use d in simp)
  next
    assume ?r
    then show ?l
    proof
      assume "f = x"
      then show ?l by (intro exI[of _ "gs @ fs"] exI[of _ "[]"]) simp
    next
      assume "period_key f \<noteq> period_key x \<and> (\<exists>ys zs. gs @ fs = ys @ f # zs \<and> period_key f \<notin> period_key ` set zs)"
      then obtain ys zs where "period_key f \<noteq> period_key x" "gs @ fs = ys @ f # zs" "period_key f \<notin> period_key ` set zs" by blast
      then show ?l by (intro exI[of _ ys] exI[of _ "zs @ [x]"]) (simp add: append_assoc[symmetric] del: append_assoc)
    qed
  qed
  then show ?case using IH put_fact_set[OF IH(1), of x] put_fact_distinct[OF IH(1), of x] by auto
qed

definition ten_thousandths :: "rat \<Rightarrow> int" where
  "ten_thousandths x = (let u = \<lfloor>\<bar>x\<bar> * 10 ^ 4 + 1 / 2\<rfloor> in if x < 0 then - u else u)"

lemma to_fixed4_units:
  assumes "\<bar>x\<bar> < 10 ^ 21"
  shows "eps_units (to_fixed4 show_number x) = Inr (ten_thousandths x)"
proof -
  define u where "u = \<lfloor>\<bar>x\<bar> * 10 ^ 4 + 1 / 2\<rfloor>"
  have pos: "0 \<le> u" by (simp add: u_def)
  have printed: "to_fixed4 show_number x = (if x < 0 then ''-'' else []) @ fixed_text 4 u"
    using assms by (simp add: to_fixed4_def u_def del: abs_of_neg)
  have ten: "ten_thousandths x = (if x < 0 then - u else u)" by (simp only: ten_thousandths_def u_def Let_def)
  show ?thesis
  proof (cases "x < 0 \<and> u = 0")
    case True
    have "fixed_text 4 0 = ''0.0000''" by code_simp
    moreover have "eps_units ''-0.0000'' = Inr 0" by code_simp
    ultimately show ?thesis using True printed ten by simp
  next
    case False
    have "to_fixed4 show_number x = fixed_text 4 (if x < 0 then - u else u)"
      unfolding printed using False pos by (auto simp: fixed_text_def Let_def)
    then show ?thesis unfolding ten using eps_roundtrip[unfolded eps_text_fixed] by simp
  qed
qed

lemma history_cases:
  assumes "eps_history show_number diluted basic = Inr (Some facts)"
  obtains fs where "facts = facts_by_period show_number fs" "sec_get True diluted = Inr (Some fs) \<or> sec_get True basic = Inr (Some fs)"
proof -
  note answer = that
  have later: thesis if "ebind (sec_get True basic) (\<lambda>body.
       case body of Some (f # fs) \<Rightarrow> Inr (Some (facts_by_period show_number (f # fs))) | _ \<Rightarrow> Inr None) = Inr (Some facts)"
  proof (cases "sec_get True basic")
    case (Inr body)
    then show thesis using that answer by (cases body) (auto split: list.splits)
  qed (use that in simp)
  show thesis
  proof (cases "sec_get True diluted")
    case (Inr body)
    show thesis
    proof (cases body)
      case None
      then show thesis using later assms Inr by (simp add: eps_history_def)
    next
      case (Some fs)
      then show thesis using later assms Inr answer[of fs] by (cases fs) (simp_all add: eps_history_def)
    qed
  qed (use assms in \<open>simp add: eps_history_def\<close>)
qed

lemma head_in: "head_of (js_sort cmp xs) = Some x \<Longrightarrow> x \<in> set xs"
proof -
  assume "head_of (js_sort cmp xs) = Some x"
  then have "x \<in> set (js_sort cmp xs)" by (cases "js_sort cmp xs") (simp_all add: head_of_def)
  then show "x \<in> set xs" by simp
qed

lemma trailing_total:
  assumes "\<And>f. f \<in> set facts \<Longrightarrow> \<exists>u. eps_units (ef_value f) = Inr u"
  shows "\<exists>t. trailing_eps J facts now = Inr t"
proof -
  have a: "f \<in> set facts" if "latest_annual J facts = Some f" for f
    using head_in[OF that[unfolded latest_annual_def]] by simp
  have y: "f \<in> set facts" if "latest_ytd J facts g = Some f" for f g
    using head_in[OF that[unfolded latest_ytd_def]] by simp
  show ?thesis
  proof (cases "latest_annual J facts")
    case None
    then show ?thesis by (simp add: trailing_eps_def)
  next
    case (Some f)
    obtain u where u: "eps_units (ef_value f) = Inr u" using assms[OF a[OF Some]] by blast
    have fy: "\<exists>t. fiscal_year f = Inr t" by (simp add: fiscal_year_def u)
    show ?thesis
    proof (cases "latest_ytd J facts f")
      case None
      then show ?thesis using fy Some by (simp add: trailing_eps_def)
    next
      case ytd: (Some g)
      obtain v where v: "eps_units (ef_value g) = Inr v" using assms[OF y[OF ytd]] by blast
      show ?thesis
      proof (cases "find (same_period_before J g) facts")
        case None
        then show ?thesis using fy Some ytd by (simp add: trailing_eps_def)
      next
        case prior: (Some h)
        then have "h \<in> set facts" by (auto dest: find_Some_in_set)
        then obtain w where "eps_units (ef_value h) = Inr w" using assms by blast
        then show ?thesis using Some ytd prior u v by (simp add: trailing_eps_def)
      qed
    qed
  qed
qed

text \<open>
  The history of earnings is fit for the trailing figure. From the filings' numbers (below \<open>10\<^sup>2\<^sup>1\<close>) there is
  one fact per period, the one that was listed last, whose text the parser of the trailing figure reads as the
  number rounded to four places; so the trailing figure of any history is computed without an exception.
\<close>

theorem earnings_history_usable:
  assumes "eps_history show_number diluted basic = Inr (Some facts)"
    and small: "\<And>fs f v. sec_get True diluted = Inr (Some fs) \<or> sec_get True basic = Inr (Some fs) \<Longrightarrow> f \<in> set fs \<Longrightarrow> cf_val f = Some v \<Longrightarrow> \<bar>v\<bar> < 10 ^ 21"
  shows "distinct (map period_key facts)
    \<and> (\<exists>fs. (sec_get True diluted = Inr (Some fs) \<or> sec_get True basic = Inr (Some fs))
        \<and> (\<forall>f \<in> set facts. \<exists>c v ys zs. c \<in> set fs \<and> cf_start c = Some (ef_start f) \<and> cf_end c = ef_end f \<and> cf_val c = Some v
             \<and> eps_units (ef_value f) = Inr (ten_thousandths v)
             \<and> List.map_filter (fact_of show_number) fs = ys @ f # zs \<and> period_key f \<notin> period_key ` set zs))
    \<and> (\<exists>t. trailing_eps J facts now = Inr t)"
proof -
  obtain fs where fs: "facts = facts_by_period show_number fs"
    "sec_get True diluted = Inr (Some fs) \<or> sec_get True basic = Inr (Some fs)"
    using history_cases[OF assms(1)] by metis
  note kept = fold_put_fact[of "[]" "List.map_filter (fact_of show_number) fs", folded facts_by_period_def fs(1), simplified]
  have each: "\<exists>c v ys zs. c \<in> set fs \<and> cf_start c = Some (ef_start f) \<and> cf_end c = ef_end f \<and> cf_val c = Some v
      \<and> eps_units (ef_value f) = Inr (ten_thousandths v)
      \<and> List.map_filter (fact_of show_number) fs = ys @ f # zs \<and> period_key f \<notin> period_key ` set zs"
    if f: "f \<in> set facts" for f
  proof -
    obtain ys zs where d: "List.map_filter (fact_of show_number) fs = ys @ f # zs" "period_key f \<notin> period_key ` set zs"
      using kept f by blast
    have "f \<in> set (List.map_filter (fact_of show_number) fs)" unfolding d(1) by simp
    then obtain c where c: "c \<in> set fs" "fact_of show_number c = Some f" by (auto simp: List.map_filter_def)
    then obtain v where v: "cf_start c = Some (ef_start f)" "cf_end c = ef_end f" "cf_val c = Some v" "ef_value f = to_fixed4 show_number v"
      by (auto simp: fact_of_def split: option.splits if_splits)
    have "eps_units (ef_value f) = Inr (ten_thousandths v)"
      unfolding v(4) by (rule to_fixed4_units[OF small[OF fs(2) c(1) v(3)]])
    then show ?thesis using c(1) v(1-3) d by blast
  qed
  then have "\<exists>t. trailing_eps J facts now = Inr t" by (intro trailing_total) blast
  then show ?thesis using kept each fs(2) by blast
qed

section \<open>The pace is kept per client\<close>

text \<open>The requests of one client, one after the other, by their arrival and the delay of the timer.\<close>

fun sends :: "time \<Rightarrow> (time \<times> nat) list \<Rightarrow> time list" where
  "sends last_sent [] = []"
| "sends last_sent ((now, late) # rs) = (let t = sent_at last_sent now late in t # sends t rs)"

lemma sends_after: "t \<in> set (sends last_sent rs) \<Longrightarrow> last_sent + min_gap \<le> t"
proof (induction rs arbitrary: last_sent)
  case (Cons r rs)
  obtain now late where r: "r = (now, late)" by (rule prod.exhaust)
  have first: "last_sent + min_gap \<le> sent_at last_sent now late" by (simp add: sent_at_def)
  have gap: "0 \<le> min_gap" by (simp add: min_gap_def)
  from Cons.prems show ?case using first gap Cons.IH[of "sent_at last_sent now late"] by (auto simp: r Let_def)
qed simp

lemma sends_spaced: "sorted_wrt (\<lambda>a b. a + min_gap \<le> b) (sends last_sent rs)"
proof (induction rs arbitrary: last_sent)
  case (Cons r rs)
  then show ?case by (cases r) (auto simp: Let_def dest: sends_after)
qed simp


section \<open>Witnesses\<close>

definition demo_site :: sec_site where
  "demo_site = \<lparr>ss_tickers = Reply 200 (Some [\<lparr>tk_cik = 7, tk_ticker = ''BRK-B'', tk_title = ''Berkshire''\<rparr>]),
     ss_cover = (\<lambda>_. Reply 200 (Some [\<lparr>fw_cik = 7, fw_name = ''Berkshire'', fw_end = ''a'', fw_val = 15\<rparr>])),
     ss_weighted = (\<lambda>_. Reply 404 None), ss_floats = (\<lambda>_. Reply 404 None)\<rparr>"

theorem share_counts_current_witness:
  "\<exists>out. list_share_counts demo_dates (/) demo_site 2026 6 0 = Inr out \<and> distinct (map sc_cik out)
     \<and> sc_tickers ` set out \<subseteq> {[''BRK.B'']}"
proof -
  let ?rows = "[\<lparr>tk_cik = 7, tk_ticker = ''BRK-B'', tk_title = ''Berkshire''\<rparr>]"
  have "common_ticker ''BRK-B''" "class_symbol ''BRK-B'' = ''BRK.B''" by code_simp+
  then have filers: "filers_of ?rows = [\<lparr>fi_cik = 7, fi_title = ''Berkshire'', fi_symbols = [''BRK.B'']\<rparr>]"
    by (simp add: filers_of_def)
  have "site_answers demo_site ?rows" by (simp add: site_answers_def demo_site_def sec_get_def)
  from share_counts_current[OF this, of demo_dates "(/)" 2026 6 0, unfolded filers] obtain out where
    out: "list_share_counts demo_dates (/) demo_site 2026 6 0 = Inr out" "distinct (map sc_cik out)"
      "\<forall>c \<in> set out. \<exists>f \<in> set [\<lparr>fi_cik = 7, fi_title = ''Berkshire'', fi_symbols = [''BRK.B'']\<rparr>]. sc_tickers c = fi_symbols f"
    by blast
  have "sc_tickers c = [''BRK.B'']" if "c \<in> set out" for c using bspec[OF out(3) that] by simp
  then show ?thesis using out(1,2) by blast
qed

theorem earnings_history_usable_witness:
  "\<exists>facts t. eps_history (\<lambda>_. []) (Reply 200 (Some [\<lparr>cf_start = Some ''a'', cf_end = ''d'', cf_val = Some 4\<rparr>])) Unreachable = Inr (Some facts)
     \<and> length facts = 1 \<and> trailing_eps demo_dates facts 0 = Inr t"
proof -
  let ?reply = "Reply 200 (Some [\<lparr>cf_start = Some ''a'', cf_end = ''d'', cf_val = Some 4\<rparr>])"
  obtain facts where f: "eps_history (\<lambda>_. []) ?reply Unreachable = Inr (Some facts)" "length facts = 1"
    by (simp add: eps_history_def sec_get_def facts_by_period_def fact_of_def map_filter_simps)
  have "\<exists>t. trailing_eps demo_dates facts 0 = Inr t"
    by (rule earnings_history_usable[OF f(1), THEN conjunct2, THEN conjunct2]) (auto simp: sec_get_def)
  then show ?thesis using f by blast
qed

end
