(* ===== verification/Key_Stats.thy ===== *)
theory Key_Stats
  imports Sec_Edgar Top100 Api_Market
begin

text \<open>
  The statistics of an instrument (\<^verbatim>\<open>src/server/api/key-stats.ts\<close>) over the rows of
  \<^verbatim>\<open>company_fundamentals\<close>: the share counts of the daily job, and earnings that are fetched on first view and
  kept for a day. The client of the filings is the function \<open>source\<close> (none without a user agent); whether the
  row can be read and written is an argument, and so is the price feed.
\<close>

section \<open>The rows\<close>

record fundamentals_row = shares_row +
  fr_eps :: "string option"
  fr_basis :: "eps_basis option"
  fr_period_end :: "string option"
  fr_checked :: "time option"

definition get_fundamentals :: "fundamentals_row list \<Rightarrow> string \<Rightarrow> fundamentals_row option" where
  "get_fundamentals rows symbol = find (\<lambda>r. sr_symbol r = symbol) rows"

text \<open>Every listed class of the company gets the figure.\<close>

definition save_eps :: "string \<Rightarrow> trailing_figure option \<Rightarrow> time \<Rightarrow> fundamentals_row list \<Rightarrow> fundamentals_row list" where
  "save_eps cik eps at_time rows =
     map (\<lambda>r. if sr_cik r = cik
          then r\<lparr>fr_eps := map_option te_eps eps, fr_basis := map_option te_basis eps,
                 fr_period_end := map_option te_period_end eps, fr_checked := Some at_time\<rparr>
          else r) rows"

section \<open>The endpoint\<close>

definition eps_ttl :: int where "eps_ttl = 24 * 3600000"

definition cached_eps :: "fundamentals_row option \<Rightarrow> trailing_figure option" where
  "cached_eps f =
     (case f of
        None \<Rightarrow> None
      | Some r \<Rightarrow>
          (case (truthy (fr_eps r), fr_basis r, truthy (fr_period_end r)) of
             (Some e, Some b, Some p) \<Rightarrow> Some \<lparr>te_eps = e, te_basis = b, te_period_end = p\<rparr>
           | _ \<Rightarrow> None))"

definition eps_stale :: "time \<Rightarrow> fundamentals_row \<Rightarrow> bool" where
  "eps_stale now r = (case fr_checked r of None \<Rightarrow> True | Some t \<Rightarrow> now - t > eps_ttl)"

text \<open>The figure is assigned before the row is written; whatever throws leaves the rest as it is.\<close>

definition refresh_eps ::
    "js_runtime \<Rightarrow> (string \<Rightarrow> eps_fact list option result) option \<Rightarrow> unit result \<Rightarrow> time \<Rightarrow> fundamentals_row option
     \<Rightarrow> fundamentals_row list \<Rightarrow> trailing_figure option \<times> fundamentals_row list" where
  "refresh_eps J source writes now f rows =
     (case (f, source) of
        (Some r, Some src) \<Rightarrow>
          if \<not> eps_stale now r then (cached_eps f, rows)
          else (case ebind (src (sr_cik r)) (\<lambda>facts. case facts of None \<Rightarrow> Inr None | Some fs \<Rightarrow> trailing_eps J fs now) of
              Inl e \<Rightarrow> (cached_eps f, rows)
            | Inr eps \<Rightarrow> (eps, case writes of Inl e \<Rightarrow> rows | Inr _ \<Rightarrow> save_eps (sr_cik r) eps now rows))
      | _ \<Rightarrow> (cached_eps f, rows))"

definition candles_or_null :: "market_provider \<Rightarrow> string \<Rightarrow> candle list option result" where
  "candles_or_null feed s =
     (case mp_candles feed s R1Y of Inr cs \<Rightarrow> Inr (Some cs) | Inl e \<Rightarrow> if e = UnknownSymbol then Inr None else Inl e)"

record stats_answer =
  sta_symbol :: string
  sta_cap :: "string option"
  sta_shares_as_of :: "string option"
  sta_pe :: "string option"
  sta_pe_basis :: "eps_basis option"
  sta_period_end :: "string option"
  sta_not_meaningful :: bool
  sta_week52 :: "(string \<times> string) option"

definition stats_answer_of ::
    "decimal_lib \<Rightarrow> string \<Rightarrow> full_quote option \<Rightarrow> candle list option \<Rightarrow> fundamentals_row option \<Rightarrow> trailing_figure option \<Rightarrow> time
     \<Rightarrow> stats_answer result" where
  "stats_answer_of D symbol quote candles f eps now =
     (let latest = map_option qt_last quote
      in ebind (case (f, latest) of
            (Some r, Some p) \<Rightarrow> ebind (qty_of_string (sr_shares r)) (\<lambda>q. Inr (Some (money_to_string (notional D p q))))
          | _ \<Rightarrow> Inr None) (\<lambda>cap.
         ebind (case (eps, latest) of (Some e, Some p) \<Rightarrow> price_to_earnings p (te_eps e) | _ \<Rightarrow> Inr None) (\<lambda>pe.
         ebind (case candles of None \<Rightarrow> Inr None | Some cs \<Rightarrow> fifty_two_week_range cs now latest) (\<lambda>range.
           Inr \<lparr>sta_symbol = symbol, sta_cap = cap, sta_shares_as_of = map_option sr_as_of f, sta_pe = pe,
                sta_pe_basis = (if pe \<noteq> None then map_option te_basis eps else None),
                sta_period_end = map_option te_period_end eps,
                sta_not_meaningful = (eps \<noteq> None \<and> latest \<noteq> None \<and> pe = None),
                sta_week52 = map_option (\<lambda>(high, low). (px_to_string high, px_to_string low)) range\<rparr>))))"

definition get_instrument_stats ::
    "decimal_lib \<Rightarrow> js_runtime \<Rightarrow> market_provider \<Rightarrow> (string \<Rightarrow> eps_fact list option result) option \<Rightarrow> unit result \<Rightarrow> unit result
     \<Rightarrow> time \<Rightarrow> string \<Rightarrow> fundamentals_row list \<Rightarrow> stats_answer result \<times> fundamentals_row list" where
  "get_instrument_stats D J feed source reads writes now raw rows =
     (if \<not> symbol_schema raw then (Inl (AppError VALIDATION None), rows)
      else let symbol = to_upper raw
        in case ebind (quote_or_null feed symbol) (\<lambda>q. ebind (candles_or_null feed symbol) (\<lambda>cs. ebind reads (\<lambda>_. Inr (q, cs)))) of
             Inl e \<Rightarrow> (Inl e, rows)
           | Inr (quote, candles) \<Rightarrow>
               (case refresh_eps J source writes now (get_fundamentals rows symbol) rows of
                  (eps, rows') \<Rightarrow> (stats_answer_of D symbol quote candles (get_fundamentals rows symbol) eps now, rows')))"

section \<open>Earnings are asked for once a day\<close>

lemma eps_text_nonempty: "eps_text u \<noteq> []"
  by (simp add: eps_text_def Let_def)

lemma parsed_end:
  assumes "latest_annual J facts = Some f \<or> latest_ytd J facts g = Some f" "jd_parse J [] = None"
  shows "ef_end f \<noteq> []"
proof
  assume e: "ef_end f = []"
  then have "fact_days J f = None" using assms(2) by (simp add: fact_days_def split: option.splits)
  moreover have "annual_length J f \<or> ytd_length J f"
    using assms(1) head_in unfolding latest_annual_def latest_ytd_def by fastforce
  ultimately show False by (simp add: annual_length_def ytd_length_def holds_for_def)
qed

lemma trailing_texts:
  assumes "trailing_eps J facts now = Inr (Some t)" "jd_parse J [] = None"
  shows "te_eps t \<noteq> []" "te_period_end t \<noteq> []"
  using assms parsed_end[OF disjI1 assms(2)] parsed_end[OF disjI2 assms(2)]
  by (auto simp: trailing_eps_def fiscal_year_def eps_text_nonempty result_simps split: option.splits if_splits)

lemma find_saved:
  "get_fundamentals rows y = Some g \<Longrightarrow>
    get_fundamentals (save_eps cik eps t rows) y
      = Some (if sr_cik g = cik then g\<lparr>fr_eps := map_option te_eps eps, fr_basis := map_option te_basis eps,
                 fr_period_end := map_option te_period_end eps, fr_checked := Some t\<rparr> else g)"
  by (induction rows) (auto simp: get_fundamentals_def save_eps_def split: if_splits)

lemma refresh_fresh: "f = Some r \<Longrightarrow> \<not> eps_stale now r \<Longrightarrow> refresh_eps J source writes now f rows = (cached_eps f, rows)"
  by (simp add: refresh_eps_def split: option.splits)

text \<open>
  C36: Filings are asked for once a day and company. After a view that fetched and stored the earnings of a
  company, every view of any of its classes of shares within a day asks nothing (its answer and the rows are the
  same whatever the source would say), writes nothing, and shows the end of the period that was computed.
\<close>

theorem earnings_asked_once_a_day:
  assumes "get_fundamentals rows (to_upper x) = Some f" "eps_stale t0 f" "src (sr_cik f) = Inr (Some facts)"
      "trailing_eps J facts t0 = Inr eps" "jd_parse J [] = None"
    and first: "get_instrument_stats D J feed (Some src) (Inr ()) (Inr ()) t0 x rows = (Inr a, rows')"
    and sibling: "get_fundamentals rows (to_upper y) = Some g" "sr_cik g = sr_cik f" and day: "t \<le> t0 + eps_ttl"
  shows "get_instrument_stats D J feed' source reads writes t y rows' = get_instrument_stats D J feed' None reads writes t y rows'
    \<and> snd (get_instrument_stats D J feed' source reads writes t y rows') = rows'
    \<and> (\<forall>b. fst (get_instrument_stats D J feed' source reads writes t y rows') = Inr b \<longrightarrow>
         sta_period_end b = map_option te_period_end eps \<and> sta_period_end a = sta_period_end b)"
proof -
  have rows': "rows' = save_eps (sr_cik f) eps t0 rows" and a: "sta_period_end a = map_option te_period_end eps"
    using first assms(1-4)
    by (auto simp: get_instrument_stats_def refresh_eps_def stats_answer_of_def Let_def result_simps split: if_splits sum.splits)
  let ?g = "g\<lparr>fr_eps := map_option te_eps eps, fr_basis := map_option te_basis eps,
      fr_period_end := map_option te_period_end eps, fr_checked := Some t0\<rparr>"
  have g: "get_fundamentals rows' (to_upper y) = Some ?g" unfolding rows' using find_saved[OF sibling(1)] sibling(2) by simp
  have fresh: "\<not> eps_stale t ?g" using day by (simp add: eps_stale_def)
  have cached: "cached_eps (Some ?g) = eps"
    using trailing_texts[OF _ assms(5)] assms(4) by (cases eps) (auto simp: cached_eps_def truthy_def)
  have "refresh_eps J s w t (Some ?g) rows' = (eps, rows')" for s w
    using refresh_fresh[OF refl fresh] cached by simp
  then show ?thesis using g a
    by (auto simp: get_instrument_stats_def stats_answer_of_def Let_def result_simps split: sum.splits)
qed

section \<open>Witness\<close>

definition unknown_feed :: market_provider where
  "unknown_feed = \<lparr>mp_quote = (\<lambda>_. Inl UnknownSymbol), mp_quotes = (\<lambda>_. Inl UnknownSymbol),
     mp_candles = (\<lambda>_ _. Inl UnknownSymbol), mp_status = Inl ProviderUnavailable\<rparr>"

definition brk_row :: "string \<Rightarrow> fundamentals_row" where
  "brk_row s = \<lparr>sr_symbol = s, sr_cik = ''7'', sr_name = ''Berkshire'', sr_shares = ''15'', sr_as_of = ''a'', sr_basis = ''cover'',
     fr_eps = None, fr_basis = None, fr_period_end = None, fr_checked = None\<rparr>"

theorem earnings_asked_once_a_day_witness:
  "\<exists>a rows. get_instrument_stats js_decimal demo_dates unknown_feed (Some (\<lambda>_. Inr (Some demo_facts))) (Inr ()) (Inr ()) 0 ''BRK.A''
        [brk_row ''BRK.A'', brk_row ''BRK.B''] = (Inr a, rows)
     \<and> snd (get_instrument_stats js_decimal demo_dates unknown_feed (Some (\<lambda>_. Inr None)) (Inr ()) (Inr ()) eps_ttl ''BRK.B'' rows) = rows
     \<and> rows \<noteq> [brk_row ''BRK.A'', brk_row ''BRK.B'']"
proof -
  let ?rows = "[brk_row ''BRK.A'', brk_row ''BRK.B'']" and ?src = "\<lambda>_ :: string. Inr (Some demo_facts) :: eps_fact list option result"
  have upper: "to_upper ''BRK.A'' = ''BRK.A''" "to_upper ''BRK.B'' = ''BRK.B''" by code_simp+
  have schema: "symbol_schema ''BRK.A''" by code_simp
  have found: "get_fundamentals ?rows ''BRK.A'' = Some (brk_row ''BRK.A'')" "get_fundamentals ?rows ''BRK.B'' = Some (brk_row ''BRK.B'')"
    by (simp_all add: get_fundamentals_def brk_row_def)
  have stale: "eps_stale 0 (brk_row ''BRK.A'')" by (simp add: eps_stale_def brk_row_def)
  have "\<exists>u. eps_units (ef_value f) = Inr u" if "f \<in> set demo_facts" for f
    using that demo_values by (auto simp: demo_facts_def)
  then obtain eps where eps: "trailing_eps demo_dates demo_facts 0 = Inr eps" using trailing_total by blast
  have cik: "sr_cik (brk_row s) = ''7''" for s by (simp add: brk_row_def)
  have refresh: "refresh_eps demo_dates (Some ?src) (Inr ()) 0 (Some (brk_row ''BRK.A'')) ?rows = (eps, save_eps ''7'' eps 0 ?rows)"
    using stale eps by (simp add: refresh_eps_def cik)
  obtain a where answer: "stats_answer_of js_decimal ''BRK.A'' None None (Some (brk_row ''BRK.A'')) eps 0 = Inr a"
    by (cases eps) (simp_all add: stats_answer_of_def)
  define rows where "rows = save_eps ''7'' eps 0 ?rows"
  have run: "get_instrument_stats js_decimal demo_dates unknown_feed (Some ?src) (Inr ()) (Inr ()) 0 ''BRK.A'' ?rows = (Inr a, rows)"
    using schema refresh answer found(1)
    by (simp add: get_instrument_stats_def upper quote_or_null_def candles_or_null_def unknown_feed_def rows_def)
  have "rows \<noteq> ?rows" unfolding rows_def by (simp add: save_eps_def brk_row_def)
  moreover have "snd (get_instrument_stats js_decimal demo_dates unknown_feed (Some (\<lambda>_. Inr None)) (Inr ()) (Inr ()) eps_ttl ''BRK.B'' rows) = rows"
  proof (rule earnings_asked_once_a_day[OF _ stale _ eps _ run, THEN conjunct2, THEN conjunct1])
    show "get_fundamentals ?rows (to_upper ''BRK.B'') = Some (brk_row ''BRK.B'')" using found(2) upper by simp
  qed (simp_all add: found upper demo_dates_def cik)
  ultimately show ?thesis using run by blast
qed

end
