(* ===== verification/Alpaca_Feed.thy ===== *)
theory Alpaca_Feed
  imports Cached_Market_Data Sec_Edgar Top100 "HOL-Library.AList"
begin

text \<open>
  The market data of Alpaca (\<^verbatim>\<open>src/infra/market-data/alpaca.ts\<close>): snapshots in batches of two hundred symbols,
  bars, and the session that a day change is measured against. A JSON number is the rational it denotes; the
  date in New York of an instant, the text of a number beyond \<open>10\<^sup>2\<^sup>1\<close> and the replies are arguments.
\<close>

section \<open>Wire shapes\<close>

record wire_quote =
  wq_bid :: rat
  wq_bid_size :: int
  wq_ask :: rat
  wq_ask_size :: int

record wire_trade =
  wt_price :: rat
  wt_time :: string

record wire_bar =
  wb_open :: rat
  wb_high :: rat
  wb_low :: rat
  wb_close :: rat
  wb_time :: string

record wire_snapshot =
  ws_trade :: "wire_trade option"
  ws_quote :: "wire_quote option"
  ws_daily :: "wire_bar option"
  ws_previous :: "wire_bar option"

record feed_runtime = js_runtime +
  fd_date :: "time \<Rightarrow> string"
  fd_number :: "rat \<Rightarrow> string"

text \<open>\<open>etDate.format(new Date(t))\<close> throws for a date that does not parse.\<close>

definition et_day :: "feed_runtime \<Rightarrow> string \<Rightarrow> string result" where
  "et_day R t = (case jd_parse R t of None \<Rightarrow> Inl (JsError ''Invalid time value'') | Some i \<Rightarrow> Inr (fd_date R i))"

definition reference_close :: "feed_runtime \<Rightarrow> wire_snapshot \<Rightarrow> rat option result" where
  "reference_close R s =
     (let previous = map_option wb_close (ws_previous s)
      in case (ws_trade s, ws_daily s) of
           (Some trade, Some daily) \<Rightarrow>
             ebind (et_day R (wt_time trade)) (\<lambda>a. ebind (et_day R (wb_time daily)) (\<lambda>b.
               Inr (if a > b then Some (wb_close daily) else previous)))
         | _ \<Rightarrow> Inr previous)"

definition last_session :: "feed_runtime \<Rightarrow> wire_bar list \<Rightarrow> wire_bar list result" where
  "last_session R bars =
     (if bars = [] then Inr bars
      else ebind (et_day R (wb_time (last bars))) (\<lambda>day.
        ebind (List.fold (\<lambda>b acc. ebind acc (\<lambda>kept. ebind (et_day R (wb_time b)) (\<lambda>d. Inr (if d = day then kept @ [b] else kept)))) bars (Inr []))
          Inr))"

definition feed_px :: "feed_runtime \<Rightarrow> rat \<Rightarrow> px result" where
  "feed_px R n = px_from_string (to_fixed4 (fd_number R) n)"

definition feed_request :: "'b reply \<Rightarrow> 'b result" where
  "feed_request r =
     (case r of
        Unreachable \<Rightarrow> Inl ProviderUnavailable
      | Reply status body \<Rightarrow>
          if status = 404 then Inl UnknownSymbol
          else if \<not> (200 \<le> status \<and> status \<le> 299) then Inl ProviderUnavailable
          else of_option (JsError ''invalid JSON'') body)"

section \<open>Quotes\<close>

definition px_if_positive :: "feed_runtime \<Rightarrow> rat option \<Rightarrow> px option result" where
  "px_if_positive R n =
     (case n of Some x \<Rightarrow> if x > 0 then ebind (feed_px R x) (\<lambda>p. Inr (Some p)) else Inr None | None \<Rightarrow> Inr None)"

definition size_if_positive :: "rat option \<Rightarrow> int option \<Rightarrow> int option" where
  "size_if_positive n lots = (case n of Some x \<Rightarrow> if x > 0 then lots else None | None \<Rightarrow> None)"

definition quote_of_snapshot :: "feed_runtime \<Rightarrow> string \<Rightarrow> wire_snapshot option \<Rightarrow> full_quote option result" where
  "quote_of_snapshot R symbol snap =
     (case snap of
        None \<Rightarrow> Inr None
      | Some s \<Rightarrow>
     (case ws_trade s of
        None \<Rightarrow> Inr None
      | Some trade \<Rightarrow>
     (case jd_parse R (wt_time trade) of
        None \<Rightarrow> Inr None
      | Some ts \<Rightarrow>
          if \<not> wt_price trade > 0 then Inr None
          else ebind (reference_close R s) (\<lambda>reference.
               let q = ws_quote s; bid = map_option wq_bid q; ask = map_option wq_ask q
               in ebind (px_if_positive R bid) (\<lambda>b.
                  ebind (px_if_positive R ask) (\<lambda>a.
                  ebind (feed_px R (wt_price trade)) (\<lambda>latest.
                  ebind (px_if_positive R reference) (\<lambda>previous.
                    Inr (Some \<lparr>qt_symbol = symbol, qt_bid = b, qt_ask = a, qt_last = latest, qt_ts = ts,
                       qt_previous_close = previous, fq_bid_size = size_if_positive bid (map_option wq_bid_size q),
                       fq_ask_size = size_if_positive ask (map_option wq_ask_size q),
                       fq_source = ''IEX via Alpaca''\<rparr>))))))))) "

fun add_snapshots :: "feed_runtime \<Rightarrow> (string \<times> wire_snapshot option) list \<Rightarrow> (string \<times> full_quote) list \<Rightarrow> (string \<times> full_quote) list result" where
  "add_snapshots R [] out = Inr out"
| "add_snapshots R ((symbol, snap) # rest) out =
     ebind (quote_of_snapshot R symbol snap) (\<lambda>q.
       add_snapshots R rest (case q of None \<Rightarrow> out | Some x \<Rightarrow> AList.update symbol x out))"

definition snapshot_batch :: nat where "snapshot_batch = 200"

type_synonym snapshot_fetch = "string list \<Rightarrow> (string \<times> wire_snapshot option) list reply"

function snapshots_from :: "feed_runtime \<Rightarrow> snapshot_fetch \<Rightarrow> string list \<Rightarrow> (string \<times> full_quote) list \<Rightarrow> (string \<times> full_quote) list result" where
  "snapshots_from R fetch upper out =
     (if upper = [] then Inr out
      else ebind (feed_request (fetch (take snapshot_batch upper))) (\<lambda>entries.
           ebind (add_snapshots R entries out) (\<lambda>out1. snapshots_from R fetch (drop snapshot_batch upper) out1)))"
  by pat_completeness auto
termination by (relation "measure (\<lambda>(R, fetch, upper, out). length upper)") (auto simp: snapshot_batch_def)

declare snapshots_from.simps [simp del]

definition alpaca_quotes :: "feed_runtime \<Rightarrow> snapshot_fetch \<Rightarrow> string list \<Rightarrow> (string \<times> full_quote) list result" where
  "alpaca_quotes R fetch symbols = snapshots_from R fetch (js_set (map to_upper symbols)) []"

definition alpaca_quote :: "feed_runtime \<Rightarrow> snapshot_fetch \<Rightarrow> string \<Rightarrow> full_quote result" where
  "alpaca_quote R fetch symbol =
     ebind (alpaca_quotes R fetch [symbol]) (\<lambda>qs. of_option UnknownSymbol (map_of qs (to_upper symbol)))"

section \<open>Bars\<close>

definition range_request :: "candle_range \<Rightarrow> string \<times> int" where
  "range_request r =
     (case r of
        R1D \<Rightarrow> (''5Min'', 6 * day_ms) | R1W \<Rightarrow> (''1Hour'', 7 * day_ms) | R1M \<Rightarrow> (''1Day'', 31 * day_ms)
      | R3M \<Rightarrow> (''1Day'', 93 * day_ms) | R1Y \<Rightarrow> (''1Day'', 366 * day_ms) | R5Y \<Rightarrow> (''1Week'', 5 * 366 * day_ms))"

definition candle_of_bar :: "feed_runtime \<Rightarrow> wire_bar \<Rightarrow> candle result" where
  "candle_of_bar R b =
     ebind (of_option (JsError ''Invalid time value'') (jd_parse R (wb_time b))) (\<lambda>t.
       Inr \<lparr>cd_time = t, cd_open = to_fixed4 (fd_number R) (wb_open b), cd_high = to_fixed4 (fd_number R) (wb_high b),
            cd_low = to_fixed4 (fd_number R) (wb_low b), cd_close = to_fixed4 (fd_number R) (wb_close b)\<rparr>)"

fun candles_of_bars :: "feed_runtime \<Rightarrow> wire_bar list \<Rightarrow> candle list result" where
  "candles_of_bars R [] = Inr []"
| "candles_of_bars R (b # bs) = ebind (candle_of_bar R b) (\<lambda>c. ebind (candles_of_bars R bs) (\<lambda>cs. Inr (c # cs)))"

text \<open>The bars of a reply by symbol; the reply is given by symbol, time frame and start.\<close>

type_synonym bars_fetch = "string \<Rightarrow> string \<Rightarrow> string \<Rightarrow> (string \<times> wire_bar list) list reply"

definition alpaca_candles :: "feed_runtime \<Rightarrow> bars_fetch \<Rightarrow> time \<Rightarrow> string \<Rightarrow> candle_range \<Rightarrow> candle list result" where
  "alpaca_candles R fetch now symbol r =
     (case range_request r of
        (timeframe, lookback) \<Rightarrow>
          let sym = to_upper symbol
          in ebind (feed_request (fetch sym timeframe (jd_iso R (now - lookback)))) (\<lambda>bars.
             ebind (of_option UnknownSymbol (map_of bars sym)) (\<lambda>all.
             ebind (if r = R1D then last_session R all else Inr all) (\<lambda>kept. candles_of_bars R kept))))"

text \<open>The provider: the parts of the clock in New York are an argument.\<close>

definition alpaca_feed :: "feed_runtime \<Rightarrow> snapshot_fetch \<Rightarrow> bars_fetch \<Rightarrow> (time \<Rightarrow> string \<times> int \<times> int) \<Rightarrow> time \<Rightarrow> market_provider" where
  "alpaca_feed R snapshots bars parts now =
     \<lparr>mp_quote = alpaca_quote R snapshots, mp_quotes = alpaca_quotes R snapshots, mp_candles = alpaca_candles R bars now,
      mp_status = Inr (case parts now of (weekday, hour, minute) \<Rightarrow> market_status_at weekday hour minute, now)\<rparr>"

section \<open>A quote is what the snapshot says\<close>

lemma feed_px_exact:
  assumes "0 < x" "x < 10 ^ 21"
  shows "feed_px R x = (if ten_thousandths x > 0 then Inr (ten_thousandths x) else Inl (InvariantViolation ''Px must be positive''))"
proof -
  let ?u = "ten_thousandths x"
  have u: "?u = \<lfloor>x * 10 ^ 4 + 1 / 2\<rfloor>" and pos: "0 \<le> ?u" using assms(1) by (simp_all add: ten_thousandths_def Let_def)
  have "to_fixed4 (fd_number R) x = fixed_text 4 ?u" using assms u by (simp add: to_fixed4_def)
  then show ?thesis using pos
    by (simp add: feed_px_def px_from_string_def px_re_def decimal_re_fixed_text invariant_def)
qed

text \<open>A feed that answers: for every batch, the snapshots of exactly the symbols in it that the feed knows.\<close>

definition faithful_feed :: "snapshot_fetch \<Rightarrow> (string \<rightharpoonup> wire_snapshot option) \<Rightarrow> bool" where
  "faithful_feed fetch snaps \<longleftrightarrow> (\<forall>batch. \<exists>entries. feed_request (fetch batch) = Inr entries \<and> distinct (map fst entries)
     \<and> (\<forall>s. map_of entries s = (if s \<in> set batch then snaps s else None)))"

definition quote_known :: "feed_runtime \<Rightarrow> (string \<rightharpoonup> wire_snapshot option) \<Rightarrow> string \<Rightarrow> full_quote option" where
  "quote_known R snaps s = (case snaps s of None \<Rightarrow> None | Some snap \<Rightarrow> projr (quote_of_snapshot R s snap))"

lemma add_snapshots_answer:
  assumes "\<And>s snap. (s, snap) \<in> set entries \<Longrightarrow> \<exists>q. quote_of_snapshot R s snap = Inr q" "distinct (map fst entries)"
  shows "\<exists>out'. add_snapshots R entries out = Inr out' \<and> (\<forall>s. map_of out' s =
    (case map_of entries s of Some snap \<Rightarrow> (case projr (quote_of_snapshot R s snap) of Some q \<Rightarrow> Some q | None \<Rightarrow> map_of out s) | None \<Rightarrow> map_of out s))"
  using assms
proof (induction entries arbitrary: out)
  case (Cons e entries)
  obtain s snap where e: "e = (s, snap)" by (rule prod.exhaust)
  obtain q where q: "quote_of_snapshot R s snap = Inr q" using Cons.prems(1)[of s snap] e by auto
  let ?out = "case q of None \<Rightarrow> out | Some x \<Rightarrow> AList.update s x out"
  obtain out' where out': "add_snapshots R entries ?out = Inr out'" "\<forall>s. map_of out' s =
    (case map_of entries s of Some snap \<Rightarrow> (case projr (quote_of_snapshot R s snap) of Some q \<Rightarrow> Some q | None \<Rightarrow> map_of ?out s) | None \<Rightarrow> map_of ?out s)"
    using Cons.IH[of ?out] Cons.prems by auto
  have fresh: "map_of entries s = None" using Cons.prems(2) e by (auto simp: map_of_eq_None_iff)
  have "map_of out' x = (case map_of (e # entries) x of Some snap \<Rightarrow> (case projr (quote_of_snapshot R x snap) of Some q \<Rightarrow> Some q | None \<Rightarrow> map_of out x) | None \<Rightarrow> map_of out x)" for x
    using out'(2) fresh q e by (cases "x = s"; cases q) (auto simp: update_conv' split: option.splits)
  then show ?case using out'(1) q e by simp
qed simp

lemma snapshots_answer:
  assumes "faithful_feed fetch snaps" "\<And>s snap. s \<in> set upper \<Longrightarrow> snaps s = Some snap \<Longrightarrow> \<exists>q. quote_of_snapshot R s snap = Inr q"
  shows "\<exists>out'. snapshots_from R fetch upper out = Inr out' \<and> (\<forall>s. map_of out' s =
     (if s \<in> set upper then (case quote_known R snaps s of Some q \<Rightarrow> Some q | None \<Rightarrow> map_of out s) else map_of out s))"
  using assms
proof (induction R fetch upper out rule: snapshots_from.induct)
  case (1 R fetch upper out)
  show ?case
  proof (cases "upper = []")
    case True
    then show ?thesis by (simp add: snapshots_from.simps)
  next
    case False
    let ?b = "take snapshot_batch upper"
    obtain entries where en: "feed_request (fetch ?b) = Inr entries" "distinct (map fst entries)"
      "\<And>s. map_of entries s = (if s \<in> set ?b then snaps s else None)"
      using "1.prems"(1) unfolding faithful_feed_def by metis
    have ok: "\<exists>q. quote_of_snapshot R s snap = Inr q" if "(s, snap) \<in> set entries" for s snap
    proof -
      have "map_of entries s = Some snap" using en(2) that by (rule map_of_is_SomeI)
      then have "s \<in> set ?b" "snaps s = Some snap" unfolding en(3) by (auto split: if_splits)
      then show ?thesis using "1.prems"(2)[of s snap] by (auto dest: in_set_takeD)
    qed
    obtain out1 where out1: "add_snapshots R entries out = Inr out1" "\<And>s. map_of out1 s =
      (case map_of entries s of Some snap \<Rightarrow> (case projr (quote_of_snapshot R s snap) of Some q \<Rightarrow> Some q | None \<Rightarrow> map_of out s) | None \<Rightarrow> map_of out s)"
      using add_snapshots_answer[OF ok en(2), of out] by blast
    have one: "map_of out1 s = (if s \<in> set ?b then (case quote_known R snaps s of Some q \<Rightarrow> Some q | None \<Rightarrow> map_of out s) else map_of out s)" for s
      unfolding out1(2) en(3) by (auto simp: quote_known_def split: option.splits)
    have "\<exists>out'. snapshots_from R fetch (drop snapshot_batch upper) out1 = Inr out' \<and> (\<forall>s. map_of out' s =
       (if s \<in> set (drop snapshot_batch upper) then (case quote_known R snaps s of Some q \<Rightarrow> Some q | None \<Rightarrow> map_of out1 s) else map_of out1 s))"
      by (rule "1.IH"[OF False en(1) out1(1)]) (use "1.prems" in \<open>auto dest: in_set_dropD\<close>)
    then obtain out' where out': "snapshots_from R fetch (drop snapshot_batch upper) out1 = Inr out'" "\<And>s. map_of out' s =
       (if s \<in> set (drop snapshot_batch upper) then (case quote_known R snaps s of Some q \<Rightarrow> Some q | None \<Rightarrow> map_of out1 s) else map_of out1 s)"
      by blast
    have split: "s \<in> set upper \<longleftrightarrow> s \<in> set ?b \<or> s \<in> set (drop snapshot_batch upper)" for s
      using arg_cong[OF append_take_drop_id[of snapshot_batch upper], of set] by (metis Un_iff set_append)
    have "map_of out' s = (if s \<in> set upper then (case quote_known R snaps s of Some q \<Rightarrow> Some q | None \<Rightarrow> map_of out s) else map_of out s)" for s
      unfolding out'(2) one split by (auto split: option.splits)
    moreover have "snapshots_from R fetch upper out = Inr out'"
      using False en(1) out1(1) out'(1) by (subst snapshots_from.simps) simp
    ultimately show ?thesis by blast
  qed
qed

section \<open>A malformed trade is not always no quote\<close>

lemma failing_snapshot:
  assumes "(s, snap) \<in> set entries" "quote_of_snapshot R s snap = Inl e"
  shows "\<exists>e. add_snapshots R entries out = Inl e"
  using assms(1)
proof (induction entries arbitrary: out)
  case (Cons x entries)
  obtain s' snap' where x: "x = (s', snap')" by (rule prod.exhaust)
  show ?case
  proof (cases "quote_of_snapshot R s' snap'")
    case (Inr q)
    then have "(s, snap) \<in> set entries" using Cons.prems assms(2) x by auto
    then show ?thesis using Cons.IH Inr x by simp
  qed (simp add: x)
qed simp

lemma tiny_price:
  assumes "ws_trade snap = Some t" "0 < wt_price t" "wt_price t < 1 / 20000" "jd_parse R (wt_time t) = Some ts"
  shows "\<exists>e. quote_of_snapshot R s (Some snap) = Inl e"
proof -
  have "\<lfloor>wt_price t * 10 ^ 4 + 1 / 2\<rfloor> = 0" using assms(2,3) by (simp add: floor_eq_iff)
  then have "ten_thousandths (wt_price t) = 0" using assms(2) by (simp add: ten_thousandths_def)
  moreover have "wt_price t < 10 ^ 21" using assms(3) by simp
  ultimately have "feed_px R (wt_price t) = Inl (InvariantViolation ''Px must be positive'')"
    using feed_px_exact[OF assms(2), of R] by simp
  then have "\<not> (\<exists>q. quote_of_snapshot R s (Some snap) = Inr q)"
    using assms by (auto simp: quote_of_snapshot_def Let_def result_simps)
  then show ?thesis by (cases "quote_of_snapshot R s (Some snap)") auto
qed

text \<open>What fails in any batch fails the call.\<close>

lemma failing_batch:
  assumes "feed_request (fetch (take snapshot_batch (drop (k * snapshot_batch) upper))) = Inr entries"
    and "k * snapshot_batch < length upper" "(s, snap) \<in> set entries" "quote_of_snapshot R s snap = Inl e"
  shows "\<exists>e. snapshots_from R fetch upper out = Inl e"
  using assms(1,2)
proof (induction k arbitrary: upper out)
  case 0
  then have "upper \<noteq> []" by auto
  moreover obtain e' where "add_snapshots R entries out = Inl e'" using failing_snapshot[OF assms(3,4)] by blast
  ultimately show ?case using 0(1) by (subst snapshots_from.simps) simp
next
  case (Suc k)
  have "feed_request (fetch (take snapshot_batch (drop (k * snapshot_batch) (drop snapshot_batch upper)))) = Inr entries"
    using Suc.prems(1) by (simp add: add.commute)
  moreover have "k * snapshot_batch < length (drop snapshot_batch upper)" using Suc.prems(2) by simp
  ultimately have later: "\<exists>e. snapshots_from R fetch (drop snapshot_batch upper) out1 = Inl e" for out1 by (rule Suc.IH)
  have "upper \<noteq> []" using Suc.prems(2) by auto
  then show ?case
    using later by (subst snapshots_from.simps)
      (cases "feed_request (fetch (take snapshot_batch upper))", simp,
       cases "add_snapshots R (projr (feed_request (fetch (take snapshot_batch upper)))) out", simp_all)
qed

lemma batch_of:
  assumes "s \<in> set upper"
  obtains k where "k * snapshot_batch < length upper" "s \<in> set (take snapshot_batch (drop (k * snapshot_batch) upper))"
proof -
  from assms obtain i where i: "i < length upper" "upper ! i = s" by (auto simp: in_set_conv_nth)
  let ?k = "i div snapshot_batch"
  have split: "i = ?k * snapshot_batch + i mod snapshot_batch" "i mod snapshot_batch < snapshot_batch"
    by (simp_all add: snapshot_batch_def)
  let ?b = "take snapshot_batch (drop (?k * snapshot_batch) upper)"
  have "?k * snapshot_batch \<le> length upper" using split(1) i(1) by linarith
  then have "drop (?k * snapshot_batch) upper ! (i mod snapshot_batch) = upper ! i" using split(1) by simp
  moreover have "i mod snapshot_batch < length (drop (?k * snapshot_batch) upper)"
    using split(1) i(1) unfolding length_drop by linarith
  ultimately have "i mod snapshot_batch < length ?b" "?b ! (i mod snapshot_batch) = s" using split(2) i(2) by simp_all
  then have "s \<in> set ?b" by (metis nth_mem)
  moreover have "?k * snapshot_batch < length upper" using split(1) i(1) by linarith
  ultimately show thesis by (rule that[rotated])
qed

lemma throwing_snapshot_fails:
  assumes "faithful_feed fetch snaps" "s \<in> set upper" "snaps s = Some snap" "quote_of_snapshot R s snap = Inl e"
  shows "\<exists>e. snapshots_from R fetch upper out = Inl e"
proof -
  obtain k where k: "k * snapshot_batch < length upper" "s \<in> set (take snapshot_batch (drop (k * snapshot_batch) upper))"
    by (rule batch_of[OF assms(2)])
  obtain entries where en: "feed_request (fetch (take snapshot_batch (drop (k * snapshot_batch) upper))) = Inr entries"
    "map_of entries s = Some snap"
    using assms(1,3) k(2) unfolding faithful_feed_def by metis
  from failing_batch[where fetch = fetch and k = k and upper = upper, OF en(1) k(1) map_of_SomeD[OF en(2)] assms(4)]
  show ?thesis .
qed

lemma quotes_when_none_throws:
  assumes "faithful_feed fetch snaps"
    and "\<And>s snap. s \<in> to_upper ` set symbols \<Longrightarrow> snaps s = Some snap \<Longrightarrow> \<exists>q. quote_of_snapshot R s snap = Inr q"
  shows "\<exists>qs. alpaca_quotes R fetch symbols = Inr qs
    \<and> (\<forall>s. map_of qs s = (if s \<in> to_upper ` set symbols then quote_known R snaps s else None))
    \<and> (\<forall>s \<in> set symbols. alpaca_quote R fetch s = of_option UnknownSymbol (quote_known R snaps (to_upper s)))"
proof -
  have answer: "\<exists>qs. alpaca_quotes R fetch xs = Inr qs
      \<and> (\<forall>s. map_of qs s = (if s \<in> to_upper ` set xs then quote_known R snaps s else None))"
    if "set xs \<subseteq> set symbols" for xs
  proof -
    have "\<exists>q. quote_of_snapshot R s snap = Inr q" if "s \<in> set (js_set (map to_upper xs))" "snaps s = Some snap" for s snap
      using that \<open>set xs \<subseteq> set symbols\<close> by (intro assms(2)) (auto simp: js_set_def)
    from snapshots_answer[OF assms(1) this, of "js_set (map to_upper xs)" "[]"] obtain qs where
      qs: "alpaca_quotes R fetch xs = Inr qs" "\<And>s. map_of qs s = (if s \<in> set (js_set (map to_upper xs))
        then (case quote_known R snaps s of Some q \<Rightarrow> Some q | None \<Rightarrow> map_of [] s) else map_of [] s)"
      by (auto simp: alpaca_quotes_def)
    have "map_of qs s = (if s \<in> to_upper ` set xs then quote_known R snaps s else None)" for s
      using qs(2)[of s] by (cases "quote_known R snaps s") (simp_all add: js_set_def)
    then show ?thesis using qs(1) by blast
  qed
  have "alpaca_quote R fetch s = of_option UnknownSymbol (quote_known R snaps (to_upper s))" if "s \<in> set symbols" for s
    using answer[of "[s]"] that by (auto simp: alpaca_quote_def)
  then show ?thesis using answer[of symbols] by auto
qed

text \<open>
  C38: Batching does not show. From a feed that answers every batch with the snapshots it has of those symbols,
  the quotes of any number of symbols, in any letter case and with repetitions, are exactly one per symbol that
  has a usable snapshot, the one made of its snapshot, and the quote of a single symbol is the same; unless the snapshot of some
  asked symbol throws, as one with a tiny price does: then the whole call throws.
\<close>

theorem alpaca_quotes_pointwise:
  assumes "faithful_feed fetch snaps"
  shows "if \<exists>s \<in> to_upper ` set symbols. \<exists>snap e. snaps s = Some snap \<and> quote_of_snapshot R s snap = Inl e
    then \<exists>e. alpaca_quotes R fetch symbols = Inl e
    else \<exists>qs. alpaca_quotes R fetch symbols = Inr qs
      \<and> (\<forall>s. map_of qs s = (if s \<in> to_upper ` set symbols then quote_known R snaps s else None))
      \<and> (\<forall>s \<in> set symbols. alpaca_quote R fetch s = of_option UnknownSymbol (quote_known R snaps (to_upper s)))"
proof (cases "\<exists>s \<in> to_upper ` set symbols. \<exists>snap e. snaps s = Some snap \<and> quote_of_snapshot R s snap = Inl e")
  case True
  then obtain s snap e where "s \<in> set (js_set (map to_upper symbols))" "snaps s = Some snap" "quote_of_snapshot R s snap = Inl e"
    by (auto simp: js_set_def)
  from throwing_snapshot_fails[OF assms this, of "[]"] True show ?thesis by (simp add: alpaca_quotes_def)
next
  case False
  have "\<exists>q. quote_of_snapshot R s snap = Inr q" if "s \<in> to_upper ` set symbols" "snaps s = Some snap" for s snap
    using False that by (cases "quote_of_snapshot R s snap") auto
  from quotes_when_none_throws[OF assms this] False show ?thesis by (simp only: if_False)
qed

text \<open>
  C39: One tiny price fails the call. A trade that is not positive, or has no time, is no quote; but a positive price below
  half of a ten-thousandth, which the check lets through, is written as zero and refused by the price type, and then the
  whole call fails, in whichever batch the snapshot comes: no symbol of any batch gets a quote.
\<close>

theorem tiny_price_fails_call:
  assumes "k * snapshot_batch < length (js_set (map to_upper symbols))"
    and "feed_request (fetch (take snapshot_batch (drop (k * snapshot_batch) (js_set (map to_upper symbols))))) = Inr entries"
    and "(s, Some snap) \<in> set entries" "ws_trade snap = Some t" "jd_parse R (wt_time t) = Some ts"
  shows "(\<not> wt_price t > 0 \<longrightarrow> quote_of_snapshot R s (Some snap) = Inr None)
    \<and> (0 < wt_price t \<and> wt_price t < 1 / 20000 \<longrightarrow> (\<exists>e. alpaca_quotes R fetch symbols = Inl e))"
proof (intro conjI impI)
  show "quote_of_snapshot R s (Some snap) = Inr None" if "\<not> wt_price t > 0"
    using assms(4,5) that by (simp add: quote_of_snapshot_def)
  assume "0 < wt_price t \<and> wt_price t < 1 / 20000"
  then obtain e where "quote_of_snapshot R s (Some snap) = Inl e" using tiny_price[OF assms(4) _ _ assms(5)] by blast
  from failing_batch[where fetch = fetch and k = k and upper = "js_set (map to_upper symbols)", OF assms(2,1,3) this]
  show "\<exists>e. alpaca_quotes R fetch symbols = Inl e"
    by (simp add: alpaca_quotes_def)
qed

section \<open>Witnesses\<close>

definition demo_feed :: feed_runtime where
  "demo_feed = \<lparr>jd_parse = (\<lambda>s. if s = ''t'' then Some 5 else None), jd_iso = (\<lambda>_. []), jd_collation = map of_char,
     fd_date = (\<lambda>_. ''d''), fd_number = (\<lambda>_. [])\<rparr>"

definition demo_snapshot :: "rat \<Rightarrow> wire_snapshot" where
  "demo_snapshot p = \<lparr>ws_trade = Some \<lparr>wt_price = p, wt_time = ''t''\<rparr>, ws_quote = None, ws_daily = None, ws_previous = None\<rparr>"

definition demo_snapshots :: snapshot_fetch where
  "demo_snapshots batch = Reply 200 (Some (if ''ABC'' \<in> set batch then [(''ABC'', Some (demo_snapshot 12))] else []))"

theorem alpaca_quotes_pointwise_witness:
  "\<exists>qs q. alpaca_quotes demo_feed demo_snapshots [''abc'', ''ABC'', ''x''] = Inr qs \<and> map_of qs ''ABC'' = Some q \<and> qt_last q = 120000
     \<and> map_of qs ''X'' = None"
proof -
  let ?snaps = "\<lambda>s. if s = ''ABC'' then Some (Some (demo_snapshot 12)) else None"
  have upper: "to_upper ''abc'' = ''ABC''" "to_upper ''ABC'' = ''ABC''" "to_upper ''x'' = ''X''" by code_simp+
  have feed: "faithful_feed demo_snapshots ?snaps"
    by (auto simp: faithful_feed_def demo_snapshots_def feed_request_def)
  have "\<lfloor>(240001 :: rat) / 2\<rfloor> = 120000" by (rule floor_unique) simp_all
  then have "feed_px demo_feed 12 = Inr 120000" using feed_px_exact[of 12 demo_feed] by (simp add: ten_thousandths_def)
  then obtain q where q: "quote_of_snapshot demo_feed ''ABC'' (Some (demo_snapshot 12)) = Inr (Some q)" "qt_last q = 120000"
    by (auto simp: quote_of_snapshot_def demo_snapshot_def demo_feed_def reference_close_def px_if_positive_def Let_def)
  have ok: "\<exists>q. quote_of_snapshot demo_feed s snap = Inr q" if "?snaps s = Some snap" for s snap
    using that q(1) by (auto split: if_splits)
  then have none: "(\<exists>s \<in> to_upper ` set [''abc'', ''ABC'', ''x'']. \<exists>snap e. ?snaps s = Some snap \<and> quote_of_snapshot demo_feed s snap = Inl e) = False"
    by fastforce
  obtain qs where "alpaca_quotes demo_feed demo_snapshots [''abc'', ''ABC'', ''x''] = Inr qs"
    "\<forall>s. map_of qs s = (if s \<in> to_upper ` set [''abc'', ''ABC'', ''x''] then quote_known demo_feed ?snaps s else None)"
    using alpaca_quotes_pointwise[OF feed, of "[''abc'', ''ABC'', ''x'']" demo_feed] none by (simp only: if_False) blast
  then show ?thesis using q by (intro exI[of _ qs] exI[of _ q]) (simp add: upper quote_known_def)
qed

theorem tiny_price_fails_call_witness:
  "\<exists>e. alpaca_quotes demo_feed (\<lambda>_. Reply 200 (Some [(''ABC'', Some (demo_snapshot 12)), (''TINY'', Some (demo_snapshot (1 / 100000)))])) [''ABC''] = Inl e"
proof -
  let ?entries = "[(''ABC'', Some (demo_snapshot 12)), (''TINY'', Some (demo_snapshot (1 / 100000)))]"
  have "feed_request ((\<lambda>_. Reply 200 (Some ?entries)) (take snapshot_batch (drop (0 * snapshot_batch) (js_set (map to_upper [''ABC'']))))) = Inr ?entries"
    by (simp add: feed_request_def)
  moreover have "0 * snapshot_batch < length (js_set (map to_upper [''ABC'']))" by (simp add: js_set_def)
  moreover have "(''TINY'', Some (demo_snapshot (1 / 100000))) \<in> set ?entries" by simp
  ultimately show ?thesis
    using tiny_price_fails_call[of 0 "[''ABC'']" _ ?entries "''TINY''" "demo_snapshot (1 / 100000)"
      "\<lparr>wt_price = 1 / 100000, wt_time = ''t''\<rparr>" demo_feed 5]
    by (simp add: demo_snapshot_def[of "1 / 100000"] demo_feed_def)
qed

end
