(* ===== verification/Fixture_Feed.thy ===== *)
theory Fixture_Feed
  imports Alpaca_Feed Instruments "HOL-Library.Word" "HOL-Library.Sublist"
begin

unbundle bit_operations_syntax

text \<open>
  The deterministic market data of tests and offline development (\<^verbatim>\<open>src/infra/market-data/fixture.ts\<close>): fixed prices,
  quotes around them, and candles from a generator with 32 bits of state. The generator is modelled on words; the
  floating-point numbers of the candles are abstract, with the operations of the code as a record \<open>js_numbers\<close>. A
  \<open>Map\<close> is an association list in insertion order.
\<close>

section \<open>The generator\<close>

text \<open>The seed of a text: \<open>(seed * 31 + code) >>> 0\<close> per character.\<close>

definition seed_of :: "string \<Rightarrow> 32 word" where
  "seed_of s = foldl (\<lambda>seed c. seed * 31 + of_nat (of_char c)) 0 s"

definition seed_step :: "32 word \<Rightarrow> 32 word" where
  "seed_step seed = seed + 0x6d2b79f5"

text \<open>The number drawn after a step, in units of \<open>2\<^sup>-\<^sup>3\<^sup>2\<close>; \<open>>>>\<close> shifts in zeros and \<open>Math.imul\<close> wraps.\<close>

definition mulberry :: "32 word \<Rightarrow> 32 word" where
  "mulberry seed =
     (let t = seed;
          t = (t XOR drop_bit 15 t) * (t OR 1);
          t = t XOR (t + (t XOR drop_bit 7 t) * (t OR 61))
      in t XOR drop_bit 14 t)"

text \<open>One call of the generator: the number in \<open>[0, 1)\<close> and the new state.\<close>

definition rand :: "32 word \<Rightarrow> rat \<times> 32 word" where
  "rand seed = (of_nat (unat (mulberry (seed_step seed))) / 2 ^ 32, seed_step seed)"

section \<open>The provider\<close>

record 'n js_numbers =
  nm_lit :: "rat \<Rightarrow> 'n"
  nm_parse :: "string \<Rightarrow> 'n"
  nm_add :: "'n \<Rightarrow> 'n \<Rightarrow> 'n"
  nm_sub :: "'n \<Rightarrow> 'n \<Rightarrow> 'n"
  nm_mul :: "'n \<Rightarrow> 'n \<Rightarrow> 'n"
  nm_div :: "'n \<Rightarrow> 'n \<Rightarrow> 'n"
  nm_max :: "'n \<Rightarrow> 'n \<Rightarrow> 'n"
  nm_min :: "'n \<Rightarrow> 'n \<Rightarrow> 'n"
  nm_fixed4 :: "'n \<Rightarrow> string"

record fixture_instrument =
  fx_symbol :: string
  fx_name :: string
  fx_exchange :: string
  fx_price :: string
  fx_previous :: "string option"

record fixture_provider =
  fp_rows :: "(string \<times> fixture_instrument) list"
  fp_status :: "market_status option"
  fp_ts :: "time option"

definition default_previous_close :: "'n js_numbers \<Rightarrow> fixture_instrument \<Rightarrow> string" where
  "default_previous_close N f =
     (let move = nm_mul N (nm_sub N (nm_lit N (fst (rand (seed_of (fx_symbol f @ '':prev''))))) (nm_lit N (1 / 2))) (nm_lit N (1 / 25))
      in nm_fixed4 N (nm_div N (nm_parse N (fx_price f)) (nm_add N (nm_lit N 1) move)))"

definition fixture_provider_of :: "'n js_numbers \<Rightarrow> fixture_instrument list \<Rightarrow> fixture_provider" where
  "fixture_provider_of N fs =
     \<lparr>fp_rows = fold (\<lambda>f. AList.update (fx_symbol f)
        (f\<lparr>fx_previous := Some (case fx_previous f of Some p \<Rightarrow> p | None \<Rightarrow> default_previous_close N f)\<rparr>)) fs [],
      fp_status = None, fp_ts = None\<rparr>"

definition set_price :: "string \<Rightarrow> string \<Rightarrow> fixture_provider \<Rightarrow> unit result \<times> fixture_provider" where
  "set_price symbol price p =
     (case map_of (fp_rows p) symbol of
        None \<Rightarrow> (Inl UnknownSymbol, p)
      | Some f \<Rightarrow>
          (case px_from_string price of
             Inl e \<Rightarrow> (Inl e, p)
           | Inr x \<Rightarrow> (Inr (), p\<lparr>fp_rows := AList.update symbol (f\<lparr>fx_price := px_to_string x\<rparr>) (fp_rows p)\<rparr>)))"

definition set_market_status :: "market_status option \<Rightarrow> fixture_provider \<Rightarrow> fixture_provider" where
  "set_market_status st p = p\<lparr>fp_status := st\<rparr>"

definition set_quote_timestamp :: "time option \<Rightarrow> fixture_provider \<Rightarrow> fixture_provider" where
  "set_quote_timestamp ts p = p\<lparr>fp_ts := ts\<rparr>"

definition fixture_search :: "fixture_provider \<Rightarrow> string \<Rightarrow> instrument_summary list" where
  "fixture_search p query =
     (let q = to_upper (js_trim query)
      in if q = [] then []
         else map (\<lambda>f. \<lparr>is_symbol = fx_symbol f, is_name = fx_name f, is_exchange = fx_exchange f\<rparr>)
           (take 10 (filter (\<lambda>f. prefix q (fx_symbol f) \<or> sublist q (to_upper (fx_name f))) (map snd (fp_rows p)))))"

definition fixture_quote :: "decimal_lib \<Rightarrow> time \<Rightarrow> fixture_provider \<Rightarrow> string \<Rightarrow> full_quote result" where
  "fixture_quote D now p symbol =
     (case map_of (fp_rows p) (to_upper symbol) of
        None \<Rightarrow> Inl UnknownSymbol
      | Some f \<Rightarrow>
          ebind (px_from_string (fx_price f)) (\<lambda>latest.
          let spread = dec_dp D 4 (px_rat latest * (5 / 10000)); ts = (case fp_ts p of Some t \<Rightarrow> t | None \<Rightarrow> now)
          in ebind (px_from_string (fixed_text 4 (latest - spread))) (\<lambda>bid.
             ebind (px_from_string (fixed_text 4 (latest + spread))) (\<lambda>ask.
             ebind (px_or_null (fx_previous f)) (\<lambda>previous.
               Inr \<lparr>qt_symbol = fx_symbol f, qt_bid = Some bid, qt_ask = Some ask, qt_last = latest, qt_ts = ts,
                    qt_previous_close = previous, fq_bid_size = Some 100, fq_ask_size = Some 100, fq_source = ''fixture''\<rparr>)))))"

fun fixture_quotes :: "decimal_lib \<Rightarrow> time \<Rightarrow> fixture_provider \<Rightarrow> string list \<Rightarrow> (string \<times> full_quote) list \<Rightarrow> (string \<times> full_quote) list result" where
  "fixture_quotes D now p [] out = Inr out"
| "fixture_quotes D now p (s # ss) out =
     (case fixture_quote D now p s of
        Inr q \<Rightarrow> fixture_quotes D now p ss (AList.update (to_upper s) q out)
      | Inl e \<Rightarrow> if e = UnknownSymbol then fixture_quotes D now p ss out else Inl e)"

definition fixture_status :: "(time \<Rightarrow> string \<times> int \<times> int) \<Rightarrow> time \<Rightarrow> fixture_provider \<Rightarrow> market_status \<times> time" where
  "fixture_status parts now p =
     (case fp_status p of Some st \<Rightarrow> st
      | None \<Rightarrow> (case parts now of (weekday, hour, minute) \<Rightarrow> market_status_at weekday hour minute), now)"

section \<open>Candles\<close>

definition range_bars :: "candle_range \<Rightarrow> nat \<times> int" where
  "range_bars r =
     (case r of
        R1D \<Rightarrow> (78, 5 * 60000) | R1W \<Rightarrow> (65, 60 * 60000) | R1M \<Rightarrow> (22, day_ms)
      | R3M \<Rightarrow> (66, day_ms) | R1Y \<Rightarrow> (252, day_ms) | R5Y \<Rightarrow> (260, 7 * day_ms))"

text \<open>The walk backwards from the price: the closes in reverse order, and the state of the generator after it.\<close>

fun walk_back :: "'n js_numbers \<Rightarrow> nat \<Rightarrow> 'n \<Rightarrow> 32 word \<Rightarrow> 'n list \<times> 32 word" where
  "walk_back N 0 price seed = ([], seed)"
| "walk_back N (Suc k) price seed =
     (case rand seed of
        (r, seed1) \<Rightarrow>
          let price1 = nm_div N price (nm_add N (nm_lit N 1) (nm_mul N (nm_sub N (nm_lit N r) (nm_lit N (495 / 1000))) (nm_lit N (2 / 100))))
          in case walk_back N k price1 seed1 of (rest, seed2) \<Rightarrow> (price1 # rest, seed2))"

text \<open>Three numbers are drawn per bar: for the high, for the low, and for the volume, which is not modelled.\<close>

fun bars_forward :: "'n js_numbers \<Rightarrow> time \<Rightarrow> int \<Rightarrow> 'n \<Rightarrow> 'n list \<Rightarrow> 32 word \<Rightarrow> candle list" where
  "bars_forward N till step before [] seed = []"
| "bars_forward N till step before (close # later) seed =
     (case rand seed of
        (r1, seed1) \<Rightarrow>
     (case rand seed1 of
        (r2, seed2) \<Rightarrow>
     (case rand seed2 of
        (r3, seed3) \<Rightarrow>
          let high = nm_mul N (nm_max N before close) (nm_add N (nm_lit N 1) (nm_mul N (nm_lit N r1) (nm_lit N (5 / 1000))));
              low = nm_mul N (nm_min N before close) (nm_sub N (nm_lit N 1) (nm_mul N (nm_lit N r2) (nm_lit N (5 / 1000))))
          in \<lparr>cd_time = till - int (length later) * step, cd_open = nm_fixed4 N before, cd_high = nm_fixed4 N high,
              cd_low = nm_fixed4 N low, cd_close = nm_fixed4 N close\<rparr> # bars_forward N till step close later seed3)))"

definition fixture_candles :: "'n js_numbers \<Rightarrow> time \<Rightarrow> fixture_provider \<Rightarrow> string \<Rightarrow> candle_range \<Rightarrow> candle list result" where
  "fixture_candles N now p symbol r =
     (case map_of (fp_rows p) (to_upper symbol) of
        None \<Rightarrow> Inl UnknownSymbol
      | Some f \<Rightarrow>
          (case range_bars r of
             (count, step) \<Rightarrow>
               (let price = nm_parse N (fx_price f)
                in case walk_back N (count - 1) price (seed_of (fx_symbol f @ '':'' @ range_name r)) of
                     (older, seed) \<Rightarrow>
                       (let closes = rev (price # older) in Inr (bars_forward N now step (hd closes) closes seed)))))"

definition fixture_feed :: "decimal_lib \<Rightarrow> 'n js_numbers \<Rightarrow> (time \<Rightarrow> string \<times> int \<times> int) \<Rightarrow> time \<Rightarrow> fixture_provider \<Rightarrow> market_provider" where
  "fixture_feed D N parts now p =
     \<lparr>mp_quote = fixture_quote D now p, mp_quotes = (\<lambda>ss. fixture_quotes D now p ss []), mp_candles = fixture_candles N now p,
      mp_status = Inr (fixture_status parts now p)\<rparr>"

section \<open>The generator does not repeat\<close>

lemma seed_steps: "(seed_step ^^ n) s = s + of_nat n * 0x6d2b79f5"
  by (induction n) (simp_all add: seed_step_def algebra_simps)

lemma step_inverse: "(0x6d2b79f5 :: 32 word) * 3696798301 = 1"
  by (transfer, simp add: take_bit_eq_mod)

lemma seeds_distinct: "inj_on (\<lambda>n. (seed_step ^^ n) s) {..<2 ^ 32}"
proof (rule inj_onI)
  fix m n :: nat assume mn: "m \<in> {..<2 ^ 32}" "n \<in> {..<2 ^ 32}" "(seed_step ^^ m) s = (seed_step ^^ n) s"
  then have "(of_nat m :: 32 word) * 0x6d2b79f5 = of_nat n * 0x6d2b79f5" by (simp add: seed_steps)
  then have "(of_nat m :: 32 word) * (0x6d2b79f5 * 3696798301) = of_nat n * (0x6d2b79f5 * 3696798301)"
    by (simp only: mult.assoc[symmetric])
  then have "(of_nat m :: 32 word) = of_nat n" unfolding step_inverse by simp
  then have "unat (of_nat m :: 32 word) = unat (of_nat n :: 32 word)" by simp
  then show "m = n" using mn(1,2) by (simp add: unat_of_nat take_bit_nat_eq_self)
qed

lemma rand_bounds: "0 \<le> fst (rand s) \<and> fst (rand s) < 1"
proof -
  define n where "n = unat (mulberry (seed_step s))"
  have "n < 2 ^ 32" unfolding n_def using unsigned_less[of "mulberry (seed_step s)"] by simp
  then have "(of_nat n :: rat) < of_nat (2 ^ 32)" by (simp only: of_nat_less_iff)
  moreover have "fst (rand s) = of_nat n / 2 ^ 32" by (simp only: rand_def n_def fst_conv)
  ultimately show ?thesis by simp
qed

text \<open>
  C40: The generator has the full period. From any seed the states of the first \<open>2\<^sup>3\<^sup>2\<close> draws are all different, and every
  number drawn is at least zero and less than one.
\<close>

theorem generator_full_period:
  "card ((\<lambda>n. (seed_step ^^ n) s) ` {..<2 ^ 32}) = 2 ^ 32 \<and> 0 \<le> fst (rand s) \<and> fst (rand s) < 1"
  using card_image[OF seeds_distinct] rand_bounds by simp

section \<open>The quotes and candles\<close>

lemma fixed_px: "px_from_string (fixed_text 4 u) = (if 0 < u then Inr u else Inl (InvariantViolation ''Px must be positive''))"
  if "0 \<le> u" using that by (simp add: px_from_string_def px_re_def decimal_re_fixed_text invariant_def)

definition fixture_rows_ok :: "fixture_provider \<Rightarrow> bool" where
  "fixture_rows_ok p \<longleftrightarrow> (\<forall>(s, f) \<in> set (fp_rows p). (\<exists>x. px_from_string (fx_price f) = Inr x)
     \<and> (\<exists>y. px_or_null (fx_previous f) = Inr y))"

context decimal_arith begin

lemma spread_small:
  assumes "0 < p"
  shows "0 \<le> dec_dp D 4 (px_rat p * (5 / 10000))" "dec_dp D 4 (px_rat p * (5 / 10000)) < p"
    "2000 * dec_dp D 4 (px_rat p * (5 / 10000)) \<le> p + 1000"
proof -
  let ?d = "dec_dp D 4 (px_rat p * (5 / 10000))"
  have x: "px_rat p * (5 / 10000) * 10 ^ 4 = of_int p / 2000" by simp
  have "\<bar>of_int ?d - of_int p / 2000\<bar> \<le> (1/2 :: rat)" using dp_error[of 4 "px_rat p * (5 / 10000)"] unfolding x .
  then have "(of_int (2000 * ?d) :: rat) \<le> of_int (p + 1000)" by (simp add: field_simps)
  then show le: "2000 * ?d \<le> p + 1000" by (simp only: of_int_le_iff)
  show "0 \<le> ?d" by (rule dp_nonneg) (use assms in simp)
  show "?d < p" using le assms by linarith
qed

lemma fixture_quote_answers:
  assumes "map_of (fp_rows p) (to_upper s) = Some f" "px_from_string (fx_price f) = Inr x" "px_or_null (fx_previous f) = Inr y"
  shows "\<exists>q bid ask. fixture_quote D now p s = Inr q \<and> qt_symbol q = fx_symbol f \<and> qt_last q = x \<and> qt_previous_close q = y
    \<and> qt_ts q = (case fp_ts p of Some t \<Rightarrow> t | None \<Rightarrow> now)
    \<and> qt_bid q = Some bid \<and> qt_ask q = Some ask \<and> 0 < bid \<and> bid \<le> x \<and> x \<le> ask \<and> 1000 * (ask - bid) \<le> x + 1000"
proof -
  have x: "0 < x" using px_from_string_pos[OF assms(2)] .
  note d = spread_small[OF x]
  let ?d = "dec_dp D 4 (px_rat x * (5 / 10000))"
  have "px_from_string (fixed_text 4 (x - ?d)) = Inr (x - ?d)" "px_from_string (fixed_text 4 (x + ?d)) = Inr (x + ?d)"
    using fixed_px[of "x - ?d"] fixed_px[of "x + ?d"] d(1,2) x by simp_all
  then show ?thesis using assms d by (simp add: fixture_quote_def Let_def)
qed

end

lemma length_walk: "length (fst (walk_back N k price seed)) = k"
  by (induction k arbitrary: price seed) (simp_all add: Let_def split_def)

lemma length_bars: "length (bars_forward N t step before closes seed) = length closes"
  by (induction closes arbitrary: before seed) (simp_all add: Let_def split_def)

lemma bars_closes: "map cd_close (bars_forward N t step before closes seed) = map (nm_fixed4 N) closes"
  by (induction closes arbitrary: before seed) (simp_all add: Let_def split_def)

lemma bars_opens: "map cd_open (bars_forward N t step before closes seed) = map (nm_fixed4 N) (butlast (before # closes))"
  by (induction closes arbitrary: before seed) (simp_all add: Let_def split_def)

lemma bars_times: "map cd_time (bars_forward N t step before closes seed) = map (\<lambda>i. t - int (length closes - 1 - i) * step) [0..<length closes]"
proof (induction closes arbitrary: before seed)
  case (Cons c cs)
  have "map (\<lambda>i. t - int (length cs - i) * step) [0..<Suc (length cs)]
      = (t - int (length cs) * step) # map (\<lambda>i. t - int (length cs - 1 - i) * step) [0..<length cs]"
    by (simp add: upt_conv_Cons map_Suc_upt[symmetric] comp_def del: upt_Suc)
  then show ?case using Cons.IH by (simp add: Let_def split_def del: upt_Suc)
qed simp

text \<open>
  The fixture's chart ends at its price. The candles of a known symbol are as many as the range has, one step apart and
  ending now; each opens where the one before closed, and the last one closes at the fixed price.
\<close>

theorem fixture_candles_end_at_price:
  assumes "map_of (fp_rows p) (to_upper s) = Some f"
  shows "\<exists>cs. fixture_candles N now p s r = Inr cs \<and> length cs = fst (range_bars r)
    \<and> cd_time (last cs) = now \<and> cd_close (last cs) = nm_fixed4 N (nm_parse N (fx_price f))
    \<and> (\<forall>i. Suc i < length cs \<longrightarrow> cd_open (cs ! Suc i) = cd_close (cs ! i) \<and> cd_time (cs ! Suc i) = cd_time (cs ! i) + snd (range_bars r))"
proof -
  obtain count step where rb: "range_bars r = (count, step)" by (rule prod.exhaust)
  have count: "0 < count" using rb by (cases r) (auto simp: range_bars_def)
  let ?price = "nm_parse N (fx_price f)"
  obtain older seed where w: "walk_back N (count - 1) ?price (seed_of (fx_symbol f @ '':'' @ range_name r)) = (older, seed)" by (rule prod.exhaust)
  define closes where "closes = rev (?price # older)"
  define cs where "cs = bars_forward N now step (hd closes) closes seed"
  have len: "length closes = count" using arg_cong[OF w, of "\<lambda>x. length (fst x)"] count by (simp add: length_walk closes_def)
  have n: "length cs = count" by (simp add: cs_def length_bars len)
  have entry: "cd_close (cs ! i) = nm_fixed4 N (closes ! i)" "cd_time (cs ! i) = now - int (count - 1 - i) * step"
    "cd_open (cs ! i) = nm_fixed4 N ((hd closes # closes) ! i)" if "i < count" for i
  proof -
    show "cd_close (cs ! i) = nm_fixed4 N (closes ! i)"
      using arg_cong[OF bars_closes[of N now step "hd closes" closes seed, folded cs_def], of "\<lambda>xs. xs ! i"] that n len by simp
    show "cd_time (cs ! i) = now - int (count - 1 - i) * step"
      using arg_cong[OF bars_times[of N now step "hd closes" closes seed, folded cs_def], of "\<lambda>xs. xs ! i"] that n len by simp
    show "cd_open (cs ! i) = nm_fixed4 N ((hd closes # closes) ! i)"
      using arg_cong[OF bars_opens[of N now step "hd closes" closes seed, folded cs_def], of "\<lambda>xs. xs ! i"] that n len by (simp add: nth_butlast del: butlast.simps)
  qed
  have "last cs = cs ! (count - 1)" using n count by (metis last_conv_nth length_greater_0_conv)
  moreover have "closes ! (count - 1) = ?price" using len by (auto simp: closes_def nth_append)
  moreover have "fixture_candles N now p s r = Inr cs"
    using assms rb w by (simp add: fixture_candles_def Let_def cs_def closes_def)
  moreover have "cd_time (cs ! Suc i) = cd_time (cs ! i) + step" if "Suc i < count" for i
    using entry(2)[of i] entry(2)[of "Suc i"] that by (simp add: of_nat_diff algebra_simps)
  ultimately show ?thesis using entry n rb count by (intro exI[of _ cs]) (simp add: entry)
qed

text \<open>
  Every fixture quote is a market. If the prices of the rows are prices, a known symbol, in any letter case, has a quote at
  its price, with a positive bid below and an ask above it whose distance is a tenth of a percent and at most one tick more.
\<close>

theorem fixture_quotes_are_markets:
  assumes "decimal_arith D" "fixture_rows_ok p" "map_of (fp_rows p) (to_upper s) = Some f"
  shows "\<exists>q bid ask. fixture_quote D now p s = Inr q \<and> px_from_string (fx_price f) = Inr (qt_last q) \<and> qt_bid q = Some bid \<and> qt_ask q = Some ask
    \<and> 0 < bid \<and> bid \<le> qt_last q \<and> qt_last q \<le> ask \<and> 1000 * (ask - bid) \<le> qt_last q + 1000"
proof -
  have "(to_upper s, f) \<in> set (fp_rows p)" using assms(3) by (rule map_of_SomeD)
  then obtain x y where "px_from_string (fx_price f) = Inr x" "px_or_null (fx_previous f) = Inr y"
    using assms(2) by (fastforce simp: fixture_rows_ok_def)
  from decimal_arith.fixture_quote_answers[OF assms(1,3) this, of now] this(1) show ?thesis by auto
qed

section \<open>Witnesses\<close>

definition demo_fixture :: fixture_provider where
  "demo_fixture = \<lparr>fp_rows = [(''KO'', \<lparr>fx_symbol = ''KO'', fx_name = ''Coca-Cola'', fx_exchange = ''NYSE'',
     fx_price = px_to_string 632500, fx_previous = None\<rparr>)], fp_status = None, fp_ts = None\<rparr>"

definition unit_numbers :: "unit js_numbers" where
  "unit_numbers = \<lparr>nm_lit = (\<lambda>_. ()), nm_parse = (\<lambda>_. ()), nm_add = (\<lambda>_ _. ()), nm_sub = (\<lambda>_ _. ()), nm_mul = (\<lambda>_ _. ()),
     nm_div = (\<lambda>_ _. ()), nm_max = (\<lambda>_ _. ()), nm_min = (\<lambda>_ _. ()), nm_fixed4 = (\<lambda>_. ''1.0000'')\<rparr>"

lemma demo_ko: "to_upper ''ko'' = ''KO''"
  by code_simp

theorem fixture_quotes_are_markets_witness:
  "\<exists>q bid ask. fixture_quote js_decimal 9 demo_fixture ''ko'' = Inr q \<and> qt_bid q = Some bid \<and> qt_ask q = Some ask
     \<and> qt_last q = 632500 \<and> 0 < bid \<and> bid \<le> 632500 \<and> 632500 \<le> ask \<and> ask - bid \<le> 633"
proof -
  have ok: "fixture_rows_ok demo_fixture" by (simp add: fixture_rows_ok_def demo_fixture_def px_or_null_def)
  have row: "map_of (fp_rows demo_fixture) (to_upper ''ko'') = Some (snd (hd (fp_rows demo_fixture)))"
    by (simp add: demo_ko demo_fixture_def)
  have "px_from_string (fx_price (snd (hd (fp_rows demo_fixture)))) = Inr 632500" by (simp add: demo_fixture_def)
  then show ?thesis
    using fixture_quotes_are_markets[OF js.decimal_arith_axioms ok row, of 9] by auto
qed

theorem fixture_candles_end_at_price_witness:
  "\<exists>cs. fixture_candles unit_numbers 9 demo_fixture ''ko'' R1D = Inr cs \<and> length cs = 78 \<and> cd_time (last cs) = 9
     \<and> cd_time (cs ! 1) = cd_time (cs ! 0) + 300000"
proof -
  have row: "map_of (fp_rows demo_fixture) (to_upper ''ko'') = Some (snd (hd (fp_rows demo_fixture)))"
    by (simp add: demo_ko demo_fixture_def)
  from fixture_candles_end_at_price[OF row, of unit_numbers 9 R1D] obtain cs where
    cs: "fixture_candles unit_numbers 9 demo_fixture ''ko'' R1D = Inr cs" "length cs = 78" "cd_time (last cs) = 9"
      "\<forall>i. Suc i < length cs \<longrightarrow> cd_time (cs ! Suc i) = cd_time (cs ! i) + 300000"
    by (auto simp: range_bars_def)
  have "cd_time (cs ! Suc 0) = cd_time (cs ! 0) + 300000" by (rule cs(4)[rule_format]) (simp add: cs(2))
  then show ?thesis using cs(1-3) by auto
qed

end
