(* ===== verification/Spec2Isabelle.thy ===== *)
theory Spec2Isabelle
  imports Orders_Correct Market_Data Portfolio Execution_Submit Cash_Safety Det_Cash Account_Reset Alerts_Correct
    Alpaca_Stream_Correct Alpaca_Paging Equity_Series_Correct Api_Orders Client_Prices Worker Cached_Market_Correct
    Ledger_Pages Api_Portfolio Order_Typing Watchlist_Quotes Key_Stats Fixture_Feed
begin

text \<open>
  A verification development for Arthosrot, a paper-trading platform for US stocks written in TypeScript.

  \<^bold>\<open>The program.\<close> A user opens a paper account with a starting cash balance, places orders, moves paper
  cash in and out, sets price alerts and looks at a portfolio. The core (\<^verbatim>\<open>src/src/core\<close>) holds the rules and
  the services; it works on a PostgreSQL database through repositories (\<^verbatim>\<open>src/src/infra/db\<close>) and on an execution
  venue through the broker port: the deterministic venue of tests and development, or Alpaca's paper API
  (\<^verbatim>\<open>src/src/infra/brokers/alpaca\<close>). The web server answers requests (\<^verbatim>\<open>src/src/server/api\<close>), the worker process
  (\<^verbatim>\<open>src/src/worker\<close>) follows the event stream of the venue, reconciles and runs the scheduled jobs, and the
  browser repeats some of the arithmetic before it sends a request (\<^verbatim>\<open>src/src/lib\<close>). An order is placed in
  one transaction (the reservation is taken under the account lock), sent to the venue after it, and changed
  afterwards only by events of the venue, which arrive by the stream, by the submission or by reconciliation,
  at least once and in any order; the ledger is append-only and the cash of an account its projection.

  \<^bold>\<open>How the code is read.\<close> A component is one theory: its records and datatypes in the order of the source, one
  definition per operation, under the source's name where Isabelle allows it. Exceptions are values
  (\<open>'a result\<close> of theory Prelude); a service method that runs in one transaction is a function from the
  database to a result with the changed database, and \<open>run_tx\<close> (Effects) drops the changes of a transaction that
  throws; code outside a transaction keeps what it wrote. A database is the record \<open>db\<close> (Database) of lists of
  rows with the constraints of the schema as \<open>schema_ok\<close>. Concurrency is the interleaving of committed
  transactions, in any order, which is what row locks and serial ids give; the relation of theory System has
  one step per transaction of every service. Money is an integer number of cents, a price of ten-thousandths,
  a quantity of shares, as in \<^verbatim>\<open>money.ts\<close>. Numbers in text are read and written by the functions of Js_Text and
  Js_Bigint, character for character.

  \<^bold>\<open>Parameters.\<close> Code outside the repository is an argument with a stated contract. The rounding of decimal.js
  is \<open>D\<close> under the locale \<open>decimal_arith\<close> (Decimal), with the instance \<open>js_decimal\<close> that satisfies it. A venue
  is a record of functions (\<open>broker\<close>, Execution) under the locale \<open>venue_port\<close> (Execution_Submit); both venues of
  the program are proved to satisfy it. The HTTP interface of Alpaca, quotes, candles, dates (\<open>js_runtime\<close>), collation,
  UUIDs and error texts are arguments.

  \<^bold>\<open>Interfaces.\<close> Locales state what a client relies on, and each is interpreted on the model of the code that
  provides it: \<open>decimal_arith\<close> (Decimal); \<open>cash_projection\<close> (Ledger) on the accounts repository; \<open>exactly_once\<close>
  (Execution_Correct), a consumer that records the keys it has seen, on the delivery of events; \<open>venue_port\<close> on the
  deterministic venue and on Alpaca's; \<open>venue_frame\<close> (Det_Broker_Correct), what a venue operation leaves alone, on
  the delivery, the naming and the registry of the deterministic venue; \<open>recon_frame\<close> (Reconciliation_Correct),
  which extends \<open>venue_port\<close>; and \<open>job_bookkeeping\<close> (Job_Runs) on the job-runs repository.

  \<^bold>\<open>Theories.\<close> Shared ground: Prelude, Shared (\<^verbatim>\<open>core/shared\<close>), Effects, Js_Text, Js_Case, Js_Bigint, Decimal, Money
  (\<^verbatim>\<open>core/money\<close>).
  Data: State_Machine (\<^verbatim>\<open>core/orders/types.ts\<close>, \<^verbatim>\<open>state-machine.ts\<close>), Database (\<^verbatim>\<open>infra/db/schema.ts\<close>), Repositories.
  Trading: Ledger, Orders and Orders_Correct (\<^verbatim>\<open>core/orders/service.ts\<close>), Market_Data, Portfolio,
  Execution, Execution_Correct, Event_Delivery and Execution_Submit (\<^verbatim>\<open>core/execution\<close>), Reconciliation and
  Reconciliation_Correct, Equity_Series and Equity_Series_Correct.
  Cash and accounts: Cash_Rules, Cash_Transfers, Cash_Transfers_Correct and Cash_Safety (\<^verbatim>\<open>core/cash-transfers\<close>),
  Accounts and Accounts_Correct, Account_Reset.
  Venues: Det_Broker, Det_Broker_Correct, Det_Cash (the deterministic venue); Alpaca_Translate, Alpaca_Broker,
  Alpaca_Correct, Alpaca_Paging, Alpaca_Stream, Alpaca_Stream_Correct.
  Around them: Alert_Rules, Alerts, Alerts_Correct (\<^verbatim>\<open>core/alerts\<close>); Instruments; Cached_Market_Data and
  Cached_Market_Correct (\<^verbatim>\<open>infra/market-data/cached.ts\<close>), Alpaca_Feed and Fixture_Feed (the two feeds behind it); Ranking, Top100, Movers and Fundamentals
  (\<^verbatim>\<open>core/discovery\<close> and its job); Sec_Edgar (\<^verbatim>\<open>infra/sec-edgar\<close>).
  Edges: Http (the error envelope and the session guard), Rate_Limit, Api_Orders and Order_Typing, Api_Market, Api_Portfolio, Ledger_Pages, Watchlists,
  Watchlist_Quotes and Key_Stats (\<^verbatim>\<open>server/api\<close>); Job_Runs, Worker (\<^verbatim>\<open>worker\<close>); Client_Cash, Order_Ticket,
  Client_Prices (\<^verbatim>\<open>lib\<close>).
  The composition: System, whose relation takes steps of all services.

  \<^bold>\<open>What is shown.\<close> The chief theorems are about composition: any interleaving of the services keeps the schema, the
  trading invariant, the ledger balance and the transfer invariant, and the cash of an account is
  explained to the cent by its opening deposit, settled transfers and fills (System). Below them: an order follows
  its life cycle and is within the means of the account; an execution is booked exactly once whatever is
  delivered again; a transfer settles exactly once; a venue fill is in one place only; reconciliation gives every
  account its verdict; both venues honour the contract. The read side is equivalent to plain specifications
  (replay of fills and stored positions, the chart walk and the worth at each bar, trailing earnings and the last four
  quarters). Every stored order is well-typed (Order_Typing). Round trips and
  exactness carry the text formats. Error theorems show what the code does where it fails, and several are
  findings: an event that is refused blocks the stream, a lease is freed by a late run, the cache masks unknown
  symbols, one tiny price fails the quotes of a whole call, the pages of the ledger skip entries of one instant, and others listed in the manifest.

  \<^bold>\<open>Loops.\<close> Recursion over data is structural or has its measure. The loop of fills of the deterministic venue
  terminates by what remains of the order for every chunk size; the paging loops of the code are bounded by its
  own page limits; the reader of the ledger history reaches the page without a cursor within one page per fifty entries; the worker pool of the watchlist ends after two steps
  per item and one per worker; the batch loop of alerts, which does not end for a batch size that is not positive, is a
  \<open>partial_function\<close> whose termination is a theorem; the stream is followed over a finite list of
  connections of any length.

  \<^bold>\<open>Not modelled.\<close> The user interface (\<^verbatim>\<open>src/src/app\<close>, \<^verbatim>\<open>src/src/components\<close>: React rendering), sign-in and sessions
  (a third-party library configured in \<^verbatim>\<open>server/auth.ts\<close>), HTTP routing, environment and wiring of the
  container, fixed data (catalogue, seeds, quote fixtures), e-mail, logos, log lines and the texts of messages.
\<close>

end
